(* ===== verification/Prelude.thy ===== *)
theory Prelude
  imports Complex_Main "HOL-Library.Word" "HOL-Library.List_Lexorder" "HOL-Library.Sublist"
begin

text \<open>
  Shared vocabulary of the development: bytes and JavaScript strings, JavaScript numbers, the
  error type of the hub (\<^verbatim>\<open>packages/core/src/errors.ts\<close>), the result type of its functions,
  positional digit strings, and big-endian integers as Node's \<^verbatim>\<open>Buffer\<close> writes them.

  A function of the hub either returns a value, returns a neverthrow \<^verbatim>\<open>err\<close>, or throws. The
  three are the constructors of \<open>outcome\<close>; \<open>andThen\<close> is the source's pattern
  ``if the result is an error, return it, otherwise go on with its value''.
\<close>

named_theorems outcome_simps
named_theorems key_simps
named_theorems db_simps

section \<open>Bytes and strings\<close>

type_synonym byte = "8 word"
type_synonym bytes = "byte list"

text \<open>A JavaScript string is a sequence of UTF-16 code units, and its length counts them.\<close>

type_synonym js_string = "16 word list"

definition lit :: "string \<Rightarrow> js_string" where
  "lit s = map of_char s"

lemma lit_Nil [simp]: "lit [] = []"
  by (simp add: lit_def)

lemma lit_Cons [simp]: "lit (c # s) = of_char c # lit s"
  by (simp add: lit_def)

lemma length_lit [simp]: "length (lit s) = length s"
  by (simp add: lit_def)

declare lit_Cons [simp del]

definition join :: "js_string \<Rightarrow> js_string list \<Rightarrow> js_string" where
  "join sep xs = (case xs of [] \<Rightarrow> [] | y # ys \<Rightarrow> y @ concat (map (\<lambda>z. sep @ z) ys))"

definition ends_with :: "'a list \<Rightarrow> 'a list \<Rightarrow> bool" where
  "ends_with s t = (drop (length s - length t) s = t)"

fun split_on :: "'a \<Rightarrow> 'a list \<Rightarrow> 'a list list" where
  "split_on d [] = [[]]"
| "split_on d (x # xs) =
     (if x = d then [] # split_on d xs
      else (case split_on d xs of [] \<Rightarrow> [[x]] | y # ys \<Rightarrow> (x # y) # ys))"

lemma split_on_nonempty [simp]: "split_on d xs \<noteq> []"
  by (induction xs) (auto split: list.splits)

lemma ends_with_append [simp]: "ends_with (s @ t) t"
  by (simp add: ends_with_def)

lemma ends_withD: "ends_with s t \<Longrightarrow> \<exists>p. s = p @ t"
  by (metis append_take_drop_id ends_with_def)

lemma split_on_notin: "d \<notin> set xs \<Longrightarrow> split_on d xs = [xs]"
  by (induction xs) auto

lemma split_on_append: "d \<notin> set xs \<Longrightarrow> split_on d (xs @ d # ys) = xs # split_on d ys"
  by (induction xs) auto

lemma split_on_singleton: "split_on d xs = [ys] \<Longrightarrow> xs = ys \<and> d \<notin> set xs"
  by (induction xs arbitrary: ys) (auto split: if_splits list.splits)

lemma split_on_pair:
  "split_on d xs = [ys, zs] \<Longrightarrow> xs = ys @ d # zs \<and> d \<notin> set ys \<and> d \<notin> set zs"
proof (induction xs arbitrary: ys)
  case Nil
  then show ?case by simp
next
  case (Cons x xs)
  show ?case
  proof (cases "x = d")
    case True
    with Cons.prems show ?thesis by (auto dest: split_on_singleton)
  next
    case False
    with Cons.prems obtain y ys' where "split_on d xs = y # ys'" and "ys = x # y" and "ys' = [zs]"
      by (auto split: list.splits)
    with Cons.IH[of y] False show ?thesis by simp
  qed
qed

section \<open>Errors and results\<close>

text \<open>
  \<^verbatim>\<open>HubErrorCode\<close>. Errors that cross from the native code are cast to it without a check
  (\<^verbatim>\<open>rustErrorToHubError\<close>), which \<open>OtherCode\<close> accounts for.
\<close>

datatype hub_error_code =
    Unauthenticated | Unauthorized
  | BadRequest | ParseFailure | InvalidParam | ValidationFailure | UnknownSigner | Duplicate
  | Conflict | Prunable | NoStorage | UnknownFid
  | NotFound
  | NotImplemented | NotImplementedDeprecated
  | Unavailable | NetworkFailure | StorageFailure
  | UnknownError
  | OtherCode js_string

text \<open>The \<^verbatim>\<open>context\<close> argument of the constructor: a string, an \<^verbatim>\<open>Error\<close> (its message), or
  options of which only the message and the cause's message reach the new error.\<close>

datatype error_context =
    CtxString js_string
  | CtxError js_string
  | CtxOpts "js_string option" "js_string option"

record hub_error =
  errCode :: hub_error_code
  err_message :: js_string
  presentable :: bool

definition new_HubError :: "hub_error_code \<Rightarrow> error_context \<Rightarrow> hub_error" where
  "new_HubError code ctx =
     (let parsed = (case ctx of
                      CtxString m \<Rightarrow> (Some m, None)
                    | CtxError m \<Rightarrow> (Some m, Some m)
                    | CtxOpts m c \<Rightarrow> (m, c));
          msg = (case fst parsed of
                   Some m \<Rightarrow> if m = [] then (case snd parsed of Some c \<Rightarrow> c | None \<Rightarrow> []) else m
                 | None \<Rightarrow> (case snd parsed of Some c \<Rightarrow> c | None \<Rightarrow> []))
      in \<lparr>errCode = code, err_message = msg, presentable = False\<rparr>)"

lemma errCode_new [simp]: "errCode (new_HubError c ctx) = c"
  by (simp add: new_HubError_def Let_def)

lemma err_message_new [simp]: "err_message (new_HubError c (CtxString m)) = m"
  by (simp add: new_HubError_def)

lemma err_message_new_Error [simp]: "err_message (new_HubError c (CtxError m)) = m"
  by (simp add: new_HubError_def)

lemma presentable_new [simp]: "\<not> presentable (new_HubError c ctx)"
  by (simp add: new_HubError_def Let_def)

datatype js_exn =
    HubException hub_error
  | TypeError
  | RangeError
  | JsError js_string

datatype 'a outcome = Ok 'a | Err hub_error | Throw js_exn

definition fail :: "hub_error_code \<Rightarrow> string \<Rightarrow> 'a outcome" where
  "fail c m = Err (new_HubError c (CtxString (lit m)))"

definition fail_js :: "hub_error_code \<Rightarrow> js_string \<Rightarrow> 'a outcome" where
  "fail_js c m = Err (new_HubError c (CtxString m))"

definition throw_hub :: "hub_error_code \<Rightarrow> string \<Rightarrow> 'a outcome" where
  "throw_hub c m = Throw (HubException (new_HubError c (CtxString (lit m))))"

fun andThen :: "'a outcome \<Rightarrow> ('a \<Rightarrow> 'b outcome) \<Rightarrow> 'b outcome" where
  "andThen (Ok x) f = f x"
| "andThen (Err e) f = Err e"
| "andThen (Throw e) f = Throw e"

definition mapOk :: "'a outcome \<Rightarrow> ('a \<Rightarrow> 'b) \<Rightarrow> 'b outcome" where
  "mapOk r f = andThen r (\<lambda>x. Ok (f x))"

fun mapErr :: "'a outcome \<Rightarrow> (hub_error \<Rightarrow> hub_error) \<Rightarrow> 'a outcome" where
  "mapErr (Err e) f = Err (f e)"
| "mapErr (Ok x) f = Ok x"
| "mapErr (Throw e) f = Throw e"

text \<open>\<open>throwErr\<close> is \<^verbatim>\<open>if (r.isErr()) throw r.error\<close>; \<open>fromPromise\<close> is neverthrow's
  \<^verbatim>\<open>ResultAsync.fromPromise\<close> (and \<^verbatim>\<open>Result.fromThrowable\<close>), which turns a thrown error into a
  returned one.\<close>

fun throwErr :: "'a outcome \<Rightarrow> 'a outcome" where
  "throwErr (Err e) = Throw (HubException e)"
| "throwErr (Ok x) = Ok x"
| "throwErr (Throw e) = Throw e"

fun fromPromise :: "'a outcome \<Rightarrow> (js_exn \<Rightarrow> hub_error) \<Rightarrow> 'a outcome" where
  "fromPromise (Throw e) f = Err (f e)"
| "fromPromise (Ok x) f = Ok x"
| "fromPromise (Err e) f = Err e"

fun unwrapOr :: "'a outcome \<Rightarrow> 'a \<Rightarrow> 'a outcome" where
  "unwrapOr (Ok x) d = Ok x"
| "unwrapOr (Err e) d = Ok d"
| "unwrapOr (Throw e) d = Throw e"

fun exn_message :: "js_exn \<Rightarrow> js_string" where
  "exn_message (HubException e) = err_message e"
| "exn_message (JsError m) = m"
| "exn_message TypeError = lit ''TypeError''"
| "exn_message RangeError = lit ''RangeError''"

text \<open>\<^verbatim>\<open>(e) => e as HubError\<close>: a cast, so an error of another class stays what it is; its code
  is then undefined, which \<open>OtherCode []\<close> stands for.\<close>

fun as_HubError :: "js_exn \<Rightarrow> hub_error" where
  "as_HubError (HubException e) = e"
| "as_HubError e = \<lparr>errCode = OtherCode [], err_message = exn_message e, presentable = False\<rparr>"

fun is_ok :: "'a outcome \<Rightarrow> bool" where
  "is_ok (Ok x) = True"
| "is_ok (Err e) = False"
| "is_ok (Throw e) = False"

fun no_throw :: "'a outcome \<Rightarrow> bool" where
  "no_throw (Ok x) = True"
| "no_throw (Err e) = True"
| "no_throw (Throw e) = False"

lemma andThen_Ok_iff [outcome_simps]:
  "andThen r f = Ok y \<longleftrightarrow> (\<exists>x. r = Ok x \<and> f x = Ok y)"
  by (cases r) auto

lemma mapOk_simps [simp]:
  "mapOk (Ok x) f = Ok (f x)" "mapOk (Err e) f = Err e" "mapOk (Throw t) f = Throw t"
  by (simp_all add: mapOk_def)

lemma mapOk_Ok_iff [outcome_simps]: "mapOk r f = Ok y \<longleftrightarrow> (\<exists>x. r = Ok x \<and> f x = y)"
  by (cases r) auto

lemma mapErr_Ok_iff [outcome_simps]: "mapErr r f = Ok y \<longleftrightarrow> r = Ok y"
  by (cases r) auto

lemma fail_not_Ok [simp]: "fail c m \<noteq> Ok x" "Ok x \<noteq> fail c m" "fail c m \<noteq> Throw t"
  by (simp_all add: fail_def)

lemma fail_js_not_Ok [simp]:
  "fail_js c m \<noteq> Ok x" "Ok x \<noteq> fail_js c m" "fail_js c m \<noteq> Throw t"
  by (simp_all add: fail_js_def)

lemma throw_hub_not_Ok [simp]: "throw_hub c m \<noteq> Ok x" "throw_hub c m \<noteq> Err e"
  by (simp_all add: throw_hub_def)

lemma andThen_fail [simp]:
  "andThen (fail c m) f = fail c m" "andThen (fail_js c m') f = fail_js c m'"
  by (simp_all add: fail_def fail_js_def)

lemma mapOk_fail [simp]: "mapOk (fail c m) f = fail c m" "mapOk (fail_js c m') f = fail_js c m'"
  by (simp_all add: fail_def fail_js_def)

lemma is_ok_fail [simp]: "\<not> is_ok (fail c m)" "\<not> is_ok (fail_js c m')"
  by (simp_all add: fail_def fail_js_def)

lemma is_ok_iff: "is_ok r \<longleftrightarrow> (\<exists>x. r = Ok x)"
  by (cases r) auto

lemma no_throw_simps [simp]:
  "no_throw (fail c m)" "no_throw (fail_js c m')"
  by (simp_all add: fail_def fail_js_def)

lemma no_throw_andThen [intro]:
  "no_throw r \<Longrightarrow> (\<And>x. r = Ok x \<Longrightarrow> no_throw (f x)) \<Longrightarrow> no_throw (andThen r f)"
  by (cases r) auto

lemma no_throw_mapOk [simp]: "no_throw (mapOk r f) = no_throw r"
  by (cases r) auto

lemma no_throw_mapErr [simp]: "no_throw (mapErr r f) = no_throw r"
  by (cases r) auto

lemma no_throw_fromPromise [simp]: "no_throw (fromPromise r f)"
  by (cases r) auto

lemma no_throw_iff: "no_throw r \<longleftrightarrow> (\<forall>t. r \<noteq> Throw t)"
  by (cases r) auto

lemma andThen_cong [fundef_cong]:
  "r = r' \<Longrightarrow> (\<And>x. r' = Ok x \<Longrightarrow> f x = g x) \<Longrightarrow> andThen r f = andThen r' g"
  by (cases r') auto

text \<open>\<^verbatim>\<open>Promise.all\<close>-free sequencing of a fallible function over an array: the first failure
  ends the loop.\<close>

fun mapM :: "('a \<Rightarrow> 'b outcome) \<Rightarrow> 'a list \<Rightarrow> 'b list outcome" where
  "mapM f [] = Ok []"
| "mapM f (x # xs) = andThen (f x) (\<lambda>y. andThen (mapM f xs) (\<lambda>ys. Ok (y # ys)))"

lemma mapM_Ok_map: "(\<And>x. x \<in> set xs \<Longrightarrow> f x = Ok (g x)) \<Longrightarrow> mapM f xs = Ok (map g xs)"
  by (induction xs) auto

lemma mapM_OkD: "mapM f xs = Ok ys \<Longrightarrow> list_all2 (\<lambda>x y. f x = Ok y) xs ys"
  by (induction xs arbitrary: ys) (auto simp: outcome_simps)

text \<open>A property access on \<^verbatim>\<open>undefined\<close> throws a TypeError.\<close>

fun deref :: "'a option \<Rightarrow> 'a outcome" where
  "deref None = Throw TypeError"
| "deref (Some x) = Ok x"

lemma deref_Ok_iff [outcome_simps]: "deref o' = Ok x \<longleftrightarrow> o' = Some x"
  by (cases o') auto

section \<open>JavaScript numbers\<close>

text \<open>
  A finite number is the rational it denotes; NaN and the infinities are separate. The code's
  arithmetic stays far below \<open>2^53\<close>, where doubles represent integers exactly.
\<close>

datatype number = Num rat | NaN | Infinity | NegInfinity

abbreviation numI :: "int \<Rightarrow> number" where
  "numI i \<equiv> Num (of_int i)"

definition is_integer :: "number \<Rightarrow> bool" where
  "is_integer n = (case n of Num q \<Rightarrow> of_int \<lfloor>q\<rfloor> = q | _ \<Rightarrow> False)"

fun js_lt :: "number \<Rightarrow> number \<Rightarrow> bool" where
  "js_lt (Num a) (Num b) = (a < b)"
| "js_lt NegInfinity (Num b) = True"
| "js_lt (Num a) Infinity = True"
| "js_lt NegInfinity Infinity = True"
| "js_lt a b = False"

fun js_eq :: "number \<Rightarrow> number \<Rightarrow> bool" where
  "js_eq NaN b = False"
| "js_eq a NaN = False"
| "js_eq a b = (a = b)"

text \<open>\<^verbatim>\<open>n || 0\<close> and the truth value of a number.\<close>

fun js_truthy :: "number \<Rightarrow> bool" where
  "js_truthy (Num q) = (q \<noteq> 0)"
| "js_truthy NaN = False"
| "js_truthy n = True"

definition or_zero :: "number \<Rightarrow> number" where
  "or_zero n = (if js_truthy n then n else numI 0)"

lemma is_integer_numI [simp]: "is_integer (numI i)"
  by (simp add: is_integer_def)

lemma is_integerE: "is_integer n \<Longrightarrow> (\<And>i. n = numI i \<Longrightarrow> P) \<Longrightarrow> P"
  by (cases n) (force simp: is_integer_def)+

lemma is_integer_iff: "is_integer n \<longleftrightarrow> (\<exists>i. n = numI i)"
  by (metis is_integerE is_integer_numI)

lemma numI_inject [simp]: "numI i = numI j \<longleftrightarrow> i = j"
  by simp

lemma js_eq_numI [simp]: "js_eq (Num a) (Num b) = (a = b)"
  by simp

lemma js_eq_iff: "js_eq a b \<longleftrightarrow> a = b \<and> a \<noteq> NaN"
  by (cases a; cases b) auto

section \<open>Positional digits\<close>

function digits :: "nat \<Rightarrow> nat \<Rightarrow> nat list" where
  "digits b n = (if b < 2 \<or> n < b then [n] else digits b (n div b) @ [n mod b])"
  by pat_completeness auto
termination
  by (relation "measure snd") (auto intro: div_less_dividend)

declare digits.simps [simp del]

definition of_digits :: "nat \<Rightarrow> nat list \<Rightarrow> nat" where
  "of_digits b ds = foldl (\<lambda>a d. a * b + d) 0 ds"

lemma of_digits_snoc [simp]: "of_digits b (ds @ [d]) = of_digits b ds * b + d"
  by (simp add: of_digits_def)

lemma of_digits_Nil [simp]: "of_digits b [] = 0"
  by (simp add: of_digits_def)

lemma of_digits_append: "of_digits b (xs @ ys) = of_digits b xs * b ^ length ys + of_digits b ys"
  by (induction ys rule: rev_induct) (simp_all add: algebra_simps flip: append_assoc)

lemma of_digits_zeros [simp]: "of_digits b (replicate k 0) = 0"
  by (induction k) (simp_all add: replicate_append_same [symmetric])

lemma of_digits_digits [simp]: "2 \<le> b \<Longrightarrow> of_digits b (digits b n) = n"
proof (induction b n rule: digits.induct)
  case (1 b n)
  show ?case
  proof (cases "n < b")
    case True
    then show ?thesis by (simp add: digits.simps[of b n] of_digits_def)
  next
    case False
    with 1 show ?thesis by (simp add: digits.simps[of b n])
  qed
qed

lemma digits_bounded: "2 \<le> b \<Longrightarrow> d \<in> set (digits b n) \<Longrightarrow> d < b"
proof (induction b n rule: digits.induct)
  case (1 b n)
  then show ?case
    by (cases "n < b") (auto simp: digits.simps[of b n])
qed

lemma digits_nonempty [simp]: "digits b n \<noteq> []"
  by (simp add: digits.simps[of b n])

lemma digits_length: "2 \<le> b \<Longrightarrow> 0 < k \<Longrightarrow> n < b ^ k \<Longrightarrow> length (digits b n) \<le> k"
proof (induction b n arbitrary: k rule: digits.induct)
  case (1 b n)
  show ?case
  proof (cases "n < b")
    case True
    with 1 show ?thesis by (simp add: digits.simps[of b n])
  next
    case False
    with "1.prems" obtain k' where k: "k = Suc k'" "0 < k'"
      by (cases k; cases "k = 1") auto
    have "n div b < b ^ k'"
      using "1.prems" k by (simp add: less_mult_imp_div_less mult.commute)
    with "1.IH" "1.prems" k False have "length (digits b (n div b)) \<le> k'" by simp
    with k False show ?thesis by (simp add: digits.simps[of b n])
  qed
qed

lemma digits_hd: "2 \<le> b \<Longrightarrow> 0 < n \<Longrightarrow> hd (digits b n) \<noteq> 0"
proof (induction b n rule: digits.induct)
  case (1 b n)
  show ?case
  proof (cases "n < b")
    case True
    with 1 show ?thesis by (simp add: digits.simps[of b n])
  next
    case False
    with "1.prems" have "0 < n div b" by (simp add: div_greater_zero_iff)
    with 1 False show ?thesis by (simp add: digits.simps[of b n])
  qed
qed

lemma of_digits_bound: "(\<And>d. d \<in> set ds \<Longrightarrow> d < b) \<Longrightarrow> of_digits b ds < b ^ length ds"
proof (induction ds rule: rev_induct)
  case Nil
  then show ?case by simp
next
  case (snoc d ds)
  then have "of_digits b ds < b ^ length ds" and "d < b" by auto
  then have "of_digits b ds * b + d < (of_digits b ds + 1) * b" by simp
  also have "\<dots> \<le> b ^ length ds * b"
    using \<open>of_digits b ds < b ^ length ds\<close> by (intro mult_le_mono1) simp
  finally show ?case by (simp add: mult.commute)
qed

text \<open>Digit characters: \<^verbatim>\<open>0-9\<close>, then \<^verbatim>\<open>a-z\<close>, as \<^verbatim>\<open>toString(radix)\<close> prints them, and the value
  of a digit character for \<^verbatim>\<open>parseInt\<close> (letters of either case).\<close>

definition digit_char :: "nat \<Rightarrow> 16 word" where
  "digit_char d = of_nat (if d < 10 then 48 + d else 87 + d)"

lemma unat_of_nat_16: "n < 65536 \<Longrightarrow> unat (of_nat n :: 16 word) = n"
  by (simp add: unat_of_nat)

lemma unat_digit_char: "d < 36 \<Longrightarrow> unat (digit_char d) = (if d < 10 then 48 + d else 87 + d)"
  by (simp add: digit_char_def unat_of_nat_16 del: of_nat_add)

definition digit_value :: "16 word \<Rightarrow> nat option" where
  "digit_value c =
     (let u = unat c in
      if 48 \<le> u \<and> u \<le> 57 then Some (u - 48)
      else if 97 \<le> u \<and> u \<le> 122 then Some (u - 87)
      else if 65 \<le> u \<and> u \<le> 90 then Some (u - 55)
      else None)"

lemma digit_value_char [simp]: "d < 36 \<Longrightarrow> digit_value (digit_char d) = Some d"
  by (auto simp: digit_value_def unat_digit_char Let_def)

definition nat_to_string :: "nat \<Rightarrow> nat \<Rightarrow> js_string" where
  "nat_to_string b n = map digit_char (digits b n)"

definition int_to_string :: "nat \<Rightarrow> int \<Rightarrow> js_string" where
  "int_to_string b i = (if i < 0 then lit ''-'' @ nat_to_string b (nat (- i)) else nat_to_string b (nat i))"

text \<open>\<^verbatim>\<open>parseInt(s, b)\<close> on a string without leading white space or an \<^verbatim>\<open>0x\<close> prefix: an optional
  sign, then the longest run of digits below the radix; NaN (\<open>None\<close>) when there is none.\<close>

fun take_digits :: "nat \<Rightarrow> js_string \<Rightarrow> nat list" where
  "take_digits b [] = []"
| "take_digits b (c # cs) =
     (case digit_value c of
        Some d \<Rightarrow> if d < b then d # take_digits b cs else []
      | None \<Rightarrow> [])"

definition parse_int :: "nat \<Rightarrow> js_string \<Rightarrow> int option" where
  "parse_int b s =
     (let (sgn, rest) = (case s of c # cs \<Rightarrow> if c = 45 then (-1, cs) else if c = 43 then (1, cs) else (1, s)
                                 | [] \<Rightarrow> (1, s));
          ds = take_digits b rest
      in if ds = [] then None else Some (sgn * int (of_digits b ds)))"

lemma take_digits_map:
  "b \<le> 36 \<Longrightarrow> (\<And>d. d \<in> set ds \<Longrightarrow> d < b) \<Longrightarrow> take_digits b (map digit_char ds) = ds"
proof (induction ds)
  case Nil
  then show ?case by simp
next
  case (Cons d ds)
  from Cons.prems have "d < b" "d < 36" by force+
  with Cons show ?case by simp
qed

lemma digit_char_not_sign [simp]: "d < 36 \<Longrightarrow> digit_char d \<noteq> 45" "d < 36 \<Longrightarrow> digit_char d \<noteq> 43"
  by (auto simp: word_unat_eq_iff unat_digit_char split: if_splits)

lemma parse_int_digits:
  assumes "b \<le> 36" "\<And>d. d \<in> set ds \<Longrightarrow> d < b" "ds \<noteq> []"
  shows "parse_int b (map digit_char ds) = Some (int (of_digits b ds))"
proof -
  obtain d ds' where ds: "ds = d # ds'" using assms(3) by (cases ds) auto
  have "take_digits b (map digit_char ds) = ds"
    using assms(1,2) by (rule take_digits_map)
  moreover from assms(1) assms(2)[of d] ds have "d < 36" by simp
  ultimately show ?thesis
    using ds by (simp add: parse_int_def del: take_digits.simps)
qed

lemma parse_int_nat_to_string [simp]:
  "2 \<le> b \<Longrightarrow> b \<le> 36 \<Longrightarrow> parse_int b (nat_to_string b n) = Some (int n)"
  by (simp add: nat_to_string_def parse_int_digits digits_bounded)

definition pad_start :: "nat \<Rightarrow> 'a \<Rightarrow> 'a list \<Rightarrow> 'a list" where
  "pad_start k c s = replicate (k - length s) c @ s"

definition pad_end :: "nat \<Rightarrow> 'a \<Rightarrow> 'a list \<Rightarrow> 'a list" where
  "pad_end k c s = s @ replicate (k - length s) c"

lemma length_pad_start [simp]: "length (pad_start k c s) = max k (length s)"
  by (simp add: pad_start_def)

lemma length_pad_end [simp]: "length (pad_end k c s) = max k (length s)"
  by (simp add: pad_end_def)

section \<open>Big-endian integers\<close>

fun be_bytes :: "nat \<Rightarrow> int \<Rightarrow> bytes" where
  "be_bytes 0 n = []"
| "be_bytes (Suc k) n = be_bytes k (n div 256) @ [word_of_int n]"

definition be_int :: "bytes \<Rightarrow> int" where
  "be_int bs = foldl (\<lambda>a b. a * 256 + uint b) 0 bs"

lemma be_int_Nil [simp]: "be_int [] = 0"
  by (simp add: be_int_def)

lemma be_int_snoc [simp]: "be_int (bs @ [b]) = be_int bs * 256 + uint b"
  by (simp add: be_int_def)

lemma length_be_bytes [simp]: "length (be_bytes k n) = k"
  by (induction k arbitrary: n) auto

lemma uint_byte_bound: "0 \<le> uint (b :: byte)" "uint (b :: byte) < 256"
  using uint_lt2p[of b] by auto

lemma be_int_be_bytes: "0 \<le> n \<Longrightarrow> n < 256 ^ k \<Longrightarrow> be_int (be_bytes k n) = n"
proof (induction k arbitrary: n)
  case 0
  then show ?case by simp
next
  case (Suc k)
  from Suc.prems have "0 \<le> n div 256" and "n div 256 < 256 ^ k"
    by (simp_all add: div_less_iff_less_mult mult.commute pos_imp_zdiv_nonneg_iff)
  with Suc.IH[of "n div 256"] show ?case
    by (simp add: uint_word_of_int)
qed

lemma be_int_bound: "0 \<le> be_int bs \<and> be_int bs < 256 ^ length bs"
proof (induction bs rule: rev_induct)
  case Nil
  then show ?case by simp
next
  case (snoc b bs)
  then show ?case using uint_byte_bound[of b] by simp
qed

lemma be_bytes_be_int: "length bs = k \<Longrightarrow> be_bytes k (be_int bs) = bs"
proof (induction k arbitrary: bs)
  case 0
  then show ?case by simp
next
  case (Suc k)
  then obtain bs' b where bs: "bs = bs' @ [b]" "length bs' = k"
    by (metis append_butlast_last_id length_butlast diff_Suc_1 list.size(3) nat.distinct(1))
  have "word_of_int (be_int bs' * 256 + uint b) = b"
  proof -
    have "(word_of_int (be_int bs' * 256 + uint b) :: byte) = word_of_int (be_int bs') * 256 + b"
      by simp
    moreover have "(256 :: byte) = 0" by simp
    ultimately show ?thesis by (simp only: mult_zero_right add_0)
  qed
  moreover have "(be_int bs' * 256 + uint b) div 256 = be_int bs'"
    using uint_byte_bound[of b] by simp
  ultimately show ?case using Suc bs by simp
qed

lemma be_bytes_inject:
  "0 \<le> m \<Longrightarrow> m < 256 ^ k \<Longrightarrow> 0 \<le> n \<Longrightarrow> n < 256 ^ k \<Longrightarrow> be_bytes k m = be_bytes k n \<longleftrightarrow> m = n"
  by (metis be_int_be_bytes)

text \<open>On strings of equal length the byte order is the order of the numbers they encode.\<close>

lemma snoc_less_snoc:
  fixes xs ys :: "'a :: linorder list"
  assumes "length xs = length ys"
  shows "xs @ [x] < ys @ [y] \<longleftrightarrow> xs < ys \<or> xs = ys \<and> x < y"
  using assms by (induction xs ys rule: list_induct2) auto

lemma append_less_append:
  fixes xs ys :: "'a :: linorder list"
  assumes "length xs = length ys"
  shows "xs @ us < ys @ vs \<longleftrightarrow> xs < ys \<or> xs = ys \<and> us < vs"
  using assms by (induction xs ys rule: list_induct2) auto

lemma be_bytes_less:
  "0 \<le> m \<Longrightarrow> m < 256 ^ k \<Longrightarrow> 0 \<le> n \<Longrightarrow> n < 256 ^ k \<Longrightarrow> be_bytes k m < be_bytes k n \<longleftrightarrow> m < n"
proof (induction k arbitrary: m n)
  case 0
  then show ?case by simp
next
  case (Suc k)
  let ?m = "m div 256" and ?n = "n div 256"
  have b: "0 \<le> ?m" "?m < 256 ^ k" "0 \<le> ?n" "?n < 256 ^ k"
    using Suc.prems by (simp_all add: div_less_iff_less_mult mult.commute pos_imp_zdiv_nonneg_iff)
  have "be_bytes (Suc k) m < be_bytes (Suc k) n \<longleftrightarrow>
        ?m < ?n \<or> ?m = ?n \<and> (word_of_int m :: byte) < word_of_int n"
    using Suc.IH[OF b] be_bytes_inject[OF b] by (simp add: snoc_less_snoc)
  also have "\<dots> \<longleftrightarrow> ?m < ?n \<or> ?m = ?n \<and> m mod 256 < n mod 256"
    by (simp add: word_less_def uint_word_of_int)
  also have "\<dots> \<longleftrightarrow> m < n"
    by (smt (verit) mult_div_mod_eq pos_mod_bound pos_mod_sign zdiv_mono1)
  finally show ?case .
qed

text \<open>
  Node's \<^verbatim>\<open>buffer.writeUInt32BE(value)\<close> into four fresh bytes: a value above \<open>2^32 - 1\<close> or below 0
  is a RangeError, NaN passes the check and is stored as zero, a fraction is truncated.
\<close>

definition writeUInt32BE :: "number \<Rightarrow> bytes outcome" where
  "writeUInt32BE n =
     (case n of
        Num q \<Rightarrow> if q > 4294967295 \<or> q < 0 then Throw RangeError else Ok (be_bytes 4 \<lfloor>q\<rfloor>)
      | NaN \<Rightarrow> Ok (be_bytes 4 0)
      | _ \<Rightarrow> Throw RangeError)"

text \<open>\<^verbatim>\<open>buffer.readUInt32BE(offset)\<close>: a RangeError when the four bytes are not all there.\<close>

definition readUInt32BE :: "bytes \<Rightarrow> nat \<Rightarrow> int outcome" where
  "readUInt32BE bs off =
     (if off + 4 \<le> length bs then Ok (be_int (take 4 (drop off bs))) else Throw RangeError)"

abbreviation u32 :: "int \<Rightarrow> bool" where
  "u32 n \<equiv> 0 \<le> n \<and> n < 4294967296"

lemma writeUInt32BE_numI [simp]:
  "writeUInt32BE (numI n) = (if u32 n then Ok (be_bytes 4 n) else Throw RangeError)"
proof -
  have "(4294967295 :: rat) < of_int n \<longleftrightarrow> 4294967295 < n"
    by (metis of_int_less_iff of_int_numeral)
  then show ?thesis by (auto simp: writeUInt32BE_def)
qed

lemma writeUInt32BE_length: "writeUInt32BE n = Ok bs \<Longrightarrow> length bs = 4"
  by (auto simp: writeUInt32BE_def split: number.splits if_splits)

lemma writeUInt32BE_not_Err [simp]: "writeUInt32BE n \<noteq> Err e"
  by (auto simp: writeUInt32BE_def split: number.splits if_splits)

lemma read_write_u32:
  "u32 n \<Longrightarrow> readUInt32BE (pre @ be_bytes 4 n @ post) (length pre) = Ok n"
  by (simp add: readUInt32BE_def be_int_be_bytes)

end
