(* ===== verification/Utf8.thy ===== *)
theory Utf8
  imports Prelude
begin

text \<open>
  The standard \<^verbatim>\<open>TextEncoder\<close> and fatal \<^verbatim>\<open>TextDecoder\<close> that \<^verbatim>\<open>packages/core/src/bytes.ts\<close> uses.
  A string is turned into code points (a lone surrogate becomes U+FFFD), a code point into one
  to four bytes. The decoder accepts exactly the well-formed byte sequences of the WHATWG
  encoding standard, drops a leading byte order mark, and throws on anything else. The lemmas
  show that decoding inverts encoding and bound the encoded length.
\<close>

definition is_high :: "16 word \<Rightarrow> bool" where
  "is_high c = (55296 \<le> unat c \<and> unat c \<le> 56319)"

definition is_low :: "16 word \<Rightarrow> bool" where
  "is_low c = (56320 \<le> unat c \<and> unat c \<le> 57343)"

definition unit_cp :: "16 word \<Rightarrow> nat" where
  "unit_cp c = (if is_high c \<or> is_low c then 65533 else unat c)"

definition pair_cp :: "16 word \<Rightarrow> 16 word \<Rightarrow> nat" where
  "pair_cp c d = 65536 + (unat c - 55296) * 1024 + (unat d - 56320)"

fun code_points :: "js_string \<Rightarrow> nat list" where
  "code_points [] = []"
| "code_points [c] = [unit_cp c]"
| "code_points (c # d # cs) =
     (if is_high c \<and> is_low d then pair_cp c d # code_points cs
      else unit_cp c # code_points (d # cs))"

fun well_formed :: "js_string \<Rightarrow> bool" where
  "well_formed [] = True"
| "well_formed [c] = (\<not> is_high c \<and> \<not> is_low c)"
| "well_formed (c # d # cs) =
     (if is_high c \<and> is_low d then well_formed cs
      else \<not> is_high c \<and> \<not> is_low c \<and> well_formed (d # cs))"

definition utf16_units :: "nat \<Rightarrow> js_string" where
  "utf16_units cp =
     (if cp < 65536 then [of_nat cp]
      else [of_nat (55296 + (cp - 65536) div 1024), of_nat (56320 + (cp - 65536) mod 1024)])"

definition scalar :: "nat \<Rightarrow> bool" where
  "scalar cp = (cp < 1114112 \<and> \<not> (55296 \<le> cp \<and> cp \<le> 57343))"

definition utf8_bytes :: "nat \<Rightarrow> bytes" where
  "utf8_bytes cp =
     (if cp < 128 then [of_nat cp]
      else if cp < 2048 then [of_nat (192 + cp div 64), of_nat (128 + cp mod 64)]
      else if cp < 65536 then
        [of_nat (224 + cp div 4096), of_nat (128 + cp div 64 mod 64), of_nat (128 + cp mod 64)]
      else
        [of_nat (240 + cp div 262144), of_nat (128 + cp div 4096 mod 64),
         of_nat (128 + cp div 64 mod 64), of_nat (128 + cp mod 64)])"

definition utf8_encode :: "js_string \<Rightarrow> bytes" where
  "utf8_encode s = concat (map utf8_bytes (code_points s))"

definition cont :: "byte \<Rightarrow> bool" where
  "cont b = (128 \<le> unat b \<and> unat b \<le> 191)"

text \<open>The second byte of a three- or four-byte sequence has a narrower range after some lead
  bytes: overlong forms, surrogates and values above U+10FFFF are not well formed.\<close>

definition second_ok :: "nat \<Rightarrow> byte \<Rightarrow> bool" where
  "second_ok lead b =
     (let u = unat b in
      if lead = 224 then 160 \<le> u \<and> u \<le> 191
      else if lead = 237 then 128 \<le> u \<and> u \<le> 159
      else if lead = 240 then 144 \<le> u \<and> u \<le> 191
      else if lead = 244 then 128 \<le> u \<and> u \<le> 143
      else 128 \<le> u \<and> u \<le> 191)"

fun utf8_decode :: "bytes \<Rightarrow> nat list option" where
  "utf8_decode [] = Some []"
| "utf8_decode (b # r) =
     (let u = unat b in
      if u < 128 then map_option (Cons u) (utf8_decode r)
      else if 194 \<le> u \<and> u \<le> 223 then
        (case r of
           b1 # r1 \<Rightarrow>
             if cont b1 then map_option (Cons ((u - 192) * 64 + (unat b1 - 128))) (utf8_decode r1)
             else None
         | _ \<Rightarrow> None)
      else if 224 \<le> u \<and> u \<le> 239 then
        (case r of
           b1 # b2 # r2 \<Rightarrow>
             if second_ok u b1 \<and> cont b2 then
               map_option (Cons ((u - 224) * 4096 + (unat b1 - 128) * 64 + (unat b2 - 128)))
                 (utf8_decode r2)
             else None
         | _ \<Rightarrow> None)
      else if 240 \<le> u \<and> u \<le> 244 then
        (case r of
           b1 # b2 # b3 # r3 \<Rightarrow>
             if second_ok u b1 \<and> cont b2 \<and> cont b3 then
               map_option (Cons ((u - 240) * 262144 + (unat b1 - 128) * 4096
                                 + (unat b2 - 128) * 64 + (unat b3 - 128)))
                 (utf8_decode r3)
             else None
         | _ \<Rightarrow> None)
      else None)"

declare utf8_decode.simps(2) [simp del]

definition strip_bom :: "bytes \<Rightarrow> bytes" where
  "strip_bom bs = (if take 3 bs = [239, 187, 191] then drop 3 bs else bs)"

section \<open>Encoding then decoding\<close>

lemma unat_of_nat_8: "n < 256 \<Longrightarrow> unat (of_nat n :: byte) = n"
  by (simp add: unat_of_nat)

lemma unat16_bound: "unat (c :: 16 word) < 65536"
  using unsigned_less[of c] by simp

lemma unit_cp_scalar: "scalar (unit_cp c)"
  using unat16_bound[of c] by (auto simp: scalar_def unit_cp_def is_high_def is_low_def)

lemma pair_cp_scalar: "is_high c \<Longrightarrow> is_low d \<Longrightarrow> scalar (pair_cp c d)"
  by (auto simp: scalar_def pair_cp_def is_high_def is_low_def)

lemma code_points_scalar: "list_all scalar (code_points s)"
  by (induction s rule: code_points.induct) (auto simp: unit_cp_scalar pair_cp_scalar)

lemma split3: "n div 4096 * 4096 + n div 64 mod 64 * 64 + n mod 64 = (n :: nat)"
proof -
  have "n div 4096 = n div 64 div 64" by (simp add: div_mult2_eq [symmetric])
  then show ?thesis
    using div_mult_mod_eq[of n 64] div_mult_mod_eq[of "n div 64" 64] by linarith
qed

lemma split4:
  "n div 262144 * 262144 + n div 4096 mod 64 * 4096 + n div 64 mod 64 * 64 + n mod 64 = (n :: nat)"
proof -
  have "n div 262144 = n div 4096 div 64" by (simp add: div_mult2_eq [symmetric])
  then show ?thesis
    using split3[of n] div_mult_mod_eq[of "n div 4096" 64] by linarith
qed

lemma decode2:
  "2 \<le> a \<Longrightarrow> a < 32 \<Longrightarrow> b < 64 \<Longrightarrow>
   utf8_decode (of_nat (192 + a) # of_nat (128 + b) # bs) =
     map_option (Cons (a * 64 + b)) (utf8_decode bs)"
  by (simp add: utf8_decode.simps(2) unat_of_nat_8 cont_def Let_def del: of_nat_add)

lemma decode3:
  "a < 16 \<Longrightarrow> b < 64 \<Longrightarrow> c < 64 \<Longrightarrow> (a = 0 \<longrightarrow> 32 \<le> b) \<Longrightarrow> (a = 13 \<longrightarrow> b \<le> 31) \<Longrightarrow>
   utf8_decode (of_nat (224 + a) # of_nat (128 + b) # of_nat (128 + c) # bs) =
     map_option (Cons (a * 4096 + b * 64 + c)) (utf8_decode bs)"
  by (simp add: utf8_decode.simps(2) unat_of_nat_8 cont_def second_ok_def Let_def del: of_nat_add)

lemma decode4:
  "a < 5 \<Longrightarrow> b < 64 \<Longrightarrow> c < 64 \<Longrightarrow> d < 64 \<Longrightarrow> (a = 0 \<longrightarrow> 16 \<le> b) \<Longrightarrow> (a = 4 \<longrightarrow> b \<le> 15) \<Longrightarrow>
   utf8_decode (of_nat (240 + a) # of_nat (128 + b) # of_nat (128 + c) # of_nat (128 + d) # bs) =
     map_option (Cons (a * 262144 + b * 4096 + c * 64 + d)) (utf8_decode bs)"
  by (simp add: utf8_decode.simps(2) unat_of_nat_8 cont_def second_ok_def Let_def del: of_nat_add)

lemma utf8_decode_step:
  assumes "scalar cp"
  shows "utf8_decode (utf8_bytes cp @ bs) = map_option (Cons cp) (utf8_decode bs)"
proof -
  consider "cp < 128" | "128 \<le> cp" "cp < 2048" | "2048 \<le> cp" "cp < 65536" | "65536 \<le> cp"
    by linarith
  then show ?thesis
  proof cases
    case 1
    then show ?thesis
      by (simp add: utf8_bytes_def utf8_decode.simps(2) unat_of_nat_8)
  next
    case 2
    have "cp div 64 * 64 + cp mod 64 = cp" by simp
    moreover have "2 \<le> cp div 64" "cp div 64 < 32"
      using 2 by (simp_all add: div_less_iff_less_mult less_eq_div_iff_mult_less_eq)
    ultimately show ?thesis
      using 2 decode2[of "cp div 64" "cp mod 64" bs] by (simp add: utf8_bytes_def del: of_nat_add)
  next
    case 3
    let ?a = "cp div 4096" and ?b = "cp div 64 mod 64" and ?c = "cp mod 64"
    have a: "?a < 16" using 3 by (simp add: div_less_iff_less_mult)
    have b: "?b < 64" and c: "?c < 64" by simp_all
    have sum: "?a * 4096 + ?b * 64 + ?c = cp" by (rule split3)
    have "?a = 0 \<longrightarrow> 32 \<le> ?b" using sum c 3 by linarith
    moreover have "?a = 13 \<longrightarrow> ?b \<le> 31"
      using sum assms unfolding scalar_def by linarith
    ultimately show ?thesis
      using 3 decode3[OF a b c, of bs] unfolding sum by (simp add: utf8_bytes_def del: of_nat_add)
  next
    case 4
    let ?a = "cp div 262144" and ?b = "cp div 4096 mod 64" and ?c = "cp div 64 mod 64" and ?d = "cp mod 64"
    have b: "?b < 64" and c: "?c < 64" and d: "?d < 64" by simp_all
    have sum: "?a * 262144 + ?b * 4096 + ?c * 64 + ?d = cp" by (rule split4)
    have up: "cp < 1114112" using assms by (simp add: scalar_def)
    have a: "?a < 5" using up by (simp add: div_less_iff_less_mult)
    have "?a = 0 \<longrightarrow> 16 \<le> ?b" using sum c d 4 by linarith
    moreover have "?a = 4 \<longrightarrow> ?b \<le> 15" using sum up by linarith
    ultimately show ?thesis
      using 4 decode4[OF a b c d, of bs] unfolding sum by (simp add: utf8_bytes_def del: of_nat_add)
  qed
qed

lemma utf8_decode_concat:
  "list_all scalar cps \<Longrightarrow> utf8_decode (concat (map utf8_bytes cps)) = Some cps"
  by (induction cps) (simp_all add: utf8_decode_step)

lemma utf8_decode_encode: "utf8_decode (utf8_encode s) = Some (code_points s)"
  by (simp add: utf8_encode_def utf8_decode_concat code_points_scalar)

lemma utf16_unit: "\<not> is_high c \<Longrightarrow> \<not> is_low c \<Longrightarrow> utf16_units (unit_cp c) = [c]"
  using unat16_bound[of c] by (simp add: utf16_units_def unit_cp_def)

lemma utf16_pair: "is_high c \<Longrightarrow> is_low d \<Longrightarrow> utf16_units (pair_cp c d) = [c, d]"
proof -
  assume h: "is_high c" and l: "is_low d"
  let ?x = "unat c - 55296" and ?y = "unat d - 56320"
  have y: "?y < 1024" using l by (auto simp: is_low_def)
  have "pair_cp c d - 65536 = ?x * 1024 + ?y" by (simp add: pair_cp_def)
  then have "(pair_cp c d - 65536) div 1024 = ?x" "(pair_cp c d - 65536) mod 1024 = ?y"
    using y by simp_all
  moreover have "55296 + ?x = unat c" "56320 + ?y = unat d"
    using h l by (simp_all add: is_high_def is_low_def)
  moreover have "\<not> pair_cp c d < 65536" by (simp add: pair_cp_def)
  ultimately show ?thesis
    by (simp add: utf16_units_def del: of_nat_add)
qed

lemma utf16_code_points: "well_formed s \<Longrightarrow> concat (map utf16_units (code_points s)) = s"
  by (induction s rule: code_points.induct) (auto simp: utf16_unit utf16_pair split: if_splits)

section \<open>Lengths\<close>

lemma utf8_bytes_length: "1 \<le> length (utf8_bytes cp) \<and> length (utf8_bytes cp) \<le> 4"
  by (simp add: utf8_bytes_def)

lemma utf8_bytes_length_bmp: "cp < 65536 \<Longrightarrow> length (utf8_bytes cp) \<le> 3"
  by (simp add: utf8_bytes_def)

lemma unit_cp_bmp: "unit_cp c < 65536"
  using unat16_bound[of c] by (simp add: unit_cp_def)

lemma pair_cp_astral: "length (utf8_bytes (pair_cp c d)) = 4"
  by (simp add: utf8_bytes_def pair_cp_def)

lemma utf8_encode_length: "length s \<le> length (utf8_encode s) \<and> length (utf8_encode s) \<le> 3 * length s"
proof (induction s rule: code_points.induct)
  case 1
  then show ?case by (simp add: utf8_encode_def)
next
  case (2 c)
  then show ?case
    using utf8_bytes_length[of "unit_cp c"] utf8_bytes_length_bmp[OF unit_cp_bmp, of c]
    by (simp add: utf8_encode_def)
next
  case (3 c d cs)
  then show ?case
    using utf8_bytes_length[of "unit_cp c"] utf8_bytes_length_bmp[OF unit_cp_bmp, of c]
      pair_cp_astral[of c d]
    by (auto simp: utf8_encode_def)
qed

lemma utf8_encode_Nil_iff [simp]: "utf8_encode s = [] \<longleftrightarrow> s = []"
  using utf8_encode_length[of s] by (cases "utf8_encode s"; cases s) auto

definition ascii :: "js_string \<Rightarrow> bool" where
  "ascii s = list_all (\<lambda>c. unat c < 128) s"

lemma ascii_code_points: "ascii s \<Longrightarrow> code_points s = map unat s"
  by (induction s rule: code_points.induct) (auto simp: ascii_def unit_cp_def is_high_def is_low_def)

lemma ascii_well_formed: "ascii s \<Longrightarrow> well_formed s"
  by (induction s rule: well_formed.induct) (auto simp: ascii_def is_high_def is_low_def)

lemma ascii_encode: "ascii s \<Longrightarrow> utf8_encode s = map (\<lambda>c. of_nat (unat c)) s"
proof -
  assume a: "ascii s"
  have "concat (map utf8_bytes (map unat s)) = map (\<lambda>c. of_nat (unat c)) s"
    using a by (induction s) (auto simp: ascii_def utf8_bytes_def)
  with a show ?thesis by (simp add: utf8_encode_def ascii_code_points)
qed

lemma ascii_encode_length: "ascii s \<Longrightarrow> length (utf8_encode s) = length s"
  by (simp add: ascii_encode)

end
