(* ===== verification/Bytes.thy ===== *)
theory Bytes
  imports Utf8
begin

text \<open>
  \<^verbatim>\<open>packages/core/src/bytes.ts\<close>: comparison, increment and decrement of byte strings, prefix
  test, UTF-8 and hexadecimal conversions. The loops that walk an index from the least
  significant byte keep that index here (\<open>inc_from i\<close> is the loop with \<open>i\<close> bytes still to look
  at). Hexadecimal and base-58 conversion are done by third-party packages and are parameters.

  The lemmas give the numeric meaning of increment and decrement and show that
  \<open>bytesCompare\<close> decides the lexicographic order, in which the incremented prefix is the exact
  upper end of a prefix scan.
\<close>

section \<open>Comparison\<close>

fun compare_common :: "bytes \<Rightarrow> bytes \<Rightarrow> int option" where
  "compare_common (a # as) (b # bs) =
     (if a < b then Some (-1) else if a > b then Some 1 else compare_common as bs)"
| "compare_common _ _ = None"

definition bytesCompare :: "bytes \<Rightarrow> bytes \<Rightarrow> int" where
  "bytesCompare a b =
     (case compare_common a b of
        Some r \<Rightarrow> r
      | None \<Rightarrow> if length a < length b then -1 else if length a > length b then 1 else 0)"

lemma bytesCompare_less: "a < b \<Longrightarrow> bytesCompare a b = -1"
  by (induction a b rule: compare_common.induct) (auto simp: bytesCompare_def split: if_splits)

lemma bytesCompare_refl [simp]: "bytesCompare a a = 0"
proof -
  have "compare_common a a = None" by (induction a) auto
  then show ?thesis by (simp add: bytesCompare_def)
qed

lemma bytesCompare_greater: "b < a \<Longrightarrow> bytesCompare a b = 1"
  by (induction a b rule: compare_common.induct) (auto simp: bytesCompare_def split: if_splits)

lemma bytesCompare_cases:
  "bytesCompare a b = (if a < b then -1 else if b < a then 1 else 0)"
  using bytesCompare_less[of a b] bytesCompare_greater[of b a]
  by (cases a b rule: linorder_cases) auto

lemma bytesCompare_iff [simp]:
  "bytesCompare a b < 0 \<longleftrightarrow> a < b" "0 < bytesCompare a b \<longleftrightarrow> b < a" "bytesCompare a b = 0 \<longleftrightarrow> a = b"
  by (auto simp: bytesCompare_cases)

fun starts_loop :: "bytes \<Rightarrow> bytes \<Rightarrow> bool" where
  "starts_loop (h # hs) (n # ns) = (if h \<noteq> n then False else starts_loop hs ns)"
| "starts_loop _ _ = True"

definition bytesStartsWith :: "bytes \<Rightarrow> bytes \<Rightarrow> bool" where
  "bytesStartsWith haystack needle =
     (if length needle > length haystack then False else starts_loop haystack needle)"

lemma bytesStartsWith_prefix: "bytesStartsWith h n = prefix n h"
proof -
  have "length n \<le> length h \<Longrightarrow> starts_loop h n = prefix n h"
    by (induction h n rule: starts_loop.induct) auto
  then show ?thesis
    by (auto simp: bytesStartsWith_def dest: prefix_length_le)
qed

section \<open>Increment and decrement\<close>

fun inc_from :: "nat \<Rightarrow> bytes \<Rightarrow> bytes outcome" where
  "inc_from 0 bs = Ok (1 # bs)"
| "inc_from (Suc i) bs =
     (if bs ! i < 255 then Ok (bs[i := bs ! i + 1]) else inc_from i (bs[i := 0]))"

definition bytesIncrement :: "bytes \<Rightarrow> bytes outcome" where
  "bytesIncrement inputBytes = inc_from (length inputBytes) inputBytes"

fun dec_from :: "nat \<Rightarrow> bytes \<Rightarrow> bytes outcome" where
  "dec_from 0 bs = Ok bs"
| "dec_from (Suc i) bs =
     (if bs ! i > 0 then Ok (bs[i := bs ! i - 1])
      else if i = 0 then fail InvalidParam ''Cannot decrement zero''
      else dec_from i (bs[i := 255]))"

definition bytesDecrement :: "bytes \<Rightarrow> bytes outcome" where
  "bytesDecrement inputBytes = dec_from (length inputBytes) inputBytes"

lemma be_int_append: "be_int (xs @ ys) = be_int xs * 256 ^ length ys + be_int ys"
  by (induction ys rule: rev_induct) (simp_all add: algebra_simps flip: append_assoc)

lemma be_int_Cons: "be_int (x # xs) = uint x * 256 ^ length xs + be_int xs"
  using be_int_append[of "[x]" xs] by (simp add: be_int_def)

lemma be_int_update:
  "i < length bs \<Longrightarrow>
   be_int (bs[i := v]) = be_int bs + (uint v - uint (bs ! i)) * 256 ^ (length bs - Suc i)"
proof (induction bs arbitrary: i)
  case Nil
  then show ?case by simp
next
  case (Cons b bs)
  then show ?case
    by (cases i) (simp_all add: be_int_Cons algebra_simps)
qed

lemma byte_cases_255: "(b :: byte) < 255 \<Longrightarrow> uint (b + 1) = uint b + 1" "\<not> (b :: byte) < 255 \<Longrightarrow> uint b = 255"
proof -
  show "b < 255 \<Longrightarrow> uint (b + 1) = uint b + 1"
    by (simp add: word_less_def uint_word_ariths)
  show "\<not> b < 255 \<Longrightarrow> uint b = 255"
    using uint_byte_bound[of b] by (simp add: word_less_def)
qed

lemma uint_byte_0 [simp]: "uint (b :: byte) = 0 \<longleftrightarrow> b = 0"
  by (simp add: word_uint_eq_iff)

lemma byte_pos: "(0 :: byte) < b \<Longrightarrow> uint (b - 1) = uint b - 1" "\<not> (0 :: byte) < b \<Longrightarrow> b = 0"
  using uint_byte_bound[of b] by (auto simp: word_less_def uint_word_ariths word_neq_0_conv)

lemma inc_from_value:
  assumes "n \<le> length bs"
  shows "\<exists>r. inc_from n bs = Ok r \<and> be_int r = be_int bs + 256 ^ (length bs - n) \<and>
             length bs \<le> length r"
  using assms
proof (induction n arbitrary: bs)
  case 0
  then show ?case by (simp add: be_int_Cons)
next
  case (Suc i)
  show ?case
  proof (cases "bs ! i < 255")
    case True
    with Suc.prems show ?thesis
      by (simp add: be_int_update byte_cases_255)
  next
    case False
    let ?bs = "bs[i := 0]"
    obtain r where r: "inc_from i ?bs = Ok r" "be_int r = be_int ?bs + 256 ^ (length bs - i)"
      "length bs \<le> length r"
      using Suc.IH[of ?bs] Suc.prems by auto
    moreover have "(256 :: int) ^ (length bs - i) = 256 * 256 ^ (length bs - Suc i)"
      using Suc.prems by (metis Suc_diff_Suc Suc_le_lessD power_Suc)
    ultimately show ?thesis
      using False Suc.prems by (simp add: be_int_update byte_cases_255)
  qed
qed

lemma bytesIncrement_value:
  "\<exists>r. bytesIncrement bs = Ok r \<and> be_int r = be_int bs + 1 \<and> length bs \<le> length r"
  using inc_from_value[of "length bs" bs] by (simp add: bytesIncrement_def)

lemma inc_from_length:
  "n \<le> length bs \<Longrightarrow> (\<exists>i < n. bs ! i \<noteq> 255) \<Longrightarrow> inc_from n bs = Ok r \<Longrightarrow> length r = length bs"
proof (induction n arbitrary: bs)
  case 0
  then show ?case by simp
next
  case (Suc i)
  show ?case
  proof (cases "bs ! i < 255")
    case True
    with Suc.prems show ?thesis by auto
  next
    case False
    then have "uint (bs ! i) = uint (255 :: byte)" by (simp add: byte_cases_255)
    then have "bs ! i = 255" by (simp only: word_uint_eq_iff)
    with Suc.prems obtain j where "j < i" "bs ! j \<noteq> 255" by (auto simp: less_Suc_eq)
    then have "\<exists>j < i. bs[i := 0] ! j \<noteq> 255" by auto
    with Suc.IH[of "bs[i := 0]"] Suc.prems False show ?thesis by simp
  qed
qed

lemma bytesIncrement_length:
  "\<exists>b \<in> set p. b \<noteq> 255 \<Longrightarrow> bytesIncrement p = Ok r \<Longrightarrow> length r = length p"
  by (rule inc_from_length[of "length p" p r]) (auto simp: bytesIncrement_def in_set_conv_nth)

lemma dec_from_value:
  "n \<le> length bs \<Longrightarrow> dec_from n bs = Ok r \<Longrightarrow> 0 < n \<Longrightarrow>
   length r = length bs \<and> be_int r = be_int bs - 256 ^ (length bs - n)"
proof (induction n arbitrary: bs)
  case 0
  then show ?case by simp
next
  case (Suc i)
  show ?case
  proof (cases "bs ! i > 0")
    case True
    with Suc.prems show ?thesis
      by (auto simp: be_int_update byte_pos algebra_simps)
  next
    case False
    then have z: "bs ! i = 0" by (simp add: byte_pos)
    from Suc.prems False have "0 < i" by (auto split: if_splits)
    with Suc.IH[of "bs[i := 255]"] Suc.prems False
    have "length r = length bs" "be_int r = be_int (bs[i := 255]) - 256 ^ (length bs - i)" by auto
    moreover have "(256 :: int) ^ (length bs - i) = 256 * 256 ^ (length bs - Suc i)"
      using Suc.prems by (metis Suc_diff_Suc Suc_le_lessD power_Suc)
    ultimately show ?thesis
      using Suc.prems z by (simp add: be_int_update)
  qed
qed

lemma dec_from_fails:
  "n \<le> length bs \<Longrightarrow> 0 < n \<Longrightarrow> (\<forall>i < n. bs ! i = 0) \<Longrightarrow>
   dec_from n bs = fail InvalidParam ''Cannot decrement zero''"
proof (induction n arbitrary: bs)
  case 0
  then show ?case by simp
next
  case (Suc i)
  show ?case
  proof (cases "i = 0")
    case True
    with Suc.prems show ?thesis by simp
  next
    case False
    with Suc.IH[of "bs[i := 255]"] Suc.prems show ?thesis by simp
  qed
qed

lemma dec_from_ok:
  "n \<le> length bs \<Longrightarrow> (\<exists>i < n. bs ! i \<noteq> 0) \<Longrightarrow> \<exists>r. dec_from n bs = Ok r"
proof (induction n arbitrary: bs)
  case 0
  then show ?case by simp
next
  case (Suc i)
  show ?case
  proof (cases "bs ! i > 0")
    case True
    then show ?thesis by simp
  next
    case False
    then have "bs ! i = 0" by (simp add: byte_pos)
    with Suc.prems obtain j where j: "j < i" "bs ! j \<noteq> 0" by (auto simp: less_Suc_eq)
    then have "i \<noteq> 0" by simp
    moreover have "\<exists>j < i. bs[i := 255] ! j \<noteq> 0" using j by auto
    ultimately show ?thesis using Suc.IH[of "bs[i := 255]"] Suc.prems False by simp
  qed
qed

lemma be_int_zero_iff: "be_int bs = 0 \<longleftrightarrow> (\<forall>b \<in> set bs. b = 0)"
proof (induction bs)
  case Nil
  then show ?case by simp
next
  case (Cons b bs)
  have "0 \<le> uint b * 256 ^ length bs" by simp
  moreover have "uint b * 256 ^ length bs = 0 \<longleftrightarrow> b = 0" by simp
  ultimately show ?case
    using Cons be_int_bound[of bs] by (simp add: be_int_Cons add_nonneg_eq_0_iff)
qed

lemma bytesDecrement_cases:
  "if bs = [] then bytesDecrement bs = Ok []
   else if be_int bs = 0 then bytesDecrement bs = fail InvalidParam ''Cannot decrement zero''
   else (\<exists>r. bytesDecrement bs = Ok r \<and> length r = length bs \<and> be_int r = be_int bs - 1)"
proof (cases "bs = [] \<or> be_int bs = 0")
  case True
  then show ?thesis
    using dec_from_fails[of "length bs" bs] by (auto simp: bytesDecrement_def be_int_zero_iff)
next
  case False
  then obtain b where "b \<in> set bs" "b \<noteq> 0" by (auto simp: be_int_zero_iff)
  then obtain i where "i < length bs" "bs ! i \<noteq> 0" by (auto simp: in_set_conv_nth)
  then obtain r where "dec_from (length bs) bs = Ok r" using dec_from_ok[of "length bs" bs] by auto
  with False dec_from_value[of "length bs" bs r] show ?thesis by (simp add: bytesDecrement_def)
qed

section \<open>Prefix ranges\<close>

lemma be_int_less_iff: "length a = length b \<Longrightarrow> a < b \<longleftrightarrow> be_int a < be_int b"
  using be_bytes_less[of "be_int a" "length a" "be_int b"] be_int_bound[of a] be_int_bound[of b]
    be_bytes_be_int[of a "length a"] be_bytes_be_int[of b "length a"]
  by simp

lemma be_int_eq_iff: "length a = length b \<Longrightarrow> a = b \<longleftrightarrow> be_int a = be_int b"
  by (metis be_bytes_be_int)

lemma Nil_least_list [simp]: "\<not> (xs :: 'a :: linorder list) < []"
  by (cases xs) auto

lemma less_same_length:
  fixes k r :: bytes
  assumes "length r \<le> length k"
  shows "k < r \<longleftrightarrow> take (length r) k < r"
  using append_less_append[of "take (length r) k" r "drop (length r) k" "[]"] assms
  by (auto simp: min_def)

lemma le_same_length:
  fixes k p :: bytes
  assumes "length p \<le> length k"
  shows "p \<le> k \<longleftrightarrow> p \<le> take (length p) k"
  using append_less_append[of "take (length p) k" p "drop (length p) k" "[]"] assms
  by (auto simp: not_less [symmetric] min_def)

lemma prefix_range_long:
  assumes "\<exists>b \<in> set p. b \<noteq> 255" "bytesIncrement p = Ok r" "length p \<le> length k"
  shows "prefix p k \<longleftrightarrow> p \<le> k \<and> k < r"
proof -
  let ?q = "take (length p) k"
  have len: "length r = length p" "length ?q = length p"
    using assms by (simp_all add: bytesIncrement_length)
  have val: "be_int r = be_int p + 1"
    using bytesIncrement_value[of p] assms(2) by simp
  have "p \<le> k \<and> k < r \<longleftrightarrow> p \<le> ?q \<and> ?q < r"
    using less_same_length[of r k] le_same_length[of p k] len assms(3) by simp
  also have "\<dots> \<longleftrightarrow> be_int p \<le> be_int ?q \<and> be_int ?q < be_int p + 1"
    using be_int_less_iff[of ?q p] be_int_less_iff[of ?q r] len val by (simp add: not_less [symmetric])
  also have "\<dots> \<longleftrightarrow> be_int p = be_int ?q" by linarith
  also have "\<dots> \<longleftrightarrow> p = ?q" using be_int_eq_iff[of p ?q] len by simp
  also have "\<dots> \<longleftrightarrow> prefix p k"
    by (metis assms(3) append_eq_conv_conj prefix_def append_take_drop_id)
  finally show ?thesis by simp
qed

text \<open>A key shorter than the prefix lies in the range only when it is a proper prefix of the upper
  bound: \<open>[2]\<close> is between \<open>[1, 255]\<close> and \<open>[2, 0]\<close>.\<close>

lemma prefix_range:
  assumes "\<exists>b \<in> set p. b \<noteq> 255" "bytesIncrement p = Ok r" "prefix k r \<longrightarrow> length p \<le> length k"
  shows "prefix p k \<longleftrightarrow> p \<le> k \<and> k < r"
proof (cases "length p \<le> length k")
  case True
  with prefix_range_long[OF assms(1,2)] show ?thesis by blast
next
  case False
  let ?n = "length k" and ?e = "256 ^ (length p - length k) :: int"
  have lr: "length r = length p" by (rule bytesIncrement_length[OF assms(1,2)])
  have v: "be_int r = be_int p + 1" using bytesIncrement_value[of p] assms(2) by auto
  have "\<not> (p \<le> k \<and> k < r)"
  proof
    assume a: "p \<le> k \<and> k < r"
    have "take ?n r \<noteq> k" using False assms(3) by (metis prefix_def append_take_drop_id)
    moreover have "k \<le> take ?n r"
      using a le_same_length[of k r] False lr by auto
    ultimately have "k < take ?n r" by simp
    moreover have "take ?n p < k"
      using a less_same_length[of k p] False by (auto simp: not_less [symmetric] not_le)
    ultimately have "be_int k < be_int (take ?n r)" "be_int (take ?n p) < be_int k"
      using False lr by (simp_all add: be_int_less_iff)
    then have "be_int (take ?n p) + 2 \<le> be_int (take ?n r)" by simp
    moreover have "be_int r = be_int (take ?n r) * ?e + be_int (drop ?n r)"
      "be_int p = be_int (take ?n p) * ?e + be_int (drop ?n p)"
      using be_int_append[of "take ?n r" "drop ?n r"] be_int_append[of "take ?n p" "drop ?n p"] lr
      by simp_all
    moreover have "be_int (drop ?n p) < ?e" "0 \<le> be_int (drop ?n r)"
      using be_int_bound[of "drop ?n p"] be_int_bound[of "drop ?n r"] by simp_all
    moreover have "(be_int (take ?n p) + 2) * ?e \<le> be_int (take ?n r) * ?e"
      using calculation(1) by (simp add: mult_right_mono)
    moreover have "1 \<le> ?e" by simp
    ultimately show False using v by (simp add: algebra_simps)
  qed
  moreover have "\<not> prefix p k" using False by (meson prefix_length_le)
  ultimately show ?thesis by blast
qed

section \<open>Strings, hexadecimal, base 58\<close>

definition bytesToUtf8String :: "bytes \<Rightarrow> js_string outcome" where
  "bytesToUtf8String bs =
     (case utf8_decode (strip_bom bs) of
        None \<Rightarrow> Throw TypeError
      | Some cps \<Rightarrow> Ok (concat (map utf16_units cps)))"

definition utf8StringToBytes :: "js_string \<Rightarrow> bytes outcome" where
  "utf8StringToBytes s = Ok (utf8_encode s)"

text \<open>\<^verbatim>\<open>Buffer.toString("hex")\<close> of the standard library.\<close>

definition buffer_hex :: "bytes \<Rightarrow> js_string" where
  "buffer_hex bs = concat (map (\<lambda>b. [digit_char (unat b div 16), digit_char (unat b mod 16)]) bs)"

text \<open>The conversions of viem and bs58, which may throw.\<close>

record codecs =
  bytesToHex :: "bytes \<Rightarrow> js_string outcome"
  hexToBytes :: "js_string \<Rightarrow> bytes outcome"
  base58_encode :: "bytes \<Rightarrow> js_string outcome"
  base58_decode :: "js_string \<Rightarrow> bytes outcome"

definition wrap_unknown :: "js_exn \<Rightarrow> hub_error" where
  "wrap_unknown e = new_HubError UnknownError (CtxError (exn_message e))"

definition bytesToHexString :: "codecs \<Rightarrow> bytes \<Rightarrow> js_string outcome" where
  "bytesToHexString X bs = fromPromise (bytesToHex X bs) wrap_unknown"

definition hexStringToBytes :: "codecs \<Rightarrow> js_string \<Rightarrow> bytes outcome" where
  "hexStringToBytes X hex =
     fromPromise (hexToBytes X (if prefix (lit ''0x'') hex then hex else lit ''0x'' @ hex)) wrap_unknown"

definition base58ToBytes :: "codecs \<Rightarrow> js_string \<Rightarrow> bytes outcome" where
  "base58ToBytes X bs58 = fromPromise (base58_decode X bs58) wrap_unknown"

definition bytesToBase58 :: "codecs \<Rightarrow> bytes \<Rightarrow> js_string outcome" where
  "bytesToBase58 X bs = fromPromise (base58_encode X bs) wrap_unknown"

definition bigIntToBytes :: "codecs \<Rightarrow> int \<Rightarrow> bytes outcome" where
  "bigIntToBytes X value =
     (let hexValue = int_to_string 16 value;
          hexValue = (if length hexValue mod 2 = 0 then hexValue else lit ''0'' @ hexValue)
      in hexStringToBytes X hexValue)"

text \<open>\<^verbatim>\<open>BigInt(s)\<close> on a hexadecimal literal \<^verbatim>\<open>0x...\<close>, the only form it is given here; no digit
  or a foreign character is a SyntaxError.\<close>

definition BigInt_hex :: "js_string \<Rightarrow> int outcome" where
  "BigInt_hex s =
     (let ds = take_digits 16 (drop 2 s)
      in if prefix (lit ''0x'') s \<and> ds \<noteq> [] \<and> length ds = length s - 2
         then Ok (int (of_digits 16 ds)) else Throw (JsError (lit ''SyntaxError'')))"

definition bytesToBigInt :: "codecs \<Rightarrow> bytes \<Rightarrow> int outcome" where
  "bytesToBigInt X bs = andThen (bytesToHexString X bs) BigInt_hex"

end
