(* ===== verification/FarcasterTime.thy ===== *)
theory FarcasterTime
  imports Bytes
begin

text \<open>
  \<^verbatim>\<open>packages/core/src/time.ts\<close> and the event-id generator of
  \<^verbatim>\<open>apps/hubble/src/addon/src/store/store_event_handler.rs\<close>. Times are whole milliseconds or
  seconds (\<^verbatim>\<open>Date.now()\<close> and the timestamps of messages). The TypeScript side builds and reads
  event ids through binary strings, the native side with a shift and an or on 64-bit words; the
  lemmas connect both to \<open>(timestamp - epoch) * 4096 + sequence\<close>.
\<close>

section \<open>Farcaster time\<close>

definition FARCASTER_EPOCH :: int where
  "FARCASTER_EPOCH = 1609459200000"

text \<open>\<^verbatim>\<open>Math.round\<close> rounds half up.\<close>

definition toFarcasterTime :: "int \<Rightarrow> int outcome" where
  "toFarcasterTime time =
     (if time < FARCASTER_EPOCH then
        fail InvalidParam ''time must be after Farcaster epoch (01/01/2022)''
      else (let secondsSinceEpoch = (time - FARCASTER_EPOCH + 500) div 1000 in
        if secondsSinceEpoch > 2 ^ 32 - 1 then fail InvalidParam ''time too far in future''
        else Ok secondsSinceEpoch))"

definition fromFarcasterTime :: "int \<Rightarrow> int outcome" where
  "fromFarcasterTime time = Ok (time * 1000 + FARCASTER_EPOCH)"

text \<open>\<^verbatim>\<open>now\<close> is the clock's \<^verbatim>\<open>Date.now()\<close>.\<close>

definition getFarcasterTime :: "int \<Rightarrow> int outcome" where
  "getFarcasterTime now = toFarcasterTime now"

lemma toFarcasterTime_u32: "toFarcasterTime t = Ok s \<Longrightarrow> u32 s"
  by (auto simp: toFarcasterTime_def Let_def split: if_splits)

lemma toFarcasterTime_from: "u32 s \<Longrightarrow> andThen (fromFarcasterTime s) toFarcasterTime = Ok s"
  by (simp add: fromFarcasterTime_def toFarcasterTime_def)

lemma toFarcasterTime_error: "toFarcasterTime t = Ok s \<Longrightarrow> \<bar>s * 1000 + FARCASTER_EPOCH - t\<bar> \<le> 500"
  by (auto simp: toFarcasterTime_def Let_def split: if_splits)

lemma toFarcasterTime_ok_iff:
  "is_ok (toFarcasterTime t) \<longleftrightarrow> FARCASTER_EPOCH \<le> t \<and> t < FARCASTER_EPOCH + 4294967295500"
  by (auto simp: toFarcasterTime_def Let_def not_less)

section \<open>Event ids\<close>

definition SEQUENCE_BITS :: nat where
  "SEQUENCE_BITS = 12"

text \<open>\<^verbatim>\<open>s.slice(0, end)\<close>: a negative end counts from the end of the string.\<close>

definition js_slice0 :: "'a list \<Rightarrow> int \<Rightarrow> 'a list" where
  "js_slice0 s e = take (nat (if e < 0 then max 0 (int (length s) + e) else e)) s"

text \<open>The result is NaN (\<open>None\<close>) when no digit is left.\<close>

definition extractEventTimestamp :: "int \<Rightarrow> int option" where
  "extractEventTimestamp eventId =
     (let binaryEventId = int_to_string 2 eventId;
          binaryTimestamp = js_slice0 binaryEventId (int (length binaryEventId) - int SEQUENCE_BITS)
      in map_option (\<lambda>n. n + FARCASTER_EPOCH) (parse_int 2 binaryTimestamp))"

definition makeEventId :: "int \<Rightarrow> int \<Rightarrow> int option" where
  "makeEventId timestamp seq =
     (let binaryTimestamp = int_to_string 2 (timestamp - FARCASTER_EPOCH);
          binarySeq = pad_start SEQUENCE_BITS 48 (int_to_string 2 seq)
      in parse_int 2 (binaryTimestamp @ binarySeq))"

lemma pad_digits: "pad_start k 48 (map digit_char ds) = map digit_char (replicate (k - length ds) 0 @ ds)"
  by (simp add: pad_start_def digit_char_def)

lemma makeEventId_value:
  assumes "FARCASTER_EPOCH \<le> t" "0 \<le> q" "q < 4096"
  shows "makeEventId t q = Some ((t - FARCASTER_EPOCH) * 4096 + q)"
proof -
  let ?ts = "digits 2 (nat (t - FARCASTER_EPOCH))" and ?sq = "digits 2 (nat q)"
  let ?pad = "replicate (12 - length ?sq) 0 @ ?sq"
  have len: "length ?sq \<le> 12"
    using assms by (intro digits_length) (simp_all add: nat_less_iff)
  then have lp: "length ?pad = 12" by simp
  have "set (?ts @ ?pad) \<subseteq> {0, 1}"
    using digits_bounded[of 2 _ "nat (t - FARCASTER_EPOCH)"] digits_bounded[of 2 _ "nat q"]
    by (fastforce simp: less_2_cases_iff)
  then have "parse_int 2 (map digit_char (?ts @ ?pad)) = Some (int (of_digits 2 (?ts @ ?pad)))"
    by (intro parse_int_digits) auto
  moreover have "of_digits 2 (?ts @ ?pad) = nat (t - FARCASTER_EPOCH) * 4096 + nat q"
    by (subst of_digits_append) (simp only: lp of_digits_append of_digits_zeros of_digits_digits, simp)
  ultimately show ?thesis
    using assms
    by (simp add: makeEventId_def Let_def int_to_string_def nat_to_string_def SEQUENCE_BITS_def
        pad_digits flip: map_append)
qed

lemma digits_div: "2 \<le> b \<Longrightarrow> b \<le> n \<Longrightarrow> digits b n = digits b (n div b) @ [n mod b]"
  by (subst digits.simps) simp

lemma take_digits_power:
  "2 \<le> b \<Longrightarrow> b ^ k \<le> n \<Longrightarrow> take (length (digits b n) - k) (digits b n) = digits b (n div b ^ k)"
proof (induction k arbitrary: n)
  case 0
  then show ?case by simp
next
  case (Suc k)
  have "1 \<le> b ^ k" using Suc.prems by simp
  then have "b * 1 \<le> b * b ^ k" by (rule mult_le_mono2)
  also have "\<dots> \<le> n" using Suc.prems by simp
  finally have "b \<le> n" by simp
  then have d: "digits b n = digits b (n div b) @ [n mod b]" using Suc.prems by (simp add: digits_div)
  have "b ^ k \<le> n div b"
    using Suc.prems by (simp add: less_eq_div_iff_mult_less_eq mult.commute)
  with Suc have "take (length (digits b (n div b)) - k) (digits b (n div b)) = digits b (n div b div b ^ k)"
    by simp
  with d show ?case by (simp add: div_mult2_eq)
qed

lemma digits_long:
  assumes "2 \<le> b" "b ^ k \<le> n"
  shows "k < length (digits b n)"
proof (rule ccontr)
  assume "\<not> k < length (digits b n)"
  then have "b ^ length (digits b n) \<le> b ^ k" using assms(1) by (simp add: power_increasing)
  moreover have "n < b ^ length (digits b n)"
    using of_digits_bound[of "digits b n" b] digits_bounded[of b _ n] assms(1) by simp
  ultimately show False using assms(2) by simp
qed

lemma extractEventTimestamp_value:
  assumes "4096 \<le> e"
  shows "extractEventTimestamp e = Some (e div 4096 + FARCASTER_EPOCH)"
proof -
  have p: "2 ^ 12 \<le> nat e" using assms by simp
  from p have "12 < length (digits 2 (nat e))" by (intro digits_long) simp
  moreover from p have "take (length (digits 2 (nat e)) - 12) (digits 2 (nat e)) = digits 2 (nat e div 2 ^ 12)"
    by (intro take_digits_power) simp
  moreover have "int (nat e div 4096) = e div 4096" using assms by (simp add: zdiv_int)
  ultimately show ?thesis
    using assms parse_int_nat_to_string[of 2 "nat e div 4096"]
    by (simp add: extractEventTimestamp_def Let_def int_to_string_def nat_to_string_def
        js_slice0_def SEQUENCE_BITS_def take_map nat_diff_distrib)
qed

section \<open>The native generator\<close>

unbundle bit_operations_syntax

definition make_event_id :: "64 word \<Rightarrow> 64 word \<Rightarrow> 64 word" where
  "make_event_id timestamp seq = push_bit 12 timestamp OR (seq AND (push_bit 12 1 - 1))"

record event_id_generator =
  gen_last_timestamp :: "64 word"
  gen_last_seq :: "64 word"
  gen_epoch :: "64 word"

text \<open>\<^verbatim>\<open>clock\<close> is the time the caller passes, or the system's. Overflow of the subtraction and of
  the increment would panic in a checked build; the release build wraps, as here.\<close>

definition generate_id :: "64 word \<Rightarrow> event_id_generator \<Rightarrow> 64 word outcome \<times> event_id_generator" where
  "generate_id clock g =
     (let current = clock - gen_epoch g;
          g = (if current = gen_last_timestamp g then g\<lparr>gen_last_seq := gen_last_seq g + 1\<rparr>
               else g\<lparr>gen_last_timestamp := current, gen_last_seq := 0\<rparr>)
      in (if gen_last_timestamp g \<ge> 2 ^ 41 then (fail InvalidParam ''timestamp > 41 bits'', g)
          else if gen_last_seq g \<ge> 2 ^ 12 then (fail InvalidParam ''sequence > 12 bits'', g)
          else (Ok (make_event_id (gen_last_timestamp g) (gen_last_seq g)), g)))"

lemma make_event_id_value:
  assumes "uint t < 2 ^ 41"
  shows "uint (make_event_id t q) = uint t * 4096 + uint q mod 4096"
proof -
  have seq: "uint (q AND (push_bit 12 1 - 1)) = uint q mod 4096"
  proof -
    have m: "(push_bit 12 1 - 1 :: 64 word) = mask 12" by (simp add: mask_eq_exp_minus_1)
    have "uint (q AND mask 12) = take_bit 12 (uint q)"
      by (simp only: take_bit_eq_mask [symmetric] unsigned_take_bit_eq)
    then show ?thesis by (simp only: m) (simp add: take_bit_eq_mod)
  qed
  have "uint (push_bit 12 t) = uint t * 4096"
    using assms by (simp add: push_bit_eq_mult uint_word_ariths)
  moreover have "(uint t * 4096) OR (uint q mod 4096) = uint t * 4096 + uint q mod 4096"
  proof -
    have "uint t * 4096 = push_bit 12 (uint t)" "uint q mod 4096 = take_bit 12 (uint q)"
      by (simp_all add: push_bit_eq_mult take_bit_eq_mod)
    then show ?thesis
      by (simp only:) (rule disjunctive_add_eq_or [symmetric], auto simp: bit_eq_iff bit_simps)
  qed
  ultimately show ?thesis
    using seq by (simp add: make_event_id_def uint_or)
qed


text \<open>While the clock does not run backwards every id is larger than the one before.\<close>

lemma generate_id_increases:
  assumes "gen_epoch g \<le> clock" "gen_last_timestamp g \<le> clock - gen_epoch g" "gen_last_seq g < 2 ^ 12"
    and "generate_id clock g = (Ok i, g')"
  shows "make_event_id (gen_last_timestamp g) (gen_last_seq g) < i \<and> gen_last_seq g' < 2 ^ 12 \<and>
         i = make_event_id (gen_last_timestamp g') (gen_last_seq g') \<and>
         gen_last_timestamp g' = clock - gen_epoch g \<and> gen_epoch g' = gen_epoch g"
proof -
  let ?t = "gen_last_timestamp g" and ?q = "gen_last_seq g" and ?c = "clock - gen_epoch g"
  have c: "?c < 2 ^ 41"
    using assms(4) by (auto simp: generate_id_def Let_def not_le split: if_splits)
  then have u: "uint ?c < 2 ^ 41" "uint ?t \<le> uint ?c"
    using assms(2) by (simp_all add: word_less_def word_le_def)
  then have t: "uint ?t < 2 ^ 41" by simp
  have q: "uint ?q < 4096" "0 \<le> uint ?q" using assms(3) by (simp_all add: word_less_def)
  show ?thesis
  proof (cases "?c = ?t")
    case True
    with assms(4) c have i: "i = make_event_id ?t (?q + 1)" "gen_last_seq g' = ?q + 1"
        "g' = g\<lparr>gen_last_seq := ?q + 1\<rparr>" and b: "?q + 1 < 2 ^ 12"
      by (auto simp: generate_id_def Let_def not_le split: if_splits)
    have "uint (?q + 1) = uint ?q + 1" using q by (simp add: uint_word_ariths)
    with b i t q True show ?thesis
      by (simp add: word_less_def make_event_id_value)
  next
    case False
    with assms(4) c have i: "i = make_event_id ?c 0" "g' = g\<lparr>gen_last_timestamp := ?c, gen_last_seq := 0\<rparr>"
      by (auto simp: generate_id_def Let_def not_le split: if_splits)
    have "uint ?t < uint ?c" using u False by (simp add: word_uint_eq_iff order_less_le)
    with i t u q show ?thesis
      by (simp add: word_less_def make_event_id_value)
  qed
qed

text \<open>The two implementations agree on every timestamp of 41 bits and sequence number of 12.\<close>

lemma event_ids_agree:
  assumes "uint t < 2 ^ 41" "uint q < 2 ^ 12"
  shows "makeEventId (uint t + FARCASTER_EPOCH) (uint q) = Some (uint (make_event_id t q))"
  using assms makeEventId_value[of "uint t + FARCASTER_EPOCH" "uint q"]
  by (simp add: make_event_id_value)

end
