(* ===== verification/Protobufs.thy ===== *)
theory Protobufs
  imports FarcasterTime
begin

text \<open>
  The messages, on-chain events, username proofs and hub events of
  \<^verbatim>\<open>packages/core/src/protobufs\<close>: one record per interface of the generated files, the enums as
  the integers they are on the wire (a decoder keeps numbers it does not know), and the type
  guards of \<^verbatim>\<open>typeguards.ts\<close>. An optional field is an option. The fields that the validation
  code tests for \<^verbatim>\<open>undefined\<close> although their type forbids it are options too. Farcaster ids and
  positions, which the code checks to be integers, are JavaScript numbers; the other numbers
  come from integer wire types and are integers.
\<close>

section \<open>Enumerations\<close>

abbreviation (input) CAST_ADD :: int where "CAST_ADD \<equiv> 1"
abbreviation (input) CAST_REMOVE :: int where "CAST_REMOVE \<equiv> 2"
abbreviation (input) REACTION_ADD :: int where "REACTION_ADD \<equiv> 3"
abbreviation (input) REACTION_REMOVE :: int where "REACTION_REMOVE \<equiv> 4"
abbreviation (input) LINK_ADD :: int where "LINK_ADD \<equiv> 5"
abbreviation (input) LINK_REMOVE :: int where "LINK_REMOVE \<equiv> 6"
abbreviation (input) VERIFICATION_ADD_ETH_ADDRESS :: int where "VERIFICATION_ADD_ETH_ADDRESS \<equiv> 7"
abbreviation (input) VERIFICATION_REMOVE :: int where "VERIFICATION_REMOVE \<equiv> 8"
abbreviation (input) USER_DATA_ADD :: int where "USER_DATA_ADD \<equiv> 11"
abbreviation (input) USERNAME_PROOF :: int where "USERNAME_PROOF \<equiv> 12"
abbreviation (input) FRAME_ACTION :: int where "FRAME_ACTION \<equiv> 13"
abbreviation (input) LINK_COMPACT_STATE :: int where "LINK_COMPACT_STATE \<equiv> 14"

definition MessageType_values :: "int list" where
  "MessageType_values = [0, 1, 2, 3, 4, 5, 6, 7, 8, 11, 12, 13, 14]"

definition FarcasterNetwork_values :: "int list" where
  "FarcasterNetwork_values = [0, 1, 2, 3]"

definition ReactionType_values :: "int list" where
  "ReactionType_values = [0, 1, 2]"

definition UserDataType_values :: "int list" where
  "UserDataType_values = [0, 1, 2, 3, 5, 6, 7, 8, 9]"

abbreviation (input) UDT_NONE :: int where "UDT_NONE \<equiv> 0"
abbreviation (input) UDT_PFP :: int where "UDT_PFP \<equiv> 1"
abbreviation (input) UDT_DISPLAY :: int where "UDT_DISPLAY \<equiv> 2"
abbreviation (input) UDT_BIO :: int where "UDT_BIO \<equiv> 3"
abbreviation (input) UDT_URL :: int where "UDT_URL \<equiv> 5"
abbreviation (input) UDT_USERNAME :: int where "UDT_USERNAME \<equiv> 6"
abbreviation (input) UDT_LOCATION :: int where "UDT_LOCATION \<equiv> 7"
abbreviation (input) UDT_TWITTER :: int where "UDT_TWITTER \<equiv> 8"
abbreviation (input) UDT_GITHUB :: int where "UDT_GITHUB \<equiv> 9"

abbreviation (input) CastType_CAST :: int where "CastType_CAST \<equiv> 0"
abbreviation (input) CastType_LONG_CAST :: int where "CastType_LONG_CAST \<equiv> 1"
abbreviation (input) ETHEREUM :: int where "ETHEREUM \<equiv> 0"
abbreviation (input) SOLANA :: int where "SOLANA \<equiv> 1"
abbreviation (input) BLAKE3 :: int where "BLAKE3 \<equiv> 1"
abbreviation (input) ED25519 :: int where "ED25519 \<equiv> 1"
abbreviation (input) EIP712 :: int where "EIP712 \<equiv> 2"
abbreviation (input) USERNAME_TYPE_FNAME :: int where "USERNAME_TYPE_FNAME \<equiv> 1"
abbreviation (input) USERNAME_TYPE_ENS_L1 :: int where "USERNAME_TYPE_ENS_L1 \<equiv> 2"

abbreviation (input) EVENT_TYPE_SIGNER :: int where "EVENT_TYPE_SIGNER \<equiv> 1"
abbreviation (input) EVENT_TYPE_SIGNER_MIGRATED :: int where "EVENT_TYPE_SIGNER_MIGRATED \<equiv> 2"
abbreviation (input) EVENT_TYPE_ID_REGISTER :: int where "EVENT_TYPE_ID_REGISTER \<equiv> 3"
abbreviation (input) EVENT_TYPE_STORAGE_RENT :: int where "EVENT_TYPE_STORAGE_RENT \<equiv> 4"
abbreviation (input) SIGNER_EVENT_ADD :: int where "SIGNER_EVENT_ADD \<equiv> 1"
abbreviation (input) SIGNER_EVENT_REMOVE :: int where "SIGNER_EVENT_REMOVE \<equiv> 2"
abbreviation (input) SIGNER_EVENT_ADMIN_RESET :: int where "SIGNER_EVENT_ADMIN_RESET \<equiv> 3"
abbreviation (input) ID_REGISTER_REGISTER :: int where "ID_REGISTER_REGISTER \<equiv> 1"
abbreviation (input) ID_REGISTER_TRANSFER :: int where "ID_REGISTER_TRANSFER \<equiv> 2"
abbreviation (input) ID_REGISTER_CHANGE_RECOVERY :: int where "ID_REGISTER_CHANGE_RECOVERY \<equiv> 3"

abbreviation (input) HUB_EVENT_MERGE_MESSAGE :: int where "HUB_EVENT_MERGE_MESSAGE \<equiv> 1"
abbreviation (input) HUB_EVENT_PRUNE_MESSAGE :: int where "HUB_EVENT_PRUNE_MESSAGE \<equiv> 2"
abbreviation (input) HUB_EVENT_REVOKE_MESSAGE :: int where "HUB_EVENT_REVOKE_MESSAGE \<equiv> 3"
abbreviation (input) HUB_EVENT_MERGE_USERNAME_PROOF :: int where "HUB_EVENT_MERGE_USERNAME_PROOF \<equiv> 6"
abbreviation (input) HUB_EVENT_MERGE_ON_CHAIN_EVENT :: int where "HUB_EVENT_MERGE_ON_CHAIN_EVENT \<equiv> 9"

section \<open>Message bodies\<close>

record CastId =
  castid_fid :: number
  castid_hash :: "bytes option"

record Embed =
  embed_url :: "js_string option"
  embed_castId :: "CastId option"

record CastAddBody =
  cab_embedsDeprecated :: "js_string option list"
  cab_mentions :: "number list"
  cab_parentCastId :: "CastId option"
  cab_parentUrl :: "js_string option"
  cab_text :: "js_string option"
  cab_mentionsPositions :: "number list"
  cab_embeds :: "Embed option list"
  cab_type :: int

record CastRemoveBody =
  crb_targetHash :: "bytes option"

record ReactionBody =
  rb_type :: int
  rb_targetCastId :: "CastId option"
  rb_targetUrl :: "js_string option"

record VerificationAddAddressBody =
  vab_address :: bytes
  vab_claimSignature :: bytes
  vab_blockHash :: bytes
  vab_verificationType :: int
  vab_chainId :: int
  vab_protocol :: int

record VerificationRemoveBody =
  vrb_address :: bytes
  vrb_protocol :: int

record UserDataBody =
  udb_type :: int
  udb_value :: js_string

record LinkBody =
  lb_type :: js_string
  lb_displayTimestamp :: "int option"
  lb_targetFid :: "number option"

record LinkCompactStateBody =
  lcsb_type :: js_string
  lcsb_targetFids :: "number list option"

record FrameActionBody =
  fab_url :: bytes
  fab_buttonIndex :: int
  fab_castId :: "CastId option"
  fab_inputText :: bytes
  fab_state :: bytes
  fab_transactionId :: bytes
  fab_address :: bytes

record UserNameProof =
  unp_timestamp :: int
  unp_name :: bytes
  unp_owner :: bytes
  unp_signature :: bytes
  unp_fid :: number
  unp_type :: int

record MessageData =
  md_type :: int
  md_fid :: number
  md_timestamp :: int
  md_network :: int
  md_castAddBody :: "CastAddBody option"
  md_castRemoveBody :: "CastRemoveBody option"
  md_reactionBody :: "ReactionBody option"
  md_verificationAddAddressBody :: "VerificationAddAddressBody option"
  md_verificationRemoveBody :: "VerificationRemoveBody option"
  md_userDataBody :: "UserDataBody option"
  md_linkBody :: "LinkBody option"
  md_usernameProofBody :: "UserNameProof option"
  md_frameActionBody :: "FrameActionBody option"
  md_linkCompactStateBody :: "LinkCompactStateBody option"

record Message =
  msg_data :: "MessageData option"
  msg_hash :: "bytes option"
  msg_hashScheme :: int
  msg_signature :: "bytes option"
  msg_signatureScheme :: int
  msg_signer :: "bytes option"
  msg_dataBytes :: "bytes option"

section \<open>On-chain events and hub events\<close>

record SignerEventBody =
  seb_key :: bytes
  seb_keyType :: int
  seb_eventType :: int
  seb_metadata :: bytes
  seb_metadataType :: int

record SignerMigratedEventBody =
  smeb_migratedAt :: int

record IdRegisterEventBody =
  ireb_to :: bytes
  ireb_eventType :: int
  ireb_from :: bytes
  ireb_recoveryAddress :: bytes

record StorageRentEventBody =
  sreb_payer :: bytes
  sreb_units :: int
  sreb_expiry :: int

record OnChainEvent =
  oce_type :: int
  oce_chainId :: int
  oce_blockNumber :: int
  oce_blockHash :: bytes
  oce_blockTimestamp :: int
  oce_transactionHash :: bytes
  oce_logIndex :: int
  oce_fid :: number
  oce_signerEventBody :: "SignerEventBody option"
  oce_signerMigratedEventBody :: "SignerMigratedEventBody option"
  oce_idRegisterEventBody :: "IdRegisterEventBody option"
  oce_storageRentEventBody :: "StorageRentEventBody option"
  oce_txIndex :: int
  oce_version :: int

record MergeMessageBody =
  mmb_message :: "Message option"
  mmb_deletedMessages :: "Message list"

record MergeUserNameProofBody =
  mupb_usernameProof :: "UserNameProof option"
  mupb_deletedUsernameProof :: "UserNameProof option"
  mupb_usernameProofMessage :: "Message option"
  mupb_deletedUsernameProofMessage :: "Message option"

text \<open>The prune, revoke and merge-on-chain-event bodies have one optional field; they are options
  of options.\<close>

record HubEvent =
  he_type :: int
  he_id :: int
  he_mergeMessageBody :: "MergeMessageBody option"
  he_pruneMessageBody :: "Message option option"
  he_revokeMessageBody :: "Message option option"
  he_mergeUsernameProofBody :: "MergeUserNameProofBody option"
  he_mergeOnChainEventBody :: "OnChainEvent option option"

section \<open>Type guards\<close>

definition isCastAddData :: "MessageData \<Rightarrow> bool" where
  "isCastAddData d \<longleftrightarrow> md_type d = CAST_ADD \<and> md_castAddBody d \<noteq> None"

text \<open>The guards of messages: the signature scheme, a data field, and the guard of the data.\<close>

definition ed25519_message_with :: "(MessageData \<Rightarrow> bool) \<Rightarrow> Message \<Rightarrow> bool" where
  "ed25519_message_with p m \<longleftrightarrow>
     msg_signatureScheme m = ED25519 \<and> (case msg_data m of None \<Rightarrow> False | Some d \<Rightarrow> p d)"

definition isCastAddMessage :: "Message \<Rightarrow> bool" where
  "isCastAddMessage m = ed25519_message_with isCastAddData m"

definition isCastRemoveData :: "MessageData \<Rightarrow> bool" where
  "isCastRemoveData d \<longleftrightarrow> md_type d = CAST_REMOVE \<and> md_castRemoveBody d \<noteq> None"

definition isCastRemoveMessage :: "Message \<Rightarrow> bool" where
  "isCastRemoveMessage m = ed25519_message_with isCastRemoveData m"

definition isLinkAddData :: "MessageData \<Rightarrow> bool" where
  "isLinkAddData d \<longleftrightarrow> md_type d = LINK_ADD \<and> md_linkBody d \<noteq> None"

definition isLinkCompactStateMessage :: "Message \<Rightarrow> bool" where
  "isLinkCompactStateMessage m =
     ed25519_message_with
       (\<lambda>d. md_type d = LINK_COMPACT_STATE \<and> md_linkCompactStateBody d \<noteq> None) m"

definition isLinkAddMessage :: "Message \<Rightarrow> bool" where
  "isLinkAddMessage m = ed25519_message_with isLinkAddData m"

definition isLinkRemoveData :: "MessageData \<Rightarrow> bool" where
  "isLinkRemoveData d \<longleftrightarrow> md_type d = LINK_REMOVE \<and> md_linkBody d \<noteq> None"

definition isLinkRemoveMessage :: "Message \<Rightarrow> bool" where
  "isLinkRemoveMessage m = ed25519_message_with isLinkRemoveData m"

definition isReactionAddData :: "MessageData \<Rightarrow> bool" where
  "isReactionAddData d \<longleftrightarrow> md_type d = REACTION_ADD \<and> md_reactionBody d \<noteq> None"

definition isReactionAddMessage :: "Message \<Rightarrow> bool" where
  "isReactionAddMessage m = ed25519_message_with isReactionAddData m"

definition isReactionRemoveData :: "MessageData \<Rightarrow> bool" where
  "isReactionRemoveData d \<longleftrightarrow> md_type d = REACTION_REMOVE \<and> md_reactionBody d \<noteq> None"

definition isReactionRemoveMessage :: "Message \<Rightarrow> bool" where
  "isReactionRemoveMessage m = ed25519_message_with isReactionRemoveData m"

definition isVerificationAddAddressData :: "MessageData \<Rightarrow> bool" where
  "isVerificationAddAddressData d \<longleftrightarrow>
     md_type d = VERIFICATION_ADD_ETH_ADDRESS \<and>
     (case md_verificationAddAddressBody d of
        None \<Rightarrow> False
      | Some b \<Rightarrow> vab_protocol b = ETHEREUM \<or> vab_protocol b = SOLANA)"

definition isVerificationAddAddressMessage :: "Message \<Rightarrow> bool" where
  "isVerificationAddAddressMessage m = ed25519_message_with isVerificationAddAddressData m"

definition isVerificationRemoveData :: "MessageData \<Rightarrow> bool" where
  "isVerificationRemoveData d \<longleftrightarrow>
     md_type d = VERIFICATION_REMOVE \<and>
     (case md_verificationRemoveBody d of
        None \<Rightarrow> False
      | Some b \<Rightarrow> vrb_protocol b = ETHEREUM \<or> vrb_protocol b = SOLANA)"

definition isVerificationRemoveMessage :: "Message \<Rightarrow> bool" where
  "isVerificationRemoveMessage m = ed25519_message_with isVerificationRemoveData m"

definition isUserDataAddData :: "MessageData \<Rightarrow> bool" where
  "isUserDataAddData d \<longleftrightarrow> md_type d = USER_DATA_ADD \<and> md_userDataBody d \<noteq> None"

definition isUserDataAddMessage :: "Message \<Rightarrow> bool" where
  "isUserDataAddMessage m = ed25519_message_with isUserDataAddData m"

definition isUsernameProofData :: "MessageData \<Rightarrow> bool" where
  "isUsernameProofData d \<longleftrightarrow> md_type d = USERNAME_PROOF \<and> md_usernameProofBody d \<noteq> None"

definition isUsernameProofMessage :: "Message \<Rightarrow> bool" where
  "isUsernameProofMessage m = ed25519_message_with isUsernameProofData m"

definition isFrameActionData :: "MessageData \<Rightarrow> bool" where
  "isFrameActionData d \<longleftrightarrow> md_type d = FRAME_ACTION \<and> md_frameActionBody d \<noteq> None"

definition isFrameActionMessage :: "Message \<Rightarrow> bool" where
  "isFrameActionMessage m = ed25519_message_with isFrameActionData m"

definition isSignerOnChainEvent :: "OnChainEvent \<Rightarrow> bool" where
  "isSignerOnChainEvent e \<longleftrightarrow> oce_type e = EVENT_TYPE_SIGNER \<and> oce_signerEventBody e \<noteq> None"

definition isSignerMigratedOnChainEvent :: "OnChainEvent \<Rightarrow> bool" where
  "isSignerMigratedOnChainEvent e \<longleftrightarrow>
     oce_type e = EVENT_TYPE_SIGNER_MIGRATED \<and> oce_signerMigratedEventBody e \<noteq> None"

definition isIdRegisterOnChainEvent :: "OnChainEvent \<Rightarrow> bool" where
  "isIdRegisterOnChainEvent e \<longleftrightarrow>
     oce_type e = EVENT_TYPE_ID_REGISTER \<and> oce_idRegisterEventBody e \<noteq> None"

definition isStorageRentOnChainEvent :: "OnChainEvent \<Rightarrow> bool" where
  "isStorageRentOnChainEvent e \<longleftrightarrow>
     oce_type e = EVENT_TYPE_STORAGE_RENT \<and> oce_storageRentEventBody e \<noteq> None"

definition isMergeMessageHubEvent :: "HubEvent \<Rightarrow> bool" where
  "isMergeMessageHubEvent e \<longleftrightarrow>
     he_type e = HUB_EVENT_MERGE_MESSAGE \<and>
     (case he_mergeMessageBody e of None \<Rightarrow> False | Some b \<Rightarrow> mmb_message b \<noteq> None)"

definition isRevokeMessageHubEvent :: "HubEvent \<Rightarrow> bool" where
  "isRevokeMessageHubEvent e \<longleftrightarrow>
     he_type e = HUB_EVENT_REVOKE_MESSAGE \<and>
     (case he_revokeMessageBody e of None \<Rightarrow> False | Some m \<Rightarrow> m \<noteq> None)"

definition isPruneMessageHubEvent :: "HubEvent \<Rightarrow> bool" where
  "isPruneMessageHubEvent e \<longleftrightarrow>
     he_type e = HUB_EVENT_PRUNE_MESSAGE \<and>
     (case he_pruneMessageBody e of None \<Rightarrow> False | Some m \<Rightarrow> m \<noteq> None)"

definition isMergeOnChainHubEvent :: "HubEvent \<Rightarrow> bool" where
  "isMergeOnChainHubEvent e \<longleftrightarrow>
     he_type e = HUB_EVENT_MERGE_ON_CHAIN_EVENT \<and>
     (case he_mergeOnChainEventBody e of None \<Rightarrow> False | Some m \<Rightarrow> m \<noteq> None)"

definition isMergeUsernameProofHubEvent :: "HubEvent \<Rightarrow> bool" where
  "isMergeUsernameProofHubEvent e \<longleftrightarrow>
     he_type e = HUB_EVENT_MERGE_USERNAME_PROOF \<and>
     (case he_mergeUsernameProofBody e of
        None \<Rightarrow> False
      | Some b \<Rightarrow> mupb_usernameProof b \<noteq> None \<or> mupb_deletedUsernameProof b \<noteq> None)"

lemmas data_guard_defs =
  isCastAddData_def isCastRemoveData_def isLinkAddData_def isLinkRemoveData_def
  isReactionAddData_def isReactionRemoveData_def isVerificationAddAddressData_def
  isVerificationRemoveData_def isUserDataAddData_def isUsernameProofData_def isFrameActionData_def

lemmas message_guard_defs =
  isCastAddMessage_def isCastRemoveMessage_def isLinkAddMessage_def isLinkRemoveMessage_def
  isLinkCompactStateMessage_def isReactionAddMessage_def isReactionRemoveMessage_def
  isVerificationAddAddressMessage_def isVerificationRemoveMessage_def isUserDataAddMessage_def
  isUsernameProofMessage_def isFrameActionMessage_def

text \<open>The guards in the order in which the event handlers and stores try them: a message passes
  at most one of them.\<close>

definition message_guards :: "(Message \<Rightarrow> bool) list" where
  "message_guards =
     [isCastAddMessage, isCastRemoveMessage, isLinkAddMessage, isLinkRemoveMessage,
      isLinkCompactStateMessage, isReactionAddMessage, isReactionRemoveMessage,
      isVerificationAddAddressMessage, isVerificationRemoveMessage, isUserDataAddMessage,
      isUsernameProofMessage, isFrameActionMessage]"

lemma message_guards_length: "length (filter (\<lambda>g. g m) message_guards) \<le> 1"
proof (cases "msg_data m")
  case None
  then show ?thesis
    by (simp add: message_guards_def message_guard_defs ed25519_message_with_def)
next
  case (Some d)
  have "md_type d \<in> {1,2,5,6,14,3,4,7,8,11,12,13} \<or> md_type d \<notin> {1,2,5,6,14,3,4,7,8,11,12,13}"
    by blast
  with Some show ?thesis
    by (auto simp: message_guards_def message_guard_defs ed25519_message_with_def data_guard_defs)
qed

end
