(* ===== verification/StorageLimits.thy ===== *)
theory StorageLimits
  imports Protobufs
begin

text \<open>
  \<^verbatim>\<open>packages/core/src/limits.ts\<close>: how many messages of each store a storage unit buys, which
  kind of unit an on-chain rent event buys and when it expires. A table lookup that finds
  nothing gives \<^verbatim>\<open>undefined\<close>, and indexing \<^verbatim>\<open>undefined\<close> throws. The limit is NaN when a
  unit type is unknown.
\<close>

abbreviation (input) STORE_NONE :: int where "STORE_NONE \<equiv> 0"
abbreviation (input) STORE_CASTS :: int where "STORE_CASTS \<equiv> 1"
abbreviation (input) STORE_LINKS :: int where "STORE_LINKS \<equiv> 2"
abbreviation (input) STORE_REACTIONS :: int where "STORE_REACTIONS \<equiv> 3"
abbreviation (input) STORE_USER_DATA :: int where "STORE_USER_DATA \<equiv> 4"
abbreviation (input) STORE_VERIFICATIONS :: int where "STORE_VERIFICATIONS \<equiv> 5"
abbreviation (input) STORE_USERNAME_PROOFS :: int where "STORE_USERNAME_PROOFS \<equiv> 6"
abbreviation (input) UNIT_TYPE_LEGACY :: int where "UNIT_TYPE_LEGACY \<equiv> 0"
abbreviation (input) UNIT_TYPE_2024 :: int where "UNIT_TYPE_2024 \<equiv> 1"

definition LEGACY_STORAGE_UNIT_CUTOFF_TIMESTAMP :: int where
  "LEGACY_STORAGE_UNIT_CUTOFF_TIMESTAMP = 1724889600"

definition ONE_YEAR_IN_SECONDS :: int where
  "ONE_YEAR_IN_SECONDS = 365 * 24 * 60 * 60"

text \<open>One row per store type: the store, the legacy unit's limit, the 2024 unit's limit.\<close>

definition STORAGE_UNIT_DEFAULTS :: "(int \<times> int \<times> int) list" where
  "STORAGE_UNIT_DEFAULTS =
     [(STORE_CASTS, 5000, 2000), (STORE_LINKS, 2500, 1000), (STORE_REACTIONS, 2500, 1000),
      (STORE_USER_DATA, 50, 50), (STORE_USERNAME_PROOFS, 5, 5), (STORE_VERIFICATIONS, 25, 25),
      (STORE_NONE, 0, 0)]"

record StorageUnitDetails =
  sud_unitType :: int
  sud_unitSize :: int

text \<open>The inner \<open>None\<close> is \<^verbatim>\<open>undefined\<close>.\<close>

definition getDefaultStoreLimit :: "int \<Rightarrow> int \<Rightarrow> int option outcome" where
  "getDefaultStoreLimit storeType unit_type =
     (case map_of STORAGE_UNIT_DEFAULTS storeType of
        None \<Rightarrow> Throw TypeError
      | Some (legacy, y2024) \<Rightarrow>
          Ok (if unit_type = UNIT_TYPE_LEGACY then Some legacy
              else if unit_type = UNIT_TYPE_2024 then Some y2024 else None))"

text \<open>The loop \<^verbatim>\<open>limit += getDefaultStoreLimit(...) * unit.unitSize\<close>; a NaN stays one.\<close>

fun store_limit_loop :: "int \<Rightarrow> StorageUnitDetails list \<Rightarrow> int option \<Rightarrow> int option outcome" where
  "store_limit_loop st [] limit = Ok limit"
| "store_limit_loop st (u # us) limit =
     andThen (getDefaultStoreLimit st (sud_unitType u)) (\<lambda>d.
       store_limit_loop st us
         (case (limit, d) of (Some l, Some v) \<Rightarrow> Some (l + v * sud_unitSize u) | _ \<Rightarrow> None))"

definition getStoreLimit :: "int \<Rightarrow> StorageUnitDetails list \<Rightarrow> int option outcome" where
  "getStoreLimit storeType unit_details = store_limit_loop storeType unit_details (Some 0)"

definition getStoreLimits :: "StorageUnitDetails list \<Rightarrow> (int \<times> int option) list outcome" where
  "getStoreLimits unit_details =
     mapM (\<lambda>st. mapOk (getStoreLimit st unit_details) (\<lambda>l. (st, l)))
       [STORE_CASTS, STORE_LINKS, STORE_REACTIONS, STORE_USER_DATA, STORE_USERNAME_PROOFS,
        STORE_VERIFICATIONS]"

definition getStorageUnitType :: "OnChainEvent \<Rightarrow> int" where
  "getStorageUnitType event =
     (if oce_blockTimestamp event < LEGACY_STORAGE_UNIT_CUTOFF_TIMESTAMP then UNIT_TYPE_LEGACY
      else UNIT_TYPE_2024)"

definition getStorageUnitExpiry :: "OnChainEvent \<Rightarrow> int" where
  "getStorageUnitExpiry event =
     (if oce_blockTimestamp event < LEGACY_STORAGE_UNIT_CUTOFF_TIMESTAMP
      then oce_blockTimestamp event + ONE_YEAR_IN_SECONDS * 2
      else oce_blockTimestamp event + ONE_YEAR_IN_SECONDS)"

section \<open>Limits are linear in the units\<close>

definition unit_limit :: "int \<Rightarrow> int \<Rightarrow> int" where
  "unit_limit st ut =
     (case map_of STORAGE_UNIT_DEFAULTS st of
        None \<Rightarrow> 0 | Some (l, y) \<Rightarrow> if ut = UNIT_TYPE_LEGACY then l else y)"

definition known_unit :: "StorageUnitDetails \<Rightarrow> bool" where
  "known_unit u \<longleftrightarrow> sud_unitType u = UNIT_TYPE_LEGACY \<or> sud_unitType u = UNIT_TYPE_2024"

lemma store_limit_loop_sum:
  "st \<in> fst ` set STORAGE_UNIT_DEFAULTS \<Longrightarrow> list_all known_unit us \<Longrightarrow>
   store_limit_loop st us (Some l) =
     Ok (Some (l + (\<Sum>u\<leftarrow>us. unit_limit st (sud_unitType u) * sud_unitSize u)))"
proof (induction us arbitrary: l)
  case Nil
  then show ?case by simp
next
  case (Cons u us)
  from Cons.prems obtain v where "map_of STORAGE_UNIT_DEFAULTS st = Some v"
    by (metis map_of_eq_None_iff not_None_eq)
  with Cons show ?case
    by (auto simp: getDefaultStoreLimit_def unit_limit_def known_unit_def split: prod.splits)
qed

lemma getStoreLimit_sum:
  "st \<in> fst ` set STORAGE_UNIT_DEFAULTS \<Longrightarrow> list_all known_unit us \<Longrightarrow>
   getStoreLimit st us = Ok (Some (\<Sum>u\<leftarrow>us. unit_limit st (sud_unitType u) * sud_unitSize u))"
  by (simp add: getStoreLimit_def store_limit_loop_sum)

end
