(* ===== verification/ValidateBasics.thy ===== *)
theory ValidateBasics
  imports StorageLimits
begin

text \<open>
  The elementary validators of \<^verbatim>\<open>packages/core/src/validations.ts\<close>: hashes, ids, addresses,
  block hashes, keys, times, urls, locations and user names. \<open>validation_env\<close> holds what the
  code takes from outside: the clock, the hash and signature functions (pluggable, with the pure
  JavaScript ones as default), ENS normalisation, typed-data verification, the generated
  protobuf encoder and the implicit string conversion of a byte array.

  Each validator has an exact acceptance condition as a lemma.
\<close>

type_synonym ed25519_verifier = "bytes \<Rightarrow> bytes \<Rightarrow> bytes \<Rightarrow> bool"

record eip712_domain =
  dom_name :: js_string
  dom_version :: js_string
  dom_salt :: "js_string option"
  dom_chainId :: "int option"
  dom_verifyingContract :: "js_string option"

record address_claim =
  claim_fid :: int
  claim_address :: js_string
  claim_network :: int
  claim_blockHash :: js_string
  claim_protocol :: int

record username_claim =
  uclaim_name :: js_string
  uclaim_owner :: js_string
  uclaim_timestamp :: int

datatype typed_message =
    VerificationClaim address_claim
  | UserNameProofMsg username_claim
  | MessageDataMsg js_string

record typed_data =
  td_address :: js_string
  td_domain :: eip712_domain
  td_message :: typed_message
  td_signature :: bytes

record validation_env =
  env_codecs :: codecs
  env_now :: int
  blake3_20 :: "bytes \<Rightarrow> bytes"
  ed25519_verify :: ed25519_verifier
  ed25519_signMessageHash :: "bytes \<Rightarrow> bytes \<Rightarrow> bytes"
  noble_blake3 :: "bytes \<Rightarrow> bytes"
  noble_verify :: "bytes \<Rightarrow> bytes \<Rightarrow> bytes \<Rightarrow> bool outcome"
  noble_sign :: "bytes \<Rightarrow> bytes \<Rightarrow> bytes outcome"
  noble_getPublicKey :: "bytes \<Rightarrow> bytes outcome"
  ens_normalize :: "js_string \<Rightarrow> js_string outcome"
  viem_verifyTypedData :: "typed_data \<Rightarrow> bool outcome"
  publicClients :: "int \<Rightarrow> (typed_data \<Rightarrow> bool outcome) option"
  chain_ids :: "int list"
  encodeMessageData :: "MessageData \<Rightarrow> bytes"
  show_bytes :: "bytes \<Rightarrow> js_string"

definition vfail :: "string \<Rightarrow> 'a outcome" where
  "vfail m = fail ValidationFailure m"

lemma vfail_simps [simp]:
  "vfail m \<noteq> Ok x" "Ok x \<noteq> vfail m" "vfail m \<noteq> Throw t" "\<not> is_ok (vfail m)" "no_throw (vfail m)"
  "andThen (vfail m) f = vfail m" "mapOk (vfail m) g = vfail m"
  by (simp_all add: vfail_def)

section \<open>Hashes and signatures\<close>

definition createMessageHash :: "validation_env \<Rightarrow> bytes option \<Rightarrow> int option \<Rightarrow> bytes outcome" where
  "createMessageHash E message hashScheme =
     (case message of
        None \<Rightarrow> vfail ''hash is missing''
      | Some m \<Rightarrow>
          if m = [] then vfail ''hash is missing''
          else if hashScheme \<noteq> Some BLAKE3 then vfail ''unsupported hash scheme''
          else Ok (blake3_20 E m))"

definition signMessageHash :: "validation_env \<Rightarrow> bytes option \<Rightarrow> bytes option \<Rightarrow> bytes outcome" where
  "signMessageHash E hash signingKey =
     (case hash of
        None \<Rightarrow> vfail ''hash is missing''
      | Some h \<Rightarrow>
          if h = [] then vfail ''hash is missing''
          else (case signingKey of
                  None \<Rightarrow> vfail ''signingKey is invalid''
                | Some k \<Rightarrow>
                    if length k \<noteq> 64 then vfail ''signingKey is invalid''
                    else Ok (ed25519_signMessageHash E h k)))"

definition verifySignedMessageHash ::
  "validation_env \<Rightarrow> bytes option \<Rightarrow> bytes option \<Rightarrow> bytes option \<Rightarrow> bool outcome" where
  "verifySignedMessageHash E hash signature signer =
     (case hash of
        None \<Rightarrow> vfail ''hash is missing''
      | Some h \<Rightarrow>
          if h = [] then vfail ''hash is missing''
          else (case signature of
                  None \<Rightarrow> vfail ''signature is invalid''
                | Some s \<Rightarrow>
                    if length s \<noteq> 64 then vfail ''signature is invalid''
                    else (case signer of
                            None \<Rightarrow> vfail ''signer is invalid''
                          | Some k \<Rightarrow>
                              if length k \<noteq> 32 then vfail ''signer is invalid''
                              else Ok (ed25519_verify E s h k))))"

definition validateMessageHash :: "bytes option \<Rightarrow> bytes outcome" where
  "validateMessageHash hash =
     (case hash of
        None \<Rightarrow> vfail ''hash is missing''
      | Some h \<Rightarrow>
          if h = [] then vfail ''hash is missing''
          else if length h \<noteq> 20 then vfail ''hash must be 20 bytes''
          else Ok h)"

text \<open>The four length checks of addresses and block hashes and the one of public keys have the
  same shape and differ in length and messages.\<close>

definition validate_sized :: "nat \<Rightarrow> string \<Rightarrow> string \<Rightarrow> bytes option \<Rightarrow> bytes outcome" where
  "validate_sized n missing wrong bs =
     (case bs of
        None \<Rightarrow> vfail missing
      | Some b \<Rightarrow> if b = [] then vfail missing else if length b \<noteq> n then vfail wrong else Ok b)"

definition validateSolAddress :: "bytes option \<Rightarrow> bytes outcome" where
  "validateSolAddress = validate_sized 32 ''solana address is missing'' ''solana address must be 32 bytes''"

definition validateSolBlockHash :: "bytes option \<Rightarrow> bytes outcome" where
  "validateSolBlockHash = validate_sized 32 ''blockHash is missing'' ''blockHash must be 32 bytes''"

definition validateEthAddress :: "bytes option \<Rightarrow> bytes outcome" where
  "validateEthAddress = validate_sized 20 ''Ethereum address is missing'' ''Ethereum address must be 20 bytes''"

definition validateEthBlockHash :: "bytes option \<Rightarrow> bytes outcome" where
  "validateEthBlockHash = validate_sized 32 ''blockHash is missing'' ''blockHash must be 32 bytes''"

definition validateEd25519PublicKey :: "bytes option \<Rightarrow> bytes outcome" where
  "validateEd25519PublicKey = validate_sized 32 ''publicKey is missing'' ''publicKey must be 32 bytes''"

lemma validate_sized_Ok [simp]:
  "0 < n \<Longrightarrow> validate_sized n a b bs = Ok r \<longleftrightarrow> bs = Some r \<and> length r = n"
  by (auto simp: validate_sized_def split: option.splits)

lemma validateMessageHash_Ok [simp]: "validateMessageHash h = Ok r \<longleftrightarrow> h = Some r \<and> length r = 20"
  by (auto simp: validateMessageHash_def split: option.splits)

lemma sized_validators_Ok [simp]:
  "validateSolAddress bs = Ok r \<longleftrightarrow> bs = Some r \<and> length r = 32"
  "validateSolBlockHash bs = Ok r \<longleftrightarrow> bs = Some r \<and> length r = 32"
  "validateEthAddress bs = Ok r \<longleftrightarrow> bs = Some r \<and> length r = 20"
  "validateEthBlockHash bs = Ok r \<longleftrightarrow> bs = Some r \<and> length r = 32"
  "validateEd25519PublicKey bs = Ok r \<longleftrightarrow> bs = Some r \<and> length r = 32"
  by (simp_all add: validateSolAddress_def validateSolBlockHash_def validateEthAddress_def
      validateEthBlockHash_def validateEd25519PublicKey_def)

lemma validate_sized_no_throw [simp]: "no_throw (validate_sized n a b bs)"
  by (auto simp: validate_sized_def split: option.splits)

lemma validateMessageHash_no_throw [simp]: "no_throw (validateMessageHash h)"
  by (auto simp: validateMessageHash_def split: option.splits)

section \<open>Ids and times\<close>

definition validateFid :: "number \<Rightarrow> number outcome" where
  "validateFid fid =
     (if js_eq fid (numI 0) then vfail ''fid is missing''
      else if js_lt fid (numI 0) then vfail ''fid must be positive''
      else if \<not> is_integer fid then vfail ''fid must be an integer''
      else Ok fid)"

abbreviation valid_fid :: "number \<Rightarrow> bool" where
  "valid_fid n \<equiv> \<exists>i > 0. n = numI i"

lemma validateFid_Ok [simp]: "validateFid n = Ok r \<longleftrightarrow> r = n \<and> valid_fid n"
proof (cases "is_integer n")
  case True
  then obtain i where "n = numI i" by (rule is_integerE)
  then show ?thesis by (auto simp: validateFid_def)
next
  case False
  then have "\<nexists>i. n = numI i" by (simp add: is_integer_iff)
  with False show ?thesis by (auto simp: validateFid_def)
qed

lemma validateFid_no_throw [simp]: "no_throw (validateFid n)"
  by (simp add: validateFid_def)

text \<open>\<^verbatim>\<open>Result.combineWithAllErrors\<close> collects both errors, and their messages are joined.\<close>

definition validateCastId :: "CastId option \<Rightarrow> CastId outcome" where
  "validateCastId castId =
     (case castId of
        None \<Rightarrow> vfail ''castId is missing''
      | Some c \<Rightarrow>
          (case (validateFid (castid_fid c), validateMessageHash (castid_hash c)) of
             (Err e1, Err e2) \<Rightarrow>
               fail_js ValidationFailure (join (lit '', '') [err_message e1, err_message e2])
           | (Err e1, _) \<Rightarrow> fail_js ValidationFailure (err_message e1)
           | (_, Err e2) \<Rightarrow> fail_js ValidationFailure (err_message e2)
           | _ \<Rightarrow> Ok c))"

abbreviation valid_cast_id :: "CastId \<Rightarrow> bool" where
  "valid_cast_id c \<equiv>
     valid_fid (castid_fid c) \<and> (\<exists>h. castid_hash c = Some h \<and> length h = 20)"

lemma outcome_cases_no_throw: "no_throw r \<Longrightarrow> (\<exists>x. r = Ok x) \<or> (\<exists>e. r = Err e)"
  by (cases r) auto

lemma validateCastId_Ok [simp]:
  "validateCastId c = Ok r \<longleftrightarrow> c = Some r \<and> valid_cast_id r"
proof (cases c)
  case None
  then show ?thesis by (simp add: validateCastId_def)
next
  case (Some x)
  have "(\<exists>n. validateFid (castid_fid x) = Ok n) \<or> (\<exists>e. validateFid (castid_fid x) = Err e)"
    by (rule outcome_cases_no_throw) simp
  moreover have "(\<exists>n. validateMessageHash (castid_hash x) = Ok n) \<or>
                 (\<exists>e. validateMessageHash (castid_hash x) = Err e)"
    by (rule outcome_cases_no_throw) simp
  moreover have "validateFid (castid_fid x) = Ok (castid_fid x) \<longleftrightarrow> valid_fid (castid_fid x)"
    by simp
  ultimately show ?thesis
    using Some
    by (auto simp: validateCastId_def validateMessageHash_def simp del: validateFid_Ok
        split: outcome.splits option.splits if_splits)
      (auto simp: validateFid_Ok)
qed

lemma validateCastId_no_throw [simp]: "no_throw (validateCastId c)"
  by (auto simp: validateCastId_def fail_js_def split: option.splits outcome.splits
      dest: arg_cong[where f = no_throw])

definition validateFarcasterTime :: "int \<Rightarrow> int outcome" where
  "validateFarcasterTime farcasterTime =
     andThen (fromFarcasterTime farcasterTime) (\<lambda>unixTime.
     andThen (toFarcasterTime unixTime) (\<lambda>rt. Ok rt))"

lemma validateFarcasterTime_iff: "validateFarcasterTime t = Ok r \<longleftrightarrow> u32 t \<and> r = t"
proof -
  have "(t * 1000 + 500) div 1000 = t" by simp
  then show ?thesis
    by (auto simp: validateFarcasterTime_def fromFarcasterTime_def toFarcasterTime_def Let_def
        outcome_simps)
qed

section \<open>Urls\<close>

definition validateUrl :: "js_string \<Rightarrow> js_string outcome" where
  "validateUrl url =
     (case utf8StringToBytes url of
        Ok urlBytes \<Rightarrow>
          if length urlBytes < 1 then fail InvalidParam ''url < 1 byte''
          else if length urlBytes > 256 then fail InvalidParam ''url > 256 bytes''
          else Ok url
      | Err e \<Rightarrow> fail InvalidParam ''url must be encodable as utf8''
      | Throw t \<Rightarrow> Throw t)"

abbreviation valid_url :: "js_string \<Rightarrow> bool" where
  "valid_url u \<equiv> 1 \<le> length (utf8_encode u) \<and> length (utf8_encode u) \<le> 256"

lemma validateUrl_Ok [simp]: "validateUrl u = Ok r \<longleftrightarrow> r = u \<and> valid_url u"
  by (auto simp: validateUrl_def utf8StringToBytes_def not_less Suc_le_eq)

lemma validateUrl_no_throw [simp]: "no_throw (validateUrl u)"
  by (simp add: validateUrl_def utf8StringToBytes_def)

section \<open>Locations\<close>

definition is_digit :: "16 word \<Rightarrow> bool" where
  "is_digit c = (48 \<le> unat c \<and> unat c \<le> 57)"

text \<open>
  The location pattern \<^verbatim>\<open>/^geo:(-?\d{1,2}\.\d{2}),(-?\d{1,3}\.\d{2})$/\<close>. Neither group can contain
  a comma or a second point, so the groups are the two parts at the only comma, and each is an
  optional minus, at most \<open>k\<close> digits, a point and two digits.
\<close>

definition geo_number :: "nat \<Rightarrow> js_string \<Rightarrow> bool" where
  "geo_number k s =
     (let s = (case s of c # cs \<Rightarrow> if c = 45 then cs else s | [] \<Rightarrow> s)
      in (case split_on 46 s of
            [a, b] \<Rightarrow> 1 \<le> length a \<and> length a \<le> k \<and> length b = 2 \<and> list_all is_digit a \<and> list_all is_digit b
          | _ \<Rightarrow> False))"

definition match_location :: "js_string \<Rightarrow> (js_string \<times> js_string) option" where
  "match_location s =
     (if prefix (lit ''geo:'') s then
        (case split_on 44 (drop 4 s) of
           [lat, lon] \<Rightarrow> if geo_number 2 lat \<and> geo_number 3 lon then Some (lat, lon) else None
         | _ \<Rightarrow> None)
      else None)"

text \<open>\<^verbatim>\<open>parseFloat\<close> on decimal notation without exponent, the only form the pattern lets
  through: optional sign, digits, and a fraction. No digit at all is NaN (\<open>None\<close>).\<close>

definition parse_float :: "js_string \<Rightarrow> rat option" where
  "parse_float s =
     (let (sgn, s) = (case s of c # cs \<Rightarrow> if c = 45 then (-1, cs) else if c = 43 then (1, cs) else (1, s)
                              | [] \<Rightarrow> (1, s));
          a = take_digits 10 s;
          rest = drop (length a) s;
          b = (case rest of c # cs \<Rightarrow> if c = 46 then take_digits 10 cs else [] | [] \<Rightarrow> [])
      in if a = [] \<and> b = [] then None
         else Some (sgn * (of_nat (of_digits 10 a) + of_nat (of_digits 10 b) / 10 ^ length b)))"

definition validate_coordinate :: "rat \<Rightarrow> string \<Rightarrow> string \<Rightarrow> js_string \<Rightarrow> js_string outcome" where
  "validate_coordinate bound not_number outside value =
     (case parse_float value of
        None \<Rightarrow> vfail not_number
      | Some n \<Rightarrow> if n < - bound \<or> n > bound then vfail outside else Ok value)"

definition validateLatitude :: "js_string \<Rightarrow> js_string outcome" where
  "validateLatitude =
     validate_coordinate 90 ''Latitude is not a valid number'' ''Latitude value outside valid range''"

definition validateLongitude :: "js_string \<Rightarrow> js_string outcome" where
  "validateLongitude =
     validate_coordinate 180 ''Longitude is not a valid number'' ''Longitude value outside valid range''"

definition validateUserLocation :: "js_string \<Rightarrow> js_string outcome" where
  "validateUserLocation location =
     (if location = [] then Ok location
      else (case match_location location of
              None \<Rightarrow> vfail ''Invalid location string''
            | Some (lat, lon) \<Rightarrow>
                andThen (validateLatitude lat) (\<lambda>_.
                andThen (validateLongitude lon) (\<lambda>_. Ok location))))"

lemma validate_coordinate_no_throw [simp]: "no_throw (validate_coordinate b m1 m2 v)"
  by (simp add: validate_coordinate_def split: option.splits)

lemma validateUserLocation_no_throw [simp]: "no_throw (validateUserLocation l)"
  by (auto simp: validateUserLocation_def validateLatitude_def validateLongitude_def
      intro!: no_throw_andThen split: option.splits)

lemma is_digit_value: "is_digit c \<Longrightarrow> \<exists>d < 10. digit_value c = Some d"
  by (auto simp: is_digit_def digit_value_def Let_def)

lemma take_digits_span:
  "list_all is_digit a \<Longrightarrow> (case rest of [] \<Rightarrow> True | c # _ \<Rightarrow> c = 46) \<Longrightarrow>
   length (take_digits 10 (a @ rest)) = length a"
proof (induction a)
  case Nil
  have "digit_value 46 = None" by (simp add: digit_value_def)
  with Nil show ?case by (cases rest) auto
next
  case (Cons c a)
  then obtain d where "d < 10" "digit_value c = Some d" using is_digit_value by auto
  with Cons show ?case by simp
qed

text \<open>A string the pattern accepts always parses as a number.\<close>

lemma geo_number_parses: "geo_number k s \<Longrightarrow> \<exists>q. parse_float s = Some q"
proof -
  assume g: "geo_number k s"
  define t where "t = (case s of c # cs \<Rightarrow> if c = 45 then cs else s | [] \<Rightarrow> s)"
  from g obtain a b where ab: "split_on 46 t = [a, b]" "1 \<le> length a" "list_all is_digit a"
    by (auto simp: geo_number_def t_def Let_def split: list.splits)
  then have t: "t = a @ 46 # b" by (simp add: split_on_pair)
  obtain c a' where a: "a = c # a'" using ab(2) by (cases a) auto
  with ab(3) have "is_digit c" by simp
  then have "c \<noteq> 45" "c \<noteq> 43" by (auto simp: is_digit_def)
  have n: "take_digits 10 t \<noteq> []"
    using take_digits_span[of a "46 # b"] ab t by auto
  show ?thesis
  proof (cases "\<exists>cs. s = 45 # cs")
    case True
    then have "s = 45 # t" by (auto simp: t_def)
    with n show ?thesis by (simp add: parse_float_def Let_def)
  next
    case False
    then have "s = t" by (auto simp: t_def split: list.splits)
    with n t a \<open>c \<noteq> 45\<close> \<open>c \<noteq> 43\<close> show ?thesis by (simp add: parse_float_def Let_def)
  qed
qed

lemma validate_coordinate_Ok:
  "validate_coordinate b m1 m2 v = Ok r \<longleftrightarrow> r = v \<and> (\<exists>q. parse_float v = Some q \<and> \<bar>q\<bar> \<le> b)"
  by (auto simp: validate_coordinate_def abs_le_iff not_less split: option.splits)

lemma match_location_iff:
  "match_location s = Some (lat, lon) \<longleftrightarrow>
   s = lit ''geo:'' @ lat @ 44 # lon \<and> 44 \<notin> set lat \<and> 44 \<notin> set lon \<and>
   geo_number 2 lat \<and> geo_number 3 lon"
proof
  assume "match_location s = Some (lat, lon)"
  then have p: "prefix (lit ''geo:'') s" and q: "split_on 44 (drop 4 s) = [lat, lon]"
      and g: "geo_number 2 lat" "geo_number 3 lon"
    by (auto simp: match_location_def split: if_splits list.splits)
  from p obtain u where "s = lit ''geo:'' @ u" by (auto simp: prefix_def)
  with q g show "s = lit ''geo:'' @ lat @ 44 # lon \<and> 44 \<notin> set lat \<and> 44 \<notin> set lon \<and>
      geo_number 2 lat \<and> geo_number 3 lon"
    by (auto dest: split_on_pair)
next
  assume "s = lit ''geo:'' @ lat @ 44 # lon \<and> 44 \<notin> set lat \<and> 44 \<notin> set lon \<and>
      geo_number 2 lat \<and> geo_number 3 lon"
  then show "match_location s = Some (lat, lon)"
    by (simp add: match_location_def split_on_append split_on_notin)
qed

lemma validateUserLocation_match:
  "validateUserLocation s = Ok r \<longleftrightarrow>
   r = s \<and> (s = [] \<or> (\<exists>lat lon la lo. match_location s = Some (lat, lon) \<and>
     parse_float lat = Some la \<and> parse_float lon = Some lo \<and> \<bar>la\<bar> \<le> 90 \<and> \<bar>lo\<bar> \<le> 180))"
  by (auto simp: validateUserLocation_def validateLatitude_def validateLongitude_def
      validate_coordinate_Ok outcome_simps
      split: option.splits)

lemmas validateUserLocation_iff = validateUserLocation_match [unfolded match_location_iff]

end
