(* ===== verification/ValidateNames.thy ===== *)
theory ValidateNames
  imports ValidateBasics
begin

text \<open>
  The user-name validators of \<^verbatim>\<open>packages/core/src/validations.ts\<close>: fnames, ENS names, Twitter and
  GitHub user names. Each takes a string or bytes, which are decoded first; decoding throws on
  bytes that are not UTF-8. The four patterns are recognisers on UTF-16 units.
\<close>

datatype name_input = NameString js_string | NameBytes bytes

definition is_lower :: "16 word \<Rightarrow> bool" where
  "is_lower c = (97 \<le> unat c \<and> unat c \<le> 122)"

definition is_upper :: "16 word \<Rightarrow> bool" where
  "is_upper c = (65 \<le> unat c \<and> unat c \<le> 90)"

text \<open>\<^verbatim>\<open>/^[a-z0-9][a-z0-9-]{0,15}$/\<close>\<close>

definition FNAME_REGEX_test :: "js_string \<Rightarrow> bool" where
  "FNAME_REGEX_test s =
     (case s of
        [] \<Rightarrow> False
      | c # cs \<Rightarrow> (is_lower c \<or> is_digit c) \<and> length cs \<le> 15 \<and>
                  list_all (\<lambda>d. is_lower d \<or> is_digit d \<or> d = 45) cs)"

text \<open>\<^verbatim>\<open>/^[a-z0-9_]{0,15}$/\<close>\<close>

definition TWITTER_REGEX_test :: "js_string \<Rightarrow> bool" where
  "TWITTER_REGEX_test s \<longleftrightarrow> length s \<le> 15 \<and> list_all (\<lambda>c. is_lower c \<or> is_digit c \<or> c = 95) s"

definition github_char :: "16 word \<Rightarrow> bool" where
  "github_char c = (is_lower c \<or> is_upper c \<or> is_digit c)"

text \<open>\<^verbatim>\<open>(?:[a-z\d]|-(?!-))*\<close>: a hyphen is taken when no hyphen follows.\<close>

fun github_rest :: "js_string \<Rightarrow> bool" where
  "github_rest [] = True"
| "github_rest [c] = (github_char c \<or> c = 45)"
| "github_rest (c # d # cs) = ((github_char c \<or> c = 45 \<and> d \<noteq> 45) \<and> github_rest (d # cs))"

text \<open>\<^verbatim>\<open>/^[a-z\d](?:[a-z\d]|-(?!-)){0,38}$/i\<close>\<close>

definition GITHUB_REGEX_test :: "js_string \<Rightarrow> bool" where
  "GITHUB_REGEX_test s =
     (case s of [] \<Rightarrow> False | c # cs \<Rightarrow> github_char c \<and> length cs \<le> 38 \<and> github_rest cs)"

definition FNAME_REGEX_source :: js_string where
  "FNAME_REGEX_source = lit ''/^[a-z0-9][a-z0-9-]{0,15}$/''"

definition TWITTER_REGEX_source :: js_string where
  "TWITTER_REGEX_source = lit ''/^[a-z0-9_]{0,15}$/''"

definition GITHUB_REGEX_source :: js_string where
  "GITHUB_REGEX_source =
     lit ''/^[a-z'' @ [92] @ lit ''d](?:[a-z'' @ [92] @ lit ''d]|-(?!-)){0,38}$/i''"

definition quoted :: "string \<Rightarrow> js_string \<Rightarrow> js_string \<Rightarrow> js_string" where
  "quoted pre s post = lit pre @ [32, 34] @ s @ [34, 32] @ post"

text \<open>The common head of the four validators: missing or empty names, and decoding of bytes.\<close>

definition name_text :: "string \<Rightarrow> name_input option \<Rightarrow> js_string outcome" where
  "name_text missing n =
     (case n of
        None \<Rightarrow> vfail missing
      | Some (NameString s) \<Rightarrow> if s = [] then vfail missing else Ok s
      | Some (NameBytes b) \<Rightarrow>
          andThen (bytesToUtf8String b) (\<lambda>s. if s = [] then vfail missing else Ok s))"

definition validateFname :: "name_input option \<Rightarrow> name_input outcome" where
  "validateFname fnameP =
     andThen (name_text ''fname is missing'' fnameP) (\<lambda>fname.
       if length fname > 16 then
         fail_js ValidationFailure (quoted ''fname'' fname (lit ''> 16 characters''))
       else if \<not> FNAME_REGEX_test fname then
         fail_js ValidationFailure (quoted ''fname'' fname (lit ''doesn't match '' @ FNAME_REGEX_source))
       else deref fnameP)"

definition validateEnsName :: "validation_env \<Rightarrow> name_input option \<Rightarrow> name_input outcome" where
  "validateEnsName E ensNameP =
     andThen (name_text ''ensName is missing'' ensNameP) (\<lambda>ensName.
       if \<not> is_ok (ens_normalize E ensName) then
         fail_js ValidationFailure (quoted ''ensName'' ensName (lit ''is not a valid ENS name''))
       else if \<not> ends_with ensName (lit ''.eth'') then
         fail_js ValidationFailure (quoted ''ensName'' ensName (lit ''doesn't end with .eth''))
       else (let nameParts = split_on 46 ensName in
         if length nameParts \<noteq> 2 then
           fail_js ValidationFailure (quoted ''ensName'' ensName (lit ''unsupported subdomain''))
         else if length ensName > 20 then
           fail_js ValidationFailure (quoted ''ensName'' ensName (lit ''> 20 characters''))
         else if \<not> FNAME_REGEX_test (hd nameParts) then
           fail_js ValidationFailure (quoted ''ensName'' ensName (lit ''doesn't match '' @ FNAME_REGEX_source))
         else deref ensNameP))"

definition validateTwitterUsername :: "name_input option \<Rightarrow> name_input outcome" where
  "validateTwitterUsername username =
     andThen (name_text ''username is missing'' username) (\<lambda>u.
       if length u > 15 then
         fail_js ValidationFailure (quoted ''username'' u (lit ''> 15 characters''))
       else if \<not> TWITTER_REGEX_test u then
         fail_js ValidationFailure (quoted ''username'' u (lit ''doesn't match '' @ TWITTER_REGEX_source))
       else deref username)"

definition validateGithubUsername :: "name_input option \<Rightarrow> name_input outcome" where
  "validateGithubUsername username =
     andThen (name_text ''username is missing'' username) (\<lambda>u.
       if length u > 38 then
         fail_js ValidationFailure (quoted ''username'' u (lit ''> 38 characters''))
       else if \<not> GITHUB_REGEX_test u then
         fail_js ValidationFailure (quoted ''username'' u (lit ''doesn't match '' @ GITHUB_REGEX_source))
       else deref username)"

section \<open>What is accepted\<close>

lemma name_text_String [simp]:
  "name_text m (Some (NameString s)) = (if s = [] then vfail m else Ok s)"
  by (simp add: name_text_def)

lemma name_text_no_throw_string [simp]: "no_throw (name_text m (Some (NameString s)))"
  by simp

lemma validateFname_string:
  "validateFname (Some (NameString s)) = Ok r \<longleftrightarrow> r = NameString s \<and> FNAME_REGEX_test s"
  by (auto simp: validateFname_def FNAME_REGEX_test_def split: list.splits)

lemma FNAME_REGEX_test_length: "FNAME_REGEX_test s \<Longrightarrow> 1 \<le> length s \<and> length s \<le> 16"
  by (auto simp: FNAME_REGEX_test_def split: list.splits)

lemma FNAME_REGEX_no_dot: "FNAME_REGEX_test s \<Longrightarrow> 46 \<notin> set s"
  by (auto simp: FNAME_REGEX_test_def is_lower_def is_digit_def list_all_iff split: list.splits)

lemma last_separator:
  assumes "xs @ d # ys = us @ d # vs" "d \<notin> set ys" "d \<notin> set vs"
  shows "xs = us"
proof -
  have "dropWhile (\<lambda>x. x \<noteq> d) (rev (as @ d # bs)) = d # rev as" if "d \<notin> set bs" for as bs
    using that by (subst rev_append) (auto simp: dropWhile_append)
  with assms have "d # rev xs = d # rev us" by metis
  then show ?thesis by simp
qed

lemma validateEnsName_string:
  "validateEnsName E (Some (NameString s)) = Ok r \<longleftrightarrow>
   r = NameString s \<and> is_ok (ens_normalize E s) \<and>
   (\<exists>name. s = name @ lit ''.eth'' \<and> FNAME_REGEX_test name)"
proof -
  have dot: "lit ''.eth'' = 46 # lit ''eth''" "46 \<notin> set (lit ''eth'')"
    by (simp_all add: lit_Cons)
  have parts: "split_on 46 (name @ lit ''.eth'') = [name, lit ''eth'']" if "46 \<notin> set name" for name
    using that dot by (simp add: split_on_append split_on_notin)
  have "s \<noteq> [] \<and> ends_with s (lit ''.eth'') \<and> length (split_on 46 s) = 2 \<and> length s \<le> 20 \<and>
          FNAME_REGEX_test (hd (split_on 46 s)) \<longleftrightarrow>
        (\<exists>name. s = name @ lit ''.eth'' \<and> FNAME_REGEX_test name)" (is "?L \<longleftrightarrow> ?R")
  proof
    assume L: ?L
    then obtain name where name: "s = name @ lit ''.eth''" by (auto dest: ends_withD)
    from L have "length (split_on 46 s) = Suc (Suc 0)" by simp
    then obtain a b where ab: "split_on 46 s = [a, b]"
      by (auto simp only: length_Suc_conv length_0_conv)
    from split_on_pair[OF ab] have s: "s = a @ 46 # b" "46 \<notin> set a" "46 \<notin> set b" by simp_all
    have "name = a"
    proof -
      have "name @ 46 # lit ''eth'' = a @ 46 # b" using name s dot by simp
      then show ?thesis by (rule last_separator) (use s(3) dot(2) in auto)
    qed
    with L name ab show ?R by auto
  next
    assume ?R
    then obtain name where name: "s = name @ lit ''.eth''" "FNAME_REGEX_test name" by blast
    with FNAME_REGEX_test_length[of name] FNAME_REGEX_no_dot[of name] parts[of name]
    show ?L by auto
  qed
  then show ?thesis
    by (auto simp: validateEnsName_def Let_def outcome_simps split: if_splits)
qed

lemma validateTwitterUsername_string:
  "validateTwitterUsername (Some (NameString s)) = Ok r \<longleftrightarrow>
   r = NameString s \<and> s \<noteq> [] \<and> TWITTER_REGEX_test s"
  by (auto simp: validateTwitterUsername_def TWITTER_REGEX_test_def)

lemma all_nat_Suc: "(\<forall>n. P n) \<longleftrightarrow> P 0 \<and> (\<forall>n. P (Suc n))"
  by (metis not0_implies_Suc)

lemma github_rest_iff:
  "github_rest s \<longleftrightarrow>
   list_all (\<lambda>c. github_char c \<or> c = 45) s \<and> (\<forall>i. Suc i < length s \<longrightarrow> \<not> (s ! i = 45 \<and> s ! Suc i = 45))"
proof (induction s rule: github_rest.induct)
  case (3 c d cs)
  have g: "\<not> github_char 45" by (simp add: github_char_def is_lower_def is_upper_def is_digit_def)
  have "(\<forall>i. Suc i < length (c # d # cs) \<longrightarrow> \<not> ((c # d # cs) ! i = 45 \<and> (c # d # cs) ! Suc i = 45)) \<longleftrightarrow>
        \<not> (c = 45 \<and> d = 45) \<and>
        (\<forall>i. Suc i < length (d # cs) \<longrightarrow> \<not> ((d # cs) ! i = 45 \<and> (d # cs) ! Suc i = 45))"
    by (subst all_nat_Suc) simp
  with 3 g show ?case by auto
qed auto

lemma validateGithubUsername_string:
  "validateGithubUsername (Some (NameString s)) = Ok r \<longleftrightarrow>
   r = NameString s \<and> GITHUB_REGEX_test s \<and> length s \<le> 38"
  by (auto simp: validateGithubUsername_def GITHUB_REGEX_test_def split: list.splits)

text \<open>Bytes that are not UTF-8 make the validators throw although they return a result.\<close>

lemma names_throw_on_bad_bytes:
  "utf8_decode (strip_bom b) = None \<Longrightarrow>
   validateFname (Some (NameBytes b)) = Throw TypeError \<and>
   validateEnsName E (Some (NameBytes b)) = Throw TypeError \<and>
   validateTwitterUsername (Some (NameBytes b)) = Throw TypeError \<and>
   validateGithubUsername (Some (NameBytes b)) = Throw TypeError"
  by (simp add: validateFname_def validateEnsName_def validateTwitterUsername_def
      validateGithubUsername_def name_text_def bytesToUtf8String_def)

lemma name_validators_no_throw_string:
  "no_throw (validateFname (Some (NameString s)))"
  "no_throw (validateEnsName E (Some (NameString s)))"
  "no_throw (validateTwitterUsername (Some (NameString s)))"
  "no_throw (validateGithubUsername (Some (NameString s)))"
  by (simp_all add: validateFname_def validateEnsName_def validateTwitterUsername_def
      validateGithubUsername_def Let_def)

end
