(* ===== verification/Claims.thy ===== *)
theory Claims
  imports ValidateNames
begin

text \<open>
  \<^verbatim>\<open>packages/core/src/verifications.ts\<close>, \<^verbatim>\<open>userNameProof.ts\<close> and the signature checks of
  \<^verbatim>\<open>crypto/eip712.ts\<close>: the claims that a verification or a name proof signs, and which verifier
  is asked with which typed data. viem's verification and the RPC clients are parameters.
\<close>

section \<open>Claims\<close>

text \<open>\<^verbatim>\<open>BigInt(n)\<close> throws a RangeError on a number that is not an integer.\<close>

definition BigInt_number :: "number \<Rightarrow> int outcome" where
  "BigInt_number n = (if is_integer n then (case n of Num q \<Rightarrow> Ok \<lfloor>q\<rfloor> | _ \<Rightarrow> Throw RangeError)
                      else Throw RangeError)"

lemma BigInt_numI [simp]: "BigInt_number (numI i) = Ok i"
  by (simp add: BigInt_number_def)

definition makeVerificationAddressClaim ::
  "codecs \<Rightarrow> number \<Rightarrow> bytes \<Rightarrow> int \<Rightarrow> bytes \<Rightarrow> int \<Rightarrow> address_claim outcome" where
  "makeVerificationAddressClaim X fid address network blockHash protocol =
     (if protocol = ETHEREUM then
        andThen (andThen (validateEthAddress (Some address)) (bytesToHexString X)) (\<lambda>ethAddressHex.
        andThen (andThen (validateEthBlockHash (Some blockHash)) (bytesToHexString X)) (\<lambda>blockHashHex.
        mapOk (BigInt_number fid) (\<lambda>f.
          \<lparr>claim_fid = f, claim_address = ethAddressHex, claim_network = network,
           claim_blockHash = blockHashHex, claim_protocol = ETHEREUM\<rparr>)))
      else if protocol = SOLANA then
        andThen (andThen (validateSolAddress (Some address)) (bytesToBase58 X)) (\<lambda>solAddress.
        andThen (andThen (validateSolBlockHash (Some blockHash)) (bytesToBase58 X)) (\<lambda>blockHashSol.
        mapOk (BigInt_number fid) (\<lambda>f.
          \<lparr>claim_fid = f, claim_address = solAddress, claim_network = network,
           claim_blockHash = blockHashSol, claim_protocol = SOLANA\<rparr>)))
      else fail_js InvalidParam (lit ''Invalid protocol: '' @ int_to_string 10 protocol))"

definition solana_claim_text :: "address_claim \<Rightarrow> js_string" where
  "solana_claim_text claim =
     lit ''fid: '' @ int_to_string 10 (claim_fid claim) @
     lit '' address: '' @ claim_address claim @
     lit '' network: '' @ int_to_string 10 (claim_network claim) @
     lit '' blockHash: '' @ claim_blockHash claim @
     lit '' protocol: '' @ int_to_string 10 (claim_protocol claim)"

definition recreateSolanaClaimMessage :: "address_claim \<Rightarrow> bytes \<Rightarrow> bytes outcome" where
  "recreateSolanaClaimMessage claim pubkey = utf8StringToBytes (solana_claim_text claim)"

definition makeUserNameProofClaim :: "js_string \<Rightarrow> js_string \<Rightarrow> number \<Rightarrow> username_claim outcome" where
  "makeUserNameProofClaim name owner timestamp =
     mapOk (BigInt_number timestamp) (\<lambda>t.
       \<lparr>uclaim_name = name, uclaim_owner = owner, uclaim_timestamp = t\<rparr>)"

section \<open>Typed-data signatures\<close>

definition EIP_712_FARCASTER_DOMAIN :: eip712_domain where
  "EIP_712_FARCASTER_DOMAIN =
     \<lparr>dom_name = lit ''Farcaster Verify Ethereum Address'', dom_version = lit ''2.0.0'',
      dom_salt = Some (lit ''0xf2d857f4a3edcb9b78b4d503bfe733db1e3f6cdc2b7971ee739626c97e86a558''),
      dom_chainId = None, dom_verifyingContract = None\<rparr>"

definition EIP_712_USERNAME_DOMAIN :: eip712_domain where
  "EIP_712_USERNAME_DOMAIN =
     \<lparr>dom_name = lit ''Farcaster name verification'', dom_version = lit ''1'', dom_salt = None,
      dom_chainId = Some 1,
      dom_verifyingContract = Some (lit ''0xe3be01d99baa8db9905b33a3ca391238234b79d1'')\<rparr>"

definition typed_data_for ::
  "validation_env \<Rightarrow> eip712_domain \<Rightarrow> typed_message \<Rightarrow> bytes \<Rightarrow> bytes \<Rightarrow> typed_data outcome" where
  "typed_data_for E domain message signature address =
     mapOk (bytesToHex (env_codecs E) address) (\<lambda>a.
       \<lparr>td_address = a, td_domain = domain, td_message = message, td_signature = signature\<rparr>)"

definition wrap_network :: "js_exn \<Rightarrow> hub_error" where
  "wrap_network e = new_HubError NetworkFailure (CtxError (exn_message e))"

definition verifyVerificationClaimEOASignature ::
  "validation_env \<Rightarrow> address_claim \<Rightarrow> bytes \<Rightarrow> bytes \<Rightarrow> int \<Rightarrow> bool outcome" where
  "verifyVerificationClaimEOASignature E claim signature address chainId =
     (if chainId \<noteq> 0 then fail InvalidParam ''Invalid chain ID''
      else andThen (typed_data_for E EIP_712_FARCASTER_DOMAIN (VerificationClaim claim) signature address)
             (\<lambda>td. fromPromise (viem_verifyTypedData E td) wrap_unknown))"

definition verifyVerificationClaimContractSignature ::
  "validation_env \<Rightarrow> address_claim \<Rightarrow> bytes \<Rightarrow> bytes \<Rightarrow> int \<Rightarrow> bool outcome" where
  "verifyVerificationClaimContractSignature E claim signature address chainId =
     (case publicClients E chainId of
        None \<Rightarrow> fail_js InvalidParam
                  (lit ''RPC client not provided for chainId '' @ int_to_string 10 chainId)
      | Some client \<Rightarrow>
          andThen (typed_data_for E (EIP_712_FARCASTER_DOMAIN\<lparr>dom_chainId := Some chainId\<rparr>)
                     (VerificationClaim claim) signature address)
             (\<lambda>td. fromPromise (client td) wrap_network))"

definition verifyVerificationEthAddressClaimSignature ::
  "validation_env \<Rightarrow> address_claim \<Rightarrow> bytes \<Rightarrow> bytes \<Rightarrow> int \<Rightarrow> int \<Rightarrow> bool outcome" where
  "verifyVerificationEthAddressClaimSignature E claim signature address verificationType chainId =
     (if chainId \<notin> set (chain_ids E @ [0]) then fail InvalidParam ''Invalid chain ID''
      else if verificationType = 0 then
        verifyVerificationClaimEOASignature E claim signature address chainId
      else if verificationType = 1 then
        verifyVerificationClaimContractSignature E claim signature address chainId
      else fail InvalidParam ''Invalid verification type'')"

definition verifyUserNameProofClaim ::
  "validation_env \<Rightarrow> username_claim \<Rightarrow> bytes \<Rightarrow> bytes \<Rightarrow> bool outcome" where
  "verifyUserNameProofClaim E nameProof signature address =
     andThen (typed_data_for E EIP_712_USERNAME_DOMAIN (UserNameProofMsg nameProof) signature address)
       (\<lambda>td. fromPromise (viem_verifyTypedData E td) wrap_unknown)"

definition verifyMessageHashSignature ::
  "validation_env \<Rightarrow> bytes \<Rightarrow> bytes \<Rightarrow> bytes \<Rightarrow> bool outcome" where
  "verifyMessageHashSignature E hash signature address =
     andThen (bytesToHex (env_codecs E) hash) (\<lambda>h.
     andThen (typed_data_for E EIP_712_FARCASTER_DOMAIN (MessageDataMsg h) signature address)
       (\<lambda>td. fromPromise (viem_verifyTypedData E td) wrap_unknown))"

section \<open>Facts\<close>

lemma fromPromise_Ok_iff [outcome_simps]: "fromPromise r f = Ok x \<longleftrightarrow> r = Ok x"
  by (cases r) auto

text \<open>A claim is made exactly when the address and block hash have the protocol's lengths and the
  conversions succeed; the claim then carries the id, network and protocol.\<close>

lemma makeVerificationAddressClaim_Ok:
  "makeVerificationAddressClaim X fid address network blockHash protocol = Ok c \<longleftrightarrow>
   (\<exists>f a b. fid = numI f \<and>
     (protocol = ETHEREUM \<and> length address = 20 \<and> length blockHash = 32 \<and>
        bytesToHex X address = Ok a \<and> bytesToHex X blockHash = Ok b \<or>
      protocol = SOLANA \<and> length address = 32 \<and> length blockHash = 32 \<and>
        base58_encode X address = Ok a \<and> base58_encode X blockHash = Ok b) \<and>
     c = \<lparr>claim_fid = f, claim_address = a, claim_network = network, claim_blockHash = b,
          claim_protocol = protocol\<rparr>)"
proof -
  have b: "BigInt_number fid = Ok f \<longleftrightarrow> fid = numI f" for f
  proof (cases "is_integer fid")
    case True
    then obtain i where "fid = numI i" by (rule is_integerE)
    then show ?thesis by auto
  next
    case False
    then show ?thesis by (auto simp: BigInt_number_def)
  qed
  show ?thesis
    by (auto simp: makeVerificationAddressClaim_def outcome_simps bytesToHexString_def
        bytesToBase58_def b)
qed

text \<open>The signed Solana text determines every field of the claim, provided neither part of the
  address or hash contains a space (base-58 has none).\<close>

lemma int_to_string_no_space: "32 \<notin> set (int_to_string 10 i)"
proof -
  have "digit_char d \<noteq> 32" if "d < 10" for d
    using that by (auto simp: word_unat_eq_iff unat_digit_char)
  then have "32 \<notin> set (nat_to_string 10 n)" for n
    using digits_bounded[of 10 _ n] by (fastforce simp: nat_to_string_def)
  then show ?thesis by (simp add: int_to_string_def lit_Cons)
qed

lemma int_to_string_parse [simp]: "2 \<le> b \<Longrightarrow> b \<le> 36 \<Longrightarrow> parse_int b (int_to_string b i) = Some i"
proof (cases "i < 0")
  case True
  assume b: "2 \<le> b" "b \<le> 36"
  let ?ds = "digits b (nat (- i))"
  have "take_digits b (map digit_char ?ds) = ?ds"
    using b by (intro take_digits_map) (simp_all add: digits_bounded)
  with True b show ?thesis
    by (simp add: int_to_string_def nat_to_string_def parse_int_def lit_Cons)
next
  case False
  assume "2 \<le> b" "b \<le> 36"
  with False show ?thesis by (simp add: int_to_string_def)
qed

lemma int_to_string_inject: "int_to_string 10 i = int_to_string 10 j \<Longrightarrow> i = j"
proof -
  assume "int_to_string 10 i = int_to_string 10 j"
  then have "parse_int 10 (int_to_string 10 i) = parse_int 10 (int_to_string 10 j)" by (rule arg_cong)
  moreover have "parse_int 10 (int_to_string 10 k) = Some k" for k
    by (rule int_to_string_parse) simp_all
  ultimately show "i = j" by (simp only: option.inject)
qed

lemma field_split:
  fixes a b r s :: js_string
  assumes "a @ 32 # r = b @ 32 # s" "32 \<notin> set a" "32 \<notin> set b"
  shows "a = b \<and> r = s"
proof -
  have t: "takeWhile (\<lambda>c. c \<noteq> 32) (x @ 32 # y) = x" if "32 \<notin> set x" for x y :: js_string
    using that by (induction x) auto
  from t[OF assms(2), of r] t[OF assms(3), of s] assms(1) have "a = b" by simp
  with assms(1) show ?thesis by simp
qed

lemma solana_claim_text_inject:
  assumes "solana_claim_text c = solana_claim_text d"
    and "32 \<notin> set (claim_address c)" "32 \<notin> set (claim_address d)"
    and "32 \<notin> set (claim_blockHash c)" "32 \<notin> set (claim_blockHash d)"
  shows "c = d"
proof -
  note t = assms(1) [unfolded solana_claim_text_def]
  have sp: "lit '' address: '' = 32 # lit ''address: ''" "lit '' network: '' = 32 # lit ''network: ''"
    "lit '' blockHash: '' = 32 # lit ''blockHash: ''" "lit '' protocol: '' = 32 # lit ''protocol: ''"
    by (simp_all add: lit_Cons)
  note t [unfolded sp append_Cons]
  then have "int_to_string 10 (claim_fid c) @ 32 # (lit ''address: '' @ claim_address c @ 32 #
      (lit ''network: '' @ int_to_string 10 (claim_network c) @ 32 # (lit ''blockHash: '' @ claim_blockHash c @
       32 # (lit ''protocol: '' @ int_to_string 10 (claim_protocol c))))) =
    int_to_string 10 (claim_fid d) @ 32 # (lit ''address: '' @ claim_address d @ 32 #
      (lit ''network: '' @ int_to_string 10 (claim_network d) @ 32 # (lit ''blockHash: '' @ claim_blockHash d @
       32 # (lit ''protocol: '' @ int_to_string 10 (claim_protocol d)))))"
    by simp
  from field_split[OF this int_to_string_no_space int_to_string_no_space]
  have f: "int_to_string 10 (claim_fid c) = int_to_string 10 (claim_fid d)"
    and r1: "claim_address c @ 32 # (lit ''network: '' @ int_to_string 10 (claim_network c) @ 32 #
       (lit ''blockHash: '' @ claim_blockHash c @ 32 # (lit ''protocol: '' @ int_to_string 10 (claim_protocol c)))) =
      claim_address d @ 32 # (lit ''network: '' @ int_to_string 10 (claim_network d) @ 32 #
       (lit ''blockHash: '' @ claim_blockHash d @ 32 # (lit ''protocol: '' @ int_to_string 10 (claim_protocol d))))"
    by simp_all
  from field_split[OF r1 assms(2,3)] have a: "claim_address c = claim_address d"
    and r2: "int_to_string 10 (claim_network c) @ 32 # (lit ''blockHash: '' @ claim_blockHash c @ 32 #
        (lit ''protocol: '' @ int_to_string 10 (claim_protocol c))) =
      int_to_string 10 (claim_network d) @ 32 # (lit ''blockHash: '' @ claim_blockHash d @ 32 #
        (lit ''protocol: '' @ int_to_string 10 (claim_protocol d)))"
    by simp_all
  from field_split[OF r2 int_to_string_no_space int_to_string_no_space]
  have n: "int_to_string 10 (claim_network c) = int_to_string 10 (claim_network d)"
    and r3: "claim_blockHash c @ 32 # (lit ''protocol: '' @ int_to_string 10 (claim_protocol c)) =
      claim_blockHash d @ 32 # (lit ''protocol: '' @ int_to_string 10 (claim_protocol d))"
    by simp_all
  from field_split[OF r3 assms(4,5)] have b: "claim_blockHash c = claim_blockHash d"
    and p: "int_to_string 10 (claim_protocol c) = int_to_string 10 (claim_protocol d)" by simp_all
  from f n p a b show ?thesis
    by (cases c, cases d) (simp add: int_to_string_inject)
qed

text \<open>Whenever the dispatcher says yes, a verifier accepted exactly this claim and signature: an
  account signature only with chain 0 under the plain domain, a contract signature only through
  the client of a supported chain under the domain with that chain.\<close>

lemma eth_claim_signature_sound:
  assumes "verifyVerificationEthAddressClaimSignature E claim signature address vtype chain = Ok True"
  shows "\<exists>a. bytesToHex (env_codecs E) address = Ok a \<and>
    (vtype = 0 \<and> chain = 0 \<and>
       viem_verifyTypedData E \<lparr>td_address = a, td_domain = EIP_712_FARCASTER_DOMAIN,
         td_message = VerificationClaim claim, td_signature = signature\<rparr> = Ok True \<or>
     vtype = 1 \<and> (chain = 0 \<or> chain \<in> set (chain_ids E)) \<and>
       (\<exists>client. publicClients E chain = Some client \<and>
         client \<lparr>td_address = a, td_domain = EIP_712_FARCASTER_DOMAIN\<lparr>dom_chainId := Some chain\<rparr>,
           td_message = VerificationClaim claim, td_signature = signature\<rparr> = Ok True))"
  using assms
  by (auto simp: verifyVerificationEthAddressClaimSignature_def verifyVerificationClaimEOASignature_def
      verifyVerificationClaimContractSignature_def typed_data_for_def outcome_simps
      split: if_splits option.splits)

end
