(* ===== verification/ValidateBodies.thy ===== *)
theory ValidateBodies
  imports Claims
begin

text \<open>
  The body validators of \<^verbatim>\<open>packages/core/src/validations.ts\<close>: embeds, casts, links, reactions,
  frame actions, user data and username proofs. The specification of a valid cast
  (\<open>cast_add_spec\<close>) is stated without the order of the checks, and
  \<open>validateCastAddBody_iff\<close> shows that the code accepts exactly those bodies.
\<close>

section \<open>Parents, targets and embeds\<close>

datatype target = TargetCast CastId | TargetUrl js_string | TargetFid number

definition validateParent :: "target \<Rightarrow> target outcome" where
  "validateParent parent =
     (case parent of
        TargetUrl u \<Rightarrow> mapOk (validateUrl u) TargetUrl
      | TargetCast c \<Rightarrow> mapOk (validateCastId (Some c)) TargetCast
      | TargetFid f \<Rightarrow> vfail ''castId is missing'')"

definition validateTarget :: "target \<Rightarrow> target outcome" where
  "validateTarget t =
     (case t of
        TargetUrl u \<Rightarrow> mapOk (validateUrl u) TargetUrl
      | TargetFid f \<Rightarrow> mapOk (validateFid f) TargetFid
      | TargetCast c \<Rightarrow> mapOk (validateCastId (Some c)) TargetCast)"

definition cast_or_url :: "CastId option \<Rightarrow> js_string option \<Rightarrow> target option" where
  "cast_or_url c u = (case c of Some x \<Rightarrow> Some (TargetCast x) | None \<Rightarrow> map_option TargetUrl u)"

definition validateEmbed :: "Embed \<Rightarrow> Embed outcome" where
  "validateEmbed e =
     (case (embed_url e, embed_castId e) of
        (Some u, Some c) \<Rightarrow> vfail ''cannot use both url and castId''
      | (Some u, None) \<Rightarrow> mapOk (validateUrl u) (\<lambda>_. e)
      | (None, Some c) \<Rightarrow> mapOk (validateCastId (Some c)) (\<lambda>_. e)
      | (None, None) \<Rightarrow> vfail ''embed must have either url or castId'')"

abbreviation valid_embed :: "Embed \<Rightarrow> bool" where
  "valid_embed e \<equiv>
     (\<exists>u. embed_url e = Some u \<and> embed_castId e = None \<and> valid_url u) \<or>
     (\<exists>c. embed_castId e = Some c \<and> embed_url e = None \<and> valid_cast_id c)"

lemma validateEmbed_Ok [simp]: "validateEmbed e = Ok r \<longleftrightarrow> r = e \<and> valid_embed e"
  by (auto simp: validateEmbed_def outcome_simps split: option.splits)

lemma validateEmbed_no_throw [simp]: "no_throw (validateEmbed e)"
  by (simp add: validateEmbed_def split: option.splits)

fun valid_target :: "target \<Rightarrow> bool" where
  "valid_target (TargetUrl u) = valid_url u"
| "valid_target (TargetFid f) = valid_fid f"
| "valid_target (TargetCast c) = valid_cast_id c"

lemma validateTarget_Ok [simp]: "validateTarget t = Ok r \<longleftrightarrow> r = t \<and> valid_target t"
  by (cases t) (auto simp: validateTarget_def outcome_simps)

lemma validateTarget_no_throw [simp]: "no_throw (validateTarget t)"
  by (simp add: validateTarget_def split: target.splits)

section \<open>Casts\<close>

fun embeds_loop :: "Embed option list \<Rightarrow> unit outcome" where
  "embeds_loop [] = Ok ()"
| "embeds_loop (e # es) =
     (case e of
        None \<Rightarrow> vfail ''embed is missing''
      | Some x \<Rightarrow> andThen (validateEmbed x) (\<lambda>_. embeds_loop es))"

fun string_embeds_loop :: "js_string option list \<Rightarrow> unit outcome" where
  "string_embeds_loop [] = Ok ()"
| "string_embeds_loop (e # es) =
     (case e of
        None \<Rightarrow> vfail ''string embed is missing''
      | Some u \<Rightarrow> andThen (validateUrl u) (\<lambda>_. string_embeds_loop es))"

text \<open>The loop over the mentions: \<open>prev\<close> is the position before, absent at index 0; a position
  beyond the end of \<^verbatim>\<open>mentionsPositions\<close> is \<^verbatim>\<open>undefined\<close>.\<close>

fun mentions_loop :: "nat \<Rightarrow> number option \<Rightarrow> number list \<Rightarrow> number list \<Rightarrow> unit outcome" where
  "mentions_loop textLength prev [] ps = Ok ()"
| "mentions_loop textLength prev (m # ms) ps =
     andThen (validateFid m) (\<lambda>_.
       case ps of
         [] \<Rightarrow> vfail ''mentionsPositions must be integers''
       | p # ps' \<Rightarrow>
           if \<not> is_integer p then vfail ''mentionsPositions must be integers''
           else if js_lt p (numI 0) \<or> js_lt (numI (int textLength)) p then
             vfail ''mentionsPositions must be a position in text''
           else (case prev of
                   Some q \<Rightarrow>
                     if js_lt p q then vfail ''mentionsPositions must be sorted in ascending order''
                     else mentions_loop textLength (Some p) ms ps'
                 | None \<Rightarrow> mentions_loop textLength (Some p) ms ps'))"

definition validateCastAddBody :: "CastAddBody \<Rightarrow> bool \<Rightarrow> CastAddBody outcome" where
  "validateCastAddBody body allowEmbedsDeprecated =
     (case cab_text body of
        None \<Rightarrow> vfail ''text is missing''
      | Some tx \<Rightarrow>
          (case utf8StringToBytes tx of
             Err e \<Rightarrow> fail InvalidParam ''text must be encodable as utf8''
           | Throw t \<Rightarrow> Throw t
           | Ok textBytes \<Rightarrow>
               if cab_type body = CastType_CAST \<and> length textBytes > 320 then vfail ''text > 320 bytes''
               else if cab_type body = CastType_LONG_CAST \<and> length textBytes > 1024 then
                 vfail ''text > 1024 bytes for long cast''
               else if cab_type body = CastType_LONG_CAST \<and> length textBytes \<le> 320 then
                 vfail ''text too short for long cast''
               else if cab_type body \<noteq> CastType_CAST \<and> cab_type body \<noteq> CastType_LONG_CAST then
                 vfail ''invalid cast type''
               else if length (cab_embeds body) > 2 then vfail ''embeds > 2''
               else if allowEmbedsDeprecated \<and> length (cab_embedsDeprecated body) > 2 then
                 vfail ''string embeds > 2''
               else if \<not> allowEmbedsDeprecated \<and> length (cab_embedsDeprecated body) > 0 then
                 vfail ''string embeds have been deprecated''
               else if length (cab_mentions body) > 10 then vfail ''mentions > 10''
               else if length (cab_mentions body) \<noteq> length (cab_mentionsPositions body) then
                 vfail ''mentions and mentionsPositions must match''
               else if length (cab_embeds body) > 0 \<and> length (cab_embedsDeprecated body) > 0 then
                 vfail ''cannot use both embeds and string embeds''
               else if cab_parentUrl body \<noteq> None \<and> cab_parentCastId body \<noteq> None then
                 vfail ''cannot use both parentUrl and parentCastId''
               else if length tx = 0 \<and> length (cab_embeds body) = 0 \<and>
                       length (cab_embedsDeprecated body) = 0 \<and> length (cab_mentions body) = 0 then
                 vfail ''cast is empty''
               else
                 andThen (embeds_loop (cab_embeds body)) (\<lambda>_.
                 andThen (string_embeds_loop (cab_embedsDeprecated body)) (\<lambda>_.
                 andThen (mentions_loop (length textBytes) None (cab_mentions body)
                            (cab_mentionsPositions body)) (\<lambda>_.
                 if cab_parentCastId body \<noteq> None \<and> cab_parentUrl body \<noteq> None then
                   vfail ''cannot use both parentUrl and parentCastId''
                 else (case cast_or_url (cab_parentCastId body) (cab_parentUrl body) of
                         None \<Rightarrow> Ok body
                       | Some parent \<Rightarrow> andThen (validateParent parent) (\<lambda>_. Ok body)))))))"

definition validateCastRemoveBody :: "CastRemoveBody \<Rightarrow> CastRemoveBody outcome" where
  "validateCastRemoveBody body = mapOk (validateMessageHash (crb_targetHash body)) (\<lambda>_. body)"

section \<open>What a valid cast is\<close>

text \<open>Positions are integers in ascending order within the text's bytes.\<close>

definition valid_positions :: "nat \<Rightarrow> number list \<Rightarrow> bool" where
  "valid_positions n ps \<longleftrightarrow>
     (\<exists>is. ps = map numI is \<and> sorted is \<and> (\<forall>i \<in> set is. 0 \<le> i \<and> i \<le> int n))"

definition cast_add_spec :: "CastAddBody \<Rightarrow> bool \<Rightarrow> bool" where
  "cast_add_spec b allow \<longleftrightarrow>
     (\<exists>tx n. cab_text b = Some tx \<and> n = length (utf8_encode tx) \<and>
       (cab_type b = CastType_CAST \<and> n \<le> 320 \<or> cab_type b = CastType_LONG_CAST \<and> 320 < n \<and> n \<le> 1024) \<and>
       (tx \<noteq> [] \<or> cab_embeds b \<noteq> [] \<or> cab_embedsDeprecated b \<noteq> [] \<or> cab_mentions b \<noteq> []) \<and>
       valid_positions n (cab_mentionsPositions b)) \<and>
     length (cab_embeds b) \<le> 2 \<and> length (cab_embedsDeprecated b) \<le> (if allow then 2 else 0) \<and>
     (cab_embeds b = [] \<or> cab_embedsDeprecated b = []) \<and>
     length (cab_mentions b) \<le> 10 \<and> length (cab_mentions b) = length (cab_mentionsPositions b) \<and>
     (\<forall>e \<in> set (cab_embeds b). \<exists>x. e = Some x \<and> valid_embed x) \<and>
     (\<forall>e \<in> set (cab_embedsDeprecated b). \<exists>u. e = Some u \<and> valid_url u) \<and>
     (\<forall>m \<in> set (cab_mentions b). valid_fid m) \<and>
     (case (cab_parentCastId b, cab_parentUrl b) of
        (Some c, Some u) \<Rightarrow> False
      | (Some c, None) \<Rightarrow> valid_cast_id c
      | (None, Some u) \<Rightarrow> valid_url u
      | (None, None) \<Rightarrow> True)"

lemma embeds_loop_Ok: "embeds_loop es = Ok () \<longleftrightarrow> (\<forall>e \<in> set es. \<exists>x. e = Some x \<and> valid_embed x)"
  by (induction es) (auto simp: outcome_simps split: option.splits)

lemma string_embeds_loop_Ok:
  "string_embeds_loop es = Ok () \<longleftrightarrow> (\<forall>e \<in> set es. \<exists>u. e = Some u \<and> valid_url u)"
  by (induction es) (auto simp: outcome_simps split: option.splits)

lemma js_lt_numI [simp]: "js_lt (Num a) (Num b) = (a < b)"
  by simp

lemma mentions_loop_Ok:
  assumes "length ms = length ps"
  shows "mentions_loop n prev ms ps = Ok () \<longleftrightarrow>
     (\<forall>m \<in> set ms. valid_fid m) \<and>
     (\<exists>is. ps = map numI is \<and> sorted is \<and> (\<forall>i \<in> set is. 0 \<le> i \<and> i \<le> int n) \<and>
        (\<forall>q. prev = Some q \<longrightarrow> (\<forall>i \<in> set is. \<not> js_lt (numI i) q)))"
  using assms
proof (induction ms ps arbitrary: prev rule: list_induct2)
  case Nil
  then show ?case by simp
next
  case (Cons m ms p ps)
  show ?case
  proof (cases "is_integer p")
    case False
    then have "\<nexists>i. p = numI i" by (simp add: is_integer_iff)
    then have "\<nexists>is. p # ps = map numI is" by (auto simp: Cons_eq_map_conv)
    with False show ?thesis by (auto simp: outcome_simps)
  next
    case True
    then obtain i where p: "p = numI i" by (rule is_integerE)
    have i: "(rat_of_nat n < rat_of_int i) = (int n < i)"
      by (metis of_int_less_iff of_int_of_nat_eq)
    have step: "mentions_loop n prev (m # ms) (p # ps) = Ok () \<longleftrightarrow>
        valid_fid m \<and> 0 \<le> i \<and> i \<le> int n \<and> (\<forall>q. prev = Some q \<longrightarrow> \<not> js_lt (numI i) q) \<and>
        mentions_loop n (Some p) ms ps = Ok ()"
      using p i by (cases prev) (auto simp: outcome_simps not_less)
    have le: "\<not> js_lt (numI j) q" if "i \<le> j" "\<not> js_lt (numI i) q" for j q
      using that by (cases q) (auto simp: not_less intro: order_trans)
    have rhs: "(\<exists>is. p # ps = map numI is \<and> Q is) \<longleftrightarrow> (\<exists>is. ps = map numI is \<and> Q (i # is))" for Q
      using p by (auto simp: Cons_eq_map_conv)
    have body: "sorted (i # is) \<and> (\<forall>j \<in> set (i # is). 0 \<le> j \<and> j \<le> int n) \<and>
          (\<forall>q. prev = Some q \<longrightarrow> (\<forall>j \<in> set (i # is). \<not> js_lt (numI j) q)) \<longleftrightarrow>
        0 \<le> i \<and> i \<le> int n \<and> (\<forall>q. prev = Some q \<longrightarrow> \<not> js_lt (numI i) q) \<and>
        sorted is \<and> (\<forall>j \<in> set is. 0 \<le> j \<and> j \<le> int n) \<and> (\<forall>j \<in> set is. \<not> js_lt (numI j) p)" for "is"
      using p le by (auto simp: not_less)
    show ?thesis
      unfolding step rhs body Cons.IH[of "Some p"] by auto
  qed
qed

lemma guard_vfail: "(if c then vfail m else k) = Ok x \<longleftrightarrow> \<not> c \<and> k = Ok x"
  by simp

lemma andThen_unit: "andThen r (\<lambda>_ :: unit. k) = Ok x \<longleftrightarrow> r = Ok () \<and> k = Ok x"
  by (cases r) auto

lemma validateCastAddBody_iff:
  "validateCastAddBody b allow = Ok r \<longleftrightarrow> r = b \<and> cast_add_spec b allow"
proof (cases "cab_text b")
  case None
  then show ?thesis by (simp add: validateCastAddBody_def cast_add_spec_def)
next
  case (Some tx)
  define n where "n = length (utf8_encode tx)"
  let ?ms = "cab_mentions b" and ?ps = "cab_mentionsPositions b"
  define P where "P \<longleftrightarrow> (case (cab_parentCastId b, cab_parentUrl b) of
          (Some c, Some u) \<Rightarrow> False | (Some c, None) \<Rightarrow> valid_cast_id c
        | (None, Some u) \<Rightarrow> valid_url u | (None, None) \<Rightarrow> True)"
  have parent: "\<not> (cab_parentCastId b \<noteq> None \<and> cab_parentUrl b \<noteq> None) \<and>
       (case cast_or_url (cab_parentCastId b) (cab_parentUrl b) of
           None \<Rightarrow> Ok b | Some parent \<Rightarrow> andThen (validateParent parent) (\<lambda>_. Ok b)) = Ok r \<longleftrightarrow>
        r = b \<and> P"
    unfolding P_def
    by (cases "cab_parentCastId b"; cases "cab_parentUrl b")
      (auto simp: cast_or_url_def validateParent_def outcome_simps)
  have ms: "length ?ms = length ?ps \<Longrightarrow>
      mentions_loop n None ?ms ?ps = Ok () \<longleftrightarrow> (\<forall>m \<in> set ?ms. valid_fid m) \<and> valid_positions n ?ps"
    using mentions_loop_Ok[of ?ms ?ps n None] by (simp add: valid_positions_def)
  define F where "F \<longleftrightarrow> (\<forall>m \<in> set ?ms. valid_fid m)"
  have spec: "cast_add_spec b allow \<longleftrightarrow>
      (cab_type b = CastType_CAST \<and> n \<le> 320 \<or> cab_type b = CastType_LONG_CAST \<and> 320 < n \<and> n \<le> 1024) \<and>
      (tx \<noteq> [] \<or> cab_embeds b \<noteq> [] \<or> cab_embedsDeprecated b \<noteq> [] \<or> ?ms \<noteq> []) \<and>
      valid_positions n ?ps \<and> length (cab_embeds b) \<le> 2 \<and>
      length (cab_embedsDeprecated b) \<le> (if allow then 2 else 0) \<and>
      (cab_embeds b = [] \<or> cab_embedsDeprecated b = []) \<and> length ?ms \<le> 10 \<and> length ?ms = length ?ps \<and>
      embeds_loop (cab_embeds b) = Ok () \<and> string_embeds_loop (cab_embedsDeprecated b) = Ok () \<and>
      F \<and> P"
    using Some
    by (simp only: cast_add_spec_def n_def P_def F_def embeds_loop_Ok string_embeds_loop_Ok option.inject) blast
  have both: "P \<Longrightarrow> \<not> (cab_parentUrl b \<noteq> None \<and> cab_parentCastId b \<noteq> None)"
    by (auto simp: P_def split: option.splits)
  have dep: "length (cab_embedsDeprecated b) \<le> (if allow then 2 else 0) \<longleftrightarrow>
      \<not> (allow \<and> 2 < length (cab_embedsDeprecated b)) \<and> \<not> (\<not> allow \<and> cab_embedsDeprecated b \<noteq> [])"
    by auto
  have excl: "\<not> (cab_type b = CastType_CAST \<and> cab_type b = CastType_LONG_CAST)" "1024 < n \<longrightarrow> 320 < n"
    by auto
  have ms': "length ?ms = length ?ps \<longrightarrow>
      mentions_loop n None ?ms ?ps = Ok () \<longleftrightarrow> F \<and> valid_positions n ?ps"
    using ms by (simp add: F_def)
  have both': "P \<longrightarrow> \<not> (cab_parentUrl b \<noteq> None \<and> cab_parentCastId b \<noteq> None)"
    using both by simp
  show ?thesis
    unfolding spec dep
    apply (simp only: validateCastAddBody_def Some option.case utf8StringToBytes_def outcome.case
        guard_vfail andThen_unit parent n_def [symmetric] length_greater_0_conv
        length_0_conv not_less [symmetric])
    using excl ms' both' by satx
qed

text \<open>No body makes the validator throw.\<close>

lemma embeds_loop_no_throw [simp]: "no_throw (embeds_loop es)"
  by (induction es) (auto intro!: no_throw_andThen split: option.splits)

lemma string_embeds_loop_no_throw [simp]: "no_throw (string_embeds_loop es)"
  by (induction es) (auto intro!: no_throw_andThen split: option.splits)

lemma mentions_loop_no_throw [simp]: "no_throw (mentions_loop n prev ms ps)"
  by (induction n prev ms ps rule: mentions_loop.induct)
    (auto intro!: no_throw_andThen split: option.splits list.splits)

lemma validateParent_no_throw [simp]: "no_throw (validateParent t)"
  by (simp add: validateParent_def split: target.splits)

lemma validateCastAddBody_no_throw: "no_throw (validateCastAddBody b allow)"
  by (simp add: validateCastAddBody_def utf8StringToBytes_def no_throw_andThen split: option.splits)

end
