(* ===== verification/ValidateMessage.thy ===== *)
theory ValidateMessage
  imports ValidateBodies
begin

text \<open>
  The rest of \<^verbatim>\<open>packages/core/src/validations.ts\<close>: links, reactions, frame actions, user data,
  username proofs, verifications, and the two entry points \<open>validateMessageData\<close> and
  \<open>validateMessage\<close>. The main facts: what an accepted message is (\<open>validateMessage_Ok\<close>), that an
  accepted message passes exactly the type guard of its type, and when validation can throw.
\<close>

section \<open>Links and reactions\<close>

definition validateLinkType :: "js_string \<Rightarrow> js_string outcome" where
  "validateLinkType type =
     (if length type = 0 \<or> length (utf8_encode type) > 8 then vfail ''type must be between 1-8 bytes''
      else Ok type)"

definition validateReactionType :: "int \<Rightarrow> int outcome" where
  "validateReactionType type =
     (if type \<notin> set ReactionType_values then vfail ''invalid reaction type'' else Ok type)"

definition validateMessageType :: "int \<Rightarrow> int outcome" where
  "validateMessageType type =
     (if type \<notin> set MessageType_values then vfail ''invalid message type'' else Ok type)"

definition validateNetwork :: "int \<Rightarrow> int outcome" where
  "validateNetwork network =
     (if network \<notin> set FarcasterNetwork_values then vfail ''invalid network'' else Ok network)"

fun fids_loop :: "number list \<Rightarrow> unit outcome" where
  "fids_loop [] = Ok ()"
| "fids_loop (f # fs) = andThen (validateFid f) (\<lambda>_. fids_loop fs)"

definition validateLinkCompactStateBody :: "LinkCompactStateBody \<Rightarrow> LinkCompactStateBody outcome" where
  "validateLinkCompactStateBody body =
     andThen (validateLinkType (lcsb_type body)) (\<lambda>_.
       case lcsb_targetFids body of
         None \<Rightarrow> vfail ''targets is missing''
       | Some targetFids \<Rightarrow> andThen (fids_loop targetFids) (\<lambda>_. Ok body))"

definition validateLinkBody :: "LinkBody \<Rightarrow> LinkBody outcome" where
  "validateLinkBody body =
     andThen (validateLinkType (lb_type body)) (\<lambda>_.
       case lb_targetFid body of
         None \<Rightarrow> vfail ''target is missing''
       | Some t \<Rightarrow> mapOk (validateTarget (TargetFid t)) (\<lambda>_. body))"

definition validateReactionBody :: "ReactionBody \<Rightarrow> ReactionBody outcome" where
  "validateReactionBody body =
     andThen (validateReactionType (rb_type body)) (\<lambda>_.
       if rb_targetCastId body \<noteq> None \<and> rb_targetUrl body \<noteq> None then
         vfail ''cannot use both targetUrl and targetCastId''
       else (case cast_or_url (rb_targetCastId body) (rb_targetUrl body) of
               None \<Rightarrow> vfail ''target is missing''
             | Some t \<Rightarrow> mapOk (validateTarget t) (\<lambda>_. body)))"

section \<open>Frame actions and user data\<close>

definition validateBytesAsString :: "bytes \<Rightarrow> nat \<Rightarrow> bool \<Rightarrow> bytes outcome" where
  "validateBytesAsString byteArray maxLength required =
     (if required \<and> length byteArray = 0 then vfail ''value is required''
      else if length byteArray > maxLength then vfail ''value is too long''
      else Ok byteArray)"

definition validateFrameActionBody :: "FrameActionBody \<Rightarrow> FrameActionBody outcome" where
  "validateFrameActionBody body =
     (if fab_buttonIndex body > 5 then vfail ''invalid button index''
      else if \<not> is_ok (validateBytesAsString (fab_url body) 1024 True) then vfail ''invalid url''
      else if \<not> is_ok (validateBytesAsString (fab_inputText body) 256 False) then vfail ''invalid input text''
      else if \<not> is_ok (validateBytesAsString (fab_state body) 4096 False) then vfail ''invalid state''
      else if \<not> is_ok (validateBytesAsString (fab_transactionId body) 256 False) then
        vfail ''invalid transaction ID''
      else if \<not> is_ok (validateBytesAsString (fab_address body) 64 False) then vfail ''invalid address''
      else (case fab_castId body of
              None \<Rightarrow> Ok body
            | Some c \<Rightarrow> andThen (validateCastId (Some c)) (\<lambda>_. Ok body)))"

definition validateUserDataType :: "int \<Rightarrow> int outcome" where
  "validateUserDataType type =
     (if type \<notin> set UserDataType_values \<or> type = UDT_NONE then vfail ''invalid user data type''
      else Ok type)"

definition limit_bytes :: "bytes \<Rightarrow> nat \<Rightarrow> string \<Rightarrow> 'a \<Rightarrow> 'a outcome" where
  "limit_bytes b n m x = (if length b > n then vfail m else Ok x)"

text \<open>Two checks are run and the first error is reported when both fail.\<close>

fun either_ok :: "'a outcome \<Rightarrow> 'b outcome \<Rightarrow> unit outcome" where
  "either_ok (Throw t) r = Throw t"
| "either_ok (Ok x) (Throw t) = Throw t"
| "either_ok (Err e) (Throw t) = Throw t"
| "either_ok (Err e) (Err e') = Err e"
| "either_ok (Ok x) (Ok y) = Ok ()"
| "either_ok (Ok x) (Err e) = Ok ()"
| "either_ok (Err e) (Ok y) = Ok ()"

definition validateUserDataAddBody :: "validation_env \<Rightarrow> UserDataBody \<Rightarrow> UserDataBody outcome" where
  "validateUserDataAddBody E body =
     (let type = udb_type body; v = udb_value body in
      case utf8StringToBytes v of
        Err e \<Rightarrow> fail InvalidParam ''value cannot be encoded as utf8''
      | Throw t \<Rightarrow> Throw t
      | Ok valueBytes \<Rightarrow>
          if type = UDT_PFP then limit_bytes valueBytes 256 ''pfp value > 256'' body
          else if type = UDT_DISPLAY then limit_bytes valueBytes 32 ''display value > 32'' body
          else if type = UDT_BIO then limit_bytes valueBytes 256 ''bio value > 256'' body
          else if type = UDT_URL then limit_bytes valueBytes 256 ''url value > 256'' body
          else if type = UDT_USERNAME then
            (if v \<noteq> [] then
               mapOk (either_ok (validateFname (Some (NameString v)))
                        (validateEnsName E (Some (NameString v)))) (\<lambda>_. body)
             else Ok body)
          else if type = UDT_LOCATION then mapOk (validateUserLocation v) (\<lambda>_. body)
          else if type = UDT_TWITTER then
            mapOk (validateTwitterUsername (Some (NameString v))) (\<lambda>_. body)
          else if type = UDT_GITHUB then
            mapOk (validateGithubUsername (Some (NameString v))) (\<lambda>_. body)
          else vfail ''invalid user data type'')"

section \<open>Username proofs\<close>

definition validateUsernameProofBody ::
  "validation_env \<Rightarrow> UserNameProof \<Rightarrow> MessageData \<Rightarrow> UserNameProof outcome" where
  "validateUsernameProofBody E body d =
     (if unp_type body \<noteq> USERNAME_TYPE_ENS_L1 then
        fail_js ValidationFailure (lit ''invalid username type: '' @ int_to_string 10 (unp_type body))
      else
        andThen (validateEnsName E (Some (NameBytes (unp_name body)))) (\<lambda>_.
        if \<not> js_eq (unp_fid body) (md_fid d) then
          vfail ''fid in username proof does not match fid in message data''
        else
          andThen (toFarcasterTime (unp_timestamp body * 1000)) (\<lambda>t.
          if t \<noteq> md_timestamp d then
            vfail ''timestamp in username proof does not match timestamp in message data''
          else Ok body)))"

section \<open>Verifications\<close>

text \<open>The pure JavaScript verifier: an exception of the curve library counts as false.\<close>

definition ed25519_verifyMessageHashSignature ::
  "validation_env \<Rightarrow> bytes \<Rightarrow> bytes \<Rightarrow> bytes \<Rightarrow> bool outcome" where
  "ed25519_verifyMessageHashSignature E signature hash publicKey =
     fromPromise (noble_verify E signature hash publicKey)
       (\<lambda>e. new_HubError BadRequest (CtxError (exn_message e)))"

definition pureJS_ed25519_verify :: "validation_env \<Rightarrow> ed25519_verifier" where
  "pureJS_ed25519_verify E s m p \<longleftrightarrow>
     unwrapOr (ed25519_verifyMessageHashSignature E s m p) False = Ok True"

definition pureJS_ed25519_signMessageHash :: "validation_env \<Rightarrow> bytes \<Rightarrow> bytes \<Rightarrow> bytes" where
  "pureJS_ed25519_signMessageHash E h k =
     (case fromPromise (noble_sign E h k) (\<lambda>e. new_HubError BadRequest (CtxError (exn_message e))) of
        Ok s \<Rightarrow> s | _ \<Rightarrow> [])"

text \<open>The environment with the default validation methods.\<close>

definition pureJSValidationMethods :: "validation_env \<Rightarrow> validation_env" where
  "pureJSValidationMethods E =
     E\<lparr>blake3_20 := noble_blake3 E, ed25519_verify := pureJS_ed25519_verify E,
       ed25519_signMessageHash := pureJS_ed25519_signMessageHash E\<rparr>"

definition validateVerificationAddSolAddressSignature ::
  "validation_env \<Rightarrow> VerificationAddAddressBody \<Rightarrow> number \<Rightarrow> int \<Rightarrow> bytes outcome" where
  "validateVerificationAddSolAddressSignature E body fid network =
     (if length (vab_claimSignature body) \<noteq> 64 then vfail ''claimSignature != 64 bytes''
      else
        andThen (makeVerificationAddressClaim (env_codecs E) fid (vab_address body) network
                   (vab_blockHash body) (vab_protocol body)) (\<lambda>claim.
        andThen (recreateSolanaClaimMessage claim (vab_address body)) (\<lambda>fullMessage.
        if \<not> pureJS_ed25519_verify E (vab_claimSignature body) fullMessage (vab_address body) then
          vfail ''invalid claimSignature''
        else Ok (vab_claimSignature body))))"

definition validateVerificationAddEthAddressSignature ::
  "validation_env \<Rightarrow> VerificationAddAddressBody \<Rightarrow> number \<Rightarrow> int \<Rightarrow> bytes outcome" where
  "validateVerificationAddEthAddressSignature E body fid network =
     (if length (vab_claimSignature body) > 2048 then vfail ''claimSignature > 2048 bytes''
      else
        andThen (makeVerificationAddressClaim (env_codecs E) fid (vab_address body) network
                   (vab_blockHash body) ETHEREUM) (\<lambda>claim.
        andThen (verifyVerificationEthAddressClaimSignature E claim (vab_claimSignature body)
                   (vab_address body) (vab_verificationType body) (vab_chainId body)) (\<lambda>v.
        if \<not> v then vfail ''invalid claimSignature'' else Ok (vab_claimSignature body))))"

definition validateVerificationAddEthAddressBody ::
  "validation_env \<Rightarrow> VerificationAddAddressBody \<Rightarrow> number \<Rightarrow> int \<Rightarrow> VerificationAddAddressBody outcome" where
  "validateVerificationAddEthAddressBody E body fid network =
     andThen (validateEthAddress (Some (vab_address body))) (\<lambda>_.
     andThen (validateEthBlockHash (Some (vab_blockHash body))) (\<lambda>_.
     andThen (validateVerificationAddEthAddressSignature E body fid network) (\<lambda>_. Ok body)))"

definition validateVerificationAddSolAddressBody ::
  "validation_env \<Rightarrow> VerificationAddAddressBody \<Rightarrow> number \<Rightarrow> int \<Rightarrow> VerificationAddAddressBody outcome" where
  "validateVerificationAddSolAddressBody E body fid network =
     (if vab_protocol body \<noteq> SOLANA then vfail ''invalid verification protocol''
      else if \<not> is_ok (validateSolAddress (Some (vab_address body))) then
        vfail ''solana address must be 32 bytes''
      else if \<not> is_ok (validateSolBlockHash (Some (vab_blockHash body))) then
        vfail ''blockHash must be 32 bytes''
      else andThen (validateVerificationAddSolAddressSignature E body fid network) (\<lambda>_. Ok body))"

definition validateVerificationAddAddressBody ::
  "validation_env \<Rightarrow> VerificationAddAddressBody \<Rightarrow> number \<Rightarrow> int \<Rightarrow> VerificationAddAddressBody outcome" where
  "validateVerificationAddAddressBody E body fid network =
     (if vab_protocol body = ETHEREUM then validateVerificationAddEthAddressBody E body fid network
      else if vab_protocol body = SOLANA then validateVerificationAddSolAddressBody E body fid network
      else vfail ''invalid verification protocol'')"

definition validateVerificationRemoveBody :: "VerificationRemoveBody \<Rightarrow> VerificationRemoveBody outcome" where
  "validateVerificationRemoveBody body =
     (if vrb_protocol body = ETHEREUM then
        mapOk (validateEthAddress (Some (vrb_address body))) (\<lambda>_. body)
      else if vrb_protocol body = SOLANA then
        mapOk (validateSolAddress (Some (vrb_address body))) (\<lambda>_. body)
      else vfail ''invalid verification protocol'')"

section \<open>Message data\<close>

definition ALLOWED_CLOCK_SKEW_SECONDS :: int where
  "ALLOWED_CLOCK_SKEW_SECONDS = 10 * 60"

definition EMBEDS_V1_CUTOFF :: int where
  "EMBEDS_V1_CUTOFF = 73612800"

text \<open>The fields whose name ends in \<^verbatim>\<open>Body\<close>; the count of those that are set.\<close>

definition bodies_set :: "MessageData \<Rightarrow> bool list" where
  "bodies_set d =
     [md_castAddBody d \<noteq> None, md_castRemoveBody d \<noteq> None, md_reactionBody d \<noteq> None,
      md_verificationAddAddressBody d \<noteq> None, md_verificationRemoveBody d \<noteq> None,
      md_userDataBody d \<noteq> None, md_linkBody d \<noteq> None, md_usernameProofBody d \<noteq> None,
      md_frameActionBody d \<noteq> None, md_linkCompactStateBody d \<noteq> None]"

definition bodySet :: "MessageData \<Rightarrow> nat" where
  "bodySet d = length (filter id (bodies_set d))"

text \<open>Step 6 of the source: the validator of the body that belongs to the type.\<close>

definition validateBody :: "validation_env \<Rightarrow> MessageData \<Rightarrow> unit outcome" where
  "validateBody E d =
     (let type = md_type d; bad = fail InvalidParam ''bodyType is invalid'' in
      if type = CAST_ADD \<and> md_castAddBody d \<noteq> None then
        mapOk (validateCastAddBody (the (md_castAddBody d)) (md_timestamp d < EMBEDS_V1_CUTOFF)) (\<lambda>_. ())
      else if type = CAST_REMOVE \<and> md_castRemoveBody d \<noteq> None then
        mapOk (validateCastRemoveBody (the (md_castRemoveBody d))) (\<lambda>_. ())
      else if (type = REACTION_ADD \<or> type = REACTION_REMOVE) \<and> md_reactionBody d \<noteq> None then
        mapOk (validateReactionBody (the (md_reactionBody d))) (\<lambda>_. ())
      else if type = LINK_COMPACT_STATE \<and> md_linkCompactStateBody d \<noteq> None then
        mapOk (validateLinkCompactStateBody (the (md_linkCompactStateBody d))) (\<lambda>_. ())
      else if (type = LINK_ADD \<or> type = LINK_REMOVE) \<and> md_linkBody d \<noteq> None then
        mapOk (validateLinkBody (the (md_linkBody d))) (\<lambda>_. ())
      else if type = USER_DATA_ADD \<and> md_userDataBody d \<noteq> None then
        mapOk (validateUserDataAddBody E (the (md_userDataBody d))) (\<lambda>_. ())
      else if type = VERIFICATION_ADD_ETH_ADDRESS \<and> md_verificationAddAddressBody d \<noteq> None then
        mapOk (validateVerificationAddAddressBody E (the (md_verificationAddAddressBody d))
                 (md_fid d) (md_network d)) (\<lambda>_. ())
      else if type = VERIFICATION_REMOVE \<and> md_verificationRemoveBody d \<noteq> None then
        mapOk (validateVerificationRemoveBody (the (md_verificationRemoveBody d))) (\<lambda>_. ())
      else if type = USERNAME_PROOF \<and> md_usernameProofBody d \<noteq> None then
        mapOk (validateUsernameProofBody E (the (md_usernameProofBody d)) d) (\<lambda>_. ())
      else if type = FRAME_ACTION \<and> md_frameActionBody d \<noteq> None then
        mapOk (validateFrameActionBody (the (md_frameActionBody d))) (\<lambda>_. ())
      else bad)"

definition validateMessageData :: "validation_env \<Rightarrow> MessageData \<Rightarrow> MessageData outcome" where
  "validateMessageData E d =
     andThen (validateFid (md_fid d)) (\<lambda>_.
     andThen (getFarcasterTime (env_now E)) (\<lambda>farcasterTime.
     if md_timestamp d - farcasterTime > ALLOWED_CLOCK_SKEW_SECONDS then
       vfail ''timestamp more than 10 mins in the future''
     else
       andThen (validateNetwork (md_network d)) (\<lambda>_.
       andThen (validateMessageType (md_type d)) (\<lambda>_.
       if bodySet d \<noteq> 1 then vfail ''only one body can be set''
       else andThen (validateBody E d) (\<lambda>_. Ok d)))))"

section \<open>Messages\<close>

text \<open>The bytes whose hash is checked: the data bytes when they are there and not empty, otherwise
  the encoded data.\<close>

definition hashed_bytes :: "validation_env \<Rightarrow> Message \<Rightarrow> MessageData \<Rightarrow> bytes" where
  "hashed_bytes E m d =
     (case msg_dataBytes m of
        Some b \<Rightarrow> if b \<noteq> [] then b else encodeMessageData E d
      | None \<Rightarrow> encodeMessageData E d)"

definition validateMessage :: "validation_env \<Rightarrow> Message \<Rightarrow> Message outcome" where
  "validateMessage E m =
     (case msg_data m of
        None \<Rightarrow> vfail ''data is missing''
      | Some d \<Rightarrow>
          andThen (validateMessageData E d) (\<lambda>_.
          case msg_hash m of
            None \<Rightarrow> vfail ''hash is missing''
          | Some hash \<Rightarrow>
              if (case msg_dataBytes m of Some b \<Rightarrow> length b > 2048 | None \<Rightarrow> False) then
                vfail ''dataBytes > 2048 bytes''
              else (let computedHash = blake3_20 E (hashed_bytes E m d) in
                if msg_hashScheme m \<noteq> BLAKE3 then vfail ''invalid hashScheme''
                else if bytesCompare hash computedHash \<noteq> 0 then
                  fail_js ValidationFailure
                    (lit ''invalid hash. Expected='' @ show_bytes E hash @ lit '', computed='' @
                     show_bytes E computedHash)
                else (case msg_signature m of
                  None \<Rightarrow> vfail ''signature is missing''
                | Some signature \<Rightarrow>
                    (case msg_signer m of
                       None \<Rightarrow> vfail ''signer is missing''
                     | Some signer \<Rightarrow>
                         if msg_signatureScheme m \<noteq> ED25519 then vfail ''invalid signatureScheme''
                         else if \<not> ed25519_verify E signature hash signer then vfail ''invalid signature''
                         else Ok m)))))"

section \<open>What is accepted\<close>

lemma validateLinkType_Ok [simp]:
  "validateLinkType t = Ok r \<longleftrightarrow> r = t \<and> t \<noteq> [] \<and> length (utf8_encode t) \<le> 8"
  by (auto simp: validateLinkType_def not_less)

lemma enum_validators_Ok [simp]:
  "validateReactionType t = Ok r \<longleftrightarrow> r = t \<and> t \<in> set ReactionType_values"
  "validateMessageType t = Ok r \<longleftrightarrow> r = t \<and> t \<in> set MessageType_values"
  "validateNetwork t = Ok r \<longleftrightarrow> r = t \<and> t \<in> set FarcasterNetwork_values"
  by (auto simp: validateReactionType_def validateMessageType_def validateNetwork_def)

lemma fids_loop_Ok: "fids_loop fs = Ok () \<longleftrightarrow> (\<forall>f \<in> set fs. valid_fid f)"
  by (induction fs) (auto simp: outcome_simps)

lemma validateLinkCompactStateBody_iff:
  "validateLinkCompactStateBody b = Ok r \<longleftrightarrow>
   r = b \<and> lcsb_type b \<noteq> [] \<and> length (utf8_encode (lcsb_type b)) \<le> 8 \<and>
   (\<exists>fs. lcsb_targetFids b = Some fs \<and> (\<forall>f \<in> set fs. valid_fid f))"
  by (auto simp: validateLinkCompactStateBody_def outcome_simps fids_loop_Ok split: option.splits)

lemma validateLinkBody_iff:
  "validateLinkBody b = Ok r \<longleftrightarrow>
   r = b \<and> lb_type b \<noteq> [] \<and> length (utf8_encode (lb_type b)) \<le> 8 \<and>
   (\<exists>i > 0. lb_targetFid b = Some (numI i))"
  by (auto simp: validateLinkBody_def outcome_simps split: option.splits)

lemma validateReactionBody_iff:
  "validateReactionBody b = Ok r \<longleftrightarrow>
   r = b \<and> rb_type b \<in> {0, 1, 2} \<and>
   (case (rb_targetCastId b, rb_targetUrl b) of
      (Some c, None) \<Rightarrow> valid_cast_id c | (None, Some u) \<Rightarrow> valid_url u | _ \<Rightarrow> False)"
  by (cases "rb_targetCastId b"; cases "rb_targetUrl b")
    (auto simp: validateReactionBody_def outcome_simps cast_or_url_def ReactionType_values_def)

lemma validateBytesAsString_ok:
  "is_ok (validateBytesAsString b n req) \<longleftrightarrow> length b \<le> n \<and> (req \<longrightarrow> b \<noteq> [])"
  by (simp add: validateBytesAsString_def not_less)

lemma validateFrameActionBody_iff:
  "validateFrameActionBody b = Ok r \<longleftrightarrow>
   r = b \<and> fab_buttonIndex b \<le> 5 \<and> fab_url b \<noteq> [] \<and> length (fab_url b) \<le> 1024 \<and>
   length (fab_inputText b) \<le> 256 \<and> length (fab_state b) \<le> 4096 \<and>
   length (fab_transactionId b) \<le> 256 \<and> length (fab_address b) \<le> 64 \<and>
   (\<forall>c. fab_castId b = Some c \<longrightarrow> valid_cast_id c)"
proof -
  have c: "(case fab_castId b of None \<Rightarrow> Ok b | Some c \<Rightarrow> andThen (validateCastId (Some c)) (\<lambda>_. Ok b)) = Ok r
      \<longleftrightarrow> r = b \<and> (\<forall>c. fab_castId b = Some c \<longrightarrow> valid_cast_id c)"
    by (cases "fab_castId b") (auto simp: outcome_simps)
  show ?thesis
    by (simp only: validateFrameActionBody_def guard_vfail c validateBytesAsString_ok) auto
qed

lemma either_ok_Ok:
  "no_throw a \<Longrightarrow> no_throw b \<Longrightarrow> either_ok a b = Ok () \<longleftrightarrow> is_ok a \<or> is_ok b"
  by (cases a; cases b) auto

lemma limit_bytes_Ok [simp]: "limit_bytes b n m x = Ok r \<longleftrightarrow> r = x \<and> length b \<le> n"
  by (auto simp: limit_bytes_def)

definition user_data_spec :: "validation_env \<Rightarrow> int \<Rightarrow> js_string \<Rightarrow> bool" where
  "user_data_spec E type v \<longleftrightarrow>
     type \<in> {UDT_PFP, UDT_BIO, UDT_URL} \<and> length (utf8_encode v) \<le> 256 \<or>
     type = UDT_DISPLAY \<and> length (utf8_encode v) \<le> 32 \<or>
     type = UDT_USERNAME \<and>
       (v = [] \<or> FNAME_REGEX_test v \<or>
        is_ok (ens_normalize E v) \<and> (\<exists>name. v = name @ lit ''.eth'' \<and> FNAME_REGEX_test name)) \<or>
     type = UDT_LOCATION \<and> is_ok (validateUserLocation v) \<or>
     type = UDT_TWITTER \<and> v \<noteq> [] \<and> TWITTER_REGEX_test v \<or>
     type = UDT_GITHUB \<and> GITHUB_REGEX_test v \<and> length v \<le> 38"

lemma validateUserDataAddBody_iff:
  "validateUserDataAddBody E b = Ok r \<longleftrightarrow> r = b \<and> user_data_spec E (udb_type b) (udb_value b)"
proof -
  let ?n = "Some (NameString (udb_value b))"
  have name: "either_ok (validateFname ?n) (validateEnsName E ?n) = Ok () \<longleftrightarrow>
      FNAME_REGEX_test (udb_value b) \<or> is_ok (ens_normalize E (udb_value b)) \<and>
        (\<exists>name. udb_value b = name @ lit ''.eth'' \<and> FNAME_REGEX_test name)"
    by (subst either_ok_Ok)
      (auto simp: name_validators_no_throw_string is_ok_iff validateFname_string validateEnsName_string)
  consider "udb_type b \<in> {1, 2, 3, 5, 6, 7, 8, 9}" | "udb_type b \<notin> {1, 2, 3, 5, 6, 7, 8, 9}" by blast
  then show ?thesis
    by cases (auto simp: validateUserDataAddBody_def user_data_spec_def Let_def utf8StringToBytes_def
        outcome_simps name is_ok_iff validateTwitterUsername_string validateGithubUsername_string)
qed

lemma bodySet_one: "bodySet d = 1 \<longleftrightarrow> length (filter id (bodies_set d)) = 1"
  by (simp add: bodySet_def)

lemma validateMessageData_Ok:
  "validateMessageData E d = Ok r \<longleftrightarrow>
   r = d \<and> valid_fid (md_fid d) \<and>
   (\<exists>t. getFarcasterTime (env_now E) = Ok t \<and> md_timestamp d \<le> t + 600) \<and>
   md_network d \<in> set FarcasterNetwork_values \<and> md_type d \<in> set MessageType_values \<and>
   bodySet d = 1 \<and> validateBody E d = Ok ()"
  by (auto simp: validateMessageData_def outcome_simps ALLOWED_CLOCK_SKEW_SECONDS_def not_less
      algebra_simps)

lemma validateMessage_Ok:
  "validateMessage E m = Ok r \<longleftrightarrow>
   r = m \<and>
   (\<exists>d h s k. msg_data m = Some d \<and> msg_hash m = Some h \<and> msg_signature m = Some s \<and>
      msg_signer m = Some k \<and> validateMessageData E d = Ok d \<and>
      (\<forall>b. msg_dataBytes m = Some b \<longrightarrow> length b \<le> 2048) \<and>
      msg_hashScheme m = BLAKE3 \<and> h = blake3_20 E (hashed_bytes E m d) \<and>
      msg_signatureScheme m = ED25519 \<and> ed25519_verify E s h k)"
proof -
  have d: "validateMessageData E d = Ok x \<Longrightarrow> x = d" for d x
    by (simp add: validateMessageData_Ok)
  have db: "\<not> (case msg_dataBytes m of Some b \<Rightarrow> length b > 2048 | None \<Rightarrow> False) \<longleftrightarrow>
      (\<forall>b. msg_dataBytes m = Some b \<longrightarrow> length b \<le> 2048)"
    by (auto split: option.splits)
  show ?thesis
  proof (cases "msg_data m")
    case None
    then show ?thesis by (simp add: validateMessage_def)
  next
    case (Some d')
    show ?thesis
    proof (cases "\<exists>h s k. msg_hash m = Some h \<and> msg_signature m = Some s \<and> msg_signer m = Some k")
      case True
      with Some show ?thesis
        by (auto simp: validateMessage_def outcome_simps Let_def guard_vfail db dest: d
            split: if_splits)
    next
      case False
      with Some show ?thesis
        by (auto simp: validateMessage_def outcome_simps Let_def guard_vfail
            split: option.splits if_splits)
    qed
  qed
qed


section \<open>Accepted messages and their type guards\<close>

lemma validateBody_data:
  "validateBody E d = Ok () \<Longrightarrow>
   (md_type d = CAST_ADD \<and> md_castAddBody d \<noteq> None) \<or>
   (md_type d = CAST_REMOVE \<and> md_castRemoveBody d \<noteq> None) \<or>
   ((md_type d = REACTION_ADD \<or> md_type d = REACTION_REMOVE) \<and> md_reactionBody d \<noteq> None) \<or>
   (md_type d = LINK_COMPACT_STATE \<and> md_linkCompactStateBody d \<noteq> None) \<or>
   ((md_type d = LINK_ADD \<or> md_type d = LINK_REMOVE) \<and> md_linkBody d \<noteq> None) \<or>
   (md_type d = USER_DATA_ADD \<and> md_userDataBody d \<noteq> None) \<or>
   (md_type d = VERIFICATION_ADD_ETH_ADDRESS \<and>
      (\<exists>b. md_verificationAddAddressBody d = Some b \<and> vab_protocol b \<in> {ETHEREUM, SOLANA})) \<or>
   (md_type d = VERIFICATION_REMOVE \<and>
      (\<exists>b. md_verificationRemoveBody d = Some b \<and> vrb_protocol b \<in> {ETHEREUM, SOLANA})) \<or>
   (md_type d = USERNAME_PROOF \<and> md_usernameProofBody d \<noteq> None) \<or>
   (md_type d = FRAME_ACTION \<and> md_frameActionBody d \<noteq> None)"
  by (auto simp: validateBody_def Let_def outcome_simps validateVerificationAddAddressBody_def
      validateVerificationRemoveBody_def split: if_splits)

lemma validated_message_guard:
  assumes "validateMessage E m = Ok m'"
  shows "length (filter (\<lambda>g. g m) message_guards) = 1"
proof -
  from assms obtain d where d: "msg_data m = Some d" "msg_signatureScheme m = ED25519"
      and b: "validateBody E d = Ok ()"
    by (auto simp: validateMessage_Ok validateMessageData_Ok)
  have "\<exists>g \<in> set message_guards. g m"
    using validateBody_data[OF b]
    by (elim disjE conjE exE)
      (simp_all add: message_guards_def message_guard_defs ed25519_message_with_def data_guard_defs d)
  then have "filter (\<lambda>g. g m) message_guards \<noteq> []" by (simp add: filter_empty_conv)
  with message_guards_length[of m] show ?thesis
    by (simp add: le_Suc_eq)
qed

text \<open>A username proof whose name is not UTF-8 is not rejected with a result: the decoder's
  exception escapes from \<open>validateMessage\<close>.\<close>

lemma validateMessage_throws:
  assumes "msg_data m = Some d" "valid_fid (md_fid d)" "getFarcasterTime (env_now E) = Ok t"
    and "md_timestamp d \<le> t + 600" "md_network d \<in> set FarcasterNetwork_values"
    and "md_type d = USERNAME_PROOF" "bodySet d = 1" "md_usernameProofBody d = Some p"
    and "unp_type p = USERNAME_TYPE_ENS_L1" "utf8_decode (strip_bom (unp_name p)) = None"
  shows "validateMessage E m = Throw TypeError"
proof -
  have f: "validateFid (md_fid d) = Ok (md_fid d)" and n: "validateNetwork (md_network d) = Ok (md_network d)"
    using assms(2,5) by (simp_all only: validateFid_Ok enum_validators_Ok simp_thms)
  have t: "validateMessageType (md_type d) = Ok (md_type d)"
    using assms(6) by (simp add: validateMessageType_def MessageType_values_def)
  have "validateUsernameProofBody E p d = Throw TypeError"
    using assms(9,10) names_throw_on_bad_bytes[of "unp_name p" E] by (simp add: validateUsernameProofBody_def)
  then have b: "validateBody E d = Throw TypeError"
    using assms(6,8) by (simp add: validateBody_def Let_def)
  have k: "\<not> ALLOWED_CLOCK_SKEW_SECONDS < md_timestamp d - t" "\<not> bodySet d \<noteq> 1"
    using assms(4,7) by (simp_all add: ALLOWED_CLOCK_SKEW_SECONDS_def)
  have "validateMessageData E d = Throw TypeError"
    by (simp only: validateMessageData_def f n t b k assms(3) andThen.simps if_False)
  then show ?thesis
    by (simp only: validateMessage_def assms(1) option.case andThen.simps)
qed

text \<open>What a verification that is accepted proves about its claim.\<close>

lemma validateVerificationAddAddressBody_sound:
  assumes "validateVerificationAddAddressBody E b fid network = Ok r"
  shows "r = b \<and>
    (\<exists>claim. makeVerificationAddressClaim (env_codecs E) fid (vab_address b) network (vab_blockHash b)
               (vab_protocol b) = Ok claim \<and>
       (vab_protocol b = ETHEREUM \<and> length (vab_claimSignature b) \<le> 2048 \<and>
          verifyVerificationEthAddressClaimSignature E claim (vab_claimSignature b) (vab_address b)
            (vab_verificationType b) (vab_chainId b) = Ok True \<or>
        vab_protocol b = SOLANA \<and> length (vab_claimSignature b) = 64 \<and>
          pureJS_ed25519_verify E (vab_claimSignature b) (utf8_encode (solana_claim_text claim))
            (vab_address b)))"
  using assms
  by (auto simp: validateVerificationAddAddressBody_def validateVerificationAddEthAddressBody_def
      validateVerificationAddEthAddressSignature_def validateVerificationAddSolAddressBody_def
      validateVerificationAddSolAddressSignature_def recreateSolanaClaimMessage_def
      utf8StringToBytes_def outcome_simps split: if_splits)

end
