(* ===== verification/Builders.thy ===== *)
theory Builders
  imports ValidateMessage
begin

text \<open>
  \<^verbatim>\<open>packages/core/src/builders.ts\<close> and the signer of \<^verbatim>\<open>signers/nobleEd25519Signer.ts\<close>. The data
  builders fill in the current time by assigning to the caller's options object; the model
  returns the object as it is afterwards beside the result. The lemmas show that what the
  builders return passes validation, given a signer whose signatures verify.
\<close>

record MessageDataOptions =
  mdo_fid :: number
  mdo_network :: int
  mdo_timestamp :: "int option"

record MessageSignerOptions =
  mso_signature :: "bytes option"
  mso_signatureScheme :: int
  mso_signer :: "bytes option"

record Signer =
  signer_scheme :: int
  signer_signMessageHash :: "bytes \<Rightarrow> bytes outcome"
  signer_getSignerKey :: "bytes outcome"

definition NobleEd25519Signer :: "validation_env \<Rightarrow> bytes \<Rightarrow> Signer" where
  "NobleEd25519Signer E privateKey =
     \<lparr>signer_scheme = ED25519,
      signer_signMessageHash = (\<lambda>hash. noble_sign E hash privateKey),
      signer_getSignerKey = noble_getPublicKey E privateKey\<rparr>"

section \<open>Generic methods\<close>

text \<open>\<^verbatim>\<open>MessageData.create\<close> with no body set.\<close>

definition empty_data :: MessageData where
  "empty_data =
     \<lparr>md_type = 0, md_fid = numI 0, md_timestamp = 0, md_network = 0, md_castAddBody = None,
      md_castRemoveBody = None, md_reactionBody = None, md_verificationAddAddressBody = None,
      md_verificationRemoveBody = None, md_userDataBody = None, md_linkBody = None,
      md_usernameProofBody = None, md_frameActionBody = None, md_linkCompactStateBody = None\<rparr>"

text \<open>\<^verbatim>\<open>!dataOptions.timestamp\<close> holds for an absent timestamp and for 0. If the clock fails the
  option stays as it is, and \<^verbatim>\<open>create\<close> replaces an absent timestamp by 0.\<close>

definition fill_timestamp :: "validation_env \<Rightarrow> MessageDataOptions \<Rightarrow> MessageDataOptions" where
  "fill_timestamp E opts =
     (if mdo_timestamp opts = None \<or> mdo_timestamp opts = Some 0 then
        (case getFarcasterTime (env_now E) of
           Ok t \<Rightarrow> opts\<lparr>mdo_timestamp := Some t\<rparr>
         | _ \<Rightarrow> opts)
      else opts)"

definition makeMessageData ::
  "validation_env \<Rightarrow> MessageData \<Rightarrow> int \<Rightarrow> MessageDataOptions \<Rightarrow> MessageData outcome \<times> MessageDataOptions" where
  "makeMessageData E bodyOptions messageType dataOptions =
     (let dataOptions = fill_timestamp E dataOptions;
          d = bodyOptions\<lparr>md_type := messageType, md_fid := mdo_fid dataOptions,
                md_network := mdo_network dataOptions,
                md_timestamp := (case mdo_timestamp dataOptions of Some t \<Rightarrow> t | None \<Rightarrow> 0)\<rparr>
      in (validateMessageData E d, dataOptions))"

definition makeMessage :: "validation_env \<Rightarrow> MessageData \<Rightarrow> Signer \<Rightarrow> Message outcome" where
  "makeMessage E messageData signer =
     (let hash = noble_blake3 E (encodeMessageData E messageData) in
      andThen (signer_signMessageHash signer hash) (\<lambda>signature.
      andThen (signer_getSignerKey signer) (\<lambda>signerKey.
        Ok \<lparr>msg_data = Some messageData, msg_hash = Some hash, msg_hashScheme = BLAKE3,
            msg_signature = Some signature, msg_signatureScheme = signer_scheme signer,
            msg_signer = Some signerKey, msg_dataBytes = None\<rparr>)))"

definition makeMessageHash :: "validation_env \<Rightarrow> MessageData \<Rightarrow> bytes outcome" where
  "makeMessageHash E messageData = Ok (noble_blake3 E (encodeMessageData E messageData))"

text \<open>\<^verbatim>\<open>Message.create\<close> turns an absent signature or signer into empty bytes.\<close>

definition makeMessageWithSignature ::
  "validation_env \<Rightarrow> MessageData \<Rightarrow> MessageSignerOptions \<Rightarrow> Message outcome" where
  "makeMessageWithSignature E messageData signerOptions =
     (let hash = noble_blake3 E (encodeMessageData E messageData);
          message = \<lparr>msg_data = Some messageData, msg_hash = Some hash, msg_hashScheme = BLAKE3,
            msg_signature = Some (case mso_signature signerOptions of Some s \<Rightarrow> s | None \<Rightarrow> []),
            msg_signatureScheme = mso_signatureScheme signerOptions,
            msg_signer = Some (case mso_signer signerOptions of Some k \<Rightarrow> k | None \<Rightarrow> []),
            msg_dataBytes = None\<rparr>
      in validateMessage (pureJSValidationMethods E) message)"

text \<open>The shape all typed builders share: make the data, return its error, otherwise sign.\<close>

definition sign_data ::
  "validation_env \<Rightarrow> MessageData outcome \<times> MessageDataOptions \<Rightarrow> Signer \<Rightarrow>
   Message outcome \<times> MessageDataOptions" where
  "sign_data E r signer = (andThen (fst r) (\<lambda>d. makeMessage E d signer), snd r)"

section \<open>Typed builders\<close>

definition makeCastAddData where
  "makeCastAddData E body opts = makeMessageData E (empty_data\<lparr>md_castAddBody := Some body\<rparr>) CAST_ADD opts"

definition makeCastRemoveData where
  "makeCastRemoveData E body opts =
     makeMessageData E (empty_data\<lparr>md_castRemoveBody := Some body\<rparr>) CAST_REMOVE opts"

definition makeCastAdd where
  "makeCastAdd E body opts signer = sign_data E (makeCastAddData E body opts) signer"

definition makeCastRemove where
  "makeCastRemove E body opts signer = sign_data E (makeCastRemoveData E body opts) signer"

definition makeLinkAddData where
  "makeLinkAddData E body opts = makeMessageData E (empty_data\<lparr>md_linkBody := Some body\<rparr>) LINK_ADD opts"

definition makeLinkCompactStateData where
  "makeLinkCompactStateData E body opts =
     makeMessageData E (empty_data\<lparr>md_linkCompactStateBody := Some body\<rparr>) LINK_COMPACT_STATE opts"

definition makeLinkRemoveData where
  "makeLinkRemoveData E body opts =
     makeMessageData E (empty_data\<lparr>md_linkBody := Some body\<rparr>) LINK_REMOVE opts"

definition makeLinkAdd where
  "makeLinkAdd E body opts signer = sign_data E (makeLinkAddData E body opts) signer"

definition makeLinkCompactState where
  "makeLinkCompactState E body opts signer = sign_data E (makeLinkCompactStateData E body opts) signer"

definition makeLinkRemove where
  "makeLinkRemove E body opts signer = sign_data E (makeLinkRemoveData E body opts) signer"

definition makeReactionAddData where
  "makeReactionAddData E body opts =
     makeMessageData E (empty_data\<lparr>md_reactionBody := Some body\<rparr>) REACTION_ADD opts"

definition makeReactionRemoveData where
  "makeReactionRemoveData E body opts =
     makeMessageData E (empty_data\<lparr>md_reactionBody := Some body\<rparr>) REACTION_REMOVE opts"

definition makeReactionAdd where
  "makeReactionAdd E body opts signer = sign_data E (makeReactionAddData E body opts) signer"

definition makeReactionRemove where
  "makeReactionRemove E body opts signer = sign_data E (makeReactionRemoveData E body opts) signer"

definition makeVerificationAddEthAddressData where
  "makeVerificationAddEthAddressData E body opts =
     makeMessageData E (empty_data\<lparr>md_verificationAddAddressBody := Some body\<rparr>)
       VERIFICATION_ADD_ETH_ADDRESS opts"

definition makeVerificationRemoveData where
  "makeVerificationRemoveData E body opts =
     makeMessageData E (empty_data\<lparr>md_verificationRemoveBody := Some body\<rparr>) VERIFICATION_REMOVE opts"

definition makeVerificationAddEthAddress where
  "makeVerificationAddEthAddress E body opts signer =
     sign_data E (makeVerificationAddEthAddressData E body opts) signer"

definition makeVerificationRemove where
  "makeVerificationRemove E body opts signer =
     sign_data E (makeVerificationRemoveData E body opts) signer"

definition makeUserDataAddData where
  "makeUserDataAddData E body opts =
     makeMessageData E (empty_data\<lparr>md_userDataBody := Some body\<rparr>) USER_DATA_ADD opts"

definition makeUsernameProofData where
  "makeUsernameProofData E body opts =
     makeMessageData E (empty_data\<lparr>md_usernameProofBody := Some body\<rparr>) USERNAME_PROOF opts"

definition makeFrameActionData where
  "makeFrameActionData E body opts =
     makeMessageData E (empty_data\<lparr>md_frameActionBody := Some body\<rparr>) FRAME_ACTION opts"

definition makeUserDataAdd where
  "makeUserDataAdd E body opts signer = sign_data E (makeUserDataAddData E body opts) signer"

definition makeUsernameProof where
  "makeUsernameProof E body opts signer = sign_data E (makeUsernameProofData E body opts) signer"

definition makeFrameAction where
  "makeFrameAction E body opts signer = sign_data E (makeFrameActionData E body opts) signer"

lemmas builder_defs =
  makeCastAdd_def makeCastRemove_def makeLinkAdd_def makeLinkCompactState_def makeLinkRemove_def
  makeReactionAdd_def makeReactionRemove_def makeVerificationAddEthAddress_def
  makeVerificationRemove_def makeUserDataAdd_def makeUsernameProof_def makeFrameAction_def

section \<open>Built messages validate\<close>

text \<open>The contract of a signer for the verifier in use: its signatures verify under its key.\<close>

definition signer_sound :: "validation_env \<Rightarrow> Signer \<Rightarrow> bool" where
  "signer_sound E signer \<longleftrightarrow>
     signer_scheme signer = ED25519 \<and>
     (\<forall>hash s k. signer_signMessageHash signer hash = Ok s \<longrightarrow> signer_getSignerKey signer = Ok k \<longrightarrow>
        ed25519_verify E s hash k)"

lemma makeMessageData_returns: "fst (makeMessageData E b t opts) = Ok d \<Longrightarrow> validateMessageData E d = Ok d"
  by (auto simp: makeMessageData_def Let_def validateMessageData_Ok)

lemma makeMessage_validates:
  assumes "validateMessageData E d = Ok d" "makeMessage E d signer = Ok m"
    and "signer_sound E signer" "blake3_20 E = noble_blake3 E"
  shows "validateMessage E m = Ok m"
  using assms
  by (auto simp: makeMessage_def Let_def outcome_simps validateMessage_Ok hashed_bytes_def
      signer_sound_def)

lemma sign_data_validates:
  assumes "fst (sign_data E (makeMessageData E b t opts) signer) = Ok m"
    and "signer_sound E signer" "blake3_20 E = noble_blake3 E"
  shows "validateMessage E m = Ok m"
proof -
  from assms(1) obtain d where d: "fst (makeMessageData E b t opts) = Ok d" "makeMessage E d signer = Ok m"
    by (auto simp: sign_data_def outcome_simps)
  from makeMessageData_returns[OF d(1)] d(2) assms(2,3) show ?thesis
    by (rule makeMessage_validates)
qed

lemmas data_builder_defs =
  makeCastAddData_def makeCastRemoveData_def makeLinkAddData_def makeLinkCompactStateData_def
  makeLinkRemoveData_def makeReactionAddData_def makeReactionRemoveData_def
  makeVerificationAddEthAddressData_def makeVerificationRemoveData_def makeUserDataAddData_def
  makeUsernameProofData_def makeFrameActionData_def

text \<open>A message signed under another scheme is never accepted.\<close>

lemma makeMessage_other_scheme:
  assumes "makeMessage E d signer = Ok m" "signer_scheme signer \<noteq> ED25519"
  shows "validateMessage E m \<noteq> Ok m'"
  using assms by (auto simp: makeMessage_def Let_def outcome_simps validateMessage_Ok)

text \<open>The options object keeps the timestamp of the first message made with it.\<close>

lemma makeMessageData_reuses_timestamp:
  assumes "makeMessageData E b t opts = (r, opts')" "mdo_timestamp opts' = Some ts" "ts \<noteq> 0"
  shows "snd (makeMessageData E' b' t' opts') = opts' \<and>
         (\<forall>d. fst (makeMessageData E' b' t' opts') = Ok d \<longrightarrow> md_timestamp d = ts)"
  using assms(2,3)
  by (auto simp: makeMessageData_def fill_timestamp_def Let_def validateMessageData_Ok)

end
