(* ===== verification/RocksDb.thy ===== *)
theory RocksDb
  imports Builders
begin

text \<open>
  \<^verbatim>\<open>storage/db/rocksdb.ts\<close>, the database half of \<^verbatim>\<open>rustfunctions.ts\<close>, and the part of the native
  \<^verbatim>\<open>addon/src/db/rocksdb.rs\<close> they call. The stored data is a list of key-value pairs in strictly
  ascending key order, which is what RocksDB's iterators see. The interface \<open>kv_store\<close> states
  what clients of a store may rely on; the sorted list is its instance. Iteration over a prefix
  or a range fetches pages and hands their entries to a callback; the callback of the model is
  a state transformer, and the database does not change while an iteration runs.
\<close>

section \<open>The interface of a key-value store\<close>

locale kv_store =
  fixes empty_store :: 's
    and lookup :: "'s \<Rightarrow> 'k \<Rightarrow> 'v option"
    and insert_kv :: "'k \<Rightarrow> 'v \<Rightarrow> 's \<Rightarrow> 's"
    and delete_kv :: "'k \<Rightarrow> 's \<Rightarrow> 's"
    and invar :: "'s \<Rightarrow> bool"
  assumes invar_empty: "invar empty_store"
    and invar_insert: "invar s \<Longrightarrow> invar (insert_kv k v s)"
    and invar_delete: "invar s \<Longrightarrow> invar (delete_kv k s)"
    and lookup_empty: "lookup empty_store k = None"
    and lookup_insert: "invar s \<Longrightarrow> lookup (insert_kv k v s) k' = (if k' = k then Some v else lookup s k')"
    and lookup_delete: "invar s \<Longrightarrow> lookup (delete_kv k s) k' = (if k' = k then None else lookup s k')"
    and extensional: "invar s \<Longrightarrow> invar t \<Longrightarrow> lookup s = lookup t \<Longrightarrow> s = t"
begin

definition apply_op :: "'k \<times> 'v option \<Rightarrow> 's \<Rightarrow> 's" where
  "apply_op op s = (case snd op of Some v \<Rightarrow> insert_kv (fst op) v s | None \<Rightarrow> delete_kv (fst op) s)"

definition apply_ops :: "('k \<times> 'v option) list \<Rightarrow> 's \<Rightarrow> 's" where
  "apply_ops ops s = fold apply_op ops s"

lemma invar_apply_op: "invar s \<Longrightarrow> invar (apply_op op s)"
  by (simp add: apply_op_def invar_insert invar_delete split: option.split)

lemma lookup_apply_op:
  "invar s \<Longrightarrow> lookup (apply_op op s) k = (if k = fst op then snd op else lookup s k)"
  by (simp add: apply_op_def lookup_insert lookup_delete split: option.split)

lemma invar_apply_ops: "invar s \<Longrightarrow> invar (apply_ops ops s)"
  by (induction ops arbitrary: s) (simp_all add: apply_ops_def invar_apply_op)

text \<open>After a list of writes a key holds what its last write gave it.\<close>

lemma lookup_apply_ops:
  "invar s \<Longrightarrow>
   lookup (apply_ops ops s) k = (case map_of (rev ops) k of Some r \<Rightarrow> r | None \<Rightarrow> lookup s k)"
proof (induction ops arbitrary: s)
  case Nil
  then show ?case by (simp add: apply_ops_def)
next
  case (Cons op ops)
  have "lookup (apply_ops (op # ops) s) k = lookup (apply_ops ops (apply_op op s)) k"
    by (simp add: apply_ops_def)
  also have "\<dots> = (case map_of (rev ops) k of Some r \<Rightarrow> r | None \<Rightarrow> lookup (apply_op op s) k)"
    using Cons by (simp add: invar_apply_op)
  finally show ?case
    using Cons.prems by (cases op) (auto simp: lookup_apply_op map_add_def split: option.split)
qed

text \<open>Two batches that give every key the same last write have the same effect.\<close>

lemma apply_ops_same:
  "invar s \<Longrightarrow> map_of (rev ops) = map_of (rev ops') \<Longrightarrow> apply_ops ops s = apply_ops ops' s"
  by (rule extensional) (auto simp: invar_apply_ops lookup_apply_ops)

end

section \<open>The store\<close>

type_synonym key_value = "bytes \<times> bytes"
type_synonym store = "key_value list"

fun db_put :: "bytes \<Rightarrow> bytes \<Rightarrow> store \<Rightarrow> store" where
  "db_put k v [] = [(k, v)]"
| "db_put k v ((k', v') # s) =
     (if k < k' then (k, v) # (k', v') # s
      else if k = k' then (k, v) # s
      else (k', v') # db_put k v s)"

definition db_del :: "bytes \<Rightarrow> store \<Rightarrow> store" where
  "db_del k s = filter (\<lambda>e. fst e \<noteq> k) s"

definition db_get :: "store \<Rightarrow> bytes \<Rightarrow> bytes option" where
  "db_get s k = map_of s k"

definition db_inv :: "store \<Rightarrow> bool" where
  "db_inv s = sorted_wrt (<) (map fst s)"

lemma db_put_keys: "set (map fst (db_put k v s)) = insert k (set (map fst s))"
  by (induction k v s rule: db_put.induct) auto

lemma db_inv_put: "db_inv s \<Longrightarrow> db_inv (db_put k v s)"
proof (induction k v s rule: db_put.induct)
  case (1 k v)
  then show ?case by (simp add: db_inv_def)
next
  case (2 k v k' v' s)
  have "k' < x" if "\<not> k < k'" "k \<noteq> k'" "x \<in> set (map fst (db_put k v s))" for x
  proof -
    from that(3) have "x = k \<or> x \<in> set (map fst s)" by (simp only: db_put_keys insert_iff)
    moreover from "2.prems" have "\<forall>x \<in> set (map fst s). k' < x" by (simp add: db_inv_def)
    ultimately show ?thesis using that(1,2) by auto
  qed
  with 2 show ?case
    by (auto simp: db_inv_def)
qed

lemma db_inv_del: "db_inv s \<Longrightarrow> db_inv (db_del k s)"
  by (induction s) (auto simp: db_inv_def db_del_def)

lemma db_get_put: "db_inv s \<Longrightarrow> db_get (db_put k v s) k' = (if k' = k then Some v else db_get s k')"
  by (induction k v s rule: db_put.induct) (auto simp: db_get_def db_inv_def)

lemma db_get_del: "db_get (db_del k s) k' = (if k' = k then None else db_get s k')"
  by (induction s) (auto simp: db_get_def db_del_def)

lemma db_inv_distinct: "db_inv s \<Longrightarrow> distinct (map fst s)"
  by (simp add: db_inv_def strict_sorted_iff)

lemma db_inv_ext:
  assumes "db_inv s" "db_inv t" "db_get s = db_get t"
  shows "s = t"
proof -
  have sets: "set s = set t"
    using assms db_inv_distinct by (metis db_get_def map_of_inject_set ext)
  have "inj_on fst (set s)"
    using db_inv_distinct[OF assms(1)] by (simp add: distinct_map)
  with sets have "inj_on fst (set s \<union> set t)" by simp
  with assms(1,2) sets show ?thesis
    by (intro map_sorted_distinct_set_unique[of fst]) (simp_all add: db_inv_def strict_sorted_iff)
qed

interpretation db: kv_store "[]" db_get db_put db_del db_inv
proof
  show "db_get [] k = None" for k by (simp add: db_get_def)
  show "db_inv []" by (simp add: db_inv_def)
qed (simp_all add: db_inv_put db_inv_del db_get_put db_get_del db_inv_ext)


section \<open>Errors of the native code\<close>

text \<open>A native error arrives as an exception whose message is the code, a slash and the message. A
  panic (the database is not open) arrives as an exception with neon's message.\<close>

definition native_error :: "string \<Rightarrow> js_string \<Rightarrow> js_exn" where
  "native_error code m = JsError (lit code @ lit ''/'' @ m)"

definition native_panic :: js_exn where
  "native_panic = JsError (lit ''internal error in Neon module'')"

definition HubErrorCode_strings :: "(js_string \<times> hub_error_code) list" where
  "HubErrorCode_strings =
     [(lit ''unauthenticated'', Unauthenticated), (lit ''unauthorized'', Unauthorized),
      (lit ''bad_request'', BadRequest), (lit ''bad_request.parse_failure'', ParseFailure),
      (lit ''bad_request.invalid_param'', InvalidParam),
      (lit ''bad_request.validation_failure'', ValidationFailure),
      (lit ''bad_request.unknown_signer'', UnknownSigner), (lit ''bad_request.no_storage'', NoStorage),
      (lit ''bad_request.unknown_fid'', UnknownFid), (lit ''bad_request.duplicate'', Duplicate), (lit ''bad_request.conflict'', Conflict),
      (lit ''bad_request.prunable'', Prunable), (lit ''not_found'', NotFound),
      (lit ''not_implemented'', NotImplemented),
      (lit ''not_implemented.deprecated'', NotImplementedDeprecated),
      (lit ''unavailable'', Unavailable), (lit ''unavailable.network_failure'', NetworkFailure),
      (lit ''unavailable.storage_failure'', StorageFailure), (lit ''unknown'', UnknownError)]"

definition error_code_of :: "js_string \<Rightarrow> hub_error_code" where
  "error_code_of s = (case map_of HubErrorCode_strings s of Some c \<Rightarrow> c | None \<Rightarrow> OtherCode s)"

text \<open>Only the first two parts around slashes are used.\<close>

definition rustErrorToHubError :: "js_exn \<Rightarrow> hub_error" where
  "rustErrorToHubError e =
     (let parts = split_on 47 (exn_message e)
      in new_HubError (error_code_of (hd parts))
           (CtxString (case tl parts of m # _ \<Rightarrow> m | [] \<Rightarrow> [])))"

lemma rustErrorToHubError_native:
  "47 \<notin> set (lit code) \<Longrightarrow> 47 \<notin> set m \<Longrightarrow>
   rustErrorToHubError (native_error code m) = new_HubError (error_code_of (lit code)) (CtxString m)"
  by (simp add: rustErrorToHubError_def native_error_def lit_Cons split_on_append split_on_notin)

section \<open>The database object\<close>

datatype db_status = DbNew | DbOpening | DbOpen | DbClosing | DbClosed

record rocksdb =
  rdb_status :: db_status
  rdb_native_open :: bool
  rdb_disk :: store

definition new_RocksDB :: "store \<Rightarrow> rocksdb" where
  "new_RocksDB disk = \<lparr>rdb_status = DbNew, rdb_native_open = False, rdb_disk = disk\<rparr>"

text \<open>Opening a native database that is already open would take the file lock twice; the status
  check of \<^verbatim>\<open>open\<close> prevents it.\<close>

definition RocksDB_open :: "rocksdb \<Rightarrow> unit outcome \<times> rocksdb" where
  "RocksDB_open db =
     (case rdb_status db of
        DbOpening \<Rightarrow> (Throw (JsError (lit ''db is opening'')), db)
      | DbClosing \<Rightarrow> (Throw (JsError (lit ''db is closing'')), db)
      | DbOpen \<Rightarrow> (Ok (), db)
      | _ \<Rightarrow> (Ok (), db\<lparr>rdb_status := DbOpen, rdb_native_open := True\<rparr>))"

definition RocksDB_close :: "rocksdb \<Rightarrow> rocksdb" where
  "RocksDB_close db = db\<lparr>rdb_native_open := False, rdb_status := DbClosed\<rparr>"

definition RocksDB_destroy :: "rocksdb \<Rightarrow> rocksdb" where
  "RocksDB_destroy db =
     (let db = (if rdb_status db = DbOpen then RocksDB_close db else db)
      in db\<lparr>rdb_native_open := False, rdb_disk := []\<rparr>)"

definition RocksDB_clear :: "rocksdb \<Rightarrow> unit outcome \<times> rocksdb" where
  "RocksDB_clear db =
     (if rdb_native_open db then (Ok (), db\<lparr>rdb_disk := []\<rparr>) else (Throw native_panic, db))"

definition when_open :: "rocksdb \<Rightarrow> 'a outcome \<Rightarrow> 'a outcome" where
  "when_open db r = (if rdb_native_open db then r else Throw native_panic)"

text \<open>\<^verbatim>\<open>ResultAsync.fromPromise(..., rustErrorToHubError)\<close>, then \<^verbatim>\<open>throw v.error\<close> on an error.\<close>

definition rethrow :: "'a outcome \<Rightarrow> 'a outcome" where
  "rethrow r = throwErr (fromPromise r rustErrorToHubError)"

definition RocksDB_put :: "rocksdb \<Rightarrow> bytes \<Rightarrow> bytes \<Rightarrow> unit outcome \<times> rocksdb" where
  "RocksDB_put db key value =
     (if rdb_native_open db then (Ok (), db\<lparr>rdb_disk := db_put key value (rdb_disk db)\<rparr>)
      else (rethrow (Throw native_panic), db))"

definition RocksDB_del :: "rocksdb \<Rightarrow> bytes \<Rightarrow> unit outcome \<times> rocksdb" where
  "RocksDB_del db key =
     (if rdb_native_open db then (Ok (), db\<lparr>rdb_disk := db_del key (rdb_disk db)\<rparr>)
      else (rethrow (Throw native_panic), db))"

text \<open>Rust's debug format of a byte vector.\<close>

definition debug_bytes :: "bytes \<Rightarrow> js_string" where
  "debug_bytes bs = lit ''['' @ join (lit '', '') (map (\<lambda>b. nat_to_string 10 (unat b)) bs) @ lit '']''"

definition key_not_found :: "bytes \<Rightarrow> js_exn" where
  "key_not_found key = native_error ''not_found'' (lit ''NotFound: key not found: '' @ debug_bytes key)"

definition RocksDB_get :: "rocksdb \<Rightarrow> bytes \<Rightarrow> bytes outcome" where
  "RocksDB_get db key =
     rethrow (when_open db (case db_get (rdb_disk db) key of
                              Some v \<Rightarrow> Ok v
                            | None \<Rightarrow> Throw (key_not_found key)))"

definition RocksDB_keysExist :: "rocksdb \<Rightarrow> bytes list \<Rightarrow> bool list outcome" where
  "RocksDB_keysExist db keys =
     fromPromise (when_open db (Ok (map (\<lambda>k. db_get (rdb_disk db) k \<noteq> None) keys))) rustErrorToHubError"

text \<open>A missing key comes back as an empty buffer, which the bridge turns into \<^verbatim>\<open>undefined\<close>; so does
  a key with an empty value.\<close>

definition rsDbGetMany :: "rocksdb \<Rightarrow> bytes list \<Rightarrow> bytes option list outcome" where
  "rsDbGetMany db keys =
     when_open db
       (Ok (map (\<lambda>k. let r = (case db_get (rdb_disk db) k of Some v \<Rightarrow> v | None \<Rightarrow> [])
                     in if r = [] then None else Some r) keys))"

definition RocksDB_getMany :: "rocksdb \<Rightarrow> bytes list \<Rightarrow> bytes option list outcome" where
  "RocksDB_getMany db keys = rethrow (rsDbGetMany db keys)"

section \<open>Transactions\<close>

text \<open>A transaction is the list of its operations in call order; a deletion has no value.\<close>

type_synonym transaction = "(bytes \<times> bytes option) list"

definition txn_put :: "transaction \<Rightarrow> bytes \<Rightarrow> bytes \<Rightarrow> transaction" where
  "txn_put t key value = t @ [(key, Some value)]"

definition txn_del :: "transaction \<Rightarrow> bytes \<Rightarrow> transaction" where
  "txn_del t key = t @ [(key, None)]"

text \<open>The native side collects the operations in a hash map, so that a later one replaces an
  earlier one on the same key; an empty value is a deletion.\<close>

definition native_op :: "bytes \<times> bytes option \<Rightarrow> bytes \<times> bytes option" where
  "native_op op = (fst op, case snd op of Some v \<Rightarrow> if v = [] then None else Some v | None \<Rightarrow> None)"

fun batch_insert :: "'k \<times> 'v \<Rightarrow> ('k \<times> 'v) list \<Rightarrow> ('k \<times> 'v) list" where
  "batch_insert op [] = [op]"
| "batch_insert op (x # xs) = (if fst x = fst op then op # xs else x # batch_insert op xs)"

definition batch_of :: "transaction \<Rightarrow> transaction" where
  "batch_of t = fold (\<lambda>op b. batch_insert (native_op op) b) t []"

definition commit_batch :: "transaction \<Rightarrow> store \<Rightarrow> store" where
  "commit_batch b s =
     fold (\<lambda>op s. case snd op of Some v \<Rightarrow> db_put (fst op) v s | None \<Rightarrow> db_del (fst op) s) b s"

definition RocksDB_commit :: "rocksdb \<Rightarrow> transaction \<Rightarrow> unit outcome \<times> rocksdb" where
  "RocksDB_commit db tsx =
     (if rdb_native_open db then (Ok (), db\<lparr>rdb_disk := commit_batch (batch_of tsx) (rdb_disk db)\<rparr>)
      else (Throw (native_error ''db.internal_error'' (lit ''Database is not open'')), db))"

lemma commit_batch_ops: "commit_batch b s = db.apply_ops b s"
proof -
  have "(\<lambda>op s. case snd op of Some v \<Rightarrow> db_put (fst op) v s | None \<Rightarrow> db_del (fst op) s) = db.apply_op"
    by (intro ext) (simp add: db.apply_op_def)
  then show ?thesis by (simp add: commit_batch_def db.apply_ops_def)
qed

lemma map_of_batch_insert:
  "map_of (batch_insert op b) = (map_of b)(fst op \<mapsto> snd op)"
  by (induction b) (auto simp: fun_eq_iff)

lemma batch_insert_keys: "fst ` set (batch_insert op b) = insert (fst op) (fst ` set b)"
  by (induction b) auto

lemma batch_insert_distinct: "distinct (map fst b) \<Longrightarrow> distinct (map fst (batch_insert op b))"
proof (induction b)
  case Nil
  then show ?case by simp
next
  case (Cons x b)
  then show ?case using batch_insert_keys[of op b] by (auto simp: image_iff)
qed

lemma batch_of_distinct: "distinct (map fst (batch_of t))"
proof -
  have "distinct (map fst b) \<Longrightarrow> distinct (map fst (fold (\<lambda>op b. batch_insert (native_op op) b) t b))" for b
    by (induction t arbitrary: b) (simp_all add: batch_insert_distinct)
  then show ?thesis by (simp add: batch_of_def)
qed

lemma map_of_batch_of: "map_of (batch_of t) = map_of (rev (map native_op t))"
proof -
  have "map_of (fold (\<lambda>op b. batch_insert (native_op op) b) t b) = map_of b ++ map_of (rev (map native_op t))" for b
  proof (induction t arbitrary: b)
    case Nil
    then show ?case by simp
  next
    case (Cons op t)
    then show ?case
      by (simp add: map_of_batch_insert map_add_assoc [symmetric])
        (simp add: map_add_def fun_eq_iff split: option.split)
  qed
  then show ?thesis by (simp add: batch_of_def)
qed

lemma map_of_rev_distinct: "distinct (map fst b) \<Longrightarrow> map_of (rev b) = map_of b"
  by (intro map_of_inject_set[THEN iffD2]) (simp_all add: rev_map [symmetric])

text \<open>Committing is applying the operations one after the other.\<close>

lemma commit_sequential:
  "db_inv s \<Longrightarrow> commit_batch (batch_of t) s = db.apply_ops (map native_op t) s"
  unfolding commit_batch_ops
  by (intro db.apply_ops_same) (simp_all add: map_of_rev_distinct batch_of_distinct map_of_batch_of)

lemma commit_inv: "db_inv s \<Longrightarrow> db_inv (commit_batch b s)"
  by (simp add: commit_batch_ops db.invar_apply_ops)

lemma commit_get:
  "db_inv s \<Longrightarrow>
   db_get (commit_batch (batch_of t) s) k =
     (case map_of (rev (map native_op t)) k of Some r \<Rightarrow> r | None \<Rightarrow> db_get s k)"
  by (simp add: commit_sequential db.lookup_apply_ops)

end
