(* ===== verification/DbIterator.thy ===== *)
theory DbIterator
  imports RocksDb
begin

text \<open>
  Iteration: the bounds and the page fetching of \<^verbatim>\<open>addon/src/db/rocksdb.rs\<close>, and the paging loops
  \<open>rsDbForEachIteratorByPrefix\<close> and \<open>rsDbForEachIteratorByOpts\<close> of \<^verbatim>\<open>rustfunctions.ts\<close>. The loops
  run until the native side says it is done, with fuel here; the main results say that one more
  unit of fuel than the range has entries is enough, and that the callback then sees exactly the
  entries a single scan of the range would give it.
\<close>

section \<open>Increments of the native side\<close>

fun inc_carry :: "bytes \<Rightarrow> bytes \<times> bool" where
  "inc_carry [] = ([], True)"
| "inc_carry (b # bs) =
     (if b = 255 then (case inc_carry bs of (r, c) \<Rightarrow> (0 # r, c)) else ((b + 1) # bs, False))"

definition increment_vec_u8 :: "bytes \<Rightarrow> bytes" where
  "increment_vec_u8 v =
     (case inc_carry (rev v) of (r, carry) \<Rightarrow> if carry then 1 # rev r else rev r)"

lemma inc_from_carry:
  "inc_from (length xs) (xs @ ys) =
   Ok (case inc_carry (rev xs) of (r, c) \<Rightarrow> (if c then [1] else []) @ rev r @ ys)"
proof (induction xs arbitrary: ys rule: rev_induct)
  case Nil
  then show ?case by simp
next
  case (snoc x xs)
  have lt: "x < 255 \<longleftrightarrow> x \<noteq> 255"
    using uint_byte_bound[of x] by (auto simp: word_less_def word_uint_eq_iff)
  from snoc[of "0 # ys"] show ?case
    by (auto simp: lt nth_append list_update_append split: prod.splits)
qed

lemma increment_vec_u8_bytesIncrement: "bytesIncrement v = Ok (increment_vec_u8 v)"
  using inc_from_carry[of v "[]"]
  by (simp add: bytesIncrement_def increment_vec_u8_def split: prod.split)

section \<open>Ranges\<close>

definition db_range :: "bytes \<Rightarrow> bytes \<Rightarrow> store \<Rightarrow> store" where
  "db_range lo hi s = filter (\<lambda>e. lo \<le> fst e \<and> fst e < hi) s"

record page_options =
  po_pageToken :: "bytes option"
  po_pageSize :: "nat option"
  po_reverse :: bool

definition no_page_options :: page_options where
  "no_page_options = \<lparr>po_pageToken = None, po_pageSize = None, po_reverse = False\<rparr>"

text \<open>\<^verbatim>\<open>get_page_options\<close> reads an empty token as none.\<close>

definition page_token :: "page_options \<Rightarrow> bytes option" where
  "page_token opts = (case po_pageToken opts of Some t \<Rightarrow> if t = [] then None else Some t | None \<Rightarrow> None)"

text \<open>The lower (inclusive) and upper (exclusive) bound of a scan.\<close>

definition get_iterator_options :: "bytes \<Rightarrow> page_options \<Rightarrow> bytes \<times> bytes" where
  "get_iterator_options pre opts =
     (if pre = [] then
        (if po_reverse opts then
           ([], case page_token opts of None \<Rightarrow> replicate 32 255 | Some t \<Rightarrow> t)
         else
           ((case page_token opts of None \<Rightarrow> [] | Some t \<Rightarrow> increment_vec_u8 t), replicate 32 255))
      else if po_reverse opts then
        (pre, case page_token opts of Some t \<Rightarrow> pre @ t | None \<Rightarrow> increment_vec_u8 pre)
      else
        ((case page_token opts of Some t \<Rightarrow> increment_vec_u8 (pre @ t) | None \<Rightarrow> pre),
         increment_vec_u8 pre))"

definition scan_by_prefix :: "store \<Rightarrow> bytes \<Rightarrow> page_options \<Rightarrow> store" where
  "scan_by_prefix s pre opts =
     (let (lo, hi) = get_iterator_options pre opts;
          r = db_range lo hi s
      in if po_reverse opts then rev r else r)"

definition RocksDB_countKeysAtPrefix :: "rocksdb \<Rightarrow> bytes \<Rightarrow> nat outcome" where
  "RocksDB_countKeysAtPrefix db pre =
     when_open db (Ok (length (scan_by_prefix (rdb_disk db) pre no_page_options)))"

section \<open>Iteration by prefix\<close>

definition PAGE_SIZE_MAX :: nat where
  "PAGE_SIZE_MAX = 10000"

record page =
  pg_dbKeyValues :: store
  pg_nextPageToken :: bytes
  pg_allFinished :: bool

text \<open>The native loop that collects a page: it stops after more than \<open>pageMax\<close> entries, which is not
  the end, or when the caller's page size is reached, which counts as the end.\<close>

fun collect_page :: "nat \<Rightarrow> bytes \<Rightarrow> nat option \<Rightarrow> store \<Rightarrow> store \<Rightarrow> page" where
  "collect_page pageMax pre sz acc [] =
     \<lparr>pg_dbKeyValues = acc, pg_nextPageToken = [], pg_allFinished = True\<rparr>"
| "collect_page pageMax pre sz acc (kv # r) =
     (let acc = acc @ [kv] in
      if length acc > pageMax then
        \<lparr>pg_dbKeyValues = acc, pg_nextPageToken = drop (length pre) (fst kv), pg_allFinished = False\<rparr>
      else
        (case sz of
           Some n \<Rightarrow>
             if length acc \<ge> n then
               \<lparr>pg_dbKeyValues = acc, pg_nextPageToken = [], pg_allFinished = True\<rparr>
             else collect_page pageMax pre sz acc r
         | None \<Rightarrow> collect_page pageMax pre sz acc r))"

definition dbFetchIteratorPageByPrefix :: "nat \<Rightarrow> store \<Rightarrow> bytes \<Rightarrow> page_options \<Rightarrow> page" where
  "dbFetchIteratorPageByPrefix pageMax s pre opts =
     collect_page pageMax pre (po_pageSize opts) [] (scan_by_prefix s pre opts)"

text \<open>A callback takes the caller's state, a key and a value, and says whether to stop; it may
  throw.\<close>

type_synonym 'st callback = "'st \<Rightarrow> bytes \<Rightarrow> bytes \<Rightarrow> ('st \<times> bool) outcome"

fun feed :: "'st callback \<Rightarrow> store \<Rightarrow> 'st \<Rightarrow> ('st \<times> bool) outcome" where
  "feed cb [] st = Ok (st, False)"
| "feed cb ((k, v) # kvs) st =
     andThen (cb st k v) (\<lambda>(st, stop). if stop then Ok (st, True) else feed cb kvs st)"

text \<open>The paging loop. A buffer is truthy even when it is empty, so the last conjunct of the loop
  condition always holds. \<open>None\<close>: out of fuel.\<close>

fun forEach_prefix_loop ::
  "nat \<Rightarrow> nat \<Rightarrow> store \<Rightarrow> bytes \<Rightarrow> page_options \<Rightarrow> page_options \<Rightarrow> 'st callback \<Rightarrow> 'st \<Rightarrow>
   ('st \<times> bool) outcome option" where
  "forEach_prefix_loop 0 pageMax s pre pageOptions batch cb st = None"
| "forEach_prefix_loop (Suc fuel) pageMax s pre pageOptions batch cb st =
     (let result = dbFetchIteratorPageByPrefix pageMax s pre batch in
      case feed cb (pg_dbKeyValues result) st of
        Ok (st, stopped) \<Rightarrow>
          if \<not> pg_allFinished result \<and> \<not> stopped then
            forEach_prefix_loop fuel pageMax s pre pageOptions
              (pageOptions\<lparr>po_pageToken := Some (pg_nextPageToken result)\<rparr>) cb st
          else Some (Ok (st, \<not> stopped \<and> pg_allFinished result))
      | Err e \<Rightarrow> Some (Err e)
      | Throw t \<Rightarrow> Some (Throw t))"

definition rsDbForEachIteratorByPrefix ::
  "nat \<Rightarrow> store \<Rightarrow> bytes \<Rightarrow> page_options \<Rightarrow> 'st callback \<Rightarrow> 'st \<Rightarrow> ('st \<times> bool) outcome option" where
  "rsDbForEachIteratorByPrefix fuel s pre pageOptions cb st =
     forEach_prefix_loop fuel PAGE_SIZE_MAX s pre pageOptions pageOptions cb st"

definition RocksDB_forEachIteratorByPrefix ::
  "nat \<Rightarrow> rocksdb \<Rightarrow> bytes \<Rightarrow> page_options \<Rightarrow> 'st callback \<Rightarrow> 'st \<Rightarrow> ('st \<times> bool) outcome option" where
  "RocksDB_forEachIteratorByPrefix fuel db pre pageOptions cb st =
     (if rdb_native_open db then rsDbForEachIteratorByPrefix fuel (rdb_disk db) pre pageOptions cb st
      else Some (Throw native_panic))"

section \<open>Iteration by options\<close>

record iterator_options =
  io_gte :: "bytes option"
  io_gt :: "bytes option"
  io_lt :: "bytes option"
  io_reverse :: bool

text \<open>The entries the native iterator visits, in order. With \<open>gt\<close> the first visited key is skipped
  by \<^verbatim>\<open>next()\<close> when it is the bound; in reverse order the first visited key is the last of the
  range, and \<^verbatim>\<open>next()\<close> from there ends the iteration.\<close>

definition entries_by_jsopts :: "store \<Rightarrow> iterator_options \<Rightarrow> store outcome" where
  "entries_by_jsopts s opts =
     (case io_lt opts of
        None \<Rightarrow> Throw TypeError
      | Some upper \<Rightarrow>
          (case (io_gte opts, io_gt opts) of
             (Some a, Some b) \<Rightarrow>
               Throw (native_error ''db.invalid_iterator_options''
                        (lit ''gte and gt cannot be set at the same time''))
           | (None, None) \<Rightarrow>
               Throw (native_error ''db.invalid_iterator_options'' (lit ''gte or gt must be set''))
           | (Some lo, None) \<Rightarrow>
               Ok (let r = db_range lo upper s in if io_reverse opts then rev r else r)
           | (None, Some lo) \<Rightarrow>
               Ok (let r = db_range lo upper s in
                   if io_reverse opts then
                     (if r \<noteq> [] \<and> fst (last r) = lo then [] else rev r)
                   else (case r of (k, v) # r' \<Rightarrow> if k = lo then r' else r | [] \<Rightarrow> []))))"

definition RocksDB_deleteAllKeysInRange :: "rocksdb \<Rightarrow> iterator_options \<Rightarrow> bool outcome \<times> rocksdb" where
  "RocksDB_deleteAllKeysInRange db opts =
     (if rdb_native_open db then
        (case entries_by_jsopts (rdb_disk db) opts of
           Ok kvs \<Rightarrow> (Ok True, db\<lparr>rdb_disk := fold (\<lambda>e s. db_del (fst e) s) kvs (rdb_disk db)\<rparr>)
         | Err e \<Rightarrow> (Err e, db)
         | Throw t \<Rightarrow> (Throw t, db))
      else (Throw native_panic, db))"

text \<open>One round: the native iterator pushes entries until there are \<open>batchPageSize\<close> of them, and the
  key of the last one is the next token; the token of an earlier round stays otherwise.\<close>

fun take_batch :: "nat \<Rightarrow> store \<Rightarrow> store \<Rightarrow> store \<times> bytes option" where
  "take_batch n acc [] = (acc, None)"
| "take_batch n acc (kv # r) =
     (let acc = acc @ [kv] in
      if length acc \<ge> n then (acc, Some (fst kv)) else take_batch n acc r)"

definition batch_options :: "iterator_options \<Rightarrow> bytes option \<Rightarrow> iterator_options" where
  "batch_options opts token =
     (case token of
        None \<Rightarrow> opts
      | Some t \<Rightarrow> if io_reverse opts then opts\<lparr>io_lt := Some t\<rparr> else opts\<lparr>io_gt := Some t, io_gte := None\<rparr>)"

fun forEach_opts_loop ::
  "nat \<Rightarrow> nat \<Rightarrow> store \<Rightarrow> iterator_options \<Rightarrow> bytes option \<Rightarrow> 'st callback \<Rightarrow> 'st \<Rightarrow>
   ('st \<times> bool) outcome option" where
  "forEach_opts_loop 0 n s opts token cb st = None"
| "forEach_opts_loop (Suc fuel) n s opts token cb st =
     (case entries_by_jsopts s (batch_options opts token) of
        Err e \<Rightarrow> Some (Err e)
      | Throw t \<Rightarrow> Some (Throw t)
      | Ok kvs \<Rightarrow>
          (let (batch, stopKey) = take_batch n [] kvs;
               allFinished = (stopKey = None);
               token = (case stopKey of Some k \<Rightarrow> Some k | None \<Rightarrow> token)
           in case feed cb batch st of
                Ok (st, stopped) \<Rightarrow>
                  if \<not> allFinished \<and> \<not> stopped \<and> token \<noteq> None then
                    forEach_opts_loop fuel n s opts token cb st
                  else Some (Ok (st, \<not> stopped \<and> allFinished))
              | Err e \<Rightarrow> Some (Err e)
              | Throw t \<Rightarrow> Some (Throw t)))"

definition rsDbForEachIteratorByOpts ::
  "nat \<Rightarrow> store \<Rightarrow> iterator_options \<Rightarrow> 'st callback \<Rightarrow> nat option \<Rightarrow> 'st \<Rightarrow>
   ('st \<times> bool) outcome option" where
  "rsDbForEachIteratorByOpts fuel s opts cb overridePageSize st =
     forEach_opts_loop fuel (case overridePageSize of Some n \<Rightarrow> n | None \<Rightarrow> PAGE_SIZE_MAX) s opts None cb st"

definition RocksDB_forEachIteratorByOpts ::
  "nat \<Rightarrow> rocksdb \<Rightarrow> iterator_options \<Rightarrow> 'st callback \<Rightarrow> 'st \<Rightarrow> ('st \<times> bool) outcome option" where
  "RocksDB_forEachIteratorByOpts fuel db opts cb st =
     (if rdb_native_open db then rsDbForEachIteratorByOpts fuel (rdb_disk db) opts cb None st
      else Some (Throw native_panic))"

section \<open>Facts about feeding\<close>

lemma feed_append:
  "feed cb (xs @ ys) st =
   andThen (feed cb xs st) (\<lambda>(st', stop). if stop then Ok (st', True) else feed cb ys st')"
proof (induction cb xs st rule: feed.induct)
  case (1 cb st)
  then show ?case by simp
next
  case (2 cb k v kvs st)
  show ?case
  proof (cases "cb st k v")
    case (Ok r)
    then show ?thesis using 2 by (cases r) auto
  qed auto
qed

text \<open>What a single pass over the entries gives: the callback's final state, and whether it ran to
  the end.\<close>

definition single_pass :: "'st callback \<Rightarrow> store \<Rightarrow> 'st \<Rightarrow> ('st \<times> bool) outcome" where
  "single_pass cb kvs st = mapOk (feed cb kvs st) (\<lambda>(st', stop). (st', \<not> stop))"


lemma single_pass_append:
  "feed cb xs st = Ok (st', False) \<Longrightarrow> single_pass cb (xs @ ys) st = single_pass cb ys st'"
  by (simp add: single_pass_def feed_append)

lemma single_pass_stopped:
  "feed cb xs st = Ok (st', True) \<Longrightarrow> single_pass cb (xs @ ys) st = Ok (st', False)"
  by (simp add: single_pass_def feed_append)

lemma single_pass_failed:
  "feed cb xs st = Err e \<Longrightarrow> single_pass cb (xs @ ys) st = Err e"
  "feed cb xs st = Throw t \<Longrightarrow> single_pass cb (xs @ ys) st = Throw t"
  by (simp_all add: single_pass_def feed_append)

section \<open>Sorted lists cut at a key\<close>

lemma cut_after:
  "sorted_wrt (<) (map fst (b @ (k, v) # r)) \<Longrightarrow> filter (\<lambda>e. k < fst e) (b @ (k :: bytes, v) # r) = r"
  by (fastforce simp: sorted_wrt_append filter_id_conv filter_empty_conv)

lemma cut_before:
  "sorted_wrt (<) (map fst (b @ (k, v) # r)) \<Longrightarrow> filter (\<lambda>e. fst e < k) (b @ (k :: bytes, v) # r) = b"
  by (fastforce simp: sorted_wrt_append filter_id_conv filter_empty_conv)

lemma db_inv_filter: "db_inv s \<Longrightarrow> db_inv (filter P s)"
  by (simp add: db_inv_def sorted_wrt_filter sorted_wrt_map)

lemma cut_filter_after:
  assumes "db_inv s" "filter P s = b @ (k, v) # r"
    and "\<And>e. e \<in> set s \<Longrightarrow> Q e \<longleftrightarrow> P e \<and> k < fst e"
  shows "filter Q s = r"
proof -
  have "filter Q s = filter (\<lambda>e. k < fst e) (filter P s)"
    unfolding filter_filter by (rule filter_cong) (use assms(3) in auto)
  also have "\<dots> = r"
    using db_inv_filter[OF assms(1), of P] unfolding assms(2) db_inv_def by (rule cut_after)
  finally show ?thesis .
qed

lemma cut_filter_before:
  assumes "db_inv s" "filter P s = b @ (k, v) # r"
    and "\<And>e. e \<in> set s \<Longrightarrow> Q e \<longleftrightarrow> P e \<and> fst e < k"
  shows "filter Q s = b"
proof -
  have "filter Q s = filter (\<lambda>e. fst e < k) (filter P s)"
    unfolding filter_filter by (rule filter_cong) (use assms(3) in auto)
  also have "\<dots> = b"
    using db_inv_filter[OF assms(1), of P] unfolding assms(2) db_inv_def by (rule cut_before)
  finally show ?thesis .
qed

section \<open>Paging by options is a single scan\<close>

text \<open>The entries a caller asks for.\<close>

definition in_bounds :: "iterator_options \<Rightarrow> bytes \<Rightarrow> bool" where
  "in_bounds opts k \<longleftrightarrow>
     (\<forall>lo. io_gte opts = Some lo \<longrightarrow> lo \<le> k) \<and> (\<forall>lo. io_gt opts = Some lo \<longrightarrow> lo < k) \<and>
     (\<forall>hi. io_lt opts = Some hi \<longrightarrow> k < hi)"

definition wanted :: "store \<Rightarrow> iterator_options \<Rightarrow> store" where
  "wanted s opts =
     (let r = filter (\<lambda>e. in_bounds opts (fst e)) s in if io_reverse opts then rev r else r)"

text \<open>Options the native side accepts and treats as asked: one lower bound, an upper bound, and in
  reverse order no entry at an exclusive lower bound.\<close>

definition proper_options :: "store \<Rightarrow> iterator_options \<Rightarrow> bool" where
  "proper_options s opts \<longleftrightarrow>
     io_lt opts \<noteq> None \<and> (io_gte opts = None) \<noteq> (io_gt opts = None) \<and>
     (io_reverse opts \<longrightarrow> (\<forall>lo. io_gt opts = Some lo \<longrightarrow> lo \<notin> fst ` set s))"

lemma gt_skip:
  assumes "db_inv s"
  shows "(case filter (\<lambda>e. lo \<le> fst e \<and> fst e < hi) s of
            (k, v) # r' \<Rightarrow> if k = lo then r' else filter (\<lambda>e. lo \<le> fst e \<and> fst e < hi) s | [] \<Rightarrow> [])
         = filter (\<lambda>e. lo < fst e \<and> fst e < hi) s"
proof (cases "filter (\<lambda>e. lo \<le> fst e \<and> fst e < hi) s")
  case Nil
  then show ?thesis by (auto simp: filter_empty_conv)
next
  case (Cons e r)
  obtain k v where e: "e = (k, v)" by (cases e)
  have "lo \<le> k" using Cons e by (metis (mono_tags, lifting) filter_eq_ConsD fst_conv)
  show ?thesis
  proof (cases "k = lo")
    case True
    have "filter (\<lambda>e. lo < fst e \<and> fst e < hi) s = r"
      by (rule cut_filter_after[OF assms, of "\<lambda>e. lo \<le> fst e \<and> fst e < hi" "[]" k v])
        (use Cons e True in auto)
    with True Cons e show ?thesis by simp
  next
    case False
    have "sorted_wrt (<) (map fst (e # r))"
      using db_inv_filter[OF assms, of "\<lambda>e. lo \<le> fst e \<and> fst e < hi"] Cons by (simp add: db_inv_def)
    then have "\<forall>x \<in> set (e # r). lo < fst x"
      using \<open>lo \<le> k\<close> False e by auto
    then have "\<forall>x \<in> set s. lo \<le> fst x \<and> fst x < hi \<longrightarrow> lo < fst x"
      unfolding Cons[symmetric] by force
    then have "filter (\<lambda>e. lo < fst e \<and> fst e < hi) s = e # r"
      unfolding Cons[symmetric] by (intro filter_cong) auto
    with False Cons e show ?thesis by simp
  qed
qed

lemma entries_wanted:
  assumes "db_inv s" "proper_options s opts"
  shows "entries_by_jsopts s opts = Ok (wanted s opts)"
proof -
  obtain hi where hi: "io_lt opts = Some hi" using assms(2) by (auto simp: proper_options_def)
  show ?thesis
  proof (cases "io_gte opts")
    case (Some lo)
    with assms(2) have "io_gt opts = None" by (simp add: proper_options_def)
    with Some hi show ?thesis
      by (simp add: entries_by_jsopts_def wanted_def in_bounds_def db_range_def)
  next
    case None
    with assms(2) obtain lo where gt: "io_gt opts = Some lo" by (auto simp: proper_options_def)
    let ?r = "filter (\<lambda>e. lo \<le> fst e \<and> fst e < hi) s"
    show ?thesis
    proof (cases "io_reverse opts")
      case False
      with gt_skip[OF assms(1), of lo hi] None gt hi show ?thesis
        by (simp add: entries_by_jsopts_def wanted_def in_bounds_def db_range_def Let_def
            cong: list.case_cong)
    next
      case True
      with assms(2) gt have no: "lo \<notin> fst ` set s" by (auto simp: proper_options_def)
      have "?r \<noteq> [] \<Longrightarrow> fst (last ?r) \<noteq> lo"
        using no last_in_set[of ?r] by (metis (no_types, lifting) filter_is_subset image_eqI subsetD)
      moreover have "?r = filter (\<lambda>e. lo < fst e \<and> fst e < hi) s"
        using no by (intro filter_cong) (auto simp: order_less_le)
      ultimately show ?thesis
        using True None gt hi
        by (auto simp: entries_by_jsopts_def wanted_def in_bounds_def db_range_def Let_def)
    qed
  qed
qed

lemma proper_batch:
  "proper_options s opts \<Longrightarrow> proper_options s (batch_options opts token)"
  by (auto simp: proper_options_def batch_options_def split: option.split)

lemma wanted_next:
  assumes "db_inv s" "proper_options s opts" "wanted s (batch_options opts token) = b @ (k, v) # r"
  shows "wanted s (batch_options opts (Some k)) = r"
proof -
  let ?o = "batch_options opts token"
  have rev_eq: "io_reverse (batch_options opts t) = io_reverse opts" for t
    by (simp add: batch_options_def split: option.split)
  have kin: "in_bounds ?o k"
  proof -
    have "(k, v) \<in> set (wanted s ?o)" unfolding assms(3) by simp
    then show ?thesis by (auto simp: wanted_def Let_def split: if_splits)
  qed
  show ?thesis
  proof (cases "io_reverse opts")
    case False
    then have "filter (\<lambda>e. in_bounds ?o (fst e)) s = b @ (k, v) # r"
      using assms(3) by (simp add: wanted_def rev_eq)
    then have "filter (\<lambda>e. in_bounds (batch_options opts (Some k)) (fst e)) s = r"
      by (rule cut_filter_after[OF assms(1)])
        (use False kin in \<open>auto simp: in_bounds_def batch_options_def split: option.splits
          intro: order.strict_trans order.strict_trans1 order_le_less_trans less_imp_le\<close>)
    with False show ?thesis by (simp add: wanted_def rev_eq)
  next
    case True
    then have "filter (\<lambda>e. in_bounds ?o (fst e)) s = rev r @ (k, v) # rev b"
      using assms(3) by (simp add: wanted_def rev_eq rev_eq_append_conv)
    then have "filter (\<lambda>e. in_bounds (batch_options opts (Some k)) (fst e)) s = rev r"
      by (rule cut_filter_before[OF assms(1)])
        (use True kin in \<open>auto simp: in_bounds_def batch_options_def split: option.splits
          intro: order.strict_trans\<close>)
    with True show ?thesis by (simp add: wanted_def rev_eq)
  qed
qed

lemma take_batch_None: "take_batch n acc kvs = (b, None) \<Longrightarrow> b = acc @ kvs"
  by (induction kvs arbitrary: acc) (fastforce simp: Let_def split: if_splits)+

lemma take_batch_Some:
  "take_batch n acc kvs = (b, Some k) \<Longrightarrow>
   \<exists>b' v r. b = acc @ b' @ [(k, v)] \<and> kvs = b' @ (k, v) # r"
proof (induction kvs arbitrary: acc)
  case Nil
  then show ?case by simp
next
  case (Cons kv kvs)
  obtain k' v' where kv: "kv = (k', v')" by (cases kv)
  show ?case
  proof (cases "length (acc @ [kv]) \<ge> n")
    case True
    with Cons.prems kv show ?thesis by (auto simp: Let_def)
  next
    case False
    with Cons.prems have "take_batch n (acc @ [kv]) kvs = (b, Some k)" by (simp add: Let_def)
    then obtain b' v r where "b = (acc @ [kv]) @ b' @ [(k, v)]" "kvs = b' @ (k, v) # r"
      using Cons.IH by blast
    then have "b = acc @ (kv # b') @ [(k, v)]" "kv # kvs = (kv # b') @ (k, v) # r" by simp_all
    then show ?thesis by blast
  qed
qed

lemma forEach_opts_loop_single_pass:
  assumes "db_inv s" "proper_options s opts"
  shows "length (wanted s (batch_options opts token)) < fuel \<Longrightarrow>
    forEach_opts_loop fuel n s opts token cb st =
      Some (single_pass cb (wanted s (batch_options opts token)) st)"
proof (induction fuel arbitrary: token st)
  case 0
  then show ?case by simp
next
  case (Suc fuel)
  let ?w = "wanted s (batch_options opts token)"
  have e: "entries_by_jsopts s (batch_options opts token) = Ok ?w"
    by (rule entries_wanted[OF assms(1) proper_batch[OF assms(2)]])
  show ?case
  proof (cases "take_batch n [] ?w")
    case (Pair b stopKey)
    show ?thesis
    proof (cases stopKey)
      case None
      with Pair have "b = ?w" by (auto dest: take_batch_None)
      with e Pair None show ?thesis
        by (auto simp: single_pass_def split: outcome.splits prod.splits)
    next
      case (Some k)
      with Pair obtain b' v r where b: "b = b' @ [(k, v)]" "?w = b' @ (k, v) # r"
        by (auto dest!: take_batch_Some)
      then have w: "?w = b @ r" by simp
      have r: "wanted s (batch_options opts (Some k)) = r"
        by (rule wanted_next[OF assms b(2)])
      have len: "length (wanted s (batch_options opts (Some k))) < fuel"
        using Suc.prems b(2) r by simp
      show ?thesis
      proof (cases "feed cb b st")
        case (Ok x)
        obtain st' stop where x: "x = (st', stop)" by (cases x)
        show ?thesis
          using e Pair Some Ok x Suc.IH[OF len, of st'] unfolding r w
          by (cases stop) (simp_all add: single_pass_append single_pass_stopped)
      next
        case (Err x)
        then show ?thesis using e Pair Some unfolding w by (simp add: single_pass_failed)
      next
        case (Throw x)
        then show ?thesis using e Pair Some unfolding w by (simp add: single_pass_failed)
      qed
    qed
  qed
qed


section \<open>Paging by prefix is a single scan\<close>

text \<open>
  The scan of a prefix relies on the layout of the keys: the prefix is not all 255, no key is a
  proper prefix of its increment, and the keys under it have one length. The last is what makes the increment
  of the last key seen the right place to go on: it skips any key that extends that key.
\<close>

definition fixed_layout :: "store \<Rightarrow> bytes \<Rightarrow> nat \<Rightarrow> bool" where
  "fixed_layout s pre m \<longleftrightarrow>
     (\<exists>b \<in> set pre. b \<noteq> 255) \<and> length pre < m \<and>
     (\<forall>k \<in> fst ` set s. (prefix k (increment_vec_u8 pre) \<longrightarrow> length pre \<le> length k) \<and>
                      (prefix pre k \<longrightarrow> length k = m))"

lemma increment_not_255:
  assumes "\<exists>b \<in> set v. b \<noteq> 255"
  shows "length (increment_vec_u8 v) = length v" "be_int (increment_vec_u8 v) = be_int v + 1"
  using bytesIncrement_length[OF assms increment_vec_u8_bytesIncrement]
    bytesIncrement_value[of v] by (simp_all add: increment_vec_u8_bytesIncrement)

lemma increment_le_iff:
  assumes "\<exists>b \<in> set k. b \<noteq> 255" "length k = length k'"
  shows "increment_vec_u8 k \<le> k' \<longleftrightarrow> k < k'"
  using be_int_less_iff[of k k'] be_int_less_iff[of k' "increment_vec_u8 k"] increment_not_255[OF assms(1)]
    assms(2) by (auto simp: not_less [symmetric])

lemma prefix_range_increment:
  assumes "\<exists>b \<in> set p. b \<noteq> 255" "prefix k (increment_vec_u8 p) \<longrightarrow> length p \<le> length k"
  shows "p \<le> k \<and> k < increment_vec_u8 p \<longleftrightarrow> prefix p k"
  using prefix_range[OF assms(1) increment_vec_u8_bytesIncrement assms(2)] by simp

lemma prefix_not_255: "\<exists>b \<in> set p. b \<noteq> 255 \<Longrightarrow> prefix p k \<Longrightarrow> \<exists>b \<in> set k. b \<noteq> (255 :: byte)"
  by (auto simp: prefix_def)

lemma increment_above:
  assumes "\<exists>b \<in> set k. b \<noteq> 255"
  shows "k < increment_vec_u8 k"
  using be_int_less_iff[of k "increment_vec_u8 k"] increment_not_255[OF assms] by simp

lemma scan_first:
  assumes "fixed_layout s pre m" "page_token opts = None"
  shows "scan_by_prefix s pre opts =
    (let r = filter (\<lambda>e. prefix pre (fst e)) s in if po_reverse opts then rev r else r)"
proof -
  have "pre \<noteq> []" using assms(1) by (auto simp: fixed_layout_def)
  moreover have "db_range pre (increment_vec_u8 pre) s = filter (\<lambda>e. prefix pre (fst e)) s"
    unfolding db_range_def
    by (rule filter_cong) (use assms(1) in \<open>auto simp: fixed_layout_def prefix_range_increment\<close>)
  ultimately show ?thesis
    using assms(2) by (simp add: scan_by_prefix_def get_iterator_options_def Let_def)
qed

definition next_options :: "page_options \<Rightarrow> bytes \<Rightarrow> bytes \<Rightarrow> page_options" where
  "next_options opts pre k = opts\<lparr>po_pageToken := Some (drop (length pre) k)\<rparr>"

lemma scan_range:
  assumes "fixed_layout s pre m"
  shows "\<exists>lo hi. pre \<le> lo \<and> hi \<le> increment_vec_u8 pre \<and> (po_reverse opts \<longrightarrow> lo = pre) \<and> (\<not> po_reverse opts \<longrightarrow> hi = increment_vec_u8 pre) \<and>
      get_iterator_options pre opts = (lo, hi)"
proof -
  have ne: "pre \<noteq> []" and n255: "\<exists>b \<in> set pre. b \<noteq> 255" using assms by (auto simp: fixed_layout_def)
  have "pre \<le> increment_vec_u8 (pre @ t)" for t
  proof -
    have "pre \<le> pre @ t" by (induction pre) auto
    also have "\<dots> < increment_vec_u8 (pre @ t)" by (rule increment_above) (use n255 in auto)
    finally show ?thesis by simp
  qed
  moreover have "pre @ t < increment_vec_u8 pre" for t
    using prefix_range_increment[OF n255, of "pre @ t"] by simp
  ultimately show ?thesis
    using ne by (auto simp: get_iterator_options_def less_imp_le split: option.split)
qed

lemma scan_next:
  assumes "db_inv s" "fixed_layout s pre m"
    and "scan_by_prefix s pre opts = b @ (k, v) # r" "prefix pre k" "k \<in> fst ` set s"
  shows "scan_by_prefix s pre (next_options opts pre k) = r"
proof -
  obtain lo hi where g: "pre \<le> lo" "po_reverse opts \<longrightarrow> lo = pre"
      "\<not> po_reverse opts \<longrightarrow> hi = increment_vec_u8 pre" "get_iterator_options pre opts = (lo, hi)"
    using scan_range[OF assms(2), of opts] by blast
  have ne: "pre \<noteq> []" and n255: "\<exists>b \<in> set pre. b \<noteq> 255" and m: "length pre < m"
    using assms(2) by (auto simp: fixed_layout_def)
  have lk: "length k = m" using assms(2,4,5) by (auto simp: fixed_layout_def)
  then have tok: "page_token (next_options opts pre k) = Some (drop (length pre) k)"
    using m by (simp add: page_token_def next_options_def)
  have pk: "pre @ drop (length pre) k = k"
    using assms(4) by (auto simp: prefix_def)
  have rev_eq: "po_reverse (next_options opts pre k) = po_reverse opts"
    by (simp add: next_options_def)
  show ?thesis
  proof (cases "po_reverse opts")
    case False
    have hi: "hi = increment_vec_u8 pre" using g False by simp
    have f: "filter (\<lambda>e. lo \<le> fst e \<and> fst e < hi) s = b @ (k, v) # r"
      using assms(3) False g by (simp add: scan_by_prefix_def db_range_def)
    have "(k, v) \<in> set (filter (\<lambda>e. lo \<le> fst e \<and> fst e < hi) s)" unfolding f by simp
    then have lok: "lo \<le> k" by simp
    have "increment_vec_u8 k \<le> fst e \<and> fst e < hi \<longleftrightarrow> (lo \<le> fst e \<and> fst e < hi) \<and> k < fst e"
      if "e \<in> set s" for e
    proof (cases "fst e < hi \<and> k < fst e")
      case True
      have "pre \<le> fst e" using g(1) lok True by (meson order_trans less_imp_le)
      then have "prefix pre (fst e)"
        using True hi prefix_range_increment[OF n255, of "fst e"] that assms(2)
        by (auto simp: fixed_layout_def)
      then have "length (fst e) = m" using that assms(2) by (auto simp: fixed_layout_def)
      with increment_le_iff[OF prefix_not_255[OF n255 assms(4)], of "fst e"] lk True lok show ?thesis
        by auto
    next
      case False
      moreover have "increment_vec_u8 k \<le> fst e \<Longrightarrow> k < fst e"
        using increment_above[OF prefix_not_255[OF n255 assms(4)]] by simp
      ultimately show ?thesis by auto
    qed
    then have "filter (\<lambda>e. increment_vec_u8 k \<le> fst e \<and> fst e < hi) s = r"
      by (rule cut_filter_after[OF assms(1) f])
    with False hi tok ne pk rev_eq show ?thesis
      by (simp add: scan_by_prefix_def get_iterator_options_def db_range_def)
  next
    case True
    have lo: "lo = pre" using g True by simp
    have f: "filter (\<lambda>e. pre \<le> fst e \<and> fst e < hi) s = rev r @ (k, v) # rev b"
      using assms(3) True g lo by (simp add: scan_by_prefix_def db_range_def rev_eq_append_conv)
    have "(k, v) \<in> set (filter (\<lambda>e. pre \<le> fst e \<and> fst e < hi) s)" unfolding f by simp
    then have "k < hi" by simp
    then have "filter (\<lambda>e. pre \<le> fst e \<and> fst e < k) s = rev r"
      by (intro cut_filter_before[OF assms(1) f]) auto
    with True tok ne pk rev_eq show ?thesis
      by (simp add: scan_by_prefix_def get_iterator_options_def db_range_def)
  qed
qed

lemma collect_page_all:
  "length (acc @ r) \<le> pm \<Longrightarrow>
   collect_page pm pre None acc r =
     \<lparr>pg_dbKeyValues = acc @ r, pg_nextPageToken = [], pg_allFinished = True\<rparr>"
  by (induction r arbitrary: acc) (simp_all add: Let_def)

lemma collect_page_cut:
  "length acc \<le> pm \<Longrightarrow> pm < length (acc @ r) \<Longrightarrow>
   \<exists>b kv r'. acc @ r = b @ kv # r' \<and> length b = pm \<and>
     collect_page pm pre None acc r =
       \<lparr>pg_dbKeyValues = b @ [kv], pg_nextPageToken = drop (length pre) (fst kv), pg_allFinished = False\<rparr>"
proof (induction r arbitrary: acc)
  case Nil
  then show ?case by simp
next
  case (Cons kv r)
  show ?case
  proof (cases "length (acc @ [kv]) > pm")
    case True
    then have "length acc = pm" using Cons.prems by simp
    with True show ?thesis by (cases kv) (auto simp: Let_def)
  next
    case False
    with Cons.IH[of "acc @ [kv]"] Cons.prems show ?thesis by (auto simp: Let_def)
  qed
qed

lemma collect_page_sized:
  "length acc < n \<Longrightarrow> n \<le> pm \<Longrightarrow>
   collect_page pm pre (Some n) acc r =
     \<lparr>pg_dbKeyValues = take n (acc @ r), pg_nextPageToken = [], pg_allFinished = True\<rparr>"
proof (induction r arbitrary: acc)
  case Nil
  then show ?case by simp
next
  case (Cons kv r)
  show ?case
  proof (cases "n \<le> Suc (length acc)")
    case True
    with Cons.prems have "n = Suc (length acc)" by simp
    with Cons.prems show ?thesis by (simp add: Let_def)
  next
    case False
    then have "n - length acc = Suc (n - Suc (length acc))" by simp
    with False Cons show ?thesis by (simp add: Let_def)
  qed
qed

lemma scan_in_store: "kv \<in> set (scan_by_prefix s pre opts) \<Longrightarrow> kv \<in> set s"
  by (auto simp: scan_by_prefix_def db_range_def Let_def split: prod.splits if_splits)

lemma scan_has_prefix:
  assumes "fixed_layout s pre m" "(k, v) \<in> set (scan_by_prefix s pre opts)"
  shows "prefix pre k"
proof -
  obtain lo hi where g: "pre \<le> lo" "hi \<le> increment_vec_u8 pre" "get_iterator_options pre opts = (lo, hi)"
    using scan_range[OF assms(1), of opts] by blast
  have "(k, v) \<in> set s" using assms(2) by (rule scan_in_store)
  then have "prefix k (increment_vec_u8 pre) \<longrightarrow> length pre \<le> length k"
    using assms(1) by (force simp: fixed_layout_def)
  moreover have "lo \<le> k \<and> k < hi"
    using assms(2) g(3) by (auto simp: scan_by_prefix_def db_range_def Let_def split: if_splits)
  then have "pre \<le> k \<and> k < increment_vec_u8 pre"
    using g(1,2) by (meson order_trans order_less_le_trans)
  ultimately show ?thesis
    using assms(1) prefix_range_increment[of pre k] by (auto simp: fixed_layout_def)
qed

lemma forEach_prefix_loop_single_pass:
  assumes "db_inv s" "fixed_layout s pre m" "po_pageSize opts = None"
  shows "length (scan_by_prefix s pre batch) < fuel \<Longrightarrow>
    po_pageSize batch = None \<Longrightarrow> po_reverse batch = po_reverse opts \<Longrightarrow>
    (\<forall>kv \<in> set (scan_by_prefix s pre batch). prefix pre (fst kv)) \<Longrightarrow>
    forEach_prefix_loop fuel pm s pre opts batch cb st =
      Some (single_pass cb (scan_by_prefix s pre batch) st)"
proof (induction fuel arbitrary: batch st)
  case 0
  then show ?case by simp
next
  case (Suc fuel)
  let ?w = "scan_by_prefix s pre batch"
  show ?case
  proof (cases "length ?w \<le> pm")
    case True
    with collect_page_all[of "[]" ?w pm pre] Suc.prems(2) show ?thesis
      by (cases "feed cb ?w st") (auto simp: dbFetchIteratorPageByPrefix_def single_pass_def Let_def)
  next
    case False
    then obtain b kv r where w: "?w = b @ kv # r" and page: "dbFetchIteratorPageByPrefix pm s pre batch =
        \<lparr>pg_dbKeyValues = b @ [kv], pg_nextPageToken = drop (length pre) (fst kv), pg_allFinished = False\<rparr>"
      using collect_page_cut[of "[]" pm ?w pre] Suc.prems(2)
      by (auto simp: dbFetchIteratorPageByPrefix_def)
    obtain k v where kv: "kv = (k, v)" by (cases kv)
    have pk: "prefix pre k" using Suc.prems(4) w kv by auto
    have ks: "k \<in> fst ` set s" using scan_in_store[of kv s pre batch] w kv by force
    let ?next = "opts\<lparr>po_pageToken := Some (drop (length pre) k)\<rparr>"
    have "scan_by_prefix s pre (next_options batch pre k) = r"
      by (rule scan_next[OF assms(1,2) _ pk ks]) (use w kv in auto)
    moreover have "scan_by_prefix s pre ?next = scan_by_prefix s pre (next_options batch pre k)"
      using Suc.prems(3)
      by (simp add: scan_by_prefix_def get_iterator_options_def next_options_def page_token_def)
    ultimately have nx: "scan_by_prefix s pre ?next = r" by simp
    define c where "c = b @ [kv]"
    have w': "?w = c @ r" using w by (simp add: c_def)
    note page = page [folded c_def]
    have IH: "forEach_prefix_loop fuel pm s pre opts
        (opts\<lparr>po_pageToken := Some (drop (length pre) (fst kv))\<rparr>) cb st' = Some (single_pass cb r st')" for st'
      using Suc.IH[of ?next st'] Suc.prems(1,4) assms(3) w unfolding nx kv by simp
    show ?thesis
    proof (cases "feed cb c st")
      case (Ok x)
      obtain st' stop where "x = (st', stop)" by (cases x)
      with Ok page IH show ?thesis
        unfolding w' by (cases stop) (simp_all add: Let_def single_pass_append single_pass_stopped)
    qed (simp_all add: page Let_def w' single_pass_failed)
  qed
qed

lemma forEachIteratorByPrefix_single_pass:
  assumes "db_inv s" "fixed_layout s pre m" "po_pageSize opts = None"
    and "length (scan_by_prefix s pre opts) < fuel"
  shows "rsDbForEachIteratorByPrefix fuel s pre opts cb st =
           Some (single_pass cb (scan_by_prefix s pre opts) st)"
  unfolding rsDbForEachIteratorByPrefix_def
  by (rule forEach_prefix_loop_single_pass[OF assms(1-3)])
    (use assms scan_has_prefix[OF assms(2)] in auto)

text \<open>With a page size the callback sees that many entries, and the iteration counts as finished
  even when more entries follow.\<close>

lemma forEachIteratorByPrefix_sized:
  assumes "po_pageSize opts = Some n" "0 < n" "n \<le> PAGE_SIZE_MAX"
  shows "rsDbForEachIteratorByPrefix (Suc fuel) s pre opts cb st =
           Some (single_pass cb (take n (scan_by_prefix s pre opts)) st)"
  using collect_page_sized[of "[]" n PAGE_SIZE_MAX pre "scan_by_prefix s pre opts"] assms
  by (cases "feed cb (take n (scan_by_prefix s pre opts)) st")
    (auto simp: rsDbForEachIteratorByPrefix_def dbFetchIteratorPageByPrefix_def single_pass_def Let_def)

text \<open>Counting the keys of a prefix.\<close>

lemma countKeysAtPrefix_exact:
  assumes "fixed_layout (rdb_disk db) pre m" "rdb_native_open db"
  shows "RocksDB_countKeysAtPrefix db pre = Ok (length (filter (\<lambda>e. prefix pre (fst e)) (rdb_disk db)))"
  using assms scan_first[OF assms(1), of no_page_options]
  by (simp add: RocksDB_countKeysAtPrefix_def when_open_def no_page_options_def page_token_def)

text \<open>Deleting a range deletes exactly what a scan of it would visit.\<close>

lemma fold_db_del: "fold (\<lambda>e s. db_del (fst e) s) kvs s = filter (\<lambda>e. fst e \<notin> fst ` set kvs) s"
proof (induction kvs arbitrary: s)
  case Nil
  then show ?case by simp
next
  case (Cons kv kvs)
  then show ?case by (simp add: db_del_def conj_commute cong: filter_cong)
qed

lemma deleteAllKeysInRange_exact:
  assumes "db_inv (rdb_disk db)" "proper_options (rdb_disk db) opts" "rdb_native_open db"
  shows "RocksDB_deleteAllKeysInRange db opts =
    (Ok True, db\<lparr>rdb_disk := filter (\<lambda>e. \<not> in_bounds opts (fst e)) (rdb_disk db)\<rparr>)"
proof -
  have "fst ` set (wanted (rdb_disk db) opts) = {k \<in> fst ` set (rdb_disk db). in_bounds opts k}"
    by (auto simp: wanted_def Let_def)
  then have "filter (\<lambda>e. fst e \<notin> fst ` set (wanted (rdb_disk db) opts)) (rdb_disk db) =
      filter (\<lambda>e. \<not> in_bounds opts (fst e)) (rdb_disk db)"
    by (intro filter_cong) auto
  with assms show ?thesis
    by (simp add: RocksDB_deleteAllKeysInRange_def entries_wanted fold_db_del)
qed

end
