(* ===== verification/MessageDb.thy ===== *)
theory MessageDb
  imports DbIterator
begin

text \<open>
  The key layouts and message operations of \<^verbatim>\<open>storage/db/types.ts\<close>, \<^verbatim>\<open>storage/db/message.ts\<close>,
  \<^verbatim>\<open>nameRegistryEvent.ts\<close>, \<^verbatim>\<open>hubState.ts\<close> and \<^verbatim>\<open>stores/utils.ts\<close>. The generated protobuf coders are
  the fields of \<open>proto_codec\<close>; a decoder throws on malformed bytes. The lemmas show that primary
  keys are injective, that keys of one set sort by timestamp and then hash, and what reading
  after writing and reading all messages of a user gives.
\<close>

record proto_codec =
  encodeMessage :: "Message \<Rightarrow> bytes"
  decodeMessage :: "bytes \<Rightarrow> Message outcome"
  decodeMessageData :: "bytes \<Rightarrow> MessageData outcome"
  encodeUserNameProof :: "UserNameProof \<Rightarrow> bytes"
  decodeUserNameProof :: "bytes \<Rightarrow> UserNameProof outcome"
  encodeOnChainEvent :: "OnChainEvent \<Rightarrow> bytes"
  decodeOnChainEvent :: "bytes \<Rightarrow> OnChainEvent outcome"

section \<open>Prefixes\<close>

definition TSHASH_LENGTH :: nat where
  "TSHASH_LENGTH = 24"

datatype RootPrefix =
    User | CastsByParent | CastsByMention | LinksByTarget | ReactionsByTarget | HubStatePrefix
  | JobRevokeMessageBySigner | SyncMerkleTrieNode | HubCleanShutdown | HubEvents | NetworkPrefix
  | FNameUserNameProof | UserNameProofByName | OnChainEventPrefix | DBSchemaVersion
  | VerificationByAddress | ConnectedPeers | FNameUserNameProofByFid

fun root_byte :: "RootPrefix \<Rightarrow> byte" where
  "root_byte User = 1"
| "root_byte CastsByParent = 2"
| "root_byte CastsByMention = 3"
| "root_byte LinksByTarget = 4"
| "root_byte ReactionsByTarget = 5"
| "root_byte HubStatePrefix = 9"
| "root_byte JobRevokeMessageBySigner = 10"
| "root_byte SyncMerkleTrieNode = 11"
| "root_byte HubCleanShutdown = 14"
| "root_byte HubEvents = 15"
| "root_byte NetworkPrefix = 16"
| "root_byte FNameUserNameProof = 17"
| "root_byte UserNameProofByName = 19"
| "root_byte OnChainEventPrefix = 23"
| "root_byte DBSchemaVersion = 24"
| "root_byte VerificationByAddress = 25"
| "root_byte ConnectedPeers = 26"
| "root_byte FNameUserNameProofByFid = 27"

datatype UserPostfix =
    CastMessage | LinkMessage | ReactionMessage | VerificationMessage | UserDataMessage
  | UsernameProofMessage | BySigner | CastAdds | CastRemoves | LinkAdds | LinkRemoves
  | ReactionAdds | ReactionRemoves | VerificationAdds | VerificationRemoves | UserDataAdds
  | UserNameProofAdds | LinkCompactStateMessage

fun postfix_byte :: "UserPostfix \<Rightarrow> byte" where
  "postfix_byte CastMessage = 1"
| "postfix_byte LinkMessage = 2"
| "postfix_byte ReactionMessage = 3"
| "postfix_byte VerificationMessage = 4"
| "postfix_byte UserDataMessage = 6"
| "postfix_byte UsernameProofMessage = 7"
| "postfix_byte BySigner = 86"
| "postfix_byte CastAdds = 87"
| "postfix_byte CastRemoves = 88"
| "postfix_byte LinkAdds = 89"
| "postfix_byte LinkRemoves = 90"
| "postfix_byte ReactionAdds = 91"
| "postfix_byte ReactionRemoves = 92"
| "postfix_byte VerificationAdds = 93"
| "postfix_byte VerificationRemoves = 94"
| "postfix_byte UserDataAdds = 97"
| "postfix_byte UserNameProofAdds = 99"
| "postfix_byte LinkCompactStateMessage = 100"

definition UserMessagePostfixMax :: byte where
  "UserMessagePostfixMax = 85"

lemma root_byte_inject [simp]: "root_byte a = root_byte b \<longleftrightarrow> a = b"
  by (cases a; cases b) simp_all

lemma postfix_byte_inject [simp]: "postfix_byte a = postfix_byte b \<longleftrightarrow> a = b"
  by (cases a; cases b) simp_all

section \<open>Keys\<close>

definition makeFidKey :: "number \<Rightarrow> bytes outcome" where
  "makeFidKey fid = writeUInt32BE fid"

definition readFidKey :: "bytes \<Rightarrow> int outcome" where
  "readFidKey buffer = readUInt32BE buffer 0"

definition makeUserKey :: "number \<Rightarrow> bytes outcome" where
  "makeUserKey fid = mapOk (makeFidKey fid) (\<lambda>k. root_byte User # k)"

definition makeMessagePrimaryKey :: "number \<Rightarrow> UserPostfix \<Rightarrow> bytes option \<Rightarrow> bytes outcome" where
  "makeMessagePrimaryKey fid pfx tsHash =
     mapOk (makeUserKey fid) (\<lambda>u. u @ [postfix_byte pfx] @ (case tsHash of Some h \<Rightarrow> h | None \<Rightarrow> []))"

text \<open>\<^verbatim>\<open>hash.length\<close> on a missing hash throws; a negative timestamp is a RangeError.\<close>

definition makeTsHash :: "int \<Rightarrow> bytes option \<Rightarrow> bytes outcome" where
  "makeTsHash timestamp hash =
     (if timestamp \<ge> 2 ^ 32 then fail InvalidParam ''timestamp > 4 bytes''
      else andThen (deref hash) (\<lambda>h. mapOk (writeUInt32BE (numI timestamp)) (\<lambda>t. t @ h)))"

definition unpackTsHash :: "bytes \<Rightarrow> (int \<times> bytes) outcome" where
  "unpackTsHash tsHash =
     (if length tsHash \<noteq> TSHASH_LENGTH then fail InvalidParam ''invalid tsHash length''
      else mapOk (readUInt32BE (take 4 tsHash) 0) (\<lambda>t. (t, drop 4 tsHash)))"

definition typeToSetPostfix :: "int \<Rightarrow> UserPostfix outcome" where
  "typeToSetPostfix type =
     (if type = CAST_ADD \<or> type = CAST_REMOVE then Ok CastMessage
      else if type = REACTION_ADD \<or> type = REACTION_REMOVE then Ok ReactionMessage
      else if type = VERIFICATION_ADD_ETH_ADDRESS \<or> type = VERIFICATION_REMOVE then Ok VerificationMessage
      else if type = USER_DATA_ADD then Ok UserDataMessage
      else if type = LINK_ADD \<or> type = LINK_REMOVE then Ok LinkMessage
      else if type = USERNAME_PROOF then Ok UsernameProofMessage
      else if type = LINK_COMPACT_STATE then Ok LinkCompactStateMessage
      else Throw (JsError (lit ''invalid type: '' @ int_to_string 10 type)))"

definition makeMessagePrimaryKeyFromMessage :: "Message \<Rightarrow> bytes outcome" where
  "makeMessagePrimaryKeyFromMessage m =
     (case msg_data m of
        None \<Rightarrow> throw_hub InvalidParam ''message data is missing''
      | Some d \<Rightarrow>
          andThen (throwErr (makeTsHash (md_timestamp d) (msg_hash m))) (\<lambda>tsHash.
          andThen (typeToSetPostfix (md_type d)) (\<lambda>pfx.
            makeMessagePrimaryKey (md_fid d) pfx (Some tsHash))))"

definition makeEndPrefix :: "bytes \<Rightarrow> bytes option outcome" where
  "makeEndPrefix pre =
     mapOk (throwErr (bytesIncrement pre)) (\<lambda>e. if length e = length pre then Some e else None)"

definition usernameProofCompare :: "UserNameProof \<Rightarrow> UserNameProof \<Rightarrow> int" where
  "usernameProofCompare a b =
     (if unp_timestamp a < unp_timestamp b then -1
      else if unp_timestamp a > unp_timestamp b then 1
      else bytesCompare (unp_signature a) (unp_signature b))"

section \<open>Encoding\<close>

definition has_dataBytes :: "Message \<Rightarrow> bool" where
  "has_dataBytes m = (case msg_dataBytes m of Some b \<Rightarrow> b \<noteq> [] | None \<Rightarrow> False)"

definition messageEncode :: "proto_codec \<Rightarrow> Message \<Rightarrow> bytes outcome" where
  "messageEncode C m =
     (if has_dataBytes m then
        mapOk (decodeMessage C (encodeMessage C m)) (\<lambda>cloned. encodeMessage C (cloned\<lparr>msg_data := None\<rparr>))
      else Ok (encodeMessage C m))"

definition messageDecode :: "proto_codec \<Rightarrow> bytes \<Rightarrow> Message outcome" where
  "messageDecode C bs =
     andThen (decodeMessage C bs) (\<lambda>m.
       if has_dataBytes m then
         mapOk (decodeMessageData C (the (msg_dataBytes m))) (\<lambda>d. m\<lparr>msg_data := Some d\<rparr>)
       else Ok m)"

definition ensureMessageData :: "proto_codec \<Rightarrow> Message \<Rightarrow> Message" where
  "ensureMessageData C m =
     (if has_dataBytes m then
        (case decodeMessageData C (the (msg_dataBytes m)) of
           Ok d \<Rightarrow> m\<lparr>msg_data := Some d\<rparr>
         | _ \<Rightarrow> m)
      else m)"

section \<open>Messages in the database\<close>

text \<open>The key of a message inside a transaction helper; the same checks as above.\<close>

definition putMessageTransaction :: "proto_codec \<Rightarrow> transaction \<Rightarrow> Message \<Rightarrow> transaction outcome" where
  "putMessageTransaction C txn m =
     andThen (makeMessagePrimaryKeyFromMessage m) (\<lambda>primaryKey.
     mapOk (messageEncode C m) (\<lambda>buffer. txn_put txn primaryKey buffer))"

definition deleteMessageTransaction :: "transaction \<Rightarrow> Message \<Rightarrow> transaction outcome" where
  "deleteMessageTransaction txn m =
     mapOk (makeMessagePrimaryKeyFromMessage m) (\<lambda>primaryKey. txn_del txn primaryKey)"

definition commit_result :: "rocksdb \<Rightarrow> transaction outcome \<Rightarrow> unit outcome \<times> rocksdb" where
  "commit_result db t =
     (case t of
        Ok txn \<Rightarrow> RocksDB_commit db txn
      | Err e \<Rightarrow> (Err e, db)
      | Throw e \<Rightarrow> (Throw e, db))"

definition putMessage :: "proto_codec \<Rightarrow> rocksdb \<Rightarrow> Message \<Rightarrow> unit outcome \<times> rocksdb" where
  "putMessage C db m = commit_result db (putMessageTransaction C [] m)"

definition deleteMessage :: "rocksdb \<Rightarrow> Message \<Rightarrow> unit outcome \<times> rocksdb" where
  "deleteMessage db m = commit_result db (deleteMessageTransaction [] m)"

definition getMessage ::
  "proto_codec \<Rightarrow> rocksdb \<Rightarrow> number \<Rightarrow> UserPostfix \<Rightarrow> bytes \<Rightarrow> Message outcome" where
  "getMessage C db fid pfx tsHash =
     andThen (makeMessagePrimaryKey fid pfx (Some tsHash)) (\<lambda>k.
     andThen (RocksDB_get db k) (messageDecode C))"

definition areMessagesInDb :: "rocksdb \<Rightarrow> Message list \<Rightarrow> bool list outcome" where
  "areMessagesInDb db messages =
     andThen (mapM makeMessagePrimaryKeyFromMessage messages) (\<lambda>keys.
       case RocksDB_keysExist db keys of
         Ok r \<Rightarrow> Ok r
       | Err e \<Rightarrow> Ok (map (\<lambda>_. False) messages)
       | Throw t \<Rightarrow> Throw t)"

definition isMessageInDB :: "rocksdb \<Rightarrow> Message \<Rightarrow> bool" where
  "isMessageInDB db m =
     (case andThen (makeMessagePrimaryKeyFromMessage m) (RocksDB_get db) of
        Ok v \<Rightarrow> length v > 0
      | _ \<Rightarrow> False)"

definition getManyMessages :: "proto_codec \<Rightarrow> rocksdb \<Rightarrow> bytes list \<Rightarrow> Message list outcome" where
  "getManyMessages C db primaryKeys =
     andThen (RocksDB_getMany db primaryKeys) (\<lambda>buffers.
       mapM (\<lambda>b. messageDecode C (case b of Some x \<Rightarrow> x | None \<Rightarrow> [])) buffers)"

definition getManyMessagesByFid ::
  "proto_codec \<Rightarrow> rocksdb \<Rightarrow> number \<Rightarrow> UserPostfix \<Rightarrow> bytes list \<Rightarrow> Message list outcome" where
  "getManyMessagesByFid C db fid pfx tsHashes =
     andThen (mapM (\<lambda>h. makeMessagePrimaryKey fid pfx (Some h)) tsHashes) (getManyMessages C db)"

definition user_message_range :: "number \<Rightarrow> iterator_options outcome" where
  "user_message_range fid =
     mapOk (makeUserKey fid) (\<lambda>userPrefix.
       \<lparr>io_gte = Some userPrefix, io_gt = None, io_lt = Some (userPrefix @ [UserMessagePostfixMax + 1]),
        io_reverse = False\<rparr>)"

definition getAllMessagesByFid ::
  "nat \<Rightarrow> proto_codec \<Rightarrow> rocksdb \<Rightarrow> number \<Rightarrow> Message list outcome option" where
  "getAllMessagesByFid fuel C db fid =
     (case user_message_range fid of
        Ok opts \<Rightarrow>
          map_option (\<lambda>r. mapOk r fst)
            (RocksDB_forEachIteratorByOpts fuel db opts
               (\<lambda>messages key buffer. mapOk (messageDecode C buffer) (\<lambda>m. (messages @ [m], False))) [])
      | Err e \<Rightarrow> Some (Err e)
      | Throw t \<Rightarrow> Some (Throw t))"

text \<open>\<open>cb\<close> acts on the caller's state and may throw.\<close>

definition forEachMessageBySigner ::
  "nat \<Rightarrow> proto_codec \<Rightarrow> rocksdb \<Rightarrow> number \<Rightarrow> bytes \<Rightarrow> ('st \<Rightarrow> Message \<Rightarrow> 'st outcome) \<Rightarrow>
   int option \<Rightarrow> 'st \<Rightarrow> 'st outcome option" where
  "forEachMessageBySigner fuel C db fid signer cb messageType st =
     (case user_message_range fid of
        Ok opts \<Rightarrow>
          map_option (\<lambda>r. mapOk r fst)
            (RocksDB_forEachIteratorByOpts fuel db opts
               (\<lambda>st key val.
                  andThen (messageDecode C val) (\<lambda>decoded.
                    let isCorrectType =
                          (messageType = None \<or> messageType = map_option md_type (msg_data decoded))
                    in if isCorrectType then
                         andThen (deref (msg_signer decoded)) (\<lambda>s.
                           if bytesCompare s signer = 0 then mapOk (cb st decoded) (\<lambda>st. (st, False))
                           else Ok (st, False))
                       else Ok (st, False))) st)
      | Err e \<Rightarrow> Some (Err e)
      | Throw t \<Rightarrow> Some (Throw t))"

text \<open>Page options as they come from the interface: an empty token is still a token here, and a
  page size of 0 counts as absent.\<close>

definition getPageIteratorOptsByPrefix :: "bytes \<Rightarrow> page_options \<Rightarrow> iterator_options outcome" where
  "getPageIteratorOptsByPrefix pre pageOptions =
     andThen (throwErr (bytesIncrement pre)) (\<lambda>prefixEnd.
       let startKey = (case po_pageToken pageOptions of
                         Some t \<Rightarrow> pre @ t
                       | None \<Rightarrow> if po_reverse pageOptions then prefixEnd else pre)
       in if (case po_pageSize pageOptions of Some n \<Rightarrow> n > PAGE_SIZE_MAX | None \<Rightarrow> False) then
            throw_hub InvalidParam ''pageSize > 10000''
          else if po_reverse pageOptions then
            Ok \<lparr>io_gte = None, io_gt = Some pre, io_lt = Some startKey, io_reverse = True\<rparr>
          else Ok \<lparr>io_gte = None, io_gt = Some startKey, io_lt = Some prefixEnd, io_reverse = False\<rparr>)"

section \<open>Name proofs and the hub state\<close>

definition makeFNameUserNameProofKey :: "bytes \<Rightarrow> bytes" where
  "makeFNameUserNameProofKey name = root_byte FNameUserNameProof # name"

definition makeFNameUserNameProofByFidKey :: "number \<Rightarrow> bytes outcome" where
  "makeFNameUserNameProofByFidKey fid = mapOk (makeFidKey fid) (\<lambda>k. root_byte FNameUserNameProofByFid # k)"

definition getFNameProofByFid :: "proto_codec \<Rightarrow> rocksdb \<Rightarrow> number \<Rightarrow> UserNameProof outcome" where
  "getFNameProofByFid C db fid =
     andThen (makeFNameUserNameProofByFidKey fid) (\<lambda>secondaryKey.
     andThen (RocksDB_get db secondaryKey) (\<lambda>primaryKey.
     andThen (RocksDB_get db primaryKey) (decodeUserNameProof C)))"

definition putUserNameProofTransaction :: "proto_codec \<Rightarrow> transaction \<Rightarrow> UserNameProof \<Rightarrow> transaction outcome" where
  "putUserNameProofTransaction C txn p =
     (let proofBuffer = encodeUserNameProof C p;
          primaryKey = makeFNameUserNameProofKey (unp_name p)
      in mapOk (makeFNameUserNameProofByFidKey (unp_fid p)) (\<lambda>secondaryKey.
           txn_put (txn_put txn primaryKey proofBuffer) secondaryKey primaryKey))"

definition deleteUserNameProofTransaction :: "transaction \<Rightarrow> UserNameProof \<Rightarrow> transaction outcome" where
  "deleteUserNameProofTransaction txn p =
     (let primaryKey = makeFNameUserNameProofKey (unp_name p)
      in mapOk (makeFNameUserNameProofByFidKey (unp_fid p)) (\<lambda>secondaryKey.
           txn_del (txn_del txn primaryKey) secondaryKey))"

text \<open>The state record itself is generated; its coders are parameters.\<close>

definition makeHubStatePrimaryKey :: bytes where
  "makeHubStatePrimaryKey = [root_byte HubStatePrefix]"

definition getHubState :: "(bytes \<Rightarrow> 'h outcome) \<Rightarrow> rocksdb \<Rightarrow> 'h outcome" where
  "getHubState decodeHubState db =
     decodeHubState (case RocksDB_get db makeHubStatePrimaryKey of Ok b \<Rightarrow> b | _ \<Rightarrow> [])"

definition putHubStateTransaction :: "('h \<Rightarrow> bytes) \<Rightarrow> transaction \<Rightarrow> 'h \<Rightarrow> transaction" where
  "putHubStateTransaction encodeHubState txn h = txn_put txn makeHubStatePrimaryKey (encodeHubState h)"

definition putHubState :: "('h \<Rightarrow> bytes) \<Rightarrow> rocksdb \<Rightarrow> 'h \<Rightarrow> unit outcome \<times> rocksdb" where
  "putHubState encodeHubState db h = RocksDB_commit db (putHubStateTransaction encodeHubState [] h)"

section \<open>Facts about keys\<close>

lemma makeUserKey_int [key_simps]:
  "makeUserKey (numI f) = (if u32 f then Ok (1 # be_bytes 4 f) else Throw RangeError)"
  by (simp add: makeUserKey_def makeFidKey_def)

lemma makeMessagePrimaryKey_int [key_simps]:
  "makeMessagePrimaryKey (numI f) pfx h =
     (if u32 f then Ok (1 # be_bytes 4 f @ postfix_byte pfx # (case h of Some x \<Rightarrow> x | None \<Rightarrow> []))
      else Throw RangeError)"
  by (simp add: makeMessagePrimaryKey_def makeUserKey_int)

lemma makeTsHash_Ok [key_simps]:
  "makeTsHash t h = Ok k \<longleftrightarrow> u32 t \<and> (\<exists>x. h = Some x \<and> k = be_bytes 4 t @ x)"
  by (auto simp: makeTsHash_def outcome_simps)

lemma unpack_makeTsHash: "u32 t \<Longrightarrow> length h = 20 \<Longrightarrow>
  andThen (makeTsHash t (Some h)) unpackTsHash = Ok (t, h)"
  by (simp add: makeTsHash_def unpackTsHash_def TSHASH_LENGTH_def readUInt32BE_def be_int_be_bytes)

lemma make_unpackTsHash: "unpackTsHash k = Ok (t, h) \<Longrightarrow> makeTsHash t (Some h) = Ok k"
proof -
  assume "unpackTsHash k = Ok (t, h)"
  then have l: "length k = 24" and t: "t = be_int (take 4 k)" and h: "h = drop 4 k"
    by (auto simp: unpackTsHash_def TSHASH_LENGTH_def readUInt32BE_def outcome_simps split: if_splits)
  have "0 \<le> t \<and> t < 256 ^ 4" using be_int_bound[of "take 4 k"] t l by simp
  moreover have "be_bytes 4 t = take 4 k" unfolding t by (rule be_bytes_be_int) (simp add: l)
  ultimately show ?thesis by (simp add: makeTsHash_Ok h)
qed

lemma tsHash_less:
  assumes "u32 t" "u32 t'"
  shows "be_bytes 4 t @ h < be_bytes 4 t' @ h' \<longleftrightarrow> t < t' \<or> t = t' \<and> h < h'"
  using assms by (simp add: append_less_append be_bytes_less be_bytes_inject)

lemma message_key_Ok:
  "makeMessagePrimaryKeyFromMessage m = Ok k \<longleftrightarrow>
   (\<exists>d h t pfx b. msg_data m = Some d \<and> msg_hash m = Some h \<and> t = md_timestamp d \<and> u32 t \<and>
      typeToSetPostfix (md_type d) = Ok pfx \<and>
      writeUInt32BE (md_fid d) = Ok b \<and> k = 1 # b @ postfix_byte pfx # be_bytes 4 t @ h)"
proof (cases "msg_data m")
  case None
  then show ?thesis by (simp add: makeMessagePrimaryKeyFromMessage_def)
next
  case (Some d)
  have t: "throwErr r = Ok x \<longleftrightarrow> r = Ok x" for r :: "bytes outcome" and x by (cases r) auto
  from Some show ?thesis
    by (auto simp: makeMessagePrimaryKeyFromMessage_def makeMessagePrimaryKey_def makeUserKey_def
        makeFidKey_def outcome_simps t makeTsHash_Ok)
qed

lemma typeToSetPostfix_values:
  "typeToSetPostfix t = Ok p \<Longrightarrow>
   p \<in> {CastMessage, ReactionMessage, VerificationMessage, UserDataMessage, LinkMessage,
        UsernameProofMessage, LinkCompactStateMessage}"
  by (auto simp: typeToSetPostfix_def split: if_splits)

text \<open>Two messages share a primary key only if they agree on fid, set, timestamp and hash.\<close>

lemma message_key_inject:
  assumes "makeMessagePrimaryKeyFromMessage m = Ok k" "makeMessagePrimaryKeyFromMessage m' = Ok k"
    and "msg_data m = Some d" "msg_data m' = Some d'" "md_fid d = numI f" "md_fid d' = numI f'"
  shows "f = f' \<and> typeToSetPostfix (md_type d) = typeToSetPostfix (md_type d') \<and>
         md_timestamp d = md_timestamp d' \<and> msg_hash m = msg_hash m'"
proof -
  obtain h p where a: "msg_hash m = Some h" "u32 (md_timestamp d)" "typeToSetPostfix (md_type d) = Ok p"
      "u32 f" "k = 1 # be_bytes 4 f @ postfix_byte p # be_bytes 4 (md_timestamp d) @ h"
    using assms(1,3,5) unfolding message_key_Ok by (auto split: if_splits)
  obtain h' p' where b: "msg_hash m' = Some h'" "u32 (md_timestamp d')" "typeToSetPostfix (md_type d') = Ok p'"
      "u32 f'" "k = 1 # be_bytes 4 f' @ postfix_byte p' # be_bytes 4 (md_timestamp d') @ h'"
    using assms(2,4,6) unfolding message_key_Ok by (auto split: if_splits)
  from a(5) b(5) have "be_bytes 4 f = be_bytes 4 f'" "p = p'"
      "be_bytes 4 (md_timestamp d) = be_bytes 4 (md_timestamp d')" "h = h'"
    by (auto simp: append_eq_append_conv)
  with a b show ?thesis by (simp add: be_bytes_inject)
qed

section \<open>Reading back\<close>

text \<open>The law of the generated coders for one message: what is encoded decodes to the same.\<close>

definition codec_law :: "proto_codec \<Rightarrow> Message \<Rightarrow> bool" where
  "codec_law C m \<longleftrightarrow> encodeMessage C m \<noteq> [] \<and> decodeMessage C (encodeMessage C m) = Ok m"

text \<open>A stored message: its data is what its data bytes decode to, when it has them.\<close>

definition storable :: "proto_codec \<Rightarrow> Message \<Rightarrow> bool" where
  "storable C m \<longleftrightarrow>
     codec_law C m \<and>
     (has_dataBytes m \<longrightarrow>
        codec_law C (m\<lparr>msg_data := None\<rparr>) \<and>
        (\<exists>d. msg_data m = Some d \<and> decodeMessageData C (the (msg_dataBytes m)) = Ok d))"

lemma messageDecode_Encode:
  assumes "storable C m"
  shows "\<exists>b. messageEncode C m = Ok b \<and> b \<noteq> [] \<and> messageDecode C b = Ok m"
proof (cases "has_dataBytes m")
  case True
  with assms obtain d where d: "msg_data m = Some d" "decodeMessageData C (the (msg_dataBytes m)) = Ok d"
    by (auto simp: storable_def)
  have "has_dataBytes (m\<lparr>msg_data := None\<rparr>)" using True by (simp add: has_dataBytes_def)
  moreover have "m\<lparr>msg_data := Some d\<rparr> = m" using d(1) by (cases m) simp
  ultimately show ?thesis
    using assms True d(2) by (auto simp: messageEncode_def messageDecode_def storable_def codec_law_def)
next
  case False
  with assms show ?thesis by (auto simp: messageEncode_def messageDecode_def storable_def codec_law_def)
qed

lemma commit_one_put:
  "rdb_native_open db \<Longrightarrow> v \<noteq> [] \<Longrightarrow>
   RocksDB_commit db (txn_put [] k v) = (Ok (), db\<lparr>rdb_disk := db_put k v (rdb_disk db)\<rparr>)"
  by (simp add: RocksDB_commit_def txn_put_def batch_of_def commit_batch_def native_op_def)

lemma commit_one_del:
  "rdb_native_open db \<Longrightarrow>
   RocksDB_commit db (txn_del [] k) = (Ok (), db\<lparr>rdb_disk := db_del k (rdb_disk db)\<rparr>)"
  by (simp add: RocksDB_commit_def txn_del_def batch_of_def commit_batch_def native_op_def)

lemma RocksDB_get_open:
  "rdb_native_open db \<Longrightarrow> db_get (rdb_disk db) k = Some v \<Longrightarrow> RocksDB_get db k = Ok v"
  by (simp add: RocksDB_get_def rethrow_def when_open_def)

lemma RocksDB_get_Ok_iff:
  "RocksDB_get db k = Ok v \<longleftrightarrow> rdb_native_open db \<and> db_get (rdb_disk db) k = Some v"
  by (auto simp: RocksDB_get_def rethrow_def when_open_def split: option.splits)

lemma put_then_get_message:
  assumes "db_inv (rdb_disk db)" "rdb_native_open db" "storable C m"
    and "makeMessagePrimaryKeyFromMessage m = Ok k"
  shows "\<exists>db'. putMessage C db m = (Ok (), db') \<and> db_inv (rdb_disk db') \<and>
      andThen (RocksDB_get db' k) (messageDecode C) = Ok m \<and> isMessageInDB db' m \<and>
      (\<forall>k'. k' \<noteq> k \<longrightarrow> RocksDB_get db' k' = RocksDB_get db k')"
proof -
  obtain b where b: "messageEncode C m = Ok b" "b \<noteq> []" "messageDecode C b = Ok m"
    using messageDecode_Encode[OF assms(3)] by blast
  let ?db' = "db\<lparr>rdb_disk := db_put k b (rdb_disk db)\<rparr>"
  have put: "putMessage C db m = (Ok (), ?db')"
    using assms(2,4) b by (simp add: putMessage_def putMessageTransaction_def commit_result_def commit_one_put)
  have get: "RocksDB_get ?db' k = Ok b"
    by (rule RocksDB_get_open) (simp_all add: assms db_get_put)
  show ?thesis
    using put get b assms
    by (auto simp: isMessageInDB_def db_inv_put RocksDB_get_def when_open_def db_get_put)
qed

lemma delete_then_get_message:
  assumes "db_inv (rdb_disk db)" "rdb_native_open db" "makeMessagePrimaryKeyFromMessage m = Ok k"
  shows "\<exists>db'. deleteMessage db m = (Ok (), db') \<and> db_inv (rdb_disk db') \<and> \<not> isMessageInDB db' m \<and>
      (\<forall>k'. k' \<noteq> k \<longrightarrow> RocksDB_get db' k' = RocksDB_get db k')"
proof -
  let ?db' = "db\<lparr>rdb_disk := db_del k (rdb_disk db)\<rparr>"
  have "deleteMessage db m = (Ok (), ?db')"
    using assms(2,3) by (simp add: deleteMessage_def deleteMessageTransaction_def commit_result_def commit_one_del)
  moreover have "db_get (rdb_disk ?db') k = None" by (simp add: db_get_del)
  then have "\<not> isMessageInDB ?db' m"
    using assms(3) by (auto simp: isMessageInDB_def RocksDB_get_Ok_iff split: outcome.splits)
  ultimately show ?thesis
    using assms by (auto simp: db_inv_del RocksDB_get_def when_open_def db_get_del)
qed

section \<open>All messages of a user\<close>

lemma feed_collect:
  "feed (\<lambda>acc key v. mapOk (f v) (\<lambda>m. (acc @ [m], False))) kvs acc =
   mapOk (mapM (\<lambda>kv. f (snd kv)) kvs) (\<lambda>ms. (acc @ ms, False))"
proof (induction kvs arbitrary: acc)
  case Nil
  then show ?case by simp
next
  case (Cons kv kvs)
  obtain k v where "kv = (k, v)" by (cases kv)
  then show ?case
    by (cases "f v"; cases "mapM (\<lambda>kv. f (snd kv)) kvs") (auto simp: Cons)
qed

lemma user_range_proper:
  "proper_options s \<lparr>io_gte = Some a, io_gt = None, io_lt = Some b, io_reverse = False\<rparr>"
  by (simp add: proper_options_def)

lemma between_prefix: "u \<le> k \<Longrightarrow> k < u @ v \<Longrightarrow> prefix u (k :: 'a :: linorder list)"
proof (induction u arbitrary: k)
  case Nil
  then show ?case by simp
next
  case (Cons a u)
  then show ?case by (cases k) (auto simp: le_less)
qed

lemma prefix_le: "prefix u k \<Longrightarrow> u \<le> (k :: 'a :: linorder list)"
proof -
  have "u \<le> u @ v" for v by (induction u) auto
  then show "prefix u k \<Longrightarrow> u \<le> k" by (auto simp: prefix_def)
qed

text \<open>A key lies in the range of a user's messages exactly when it is a key of that user whose
  postfix byte is at most 85.\<close>

lemma user_range_key:
  assumes "prefix (1 # be_bytes 4 f) k \<longrightarrow> 5 < length k"
  shows "in_bounds \<lparr>io_gte = Some (1 # be_bytes 4 f), io_gt = None,
            io_lt = Some (1 # be_bytes 4 f @ [UserMessagePostfixMax + 1]), io_reverse = False\<rparr> k \<longleftrightarrow>
         prefix (1 # be_bytes 4 f) k \<and> k ! 5 \<le> UserMessagePostfixMax"
proof -
  let ?u = "1 # be_bytes 4 f"
  show ?thesis
  proof (cases "prefix ?u k")
    case True
    with assms have l: "5 < length k" by blast
    have t: "take 5 k = ?u" using True by (auto simp: prefix_def)
    have "k = ?u @ k ! 5 # drop 6 k"
      using id_take_nth_drop[OF l] t by simp
    moreover have "?u @ k ! 5 # drop 6 k < ?u @ [UserMessagePostfixMax + 1] \<longleftrightarrow>
        k ! 5 # drop 6 k < [UserMessagePostfixMax + 1]"
      by (subst append_less_append) simp_all
    moreover have "k ! 5 < UserMessagePostfixMax + 1 \<longleftrightarrow> k ! 5 \<le> UserMessagePostfixMax"
      by (simp add: UserMessagePostfixMax_def word_less_def word_le_def) presburger
    ultimately have "k < ?u @ [UserMessagePostfixMax + 1] \<longleftrightarrow> k ! 5 \<le> UserMessagePostfixMax"
      by (metis Cons_less_Cons Nil_least_list)
    with prefix_le[OF True] True show ?thesis by (simp add: in_bounds_def)
  next
    case False
    with between_prefix[of ?u k "[UserMessagePostfixMax + 1]"] show ?thesis
      by (auto simp: in_bounds_def)
  qed
qed

definition user_messages :: "int \<Rightarrow> store \<Rightarrow> store" where
  "user_messages f s =
     filter (\<lambda>e. prefix (1 # be_bytes 4 f) (fst e) \<and> fst e ! 5 \<le> UserMessagePostfixMax) s"

definition no_bare_user_key :: "int \<Rightarrow> store \<Rightarrow> bool" where
  "no_bare_user_key f s \<longleftrightarrow> (\<forall>e \<in> set s. prefix (1 # be_bytes 4 f) (fst e) \<longrightarrow> 5 < length (fst e))"

lemma user_range_wanted:
  assumes "no_bare_user_key f s"
  shows "wanted s \<lparr>io_gte = Some (1 # be_bytes 4 f), io_gt = None,
      io_lt = Some (1 # be_bytes 4 f @ [UserMessagePostfixMax + 1]), io_reverse = False\<rparr> = user_messages f s"
  unfolding wanted_def user_messages_def Let_def
  using assms by (simp only: iterator_options.simps if_False)
    (rule filter_cong, simp, simp only: no_bare_user_key_def, intro user_range_key, blast)

lemma forEach_user_range:
  assumes "db_inv (rdb_disk db)" "rdb_native_open db" "no_bare_user_key f (rdb_disk db)"
    and "length (rdb_disk db) < fuel"
  shows "RocksDB_forEachIteratorByOpts fuel db
      \<lparr>io_gte = Some (1 # be_bytes 4 f), io_gt = None,
       io_lt = Some (1 # be_bytes 4 f @ [UserMessagePostfixMax + 1]), io_reverse = False\<rparr> cb st =
    Some (single_pass cb (user_messages f (rdb_disk db)) st)"
proof -
  let ?o = "\<lparr>io_gte = Some (1 # be_bytes 4 f), io_gt = None,
       io_lt = Some (1 # be_bytes 4 f @ [UserMessagePostfixMax + 1]), io_reverse = False\<rparr>"
  have w: "wanted (rdb_disk db) (batch_options ?o None) = user_messages f (rdb_disk db)"
    using user_range_wanted[OF assms(3)] by (simp add: batch_options_def)
  have "length (user_messages f (rdb_disk db)) < fuel"
    using assms(4) length_filter_le[of _ "rdb_disk db"] unfolding user_messages_def
    by (rule le_less_trans[rotated])
  then show ?thesis
    using forEach_opts_loop_single_pass[OF assms(1) user_range_proper, of "1 # be_bytes 4 f"
        "1 # be_bytes 4 f @ [UserMessagePostfixMax + 1]" None fuel PAGE_SIZE_MAX cb st] assms(2)
    by (simp add: RocksDB_forEachIteratorByOpts_def rsDbForEachIteratorByOpts_def w)
qed

lemma getAllMessagesByFid_exact:
  assumes "db_inv (rdb_disk db)" "rdb_native_open db" "u32 f" "no_bare_user_key f (rdb_disk db)"
    and "length (rdb_disk db) < fuel"
  shows "getAllMessagesByFid fuel C db (numI f) =
    Some (mapM (\<lambda>e. messageDecode C (snd e)) (user_messages f (rdb_disk db)))"
proof -
  have "mapOk (mapOk (mapOk r (\<lambda>ms. ([] @ ms, False))) (\<lambda>(st, stop). (st, \<not> stop))) fst = r"
    for r :: "Message list outcome"
    by (cases r) simp_all
  with forEach_user_range[OF assms(1,2,4,5), of "\<lambda>acc key v. mapOk (messageDecode C v) (\<lambda>m. (acc @ [m], False))" "[]"]
  show ?thesis
    using assms(3)
    by (simp add: getAllMessagesByFid_def user_message_range_def makeUserKey_int single_pass_def
        feed_collect[of "messageDecode C"])
qed

text \<open>The postfix of a link compact state message is above the maximum, so such a message is not
  among them.\<close>

lemma compact_state_not_listed:
  assumes "makeMessagePrimaryKeyFromMessage m = Ok k" "msg_data m = Some d"
    and "md_type d = LINK_COMPACT_STATE" "md_fid d = numI f"
  shows "prefix (1 # be_bytes 4 f) k \<and> (k, v) \<notin> set (user_messages f s)"
proof -
  from assms obtain h where "u32 f" and k: "k = 1 # be_bytes 4 f @ postfix_byte LinkCompactStateMessage # h"
    by (auto simp: message_key_Ok typeToSetPostfix_def split: if_splits)
  have "k ! 5 = postfix_byte LinkCompactStateMessage"
    unfolding k by (simp add: nth_append)
  then show ?thesis
    by (simp add: k user_messages_def UserMessagePostfixMax_def)
qed

end
