(* ===== verification/Caches.thy ===== *)
theory Caches
  imports MessageDb "HOL-Library.AList"
begin

text \<open>
  \<^verbatim>\<open>utils/lruCache.ts\<close> and \<^verbatim>\<open>utils/ttl_map.ts\<close>. A JavaScript \<^verbatim>\<open>Map\<close> is an association list in
  insertion order. \<^verbatim>\<open>LRUCache.get\<close> waits for the supplied function between its lookup and its
  store; the two halves are separate steps here and \<open>lru_get\<close> is their composition. The interface
  \<open>memo_cache\<close> states what a user of such a cache relies on: as long as the cached entries agree
  with the function that is cached, so do all answers.
\<close>

section \<open>A cache in front of a function\<close>

locale memo_cache =
  fixes empty_cache :: 'c
    and cached :: "'c \<Rightarrow> 'k \<Rightarrow> 'v option"
    and cache_get :: "'k \<Rightarrow> 'v outcome \<Rightarrow> 'c \<Rightarrow> 'v outcome \<times> 'c"
    and cache_invalidate :: "'k \<Rightarrow> 'c \<Rightarrow> 'c"
  assumes cached_empty: "cached empty_cache k = None"
    and get_hit: "cached c k = Some v \<Longrightarrow> fst (cache_get k r c) = Ok v \<or> fst (cache_get k r c) = r"
    and get_miss: "cached c k = None \<Longrightarrow> fst (cache_get k r c) = r"
    and get_cached: "cached (snd (cache_get k r c)) k' = Some v \<Longrightarrow>
           cached c k' = Some v \<or> k' = k \<and> r = Ok v"
    and invalidate_cached: "cached (cache_invalidate k c) k' = (if k' = k then None else cached c k')"
begin

definition coherent :: "('k \<Rightarrow> 'v outcome) \<Rightarrow> 'c \<Rightarrow> bool" where
  "coherent f c \<longleftrightarrow> (\<forall>k v. cached c k = Some v \<longrightarrow> f k = Ok v)"

lemma coherent_empty: "coherent f empty_cache"
  by (simp add: coherent_def cached_empty)

text \<open>A coherent cache answers like the function, and stays coherent.\<close>

lemma coherent_get:
  assumes "coherent f c"
  shows "fst (cache_get k (f k) c) = f k \<and> coherent f (snd (cache_get k (f k) c))"
proof
  show "fst (cache_get k (f k) c) = f k"
    using assms get_hit[of c k _ "f k"] get_miss[of c k "f k"]
    by (cases "cached c k") (auto simp: coherent_def)
  show "coherent f (snd (cache_get k (f k) c))"
    using assms get_cached by (fastforce simp: coherent_def)
qed

text \<open>When the function changes only at one key, invalidating that key keeps the cache coherent.\<close>

lemma coherent_invalidate:
  assumes "coherent f c" "\<forall>k'. k' \<noteq> k \<longrightarrow> g k' = f k'"
  shows "coherent g (cache_invalidate k c)"
  using assms by (auto simp: coherent_def invalidate_cached split: if_splits)

end

section \<open>The double-buffered cache\<close>

record ('k, 'v) lru_cache =
  lru_current :: "('k \<times> 'v) list"
  lru_prev :: "('k \<times> 'v) list"
  lru_maxSize :: nat

definition new_LRUCache :: "nat \<Rightarrow> ('k, 'v) lru_cache" where
  "new_LRUCache maxSize = \<lparr>lru_current = [], lru_prev = [], lru_maxSize = maxSize\<rparr>"

definition lru_rotate :: "('k, 'v) lru_cache \<Rightarrow> ('k, 'v) lru_cache" where
  "lru_rotate c =
     (if length (lru_current c) \<ge> lru_maxSize c then c\<lparr>lru_prev := lru_current c, lru_current := []\<rparr>
      else c)"

text \<open>The part of \<^verbatim>\<open>get\<close> before the supplied function is called: \<open>None\<close> is a miss.\<close>

definition lru_begin :: "'k \<Rightarrow> ('k, 'v) lru_cache \<Rightarrow> 'v option \<times> ('k, 'v) lru_cache" where
  "lru_begin key c =
     (let c = lru_rotate c in
      case map_of (lru_current c) key of
        Some v \<Rightarrow> (Some v, c)
      | None \<Rightarrow>
          (case map_of (lru_prev c) key of
             Some v \<Rightarrow> (Some v, c\<lparr>lru_prev := AList.delete key (lru_prev c),
                                  lru_current := AList.update key v (lru_current c)\<rparr>)
           | None \<Rightarrow> (None, c)))"

text \<open>The part after the function has returned; if it threw, nothing is stored.\<close>

definition lru_finish :: "'k \<Rightarrow> 'v outcome \<Rightarrow> ('k, 'v) lru_cache \<Rightarrow> 'v outcome \<times> ('k, 'v) lru_cache" where
  "lru_finish key r c =
     (case r of
        Ok v \<Rightarrow> (Ok v, c\<lparr>lru_current := AList.update key v (lru_current c)\<rparr>)
      | Err e \<Rightarrow> (Err e, c)
      | Throw t \<Rightarrow> (Throw t, c))"

definition lru_get :: "'k \<Rightarrow> 'v outcome \<Rightarrow> ('k, 'v) lru_cache \<Rightarrow> 'v outcome \<times> ('k, 'v) lru_cache" where
  "lru_get key r c =
     (case lru_begin key c of
        (Some v, c) \<Rightarrow> (Ok v, c)
      | (None, c) \<Rightarrow> lru_finish key r c)"

definition lru_invalidate :: "'k \<Rightarrow> ('k, 'v) lru_cache \<Rightarrow> ('k, 'v) lru_cache" where
  "lru_invalidate key c =
     c\<lparr>lru_current := AList.delete key (lru_current c), lru_prev := AList.delete key (lru_prev c)\<rparr>"

definition lru_clear :: "('k, 'v) lru_cache \<Rightarrow> ('k, 'v) lru_cache" where
  "lru_clear c = c\<lparr>lru_current := [], lru_prev := []\<rparr>"

definition lru_lookup :: "('k, 'v) lru_cache \<Rightarrow> 'k \<Rightarrow> 'v option" where
  "lru_lookup c k = (case map_of (lru_current c) k of Some v \<Rightarrow> Some v | None \<Rightarrow> map_of (lru_prev c) k)"

lemma lookup_rotate: "lru_lookup (lru_rotate c) k = Some v \<Longrightarrow> lru_lookup c k = Some v"
  by (auto simp: lru_lookup_def lru_rotate_def split: if_splits option.splits)

lemma lru_begin_lookup: "fst (lru_begin k c) = lru_lookup (lru_rotate c) k"
  by (simp add: lru_begin_def lru_lookup_def Let_def split: option.splits)

lemma lru_begin_keeps: "lru_lookup (snd (lru_begin k c)) = lru_lookup (lru_rotate c)"
  by (rule ext)
    (auto simp: lru_begin_def lru_lookup_def Let_def update_conv' delete_conv' split: option.splits)

lemma lru_get_lookup:
  "lru_lookup (snd (lru_get k r c)) k' = Some v \<Longrightarrow> lru_lookup c k' = Some v \<or> k' = k \<and> r = Ok v"
proof -
  assume a: "lru_lookup (snd (lru_get k r c)) k' = Some v"
  obtain o' c' where b: "lru_begin k c = (o', c')" by (cases "lru_begin k c")
  have k: "lru_lookup c' = lru_lookup (lru_rotate c)" using lru_begin_keeps[of k c] b by simp
  have "lru_lookup c' k' = Some v \<or> k' = k \<and> r = Ok v"
    using a b
    by (auto simp: lru_get_def lru_finish_def lru_lookup_def update_conv' split: option.splits outcome.splits if_splits)
  then show ?thesis using lookup_rotate k by metis
qed

interpretation lru: memo_cache "new_LRUCache n" lru_lookup lru_get lru_invalidate
proof
  show "lru_lookup (new_LRUCache n) k = None" for k :: 'a
    by (simp add: lru_lookup_def new_LRUCache_def)
next
  fix c :: "('a, 'b) lru_cache" and k v and r :: "'b outcome"
  assume "lru_lookup c k = Some v"
  then show "fst (lru_get k r c) = Ok v \<or> fst (lru_get k r c) = r"
    using lookup_rotate[of c k] lru_begin_lookup[of k c]
    by (cases "lru_begin k c")
      (auto simp: lru_get_def lru_finish_def split: option.splits outcome.splits)
next
  fix c :: "('a, 'b) lru_cache" and k and r :: "'b outcome"
  assume "lru_lookup c k = None"
  then have "fst (lru_begin k c) = None"
    using lookup_rotate[of c k] by (cases "lru_lookup (lru_rotate c) k") (auto simp: lru_begin_lookup)
  then show "fst (lru_get k r c) = r"
    by (cases "lru_begin k c") (auto simp: lru_get_def lru_finish_def split: outcome.splits)
next
  show "lru_lookup (snd (lru_get k r c)) k' = Some v \<Longrightarrow> lru_lookup c k' = Some v \<or> k' = k \<and> r = Ok v"
    for c :: "('a, 'b) lru_cache" and k k' v r by (rule lru_get_lookup)
next
  show "lru_lookup (lru_invalidate k c) k' = (if k' = k then None else lru_lookup c k')"
    for c :: "('a, 'b) lru_cache" and k k'
    by (simp add: lru_lookup_def lru_invalidate_def delete_conv' split: option.splits)
qed

text \<open>The buffers never hold more than \<open>maxSize\<close> entries each, and no key twice.\<close>

definition lru_inv :: "('k, 'v) lru_cache \<Rightarrow> bool" where
  "lru_inv c \<longleftrightarrow>
     0 < lru_maxSize c \<and>
     distinct (map fst (lru_current c)) \<and> distinct (map fst (lru_prev c)) \<and>
     fst ` set (lru_current c) \<inter> fst ` set (lru_prev c) = {} \<and>
     length (lru_current c) \<le> lru_maxSize c \<and> length (lru_prev c) \<le> lru_maxSize c"

lemma length_update_new: "map_of al k = None \<Longrightarrow> length (AList.update k v al) = Suc (length al)"
  by (induction al) (auto split: if_splits)

lemma keys_delete: "fst ` set (AList.delete k al) = fst ` set al - {k}"
  by (induction al) auto

lemma distinct_keys_delete: "distinct (map fst al) \<Longrightarrow> distinct (map fst (AList.delete k al))"
  by (induction al) (auto simp: keys_delete)

lemma length_delete_bound: "length al \<le> n \<Longrightarrow> length (AList.delete k al) \<le> n"
  using length_delete_le[of k al] by simp

lemma lru_inv_new: "0 < n \<Longrightarrow> lru_inv (new_LRUCache n)"
  by (simp add: lru_inv_def new_LRUCache_def)

lemma lru_inv_rotate:
  "lru_inv c \<Longrightarrow> lru_inv (lru_rotate c) \<and> length (lru_current (lru_rotate c)) < lru_maxSize c \<and>
     lru_maxSize (lru_rotate c) = lru_maxSize c"
  by (auto simp: lru_inv_def lru_rotate_def)

lemma lru_inv_invalidate: "lru_inv c \<Longrightarrow> lru_inv (lru_invalidate k c)"
  by (auto simp: lru_inv_def lru_invalidate_def distinct_keys_delete keys_delete length_delete_bound)

lemma lru_inv_get: "lru_inv c \<Longrightarrow> lru_inv (snd (lru_get k r c))"
proof -
  assume inv: "lru_inv c"
  let ?c = "lru_rotate c"
  from lru_inv_rotate[OF inv] have i: "lru_inv ?c" "length (lru_current ?c) < lru_maxSize ?c" by simp_all
  show ?thesis
  proof (cases "map_of (lru_current ?c) k")
    case (Some v)
    with i show ?thesis by (simp add: lru_get_def lru_begin_def Let_def)
  next
    case None
    then have new: "k \<notin> fst ` set (lru_current ?c)" by (simp add: map_of_eq_None_iff)
    show ?thesis
    proof (cases "map_of (lru_prev ?c) k")
      case (Some v)
      with i None new show ?thesis
        by (auto simp: lru_get_def lru_begin_def Let_def lru_inv_def distinct_update distinct_keys_delete
            length_update_new dom_update keys_delete length_delete_bound)
    next
      case None': None
      then have "k \<notin> fst ` set (lru_prev ?c)" by (simp add: map_of_eq_None_iff)
      with i None None' new show ?thesis
        by (auto simp: lru_get_def lru_begin_def lru_finish_def Let_def lru_inv_def distinct_update
            length_update_new dom_update split: outcome.splits)
    qed
  qed
qed

text \<open>The window the two halves leave open: an invalidation while the function runs is lost, and
  the value read before it stays in the cache.\<close>

lemma lru_invalidate_race:
  assumes "lru_begin k c = (None, c')"
  shows "lru_lookup (snd (lru_finish k (Ok v) (lru_invalidate k c'))) k = Some v"
  by (simp add: lru_finish_def lru_lookup_def update_conv')

section \<open>The map with a time to live\<close>

record ('k, 'v) ttl_map =
  ttl_entries :: "('k \<times> 'v \<times> int) list"
  ttl_ttl :: int
  ttl_lastCleanup :: int
  ttl_cleanupInterval :: int
  ttl_nonExpiredCount :: int

text \<open>\<open>now\<close> is \<^verbatim>\<open>Date.now()\<close> at the call.\<close>

definition new_TTLMap :: "int \<Rightarrow> int option \<Rightarrow> int \<Rightarrow> ('k, 'v) ttl_map" where
  "new_TTLMap ttl cleanupInterval now =
     \<lparr>ttl_entries = [], ttl_ttl = ttl, ttl_lastCleanup = now,
      ttl_cleanupInterval =
        (case cleanupInterval of Some i \<Rightarrow> if i \<noteq> 0 then i else ttl div 2 | None \<Rightarrow> ttl div 2),
      ttl_nonExpiredCount = 0\<rparr>"

definition ttl_cleanupIfNeeded :: "int \<Rightarrow> ('k, 'v) ttl_map \<Rightarrow> ('k, 'v) ttl_map" where
  "ttl_cleanupIfNeeded now m =
     (if now - ttl_lastCleanup m > ttl_cleanupInterval m then
        (let live = filter (\<lambda>e. \<not> snd (snd e) \<le> now) (ttl_entries m)
         in m\<lparr>ttl_entries := live, ttl_lastCleanup := now, ttl_nonExpiredCount := int (length live)\<rparr>)
      else m)"

definition ttl_set :: "'k \<Rightarrow> 'v \<Rightarrow> int \<Rightarrow> ('k, 'v) ttl_map \<Rightarrow> ('k, 'v) ttl_map" where
  "ttl_set key v now m =
     (let expiresAt = now + ttl_ttl m;
          m = (if map_of (ttl_entries m) key = None
               then m\<lparr>ttl_nonExpiredCount := ttl_nonExpiredCount m + 1\<rparr> else m);
          m = m\<lparr>ttl_entries := AList.update key (v, expiresAt) (ttl_entries m)\<rparr>
      in ttl_cleanupIfNeeded now m)"

definition ttl_get :: "'k \<Rightarrow> int \<Rightarrow> ('k, 'v) ttl_map \<Rightarrow> 'v option \<times> ('k, 'v) ttl_map" where
  "ttl_get key now m =
     (case map_of (ttl_entries m) key of
        Some (v, expiresAt) \<Rightarrow>
          if expiresAt > now then (Some v, m)
          else (None, m\<lparr>ttl_entries := AList.delete key (ttl_entries m),
                        ttl_nonExpiredCount := ttl_nonExpiredCount m - 1\<rparr>)
      | None \<Rightarrow> (None, m))"

definition ttl_delete :: "'k \<Rightarrow> int \<Rightarrow> ('k, 'v) ttl_map \<Rightarrow> bool \<times> ('k, 'v) ttl_map" where
  "ttl_delete key now m =
     (case map_of (ttl_entries m) key of
        Some (v, expiresAt) \<Rightarrow>
          (let m = (if expiresAt > now then m\<lparr>ttl_nonExpiredCount := ttl_nonExpiredCount m - 1\<rparr> else m)
           in (True, m\<lparr>ttl_entries := AList.delete key (ttl_entries m)\<rparr>))
      | None \<Rightarrow> (False, m))"

definition ttl_resetTTL :: "'k \<Rightarrow> int \<Rightarrow> ('k, 'v) ttl_map \<Rightarrow> bool \<times> ('k, 'v) ttl_map" where
  "ttl_resetTTL key now m =
     (case map_of (ttl_entries m) key of
        Some (v, expiresAt) \<Rightarrow>
          (True, m\<lparr>ttl_entries := AList.update key (v, now + ttl_ttl m) (ttl_entries m)\<rparr>)
      | None \<Rightarrow> (False, m))"

definition ttl_getAll :: "int \<Rightarrow> ('k, 'v) ttl_map \<Rightarrow> ('k \<times> 'v) list \<times> ('k, 'v) ttl_map" where
  "ttl_getAll now m =
     (let m = ttl_cleanupIfNeeded now m
      in (map (\<lambda>e. (fst e, fst (snd e))) (filter (\<lambda>e. snd (snd e) > now) (ttl_entries m)), m))"

definition ttl_clear :: "('k, 'v) ttl_map \<Rightarrow> ('k, 'v) ttl_map" where
  "ttl_clear m = m\<lparr>ttl_nonExpiredCount := 0, ttl_entries := []\<rparr>"

definition ttl_size :: "int \<Rightarrow> ('k, 'v) ttl_map \<Rightarrow> int \<times> ('k, 'v) ttl_map" where
  "ttl_size now m = (let m = ttl_cleanupIfNeeded now m in (ttl_nonExpiredCount m, m))"

text \<open>What a reader at time \<open>now\<close> may see.\<close>

definition ttl_live :: "int \<Rightarrow> ('k, 'v) ttl_map \<Rightarrow> 'k \<Rightarrow> 'v option" where
  "ttl_live now m k =
     (case map_of (ttl_entries m) k of Some (v, e) \<Rightarrow> if e > now then Some v else None | None \<Rightarrow> None)"

definition ttl_inv :: "('k, 'v) ttl_map \<Rightarrow> bool" where
  "ttl_inv m \<longleftrightarrow> distinct (map fst (ttl_entries m)) \<and> ttl_nonExpiredCount m = int (length (ttl_entries m))"

lemma map_of_filter_distinct:
  "distinct (map fst al) \<Longrightarrow>
   map_of (filter P al) k = (case map_of al k of Some v \<Rightarrow> if P (k, v) then Some v else None | None \<Rightarrow> None)"
  by (induction al) (auto split: option.splits simp: map_of_eq_None_iff [symmetric])

lemma ttl_live_cleanup:
  "ttl_inv m \<Longrightarrow> ttl_live now (ttl_cleanupIfNeeded now m) = ttl_live now m"
  by (rule ext)
    (auto simp: ttl_live_def ttl_cleanupIfNeeded_def Let_def ttl_inv_def map_of_filter_distinct
      split: option.splits)

lemma ttl_inv_cleanup: "ttl_inv m \<Longrightarrow> ttl_inv (ttl_cleanupIfNeeded now m)"
  by (auto simp: ttl_inv_def ttl_cleanupIfNeeded_def Let_def distinct_map_filter)

lemma length_update_old: "map_of al k \<noteq> None \<Longrightarrow> length (AList.update k v al) = length al"
  by (induction al) (auto split: if_splits)

lemma delete_absent: "k \<notin> fst ` set al \<Longrightarrow> AList.delete k al = al"
  by (induction al) auto

lemma length_delete_distinct:
  "distinct (map fst al) \<Longrightarrow> map_of al k = Some v \<Longrightarrow> length al = Suc (length (AList.delete k al))"
  by (induction al) (auto simp: delete_absent split: if_splits)

lemma ttl_inv_set: "ttl_inv m \<Longrightarrow> ttl_inv (ttl_set k v now m)"
  unfolding ttl_set_def Let_def
  by (rule ttl_inv_cleanup)
    (auto simp: ttl_inv_def distinct_update length_update_new length_update_old)

lemma ttl_inv_get: "ttl_inv m \<Longrightarrow> ttl_inv (snd (ttl_get k now m))"
  by (auto simp: ttl_get_def ttl_inv_def distinct_keys_delete length_delete_distinct split: option.splits)

lemma ttl_inv_resetTTL: "ttl_inv m \<Longrightarrow> ttl_inv (snd (ttl_resetTTL k now m))"
  by (auto simp: ttl_resetTTL_def ttl_inv_def distinct_update length_update_old split: option.splits)

lemma ttl_inv_getAll: "ttl_inv m \<Longrightarrow> ttl_inv (snd (ttl_getAll now m))"
  by (simp add: ttl_getAll_def Let_def ttl_inv_cleanup)

lemma ttl_inv_delete_live:
  assumes "ttl_inv m" "ttl_live now m k \<noteq> None"
  shows "ttl_inv (snd (ttl_delete k now m))"
proof -
  from assms(2) obtain v e where ve: "map_of (ttl_entries m) k = Some (v, e)" "e > now"
    by (auto simp: ttl_live_def split: option.splits if_splits)
  with assms(1) length_delete_distinct[OF _ ve(1)] show ?thesis
    by (simp add: ttl_delete_def ttl_inv_def Let_def distinct_keys_delete)
qed

text \<open>Deleting an expired entry removes it without counting it down: the size is then too big.\<close>

lemma ttl_delete_expired:
  assumes "ttl_inv m" "map_of (ttl_entries m) k = Some (v, e)" "e \<le> now"
  shows "fst (ttl_delete k now m) \<and>
         ttl_nonExpiredCount (snd (ttl_delete k now m)) = int (length (ttl_entries (snd (ttl_delete k now m)))) + 1"
  using assms length_delete_distinct[of "ttl_entries m" k]
  by (simp add: ttl_delete_def ttl_inv_def Let_def)

lemma ttl_live_set:
  "ttl_inv m \<Longrightarrow> 0 < ttl_ttl m \<Longrightarrow>
   ttl_live now (ttl_set k v now m) k' = (if k' = k then Some v else ttl_live now m k')"
proof -
  assume inv: "ttl_inv m" and ttl: "0 < ttl_ttl m"
  let ?m = "(if map_of (ttl_entries m) k = None
               then m\<lparr>ttl_nonExpiredCount := ttl_nonExpiredCount m + 1\<rparr> else m)
            \<lparr>ttl_entries := AList.update k (v, now + ttl_ttl m) (ttl_entries m)\<rparr>"
  have "ttl_inv ?m"
    using inv by (auto simp: ttl_inv_def distinct_update length_update_new length_update_old)
  moreover have "ttl_set k v now m = ttl_cleanupIfNeeded now ?m"
    by (simp add: ttl_set_def Let_def)
  ultimately have "ttl_live now (ttl_set k v now m) k' = ttl_live now ?m k'"
    by (simp only: ttl_live_cleanup)
  also have "\<dots> = (if k' = k then Some v else ttl_live now m k')"
    using ttl by (simp add: ttl_live_def update_conv')
  finally show ?thesis .
qed

lemma ttl_get_live: "fst (ttl_get k now m) = ttl_live now m k"
  by (auto simp: ttl_get_def ttl_live_def split: option.splits)

lemma ttl_getAll_live:
  "ttl_inv m \<Longrightarrow> map_of (fst (ttl_getAll now m)) k = ttl_live now m k"
proof -
  assume inv: "ttl_inv m"
  have f: "map_of (map (\<lambda>e. (fst e, fst (snd e))) al) k = map_option fst (map_of al k)" for al :: "('a \<times> 'b \<times> int) list"
    by (induction al) auto
  have "distinct (map fst (ttl_entries (ttl_cleanupIfNeeded now m)))"
    using ttl_inv_cleanup[OF inv] by (simp add: ttl_inv_def)
  then have "map_of (fst (ttl_getAll now m)) k = ttl_live now (ttl_cleanupIfNeeded now m) k"
    by (simp add: ttl_getAll_def Let_def f map_of_filter_distinct ttl_live_def split: option.splits)
  also have "\<dots> = ttl_live now m k" using ttl_live_cleanup[OF inv, of now] by simp
  finally show ?thesis .
qed

end
