(* ===== verification/OnChainDb.thy ===== *)
theory OnChainDb
  imports Caches
begin

text \<open>
  \<^verbatim>\<open>storage/db/onChainEvent.ts\<close>: the keys of on-chain events and of their secondary indexes, and
  the functions that put, get and page through them. Primary keys of one type and fid sort by
  block number and then log index, so iterating them visits the events in chain order; a page
  read through an index is a prefix of what is left after its token.
\<close>

section \<open>Keys\<close>

datatype OnChainEventPostfix = OnChainEvents | SignerByFid | IdRegisterByFid | IdRegisterByCustodyAddress

fun onchain_byte :: "OnChainEventPostfix \<Rightarrow> byte" where
  "onchain_byte OnChainEvents = 1"
| "onchain_byte SignerByFid = 51"
| "onchain_byte IdRegisterByFid = 52"
| "onchain_byte IdRegisterByCustodyAddress = 53"

lemma onchain_byte_inject [simp]: "onchain_byte a = onchain_byte b \<longleftrightarrow> a = b"
  by (cases a; cases b) simp_all

definition makeBlockNumberKey :: "int \<Rightarrow> bytes outcome" where
  "makeBlockNumberKey blockNumber = writeUInt32BE (numI blockNumber)"

definition makeLogIndexKey :: "int \<Rightarrow> bytes outcome" where
  "makeLogIndexKey logIndex = writeUInt32BE (numI logIndex)"

text \<open>\<^verbatim>\<open>Buffer.from\<close> keeps the low eight bits of a number.\<close>

definition makeOnChainEventPrimaryKey :: "int \<Rightarrow> number \<Rightarrow> int \<Rightarrow> int \<Rightarrow> bytes outcome" where
  "makeOnChainEventPrimaryKey type fid blockNumber logIndex =
     andThen (makeFidKey fid) (\<lambda>f.
     andThen (makeBlockNumberKey blockNumber) (\<lambda>b.
     mapOk (makeLogIndexKey logIndex) (\<lambda>l.
       [root_byte OnChainEventPrefix, onchain_byte OnChainEvents, word_of_int type] @ f @ b @ l)))"

definition makeSignerOnChainEventBySignerKey :: "number \<Rightarrow> bytes \<Rightarrow> bytes outcome" where
  "makeSignerOnChainEventBySignerKey fid signer =
     mapOk (makeFidKey fid) (\<lambda>f. [root_byte OnChainEventPrefix, onchain_byte SignerByFid] @ f @ signer)"

definition makeIdRegisterEventByFidKey :: "number \<Rightarrow> bytes outcome" where
  "makeIdRegisterEventByFidKey fid =
     mapOk (makeFidKey fid) (\<lambda>f. [root_byte OnChainEventPrefix, onchain_byte IdRegisterByFid] @ f)"

definition makeIdRegisterEventByCustodyKey :: "bytes \<Rightarrow> bytes" where
  "makeIdRegisterEventByCustodyKey custodyAddress =
     [root_byte OnChainEventPrefix, onchain_byte IdRegisterByCustodyAddress] @ custodyAddress"

text \<open>\<^verbatim>\<open>if (fid)\<close>: a missing fid and the fid 0 add nothing.\<close>

definition with_fid :: "bytes \<Rightarrow> number option \<Rightarrow> bytes outcome" where
  "with_fid pre fid =
     (case fid of
        None \<Rightarrow> Ok pre
      | Some n \<Rightarrow> if js_truthy n then mapOk (makeFidKey n) (\<lambda>f. pre @ f) else Ok pre)"

definition makeOnChainEventIteratorPrefix :: "int \<Rightarrow> number option \<Rightarrow> bytes outcome" where
  "makeOnChainEventIteratorPrefix type fid =
     with_fid [root_byte OnChainEventPrefix, onchain_byte OnChainEvents, word_of_int type] fid"

definition makeOnChainEventSecondaryIteratorPrefix ::
  "OnChainEventPostfix \<Rightarrow> number option \<Rightarrow> bytes outcome" where
  "makeOnChainEventSecondaryIteratorPrefix pfx fid =
     with_fid [root_byte OnChainEventPrefix, onchain_byte pfx] fid"

section \<open>Reading and writing\<close>

definition getOnChainEventByKey :: "proto_codec \<Rightarrow> rocksdb \<Rightarrow> bytes \<Rightarrow> OnChainEvent outcome" where
  "getOnChainEventByKey C db primaryKey = andThen (RocksDB_get db primaryKey) (decodeOnChainEvent C)"

definition getOnChainEvent ::
  "proto_codec \<Rightarrow> rocksdb \<Rightarrow> int \<Rightarrow> number \<Rightarrow> int \<Rightarrow> int \<Rightarrow> OnChainEvent outcome" where
  "getOnChainEvent C db type fid blockNumber logIndex =
     andThen (makeOnChainEventPrimaryKey type fid blockNumber logIndex) (getOnChainEventByKey C db)"

definition putOnChainEventTransaction :: "proto_codec \<Rightarrow> transaction \<Rightarrow> OnChainEvent \<Rightarrow> transaction outcome" where
  "putOnChainEventTransaction C txn event =
     (let eventBuffer = encodeOnChainEvent C event in
      mapOk (makeOnChainEventPrimaryKey (oce_type event) (oce_fid event) (oce_blockNumber event)
               (oce_logIndex event))
        (\<lambda>primaryKey. txn_put txn primaryKey eventBuffer))"

definition getManyOnChainEvents :: "proto_codec \<Rightarrow> rocksdb \<Rightarrow> bytes list \<Rightarrow> OnChainEvent list outcome" where
  "getManyOnChainEvents C db primaryKeys =
     andThen (RocksDB_getMany db primaryKeys) (\<lambda>buffers.
       mapM (\<lambda>b. decodeOnChainEvent C (case b of Some x \<Rightarrow> x | None \<Rightarrow> [])) buffers)"

text \<open>The callback acts on the caller's state; values are always present here. The result of the
  iteration is not used.\<close>

definition forEachOnChainEvent ::
  "nat \<Rightarrow> proto_codec \<Rightarrow> rocksdb \<Rightarrow> int \<Rightarrow> ('st \<Rightarrow> OnChainEvent \<Rightarrow> 'st outcome) \<Rightarrow> number option \<Rightarrow>
   'st \<Rightarrow> 'st outcome option" where
  "forEachOnChainEvent fuel C db type callback fid st =
     (case makeOnChainEventIteratorPrefix type fid of
        Ok pre \<Rightarrow>
          map_option (\<lambda>r. mapOk r fst)
            (RocksDB_forEachIteratorByPrefix fuel db pre no_page_options
               (\<lambda>st key val. andThen (decodeOnChainEvent C val) (\<lambda>event.
                  mapOk (callback st event) (\<lambda>st. (st, False)))) st)
      | Err e \<Rightarrow> Some (Err e)
      | Throw t \<Rightarrow> Some (Throw t))"

definition onChainEventSorter :: "OnChainEvent \<Rightarrow> OnChainEvent \<Rightarrow> int" where
  "onChainEventSorter a b =
     (if oce_blockNumber a = oce_blockNumber b then oce_logIndex a - oce_logIndex b
      else oce_blockNumber a - oce_blockNumber b)"

text \<open>The state of the page callback: the primary keys read, the token and \<^verbatim>\<open>iteratorFinished\<close>.\<close>

definition page_callback :: "nat \<Rightarrow> nat \<Rightarrow> (bytes list \<times> bytes option \<times> bool) callback" where
  "page_callback limit prefixLength st key val =
     (case st of (keys, token, finished) \<Rightarrow>
        (let keys = keys @ [val] in
         if length keys \<ge> limit then Ok ((keys, Some (drop prefixLength key), False), True)
         else Ok ((keys, token, finished), False)))"

definition page_limit :: "page_options \<Rightarrow> nat" where
  "page_limit pageOptions =
     (case po_pageSize pageOptions of Some n \<Rightarrow> if n \<noteq> 0 then n else PAGE_SIZE_MAX | None \<Rightarrow> PAGE_SIZE_MAX)"

definition getOnChainEventsPageByPrefix ::
  "nat \<Rightarrow> proto_codec \<Rightarrow> rocksdb \<Rightarrow> bytes \<Rightarrow> (OnChainEvent \<Rightarrow> bool) \<Rightarrow> page_options \<Rightarrow>
   (OnChainEvent list \<times> bytes option) outcome option" where
  "getOnChainEventsPageByPrefix fuel C db pre event_filter pageOptions =
     (case getPageIteratorOptsByPrefix pre pageOptions of
        Ok iteratorOpts \<Rightarrow>
          map_option (\<lambda>r. andThen r (\<lambda>((eventsPrimaryKeys, lastPageToken, iteratorFinished), _).
              mapOk (getManyOnChainEvents C db eventsPrimaryKeys) (\<lambda>events.
                let events = filter event_filter events in
                if \<not> iteratorFinished then (events, lastPageToken) else (events, None))))
            (RocksDB_forEachIteratorByOpts fuel db iteratorOpts
               (page_callback (page_limit pageOptions) (length pre)) ([], None, True))
      | Err e \<Rightarrow> Some (Err e)
      | Throw t \<Rightarrow> Some (Throw t))"

section \<open>Facts about keys\<close>

lemma makeOnChainEventPrimaryKey_int [key_simps]:
  "makeOnChainEventPrimaryKey t (numI f) b l =
     (if u32 f \<and> u32 b \<and> u32 l then
        Ok (23 # 1 # word_of_int t # be_bytes 4 f @ be_bytes 4 b @ be_bytes 4 l)
      else Throw RangeError)"
  by (simp add: makeOnChainEventPrimaryKey_def makeFidKey_def makeBlockNumberKey_def makeLogIndexKey_def)

lemma onchain_key_inject:
  assumes "makeOnChainEventPrimaryKey t (numI f) b l = Ok k"
    and "makeOnChainEventPrimaryKey t' (numI f') b' l' = Ok k" "0 \<le> t" "t < 256" "0 \<le> t'" "t' < 256"
  shows "t = t' \<and> f = f' \<and> b = b' \<and> l = l'"
proof -
  from assms(1,2) have u: "u32 f" "u32 b" "u32 l" "u32 f'" "u32 b'" "u32 l'"
    and k: "23 # 1 # (word_of_int t :: byte) # be_bytes 4 f @ be_bytes 4 b @ be_bytes 4 l =
            23 # 1 # word_of_int t' # be_bytes 4 f' @ be_bytes 4 b' @ be_bytes 4 l'"
    by (auto simp: makeOnChainEventPrimaryKey_int split: if_splits)
  from k have "be_bytes 4 f = be_bytes 4 f'" "be_bytes 4 b = be_bytes 4 b'" "be_bytes 4 l = be_bytes 4 l'"
      "(word_of_int t :: byte) = word_of_int t'"
    by auto
  moreover from this(4) have "t mod 256 = t' mod 256"
    by (simp add: word_of_int_eq_iff take_bit_eq_mod)
  ultimately show ?thesis using u assms(3-) by (simp add: be_bytes_inject)
qed

text \<open>Within one type and fid, keys sort as \<open>onChainEventSorter\<close> sorts the events.\<close>

lemma onchain_key_less:
  assumes "makeOnChainEventPrimaryKey t (numI f) b l = Ok k"
    and "makeOnChainEventPrimaryKey t (numI f) b' l' = Ok k'"
  shows "k < k' \<longleftrightarrow> b < b' \<or> b = b' \<and> l < l'"
proof -
  from assms have u: "u32 f" "u32 b" "u32 l" "u32 b'" "u32 l'"
    and k: "k = 23 # 1 # word_of_int t # be_bytes 4 f @ be_bytes 4 b @ be_bytes 4 l"
      "k' = 23 # 1 # word_of_int t # be_bytes 4 f @ be_bytes 4 b' @ be_bytes 4 l'"
    by (auto simp: makeOnChainEventPrimaryKey_int split: if_splits)
  have "k < k' \<longleftrightarrow> be_bytes 4 b @ be_bytes 4 l < be_bytes 4 b' @ be_bytes 4 l'"
    unfolding k by (simp add: append_less_append)
  also have "\<dots> \<longleftrightarrow> b < b' \<or> b = b' \<and> l < l'"
    using u by (simp add: append_less_append be_bytes_less be_bytes_inject)
  finally show ?thesis .
qed

section \<open>Reading back\<close>

definition event_codec_law :: "proto_codec \<Rightarrow> OnChainEvent \<Rightarrow> bool" where
  "event_codec_law C e \<longleftrightarrow>
     encodeOnChainEvent C e \<noteq> [] \<and> decodeOnChainEvent C (encodeOnChainEvent C e) = Ok e"

lemma put_then_get_event:
  assumes "db_inv (rdb_disk db)" "rdb_native_open db" "event_codec_law C e"
    and "putOnChainEventTransaction C [] e = Ok txn"
  shows "\<exists>db'. RocksDB_commit db txn = (Ok (), db') \<and> db_inv (rdb_disk db') \<and>
     getOnChainEvent C db' (oce_type e) (oce_fid e) (oce_blockNumber e) (oce_logIndex e) = Ok e"
proof -
  from assms(4) obtain k where
    k: "makeOnChainEventPrimaryKey (oce_type e) (oce_fid e) (oce_blockNumber e) (oce_logIndex e) = Ok k"
       "txn = txn_put [] k (encodeOnChainEvent C e)"
    by (auto simp: putOnChainEventTransaction_def outcome_simps)
  let ?db' = "db\<lparr>rdb_disk := db_put k (encodeOnChainEvent C e) (rdb_disk db)\<rparr>"
  have "RocksDB_commit db txn = (Ok (), ?db')"
    using assms(2,3) k(2) by (simp add: commit_one_put event_codec_law_def)
  moreover have "RocksDB_get ?db' k = Ok (encodeOnChainEvent C e)"
    by (rule RocksDB_get_open) (simp_all add: assms db_get_put)
  ultimately show ?thesis
    using assms(1,3) k(1)
    by (simp add: db_inv_put getOnChainEvent_def getOnChainEventByKey_def event_codec_law_def)
qed

text \<open>Folding a throwing step over a list.\<close>

fun foldM :: "('st \<Rightarrow> 'a \<Rightarrow> 'st outcome) \<Rightarrow> 'a list \<Rightarrow> 'st \<Rightarrow> 'st outcome" where
  "foldM f [] st = Ok st"
| "foldM f (x # xs) st = andThen (f st x) (foldM f xs)"

lemma feed_foldM:
  "feed (\<lambda>st key val. mapOk (f st val) (\<lambda>st. (st, False))) kvs st =
   mapOk (foldM (\<lambda>st kv. f st (snd kv)) kvs st) (\<lambda>st. (st, False))"
proof (induction kvs arbitrary: st)
  case Nil
  then show ?case by simp
next
  case (Cons kv kvs)
  then show ?case by (cases kv; cases "f st (snd kv)") auto
qed

lemma single_pass_foldM:
  "mapOk (single_pass (\<lambda>st key val. mapOk (f st val) (\<lambda>st. (st, False))) kvs st) fst =
   foldM (\<lambda>st kv. f st (snd kv)) kvs st"
  by (cases "foldM (\<lambda>st kv. f st (snd kv)) kvs st") (simp_all add: single_pass_def feed_foldM)

definition onchain_entries :: "bytes \<Rightarrow> store \<Rightarrow> store" where
  "onchain_entries pre s = filter (\<lambda>e. prefix pre (fst e)) s"

lemma forEachOnChainEvent_exact:
  assumes "db_inv (rdb_disk db)" "rdb_native_open db"
    and "makeOnChainEventIteratorPrefix type fid = Ok pre" "fixed_layout (rdb_disk db) pre m"
    and "length (rdb_disk db) < fuel"
  shows "forEachOnChainEvent fuel C db type callback fid st =
    Some (foldM (\<lambda>st e. andThen (decodeOnChainEvent C (snd e)) (callback st))
            (onchain_entries pre (rdb_disk db)) st)"
proof -
  let ?f = "\<lambda>st val. andThen (decodeOnChainEvent C val) (callback st)"
  have cb: "(\<lambda>st key val. andThen (decodeOnChainEvent C val) (\<lambda>event.
                  mapOk (callback st event) (\<lambda>st. (st, False)))) =
            (\<lambda>st (key :: bytes) val. mapOk (?f st val) (\<lambda>st. (st, False)))"
  proof (intro ext)
    fix st and key val :: bytes
    show "andThen (decodeOnChainEvent C val) (\<lambda>event. mapOk (callback st event) (\<lambda>st. (st, False))) =
          mapOk (?f st val) (\<lambda>st. (st, False))"
      by (cases "decodeOnChainEvent C val") simp_all
  qed
  have scan: "scan_by_prefix (rdb_disk db) pre no_page_options = onchain_entries pre (rdb_disk db)"
    using scan_first[OF assms(4), of no_page_options]
    by (simp add: onchain_entries_def no_page_options_def page_token_def)
  have "length (onchain_entries pre (rdb_disk db)) < fuel"
    using assms(5) length_filter_le[of _ "rdb_disk db"] unfolding onchain_entries_def
    by (rule le_less_trans[rotated])
  with forEachIteratorByPrefix_single_pass[OF assms(1,4), of no_page_options fuel]
  have "rsDbForEachIteratorByPrefix fuel (rdb_disk db) pre no_page_options cb st =
        Some (single_pass cb (onchain_entries pre (rdb_disk db)) st)" for cb :: "'a callback"
    unfolding scan by (simp add: no_page_options_def)
  with assms(2,3) show ?thesis
    unfolding forEachOnChainEvent_def cb RocksDB_forEachIteratorByPrefix_def
    by (simp add: single_pass_foldM[of ?f])
qed

section \<open>Pages\<close>

lemma feed_page:
  assumes "0 < limit"
  shows "length ks < limit \<Longrightarrow>
   feed (page_callback limit p) kvs (ks, None, True) =
     Ok (let vs = ks @ map snd kvs in
         if length vs < limit then ((vs, None, True), False)
         else ((take limit vs, Some (drop p (fst (kvs ! (limit - length ks - 1)))), False), True))"
proof (induction kvs arbitrary: ks)
  case Nil
  then show ?case by simp
next
  case (Cons kv kvs)
  obtain k v where kv: "kv = (k, v)" by (cases kv)
  show ?case
  proof (cases "Suc (length ks) < limit")
    case True
    then have "limit - length ks - 1 = Suc (limit - Suc (length ks) - 1)" by simp
    with True show ?thesis
      using Cons.IH[of "ks @ [v]"] by (simp add: kv page_callback_def Let_def)
  next
    case False
    with Cons.prems have "limit = Suc (length ks)" by simp
    then show ?thesis by (simp add: kv page_callback_def Let_def)
  qed
qed

text \<open>The entries a page iterator may still visit.\<close>

definition page_remaining :: "store \<Rightarrow> bytes \<Rightarrow> page_options \<Rightarrow> store" where
  "page_remaining s pre opts =
     (let above = (case po_pageToken opts of Some t \<Rightarrow> pre @ t | None \<Rightarrow> pre);
          inside = filter (\<lambda>e. prefix pre (fst e) \<and> fst e \<noteq> pre) s
      in if po_reverse opts then
           rev (filter (\<lambda>e. case po_pageToken opts of Some t \<Rightarrow> fst e < pre @ t | None \<Rightarrow> True) inside)
         else filter (\<lambda>e. above < fst e) inside)"

text \<open>What the paging relies on: the prefix is not all 255, and no key is the prefix itself or a
  proper prefix of its increment.\<close>

definition page_layout :: "store \<Rightarrow> bytes \<Rightarrow> bool" where
  "page_layout s pre \<longleftrightarrow>
     (\<exists>b \<in> set pre. b \<noteq> 255) \<and>
     (\<forall>k \<in> fst ` set s. k \<noteq> pre \<and> (prefix k (increment_vec_u8 pre) \<longrightarrow> length pre \<le> length k))"

lemma page_options_Ok:
  assumes "page_layout s pre" "case po_pageSize opts of Some n \<Rightarrow> n \<le> PAGE_SIZE_MAX | None \<Rightarrow> True"
  shows "\<exists>io. getPageIteratorOptsByPrefix pre opts = Ok io \<and> proper_options s io \<and>
      wanted s io = page_remaining s pre opts"
proof -
  have n255: "\<exists>b \<in> set pre. b \<noteq> 255" using assms(1) by (simp add: page_layout_def)
  have above: "pre @ t < increment_vec_u8 pre" for t
    using prefix_range_increment[OF n255, of "pre @ t"] by simp
  have key: "pre < k \<and> k < increment_vec_u8 pre \<longleftrightarrow> prefix pre k \<and> k \<noteq> pre" if "k \<in> fst ` set s" for k
  proof -
    from that assms(1) have "k \<noteq> pre" "prefix k (increment_vec_u8 pre) \<longrightarrow> length pre \<le> length k"
      by (auto simp: page_layout_def)
    with prefix_range_increment[OF n255, of k] show ?thesis by (auto simp: order_less_le)
  qed
  have le: "pre \<le> pre @ t" for t by (rule prefix_le) simp
  have sz: "\<not> (case po_pageSize opts of Some n \<Rightarrow> n > PAGE_SIZE_MAX | None \<Rightarrow> False)"
    using assms(2) by (auto split: option.splits)
  have ni: "pre \<notin> fst ` set s" using assms(1) by (auto simp: page_layout_def)
  show ?thesis
  proof (cases "po_reverse opts")
    case False
    let ?start = "case po_pageToken opts of Some t \<Rightarrow> pre @ t | None \<Rightarrow> pre"
    let ?io = "\<lparr>io_gte = None, io_gt = Some ?start, io_lt = Some (increment_vec_u8 pre), io_reverse = False\<rparr>"
    have "pre \<le> ?start" using le by (simp split: option.split)
    then have "in_bounds ?io k \<longleftrightarrow> (prefix pre k \<and> k \<noteq> pre) \<and> ?start < k" if "k \<in> fst ` set s" for k
      using key[OF that] by (auto simp: in_bounds_def)
    then have "wanted s ?io = page_remaining s pre opts"
      using False by (auto simp: wanted_def page_remaining_def Let_def intro!: filter_cong)
    moreover have "getPageIteratorOptsByPrefix pre opts = Ok ?io"
      using False sz by (simp add: getPageIteratorOptsByPrefix_def increment_vec_u8_bytesIncrement Let_def)
    ultimately show ?thesis by (simp add: proper_options_def)
  next
    case True
    let ?hi = "case po_pageToken opts of Some t \<Rightarrow> pre @ t | None \<Rightarrow> increment_vec_u8 pre"
    let ?io = "\<lparr>io_gte = None, io_gt = Some pre, io_lt = Some ?hi, io_reverse = True\<rparr>"
    have "in_bounds ?io k \<longleftrightarrow> (prefix pre k \<and> k \<noteq> pre) \<and>
        (case po_pageToken opts of Some t \<Rightarrow> k < pre @ t | None \<Rightarrow> True)" if "k \<in> fst ` set s" for k
      using key[OF that] order_less_trans[OF _ above, of k] by (auto simp: in_bounds_def split: option.split)
    then have "wanted s ?io = page_remaining s pre opts"
      using True by (auto simp: wanted_def page_remaining_def Let_def intro!: filter_cong arg_cong[where f = rev])
    moreover have "getPageIteratorOptsByPrefix pre opts = Ok ?io"
      using True sz by (simp add: getPageIteratorOptsByPrefix_def increment_vec_u8_bytesIncrement Let_def)
    ultimately show ?thesis using ni by (simp add: proper_options_def)
  qed
qed

lemma page_limit_pos: "0 < page_limit opts"
  by (simp add: page_limit_def PAGE_SIZE_MAX_def split: option.split)

lemma page_remaining_length: "length (page_remaining s pre opts) \<le> length s"
  unfolding page_remaining_def Let_def
  by (auto intro: le_trans[OF length_filter_le])

text \<open>A page holds the events of the first \<open>limit\<close> entries that remain, and its token is the rest of
  the last key when it is full.\<close>

lemma getOnChainEventsPage_exact:
  assumes "db_inv (rdb_disk db)" "rdb_native_open db" "page_layout (rdb_disk db) pre"
    and "case po_pageSize opts of Some n \<Rightarrow> n \<le> PAGE_SIZE_MAX | None \<Rightarrow> True"
    and "length (rdb_disk db) < fuel"
  shows "getOnChainEventsPageByPrefix fuel C db pre event_filter opts =
    (let rest = page_remaining (rdb_disk db) pre opts; limit = page_limit opts
     in Some (mapOk (getManyOnChainEvents C db (map snd (take limit rest))) (\<lambda>events.
          (filter event_filter events,
           if length rest < limit then None else Some (drop (length pre) (fst (rest ! (limit - 1))))))))"
proof -
  obtain io where io: "getPageIteratorOptsByPrefix pre opts = Ok io" "proper_options (rdb_disk db) io"
      "wanted (rdb_disk db) io = page_remaining (rdb_disk db) pre opts"
    using page_options_Ok[OF assms(3,4)] by blast
  let ?r = "page_remaining (rdb_disk db) pre opts"
  have len: "length ?r < fuel"
    using page_remaining_length[of "rdb_disk db" pre opts] assms(5) by simp
  have w: "wanted (rdb_disk db) (batch_options io None) = ?r"
    using io(3) by (simp add: batch_options_def)
  have pass: "RocksDB_forEachIteratorByOpts fuel db io cb st = Some (single_pass cb ?r st)"
    for cb :: "(bytes list \<times> bytes option \<times> bool) callback" and st
    using forEach_opts_loop_single_pass[OF assms(1) io(2), of None fuel PAGE_SIZE_MAX cb st] len w assms(2)
    by (simp add: RocksDB_forEachIteratorByOpts_def rsDbForEachIteratorByOpts_def)
  show ?thesis
    using feed_page[OF page_limit_pos, of "[]" opts "length pre" ?r] page_limit_pos[of opts]
    by (auto simp: getOnChainEventsPageByPrefix_def io(1) pass single_pass_def Let_def take_map)
qed

text \<open>With that token, what remains is what the page left.\<close>

lemma page_remaining_next:
  assumes "db_inv s" "n < length (page_remaining s pre opts)"
    and "fst (page_remaining s pre opts ! n) = k"
  shows "page_remaining s pre (opts\<lparr>po_pageToken := Some (drop (length pre) k)\<rparr>) =
         drop (Suc n) (page_remaining s pre opts)"
proof -
  let ?r = "page_remaining s pre opts"
  obtain v where kv: "?r ! n = (k, v)" using assms(3) by (cases "?r ! n") auto
  have split: "?r = take n ?r @ (k, v) # drop (Suc n) ?r"
    using id_take_nth_drop[OF assms(2)] kv by simp
  have "(k, v) \<in> set ?r" using kv assms(2) by (metis nth_mem)
  then have pk: "prefix pre k"
    by (auto simp: page_remaining_def Let_def split: if_splits)
  then have k: "pre @ drop (length pre) k = k" by (auto simp: prefix_def)
  show ?thesis
  proof (cases "po_reverse opts")
    case False
    let ?P = "\<lambda>e. (case po_pageToken opts of Some t \<Rightarrow> pre @ t | None \<Rightarrow> pre) < fst e \<and> (prefix pre (fst e) \<and> fst e \<noteq> pre)"
    have r: "?r = filter ?P s" using False by (simp add: page_remaining_def Let_def conj_commute conj_left_commute)
    have rs: "filter ?P s = take n ?r @ (k, v) # drop (Suc n) ?r"
      using split by (simp only: r [symmetric])
    have "(case po_pageToken opts of Some t \<Rightarrow> pre @ t | None \<Rightarrow> pre) < k"
      using \<open>(k, v) \<in> set ?r\<close> unfolding r by simp
    then have "filter (\<lambda>e. k < fst e \<and> (prefix pre (fst e) \<and> fst e \<noteq> pre)) s = drop (Suc n) ?r"
      by (intro cut_filter_after[OF assms(1) rs]) (auto dest: order_less_trans)
    with False k show ?thesis
      by (simp add: page_remaining_def Let_def conj_commute conj_left_commute)
  next
    case True
    let ?P = "\<lambda>e. (prefix pre (fst e) \<and> fst e \<noteq> pre) \<and> (case po_pageToken opts of Some t \<Rightarrow> fst e < pre @ t | None \<Rightarrow> True)"
    have r: "rev ?r = filter ?P s" using True by (simp add: page_remaining_def Let_def conj_commute conj_left_commute)
    have rs: "filter ?P s = rev (drop (Suc n) ?r) @ (k, v) # rev (take n ?r)"
      unfolding r [symmetric] by (subst (1) split) simp
    have lt: "case po_pageToken opts of Some t \<Rightarrow> k < pre @ t | None \<Rightarrow> True"
    proof -
      have "(k, v) \<in> set (filter ?P s)" unfolding rs by simp
      then show ?thesis by (auto split: option.splits)
    qed
    have "filter (\<lambda>e. (prefix pre (fst e) \<and> fst e \<noteq> pre) \<and> fst e < k) s = rev (drop (Suc n) ?r)"
      by (rule cut_filter_before[OF assms(1) rs])
        (use lt in \<open>auto split: option.splits dest: order_less_trans\<close>)
    with True k show ?thesis
      by (simp add: page_remaining_def Let_def conj_commute conj_left_commute)
  qed
qed

end
