(* ===== verification/StorageCache.thy ===== *)
theory StorageCache
  imports OnChainDb
begin

text \<open>
  \<^verbatim>\<open>storage/stores/storageCache.ts\<close>: per user and set the number of messages and the earliest
  tsHash, per user the storage slot. A call runs to its end before the next one starts, except
  that a message count scan is also given as its two halves (\<open>count_begin\<close>, \<open>scan_finish\<close>), between
  which other calls may run. A result of \<open>None\<close> is a promise that never settles (or, for the
  operations with fuel, an iteration out of fuel). The lemmas show when the counts and the
  earliest tsHashes agree with the database, and what a slot adds up to.
\<close>

definition MAX_PENDING_MESSAGE_COUNT_SCANS :: nat where
  "MAX_PENDING_MESSAGE_COUNT_SCANS = 100"

definition makeKey :: "number \<Rightarrow> UserPostfix \<Rightarrow> js_string outcome" where
  "makeKey fid pfx = mapOk (makeFidKey fid) (\<lambda>f. buffer_hex (f @ [postfix_byte pfx]))"

record StorageSlot =
  slot_legacy_units :: int
  slot_units :: int
  slot_invalidateAt :: int

definition storageSlotFromEvent :: "OnChainEvent \<Rightarrow> StorageSlot outcome" where
  "storageSlotFromEvent event =
     (let isLegacy = (getStorageUnitType event = UNIT_TYPE_LEGACY) in
      andThen (deref (oce_storageRentEventBody event)) (\<lambda>b.
      mapOk (unwrapOr (toFarcasterTime (getStorageUnitExpiry event * 1000)) 0) (\<lambda>t.
        \<lparr>slot_legacy_units = (if isLegacy then sreb_units b else 0),
         slot_units = (if isLegacy then 0 else sreb_units b), slot_invalidateAt = t\<rparr>)))"

record storage_cache =
  sc_counts :: "js_string \<rightharpoonup> int"
  sc_pendingMessageCountScans :: "js_string list"
  sc_earliestTsHashes :: "js_string \<rightharpoonup> bytes"
  sc_activeStorageSlots :: "number \<rightharpoonup> StorageSlot"

definition new_StorageCache :: "(js_string \<rightharpoonup> int) option \<Rightarrow> storage_cache" where
  "new_StorageCache usage =
     \<lparr>sc_counts = (case usage of Some u \<Rightarrow> u | None \<Rightarrow> Map.empty), sc_pendingMessageCountScans = [],
      sc_earliestTsHashes = Map.empty, sc_activeStorageSlots = Map.empty\<rparr>"

section \<open>Storage slots\<close>

definition merge_slot :: "StorageSlot \<Rightarrow> StorageSlot \<Rightarrow> StorageSlot" where
  "merge_slot existing rent =
     \<lparr>slot_legacy_units = slot_legacy_units rent + slot_legacy_units existing,
      slot_units = slot_units rent + slot_units existing,
      slot_invalidateAt =
        (if slot_invalidateAt existing < slot_invalidateAt rent then slot_invalidateAt existing
         else slot_invalidateAt rent)\<rparr>"

text \<open>One rent event at Farcaster time \<open>time\<close>: an expired one is ignored.\<close>

definition add_slot ::
  "int \<Rightarrow> OnChainEvent \<Rightarrow> (number \<rightharpoonup> StorageSlot) \<Rightarrow> (number \<rightharpoonup> StorageSlot) outcome" where
  "add_slot time event slots =
     mapOk (storageSlotFromEvent event) (\<lambda>rent.
       if slot_invalidateAt rent < time then slots
       else (case slots (oce_fid event) of
               Some existing \<Rightarrow> slots(oce_fid event \<mapsto> merge_slot existing rent)
             | None \<Rightarrow> slots(oce_fid event \<mapsto> rent)))"

text \<open>\<^verbatim>\<open>addRent\<close>; when the clock gives no Farcaster time, nothing happens.\<close>

definition addRent :: "int \<Rightarrow> OnChainEvent \<Rightarrow> storage_cache \<Rightarrow> unit outcome \<times> storage_cache" where
  "addRent now event c =
     (case getFarcasterTime now of
        Ok time \<Rightarrow>
          (case add_slot time event (sc_activeStorageSlots c) of
             Ok slots \<Rightarrow> (Ok (), c\<lparr>sc_activeStorageSlots := slots\<rparr>)
           | Err e \<Rightarrow> (Err e, c)
           | Throw t \<Rightarrow> (Throw t, c))
      | Err e \<Rightarrow> (Ok (), c)
      | Throw t \<Rightarrow> (Throw t, c))"

text \<open>The callback of \<^verbatim>\<open>syncFromDb\<close>.\<close>

definition sync_step ::
  "int \<Rightarrow> (number \<rightharpoonup> StorageSlot) \<Rightarrow> OnChainEvent \<Rightarrow> (number \<rightharpoonup> StorageSlot) outcome" where
  "sync_step time slots event =
     (if isStorageRentOnChainEvent event then add_slot time event slots else Ok slots)"

text \<open>\<^verbatim>\<open>syncFromDb\<close> without its progress bar (whose total is the count of the first line). The slots are
  added to those already there. When the iteration throws, the hub does not start; the slots
  added before that are not in the result here.\<close>

definition syncFromDb ::
  "nat \<Rightarrow> proto_codec \<Rightarrow> rocksdb \<Rightarrow> int \<Rightarrow> storage_cache \<Rightarrow> unit outcome option \<times> storage_cache" where
  "syncFromDb fuel C db now c =
     (case RocksDB_countKeysAtPrefix db [root_byte OnChainEventPrefix, onchain_byte IdRegisterByFid] of
        Err e \<Rightarrow> (Some (Err e), c)
      | Throw t \<Rightarrow> (Some (Throw t), c)
      | Ok totalFids \<Rightarrow>
          (case (case getFarcasterTime now of
                   Ok time \<Rightarrow>
                     forEachOnChainEvent fuel C db EVENT_TYPE_STORAGE_RENT (sync_step time) None
                       (sc_activeStorageSlots c)
                 | _ \<Rightarrow> Some (Ok (sc_activeStorageSlots c))) of
             None \<Rightarrow> (None, c)
           | Some (Err e) \<Rightarrow> (Some (Err e), c)
           | Some (Throw t) \<Rightarrow> (Some (Throw t), c)
           | Some (Ok slots) \<Rightarrow>
               (let c = c\<lparr>sc_activeStorageSlots := slots, sc_counts := Map.empty,
                          sc_earliestTsHashes := Map.empty\<rparr>
                in if rdb_status db \<noteq> DbOpen then
                     (Some (throw_hub StorageFailure
                        ''cannot prepopulate message counts, db is not open''), c)
                   else (Some (Ok ()), c))))"

text \<open>The callback of \<^verbatim>\<open>getCurrentStorageSlotForFid\<close>.\<close>

definition recount_step :: "int \<Rightarrow> StorageSlot \<Rightarrow> OnChainEvent \<Rightarrow> StorageSlot outcome" where
  "recount_step time newSlot event =
     (if isStorageRentOnChainEvent event then
        mapOk (storageSlotFromEvent event) (\<lambda>rent.
          if slot_invalidateAt rent < time then newSlot
          else \<lparr>slot_legacy_units = slot_legacy_units newSlot + slot_legacy_units rent,
                slot_units = slot_units newSlot + slot_units rent,
                slot_invalidateAt =
                  (if slot_invalidateAt newSlot > slot_invalidateAt rent then slot_invalidateAt rent
                   else slot_invalidateAt newSlot)\<rparr>)
      else Ok newSlot)"

definition no_slot :: "int \<Rightarrow> StorageSlot" where
  "no_slot t = \<lparr>slot_legacy_units = 0, slot_units = 0, slot_invalidateAt = t\<rparr>"

definition getCurrentStorageSlotForFid ::
  "nat \<Rightarrow> proto_codec \<Rightarrow> rocksdb \<Rightarrow> int \<Rightarrow> number \<Rightarrow> storage_cache \<Rightarrow>
   StorageSlot outcome option \<times> storage_cache" where
  "getCurrentStorageSlotForFid fuel C db now fid c =
     (case sc_activeStorageSlots c fid of
        None \<Rightarrow> (Some (Ok (no_slot 0)), c)
      | Some slot \<Rightarrow>
          (case getFarcasterTime now of
             Err e \<Rightarrow> (Some (Err e), c)
           | Throw t \<Rightarrow> (Some (Throw t), c)
           | Ok time \<Rightarrow>
               if slot_invalidateAt slot < time then
                 (case forEachOnChainEvent fuel C db EVENT_TYPE_STORAGE_RENT (recount_step time) (Some fid)
                         (no_slot (time + 365 * 24 * 60 * 60)) of
                    None \<Rightarrow> (None, c)
                  | Some (Ok slot) \<Rightarrow>
                      (Some (Ok slot),
                       c\<lparr>sc_activeStorageSlots := (sc_activeStorageSlots c)(fid \<mapsto> slot)\<rparr>)
                  | Some (Err e) \<Rightarrow> (Some (Err e), c)
                  | Some (Throw t) \<Rightarrow> (Some (Throw t), c))
               else (Some (Ok slot), c)))"

section \<open>Message counts\<close>

datatype count_step = CountValue int | ScanStarted js_string | ScanJoined js_string

definition count_begin ::
  "number \<Rightarrow> UserPostfix \<Rightarrow> bool \<Rightarrow> storage_cache \<Rightarrow> count_step outcome \<times> storage_cache" where
  "count_begin fid pfx forceFetch c =
     (case makeKey fid pfx of
        Err e \<Rightarrow> (Err e, c)
      | Throw t \<Rightarrow> (Throw t, c)
      | Ok key \<Rightarrow>
          if key \<in> set (sc_pendingMessageCountScans c) then (Ok (ScanJoined key), c)
          else if sc_counts c key = None \<and> forceFetch then
            if length (sc_pendingMessageCountScans c) > MAX_PENDING_MESSAGE_COUNT_SCANS then
              (fail StorageFailure ''too many pending message count scans'', c)
            else (Ok (ScanStarted key),
                  c\<lparr>sc_pendingMessageCountScans := sc_pendingMessageCountScans c @ [key]\<rparr>)
          else (Ok (CountValue (case sc_counts c key of Some n \<Rightarrow> n | None \<Rightarrow> 0)), c))"

text \<open>The scan itself. When it throws, nobody catches it: the promise is never resolved and stays
  among the pending ones.\<close>

definition scan_finish ::
  "rocksdb \<Rightarrow> number \<Rightarrow> UserPostfix \<Rightarrow> js_string \<Rightarrow> storage_cache \<Rightarrow> int option \<times> storage_cache" where
  "scan_finish db fid pfx key c =
     (case andThen (makeMessagePrimaryKey fid pfx None) (RocksDB_countKeysAtPrefix db) of
        Ok n \<Rightarrow>
          (Some (int n),
           c\<lparr>sc_counts := (sc_counts c)(key \<mapsto> int n),
             sc_pendingMessageCountScans := removeAll key (sc_pendingMessageCountScans c)\<rparr>)
      | _ \<Rightarrow> (None, c))"

text \<open>A whole call. Between whole calls a scan is pending only when it never settles.\<close>

definition getMessageCount ::
  "rocksdb \<Rightarrow> number \<Rightarrow> UserPostfix \<Rightarrow> bool \<Rightarrow> storage_cache \<Rightarrow> int outcome option \<times> storage_cache" where
  "getMessageCount db fid pfx forceFetch c =
     (case count_begin fid pfx forceFetch c of
        (Ok (CountValue n), c) \<Rightarrow> (Some (Ok n), c)
      | (Ok (ScanJoined key), c) \<Rightarrow> (None, c)
      | (Ok (ScanStarted key), c) \<Rightarrow>
          (case scan_finish db fid pfx key c of
             (Some n, c) \<Rightarrow> (Some (Ok n), c)
           | (None, c) \<Rightarrow> (None, c))
      | (Err e, c) \<Rightarrow> (Some (Err e), c)
      | (Throw t, c) \<Rightarrow> (Some (Throw t), c))"

definition FID_BYTES :: nat where
  "FID_BYTES = 4"

definition getEarliestTsHash ::
  "nat \<Rightarrow> rocksdb \<Rightarrow> number \<Rightarrow> UserPostfix \<Rightarrow> storage_cache \<Rightarrow>
   bytes option outcome option \<times> storage_cache" where
  "getEarliestTsHash fuel db fid pfx c =
     (case makeKey fid pfx of
        Err e \<Rightarrow> (Some (Err e), c)
      | Throw t \<Rightarrow> (Some (Throw t), c)
      | Ok key \<Rightarrow>
          (case getMessageCount db fid pfx True c of
             (None, c) \<Rightarrow> (None, c)
           | (Some (Err e), c) \<Rightarrow> (Some (Err e), c)
           | (Some (Throw t), c) \<Rightarrow> (Some (Throw t), c)
           | (Some (Ok count), c) \<Rightarrow>
               if count = 0 then (Some (Ok None), c)
               else (case sc_earliestTsHashes c key of
                       Some h \<Rightarrow> (Some (Ok (Some h)), c)
                     | None \<Rightarrow>
                         (case makeMessagePrimaryKey fid pfx None of
                            Err e \<Rightarrow> (Some (Err e), c)
                          | Throw t \<Rightarrow> (Some (Throw t), c)
                          | Ok pre \<Rightarrow>
                              (case RocksDB_forEachIteratorByPrefix fuel db pre
                                      (no_page_options\<lparr>po_pageSize := Some 1\<rparr>)
                                      (\<lambda>firstKey k v. Ok (Some k, True)) None of
                                 None \<Rightarrow> (None, c)
                               | Some (Err e) \<Rightarrow> (Some (Err e), c)
                               | Some (Throw t) \<Rightarrow> (Some (Throw t), c)
                               | Some (Ok (None, _)) \<Rightarrow> (Some (Ok None), c)
                               | Some (Ok (Some firstKey, _)) \<Rightarrow>
                                   if firstKey = [] then
                                     (Some (fail StorageFailure
                                        ''could not read earliest message from db''), c)
                                   else (let tsHash = drop (1 + FID_BYTES + 1) firstKey
                                         in (Some (Ok (Some tsHash)),
                                             c\<lparr>sc_earliestTsHashes :=
                                                 (sc_earliestTsHashes c)(key \<mapsto> tsHash)\<rparr>)))))))"

section \<open>Processing events\<close>

text \<open>The common part of \<^verbatim>\<open>addMessage\<close> and \<^verbatim>\<open>removeMessage\<close>: the count goes up or down by \<open>delta\<close>, then the
  earliest tsHash is replaced (\<open>upd\<close> gets the present one and the message's).\<close>

definition account_message ::
  "int \<Rightarrow> (bytes option \<Rightarrow> bytes \<Rightarrow> bytes option) \<Rightarrow> rocksdb \<Rightarrow> Message \<Rightarrow> storage_cache \<Rightarrow>
   unit outcome option \<times> storage_cache" where
  "account_message delta upd db m c =
     (case msg_data m of
        None \<Rightarrow> (Some (Ok ()), c)
      | Some d \<Rightarrow>
          (case andThen (typeToSetPostfix (md_type d)) (\<lambda>pfx.
                  mapOk (makeKey (md_fid d) pfx) (\<lambda>key. (pfx, key))) of
             Err e \<Rightarrow> (Some (Err e), c)
           | Throw t \<Rightarrow> (Some (Throw t), c)
           | Ok (pfx, key) \<Rightarrow>
               (case (case sc_counts c key of
                        Some n \<Rightarrow> (Some (Ok n), c)
                      | None \<Rightarrow> getMessageCount db (md_fid d) pfx True c) of
                  (None, c) \<Rightarrow> (None, c)
                | (Some (Err e), c) \<Rightarrow> (Some (Ok ()), c)
                | (Some (Throw t), c) \<Rightarrow> (Some (Throw t), c)
                | (Some (Ok count), c) \<Rightarrow>
                    (let c = c\<lparr>sc_counts := (sc_counts c)(key \<mapsto> count + delta)\<rparr> in
                     case makeTsHash (md_timestamp d) (msg_hash m) of
                       Err e \<Rightarrow> (Some (Ok ()), c)
                     | Throw t \<Rightarrow> (Some (Throw t), c)
                     | Ok h \<Rightarrow>
                         (Some (Ok ()),
                          c\<lparr>sc_earliestTsHashes :=
                              (sc_earliestTsHashes c)(key := upd (sc_earliestTsHashes c key) h)\<rparr>)))))"

definition addMessage :: "rocksdb \<Rightarrow> Message \<Rightarrow> storage_cache \<Rightarrow> unit outcome option \<times> storage_cache" where
  "addMessage =
     account_message 1 (\<lambda>currentEarliest tsHash.
       case currentEarliest of
         None \<Rightarrow> Some tsHash
       | Some e \<Rightarrow> if bytesCompare e tsHash > 0 then Some tsHash else Some e)"

definition removeMessage :: "rocksdb \<Rightarrow> Message \<Rightarrow> storage_cache \<Rightarrow> unit outcome option \<times> storage_cache" where
  "removeMessage =
     account_message (-1) (\<lambda>currentEarliest tsHash.
       case currentEarliest of
         None \<Rightarrow> None
       | Some e \<Rightarrow> if bytesCompare e tsHash = 0 then None else Some e)"

text \<open>\<^verbatim>\<open>await\<close> of one step, then the next.\<close>

definition then_do ::
  "unit outcome option \<times> storage_cache \<Rightarrow> (storage_cache \<Rightarrow> unit outcome option \<times> storage_cache) \<Rightarrow>
   unit outcome option \<times> storage_cache" where
  "then_do r f = (case r of (Some (Ok _), c) \<Rightarrow> f c | _ \<Rightarrow> r)"

fun removeMessages :: "rocksdb \<Rightarrow> Message list \<Rightarrow> storage_cache \<Rightarrow> unit outcome option \<times> storage_cache" where
  "removeMessages db [] c = (Some (Ok ()), c)"
| "removeMessages db (m # ms) c = then_do (removeMessage db m c) (removeMessages db ms)"

definition processEvent ::
  "rocksdb \<Rightarrow> int \<Rightarrow> HubEvent \<Rightarrow> storage_cache \<Rightarrow> unit outcome option \<times> storage_cache" where
  "processEvent db now event c =
     (if isMergeMessageHubEvent event then
        (case he_mergeMessageBody event of
           Some b \<Rightarrow>
             (case mmb_message b of
                Some m \<Rightarrow> then_do (addMessage db m c) (removeMessages db (mmb_deletedMessages b))
              | None \<Rightarrow> (Some (Throw TypeError), c))
         | None \<Rightarrow> (Some (Throw TypeError), c))
      else if isPruneMessageHubEvent event then
        (case he_pruneMessageBody event of
           Some (Some m) \<Rightarrow> removeMessage db m c | _ \<Rightarrow> (Some (Throw TypeError), c))
      else if isRevokeMessageHubEvent event then
        (case he_revokeMessageBody event of
           Some (Some m) \<Rightarrow> removeMessage db m c | _ \<Rightarrow> (Some (Throw TypeError), c))
      else if isMergeUsernameProofHubEvent event then
        (case he_mergeUsernameProofBody event of
           Some b \<Rightarrow>
             (case mupb_usernameProofMessage b of
                Some m \<Rightarrow> addMessage db m c
              | None \<Rightarrow>
                  (case mupb_deletedUsernameProofMessage b of
                     Some m \<Rightarrow> removeMessage db m c
                   | None \<Rightarrow> (Some (Ok ()), c)))
         | None \<Rightarrow> (Some (Throw TypeError), c))
      else (case he_mergeOnChainEventBody event of
              Some (Some e) \<Rightarrow>
                if isMergeOnChainHubEvent event \<and> isStorageRentOnChainEvent e then
                  map_prod Some id (addRent now e c)
                else (Some (Ok ()), c)
            | _ \<Rightarrow> (Some (Ok ()), c)))"

section \<open>Keys of the maps\<close>

lemma hex_byte_inject:
  "digit_char (unat a div 16) = digit_char (unat b div 16) \<Longrightarrow>
   digit_char (unat a mod 16) = digit_char (unat b mod 16) \<Longrightarrow> a = (b :: byte)"
proof -
  have v: "unat c div 16 < 36" "unat c mod 16 < 36" for c :: byte
  proof -
    have "unat c < 2 ^ LENGTH(8)" by (rule unsigned_less)
    then have "unat c < 256" by simp
    then show "unat c div 16 < 36" "unat c mod 16 < 36" by simp_all
  qed
  have d: "digit_char i = digit_char j \<Longrightarrow> i < 36 \<Longrightarrow> j < 36 \<Longrightarrow> i = j" for i j
    by (metis digit_value_char option.inject)
  assume "digit_char (unat a div 16) = digit_char (unat b div 16)"
    "digit_char (unat a mod 16) = digit_char (unat b mod 16)"
  then have "unat a div 16 = unat b div 16" "unat a mod 16 = unat b mod 16"
    using d v by blast+
  then have "unat a = unat b" by (metis div_mult_mod_eq)
  then show "a = b" by (simp add: word_eq_iff_unsigned [where 'a = nat])
qed

lemma buffer_hex_inject: "buffer_hex a = buffer_hex b \<longleftrightarrow> a = b"
proof
  show "buffer_hex a = buffer_hex b \<Longrightarrow> a = b"
  proof (induction a arbitrary: b)
    case Nil
    then show ?case by (cases b) (simp_all add: buffer_hex_def)
  next
    case (Cons x a)
    then show ?case by (cases b) (auto simp: buffer_hex_def dest: hex_byte_inject)
  qed
qed simp

text \<open>The key and the primary-key prefix of a set come from the same five bytes.\<close>

lemma makeKey_Ok:
  "makeKey fid pfx = Ok key \<longleftrightarrow> (\<exists>b. writeUInt32BE fid = Ok b \<and> key = buffer_hex (b @ [postfix_byte pfx]))"
  by (auto simp: makeKey_def makeFidKey_def outcome_simps)

lemma set_prefix_Ok:
  "makeMessagePrimaryKey fid pfx None = Ok p \<longleftrightarrow>
   (\<exists>b. writeUInt32BE fid = Ok b \<and> p = 1 # b @ [postfix_byte pfx])"
  by (auto simp: makeMessagePrimaryKey_def makeUserKey_def makeFidKey_def outcome_simps)

lemma same_set:
  assumes "makeKey fid pfx = Ok key" "makeMessagePrimaryKey fid pfx None = Ok p"
    and "makeKey fid' pfx' = Ok key'" "makeMessagePrimaryKey fid' pfx' None = Ok p'"
  shows "prefix p' (p @ x) \<longleftrightarrow> key' = key" "key' = key \<longleftrightarrow> p' = p"
proof -
  obtain b b' where b: "writeUInt32BE fid = Ok b" "writeUInt32BE fid' = Ok b'"
    "key = buffer_hex (b @ [postfix_byte pfx])" "key' = buffer_hex (b' @ [postfix_byte pfx'])"
    "p = 1 # b @ [postfix_byte pfx]" "p' = 1 # b' @ [postfix_byte pfx']"
    using assms by (auto simp: makeKey_Ok set_prefix_Ok)
  have l: "length b = length b'" using b(1,2) writeUInt32BE_length by metis
  show "key' = key \<longleftrightarrow> p' = p" using b by (simp add: buffer_hex_inject)
  have "length p' = length p" using l b by simp
  then have "prefix p' (p @ x) \<longleftrightarrow> p' = p" by (auto simp: prefix_def append_eq_append_conv)
  then show "prefix p' (p @ x) \<longleftrightarrow> key' = key" using b by (simp add: buffer_hex_inject)
qed

section \<open>Agreement with the database\<close>

definition stored_count :: "bytes \<Rightarrow> store \<Rightarrow> nat" where
  "stored_count p s = length (filter (\<lambda>e. prefix p (fst e)) s)"

definition counts_agree :: "store \<Rightarrow> storage_cache \<Rightarrow> bool" where
  "counts_agree s c \<longleftrightarrow>
     (\<forall>fid pfx key p n. makeKey fid pfx = Ok key \<and> makeMessagePrimaryKey fid pfx None = Ok p \<and>
        sc_counts c key = Some n \<longrightarrow> n = int (stored_count p s))"

definition is_earliest :: "bytes set \<Rightarrow> bytes \<Rightarrow> bytes \<Rightarrow> bool" where
  "is_earliest K p h \<longleftrightarrow> p @ h \<in> K \<and> (\<forall>k \<in> K. prefix p k \<longrightarrow> p @ h \<le> k)"

lemma is_earliest_insert:
  assumes "is_earliest K p e"
  shows "is_earliest (insert (p @ h) K) p (if h < e then h else e)"
proof -
  have le: "p @ x \<le> p @ y \<longleftrightarrow> x \<le> y" for x y :: bytes
    by (simp add: append_less_append not_less [symmetric])
  from assms show ?thesis
    unfolding is_earliest_def using le[of h e] le[of e h] by (auto intro: order_trans)
qed

lemma is_earliest_insert_other:
  "is_earliest K p h \<Longrightarrow> \<not> prefix p k \<Longrightarrow> is_earliest (insert k K) p h"
  by (simp add: is_earliest_def)

lemma is_earliest_first: "\<forall>x \<in> K. \<not> prefix p x \<Longrightarrow> is_earliest (insert (p @ h) K) p h"
  by (simp add: is_earliest_def)

lemma is_earliest_remove: "is_earliest K p h \<Longrightarrow> p @ h \<noteq> k \<Longrightarrow> is_earliest (K - {k}) p h"
  by (simp add: is_earliest_def)

definition earliest_agree :: "store \<Rightarrow> storage_cache \<Rightarrow> bool" where
  "earliest_agree s c \<longleftrightarrow>
     (\<forall>fid pfx key p h. makeKey fid pfx = Ok key \<and> makeMessagePrimaryKey fid pfx None = Ok p \<and>
        sc_earliestTsHashes c key = Some h \<longrightarrow> is_earliest (fst ` set s) p h)"

lemma stored_count_put:
  "db_get s k = None \<Longrightarrow> stored_count p (db_put k v s) = stored_count p s + (if prefix p k then 1 else 0)"
  by (induction k v s rule: db_put.induct) (auto simp: stored_count_def db_get_def split: if_splits)

lemma stored_count_del:
  "db_inv s \<Longrightarrow> db_get s k \<noteq> None \<Longrightarrow>
   stored_count p s = stored_count p (db_del k s) + (if prefix p k then 1 else 0)"
proof (induction s)
  case Nil
  then show ?case by (simp add: db_get_def)
next
  case (Cons e s)
  have inv: "db_inv s" using Cons.prems(1) by (simp add: db_inv_def)
  show ?case
  proof (cases "fst e = k")
    case True
    then have "db_del k (e # s) = s"
      using Cons.prems(1) by (auto simp: db_del_def db_inv_def filter_id_conv)
    with True show ?thesis by (simp add: stored_count_def)
  next
    case False
    then have "db_get s k \<noteq> None" using Cons.prems(2) by (cases e) (simp add: db_get_def)
    with Cons.IH[OF inv] False show ?thesis by (simp add: stored_count_def db_del_def)
  qed
qed

text \<open>The situation of a message whose primary key is \<open>k\<close>.\<close>

lemma message_set:
  assumes "makeMessagePrimaryKeyFromMessage m = Ok k"
  shows "\<exists>d pfx key p h. msg_data m = Some d \<and> typeToSetPostfix (md_type d) = Ok pfx \<and>
     makeKey (md_fid d) pfx = Ok key \<and> makeMessagePrimaryKey (md_fid d) pfx None = Ok p \<and>
     makeTsHash (md_timestamp d) (msg_hash m) = Ok h \<and> k = p @ h"
  using assms unfolding message_key_Ok by (auto simp: makeKey_Ok set_prefix_Ok makeTsHash_Ok)

definition set_key :: "Message \<Rightarrow> js_string outcome" where
  "set_key m =
     andThen (deref (msg_data m)) (\<lambda>d. andThen (typeToSetPostfix (md_type d)) (makeKey (md_fid d)))"

lemma account_message_cached:
  assumes "msg_data m = Some d" "typeToSetPostfix (md_type d) = Ok pfx" "makeKey (md_fid d) pfx = Ok key"
    and "makeTsHash (md_timestamp d) (msg_hash m) = Ok h" "sc_counts c key = Some n"
  shows "account_message delta upd db m c =
    (Some (Ok ()), c\<lparr>sc_counts := (sc_counts c)(key \<mapsto> n + delta),
       sc_earliestTsHashes := (sc_earliestTsHashes c)(key := upd (sc_earliestTsHashes c key) h)\<rparr>)"
  using assms by (simp add: account_message_def Let_def)

text \<open>Merging a new message into a set whose count and earliest tsHash are cached keeps the cache
  in agreement with the database.\<close>

lemma addMessage_agrees:
  assumes "db_inv s" "counts_agree s c" "earliest_agree s c"
    and "makeMessagePrimaryKeyFromMessage m = Ok k" "db_get s k = None"
    and "set_key m = Ok key" "sc_counts c key \<noteq> None"
    and "sc_earliestTsHashes c key \<noteq> None \<or> sc_counts c key = Some 0"
  shows "fst (addMessage db m c) = Some (Ok ()) \<and>
         counts_agree (db_put k v s) (snd (addMessage db m c)) \<and>
         earliest_agree (db_put k v s) (snd (addMessage db m c))"
proof -
  obtain d pfx key' p h where m: "msg_data m = Some d" "typeToSetPostfix (md_type d) = Ok pfx"
      "makeKey (md_fid d) pfx = Ok key'" "makeMessagePrimaryKey (md_fid d) pfx None = Ok p"
      "makeTsHash (md_timestamp d) (msg_hash m) = Ok h" "k = p @ h"
    using message_set[OF assms(4)] by blast
  have key: "key' = key" using assms(6) m by (simp add: set_key_def)
  obtain n where n: "sc_counts c key = Some n" using assms(7) by blast
  let ?e = "case sc_earliestTsHashes c key of None \<Rightarrow> Some h
            | Some e \<Rightarrow> if bytesCompare e h > 0 then Some h else Some e"
  let ?c = "c\<lparr>sc_counts := (sc_counts c)(key \<mapsto> n + 1),
              sc_earliestTsHashes := (sc_earliestTsHashes c)(key := ?e)\<rparr>"
  have r: "addMessage db m c = (Some (Ok ()), ?c)"
    using account_message_cached[OF m(1,2) _ m(5) n, of 1] m(3) key by (simp add: addMessage_def)
  have "counts_agree (db_put k v s) ?c"
    unfolding counts_agree_def
  proof (intro allI impI, elim conjE)
    fix fid pfx' key2 p' n'
    assume a: "makeKey fid pfx' = Ok key2" "makeMessagePrimaryKey fid pfx' None = Ok p'"
      "sc_counts ?c key2 = Some n'"
    note same = same_set[OF m(3,4) a(1,2)]
    have pk: "prefix p' k \<longleftrightarrow> key2 = key" using same(1) m(6) key by simp
    have old: "sc_counts c key2 = Some x \<Longrightarrow> x = int (stored_count p' s)" for x
      using assms(2) a(1,2) unfolding counts_agree_def by blast
    show "n' = int (stored_count p' (db_put k v s))"
      using a(3) old n pk by (cases "key2 = key") (simp_all add: stored_count_put[OF assms(5)])
  qed
  moreover have "earliest_agree (db_put k v s) ?c"
    unfolding earliest_agree_def
  proof (intro allI impI, elim conjE)
    fix fid pfx' key2 p' h'
    assume a: "makeKey fid pfx' = Ok key2" "makeMessagePrimaryKey fid pfx' None = Ok p'"
      "sc_earliestTsHashes ?c key2 = Some h'"
    note same = same_set[OF m(3,4) a(1,2)]
    have pk: "prefix p' k \<longleftrightarrow> key2 = key" using same(1) m(6) key by simp
    have old: "sc_earliestTsHashes c key2 = Some x \<Longrightarrow> is_earliest (fst ` set s) p' x" for x
      using assms(3) a(1,2) unfolding earliest_agree_def by blast
    have keys: "fst ` set (db_put k v s) = insert k (fst ` set s)"
      using db_put_keys[of k v s] by simp
    show "is_earliest (fst ` set (db_put k v s)) p' h'"
    proof (cases "key2 = key")
      case False
      with a(3) old pk show ?thesis unfolding keys by (simp add: is_earliest_insert_other)
    next
      case True
      then have p: "p' = p" using same(2) key by simp
      show ?thesis
      proof (cases "sc_earliestTsHashes c key")
        case (Some e)
        with a(3) True have "h' = (if h < e then h else e)" by (simp split: if_splits)
        with old[of e] Some True p m(6) show ?thesis
          unfolding keys by (simp only: is_earliest_insert)
      next
        case None
        with assms(8) n have "n = 0" by simp
        with n True assms(2) a(1,2) have "stored_count p' s = 0"
          unfolding counts_agree_def by (metis of_nat_eq_0_iff)
        then have none: "\<forall>x \<in> fst ` set s. \<not> prefix p x"
          using p by (auto simp: stored_count_def filter_empty_conv)
        from a(3) True None have "h' = h" by simp
        with none p m(6) show ?thesis unfolding keys by (simp only: is_earliest_first)
      qed
    qed
  qed
  ultimately show ?thesis using r by simp
qed

lemma removeMessage_agrees:
  assumes "db_inv s" "counts_agree s c" "earliest_agree s c"
    and "makeMessagePrimaryKeyFromMessage m = Ok k" "db_get s k \<noteq> None"
    and "set_key m = Ok key" "sc_counts c key \<noteq> None"
  shows "fst (removeMessage db m c) = Some (Ok ()) \<and>
         counts_agree (db_del k s) (snd (removeMessage db m c)) \<and>
         earliest_agree (db_del k s) (snd (removeMessage db m c))"
proof -
  obtain d pfx key' p h where m: "msg_data m = Some d" "typeToSetPostfix (md_type d) = Ok pfx"
      "makeKey (md_fid d) pfx = Ok key'" "makeMessagePrimaryKey (md_fid d) pfx None = Ok p"
      "makeTsHash (md_timestamp d) (msg_hash m) = Ok h" "k = p @ h"
    using message_set[OF assms(4)] by blast
  have key: "key' = key" using assms(6) m by (simp add: set_key_def)
  obtain n where n: "sc_counts c key = Some n" using assms(7) by blast
  let ?e = "case sc_earliestTsHashes c key of None \<Rightarrow> None
            | Some e \<Rightarrow> if bytesCompare e h = 0 then None else Some e"
  let ?c = "c\<lparr>sc_counts := (sc_counts c)(key \<mapsto> n + -1),
              sc_earliestTsHashes := (sc_earliestTsHashes c)(key := ?e)\<rparr>"
  have r: "removeMessage db m c = (Some (Ok ()), ?c)"
    using account_message_cached[OF m(1,2) _ m(5) n, of "-1"] m(3) key
    unfolding removeMessage_def by simp
  have "counts_agree (db_del k s) ?c"
    unfolding counts_agree_def
  proof (intro allI impI, elim conjE)
    fix fid pfx' key2 p' n'
    assume a: "makeKey fid pfx' = Ok key2" "makeMessagePrimaryKey fid pfx' None = Ok p'"
      "sc_counts ?c key2 = Some n'"
    have pk: "prefix p' k \<longleftrightarrow> key2 = key" using same_set(1)[OF m(3,4) a(1,2)] m(6) key by simp
    have old: "sc_counts c key2 = Some x \<Longrightarrow> x = int (stored_count p' s)" for x
      using assms(2) a(1,2) unfolding counts_agree_def by blast
    show "n' = int (stored_count p' (db_del k s))"
      using a(3) old n pk stored_count_del[OF assms(1,5), of p'] by (cases "key2 = key") simp_all
  qed
  moreover have "earliest_agree (db_del k s) ?c"
    unfolding earliest_agree_def
  proof (intro allI impI, elim conjE)
    fix fid pfx' key2 p' h'
    assume a: "makeKey fid pfx' = Ok key2" "makeMessagePrimaryKey fid pfx' None = Ok p'"
      "sc_earliestTsHashes ?c key2 = Some h'"
    note same = same_set[OF m(3,4) a(1,2)]
    have keys: "fst ` set (db_del k s) = fst ` set s - {k}" by (auto simp: db_del_def)
    have old: "sc_earliestTsHashes c key2 = Some h'"
      using a(3) by (auto split: if_splits option.splits)
    then have "is_earliest (fst ` set s) p' h'"
      using assms(3) a(1,2) unfolding earliest_agree_def by blast
    moreover have "p' @ h' \<noteq> k"
    proof (cases "key2 = key")
      case True
      with a(3) have "h' \<noteq> h" by (auto split: option.splits if_splits)
      with True same(2) m(6) key show ?thesis by simp
    next
      case False
      with same(1)[of h] m(6) key show ?thesis by (metis prefixI)
    qed
    ultimately show "is_earliest (fst ` set (db_del k s)) p' h'"
      unfolding keys by (rule is_earliest_remove)
  qed
  ultimately show ?thesis using r by simp
qed

section \<open>Filling the cache\<close>

definition scan_possible :: "storage_cache \<Rightarrow> js_string \<Rightarrow> bool" where
  "scan_possible c key \<longleftrightarrow>
     key \<notin> set (sc_pendingMessageCountScans c) \<and>
     length (sc_pendingMessageCountScans c) \<le> MAX_PENDING_MESSAGE_COUNT_SCANS"

lemma count_stored:
  "fixed_layout (rdb_disk db) p m \<Longrightarrow> rdb_native_open db \<Longrightarrow>
   RocksDB_countKeysAtPrefix db p = Ok (stored_count p (rdb_disk db))"
  by (simp add: countKeysAtPrefix_exact stored_count_def)

lemma getMessageCount_uncached:
  assumes "makeKey fid pfx = Ok key" "makeMessagePrimaryKey fid pfx None = Ok p"
    and "fixed_layout (rdb_disk db) p m" "rdb_native_open db" "scan_possible c key" "sc_counts c key = None"
  shows "getMessageCount db fid pfx True c =
    (Some (Ok (int (stored_count p (rdb_disk db)))),
     c\<lparr>sc_counts := (sc_counts c)(key \<mapsto> int (stored_count p (rdb_disk db)))\<rparr>)"
proof -
  have "removeAll key (sc_pendingMessageCountScans c @ [key]) = sc_pendingMessageCountScans c"
    using assms(5) by (simp add: scan_possible_def)
  then show ?thesis
    using assms count_stored[OF assms(3,4)]
    by (simp add: getMessageCount_def count_begin_def scan_possible_def scan_finish_def not_less [symmetric])
qed

lemma getMessageCount_cached:
  assumes "makeKey fid pfx = Ok key" "scan_possible c key" "sc_counts c key = Some n"
  shows "getMessageCount db fid pfx f c = (Some (Ok n), c)"
  using assms by (simp add: getMessageCount_def count_begin_def scan_possible_def)

lemma counts_agree_fill:
  assumes "counts_agree s c" "makeKey fid pfx = Ok key" "makeMessagePrimaryKey fid pfx None = Ok p"
  shows "counts_agree s (c\<lparr>sc_counts := (sc_counts c)(key \<mapsto> int (stored_count p s))\<rparr>)"
  unfolding counts_agree_def
proof (intro allI impI, elim conjE)
  fix fid' pfx' key' p' n
  assume a: "makeKey fid' pfx' = Ok key'" "makeMessagePrimaryKey fid' pfx' None = Ok p'"
    "sc_counts (c\<lparr>sc_counts := (sc_counts c)(key \<mapsto> int (stored_count p s))\<rparr>) key' = Some n"
  have "sc_counts c key' = Some n \<Longrightarrow> n = int (stored_count p' s)"
    using assms(1) a(1,2) unfolding counts_agree_def by blast
  with a(3) same_set(2)[OF assms(2,3) a(1,2)] show "n = int (stored_count p' s)"
    by (simp split: if_splits)
qed

text \<open>A count asked for is the number of stored keys of the set, and is cached from then on.\<close>

lemma getMessageCount_agrees:
  assumes "makeKey fid pfx = Ok key" "makeMessagePrimaryKey fid pfx None = Ok p"
    and "fixed_layout (rdb_disk db) p m" "rdb_native_open db" "scan_possible c key"
    and "counts_agree (rdb_disk db) c"
  shows "\<exists>c'. getMessageCount db fid pfx True c = (Some (Ok (int (stored_count p (rdb_disk db)))), c') \<and>
      counts_agree (rdb_disk db) c' \<and> sc_earliestTsHashes c' = sc_earliestTsHashes c \<and>
      sc_counts c' key = Some (int (stored_count p (rdb_disk db)))"
proof (cases "sc_counts c key")
  case None
  with getMessageCount_uncached[OF assms(1-5) None] counts_agree_fill[OF assms(6,1,2)] show ?thesis by simp
next
  case (Some n)
  then have "n = int (stored_count p (rdb_disk db))"
    using assms(1,2,6) unfolding counts_agree_def by blast
  with getMessageCount_cached[OF assms(1,5) Some] assms(6) Some show ?thesis by simp
qed

lemma sorted_filter_hd:
  "sorted_wrt (<) (map fst s) \<Longrightarrow> filter (\<lambda>e. prefix p (fst e)) s = (p @ h, v) # r \<Longrightarrow>
   is_earliest (fst ` set (s :: store)) p h"
proof -
  assume sorted: "sorted_wrt (<) (map fst s)" and f: "filter (\<lambda>e. prefix p (fst e)) s = (p @ h, v) # r"
  have "sorted_wrt (<) (map fst (filter (\<lambda>e. prefix p (fst e)) s))"
    using db_inv_filter[of s "\<lambda>e. prefix p (fst e)"] sorted by (simp add: db_inv_def)
  then have least: "\<forall>e \<in> set r. p @ h < fst e" by (auto simp: f)
  have mem: "e \<in> set s \<and> prefix p (fst e) \<longleftrightarrow> e = (p @ h, v) \<or> e \<in> set r" for e
    using arg_cong[OF f, of set] by (cases e) (auto simp: set_eq_iff)
  show ?thesis unfolding is_earliest_def
  proof (intro conjI ballI impI)
    show "p @ h \<in> fst ` set s" using mem[of "(p @ h, v)"] by force
    fix k assume "k \<in> fst ` set s" "prefix p k"
    then obtain w where "(k, w) \<in> set s \<and> prefix p (fst (k, w))" by auto
    with mem least have "(k, w) = (p @ h, v) \<or> p @ h < fst (k, w)" by blast
    then show "p @ h \<le> k" by auto
  qed
qed

lemma earliest_agree_fill:
  assumes "earliest_agree s c" "makeKey fid pfx = Ok key" "makeMessagePrimaryKey fid pfx None = Ok p"
    and "is_earliest (fst ` set s) p h"
  shows "earliest_agree s (c\<lparr>sc_earliestTsHashes := (sc_earliestTsHashes c)(key \<mapsto> h)\<rparr>)"
  unfolding earliest_agree_def
proof (intro allI impI, elim conjE)
  fix fid' pfx' key' p' h'
  assume a: "makeKey fid' pfx' = Ok key'" "makeMessagePrimaryKey fid' pfx' None = Ok p'"
    "sc_earliestTsHashes (c\<lparr>sc_earliestTsHashes := (sc_earliestTsHashes c)(key \<mapsto> h)\<rparr>) key' = Some h'"
  have "sc_earliestTsHashes c key' = Some h' \<Longrightarrow> is_earliest (fst ` set s) p' h'"
    using assms(1) a(1,2) unfolding earliest_agree_def by blast
  with a(3) same_set(2)[OF assms(2,3) a(1,2)] assms(4) show "is_earliest (fst ` set s) p' h'"
    by (simp split: if_splits)
qed

text \<open>The earliest tsHash asked for is that of the least key of the set, if it has any.\<close>

lemma getEarliestTsHash_agrees:
  assumes "makeKey fid pfx = Ok key" "makeMessagePrimaryKey fid pfx None = Ok p"
    and "fixed_layout (rdb_disk db) p m" "rdb_native_open db" "scan_possible c key"
    and "counts_agree (rdb_disk db) c" "earliest_agree (rdb_disk db) c" "db_inv (rdb_disk db)"
  shows "\<exists>r c'. getEarliestTsHash (Suc fuel) db fid pfx c = (Some (Ok r), c') \<and>
      counts_agree (rdb_disk db) c' \<and> earliest_agree (rdb_disk db) c' \<and>
      sc_counts c' key = Some (int (stored_count p (rdb_disk db))) \<and>
      (case r of None \<Rightarrow> stored_count p (rdb_disk db) = 0
               | Some h \<Rightarrow> is_earliest (fst ` set (rdb_disk db)) p h \<and> sc_earliestTsHashes c' key = Some h)"
proof -
  obtain c1 where c1: "getMessageCount db fid pfx True c = (Some (Ok (int (stored_count p (rdb_disk db)))), c1)"
      "counts_agree (rdb_disk db) c1" "sc_earliestTsHashes c1 = sc_earliestTsHashes c"
      "sc_counts c1 key = Some (int (stored_count p (rdb_disk db)))"
    using getMessageCount_agrees[OF assms(1-6)] by blast
  have e1: "earliest_agree (rdb_disk db) c1" using assms(7) c1(3) by (simp add: earliest_agree_def)
  show ?thesis
  proof (cases "stored_count p (rdb_disk db) = 0")
    case True
    with c1 e1 assms(1) show ?thesis by (simp add: getEarliestTsHash_def)
  next
    case False
    note nonempty = this
    show ?thesis
    proof (cases "sc_earliestTsHashes c1 key")
      case (Some h)
      then have "is_earliest (fst ` set (rdb_disk db)) p h"
        using e1 assms(1,2) unfolding earliest_agree_def by blast
      with Some False c1 e1 assms(1) show ?thesis by (simp add: getEarliestTsHash_def)
    next
      case None
      let ?o = "no_page_options\<lparr>po_pageSize := Some 1\<rparr>"
      have scan: "scan_by_prefix (rdb_disk db) p ?o = filter (\<lambda>e. prefix p (fst e)) (rdb_disk db)"
        using scan_first[OF assms(3), of ?o] by (simp add: no_page_options_def page_token_def)
      obtain k v r where f: "filter (\<lambda>e. prefix p (fst e)) (rdb_disk db) = (k, v) # r"
        using False by (cases "filter (\<lambda>e. prefix p (fst e)) (rdb_disk db)") (auto simp: stored_count_def)
      have "(k, v) \<in> set (filter (\<lambda>e. prefix p (fst e)) (rdb_disk db))" by (simp only: f) simp
      then have "prefix p k" by simp
      then obtain h where h: "k = p @ h" by (auto simp: prefix_def)
      have "length p = 6"
        using assms(2) by (auto simp: set_prefix_Ok dest: writeUInt32BE_length)
      then have d: "drop (1 + FID_BYTES + 1) k = h" "k \<noteq> []" using h by (auto simp: FID_BYTES_def)
      have it: "RocksDB_forEachIteratorByPrefix (Suc fuel) db p ?o (\<lambda>firstKey k v. Ok (Some k, True)) None =
          Some (Ok (Some k, False))"
        using forEachIteratorByPrefix_sized[of ?o 1 fuel "rdb_disk db" p "\<lambda>firstKey k v. Ok (Some k, True)" None]
          assms(4) scan f
        by (simp add: RocksDB_forEachIteratorByPrefix_def PAGE_SIZE_MAX_def single_pass_def)
      have ie: "is_earliest (fst ` set (rdb_disk db)) p h"
        using sorted_filter_hd[OF assms(8)[unfolded db_inv_def] f[unfolded h]] .
      have "counts_agree (rdb_disk db) (c1\<lparr>sc_earliestTsHashes := (sc_earliestTsHashes c1)(key \<mapsto> h)\<rparr>)"
        using c1(2) by (simp add: counts_agree_def)
      with None nonempty c1 it d ie assms(1,2) earliest_agree_fill[OF e1 assms(1,2) ie] show ?thesis
        by (simp add: getEarliestTsHash_def Let_def)
    qed
  qed
qed

section \<open>What a cold cache does\<close>

text \<open>When the count of the set is not cached, it is fetched from the database, where the new message
  already is, and then increased for that message.\<close>

lemma addMessage_cold_count:
  assumes "makeMessagePrimaryKeyFromMessage m = Ok k" "set_key m = Ok key"
    and "sc_counts c key = None" "scan_possible c key" "rdb_native_open db"
    and "makeMessagePrimaryKey (md_fid (the (msg_data m))) pfx None = Ok p"
    and "typeToSetPostfix (md_type (the (msg_data m))) = Ok pfx" "fixed_layout (rdb_disk db) p n"
  shows "fst (addMessage db m c) = Some (Ok ()) \<and>
         sc_counts (snd (addMessage db m c)) key = Some (int (stored_count p (rdb_disk db)) + 1)"
proof -
  obtain d h where m: "msg_data m = Some d" "typeToSetPostfix (md_type d) = Ok pfx"
      "makeTsHash (md_timestamp d) (msg_hash m) = Ok h"
    using message_set[OF assms(1)] assms(7) by auto
  have key: "makeKey (md_fid d) pfx = Ok key" using assms(2) m by (simp add: set_key_def)
  have p: "makeMessagePrimaryKey (md_fid d) pfx None = Ok p" using assms(6) m by simp
  show ?thesis
    using m key assms(3) getMessageCount_uncached[OF key p assms(8,5,4,3)]
    by (simp add: addMessage_def account_message_def Let_def)
qed

text \<open>When no earliest tsHash is cached, the new message's is taken for the earliest, whatever the set
  holds.\<close>

lemma addMessage_cold_earliest:
  assumes "makeMessagePrimaryKeyFromMessage m = Ok (p @ h)" "set_key m = Ok key"
    and "typeToSetPostfix (md_type (the (msg_data m))) = Ok pfx"
    and "makeMessagePrimaryKey (md_fid (the (msg_data m))) pfx None = Ok p"
    and "sc_counts c key = Some n" "sc_earliestTsHashes c key = None"
    and "p @ h0 \<in> fst ` set s" "h0 < h"
  shows "sc_earliestTsHashes (snd (addMessage db m c)) key = Some h \<and>
         \<not> earliest_agree s (snd (addMessage db m c))"
proof -
  obtain d h' where m: "msg_data m = Some d" "typeToSetPostfix (md_type d) = Ok pfx"
      "makeTsHash (md_timestamp d) (msg_hash m) = Ok h'" "p @ h = p @ h'"
    using message_set[OF assms(1)] assms(3,4) by auto
  have key: "makeKey (md_fid d) pfx = Ok key" using assms(2) m by (simp add: set_key_def)
  have p: "makeMessagePrimaryKey (md_fid d) pfx None = Ok p" using assms(4) m by simp
  let ?c = "snd (addMessage db m c)"
  have e: "sc_earliestTsHashes ?c key = Some h"
    using account_message_cached[OF m(1,2) key m(3) assms(5)] assms(6) m(4) by (simp add: addMessage_def)
  have "\<not> is_earliest (fst ` set s) p h"
  proof
    assume "is_earliest (fst ` set s) p h"
    then have "p @ h \<le> p @ h0" using assms(7) unfolding is_earliest_def by (metis prefixI)
    with assms(8) show False by (simp add: append_less_append not_less [symmetric])
  qed
  with e key p show ?thesis unfolding earliest_agree_def by blast
qed

text \<open>A count scan on a closed database never settles, and every later call for that set waits for
  it.\<close>

lemma scan_never_settles:
  assumes "makeKey fid pfx = Ok key" "sc_counts c key = None" "scan_possible c key" "\<not> rdb_native_open db"
  shows "fst (getMessageCount db fid pfx True c) = None \<and>
    (\<forall>db' f. fst (getMessageCount db' fid pfx f (snd (getMessageCount db fid pfx True c))) = None)"
proof -
  obtain p where "makeMessagePrimaryKey fid pfx None = Ok p"
    using assms(1) by (auto simp: makeKey_Ok set_prefix_Ok)
  with assms have "getMessageCount db fid pfx True c =
      (None, c\<lparr>sc_pendingMessageCountScans := sc_pendingMessageCountScans c @ [key]\<rparr>)"
    by (simp add: getMessageCount_def count_begin_def scan_possible_def scan_finish_def
        RocksDB_countKeysAtPrefix_def when_open_def not_less [symmetric])
  with assms(1) show ?thesis by (simp add: getMessageCount_def count_begin_def)
qed

section \<open>What a slot adds up to\<close>

definition rent_slot :: "OnChainEvent \<Rightarrow> StorageSlot" where
  "rent_slot e = (case storageSlotFromEvent e of Ok r \<Rightarrow> r | _ \<Rightarrow> no_slot 0)"

text \<open>The rents among some events that have not expired at \<open>time\<close>.\<close>

definition live_rents :: "int \<Rightarrow> OnChainEvent list \<Rightarrow> StorageSlot list" where
  "live_rents time evs =
     filter (\<lambda>r. time \<le> slot_invalidateAt r) (map rent_slot (filter isStorageRentOnChainEvent evs))"

definition slot_total :: "int \<Rightarrow> StorageSlot list \<Rightarrow> StorageSlot" where
  "slot_total t rs =
     \<lparr>slot_legacy_units = (\<Sum>r\<leftarrow>rs. slot_legacy_units r), slot_units = (\<Sum>r\<leftarrow>rs. slot_units r),
      slot_invalidateAt = fold min (map slot_invalidateAt rs) t\<rparr>"

lemma storageSlot_rent: "isStorageRentOnChainEvent e \<Longrightarrow> storageSlotFromEvent e = Ok (rent_slot e)"
proof -
  have "\<exists>x. unwrapOr (toFarcasterTime t) 0 = Ok x" for t
    by (auto simp: toFarcasterTime_def Let_def fail_def)
  then obtain x where "unwrapOr (toFarcasterTime (getStorageUnitExpiry e * 1000)) 0 = Ok x" by blast
  then show "isStorageRentOnChainEvent e \<Longrightarrow> storageSlotFromEvent e = Ok (rent_slot e)"
    by (auto simp: rent_slot_def storageSlotFromEvent_def isStorageRentOnChainEvent_def Let_def)
qed

lemma live_rents_snoc:
  "live_rents time (evs @ [e]) = live_rents time evs @
     (if isStorageRentOnChainEvent e \<and> time \<le> slot_invalidateAt (rent_slot e) then [rent_slot e] else [])"
  by (simp add: live_rents_def)

lemma foldM_snoc: "foldM f (xs @ [x]) st = andThen (foldM f xs st) (\<lambda>st. f st x)"
proof (induction xs arbitrary: st)
  case Nil
  then show ?case by (cases "f st x") simp_all
next
  case (Cons y xs)
  then show ?case by (cases "f st y") simp_all
qed

lemma recount_total:
  "foldM (recount_step time) evs (no_slot t) = Ok (slot_total t (live_rents time evs))"
proof (induction evs rule: rev_induct)
  case Nil
  then show ?case by (simp add: no_slot_def slot_total_def live_rents_def)
next
  case (snoc e evs)
  then show ?case
    by (auto simp: foldM_snoc live_rents_snoc recount_step_def storageSlot_rent slot_total_def min_def)
qed

lemma foldM_decoded:
  "mapM f es = Ok evs \<Longrightarrow> foldM (\<lambda>st e. andThen (f e) (g st)) es st = foldM g evs st"
proof (induction es arbitrary: evs st)
  case Nil
  then show ?case by simp
next
  case (Cons e es)
  then obtain y ys where "f e = Ok y" "mapM f es = Ok ys" "evs = y # ys" by (auto simp: outcome_simps)
  with Cons.IH show ?case by (cases "g st y") simp_all
qed

text \<open>A slot that has run out is replaced by the sum of the user's rents that have not, until the first
  of them does.\<close>

lemma expired_slot_recounted:
  assumes "sc_activeStorageSlots c fid = Some slot" "getFarcasterTime now = Ok time"
    and "slot_invalidateAt slot < time"
    and "db_inv (rdb_disk db)" "rdb_native_open db" "length (rdb_disk db) < fuel"
    and "makeOnChainEventIteratorPrefix EVENT_TYPE_STORAGE_RENT (Some fid) = Ok pre"
    and "fixed_layout (rdb_disk db) pre m"
    and "mapM (\<lambda>e. decodeOnChainEvent C (snd e)) (onchain_entries pre (rdb_disk db)) = Ok evs"
  shows "getCurrentStorageSlotForFid fuel C db now fid c =
    (let slot = slot_total (time + 365 * 24 * 60 * 60) (live_rents time evs)
     in (Some (Ok slot), c\<lparr>sc_activeStorageSlots := (sc_activeStorageSlots c)(fid \<mapsto> slot)\<rparr>))"
proof -
  have "forEachOnChainEvent fuel C db EVENT_TYPE_STORAGE_RENT (recount_step time) (Some fid)
          (no_slot (time + 365 * 24 * 60 * 60)) =
        Some (foldM (recount_step time) evs (no_slot (time + 365 * 24 * 60 * 60)))"
    by (subst forEachOnChainEvent_exact[OF assms(4,5,7,8,6)]) (simp only: foldM_decoded[OF assms(9)])
  with assms(1-3) show ?thesis by (simp add: getCurrentStorageSlotForFid_def recount_total Let_def)
qed

text \<open>After a rent event has been added for every event of a list, a user's slot is the total of that
  user's rents.\<close>

definition slot_of_rents :: "StorageSlot list \<Rightarrow> StorageSlot option" where
  "slot_of_rents rs =
     (case rs of [] \<Rightarrow> None | r # _ \<Rightarrow> Some (slot_total (slot_invalidateAt r) rs))"

lemma slot_of_rents_snoc:
  "slot_of_rents (rs @ [r]) = Some (case slot_of_rents rs of None \<Rightarrow> r | Some e \<Rightarrow> merge_slot e r)"
  by (cases rs) (auto simp: slot_of_rents_def slot_total_def merge_slot_def min_def)

lemma sync_slots:
  "\<exists>slots. foldM (sync_step time) evs Map.empty = Ok slots \<and>
     (\<forall>fid. slots fid = slot_of_rents (live_rents time (filter (\<lambda>e. oce_fid e = fid) evs)))"
proof (induction evs rule: rev_induct)
  case Nil
  then show ?case by (simp add: slot_of_rents_def live_rents_def)
next
  case (snoc e evs)
  then obtain slots where IH: "foldM (sync_step time) evs Map.empty = Ok slots"
    "\<And>fid. slots fid = slot_of_rents (live_rents time (filter (\<lambda>e. oce_fid e = fid) evs))" by blast
  let ?fid = "oce_fid e"
  show ?case
  proof (cases "isStorageRentOnChainEvent e \<and> time \<le> slot_invalidateAt (rent_slot e)")
    case True
    have "sync_step time slots e =
        Ok (slots(?fid \<mapsto> (case slots ?fid of None \<Rightarrow> rent_slot e | Some x \<Rightarrow> merge_slot x (rent_slot e))))"
      using True by (simp add: sync_step_def add_slot_def storageSlot_rent not_less split: option.split)
    with IH True show ?thesis by (auto simp: foldM_snoc live_rents_snoc slot_of_rents_snoc)
  next
    case False
    then have "sync_step time slots e = Ok slots"
      by (auto simp: sync_step_def add_slot_def storageSlot_rent)
    with IH False show ?thesis by (auto simp: foldM_snoc live_rents_snoc)
  qed
qed

end
