(* ===== verification/StoreEventHandler.thy ===== *)
theory StoreEventHandler
  imports StorageCache
begin

text \<open>
  \<^verbatim>\<open>storage/stores/storeEventHandler.ts\<close>: the event log of the hub. \<open>commitTransaction\<close> draws an id,
  adds the event to the caller's transaction, commits both as one batch, updates the storage
  cache and tells the listeners. Commits run one at a time (the code's \<^verbatim>\<open>AsyncLock\<close>); its
  limits on waiting are not modelled. The coder of hub events is generated code and a parameter.
  The lemmas show that the log grows by exactly the committed event, in order of ids, that
  pages of it lose and repeat nothing, and what pruning removes.
\<close>

record hub_event_codec =
  encodeHubEvent :: "HubEvent \<Rightarrow> bytes"
  decodeHubEvent :: "bytes \<Rightarrow> HubEvent outcome"

text \<open>\<open>seh_emitted\<close> is what has been emitted to listeners so far.\<close>

record event_handler =
  seh_generator :: event_id_generator
  seh_storageCache :: storage_cache
  seh_emitted :: "(string \<times> HubEvent) list"

definition new_StoreEventHandler :: "event_id_generator \<Rightarrow> event_handler" where
  "new_StoreEventHandler rustEventHandler =
     \<lparr>seh_generator = rustEventHandler, seh_storageCache = new_StorageCache None, seh_emitted = []\<rparr>"

definition PRUNE_TIME_LIMIT_DEFAULT :: int where
  "PRUNE_TIME_LIMIT_DEFAULT = 60 * 60 * 24 * 3 * 1000"

definition STORE_TO_SET :: "(int \<times> UserPostfix) list" where
  "STORE_TO_SET =
     [(STORE_CASTS, CastMessage), (STORE_LINKS, LinkMessage), (STORE_REACTIONS, ReactionMessage),
      (STORE_USER_DATA, UserDataMessage), (STORE_VERIFICATIONS, VerificationMessage),
      (STORE_USERNAME_PROOFS, UsernameProofMessage)]"

definition SET_TO_STORE :: "(UserPostfix \<times> int) list" where
  "SET_TO_STORE =
     [(CastMessage, STORE_CASTS), (LinkMessage, STORE_LINKS), (ReactionMessage, STORE_REACTIONS),
      (UserDataMessage, STORE_USER_DATA), (VerificationMessage, STORE_VERIFICATIONS),
      (UsernameProofMessage, STORE_USERNAME_PROOFS)]"

section \<open>Keys of events\<close>

text \<open>A missing id and the id 0 give the bare prefix.\<close>

definition makeEventKey :: "int option \<Rightarrow> bytes outcome" where
  "makeEventKey eventId =
     (case eventId of
        None \<Rightarrow> Ok [root_byte HubEvents]
      | Some i \<Rightarrow>
          if i = 0 then Ok [root_byte HubEvents]
          else if 0 \<le> i \<and> i < 2 ^ 64 then Ok (root_byte HubEvents # be_bytes 8 i)
          else Throw RangeError)"

definition putEventTransaction :: "hub_event_codec \<Rightarrow> transaction \<Rightarrow> HubEvent \<Rightarrow> transaction outcome" where
  "putEventTransaction D txn event =
     mapOk (makeEventKey (Some (he_id event))) (\<lambda>key. txn_put txn key (encodeHubEvent D event))"

definition data_fid :: "Message option \<Rightarrow> number" where
  "data_fid m =
     (case m of
        Some m \<Rightarrow> (case msg_data m of Some d \<Rightarrow> or_zero (md_fid d) | None \<Rightarrow> numI 0)
      | None \<Rightarrow> numI 0)"

definition fidFromEvent :: "HubEvent \<Rightarrow> number outcome" where
  "fidFromEvent event =
     (if isMergeMessageHubEvent event then
        mapOk (deref (he_mergeMessageBody event)) (\<lambda>b. data_fid (mmb_message b))
      else if isMergeOnChainHubEvent event then
        andThen (deref (he_mergeOnChainEventBody event)) (\<lambda>b. mapOk (deref b) (\<lambda>e. or_zero (oce_fid e)))
      else if isMergeUsernameProofHubEvent event then
        mapOk (deref (he_mergeUsernameProofBody event)) (\<lambda>b.
          case mupb_usernameProof b of Some p \<Rightarrow> or_zero (unp_fid p) | None \<Rightarrow> numI 0)
      else if isPruneMessageHubEvent event then
        mapOk (deref (he_pruneMessageBody event)) data_fid
      else if isRevokeMessageHubEvent event then
        mapOk (deref (he_revokeMessageBody event)) data_fid
      else Throw (JsError (lit ''invalid hub event type for determining fid'')))"

section \<open>Usage and limits\<close>

definition with_cache ::
  "event_handler \<Rightarrow> 'a outcome option \<times> storage_cache \<Rightarrow> 'a outcome option \<times> event_handler" where
  "with_cache h r = (fst r, h\<lparr>seh_storageCache := snd r\<rparr>)"

definition handler_getCurrentStorageSlotForFid ::
  "nat \<Rightarrow> proto_codec \<Rightarrow> rocksdb \<Rightarrow> int \<Rightarrow> number \<Rightarrow> event_handler \<Rightarrow>
   StorageSlot outcome option \<times> event_handler" where
  "handler_getCurrentStorageSlotForFid fuel C db now fid h =
     with_cache h (getCurrentStorageSlotForFid fuel C db now fid (seh_storageCache h))"

definition getCacheMessageCount ::
  "rocksdb \<Rightarrow> number \<Rightarrow> UserPostfix \<Rightarrow> bool \<Rightarrow> event_handler \<Rightarrow> int outcome option \<times> event_handler" where
  "getCacheMessageCount db fid pfx forceFetch h =
     with_cache h (getMessageCount db fid pfx forceFetch (seh_storageCache h))"

definition handler_getEarliestTsHash ::
  "nat \<Rightarrow> rocksdb \<Rightarrow> number \<Rightarrow> UserPostfix \<Rightarrow> event_handler \<Rightarrow>
   bytes option outcome option \<times> event_handler" where
  "handler_getEarliestTsHash fuel db fid pfx h =
     with_cache h (getEarliestTsHash fuel db fid pfx (seh_storageCache h))"

text \<open>\<^verbatim>\<open>if (r.isErr()) return err(r.error)\<close> after an \<^verbatim>\<open>await\<close>.\<close>

definition await ::
  "'a outcome option \<times> 's \<Rightarrow> ('a \<Rightarrow> 's \<Rightarrow> 'b outcome option \<times> 's) \<Rightarrow> 'b outcome option \<times> 's" where
  "await r f =
     (case r of
        (None, s) \<Rightarrow> (None, s)
      | (Some (Ok x), s) \<Rightarrow> f x s
      | (Some (Err e), s) \<Rightarrow> (Some (Err e), s)
      | (Some (Throw t), s) \<Rightarrow> (Some (Throw t), s))"

lemma await_simps [simp]:
  "await (None, s) f = (None, s)" "await (Some (Ok x), s) f = f x s"
  "await (Some (Err e), s) f = (Some (Err e), s)" "await (Some (Throw t), s) f = (Some (Throw t), s)"
  by (simp_all add: await_def)

definition settled :: "'a outcome \<Rightarrow> 's \<Rightarrow> 'a outcome option \<times> 's" where
  "settled r s = (Some r, s)"

record StoreUsage =
  su_used :: int
  su_earliestTimestamp :: int
  su_earliestHash :: bytes

definition getUsage ::
  "nat \<Rightarrow> rocksdb \<Rightarrow> number \<Rightarrow> int \<Rightarrow> event_handler \<Rightarrow> StoreUsage outcome option \<times> event_handler" where
  "getUsage fuel db fid store h =
     (case map_of STORE_TO_SET store of
        None \<Rightarrow> settled (fail_js InvalidParam (lit ''invalid store type '' @ int_to_string 10 store)) h
      | Some pfx \<Rightarrow>
          await (getCacheMessageCount db fid pfx True h) (\<lambda>messageCount h.
          await (handler_getEarliestTsHash fuel db fid pfx h) (\<lambda>earliestTsHash h.
            case earliestTsHash of
              None \<Rightarrow>
                settled (Ok \<lparr>su_used = messageCount, su_earliestTimestamp = 0, su_earliestHash = []\<rparr>) h
            | Some tsHash \<Rightarrow>
                (case unpackTsHash tsHash of
                   Ok (t, hash) \<Rightarrow>
                     settled (Ok \<lparr>su_used = messageCount, su_earliestTimestamp = t, su_earliestHash = hash\<rparr>) h
                 | Err e \<Rightarrow>
                     settled (Ok \<lparr>su_used = messageCount, su_earliestTimestamp = 0, su_earliestHash = []\<rparr>) h
                 | Throw t \<Rightarrow> settled (Throw t) h))))"

definition getMaxMessageCount ::
  "nat \<Rightarrow> proto_codec \<Rightarrow> rocksdb \<Rightarrow> int \<Rightarrow> number \<Rightarrow> UserPostfix \<Rightarrow> event_handler \<Rightarrow>
   int option outcome option \<times> event_handler" where
  "getMaxMessageCount fuel C db now fid pfx h =
     await (handler_getCurrentStorageSlotForFid fuel C db now fid h) (\<lambda>slot h.
       case map_of SET_TO_STORE pfx of
         None \<Rightarrow>
           settled (fail_js InvalidParam
             (lit ''invalid store type '' @ int_to_string 10 (uint (postfix_byte pfx)))) h
       | Some storeType \<Rightarrow>
           settled (getStoreLimit storeType
             [\<lparr>sud_unitType = UNIT_TYPE_LEGACY, sud_unitSize = slot_legacy_units slot\<rparr>,
              \<lparr>sud_unitType = UNIT_TYPE_2024, sud_unitSize = slot_units slot\<rparr>]) h)"

text \<open>A comparison with NaN (\<open>None\<close>) is false.\<close>

definition lt_limit :: "int \<Rightarrow> int option \<Rightarrow> bool" where
  "lt_limit n limit = (case limit of Some l \<Rightarrow> n < l | None \<Rightarrow> False)"

definition isPrunable ::
  "nat \<Rightarrow> proto_codec \<Rightarrow> rocksdb \<Rightarrow> int \<Rightarrow> Message \<Rightarrow> UserPostfix \<Rightarrow> int \<Rightarrow> event_handler \<Rightarrow>
   bool outcome option \<times> event_handler" where
  "isPrunable fuel C db now m pfx sizeLimit h =
     await (settled (deref (msg_data m)) h) (\<lambda>d h.
     await (getCacheMessageCount db (md_fid d) pfx True h) (\<lambda>messageCount h.
     await (getMaxMessageCount fuel C db now (md_fid d) pfx h) (\<lambda>maxMessageCount h.
       let maxCount = (if sizeLimit > 0 \<and> lt_limit sizeLimit maxMessageCount then Some sizeLimit
                       else maxMessageCount)
       in if lt_limit messageCount maxCount then settled (Ok False) h
          else
            await (handler_getEarliestTsHash fuel db (md_fid d) pfx h) (\<lambda>earliestTimestamp h.
            await (settled (makeTsHash (md_timestamp d) (msg_hash m)) h) (\<lambda>tsHash h.
              settled
                (Ok (case earliestTimestamp of
                       None \<Rightarrow> False
                     | Some earliest \<Rightarrow> bytesCompare tsHash earliest < 0)) h)))))"

section \<open>The log\<close>

definition broadcastEvent :: "HubEvent \<Rightarrow> event_handler \<Rightarrow> unit outcome \<times> event_handler" where
  "broadcastEvent event h =
     (let emit = (\<lambda>name. (Ok (), h\<lparr>seh_emitted := seh_emitted h @ [(name, event)]\<rparr>)) in
      if isMergeMessageHubEvent event then emit ''mergeMessage''
      else if isPruneMessageHubEvent event then emit ''pruneMessage''
      else if isRevokeMessageHubEvent event then emit ''revokeMessage''
      else if isMergeUsernameProofHubEvent event then emit ''mergeUsernameProofEvent''
      else if isMergeOnChainHubEvent event then emit ''mergeOnChainEvent''
      else (fail InvalidParam ''invalid event type'', h))"

text \<open>\<^verbatim>\<open>void processEvent(event); broadcastEvent(event)\<close>: neither result is looked at.\<close>

definition notify :: "rocksdb \<Rightarrow> int \<Rightarrow> HubEvent \<Rightarrow> event_handler \<Rightarrow> event_handler" where
  "notify db now event h =
     snd (broadcastEvent event
            (h\<lparr>seh_storageCache := snd (processEvent db now event (seh_storageCache h))\<rparr>))"

text \<open>The handler of the \<^verbatim>\<open>catch\<close> of \<^verbatim>\<open>commitTransaction\<close>.\<close>

definition commit_failed :: "js_exn \<Rightarrow> hub_error" where
  "commit_failed e =
     (case e of HubException x \<Rightarrow> x | _ \<Rightarrow> new_HubError StorageFailure (CtxString (exn_message e)))"

definition rsGetNextEventId :: "int \<Rightarrow> event_handler \<Rightarrow> int outcome \<times> event_handler" where
  "rsGetNextEventId now h =
     (case generate_id (word_of_int now) (seh_generator h) of
        (r, g) \<Rightarrow> (mapOk r uint, h\<lparr>seh_generator := g\<rparr>))"

definition commitTransaction ::
  "hub_event_codec \<Rightarrow> rocksdb \<Rightarrow> int \<Rightarrow> transaction \<Rightarrow> HubEvent \<Rightarrow> event_handler \<Rightarrow>
   int outcome \<times> rocksdb \<times> event_handler" where
  "commitTransaction D db now txn eventArgs h =
     (case rsGetNextEventId now h of
        (Err e, h) \<Rightarrow> (Err e, db, h)
      | (Throw t, h) \<Rightarrow> (Err (commit_failed t), db, h)
      | (Ok eventId, h) \<Rightarrow>
          (let event = eventArgs\<lparr>he_id := eventId\<rparr> in
           case putEventTransaction D txn event of
             Err e \<Rightarrow> (Err e, db, h)
           | Throw t \<Rightarrow> (Err (commit_failed t), db, h)
           | Ok txn \<Rightarrow>
               (case RocksDB_commit db txn of
                  (Ok _, db) \<Rightarrow> (Ok (he_id event), db, notify db now event h)
                | (Err e, db) \<Rightarrow> (Err e, db, h)
                | (Throw t, db) \<Rightarrow> (Err (commit_failed t), db, h))))"

definition processRustCommittedTransaction ::
  "rocksdb \<Rightarrow> int \<Rightarrow> HubEvent \<Rightarrow> event_handler \<Rightarrow> unit outcome \<times> event_handler" where
  "processRustCommittedTransaction db now event h = (Ok (), notify db now event h)"

definition getEvent :: "hub_event_codec \<Rightarrow> rocksdb \<Rightarrow> int \<Rightarrow> HubEvent outcome" where
  "getEvent D db eventId =
     andThen (makeEventKey (Some eventId)) (\<lambda>key.
     andThen (fromPromise (RocksDB_get db key) as_HubError) (decodeHubEvent D))"

definition getEventsIteratorOpts :: "int option \<Rightarrow> int option \<Rightarrow> iterator_options outcome" where
  "getEventsIteratorOpts fromId toId =
     andThen (makeEventKey fromId) (\<lambda>minKey.
     andThen (if toId \<noteq> None \<and> toId \<noteq> Some 0 then makeEventKey toId
              else andThen (makeEventKey None) bytesIncrement) (\<lambda>maxKey.
       Ok \<lparr>io_gte = Some minKey, io_gt = None, io_lt = Some maxKey, io_reverse = False\<rparr>))"

definition getEvents ::
  "nat \<Rightarrow> hub_event_codec \<Rightarrow> rocksdb \<Rightarrow> int option \<Rightarrow> HubEvent list outcome option" where
  "getEvents fuel D db fromId =
     (case getEventsIteratorOpts fromId None of
        Err e \<Rightarrow> Some (Err e)
      | Throw t \<Rightarrow> Some (Throw t)
      | Ok opts \<Rightarrow>
          map_option (\<lambda>r. mapOk r fst)
            (RocksDB_forEachIteratorByOpts fuel db opts
               (\<lambda>events key val. mapOk (decodeHubEvent D val) (\<lambda>e. (events @ [e], False))) []))"

definition readBigUint64BE :: "bytes \<Rightarrow> nat \<Rightarrow> int outcome" where
  "readBigUint64BE bs off =
     (if off + 8 \<le> length bs then Ok (be_int (take 8 (drop off bs))) else Throw RangeError)"

definition events_callback ::
  "hub_event_codec \<Rightarrow> int \<Rightarrow> (HubEvent list \<times> int) callback" where
  "events_callback D pageSize st key val =
     (case st of (events, lastEventId) \<Rightarrow>
        andThen (decodeHubEvent D val) (\<lambda>e.
        mapOk (readBigUint64BE key 1) (\<lambda>lastEventId.
          ((events @ [e], lastEventId), int (length (events @ [e])) \<ge> pageSize))))"

definition getEventsPage ::
  "nat \<Rightarrow> hub_event_codec \<Rightarrow> rocksdb \<Rightarrow> int \<Rightarrow> int \<Rightarrow> (HubEvent list \<times> int) outcome option" where
  "getEventsPage fuel D db fromId pageSize =
     (case getEventsIteratorOpts (Some fromId) None of
        Err e \<Rightarrow> Some (Err e)
      | Throw t \<Rightarrow> Some (Throw t)
      | Ok opts \<Rightarrow>
          map_option (\<lambda>r. mapOk r (\<lambda>((events, lastEventId), _). (events, lastEventId + 1)))
            (RocksDB_forEachIteratorByOpts fuel db opts (events_callback D pageSize) ([], fromId)))"

definition pruneEvents :: "rocksdb \<Rightarrow> int \<Rightarrow> int option \<Rightarrow> unit outcome \<times> rocksdb" where
  "pruneEvents db now timeLimit =
     (let toId = makeEventId (now - (case timeLimit of Some t \<Rightarrow> t | None \<Rightarrow> PRUNE_TIME_LIMIT_DEFAULT)) 0
      in case getEventsIteratorOpts None toId of
           Err e \<Rightarrow> (Err e, db)
         | Throw t \<Rightarrow> (Throw t, db)
         | Ok opts \<Rightarrow>
             (case RocksDB_deleteAllKeysInRange db opts of
                (r, db) \<Rightarrow> (mapOk (fromPromise r as_HubError) (\<lambda>_. ()), db)))"

section \<open>Limits\<close>

text \<open>What a user may store in a set is linear in the units of the present slot.\<close>

lemma getMaxMessageCount_linear:
  assumes "getCurrentStorageSlotForFid fuel C db now fid (seh_storageCache h) = (Some (Ok slot), c')"
    and "map_of SET_TO_STORE pfx = Some store"
  shows "getMaxMessageCount fuel C db now fid pfx h =
    (Some (Ok (Some (unit_limit store UNIT_TYPE_LEGACY * slot_legacy_units slot +
                     unit_limit store UNIT_TYPE_2024 * slot_units slot))),
     h\<lparr>seh_storageCache := c'\<rparr>)"
proof -
  have "store \<in> fst ` set STORAGE_UNIT_DEFAULTS"
    using map_of_SomeD[OF assms(2)] by (auto simp: SET_TO_STORE_def STORAGE_UNIT_DEFAULTS_def)
  then show ?thesis
    using assms by (simp add: getMaxMessageCount_def handler_getCurrentStorageSlotForFid_def with_cache_def
        settled_def getStoreLimit_sum known_unit_def)
qed

text \<open>Pruning a message is decided by the numbers in the database when the cache agrees with it: the set
  is full and the message is earlier than the earliest one stored.\<close>

lemma isPrunable_decides:
  assumes d: "msg_data m = Some d" and h0: "makeTsHash (md_timestamp d) (msg_hash m) = Ok tsHash"
    and keys: "makeKey (md_fid d) pfx = Ok key" "makeMessagePrimaryKey (md_fid d) pfx None = Ok p"
    and db: "fixed_layout (rdb_disk db) p len" "rdb_native_open db" "db_inv (rdb_disk db)"
    and cache: "\<And>f. seh_storageCache h = f \<Longrightarrow> counts_agree (rdb_disk db) f \<and> earliest_agree (rdb_disk db) f \<and>
        scan_possible f key \<and> sc_activeStorageSlots f (md_fid d) = Some slot"
    and slot: "getFarcasterTime now = Ok time" "time \<le> slot_invalidateAt slot"
    and store: "map_of SET_TO_STORE pfx = Some store"
    and limit: "limit = unit_limit store UNIT_TYPE_LEGACY * slot_legacy_units slot +
                        unit_limit store UNIT_TYPE_2024 * slot_units slot"
  shows "\<exists>h'. isPrunable (Suc fuel) C db now m pfx 0 h =
     (Some (Ok (limit \<le> int (stored_count p (rdb_disk db)) \<and>
                (\<exists>e. is_earliest (fst ` set (rdb_disk db)) p e \<and> tsHash < e))), h')"
proof -
  let ?c = "seh_storageCache h" and ?n = "stored_count p (rdb_disk db)"
  have c0: "counts_agree (rdb_disk db) ?c" "earliest_agree (rdb_disk db) ?c" "scan_possible ?c key"
      "sc_activeStorageSlots ?c (md_fid d) = Some slot"
    using cache by blast+
  obtain n where cnt: "getMessageCount db (md_fid d) pfx True ?c = (Some (Ok (int ?n)), n)"
      "counts_agree (rdb_disk db) n" "sc_earliestTsHashes n = sc_earliestTsHashes ?c"
    using getMessageCount_agrees[OF keys db(1,2) c0(3,1)] by blast
  have n: "earliest_agree (rdb_disk db) n" "scan_possible n key" "sc_activeStorageSlots n (md_fid d) = Some slot"
  proof -
    have "n = ?c \<or> n = ?c\<lparr>sc_counts := (sc_counts ?c)(key \<mapsto> int ?n)\<rparr>"
      using cnt(1) getMessageCount_uncached[OF keys db(1,2) c0(3)] getMessageCount_cached[OF keys(1) c0(3)]
      by (cases "sc_counts ?c key") auto
    then show "earliest_agree (rdb_disk db) n" "scan_possible n key"
      "sc_activeStorageSlots n (md_fid d) = Some slot"
      using c0 by (auto simp: earliest_agree_def scan_possible_def)
  qed
  have sl: "getCurrentStorageSlotForFid (Suc fuel) C db now (md_fid d) n = (Some (Ok slot), n)"
    using n(3) slot by (simp add: getCurrentStorageSlotForFid_def)
  have mx: "getMaxMessageCount (Suc fuel) C db now (md_fid d) pfx (h\<lparr>seh_storageCache := n\<rparr>) =
      (Some (Ok (Some limit)), h\<lparr>seh_storageCache := n\<rparr>)"
    using getMaxMessageCount_linear[OF _ store, of "Suc fuel" C db now "md_fid d" "h\<lparr>seh_storageCache := n\<rparr>" slot n]
      sl limit by simp
  show ?thesis
  proof (cases "int ?n < limit")
    case True
    with d cnt(1) mx show ?thesis
      by (simp add: isPrunable_def settled_def getCacheMessageCount_def with_cache_def lt_limit_def)
  next
    case False
    obtain r c2 where e: "getEarliestTsHash (Suc fuel) db (md_fid d) pfx n = (Some (Ok r), c2)"
        "case r of None \<Rightarrow> ?n = 0 | Some h \<Rightarrow> is_earliest (fst ` set (rdb_disk db)) p h"
      using getEarliestTsHash_agrees[OF keys db(1,2) n(2) cnt(2) n(1) db(3), of fuel]
      by (auto split: option.splits)
    have uniq: "is_earliest (fst ` set (rdb_disk db)) p a \<Longrightarrow> is_earliest (fst ` set (rdb_disk db)) p b \<Longrightarrow> a = b"
      for a b unfolding is_earliest_def by (metis order_antisym prefixI same_append_eq)
    have none: "?n = 0 \<Longrightarrow> \<not> is_earliest (fst ` set (rdb_disk db)) p a" for a
    proof
      assume n0: "?n = 0" and ie: "is_earliest (fst ` set (rdb_disk db)) p a"
      from n0 have "\<forall>x \<in> set (rdb_disk db). \<not> prefix p (fst x)"
        by (simp add: stored_count_def filter_empty_conv)
      moreover from ie obtain x where "x \<in> set (rdb_disk db)" "fst x = p @ a"
        unfolding is_earliest_def by (metis imageE)
      ultimately show False by (metis prefixI)
    qed
    show ?thesis
      using d cnt(1) mx False e h0 uniq none
      by (cases r) (auto simp: isPrunable_def settled_def getCacheMessageCount_def
          handler_getEarliestTsHash_def with_cache_def lt_limit_def)
  qed
qed

section \<open>The log as a list of events\<close>

definition event_key :: "int \<Rightarrow> bytes" where
  "event_key i = 15 # be_bytes 8 i"

definition event_entries :: "store \<Rightarrow> store" where
  "event_entries s = filter (\<lambda>e. prefix [15] (fst e)) s"

text \<open>The law of the generated coder for an event, and the range of its id.\<close>

definition stored_event :: "hub_event_codec \<Rightarrow> HubEvent \<Rightarrow> bool" where
  "stored_event D e \<longleftrightarrow>
     0 < he_id e \<and> he_id e < 2 ^ 64 \<and> encodeHubEvent D e \<noteq> [] \<and>
     decodeHubEvent D (encodeHubEvent D e) = Ok e"

definition log_holds :: "hub_event_codec \<Rightarrow> store \<Rightarrow> HubEvent list \<Rightarrow> bool" where
  "log_holds D s evs \<longleftrightarrow>
     db_inv s \<and> (\<forall>e \<in> set evs. stored_event D e) \<and>
     event_entries s = map (\<lambda>e. (event_key (he_id e), encodeHubEvent D e)) evs"

lemma makeEventKey_id: "0 < i \<Longrightarrow> i < 2 ^ 64 \<Longrightarrow> makeEventKey (Some i) = Ok (event_key i)"
  by (simp add: makeEventKey_def event_key_def)

lemma event_key_less:
  "0 \<le> i \<Longrightarrow> i < 2 ^ 64 \<Longrightarrow> 0 \<le> j \<Longrightarrow> j < 2 ^ 64 \<Longrightarrow> event_key i < event_key j \<longleftrightarrow> i < j"
  by (simp add: event_key_def be_bytes_less)

lemma event_key_prefix [simp]: "prefix [15] (event_key i)"
  by (simp add: event_key_def)

lemma log_ids_increase:
  assumes "log_holds D s evs"
  shows "sorted_wrt (<) (map he_id evs)"
proof -
  have ids: "\<forall>e \<in> set evs. 0 \<le> he_id e \<and> he_id e < 2 ^ 64"
    using assms by (auto simp: log_holds_def stored_event_def)
  have "db_inv (event_entries s)"
    using assms unfolding log_holds_def event_entries_def by (blast intro: db_inv_filter)
  moreover have "event_entries s = map (\<lambda>e. (event_key (he_id e), encodeHubEvent D e)) evs"
    using assms by (simp only: log_holds_def)
  ultimately have "sorted_wrt (\<lambda>a b. event_key (he_id a) < event_key (he_id b)) evs"
    by (simp add: db_inv_def sorted_wrt_map)
  then show ?thesis
    unfolding sorted_wrt_map
    by (rule sorted_wrt_mono_rel [rotated])
      (use ids event_key_less in blast)
qed

lemma db_get_filter: "db_get (filter (\<lambda>e. P (fst e)) s) k = (if P k then db_get s k else None)"
  by (induction s) (auto simp: db_get_def)

lemma db_inv_snoc: "db_inv s \<Longrightarrow> \<forall>e \<in> set s. fst e < k \<Longrightarrow> db_inv (s @ [(k, v)])"
  by (auto simp: db_inv_def sorted_wrt_append)

lemma db_get_None: "k \<notin> fst ` set s \<Longrightarrow> db_get s k = None"
  by (simp add: db_get_def map_of_eq_None_iff)

text \<open>Committing a transaction that writes no event key itself, together with an event of a new and
  larger id, appends that event to the log.\<close>

lemma commit_appends:
  assumes log: "log_holds D s evs" and new: "\<forall>x \<in> set evs. he_id x < he_id e" and e: "stored_event D e"
    and txn: "\<forall>op \<in> set txn. \<not> prefix [15] (fst op)"
    and t: "putEventTransaction D txn e = Ok t"
  shows "log_holds D (commit_batch (batch_of t) s) (evs @ [e])"
proof -
  let ?k = "event_key (he_id e)" and ?v = "encodeHubEvent D e" and ?s = "commit_batch (batch_of t) s"
  have t': "t = txn @ [(?k, Some ?v)]" and inv: "db_inv s"
    using t e log by (simp_all add: putEventTransaction_def makeEventKey_id stored_event_def txn_put_def log_holds_def)
  have inv': "db_inv ?s" by (rule commit_inv) (rule inv)
  have keys: "\<forall>x \<in> set (event_entries s). fst x < ?k"
    using log new e by (auto simp: log_holds_def stored_event_def event_key_less)
  have "event_entries ?s = event_entries s @ [(?k, ?v)]"
  proof (rule db_inv_ext)
    show "db_inv (event_entries ?s)" using inv' by (simp add: event_entries_def db_inv_filter)
    show "db_inv (event_entries s @ [(?k, ?v)])"
      by (rule db_inv_snoc) (use inv keys in \<open>simp_all add: event_entries_def db_inv_filter\<close>)
    show "db_get (event_entries ?s) = db_get (event_entries s @ [(?k, ?v)])"
    proof
      fix k
      have nk: "k = ?k \<Longrightarrow> db_get (event_entries s) k = None"
        using keys by (intro db_get_None) auto
      have app: "db_get (event_entries s @ [(?k, ?v)]) k =
          (if k = ?k then Some ?v else db_get (event_entries s) k)"
        using nk by (auto simp: db_get_def map_add_def split: option.split)
      have ops: "prefix [15] k \<Longrightarrow> map_of (rev (map native_op txn)) k = None"
        using txn by (auto simp: map_of_eq_None_iff native_op_def)
      have "prefix [15] k \<Longrightarrow> db_get ?s k = (if k = ?k then Some ?v else db_get s k)"
        using e ops by (simp add: commit_get[OF inv] t' native_op_def stored_event_def)
      moreover have "db_get (event_entries r) k = (if prefix [15] k then db_get r k else None)" for r
        unfolding event_entries_def by (rule db_get_filter)
      ultimately show "db_get (event_entries ?s) k = db_get (event_entries s @ [(?k, ?v)]) k"
        unfolding app by auto
    qed
  qed
  with log e inv' show ?thesis by (simp add: log_holds_def)
qed

section \<open>Reading the log\<close>

lemma event_prefix_range: "[15] \<le> k \<and> k < [16] \<longleftrightarrow> prefix [15 :: byte] k"
proof (cases k)
  case (Cons x r)
  have "15 < x \<and> x < 16 \<longleftrightarrow> False" by (simp add: word_less_def)
  with Cons show ?thesis by (cases r) (auto simp: le_less)
qed simp

lemma events_opts:
  "getEventsIteratorOpts None None =
     Ok \<lparr>io_gte = Some [15], io_gt = None, io_lt = Some [16], io_reverse = False\<rparr>"
  "0 < i \<Longrightarrow> i < 2 ^ 64 \<Longrightarrow> getEventsIteratorOpts (Some i) None =
     Ok \<lparr>io_gte = Some (event_key i), io_gt = None, io_lt = Some [16], io_reverse = False\<rparr>"
  "0 < i \<Longrightarrow> i < 2 ^ 64 \<Longrightarrow> getEventsIteratorOpts None (Some i) =
     Ok \<lparr>io_gte = Some [15], io_gt = None, io_lt = Some (event_key i), io_reverse = False\<rparr>"
  by (simp_all add: getEventsIteratorOpts_def makeEventKey_def event_key_def bytesIncrement_def)

definition events_from :: "int option \<Rightarrow> HubEvent list \<Rightarrow> HubEvent list" where
  "events_from fromId evs = filter (\<lambda>e. case fromId of Some i \<Rightarrow> i \<le> he_id e | None \<Rightarrow> True) evs"

text \<open>The entries between two bounds, as events.\<close>

lemma log_between:
  assumes "log_holds D s evs"
    and "\<forall>e \<in> set s. in_bounds opts (fst e) \<longrightarrow> prefix [15] (fst e)" "\<not> io_reverse opts"
  shows "wanted s opts =
     map (\<lambda>e. (event_key (he_id e), encodeHubEvent D e))
       (filter (\<lambda>e. in_bounds opts (event_key (he_id e))) evs)"
proof -
  have "wanted s opts = filter (\<lambda>e. in_bounds opts (fst e)) (event_entries s)"
    using assms(2,3) unfolding wanted_def event_entries_def
    by (auto simp: Let_def filter_filter intro!: filter_cong)
  also have "\<dots> = filter (\<lambda>e. in_bounds opts (fst e))
      (map (\<lambda>e. (event_key (he_id e), encodeHubEvent D e)) evs)"
    using assms(1) by (simp only: log_holds_def)
  finally show ?thesis by (simp add: filter_map o_def)
qed

lemma forEach_events:
  assumes "log_holds D (rdb_disk db) evs" "rdb_native_open db" "length (rdb_disk db) < fuel"
    and "case fromId of Some i \<Rightarrow> 0 < i \<and> i < 2 ^ 64 | None \<Rightarrow> True"
  shows "\<exists>opts. getEventsIteratorOpts fromId None = Ok opts \<and>
    (\<forall>(cb :: 'st callback) st. RocksDB_forEachIteratorByOpts fuel db opts cb st =
      Some (single_pass cb
        (map (\<lambda>e. (event_key (he_id e), encodeHubEvent D e)) (events_from fromId evs)) st))"
proof -
  let ?lo = "case fromId of Some i \<Rightarrow> event_key i | None \<Rightarrow> [15]"
  let ?o = "\<lparr>io_gte = Some ?lo, io_gt = None, io_lt = Some [16], io_reverse = False\<rparr>"
  have lo: "[15] \<le> ?lo" by (simp add: event_key_def split: option.split)
  have o: "getEventsIteratorOpts fromId None = Ok ?o"
    using assms(4) events_opts by (cases fromId) simp_all
  have inb: "in_bounds ?o k \<longleftrightarrow> prefix [15] k \<and> ?lo \<le> k" for k
    using lo event_prefix_range[of k] by (auto simp: in_bounds_def dest: order_trans)
  have ids: "\<forall>e \<in> set evs. 0 \<le> he_id e \<and> he_id e < 2 ^ 64"
    using assms(1) by (auto simp: log_holds_def stored_event_def)
  have lo15: "[15] \<le> event_key i" for i by (simp add: event_key_def)
  have "in_bounds ?o (event_key (he_id e)) \<longleftrightarrow> (case fromId of Some i \<Rightarrow> i \<le> he_id e | None \<Rightarrow> True)"
    if "e \<in> set evs" for e
    using ids that assms(4) lo15 event_key_less[of "he_id e"]
    unfolding inb by (cases fromId) (auto simp: not_less [symmetric])
  then have "filter (\<lambda>e. in_bounds ?o (event_key (he_id e))) evs = events_from fromId evs"
    unfolding events_from_def by (intro filter_cong) auto
  then have w: "wanted (rdb_disk db) (batch_options ?o None) =
      map (\<lambda>e. (event_key (he_id e), encodeHubEvent D e)) (events_from fromId evs)"
    using log_between[OF assms(1), of ?o] inb by (simp add: batch_options_def)
  have "length (wanted (rdb_disk db) ?o) \<le> length (rdb_disk db)"
    by (simp add: wanted_def Let_def)
  with w assms(3) have len: "length (wanted (rdb_disk db) (batch_options ?o None)) < fuel"
    by (simp add: batch_options_def)
  have inv: "db_inv (rdb_disk db)" using assms(1) by (simp add: log_holds_def)
  have "RocksDB_forEachIteratorByOpts fuel db ?o cb st =
      Some (single_pass cb
        (map (\<lambda>e. (event_key (he_id e), encodeHubEvent D e)) (events_from fromId evs)) st)"
    for cb :: "'st callback" and st
    using forEach_opts_loop_single_pass[OF inv user_range_proper len, of PAGE_SIZE_MAX cb st] assms(2)
    by (simp add: RocksDB_forEachIteratorByOpts_def rsDbForEachIteratorByOpts_def w)
  with o show ?thesis by blast
qed

lemma mapM_stored:
  "\<forall>e \<in> set evs. stored_event D e \<Longrightarrow> mapM (\<lambda>e. decodeHubEvent D (encodeHubEvent D e)) evs = Ok evs"
  using mapM_Ok_map[of evs "\<lambda>e. decodeHubEvent D (encodeHubEvent D e)" id] by (simp add: stored_event_def)

lemma mapM_map: "mapM f (map g xs) = mapM (\<lambda>x. f (g x)) xs"
  by (induction xs) simp_all

lemma getEvents_exact:
  assumes "log_holds D (rdb_disk db) evs" "rdb_native_open db" "length (rdb_disk db) < fuel"
    and "case fromId of Some i \<Rightarrow> 0 < i \<and> i < 2 ^ 64 | None \<Rightarrow> True"
  shows "getEvents fuel D db fromId = Some (Ok (events_from fromId evs))"
proof -
  obtain opts where o: "getEventsIteratorOpts fromId None = Ok opts"
    "\<And>(cb :: HubEvent list callback) st. RocksDB_forEachIteratorByOpts fuel db opts cb st =
      Some (single_pass cb
        (map (\<lambda>e. (event_key (he_id e), encodeHubEvent D e)) (events_from fromId evs)) st)"
    using forEach_events[OF assms] by blast
  have "\<forall>e \<in> set (events_from fromId evs). stored_event D e"
    using assms(1) by (simp add: log_holds_def events_from_def)
  then have "mapM (\<lambda>kv. decodeHubEvent D (snd kv))
      (map (\<lambda>e. (event_key (he_id e), encodeHubEvent D e)) (events_from fromId evs)) =
      Ok (events_from fromId evs)"
    by (simp add: mapM_map mapM_stored)
  with o show ?thesis
    by (simp add: getEvents_def single_pass_def feed_collect[of "decodeHubEvent D"])
qed

lemma read_event_key: "0 \<le> i \<Longrightarrow> i < 2 ^ 64 \<Longrightarrow> readBigUint64BE (event_key i) (Suc 0) = Ok i"
  by (simp add: readBigUint64BE_def event_key_def be_int_be_bytes)

lemma events_callback_stored:
  "stored_event D e \<Longrightarrow>
   events_callback D n (acc, l) (event_key (he_id e)) (encodeHubEvent D e) =
     Ok ((acc @ [e], he_id e), n \<le> 1 + int (length acc))"
  by (simp add: events_callback_def stored_event_def read_event_key)

lemma feed_events:
  "\<forall>e \<in> set evs. stored_event D e \<Longrightarrow> int (length acc) < n \<Longrightarrow>
   \<exists>stop. feed (events_callback D n) (map (\<lambda>e. (event_key (he_id e), encodeHubEvent D e)) evs) (acc, l) =
     Ok ((acc @ take (nat n - length acc) evs,
          if evs = [] then l else he_id (last (take (nat n - length acc) evs))), stop)"
proof (induction evs arbitrary: acc l)
  case Nil
  then show ?case by (intro exI[of _ False]) simp
next
  case (Cons e evs)
  have e: "stored_event D e" using Cons.prems(1) by simp
  show ?case
  proof (cases "int (Suc (length acc)) < n")
    case True
    obtain stop where "feed (events_callback D n)
        (map (\<lambda>e. (event_key (he_id e), encodeHubEvent D e)) evs) (acc @ [e], he_id e) =
        Ok ((acc @ [e] @ take (nat n - Suc (length acc)) evs,
             if evs = [] then he_id e else he_id (last (take (nat n - Suc (length acc)) evs))), stop)"
      using Cons.IH[of "acc @ [e]" "he_id e"] Cons.prems(1) True by auto
    moreover have "nat n - length acc = Suc (nat n - Suc (length acc))" "0 < nat n - Suc (length acc)"
      using True by linarith+
    ultimately show ?thesis
      using True by (auto simp: events_callback_stored[OF e])
  next
    case False
    with Cons.prems(2) have "nat n - length acc = 1" by linarith
    with False show ?thesis by (auto simp: events_callback_stored[OF e])
  qed
qed

text \<open>A page is the first \<open>pageSize\<close> events from an id on, with the id after the last of them.\<close>

lemma getEventsPage_exact:
  assumes "log_holds D (rdb_disk db) evs" "rdb_native_open db" "length (rdb_disk db) < fuel"
    and "0 < fromId" "fromId < 2 ^ 64" "0 < pageSize"
  shows "getEventsPage fuel D db fromId pageSize =
    (let page = take (nat pageSize) (events_from (Some fromId) evs)
     in Some (Ok (page, (if page = [] then fromId else he_id (last page)) + 1)))"
proof -
  have range: "case Some fromId of Some i \<Rightarrow> 0 < i \<and> i < 2 ^ 64 | None \<Rightarrow> True"
    using assms(4,5) by simp
  obtain opts where o: "getEventsIteratorOpts (Some fromId) None = Ok opts"
    "\<And>(cb :: (HubEvent list \<times> int) callback) st. RocksDB_forEachIteratorByOpts fuel db opts cb st =
      Some (single_pass cb
        (map (\<lambda>e. (event_key (he_id e), encodeHubEvent D e)) (events_from (Some fromId) evs)) st)"
    using forEach_events[OF assms(1-3) range] by blast
  have "\<forall>e \<in> set (events_from (Some fromId) evs). stored_event D e"
    using assms(1) by (simp add: log_holds_def events_from_def)
  from feed_events[OF this, of "[]" pageSize fromId] assms(6) o show ?thesis
    by (auto simp: getEventsPage_def single_pass_def Let_def)
qed

text \<open>What the next page starts from is what this page left.\<close>

lemma events_next:
  assumes "sorted_wrt (<) (map he_id evs)" "take n (events_from (Some i) evs) \<noteq> []"
  shows "events_from (Some (he_id (last (take n (events_from (Some i) evs))) + 1)) evs =
         drop n (events_from (Some i) evs)"
proof -
  let ?r = "events_from (Some i) evs"
  let ?l = "he_id (last (take n ?r))"
  have sorted: "sorted_wrt (<) (map he_id ?r)"
    using assms(1) by (simp add: events_from_def sorted_wrt_map sorted_wrt_filter)
  have "last (take n ?r) \<in> set ?r" using assms(2) by (meson in_set_takeD last_in_set)
  then have il: "i \<le> ?l" by (simp add: events_from_def)
  have "events_from (Some (?l + 1)) evs = filter (\<lambda>e. ?l < he_id e) ?r"
    using il by (auto simp: events_from_def intro!: filter_cong)
  also have "\<dots> = filter (\<lambda>e. ?l < he_id e) (take n ?r) @ filter (\<lambda>e. ?l < he_id e) (drop n ?r)"
    by (simp flip: filter_append)
  also have "filter (\<lambda>e. ?l < he_id e) (take n ?r) = []"
  proof -
    have "sorted_wrt (<) (map he_id (take n ?r))"
      using sorted sorted_wrt_take[of "(<)" "map he_id ?r" n] by (simp add: take_map)
    moreover have "take n ?r = butlast (take n ?r) @ [last (take n ?r)]" using assms(2) by simp
    ultimately have "\<forall>e \<in> set (take n ?r). he_id e \<le> ?l"
      by (smt (verit) map_append sorted_wrt_append list.set_map imageI Un_iff set_append
          list.set_intros(1) list.simps(9) set_ConsD empty_iff empty_set)
    then show ?thesis by (auto simp: filter_empty_conv not_less)
  qed
  also have "filter (\<lambda>e. ?l < he_id e) (drop n ?r) = drop n ?r"
  proof -
    have "sorted_wrt (<) (map he_id (take n ?r) @ map he_id (drop n ?r))"
      using sorted by (simp flip: map_append)
    moreover have "?l \<in> set (map he_id (take n ?r))" using assms(2) by simp
    ultimately show ?thesis by (auto simp: filter_id_conv sorted_wrt_append)
  qed
  finally show ?thesis by simp
qed

text \<open>Pruning drops the events whose id is below that of the time limit, and no other key.\<close>

lemma pruneEvents_exact:
  assumes "log_holds D (rdb_disk db) evs" "rdb_native_open db"
    and "makeEventId (now - (case timeLimit of Some t \<Rightarrow> t | None \<Rightarrow> PRUNE_TIME_LIMIT_DEFAULT)) 0 = Some i"
    and "0 < i" "i < 2 ^ 64"
  shows "\<exists>db'. pruneEvents db now timeLimit = (Ok (), db') \<and> rdb_native_open db' \<and>
     log_holds D (rdb_disk db') (filter (\<lambda>e. i \<le> he_id e) evs) \<and>
     (\<forall>k. \<not> prefix [15] k \<longrightarrow> db_get (rdb_disk db') k = db_get (rdb_disk db) k)"
proof -
  let ?o = "\<lparr>io_gte = Some [15], io_gt = None, io_lt = Some (event_key i), io_reverse = False\<rparr>"
  let ?keep = "\<lambda>k. \<not> in_bounds ?o k"
  let ?s = "filter (\<lambda>e. ?keep (fst e)) (rdb_disk db)"
  have inv: "db_inv (rdb_disk db)" using assms(1) by (simp add: log_holds_def)
  have del: "pruneEvents db now timeLimit = (Ok (), db\<lparr>rdb_disk := ?s\<rparr>)"
    using deleteAllKeysInRange_exact[OF inv user_range_proper assms(2), of "[15]" "event_key i"] assms(3-5)
    by (simp add: pruneEvents_def events_opts)
  have low: "in_bounds ?o k \<Longrightarrow> prefix [15] k" for k
  proof -
    have "event_key i < [16]" by (simp add: event_key_def)
    then show "in_bounds ?o k \<Longrightarrow> prefix [15] k"
      using event_prefix_range[of k] by (auto simp: in_bounds_def dest: order_less_trans)
  qed
  have ids: "\<forall>e \<in> set evs. 0 \<le> he_id e \<and> he_id e < 2 ^ 64"
    using assms(1) by (auto simp: log_holds_def stored_event_def)
  have keep: "?keep (event_key (he_id e)) \<longleftrightarrow> i \<le> he_id e" if "e \<in> set evs" for e
    using ids that assms(4,5) event_key_less[of "he_id e" i]
    by (auto simp: in_bounds_def event_key_def)
  have "event_entries ?s = filter (\<lambda>e. ?keep (fst e)) (event_entries (rdb_disk db))"
    unfolding event_entries_def by (simp add: conj_commute)
  also have "\<dots> = map (\<lambda>e. (event_key (he_id e), encodeHubEvent D e)) (filter (\<lambda>e. i \<le> he_id e) evs)"
  proof -
    have "event_entries (rdb_disk db) = map (\<lambda>e. (event_key (he_id e), encodeHubEvent D e)) evs"
      using assms(1) by (simp only: log_holds_def)
    moreover have "filter (\<lambda>e. ?keep (event_key (he_id e))) evs = filter (\<lambda>e. i \<le> he_id e) evs"
      by (rule filter_cong) (simp_all only: keep)
    ultimately show ?thesis by (simp only: filter_map o_def fst_conv)
  qed
  finally have "log_holds D ?s (filter (\<lambda>e. i \<le> he_id e) evs)"
    using assms(1) inv by (simp add: log_holds_def db_inv_filter)
  moreover have "\<not> prefix [15] k \<Longrightarrow> db_get ?s k = db_get (rdb_disk db) k" for k
    using low[of k] db_get_filter[of ?keep "rdb_disk db" k] by auto
  ultimately show ?thesis using del assms(2) by simp
qed

section \<open>Commits as steps\<close>

lemma notify_generator [simp]: "seh_generator (notify db now event h) = seh_generator h"
  by (simp add: notify_def broadcastEvent_def Let_def)

lemma generate_id_step:
  assumes "gen_epoch g = word_of_int FARCASTER_EPOCH" "now < 2 ^ 63"
    and "uint (gen_last_timestamp g) + FARCASTER_EPOCH \<le> now" "uint (gen_last_seq g) < 2 ^ 63"
    and "generate_id (word_of_int now) g = (r, g')"
  shows "gen_epoch g' = gen_epoch g" "uint (gen_last_timestamp g') = now - FARCASTER_EPOCH"
    "uint (gen_last_seq g') \<le> uint (gen_last_seq g) + 1"
    "r = Ok w \<Longrightarrow> uint w = uint (gen_last_timestamp g') * 4096 + uint (gen_last_seq g') \<and>
       uint (gen_last_seq g') < 4096 \<and>
       (gen_last_timestamp g' = gen_last_timestamp g \<longrightarrow> uint (gen_last_seq g') = uint (gen_last_seq g) + 1)"
    "r \<noteq> Throw t"
proof -
  let ?c = "word_of_int now - gen_epoch g :: 64 word"
  have now: "FARCASTER_EPOCH \<le> now" using assms(3) uint_ge_0[of "gen_last_timestamp g"] by linarith
  have "?c = word_of_int (now - FARCASTER_EPOCH)" unfolding assms(1) by (simp only: of_int_diff)
  moreover have "0 \<le> now - FARCASTER_EPOCH" "now - FARCASTER_EPOCH < 2 ^ 64"
    using now assms(2) by (simp_all add: FARCASTER_EPOCH_def)
  ultimately have c: "uint ?c = now - FARCASTER_EPOCH"
    by (simp only: uint_word_of_int) simp
  have inc: "uint (gen_last_seq g + 1) = uint (gen_last_seq g) + 1"
    using assms(4) by (simp add: uint_word_ariths)
  show "gen_epoch g' = gen_epoch g" "uint (gen_last_timestamp g') = now - FARCASTER_EPOCH"
    "uint (gen_last_seq g') \<le> uint (gen_last_seq g) + 1" "r \<noteq> Throw t"
    using assms(5) c inc by (auto simp: generate_id_def Let_def split: if_splits)
  assume ok: "r = Ok w"
  have w: "w = make_event_id (gen_last_timestamp g') (gen_last_seq g')" "gen_last_timestamp g' < 2 ^ 41"
      "gen_last_seq g' < 2 ^ 12"
    using assms(5) ok by (auto simp: generate_id_def Let_def not_le split: if_splits)
  then have "uint (gen_last_timestamp g') < 2 ^ 41" "uint (gen_last_seq g') < 4096"
    by (simp_all add: word_less_def)
  with w have "uint w = uint (gen_last_timestamp g') * 4096 + uint (gen_last_seq g')"
    by (simp add: make_event_id_value)
  moreover have "gen_last_timestamp g' = gen_last_timestamp g \<Longrightarrow> uint (gen_last_seq g') = uint (gen_last_seq g) + 1"
    using assms(5) inc by (auto simp: generate_id_def Let_def split: if_splits)
  ultimately show "uint w = uint (gen_last_timestamp g') * 4096 + uint (gen_last_seq g') \<and>
       uint (gen_last_seq g') < 4096 \<and>
       (gen_last_timestamp g' = gen_last_timestamp g \<longrightarrow> uint (gen_last_seq g') = uint (gen_last_seq g) + 1)"
    using \<open>uint (gen_last_seq g') < 4096\<close> by blast
qed

lemma commitTransaction_Ok:
  assumes "commitTransaction D db now txn args h = (Ok i, db', h')"
  shows "\<exists>w t. generate_id (word_of_int now) (seh_generator h) = (Ok w, seh_generator h') \<and> i = uint w \<and>
     rdb_native_open db \<and> putEventTransaction D txn (args\<lparr>he_id := i\<rparr>) = Ok t \<and>
     db' = db\<lparr>rdb_disk := commit_batch (batch_of t) (rdb_disk db)\<rparr>"
  using assms
  by (auto simp: commitTransaction_def rsGetNextEventId_def Let_def RocksDB_commit_def mapOk_Ok_iff
      split: prod.splits outcome.splits if_splits)

text \<open>A commit that fails leaves the database, the storage cache and the listeners as they were.\<close>

lemma commitTransaction_Err:
  assumes "commitTransaction D db now txn args h = (Err e, db', h')"
  shows "db' = db \<and> seh_storageCache h' = seh_storageCache h \<and> seh_emitted h' = seh_emitted h \<and>
     seh_generator h' = snd (generate_id (word_of_int now) (seh_generator h))"
  using assms
  by (auto simp: commitTransaction_def rsGetNextEventId_def Let_def RocksDB_commit_def
      split: prod.splits outcome.splits if_splits)

text \<open>The steps of a hub that opens with an empty log: commits at times that do not go back, some of
  which fail, prunes, and writes that leave the log alone. \<open>n\<close> counts the commits tried.\<close>

inductive hub_log ::
  "hub_event_codec \<Rightarrow> rocksdb \<Rightarrow> event_handler \<Rightarrow> int \<Rightarrow> nat \<Rightarrow> HubEvent list \<Rightarrow> bool" for D where
  start: "db_inv (rdb_disk db) \<Longrightarrow> rdb_native_open db \<Longrightarrow> event_entries (rdb_disk db) = [] \<Longrightarrow>
     FARCASTER_EPOCH \<le> now \<Longrightarrow>
     hub_log D db
       (new_StoreEventHandler
          \<lparr>gen_last_timestamp = 0, gen_last_seq = 0, gen_epoch = word_of_int FARCASTER_EPOCH\<rparr>) now 0 []"
| commit: "hub_log D db h now n evs \<Longrightarrow> now \<le> now' \<Longrightarrow> \<forall>op \<in> set txn. \<not> prefix [15] (fst op) \<Longrightarrow>
     commitTransaction D db now' txn args h = (Ok i, db', h') \<Longrightarrow>
     stored_event D (args\<lparr>he_id := i\<rparr>) \<Longrightarrow>
     hub_log D db' h' now' (Suc n) (evs @ [args\<lparr>he_id := i\<rparr>])"
| commit_fails: "hub_log D db h now n evs \<Longrightarrow> now \<le> now' \<Longrightarrow>
     commitTransaction D db now' txn args h = (Err e, db', h') \<Longrightarrow> hub_log D db' h' now' (Suc n) evs"
| prune: "hub_log D db h now n evs \<Longrightarrow>
     makeEventId (now - (case limit of Some t \<Rightarrow> t | None \<Rightarrow> PRUNE_TIME_LIMIT_DEFAULT)) 0 = Some i \<Longrightarrow>
     0 < i \<Longrightarrow> i < 2 ^ 64 \<Longrightarrow> pruneEvents db now limit = (r, db') \<Longrightarrow>
     hub_log D db' h now n (filter (\<lambda>e. i \<le> he_id e) evs)"
| other_write: "hub_log D db h now n evs \<Longrightarrow> \<forall>op \<in> set txn. \<not> prefix [15] (fst op) \<Longrightarrow>
     RocksDB_commit db txn = (r, db') \<Longrightarrow> hub_log D db' h now n evs"

text \<open>No id in the log is above the generator's last one.\<close>

definition below_generator :: "event_id_generator \<Rightarrow> HubEvent list \<Rightarrow> bool" where
  "below_generator g evs \<longleftrightarrow>
     (\<forall>e \<in> set evs. he_id e \<le> uint (gen_last_timestamp g) * 4096 + uint (gen_last_seq g) \<and>
                    he_id e \<le> uint (gen_last_timestamp g) * 4096 + 4095)"

definition generator_inv :: "event_id_generator \<Rightarrow> int \<Rightarrow> nat \<Rightarrow> HubEvent list \<Rightarrow> bool" where
  "generator_inv g now n evs \<longleftrightarrow>
     gen_epoch g = word_of_int FARCASTER_EPOCH \<and> uint (gen_last_seq g) \<le> int n \<and>
     uint (gen_last_timestamp g) + FARCASTER_EPOCH \<le> now \<and> below_generator g evs"

lemma generator_inv_step:
  assumes inv: "generator_inv g now n evs" and b: "n < 2 ^ 63" "now' < 2 ^ 63" "now \<le> now'"
    and step: "generate_id (word_of_int now') g = (r, g')"
  shows "generator_inv g' now' (Suc n) evs"
    and "r = Ok w \<Longrightarrow> \<forall>e \<in> set evs. he_id e < uint w"
    and "r = Ok w \<Longrightarrow> uint w = uint (gen_last_timestamp g') * 4096 + uint (gen_last_seq g') \<and>
           uint (gen_last_seq g') < 4096"
proof -
  let ?t = "uint (gen_last_timestamp g)" and ?t' = "uint (gen_last_timestamp g')"
  have i: "gen_epoch g = word_of_int FARCASTER_EPOCH" "uint (gen_last_seq g) \<le> int n"
      "?t + FARCASTER_EPOCH \<le> now" "below_generator g evs"
    using inv by (simp_all add: generator_inv_def)
  have "uint (gen_last_seq g) < 2 ^ 63"
    using i(2) b(1) by (metis of_nat_less_iff of_nat_numeral of_nat_power order_le_less_trans)
  note s = generate_id_step[OF i(1) b(2) _ this step]
  have t: "?t + FARCASTER_EPOCH \<le> now'" using i(3) b(3) by simp
  note s = s[OF t]
  have tt: "?t \<le> ?t'" using s(2) t by simp
  show "generator_inv g' now' (Suc n) evs"
  proof (cases "?t = ?t'")
    case True
    then have "gen_last_seq g' = gen_last_seq g + 1"
      using step s(2) by (auto simp: generate_id_def Let_def word_uint_eq_iff split: if_splits)
    moreover have "uint (gen_last_seq g + 1) = uint (gen_last_seq g) + 1"
      using \<open>uint (gen_last_seq g) < 2 ^ 63\<close> by (simp add: uint_word_ariths)
    ultimately show ?thesis
      using i s True by (fastforce simp: generator_inv_def below_generator_def)
  next
    case False
    then have "?t + 1 \<le> ?t'" using tt by simp
    then have le: "he_id e \<le> ?t' * 4096" if "e \<in> set evs" for e
      using i(4) that unfolding below_generator_def by fastforce
    have "below_generator g' evs"
      unfolding below_generator_def
    proof
      fix e assume "e \<in> set evs"
      from le[OF this] show "he_id e \<le> ?t' * 4096 + uint (gen_last_seq g') \<and> he_id e \<le> ?t' * 4096 + 4095"
        using uint_ge_0[of "gen_last_seq g'"] by linarith
    qed
    with i s show ?thesis by (simp add: generator_inv_def)
  qed
  assume ok: "r = Ok w"
  note w = s(4)[OF ok]
  then show "uint w = uint (gen_last_timestamp g') * 4096 + uint (gen_last_seq g') \<and>
           uint (gen_last_seq g') < 4096" by blast
  show "\<forall>e \<in> set evs. he_id e < uint w"
  proof
    fix e assume e: "e \<in> set evs"
    show "he_id e < uint w"
    proof (cases "?t = ?t'")
      case True
      then have "uint (gen_last_seq g') = uint (gen_last_seq g) + 1" using w by (simp add: word_uint_eq_iff)
      with w True i(4) e show ?thesis unfolding below_generator_def by fastforce
    next
      case False
      then have "?t + 1 \<le> ?t'" using tt by simp
      moreover have "he_id e \<le> ?t * 4096 + 4095" using i(4) e unfolding below_generator_def by blast
      ultimately show ?thesis using w uint_ge_0[of "gen_last_seq g'"] by linarith
    qed
  qed
qed

text \<open>In every state the hub reaches, the log holds the events that were committed and not pruned, in
  the order of the commits and of their ids.\<close>

lemma hub_log_invariant:
  assumes "hub_log D db h now n evs" "n < 2 ^ 63" "now < 2 ^ 63"
  shows "log_holds D (rdb_disk db) evs \<and> rdb_native_open db \<and> generator_inv (seh_generator h) now n evs"
  using assms
proof (induction rule: hub_log.induct)
  case (start db now)
  then show ?case
    by (simp add: log_holds_def generator_inv_def below_generator_def new_StoreEventHandler_def)
next
  case (commit db h now n evs now' txn args i db' h')
  then have IH: "log_holds D (rdb_disk db) evs" "rdb_native_open db" "generator_inv (seh_generator h) now n evs"
    by simp_all
  obtain w t where c: "generate_id (word_of_int now') (seh_generator h) = (Ok w, seh_generator h')" "i = uint w"
      "putEventTransaction D txn (args\<lparr>he_id := i\<rparr>) = Ok t"
      "db' = db\<lparr>rdb_disk := commit_batch (batch_of t) (rdb_disk db)\<rparr>"
    using commitTransaction_Ok[OF commit.hyps(4)] by blast
  have "n < 2 ^ 63" using commit.prems(1) by simp
  note g = generator_inv_step[OF IH(3) this commit.prems(2) commit.hyps(2) c(1)]
  have "generator_inv (seh_generator h') now' (Suc n) (evs @ [args\<lparr>he_id := i\<rparr>])"
    using g(1) g(3)[of w] c(2) by (auto simp: generator_inv_def below_generator_def)
  moreover have "log_holds D (rdb_disk db') (evs @ [args\<lparr>he_id := i\<rparr>])"
    using commit_appends[OF IH(1) _ commit.hyps(5,3) c(3)] g(2)[of w] c(2,4) by simp
  ultimately show ?case using IH(2) c(4) by simp
next
  case (commit_fails db h now n evs now' txn args e db' h')
  then have IH: "log_holds D (rdb_disk db) evs" "rdb_native_open db" "generator_inv (seh_generator h) now n evs"
    by simp_all
  have d: "db' = db" "seh_generator h' = snd (generate_id (word_of_int now') (seh_generator h))"
    using commitTransaction_Err[OF commit_fails.hyps(3)] by simp_all
  obtain r g where g: "generate_id (word_of_int now') (seh_generator h) = (r, g)" by fastforce
  have "n < 2 ^ 63" using commit_fails.prems(1) by simp
  from generator_inv_step(1)[OF IH(3) this commit_fails.prems(2) commit_fails.hyps(2) g] d g IH(1,2)
  show ?case by simp
next
  case (prune db h now n evs limit i r db')
  then have IH: "log_holds D (rdb_disk db) evs" "rdb_native_open db" "generator_inv (seh_generator h) now n evs"
    by simp_all
  have "generator_inv (seh_generator h) now n (filter (\<lambda>e. i \<le> he_id e) evs)"
    using IH(3) by (simp add: generator_inv_def below_generator_def)
  with pruneEvents_exact[OF IH(1,2) prune.hyps(2-4)] prune.hyps(5) show ?case by auto
next
  case (other_write db h now n evs txn r db')
  then have IH: "log_holds D (rdb_disk db) evs" "rdb_native_open db" "generator_inv (seh_generator h) now n evs"
    by simp_all
  have db': "db' = db\<lparr>rdb_disk := commit_batch (batch_of txn) (rdb_disk db)\<rparr>"
    using other_write.hyps(3) IH(2) by (simp add: RocksDB_commit_def)
  have inv: "db_inv (rdb_disk db)" using IH(1) by (simp add: log_holds_def)
  have "event_entries (commit_batch (batch_of txn) (rdb_disk db)) = event_entries (rdb_disk db)"
  proof (rule db_inv_ext)
    show "db_inv (event_entries (commit_batch (batch_of txn) (rdb_disk db)))" "db_inv (event_entries (rdb_disk db))"
      unfolding event_entries_def by (auto intro: db_inv_filter commit_inv inv)
    show "db_get (event_entries (commit_batch (batch_of txn) (rdb_disk db))) = db_get (event_entries (rdb_disk db))"
    proof
      fix k
      have "prefix [15] k \<Longrightarrow> map_of (rev (map native_op txn)) k = None"
        using other_write.hyps(2) by (auto simp: map_of_eq_None_iff native_op_def)
      then show "db_get (event_entries (commit_batch (batch_of txn) (rdb_disk db))) k =
          db_get (event_entries (rdb_disk db)) k"
        unfolding event_entries_def db_get_filter[of "prefix [15]"] by (simp add: commit_get[OF inv])
    qed
  qed
  with IH db' show ?case by (simp add: log_holds_def commit_inv)
qed

end
