(* ===== verification/OnChainEventStore.thy ===== *)
theory OnChainEventStore
  imports StoreEventHandler
begin

text \<open>
  \<^verbatim>\<open>storage/stores/onChainEventStore.ts\<close>: merging on-chain events, the indexes of signers and id
  registrations, and the two caches in front of them. A call runs to its end before the next
  one starts; the window inside a cached lookup is the subject of \<open>lru_invalidate_race\<close>. The
  lemmas show what a merge stores, that lookups answer like the database, and what they answer
  after a signer was removed or an id registered.
\<close>

definition SUPPORTED_SIGNER_SCHEMES :: "int list" where
  "SUPPORTED_SIGNER_SCHEMES = [1]"

definition LRU_CACHE_SIZE :: nat where
  "LRU_CACHE_SIZE = 50000"

text \<open>The key of the signer cache is the text \<^verbatim>\<open>fid:hex\<close>; here it is the pair of the two.\<close>

type_synonym signer_cache_key = "number \<times> js_string"

record onchain_store =
  ocs_activeSignerCache :: "(signer_cache_key, OnChainEvent) lru_cache"
  ocs_idRegisterByFidCache :: "(number, OnChainEvent) lru_cache"

definition new_OnChainEventStore :: onchain_store where
  "new_OnChainEventStore =
     \<lparr>ocs_activeSignerCache = new_LRUCache LRU_CACHE_SIZE,
      ocs_idRegisterByFidCache = new_LRUCache LRU_CACHE_SIZE\<rparr>"

definition getActiveSignerCacheKey :: "number \<Rightarrow> bytes \<Rightarrow> signer_cache_key" where
  "getActiveSignerCacheKey fid signer = (fid, buffer_hex signer)"

definition clearCaches :: "onchain_store \<Rightarrow> onchain_store" where
  "clearCaches st =
     st\<lparr>ocs_activeSignerCache := lru_clear (ocs_activeSignerCache st),
        ocs_idRegisterByFidCache := lru_clear (ocs_idRegisterByFidCache st)\<rparr>"

section \<open>Lookups\<close>

definition getOnChainEvents ::
  "nat \<Rightarrow> proto_codec \<Rightarrow> rocksdb \<Rightarrow> int \<Rightarrow> number \<Rightarrow> OnChainEvent list outcome option" where
  "getOnChainEvents fuel C db type fid =
     (case makeOnChainEventIteratorPrefix type (Some fid) of
        Ok pre \<Rightarrow>
          map_option (\<lambda>r. andThen r (\<lambda>(keys, _). getManyOnChainEvents C db keys))
            (RocksDB_forEachIteratorByPrefix fuel db pre no_page_options
               (\<lambda>keys key val. Ok (keys @ [key], False)) [])
      | Err e \<Rightarrow> Some (Err e)
      | Throw t \<Rightarrow> Some (Throw t))"

text \<open>The function in front of which the signer cache stands, and that of the id registrations.\<close>

definition active_signer_lookup :: "proto_codec \<Rightarrow> rocksdb \<Rightarrow> number \<Rightarrow> bytes \<Rightarrow> OnChainEvent outcome" where
  "active_signer_lookup C db fid signer =
     andThen (makeSignerOnChainEventBySignerKey fid signer) (\<lambda>key.
     andThen (RocksDB_get db key) (\<lambda>signerEventPrimaryKey.
     andThen (getOnChainEventByKey C db signerEventPrimaryKey) (\<lambda>event.
     andThen (deref (oce_signerEventBody event)) (\<lambda>body.
       if seb_eventType body = SIGNER_EVENT_ADD \<and> seb_keyType body \<in> set SUPPORTED_SIGNER_SCHEMES
       then Ok event
       else throw_hub NotFound ''no such active signer''))))"

definition getActiveSigner ::
  "proto_codec \<Rightarrow> rocksdb \<Rightarrow> number \<Rightarrow> bytes \<Rightarrow> onchain_store \<Rightarrow> OnChainEvent outcome \<times> onchain_store" where
  "getActiveSigner C db fid signer st =
     (case lru_get (getActiveSignerCacheKey fid signer) (active_signer_lookup C db fid signer)
             (ocs_activeSignerCache st) of
        (r, c) \<Rightarrow> (r, st\<lparr>ocs_activeSignerCache := c\<rparr>))"

definition id_register_lookup :: "proto_codec \<Rightarrow> rocksdb \<Rightarrow> number \<Rightarrow> OnChainEvent outcome" where
  "id_register_lookup C db fid =
     andThen (makeIdRegisterEventByFidKey fid) (\<lambda>key.
     andThen (RocksDB_get db key) (getOnChainEventByKey C db))"

definition getIdRegisterEventByFid ::
  "proto_codec \<Rightarrow> rocksdb \<Rightarrow> number \<Rightarrow> onchain_store \<Rightarrow> OnChainEvent outcome \<times> onchain_store" where
  "getIdRegisterEventByFid C db fid st =
     (case lru_get fid (id_register_lookup C db fid) (ocs_idRegisterByFidCache st) of
        (r, c) \<Rightarrow> (r, st\<lparr>ocs_idRegisterByFidCache := c\<rparr>))"

definition getIdRegisterEventByCustodyAddress ::
  "proto_codec \<Rightarrow> rocksdb \<Rightarrow> bytes \<Rightarrow> OnChainEvent outcome" where
  "getIdRegisterEventByCustodyAddress C db address =
     andThen (RocksDB_get db (makeIdRegisterEventByCustodyKey address)) (getOnChainEventByKey C db)"

definition getFids ::
  "nat \<Rightarrow> proto_codec \<Rightarrow> rocksdb \<Rightarrow> page_options \<Rightarrow> (number list \<times> bytes option) outcome option" where
  "getFids fuel C db pageOptions =
     (case makeOnChainEventSecondaryIteratorPrefix IdRegisterByFid None of
        Ok pre \<Rightarrow>
          map_option (\<lambda>r. mapOk r (\<lambda>(events, token). (map oce_fid events, token)))
            (getOnChainEventsPageByPrefix fuel C db pre isIdRegisterOnChainEvent pageOptions)
      | Err e \<Rightarrow> Some (Err e)
      | Throw t \<Rightarrow> Some (Throw t))"

definition is_signer_add :: "OnChainEvent \<Rightarrow> bool" where
  "is_signer_add event \<longleftrightarrow>
     isSignerOnChainEvent event \<and>
     (case oce_signerEventBody event of Some b \<Rightarrow> seb_eventType b = SIGNER_EVENT_ADD | None \<Rightarrow> False)"

definition getSignersByFid ::
  "nat \<Rightarrow> proto_codec \<Rightarrow> rocksdb \<Rightarrow> number \<Rightarrow> page_options \<Rightarrow>
   (OnChainEvent list \<times> bytes option) outcome option" where
  "getSignersByFid fuel C db fid pageOptions =
     (case makeOnChainEventSecondaryIteratorPrefix SignerByFid (Some fid) of
        Ok pre \<Rightarrow> getOnChainEventsPageByPrefix fuel C db pre is_signer_add pageOptions
      | Err e \<Rightarrow> Some (Err e)
      | Throw t \<Rightarrow> Some (Throw t))"

text \<open>The sort is stable. The inner \<open>None\<close> is \<^verbatim>\<open>undefined\<close>, when the event has no body.\<close>

definition getSignerMigratedAt ::
  "nat \<Rightarrow> proto_codec \<Rightarrow> rocksdb \<Rightarrow> int option outcome option" where
  "getSignerMigratedAt fuel C db =
     map_option (\<lambda>r. mapOk r (\<lambda>signerMigrated.
         case sort_key (\<lambda>e. - oce_blockNumber e) signerMigrated of
           e # _ \<Rightarrow> map_option smeb_migratedAt (oce_signerMigratedEventBody e)
         | [] \<Rightarrow> Some 0))
       (getOnChainEvents fuel C db EVENT_TYPE_SIGNER_MIGRATED (numI 0))"

text \<open>\<^verbatim>\<open>ResultAsync.fromPromise(p, () => undefined)\<close>, of which only success matters.\<close>

definition result_of :: "'a outcome \<Rightarrow> 'a option" where
  "result_of r = (case r of Ok x \<Rightarrow> Some x | _ \<Rightarrow> None)"

definition getEventBySecondaryKey :: "proto_codec \<Rightarrow> rocksdb \<Rightarrow> bytes \<Rightarrow> OnChainEvent option" where
  "getEventBySecondaryKey C db secondaryKey =
     (case result_of (RocksDB_get db secondaryKey) of
        Some primaryKey \<Rightarrow> result_of (getOnChainEventByKey C db primaryKey)
      | None \<Rightarrow> None)"

section \<open>Merging\<close>

text \<open>\<^verbatim>\<open>signerEvents.find(...)\<close>; the callback throws on an event without a body.\<close>

fun find_signer_add :: "bytes \<Rightarrow> OnChainEvent list \<Rightarrow> OnChainEvent option outcome" where
  "find_signer_add key [] = Ok None"
| "find_signer_add key (e # es) =
     andThen (deref (oce_signerEventBody e)) (\<lambda>b.
       if seb_eventType b = SIGNER_EVENT_ADD \<and> bytesCompare (seb_key b) key = 0 then Ok (Some e)
       else find_signer_add key es)"

definition event_primary_key :: "OnChainEvent \<Rightarrow> bytes outcome" where
  "event_primary_key e =
     makeOnChainEventPrimaryKey (oce_type e) (oce_fid e) (oce_blockNumber e) (oce_logIndex e)"

definition put_event_index :: "transaction \<Rightarrow> bytes \<Rightarrow> OnChainEvent \<Rightarrow> transaction outcome" where
  "put_event_index txn secondaryKey e = mapOk (event_primary_key e) (\<lambda>pk. txn_put txn secondaryKey pk)"

text \<open>The check against the event the index points to: \<open>Ok True\<close> when that event is newer.\<close>

definition signer_conflict :: "OnChainEvent option \<Rightarrow> OnChainEvent \<Rightarrow> SignerEventBody \<Rightarrow> bool outcome" where
  "signer_conflict existing event body =
     (case existing of
        None \<Rightarrow> Ok False
      | Some ex \<Rightarrow>
          if oce_blockNumber ex > oce_blockNumber event then Ok True
          else andThen (deref (oce_signerEventBody ex)) (\<lambda>b.
            if seb_eventType b = SIGNER_EVENT_REMOVE \<and> seb_eventType body = SIGNER_EVENT_ADD \<and>
               oce_version event = oce_version ex
            then throw_hub Conflict ''attempting to re-add removed key'' else Ok False))"

definition handleSignerEvent ::
  "nat \<Rightarrow> proto_codec \<Rightarrow> rocksdb \<Rightarrow> transaction \<Rightarrow> OnChainEvent \<Rightarrow> onchain_store \<Rightarrow>
   transaction outcome option \<times> onchain_store" where
  "handleSignerEvent fuel C db txn event st =
     (case andThen (deref (oce_signerEventBody event)) (\<lambda>body.
             andThen (makeSignerOnChainEventBySignerKey (oce_fid event) (seb_key body)) (\<lambda>secondaryKey.
             mapOk (signer_conflict (getEventBySecondaryKey C db secondaryKey) event body)
               (\<lambda>newer. (body, secondaryKey, newer)))) of
        Err e \<Rightarrow> (Some (Err e), st)
      | Throw t \<Rightarrow> (Some (Throw t), st)
      | Ok (body, secondaryKey, newer) \<Rightarrow>
          if newer then (Some (Ok txn), st)
          else
            (let st = (if seb_eventType body = SIGNER_EVENT_REMOVE then
                         st\<lparr>ocs_activeSignerCache :=
                              lru_invalidate (getActiveSignerCacheKey (oce_fid event) (seb_key body))
                                (ocs_activeSignerCache st)\<rparr>
                       else st)
             in if seb_eventType body = SIGNER_EVENT_ADMIN_RESET then
                  (map_option (\<lambda>r. andThen r (\<lambda>signerEvents.
                       andThen (find_signer_add (seb_key body) signerEvents) (\<lambda>signerAdd.
                         put_event_index txn secondaryKey
                           (case signerAdd of Some a \<Rightarrow> a | None \<Rightarrow> event))))
                     (getOnChainEvents fuel C db EVENT_TYPE_SIGNER (oce_fid event)), st)
                else (Some (put_event_index txn secondaryKey event), st)))"

definition handleIdRegisterEvent ::
  "proto_codec \<Rightarrow> rocksdb \<Rightarrow> transaction \<Rightarrow> OnChainEvent \<Rightarrow> onchain_store \<Rightarrow>
   transaction outcome \<times> onchain_store" where
  "handleIdRegisterEvent C db txn event st =
     (case oce_idRegisterEventBody event of
        None \<Rightarrow> (Throw TypeError, st)
      | Some body \<Rightarrow>
          if ireb_eventType body = ID_REGISTER_CHANGE_RECOVERY then (Ok txn, st)
          else
            (andThen (makeIdRegisterEventByFidKey (oce_fid event)) (\<lambda>byFidKey.
               case getEventBySecondaryKey C db byFidKey of
                 Some ex \<Rightarrow>
                   if oce_blockNumber ex > oce_blockNumber event then Ok txn
                   else mapOk (event_primary_key event) (\<lambda>primaryKey.
                     txn_put (txn_put txn byFidKey primaryKey)
                       (makeIdRegisterEventByCustodyKey (ireb_to body)) primaryKey)
               | None \<Rightarrow>
                   mapOk (event_primary_key event) (\<lambda>primaryKey.
                     txn_put (txn_put txn byFidKey primaryKey)
                       (makeIdRegisterEventByCustodyKey (ireb_to body)) primaryKey)),
             st\<lparr>ocs_idRegisterByFidCache := lru_invalidate (oce_fid event) (ocs_idRegisterByFidCache st)\<rparr>))"

definition merge_event_args :: "OnChainEvent \<Rightarrow> HubEvent" where
  "merge_event_args event =
     \<lparr>he_type = HUB_EVENT_MERGE_ON_CHAIN_EVENT, he_id = 0, he_mergeMessageBody = None,
      he_pruneMessageBody = None, he_revokeMessageBody = None, he_mergeUsernameProofBody = None,
      he_mergeOnChainEventBody = Some (Some event)\<rparr>"

text \<open>The transaction of a merge, before the commit.\<close>

definition merge_transaction ::
  "nat \<Rightarrow> proto_codec \<Rightarrow> rocksdb \<Rightarrow> OnChainEvent \<Rightarrow> onchain_store \<Rightarrow>
   transaction outcome option \<times> onchain_store" where
  "merge_transaction fuel C db event st =
     (case putOnChainEventTransaction C [] event of
        Err e \<Rightarrow> (Some (Err e), st)
      | Throw t \<Rightarrow> (Some (Throw t), st)
      | Ok txn \<Rightarrow>
          if isSignerOnChainEvent event then handleSignerEvent fuel C db txn event st
          else if isIdRegisterOnChainEvent event then
            (case handleIdRegisterEvent C db txn event st of (r, st) \<Rightarrow> (Some r, st))
          else (Some (Ok txn), st))"

definition mergeOnChainEvent ::
  "nat \<Rightarrow> proto_codec \<Rightarrow> hub_event_codec \<Rightarrow> rocksdb \<Rightarrow> int \<Rightarrow> OnChainEvent \<Rightarrow> event_handler \<Rightarrow>
   onchain_store \<Rightarrow> int outcome option \<times> rocksdb \<times> event_handler \<times> onchain_store" where
  "mergeOnChainEvent fuel C D db now event h st =
     (if is_ok (getOnChainEvent C db (oce_type event) (oce_fid event) (oce_blockNumber event) (oce_logIndex event))
      then (Some (throw_hub Duplicate ''onChainEvent already exists''), db, h, st)
      else
        (case merge_transaction fuel C db event st of
           (None, st) \<Rightarrow> (None, db, h, st)
         | (Some (Err e), st) \<Rightarrow> (Some (Err e), db, h, st)
         | (Some (Throw t), st) \<Rightarrow> (Some (Throw t), db, h, st)
         | (Some (Ok txn), st) \<Rightarrow>
             (case commitTransaction D db now txn (merge_event_args event) h of
                (r, db, h) \<Rightarrow> (Some (throwErr r), db, h, st))))"

section \<open>Clearing\<close>

text \<open>The iteration deletes what it visits: each page is fetched from what is left.\<close>

fun clear_pages :: "nat \<Rightarrow> nat \<Rightarrow> store \<Rightarrow> bytes \<Rightarrow> page_options \<Rightarrow> nat \<Rightarrow> (nat \<times> store) option" where
  "clear_pages 0 pageMax s pre batch count = None"
| "clear_pages (Suc fuel) pageMax s pre batch count =
     (let result = dbFetchIteratorPageByPrefix pageMax s pre batch;
          s = fold (\<lambda>e s. db_del (fst e) s) (pg_dbKeyValues result) s;
          count = count + length (pg_dbKeyValues result)
      in if \<not> pg_allFinished result then
           clear_pages fuel pageMax s pre (no_page_options\<lparr>po_pageToken := Some (pg_nextPageToken result)\<rparr>) count
         else Some (count, s))"

text \<open>\<open>set_lastL2Block\<close> updates that field of the generated state record.\<close>

definition clearEvents ::
  "nat \<Rightarrow> (bytes \<Rightarrow> 'h outcome) \<Rightarrow> ('h \<Rightarrow> bytes) \<Rightarrow> (int \<Rightarrow> 'h \<Rightarrow> 'h) \<Rightarrow> rocksdb \<Rightarrow>
   nat outcome option \<times> rocksdb" where
  "clearEvents fuel decodeHubState encodeHubState set_lastL2Block db =
     (if \<not> rdb_native_open db then (Some (Throw native_panic), db)
      else
        (case clear_pages fuel PAGE_SIZE_MAX (rdb_disk db) [root_byte OnChainEventPrefix] no_page_options 0 of
           None \<Rightarrow> (None, db)
         | Some (count, s) \<Rightarrow>
             (let db = db\<lparr>rdb_disk := s\<rparr> in
              case getHubState decodeHubState db of
                Ok state \<Rightarrow>
                  (case putHubState encodeHubState db (set_lastL2Block 0 state) of
                     (Ok _, db) \<Rightarrow> (Some (Ok count), db)
                   | (Err e, db) \<Rightarrow> (Some (Err e), db)
                   | (Throw t, db) \<Rightarrow> (Some (Throw t), db))
              | _ \<Rightarrow> (Some (Ok count), db))))"

section \<open>What a merge writes\<close>

lemma event_primary_prefix: "event_primary_key e = Ok pk \<Longrightarrow> prefix [23, 1] pk \<and> pk \<noteq> []"
  by (auto simp: event_primary_key_def makeOnChainEventPrimaryKey_def outcome_simps)

lemma signer_index_prefix: "makeSignerOnChainEventBySignerKey fid s = Ok k \<Longrightarrow> prefix [23, 51] k"
  by (auto simp: makeSignerOnChainEventBySignerKey_def outcome_simps)

lemma id_index_prefix:
  "makeIdRegisterEventByFidKey fid = Ok k \<Longrightarrow> prefix [23, 52] k" "prefix [23, 53] (makeIdRegisterEventByCustodyKey a)"
  by (auto simp: makeIdRegisterEventByFidKey_def makeIdRegisterEventByCustodyKey_def outcome_simps)

lemma prefixes_differ:
  "prefix [23, 1 :: byte] k \<Longrightarrow> \<not> prefix [23, 51] k \<and> \<not> prefix [23, 52] k \<and> \<not> prefix [23, 53] k \<and> \<not> prefix [15] k"
  "prefix [23, 51 :: byte] k \<Longrightarrow> \<not> prefix [23, 52] k \<and> \<not> prefix [23, 53] k \<and> \<not> prefix [15] k"
  "prefix [23, 52 :: byte] k \<Longrightarrow> \<not> prefix [23, 53] k \<and> \<not> prefix [15] k"
  "prefix [23, 53 :: byte] k \<Longrightarrow> \<not> prefix [15] k"
  by (auto simp: prefix_def)

lemma putOnChainEvent_shape:
  "putOnChainEventTransaction C [] event = Ok txn \<longleftrightarrow>
   (\<exists>pk. event_primary_key event = Ok pk \<and> txn = [(pk, Some (encodeOnChainEvent C event))])"
  by (auto simp: putOnChainEventTransaction_def event_primary_key_def Let_def outcome_simps txn_put_def)

lemma put_event_index_Ok:
  "put_event_index txn k e = Ok t \<longleftrightarrow> (\<exists>pk. event_primary_key e = Ok pk \<and> t = txn @ [(k, Some pk)])"
  by (auto simp: put_event_index_def outcome_simps txn_put_def)

text \<open>The index entries a merge may add to its transaction: each points to a primary key.\<close>

definition index_writes :: "OnChainEvent \<Rightarrow> transaction \<Rightarrow> bool" where
  "index_writes event ops \<longleftrightarrow>
     (\<forall>op \<in> set ops. \<exists>e w. event_primary_key e = Ok w \<and> snd op = Some w \<and>
        (prefix [23, 52] (fst op) \<or> prefix [23, 53] (fst op) \<or>
         (\<exists>b. oce_signerEventBody event = Some b \<and>
              makeSignerOnChainEventBySignerKey (oce_fid event) (seb_key b) = Ok (fst op))))"

lemma index_writes_Nil: "index_writes event []"
  by (simp add: index_writes_def)

lemma index_writes_id:
  assumes "event_primary_key e = Ok w" "prefix [23, 52] k \<or> prefix [23, 53] k" "index_writes event ops"
  shows "index_writes event ((k, Some w) # ops)"
  unfolding index_writes_def
proof
  fix op assume "op \<in> set ((k, Some w) # ops)"
  then consider "op = (k, Some w)" | "op \<in> set ops" by auto
  then show "\<exists>e w. event_primary_key e = Ok w \<and> snd op = Some w \<and>
        (prefix [23, 52] (fst op) \<or> prefix [23, 53] (fst op) \<or>
         (\<exists>b. oce_signerEventBody event = Some b \<and>
              makeSignerOnChainEventBySignerKey (oce_fid event) (seb_key b) = Ok (fst op)))"
  proof cases
    case 1
    with assms(1,2) have "event_primary_key e = Ok w \<and> snd op = Some w \<and>
        (prefix [23, 52] (fst op) \<or> prefix [23, 53] (fst op))" by simp
    then show ?thesis by blast
  next
    case 2
    with assms(3) show ?thesis unfolding index_writes_def by blast
  qed
qed

lemma index_writes_op:
  assumes "index_writes event ops" "op \<in> set ops"
  shows "\<exists>e w. event_primary_key e = Ok w \<and> snd op = Some w"
    and "prefix [23, 52] (fst op) \<or> prefix [23, 53] (fst op) \<or> prefix [23, 51] (fst op)"
proof -
  obtain e w where "event_primary_key e = Ok w" "snd op = Some w" and
    k: "prefix [23, 52] (fst op) \<or> prefix [23, 53] (fst op) \<or>
         (\<exists>b. oce_signerEventBody event = Some b \<and>
              makeSignerOnChainEventBySignerKey (oce_fid event) (seb_key b) = Ok (fst op))"
    using assms unfolding index_writes_def by blast
  then show "\<exists>e w. event_primary_key e = Ok w \<and> snd op = Some w" by blast
  from k show "prefix [23, 52] (fst op) \<or> prefix [23, 53] (fst op) \<or> prefix [23, 51] (fst op)"
    by (metis signer_index_prefix)
qed

lemma handleSignerEvent_shape:
  assumes "handleSignerEvent fuel C db txn event st = (Some (Ok t), st')"
    and "oce_signerEventBody event = Some b"
  shows "\<exists>rest. t = txn @ rest \<and> index_writes event rest \<and>
     ocs_idRegisterByFidCache st' = ocs_idRegisterByFidCache st \<and>
     (if rest \<noteq> [] \<and> seb_eventType b = SIGNER_EVENT_REMOVE
      then ocs_activeSignerCache st' =
             lru_invalidate (getActiveSignerCacheKey (oce_fid event) (seb_key b)) (ocs_activeSignerCache st)
      else ocs_activeSignerCache st' = ocs_activeSignerCache st)"
proof -
  let ?inv = "lru_invalidate (getActiveSignerCacheKey (oce_fid event) (seb_key b)) (ocs_activeSignerCache st)"
  obtain sk newer where a: "makeSignerOnChainEventBySignerKey (oce_fid event) (seb_key b) = Ok sk"
      "signer_conflict (getEventBySecondaryKey C db sk) event b = Ok newer"
    using assms
    by (cases "makeSignerOnChainEventBySignerKey (oce_fid event) (seb_key b)")
      (auto simp: handleSignerEvent_def outcome_simps split: outcome.splits)
  have one: "index_writes event [(sk, Some pk)]" if "event_primary_key e = Ok pk" for e pk
    using that a(1) assms(2) by (auto simp: index_writes_def)
  show ?thesis
  proof (cases newer)
    case True
    with assms a have "t = txn \<and> st' = st" by (simp add: handleSignerEvent_def)
    then show ?thesis by (simp add: index_writes_def)
  next
    case False
    show ?thesis
    proof (cases "seb_eventType b = SIGNER_EVENT_ADMIN_RESET")
      case True
      with assms a False obtain e where "put_event_index txn sk e = Ok t" "st' = st"
        by (auto simp: handleSignerEvent_def Let_def outcome_simps)
      with one True show ?thesis by (auto simp: put_event_index_Ok)
    next
      case False
      with assms a \<open>\<not> newer\<close> have "put_event_index txn sk event = Ok t"
        "st' = (if seb_eventType b = SIGNER_EVENT_REMOVE then st\<lparr>ocs_activeSignerCache := ?inv\<rparr> else st)"
        by (simp_all add: handleSignerEvent_def Let_def)
      with one show ?thesis by (auto simp: put_event_index_Ok)
    qed
  qed
qed

lemma handleIdRegisterEvent_shape:
  assumes "handleIdRegisterEvent C db txn event st = (Ok t, st')"
  shows "\<exists>rest. t = txn @ rest \<and> index_writes event rest \<and>
     ocs_activeSignerCache st' = ocs_activeSignerCache st"
proof -
  obtain body where body: "oce_idRegisterEventBody event = Some body"
    using assms by (auto simp: handleIdRegisterEvent_def split: option.splits)
  show ?thesis
  proof (cases "ireb_eventType body = ID_REGISTER_CHANGE_RECOVERY")
    case True
    with assms body show ?thesis by (simp add: handleIdRegisterEvent_def index_writes_def)
  next
    case False
    have st: "ocs_activeSignerCache st' = ocs_activeSignerCache st"
      using assms body False by (auto simp: handleIdRegisterEvent_def)
    obtain k where k: "makeIdRegisterEventByFidKey (oce_fid event) = Ok k"
      using assms body False
      by (cases "makeIdRegisterEventByFidKey (oce_fid event)") (auto simp: handleIdRegisterEvent_def)
    let ?a = "makeIdRegisterEventByCustodyKey (ireb_to body)"
    have "t = txn \<or> (\<exists>pk. event_primary_key event = Ok pk \<and> t = txn @ [(k, Some pk), (?a, Some pk)])"
      using assms body False k
      by (cases "getEventBySecondaryKey C db k"; cases "event_primary_key event")
        (auto simp: handleIdRegisterEvent_def txn_put_def split: if_splits)
    then show ?thesis
    proof
      assume "t = txn"
      with st show ?thesis by (simp add: index_writes_def)
    next
      assume "\<exists>pk. event_primary_key event = Ok pk \<and> t = txn @ [(k, Some pk), (?a, Some pk)]"
      then obtain pk where "event_primary_key event = Ok pk" "t = txn @ [(k, Some pk), (?a, Some pk)]" by blast
      moreover from this(1) have "index_writes event [(k, Some pk), (?a, Some pk)]"
        using id_index_prefix(1)[OF k] id_index_prefix(2)[of "ireb_to body"]
        by (intro index_writes_id index_writes_Nil) simp_all
      ultimately show ?thesis using st by blast
    qed
  qed
qed

lemma merge_transaction_shape:
  assumes "merge_transaction fuel C db event st = (Some (Ok txn), st')"
  shows "\<exists>pk rest. event_primary_key event = Ok pk \<and>
     txn = (pk, Some (encodeOnChainEvent C event)) # rest \<and> index_writes event rest \<and>
     (if isSignerOnChainEvent event \<and> rest \<noteq> [] \<and>
         seb_eventType (the (oce_signerEventBody event)) = SIGNER_EVENT_REMOVE
      then ocs_activeSignerCache st' =
             lru_invalidate (getActiveSignerCacheKey (oce_fid event) (seb_key (the (oce_signerEventBody event))))
               (ocs_activeSignerCache st)
      else ocs_activeSignerCache st' = ocs_activeSignerCache st)"
proof -
  obtain pk where pk: "event_primary_key event = Ok pk"
      "putOnChainEventTransaction C [] event = Ok [(pk, Some (encodeOnChainEvent C event))]"
    using assms by (cases "putOnChainEventTransaction C [] event")
      (auto simp: merge_transaction_def putOnChainEvent_shape)
  consider "isSignerOnChainEvent event" | "\<not> isSignerOnChainEvent event" "isIdRegisterOnChainEvent event"
    | "\<not> isSignerOnChainEvent event" "\<not> isIdRegisterOnChainEvent event" by blast
  then show ?thesis
  proof cases
    case 1
    then obtain b where b: "oce_signerEventBody event = Some b" by (auto simp: isSignerOnChainEvent_def)
    from assms pk 1 have
      "handleSignerEvent fuel C db [(pk, Some (encodeOnChainEvent C event))] event st = (Some (Ok txn), st')"
      by (simp add: merge_transaction_def)
    from handleSignerEvent_shape[OF this b] obtain rest where
      r: "txn = [(pk, Some (encodeOnChainEvent C event))] @ rest" "index_writes event rest"
      "if rest \<noteq> [] \<and> seb_eventType b = SIGNER_EVENT_REMOVE
       then ocs_activeSignerCache st' =
             lru_invalidate (getActiveSignerCacheKey (oce_fid event) (seb_key b)) (ocs_activeSignerCache st)
       else ocs_activeSignerCache st' = ocs_activeSignerCache st" by blast
    show ?thesis
      by (intro exI[of _ pk] exI[of _ rest] conjI) (use r pk(1) b 1 in simp_all)
  next
    case 2
    with assms pk have
      "handleIdRegisterEvent C db [(pk, Some (encodeOnChainEvent C event))] event st = (Ok txn, st')"
      by (auto simp: merge_transaction_def split: prod.splits)
    from handleIdRegisterEvent_shape[OF this] obtain rest where
      r: "txn = [(pk, Some (encodeOnChainEvent C event))] @ rest" "index_writes event rest"
      "ocs_activeSignerCache st' = ocs_activeSignerCache st" by blast
    show ?thesis
      by (intro exI[of _ pk] exI[of _ rest] conjI) (use r pk(1) 2 in simp_all)
  next
    case 3
    with assms pk have "txn = [(pk, Some (encodeOnChainEvent C event))]" "st' = st"
      by (simp_all add: merge_transaction_def)
    with pk(1) 3 show ?thesis by (simp add: index_writes_Nil)
  qed
qed

lemma commit_reads:
  assumes "commitTransaction D db now txn args h = (Ok i, db', h')" "db_inv (rdb_disk db)"
  shows "rdb_native_open db \<and> rdb_native_open db' \<and> db_inv (rdb_disk db') \<and>
    (\<forall>k. \<not> prefix [15] k \<longrightarrow> db_get (rdb_disk db') k =
       (case map_of (rev (map native_op txn)) k of Some r \<Rightarrow> r | None \<Rightarrow> db_get (rdb_disk db) k))"
proof -
  obtain t where t: "rdb_native_open db" "putEventTransaction D txn (args\<lparr>he_id := i\<rparr>) = Ok t"
      "db' = db\<lparr>rdb_disk := commit_batch (batch_of t) (rdb_disk db)\<rparr>"
    using commitTransaction_Ok[OF assms(1)] by blast
  from t(2) obtain k0 v0 where t0: "makeEventKey (Some (he_id (args\<lparr>he_id := i\<rparr>))) = Ok k0" "t = txn @ [(k0, Some v0)]"
    by (auto simp: putEventTransaction_def outcome_simps txn_put_def)
  have "prefix [15] k0" using t0(1) by (auto simp: makeEventKey_def split: if_splits option.splits)
  then have "\<not> prefix [15] k \<Longrightarrow> map_of (rev (map native_op t)) k = map_of (rev (map native_op txn)) k" for k
    using t0(2) by (auto simp: native_op_def)
  with t assms(2) show ?thesis by (simp add: commit_get commit_inv)
qed

lemma mergeOnChainEvent_Ok:
  assumes "mergeOnChainEvent fuel C D db now event h st = (Some (Ok i), db', h', st')"
  shows "\<exists>txn. \<not> is_ok (getOnChainEvent C db (oce_type event) (oce_fid event) (oce_blockNumber event) (oce_logIndex event)) \<and>
     merge_transaction fuel C db event st = (Some (Ok txn), st') \<and>
     commitTransaction D db now txn (merge_event_args event) h = (Ok i, db', h')"
proof -
  have t: "throwErr r = Ok x \<longleftrightarrow> r = Ok x" for r :: "int outcome" and x by (cases r) auto
  show ?thesis
    using assms
    by (auto simp: mergeOnChainEvent_def t split: if_splits prod.splits option.splits outcome.splits)
qed

text \<open>The effect of a successful merge on the database.\<close>

lemma merge_reads:
  assumes m: "mergeOnChainEvent fuel C D db now event h st = (Some (Ok i), db', h', st')"
    and inv: "db_inv (rdb_disk db)" and law: "event_codec_law C event"
  shows "\<exists>pk rest. event_primary_key event = Ok pk \<and>
     merge_transaction fuel C db event st = (Some (Ok ((pk, Some (encodeOnChainEvent C event)) # rest)), st') \<and>
     index_writes event rest \<and> rdb_native_open db \<and> rdb_native_open db' \<and> db_inv (rdb_disk db') \<and>
     db_get (rdb_disk db') pk = Some (encodeOnChainEvent C event) \<and>
     (\<forall>k. \<not> prefix [15] k \<and> k \<noteq> pk \<longrightarrow> db_get (rdb_disk db') k =
        (case map_of (rev rest) k of Some r \<Rightarrow> r | None \<Rightarrow> db_get (rdb_disk db) k))"
proof -
  obtain txn where t: "merge_transaction fuel C db event st = (Some (Ok txn), st')"
      "commitTransaction D db now txn (merge_event_args event) h = (Ok i, db', h')"
    using mergeOnChainEvent_Ok[OF m] by blast
  obtain pk rest where s: "event_primary_key event = Ok pk"
      "txn = (pk, Some (encodeOnChainEvent C event)) # rest" "index_writes event rest"
    using merge_transaction_shape[OF t(1)] by blast
  have nat: "native_op op = op \<and> \<not> prefix [23, 1] (fst op)" if "op \<in> set rest" for op
  proof -
    note op_in = that
    obtain e w where "event_primary_key e = Ok w" "snd op = Some w"
      "prefix [23, 52] (fst op) \<or> prefix [23, 53] (fst op) \<or> prefix [23, 51] (fst op)"
      using index_writes_op[OF s(3) op_in] by blast
    with event_primary_prefix prefixes_differ(1)[of "fst op"] show ?thesis
      by (cases op) (auto simp: native_op_def)
  qed
  then have ops: "map native_op rest = rest" by (simp add: map_idI)
  have pkw: "native_op (pk, Some (encodeOnChainEvent C event)) = (pk, Some (encodeOnChainEvent C event))"
    using law by (simp add: native_op_def event_codec_law_def)
  have "pk \<notin> fst ` set rest" using nat event_primary_prefix[OF s(1)] by auto
  then have "map_of (rev rest) pk = None" by (simp add: map_of_eq_None_iff)
  moreover have "\<not> prefix [15] pk" using event_primary_prefix[OF s(1)] prefixes_differ(1) by blast
  ultimately have "db_get (rdb_disk db') pk = Some (encodeOnChainEvent C event)"
    using commit_reads[OF t(2) inv] s(2) ops pkw by (simp add: map_add_def)
  moreover have "\<forall>k. \<not> prefix [15] k \<and> k \<noteq> pk \<longrightarrow> db_get (rdb_disk db') k =
        (case map_of (rev rest) k of Some r \<Rightarrow> r | None \<Rightarrow> db_get (rdb_disk db) k)"
    using commit_reads[OF t(2) inv] s(2) ops pkw by (auto simp: map_add_def split: option.splits)
  ultimately show ?thesis
    using commit_reads[OF t(2) inv] s t(1) by blast
qed

lemma event_by_key_stored:
  "rdb_native_open db \<Longrightarrow> event_codec_law C e \<Longrightarrow> db_get (rdb_disk db) pk = Some (encodeOnChainEvent C e) \<Longrightarrow>
   getOnChainEventByKey C db pk = Ok e"
  by (simp add: getOnChainEventByKey_def RocksDB_get_open event_codec_law_def)

lemma merge_stores:
  assumes "mergeOnChainEvent fuel C D db now event h st = (Some (Ok i), db', h', st')"
    and "db_inv (rdb_disk db)" "event_codec_law C event"
  shows "getOnChainEvent C db' (oce_type event) (oce_fid event) (oce_blockNumber event) (oce_logIndex event) = Ok event"
  using merge_reads[OF assms] event_by_key_stored[OF _ assms(3)]
  by (auto simp: getOnChainEvent_def event_primary_key_def)

text \<open>Merging the same event again changes nothing.\<close>

lemma merge_duplicate:
  assumes "getOnChainEvent C db (oce_type event) (oce_fid event) (oce_blockNumber event) (oce_logIndex event) = Ok e"
  shows "mergeOnChainEvent fuel C D db now event h st =
    (Some (throw_hub Duplicate ''onChainEvent already exists''), db, h, st)"
  using assms by (simp add: mergeOnChainEvent_def)

section \<open>Signers\<close>

text \<open>The event the index points to, if any, is not from a later block.\<close>

definition not_superseded :: "proto_codec \<Rightarrow> rocksdb \<Rightarrow> OnChainEvent \<Rightarrow> bytes \<Rightarrow> bool" where
  "not_superseded C db event k \<longleftrightarrow>
     (case getEventBySecondaryKey C db k of
        Some ex \<Rightarrow> oce_blockNumber ex \<le> oce_blockNumber event | None \<Rightarrow> True)"

lemma signer_merge_index:
  assumes "merge_transaction fuel C db event st = (Some (Ok txn), st')"
    and "isSignerOnChainEvent event" "oce_signerEventBody event = Some b"
    and "seb_eventType b \<noteq> SIGNER_EVENT_ADMIN_RESET"
    and "makeSignerOnChainEventBySignerKey (oce_fid event) (seb_key b) = Ok sk" "not_superseded C db event sk"
  shows "\<exists>pk. event_primary_key event = Ok pk \<and> txn = [(pk, Some (encodeOnChainEvent C event)), (sk, Some pk)]"
proof -
  obtain pk where pk: "event_primary_key event = Ok pk"
      "putOnChainEventTransaction C [] event = Ok [(pk, Some (encodeOnChainEvent C event))]"
    using assms(1) by (cases "putOnChainEventTransaction C [] event")
      (auto simp: merge_transaction_def putOnChainEvent_shape)
  have h: "handleSignerEvent fuel C db [(pk, Some (encodeOnChainEvent C event))] event st = (Some (Ok txn), st')"
    using assms(1,2) pk(2) by (simp add: merge_transaction_def)
  obtain newer where newer: "signer_conflict (getEventBySecondaryKey C db sk) event b = Ok newer"
    using h assms(3,5) by (cases "signer_conflict (getEventBySecondaryKey C db sk) event b")
      (auto simp: handleSignerEvent_def)
  have "\<not> newer"
    using newer assms(6)
    by (auto simp: signer_conflict_def not_superseded_def outcome_simps split: option.splits if_splits)
  with h assms(3-5) newer pk(1) show ?thesis
    by (auto simp: handleSignerEvent_def Let_def put_event_index_Ok)
qed

lemma signer_lookup_after:
  assumes m: "mergeOnChainEvent fuel C D db now event h st = (Some (Ok i), db', h', st')"
    and inv: "db_inv (rdb_disk db)" and law: "event_codec_law C event"
    and ev: "isSignerOnChainEvent event" "oce_signerEventBody event = Some b"
      "seb_eventType b \<noteq> SIGNER_EVENT_ADMIN_RESET"
    and ix: "makeSignerOnChainEventBySignerKey (oce_fid event) (seb_key b) = Ok sk" "not_superseded C db event sk"
  shows "active_signer_lookup C db' (oce_fid event) (seb_key b) =
    (if seb_eventType b = SIGNER_EVENT_ADD \<and> seb_keyType b \<in> set SUPPORTED_SIGNER_SCHEMES then Ok event
     else throw_hub NotFound ''no such active signer'')"
proof -
  obtain pk rest where r: "event_primary_key event = Ok pk"
     "merge_transaction fuel C db event st = (Some (Ok ((pk, Some (encodeOnChainEvent C event)) # rest)), st')"
     "rdb_native_open db'" "db_get (rdb_disk db') pk = Some (encodeOnChainEvent C event)"
     "\<forall>k. \<not> prefix [15] k \<and> k \<noteq> pk \<longrightarrow> db_get (rdb_disk db') k =
        (case map_of (rev rest) k of Some r \<Rightarrow> r | None \<Rightarrow> db_get (rdb_disk db) k)"
    using merge_reads[OF m inv law] by blast
  have rest: "rest = [(sk, Some pk)]"
    using signer_merge_index[OF r(2) ev ix] r(1) by auto
  have "prefix [23, 51] sk" by (rule signer_index_prefix[OF ix(1)])
  then have "\<not> prefix [15] sk" "sk \<noteq> pk"
    using prefixes_differ(2) prefixes_differ(1)[of sk] event_primary_prefix[OF r(1)] by blast+
  then have "db_get (rdb_disk db') sk = Some pk" using r(5) rest by simp
  then have "RocksDB_get db' sk = Ok pk" by (rule RocksDB_get_open[OF r(3)])
  then show ?thesis
    using ix(1) ev(2) event_by_key_stored[OF r(3) law r(4)] by (simp add: active_signer_lookup_def)
qed

text \<open>Once a removal has been merged, the signer is not active any more, whatever the cache held.\<close>

lemma removed_signer_inactive:
  assumes m: "mergeOnChainEvent fuel C D db now event h st = (Some (Ok i), db', h', st')"
    and inv: "db_inv (rdb_disk db)" and law: "event_codec_law C event"
    and ev: "isSignerOnChainEvent event" "oce_signerEventBody event = Some b"
      "seb_eventType b = SIGNER_EVENT_REMOVE"
    and ix: "makeSignerOnChainEventBySignerKey (oce_fid event) (seb_key b) = Ok sk" "not_superseded C db event sk"
  shows "fst (getActiveSigner C db' (oce_fid event) (seb_key b) st') =
         throw_hub NotFound ''no such active signer''"
proof -
  have l: "active_signer_lookup C db' (oce_fid event) (seb_key b) = throw_hub NotFound ''no such active signer''"
    using signer_lookup_after[OF m inv law ev(1,2) _ ix] ev(3) by simp
  obtain pk rest where r: "event_primary_key event = Ok pk"
     "merge_transaction fuel C db event st = (Some (Ok ((pk, Some (encodeOnChainEvent C event)) # rest)), st')"
    using merge_reads[OF m inv law] by blast
  have "rest = [(sk, Some pk)]" using signer_merge_index[OF r(2) ev(1,2) _ ix] ev(3) r(1) by auto
  with merge_transaction_shape[OF r(2)] ev have
    "ocs_activeSignerCache st' =
       lru_invalidate (getActiveSignerCacheKey (oce_fid event) (seb_key b)) (ocs_activeSignerCache st)"
    by auto
  then have "lru_lookup (ocs_activeSignerCache st') (getActiveSignerCacheKey (oce_fid event) (seb_key b)) = None"
    by (simp add: lru.invalidate_cached)
  from lru.get_miss[OF this, of "active_signer_lookup C db' (oce_fid event) (seb_key b)"] l
  show ?thesis by (auto simp: getActiveSigner_def split: prod.splits)
qed

text \<open>A cached signer is the one the database has.\<close>

definition signer_cache_ok :: "proto_codec \<Rightarrow> rocksdb \<Rightarrow> onchain_store \<Rightarrow> bool" where
  "signer_cache_ok C db st \<longleftrightarrow>
     (\<forall>f signer e. lru_lookup (ocs_activeSignerCache st) (getActiveSignerCacheKey (numI f) signer) = Some e \<longrightarrow>
        active_signer_lookup C db (numI f) signer = Ok e)"

definition onchain_index_ok :: "store \<Rightarrow> bool" where
  "onchain_index_ok s \<longleftrightarrow> (\<forall>k v. prefix [23, 51] k \<and> db_get s k = Some v \<longrightarrow> prefix [23, 1] v)"

lemma signer_cache_ok_new: "signer_cache_ok C db new_OnChainEventStore"
  by (simp add: signer_cache_ok_def new_OnChainEventStore_def lru.cached_empty)

lemma cache_key_inject:
  "getActiveSignerCacheKey f s = getActiveSignerCacheKey f' s' \<longleftrightarrow> f = f' \<and> s = s'"
  by (simp add: getActiveSignerCacheKey_def buffer_hex_inject)

lemma getActiveSigner_answers:
  assumes "signer_cache_ok C db st"
  shows "fst (getActiveSigner C db (numI f) signer st) = active_signer_lookup C db (numI f) signer"
    and "signer_cache_ok C db (snd (getActiveSigner C db (numI f) signer st))"
proof -
  let ?k = "getActiveSignerCacheKey (numI f) signer" and ?r = "active_signer_lookup C db (numI f) signer"
  let ?c = "ocs_activeSignerCache st"
  obtain r c where rc: "lru_get ?k ?r ?c = (r, c)" by fastforce
  have "r = ?r"
    using assms lru.get_hit[of ?c ?k _ ?r] lru.get_miss[of ?c ?k ?r] rc
    by (cases "lru_lookup ?c ?k") (auto simp: signer_cache_ok_def)
  then show "fst (getActiveSigner C db (numI f) signer st) = ?r"
    by (simp add: getActiveSigner_def rc)
  show "signer_cache_ok C db (snd (getActiveSigner C db (numI f) signer st))"
    unfolding signer_cache_ok_def
  proof (intro allI impI)
    fix f' signer' e
    assume "lru_lookup (ocs_activeSignerCache (snd (getActiveSigner C db (numI f) signer st)))
      (getActiveSignerCacheKey (numI f') signer') = Some e"
    then have "lru_lookup (snd (lru_get ?k ?r ?c)) (getActiveSignerCacheKey (numI f') signer') = Some e"
      by (simp add: getActiveSigner_def rc)
    from lru.get_cached[OF this] assms show "active_signer_lookup C db (numI f') signer' = Ok e"
      by (auto simp: signer_cache_ok_def cache_key_inject)
  qed
qed

lemma active_signer_lookup_Ok:
  "active_signer_lookup C db fid signer = Ok e \<longleftrightarrow>
   (\<exists>k pk b. makeSignerOnChainEventBySignerKey fid signer = Ok k \<and> RocksDB_get db k = Ok pk \<and>
      getOnChainEventByKey C db pk = Ok e \<and> oce_signerEventBody e = Some b \<and>
      seb_eventType b = SIGNER_EVENT_ADD \<and> seb_keyType b \<in> set SUPPORTED_SIGNER_SCHEMES)"
proof -
  have i: "(if c then Ok x else throw_hub NotFound m) = Ok e \<longleftrightarrow> c \<and> x = e" for c x m by simp
  show ?thesis by (auto simp: active_signer_lookup_def outcome_simps i)
qed

lemma signer_key_numI:
  "makeSignerOnChainEventBySignerKey (numI f) s = Ok k \<Longrightarrow>
   makeSignerOnChainEventBySignerKey (numI f') s' = Ok k \<Longrightarrow> f = f' \<and> s = s'"
  by (auto simp: makeSignerOnChainEventBySignerKey_def makeFidKey_def be_bytes_inject split: if_splits)

text \<open>Every merge keeps the cached signers right, except one that re-points the index of a signer that is
  active: only a removal invalidates a cached entry.\<close>

lemma merge_keeps_signer_cache:
  assumes m: "mergeOnChainEvent fuel C D db now event h st = (Some (Ok i), db', h', st')"
    and inv: "db_inv (rdb_disk db)" and law: "event_codec_law C event"
    and fid: "oce_fid event = numI f0"
    and ok: "signer_cache_ok C db st" "onchain_index_ok (rdb_disk db)"
    and active: "\<And>b e. isSignerOnChainEvent event \<Longrightarrow> oce_signerEventBody event = Some b \<Longrightarrow>
        seb_eventType b \<noteq> SIGNER_EVENT_REMOVE \<Longrightarrow> active_signer_lookup C db (numI f0) (seb_key b) \<noteq> Ok e"
    and body: "oce_signerEventBody event \<noteq> None \<Longrightarrow> isSignerOnChainEvent event"
  shows "signer_cache_ok C db' st' \<and> onchain_index_ok (rdb_disk db')"
proof -
  obtain pk rest where r: "event_primary_key event = Ok pk"
     "merge_transaction fuel C db event st = (Some (Ok ((pk, Some (encodeOnChainEvent C event)) # rest)), st')"
     "index_writes event rest" "rdb_native_open db" "rdb_native_open db'"
     "\<forall>k. \<not> prefix [15] k \<and> k \<noteq> pk \<longrightarrow> db_get (rdb_disk db') k =
        (case map_of (rev rest) k of Some r \<Rightarrow> r | None \<Rightarrow> db_get (rdb_disk db) k)"
    using merge_reads[OF m inv law] by blast
  have pk: "prefix [23, 1] pk" using event_primary_prefix[OF r(1)] by blast
  have op: "\<exists>e w. event_primary_key e = Ok w \<and> v = Some w" if "map_of (rev rest) k = Some v" for k v
    using index_writes_op(1)[OF r(3), of "(k, v)"] map_of_SomeD[OF that] by simp
  have no23: "map_of (rev rest) k = None" if "prefix [23, 1] k" for k
  proof (rule ccontr)
    assume "map_of (rev rest) k \<noteq> None"
    then obtain v where "(k, v) \<in> set rest" using map_of_SomeD by fastforce
    with index_writes_op(2)[OF r(3), of "(k, v)"] prefixes_differ(1)[OF that] show False by simp
  qed
  have new: "\<not> is_ok (getOnChainEventByKey C db pk)"
    using mergeOnChainEvent_Ok[OF m] r(1) by (auto simp: getOnChainEvent_def event_primary_key_def)
  have get15: "db_get (rdb_disk db') k =
      (case map_of (rev rest) k of Some r \<Rightarrow> r | None \<Rightarrow> db_get (rdb_disk db) k)" if "prefix [23, 51] k" for k
    using r(6) that prefixes_differ(2)[OF that] prefixes_differ(1)[OF pk] by metis
  have "onchain_index_ok (rdb_disk db')"
    unfolding onchain_index_ok_def
  proof (intro allI impI, elim conjE)
    fix k v assume k: "prefix [23, 51] k" "db_get (rdb_disk db') k = Some v"
    show "prefix [23, 1] v"
    proof (cases "map_of (rev rest) k")
      case None
      with k get15[OF k(1)] ok(2) show ?thesis by (simp add: onchain_index_ok_def)
    next
      case (Some x)
      with op[OF Some] k get15[OF k(1)] event_primary_prefix show ?thesis by auto
    qed
  qed
  moreover have "signer_cache_ok C db' st'"
    unfolding signer_cache_ok_def
  proof (intro allI impI)
    fix f signer e
    let ?key = "getActiveSignerCacheKey (numI f) signer"
    assume hit: "lru_lookup (ocs_activeSignerCache st') ?key = Some e"
    note shape = merge_transaction_shape[OF r(2)]
    have old: "lru_lookup (ocs_activeSignerCache st) ?key = Some e"
      using shape hit by (auto simp: lru.invalidate_cached split: if_splits)
    then have "active_signer_lookup C db (numI f) signer = Ok e"
      using ok(1) by (simp add: signer_cache_ok_def)
    then obtain k p b where l: "makeSignerOnChainEventBySignerKey (numI f) signer = Ok k"
        "RocksDB_get db k = Ok p" "getOnChainEventByKey C db p = Ok e" "oce_signerEventBody e = Some b"
        "seb_eventType b = SIGNER_EVENT_ADD" "seb_keyType b \<in> set SUPPORTED_SIGNER_SCHEMES"
      using active_signer_lookup_Ok by blast
    have k51: "prefix [23, 51] k" by (rule signer_index_prefix[OF l(1)])
    have "db_get (rdb_disk db) k = Some p" using l(2) by (simp add: RocksDB_get_Ok_iff)
    then have p: "prefix [23, 1] p" using ok(2) k51 unfolding onchain_index_ok_def by blast
    have "map_of (rev rest) k = None"
    proof (rule ccontr)
      assume "map_of (rev rest) k \<noteq> None"
      then obtain v where v: "(k, v) \<in> set rest" using map_of_SomeD by fastforce
      then have ne: "rest \<noteq> []" by auto
      from v r(3) k51 obtain b0 where b0: "oce_signerEventBody event = Some b0"
          "makeSignerOnChainEventBySignerKey (numI f0) (seb_key b0) = Ok k"
        using prefixes_differ(2)[OF k51] fid unfolding index_writes_def by force
      have same: "f = f0" "signer = seb_key b0" using signer_key_numI[OF l(1) b0(2)] by simp_all
      have sg: "isSignerOnChainEvent event" using body b0(1) by simp
      show False
      proof (cases "seb_eventType b0 = SIGNER_EVENT_REMOVE")
        case True
        with shape sg b0(1) ne hit same fid show False by (auto simp: lru.invalidate_cached)
      next
        case False
        with active[OF sg b0(1) False, of e] \<open>active_signer_lookup C db (numI f) signer = Ok e\<close> same
        show False by simp
      qed
    qed
    then have "RocksDB_get db' k = Ok p"
      using get15[OF k51] \<open>db_get (rdb_disk db) k = Some p\<close> r(5) by (simp add: RocksDB_get_Ok_iff)
    moreover have "p \<noteq> pk" using new l(3) by auto
    then have "db_get (rdb_disk db') p = db_get (rdb_disk db) p"
      using r(6) prefixes_differ(1)[OF p] no23[OF p] by simp
    then have "getOnChainEventByKey C db' p = getOnChainEventByKey C db p"
      using r(4,5) by (simp add: getOnChainEventByKey_def RocksDB_get_def when_open_def)
    ultimately show "active_signer_lookup C db' (numI f) signer = Ok e"
      using l active_signer_lookup_Ok by auto
  qed
  ultimately show ?thesis by blast
qed

section \<open>Id registrations\<close>

lemma id_merge_index:
  assumes "merge_transaction fuel C db event st = (Some (Ok txn), st')"
    and "isIdRegisterOnChainEvent event" "oce_idRegisterEventBody event = Some b"
    and "ireb_eventType b \<noteq> ID_REGISTER_CHANGE_RECOVERY"
    and "makeIdRegisterEventByFidKey (oce_fid event) = Ok k" "not_superseded C db event k"
  shows "\<exists>pk. event_primary_key event = Ok pk \<and>
     txn = [(pk, Some (encodeOnChainEvent C event)), (k, Some pk),
            (makeIdRegisterEventByCustodyKey (ireb_to b), Some pk)] \<and>
     ocs_idRegisterByFidCache st' = lru_invalidate (oce_fid event) (ocs_idRegisterByFidCache st)"
proof -
  have ns: "\<not> isSignerOnChainEvent event"
    using assms(2) by (simp add: isSignerOnChainEvent_def isIdRegisterOnChainEvent_def)
  obtain pk where pk: "event_primary_key event = Ok pk"
      "putOnChainEventTransaction C [] event = Ok [(pk, Some (encodeOnChainEvent C event))]"
    using assms(1) by (cases "putOnChainEventTransaction C [] event")
      (auto simp: merge_transaction_def putOnChainEvent_shape)
  have "handleIdRegisterEvent C db [(pk, Some (encodeOnChainEvent C event))] event st = (Ok txn, st')"
    using assms(1,2) ns pk(2) by (auto simp: merge_transaction_def split: prod.splits)
  with assms(3-6) pk(1) show ?thesis
    by (auto simp: handleIdRegisterEvent_def not_superseded_def txn_put_def split: option.splits)
qed

text \<open>After a registration or a transfer both lookups give the new event, whatever the cache held; the
  lookup by another custody address still gives what it gave before.\<close>

lemma id_lookups_after:
  assumes m: "mergeOnChainEvent fuel C D db now event h st = (Some (Ok i), db', h', st')"
    and inv: "db_inv (rdb_disk db)" and law: "event_codec_law C event"
    and ev: "isIdRegisterOnChainEvent event" "oce_idRegisterEventBody event = Some b"
      "ireb_eventType b \<noteq> ID_REGISTER_CHANGE_RECOVERY"
    and ix: "makeIdRegisterEventByFidKey (oce_fid event) = Ok k" "not_superseded C db event k"
  shows "fst (getIdRegisterEventByFid C db' (oce_fid event) st') = Ok event"
    and "getIdRegisterEventByCustodyAddress C db' (ireb_to b) = Ok event"
    and "a \<noteq> ireb_to b \<Longrightarrow> getIdRegisterEventByCustodyAddress C db a = Ok old \<Longrightarrow>
         db_get (rdb_disk db) (makeIdRegisterEventByCustodyKey a) = Some p \<Longrightarrow> prefix [23, 1] p \<Longrightarrow>
         getIdRegisterEventByCustodyAddress C db' a = Ok old"
proof -
  obtain pk rest where r: "event_primary_key event = Ok pk"
     "merge_transaction fuel C db event st = (Some (Ok ((pk, Some (encodeOnChainEvent C event)) # rest)), st')"
     "rdb_native_open db" "rdb_native_open db'" "db_get (rdb_disk db') pk = Some (encodeOnChainEvent C event)"
     "\<forall>k. \<not> prefix [15] k \<and> k \<noteq> pk \<longrightarrow> db_get (rdb_disk db') k =
        (case map_of (rev rest) k of Some r \<Rightarrow> r | None \<Rightarrow> db_get (rdb_disk db) k)"
    using merge_reads[OF m inv law] by blast
  let ?c = "makeIdRegisterEventByCustodyKey (ireb_to b)"
  have rest: "rest = [(k, Some pk), (?c, Some pk)]" and
    cache: "ocs_idRegisterByFidCache st' = lru_invalidate (oce_fid event) (ocs_idRegisterByFidCache st)"
    using id_merge_index[OF r(2) ev ix] r(1) by auto
  have pk: "prefix [23, 1] pk" using event_primary_prefix[OF r(1)] by blast
  have k: "prefix [23, 52] k" by (rule id_index_prefix(1)[OF ix(1)])
  have c: "prefix [23, 53] (makeIdRegisterEventByCustodyKey x)" for x by (rule id_index_prefix(2))
  have kc: "k \<noteq> makeIdRegisterEventByCustodyKey x" for x using prefixes_differ(3)[OF k] c by metis
  have reads: "db_get (rdb_disk db') q = (if q = k \<or> q = ?c then Some pk else db_get (rdb_disk db) q)"
    if "prefix [23, 52] q \<or> prefix [23, 53] q" for q
  proof -
    have "\<not> prefix [15] q" "q \<noteq> pk"
      using that prefixes_differ(3,4)[of q] prefixes_differ(1)[OF pk] by auto
    with r(6) rest show ?thesis by auto
  qed
  have ev_pk: "getOnChainEventByKey C db' pk = Ok event" by (rule event_by_key_stored[OF r(4) law r(5)])
  have "RocksDB_get db' k = Ok pk" "RocksDB_get db' ?c = Ok pk"
    using reads[of k] reads[of ?c] k c by (simp_all add: RocksDB_get_open[OF r(4)])
  with ev_pk ix(1) have l: "id_register_lookup C db' (oce_fid event) = Ok event"
    and cu: "getIdRegisterEventByCustodyAddress C db' (ireb_to b) = Ok event"
    by (simp_all add: id_register_lookup_def getIdRegisterEventByCustodyAddress_def)
  show "getIdRegisterEventByCustodyAddress C db' (ireb_to b) = Ok event" by (rule cu)
  have "lru_lookup (ocs_idRegisterByFidCache st') (oce_fid event) = None"
    by (simp add: cache lru.invalidate_cached)
  from lru.get_miss[OF this, of "id_register_lookup C db' (oce_fid event)"] l
  show "fst (getIdRegisterEventByFid C db' (oce_fid event) st') = Ok event"
    by (auto simp: getIdRegisterEventByFid_def split: prod.splits)
  assume a: "a \<noteq> ireb_to b" "getIdRegisterEventByCustodyAddress C db a = Ok old"
    "db_get (rdb_disk db) (makeIdRegisterEventByCustodyKey a) = Some p" "prefix [23, 1] p"
  have ne: "makeIdRegisterEventByCustodyKey a \<noteq> ?c" using a(1) by (simp add: makeIdRegisterEventByCustodyKey_def)
  then have "db_get (rdb_disk db') (makeIdRegisterEventByCustodyKey a) = Some p"
    using reads[of "makeIdRegisterEventByCustodyKey a"] c[of a] a(3) kc[of a] by auto
  then have g: "RocksDB_get db' (makeIdRegisterEventByCustodyKey a) = Ok p" by (rule RocksDB_get_open[OF r(4)])
  have old: "getOnChainEventByKey C db p = Ok old"
    using a(2) RocksDB_get_open[OF r(3) a(3)] by (simp add: getIdRegisterEventByCustodyAddress_def)
  have "\<not> is_ok (getOnChainEventByKey C db pk)"
    using mergeOnChainEvent_Ok[OF m] r(1) by (auto simp: getOnChainEvent_def event_primary_key_def)
  with old have "p \<noteq> pk" by auto
  then have "db_get (rdb_disk db') p = db_get (rdb_disk db) p"
    using r(6) rest prefixes_differ(1)[OF a(4)] k c by auto
  then have "getOnChainEventByKey C db' p = getOnChainEventByKey C db p"
    using r(3,4) by (simp add: getOnChainEventByKey_def RocksDB_get_def when_open_def)
  with old g show "getIdRegisterEventByCustodyAddress C db' a = Ok old"
    by (simp add: getIdRegisterEventByCustodyAddress_def)
qed

end
