(* ===== verification/JobQueue.thy ===== *)
theory JobQueue
  imports OnChainEventStore
begin

text \<open>
  The queue of jobs that revoke a removed signer's messages, and its worker
  (\<^verbatim>\<open>storage/jobs/revokeMessagesBySignerJob.ts\<close>).

  The queue lives in the database: the key of a job is a prefix byte, the time at which it is due
  and a hash of its payload, so the key order is the order in which jobs are due. The locale
  \<open>job_source\<close> states what the worker needs of a queue; it is interpreted on the queue of the model.
\<close>

section \<open>Keys\<close>

record RevokeMessagesBySignerJobPayload =
  rvp_fid :: number
  rvp_signer :: bytes

text \<open>The generated coder of the payload, and BLAKE3 with four bytes of output.\<close>

record job_codec =
  encodeJob :: "RevokeMessagesBySignerJobPayload \<Rightarrow> bytes"
  decodeJob :: "bytes \<Rightarrow> RevokeMessagesBySignerJobPayload outcome"
  blake3_4 :: "bytes \<Rightarrow> bytes"

definition jobKeyPrefix :: bytes where
  "jobKeyPrefix = [root_byte JobRevokeMessageBySigner]"

definition makeJobKey :: "int \<Rightarrow> bytes option \<Rightarrow> bytes outcome" where
  "makeJobKey doAt hash =
     (if doAt < 0 \<or> 2 ^ 64 \<le> doAt then Throw RangeError
      else case hash of
             Some h \<Rightarrow>
               if length h \<noteq> 4 then fail InvalidParam ''hash must be 4 bytes''
               else Ok (jobKeyPrefix @ be_bytes 8 doAt @ h)
           | None \<Rightarrow> Ok (jobKeyPrefix @ be_bytes 8 doAt))"

text \<open>A missing time and the time 0 mean all jobs.\<close>

definition job_iteratorOpts :: "int option \<Rightarrow> iterator_options outcome" where
  "job_iteratorOpts doBefore =
     (let opts = (\<lambda>hi. \<lparr>io_gte = Some jobKeyPrefix, io_gt = None, io_lt = Some hi, io_reverse = False\<rparr>) in
      case doBefore of
        Some t \<Rightarrow> if t \<noteq> 0 then mapOk (makeJobKey t None) opts else mapOk (bytesIncrement jobKeyPrefix) opts
      | None \<Rightarrow> mapOk (bytesIncrement jobKeyPrefix) opts)"

section \<open>Queue\<close>

text \<open>When the worker is told: at once, or after so many milliseconds.\<close>

datatype job_notice = NoticeNow bytes | NoticeAfter int bytes

definition enqueueJob ::
  "job_codec \<Rightarrow> int \<Rightarrow> RevokeMessagesBySignerJobPayload \<Rightarrow> int option \<Rightarrow> rocksdb \<Rightarrow>
   (bytes \<times> job_notice) outcome \<times> rocksdb" where
  "enqueueJob J now payload doAt db =
     (let timed = (case doAt of Some t \<Rightarrow> t \<noteq> 0 | None \<Rightarrow> False);
          doAtTimestamp = (if timed then the doAt else now);
          payloadBytes = encodeJob J payload
      in case makeJobKey doAtTimestamp (Some (blake3_4 J payloadBytes)) of
           Err e \<Rightarrow> (Err e, db)
         | Throw t \<Rightarrow> (Throw t, db)
         | Ok key \<Rightarrow>
             (case RocksDB_put db key payloadBytes of
                (r, db) \<Rightarrow>
                  (mapOk (fromPromise r as_HubError) (\<lambda>_.
                     (key, if timed then NoticeAfter (the doAt - now + 1000) key else NoticeNow key)), db)))"

definition parse_job :: "job_codec \<Rightarrow> bytes \<Rightarrow> RevokeMessagesBySignerJobPayload outcome" where
  "parse_job J b =
     fromPromise (decodeJob J b)
       (\<lambda>e. new_HubError ParseFailure
               (CtxOpts (Some (lit ''Failed to parse RevokeMessagesBySignerJobPayload'')) (Some (exn_message e))))"

definition popNextJob ::
  "nat \<Rightarrow> job_codec \<Rightarrow> int option \<Rightarrow> rocksdb \<Rightarrow>
   RevokeMessagesBySignerJobPayload outcome option \<times> rocksdb" where
  "popNextJob fuel J doBefore db =
     (case job_iteratorOpts doBefore of
        Err e \<Rightarrow> (Some (Err e), db)
      | Throw t \<Rightarrow> (Some (Throw t), db)
      | Ok opts \<Rightarrow>
          (case RocksDB_forEachIteratorByOpts fuel db opts (\<lambda>_ key val. Ok (Some (key, val), True)) None of
             None \<Rightarrow> (None, db)
           | Some (Err e) \<Rightarrow> (Some (Err e), db)
           | Some (Throw t) \<Rightarrow> (Some (Throw t), db)
           | Some (Ok (None, _)) \<Rightarrow> (Some (fail NotFound ''No jobs found''), db)
           | Some (Ok (Some (nextKey, nextValue), _)) \<Rightarrow>
               (let payload = parse_job J nextValue in
                case RocksDB_del db nextKey of
                  (Ok _, db) \<Rightarrow> (Some payload, db)
                | (Err e, db) \<Rightarrow> (Some (Err e), db)
                | (Throw t, db) \<Rightarrow> (Some (Throw t), db))))"

section \<open>Worker\<close>

text \<open>The loop of \<^verbatim>\<open>processJobs\<close>. The result of a job is not looked at; what is thrown ends the loop.\<close>

fun process_loop ::
  "nat \<Rightarrow> ('q \<Rightarrow> 'j outcome option \<times> 'q) \<Rightarrow> ('j \<Rightarrow> 'q \<Rightarrow> unit outcome option \<times> 'q) \<Rightarrow> 'q \<Rightarrow>
   unit outcome option \<times> 'q" where
  "process_loop 0 pop processJob q = (None, q)"
| "process_loop (Suc n) pop processJob q =
     (case pop q of
        (None, q) \<Rightarrow> (None, q)
      | (Some (Throw t), q) \<Rightarrow> (Some (Throw t), q)
      | (Some (Err e), q) \<Rightarrow> (Some (Ok ()), q)
      | (Some (Ok job), q) \<Rightarrow>
          (case processJob job q of
             (None, q) \<Rightarrow> (None, q)
           | (Some (Throw t), q) \<Rightarrow> (Some (Throw t), q)
           | (Some _, q) \<Rightarrow> process_loop n pop processJob q))"

datatype worker_status = Working | Waiting

text \<open>The worker's jobs act on the database and on the rest of the hub.\<close>

definition on_db :: "(rocksdb \<Rightarrow> 'a \<times> rocksdb) \<Rightarrow> rocksdb \<times> 's \<Rightarrow> 'a \<times> rocksdb \<times> 's" where
  "on_db f q = (case f (fst q) of (r, db) \<Rightarrow> (r, db, snd q))"

definition processJobs ::
  "nat \<Rightarrow> nat \<Rightarrow> job_codec \<Rightarrow>
   (RevokeMessagesBySignerJobPayload \<Rightarrow> rocksdb \<times> 's \<Rightarrow> unit outcome option \<times> rocksdb \<times> 's) \<Rightarrow>
   int \<Rightarrow> int option \<Rightarrow> worker_status \<Rightarrow> rocksdb \<times> 's \<Rightarrow>
   unit outcome option \<times> worker_status \<times> rocksdb \<times> 's" where
  "processJobs jobs fuel J processJob now doBefore status q =
     (let doBeforeTs = (case doBefore of Some t \<Rightarrow> if t \<noteq> 0 then t else now + 500 | None \<Rightarrow> now + 500) in
      if status = Working then (Some (fail Unavailable ''worker is already processing jobs''), status, q)
      else
        (case process_loop jobs (on_db (popNextJob fuel J (Some doBeforeTs))) processJob q of
           (Some (Ok _), q) \<Rightarrow> (Some (Ok ()), Waiting, q)
         | (r, q) \<Rightarrow> (r, Working, q)))"

section \<open>What a worker needs of a queue\<close>

locale job_source =
  fixes good :: "'q \<Rightarrow> bool"
    and pending :: "'q \<Rightarrow> 'j list"
    and pop :: "'q \<Rightarrow> 'j outcome option \<times> 'q"
  assumes pop_empty: "good q \<Longrightarrow> pending q = [] \<Longrightarrow> \<exists>e. pop q = (Some (Err e), q)"
    and pop_next: "good q \<Longrightarrow> pending q = j # js \<Longrightarrow>
           \<exists>q'. pop q = (Some (Ok j), q') \<and> good q' \<and> pending q' = js"
begin

text \<open>A worker whose jobs leave the queue alone runs the pending jobs in order, each once, and stops
  with none left. \<open>did\<close> is what the jobs have done so far, as the jobs see it.\<close>

lemma drained:
  assumes "\<And>j q. good q \<Longrightarrow> \<exists>r q'. processJob j q = (Some r, q') \<and> (\<forall>t. r \<noteq> Throw t) \<and> good q' \<and>
             pending q' = pending q \<and> did q' = did q @ [j]"
    and "\<And>q. did (snd (pop q)) = did q"
  shows "good q \<Longrightarrow> length (pending q) < n \<Longrightarrow>
    \<exists>q'. process_loop n pop processJob q = (Some (Ok ()), q') \<and> good q' \<and> pending q' = [] \<and>
         did q' = did q @ pending q"
proof (induction n arbitrary: q)
  case 0
  then show ?case by simp
next
  case (Suc n)
  show ?case
  proof (cases "pending q")
    case Nil
    with pop_empty[OF Suc.prems(1)] Suc.prems(1) show ?thesis by auto
  next
    case (Cons j js)
    then obtain q1 where 1: "pop q = (Some (Ok j), q1)" "good q1" "pending q1 = js"
      using pop_next Suc.prems(1) by blast
    then obtain r q2 where 2: "processJob j q1 = (Some r, q2)" "\<forall>t. r \<noteq> Throw t" "good q2"
        "pending q2 = js" "did q2 = did q1 @ [j]"
      using assms(1)[of q1 j] by auto
    have "did q1 = did q" using assms(2)[of q] 1(1) by simp
    moreover obtain q3 where "process_loop n pop processJob q2 = (Some (Ok ()), q3)" "good q3"
        "pending q3 = []" "did q3 = did q2 @ js"
      using Suc.IH[OF 2(3)] Suc.prems(2) 2(4) Cons by auto
    ultimately show ?thesis using 1(1) 2(1,2,5) Cons by (cases r) auto
  qed
qed

end

section \<open>The queue in the database\<close>

definition due_entries :: "int \<Rightarrow> store \<Rightarrow> store" where
  "due_entries t s = filter (\<lambda>e. jobKeyPrefix \<le> fst e \<and> fst e < jobKeyPrefix @ be_bytes 8 t) s"

definition pending_jobs ::
  "job_codec \<Rightarrow> int \<Rightarrow> rocksdb \<times> 's \<Rightarrow> RevokeMessagesBySignerJobPayload list" where
  "pending_jobs J t q =
     map (\<lambda>e. case decodeJob J (snd e) of Ok p \<Rightarrow> p) (due_entries t (rdb_disk (fst q)))"

definition queue_ok :: "job_codec \<Rightarrow> nat \<Rightarrow> int \<Rightarrow> rocksdb \<times> 's \<Rightarrow> bool" where
  "queue_ok J fuel t q \<longleftrightarrow>
     db_inv (rdb_disk (fst q)) \<and> rdb_native_open (fst q) \<and> length (rdb_disk (fst q)) < fuel \<and>
     0 < t \<and> t < 2 ^ 64 \<and> (\<forall>e \<in> set (due_entries t (rdb_disk (fst q))). is_ok (decodeJob J (snd e)))"

lemma job_opts_Ok:
  "0 < t \<Longrightarrow> t < 2 ^ 64 \<Longrightarrow>
   job_iteratorOpts (Some t) =
     Ok \<lparr>io_gte = Some jobKeyPrefix, io_gt = None, io_lt = Some (jobKeyPrefix @ be_bytes 8 t), io_reverse = False\<rparr>"
  by (simp add: job_iteratorOpts_def makeJobKey_def)

lemma first_of_scan:
  "single_pass (\<lambda>_ key val. Ok (Some (key, val), True)) kvs None =
   Ok (case kvs of [] \<Rightarrow> (None, True) | kv # _ \<Rightarrow> (Some kv, False))"
  by (cases kvs) (auto simp: single_pass_def)

text \<open>The job of the least key that is due is taken out, whether or not its payload can be read.\<close>

lemma popNextJob_step:
  assumes "db_inv (rdb_disk db)" "rdb_native_open db" "length (rdb_disk db) < fuel" "0 < t" "t < 2 ^ 64"
  shows "popNextJob fuel J (Some t) db =
    (case due_entries t (rdb_disk db) of
       [] \<Rightarrow> (Some (fail NotFound ''No jobs found''), db)
     | e # _ \<Rightarrow> (Some (parse_job J (snd e)), db\<lparr>rdb_disk := db_del (fst e) (rdb_disk db)\<rparr>))"
proof -
  let ?opts = "\<lparr>io_gte = Some jobKeyPrefix, io_gt = None, io_lt = Some (jobKeyPrefix @ be_bytes 8 t),
    io_reverse = False\<rparr>"
  have w: "wanted (rdb_disk db) ?opts = due_entries t (rdb_disk db)"
    by (simp add: wanted_def in_bounds_def due_entries_def)
  have "length (wanted (rdb_disk db) (batch_options ?opts None)) < fuel"
    using assms(3) by (simp add: batch_options_def w due_entries_def le_less_trans[OF length_filter_le])
  then have "RocksDB_forEachIteratorByOpts fuel db ?opts (\<lambda>_ key val. Ok (Some (key, val), True)) None =
      Some (single_pass (\<lambda>_ key val. Ok (Some (key, val), True)) (due_entries t (rdb_disk db)) None)"
    using forEach_opts_loop_single_pass[OF assms(1), of ?opts None fuel] assms(2)
    by (simp add: RocksDB_forEachIteratorByOpts_def rsDbForEachIteratorByOpts_def proper_options_def
        batch_options_def w)
  with assms show ?thesis
    by (cases "due_entries t (rdb_disk db)")
      (auto simp: popNextJob_def job_opts_Ok first_of_scan RocksDB_del_def)
qed

lemma due_entries_del:
  assumes "db_inv s" "due_entries t s = e # es"
  shows "due_entries t (db_del (fst e) s) = es"
proof -
  have "distinct (map fst (due_entries t s))"
    using db_inv_distinct[OF assms(1)] by (simp add: due_entries_def distinct_map_filter)
  with assms(2) have "fst e \<notin> fst ` set es" by simp
  moreover have "due_entries t (db_del (fst e) s) = filter (\<lambda>x. fst x \<noteq> fst e) (due_entries t s)"
    by (simp add: due_entries_def db_del_def conj_commute)
  moreover have "filter (\<lambda>x. fst x \<noteq> fst e) es = es"
    using calculation(1) by (intro filter_True ballI) (metis image_eqI)
  ultimately show ?thesis using assms(2) by simp
qed

interpretation jobs: job_source "queue_ok J fuel t" "pending_jobs J t" "on_db (popNextJob fuel J (Some t))"
  for J fuel t
proof
  fix q :: "rocksdb \<times> 's"
  assume "queue_ok J fuel t q" "pending_jobs J t q = []"
  then show "\<exists>e. on_db (popNextJob fuel J (Some t)) q = (Some (Err e), q)"
    by (simp add: queue_ok_def pending_jobs_def on_db_def popNextJob_step fail_def)
next
  fix q :: "rocksdb \<times> 's" and j js
  assume ok: "queue_ok J fuel t q" and "pending_jobs J t q = j # js"
  then obtain e es where e: "due_entries t (rdb_disk (fst q)) = e # es" "decodeJob J (snd e) = Ok j"
      "js = map (\<lambda>e. case decodeJob J (snd e) of Ok p \<Rightarrow> p) es"
    by (auto simp: pending_jobs_def queue_ok_def is_ok_iff Cons_eq_map_conv)
  let ?db = "(fst q)\<lparr>rdb_disk := db_del (fst e) (rdb_disk (fst q))\<rparr>"
  have rest: "due_entries t (rdb_disk ?db) = es" using due_entries_del[OF _ e(1)] ok by (simp add: queue_ok_def)
  have "length (db_del (fst e) (rdb_disk (fst q))) < fuel"
    using ok by (simp add: queue_ok_def db_del_def le_less_trans[OF length_filter_le])
  then have "queue_ok J fuel t (?db, snd q)"
    using ok rest e(1) by (auto simp: queue_ok_def db_inv_del)
  moreover have "on_db (popNextJob fuel J (Some t)) q = (Some (Ok j), ?db, snd q)"
    using ok e by (simp add: on_db_def popNextJob_step queue_ok_def parse_job_def)
  ultimately show "\<exists>q'. on_db (popNextJob fuel J (Some t)) q = (Some (Ok j), q') \<and> queue_ok J fuel t q' \<and>
      pending_jobs J t q' = js"
    using rest e(3) by (auto simp: pending_jobs_def)
qed

text \<open>A worker that is not busy runs all due jobs, in the order of their keys, and is then ready for more,
  if no job touches the queue or throws.\<close>

lemma processJobs_drains:
  assumes "\<And>j q. queue_ok J fuel t q \<Longrightarrow> \<exists>r q'. processJob j q = (Some r, q') \<and> (\<forall>e. r \<noteq> Throw e) \<and>
             queue_ok J fuel t q' \<and> pending_jobs J t q' = pending_jobs J t q \<and> did (snd q') = did (snd q) @ [j]"
    and "queue_ok J fuel t q" "length (pending_jobs J t q) < n"
    and "t = (case doBefore of Some t \<Rightarrow> if t \<noteq> 0 then t else now + 500 | None \<Rightarrow> now + 500)"
  shows "\<exists>q'. processJobs n fuel J processJob now doBefore Waiting q = (Some (Ok ()), Waiting, q') \<and>
     queue_ok J fuel t q' \<and> pending_jobs J t q' = [] \<and> did (snd q') = did (snd q) @ pending_jobs J t q"
proof -
  have "did (snd (snd (on_db (popNextJob fuel J (Some t)) q))) = did (snd q)" for q :: "rocksdb \<times> 'a"
    by (simp add: on_db_def split: prod.split)
  from jobs.drained[where did = "\<lambda>q. did (snd q)", OF assms(1) this assms(2,3)]
  obtain q' where "process_loop n (on_db (popNextJob fuel J (Some t))) processJob q = (Some (Ok ()), q')"
      "queue_ok J fuel t q'" "pending_jobs J t q' = []" "did (snd q') = did (snd q) @ pending_jobs J t q"
    by blast
  then show ?thesis by (simp add: processJobs_def Let_def flip: assms(4))
qed

text \<open>A worker that is busy does nothing; one whose job threw stays busy for good.\<close>

lemma busy_worker:
  "processJobs n fuel J processJob now doBefore Working q =
     (Some (fail Unavailable ''worker is already processing jobs''), Working, q)"
  by (simp add: processJobs_def)

lemma thrown_job_blocks:
  assumes "process_loop n (on_db (popNextJob fuel J (Some (now + 500)))) processJob q = (Some (Throw e), q')"
  shows "processJobs n fuel J processJob now None Waiting q = (Some (Throw e), Working, q')"
  using assms by (simp add: processJobs_def)

text \<open>Enqueuing for now adds one entry to those due before any later time.\<close>

lemma db_put_fresh: "db_get s k = None \<Longrightarrow> set (db_put k v s) = insert (k, v) (set s)"
  by (induction k v s rule: db_put.induct) (auto simp: db_get_def split: if_splits)

lemma enqueueJob_pending:
  assumes "db_inv (rdb_disk db)" "rdb_native_open db" "0 \<le> now" "now < t" "t < 2 ^ 64"
    and "length (blake3_4 J (encodeJob J p)) = 4"
    and "key = jobKeyPrefix @ be_bytes 8 now @ blake3_4 J (encodeJob J p)"
    and "db_get (rdb_disk db) key = None"
  shows "\<exists>db'. enqueueJob J now p None db = (Ok (key, NoticeNow key), db') \<and> db_inv (rdb_disk db') \<and>
     set (due_entries t (rdb_disk db')) = insert (key, encodeJob J p) (set (due_entries t (rdb_disk db)))"
proof -
  have "be_bytes 8 now < be_bytes 8 t" using assms(3-5) by (simp add: be_bytes_less)
  then have "be_bytes 8 now @ blake3_4 J (encodeJob J p) < be_bytes 8 t @ []"
    by (subst append_less_append) simp_all
  then have "jobKeyPrefix \<le> key \<and> key < jobKeyPrefix @ be_bytes 8 t"
    by (simp add: assms(7) jobKeyPrefix_def)
  moreover have "makeJobKey now (Some (blake3_4 J (encodeJob J p))) = Ok key"
    using assms(3-6) by (simp add: makeJobKey_def assms(7))
  ultimately show ?thesis
    using assms(1,2,8)
    by (auto simp: enqueueJob_def RocksDB_put_def db_inv_put due_entries_def db_put_fresh)
qed

text \<open>The entries that are due come in the order of their times.\<close>

lemma due_in_time_order:
  assumes "db_inv s" "due_entries t s = e # es" "e' \<in> set es"
    and "fst e = jobKeyPrefix @ be_bytes 8 a @ h" "fst e' = jobKeyPrefix @ be_bytes 8 b @ h'"
    and "0 \<le> a" "a < 2 ^ 64" "0 \<le> b" "b < 2 ^ 64"
  shows "a \<le> b"
proof -
  have "sorted_wrt (\<lambda>x y. fst x < fst y) (due_entries t s)"
    using assms(1) by (simp add: db_inv_def due_entries_def sorted_wrt_filter sorted_wrt_map)
  then have "fst e < fst e'" using assms(2,3) by simp
  then have "be_bytes 8 a @ h < be_bytes 8 b @ h'" by (simp add: assms(4,5) jobKeyPrefix_def)
  then have "be_bytes 8 a < be_bytes 8 b \<or> be_bytes 8 a = be_bytes 8 b"
    by (subst (asm) append_less_append) auto
  then show ?thesis using assms(6-9) by (auto simp: be_bytes_less be_bytes_inject)
qed

end
