(* ===== verification/NativeStore.thy ===== *)
theory NativeStore
  imports JobQueue
begin

text \<open>
  The native message store (\<^verbatim>\<open>addon/src/store/store.rs\<close> and the parts of \<^verbatim>\<open>store/message.rs\<close> and
  \<^verbatim>\<open>store/store_event_handler.rs\<close> that it uses): merging, revoking and pruning of messages for any
  kind of message. What differs from kind to kind is the record \<open>store_def\<close>, the source's trait
  \<^verbatim>\<open>StoreDef\<close>.

  A store keeps every message under its primary key and, for each thing a message can be about (a
  cast, a reaction of a type to a target), the key of the add or of the remove that won. Merging
  resolves conflicts by a total order on the messages about one thing, so that hubs that merged the
  same messages agree whatever the order in which they got them.

  A panic of the native code is the exception \<open>native_panic\<close>. The locks per user are left out: they
  serialise merges, which is how they are modelled.
\<close>

section \<open>Messages\<close>

abbreviation db_internal_error :: hub_error_code where
  "db_internal_error \<equiv> OtherCode (lit ''db.internal_error'')"

text \<open>\<^verbatim>\<open>as u32\<close> on the integers of a decoded message\<close>

definition as_u32 :: "number \<Rightarrow> int" where
  "as_u32 n = (case n of Num q \<Rightarrow> \<lfloor>q\<rfloor> mod 2 ^ 32 | _ \<Rightarrow> 0)"

definition fid32 :: "MessageData \<Rightarrow> int" where
  "fid32 d = as_u32 (md_fid d)"

definition native_make_ts_hash :: "int \<Rightarrow> bytes option \<Rightarrow> bytes outcome" where
  "native_make_ts_hash timestamp hash =
     (let h = (case hash of Some h \<Rightarrow> h | None \<Rightarrow> []) in
      if length h \<noteq> 20 then fail (OtherCode (lit ''internal_error'')) ''hash length is not 20''
      else Ok (be_bytes 4 timestamp @ h))"

definition type_to_set_postfix :: "int \<Rightarrow> UserPostfix outcome" where
  "type_to_set_postfix t =
     (if t = CAST_ADD \<or> t = CAST_REMOVE then Ok CastMessage
      else if t = REACTION_ADD \<or> t = REACTION_REMOVE then Ok ReactionMessage
      else if t = VERIFICATION_ADD_ETH_ADDRESS \<or> t = VERIFICATION_REMOVE then Ok VerificationMessage
      else if t = USER_DATA_ADD then Ok UserDataMessage
      else if t = LINK_ADD \<or> t = LINK_REMOVE then Ok LinkMessage
      else if t = USERNAME_PROOF then Ok UsernameProofMessage
      else Throw native_panic)"

definition native_user_key :: "int \<Rightarrow> bytes" where
  "native_user_key fid = root_byte User # be_bytes 4 fid"

definition native_primary_key :: "int \<Rightarrow> byte \<Rightarrow> bytes \<Rightarrow> bytes" where
  "native_primary_key fid set_postfix ts_hash = native_user_key fid @ set_postfix # ts_hash"

definition native_encode :: "proto_codec \<Rightarrow> Message \<Rightarrow> bytes" where
  "native_encode C m =
     (if has_dataBytes m then encodeMessage C (m\<lparr>msg_data := None\<rparr>) else encodeMessage C m)"

definition native_decode :: "proto_codec \<Rightarrow> bytes \<Rightarrow> Message outcome" where
  "native_decode C bs =
     (case decodeMessage C bs of
        Ok m \<Rightarrow>
          (if msg_data m = None \<and> has_dataBytes m then
             (case decodeMessageData C (the (msg_dataBytes m)) of
                Ok d \<Rightarrow> Ok (m\<lparr>msg_data := Some d\<rparr>)
              | _ \<Rightarrow> Ok m)
           else Ok m)
      | _ \<Rightarrow> fail db_internal_error ''could not decode message'')"

definition native_data :: "Message \<Rightarrow> MessageData outcome" where
  "native_data m = (case msg_data m of Some d \<Rightarrow> Ok d | None \<Rightarrow> Throw native_panic)"

definition message_ts_hash :: "Message \<Rightarrow> bytes outcome" where
  "message_ts_hash m = andThen (native_data m) (\<lambda>d. native_make_ts_hash (md_timestamp d) (msg_hash m))"

definition message_primary_key :: "Message \<Rightarrow> bytes outcome" where
  "message_primary_key m =
     andThen (native_data m) (\<lambda>d.
     andThen (message_ts_hash m) (\<lambda>h.
     mapOk (type_to_set_postfix (md_type d)) (\<lambda>p. native_primary_key (fid32 d) (postfix_byte p) h)))"

definition put_message_transaction :: "proto_codec \<Rightarrow> Message \<Rightarrow> transaction outcome" where
  "put_message_transaction C m = mapOk (message_primary_key m) (\<lambda>k. [(k, Some (native_encode C m))])"

definition delete_message_transaction :: "Message \<Rightarrow> transaction outcome" where
  "delete_message_transaction m = mapOk (message_primary_key m) (\<lambda>k. [(k, None)])"

definition native_get :: "store \<Rightarrow> bytes \<Rightarrow> bytes option" where
  "native_get s k = db_get s k"

definition native_get_message ::
  "proto_codec \<Rightarrow> store \<Rightarrow> int \<Rightarrow> byte \<Rightarrow> bytes \<Rightarrow> Message option outcome" where
  "native_get_message C s fid set_postfix ts_hash =
     (case native_get s (native_primary_key fid set_postfix ts_hash) of
        None \<Rightarrow> Ok None
      | Some bs \<Rightarrow>
          (case native_decode C bs of
             Ok m \<Rightarrow> Ok (Some m)
           | _ \<Rightarrow> fail db_internal_error ''could not decode message''))"

definition vec_to_u8_24 :: "bytes \<Rightarrow> bytes outcome" where
  "vec_to_u8_24 v =
     (if length v = 24 then Ok v
      else fail (OtherCode (lit ''bad_request.internal_error'')) ''message_ts_hash is not 24 bytes'')"

section \<open>Kinds of stores\<close>

text \<open>A type of 0 is \<^verbatim>\<open>MessageType::None\<close>: the store does not support such messages. The transaction
  builders return the operations that they append. The last four fields are the methods with a default
  implementation that some stores override; \<open>None\<close> is the default.\<close>

record store_def =
  sd_postfix :: byte
  sd_add_type :: int
  sd_remove_type :: int
  sd_compact_type :: int
  sd_is_add :: "Message \<Rightarrow> bool"
  sd_is_remove :: "Message \<Rightarrow> bool"
  sd_is_compact :: "Message \<Rightarrow> bool"
  sd_build_secondary :: "bytes \<Rightarrow> Message \<Rightarrow> transaction outcome"
  sd_delete_secondary :: "bytes \<Rightarrow> Message \<Rightarrow> transaction outcome"
  sd_delete_remove_secondary :: "Message \<Rightarrow> transaction outcome"
  sd_add_key :: "Message \<Rightarrow> bytes outcome"
  sd_remove_key :: "Message \<Rightarrow> bytes outcome"
  sd_compact_key :: "Message \<Rightarrow> bytes outcome"
  sd_compare :: "int \<Rightarrow> bytes \<Rightarrow> int \<Rightarrow> bytes \<Rightarrow> int"
  sd_prune_limit :: int
  sd_conflicts :: "(proto_codec \<Rightarrow> store \<Rightarrow> Message \<Rightarrow> bytes \<Rightarrow> Message list outcome) option"
  sd_merge_event :: "(Message \<Rightarrow> Message list \<Rightarrow> HubEvent) option"
  sd_revoke_event :: "(Message \<Rightarrow> HubEvent) option"
  sd_prune_event :: "(Message \<Rightarrow> HubEvent) option"

definition remove_type_supported :: "store_def \<Rightarrow> bool" where
  "remove_type_supported S \<longleftrightarrow> sd_remove_type S \<noteq> 0"

definition compact_state_type_supported :: "store_def \<Rightarrow> bool" where
  "compact_state_type_supported S \<longleftrightarrow> sd_compact_type S \<noteq> 0"

text \<open>The default of \<^verbatim>\<open>message_compare\<close>, given the two types of the store.\<close>

definition default_message_compare :: "int \<Rightarrow> int \<Rightarrow> int \<Rightarrow> bytes \<Rightarrow> int \<Rightarrow> bytes \<Rightarrow> int" where
  "default_message_compare add_type remove_type a_type a_ts_hash b_type b_ts_hash =
     (let ts_compare = bytesCompare (take 4 a_ts_hash) (take 4 b_ts_hash) in
      if ts_compare \<noteq> 0 then ts_compare
      else if a_type = remove_type \<and> b_type = add_type then 1
      else if a_type = add_type \<and> b_type = remove_type then -1
      else bytesCompare (take 20 (drop 4 a_ts_hash)) (take 20 (drop 4 b_ts_hash)))"

text \<open>One half of \<^verbatim>\<open>get_default_merge_conflicts\<close>: the message that an index key leads to, if it is older.
  A shorter hash than 24 bytes makes the comparison panic.\<close>

definition index_conflict ::
  "store_def \<Rightarrow> proto_codec \<Rightarrow> store \<Rightarrow> int \<Rightarrow> string \<Rightarrow> bytes \<Rightarrow> MessageData \<Rightarrow> bytes \<Rightarrow> Message list outcome" where
  "index_conflict S C s existing_type what key d ts_hash =
     (case native_get s key of
        None \<Rightarrow> Ok []
      | Some h \<Rightarrow>
          if length h < 24 then Throw native_panic
          else
            (let c = sd_compare S existing_type h (md_type d) ts_hash in
             if c > 0 then fail Conflict (''message conflicts with a more recent '' @ what)
             else if c = 0 then fail Duplicate ''message has already been merged''
             else andThen (vec_to_u8_24 h) (\<lambda>h.
                    mapOk (native_get_message C s (fid32 d) (sd_postfix S) h)
                      (\<lambda>r. case r of Some m \<Rightarrow> [m] | None \<Rightarrow> []))))"

definition get_default_merge_conflicts ::
  "store_def \<Rightarrow> proto_codec \<Rightarrow> store \<Rightarrow> Message \<Rightarrow> bytes \<Rightarrow> Message list outcome" where
  "get_default_merge_conflicts S C s m ts_hash =
     andThen (native_data m) (\<lambda>d.
     andThen (if remove_type_supported S then
                andThen (sd_remove_key S m) (\<lambda>k. index_conflict S C s (sd_remove_type S) ''remove'' k d ts_hash)
              else Ok []) (\<lambda>removes.
     andThen (sd_add_key S m) (\<lambda>k.
     mapOk (index_conflict S C s (sd_add_type S) ''add'' k d ts_hash) (\<lambda>adds. removes @ adds))))"

definition get_merge_conflicts ::
  "store_def \<Rightarrow> proto_codec \<Rightarrow> store \<Rightarrow> Message \<Rightarrow> bytes \<Rightarrow> Message list outcome" where
  "get_merge_conflicts S =
     (case sd_conflicts S of Some f \<Rightarrow> f | None \<Rightarrow> get_default_merge_conflicts S)"

section \<open>Transactions\<close>

definition validation_failure :: "string \<Rightarrow> 'a outcome" where
  "validation_failure m = fail ValidationFailure m"

definition appendTxn :: "transaction outcome \<Rightarrow> transaction outcome \<Rightarrow> transaction outcome" where
  "appendTxn a b = andThen a (\<lambda>x. mapOk b (\<lambda>y. x @ y))"

definition put_add_compact_state_transaction :: "store_def \<Rightarrow> proto_codec \<Rightarrow> Message \<Rightarrow> transaction outcome" where
  "put_add_compact_state_transaction S C m =
     (if \<not> compact_state_type_supported S then validation_failure ''compact state type not supported''
      else mapOk (sd_compact_key S m) (\<lambda>k. [(k, Some (native_encode C m))]))"

definition put_add_transaction ::
  "store_def \<Rightarrow> proto_codec \<Rightarrow> bytes \<Rightarrow> Message \<Rightarrow> transaction outcome" where
  "put_add_transaction S C ts_hash m =
     appendTxn (put_message_transaction C m)
       (appendTxn (mapOk (sd_add_key S m) (\<lambda>k. [(k, Some ts_hash)])) (sd_build_secondary S ts_hash m))"

definition delete_compact_state_transaction :: "store_def \<Rightarrow> Message \<Rightarrow> transaction outcome" where
  "delete_compact_state_transaction S m =
     (if \<not> compact_state_type_supported S then validation_failure ''compact state type not supported''
      else mapOk (sd_compact_key S m) (\<lambda>k. [(k, None)]))"

definition delete_add_transaction :: "store_def \<Rightarrow> bytes \<Rightarrow> Message \<Rightarrow> transaction outcome" where
  "delete_add_transaction S ts_hash m =
     appendTxn (sd_delete_secondary S ts_hash m)
       (appendTxn (mapOk (sd_add_key S m) (\<lambda>k. [(k, None)])) (delete_message_transaction m))"

definition put_remove_transaction ::
  "store_def \<Rightarrow> proto_codec \<Rightarrow> bytes \<Rightarrow> Message \<Rightarrow> transaction outcome" where
  "put_remove_transaction S C ts_hash m =
     (if \<not> remove_type_supported S then validation_failure ''remove type not supported''
      else appendTxn (put_message_transaction C m) (mapOk (sd_remove_key S m) (\<lambda>k. [(k, Some ts_hash)])))"

definition delete_remove_transaction :: "store_def \<Rightarrow> Message \<Rightarrow> transaction outcome" where
  "delete_remove_transaction S m =
     (if \<not> remove_type_supported S then validation_failure ''remove type not supported''
      else appendTxn (sd_delete_remove_secondary S m)
             (appendTxn (mapOk (sd_remove_key S m) (\<lambda>k. [(k, None)])) (delete_message_transaction m)))"

definition delete_one_transaction :: "store_def \<Rightarrow> Message \<Rightarrow> transaction outcome" where
  "delete_one_transaction S m =
     appendTxn
       (if sd_is_compact S m then delete_compact_state_transaction S m
        else if sd_is_add S m then andThen (message_ts_hash m) (\<lambda>h. delete_add_transaction S h m)
        else Ok [])
       (if remove_type_supported S \<and> sd_is_remove S m then delete_remove_transaction S m else Ok [])"

fun delete_many_transaction :: "store_def \<Rightarrow> Message list \<Rightarrow> transaction outcome" where
  "delete_many_transaction S [] = Ok []"
| "delete_many_transaction S (m # ms) = appendTxn (delete_one_transaction S m) (delete_many_transaction S ms)"

section \<open>Committing\<close>

text \<open>The batch is a hash map, so of several operations on a key the last counts.\<close>

definition native_batch :: "transaction \<Rightarrow> transaction" where
  "native_batch t = fold batch_insert t []"

definition native_event :: "int \<Rightarrow> HubEvent" where
  "native_event t =
     \<lparr>he_type = t, he_id = 0, he_mergeMessageBody = None, he_pruneMessageBody = None,
      he_revokeMessageBody = None, he_mergeUsernameProofBody = None, he_mergeOnChainEventBody = None\<rparr>"

definition merge_event_for :: "store_def \<Rightarrow> Message \<Rightarrow> Message list \<Rightarrow> HubEvent" where
  "merge_event_for S m conflicts =
     (case sd_merge_event S of
        Some f \<Rightarrow> f m conflicts
      | None \<Rightarrow>
          (native_event HUB_EVENT_MERGE_MESSAGE)
            \<lparr>he_mergeMessageBody := Some
               \<lparr>mmb_message = Some m,
                mmb_deletedMessages =
                  (case msg_data m of
                     Some d \<Rightarrow> if md_type d = sd_compact_type S then [] else conflicts
                   | None \<Rightarrow> [])\<rparr>\<rparr>)"

definition revoke_event_for :: "store_def \<Rightarrow> Message \<Rightarrow> HubEvent" where
  "revoke_event_for S m =
     (case sd_revoke_event S of
        Some f \<Rightarrow> f m
      | None \<Rightarrow> (native_event HUB_EVENT_REVOKE_MESSAGE)\<lparr>he_revokeMessageBody := Some (Some m)\<rparr>)"

definition prune_event_for :: "store_def \<Rightarrow> Message \<Rightarrow> HubEvent" where
  "prune_event_for S m =
     (case sd_prune_event S of
        Some f \<Rightarrow> f m
      | None \<Rightarrow> (native_event HUB_EVENT_PRUNE_MESSAGE)\<lparr>he_pruneMessageBody := Some (Some m)\<rparr>)"

text \<open>\<^verbatim>\<open>StoreEventHandler::commit_transaction\<close>: an id for the event, and the event into the batch.\<close>

definition native_commit_transaction ::
  "hub_event_codec \<Rightarrow> int \<Rightarrow> transaction \<Rightarrow> HubEvent \<Rightarrow> event_id_generator \<Rightarrow>
   (transaction \<times> HubEvent) outcome \<times> event_id_generator" where
  "native_commit_transaction D now txn args g =
     (case generate_id (word_of_int now) g of
        (r, g) \<Rightarrow>
          (mapOk r (\<lambda>w. let event = args\<lparr>he_id := uint w\<rparr> in
             (txn @ [(root_byte HubEvents # be_bytes 8 (uint w), Some (encodeHubEvent D event))], event)), g))"

type_synonym native_state = "rocksdb \<times> event_id_generator"

definition commit_with_event ::
  "hub_event_codec \<Rightarrow> int \<Rightarrow> transaction outcome \<Rightarrow> HubEvent \<Rightarrow> native_state \<Rightarrow>
   HubEvent outcome \<times> native_state" where
  "commit_with_event D now txn args st =
     (case st of (db, g) \<Rightarrow>
        (case txn of
           Err e \<Rightarrow> (Err e, db, g)
         | Throw t \<Rightarrow> (Throw t, db, g)
         | Ok txn \<Rightarrow>
             (case native_commit_transaction D now txn args g of
                (Ok (txn, event), g) \<Rightarrow>
                  (Ok event, db\<lparr>rdb_disk := commit_batch (native_batch txn) (rdb_disk db)\<rparr>, g)
              | (Err e, g) \<Rightarrow> (Err e, db, g)
              | (Throw t, g) \<Rightarrow> (Throw t, db, g))))"

section \<open>Merging\<close>

definition fid_string :: "number \<Rightarrow> js_string" where
  "fid_string n = (case n of Num q \<Rightarrow> int_to_string 10 \<lfloor>q\<rfloor> | _ \<Rightarrow> lit ''0'')"

definition read_compact_state_details :: "Message \<Rightarrow> (int \<times> int \<times> number list) outcome" where
  "read_compact_state_details m =
     (case msg_data m of
        None \<Rightarrow> fail ValidationFailure ''Invalid compact state message: no data''
      | Some d \<Rightarrow>
          (case md_linkCompactStateBody d of
             None \<Rightarrow> fail ValidationFailure ''Invalid compact state message: No link compact state body''
           | Some b \<Rightarrow>
               Ok (fid32 d, md_timestamp d, case lcsb_targetFids b of Some fs \<Rightarrow> fs | None \<Rightarrow> [])))"

definition link_target :: "MessageData \<Rightarrow> number option" where
  "link_target d = (case md_linkBody d of Some b \<Rightarrow> lb_targetFid b | None \<Rightarrow> None)"

definition merge_add ::
  "store_def \<Rightarrow> proto_codec \<Rightarrow> hub_event_codec \<Rightarrow> int \<Rightarrow> bytes \<Rightarrow> Message \<Rightarrow> native_state \<Rightarrow>
   HubEvent outcome \<times> native_state" where
  "merge_add S C D now ts_hash m st =
     (let s = rdb_disk (fst st);
          guard = (if \<not> compact_state_type_supported S then Ok ()
                   else andThen (native_data m) (\<lambda>d.
                        andThen (sd_compact_key S m) (\<lambda>k.
                          case native_get s k of
                            None \<Rightarrow> Ok ()
                          | Some bs \<Rightarrow>
                              andThen (native_decode C bs) (\<lambda>cm.
                              andThen (read_compact_state_details cm) (\<lambda>(_, t, targets).
                                case link_target d of
                                  Some f \<Rightarrow>
                                    if md_timestamp d < t \<and> f \<notin> set targets
                                    then fail_js Conflict (lit ''Target fid '' @ fid_string f @ lit '' not in the compact state target fids'')
                                    else Ok ()
                                | None \<Rightarrow> Ok ())))));
          conflicts = andThen guard (\<lambda>_. get_merge_conflicts S C s m ts_hash)
      in case conflicts of
           Err e \<Rightarrow> (Err e, st)
         | Throw t \<Rightarrow> (Throw t, st)
         | Ok conflicts \<Rightarrow>
             commit_with_event D now
               (appendTxn (delete_many_transaction S conflicts) (put_add_transaction S C ts_hash m))
               (merge_event_for S m conflicts) st)"

definition merge_remove ::
  "store_def \<Rightarrow> proto_codec \<Rightarrow> hub_event_codec \<Rightarrow> int \<Rightarrow> bytes \<Rightarrow> Message \<Rightarrow> native_state \<Rightarrow>
   HubEvent outcome \<times> native_state" where
  "merge_remove S C D now ts_hash m st =
     (let s = rdb_disk (fst st);
          guard = (if \<not> compact_state_type_supported S then Ok ()
                   else andThen (native_data m) (\<lambda>d.
                        andThen (sd_compact_key S m) (\<lambda>k.
                          case native_get s k of
                            None \<Rightarrow> Ok ()
                          | Some bs \<Rightarrow>
                              andThen (native_decode C bs) (\<lambda>cm.
                              andThen (read_compact_state_details cm) (\<lambda>(_, t, _).
                                if md_timestamp d < t
                                then fail Prunable ''Remove message earlier than the compact state message will be immediately pruned''
                                else Ok ())))));
          conflicts = andThen guard (\<lambda>_. get_merge_conflicts S C s m ts_hash)
      in case conflicts of
           Err e \<Rightarrow> (Err e, st)
         | Throw t \<Rightarrow> (Throw t, st)
         | Ok conflicts \<Rightarrow>
             commit_with_event D now
               (appendTxn (delete_many_transaction S conflicts) (put_remove_transaction S C ts_hash m))
               (merge_event_for S m conflicts) st)"

text \<open>The messages of the user that a compact state replaces: all removes, and the adds whose target is not
  among its targets, up to its time.\<close>

fun compact_conflicts ::
  "store_def \<Rightarrow> proto_codec \<Rightarrow> int \<Rightarrow> number list \<Rightarrow> store \<Rightarrow> Message list outcome" where
  "compact_conflicts S C t targets [] = Ok []"
| "compact_conflicts S C t targets (kv # kvs) =
     andThen (native_decode C (snd kv)) (\<lambda>m.
     andThen (native_data m) (\<lambda>d.
       if md_timestamp d > t then Ok []
       else mapOk (compact_conflicts S C t targets kvs) (\<lambda>ms.
              (if sd_is_remove S m then [m]
               else if sd_is_add S m then
                 (case link_target d of Some f \<Rightarrow> if f \<notin> set targets then [m] else [] | None \<Rightarrow> [])
               else []) @ ms)))"

definition existing_compact_state ::
  "store_def \<Rightarrow> proto_codec \<Rightarrow> store \<Rightarrow> MessageData \<Rightarrow> Message \<Rightarrow> Message list outcome" where
  "existing_compact_state S C s d m =
     andThen (sd_compact_key S m) (\<lambda>k.
       case native_get s k of
         None \<Rightarrow> Ok []
       | Some bs \<Rightarrow>
           (case native_decode C bs of
              Ok ex \<Rightarrow>
                andThen (native_data ex) (\<lambda>exd.
                  if md_timestamp exd < md_timestamp d then Ok [ex]
                  else fail Conflict ''A newer Compact State message is already merged'')
            | _ \<Rightarrow> Ok []))"

definition merge_compact_state ::
  "store_def \<Rightarrow> proto_codec \<Rightarrow> hub_event_codec \<Rightarrow> int \<Rightarrow> Message \<Rightarrow> native_state \<Rightarrow>
   HubEvent outcome \<times> native_state" where
  "merge_compact_state S C D now m st =
     (let s = rdb_disk (fst st);
          conflicts =
            andThen (native_data m) (\<lambda>d.
            andThen (existing_compact_state S C s d m) (\<lambda>existing.
            andThen (read_compact_state_details m) (\<lambda>(fid, t, targets).
            mapOk (compact_conflicts S C t targets
                     (scan_by_prefix s (native_primary_key fid (sd_postfix S) []) no_page_options))
              (\<lambda>ms. existing @ ms))))
      in case conflicts of
           Err e \<Rightarrow> (Err e, st)
         | Throw t \<Rightarrow> (Throw t, st)
         | Ok conflicts \<Rightarrow>
             commit_with_event D now
               (appendTxn (delete_many_transaction S conflicts) (put_add_compact_state_transaction S C m))
               (merge_event_for S m conflicts) st)"

definition native_merge ::
  "store_def \<Rightarrow> proto_codec \<Rightarrow> hub_event_codec \<Rightarrow> int \<Rightarrow> Message \<Rightarrow> native_state \<Rightarrow>
   HubEvent outcome \<times> native_state" where
  "native_merge S C D now m st =
     (if \<not> rdb_native_open (fst st) then (Throw native_panic, st)
      else
        (case native_data m of
           Err e \<Rightarrow> (Err e, st)
         | Throw t \<Rightarrow> (Throw t, st)
         | Ok d \<Rightarrow>
             (if \<not> sd_is_add S m \<and> \<not> (remove_type_supported S \<and> sd_is_remove S m) \<and>
                 \<not> (compact_state_type_supported S \<and> sd_is_compact S m)
              then (fail ValidationFailure ''invalid message type'', st)
              else
                (case message_ts_hash m of
                   Err e \<Rightarrow> (Err e, st)
                 | Throw t \<Rightarrow> (Throw t, st)
                 | Ok ts_hash \<Rightarrow>
                     if sd_is_compact S m then merge_compact_state S C D now m st
                     else if sd_is_add S m then merge_add S C D now ts_hash m st
                     else merge_remove S C D now ts_hash m st))))"

section \<open>Revoking and pruning\<close>

definition native_revoke ::
  "store_def \<Rightarrow> hub_event_codec \<Rightarrow> int \<Rightarrow> Message \<Rightarrow> native_state \<Rightarrow> HubEvent outcome \<times> native_state" where
  "native_revoke S D now m st =
     (if \<not> rdb_native_open (fst st) then (Throw native_panic, st)
      else
        commit_with_event D now
          (andThen (message_ts_hash m) (\<lambda>ts_hash.
             if sd_is_compact S m then delete_compact_state_transaction S m
             else if sd_is_add S m then delete_add_transaction S ts_hash m
             else if remove_type_supported S \<and> sd_is_remove S m then delete_remove_transaction S m
             else fail InvalidParam ''invalid message type''))
          (revoke_event_for S m) st)"

text \<open>The iteration of \<^verbatim>\<open>prune_messages\<close>: it collects one batch and one event per pruned message.\<close>

fun prune_loop ::
  "store_def \<Rightarrow> proto_codec \<Rightarrow> hub_event_codec \<Rightarrow> int \<Rightarrow> int \<Rightarrow> store \<Rightarrow> int \<Rightarrow> transaction \<Rightarrow>
   HubEvent list \<Rightarrow> event_id_generator \<Rightarrow> (transaction \<times> HubEvent list) outcome \<times> event_id_generator" where
  "prune_loop S C D now max_count [] count txn events g = (Ok (txn, events), g)"
| "prune_loop S C D now max_count (kv # kvs) count txn events g =
     (if count \<le> max_count then (Ok (txn, events), g)
      else
        (case native_decode C (snd kv) of
           Err e \<Rightarrow> (Err e, g)
         | Throw t \<Rightarrow> (Throw t, g)
         | Ok m \<Rightarrow>
             (if compact_state_type_supported S \<and> sd_is_compact S m
              then prune_loop S C D now max_count kvs count txn events g
              else
                (case (if sd_is_add S m then andThen (message_ts_hash m) (\<lambda>h. delete_add_transaction S h m)
                       else if remove_type_supported S \<and> sd_is_remove S m then delete_remove_transaction S m
                       else Ok []) of
                   Err e \<Rightarrow> (Err e, g)
                 | Throw t \<Rightarrow> (Throw t, g)
                 | Ok ops \<Rightarrow>
                     (case native_commit_transaction D now (txn @ ops) (prune_event_for S m) g of
                        (Err e, g) \<Rightarrow> (Err e, g)
                      | (Throw t, g) \<Rightarrow> (Throw t, g)
                      | (Ok (txn, event), g) \<Rightarrow>
                          prune_loop S C D now max_count kvs (count - 1) txn (events @ [event]) g)))))"

definition native_prune ::
  "store_def \<Rightarrow> proto_codec \<Rightarrow> hub_event_codec \<Rightarrow> int \<Rightarrow> int \<Rightarrow> int \<Rightarrow> int \<Rightarrow> native_state \<Rightarrow>
   HubEvent list outcome \<times> native_state" where
  "native_prune S C D now fid cached_count max_count st =
     (case st of (db, g) \<Rightarrow>
        if \<not> rdb_native_open db then (Throw native_panic, db, g)
        else
          (let max_message_count = (if sd_prune_limit S > 0 then sd_prune_limit S else max_count);
               kvs = scan_by_prefix (rdb_disk db) (native_primary_key fid (sd_postfix S) []) no_page_options
           in case prune_loop S C D now max_message_count kvs cached_count [] [] g of
                (Ok (txn, events), g) \<Rightarrow>
                  (Ok events, db\<lparr>rdb_disk := commit_batch (native_batch txn) (rdb_disk db)\<rparr>, g)
              | (Err e, g) \<Rightarrow> (Err e, db, g)
              | (Throw t, g) \<Rightarrow> (Throw t, db, g)))"

section \<open>Reading\<close>

definition index_lookup :: "store_def \<Rightarrow> proto_codec \<Rightarrow> store \<Rightarrow> MessageData \<Rightarrow> bytes \<Rightarrow> Message option outcome" where
  "index_lookup S C s d key =
     (case native_get s key of
        None \<Rightarrow> Ok None
      | Some h \<Rightarrow> andThen (vec_to_u8_24 h) (\<lambda>h. native_get_message C s (fid32 d) (sd_postfix S) h))"

definition fid_of_partial :: "Message \<Rightarrow> MessageData outcome" where
  "fid_of_partial m =
     (case msg_data m of
        Some d \<Rightarrow> if md_fid d = numI 0 then fail InvalidParam ''fid is required'' else Ok d
      | None \<Rightarrow> fail InvalidParam ''fid is required'')"

definition native_get_add :: "store_def \<Rightarrow> proto_codec \<Rightarrow> store \<Rightarrow> Message \<Rightarrow> Message option outcome" where
  "native_get_add S C s m =
     andThen (fid_of_partial m) (\<lambda>d. andThen (sd_add_key S m) (index_lookup S C s d))"

definition native_get_remove :: "store_def \<Rightarrow> proto_codec \<Rightarrow> store \<Rightarrow> Message \<Rightarrow> Message option outcome" where
  "native_get_remove S C s m =
     (if \<not> remove_type_supported S then fail ValidationFailure ''remove type not supported''
      else andThen (fid_of_partial m) (\<lambda>d. andThen (sd_remove_key S m) (index_lookup S C s d)))"

end
