(* ===== verification/NativeMerge.thy ===== *)
theory NativeMerge
  imports NativeStore
begin

text \<open>
  Why hubs agree. A store of messages with adds and removes (the interface \<open>two_phase_store\<close>) keeps,
  for every subject of a user, the message of the highest rank that it has merged. This is shown by
  refinement: a database represents a map from subjects to winning messages, and a merge on the
  database is the abstract merge on that map. The abstract merge keeps maxima, so the result of
  merging a list of messages depends only on the set of the messages, not on the order or on
  repetitions.
\<close>

section \<open>What a commit does\<close>

lemma map_of_native_batch: "map_of (native_batch t) = map_of (rev t)"
proof -
  have "map_of (fold batch_insert t b) = map_of b ++ map_of (rev t)" for b :: transaction
  proof (induction t arbitrary: b)
    case Nil
    then show ?case by simp
  next
    case (Cons op t)
    then show ?case
      by (simp add: map_of_batch_insert map_add_assoc [symmetric])
        (simp add: map_add_def fun_eq_iff split: option.split)
  qed
  then show ?thesis by (simp add: native_batch_def)
qed

lemma native_batch_distinct: "distinct (map fst (native_batch t))"
proof -
  have "distinct (map fst b) \<Longrightarrow> distinct (map fst (fold batch_insert t b))" for b :: transaction
    by (induction t arbitrary: b) (simp_all add: batch_insert_distinct)
  then show ?thesis by (simp add: native_batch_def)
qed

lemma native_commit_get:
  "db_inv s \<Longrightarrow>
   db_get (commit_batch (native_batch t) s) k = (case map_of (rev t) k of Some r \<Rightarrow> r | None \<Rightarrow> db_get s k)"
  by (simp add: commit_batch_ops db.lookup_apply_ops map_of_rev_distinct native_batch_distinct map_of_native_batch)

lemma commit_with_event_Ok:
  assumes "commit_with_event D now txn args (db, g) = (Ok ev, st')"
  shows "\<exists>t i. txn = Ok t \<and> ev = args\<lparr>he_id := i\<rparr> \<and>
           fst st' = db\<lparr>rdb_disk := commit_batch (native_batch (t @ [(root_byte HubEvents # be_bytes 8 i,
                          Some (encodeHubEvent D ev))])) (rdb_disk db)\<rparr>"
  using assms
  by (auto simp: commit_with_event_def native_commit_transaction_def outcome_simps Let_def
      split: outcome.splits prod.splits)

lemma commit_with_event_not_Ok:
  assumes "commit_with_event D now txn args (db, g) = (r, st')" "\<And>ev. r \<noteq> Ok ev"
  shows "fst st' = db"
  using assms by (auto simp: commit_with_event_def split: outcome.splits prod.splits)

text \<open>Outside the keys of users the index of a store and the event log may change; on the keys of
  users only the operations on such keys count. The empty key, which nothing writes, counts among them.\<close>

definition user_key :: "bytes \<Rightarrow> bool" where
  "user_key k \<longleftrightarrow> k = [] \<or> hd k = root_byte User"

lemma map_of_rev_filter: "P k \<Longrightarrow> map_of (rev (filter (\<lambda>op. P (fst op)) t)) k = map_of (rev t) k"
  by (induction t) (auto simp: map_add_def split: option.split)

lemma user_commit_get:
  assumes "db_inv s" "user_key k"
  shows "db_get (commit_batch (native_batch (t @ [(root_byte HubEvents # b, v)])) s) k =
         (case map_of (rev (filter (\<lambda>op. user_key (fst op)) t)) k of Some r \<Rightarrow> r | None \<Rightarrow> db_get s k)"
proof -
  have "k \<noteq> root_byte HubEvents # b" using assms(2) by (auto simp: user_key_def)
  then show ?thesis using assms by (simp add: native_commit_get map_of_rev_filter[where P = user_key])
qed

section \<open>Parts of a message\<close>

definition msg_fid32 :: "Message \<Rightarrow> int" where
  "msg_fid32 m = (case msg_data m of Some d \<Rightarrow> fid32 d | None \<Rightarrow> 0)"

definition msg_type :: "Message \<Rightarrow> int" where
  "msg_type m = (case msg_data m of Some d \<Rightarrow> md_type d | None \<Rightarrow> 0)"

definition msg_tshash :: "Message \<Rightarrow> bytes" where
  "msg_tshash m =
     (case msg_data m of Some d \<Rightarrow> be_bytes 4 (md_timestamp d) | None \<Rightarrow> []) @
     (case msg_hash m of Some h \<Rightarrow> h | None \<Rightarrow> [])"

lemma fid32_range: "0 \<le> fid32 d" "fid32 d < 2 ^ 32"
  by (simp_all add: fid32_def as_u32_def split: number.split)

lemma native_user_key_inject:
  assumes "native_user_key a @ x = native_user_key b @ y" "0 \<le> a" "a < 2 ^ 32" "0 \<le> b" "b < 2 ^ 32"
  shows "a = b \<and> x = y"
proof -
  have "be_bytes 4 a @ x = be_bytes 4 b @ y" using assms(1) by (simp add: native_user_key_def)
  then have "be_bytes 4 a = be_bytes 4 b" "x = y"
    by (simp_all add: append_eq_append_conv del: be_bytes.simps)
  with assms(2-) show ?thesis by (auto dest: be_bytes_inject[where k = 4])
qed

lemma native_user_key_inject_msg [simp]:
  "native_user_key (msg_fid32 a) @ x = native_user_key (msg_fid32 b) @ y \<longleftrightarrow>
   msg_fid32 a = msg_fid32 b \<and> x = y"
proof -
  have "0 \<le> msg_fid32 m \<and> msg_fid32 m < 2 ^ 32" for m
    using fid32_range by (simp add: msg_fid32_def split: option.split)
  then show ?thesis using native_user_key_inject[of "msg_fid32 a" x "msg_fid32 b" y] by auto
qed

lemma user_key_native [simp]: "user_key (native_user_key fid @ x)"
  by (simp add: user_key_def native_user_key_def)

text \<open>A message that decodes from its native encoding to itself.\<close>

definition native_storable :: "proto_codec \<Rightarrow> Message \<Rightarrow> bool" where
  "native_storable C m \<longleftrightarrow> native_decode C (native_encode C m) = Ok m"

lemma storable_native: "storable C m \<Longrightarrow> msg_data m \<noteq> None \<Longrightarrow> native_storable C m"
  by (cases m) (auto simp: native_storable_def native_decode_def native_encode_def storable_def codec_law_def has_dataBytes_def)

section \<open>Merging many messages\<close>

text \<open>\<^verbatim>\<open>js_merge_many\<close> on decoded messages, each with the time at which it is merged.\<close>

fun native_merge_many ::
  "store_def \<Rightarrow> proto_codec \<Rightarrow> hub_event_codec \<Rightarrow> (int \<times> Message) list \<Rightarrow> native_state \<Rightarrow>
   HubEvent outcome list \<times> native_state" where
  "native_merge_many S C D [] st = ([], st)"
| "native_merge_many S C D ((now, m) # ms) st =
     (case native_merge S C D now m st of
        (r, st) \<Rightarrow> (case native_merge_many S C D ms st of (rs, st) \<Rightarrow> (r # rs, st)))"

text \<open>The only failures of a merge that lose a message for good are the two that the order of the
  messages explains; any other failure (no event id is left for this millisecond) would be retried.\<close>

definition settled_result :: "HubEvent outcome \<Rightarrow> bool" where
  "settled_result r = (case r of Ok _ \<Rightarrow> True | Err e \<Rightarrow> errCode e \<in> {Conflict, Duplicate} | Throw _ \<Rightarrow> False)"

definition merged_disk ::
  "store_def \<Rightarrow> proto_codec \<Rightarrow> hub_event_codec \<Rightarrow> (int \<times> Message) list \<Rightarrow> native_state \<Rightarrow> store" where
  "merged_disk S C D tms st = rdb_disk (fst (snd (native_merge_many S C D tms st)))"

text \<open>Enough event ids: fewer than 4096 merges from the start of a sequence, at times of 41 bits.\<close>

definition ids_suffice :: "(int \<times> Message) list \<Rightarrow> event_id_generator \<Rightarrow> bool" where
  "ids_suffice tms g \<longleftrightarrow>
     uint (gen_last_seq g) + int (length tms) < 4096 \<and>
     list_all (\<lambda>(now, m). word_of_int now - gen_epoch g < 2 ^ 41) tms"

lemma ids_suffice_tl: "ids_suffice (tm # tms) g \<Longrightarrow> ids_suffice tms g"
  by (simp add: ids_suffice_def)

lemma ids_suffice_Cons:
  assumes "ids_suffice ((now, m) # tms) g"
  shows "\<exists>i g'. generate_id (word_of_int now) g = (Ok i, g') \<and> ids_suffice tms g'"
proof -
  let ?c = "word_of_int now - gen_epoch g" and ?q = "gen_last_seq g"
  have c: "?c < 2 ^ 41" and q: "uint ?q + 1 < 4096" using assms by (auto simp: ids_suffice_def)
  have nonneg: "0 \<le> uint ?q" by simp
  have "uint ?q + (int (length tms) + 1) < 4096" using assms by (simp add: ids_suffice_def)
  with nonneg have len: "\<not> 4096 \<le> length tms" by linarith
  from q have "uint (?q + 1) = uint ?q + 1"
    by (simp add: uint_word_ariths)
  moreover from this q have "?q + 1 < 2 ^ 12" by (simp add: word_less_def)
  ultimately show ?thesis
    using assms c len by (auto simp: generate_id_def Let_def ids_suffice_def not_le[symmetric])
qed

text \<open>A set of messages that can be told apart by user, time and hash, which holds when no two messages
  have the same hash.\<close>

definition distinguishable :: "(Message \<Rightarrow> bool) \<Rightarrow> proto_codec \<Rightarrow> Message set \<Rightarrow> bool" where
  "distinguishable ok C U \<longleftrightarrow>
     (\<forall>m\<in>U. ok m \<and> native_storable C m) \<and>
     (\<forall>m\<in>U. \<forall>m'\<in>U. msg_fid32 m = msg_fid32 m' \<longrightarrow> msg_tshash m = msg_tshash m' \<longrightarrow> m = m')"

text \<open>A database in which the user keys with these postfixes are unused.\<close>

definition unused :: "byte list \<Rightarrow> store \<Rightarrow> bool" where
  "unused ps s \<longleftrightarrow> db_inv s \<and> list_all (\<lambda>(k, v). \<not> (user_key k \<and> 5 < length k \<and> k ! 5 \<in> set ps)) s"

lemma unused_get: "unused ps s \<Longrightarrow> p \<in> set ps \<Longrightarrow> db_get s (native_user_key fid @ p # k) = None"
proof (rule ccontr)
  assume u: "unused ps s" "p \<in> set ps" and "db_get s (native_user_key fid @ p # k) \<noteq> None"
  then obtain v where "(native_user_key fid @ p # k, v) \<in> set s" by (auto simp: db_get_def dest: map_of_SomeD)
  moreover have "(native_user_key fid @ p # k) ! 5 = p" "5 < length (native_user_key fid @ p # k)"
    by (simp_all add: native_user_key_def nth_append del: be_bytes.simps)
  ultimately show False using u by (force simp: unused_def list_all_iff)
qed

section \<open>The interface of a store with adds and removes\<close>

locale two_phase_store =
  fixes S :: store_def
    and adds removes :: byte
    and subject :: "Message \<Rightarrow> bytes"
    and well_formed :: "Message \<Rightarrow> bool"
    and rank :: "int \<Rightarrow> bytes \<Rightarrow> bytes"
  assumes no_compact: "sd_compact_type S = 0" "\<not> sd_is_compact S m"
    and defaults: "sd_conflicts S = None" "sd_merge_event S = None"
    and remove_type: "sd_remove_type S \<noteq> 0" "sd_add_type S \<noteq> sd_remove_type S"
    and postfixes: "adds \<noteq> removes" "adds \<noteq> sd_postfix S" "removes \<noteq> sd_postfix S"
    and well_formed_data: "well_formed m \<Longrightarrow>
      \<exists>d h p. msg_data m = Some d \<and> msg_hash m = Some h \<and> length h = 20 \<and>
              (md_type d = sd_add_type S \<or> md_type d = sd_remove_type S) \<and>
              type_to_set_postfix (md_type d) = Ok p \<and> postfix_byte p = sd_postfix S"
    and is_add: "well_formed m \<Longrightarrow> sd_is_add S m \<longleftrightarrow> msg_type m = sd_add_type S"
    and is_remove: "well_formed m \<Longrightarrow> sd_is_remove S m \<longleftrightarrow> msg_type m = sd_remove_type S"
    and add_key: "well_formed m \<Longrightarrow> sd_add_key S m = Ok (native_user_key (msg_fid32 m) @ adds # subject m)"
    and remove_key: "well_formed m \<Longrightarrow> sd_remove_key S m = Ok (native_user_key (msg_fid32 m) @ removes # subject m)"
    and build_secondary: "well_formed m \<Longrightarrow> msg_type m = sd_add_type S \<Longrightarrow>
      \<exists>ops. sd_build_secondary S (msg_tshash m) m = Ok ops \<and> (\<forall>op \<in> set ops. \<not> user_key (fst op))"
    and delete_secondary: "well_formed m \<Longrightarrow> msg_type m = sd_add_type S \<Longrightarrow>
      \<exists>ops. sd_delete_secondary S (msg_tshash m) m = Ok ops \<and> (\<forall>op \<in> set ops. \<not> user_key (fst op))"
    and delete_remove_secondary: "well_formed m \<Longrightarrow>
      \<exists>ops. sd_delete_remove_secondary S m = Ok ops \<and> (\<forall>op \<in> set ops. \<not> user_key (fst op))"
    and compare: "t \<in> {sd_add_type S, sd_remove_type S} \<Longrightarrow> t' \<in> {sd_add_type S, sd_remove_type S} \<Longrightarrow>
      length h = 24 \<Longrightarrow> length h' = 24 \<Longrightarrow> sd_compare S t h t' h' = bytesCompare (rank t h) (rank t' h')"
    and rank_hash: "length h = 24 \<Longrightarrow> length h' = 24 \<Longrightarrow> rank t h = rank t' h' \<Longrightarrow> h = h'"
begin

definition primary :: "Message \<Rightarrow> bytes" where
  "primary m = native_user_key (msg_fid32 m) @ sd_postfix S # msg_tshash m"

definition add_index :: "Message \<Rightarrow> bytes" where
  "add_index m = native_user_key (msg_fid32 m) @ adds # subject m"

definition remove_index :: "Message \<Rightarrow> bytes" where
  "remove_index m = native_user_key (msg_fid32 m) @ removes # subject m"

definition is_an_add :: "Message \<Rightarrow> bool" where
  "is_an_add m \<longleftrightarrow> msg_type m = sd_add_type S"

definition own_index :: "Message \<Rightarrow> bytes" where
  "own_index m = (if is_an_add m then add_index m else remove_index m)"

definition slot :: "Message \<Rightarrow> int \<times> bytes" where
  "slot m = (msg_fid32 m, subject m)"

definition mrank :: "Message \<Rightarrow> bytes" where
  "mrank m = rank (msg_type m) (msg_tshash m)"

abbreviation universe :: "proto_codec \<Rightarrow> Message set \<Rightarrow> bool" where
  "universe \<equiv> distinguishable well_formed"

text \<open>The abstract state: for each subject of a user the message that won.\<close>

definition represents :: "proto_codec \<Rightarrow> Message set \<Rightarrow> store \<Rightarrow> (int \<times> bytes \<Rightarrow> Message option) \<Rightarrow> bool" where
  "represents C U s A \<longleftrightarrow>
     db_inv s \<and> (\<forall>x w. A x = Some w \<longrightarrow> w \<in> U \<and> slot w = x) \<and>
     (\<forall>m\<in>U.
        db_get s (primary m) = (if A (slot m) = Some m then Some (native_encode C m) else None) \<and>
        db_get s (add_index m) =
          (case A (slot m) of Some w \<Rightarrow> if is_an_add w then Some (msg_tshash w) else None | None \<Rightarrow> None) \<and>
        db_get s (remove_index m) =
          (case A (slot m) of Some w \<Rightarrow> if is_an_add w then None else Some (msg_tshash w) | None \<Rightarrow> None))"

definition abs_merge :: "Message \<Rightarrow> (int \<times> bytes \<Rightarrow> Message option) \<Rightarrow> int \<times> bytes \<Rightarrow> Message option" where
  "abs_merge m A =
     (case A (slot m) of
        Some w \<Rightarrow> if mrank w < mrank m then A(slot m \<mapsto> m) else A
      | None \<Rightarrow> A(slot m \<mapsto> m))"

section \<open>A merge refines the abstract merge\<close>

lemma well_formed_facts:
  assumes "well_formed m"
  shows "\<exists>d. msg_data m = Some d \<and> native_data m = Ok d \<and> fid32 d = msg_fid32 m \<and> md_type d = msg_type m"
    and "message_ts_hash m = Ok (msg_tshash m)" "length (msg_tshash m) = 24"
    and "message_primary_key m = Ok (primary m)"
    and "msg_type m \<in> {sd_add_type S, sd_remove_type S}"
  using well_formed_data[OF assms]
  by (auto simp: native_data_def message_ts_hash_def native_make_ts_hash_def msg_tshash_def msg_fid32_def
      msg_type_def message_primary_key_def native_primary_key_def primary_def simp del: be_bytes.simps)

lemma universeD: "universe C U \<Longrightarrow> m \<in> U \<Longrightarrow> well_formed m \<and> native_decode C (native_encode C m) = Ok m"
  by (simp add: distinguishable_def native_storable_def)

lemma same_slot_fid: "slot a = slot b \<Longrightarrow> msg_fid32 a = msg_fid32 b \<and> subject a = subject b"
  by (simp add: slot_def)

lemma representsD:
  assumes "represents C U s A" "A (slot m) = Some w"
  shows "w \<in> U" "slot w = slot m" "A (slot w) = Some w" "msg_fid32 w = msg_fid32 m"
    "db_get s (primary w) = Some (native_encode C w)"
proof -
  have *: "w \<in> U \<and> slot w = slot m" using assms unfolding represents_def by blast
  with assms(2) show "w \<in> U" "slot w = slot m" "A (slot w) = Some w" "msg_fid32 w = msg_fid32 m"
    using same_slot_fid[of w m] by simp_all
  with * assms show "db_get s (primary w) = Some (native_encode C w)" by (simp add: represents_def)
qed

lemma index_conflict_winner:
  assumes u: "universe C U" "m \<in> U" "represents C U s A" "A (slot m) = Some w"
    and key: "db_get s key = Some (msg_tshash w)" and d: "msg_data m = Some d"
  shows "index_conflict S C s (msg_type w) what key d (msg_tshash m) =
           (if mrank w < mrank m then Ok [w]
            else if mrank w = mrank m then fail Duplicate ''message has already been merged''
            else fail Conflict (''message conflicts with a more recent '' @ what))"
proof -
  note w = representsD[OF u(3,4)]
  have wf: "well_formed w" "native_decode C (native_encode C w) = Ok w" "well_formed m"
    using universeD[OF u(1)] w(1) u(2) by auto
  have dm: "md_type d = msg_type m" "fid32 d = msg_fid32 w"
    using d w(4) by (simp_all add: msg_type_def msg_fid32_def)
  have c: "sd_compare S (msg_type w) (msg_tshash w) (md_type d) (msg_tshash m) = bytesCompare (mrank w) (mrank m)"
    using well_formed_facts(3,5)[OF wf(1)] well_formed_facts(3,5)[OF wf(3)] unfolding dm mrank_def
    by (intro compare) auto
  have g: "native_get_message C s (fid32 d) (sd_postfix S) (msg_tshash w) = Ok (Some w)"
    using w(5) wf(2) by (simp add: native_get_message_def native_get_def native_primary_key_def dm primary_def)
  show ?thesis
    using key c g well_formed_facts(3)[OF wf(1)]
    by (auto simp: index_conflict_def native_get_def vec_to_u8_24_def Let_def)
qed

lemma index_conflict_none: "db_get s key = None \<Longrightarrow> index_conflict S C s t what key d h = Ok []"
  by (simp add: index_conflict_def native_get_def)

text \<open>The conflicts of a message: none, the loser, or the reason why the message itself loses.\<close>

lemma merge_conflicts:
  assumes u: "universe C U" "m \<in> U" "represents C U s A"
  shows "get_default_merge_conflicts S C s m (msg_tshash m) =
    (case A (slot m) of
       None \<Rightarrow> Ok []
     | Some w \<Rightarrow>
         if mrank w < mrank m then Ok [w]
         else if mrank w = mrank m then fail Duplicate ''message has already been merged''
         else fail Conflict (''message conflicts with a more recent '' @ (if is_an_add w then ''add'' else ''remove'')))"
proof -
  have wf: "well_formed m" using universeD[OF u(1,2)] by simp
  obtain d where d: "msg_data m = Some d" "native_data m = Ok d" using well_formed_facts(1)[OF wf] by auto
  have keys: "sd_add_key S m = Ok (add_index m)" "sd_remove_key S m = Ok (remove_index m)"
    using add_key[OF wf] remove_key[OF wf] by (simp_all add: add_index_def remove_index_def)
  have expand: "get_default_merge_conflicts S C s m (msg_tshash m) =
     andThen (index_conflict S C s (sd_remove_type S) ''remove'' (remove_index m) d (msg_tshash m)) (\<lambda>removes.
       mapOk (index_conflict S C s (sd_add_type S) ''add'' (add_index m) d (msg_tshash m)) (\<lambda>adds. removes @ adds))"
    using remove_type by (simp add: get_default_merge_conflicts_def d keys remove_type_supported_def)
  show ?thesis
  proof (cases "A (slot m)")
    case None
    with u(2,3) have "db_get s (add_index m) = None" "db_get s (remove_index m) = None"
      by (simp_all add: represents_def)
    with None show ?thesis by (simp add: expand index_conflict_none)
  next
    case (Some w)
    note w = representsD[OF u(3) Some]
    have "msg_type w \<in> {sd_add_type S, sd_remove_type S}"
      using universeD[OF u(1)] w(1) well_formed_facts(5) by blast
    then have t: "msg_type w = (if is_an_add w then sd_add_type S else sd_remove_type S)"
      by (auto simp: is_an_add_def)
    show ?thesis
    proof (cases "is_an_add w")
      case True
      with u(2,3) Some have "db_get s (add_index m) = Some (msg_tshash w)" "db_get s (remove_index m) = None"
        by (simp_all add: represents_def)
      with index_conflict_winner[OF u Some _ d(1), of "add_index m" "''add''"] t True show ?thesis
        by (simp add: expand index_conflict_none Some)
    next
      case False
      with u(2,3) Some have "db_get s (remove_index m) = Some (msg_tshash w)" "db_get s (add_index m) = None"
        by (simp_all add: represents_def)
      with index_conflict_winner[OF u Some _ d(1), of "remove_index m" "''remove''"] t False show ?thesis
        by (simp add: expand index_conflict_none Some)
    qed
  qed
qed

definition put_ops :: "proto_codec \<Rightarrow> Message \<Rightarrow> transaction outcome" where
  "put_ops C m =
     (if is_an_add m then put_add_transaction S C (msg_tshash m) m
      else put_remove_transaction S C (msg_tshash m) m)"

lemma is_remove_iff: "well_formed m \<Longrightarrow> sd_is_remove S m \<longleftrightarrow> \<not> is_an_add m"
  using is_remove well_formed_facts(5) remove_type by (force simp: is_an_add_def)

lemma filter_no_user: "\<forall>op \<in> set ops. \<not> user_key (fst op) \<Longrightarrow> filter (\<lambda>op. user_key (fst op)) ops = []"
  by simp

lemma user_keys [simp]: "user_key (primary m)" "user_key (add_index m)" "user_key (remove_index m)"
  by (simp_all add: primary_def add_index_def remove_index_def)

lemma put_ops_effect:
  assumes wf: "well_formed m"
  shows "\<exists>ops. put_ops C m = Ok ops \<and>
           filter (\<lambda>op. user_key (fst op)) ops =
             [(primary m, Some (native_encode C m)), (own_index m, Some (msg_tshash m))]"
proof (cases "is_an_add m")
  case True
  then obtain ops where "sd_build_secondary S (msg_tshash m) m = Ok ops" "\<forall>op \<in> set ops. \<not> user_key (fst op)"
    using build_secondary[OF wf] by (auto simp: is_an_add_def)
  with True show ?thesis
    using add_key[OF wf] well_formed_facts(4)[OF wf]
    by (simp add: put_ops_def put_add_transaction_def appendTxn_def put_message_transaction_def own_index_def
        add_index_def[symmetric])
next
  case False
  then show ?thesis
    using remove_key[OF wf] well_formed_facts(4)[OF wf] remove_type
    by (simp add: put_ops_def put_remove_transaction_def appendTxn_def put_message_transaction_def own_index_def
        remove_index_def[symmetric] remove_type_supported_def)
qed

lemma delete_ops_effect:
  assumes wf: "well_formed w"
  shows "\<exists>ops. delete_many_transaction S [w] = Ok ops \<and>
           filter (\<lambda>op. user_key (fst op)) ops = [(own_index w, None), (primary w, None)]"
proof (cases "is_an_add w")
  case True
  then obtain ops where "sd_delete_secondary S (msg_tshash w) w = Ok ops" "\<forall>op \<in> set ops. \<not> user_key (fst op)"
    using delete_secondary[OF wf] by (auto simp: is_an_add_def)
  with True show ?thesis
    using add_key[OF wf] well_formed_facts(2,4)[OF wf] is_add[OF wf] is_remove_iff[OF wf] no_compact(2)
    by (simp add: delete_one_transaction_def delete_add_transaction_def appendTxn_def
        delete_message_transaction_def own_index_def add_index_def[symmetric] is_an_add_def)
next
  case False
  obtain ops where "sd_delete_remove_secondary S w = Ok ops" "\<forall>op \<in> set ops. \<not> user_key (fst op)"
    using delete_remove_secondary[OF wf] by auto
  with False show ?thesis
    using remove_key[OF wf] well_formed_facts(2,4)[OF wf] is_add[OF wf] is_remove_iff[OF wf] no_compact(2) remove_type
    by (simp add: delete_one_transaction_def delete_remove_transaction_def appendTxn_def
        delete_message_transaction_def own_index_def remove_index_def[symmetric] is_an_add_def remove_type_supported_def)
qed

lemma native_merge_eq:
  assumes wf: "well_formed m" and "rdb_native_open db"
  shows "native_merge S C D now m (db, g) =
    (case get_default_merge_conflicts S C (rdb_disk db) m (msg_tshash m) of
       Err e \<Rightarrow> (Err e, db, g)
     | Throw t \<Rightarrow> (Throw t, db, g)
     | Ok cs \<Rightarrow>
         commit_with_event D now (appendTxn (delete_many_transaction S cs) (put_ops C m))
           (merge_event_for S m cs) (db, g))"
proof -
  have "\<not> compact_state_type_supported S" "remove_type_supported S"
    using no_compact remove_type by (simp_all add: compact_state_type_supported_def remove_type_supported_def)
  then show ?thesis
    using assms well_formed_facts(1,2)[OF wf] is_add[OF wf] is_remove_iff[OF wf] no_compact(2)
    by (cases "is_an_add m")
      (auto simp: native_merge_def merge_add_def merge_remove_def put_ops_def is_an_add_def Let_def
        get_merge_conflicts_def defaults
        split: outcome.split)
qed

lemma key_clashes [simp]:
  "primary a \<noteq> add_index b" "primary a \<noteq> remove_index b" "add_index a \<noteq> remove_index b"
  "add_index b \<noteq> primary a" "remove_index b \<noteq> primary a" "remove_index b \<noteq> add_index a"
  "add_index a = add_index b \<longleftrightarrow> slot a = slot b" "remove_index a = remove_index b \<longleftrightarrow> slot a = slot b"
  using postfixes by (auto simp: primary_def add_index_def remove_index_def slot_def)

lemma primary_inject: "universe C U \<Longrightarrow> a \<in> U \<Longrightarrow> b \<in> U \<Longrightarrow> primary a = primary b \<longleftrightarrow> a = b"
  by (auto simp: primary_def distinguishable_def)

text \<open>What the keys hold once the loser, if there is one, is deleted and the message is put.\<close>

definition after_merge :: "proto_codec \<Rightarrow> Message option \<Rightarrow> Message \<Rightarrow> store \<Rightarrow> bytes \<Rightarrow> bytes option" where
  "after_merge C old m s k =
     (if k = own_index m then Some (msg_tshash m)
      else if k = primary m then Some (native_encode C m)
      else if \<exists>w. old = Some w \<and> (k = primary w \<or> k = own_index w) then None
      else db_get s k)"

lemma merge_commit:
  assumes "well_formed m" "\<And>w. old = Some w \<Longrightarrow> well_formed w" "db_inv (rdb_disk db)"
    and c: "commit_with_event D now (appendTxn (delete_many_transaction S (case old of Some w \<Rightarrow> [w] | None \<Rightarrow> [])) (put_ops C m))
             args (db, g) = (Ok ev, st')"
  shows "db_inv (rdb_disk (fst st'))"
    and "user_key k \<Longrightarrow> db_get (rdb_disk (fst st')) k = after_merge C old m (rdb_disk db) k"
    and "rdb_native_open (fst st') = rdb_native_open db"
proof -
  obtain p where p: "put_ops C m = Ok p"
      "filter (\<lambda>op. user_key (fst op)) p = [(primary m, Some (native_encode C m)), (own_index m, Some (msg_tshash m))]"
    using put_ops_effect[OF assms(1)] by blast
  obtain d where d: "delete_many_transaction S (case old of Some w \<Rightarrow> [w] | None \<Rightarrow> []) = Ok d"
      "filter (\<lambda>op. user_key (fst op)) d =
         (case old of Some w \<Rightarrow> [(own_index w, None), (primary w, None)] | None \<Rightarrow> [])"
    using delete_ops_effect assms(2) by (cases old) (auto simp del: delete_many_transaction.simps(2))
  obtain i where st: "fst st' = db\<lparr>rdb_disk := commit_batch (native_batch ((d @ p) @ [(root_byte HubEvents # be_bytes 8 i,
      Some (encodeHubEvent D ev))])) (rdb_disk db)\<rparr>"
    using commit_with_event_Ok[OF c] by (auto simp: d p appendTxn_def simp del: append_assoc)
  show "db_inv (rdb_disk (fst st'))" "rdb_native_open (fst st') = rdb_native_open db"
    by (simp_all add: st commit_inv assms(3))
  assume k: "user_key k"
  show "db_get (rdb_disk (fst st')) k = after_merge C old m (rdb_disk db) k"
    unfolding st using user_commit_get[OF assms(3) k, of "d @ p"]
    by (cases old) (auto simp: p(2) d(2) after_merge_def)
qed

lemma represents_after:
  assumes u: "universe C U" "m \<in> U" "represents C U s A"
    and s': "db_inv s'" "\<And>k. user_key k \<Longrightarrow> db_get s' k = after_merge C (A (slot m)) m s k"
  shows "represents C U s' (A(slot m \<mapsto> m))"
proof -
  have old: "w \<in> U" "slot w = slot m" if "A (slot m) = Some w" for w
    using representsD[OF u(3) that] by simp_all
  have "db_get s' (primary x) = (if (A(slot m \<mapsto> m)) (slot x) = Some x then Some (native_encode C x) else None)"
    if x: "x \<in> U" for x
  proof -
    have *: "db_get s (primary x) = (if A (slot x) = Some x then Some (native_encode C x) else None)"
      using u(3) x by (simp add: represents_def)
    show ?thesis
    proof (cases "A (slot m)")
      case None
      with * show ?thesis
        using primary_inject[OF u(1) x u(2)]
        by (cases "slot x = slot m") (auto simp: s'(2) after_merge_def own_index_def)
    next
      case (Some w)
      have "slot w = slot m" "primary x = primary w \<longleftrightarrow> x = w"
        using old[OF Some] primary_inject[OF u(1) x, of w] by simp_all
      with * Some show ?thesis
        using primary_inject[OF u(1) x u(2)]
        by (cases "slot x = slot m") (auto simp: s'(2) after_merge_def own_index_def)
    qed
  qed
  moreover have "db_get s' (add_index x) =
      (case (A(slot m \<mapsto> m)) (slot x) of Some w \<Rightarrow> if is_an_add w then Some (msg_tshash w) else None | None \<Rightarrow> None)"
    if x: "x \<in> U" for x
  proof -
    have *: "db_get s (add_index x) =
      (case A (slot x) of Some w \<Rightarrow> if is_an_add w then Some (msg_tshash w) else None | None \<Rightarrow> None)"
      using u(3) x by (simp add: represents_def)
    show ?thesis
    proof (cases "A (slot m)")
      case None
      with * show ?thesis
        by (cases "slot x = slot m") (simp_all add: s'(2) after_merge_def own_index_def)
    next
      case (Some w)
      with * old[OF Some] show ?thesis
        by (cases "slot x = slot m") (simp_all add: s'(2) after_merge_def own_index_def)
    qed
  qed
  moreover have "db_get s' (remove_index x) =
      (case (A(slot m \<mapsto> m)) (slot x) of Some w \<Rightarrow> if is_an_add w then None else Some (msg_tshash w) | None \<Rightarrow> None)"
    if x: "x \<in> U" for x
  proof -
    have *: "db_get s (remove_index x) =
      (case A (slot x) of Some w \<Rightarrow> if is_an_add w then None else Some (msg_tshash w) | None \<Rightarrow> None)"
      using u(3) x by (simp add: represents_def)
    show ?thesis
    proof (cases "A (slot m)")
      case None
      with * show ?thesis
        by (cases "slot x = slot m") (simp_all add: s'(2) after_merge_def own_index_def)
    next
      case (Some w)
      with * old[OF Some] show ?thesis
        by (cases "slot x = slot m") (simp_all add: s'(2) after_merge_def own_index_def)
    qed
  qed
  moreover have "w \<in> U \<and> slot w = x" if "(A(slot m \<mapsto> m)) x = Some w" for x w
  proof (cases "x = slot m")
    case True
    with that u(2) show ?thesis by simp
  next
    case False
    with that have "A x = Some w" by simp
    then show ?thesis using u(3) unfolding represents_def by blast
  qed
  ultimately show ?thesis using s'(1) unfolding represents_def by blast
qed

text \<open>One merge: it fails and changes nothing when a message of at least its rank is stored; otherwise it
  is the abstract merge, its event tells the loser, or it fails for want of an event id.\<close>

lemma merge_loses:
  assumes "universe C U" "m \<in> U" "represents C U (rdb_disk db) A" "rdb_native_open db"
    and "A (slot m) = Some w" "mrank m \<le> mrank w"
  shows "native_merge S C D now m (db, g) =
           (if mrank m = mrank w then fail Duplicate ''message has already been merged''
            else fail Conflict (''message conflicts with a more recent '' @ (if is_an_add w then ''add'' else ''remove'')),
            db, g)"
  using assms universeD[OF assms(1,2)] merge_conflicts[OF assms(1-3)]
  by (auto simp: native_merge_eq fail_def)

lemma merge_wins:
  assumes u: "universe C U" "m \<in> U" "represents C U (rdb_disk db) A" and o: "rdb_native_open db"
    and wins: "\<And>w. A (slot m) = Some w \<Longrightarrow> mrank w < mrank m"
    and r: "native_merge S C D now m (db, g) = (r, st')"
  shows "\<And>ev. r = Ok ev \<Longrightarrow> represents C U (rdb_disk (fst st')) (A(slot m \<mapsto> m)) \<and>
             he_mergeMessageBody ev = Some \<lparr>mmb_message = Some m,
               mmb_deletedMessages = (case A (slot m) of Some w \<Rightarrow> [w] | None \<Rightarrow> [])\<rparr>"
    and "(\<And>ev. r \<noteq> Ok ev) \<Longrightarrow> fst st' = db"
    and "rdb_native_open (fst st')"
proof -
  let ?old = "case A (slot m) of Some w \<Rightarrow> [w] | None \<Rightarrow> []"
  have wf: "well_formed m" using universeD[OF u(1,2)] by simp
  have "get_default_merge_conflicts S C (rdb_disk db) m (msg_tshash m) = Ok ?old"
    using merge_conflicts[OF u] wins by (auto split: option.split)
  then have c: "commit_with_event D now (appendTxn (delete_many_transaction S ?old) (put_ops C m))
      (merge_event_for S m ?old) (db, g) = (r, st')"
    using r native_merge_eq[OF wf o] by simp
  have old: "well_formed w" if "A (slot m) = Some w" for w
    using representsD(1)[OF u(3) that] universeD[OF u(1)] by simp
  have inv: "db_inv (rdb_disk db)" using u(3) by (simp add: represents_def)
  obtain d where "msg_data m = Some d" "md_type d = msg_type m"
    using well_formed_facts(1)[OF wf] by auto
  moreover have "msg_type m \<noteq> 0"
    using well_formed_data[OF wf] by (auto simp: msg_type_def type_to_set_postfix_def)
  ultimately have body: "he_mergeMessageBody (merge_event_for S m ?old) =
      Some \<lparr>mmb_message = Some m, mmb_deletedMessages = ?old\<rparr>"
    using no_compact(1) by (simp add: merge_event_for_def defaults)
  show "represents C U (rdb_disk (fst st')) (A(slot m \<mapsto> m)) \<and>
        he_mergeMessageBody ev = Some \<lparr>mmb_message = Some m, mmb_deletedMessages = ?old\<rparr>" if "r = Ok ev" for ev
  proof
    note c' = c[unfolded that]
    show "represents C U (rdb_disk (fst st')) (A(slot m \<mapsto> m))"
      using merge_commit(1,2)[OF wf old inv c'] by (intro represents_after[OF u]) auto
    show "he_mergeMessageBody ev = Some \<lparr>mmb_message = Some m, mmb_deletedMessages = ?old\<rparr>"
      using commit_with_event_Ok[OF c'] body by auto
  qed
  show "fst st' = db" if "\<And>ev. r \<noteq> Ok ev"
    using commit_with_event_not_Ok[OF c that] .
  show "rdb_native_open (fst st')"
  proof (cases "\<exists>ev. r = Ok ev")
    case True
    then show ?thesis using merge_commit(3)[OF wf old inv] c o by blast
  next
    case False
    then show ?thesis using commit_with_event_not_Ok[OF c] o by blast
  qed
qed

text \<open>A merge that wins never reports a conflict or a duplicate: the only failures left are those of the
  event id generator.\<close>

lemma no_conflict_error:
  assumes u: "universe C U" "m \<in> U" "represents C U (rdb_disk db) A" and o: "rdb_native_open db"
    and wins: "\<And>w. A (slot m) = Some w \<Longrightarrow> mrank w < mrank m"
    and r: "native_merge S C D now m (db, g) = (Err e, st')"
  shows "errCode e = InvalidParam"
proof -
  let ?old = "case A (slot m) of Some w \<Rightarrow> [w] | None \<Rightarrow> []"
  have wf: "well_formed m" using universeD[OF u(1,2)] by simp
  have "get_default_merge_conflicts S C (rdb_disk db) m (msg_tshash m) = Ok ?old"
    using merge_conflicts[OF u] wins by (auto split: option.split)
  then have c: "commit_with_event D now (appendTxn (delete_many_transaction S ?old) (put_ops C m))
      (merge_event_for S m ?old) (db, g) = (Err e, st')"
    using r native_merge_eq[OF wf o] by simp
  obtain p where p: "put_ops C m = Ok p" using put_ops_effect[OF wf] by blast
  have old: "well_formed w" if "A (slot m) = Some w" for w
    using representsD(1)[OF u(3) that] universeD[OF u(1)] by simp
  obtain d where d: "delete_many_transaction S ?old = Ok d"
  proof (cases "A (slot m)")
    case None
    with that show ?thesis by simp
  next
    case (Some w)
    with that delete_ops_effect[OF old[OF Some]] show ?thesis by auto
  qed
  show ?thesis
    using c by (auto simp: p d appendTxn_def commit_with_event_def native_commit_transaction_def generate_id_def
        Let_def fail_def split: outcome.splits prod.splits if_splits)
qed

section \<open>Merging lists of messages\<close>

lemma run_refines:
  assumes u: "universe C U"
  shows "snd ` set tms \<subseteq> U \<Longrightarrow> represents C U (rdb_disk (fst st)) A \<Longrightarrow> rdb_native_open (fst st) \<Longrightarrow>
         native_merge_many S C D tms st = (rs, st') \<Longrightarrow> (\<And>r. r \<in> set rs \<Longrightarrow> settled_result r) \<Longrightarrow>
         represents C U (rdb_disk (fst st')) (fold abs_merge (map snd tms) A)"
proof (induction tms arbitrary: st A rs)
  case Nil
  then show ?case by simp
next
  case (Cons tm tms)
  obtain now m where tm: "tm = (now, m)" by (cases tm)
  obtain db g where st: "st = (db, g)" by (cases st)
  obtain r st1 where r: "native_merge S C D now m (db, g) = (r, st1)" by (cases "native_merge S C D now m (db, g)")
  obtain rs1 where rs: "native_merge_many S C D tms st1 = (rs1, st')" "rs = r # rs1"
    using Cons.prems(4) r by (auto simp: tm st split: prod.splits)
  have m: "m \<in> U" and db: "represents C U (rdb_disk db) A" "rdb_native_open db"
    using Cons.prems(1-3) by (simp_all add: tm st)
  have settled: "settled_result r" "\<And>r. r \<in> set rs1 \<Longrightarrow> settled_result r"
    using Cons.prems(5) rs(2) by auto
  have "represents C U (rdb_disk (fst st1)) (abs_merge m A) \<and> rdb_native_open (fst st1)"
  proof (cases "\<exists>w. A (slot m) = Some w \<and> mrank m \<le> mrank w")
    case True
    then obtain w where w: "A (slot m) = Some w" "mrank m \<le> mrank w" by blast
    then have "fst st1 = db" "abs_merge m A = A"
      using merge_loses[OF u m db w, of D now g] r by (auto simp: abs_merge_def)
    with db show ?thesis by simp
  next
    case False
    then have wins: "mrank w < mrank m" if "A (slot m) = Some w" for w using that by (auto simp: not_le)
    have am: "abs_merge m A = A(slot m \<mapsto> m)"
      using wins by (auto simp: abs_merge_def split: option.split)
    note w = merge_wins[OF u m db wins r]
    have "\<exists>ev. r = Ok ev"
    proof (rule ccontr)
      assume "\<not> ?thesis"
      then obtain e where e: "r = Err e" "errCode e \<in> {Conflict, Duplicate}"
        using settled(1) by (cases r) (auto simp: settled_result_def)
      then show False using no_conflict_error[OF u m db wins r[unfolded e(1)]] by simp
    qed
    with w am show ?thesis by auto
  qed
  then show ?case
    using Cons.IH[OF _ _ _ rs(1) settled(2), of "abs_merge m A"] Cons.prems(1) by (simp add: tm)
qed

text \<open>The abstract merge keeps the maxima of what was merged.\<close>

definition winners_of :: "Message set \<Rightarrow> (int \<times> bytes \<Rightarrow> Message option) \<Rightarrow> bool" where
  "winners_of M A \<longleftrightarrow>
     (\<forall>x. case A x of
            None \<Rightarrow> \<forall>m\<in>M. slot m \<noteq> x
          | Some w \<Rightarrow> w \<in> M \<and> slot w = x \<and> (\<forall>m\<in>M. slot m = x \<longrightarrow> mrank m \<le> mrank w))"

lemma winners_of_step:
  assumes "winners_of M A"
  shows "winners_of (insert m M) (abs_merge m A)"
  unfolding winners_of_def
proof
  fix x
  have x: "case A x of None \<Rightarrow> \<forall>m\<in>M. slot m \<noteq> x
           | Some w \<Rightarrow> w \<in> M \<and> slot w = x \<and> (\<forall>m\<in>M. slot m = x \<longrightarrow> mrank m \<le> mrank w)"
    using assms unfolding winners_of_def by blast
  show "case abs_merge m A x of None \<Rightarrow> \<forall>m'\<in>insert m M. slot m' \<noteq> x
        | Some w \<Rightarrow> w \<in> insert m M \<and> slot w = x \<and> (\<forall>m'\<in>insert m M. slot m' = x \<longrightarrow> mrank m' \<le> mrank w)"
  proof (cases "slot m = x")
    case False
    then have "abs_merge m A x = A x" by (auto simp: abs_merge_def split: option.split)
    with x False show ?thesis by (auto split: option.splits)
  next
    case True
    show ?thesis
    proof (cases "A x")
      case None
      with x True show ?thesis by (auto simp: abs_merge_def)
    next
      case (Some w)
      with x True have "w \<in> M" "slot w = x" "\<forall>m\<in>M. slot m = x \<longrightarrow> mrank m \<le> mrank w" by auto
      with Some True show ?thesis by (auto simp: abs_merge_def not_less intro: order_trans less_imp_le)
    qed
  qed
qed

lemma winners_of_run: "winners_of M A \<Longrightarrow> winners_of (M \<union> set ms) (fold abs_merge ms A)"
proof (induction ms arbitrary: M A)
  case Nil
  then show ?case by simp
next
  case (Cons m ms)
  from Cons.IH[OF winners_of_step[OF Cons.prems]] show ?case by simp
qed

lemma winners_of_empty: "winners_of {} Map.empty"
  by (simp add: winners_of_def)

lemma equal_rank:
  assumes "universe C U" "a \<in> U" "b \<in> U" "slot a = slot b" "mrank a = mrank b"
  shows "a = b"
proof -
  have "length (msg_tshash a) = 24" "length (msg_tshash b) = 24"
    using assms(2,3) universeD[OF assms(1)] well_formed_facts(3) by blast+
  with assms(5) have "msg_tshash a = msg_tshash b" unfolding mrank_def by (rule rank_hash[rotated 2])
  with assms(1-3) same_slot_fid[OF assms(4)] show ?thesis by (auto simp: distinguishable_def)
qed

lemma winners_of_unique:
  assumes u: "universe C U" "M \<subseteq> U" and A: "winners_of M A" and B: "winners_of M B"
  shows "A = B"
proof
  fix x
  have a: "case A x of None \<Rightarrow> \<forall>m\<in>M. slot m \<noteq> x
           | Some w \<Rightarrow> w \<in> M \<and> slot w = x \<and> (\<forall>m\<in>M. slot m = x \<longrightarrow> mrank m \<le> mrank w)"
    using A unfolding winners_of_def by blast
  have b: "case B x of None \<Rightarrow> \<forall>m\<in>M. slot m \<noteq> x
           | Some w \<Rightarrow> w \<in> M \<and> slot w = x \<and> (\<forall>m\<in>M. slot m = x \<longrightarrow> mrank m \<le> mrank w)"
    using B unfolding winners_of_def by blast
  show "A x = B x"
  proof (cases "A x")
    case None
    then show ?thesis using a b by (auto split: option.splits)
  next
    case (Some w)
    then obtain v where v: "B x = Some v" using a b by (auto split: option.splits)
    have "w \<in> M" "v \<in> M" "slot w = slot v" "mrank w = mrank v"
      using a b Some v by (auto intro: antisym)
    then show ?thesis using equal_rank[OF u(1)] u(2) Some v by auto
  qed
qed

section \<open>Convergence\<close>

text \<open>A database that holds the outcome of merging exactly the messages \<open>M\<close>.\<close>

definition holds :: "proto_codec \<Rightarrow> Message set \<Rightarrow> Message set \<Rightarrow> store \<Rightarrow> bool" where
  "holds C U M s \<longleftrightarrow> (\<exists>A. represents C U s A \<and> winners_of M A)"

lemma holds_empty:
  assumes "unused [sd_postfix S, adds, removes] s"
  shows "holds C U {} s"
  unfolding holds_def
  using assms unused_get[OF assms]
  by (intro exI[of _ Map.empty])
    (simp add: represents_def winners_of_empty primary_def add_index_def remove_index_def unused_def)

lemma holds_run:
  assumes "universe C U" "holds C U M (rdb_disk (fst st))" "rdb_native_open (fst st)"
    and "snd ` set tms \<subseteq> U" "native_merge_many S C D tms st = (rs, st')" "\<And>r. r \<in> set rs \<Longrightarrow> settled_result r"
  shows "holds C U (M \<union> snd ` set tms) (rdb_disk (fst st'))"
proof -
  obtain A where A: "represents C U (rdb_disk (fst st)) A" "winners_of M A"
    using assms(2) by (auto simp: holds_def)
  have "represents C U (rdb_disk (fst st')) (fold abs_merge (map snd tms) A)"
    using assms(6) by (rule run_refines[OF assms(1,4) A(1) assms(3,5)])
  moreover have "winners_of (M \<union> snd ` set tms) (fold abs_merge (map snd tms) A)"
    using winners_of_run[OF A(2), of "map snd tms"] by simp
  ultimately show ?thesis by (auto simp: holds_def)
qed

text \<open>What a hub answers about the subject of a message, from the winner.\<close>

lemma index_lookup_winner:
  assumes u: "universe C U" "q \<in> U" "represents C U s A" and d: "msg_data q = Some d"
    and key: "db_get s key = (if P then map_option msg_tshash (A (slot q)) else None)"
  shows "index_lookup S C s d key = Ok (if P then A (slot q) else None)"
proof (cases "P \<and> A (slot q) \<noteq> None")
  case True
  then obtain w where w: "A (slot q) = Some w" by auto
  note r = representsD[OF u(3) w]
  have wf: "well_formed w" "native_decode C (native_encode C w) = Ok w" using universeD[OF u(1) r(1)] by auto
  have f: "fid32 d = msg_fid32 w" using d r(4) by (simp add: msg_fid32_def)
  show ?thesis
    using True w key r(5) wf well_formed_facts(3)[OF wf(1)]
    by (simp add: index_lookup_def native_get_def vec_to_u8_24_def native_get_message_def f native_primary_key_def
        primary_def)
next
  case False
  then show ?thesis using key by (auto simp: index_lookup_def native_get_def)
qed

definition answer :: "bool \<Rightarrow> Message option \<Rightarrow> Message option" where
  "answer add w = (case w of Some m \<Rightarrow> if is_an_add m = add then Some m else None | None \<Rightarrow> None)"

lemma native_get_winner:
  assumes u: "universe C U" "q \<in> U" "represents C U s A" and fid: "\<And>d. msg_data q = Some d \<Longrightarrow> md_fid d \<noteq> numI 0"
  shows "native_get_add S C s q = Ok (answer True (A (slot q)))"
    and "native_get_remove S C s q = Ok (answer False (A (slot q)))"
proof -
  have wf: "well_formed q" using universeD[OF u(1,2)] by simp
  obtain d where d: "msg_data q = Some d" using well_formed_facts(1)[OF wf] by auto
  have partial: "fid_of_partial q = Ok d" using fid[OF d] by (simp add: fid_of_partial_def d)
  have rs: "remove_type_supported S" using remove_type by (simp add: remove_type_supported_def)
  have "db_get s (add_index q) =
      (if \<exists>w. A (slot q) = Some w \<and> is_an_add w then map_option msg_tshash (A (slot q)) else None)"
    using u(2,3) by (auto simp: represents_def split: option.split)
  from index_lookup_winner[OF u d this]
  show "native_get_add S C s q = Ok (answer True (A (slot q)))"
    by (auto simp: native_get_add_def partial add_key[OF wf] add_index_def[symmetric] answer_def split: option.split)
  have "db_get s (remove_index q) =
      (if \<exists>w. A (slot q) = Some w \<and> \<not> is_an_add w then map_option msg_tshash (A (slot q)) else None)"
    using u(2,3) by (auto simp: represents_def split: option.split)
  from index_lookup_winner[OF u d this]
  show "native_get_remove S C s q = Ok (answer False (A (slot q)))"
    by (auto simp: native_get_remove_def rs partial remove_key[OF wf] remove_index_def[symmetric] answer_def split: option.split)
qed

text \<open>Last write wins: the message of the highest rank about a subject is the one that is found.\<close>

lemma last_write_wins:
  assumes u: "universe C U" "M \<subseteq> U" "holds C U M s" and m: "m \<in> M"
    and max: "\<And>m'. m' \<in> M \<Longrightarrow> slot m' = slot m \<Longrightarrow> mrank m' \<le> mrank m"
    and fid: "\<And>d. msg_data m = Some d \<Longrightarrow> md_fid d \<noteq> numI 0"
  shows "native_get_add S C s m = Ok (if is_an_add m then Some m else None)"
    and "native_get_remove S C s m = Ok (if is_an_add m then None else Some m)"
proof -
  obtain A where A: "represents C U s A" "winners_of M A" using u(3) by (auto simp: holds_def)
  have "case A (slot m) of None \<Rightarrow> \<forall>m'\<in>M. slot m' \<noteq> slot m
        | Some w \<Rightarrow> w \<in> M \<and> slot w = slot m \<and> (\<forall>m'\<in>M. slot m' = slot m \<longrightarrow> mrank m' \<le> mrank w)"
    using A(2) unfolding winners_of_def by blast
  then obtain w where w: "A (slot m) = Some w" "w \<in> M" "slot w = slot m" "mrank m \<le> mrank w"
    using m by (auto split: option.splits)
  then have "w = m" using max[of w] equal_rank[OF u(1), of w m] u(2) m by auto
  moreover have mU: "m \<in> U" using u(2) m by blast
  ultimately show "native_get_add S C s m = Ok (if is_an_add m then Some m else None)"
      "native_get_remove S C s m = Ok (if is_an_add m then None else Some m)"
    using native_get_winner[OF u(1) mU A(1) fid] w(1) by (simp_all add: answer_def)
qed

text \<open>Databases that hold the same messages agree on every record and index entry of the store.\<close>

lemma same_messages_same_database:
  assumes u: "universe C U" "M \<subseteq> U" "holds C U M s" "holds C U M s'" and m: "m \<in> U"
    and k: "k \<in> {primary m, add_index m, remove_index m}"
  shows "db_get s k = db_get s' k"
proof -
  obtain A B where "represents C U s A" "winners_of M A" "represents C U s' B" "winners_of M B"
    using u(3,4) by (auto simp: holds_def)
  moreover from this have "A = B" using winners_of_unique[OF u(1,2)] by blast
  ultimately show ?thesis using m k by (auto simp: represents_def)
qed

text \<open>An answer is the message of the highest rank about the subject.\<close>

lemma found_add:
  assumes u: "universe C U" "holds C U M s" "q \<in> U" and f: "native_get_add S C s q = Ok (Some w)"
  shows "w \<in> M \<and> slot w = slot q \<and> is_an_add w \<and> (\<forall>m\<in>M. slot m = slot q \<longrightarrow> mrank m \<le> mrank w)"
proof -
  obtain A where A: "represents C U s A" "winners_of M A" using u(2) by (auto simp: holds_def)
  have fid: "md_fid d \<noteq> numI 0" if "msg_data q = Some d" for d
    using f that by (auto simp: native_get_add_def fid_of_partial_def)
  have "A (slot q) = Some w" "is_an_add w"
    using f native_get_winner(1)[OF u(1,3) A(1) fid] by (auto simp: answer_def split: option.splits if_splits)
  moreover have "case A (slot q) of None \<Rightarrow> \<forall>m\<in>M. slot m \<noteq> slot q
      | Some w \<Rightarrow> w \<in> M \<and> slot w = slot q \<and> (\<forall>m\<in>M. slot m = slot q \<longrightarrow> mrank m \<le> mrank w)"
    using A(2) unfolding winners_of_def by blast
  ultimately show ?thesis by simp
qed

lemma get_add_no_panic:
  assumes u: "universe C U" "holds C U M s" "q \<in> U" and fid: "\<And>d. msg_data q = Some d \<Longrightarrow> md_fid d \<noteq> numI 0"
  shows "\<exists>r. native_get_add S C s q = Ok r"
  using native_get_winner(1)[OF u(1,3) _ fid] u(2) by (auto simp: holds_def)

lemma same_messages_same_answers:
  assumes u: "universe C U" "M \<subseteq> U" "holds C U M s" "holds C U M s'" and q: "q \<in> U"
  shows "native_get_add S C s q = native_get_add S C s' q \<and> native_get_remove S C s q = native_get_remove S C s' q"
proof (cases "\<exists>d. msg_data q = Some d \<and> md_fid d = numI 0")
  case True
  then show ?thesis by (auto simp: native_get_add_def native_get_remove_def fid_of_partial_def)
next
  case False
  obtain A B where "represents C U s A" "winners_of M A" "represents C U s' B" "winners_of M B"
    using u(3,4) by (auto simp: holds_def)
  moreover from this have "A = B" using winners_of_unique[OF u(1,2)] by blast
  ultimately show ?thesis using native_get_winner[OF u(1) q] False by metis
qed

lemma holds_merged:
  assumes "universe C U" "unused [sd_postfix S, adds, removes] (rdb_disk (fst st))" "rdb_native_open (fst st)"
    and "snd ` set tms \<subseteq> U" "\<forall>r \<in> set (fst (native_merge_many S C D tms st)). settled_result r"
  shows "holds C U (snd ` set tms) (rdb_disk (fst (snd (native_merge_many S C D tms st))))"
proof -
  obtain rs st' where r: "native_merge_many S C D tms st = (rs, st')" by (cases "native_merge_many S C D tms st")
  from holds_run[OF assms(1) holds_empty[OF assms(2)] assms(3,4) r] assms(5) show ?thesis by (auto simp: r)
qed

text \<open>Both questions at once: the answer to a question about a subject is exactly the message of the highest
  rank, if it is an add.\<close>

lemma get_add_iff:
  assumes u: "universe C U" "M \<subseteq> U" "holds C U M s" "q \<in> U"
    and fid: "\<And>d. msg_data q = Some d \<Longrightarrow> md_fid d \<noteq> numI 0"
  shows "native_get_add S C s q = Ok (Some w) \<longleftrightarrow>
         w \<in> M \<and> slot w = slot q \<and> is_an_add w \<and> (\<forall>m\<in>M. slot m = slot q \<longrightarrow> mrank m \<le> mrank w)"
proof
  assume "native_get_add S C s q = Ok (Some w)"
  then show "w \<in> M \<and> slot w = slot q \<and> is_an_add w \<and> (\<forall>m\<in>M. slot m = slot q \<longrightarrow> mrank m \<le> mrank w)"
    by (rule found_add[OF u(1,3,4)])
next
  assume w: "w \<in> M \<and> slot w = slot q \<and> is_an_add w \<and> (\<forall>m\<in>M. slot m = slot q \<longrightarrow> mrank m \<le> mrank w)"
  obtain A where A: "represents C U s A" "winners_of M A" using u(3) by (auto simp: holds_def)
  have "case A (slot q) of None \<Rightarrow> \<forall>m\<in>M. slot m \<noteq> slot q
      | Some v \<Rightarrow> v \<in> M \<and> slot v = slot q \<and> (\<forall>m\<in>M. slot m = slot q \<longrightarrow> mrank m \<le> mrank v)"
    using A(2) unfolding winners_of_def by blast
  then obtain v where v: "A (slot q) = Some v" "v \<in> M" "slot v = slot q" "mrank w \<le> mrank v"
    using w by (auto split: option.splits)
  have "v = w" using w v u(2) by (intro equal_rank[OF u(1)]) (auto intro: antisym)
  then show "native_get_add S C s q = Ok (Some w)"
    using native_get_winner(1)[OF u(1,4) A(1) fid] v(1) w by (simp add: answer_def)
qed

text \<open>Enough event ids: fewer than 4096 merges from a fresh sequence, at times of 41 bits.\<close>

lemma merge_wins_Ok:
  assumes u: "universe C U" "m \<in> U" "represents C U (rdb_disk db) A" and o: "rdb_native_open db"
    and wins: "\<And>w. A (slot m) = Some w \<Longrightarrow> mrank w < mrank m"
    and g: "generate_id (word_of_int now) g = (Ok i, g')"
  shows "\<exists>ev db'. native_merge S C D now m (db, g) = (Ok ev, db', g')"
proof -
  let ?old = "case A (slot m) of Some w \<Rightarrow> [w] | None \<Rightarrow> []"
  have wf: "well_formed m" using universeD[OF u(1,2)] by simp
  have c: "get_default_merge_conflicts S C (rdb_disk db) m (msg_tshash m) = Ok ?old"
    using merge_conflicts[OF u] wins by (auto split: option.split)
  obtain p where p: "put_ops C m = Ok p" using put_ops_effect[OF wf] by blast
  have old: "well_formed w" if "A (slot m) = Some w" for w
    using representsD(1)[OF u(3) that] universeD[OF u(1)] by simp
  obtain d where d: "delete_many_transaction S ?old = Ok d"
  proof (cases "A (slot m)")
    case None
    with that show ?thesis by simp
  next
    case (Some w)
    with that delete_ops_effect[OF old[OF Some]] show ?thesis by auto
  qed
  show ?thesis
    using c by (simp add: native_merge_eq[OF wf o] p d appendTxn_def commit_with_event_def
        native_commit_transaction_def g Let_def)
qed

lemma run_settled:
  assumes u: "universe C U"
  shows "snd ` set tms \<subseteq> U \<Longrightarrow> represents C U (rdb_disk (fst st)) A \<Longrightarrow> rdb_native_open (fst st) \<Longrightarrow>
         ids_suffice tms (snd st) \<Longrightarrow> \<forall>r \<in> set (fst (native_merge_many S C D tms st)). settled_result r"
proof (induction tms arbitrary: st A)
  case Nil
  then show ?case by simp
next
  case (Cons tm tms)
  obtain now m where tm: "tm = (now, m)" by (cases tm)
  obtain db g where st: "st = (db, g)" by (cases st)
  have m: "m \<in> U" "snd ` set tms \<subseteq> U" and db: "represents C U (rdb_disk db) A" "rdb_native_open db"
    using Cons.prems(1-3) by (simp_all add: tm st)
  obtain i g' where g: "generate_id (word_of_int now) g = (Ok i, g')" "ids_suffice tms g'"
    using ids_suffice_Cons[of now m tms g] Cons.prems(4) by (auto simp: tm st)
  have "\<exists>r db1 g1 A1. native_merge S C D now m (db, g) = (r, db1, g1) \<and> settled_result r \<and>
      represents C U (rdb_disk db1) A1 \<and> rdb_native_open db1 \<and> ids_suffice tms g1"
  proof (cases "\<exists>w. A (slot m) = Some w \<and> mrank m \<le> mrank w")
    case True
    then obtain w where w: "A (slot m) = Some w" "mrank m \<le> mrank w" by blast
    show ?thesis
      using merge_loses[OF u m(1) db w, of D now g] db ids_suffice_tl[of "(now, m)" tms g] Cons.prems(4)
      by (auto simp: settled_result_def fail_def tm st)
  next
    case False
    then have wins: "mrank w < mrank m" if "A (slot m) = Some w" for w using that by (auto simp: not_le)
    obtain ev db1 where r: "native_merge S C D now m (db, g) = (Ok ev, db1, g')"
      using merge_wins_Ok[OF u m(1) db wins g(1)] by blast
    show ?thesis
      using merge_wins(1,3)[OF u m(1) db wins r] r g(2) by (auto simp: settled_result_def)
  qed
  then obtain r db1 g1 A1 where r: "native_merge S C D now m (db, g) = (r, db1, g1)" "settled_result r"
      "represents C U (rdb_disk db1) A1" "rdb_native_open db1" "ids_suffice tms g1" by blast
  show ?case
    using Cons.IH[of "(db1, g1)" A1] m(2) r by (auto simp: tm st split: prod.splits)
qed

lemma holds_merged_ids:
  assumes "universe C U" "unused [sd_postfix S, adds, removes] (rdb_disk (fst st))" "rdb_native_open (fst st)"
    and "snd ` set tms \<subseteq> U" "ids_suffice tms (snd st)"
  shows "holds C U (snd ` set tms) (merged_disk S C D tms st)"
proof -
  obtain A where "represents C U (rdb_disk (fst st)) A"
    using holds_empty[OF assms(2)] by (auto simp: holds_def)
  from run_settled[OF assms(1,4) this assms(3,5)] show ?thesis
    unfolding merged_disk_def by (rule holds_merged[OF assms(1-4)])
qed

end

end
