(* ===== verification/MessageStores.thy ===== *)
theory MessageStores
  imports NativeMerge
begin

text \<open>
  The native stores of casts (\<^verbatim>\<open>addon/src/store/cast_store.rs\<close>) and reactions
  (\<^verbatim>\<open>addon/src/store/reaction_store.rs\<close>): their keys, their order on messages and their indices, and
  the interpretation of the interface \<open>two_phase_store\<close> for each, from which it follows that hubs that
  merged the same casts and reactions hold the same casts and reactions.
\<close>

section \<open>The body of a message\<close>

text \<open>In the native code the body is one of several; when the bytes of a message carry several bodies,
  the last one counts. The bodies are written in this order.\<close>

datatype message_body =
    BodyCastAdd CastAddBody
  | BodyCastRemove CastRemoveBody
  | BodyReaction ReactionBody
  | BodyVerificationAdd VerificationAddAddressBody
  | BodyVerificationRemove VerificationRemoveBody
  | BodyUserData UserDataBody
  | BodyLink LinkBody
  | BodyUsernameProof UserNameProof
  | BodyFrameAction FrameActionBody
  | BodyLinkCompactState LinkCompactStateBody

definition message_bodies :: "MessageData \<Rightarrow> message_body option list" where
  "message_bodies d =
     [map_option BodyCastAdd (md_castAddBody d), map_option BodyCastRemove (md_castRemoveBody d),
      map_option BodyReaction (md_reactionBody d),
      map_option BodyVerificationAdd (md_verificationAddAddressBody d),
      map_option BodyVerificationRemove (md_verificationRemoveBody d),
      map_option BodyUserData (md_userDataBody d), map_option BodyLink (md_linkBody d),
      map_option BodyUsernameProof (md_usernameProofBody d),
      map_option BodyFrameAction (md_frameActionBody d),
      map_option BodyLinkCompactState (md_linkCompactStateBody d)]"

definition native_body :: "MessageData \<Rightarrow> message_body option" where
  "native_body d = (case filter (\<lambda>b. b \<noteq> None) (rev (message_bodies d)) of b # _ \<Rightarrow> b | [] \<Rightarrow> None)"

text \<open>The tests that the stores share: the signature scheme, the type, and that there is a body.\<close>

definition is_native_type :: "int \<Rightarrow> Message \<Rightarrow> bool" where
  "is_native_type t m \<longleftrightarrow>
     msg_signatureScheme m = ED25519 \<and>
     (case msg_data m of None \<Rightarrow> False | Some d \<Rightarrow> md_type d = t \<and> native_body d \<noteq> None)"

definition body_of :: "Message \<Rightarrow> message_body outcome" where
  "body_of m = andThen (native_data m) (\<lambda>d. case native_body d of Some b \<Rightarrow> Ok b | None \<Rightarrow> Throw native_panic)"

definition native_fid_key :: "int \<Rightarrow> bytes" where
  "native_fid_key fid = be_bytes 4 fid"

definition make_cast_id_key :: "CastId \<Rightarrow> bytes" where
  "make_cast_id_key c =
     native_fid_key (as_u32 (castid_fid c)) @ (case castid_hash c of Some h \<Rightarrow> h | None \<Rightarrow> [])"

text \<open>A target or parent is a cast or a url; the url is written after the cast.\<close>

definition target_key :: "CastId option \<Rightarrow> js_string option \<Rightarrow> bytes option" where
  "target_key cast url =
     (case url of Some u \<Rightarrow> Some (utf8_encode u) | None \<Rightarrow> map_option make_cast_id_key cast)"

definition fid_suffix :: "int \<Rightarrow> bytes" where
  "fid_suffix fid = (if fid > 0 then native_fid_key fid else [])"

section \<open>Reactions\<close>

definition invalid_reaction :: "'a outcome" where
  "invalid_reaction = fail ValidationFailure ''Invalid reaction body''"

definition reaction_body :: "Message \<Rightarrow> ReactionBody outcome" where
  "reaction_body m = andThen (body_of m) (\<lambda>b. case b of BodyReaction r \<Rightarrow> Ok r | _ \<Rightarrow> invalid_reaction)"

definition reaction_target :: "ReactionBody \<Rightarrow> bytes option" where
  "reaction_target r = target_key (rb_targetCastId r) (rb_targetUrl r)"

definition reaction_key :: "byte \<Rightarrow> int \<Rightarrow> int \<Rightarrow> bytes option \<Rightarrow> bytes outcome" where
  "reaction_key postfix fid type target =
     (if target \<noteq> None \<and> type = 0 then fail ValidationFailure ''targetId provided without type''
      else Ok (native_user_key fid @ postfix #
                 (if type > 0 then [word_of_int type] else []) @ (case target of Some t \<Rightarrow> t | None \<Rightarrow> [])))"

definition make_reaction_adds_key :: "int \<Rightarrow> int \<Rightarrow> bytes option \<Rightarrow> bytes outcome" where
  "make_reaction_adds_key fid type target = reaction_key (postfix_byte ReactionAdds) fid type target"

definition make_reaction_removes_key :: "int \<Rightarrow> int \<Rightarrow> bytes option \<Rightarrow> bytes outcome" where
  "make_reaction_removes_key fid type target = reaction_key (postfix_byte ReactionRemoves) fid type target"

definition make_reactions_by_target_key :: "bytes \<Rightarrow> int \<Rightarrow> bytes \<Rightarrow> bytes" where
  "make_reactions_by_target_key target fid ts_hash =
     root_byte ReactionsByTarget # target @ ts_hash @ fid_suffix fid"

definition reaction_secondary_index_key :: "bytes \<Rightarrow> Message \<Rightarrow> (bytes \<times> byte) outcome" where
  "reaction_secondary_index_key ts_hash m =
     andThen (native_data m) (\<lambda>d.
     andThen (reaction_body m) (\<lambda>r.
       case reaction_target r of
         None \<Rightarrow> invalid_reaction
       | Some t \<Rightarrow> Ok (make_reactions_by_target_key t (fid32 d) ts_hash, word_of_int (rb_type r))))"

definition reaction_message_key ::
  "(int \<Rightarrow> int \<Rightarrow> bytes option \<Rightarrow> bytes outcome) \<Rightarrow> Message \<Rightarrow> bytes outcome" where
  "reaction_message_key make_key m =
     andThen (native_data m) (\<lambda>d.
     andThen (reaction_body m) (\<lambda>r. make_key (fid32 d) (rb_type r) (reaction_target r)))"

definition ReactionStoreDef :: "int \<Rightarrow> store_def" where
  "ReactionStoreDef prune_size_limit =
     \<lparr>sd_postfix = postfix_byte ReactionMessage,
      sd_add_type = REACTION_ADD, sd_remove_type = REACTION_REMOVE, sd_compact_type = 0,
      sd_is_add = is_native_type REACTION_ADD, sd_is_remove = is_native_type REACTION_REMOVE,
      sd_is_compact = (\<lambda>_. False),
      sd_build_secondary = (\<lambda>h m. mapOk (reaction_secondary_index_key h m) (\<lambda>(k, t). [(k, Some [t])])),
      sd_delete_secondary = (\<lambda>h m. mapOk (reaction_secondary_index_key h m) (\<lambda>(k, t). [(k, None)])),
      sd_delete_remove_secondary = (\<lambda>m. Ok []),
      sd_add_key = reaction_message_key make_reaction_adds_key,
      sd_remove_key = reaction_message_key make_reaction_removes_key,
      sd_compact_key = (\<lambda>m. fail InvalidParam ''Reaction Store doesn't support compact state''),
      sd_compare = default_message_compare REACTION_ADD REACTION_REMOVE,
      sd_prune_limit = prune_size_limit,
      sd_conflicts = None, sd_merge_event = None, sd_revoke_event = None, sd_prune_event = None\<rparr>"

section \<open>Casts\<close>

definition invalid_cast :: "string \<Rightarrow> 'a outcome" where
  "invalid_cast what = fail ValidationFailure (''Invalid cast body'' @ what)"

text \<open>The hash that a cast message is about: its own for an add, that of the target for a remove.\<close>

definition cast_subject_hash :: "string \<Rightarrow> Message \<Rightarrow> bytes outcome" where
  "cast_subject_hash what m =
     andThen (native_data m) (\<lambda>d.
       case native_body d of
         Some (BodyCastAdd _) \<Rightarrow> Ok (case msg_hash m of Some h \<Rightarrow> h | None \<Rightarrow> [])
       | Some (BodyCastRemove b) \<Rightarrow> Ok (case crb_targetHash b of Some h \<Rightarrow> h | None \<Rightarrow> [])
       | _ \<Rightarrow> invalid_cast what)"

definition cast_index_key :: "byte \<Rightarrow> int \<Rightarrow> bytes \<Rightarrow> bytes" where
  "cast_index_key postfix fid hash = native_user_key fid @ postfix # (if length hash = 20 then hash else [])"

definition make_cast_adds_key :: "int \<Rightarrow> bytes \<Rightarrow> bytes" where
  "make_cast_adds_key fid hash = cast_index_key (postfix_byte CastAdds) fid hash"

definition make_cast_removes_key :: "int \<Rightarrow> bytes \<Rightarrow> bytes" where
  "make_cast_removes_key fid hash = cast_index_key (postfix_byte CastRemoves) fid hash"

definition make_cast_by_parent_key :: "bytes \<Rightarrow> int \<Rightarrow> bytes \<Rightarrow> bytes" where
  "make_cast_by_parent_key parent fid ts_hash = root_byte CastsByParent # parent @ ts_hash @ fid_suffix fid"

definition make_cast_by_mention_key :: "int \<Rightarrow> int \<Rightarrow> bytes \<Rightarrow> bytes" where
  "make_cast_by_mention_key mention fid ts_hash =
     root_byte CastsByMention # native_fid_key mention @ ts_hash @ fid_suffix fid"

definition by_parent_secondary_index_key :: "bytes \<Rightarrow> Message \<Rightarrow> bytes option outcome" where
  "by_parent_secondary_index_key ts_hash m =
     andThen (native_data m) (\<lambda>d.
     andThen (body_of m) (\<lambda>b.
       case b of
         BodyCastAdd c \<Rightarrow>
           (case target_key (cab_parentCastId c) (cab_parentUrl c) of
              None \<Rightarrow> invalid_cast ''''
            | Some p \<Rightarrow> Ok (Some (make_cast_by_parent_key p (fid32 d) ts_hash)))
       | BodyCastRemove _ \<Rightarrow> Ok None
       | _ \<Rightarrow> invalid_cast ''''))"

definition by_mention_secondary_index_key :: "bytes \<Rightarrow> Message \<Rightarrow> bytes list option outcome" where
  "by_mention_secondary_index_key ts_hash m =
     andThen (native_data m) (\<lambda>d.
     andThen (body_of m) (\<lambda>b.
       case b of
         BodyCastAdd c \<Rightarrow>
           Ok (if cab_mentions c = [] then None
               else Some (map (\<lambda>f. make_cast_by_mention_key (as_u32 f) (fid32 d) ts_hash) (cab_mentions c)))
       | BodyCastRemove _ \<Rightarrow> Ok None
       | _ \<Rightarrow> invalid_cast ''''))"

text \<open>The index keys of a cast; an error of either key function means that it has none, a panic is one.\<close>

definition cast_secondary_keys :: "bytes \<Rightarrow> Message \<Rightarrow> bytes list outcome" where
  "cast_secondary_keys ts_hash m =
     (case by_parent_secondary_index_key ts_hash m of
        Throw t \<Rightarrow> Throw t
      | parent \<Rightarrow>
          (case by_mention_secondary_index_key ts_hash m of
             Throw t \<Rightarrow> Throw t
           | mentions \<Rightarrow>
               Ok ((case parent of Ok (Some k) \<Rightarrow> [k] | _ \<Rightarrow> []) @
                   (case mentions of Ok (Some ks) \<Rightarrow> ks | _ \<Rightarrow> []))))"

text \<open>A remove always wins against an add; otherwise the last write wins.\<close>

definition cast_message_compare :: "int \<Rightarrow> bytes \<Rightarrow> int \<Rightarrow> bytes \<Rightarrow> int" where
  "cast_message_compare a_type a_ts_hash b_type b_ts_hash =
     (if a_type = CAST_REMOVE \<and> b_type = CAST_ADD then 1
      else if a_type = CAST_ADD \<and> b_type = CAST_REMOVE then -1
      else
        (let ts_compare = bytesCompare (take 4 a_ts_hash) (take 4 b_ts_hash) in
         if ts_compare \<noteq> 0 then ts_compare
         else bytesCompare (take 20 (drop 4 a_ts_hash)) (take 20 (drop 4 b_ts_hash))))"

definition cast_message_key :: "string \<Rightarrow> (int \<Rightarrow> bytes \<Rightarrow> bytes) \<Rightarrow> Message \<Rightarrow> bytes outcome" where
  "cast_message_key what make_key m =
     andThen (native_data m) (\<lambda>d. mapOk (cast_subject_hash what m) (make_key (fid32 d)))"

definition CastStoreDef :: "int \<Rightarrow> store_def" where
  "CastStoreDef prune_size_limit =
     \<lparr>sd_postfix = postfix_byte CastMessage,
      sd_add_type = CAST_ADD, sd_remove_type = CAST_REMOVE, sd_compact_type = 0,
      sd_is_add = is_native_type CAST_ADD, sd_is_remove = is_native_type CAST_REMOVE,
      sd_is_compact = (\<lambda>_. False),
      sd_build_secondary = (\<lambda>h m. mapOk (cast_secondary_keys h m) (map (\<lambda>k. (k, Some [1])))),
      sd_delete_secondary = (\<lambda>h m. mapOk (cast_secondary_keys h m) (map (\<lambda>k. (k, None)))),
      sd_delete_remove_secondary = (\<lambda>m. Ok []),
      sd_add_key = cast_message_key '' for add key'' make_cast_adds_key,
      sd_remove_key = cast_message_key '' for remove key'' make_cast_removes_key,
      sd_compact_key = (\<lambda>m. fail InvalidParam ''Cast Store doesn't support compact state''),
      sd_compare = cast_message_compare,
      sd_prune_limit = prune_size_limit,
      sd_conflicts = None, sd_merge_event = None, sd_revoke_event = None, sd_prune_event = None\<rparr>"

section \<open>The orders\<close>

lemma bytesCompare_Cons:
  "bytesCompare (x # xs) (y # ys) = (if x < y then -1 else if y < x then 1 else bytesCompare xs ys)"
  by (auto simp: bytesCompare_cases)

lemma bytesCompare_append:
  assumes "length a = length b"
  shows "bytesCompare (a @ x) (b @ y) = (if bytesCompare a b \<noteq> 0 then bytesCompare a b else bytesCompare x y)"
  using assms by (induction a b rule: list_induct2) (auto simp: bytesCompare_Cons)

definition default_rank :: "int \<Rightarrow> int \<Rightarrow> bytes \<Rightarrow> bytes" where
  "default_rank remove_type t h = take 4 h @ (if t = remove_type then 1 else 0) # drop 4 h"

lemma default_compare_rank:
  assumes "a \<noteq> r" "t \<in> {a, r}" "t' \<in> {a, r}" "length h = 24" "length h' = 24"
  shows "default_message_compare a r t h t' h' = bytesCompare (default_rank r t h) (default_rank r t' h')"
proof -
  have "bytesCompare (default_rank r t h) (default_rank r t' h') =
    (if bytesCompare (take 4 h) (take 4 h') \<noteq> 0 then bytesCompare (take 4 h) (take 4 h')
     else bytesCompare ([if t = r then 1 else 0] @ drop 4 h) ([if t' = r then 1 else 0] @ drop 4 h'))"
    using assms(4,5) bytesCompare_append[of "take 4 h" "take 4 h'"] by (simp add: default_rank_def)
  moreover have "bytesCompare ([if t = r then 1 else 0 :: byte] @ drop 4 h) ([if t' = r then 1 else 0] @ drop 4 h') =
     (if t = r \<and> t' = a then 1 else if t = a \<and> t' = r then -1 else bytesCompare (drop 4 h) (drop 4 h'))"
    using assms(1-3) by (subst bytesCompare_append) (auto simp: bytesCompare_cases)
  ultimately show ?thesis
    using assms(4,5) by (simp add: default_message_compare_def Let_def)
qed

lemma default_rank_hash:
  assumes "length h = 24" "length h' = 24" "default_rank r t h = default_rank r t' h'"
  shows "h = h'"
proof -
  have "take 4 h = take 4 h'" "drop 4 h = drop 4 h'"
    using assms by (auto simp: default_rank_def append_eq_append_conv)
  then show ?thesis by (metis append_take_drop_id)
qed

definition cast_rank :: "int \<Rightarrow> bytes \<Rightarrow> bytes" where
  "cast_rank t h = (if t = CAST_REMOVE then 1 else 0) # h"

lemma cast_compare_rank:
  assumes "t \<in> {CAST_ADD, CAST_REMOVE}" "t' \<in> {CAST_ADD, CAST_REMOVE}" "length h = 24" "length h' = 24"
  shows "cast_message_compare t h t' h' = bytesCompare (cast_rank t h) (cast_rank t' h')"
proof -
  have "bytesCompare h h' = bytesCompare (take 4 h @ drop 4 h) (take 4 h' @ drop 4 h')" by simp
  also have "\<dots> = (if bytesCompare (take 4 h) (take 4 h') \<noteq> 0 then bytesCompare (take 4 h) (take 4 h')
     else bytesCompare (drop 4 h) (drop 4 h'))"
    using assms(3,4) by (intro bytesCompare_append) simp
  finally have h: "bytesCompare h h' = (if bytesCompare (take 4 h) (take 4 h') \<noteq> 0
      then bytesCompare (take 4 h) (take 4 h') else bytesCompare (drop 4 h) (drop 4 h'))" .
  have "bytesCompare (cast_rank t h) (cast_rank t' h') =
    (if t = CAST_REMOVE \<and> t' = CAST_ADD then 1 else if t = CAST_ADD \<and> t' = CAST_REMOVE then -1 else bytesCompare h h')"
    using assms(1,2) by (auto simp: cast_rank_def bytesCompare_Cons)
  then show ?thesis using assms(3,4) unfolding h by (simp add: cast_message_compare_def Let_def)
qed

section \<open>Reactions form a two-phase store\<close>

definition reaction_subject :: "Message \<Rightarrow> bytes" where
  "reaction_subject m =
     (case reaction_body m of
        Ok r \<Rightarrow> (if rb_type r > 0 then [word_of_int (rb_type r)] else []) @
                (case reaction_target r of Some t \<Rightarrow> t | None \<Rightarrow> [])
      | _ \<Rightarrow> [])"

text \<open>What the stores rely on and the validation of messages guarantees: a hash of twenty bytes, the
  signature scheme, a type of the store with its body, and for a reaction a type and a target.\<close>

definition has_hash :: "Message \<Rightarrow> bool" where
  "has_hash m = (case msg_hash m of Some h \<Rightarrow> length h = 20 | None \<Rightarrow> False)"

definition well_formed_reaction :: "Message \<Rightarrow> bool" where
  "well_formed_reaction m \<longleftrightarrow>
     has_hash m \<and> (is_native_type REACTION_ADD m \<or> is_native_type REACTION_REMOVE m) \<and>
     (case reaction_body m of Ok r \<Rightarrow> rb_type r \<noteq> 0 \<and> reaction_target r \<noteq> None | _ \<Rightarrow> False)"

lemma well_formed_reactionE:
  assumes "well_formed_reaction m"
  obtains d h r t where "msg_data m = Some d" "native_data m = Ok d" "msg_hash m = Some h" "length h = 20"
    "md_type d = REACTION_ADD \<or> md_type d = REACTION_REMOVE" "native_body d \<noteq> None"
    "reaction_body m = Ok r" "rb_type r \<noteq> 0" "reaction_target r = Some t" "msg_signatureScheme m = ED25519"
    "fid32 d = msg_fid32 m" "md_type d = msg_type m"
proof -
  obtain h where h: "msg_hash m = Some h" "length h = 20"
    using assms by (auto simp: well_formed_reaction_def has_hash_def split: option.splits)
  obtain r t where r: "reaction_body m = Ok r" "rb_type r \<noteq> 0" "reaction_target r = Some t"
    using assms by (auto simp: well_formed_reaction_def split: outcome.splits)
  obtain d where "msg_data m = Some d" "md_type d = REACTION_ADD \<or> md_type d = REACTION_REMOVE"
      "native_body d \<noteq> None" "msg_signatureScheme m = ED25519"
    using assms by (auto simp: well_formed_reaction_def is_native_type_def split: option.splits)
  with h r show thesis
    by (intro that[of d h r t]) (simp_all add: native_data_def msg_fid32_def msg_type_def)
qed

lemma fid_root_not_user [simp]: "\<not> user_key (root_byte ReactionsByTarget # k)"
  "\<not> user_key (root_byte CastsByParent # k)" "\<not> user_key (root_byte CastsByMention # k)"
  by (simp_all add: user_key_def)

interpretation reactions: two_phase_store "ReactionStoreDef n" "postfix_byte ReactionAdds" "postfix_byte ReactionRemoves"
  reaction_subject well_formed_reaction "default_rank REACTION_REMOVE" for n
proof
  fix m assume wf: "well_formed_reaction m"
  obtain d h r t where d: "msg_data m = Some d" "native_data m = Ok d" "msg_hash m = Some h" "length h = 20"
    "md_type d = REACTION_ADD \<or> md_type d = REACTION_REMOVE" "native_body d \<noteq> None"
    "reaction_body m = Ok r" "rb_type r \<noteq> 0" "reaction_target r = Some t" "msg_signatureScheme m = ED25519"
    "fid32 d = msg_fid32 m" "md_type d = msg_type m"
    using wf by (rule well_formed_reactionE)
  show "\<exists>d h p. msg_data m = Some d \<and> msg_hash m = Some h \<and> length h = 20 \<and>
      (md_type d = sd_add_type (ReactionStoreDef n) \<or> md_type d = sd_remove_type (ReactionStoreDef n)) \<and>
      type_to_set_postfix (md_type d) = Ok p \<and> postfix_byte p = sd_postfix (ReactionStoreDef n)"
    using d by (auto simp: ReactionStoreDef_def type_to_set_postfix_def)
  show "sd_is_add (ReactionStoreDef n) m \<longleftrightarrow> msg_type m = sd_add_type (ReactionStoreDef n)"
    "sd_is_remove (ReactionStoreDef n) m \<longleftrightarrow> msg_type m = sd_remove_type (ReactionStoreDef n)"
    using d by (auto simp: ReactionStoreDef_def is_native_type_def)
  show "sd_add_key (ReactionStoreDef n) m = Ok (native_user_key (msg_fid32 m) @ postfix_byte ReactionAdds # reaction_subject m)"
    "sd_remove_key (ReactionStoreDef n) m = Ok (native_user_key (msg_fid32 m) @ postfix_byte ReactionRemoves # reaction_subject m)"
    using d by (simp_all add: ReactionStoreDef_def reaction_message_key_def make_reaction_adds_key_def
        make_reaction_removes_key_def reaction_key_def reaction_subject_def)
  have k: "reaction_secondary_index_key (msg_tshash m) m =
      Ok (make_reactions_by_target_key t (fid32 d) (msg_tshash m), word_of_int (rb_type r))"
    using d by (simp add: reaction_secondary_index_key_def)
  show "\<exists>ops. sd_build_secondary (ReactionStoreDef n) (msg_tshash m) m = Ok ops \<and> (\<forall>op\<in>set ops. \<not> user_key (fst op))"
    "\<exists>ops. sd_delete_secondary (ReactionStoreDef n) (msg_tshash m) m = Ok ops \<and> (\<forall>op\<in>set ops. \<not> user_key (fst op))"
    "\<exists>ops. sd_delete_remove_secondary (ReactionStoreDef n) m = Ok ops \<and> (\<forall>op\<in>set ops. \<not> user_key (fst op))"
    by (simp_all add: ReactionStoreDef_def k make_reactions_by_target_key_def del: root_byte.simps)
next
  fix t t' :: int and h h' :: bytes
  assume "t \<in> {sd_add_type (ReactionStoreDef n), sd_remove_type (ReactionStoreDef n)}"
    "t' \<in> {sd_add_type (ReactionStoreDef n), sd_remove_type (ReactionStoreDef n)}" "length h = 24" "length h' = 24"
  then show "sd_compare (ReactionStoreDef n) t h t' h' = bytesCompare (default_rank REACTION_REMOVE t h) (default_rank REACTION_REMOVE t' h')"
    by (simp add: ReactionStoreDef_def default_compare_rank)
qed (auto simp: ReactionStoreDef_def intro: default_rank_hash)

section \<open>Casts form a two-phase store\<close>

definition cast_subject :: "Message \<Rightarrow> bytes" where
  "cast_subject m = (case cast_subject_hash [] m of Ok h \<Rightarrow> if length h = 20 then h else [] | _ \<Rightarrow> [])"

definition well_formed_cast :: "Message \<Rightarrow> bool" where
  "well_formed_cast m \<longleftrightarrow>
     has_hash m \<and>
     (case body_of m of
        Ok b \<Rightarrow>
          (case b of
             BodyCastAdd _ \<Rightarrow> is_native_type CAST_ADD m
           | BodyCastRemove _ \<Rightarrow> is_native_type CAST_REMOVE m
           | _ \<Rightarrow> False)
      | _ \<Rightarrow> False)"

lemma well_formed_castE:
  assumes "well_formed_cast m"
  obtains d h b where "msg_data m = Some d" "native_data m = Ok d" "msg_hash m = Some h" "length h = 20"
    "native_body d = Some b" "body_of m = Ok b" "msg_signatureScheme m = ED25519"
    "fid32 d = msg_fid32 m" "md_type d = msg_type m"
    "(\<exists>c. b = BodyCastAdd c \<and> msg_type m = CAST_ADD) \<or> (\<exists>c. b = BodyCastRemove c \<and> msg_type m = CAST_REMOVE)"
proof -
  obtain h where h: "msg_hash m = Some h" "length h = 20"
    using assms by (auto simp: well_formed_cast_def has_hash_def split: option.splits)
  obtain b where b: "body_of m = Ok b"
    "(\<exists>c. b = BodyCastAdd c \<and> is_native_type CAST_ADD m) \<or> (\<exists>c. b = BodyCastRemove c \<and> is_native_type CAST_REMOVE m)"
    using assms by (auto simp: well_formed_cast_def split: outcome.splits message_body.splits)
  obtain d where d: "msg_data m = Some d" "native_data m = Ok d" "fid32 d = msg_fid32 m" "md_type d = msg_type m"
    using b(2) by (auto simp: is_native_type_def native_data_def msg_fid32_def msg_type_def split: option.splits)
  have "native_body d = Some b" using b(1) d(2) by (auto simp: body_of_def split: option.splits)
  moreover have "msg_signatureScheme m = ED25519"
    "(\<exists>c. b = BodyCastAdd c \<and> msg_type m = CAST_ADD) \<or> (\<exists>c. b = BodyCastRemove c \<and> msg_type m = CAST_REMOVE)"
    using b(2) d by (auto simp: is_native_type_def)
  ultimately show thesis using h b(1) d by (intro that[of d h b])
qed

lemma cast_secondary_keys_roots:
  assumes "native_data m = Ok d" "body_of m = Ok b"
  shows "\<exists>ks. cast_secondary_keys h m = Ok ks \<and> (\<forall>k\<in>set ks. \<not> user_key k)"
proof -
  have p: "(\<exists>k. by_parent_secondary_index_key h m = Ok (Some k) \<and> \<not> user_key k) \<or>
      by_parent_secondary_index_key h m = Ok None \<or> (\<exists>e. by_parent_secondary_index_key h m = Err e)"
    using assms by (auto simp: by_parent_secondary_index_key_def make_cast_by_parent_key_def invalid_cast_def fail_def
        simp del: root_byte.simps split: message_body.split option.split)
  have q: "(\<exists>ks. by_mention_secondary_index_key h m = Ok (Some ks) \<and> (\<forall>k\<in>set ks. \<not> user_key k)) \<or>
      by_mention_secondary_index_key h m = Ok None \<or> (\<exists>e. by_mention_secondary_index_key h m = Err e)"
    using assms by (auto simp: by_mention_secondary_index_key_def make_cast_by_mention_key_def invalid_cast_def fail_def
        simp del: root_byte.simps split: message_body.split)
  from p q show ?thesis by (auto simp: cast_secondary_keys_def)
qed

interpretation casts: two_phase_store "CastStoreDef n" "postfix_byte CastAdds" "postfix_byte CastRemoves"
  cast_subject well_formed_cast cast_rank for n
proof
  fix m assume wf: "well_formed_cast m"
  obtain d h b where d: "msg_data m = Some d" "native_data m = Ok d" "msg_hash m = Some h" "length h = 20"
    "native_body d = Some b" "body_of m = Ok b" "msg_signatureScheme m = ED25519"
    "fid32 d = msg_fid32 m" "md_type d = msg_type m"
    and b: "(\<exists>c. b = BodyCastAdd c \<and> msg_type m = CAST_ADD) \<or> (\<exists>c. b = BodyCastRemove c \<and> msg_type m = CAST_REMOVE)"
    using wf by (rule well_formed_castE)
  show "\<exists>d h p. msg_data m = Some d \<and> msg_hash m = Some h \<and> length h = 20 \<and>
      (md_type d = sd_add_type (CastStoreDef n) \<or> md_type d = sd_remove_type (CastStoreDef n)) \<and>
      type_to_set_postfix (md_type d) = Ok p \<and> postfix_byte p = sd_postfix (CastStoreDef n)"
    using d b by (auto simp: CastStoreDef_def type_to_set_postfix_def)
  show "sd_is_add (CastStoreDef n) m \<longleftrightarrow> msg_type m = sd_add_type (CastStoreDef n)"
    "sd_is_remove (CastStoreDef n) m \<longleftrightarrow> msg_type m = sd_remove_type (CastStoreDef n)"
    using d by (simp_all add: CastStoreDef_def is_native_type_def)
  show "sd_add_key (CastStoreDef n) m = Ok (native_user_key (msg_fid32 m) @ postfix_byte CastAdds # cast_subject m)"
    "sd_remove_key (CastStoreDef n) m = Ok (native_user_key (msg_fid32 m) @ postfix_byte CastRemoves # cast_subject m)"
    using d b by (auto simp: CastStoreDef_def cast_message_key_def make_cast_adds_key_def make_cast_removes_key_def
        cast_index_key_def cast_subject_def cast_subject_hash_def)
  show "\<exists>ops. sd_build_secondary (CastStoreDef n) (msg_tshash m) m = Ok ops \<and> (\<forall>op\<in>set ops. \<not> user_key (fst op))"
    "\<exists>ops. sd_delete_secondary (CastStoreDef n) (msg_tshash m) m = Ok ops \<and> (\<forall>op\<in>set ops. \<not> user_key (fst op))"
    "\<exists>ops. sd_delete_remove_secondary (CastStoreDef n) m = Ok ops \<and> (\<forall>op\<in>set ops. \<not> user_key (fst op))"
    using cast_secondary_keys_roots[OF d(2,6), of "msg_tshash m"] by (auto simp: CastStoreDef_def)
next
  fix t t' :: int and h h' :: bytes
  assume "t \<in> {sd_add_type (CastStoreDef n), sd_remove_type (CastStoreDef n)}"
    "t' \<in> {sd_add_type (CastStoreDef n), sd_remove_type (CastStoreDef n)}" "length h = 24" "length h' = 24"
  then show "sd_compare (CastStoreDef n) t h t' h' = bytesCompare (cast_rank t h) (cast_rank t' h')"
    by (simp add: CastStoreDef_def cast_compare_rank)
qed (auto simp: CastStoreDef_def cast_rank_def)

lemma cast_store_simps:
  "casts.is_an_add n m \<longleftrightarrow> msg_type m = CAST_ADD" "casts.mrank m = cast_rank (msg_type m) (msg_tshash m)"
  "casts.slot m = (msg_fid32 m, cast_subject m)"
  "map postfix_byte [CastMessage, CastAdds, CastRemoves] =
     [sd_postfix (CastStoreDef n), postfix_byte CastAdds, postfix_byte CastRemoves]"
proof -
  have "sd_add_type (CastStoreDef n) = CAST_ADD" by (simp add: CastStoreDef_def)
  then show "casts.is_an_add n m \<longleftrightarrow> msg_type m = CAST_ADD" by (simp add: casts.is_an_add_def)
  show "map postfix_byte [CastMessage, CastAdds, CastRemoves] =
     [sd_postfix (CastStoreDef n), postfix_byte CastAdds, postfix_byte CastRemoves]"
    by (simp add: CastStoreDef_def)
qed (simp_all add: casts.mrank_def casts.slot_def)

lemma reaction_store_simps:
  "reactions.is_an_add n m \<longleftrightarrow> msg_type m = REACTION_ADD"
  "reactions.mrank m = default_rank REACTION_REMOVE (msg_type m) (msg_tshash m)"
  "reactions.slot m = (msg_fid32 m, reaction_subject m)"
  "map postfix_byte [ReactionMessage, ReactionAdds, ReactionRemoves] =
     [sd_postfix (ReactionStoreDef n), postfix_byte ReactionAdds, postfix_byte ReactionRemoves]"
proof -
  have "sd_add_type (ReactionStoreDef n) = REACTION_ADD" by (simp add: ReactionStoreDef_def)
  then show "reactions.is_an_add n m \<longleftrightarrow> msg_type m = REACTION_ADD" by (simp add: reactions.is_an_add_def)
  show "map postfix_byte [ReactionMessage, ReactionAdds, ReactionRemoves] =
     [sd_postfix (ReactionStoreDef n), postfix_byte ReactionAdds, postfix_byte ReactionRemoves]"
    by (simp add: ReactionStoreDef_def)
qed (simp_all add: reactions.mrank_def reactions.slot_def)

end
