(* ===== verification/MoreStores.thy ===== *)
theory MoreStores
  imports MessageStores
begin

text \<open>
  The native stores of links (\<^verbatim>\<open>link_store.rs\<close>), user data (\<^verbatim>\<open>user_data_store.rs\<close>), verifications
  (\<^verbatim>\<open>verification_store.rs\<close>) and username proofs (\<^verbatim>\<open>username_proof_store.rs\<close>, with the proofs of the name
  registry in \<^verbatim>\<open>name_registry_events.rs\<close>), and the paged readers of \<^verbatim>\<open>store.rs\<close> and \<^verbatim>\<open>message.rs\<close>. The lemmas
  show that the pages of a reader follow each other without a gap, and two consequences of how the stores
  keep their indices: a name that changes hands is still found for its old owner, and a link type of eight
  bytes makes a merge report the message it replaces twice.
\<close>

definition bad_param :: "string \<Rightarrow> 'a outcome" where
  "bad_param what = fail InvalidParam what"

text \<open>The body of a message whose data or body may be missing, as the \<^verbatim>\<open>ok_or\<close> chains of the link store
  and the checks of the username proof store read it.\<close>

definition checked_body :: "hub_error_code \<Rightarrow> string \<Rightarrow> string \<Rightarrow> Message \<Rightarrow> (MessageData \<times> message_body) outcome" where
  "checked_body code no_data no_body m =
     (case msg_data m of
        None \<Rightarrow> fail code no_data
      | Some d \<Rightarrow> (case native_body d of Some b \<Rightarrow> Ok (d, b) | None \<Rightarrow> fail code no_body))"

section \<open>Links\<close>

definition link_body :: "Message \<Rightarrow> (MessageData \<times> message_body) outcome" where
  "link_body m = checked_body InvalidParam ''invalid message data'' ''invalid message data body'' m"

definition LINK_TYPE_BYTE_SIZE :: nat where
  "LINK_TYPE_BYTE_SIZE = 8"

text \<open>\<^verbatim>\<open>Vec::resize\<close> pads with zeros or truncates.\<close>

definition resize_type :: "bytes \<Rightarrow> bytes" where
  "resize_type t = take LINK_TYPE_BYTE_SIZE (pad_end LINK_TYPE_BYTE_SIZE 0 t)"

definition link_set_key :: "byte \<Rightarrow> int \<Rightarrow> LinkBody \<Rightarrow> bool \<Rightarrow> bytes outcome" where
  "link_set_key postfix fid b padded =
     (let t = utf8_encode (lb_type b) in
      if lb_targetFid b \<noteq> None \<and> t = [] then
        fail ValidationFailure (if postfix = postfix_byte LinkRemoves then ''targetID provided without type''
                                else ''targetId provided without type'')
      else if length t > LINK_TYPE_BYTE_SIZE
      then fail ValidationFailure ''link type invalid - non-empty link type found with invalid length''
      else Ok (native_user_key fid @ postfix # (if padded then resize_type t else t) @
                 (case lb_targetFid b of Some f \<Rightarrow> native_fid_key (as_u32 f) | None \<Rightarrow> [])))"

definition link_key_padded :: "byte \<Rightarrow> Message \<Rightarrow> bool \<Rightarrow> bytes outcome" where
  "link_key_padded postfix m padded =
     andThen (link_body m) (\<lambda>(d, b).
       case b of
         BodyLink l \<Rightarrow> link_set_key postfix (fid32 d) l padded
       | _ \<Rightarrow> bad_param ''link body not specified'')"

definition make_add_key_padded :: "Message \<Rightarrow> bool \<Rightarrow> bytes outcome" where
  "make_add_key_padded m padded = link_key_padded (postfix_byte LinkAdds) m padded"

definition make_remove_key_padded :: "Message \<Rightarrow> bool \<Rightarrow> bytes outcome" where
  "make_remove_key_padded m padded = link_key_padded (postfix_byte LinkRemoves) m padded"

definition link_compact_state_add_key :: "int \<Rightarrow> js_string \<Rightarrow> bytes" where
  "link_compact_state_add_key fid type =
     native_user_key fid @ postfix_byte LinkCompactStateMessage # resize_type (utf8_encode type)"

definition make_compact_state_add_key :: "Message \<Rightarrow> bytes outcome" where
  "make_compact_state_add_key m =
     andThen (link_body m) (\<lambda>(d, b).
       case b of
         BodyLinkCompactState l \<Rightarrow> Ok (link_compact_state_add_key (fid32 d) (lcsb_type l))
       | BodyLink l \<Rightarrow> Ok (link_compact_state_add_key (fid32 d) (lb_type l))
       | _ \<Rightarrow> bad_param ''link_compact_body not specified'')"

text \<open>With a ts hash, as the indices use it.\<close>

definition links_by_target_key :: "number \<Rightarrow> int \<Rightarrow> bytes \<Rightarrow> bytes outcome" where
  "links_by_target_key target fid ts_hash =
     (if fid \<noteq> 0 \<and> ts_hash = [] then fail ValidationFailure ''fid provided without timestamp hash''
      else if fid = 0 then fail ValidationFailure ''timestamp hash provided without fid''
      else Ok (root_byte LinksByTarget # native_fid_key (as_u32 target) @ ts_hash @ fid_suffix fid))"

definition link_secondary_index_key :: "bytes \<Rightarrow> Message \<Rightarrow> (bytes \<times> bytes) outcome" where
  "link_secondary_index_key ts_hash m =
     andThen (link_body m) (\<lambda>(d, b).
       case b of
         BodyLink l \<Rightarrow>
           (case lb_targetFid l of
              None \<Rightarrow> bad_param ''target ID not specified''
            | Some t \<Rightarrow> mapOk (links_by_target_key t (fid32 d) ts_hash) (\<lambda>k. (k, utf8_encode (lb_type l))))
       | _ \<Rightarrow> bad_param ''link body not specified'')"

text \<open>Older versions did not pad the type, so the unpadded key is deleted too.\<close>

definition delete_unpadded :: "Message \<Rightarrow> transaction outcome" where
  "delete_unpadded m =
     (if is_native_type LINK_ADD m then mapOk (make_add_key_padded m False) (\<lambda>k. [(k, None)])
      else if is_native_type LINK_REMOVE m then mapOk (make_remove_key_padded m False) (\<lambda>k. [(k, None)])
      else Ok [])"

definition link_defaults :: "int \<Rightarrow> store_def" where
  "link_defaults prune_size_limit =
     \<lparr>sd_postfix = postfix_byte LinkMessage,
      sd_add_type = LINK_ADD, sd_remove_type = LINK_REMOVE, sd_compact_type = LINK_COMPACT_STATE,
      sd_is_add = is_native_type LINK_ADD, sd_is_remove = is_native_type LINK_REMOVE,
      sd_is_compact = is_native_type LINK_COMPACT_STATE,
      sd_build_secondary = (\<lambda>h m. mapOk (link_secondary_index_key h m) (\<lambda>(k, t). [(k, Some t)])),
      sd_delete_secondary =
        (\<lambda>h m. andThen (link_secondary_index_key h m) (\<lambda>(k, t). mapOk (delete_unpadded m) (\<lambda>ops. ops @ [(k, None)]))),
      sd_delete_remove_secondary = delete_unpadded,
      sd_add_key = (\<lambda>m. make_add_key_padded m True),
      sd_remove_key = (\<lambda>m. make_remove_key_padded m True),
      sd_compact_key = make_compact_state_add_key,
      sd_compare = default_message_compare LINK_ADD LINK_REMOVE,
      sd_prune_limit = prune_size_limit,
      sd_conflicts = None, sd_merge_event = None, sd_revoke_event = None, sd_prune_event = None\<rparr>"

definition link_merge_conflicts ::
  "int \<Rightarrow> proto_codec \<Rightarrow> store \<Rightarrow> Message \<Rightarrow> bytes \<Rightarrow> Message list outcome" where
  "link_merge_conflicts n C s m ts_hash =
     (let S = link_defaults n in
      andThen (get_default_merge_conflicts S C s m ts_hash) (\<lambda>conflicts.
      andThen (native_data m) (\<lambda>d.
      andThen (make_remove_key_padded m False) (\<lambda>rk.
      andThen (index_conflict S C s (sd_remove_type S) ''remove'' rk d ts_hash) (\<lambda>removes.
      andThen (make_add_key_padded m False) (\<lambda>ak.
      mapOk (index_conflict S C s (sd_add_type S) ''add'' ak d ts_hash) (\<lambda>adds. conflicts @ removes @ adds)))))))"

definition LinkStoreDef :: "int \<Rightarrow> store_def" where
  "LinkStoreDef n = (link_defaults n)\<lparr>sd_conflicts := Some (link_merge_conflicts n)\<rparr>"

section \<open>User data\<close>

definition make_user_data_adds_key :: "int \<Rightarrow> int \<Rightarrow> bytes" where
  "make_user_data_adds_key fid data_type =
     native_user_key fid @ postfix_byte UserDataAdds # (if data_type > 0 then [word_of_int data_type] else [])"

definition user_data_add_key :: "Message \<Rightarrow> bytes outcome" where
  "user_data_add_key m =
     andThen (native_data m) (\<lambda>d.
     andThen (body_of m) (\<lambda>b.
       case b of
         BodyUserData u \<Rightarrow> Ok (make_user_data_adds_key (fid32 d) (udb_type u))
       | _ \<Rightarrow> bad_param ''UserDataAdd message missing body''))"

definition UserDataStoreDef :: "int \<Rightarrow> store_def" where
  "UserDataStoreDef prune_size_limit =
     \<lparr>sd_postfix = postfix_byte UserDataMessage,
      sd_add_type = USER_DATA_ADD, sd_remove_type = 0, sd_compact_type = 0,
      sd_is_add = is_native_type USER_DATA_ADD, sd_is_remove = (\<lambda>_. False), sd_is_compact = (\<lambda>_. False),
      sd_build_secondary = (\<lambda>h m. Ok []), sd_delete_secondary = (\<lambda>h m. Ok []),
      sd_delete_remove_secondary = (\<lambda>m. Ok []),
      sd_add_key = user_data_add_key,
      sd_remove_key = (\<lambda>m. bad_param ''removes not supported''),
      sd_compact_key = (\<lambda>m. bad_param ''UserDataStore doesn't support compact state''),
      sd_compare = default_message_compare USER_DATA_ADD 0,
      sd_prune_limit = prune_size_limit,
      sd_conflicts = None, sd_merge_event = None, sd_revoke_event = None, sd_prune_event = None\<rparr>"

section \<open>Verifications\<close>

definition make_verification_by_address_key :: "bytes \<Rightarrow> bytes" where
  "make_verification_by_address_key address = root_byte VerificationByAddress # address"

definition make_verification_adds_key :: "int \<Rightarrow> bytes \<Rightarrow> bytes" where
  "make_verification_adds_key fid address = native_user_key fid @ postfix_byte VerificationAdds # address"

definition make_verification_removes_key :: "int \<Rightarrow> bytes \<Rightarrow> bytes" where
  "make_verification_removes_key fid address = native_user_key fid @ postfix_byte VerificationRemoves # address"

definition verification_key :: "(int \<Rightarrow> bytes \<Rightarrow> bytes) \<Rightarrow> Message \<Rightarrow> bytes outcome" where
  "verification_key make_key m =
     andThen (native_data m) (\<lambda>d.
     andThen (body_of m) (\<lambda>b.
       case b of
         BodyVerificationAdd v \<Rightarrow> Ok (make_key (fid32 d) (vab_address v))
       | BodyVerificationRemove v \<Rightarrow> Ok (make_key (fid32 d) (vrb_address v))
       | _ \<Rightarrow> fail ValidationFailure ''Invalid verification body''))"

definition verification_by_address :: "Message \<Rightarrow> (MessageData \<times> bytes) outcome" where
  "verification_by_address m =
     andThen (native_data m) (\<lambda>d.
     andThen (body_of m) (\<lambda>b.
       case b of
         BodyVerificationAdd v \<Rightarrow>
           (if vab_address v = [] then bad_param ''address empty''
            else Ok (d, make_verification_by_address_key (vab_address v)))
       | _ \<Rightarrow> bad_param ''address empty''))"

definition is_verification_type :: "int \<Rightarrow> Message \<Rightarrow> bool" where
  "is_verification_type t m \<longleftrightarrow>
     is_native_type t m \<and>
     (case body_of m of
        Ok b \<Rightarrow>
          (case b of
             BodyVerificationAdd v \<Rightarrow> t = VERIFICATION_ADD_ETH_ADDRESS \<and> vab_protocol v \<in> {ETHEREUM, SOLANA}
           | BodyVerificationRemove v \<Rightarrow> t = VERIFICATION_REMOVE \<and> vrb_protocol v \<in> {ETHEREUM, SOLANA}
           | _ \<Rightarrow> False)
      | _ \<Rightarrow> False)"

definition verification_defaults :: "int \<Rightarrow> store_def" where
  "verification_defaults prune_size_limit =
     \<lparr>sd_postfix = postfix_byte VerificationMessage,
      sd_add_type = VERIFICATION_ADD_ETH_ADDRESS, sd_remove_type = VERIFICATION_REMOVE, sd_compact_type = 0,
      sd_is_add = is_verification_type VERIFICATION_ADD_ETH_ADDRESS,
      sd_is_remove = is_verification_type VERIFICATION_REMOVE, sd_is_compact = (\<lambda>_. False),
      sd_build_secondary = (\<lambda>h m. mapOk (verification_by_address m) (\<lambda>(d, k). [(k, Some (native_fid_key (fid32 d)))])),
      sd_delete_secondary = (\<lambda>h m. mapOk (verification_by_address m) (\<lambda>(d, k). [(k, None)])),
      sd_delete_remove_secondary = (\<lambda>m. Ok []),
      sd_add_key = verification_key make_verification_adds_key,
      sd_remove_key = verification_key make_verification_removes_key,
      sd_compact_key = (\<lambda>m. bad_param ''Verification Store doesn't support compact state''),
      sd_compare = default_message_compare VERIFICATION_ADD_ETH_ADDRESS VERIFICATION_REMOVE,
      sd_prune_limit = prune_size_limit,
      sd_conflicts = None, sd_merge_event = None, sd_revoke_event = None, sd_prune_event = None\<rparr>"

text \<open>\<^verbatim>\<open>read_fid_key\<close> panics on fewer than four bytes.\<close>

definition read_fid_key :: "bytes \<Rightarrow> int outcome" where
  "read_fid_key k = (if length k < 4 then Throw native_panic else Ok (be_int (take 4 k)))"

text \<open>An address is verified by one user at a time: an add also conflicts with the add of another user.\<close>

definition verification_merge_conflicts ::
  "int \<Rightarrow> proto_codec \<Rightarrow> store \<Rightarrow> Message \<Rightarrow> bytes \<Rightarrow> Message list outcome" where
  "verification_merge_conflicts n C s m ts_hash =
     (let S = verification_defaults n in
      andThen (get_default_merge_conflicts S C s m ts_hash) (\<lambda>conflicts.
        if sd_is_remove S m then Ok conflicts
        else
          andThen (native_data m) (\<lambda>d.
          andThen (body_of m) (\<lambda>b.
            case b of
              BodyVerificationAdd v \<Rightarrow>
                (case native_get s (make_verification_by_address_key (vab_address v)) of
                   None \<Rightarrow> Ok conflicts
                 | Some fid_bytes \<Rightarrow>
                     andThen (read_fid_key fid_bytes) (\<lambda>fid.
                       if fid > 0 \<and> fid \<noteq> fid32 d then
                         (case native_get s (make_verification_adds_key fid (vab_address v)) of
                            None \<Rightarrow> Ok conflicts
                          | Some h \<Rightarrow>
                              andThen (message_ts_hash m) (\<lambda>ts_hash.
                                if length h < 24 then Throw native_panic
                                else
                                  (let c = sd_compare S (sd_add_type S) h (sd_add_type S) ts_hash in
                                   if c > 0 then fail Conflict ''message conflicts with a more recent add''
                                   else if c = 0 then fail Conflict ''message has already been merged''
                                   else
                                     andThen (vec_to_u8_24 h) (\<lambda>h.
                                     mapOk (native_get_message C s fid (sd_postfix S) h) (\<lambda>r.
                                       case r of Some ex \<Rightarrow> conflicts @ [ex] | None \<Rightarrow> conflicts)))))
                       else Ok conflicts))
            | _ \<Rightarrow> fail ValidationFailure ''Invalid verification body''))))"

definition VerificationStoreDef :: "int \<Rightarrow> store_def" where
  "VerificationStoreDef n = (verification_defaults n)\<lparr>sd_conflicts := Some (verification_merge_conflicts n)\<rparr>"

section \<open>Username proofs\<close>

definition proof_body :: "string \<Rightarrow> Message \<Rightarrow> (MessageData \<times> UserNameProof) outcome" where
  "proof_body no_body m =
     (case msg_data m of
        None \<Rightarrow> fail ValidationFailure ''Message data is missing''
      | Some d \<Rightarrow>
          (case native_body d of
             Some (BodyUsernameProof p) \<Rightarrow> Ok (d, p)
           | _ \<Rightarrow> fail ValidationFailure no_body))"

definition make_username_proof_by_name_key :: "bytes \<Rightarrow> bytes" where
  "make_username_proof_by_name_key name = root_byte UserNameProofByName # name"

definition make_username_proof_by_fid_key :: "int \<Rightarrow> bytes \<Rightarrow> bytes" where
  "make_username_proof_by_fid_key fid name = native_user_key fid @ postfix_byte UserNameProofAdds # name"

definition proof_name_index :: "string \<Rightarrow> Message \<Rightarrow> (MessageData \<times> bytes) outcome" where
  "proof_name_index no_body m =
     andThen (proof_body no_body m) (\<lambda>(d, p).
       if unp_name p = [] then bad_param ''name empty''
       else Ok (d, make_username_proof_by_name_key (unp_name p)))"

definition message_proof :: "Message \<Rightarrow> UserNameProof option" where
  "message_proof m =
     (case msg_data m of
        Some d \<Rightarrow> (case native_body d of Some (BodyUsernameProof p) \<Rightarrow> Some p | _ \<Rightarrow> None)
      | None \<Rightarrow> None)"

definition proof_event ::
  "UserNameProof option \<Rightarrow> UserNameProof option \<Rightarrow> Message option \<Rightarrow> Message option \<Rightarrow> HubEvent" where
  "proof_event proof deleted message deleted_message =
     (native_event HUB_EVENT_MERGE_USERNAME_PROOF)
       \<lparr>he_mergeUsernameProofBody := Some
          \<lparr>mupb_usernameProof = proof, mupb_deletedUsernameProof = deleted,
           mupb_usernameProofMessage = message, mupb_deletedUsernameProofMessage = deleted_message\<rparr>\<rparr>"

definition username_proof_merge_event :: "Message \<Rightarrow> Message list \<Rightarrow> HubEvent" where
  "username_proof_merge_event m conflicts =
     (let deleted = (case conflicts of [] \<Rightarrow> None | c # _ \<Rightarrow> message_proof c) in
      proof_event (message_proof m) deleted (Some m) (if deleted = None then None else Some (hd conflicts)))"

definition username_proof_revoke_event :: "Message \<Rightarrow> HubEvent" where
  "username_proof_revoke_event m = proof_event None (message_proof m) None (Some m)"

text \<open>A missing ts hash is an error of \<^verbatim>\<open>vec_to_u8_24\<close>; a message that cannot be read is skipped.\<close>

definition username_proof_merge_conflicts ::
  "proto_codec \<Rightarrow> store \<Rightarrow> Message \<Rightarrow> bytes \<Rightarrow> Message list outcome" where
  "username_proof_merge_conflicts C s m ts_hash =
     andThen (proof_body ''Message data body is missing'' m) (\<lambda>(d, p).
       case native_get s (make_username_proof_by_name_key (unp_name p)) of
         None \<Rightarrow> Ok []
       | Some fid_bytes \<Rightarrow>
           andThen (read_fid_key fid_bytes) (\<lambda>fid.
             if fid = 0 then Ok []
             else
               andThen (case native_get s (make_username_proof_by_fid_key fid (unp_name p)) of
                          Some h \<Rightarrow> vec_to_u8_24 h
                        | None \<Rightarrow> fail (OtherCode (lit ''bad_request.internal_error'')) ''message_ts_hash is not 24 bytes'')
                 (\<lambda>h. case native_get_message C s fid (postfix_byte UsernameProofMessage) h of
                        Ok (Some ex) \<Rightarrow>
                          (let c = default_message_compare USERNAME_PROOF 0 USERNAME_PROOF h USERNAME_PROOF ts_hash in
                           if c > 0 then fail Conflict ''message conflicts with a more recent add''
                           else if c = 0 then fail Duplicate ''message has already been merged''
                           else Ok [ex])
                      | _ \<Rightarrow> Ok [])))"

definition UsernameProofStoreDef :: "int \<Rightarrow> store_def" where
  "UsernameProofStoreDef prune_size_limit =
     \<lparr>sd_postfix = postfix_byte UsernameProofMessage,
      sd_add_type = USERNAME_PROOF, sd_remove_type = 0, sd_compact_type = 0,
      sd_is_add = is_native_type USERNAME_PROOF, sd_is_remove = (\<lambda>_. False), sd_is_compact = (\<lambda>_. False),
      sd_build_secondary =
        (\<lambda>h m. mapOk (proof_name_index ''Message body is missing or incorrect'' m)
                  (\<lambda>(d, k). [(k, Some (native_fid_key (fid32 d)))])),
      sd_delete_secondary =
        (\<lambda>h m. mapOk (proof_name_index ''Message data body is missing or incorrect'' m) (\<lambda>(d, k). [(k, None)])),
      sd_delete_remove_secondary = (\<lambda>m. Ok []),
      sd_add_key =
        (\<lambda>m. mapOk (proof_body ''Message body is missing'' m)
                (\<lambda>(d, p). make_username_proof_by_fid_key (fid32 d) (unp_name p))),
      sd_remove_key = (\<lambda>m. fail ValidationFailure ''Remove not supported''),
      sd_compact_key = (\<lambda>m. bad_param ''Username Proof Store doesn't support compact state''),
      sd_compare = default_message_compare USERNAME_PROOF 0,
      sd_prune_limit = prune_size_limit,
      sd_conflicts = Some username_proof_merge_conflicts,
      sd_merge_event = Some username_proof_merge_event,
      sd_revoke_event = Some username_proof_revoke_event,
      sd_prune_event = Some username_proof_revoke_event\<rparr>"

section \<open>Proofs of the name registry\<close>

definition make_fname_username_proof_key :: "bytes \<Rightarrow> bytes" where
  "make_fname_username_proof_key name = root_byte FNameUserNameProof # name"

definition make_fname_username_proof_by_fid_key :: "int \<Rightarrow> bytes" where
  "make_fname_username_proof_by_fid_key fid = root_byte FNameUserNameProofByFid # native_fid_key fid"

definition decode_proof :: "proto_codec \<Rightarrow> bytes \<Rightarrow> UserNameProof option outcome" where
  "decode_proof C bs =
     (case decodeUserNameProof C bs of
        Ok p \<Rightarrow> Ok (Some p)
      | _ \<Rightarrow> fail (OtherCode (lit ''internal_error'')) ''could not decode username proof'')"

definition get_username_proof :: "proto_codec \<Rightarrow> store \<Rightarrow> bytes \<Rightarrow> UserNameProof option outcome" where
  "get_username_proof C s name =
     (case native_get s (make_fname_username_proof_key name) of None \<Rightarrow> Ok None | Some bs \<Rightarrow> decode_proof C bs)"

definition get_fname_proof_by_fid :: "proto_codec \<Rightarrow> store \<Rightarrow> int \<Rightarrow> UserNameProof option outcome" where
  "get_fname_proof_by_fid C s fid =
     (case native_get s (make_fname_username_proof_by_fid_key fid) of
        None \<Rightarrow> Ok None
      | Some k \<Rightarrow> (case native_get s k of None \<Rightarrow> Ok None | Some bs \<Rightarrow> decode_proof C bs))"

definition put_username_proof_transaction :: "proto_codec \<Rightarrow> UserNameProof \<Rightarrow> transaction" where
  "put_username_proof_transaction C p =
     (let k = make_fname_username_proof_key (unp_name p) in
      [(k, Some (encodeUserNameProof C p)), (make_fname_username_proof_by_fid_key (as_u32 (unp_fid p)), Some k)])"

text \<open>A proof for user 0 takes the name away; the proof itself stays as a tombstone.\<close>

definition delete_username_proof_transaction :: "proto_codec \<Rightarrow> UserNameProof \<Rightarrow> int option \<Rightarrow> transaction" where
  "delete_username_proof_transaction C p existing_fid =
     (make_fname_username_proof_key (unp_name p), Some (encodeUserNameProof C p)) #
     (case existing_fid of Some f \<Rightarrow> [(make_fname_username_proof_by_fid_key f, None)] | None \<Rightarrow> [])"

definition merge_username_proof ::
  "proto_codec \<Rightarrow> hub_event_codec \<Rightarrow> int \<Rightarrow> UserNameProof \<Rightarrow> native_state \<Rightarrow> HubEvent outcome \<times> native_state" where
  "merge_username_proof C D now p st =
     (if \<not> rdb_native_open (fst st) then (Throw native_panic, st)
      else
        (case get_username_proof C (rdb_disk (fst st)) (unp_name p) of
           Err e \<Rightarrow> (Err e, st)
         | Throw t \<Rightarrow> (Throw t, st)
         | Ok existing \<Rightarrow>
             (let c = (case existing of Some ex \<Rightarrow> usernameProofCompare ex p | None \<Rightarrow> -1) in
              if c = 0 then (fail Duplicate ''username proof already exists'', st)
              else if c > 0 then (fail Conflict ''event conflicts with a more recent UserNameProof'', st)
              else if existing = None \<and> unp_fid p = numI 0 then (fail Conflict ''proof does not exist'', st)
              else
                commit_with_event D now
                  (Ok (if unp_fid p = numI 0
                       then delete_username_proof_transaction C p (map_option (\<lambda>ex. as_u32 (unp_fid ex)) existing)
                       else put_username_proof_transaction C p))
                  (proof_event (Some p) existing None None) st)))"

text \<open>\<^verbatim>\<open>UsernameProofStore::get_username_proof\<close>: the owner of the name, then the owner's message.\<close>

definition proof_question :: "int \<Rightarrow> bytes \<Rightarrow> Message" where
  "proof_question fid name =
     \<lparr>msg_data = Some
        \<lparr>md_type = 0, md_fid = numI fid, md_timestamp = 0, md_network = 0,
         md_castAddBody = None, md_castRemoveBody = None, md_reactionBody = None,
         md_verificationAddAddressBody = None, md_verificationRemoveBody = None, md_userDataBody = None,
         md_linkBody = None,
         md_usernameProofBody = Some \<lparr>unp_timestamp = 0, unp_name = name, unp_owner = [], unp_signature = [],
           unp_fid = numI 0, unp_type = 0\<rparr>,
         md_frameActionBody = None, md_linkCompactStateBody = None\<rparr>,
      msg_hash = None, msg_hashScheme = 0, msg_signature = None, msg_signatureScheme = 0, msg_signer = None,
      msg_dataBytes = None\<rparr>"

definition get_ens_proof_message :: "proto_codec \<Rightarrow> store \<Rightarrow> bytes \<Rightarrow> int \<Rightarrow> Message option outcome" where
  "get_ens_proof_message C s name name_type =
     (if name_type \<noteq> USERNAME_TYPE_ENS_L1
      then fail_js BadRequest (lit ''Unsupported username type '' @ int_to_string 10 name_type @
             lit ''. Only ENS L1 is supported'')
      else
        (case native_get s (make_username_proof_by_name_key name) of
           None \<Rightarrow> fail NotFound ''NotFound: Username proof not found''
         | Some fid_bytes \<Rightarrow>
             andThen (read_fid_key fid_bytes) (\<lambda>fid.
               native_get_add (UsernameProofStoreDef 0) C s (proof_question fid name))))"

section \<open>Pages of messages\<close>

record messages_page =
  mp_messages :: "bytes list"
  mp_nextPageToken :: "bytes option"

fun page_loop ::
  "proto_codec \<Rightarrow> (Message \<Rightarrow> bool) \<Rightarrow> nat \<Rightarrow> bytes list \<Rightarrow> store \<Rightarrow> (bytes list \<times> bytes option) outcome" where
  "page_loop C keep limit acc [] = Ok (acc, None)"
| "page_loop C keep limit acc (kv # kvs) =
     (case native_decode C (snd kv) of
        Ok m \<Rightarrow>
          (if keep m then
             (let acc = acc @ [snd kv] in
              if length acc \<ge> limit then Ok (acc, Some (fst kv)) else page_loop C keep limit acc kvs)
           else page_loop C keep limit acc kvs)
      | _ \<Rightarrow> fail db_internal_error ''could not decode message'')"

definition get_messages_page_by_prefix ::
  "proto_codec \<Rightarrow> store \<Rightarrow> bytes \<Rightarrow> page_options \<Rightarrow> (Message \<Rightarrow> bool) \<Rightarrow> messages_page outcome" where
  "get_messages_page_by_prefix C s pre opts keep =
     mapOk (page_loop C keep (case po_pageSize opts of Some n \<Rightarrow> n | None \<Rightarrow> PAGE_SIZE_MAX) []
              (scan_by_prefix s pre opts))
       (\<lambda>(messages, last_key).
          \<lparr>mp_messages = messages, mp_nextPageToken = map_option (drop (length pre)) last_key\<rparr>)"

definition is_message_in_time_range :: "int option \<Rightarrow> int option \<Rightarrow> Message \<Rightarrow> bool" where
  "is_message_in_time_range start_time stop_time m =
     (case msg_data m of
        None \<Rightarrow> False
      | Some d \<Rightarrow>
          (case start_time of Some t \<Rightarrow> t | None \<Rightarrow> 0) \<le> md_timestamp d \<and>
          md_timestamp d \<le> (case stop_time of Some t \<Rightarrow> t | None \<Rightarrow> 2 ^ 32 - 1))"

definition native_get_adds_by_fid ::
  "store_def \<Rightarrow> proto_codec \<Rightarrow> store \<Rightarrow> int \<Rightarrow> page_options \<Rightarrow> (Message \<Rightarrow> bool) \<Rightarrow> messages_page outcome" where
  "native_get_adds_by_fid S C s fid opts keep =
     get_messages_page_by_prefix C s (native_primary_key fid (sd_postfix S) []) opts
       (\<lambda>m. sd_is_add S m \<and> keep m)"

definition native_get_removes_by_fid ::
  "store_def \<Rightarrow> proto_codec \<Rightarrow> store \<Rightarrow> int \<Rightarrow> page_options \<Rightarrow> (Message \<Rightarrow> bool) \<Rightarrow> messages_page outcome" where
  "native_get_removes_by_fid S C s fid opts keep =
     (if \<not> remove_type_supported S then fail ValidationFailure ''remove type not supported''
      else get_messages_page_by_prefix C s (native_primary_key fid (sd_postfix S) []) opts
             (\<lambda>m. sd_is_remove S m \<and> keep m))"

definition native_get_all_messages_by_fid ::
  "store_def \<Rightarrow> proto_codec \<Rightarrow> store \<Rightarrow> int \<Rightarrow> int option \<Rightarrow> int option \<Rightarrow> page_options \<Rightarrow> messages_page outcome" where
  "native_get_all_messages_by_fid S C s fid start_time stop_time opts =
     get_messages_page_by_prefix C s (native_primary_key fid (sd_postfix S) []) opts
       (\<lambda>m. is_message_in_time_range start_time stop_time m \<and>
            (sd_is_add S m \<or> (remove_type_supported S \<and> sd_is_remove S m)))"

definition native_get_compact_state_messages_by_fid ::
  "proto_codec \<Rightarrow> store \<Rightarrow> int \<Rightarrow> page_options \<Rightarrow> messages_page outcome" where
  "native_get_compact_state_messages_by_fid C s fid opts =
     get_messages_page_by_prefix C s (native_user_key fid @ [postfix_byte LinkCompactStateMessage]) opts
       (sd_is_compact (LinkStoreDef 0))"


text \<open>The messages that a page may hold, and what a page holds of them.\<close>

definition kept_messages :: "proto_codec \<Rightarrow> (Message \<Rightarrow> bool) \<Rightarrow> store \<Rightarrow> bytes list" where
  "kept_messages C keep kvs =
     map snd (filter (\<lambda>kv. case native_decode C (snd kv) of Ok m \<Rightarrow> keep m | _ \<Rightarrow> False) kvs)"

lemma kept_messages_append [simp]:
  "kept_messages C keep (a @ b) = kept_messages C keep a @ kept_messages C keep b"
  by (simp add: kept_messages_def)

lemma page_loop_parts:
  "page_loop C keep limit acc kvs = Ok (ms, last_key) \<Longrightarrow>
   \<exists>b r. kvs = b @ r \<and> ms = acc @ kept_messages C keep b \<and>
         (case last_key of None \<Rightarrow> r = [] | Some k \<Rightarrow> \<exists>b' v. b = b' @ [(k, v)])"
proof (induction kvs arbitrary: acc)
  case Nil
  then show ?case by (simp add: kept_messages_def)
next
  case (Cons kv kvs)
  from Cons.prems obtain m where m: "native_decode C (snd kv) = Ok m"
    by (cases "native_decode C (snd kv)") auto
  show ?case
  proof (cases "keep m \<and> limit \<le> length (acc @ [snd kv])")
    case True
    then have "ms = acc @ kept_messages C keep [kv]" "last_key = Some (fst kv)"
      using Cons.prems m by (auto simp: kept_messages_def)
    then show ?thesis by (intro exI[of _ "[kv]"] exI[of _ kvs]) (auto intro: exI[of _ "snd kv"])
  next
    case False
    then have "page_loop C keep limit (acc @ kept_messages C keep [kv]) kvs = Ok (ms, last_key)"
      using Cons.prems m by (auto simp: kept_messages_def split: if_splits)
    from Cons.IH[OF this] obtain b r where
      b: "kvs = b @ r" "ms = (acc @ kept_messages C keep [kv]) @ kept_messages C keep b"
        "case last_key of None \<Rightarrow> r = [] | Some k \<Rightarrow> \<exists>b' v. b = b' @ [(k, v)]"
      by blast
    have "kept_messages C keep (kv # b) = kept_messages C keep [kv] @ kept_messages C keep b"
      using kept_messages_append[of C keep "[kv]" b] by simp
    then show ?thesis using b
      by (intro exI[of _ "kv # b"] exI[of _ r]) (auto split: option.splits intro: exI[of _ "kv # _"])
  qed
qed

lemma page_of_messages:
  assumes "db_inv s" "fixed_layout s pre m"
    and page: "get_messages_page_by_prefix C s pre opts keep = Ok pg"
  shows "kept_messages C keep (scan_by_prefix s pre opts) =
         mp_messages pg @
         (case mp_nextPageToken pg of
            None \<Rightarrow> []
          | Some t \<Rightarrow> kept_messages C keep (scan_by_prefix s pre (opts\<lparr>po_pageToken := Some t\<rparr>)))"
proof -
  obtain ms last_key where l: "page_loop C keep (case po_pageSize opts of Some n \<Rightarrow> n | None \<Rightarrow> PAGE_SIZE_MAX) []
      (scan_by_prefix s pre opts) = Ok (ms, last_key)"
    and pg: "pg = \<lparr>mp_messages = ms, mp_nextPageToken = map_option (drop (length pre)) last_key\<rparr>"
    using page by (auto simp: get_messages_page_by_prefix_def mapOk_Ok_iff)
  from page_loop_parts[OF l] obtain b r where
    b: "scan_by_prefix s pre opts = b @ r" "ms = kept_messages C keep b"
      "case last_key of None \<Rightarrow> r = [] | Some k \<Rightarrow> \<exists>b' v. b = b' @ [(k, v)]"
    by auto
  show ?thesis
  proof (cases last_key)
    case None
    with b pg show ?thesis by (simp add: kept_messages_def)
  next
    case (Some k)
    with b(3) obtain b' v where bk: "b = b' @ [(k, v)]" by auto
    then have w: "scan_by_prefix s pre opts = b' @ (k, v) # r" using b(1) by simp
    then have "(k, v) \<in> set (scan_by_prefix s pre opts)" by simp
    then have "prefix pre k" "k \<in> fst ` set s"
      using scan_has_prefix[OF assms(2)] scan_in_store by force+
    from scan_next[OF assms(1,2) w this] show ?thesis
      using b(1,2) pg Some by (simp add: next_options_def)
  qed
qed

section \<open>What the indices lead to\<close>

lemma andThen_mapOk:
  "mapOk (andThen r f) g = andThen r (\<lambda>x. mapOk (f x) g)"
  "andThen (andThen r f') g' = andThen r (\<lambda>x. andThen (f' x) g')"
  by (cases r; simp)+

lemma no_panic_digest: "length t = LINK_TYPE_BYTE_SIZE \<Longrightarrow> resize_type t = t"
  by (simp add: resize_type_def pad_end_def)

text \<open>With a type of eight bytes the padded key is the unpadded one, so every conflict is found twice.\<close>

lemma link_keys_same:
  assumes "msg_data m = Some d" "native_body d = Some (BodyLink l)" "length (utf8_encode (lb_type l)) = 8"
  shows "make_add_key_padded m False = make_add_key_padded m True"
    and "make_remove_key_padded m False = make_remove_key_padded m True"
proof -
  have "resize_type (utf8_encode (lb_type l)) = utf8_encode (lb_type l)"
    using assms(3) by (intro no_panic_digest) (simp add: LINK_TYPE_BYTE_SIZE_def)
  then show "make_add_key_padded m False = make_add_key_padded m True"
      "make_remove_key_padded m False = make_remove_key_padded m True"
    using assms(1,2) by (simp_all add: make_add_key_padded_def make_remove_key_padded_def link_key_padded_def
        link_body_def checked_body_def link_set_key_def Let_def)
qed

lemma link_conflicts_twice:
  assumes "msg_data m = Some d" "native_body d = Some (BodyLink l)" "length (utf8_encode (lb_type l)) = 8"
  shows "get_merge_conflicts (LinkStoreDef n) C s m h =
         mapOk (get_default_merge_conflicts (LinkStoreDef n) C s m h) (\<lambda>cs. cs @ cs)"
proof -
  have rs: "remove_type_supported (link_defaults n)" "remove_type_supported (LinkStoreDef n)"
    by (simp_all add: remove_type_supported_def LinkStoreDef_def link_defaults_def)
  have eq: "index_conflict (LinkStoreDef n) = index_conflict (link_defaults n)"
    by (intro ext) (simp add: index_conflict_def LinkStoreDef_def Let_def split: option.split)
  have flds: "sd_remove_key (LinkStoreDef n) = sd_remove_key (link_defaults n)"
    "sd_add_key (LinkStoreDef n) = sd_add_key (link_defaults n)"
    "sd_remove_type (LinkStoreDef n) = sd_remove_type (link_defaults n)"
    "sd_add_type (LinkStoreDef n) = sd_add_type (link_defaults n)"
    by (simp_all add: LinkStoreDef_def)
  have keys: "sd_remove_key (link_defaults n) m = make_remove_key_padded m False"
    "sd_add_key (link_defaults n) m = make_add_key_padded m False"
    using link_keys_same[OF assms] by (simp_all add: link_defaults_def)
  have cf: "get_merge_conflicts (LinkStoreDef n) = link_merge_conflicts n"
    by (simp add: get_merge_conflicts_def LinkStoreDef_def)
  have d: "native_data m = Ok d" using assms(1) by (simp add: native_data_def)
  define R A where RA:
      "R = andThen (make_remove_key_padded m False) (\<lambda>k. index_conflict (link_defaults n) C s
             (sd_remove_type (link_defaults n)) ''remove'' k d h)"
      "A = andThen (make_add_key_padded m False) (\<lambda>k. index_conflict (link_defaults n) C s
             (sd_add_type (link_defaults n)) ''add'' k d h)"
  have one: "get_default_merge_conflicts S C s m h = andThen R (\<lambda>r. mapOk A (\<lambda>a. r @ a))"
    if "S = link_defaults n \<or> S = LinkStoreDef n" for S
    using that rs keys by (auto simp: get_default_merge_conflicts_def eq flds d RA andThen_mapOk)
  have "link_merge_conflicts n C s m h =
      andThen (get_default_merge_conflicts (link_defaults n) C s m h)
        (\<lambda>cs. andThen R (\<lambda>r. mapOk A (\<lambda>a. cs @ r @ a)))"
    by (simp add: link_merge_conflicts_def Let_def d RA andThen_mapOk)
  then show ?thesis
    unfolding cf one[of "LinkStoreDef n", simplified] one[of "link_defaults n", simplified]
    by (cases R; cases A) simp_all
qed


text \<open>A name that moves from one user to another keeps the entry of its old owner.\<close>

definition proof_coded :: "proto_codec \<Rightarrow> UserNameProof \<Rightarrow> bool" where
  "proof_coded C p \<longleftrightarrow> decodeUserNameProof C (encodeUserNameProof C p) = Ok p"

lemma registry_keys_differ [simp]:
  "make_fname_username_proof_key n \<noteq> make_fname_username_proof_by_fid_key f"
  "make_fname_username_proof_by_fid_key f \<noteq> make_fname_username_proof_key n"
  by (simp_all add: make_fname_username_proof_key_def make_fname_username_proof_by_fid_key_def)

lemma by_fid_key_inject:
  "make_fname_username_proof_by_fid_key f = make_fname_username_proof_by_fid_key g \<Longrightarrow>
   0 \<le> f \<Longrightarrow> f < 2 ^ 32 \<Longrightarrow> 0 \<le> g \<Longrightarrow> g < 2 ^ 32 \<Longrightarrow> f = g"
  by (auto simp: make_fname_username_proof_by_fid_key_def native_fid_key_def dest: be_bytes_inject[where k = 4])

lemma as_u32_range: "0 \<le> as_u32 n" "as_u32 n < 2 ^ 32"
  by (simp_all add: as_u32_def split: number.split)

lemma merge_proof_Ok:
  assumes "merge_username_proof C D now p (db, g) = (Ok ev, st')" and inv: "db_inv (rdb_disk db)"
    and k: "k \<in> range make_fname_username_proof_key \<union> range make_fname_username_proof_by_fid_key"
  shows "\<exists>existing. get_username_proof C (rdb_disk db) (unp_name p) = Ok existing \<and>
           he_mergeUsernameProofBody ev = he_mergeUsernameProofBody (proof_event (Some p) existing None None) \<and>
           db_get (rdb_disk (fst st')) k =
             (case map_of (rev (if unp_fid p = numI 0
                then delete_username_proof_transaction C p (map_option (\<lambda>ex. as_u32 (unp_fid ex)) existing)
                else put_username_proof_transaction C p)) k of Some r \<Rightarrow> r | None \<Rightarrow> db_get (rdb_disk db) k)"
proof -
  obtain existing where ex: "get_username_proof C (rdb_disk db) (unp_name p) = Ok existing"
    and c: "commit_with_event D now (Ok (if unp_fid p = numI 0
        then delete_username_proof_transaction C p (map_option (\<lambda>ex. as_u32 (unp_fid ex)) existing)
        else put_username_proof_transaction C p))
      (proof_event (Some p) existing None None) (db, g) = (Ok ev, st')"
    using assms(1) by (auto simp: merge_username_proof_def Let_def split: outcome.splits if_splits)
  from commit_with_event_Ok[OF c] obtain i where
    ev: "ev = (proof_event (Some p) existing None None)\<lparr>he_id := i\<rparr>"
    and st: "fst st' = db\<lparr>rdb_disk := commit_batch (native_batch ((if unp_fid p = numI 0
        then delete_username_proof_transaction C p (map_option (\<lambda>ex. as_u32 (unp_fid ex)) existing)
        else put_username_proof_transaction C p) @ [(root_byte HubEvents # be_bytes 8 i,
                          Some (encodeHubEvent D ev))])) (rdb_disk db)\<rparr>"
    by auto
  have "k \<noteq> root_byte HubEvents # b" for b
    using k by (auto simp: make_fname_username_proof_key_def make_fname_username_proof_by_fid_key_def)
  with ex inv show ?thesis by (intro exI[of _ existing]) (simp add: ev st native_commit_get)
qed

lemma merge_proof_state:
  "merge_username_proof C D now p (db, g) = (Ok ev, st') \<Longrightarrow> db_inv (rdb_disk db) \<Longrightarrow> db_inv (rdb_disk (fst st'))"
  by (auto simp: merge_username_proof_def Let_def commit_inv dest!: commit_with_event_Ok
      split: outcome.splits if_splits)

lemma merged_proof_entry:
  assumes merge: "merge_username_proof C D now p (db, g) = (Ok ev, st')" and inv: "db_inv (rdb_disk db)"
    and "unp_fid p \<noteq> numI 0"
  shows "native_get (rdb_disk (fst st')) (make_fname_username_proof_by_fid_key (as_u32 (unp_fid p))) =
           Some (make_fname_username_proof_key (unp_name p))"
  using merge_proof_Ok[OF merge inv, of "make_fname_username_proof_by_fid_key (as_u32 (unp_fid p))"] assms(3)
  by (auto simp: put_username_proof_transaction_def Let_def native_get_def)

lemma transferred_name_found:
  assumes stored: "native_get (rdb_disk db) (make_fname_username_proof_by_fid_key f) =
      Some (make_fname_username_proof_key (unp_name p))"
    and new: "unp_fid p \<noteq> numI 0" "as_u32 (unp_fid p) \<noteq> f" "0 \<le> f" "f < 2 ^ 32"
    and merge: "merge_username_proof C D now p (db, g) = (Ok ev, st')"
    and inv: "db_inv (rdb_disk db)" and coded: "proof_coded C p"
  shows "get_fname_proof_by_fid C (rdb_disk (fst st')) f = Ok (Some p)"
proof -
  have ne: "make_fname_username_proof_by_fid_key f \<noteq> make_fname_username_proof_by_fid_key (as_u32 (unp_fid p))"
    using by_fid_key_inject[OF _ new(3,4) as_u32_range] new(2) by auto
  have "db_get (rdb_disk (fst st')) (make_fname_username_proof_by_fid_key f) =
        Some (make_fname_username_proof_key (unp_name p))"
    using merge_proof_Ok[OF merge inv, of "make_fname_username_proof_by_fid_key f"] stored new(1) ne
    by (auto simp: put_username_proof_transaction_def Let_def native_get_def)
  moreover have "db_get (rdb_disk (fst st')) (make_fname_username_proof_key (unp_name p)) =
        Some (encodeUserNameProof C p)"
    using merge_proof_Ok[OF merge inv, of "make_fname_username_proof_key (unp_name p)"] new(1)
    by (auto simp: put_username_proof_transaction_def Let_def)
  ultimately show ?thesis
    using coded by (simp add: get_fname_proof_by_fid_def native_get_def decode_proof_def proof_coded_def)
qed

text \<open>What a merged proof leaves: its own, found by its name and, unless it gives the name back, by its user.\<close>

lemma merged_proof_found:
  assumes merge: "merge_username_proof C D now p (db, g) = (Ok ev, st')"
    and "db_inv (rdb_disk db)" "proof_coded C p"
  shows "get_username_proof C (rdb_disk (fst st')) (unp_name p) = Ok (Some p)"
    and "unp_fid p \<noteq> numI 0 \<Longrightarrow> get_fname_proof_by_fid C (rdb_disk (fst st')) (as_u32 (unp_fid p)) = Ok (Some p)"
    and "unp_fid p = numI 0 \<Longrightarrow> get_username_proof C (rdb_disk db) (unp_name p) = Ok (Some q) \<Longrightarrow>
         get_fname_proof_by_fid C (rdb_disk (fst st')) (as_u32 (unp_fid q)) = Ok None"
proof -
  have name: "db_get (rdb_disk (fst st')) (make_fname_username_proof_key (unp_name p)) =
        Some (encodeUserNameProof C p)"
    using merge_proof_Ok[OF merge assms(2), of "make_fname_username_proof_key (unp_name p)"]
    by (auto simp: put_username_proof_transaction_def delete_username_proof_transaction_def Let_def
        split: if_splits option.splits)
  then show "get_username_proof C (rdb_disk (fst st')) (unp_name p) = Ok (Some p)"
    using assms(3) by (simp add: get_username_proof_def native_get_def decode_proof_def proof_coded_def)
  show "get_fname_proof_by_fid C (rdb_disk (fst st')) (as_u32 (unp_fid p)) = Ok (Some p)" if "unp_fid p \<noteq> numI 0"
    using merge_proof_Ok[OF merge assms(2), of "make_fname_username_proof_by_fid_key (as_u32 (unp_fid p))"] that
      name assms(3)
    by (auto simp: put_username_proof_transaction_def Let_def get_fname_proof_by_fid_def native_get_def
        decode_proof_def proof_coded_def)
  show "get_fname_proof_by_fid C (rdb_disk (fst st')) (as_u32 (unp_fid q)) = Ok None"
    if "unp_fid p = numI 0" "get_username_proof C (rdb_disk db) (unp_name p) = Ok (Some q)"
    using merge_proof_Ok[OF merge assms(2), of "make_fname_username_proof_by_fid_key (as_u32 (unp_fid q))"] that
    by (auto simp: delete_username_proof_transaction_def get_fname_proof_by_fid_def native_get_def)
qed

end
