(* ===== verification/RustStore.thy ===== *)
theory RustStore
  imports MoreStores
begin

text \<open>
  The stores of \<^verbatim>\<open>storage/stores/\<close>: the common operations of \<^verbatim>\<open>rustStoreBase.ts\<close>, the functions of
  \<^verbatim>\<open>rustfunctions.ts\<close> they call, and the bridge between the two languages. Every operation reads the
  database and the event handler and returns them changed; the native event ids come from the generator
  inside the handler. A native error arrives as an exception whose message is the code, a slash and the message
  (\<open>bridge\<close>), and \<^verbatim>\<open>rustErrorToHubError\<close> takes it apart again. The events of a merge are announced before
  the next step, as the handler does when nothing else is waiting.
\<close>

section \<open>The bridge\<close>

text \<open>What stays fixed while a hub runs: the bound on iterations and the generated coders.\<close>

record hub_params =
  hp_fuel :: nat
  hp_proto :: proto_codec
  hp_events :: hub_event_codec
  hp_encodeCastId :: "CastId \<Rightarrow> bytes"
  hp_decodeCastId :: "bytes \<Rightarrow> CastId outcome"

type_synonym hub_state = "rocksdb \<times> event_handler"
type_synonym 'a hub_result = "'a outcome option \<times> hub_state"

definition code_string :: "hub_error_code \<Rightarrow> js_string" where
  "code_string c =
     (case c of
        OtherCode s \<Rightarrow> s
      | _ \<Rightarrow> (case map_of (map (\<lambda>(s, c). (c, s)) HubErrorCode_strings) c of Some s \<Rightarrow> s | None \<Rightarrow> []))"

definition native_exn :: "hub_error \<Rightarrow> js_exn" where
  "native_exn e = JsError (code_string (errCode e) @ lit ''/'' @ err_message e)"

fun bridge :: "'a outcome \<Rightarrow> 'a outcome" where
  "bridge (Err e) = Throw (native_exn e)"
| "bridge r = r"

text \<open>A native operation works on the database and the event ids.\<close>

definition native_call :: "(native_state \<Rightarrow> 'a outcome \<times> native_state) \<Rightarrow> hub_state \<Rightarrow> 'a hub_result" where
  "native_call f hub =
     (case f (fst hub, seh_generator (snd hub)) of
        (r, db, g) \<Rightarrow> (Some (bridge r), db, (snd hub)\<lparr>seh_generator := g\<rparr>))"

text \<open>\<^verbatim>\<open>ResultAsync.fromPromise(..., rustErrorToHubError)\<close> and \<^verbatim>\<open>if (r.isErr()) throw r.error\<close>.\<close>

definition caught :: "'a hub_result \<Rightarrow> 'a hub_result" where
  "caught r = (map_option (\<lambda>r. fromPromise r rustErrorToHubError) (fst r), snd r)"

definition throwing :: "'a hub_result \<Rightarrow> 'a hub_result" where
  "throwing r = (map_option throwErr (fst r), snd r)"

definition with_handler ::
  "(rocksdb \<Rightarrow> event_handler \<Rightarrow> 'a outcome option \<times> event_handler) \<Rightarrow> hub_state \<Rightarrow> 'a hub_result" where
  "with_handler f hub = (case f (fst hub) (snd hub) of (r, h) \<Rightarrow> (r, fst hub, h))"

text \<open>\<^verbatim>\<open>as u32\<close> on a number of JavaScript saturates.\<close>

definition js_u32 :: "number \<Rightarrow> int" where
  "js_u32 n =
     (case n of Num q \<Rightarrow> max 0 (min (2 ^ 32 - 1) \<lfloor>q\<rfloor>) | Infinity \<Rightarrow> 2 ^ 32 - 1 | _ \<Rightarrow> 0)"

section \<open>Merging\<close>

record rust_store =
  rs_def :: store_def
  rs_postfix :: UserPostfix
  rs_pruneSizeLimit :: int

text \<open>What \<^verbatim>\<open>Message::decode\<close> makes of the bytes that arrive.\<close>

definition native_input :: "hub_params \<Rightarrow> bytes \<Rightarrow> Message outcome" where
  "native_input E bs =
     (case decodeMessage (hp_proto E) bs of
        Ok m \<Rightarrow> Ok m
      | Err e \<Rightarrow> fail_js ValidationFailure (err_message e)
      | Throw t \<Rightarrow> fail_js ValidationFailure (exn_message t))"

definition js_merge :: "hub_params \<Rightarrow> store_def \<Rightarrow> int \<Rightarrow> bytes \<Rightarrow> native_state \<Rightarrow> bytes outcome \<times> native_state" where
  "js_merge E S now bs st =
     (case native_input E bs of
        Ok m \<Rightarrow>
          (case native_merge S (hp_proto E) (hp_events E) now m st of
             (r, st) \<Rightarrow> (mapOk r (encodeHubEvent (hp_events E)), st))
      | Err e \<Rightarrow> (Err e, st)
      | Throw t \<Rightarrow> (Throw t, st))"

text \<open>A panic in the thread that merges drops the promise unsettled, which neon reports as an error; the
  messages after it are not merged.\<close>

definition deferred_dropped :: js_exn where
  "deferred_dropped = JsError (lit ''`neon::types::Deferred` was dropped without being settled'')"

fun js_merge_many ::
  "hub_params \<Rightarrow> store_def \<Rightarrow> int \<Rightarrow> bytes list \<Rightarrow> native_state \<Rightarrow> bytes outcome list outcome \<times> native_state" where
  "js_merge_many E S now [] st = (Ok [], st)"
| "js_merge_many E S now (bs # bss) st =
     (case js_merge E S now bs st of
        (Throw t, st) \<Rightarrow> (Throw deferred_dropped, st)
      | (r, st) \<Rightarrow>
          (case js_merge_many E S now bss st of (rs, st) \<Rightarrow> (mapOk rs (\<lambda>rs. r # rs), st)))"

definition rsMerge :: "hub_params \<Rightarrow> store_def \<Rightarrow> int \<Rightarrow> bytes \<Rightarrow> hub_state \<Rightarrow> bytes hub_result" where
  "rsMerge E S now bs hub = native_call (js_merge E S now bs) hub"

text \<open>Results are kept by the index of the message. One message alone takes the path of \<^verbatim>\<open>rsMerge\<close>.\<close>

definition rsMergeMany ::
  "hub_params \<Rightarrow> store_def \<Rightarrow> int \<Rightarrow> bytes list \<Rightarrow> hub_state \<Rightarrow> (nat \<times> bytes outcome) list hub_result" where
  "rsMergeMany E S now bss hub =
     (case bss of
        [bs] \<Rightarrow>
          (case caught (rsMerge E S now bs hub) of
             (None, hub) \<Rightarrow> (None, hub)
           | (Some r, hub) \<Rightarrow> settled (Ok [(0, r)]) hub)
      | _ \<Rightarrow>
          await (native_call (js_merge_many E S now bss) hub) (\<lambda>results hub.
            settled (Ok (enumerate 0 (map (\<lambda>r. fromPromise (bridge r) rustErrorToHubError) results))) hub))"

text \<open>\<^verbatim>\<open>void processRustCommittedTransaction(hubEvent)\<close>, for an event that was decoded from the bytes.\<close>

definition announce :: "hub_params \<Rightarrow> int \<Rightarrow> bytes \<Rightarrow> hub_state \<Rightarrow> int hub_result" where
  "announce E now bs hub =
     await (settled (decodeHubEvent (hp_events E) bs) hub) (\<lambda>event hub.
       settled (Ok (he_id event)) (fst hub, snd (processRustCommittedTransaction (fst hub) now event (snd hub))))"

definition would_be_pruned :: hub_error where
  "would_be_pruned = new_HubError Prunable (CtxString (lit ''message would be pruned''))"

definition store_isPrunable :: "hub_params \<Rightarrow> rust_store \<Rightarrow> int \<Rightarrow> Message \<Rightarrow> hub_state \<Rightarrow> bool hub_result" where
  "store_isPrunable E R now m hub =
     with_handler (\<lambda>db. isPrunable (hp_fuel E) (hp_proto E) db now m (rs_postfix R) (rs_pruneSizeLimit R)) hub"

definition RustStoreBase_merge :: "hub_params \<Rightarrow> rust_store \<Rightarrow> int \<Rightarrow> Message \<Rightarrow> hub_state \<Rightarrow> int hub_result" where
  "RustStoreBase_merge E R now m hub =
     await (throwing (store_isPrunable E R now m hub)) (\<lambda>prunable hub.
       if prunable then settled (Throw (HubException would_be_pruned)) hub
       else
         await (throwing (caught (rsMerge E (rs_def R) now (encodeMessage (hp_proto E) m) hub))) (\<lambda>bs hub.
           announce E now bs hub))"

text \<open>The first loop of \<^verbatim>\<open>mergeMessages\<close>: the messages that would be pruned are answered, the others encoded.\<close>

fun prunable_loop ::
  "hub_params \<Rightarrow> rust_store \<Rightarrow> int \<Rightarrow> nat \<Rightarrow> Message list \<Rightarrow> (nat \<times> int outcome) list \<Rightarrow> (nat \<times> bytes) list \<Rightarrow>
   hub_state \<Rightarrow> ((nat \<times> int outcome) list \<times> (nat \<times> bytes) list) hub_result" where
  "prunable_loop E R now i [] results encoded hub = settled (Ok (results, encoded)) hub"
| "prunable_loop E R now i (m # ms) results encoded hub =
     (case store_isPrunable E R now m hub of
        (None, hub) \<Rightarrow> (None, hub)
      | (Some (Throw t), hub) \<Rightarrow> settled (Throw t) hub
      | (Some (Err e), hub) \<Rightarrow> prunable_loop E R now (Suc i) ms (batch_insert (i, Err e) results) encoded hub
      | (Some (Ok True), hub) \<Rightarrow>
          prunable_loop E R now (Suc i) ms (batch_insert (i, Err would_be_pruned) results) encoded hub
      | (Some (Ok False), hub) \<Rightarrow>
          prunable_loop E R now (Suc i) ms results (encoded @ [(i, encodeMessage (hp_proto E) m)]) hub)"

text \<open>The last loop: the events are announced, their ids are the results.\<close>

fun results_loop ::
  "hub_params \<Rightarrow> int \<Rightarrow> (nat \<times> bytes) list \<Rightarrow> (nat \<times> bytes outcome) list \<Rightarrow> (nat \<times> int outcome) list \<Rightarrow>
   hub_state \<Rightarrow> (nat \<times> int outcome) list hub_result" where
  "results_loop E now encoded [] results hub = settled (Ok results) hub"
| "results_loop E now encoded ((j, Err e) # rs) results hub =
     results_loop E now encoded rs (batch_insert (fst (encoded ! j), Err e) results) hub"
| "results_loop E now encoded ((j, Throw t) # rs) results hub = settled (Throw t) hub"
| "results_loop E now encoded ((j, Ok bs) # rs) results hub =
     await (announce E now bs hub) (\<lambda>eventId hub.
       results_loop E now encoded rs (batch_insert (fst (encoded ! j), Ok eventId) results) hub)"

definition RustStoreBase_mergeMessages ::
  "hub_params \<Rightarrow> rust_store \<Rightarrow> int \<Rightarrow> Message list \<Rightarrow> hub_state \<Rightarrow> (nat \<times> int outcome) list hub_result" where
  "RustStoreBase_mergeMessages E R now messages hub =
     await (prunable_loop E R now 0 messages [] [] hub) (\<lambda>(mergeResults, encodedMessages) hub.
       case caught (rsMergeMany E (rs_def R) now (map snd encodedMessages) hub) of
         (None, hub) \<Rightarrow> (None, hub)
       | (Some (Err e), hub) \<Rightarrow>
           settled (Ok (fold (\<lambda>(i, _). batch_insert (i, Err e)) encodedMessages mergeResults)) hub
       | (Some (Throw t), hub) \<Rightarrow> settled (Throw t) hub
       | (Some (Ok rs), hub) \<Rightarrow> results_loop E now encodedMessages rs mergeResults hub)"

section \<open>Revoking and pruning\<close>

definition js_revoke :: "hub_params \<Rightarrow> store_def \<Rightarrow> int \<Rightarrow> bytes \<Rightarrow> native_state \<Rightarrow> bytes outcome \<times> native_state" where
  "js_revoke E S now bs st =
     (case native_input E bs of
        Ok m \<Rightarrow>
          (case native_revoke S (hp_events E) now m st of
             (r, st) \<Rightarrow> (mapOk r (encodeHubEvent (hp_events E)), st))
      | Err e \<Rightarrow> (Err e, st)
      | Throw t \<Rightarrow> (Throw t, st))"

definition RustStoreBase_revoke :: "hub_params \<Rightarrow> rust_store \<Rightarrow> int \<Rightarrow> Message \<Rightarrow> hub_state \<Rightarrow> int hub_result" where
  "RustStoreBase_revoke E R now m hub =
     await (caught (native_call (js_revoke E (rs_def R) now (encodeMessage (hp_proto E) m)) hub)) (\<lambda>bs hub.
       announce E now bs hub)"

text \<open>A limit that is not a number becomes 0 in the native code, a negative count too. A panic happens in the
  thread pool.\<close>

definition js_prune_messages ::
  "hub_params \<Rightarrow> store_def \<Rightarrow> int \<Rightarrow> number \<Rightarrow> int \<Rightarrow> int option \<Rightarrow> native_state \<Rightarrow>
   bytes list outcome \<times> native_state" where
  "js_prune_messages E S now fid cachedCount maxCount st =
     (case native_prune S (hp_proto E) (hp_events E) now (js_u32 fid) (max 0 cachedCount)
             (case maxCount of Some n \<Rightarrow> max 0 n | None \<Rightarrow> 0) st of
        (Throw t, st) \<Rightarrow> (Throw deferred_dropped, st)
      | (r, st) \<Rightarrow> (mapOk r (map (encodeHubEvent (hp_events E))), st))"

fun announce_all :: "hub_params \<Rightarrow> int \<Rightarrow> bytes list \<Rightarrow> int list \<Rightarrow> hub_state \<Rightarrow> int list hub_result" where
  "announce_all E now [] commits hub = settled (Ok commits) hub"
| "announce_all E now (bs # bss) commits hub =
     await (announce E now bs hub) (\<lambda>eventId hub. announce_all E now bss (commits @ [eventId]) hub)"

definition RustStoreBase_pruneMessages ::
  "hub_params \<Rightarrow> rust_store \<Rightarrow> int \<Rightarrow> number \<Rightarrow> hub_state \<Rightarrow> int list hub_result" where
  "RustStoreBase_pruneMessages E R now fid hub =
     (case with_handler (\<lambda>db. getCacheMessageCount db fid (rs_postfix R) False) hub of
        (None, hub) \<Rightarrow> (None, hub)
      | (Some (Throw t), hub) \<Rightarrow> settled (Throw t) hub
      | (Some cachedCount, hub) \<Rightarrow>
          (case with_handler (\<lambda>db. getMaxMessageCount (hp_fuel E) (hp_proto E) db now fid (rs_postfix R)) hub of
             (None, hub) \<Rightarrow> (None, hub)
           | (Some (Throw t), hub) \<Rightarrow> settled (Throw t) hub
           | (Some maxCount, hub) \<Rightarrow>
               await (settled cachedCount hub) (\<lambda>cachedCount hub.
               await (settled maxCount hub) (\<lambda>maxCount hub.
                 let maxCount = (if rs_pruneSizeLimit R > 0 \<and> lt_limit (rs_pruneSizeLimit R) maxCount
                                 then Some (rs_pruneSizeLimit R) else maxCount)
                 in if (case maxCount of Some n \<Rightarrow> cachedCount \<le> n | None \<Rightarrow> False)
                    then settled (Ok []) hub
                    else
                      await (caught (native_call (js_prune_messages E (rs_def R) now fid cachedCount maxCount) hub))
                        (\<lambda>bss hub. announce_all E now bss [] hub)))))"

end
