(* ===== verification/StoreReaders.thy ===== *)
theory StoreReaders
  imports RustStore
begin

text \<open>
  What can be asked of the stores: the classes \<^verbatim>\<open>CastStore\<close>, \<^verbatim>\<open>ReactionStore\<close>, \<^verbatim>\<open>LinkStore\<close>,
  \<^verbatim>\<open>UserDataStore\<close>, \<^verbatim>\<open>VerificationStore\<close> and \<^verbatim>\<open>UsernameProofStore\<close> of \<^verbatim>\<open>storage/stores/\<close> with the native
  functions they call. A lookup of one message throws a \<^verbatim>\<open>HubError\<close>; a page of messages passes the
  exception of the native code on as it is. The lemmas show what an index scan answers, and that scanning the
  casts under a url fails as soon as there is a cast under a longer url.
\<close>

section \<open>Answers of the native code\<close>

definition native_read :: "(store \<Rightarrow> 'a outcome) \<Rightarrow> hub_state \<Rightarrow> 'a hub_result" where
  "native_read f hub =
     (Some (bridge (if rdb_native_open (fst hub) then f (rdb_disk (fst hub)) else Throw native_panic)), hub)"

text \<open>In the thread pool a panic drops the promise.\<close>

definition pooled_read :: "(store \<Rightarrow> 'a outcome) \<Rightarrow> hub_state \<Rightarrow> 'a hub_result" where
  "pooled_read f hub =
     (case native_read f hub of
        (Some r, hub) \<Rightarrow> (Some (if r = Throw native_panic then Throw deferred_dropped else r), hub)
      | (None, hub) \<Rightarrow> (None, hub))"

definition found_message :: "hub_params \<Rightarrow> js_string \<Rightarrow> Message option outcome \<Rightarrow> bytes outcome" where
  "found_message E missing r =
     andThen r (\<lambda>r. case r of
       Some m \<Rightarrow> Ok (encodeMessage (hp_proto E) m)
     | None \<Rightarrow> fail_js NotFound missing)"

definition missing_for :: "string \<Rightarrow> int \<Rightarrow> js_string" where
  "missing_for what fid = lit what @ lit '' for '' @ int_to_string 10 fid"

text \<open>One message: \<^verbatim>\<open>fromPromise\<close>, rethrow, \<^verbatim>\<open>messageDecode\<close>.\<close>

definition decoded_message :: "hub_params \<Rightarrow> bytes hub_result \<Rightarrow> Message hub_result" where
  "decoded_message E r =
     await (throwing (caught r)) (\<lambda>bs hub. settled (messageDecode (hp_proto E) bs) hub)"

record MessagesPage =
  page_messages :: "Message list"
  page_nextPageToken :: "bytes option"

text \<open>A page of messages: \<^verbatim>\<open>messageBytes?.map(messageDecode) ?? []\<close>.\<close>

definition decoded_page :: "hub_params \<Rightarrow> messages_page hub_result \<Rightarrow> MessagesPage hub_result" where
  "decoded_page E r =
     await r (\<lambda>page hub.
       settled
         (mapOk (mapM (messageDecode (hp_proto E)) (mp_messages page)) (\<lambda>ms.
            \<lparr>page_messages = ms, page_nextPageToken = mp_nextPageToken page\<rparr>)) hub)"

text \<open>The messages that an index leads to. The key ends in the ts hash and the fid; the pushes of the closure and
  its early stop are the loop, the messages are fetched after it.\<close>

definition index_target :: "store_def \<Rightarrow> nat \<Rightarrow> bytes \<Rightarrow> bytes outcome" where
  "index_target S n key =
     (if length key < n + 24 + 4 then Throw native_panic
      else Ok (native_primary_key (be_int (take 4 (drop (n + 24) key))) (sd_postfix S) (take 24 (drop n key))))"

fun index_loop ::
  "store_def \<Rightarrow> nat \<Rightarrow> (bytes \<Rightarrow> bool) \<Rightarrow> nat \<Rightarrow> bytes list \<Rightarrow> store \<Rightarrow> (bytes list \<times> bytes option) outcome" where
  "index_loop S n keep limit acc [] = Ok (acc, None)"
| "index_loop S n keep limit acc (kv # kvs) =
     (if keep (snd kv) then
        andThen (index_target S n (fst kv)) (\<lambda>k.
          if length (acc @ [k]) \<ge> limit then Ok (acc @ [k], Some (fst kv))
          else index_loop S n keep limit (acc @ [k]) kvs)
      else index_loop S n keep limit acc kvs)"

definition get_many_messages_as_bytes :: "store \<Rightarrow> bytes list \<Rightarrow> bytes list outcome" where
  "get_many_messages_as_bytes s keys =
     mapM (\<lambda>k. case native_get s k of
                 Some bs \<Rightarrow> Ok bs
               | None \<Rightarrow> fail_js NotFound (lit ''could not get message with key: '' @ debug_bytes k)) keys"

definition get_messages_by_index ::
  "store_def \<Rightarrow> store \<Rightarrow> bytes \<Rightarrow> (bytes \<Rightarrow> bool) \<Rightarrow> page_options \<Rightarrow> messages_page outcome" where
  "get_messages_by_index S s pre keep opts =
     andThen (index_loop S (length pre) keep (case po_pageSize opts of Some n \<Rightarrow> n | None \<Rightarrow> PAGE_SIZE_MAX) []
                (scan_by_prefix s pre opts)) (\<lambda>(keys, last_key).
     mapOk (get_many_messages_as_bytes s keys) (\<lambda>ms.
       \<lparr>mp_messages = ms, mp_nextPageToken = map_option (drop (length pre)) last_key\<rparr>))"

text \<open>A question is a message with the parts that its key is made of.\<close>

definition partial_message :: "int \<Rightarrow> int \<Rightarrow> (MessageData \<Rightarrow> MessageData) \<Rightarrow> bytes \<Rightarrow> Message" where
  "partial_message type fid set_body hash =
     \<lparr>msg_data = Some (set_body (empty_data\<lparr>md_type := type, md_fid := numI fid\<rparr>)), msg_hash = Some hash,
      msg_hashScheme = 0, msg_signature = None, msg_signatureScheme = 0, msg_signer = None, msg_dataBytes = None\<rparr>"

section \<open>The common readers\<close>

definition RustStoreBase_getMessage ::
  "hub_params \<Rightarrow> rust_store \<Rightarrow> number \<Rightarrow> byte \<Rightarrow> bytes \<Rightarrow> hub_state \<Rightarrow> Message hub_result" where
  "RustStoreBase_getMessage E R fid set_postfix tsHash hub =
     decoded_message E
       (native_read (\<lambda>s.
          andThen (vec_to_u8_24 tsHash) (\<lambda>h.
            found_message E (lit ''message not found'')
              (native_get_message (hp_proto E) s (js_u32 fid) set_postfix h))) hub)"

definition getAllMessagesByFid_of ::
  "hub_params \<Rightarrow> rust_store \<Rightarrow> number \<Rightarrow> page_options \<Rightarrow> number option \<Rightarrow> number option \<Rightarrow> hub_state \<Rightarrow>
   MessagesPage hub_result" where
  "getAllMessagesByFid_of E R fid pageOptions startTime stopTime hub =
     decoded_page E
       (native_read (\<lambda>s. native_get_all_messages_by_fid (rs_def R) (hp_proto E) s (js_u32 fid)
          (map_option js_u32 startTime) (map_option js_u32 stopTime) pageOptions) hub)"

section \<open>Casts\<close>

definition CastStore :: "int option \<Rightarrow> rust_store" where
  "CastStore pruneSizeLimit =
     (let n = (case pruneSizeLimit of Some n \<Rightarrow> n | None \<Rightarrow> 0) in
      \<lparr>rs_def = CastStoreDef n, rs_postfix = CastMessage, rs_pruneSizeLimit = n\<rparr>)"

definition no_cast :: CastAddBody where
  "no_cast =
     \<lparr>cab_embedsDeprecated = [], cab_mentions = [], cab_parentCastId = None, cab_parentUrl = None, cab_text = None,
      cab_mentionsPositions = [], cab_embeds = [], cab_type = 0\<rparr>"

definition getCastAdd :: "hub_params \<Rightarrow> rust_store \<Rightarrow> number \<Rightarrow> bytes \<Rightarrow> hub_state \<Rightarrow> Message hub_result" where
  "getCastAdd E R fid hash hub =
     decoded_message E
       (native_read (\<lambda>s. found_message E (missing_for ''castAddMessage not found'' (js_u32 fid))
          (native_get_add (rs_def R) (hp_proto E) s
             (partial_message CAST_ADD (js_u32 fid) (md_castAddBody_update (\<lambda>_. Some no_cast)) hash))) hub)"

definition getCastRemove :: "hub_params \<Rightarrow> rust_store \<Rightarrow> number \<Rightarrow> bytes \<Rightarrow> hub_state \<Rightarrow> Message hub_result" where
  "getCastRemove E R fid hash hub =
     decoded_message E
       (native_read (\<lambda>s. found_message E (missing_for ''CastRemoveMessage not found'' (js_u32 fid))
          (native_get_remove (rs_def R) (hp_proto E) s
             (partial_message CAST_REMOVE (js_u32 fid)
                (md_castRemoveBody_update (\<lambda>_. Some \<lparr>crb_targetHash = Some hash\<rparr>)) []))) hub)"

definition getCastAddsByFid ::
  "hub_params \<Rightarrow> rust_store \<Rightarrow> number \<Rightarrow> page_options \<Rightarrow> hub_state \<Rightarrow> MessagesPage hub_result" where
  "getCastAddsByFid E R fid pageOptions hub =
     decoded_page E
       (pooled_read (\<lambda>s. native_get_adds_by_fid (rs_def R) (hp_proto E) s (js_u32 fid) pageOptions (\<lambda>_. True)) hub)"

definition getCastRemovesByFid ::
  "hub_params \<Rightarrow> rust_store \<Rightarrow> number \<Rightarrow> page_options \<Rightarrow> hub_state \<Rightarrow> MessagesPage hub_result" where
  "getCastRemovesByFid E R fid pageOptions hub =
     decoded_page E
       (pooled_read (\<lambda>s. native_get_removes_by_fid (rs_def R) (hp_proto E) s (js_u32 fid) pageOptions (\<lambda>_. True)) hub)"

text \<open>A cast id or a url. The id travels encoded; no bytes mean no id.\<close>

datatype cast_target = TargetCast CastId | TargetUrl js_string

definition native_target :: "hub_params \<Rightarrow> string \<Rightarrow> cast_target \<Rightarrow> bytes outcome" where
  "native_target E required target =
     (case target of
        TargetUrl url \<Rightarrow> if url = [] then Throw (JsError (lit required)) else Ok (utf8_encode url)
      | TargetCast c \<Rightarrow>
          (let bs = hp_encodeCastId E c in
           if bs = [] then Throw (JsError (lit required))
           else (case hp_decodeCastId E bs of
                   Ok c \<Rightarrow> Ok (make_cast_id_key c)
                 | Err e \<Rightarrow> Throw (JsError (err_message e))
                 | Throw t \<Rightarrow> Throw (JsError (exn_message t)))))"

definition getCastsByParent ::
  "hub_params \<Rightarrow> rust_store \<Rightarrow> cast_target \<Rightarrow> page_options \<Rightarrow> hub_state \<Rightarrow> MessagesPage hub_result" where
  "getCastsByParent E R parent pageOptions hub =
     decoded_page E
       (await (settled (native_target E ''parent_cast_id or parent_url is required'' parent) hub) (\<lambda>t hub.
          native_read (\<lambda>s. get_messages_by_index (rs_def R) s (make_cast_by_parent_key t 0 []) (\<lambda>_. True) pageOptions) hub))"

definition getCastsByMention ::
  "hub_params \<Rightarrow> rust_store \<Rightarrow> number \<Rightarrow> page_options \<Rightarrow> hub_state \<Rightarrow> MessagesPage hub_result" where
  "getCastsByMention E R mentionFid pageOptions hub =
     decoded_page E
       (pooled_read (\<lambda>s. get_messages_by_index (rs_def R) s (make_cast_by_mention_key (js_u32 mentionFid) 0 [])
          (\<lambda>_. True) pageOptions) hub)"

section \<open>Reactions\<close>

definition ReactionStore :: "int option \<Rightarrow> rust_store" where
  "ReactionStore pruneSizeLimit =
     (let n = (case pruneSizeLimit of Some n \<Rightarrow> n | None \<Rightarrow> 0) in
      \<lparr>rs_def = ReactionStoreDef n, rs_postfix = ReactionMessage, rs_pruneSizeLimit = n\<rparr>)"

text \<open>The target as the native code puts it into the question.\<close>

definition reaction_question :: "hub_params \<Rightarrow> int \<Rightarrow> cast_target \<Rightarrow> ReactionBody outcome" where
  "reaction_question E type target =
     (case target of
        TargetUrl url \<Rightarrow>
          if url = [] then Throw (JsError (lit ''target_cast_id or target_url is required''))
          else Ok \<lparr>rb_type = type, rb_targetCastId = None, rb_targetUrl = Some url\<rparr>
      | TargetCast c \<Rightarrow>
          (let bs = hp_encodeCastId E c in
           if bs = [] then Throw (JsError (lit ''target_cast_id or target_url is required''))
           else (case hp_decodeCastId E bs of
                   Ok c \<Rightarrow> Ok \<lparr>rb_type = type, rb_targetCastId = Some c, rb_targetUrl = None\<rparr>
                 | Err e \<Rightarrow> Throw (JsError (err_message e))
                 | Throw t \<Rightarrow> Throw (JsError (exn_message t)))))"

definition getReactionAdd ::
  "hub_params \<Rightarrow> rust_store \<Rightarrow> number \<Rightarrow> int \<Rightarrow> cast_target \<Rightarrow> hub_state \<Rightarrow> Message hub_result" where
  "getReactionAdd E R fid type target hub =
     decoded_message E
       (await (settled (reaction_question E type target) hub) (\<lambda>b hub.
          native_read (\<lambda>s. found_message E (missing_for ''reactionAddMessage not found'' (js_u32 fid))
            (native_get_add (rs_def R) (hp_proto E) s
               (partial_message REACTION_ADD (js_u32 fid) (md_reactionBody_update (\<lambda>_. Some b)) []))) hub))"

definition getReactionRemove ::
  "hub_params \<Rightarrow> rust_store \<Rightarrow> number \<Rightarrow> int \<Rightarrow> cast_target \<Rightarrow> hub_state \<Rightarrow> Message hub_result" where
  "getReactionRemove E R fid type target hub =
     decoded_message E
       (await (settled (reaction_question E type target) hub) (\<lambda>b hub.
          native_read (\<lambda>s. found_message E (missing_for ''reactionRemoveMessage not found'' (js_u32 fid))
            (native_get_remove (rs_def R) (hp_proto E) s
               (partial_message REACTION_REMOVE (js_u32 fid) (md_reactionBody_update (\<lambda>_. Some b)) []))) hub))"

definition reaction_of_type :: "int \<Rightarrow> Message \<Rightarrow> bool" where
  "reaction_of_type type m =
     (case msg_data m of
        Some d \<Rightarrow> (case native_body d of Some (BodyReaction r) \<Rightarrow> type = 0 \<or> rb_type r = type | _ \<Rightarrow> False)
      | None \<Rightarrow> False)"

definition getReactionAddsByFid ::
  "hub_params \<Rightarrow> rust_store \<Rightarrow> number \<Rightarrow> int option \<Rightarrow> page_options \<Rightarrow> hub_state \<Rightarrow> MessagesPage hub_result" where
  "getReactionAddsByFid E R fid type pageOptions hub =
     decoded_page E
       (pooled_read (\<lambda>s. native_get_adds_by_fid (rs_def R) (hp_proto E) s (js_u32 fid) pageOptions
          (reaction_of_type (case type of Some t \<Rightarrow> t | None \<Rightarrow> 0))) hub)"

definition getReactionRemovesByFid ::
  "hub_params \<Rightarrow> rust_store \<Rightarrow> number \<Rightarrow> int option \<Rightarrow> page_options \<Rightarrow> hub_state \<Rightarrow> MessagesPage hub_result" where
  "getReactionRemovesByFid E R fid type pageOptions hub =
     decoded_page E
       (pooled_read (\<lambda>s. native_get_removes_by_fid (rs_def R) (hp_proto E) s (js_u32 fid) pageOptions
          (reaction_of_type (case type of Some t \<Rightarrow> t | None \<Rightarrow> 0))) hub)"

definition getReactionsByTarget ::
  "hub_params \<Rightarrow> rust_store \<Rightarrow> cast_target \<Rightarrow> int option \<Rightarrow> page_options \<Rightarrow> hub_state \<Rightarrow> MessagesPage hub_result" where
  "getReactionsByTarget E R target type pageOptions hub =
     (let type = (case type of Some t \<Rightarrow> t | None \<Rightarrow> 0) in
      decoded_page E
        (await (settled (native_target E ''target_cast_id or target_url is required'' target) hub) (\<lambda>t hub.
           pooled_read (\<lambda>s. get_messages_by_index (rs_def R) s (make_reactions_by_target_key t 0 [])
             (\<lambda>v. type = 0 \<or> v = [word_of_int type]) pageOptions) hub)))"


section \<open>Links\<close>

definition LinkStore :: "int option \<Rightarrow> rust_store" where
  "LinkStore pruneSizeLimit =
     (let n = (case pruneSizeLimit of Some n \<Rightarrow> n | None \<Rightarrow> 0) in
      \<lparr>rs_def = LinkStoreDef n, rs_postfix = LinkMessage, rs_pruneSizeLimit = n\<rparr>)"

definition link_question :: "int \<Rightarrow> int \<Rightarrow> js_string \<Rightarrow> int \<Rightarrow> Message" where
  "link_question message_type fid type target =
     partial_message message_type fid
       (md_linkBody_update (\<lambda>_. Some \<lparr>lb_type = type, lb_displayTimestamp = None, lb_targetFid = Some (numI target)\<rparr>)) []"

text \<open>If the padded key leads nowhere, the unpadded key of older versions is tried.\<close>

definition or_unpadded ::
  "rust_store \<Rightarrow> proto_codec \<Rightarrow> store \<Rightarrow> int \<Rightarrow> bytes outcome \<Rightarrow> Message option outcome \<Rightarrow> Message option outcome" where
  "or_unpadded R C s fid unpadded_key r =
     (if r = Ok None then
        andThen unpadded_key (\<lambda>k.
          case native_get s k of
            None \<Rightarrow> Ok None
          | Some h \<Rightarrow> andThen (vec_to_u8_24 h) (native_get_message C s fid (sd_postfix (rs_def R))))
      else r)"

definition get_link_add :: "rust_store \<Rightarrow> proto_codec \<Rightarrow> store \<Rightarrow> int \<Rightarrow> js_string \<Rightarrow> int \<Rightarrow> Message option outcome" where
  "get_link_add R C s fid type target =
     (let m = link_question LINK_ADD fid type target in
      or_unpadded R C s fid (make_add_key_padded m False) (native_get_add (rs_def R) C s m))"

definition get_link_remove :: "rust_store \<Rightarrow> proto_codec \<Rightarrow> store \<Rightarrow> int \<Rightarrow> js_string \<Rightarrow> int \<Rightarrow> Message option outcome" where
  "get_link_remove R C s fid type target =
     (let m = link_question LINK_REMOVE fid type target in
      or_unpadded R C s fid (make_remove_key_padded m False) (native_get_remove (rs_def R) C s m))"

definition required :: "int \<Rightarrow> string \<Rightarrow> 'a outcome \<Rightarrow> 'a outcome" where
  "required n what r = (if n = 0 then Throw (JsError (lit what)) else r)"

definition getLinkAdd ::
  "hub_params \<Rightarrow> rust_store \<Rightarrow> number \<Rightarrow> js_string \<Rightarrow> number \<Rightarrow> hub_state \<Rightarrow> Message hub_result" where
  "getLinkAdd E R fid type target hub =
     decoded_message E
       (native_read (\<lambda>s. required (js_u32 target) ''target fid is required''
          (found_message E (missing_for ''Link Add Message not found'' (js_u32 fid))
             (get_link_add R (hp_proto E) s (js_u32 fid) type (js_u32 target)))) hub)"

definition getLinkRemove ::
  "hub_params \<Rightarrow> rust_store \<Rightarrow> number \<Rightarrow> js_string \<Rightarrow> number \<Rightarrow> hub_state \<Rightarrow> Message hub_result" where
  "getLinkRemove E R fid type target hub =
     decoded_message E
       (native_read (\<lambda>s. required (js_u32 target) ''target_fid is required''
          (found_message E (missing_for ''Link Remove Message not found'' (js_u32 fid))
             (get_link_remove R (hp_proto E) s (js_u32 fid) type (js_u32 target)))) hub)"

definition link_of_type :: "js_string \<Rightarrow> Message \<Rightarrow> bool" where
  "link_of_type type m =
     (case msg_data m of
        Some d \<Rightarrow> (case native_body d of Some (BodyLink l) \<Rightarrow> type = [] \<or> lb_type l = type | _ \<Rightarrow> False)
      | None \<Rightarrow> False)"

definition getLinkAddsByFid ::
  "hub_params \<Rightarrow> rust_store \<Rightarrow> number \<Rightarrow> js_string option \<Rightarrow> page_options \<Rightarrow> hub_state \<Rightarrow> MessagesPage hub_result" where
  "getLinkAddsByFid E R fid type pageOptions hub =
     decoded_page E
       (pooled_read (\<lambda>s. native_get_adds_by_fid (rs_def R) (hp_proto E) s (js_u32 fid) pageOptions
          (link_of_type (case type of Some t \<Rightarrow> t | None \<Rightarrow> []))) hub)"

definition getLinkRemovesByFid ::
  "hub_params \<Rightarrow> rust_store \<Rightarrow> number \<Rightarrow> js_string option \<Rightarrow> page_options \<Rightarrow> hub_state \<Rightarrow> MessagesPage hub_result" where
  "getLinkRemovesByFid E R fid type pageOptions hub =
     decoded_page E
       (pooled_read (\<lambda>s. native_get_removes_by_fid (rs_def R) (hp_proto E) s (js_u32 fid) pageOptions
          (link_of_type (case type of Some t \<Rightarrow> t | None \<Rightarrow> []))) hub)"

definition getLinksByTarget ::
  "hub_params \<Rightarrow> rust_store \<Rightarrow> number \<Rightarrow> js_string option \<Rightarrow> page_options \<Rightarrow> hub_state \<Rightarrow> MessagesPage hub_result" where
  "getLinksByTarget E R target type pageOptions hub =
     (let t = utf8_encode (case type of Some t \<Rightarrow> t | None \<Rightarrow> []) in
      decoded_page E
        (await (settled (required (js_u32 target) ''target_fid is required'' (Ok ())) hub) (\<lambda>_ hub.
           pooled_read (\<lambda>s. get_messages_by_index (rs_def R) s
             (root_byte LinksByTarget # native_fid_key (js_u32 target)) (\<lambda>v. t = [] \<or> v = t) pageOptions) hub)))"

definition getAllLinkMessagesByFid ::
  "hub_params \<Rightarrow> rust_store \<Rightarrow> number \<Rightarrow> page_options \<Rightarrow> number option \<Rightarrow> number option \<Rightarrow> hub_state \<Rightarrow>
   MessagesPage hub_result" where
  "getAllLinkMessagesByFid E R fid pageOptions startTime stopTime hub =
     decoded_page E
       (native_read (\<lambda>s. native_get_all_messages_by_fid (rs_def R) (hp_proto E) s (js_u32 fid)
          (map_option js_u32 startTime) (map_option js_u32 stopTime) pageOptions) hub)"

definition getLinkCompactStateMessageByFid ::
  "hub_params \<Rightarrow> rust_store \<Rightarrow> number \<Rightarrow> page_options \<Rightarrow> hub_state \<Rightarrow> MessagesPage hub_result" where
  "getLinkCompactStateMessageByFid E R fid pageOptions hub =
     decoded_page E
       (await (settled (required (js_u32 fid) ''fid is required'' (Ok ())) hub) (\<lambda>_ hub.
          pooled_read (\<lambda>s. native_get_compact_state_messages_by_fid (hp_proto E) s (js_u32 fid) pageOptions) hub))"

section \<open>User data\<close>

definition UserDataStore :: "int option \<Rightarrow> rust_store" where
  "UserDataStore pruneSizeLimit =
     (let n = (case pruneSizeLimit of Some n \<Rightarrow> n | None \<Rightarrow> 0) in
      \<lparr>rs_def = UserDataStoreDef n, rs_postfix = UserDataMessage, rs_pruneSizeLimit = n\<rparr>)"

definition not_found_user_data :: js_string where
  "not_found_user_data = lit ''NotFound: UserDataAdd message not found''"

definition getUserDataAdd :: "hub_params \<Rightarrow> rust_store \<Rightarrow> number \<Rightarrow> int \<Rightarrow> hub_state \<Rightarrow> Message hub_result" where
  "getUserDataAdd E R fid dataType hub =
     decoded_message E
       (native_read (\<lambda>s. found_message E not_found_user_data
          (native_get_add (rs_def R) (hp_proto E) s
             (partial_message USER_DATA_ADD (js_u32 fid)
                (md_userDataBody_update (\<lambda>_. Some \<lparr>udb_type = dataType, udb_value = []\<rparr>)) []))) hub)"

definition getUserDataAddsByFid ::
  "hub_params \<Rightarrow> rust_store \<Rightarrow> number \<Rightarrow> page_options \<Rightarrow> number option \<Rightarrow> number option \<Rightarrow> hub_state \<Rightarrow>
   MessagesPage hub_result" where
  "getUserDataAddsByFid E R fid pageOptions startTime stopTime hub =
     decoded_page E
       (native_read (\<lambda>s. native_get_adds_by_fid (rs_def R) (hp_proto E) s (js_u32 fid) pageOptions
          (is_message_in_time_range (map_option js_u32 startTime) (map_option js_u32 stopTime))) hub)"

definition decoded_proof :: "hub_params \<Rightarrow> bytes hub_result \<Rightarrow> UserNameProof hub_result" where
  "decoded_proof E r =
     await (throwing (caught r)) (\<lambda>bs hub. settled (decodeUserNameProof (hp_proto E) bs) hub)"

text \<open>A name that was given back is not found by its name.\<close>

definition getUserNameProof :: "hub_params \<Rightarrow> bytes \<Rightarrow> hub_state \<Rightarrow> UserNameProof hub_result" where
  "getUserNameProof E name hub =
     decoded_proof E
       (native_read (\<lambda>s. andThen (get_username_proof (hp_proto E) s name) (\<lambda>r. case r of
          Some p \<Rightarrow> if unp_fid p = numI 0 then fail_js NotFound not_found_user_data
                    else Ok (encodeUserNameProof (hp_proto E) p)
        | None \<Rightarrow> fail_js NotFound not_found_user_data)) hub)"

definition getUserNameProofByFid :: "hub_params \<Rightarrow> number \<Rightarrow> hub_state \<Rightarrow> UserNameProof hub_result" where
  "getUserNameProofByFid E fid hub =
     decoded_proof E
       (native_read (\<lambda>s. andThen (get_fname_proof_by_fid (hp_proto E) s (js_u32 fid)) (\<lambda>r. case r of
          Some p \<Rightarrow> Ok (encodeUserNameProof (hp_proto E) p)
        | None \<Rightarrow> fail_js NotFound not_found_user_data)) hub)"

definition js_merge_username_proof ::
  "hub_params \<Rightarrow> int \<Rightarrow> bytes \<Rightarrow> native_state \<Rightarrow> bytes outcome \<times> native_state" where
  "js_merge_username_proof E now bs st =
     (case decodeUserNameProof (hp_proto E) bs of
        Ok p \<Rightarrow>
          (case merge_username_proof (hp_proto E) (hp_events E) now p st of
             (r, st) \<Rightarrow> (mapOk r (encodeHubEvent (hp_events E)), st))
      | Err e \<Rightarrow> (fail_js ValidationFailure (err_message e), st)
      | Throw t \<Rightarrow> (fail_js ValidationFailure (exn_message t), st))"

definition mergeUserNameProof :: "hub_params \<Rightarrow> int \<Rightarrow> UserNameProof \<Rightarrow> hub_state \<Rightarrow> int hub_result" where
  "mergeUserNameProof E now usernameProof hub =
     await (throwing (caught (native_call
              (js_merge_username_proof E now (encodeUserNameProof (hp_proto E) usernameProof)) hub))) (\<lambda>bs hub.
       announce E now bs hub)"

section \<open>Verifications\<close>

definition VerificationStore :: "int option \<Rightarrow> rust_store" where
  "VerificationStore pruneSizeLimit =
     (let n = (case pruneSizeLimit of Some n \<Rightarrow> n | None \<Rightarrow> 0) in
      \<lparr>rs_def = VerificationStoreDef n, rs_postfix = VerificationMessage, rs_pruneSizeLimit = n\<rparr>)"

definition getVerificationAdd :: "hub_params \<Rightarrow> rust_store \<Rightarrow> number \<Rightarrow> bytes \<Rightarrow> hub_state \<Rightarrow> Message hub_result" where
  "getVerificationAdd E R fid address hub =
     decoded_message E
       (native_read (\<lambda>s. found_message E (missing_for ''NotFound: verificationAddMessage not found'' (js_u32 fid))
          (native_get_add (rs_def R) (hp_proto E) s
             (partial_message VERIFICATION_ADD_ETH_ADDRESS (js_u32 fid)
                (md_verificationAddAddressBody_update (\<lambda>_. Some
                   \<lparr>vab_address = address, vab_claimSignature = [], vab_blockHash = [], vab_verificationType = 0,
                    vab_chainId = 0, vab_protocol = 0\<rparr>)) []))) hub)"

definition getVerificationRemove :: "hub_params \<Rightarrow> rust_store \<Rightarrow> number \<Rightarrow> bytes \<Rightarrow> hub_state \<Rightarrow> Message hub_result" where
  "getVerificationRemove E R fid address hub =
     decoded_message E
       (native_read (\<lambda>s. found_message E (missing_for ''verificationRemoveMessage not found'' (js_u32 fid))
          (native_get_remove (rs_def R) (hp_proto E) s
             (partial_message VERIFICATION_REMOVE (js_u32 fid)
                (md_verificationRemoveBody_update (\<lambda>_. Some \<lparr>vrb_address = address, vrb_protocol = 0\<rparr>)) []))) hub)"

definition getVerificationAddsByFid ::
  "hub_params \<Rightarrow> rust_store \<Rightarrow> number \<Rightarrow> page_options \<Rightarrow> hub_state \<Rightarrow> MessagesPage hub_result" where
  "getVerificationAddsByFid E R fid pageOptions hub =
     decoded_page E
       (native_read (\<lambda>s. native_get_adds_by_fid (rs_def R) (hp_proto E) s (js_u32 fid) pageOptions (\<lambda>_. True)) hub)"

definition getVerificationRemovesByFid ::
  "hub_params \<Rightarrow> rust_store \<Rightarrow> number \<Rightarrow> page_options \<Rightarrow> hub_state \<Rightarrow> MessagesPage hub_result" where
  "getVerificationRemovesByFid E R fid pageOptions hub =
     decoded_page E
       (native_read (\<lambda>s. native_get_removes_by_fid (rs_def R) (hp_proto E) s (js_u32 fid) pageOptions (\<lambda>_. True)) hub)"

section \<open>Username proofs\<close>

definition UsernameProofStore :: "int option \<Rightarrow> rust_store" where
  "UsernameProofStore pruneSizeLimit =
     (let n = (case pruneSizeLimit of Some n \<Rightarrow> n | None \<Rightarrow> 0) in
      \<lparr>rs_def = UsernameProofStoreDef n, rs_postfix = UsernameProofMessage, rs_pruneSizeLimit = n\<rparr>)"

text \<open>The messages of the errors end in the name, which is left out here.\<close>

definition getUsernameProof :: "hub_params \<Rightarrow> bytes \<Rightarrow> int \<Rightarrow> hub_state \<Rightarrow> Message hub_result" where
  "getUsernameProof E name type hub =
     decoded_message E
       (native_read (\<lambda>s. found_message E (lit ''NotFound: usernameproof not found'')
          (get_ens_proof_message (hp_proto E) s name type)) hub)"

text \<open>Only the first page: \<^verbatim>\<open>rsGetUsernameProofsByFid\<close> is called without page options.\<close>

definition getUsernameProofsByFid :: "hub_params \<Rightarrow> rust_store \<Rightarrow> number \<Rightarrow> hub_state \<Rightarrow> UserNameProof option list hub_result" where
  "getUsernameProofsByFid E R fid hub =
     await (decoded_page E
              (native_read (\<lambda>s. native_get_adds_by_fid (rs_def R) (hp_proto E) s (js_u32 fid) no_page_options
                 (\<lambda>_. True)) hub)) (\<lambda>page hub.
       settled (mapM (\<lambda>m. mapOk (deref (msg_data m)) md_usernameProofBody) (page_messages page)) hub)"

definition getUsernameProofByFidAndName ::
  "hub_params \<Rightarrow> rust_store \<Rightarrow> number \<Rightarrow> bytes \<Rightarrow> hub_state \<Rightarrow> Message hub_result" where
  "getUsernameProofByFidAndName E R fid name hub =
     decoded_message E
       (native_read (\<lambda>s. found_message E (lit ''NotFound: username proof not found'')
          (native_get_add (rs_def R) (hp_proto E) s (proof_question (js_u32 fid) name))) hub)"


section \<open>What an index scan answers\<close>

definition index_key_target :: "store_def \<Rightarrow> nat \<Rightarrow> bytes \<Rightarrow> bytes" where
  "index_key_target S n key =
     native_primary_key (be_int (take 4 (drop (n + 24) key))) (sd_postfix S) (take 24 (drop n key))"

lemma index_loop_all:
  "\<forall>kv \<in> set kvs. n + 28 \<le> length (fst kv) \<Longrightarrow> length acc + length kvs < limit \<Longrightarrow>
   index_loop S n (\<lambda>_. True) limit acc kvs = Ok (acc @ map (\<lambda>kv. index_key_target S n (fst kv)) kvs, None)"
  by (induction kvs arbitrary: acc) (simp_all add: index_target_def index_key_target_def not_less)

lemma many_messages:
  "get_many_messages_as_bytes s keys =
     (case List.find (\<lambda>k. native_get s k = None) keys of
        None \<Rightarrow> Ok (map (\<lambda>k. the (native_get s k)) keys)
      | Some k \<Rightarrow> fail_js NotFound (lit ''could not get message with key: '' @ debug_bytes k))"
  by (induction keys)
    (auto simp: get_many_messages_as_bytes_def fail_js_def split: option.splits outcome.splits)

text \<open>A page that is not full answers with the messages that the entries lead to, or fails if one leads nowhere.\<close>

lemma index_page:
  assumes "\<forall>kv \<in> set (scan_by_prefix s pre opts). length pre + 28 \<le> length (fst kv)"
    and "length (scan_by_prefix s pre opts) < (case po_pageSize opts of Some n \<Rightarrow> n | None \<Rightarrow> PAGE_SIZE_MAX)"
  shows "get_messages_by_index S s pre (\<lambda>_. True) opts =
    (let keys = map (\<lambda>kv. index_key_target S (length pre) (fst kv)) (scan_by_prefix s pre opts) in
     case List.find (\<lambda>k. native_get s k = None) keys of
       None \<Rightarrow> Ok \<lparr>mp_messages = map (\<lambda>k. the (native_get s k)) keys, mp_nextPageToken = None\<rparr>
     | Some k \<Rightarrow> fail_js NotFound (lit ''could not get message with key: '' @ debug_bytes k))"
  using assms by (simp add: get_messages_by_index_def index_loop_all many_messages Let_def split: option.split)

text \<open>So a scan fails as a whole when one entry under the prefix is not an entry of the prefix itself.\<close>

lemma index_page_fails:
  assumes "\<forall>kv \<in> set (scan_by_prefix s pre opts). length pre + 28 \<le> length (fst kv)"
    and "length (scan_by_prefix s pre opts) < (case po_pageSize opts of Some n \<Rightarrow> n | None \<Rightarrow> PAGE_SIZE_MAX)"
    and "kv \<in> set (scan_by_prefix s pre opts)" "native_get s (index_key_target S (length pre) (fst kv)) = None"
  shows "\<exists>k. get_messages_by_index S s pre (\<lambda>_. True) opts =
     fail_js NotFound (lit ''could not get message with key: '' @ debug_bytes k)"
proof -
  let ?keys = "map (\<lambda>kv. index_key_target S (length pre) (fst kv)) (scan_by_prefix s pre opts)"
  have "List.find (\<lambda>k. native_get s k = None) ?keys \<noteq> None"
    using assms(3,4) by (auto simp: find_None_iff)
  then show ?thesis unfolding index_page[OF assms(1,2)] by (auto simp: Let_def)
qed

lemma casts_by_url_fail:
  assumes open_db: "rdb_native_open db" and url: "url \<noteq> []"
    and "\<forall>kv \<in> set (scan_by_prefix (rdb_disk db) (root_byte CastsByParent # utf8_encode url) opts).
           29 + length (utf8_encode url) \<le> length (fst kv)"
    and "length (scan_by_prefix (rdb_disk db) (root_byte CastsByParent # utf8_encode url) opts) <
           (case po_pageSize opts of Some n \<Rightarrow> n | None \<Rightarrow> PAGE_SIZE_MAX)"
    and "kv \<in> set (scan_by_prefix (rdb_disk db) (root_byte CastsByParent # utf8_encode url) opts)"
    and "native_get (rdb_disk db) (index_key_target (rs_def R) (Suc (length (utf8_encode url))) (fst kv)) = None"
  shows "\<exists>k. getCastsByParent E R (TargetUrl url) opts (db, h) =
     (Some (Throw (JsError (lit ''not_found/could not get message with key: '' @ debug_bytes k))), db, h)"
proof -
  have p: "make_cast_by_parent_key (utf8_encode url) 0 [] = root_byte CastsByParent # utf8_encode url"
    by (simp add: make_cast_by_parent_key_def fid_suffix_def)
  have "\<exists>k. get_messages_by_index (rs_def R) (rdb_disk db) (make_cast_by_parent_key (utf8_encode url) 0 []) (\<lambda>_. True) opts =
     fail_js NotFound (lit ''could not get message with key: '' @ debug_bytes k)"
    unfolding p using assms(3-6) by (intro index_page_fails[where kv = kv]) (simp_all del: root_byte.simps)
  moreover have "code_string NotFound = lit ''not_found''"
    by (simp add: code_string_def HubErrorCode_strings_def)
  moreover have "lit ''not_found/could not get message with key: '' =
      lit ''not_found'' @ lit ''/'' @ lit ''could not get message with key: ''"
    by (simp add: lit_def)
  ultimately show ?thesis
    using open_db url
    by (auto simp: getCastsByParent_def decoded_page_def native_target_def settled_def native_read_def p fail_js_def
        native_exn_def)
qed

end
