(* ===== verification/RateLimits.thy ===== *)
theory RateLimits
  imports Bytes
begin

text \<open>
  Rate limits (\<^verbatim>\<open>utils/rateLimits.ts\<close>) and the versions of the protocol (\<^verbatim>\<open>utils/versions.ts\<close>, with the
  schedule of \<^verbatim>\<open>hubble.ts\<close>).

  The limiters come from the package \<^verbatim>\<open>rate-limiter-flexible\<close>: a record holds what is called of it. The
  limiters of the users live in a map of the module, keyed by the number of messages they allow.
\<close>

section \<open>Rate limits\<close>

text \<open>\<open>lim_get now key\<close> is the number of points consumed in the running period, if there is one;
  \<open>lim_consume\<close> takes one point and says whether there was one left.\<close>

record 'l limiter_lib =
  lim_new :: "int \<Rightarrow> int \<Rightarrow> 'l"
  lim_points :: "'l \<Rightarrow> int"
  lim_get :: "int \<Rightarrow> js_string \<Rightarrow> 'l \<Rightarrow> int option"
  lim_consume :: "int \<Rightarrow> js_string \<Rightarrow> 'l \<Rightarrow> bool \<times> 'l"

type_synonym 'l rate_limiters = "int \<rightharpoonup> 'l"

definition SUBMIT_MESSAGE_RATE_LIMIT :: "int \<times> int" where
  "SUBMIT_MESSAGE_RATE_LIMIT = (20000, 60)"

definition DEFAULT_LIMIT_DURATION :: int where
  "DEFAULT_LIMIT_DURATION = 60 * 60 * 24"

definition getRateLimiterForTotalMessages ::
  "'l limiter_lib \<Rightarrow> int \<Rightarrow> int \<Rightarrow> 'l rate_limiters \<Rightarrow> 'l \<times> 'l rate_limiters" where
  "getRateLimiterForTotalMessages L totalMessages duration limiters =
     (case limiters totalMessages of
        Some l \<Rightarrow> (l, limiters)
      | None \<Rightarrow>
          (let l = lim_new L totalMessages duration in (l, limiters(totalMessages \<mapsto> l))))"

definition rateLimitByKey :: "'l limiter_lib \<Rightarrow> int \<Rightarrow> js_string \<Rightarrow> 'l \<Rightarrow> bool outcome \<times> 'l" where
  "rateLimitByKey L now key l =
     (case lim_consume L now key l of
        (True, l) \<Rightarrow> (Ok True, l)
      | (False, l) \<Rightarrow> (fail_js Unavailable (lit ''Too many requests for '' @ key), l))"

definition rateLimitByIp :: "'l limiter_lib \<Rightarrow> int \<Rightarrow> js_string \<Rightarrow> 'l \<Rightarrow> bool outcome \<times> 'l" where
  "rateLimitByIp L now ip l =
     (let ipPart = hd (split_on 58 ip) in
      if ipPart = lit ''127.0.0.1'' \<or> ipPart = lit ''::1'' then (Ok True, l)
      else rateLimitByKey L now ipPart l)"

definition isRateLimitedByKey :: "'l limiter_lib \<Rightarrow> int \<Rightarrow> js_string \<Rightarrow> 'l \<Rightarrow> bool" where
  "isRateLimitedByKey L now key l =
     (case lim_get L now key l of Some consumed \<Rightarrow> consumed \<ge> lim_points L l | None \<Rightarrow> False)"

definition consumeRateLimitByKey :: "'l limiter_lib \<Rightarrow> int \<Rightarrow> js_string \<Rightarrow> 'l \<Rightarrow> 'l" where
  "consumeRateLimitByKey L now key l = snd (lim_consume L now key l)"

text \<open>An address of version 6 is cut at its first colon: the exemption of \<^verbatim>\<open>::1\<close> is never reached, and addresses
  that share their first group share one limit.\<close>

lemma ip_part_no_colon: "58 \<notin> set (hd (split_on 58 ip))"
proof (induction ip)
  case (Cons c ip)
  then show ?case by (cases "split_on 58 ip") auto
qed simp

lemma loopback6_limited: "rateLimitByIp L now (lit ''::1'') l = rateLimitByKey L now [] l"
  by (simp add: rateLimitByIp_def lit_Cons)

section \<open>Versions\<close>

definition FARCASTER_VERSIONS_SCHEDULE :: "(js_string \<times> int) list" where
  "FARCASTER_VERSIONS_SCHEDULE =
     [(lit ''2023.3.1'', 1682553600000), (lit ''2023.4.19'', 1686700800000), (lit ''2023.5.31'', 1690329600000),
      (lit ''2023.7.12'', 1693958400000), (lit ''2023.8.23'', 1697587200000), (lit ''2023.10.4'', 1701216000000),
      (lit ''2023.11.15'', 1704844800000), (lit ''2023.12.27'', 1708473600000), (lit ''2024.2.7'', 1712102400000),
      (lit ''2024.3.20'', 1715731200000), (lit ''2024.5.1'', 1719360000000), (lit ''2024.6.12'', 1722988800000),
      (lit ''2024.7.24'', 1726617600000), (lit ''2024.9.4'', 1730246400000), (lit ''2024.10.16'', 1733875200000),
      (lit ''2024.11.27'', 1737504000000), (lit ''2025.1.8'', 1741132800000)]"

text \<open>The package \<^verbatim>\<open>semver\<close>, and the date that tests may set instead of the clock.\<close>

record version_env =
  semver_valid :: "js_string \<Rightarrow> bool"
  semver_lt :: "js_string \<Rightarrow> js_string \<Rightarrow> bool"
  overrideDate :: "int option"

definition getMinFarcasterVersion :: "int \<Rightarrow> js_string outcome" where
  "getMinFarcasterVersion timestamp =
     (case List.find (\<lambda>(version, expiresAt). expiresAt > timestamp) FARCASTER_VERSIONS_SCHEDULE of
        Some (version, _) \<Rightarrow> Ok version
      | None \<Rightarrow> fail Unavailable ''no minimum Farcaster version available'')"

definition ensureAboveMinFarcasterVersion :: "version_env \<Rightarrow> int \<Rightarrow> js_string \<Rightarrow> unit outcome" where
  "ensureAboveMinFarcasterVersion V now version =
     andThen (getMinFarcasterVersion now) (\<lambda>minVersion.
       if \<not> semver_valid V version then fail InvalidParam ''invalid version''
       else if semver_lt V version minVersion then fail ValidationFailure ''version too low''
       else Ok ())"

text \<open>An override of 0 counts as none.\<close>

definition ensureAboveTargetFarcasterVersion :: "version_env \<Rightarrow> int \<Rightarrow> js_string \<Rightarrow> unit outcome" where
  "ensureAboveTargetFarcasterVersion V now targetVersion =
     (if \<not> semver_valid V targetVersion then fail InvalidParam ''invalid version''
      else
        (let referenceDate = (case overrideDate V of Some t \<Rightarrow> if t = 0 then now else t | None \<Rightarrow> now) in
         case map_of FARCASTER_VERSIONS_SCHEDULE targetVersion of
           None \<Rightarrow> fail InvalidParam ''invalid version''
         | Some expiresAt \<Rightarrow>
             if referenceDate < expiresAt then fail ValidationFailure ''target version has not expired''
             else Ok ()))"

text \<open>The schedule is in the order of time, so the minimum version is the first that has not expired, and from
  its last date on there is none.\<close>

lemma schedule_sorted: "sorted_wrt (<) (map snd FARCASTER_VERSIONS_SCHEDULE)"
  by (simp add: FARCASTER_VERSIONS_SCHEDULE_def)

lemma min_version_expires:
  "is_ok (getMinFarcasterVersion t) \<longleftrightarrow> t < 1741132800000"
proof (cases "List.find (\<lambda>(version, expiresAt). expiresAt > t) FARCASTER_VERSIONS_SCHEDULE")
  case None
  then have "\<forall>x \<in> set FARCASTER_VERSIONS_SCHEDULE. \<not> t < snd x"
    by (auto simp: find_None_iff)
  then have "\<not> t < 1741132800000" by (simp add: FARCASTER_VERSIONS_SCHEDULE_def)
  with None show ?thesis by (simp add: getMinFarcasterVersion_def fail_def)
next
  case (Some ve)
  then obtain i where "i < length FARCASTER_VERSIONS_SCHEDULE" "FARCASTER_VERSIONS_SCHEDULE ! i = ve" "snd ve > t"
    by (auto simp: find_Some_iff)
  moreover have "\<forall>x \<in> set FARCASTER_VERSIONS_SCHEDULE. snd x \<le> 1741132800000"
    by (simp add: FARCASTER_VERSIONS_SCHEDULE_def)
  ultimately have "t < 1741132800000" using nth_mem by fastforce
  with Some show ?thesis by (cases ve) (simp add: getMinFarcasterVersion_def)
qed

end
