(* ===== verification/Engine.thy ===== *)
theory Engine
  imports StoreReaders JobQueue RateLimits
begin

text \<open>
  The engine of a hub (\<^verbatim>\<open>storage/engine/index.ts\<close>): the stores behind one object, with the checks a message
  has to pass before it is merged, the merge in batches with its rate limit, revocation and pruning over all
  stores, and the reactions to merged on-chain events and user name proofs.

  The state of an engine is the hub state of its stores (database and event handler), the on-chain event store
  with its caches, the rate limiters, and what it has emitted and asked for. What runs concurrently in the source
  (the validations of a batch, the stores of a batch, the listeners of an event) runs in order here, listeners
  after the operation whose event they hear. The validation workers are other threads that run
  \<^verbatim>\<open>validations.validateMessage\<close> on the message; here it runs in the main thread, as in the source when the workers
  cannot be started.
\<close>

section \<open>State\<close>

record 'l engine =
  en_hub :: hub_state
  en_onchain :: onchain_store
  en_limiters :: "'l rate_limiters"
  en_fNameRetryLimiter :: 'l
  en_solana :: bool
  en_started :: bool
  en_duplicateEvents :: "OnChainEvent list"
  en_duplicateProofs :: "UserNameProof list"
  en_retriedFids :: "number list"

type_synonym ('a, 'l) engine_result = "'a outcome option \<times> 'l engine"

text \<open>What an engine is given: the parameters of the stores and of validation, its network, the libraries, and the
  clients of other services when there are any. \<open>ee_text\<close> is the text of a number, \<open>ee_exn_text\<close> that of an
  exception, in a template string.\<close>

record 'l engine_env =
  ee_hub :: hub_params
  ee_validation :: validation_env
  ee_network :: int
  ee_limits :: "'l limiter_lib"
  ee_jobs :: job_codec
  ee_versions :: version_env
  ee_getEnsAddress :: "(js_string \<Rightarrow> js_string option outcome) option"
  ee_retryTransferByName :: "(bytes \<Rightarrow> 'l engine \<Rightarrow> 'l engine) option"
  ee_l2EventsProvider :: bool
  ee_text :: "number \<Rightarrow> js_string"
  ee_exn_text :: "js_exn \<Rightarrow> js_string"

text \<open>The stores of an engine have no limits of their own.\<close>

definition engine_stores :: "rust_store list" where
  "engine_stores =
     [LinkStore None, ReactionStore None, CastStore None, UserDataStore None, VerificationStore None,
      UsernameProofStore None]"

definition legacy_limit :: "int \<Rightarrow> int" where
  "legacy_limit store =
     (case getDefaultStoreLimit store UNIT_TYPE_LEGACY of Ok (Some n) \<Rightarrow> n | _ \<Rightarrow> 0)"

definition totalPruneSize :: int where
  "totalPruneSize =
     legacy_limit STORE_CASTS + legacy_limit STORE_LINKS + legacy_limit STORE_REACTIONS +
     legacy_limit STORE_USER_DATA + legacy_limit STORE_USERNAME_PROOFS + legacy_limit STORE_VERIFICATIONS"

definition new_Engine :: "'l limiter_lib \<Rightarrow> rocksdb \<Rightarrow> event_handler \<Rightarrow> 'l rate_limiters \<Rightarrow> 'l engine" where
  "new_Engine L db eventHandler limiters =
     \<lparr>en_hub = (db, eventHandler), en_onchain = new_OnChainEventStore, en_limiters = limiters,
      en_fNameRetryLimiter = lim_new L 60 60, en_solana = False, en_started = False,
      en_duplicateEvents = [], en_duplicateProofs = [], en_retriedFids = []\<rparr>"

definition on_hub :: "(hub_state \<Rightarrow> 'a hub_result) \<Rightarrow> 'l engine \<Rightarrow> ('a, 'l) engine_result" where
  "on_hub f en = (case f (en_hub en) of (r, hub) \<Rightarrow> (r, en\<lparr>en_hub := hub\<rparr>))"

definition on_chain ::
  "(rocksdb \<Rightarrow> onchain_store \<Rightarrow> 'a outcome \<times> onchain_store) \<Rightarrow> 'l engine \<Rightarrow> ('a, 'l) engine_result" where
  "on_chain f en =
     (case f (fst (en_hub en)) (en_onchain en) of (r, st) \<Rightarrow> (Some r, en\<lparr>en_onchain := st\<rparr>))"

definition engine_db :: "'l engine \<Rightarrow> rocksdb" where
  "engine_db en = fst (en_hub en)"

text \<open>\<^verbatim>\<open>ResultAsync.fromPromise(..., (e) => e as HubError)\<close>, and a step that looks at the result itself.\<close>

definition promised :: "'a outcome option \<times> 's \<Rightarrow> 'a outcome option \<times> 's" where
  "promised r = (map_option (\<lambda>r. fromPromise r as_HubError) (fst r), snd r)"

definition await_result ::
  "'a outcome option \<times> 's \<Rightarrow> ('a outcome \<Rightarrow> 's \<Rightarrow> 'b outcome option \<times> 's) \<Rightarrow> 'b outcome option \<times> 's" where
  "await_result r f =
     (case r of
        (None, s) \<Rightarrow> (None, s)
      | (Some (Throw t), s) \<Rightarrow> (Some (Throw t), s)
      | (Some (Ok x), s) \<Rightarrow> f (Ok x) s
      | (Some (Err e), s) \<Rightarrow> f (Err e) s)"

definition reject :: "hub_error_code \<Rightarrow> js_string \<Rightarrow> 's \<Rightarrow> 'a outcome option \<times> 's" where
  "reject code m s = settled (fail_js code m) s"

section \<open>User name proofs\<close>

definition Engine_getVerification ::
  "'l engine_env \<Rightarrow> number \<Rightarrow> bytes \<Rightarrow> 'l engine \<Rightarrow> (Message, 'l) engine_result" where
  "Engine_getVerification E fid address en =
     await (settled (validateFid fid) en) (\<lambda>_ en.
       if \<not> is_ok (validateEthAddress (Some address)) \<and> \<not> is_ok (validateSolAddress (Some address))
       then reject NotFound (lit ''Ethereum or Solana address is incorrect'') en
       else promised (on_hub (getVerificationAdd (ee_hub E) (VerificationStore None) fid address) en))"

definition eth_suffix :: js_string where
  "eth_suffix = lit ''.eth''"

text \<open>The value is undefined (\<open>None\<close>) when the stored message of an ENS name has no proof in it. A name of the
  registry that is not found is asked for once more after the transfer has been fetched, within a limit.\<close>

fun Engine_getUserNameProof ::
  "'l engine_env \<Rightarrow> int \<Rightarrow> bytes \<Rightarrow> nat \<Rightarrow> 'l engine \<Rightarrow> (UserNameProof option, 'l) engine_result" where
  "Engine_getUserNameProof E now name retries en =
     await (settled (bytesToUtf8String name) en) (\<lambda>nameString en.
       if ends_with nameString eth_suffix then
         await (settled (validateEnsName (ee_validation E) (Some (NameBytes name))) en) (\<lambda>_ en.
         promised
           (await (on_hub (getUsernameProof (ee_hub E) name USERNAME_TYPE_ENS_L1) en) (\<lambda>proof en.
              settled (mapOk (deref (msg_data proof)) md_usernameProofBody) en)))
       else
         await (settled (validateFname (Some (NameBytes name))) en) (\<lambda>_ en.
         await_result (promised (on_hub (getUserNameProof (ee_hub E) name) en)) (\<lambda>result en.
           case (result, retries, ee_retryTransferByName E) of
             (Err e, Suc retries, Some retryTransferByName) \<Rightarrow>
               if errCode e = NotFound then
                 (case lim_consume (ee_limits E) now (lit ''0'') (en_fNameRetryLimiter en) of
                    (allowed, l) \<Rightarrow>
                      let en = en\<lparr>en_fNameRetryLimiter := l\<rparr> in
                      if \<not> allowed then reject Unavailable (lit ''Too many requests to fName server'') en
                      else Engine_getUserNameProof E now name retries (retryTransferByName name en))
               else settled (Err e) en
           | _ \<Rightarrow> settled (mapOk result Some) en)))"

declare Engine_getUserNameProof.simps [simp del]

text \<open>Without a client the address is undefined and the name has no valid address. The text of an address is
  decoded even when it is empty.\<close>

definition resolve_ens :: "'l engine_env \<Rightarrow> js_string \<Rightarrow> (js_string \<times> bytes) outcome" where
  "resolve_ens E name =
     (let no_address = fail_js ValidationFailure (lit ''no valid address for '' @ name);
          resolved = (case ee_getEnsAddress E of
                        None \<Rightarrow> Ok None
                      | Some getEnsAddress \<Rightarrow> andThen (ens_normalize (ee_validation E) name) getEnsAddress)
      in case resolved of
           Throw t \<Rightarrow> fail_js NetworkFailure (lit ''failed to resolve ens name '' @ name @ lit '': '' @ ee_exn_text E t)
         | Err e \<Rightarrow> fail_js NetworkFailure (lit ''failed to resolve ens name '' @ name @ lit '': '' @ err_message e)
         | Ok address \<Rightarrow>
             (let text = (case address of Some a \<Rightarrow> a | None \<Rightarrow> []) in
              case hexStringToBytes (env_codecs (ee_validation E)) text of
                Ok bs \<Rightarrow> if bs = [] then no_address else Ok (text, bs)
              | Err e \<Rightarrow> no_address
              | Throw t \<Rightarrow>
                  fail_js NetworkFailure (lit ''failed to resolve ens name '' @ name @ lit '': '' @ ee_exn_text E t)))"

definition validateEnsUsernameProof ::
  "'l engine_env \<Rightarrow> UserNameProof \<Rightarrow> bytes \<Rightarrow> 'l engine \<Rightarrow> (unit, 'l) engine_result" where
  "validateEnsUsernameProof E nameProof custodyAddress en =
     await_result (settled (bytesToUtf8String (unp_name nameProof)) en) (\<lambda>nameResult en.
       case nameResult of
         Ok name \<Rightarrow>
           if \<not> ends_with name eth_suffix then
             reject ValidationFailure (lit ''invalid ens name: '' @ show_bytes (ee_validation E) (unp_name nameProof)) en
           else
             await (settled (resolve_ens E name) en) (\<lambda>(resolvedString, resolvedAddress) en.
               if bytesCompare resolvedAddress (unp_owner nameProof) \<noteq> 0 then
                 reject ValidationFailure (lit ''resolved address '' @ resolvedString @ lit '' does not match proof'') en
               else if bytesCompare resolvedAddress custodyAddress \<noteq> 0 then
                 await_result (Engine_getVerification E (unp_fid nameProof) resolvedAddress en) (\<lambda>verification en.
                   if is_ok verification then settled (Ok ()) en
                   else reject ValidationFailure
                          (lit ''ens name does not belong to fid: '' @ ee_text E (unp_fid nameProof)) en)
               else settled (Ok ()) en)
       | _ \<Rightarrow>
           reject ValidationFailure (lit ''invalid ens name: '' @ show_bytes (ee_validation E) (unp_name nameProof)) en)"

section \<open>Checks before a merge\<close>

definition validateOnChainEvent :: "OnChainEvent option \<Rightarrow> OnChainEvent outcome" where
  "validateOnChainEvent event =
     (case event of
        None \<Rightarrow> vfail ''event is missing''
      | Some e \<Rightarrow>
          if oce_type e = EVENT_TYPE_SIGNER \<or> oce_type e = EVENT_TYPE_SIGNER_MIGRATED \<or>
             oce_type e = EVENT_TYPE_ID_REGISTER \<or> oce_type e = EVENT_TYPE_STORAGE_RENT
          then Ok e
          else vfail ''invalid event type'')"

text \<open>The custody address of a user: \<open>None\<close> when there is no registration, or none with a body.\<close>

definition custody_address ::
  "'l engine_env \<Rightarrow> MessageData \<Rightarrow> 'l engine \<Rightarrow> (bytes option, 'l) engine_result" where
  "custody_address E d en =
     await_result
       (promised (on_chain (\<lambda>db. getIdRegisterEventByFid (hp_proto (ee_hub E)) db (md_fid d)) en)) (\<lambda>custodyEvent en.
       case custodyEvent of
         Ok e \<Rightarrow> settled (mapOk (deref (oce_idRegisterEventBody e)) (\<lambda>b. Some (ireb_to b))) en
       | _ \<Rightarrow> settled (Ok None) en)"

text \<open>A message that sets a user name: the user must own the name.\<close>

definition check_fname ::
  "'l engine_env \<Rightarrow> int \<Rightarrow> Message \<Rightarrow> MessageData \<Rightarrow> bytes \<Rightarrow> 'l engine \<Rightarrow> (unit, 'l) engine_result" where
  "check_fname E now m d custodyAddress en =
     (case md_userDataBody d of
        Some b \<Rightarrow>
          if isUserDataAddMessage m \<and> udb_type b = UDT_USERNAME then
            await (settled (utf8StringToBytes (udb_value b)) en) (\<lambda>nameBytes en.
              if nameBytes = [] then settled (Ok ()) en
              else
                await_result (Engine_getUserNameProof E now nameBytes 1 en) (\<lambda>nameProof en.
                await (settled (mapErr nameProof (\<lambda>e.
                         if errCode e = NotFound then
                           new_HubError ValidationFailure (CtxString (lit ''name '' @ udb_value b @ lit '' is not registered''))
                         else e)) en) (\<lambda>nameProof en.
                await (settled (deref nameProof) en) (\<lambda>nameProof en.
                  if unp_type nameProof \<noteq> USERNAME_TYPE_FNAME \<and> unp_type nameProof \<noteq> USERNAME_TYPE_ENS_L1 then
                    reject ValidationFailure (lit ''invalid username type'') en
                  else if \<not> js_eq (unp_fid nameProof) (md_fid d) then
                    reject ValidationFailure
                      (lit ''fid '' @ ee_text E (unp_fid nameProof) @ lit '' does not match message fid '' @
                       ee_text E (md_fid d)) en
                  else if unp_type nameProof = USERNAME_TYPE_ENS_L1 then
                    validateEnsUsernameProof E nameProof custodyAddress en
                  else settled (Ok ()) en))))
          else settled (Ok ()) en
      | None \<Rightarrow> settled (Ok ()) en)"

definition check_username_proof ::
  "'l engine_env \<Rightarrow> Message \<Rightarrow> MessageData \<Rightarrow> bytes \<Rightarrow> 'l engine \<Rightarrow> (unit, 'l) engine_result" where
  "check_username_proof E m d custodyAddress en =
     (case md_usernameProofBody d of
        Some p \<Rightarrow>
          if isUsernameProofMessage m \<and> unp_type p = USERNAME_TYPE_ENS_L1
          then validateEnsUsernameProof E p custodyAddress en
          else settled (Ok ()) en
      | None \<Rightarrow> settled (Ok ()) en)"

definition check_solana :: "Message \<Rightarrow> MessageData \<Rightarrow> bool \<Rightarrow> unit outcome" where
  "check_solana m d enabled =
     (case md_verificationAddAddressBody d of
        Some b \<Rightarrow>
          if isVerificationAddAddressMessage m \<and> vab_protocol b = SOLANA \<and> \<not> enabled
          then vfail ''solana verifications are not enabled'' else Ok ()
      | None \<Rightarrow> Ok ())"

definition check_compact_state :: "Message \<Rightarrow> MessageData \<Rightarrow> unit outcome" where
  "check_compact_state m d =
     (case md_linkCompactStateBody d of
        Some b \<Rightarrow>
          if isLinkCompactStateMessage m then
            andThen (deref (lcsb_targetFids b)) (\<lambda>fids.
              if int (length fids) > legacy_limit STORE_LINKS * 100
              then vfail ''LinkCompactStateMessage is too big. Limit = 100 storage units'' else Ok ())
          else Ok ()
      | None \<Rightarrow> Ok ())"

definition Engine_validateMessage ::
  "'l engine_env \<Rightarrow> int \<Rightarrow> Message \<Rightarrow> 'l engine \<Rightarrow> (Message, 'l) engine_result" where
  "Engine_validateMessage E now m en =
     (case msg_data m of
        None \<Rightarrow> settled (vfail ''message data is missing'') en
      | Some d \<Rightarrow>
          if md_network d \<noteq> ee_network E then
            reject ValidationFailure
              (lit ''incorrect network: '' @ int_to_string 10 (md_network d) @ lit '' (expected: '' @
               int_to_string 10 (ee_network E) @ lit '')'') en
          else
            await (custody_address E d en) (\<lambda>custody en.
              case custody of
                None \<Rightarrow> reject UnknownFid (lit ''unknown fid: '' @ ee_text E (md_fid d)) en
              | Some custodyAddress \<Rightarrow>
                  await (settled (fromPromise (deref (msg_signer m)) wrap_unknown) en) (\<lambda>signer en.
                  await_result
                    (promised (on_chain (\<lambda>db. getActiveSigner (hp_proto (ee_hub E)) db (md_fid d) signer) en))
                    (\<lambda>active en.
                    if \<not> is_ok active then
                      await (settled (bytesToHexString (env_codecs (ee_validation E)) signer) en) (\<lambda>signerHex en.
                        reject UnknownSigner
                          (lit ''invalid signer: signer '' @ signerHex @ lit '' not found for fid '' @
                           ee_text E (md_fid d)) en)
                    else
                      await (check_fname E now m d custodyAddress en) (\<lambda>_ en.
                      await (check_username_proof E m d custodyAddress en) (\<lambda>_ en.
                      await (settled (check_solana m d (en_solana en)) en) (\<lambda>_ en.
                      await (settled (check_compact_state m d) en) (\<lambda>_ en.
                        settled (validateMessage (ee_validation E) m) en))))))))"

text \<open>Which of the workers gets a message when there are some: the first is kept for messages of low priority while
  more than a hundred answers are awaited. The counter has already been advanced.\<close>

definition validation_worker :: "nat \<Rightarrow> nat \<Rightarrow> nat \<Rightarrow> bool \<Rightarrow> nat \<times> nat" where
  "validation_worker nextWorker workers pending lowPriority =
     (let n = (nextWorker + 1) mod workers in
      (n, if pending > 100 then if lowPriority then 0 else if n = 0 then 1 else n else n))"

section \<open>Merging messages\<close>

text \<open>A message with its place in the batch, and the user and the limit it counts against. A limiter is known by
  the number of messages it allows.\<close>

record indexed_message =
  im_i :: nat
  im_message :: Message
  im_fid :: number
  im_limit :: int

definition message_fid :: "Message \<Rightarrow> number" where
  "message_fid m = (case msg_data m of Some d \<Rightarrow> md_fid d | None \<Rightarrow> numI 0)"

definition computeMergeResult ::
  "'l engine_env \<Rightarrow> int \<Rightarrow> Message \<Rightarrow> nat \<Rightarrow> 'l engine \<Rightarrow> (indexed_message, 'l) engine_result" where
  "computeMergeResult E now message i en =
     (let fid = message_fid message in
      await (Engine_validateMessage E now message en) (\<lambda>_ en.
      await (on_hub (with_handler (\<lambda>db. handler_getCurrentStorageSlotForFid (hp_fuel (ee_hub E))
               (hp_proto (ee_hub E)) db now fid)) en) (\<lambda>slot en.
        let totalUnits = slot_legacy_units slot + slot_units slot in
        if totalUnits = 0 then reject NoStorage (lit ''no storage'') en
        else
          (case getRateLimiterForTotalMessages (ee_limits E) (totalUnits * totalPruneSize) DEFAULT_LIMIT_DURATION
                  (en_limiters en) of
             (limiter, limiters) \<Rightarrow>
               let en = en\<lparr>en_limiters := limiters\<rparr> in
               if isRateLimitedByKey (ee_limits E) now (ee_text E fid) limiter
               then reject Unavailable (lit ''rate limit exceeded for FID '' @ ee_text E fid) en
               else
                 settled (Ok \<lparr>im_i = i, im_message = message, im_fid = fid,
                              im_limit = totalUnits * totalPruneSize\<rparr>) en))))"

text \<open>The validations of a batch. Whatever the error, the events of the user are asked for again, when there is a
  provider: the test of the code is a string, which always holds.\<close>

fun validate_loop ::
  "'l engine_env \<Rightarrow> int \<Rightarrow> nat \<Rightarrow> Message list \<Rightarrow> (nat \<times> int outcome) list \<Rightarrow> indexed_message list \<Rightarrow>
   'l engine \<Rightarrow> ((nat \<times> int outcome) list \<times> indexed_message list, 'l) engine_result" where
  "validate_loop E now i [] results validated en = settled (Ok (results, validated)) en"
| "validate_loop E now i (m # ms) results validated en =
     await_result (computeMergeResult E now m i en) (\<lambda>r en.
       case r of
         Ok im \<Rightarrow> validate_loop E now (Suc i) ms results (validated @ [im]) en
       | Err e \<Rightarrow>
           validate_loop E now (Suc i) ms (batch_insert (i, Err e) results) validated
             (if ee_l2EventsProvider E then en\<lparr>en_retriedFids := en_retriedFids en @ [message_fid m]\<rparr>
              else en)
       | Throw t \<Rightarrow> settled (Throw t) en)"

text \<open>The index of the store that keeps a kind of message, in the order of \<open>engine_stores\<close>.\<close>

definition store_index :: "UserPostfix \<Rightarrow> nat option" where
  "store_index pfx =
     (case pfx of
        LinkCompactStateMessage \<Rightarrow> Some 0
      | LinkMessage \<Rightarrow> Some 0
      | ReactionMessage \<Rightarrow> Some 1
      | CastMessage \<Rightarrow> Some 2
      | UserDataMessage \<Rightarrow> Some 3
      | VerificationMessage \<Rightarrow> Some 4
      | UsernameProofMessage \<Rightarrow> Some 5
      | _ \<Rightarrow> None)"

definition invalid_message_type :: hub_error where
  "invalid_message_type = new_HubError ValidationFailure (CtxString (lit ''invalid message type''))"

text \<open>Messages by store, each with its index.\<close>

fun group_messages ::
  "nat \<Rightarrow> Message list \<Rightarrow> (nat \<times> int outcome) list \<Rightarrow> (nat \<times> Message) list list \<Rightarrow>
   ((nat \<times> int outcome) list \<times> (nat \<times> Message) list list) outcome" where
  "group_messages i [] results groups = Ok (results, groups)"
| "group_messages i (m # ms) results groups =
     andThen (deref (msg_data m)) (\<lambda>d.
       if md_type d = FRAME_ACTION
       then group_messages (Suc i) ms (batch_insert (i, Err invalid_message_type) results) groups
       else
         andThen (typeToSetPostfix (md_type d)) (\<lambda>pfx.
           case store_index pfx of
             Some k \<Rightarrow> group_messages (Suc i) ms results (groups[k := groups ! k @ [(i, m)]])
           | None \<Rightarrow> group_messages (Suc i) ms (batch_insert (i, Err invalid_message_type) results) groups))"

fun merge_groups ::
  "hub_params \<Rightarrow> int \<Rightarrow> (rust_store \<times> (nat \<times> Message) list) list \<Rightarrow> (nat \<times> int outcome) list \<Rightarrow> hub_state \<Rightarrow>
   (nat \<times> int outcome) list hub_result" where
  "merge_groups P now [] results hub = settled (Ok results) hub"
| "merge_groups P now ((R, ms) # groups) results hub =
     await (RustStoreBase_mergeMessages P R now (map snd ms) hub) (\<lambda>storeResults hub.
       merge_groups P now groups (fold (\<lambda>(j, v). batch_insert (fst (ms ! j), v)) storeResults results) hub)"

definition mergeMessagesToStore ::
  "'l engine_env \<Rightarrow> int \<Rightarrow> Message list \<Rightarrow> 'l engine \<Rightarrow> ((nat \<times> int outcome) list, 'l) engine_result" where
  "mergeMessagesToStore E now messages en =
     await (settled (group_messages 0 messages [] (replicate (length engine_stores) [])) en)
       (\<lambda>(results, groups) en. on_hub (merge_groups (ee_hub E) now (zip engine_stores groups) results) en)"

text \<open>Every message that was merged takes one point of its user's limit.\<close>

definition consume_point :: "'l engine_env \<Rightarrow> int \<Rightarrow> indexed_message \<Rightarrow> 'l engine \<Rightarrow> 'l engine" where
  "consume_point E now im en =
     (case en_limiters en (im_limit im) of
        Some l \<Rightarrow>
          en\<lparr>en_limiters := (en_limiters en)(im_limit im \<mapsto>
               consumeRateLimitByKey (ee_limits E) now (ee_text E (im_fid im)) l)\<rparr>
      | None \<Rightarrow> en)"

fun apply_results ::
  "'l engine_env \<Rightarrow> int \<Rightarrow> indexed_message list \<Rightarrow> (nat \<times> int outcome) list \<Rightarrow> (nat \<times> int outcome) list \<Rightarrow>
   'l engine \<Rightarrow> (nat \<times> int outcome) list \<times> 'l engine" where
  "apply_results E now validated [] results en = (results, en)"
| "apply_results E now validated ((j, r) # rs) results en =
     apply_results E now validated rs (batch_insert (im_i (validated ! j), r) results)
       (if is_ok r then consume_point E now (validated ! j) en else en)"

definition merge_validated ::
  "'l engine_env \<Rightarrow> int \<Rightarrow> Message list \<Rightarrow> 'l engine \<Rightarrow> ((nat \<times> int outcome) list, 'l) engine_result" where
  "merge_validated E now messages en =
     await (validate_loop E now 0 messages [] [] en) (\<lambda>(mergeResults, validated) en.
     await (mergeMessagesToStore E now (map im_message validated) en) (\<lambda>results en.
       case apply_results E now validated results mergeResults en of
         (mergeResults, en) \<Rightarrow> settled (Ok mergeResults) en))"

section \<open>Revoking\<close>

definition revoke_message :: "'l engine_env \<Rightarrow> int \<Rightarrow> Message \<Rightarrow> 'l engine \<Rightarrow> (int, 'l) engine_result" where
  "revoke_message E now message en =
     (case msg_data message of
        None \<Rightarrow> reject InvalidParam (lit ''missing message data'') en
      | Some d \<Rightarrow>
          await (settled (typeToSetPostfix (md_type d)) en) (\<lambda>pfx en.
            case store_index pfx of
              Some k \<Rightarrow> on_hub (RustStoreBase_revoke (ee_hub E) (engine_stores ! k) now message) en
            | None \<Rightarrow> reject InvalidParam (lit ''invalid message type'') en))"

text \<open>The same iteration as \<open>forEachMessageBySigner\<close>, for a step that changes a state it keeps even when it throws.
  The pages are read from the database as it was: a revocation removes what has been visited.\<close>

definition revoke_step ::
  "'l engine_env \<Rightarrow> int \<Rightarrow> bytes \<Rightarrow> ('l engine \<times> nat) \<times> js_exn option \<Rightarrow> bytes \<Rightarrow> bytes \<Rightarrow>
   ((('l engine \<times> nat) \<times> js_exn option) \<times> bool) outcome" where
  "revoke_step E now signer st key val =
     (case st of
        ((en, n), Some t) \<Rightarrow> Ok (st, True)
      | ((en, n), None) \<Rightarrow>
          (case andThen (messageDecode (hp_proto (ee_hub E)) val) (\<lambda>m. mapOk (deref (msg_signer m)) (\<lambda>s. (m, s))) of
             Ok (m, s) \<Rightarrow>
               if bytesCompare s signer = 0 then
                 (case revoke_message E now m en of
                    (Some (Throw t), en) \<Rightarrow> Ok (((en, n), Some t), True)
                  | (Some (Ok _), en) \<Rightarrow> Ok (((en, Suc n), None), False)
                  | (_, en) \<Rightarrow> Ok (((en, n), None), False))
               else Ok (st, False)
           | Err e \<Rightarrow> Ok (((en, n), Some (HubException e)), True)
           | Throw t \<Rightarrow> Ok (((en, n), Some t), True)))"

definition Engine_revokeMessagesBySigner ::
  "'l engine_env \<Rightarrow> int \<Rightarrow> number \<Rightarrow> bytes \<Rightarrow> 'l engine \<Rightarrow> (unit, 'l) engine_result" where
  "Engine_revokeMessagesBySigner E now fid signer en =
     await (settled (bytesToHexString (env_codecs (ee_validation E)) signer) en) (\<lambda>_ en.
     await (settled (user_message_range fid) en) (\<lambda>opts en.
       case RocksDB_forEachIteratorByOpts (hp_fuel (ee_hub E)) (engine_db en) opts (revoke_step E now signer)
              ((en, 0), None) of
         None \<Rightarrow> (None, en)
       | Some (Err e) \<Rightarrow> settled (Err e) en
       | Some (Throw t) \<Rightarrow> settled (Throw t) en
       | Some (Ok (((en, n), Some t), _)) \<Rightarrow> settled (Throw t) en
       | Some (Ok (((en, n), None), _)) \<Rightarrow> settled (Ok ()) en))"

text \<open>A message that no longer passes the checks is revoked, unless the checks failed for the network.\<close>

definition Engine_validateOrRevokeMessage ::
  "'l engine_env \<Rightarrow> int \<Rightarrow> Message \<Rightarrow> 'l engine \<Rightarrow> (int option, 'l) engine_result" where
  "Engine_validateOrRevokeMessage E now message en =
     await_result (Engine_validateMessage E now message en) (\<lambda>isValid en.
       case (isValid, msg_data message) of
         (Err e, Some d) \<Rightarrow>
           if errCode e = NetworkFailure then settled (Err e) en
           else
             (case revoke_message E now message en of
                (r, en) \<Rightarrow> (map_option (\<lambda>r. mapOk r Some) r, en))
       | _ \<Rightarrow> settled (Ok None) en)"

section \<open>Pruning\<close>

text \<open>The stores in the order of the code. User name proofs are not among them.\<close>

definition pruned_stores :: "rust_store list" where
  "pruned_stores = [CastStore None, ReactionStore None, VerificationStore None, UserDataStore None, LinkStore None]"

fun prune_stores ::
  "hub_params \<Rightarrow> int \<Rightarrow> number \<Rightarrow> rust_store list \<Rightarrow> nat \<Rightarrow> hub_state \<Rightarrow> nat hub_result" where
  "prune_stores P now fid [] count hub = settled (Ok count) hub"
| "prune_stores P now fid (R # Rs) count hub =
     await_result (RustStoreBase_pruneMessages P R now fid hub) (\<lambda>r hub.
       prune_stores P now fid Rs (count + (case r of Ok ids \<Rightarrow> length ids | _ \<Rightarrow> 0)) hub)"

definition Engine_pruneMessages ::
  "'l engine_env \<Rightarrow> int \<Rightarrow> number \<Rightarrow> 'l engine \<Rightarrow> (nat, 'l) engine_result" where
  "Engine_pruneMessages E now fid en = on_hub (prune_stores (ee_hub E) now fid pruned_stores 0) en"

section \<open>Listeners\<close>

text \<open>A user name proof that lost its name: the user data message in which its owner set the name is revoked.\<close>

definition handleMergeUsernameProofEvent ::
  "'l engine_env \<Rightarrow> int \<Rightarrow> HubEvent \<Rightarrow> 'l engine \<Rightarrow> (unit, 'l) engine_result" where
  "handleMergeUsernameProofEvent E now event en =
     await (settled (deref (he_mergeUsernameProofBody event)) en) (\<lambda>body en.
       case mupb_deletedUsernameProof body of
         None \<Rightarrow> settled (Ok ()) en
       | Some deleted \<Rightarrow>
           if unp_owner deleted = [] then settled (Ok ()) en
           else if (case mupb_usernameProof body of
                      Some p \<Rightarrow> bytesCompare (unp_name deleted) (unp_name p) = 0 \<and> js_eq (unp_fid deleted) (unp_fid p)
                    | None \<Rightarrow> False) then settled (Ok ()) en
           else
             await_result (promised (on_hub (getUserDataAdd (ee_hub E) (UserDataStore None) (unp_fid deleted) UDT_USERNAME) en))
               (\<lambda>usernameAdd en.
               case usernameAdd of
                 Ok m \<Rightarrow>
                   await (settled (andThen (deref (msg_data m)) (\<lambda>d. deref (md_userDataBody d))) en) (\<lambda>b en.
                   await (settled (utf8StringToBytes (udb_value b)) en) (\<lambda>nameBytes en.
                     if bytesCompare nameBytes (unp_name deleted) \<noteq> 0 then settled (Ok ()) en
                     else
                       await_result (on_hub (RustStoreBase_revoke (ee_hub E) (UserDataStore None) now m) en)
                         (\<lambda>revokeResult en. settled (Ok ()) en)))
               | _ \<Rightarrow> settled (Ok ()) en))"

text \<open>A signer that is removed: a job to revoke its messages is put in the queue.\<close>

definition handleMergeOnChainEvent ::
  "'l engine_env \<Rightarrow> int \<Rightarrow> HubEvent \<Rightarrow> 'l engine \<Rightarrow> (unit, 'l) engine_result" where
  "handleMergeOnChainEvent E now event en =
     await (settled (deref (he_mergeOnChainEventBody event)) en) (\<lambda>onChainEvent en.
       case onChainEvent of
         None \<Rightarrow> settled (Ok ()) en
       | Some e \<Rightarrow>
           (case oce_signerEventBody e of
              Some b \<Rightarrow>
                if isSignerOnChainEvent e \<and> seb_eventType b = SIGNER_EVENT_REMOVE then
                  (case enqueueJob (ee_jobs E) now \<lparr>rvp_fid = oce_fid e, rvp_signer = seb_key b\<rparr> None (engine_db en) of
                     (Throw t, db) \<Rightarrow> settled (Throw t) (en\<lparr>en_hub := (db, snd (en_hub en))\<rparr>)
                   | (_, db) \<Rightarrow> settled (Ok ()) (en\<lparr>en_hub := (db, snd (en_hub en))\<rparr>))
                else settled (Ok ()) en
            | None \<Rightarrow> settled (Ok ()) en))"

definition listen :: "'l engine_env \<Rightarrow> int \<Rightarrow> string \<times> HubEvent \<Rightarrow> 'l engine \<Rightarrow> 'l engine" where
  "listen E now emitted en =
     (if fst emitted = ''mergeUsernameProofEvent'' then snd (handleMergeUsernameProofEvent E now (snd emitted) en)
      else if fst emitted = ''mergeOnChainEvent'' then snd (handleMergeOnChainEvent E now (snd emitted) en)
      else en)"

text \<open>An operation, and then its listeners for what it has emitted, once the engine has been started.\<close>

definition with_listeners ::
  "'l engine_env \<Rightarrow> int \<Rightarrow> ('l engine \<Rightarrow> ('a, 'l) engine_result) \<Rightarrow> 'l engine \<Rightarrow> ('a, 'l) engine_result" where
  "with_listeners E now f en =
     (case f en of
        (r, en') \<Rightarrow>
          (r, if en_started en'
              then fold (listen E now) (drop (length (seh_emitted (snd (en_hub en)))) (seh_emitted (snd (en_hub en')))) en'
              else en'))"

section \<open>The operations of the engine\<close>

definition Engine_mergeMessages ::
  "'l engine_env \<Rightarrow> int \<Rightarrow> Message list \<Rightarrow> 'l engine \<Rightarrow> ((nat \<times> int outcome) list, 'l) engine_result" where
  "Engine_mergeMessages E now messages en = with_listeners E now (merge_validated E now messages) en"

definition Engine_mergeMessage ::
  "'l engine_env \<Rightarrow> int \<Rightarrow> Message \<Rightarrow> 'l engine \<Rightarrow> (int, 'l) engine_result" where
  "Engine_mergeMessage E now message en =
     await (Engine_mergeMessages E now [message] en) (\<lambda>result en.
       case map_of result 0 of
         Some r \<Rightarrow> settled r en
       | None \<Rightarrow> reject Unavailable (lit ''missing result'') en)"

definition Engine_mergeOnChainEvent ::
  "'l engine_env \<Rightarrow> int \<Rightarrow> OnChainEvent \<Rightarrow> 'l engine \<Rightarrow> (int, 'l) engine_result" where
  "Engine_mergeOnChainEvent E now event en =
     await (settled (validateOnChainEvent (Some event)) en) (\<lambda>_ en.
     await_result
       (with_listeners E now (\<lambda>en.
          case mergeOnChainEvent (hp_fuel (ee_hub E)) (hp_proto (ee_hub E)) (hp_events (ee_hub E)) (engine_db en) now
                 event (snd (en_hub en)) (en_onchain en) of
            (r, db, h, st) \<Rightarrow> promised (r, en\<lparr>en_hub := (db, h), en_onchain := st\<rparr>)) en) (\<lambda>mergeResult en.
       case mergeResult of
         Err e \<Rightarrow>
           settled mergeResult
             (if errCode e = Duplicate then en\<lparr>en_duplicateEvents := en_duplicateEvents en @ [event]\<rparr> else en)
       | _ \<Rightarrow> settled mergeResult en))"

definition Engine_mergeUserNameProof ::
  "'l engine_env \<Rightarrow> int \<Rightarrow> UserNameProof \<Rightarrow> 'l engine \<Rightarrow> (int, 'l) engine_result" where
  "Engine_mergeUserNameProof E now usernameProof en =
     await_result
       (with_listeners E now (\<lambda>en. promised (on_hub (mergeUserNameProof (ee_hub E) now usernameProof) en)) en)
       (\<lambda>mergeResult en.
       case mergeResult of
         Err e \<Rightarrow>
           settled mergeResult
             (if errCode e = Duplicate then en\<lparr>en_duplicateProofs := en_duplicateProofs en @ [usernameProof]\<rparr> else en)
       | _ \<Rightarrow> settled mergeResult en)"

definition Engine_clearCaches :: "'l engine \<Rightarrow> 'l engine" where
  "Engine_clearCaches en = en\<lparr>en_onchain := clearCaches (en_onchain en)\<rparr>"

definition setSolanaVerifications :: "bool \<Rightarrow> 'l engine \<Rightarrow> 'l engine" where
  "setSolanaVerifications enabled en = en\<lparr>en_solana := enabled\<rparr>"

end
