(* ===== verification/EngineReads.thy ===== *)
theory EngineReads
  imports Engine
begin

text \<open>
  The questions an engine answers (the getters of \<^verbatim>\<open>storage/engine/index.ts\<close>): each checks its arguments and hands
  them to a store, and an exception of the store becomes the error that is returned.
\<close>

section \<open>Events\<close>

definition DEFAULT_PAGE_SIZE :: int where
  "DEFAULT_PAGE_SIZE = 100"

definition Engine_getEvent :: "'l engine_env \<Rightarrow> int \<Rightarrow> 'l engine \<Rightarrow> (HubEvent, 'l) engine_result" where
  "Engine_getEvent E eventId en = settled (getEvent (hp_events (ee_hub E)) (engine_db en) eventId) en"

definition Engine_getEvents :: "'l engine_env \<Rightarrow> int \<Rightarrow> 'l engine \<Rightarrow> (HubEvent list \<times> int, 'l) engine_result" where
  "Engine_getEvents E startId en =
     (getEventsPage (hp_fuel (ee_hub E)) (hp_events (ee_hub E)) (engine_db en) startId DEFAULT_PAGE_SIZE, en)"

section \<open>Casts\<close>

text \<open>A time of 0 counts as none.\<close>

definition validate_time :: "int option \<Rightarrow> int option outcome" where
  "validate_time t =
     (case t of Some n \<Rightarrow> if n = 0 then Ok None else mapOk (validateFarcasterTime n) Some | None \<Rightarrow> Ok None)"

definition validateStartAndStopTime :: "int option \<Rightarrow> int option \<Rightarrow> (int option \<times> int option) outcome" where
  "validateStartAndStopTime startTime stopTime =
     andThen (validate_time startTime) (\<lambda>start. mapOk (validate_time stopTime) (\<lambda>stop. (start, stop)))"

definition for_fid :: "number \<Rightarrow> (hub_state \<Rightarrow> 'a hub_result) \<Rightarrow> 'l engine \<Rightarrow> ('a, 'l) engine_result" where
  "for_fid fid f en = await (settled (validateFid fid) en) (\<lambda>_ en. promised (on_hub f en))"

definition for_fid_times ::
  "number \<Rightarrow> int option \<Rightarrow> int option \<Rightarrow> (number option \<Rightarrow> number option \<Rightarrow> hub_state \<Rightarrow> 'a hub_result) \<Rightarrow>
   'l engine \<Rightarrow> ('a, 'l) engine_result" where
  "for_fid_times fid startTime stopTime f en =
     await (settled (validateFid fid) en) (\<lambda>_ en.
     await (settled (validateStartAndStopTime startTime stopTime) en) (\<lambda>(start, stop) en.
       promised (on_hub (f (map_option numI start) (map_option numI stop)) en)))"

definition Engine_getCast ::
  "'l engine_env \<Rightarrow> number \<Rightarrow> bytes \<Rightarrow> 'l engine \<Rightarrow> (Message, 'l) engine_result" where
  "Engine_getCast E fid hash en =
     for_fid fid (getCastAdd (ee_hub E) (CastStore None) fid hash) en"

definition Engine_getCastsByFid ::
  "'l engine_env \<Rightarrow> number \<Rightarrow> page_options \<Rightarrow> 'l engine \<Rightarrow> (MessagesPage, 'l) engine_result" where
  "Engine_getCastsByFid E fid pageOptions en =
     for_fid fid (getCastAddsByFid (ee_hub E) (CastStore None) fid pageOptions) en"

definition to_target :: "cast_target \<Rightarrow> target" where
  "to_target t = (case t of TargetCast c \<Rightarrow> target.TargetCast c | TargetUrl u \<Rightarrow> target.TargetUrl u)"

definition Engine_getCastsByParent ::
  "'l engine_env \<Rightarrow> cast_target \<Rightarrow> page_options \<Rightarrow> 'l engine \<Rightarrow> (MessagesPage, 'l) engine_result" where
  "Engine_getCastsByParent E parent pageOptions en =
     await (settled (validateParent (to_target parent)) en) (\<lambda>_ en.
       promised (on_hub (getCastsByParent (ee_hub E) (CastStore None) parent pageOptions) en))"

definition Engine_getCastsByMention ::
  "'l engine_env \<Rightarrow> number \<Rightarrow> page_options \<Rightarrow> 'l engine \<Rightarrow> (MessagesPage, 'l) engine_result" where
  "Engine_getCastsByMention E mentionFid pageOptions en =
     for_fid mentionFid (getCastsByMention (ee_hub E) (CastStore None) mentionFid pageOptions) en"

definition Engine_getAllCastMessagesByFid ::
  "'l engine_env \<Rightarrow> number \<Rightarrow> page_options \<Rightarrow> int option \<Rightarrow> int option \<Rightarrow> 'l engine \<Rightarrow> (MessagesPage, 'l) engine_result" where
  "Engine_getAllCastMessagesByFid E fid pageOptions startTime stopTime en =
     for_fid_times fid startTime stopTime (getAllMessagesByFid_of (ee_hub E) (CastStore None) fid pageOptions) en"

section \<open>Reactions\<close>

definition Engine_getReaction ::
  "'l engine_env \<Rightarrow> number \<Rightarrow> int \<Rightarrow> cast_target \<Rightarrow> 'l engine \<Rightarrow> (Message, 'l) engine_result" where
  "Engine_getReaction E fid type target en =
     await (settled (validateFid fid) en) (\<lambda>_ en.
     await (settled (validateTarget (to_target target)) en) (\<lambda>_ en.
       promised (on_hub (getReactionAdd (ee_hub E) (ReactionStore None) fid type target) en)))"

definition Engine_getReactionsByFid ::
  "'l engine_env \<Rightarrow> number \<Rightarrow> int option \<Rightarrow> page_options \<Rightarrow> 'l engine \<Rightarrow> (MessagesPage, 'l) engine_result" where
  "Engine_getReactionsByFid E fid type pageOptions en =
     for_fid fid (getReactionAddsByFid (ee_hub E) (ReactionStore None) fid type pageOptions) en"

definition Engine_getReactionsByTarget ::
  "'l engine_env \<Rightarrow> cast_target \<Rightarrow> int option \<Rightarrow> page_options \<Rightarrow> 'l engine \<Rightarrow> (MessagesPage, 'l) engine_result" where
  "Engine_getReactionsByTarget E target type pageOptions en =
     await (settled (case target of TargetCast c \<Rightarrow> mapOk (validateCastId (Some c)) (\<lambda>_. ()) | TargetUrl u \<Rightarrow> Ok ()) en)
       (\<lambda>_ en. promised (on_hub (getReactionsByTarget (ee_hub E) (ReactionStore None) target type pageOptions) en))"

definition Engine_getAllReactionMessagesByFid ::
  "'l engine_env \<Rightarrow> number \<Rightarrow> page_options \<Rightarrow> int option \<Rightarrow> int option \<Rightarrow> 'l engine \<Rightarrow> (MessagesPage, 'l) engine_result" where
  "Engine_getAllReactionMessagesByFid E fid pageOptions startTime stopTime en =
     for_fid_times fid startTime stopTime (getAllMessagesByFid_of (ee_hub E) (ReactionStore None) fid pageOptions) en"

section \<open>Verifications\<close>

definition Engine_getVerificationsByFid ::
  "'l engine_env \<Rightarrow> number \<Rightarrow> page_options \<Rightarrow> 'l engine \<Rightarrow> (MessagesPage, 'l) engine_result" where
  "Engine_getVerificationsByFid E fid pageOptions en =
     for_fid fid (getVerificationAddsByFid (ee_hub E) (VerificationStore None) fid pageOptions) en"

definition Engine_getAllVerificationMessagesByFid ::
  "'l engine_env \<Rightarrow> number \<Rightarrow> page_options \<Rightarrow> int option \<Rightarrow> int option \<Rightarrow> 'l engine \<Rightarrow> (MessagesPage, 'l) engine_result" where
  "Engine_getAllVerificationMessagesByFid E fid pageOptions startTime stopTime en =
     for_fid_times fid startTime stopTime (getAllMessagesByFid_of (ee_hub E) (VerificationStore None) fid pageOptions) en"

section \<open>On-chain events\<close>

definition Engine_getActiveSigner ::
  "'l engine_env \<Rightarrow> number \<Rightarrow> bytes \<Rightarrow> 'l engine \<Rightarrow> (OnChainEvent, 'l) engine_result" where
  "Engine_getActiveSigner E fid signerPubKey en =
     await (settled (validateFid fid) en) (\<lambda>_ en.
     await (settled (validateEd25519PublicKey (Some signerPubKey)) en) (\<lambda>_ en.
       promised (on_chain (\<lambda>db. getActiveSigner (hp_proto (ee_hub E)) db fid signerPubKey) en)))"

definition Engine_getOnChainSignersByFid ::
  "'l engine_env \<Rightarrow> number \<Rightarrow> page_options \<Rightarrow> 'l engine \<Rightarrow> (OnChainEvent list \<times> bytes option, 'l) engine_result" where
  "Engine_getOnChainSignersByFid E fid pageOptions en =
     await (settled (validateFid fid) en) (\<lambda>_ en.
       promised (getSignersByFid (hp_fuel (ee_hub E)) (hp_proto (ee_hub E)) (engine_db en) fid pageOptions, en))"

definition Engine_getIdRegistryOnChainEvent ::
  "'l engine_env \<Rightarrow> number \<Rightarrow> 'l engine \<Rightarrow> (OnChainEvent, 'l) engine_result" where
  "Engine_getIdRegistryOnChainEvent E fid en =
     promised (on_chain (\<lambda>db. getIdRegisterEventByFid (hp_proto (ee_hub E)) db fid) en)"

definition Engine_getIdRegistryOnChainEventByAddress ::
  "'l engine_env \<Rightarrow> bytes \<Rightarrow> 'l engine \<Rightarrow> (OnChainEvent, 'l) engine_result" where
  "Engine_getIdRegistryOnChainEventByAddress E address en =
     promised (settled (getIdRegisterEventByCustodyAddress (hp_proto (ee_hub E)) (engine_db en) address) en)"

definition Engine_getFids ::
  "'l engine_env \<Rightarrow> page_options \<Rightarrow> 'l engine \<Rightarrow> (number list \<times> bytes option, 'l) engine_result" where
  "Engine_getFids E pageOptions en =
     promised (getFids (hp_fuel (ee_hub E)) (hp_proto (ee_hub E)) (engine_db en) pageOptions, en)"

definition Engine_getOnChainEvents ::
  "'l engine_env \<Rightarrow> int \<Rightarrow> number \<Rightarrow> 'l engine \<Rightarrow> (OnChainEvent list, 'l) engine_result" where
  "Engine_getOnChainEvents E type fid en =
     await (if type = EVENT_TYPE_SIGNER_MIGRATED then
              if fid \<noteq> numI 0 then reject InvalidParam (lit ''fid must be 0 for signer migrated events'') en
              else settled (Ok ()) en
            else settled (mapOk (validateFid fid) (\<lambda>_. ())) en) (\<lambda>_ en.
       promised (getOnChainEvents (hp_fuel (ee_hub E)) (hp_proto (ee_hub E)) (engine_db en) type fid, en))"

section \<open>User data\<close>

definition Engine_getUserData ::
  "'l engine_env \<Rightarrow> number \<Rightarrow> int \<Rightarrow> 'l engine \<Rightarrow> (Message, 'l) engine_result" where
  "Engine_getUserData E fid type en =
     for_fid fid (getUserDataAdd (ee_hub E) (UserDataStore None) fid type) en"

definition Engine_getUserDataByFid ::
  "'l engine_env \<Rightarrow> number \<Rightarrow> page_options \<Rightarrow> int option \<Rightarrow> int option \<Rightarrow> 'l engine \<Rightarrow> (MessagesPage, 'l) engine_result" where
  "Engine_getUserDataByFid E fid pageOptions startTime stopTime en =
     for_fid_times fid startTime stopTime (getUserDataAddsByFid (ee_hub E) (UserDataStore None) fid pageOptions) en"

text \<open>The limits of a user: a store whose usage cannot be read is left out.\<close>

record StorageLimit =
  sl_limit :: "int option"
  sl_used :: int
  sl_earliestTimestamp :: int
  sl_earliestHash :: bytes
  sl_storeType :: int

record StorageLimitsResponse =
  slr_units :: int
  slr_limits :: "StorageLimit list"
  slr_unitDetails :: "StorageUnitDetails list"

fun limits_loop ::
  "hub_params \<Rightarrow> number \<Rightarrow> (int \<times> int option) list \<Rightarrow> StorageLimit list \<Rightarrow> hub_state \<Rightarrow> StorageLimit list hub_result" where
  "limits_loop P fid [] limits hub = settled (Ok limits) hub"
| "limits_loop P fid ((storeType, limit) # ls) limits hub =
     await_result (with_handler (\<lambda>db. getUsage (hp_fuel P) db fid storeType) hub) (\<lambda>usage hub.
       case usage of
         Ok u \<Rightarrow>
           limits_loop P fid ls
             (limits @ [\<lparr>sl_limit = limit, sl_used = su_used u, sl_earliestTimestamp = su_earliestTimestamp u,
                         sl_earliestHash = su_earliestHash u, sl_storeType = storeType\<rparr>]) hub
       | _ \<Rightarrow> limits_loop P fid ls limits hub)"

definition Engine_getCurrentStorageLimitsByFid ::
  "'l engine_env \<Rightarrow> int \<Rightarrow> number \<Rightarrow> 'l engine \<Rightarrow> (StorageLimitsResponse, 'l) engine_result" where
  "Engine_getCurrentStorageLimitsByFid E now fid en =
     await (settled (validateFid fid) en) (\<lambda>_ en.
     await (on_hub (with_handler (\<lambda>db. handler_getCurrentStorageSlotForFid (hp_fuel (ee_hub E))
              (hp_proto (ee_hub E)) db now fid)) en) (\<lambda>slot en.
       let unitDetails = [\<lparr>sud_unitType = UNIT_TYPE_LEGACY, sud_unitSize = slot_legacy_units slot\<rparr>,
                          \<lparr>sud_unitType = UNIT_TYPE_2024, sud_unitSize = slot_units slot\<rparr>] in
       await (settled (getStoreLimits unitDetails) en) (\<lambda>storeLimits en.
       await (on_hub (limits_loop (ee_hub E) fid storeLimits []) en) (\<lambda>limits en.
         settled (Ok \<lparr>slr_units = slot_units slot + slot_legacy_units slot, slr_limits = limits,
                      slr_unitDetails = unitDetails\<rparr>) en))))"

text \<open>The proof of the registry first, then those of ENS names; what cannot be read is left out.\<close>

definition Engine_getUserNameProofsByFid ::
  "'l engine_env \<Rightarrow> number \<Rightarrow> 'l engine \<Rightarrow> (UserNameProof option list, 'l) engine_result" where
  "Engine_getUserNameProofsByFid E fid en =
     await (settled (validateFid fid) en) (\<lambda>_ en.
     await_result (promised (on_hub (getUserNameProofByFid (ee_hub E) fid) en)) (\<lambda>fnameProof en.
     await_result (promised (on_hub (getUsernameProofsByFid (ee_hub E) (UsernameProofStore None) fid) en)) (\<lambda>ensProofs en.
       settled (Ok ((case fnameProof of Ok p \<Rightarrow> [Some p] | _ \<Rightarrow> []) @ (case ensProofs of Ok ps \<Rightarrow> ps | _ \<Rightarrow> []))) en)))"

section \<open>Links\<close>

definition links_version :: js_string where
  "links_version = lit ''2023.4.19''"

definition compact_state_version :: js_string where
  "compact_state_version = lit ''2024.3.20''"

definition from_version ::
  "'l engine_env \<Rightarrow> int \<Rightarrow> js_string \<Rightarrow> ('l engine \<Rightarrow> ('a, 'l) engine_result) \<Rightarrow> 'l engine \<Rightarrow> ('a, 'l) engine_result" where
  "from_version E now version f en =
     await (settled (ensureAboveTargetFarcasterVersion (ee_versions E) now version) en) (\<lambda>_ en. f en)"

definition Engine_getLink ::
  "'l engine_env \<Rightarrow> int \<Rightarrow> number \<Rightarrow> js_string \<Rightarrow> number \<Rightarrow> 'l engine \<Rightarrow> (Message, 'l) engine_result" where
  "Engine_getLink E now fid type target en =
     from_version E now links_version (\<lambda>en.
       await (settled (validateFid fid) en) (\<lambda>_ en.
       for_fid target (getLinkAdd (ee_hub E) (LinkStore None) fid type target) en)) en"

definition Engine_getLinksByFid ::
  "'l engine_env \<Rightarrow> int \<Rightarrow> number \<Rightarrow> js_string option \<Rightarrow> page_options \<Rightarrow> 'l engine \<Rightarrow> (MessagesPage, 'l) engine_result" where
  "Engine_getLinksByFid E now fid type pageOptions en =
     from_version E now links_version (for_fid fid (getLinkAddsByFid (ee_hub E) (LinkStore None) fid type pageOptions)) en"

definition Engine_getLinksByTarget ::
  "'l engine_env \<Rightarrow> int \<Rightarrow> number \<Rightarrow> js_string option \<Rightarrow> page_options \<Rightarrow> 'l engine \<Rightarrow> (MessagesPage, 'l) engine_result" where
  "Engine_getLinksByTarget E now target type pageOptions en =
     from_version E now links_version (for_fid target (getLinksByTarget (ee_hub E) (LinkStore None) target type pageOptions)) en"

definition Engine_getAllLinkMessagesByFid ::
  "'l engine_env \<Rightarrow> int \<Rightarrow> number \<Rightarrow> page_options \<Rightarrow> int option \<Rightarrow> int option \<Rightarrow> 'l engine \<Rightarrow> (MessagesPage, 'l) engine_result" where
  "Engine_getAllLinkMessagesByFid E now fid pageOptions startTime stopTime en =
     from_version E now links_version (for_fid_times fid startTime stopTime (getAllLinkMessagesByFid (ee_hub E) (LinkStore None) fid pageOptions)) en"

definition Engine_getLinkCompactStateMessageByFid ::
  "'l engine_env \<Rightarrow> int \<Rightarrow> number \<Rightarrow> page_options \<Rightarrow> 'l engine \<Rightarrow> (MessagesPage, 'l) engine_result" where
  "Engine_getLinkCompactStateMessageByFid E now fid pageOptions en =
     from_version E now compact_state_version (for_fid fid (getLinkCompactStateMessageByFid (ee_hub E) (LinkStore None) fid pageOptions)) en"

end
