(* ===== verification/StoreCounts.thy ===== *)
theory StoreCounts
  imports StoreReaders
begin

text \<open>
  The storage cache and the stores together. A store asks the cache whether a message would be pruned, the
  native code merges what is left, and the events of the merges move the cached counts. The lemmas show
  that the counts stay those of the database over any number of batches, for every two-phase store, and that a
  batch answers each of its messages.
\<close>

section \<open>Counting keys\<close>

lemma stored_count_card:
  assumes "db_inv s"
  shows "stored_count p s = card {k. prefix p k \<and> db_get s k \<noteq> None}"
proof -
  let ?f = "filter (\<lambda>e. prefix p (fst e)) s"
  have "{k. prefix p k \<and> db_get s k \<noteq> None} = set (map fst ?f)"
    unfolding db_get_def map_of_eq_None_iff by auto
  moreover have "distinct (map fst ?f)"
    using assms unfolding db_inv_def by (simp add: distinct_map_filter strict_sorted_iff)
  ultimately show ?thesis
    using distinct_card[of "map fst ?f"] by (simp add: stored_count_def)
qed

definition set_prefix :: "int \<Rightarrow> byte \<Rightarrow> bytes" where
  "set_prefix f b = native_user_key f @ [b]"

definition cache_key :: "int \<Rightarrow> byte \<Rightarrow> js_string" where
  "cache_key f b = buffer_hex (be_bytes 4 f @ [b])"

lemma writeUInt32BE_int: "writeUInt32BE n = Ok bs \<Longrightarrow> \<exists>f. u32 f \<and> bs = be_bytes 4 f"
proof -
  assume w: "writeUInt32BE n = Ok bs"
  show ?thesis
  proof (cases n)
    case (Num q)
    with w have q: "0 \<le> q" "q \<le> 4294967295" "bs = be_bytes 4 \<lfloor>q\<rfloor>"
      by (auto simp: writeUInt32BE_def split: if_splits)
    then have "0 \<le> \<lfloor>q\<rfloor>" "\<lfloor>q\<rfloor> \<le> 4294967295" by (simp_all add: floor_le_iff)
    with q(3) show ?thesis by (intro exI[of _ "\<lfloor>q\<rfloor>"]) simp
  next
    case NaN
    with w show ?thesis by (intro exI[of _ 0]) (simp add: writeUInt32BE_def)
  qed (use w in \<open>simp_all add: writeUInt32BE_def\<close>)
qed

lemma set_of_fid:
  assumes "makeKey fid pfx = Ok key" "makeMessagePrimaryKey fid pfx None = Ok p"
  shows "\<exists>f. u32 f \<and> key = cache_key f (postfix_byte pfx) \<and> p = set_prefix f (postfix_byte pfx)"
proof -
  obtain b where b: "writeUInt32BE fid = Ok b" "key = buffer_hex (b @ [postfix_byte pfx])"
      "p = 1 # b @ [postfix_byte pfx]"
    using assms by (auto simp: makeKey_Ok set_prefix_Ok)
  with writeUInt32BE_int[OF b(1)] show ?thesis
    by (auto simp: cache_key_def set_prefix_def native_user_key_def)
qed

lemma set_of_int:
  assumes "u32 f"
  shows "makeKey (numI f) pfx = Ok (cache_key f (postfix_byte pfx))"
    and "makeMessagePrimaryKey (numI f) pfx None = Ok (set_prefix f (postfix_byte pfx))"
  using assms by (simp_all add: makeKey_Ok set_prefix_Ok cache_key_def set_prefix_def native_user_key_def)

lemma count_key_inject: "u32 f \<Longrightarrow> u32 g \<Longrightarrow> cache_key f b = cache_key g b \<longleftrightarrow> f = g"
  using be_bytes_inject[of f 4 g] by (auto simp: cache_key_def buffer_hex_inject)

lemma set_prefix_simps [simp]:
  "length (set_prefix f b) = 6" "set_prefix f b \<noteq> []" "hd (set_prefix f b) = 1" "set_prefix f b ! 5 = b"
  "user_key (set_prefix f b @ t)" "(set_prefix f b @ t) ! 5 = b"
  by (simp_all add: set_prefix_def native_user_key_def user_key_def nth_append del: be_bytes.simps)

text \<open>The layout of the keys of users: six bytes up to the postfix, and thirty bytes for the messages of a set.\<close>

definition key_layout :: "byte \<Rightarrow> store \<Rightarrow> bool" where
  "key_layout b s \<longleftrightarrow>
     (\<forall>k. db_get s k \<noteq> None \<longrightarrow> user_key k \<longrightarrow> 6 \<le> length k \<and> (k ! 5 = b \<longrightarrow> length k = 30))"

lemma increment_snoc: "b \<noteq> 255 \<Longrightarrow> increment_vec_u8 (xs @ [b]) = xs @ [b + 1]"
  by (simp add: increment_vec_u8_def)

lemma layout_fixed:
  assumes "key_layout b s" "b \<noteq> 255"
  shows "fixed_layout s (set_prefix f b) 30"
  unfolding fixed_layout_def
proof (intro conjI ballI)
  have "hd (set_prefix f b) \<in> set (set_prefix f b)" by (rule hd_in_set) simp
  then show "\<exists>x\<in>set (set_prefix f b). x \<noteq> 255" by force
  show "length (set_prefix f b) < 30" by simp
  fix k assume "k \<in> fst ` set s"
  then have k: "user_key k \<Longrightarrow> 6 \<le> length k \<and> (k ! 5 = b \<longrightarrow> length k = 30)"
    using assms(1) by (auto simp: key_layout_def db_get_def map_of_eq_None_iff image_iff)
  show "prefix k (increment_vec_u8 (set_prefix f b)) \<longrightarrow> length (set_prefix f b) \<le> length k"
  proof
    assume "prefix k (increment_vec_u8 (set_prefix f b))"
    then have "user_key k"
      unfolding set_prefix_def increment_snoc[OF assms(2)]
      by (cases k) (auto simp: user_key_def native_user_key_def simp del: be_bytes.simps)
    with k show "length (set_prefix f b) \<le> length k" by simp
  qed
  show "prefix (set_prefix f b) k \<longrightarrow> length k = 30"
  proof
    assume "prefix (set_prefix f b) k"
    then obtain t where "k = set_prefix f b @ t" by (auto simp: prefix_def)
    then have "user_key k" "k ! 5 = b" by simp_all
    with k show "length k = 30" by simp
  qed
qed

section \<open>Events of merges\<close>

definition merge_event :: "int \<Rightarrow> Message \<Rightarrow> Message list \<Rightarrow> HubEvent" where
  "merge_event i m ws =
     (native_event HUB_EVENT_MERGE_MESSAGE)
       \<lparr>he_mergeMessageBody := Some \<lparr>mmb_message = Some m, mmb_deletedMessages = ws\<rparr>, he_id := i\<rparr>"

text \<open>The laws of the coders for the messages and events of a merge.\<close>

definition events_coded :: "hub_event_codec \<Rightarrow> Message set \<Rightarrow> bool" where
  "events_coded D U \<longleftrightarrow>
     (\<forall>i m ws. 0 \<le> i \<and> i < 2 ^ 64 \<and> m \<in> U \<and> set ws \<subseteq> U \<longrightarrow>
        decodeHubEvent D (encodeHubEvent D (merge_event i m ws)) = Ok (merge_event i m ws))"

definition sendable :: "proto_codec \<Rightarrow> Message \<Rightarrow> bool" where
  "sendable C m \<longleftrightarrow>
     codec_law C m \<and>
     (case msg_data m of
        Some d \<Rightarrow> (\<exists>f. md_fid d = numI f \<and> u32 f) \<and> u32 (md_timestamp d)
      | None \<Rightarrow> False)"

text \<open>By how much an event of a merge changes the number of messages of a user.\<close>

definition event_delta :: "int \<Rightarrow> HubEvent \<Rightarrow> int" where
  "event_delta f ev =
     (case he_mergeMessageBody ev of
        Some b \<Rightarrow>
          (case mmb_message b of
             Some m \<Rightarrow> if msg_fid32 m = f then 1 - int (length (mmb_deletedMessages b)) else 0
           | None \<Rightarrow> 0)
      | None \<Rightarrow> 0)"


lemma merge_event_body:
  "he_mergeMessageBody (merge_event i m ws) = Some \<lparr>mmb_message = Some m, mmb_deletedMessages = ws\<rparr>"
  by (simp add: merge_event_def)

lemma merge_event_id: "he_id (merge_event i m ws) = i"
  by (simp add: merge_event_def)

lemma event_delta_merge [simp]:
  "event_delta f (merge_event i m ws) = (if msg_fid32 m = f then 1 - int (length ws) else 0)"
  by (simp add: event_delta_def merge_event_def)

lemma commit_event_id:
  assumes "commit_with_event D now txn args (db, g) = (Ok ev, st')"
  shows "\<exists>i. ev = args\<lparr>he_id := i\<rparr> \<and> 0 \<le> i \<and> i < 2 ^ 64"
proof -
  obtain w :: "64 word" where "ev = args\<lparr>he_id := uint w\<rparr>"
    using assms by (auto simp: commit_with_event_def native_commit_transaction_def Let_def mapOk_Ok_iff
        split: outcome.splits prod.splits)
  moreover have "uint w < 2 ^ LENGTH(64)" by (rule unsigned_less)
  ultimately show ?thesis by (intro exI[of _ "uint w"]) simp
qed

context two_phase_store
begin

lemma set_prefix_keys:
  "prefix (set_prefix f (sd_postfix S)) k \<Longrightarrow> u32 f \<Longrightarrow>
   k \<noteq> add_index x \<and> k \<noteq> remove_index x \<and> (k = primary x \<longrightarrow> f = msg_fid32 x) \<and> user_key k"
proof -
  assume "prefix (set_prefix f (sd_postfix S)) k" "u32 f"
  then obtain t where k: "k = native_user_key f @ sd_postfix S # t" by (auto simp: prefix_def set_prefix_def)
  have fid: "0 \<le> msg_fid32 x" "msg_fid32 x < 2 ^ 32"
    using fid32_range by (simp_all add: msg_fid32_def split: option.split)
  have "native_user_key f @ u = native_user_key (msg_fid32 x) @ v \<Longrightarrow> f = msg_fid32 x \<and> u = v" for u v
    using native_user_key_inject[of f u "msg_fid32 x" v] fid \<open>u32 f\<close> by simp
  then show ?thesis
    using postfixes unfolding k primary_def add_index_def remove_index_def by (auto simp del: native_user_key_inject_msg)
qed

lemma primary_in_set: "prefix (set_prefix (msg_fid32 x) (sd_postfix S)) (primary x)"
  by (simp add: prefix_def set_prefix_def primary_def)

text \<open>A merge that succeeds, in terms of the abstract state.\<close>

lemma merge_effect:
  assumes u: "universe C U" "m \<in> U" "represents C U (rdb_disk db) A" and o: "rdb_native_open db"
    and r: "native_merge S C D now m (db, g) = (r, st')"
  shows "(\<And>ev. r \<noteq> Ok ev) \<Longrightarrow> fst st' = db"
    and "rdb_native_open (fst st')"
    and "r = Ok ev \<Longrightarrow> represents C U (rdb_disk (fst st')) (A(slot m \<mapsto> m)) \<and> A (slot m) \<noteq> Some m \<and>
           (\<forall>k. user_key k \<longrightarrow> db_get (rdb_disk (fst st')) k = after_merge C (A (slot m)) m (rdb_disk db) k) \<and>
           (\<exists>i. 0 \<le> i \<and> i < 2 ^ 64 \<and> ev = merge_event i m (case A (slot m) of Some w \<Rightarrow> [w] | None \<Rightarrow> []))"
proof -
  have wf: "well_formed m" using universeD[OF u(1,2)] by simp
  have loses: "r \<noteq> Ok ev' \<and> fst st' = db" if "A (slot m) = Some w" "\<not> mrank w < mrank m" for w ev'
    using merge_loses[OF u o that(1), of D now g] r that(2) by (auto simp: not_less split: if_splits)
  note wins = merge_wins[OF u o _ r]
  show "fst st' = db" if "\<And>ev. r \<noteq> Ok ev"
    using wins(2)[OF _ that] loses by (cases "A (slot m)") blast+
  show "rdb_native_open (fst st')"
  proof (cases "\<exists>w. A (slot m) = Some w \<and> \<not> mrank w < mrank m")
    case True
    then show ?thesis using loses o by auto
  next
    case False
    then show ?thesis using wins(3) by blast
  qed
  assume ok: "r = Ok ev"
  have beats: "mrank w < mrank m" if "A (slot m) = Some w" for w
    using loses[OF that] ok by blast
  let ?old = "case A (slot m) of Some w \<Rightarrow> [w] | None \<Rightarrow> []"
  have "get_default_merge_conflicts S C (rdb_disk db) m (msg_tshash m) = Ok ?old"
    using merge_conflicts[OF u] beats by (auto split: option.split)
  then have c: "commit_with_event D now (appendTxn (delete_many_transaction S ?old) (put_ops C m))
      (merge_event_for S m ?old) (db, g) = (Ok ev, st')"
    using r native_merge_eq[OF wf o] ok by simp
  have old: "well_formed w" if "A (slot m) = Some w" for w
    using representsD(1)[OF u(3) that] universeD[OF u(1)] by simp
  have inv: "db_inv (rdb_disk db)" using u(3) by (simp add: represents_def)
  obtain d where d: "msg_data m = Some d" "md_type d = msg_type m"
    using well_formed_facts(1)[OF wf] by auto
  have "msg_type m \<noteq> 0"
    using well_formed_data[OF wf] by (auto simp: msg_type_def type_to_set_postfix_def)
  with d have ev: "(merge_event_for S m ?old)\<lparr>he_id := i\<rparr> = merge_event i m ?old" for i
    using no_compact(1) by (simp add: merge_event_for_def defaults merge_event_def)
  have "A (slot m) \<noteq> Some m" using beats by auto
  with wins(1)[OF beats ok] merge_commit(2)[OF wf old inv c] commit_event_id[OF c] ev
  show "represents C U (rdb_disk (fst st')) (A(slot m \<mapsto> m)) \<and> A (slot m) \<noteq> Some m \<and>
        (\<forall>k. user_key k \<longrightarrow> db_get (rdb_disk (fst st')) k = after_merge C (A (slot m)) m (rdb_disk db) k) \<and>
        (\<exists>i. 0 \<le> i \<and> i < 2 ^ 64 \<and> ev = merge_event i m ?old)"
    by auto
qed

lemma merge_layout:
  assumes u: "universe C U" "m \<in> U" "represents C U (rdb_disk db) A" and o: "rdb_native_open db"
    and r: "native_merge S C D now m (db, g) = (r, st')"
    and l: "key_layout (sd_postfix S) (rdb_disk db)"
  shows "key_layout (sd_postfix S) (rdb_disk (fst st'))"
proof (cases "\<exists>ev. r = Ok ev")
  case False
  then show ?thesis using merge_effect(1)[OF u o r] l by simp
next
  case True
  have idx: "6 \<le> length (own_index m) \<and> own_index m ! 5 \<noteq> sd_postfix S"
    using postfixes by (simp add: own_index_def add_index_def remove_index_def native_user_key_def nth_append
        del: be_bytes.simps)
  have pr: "length (primary m) = 30"
    using well_formed_facts(3) universeD[OF u(1,2)]
    by (simp add: primary_def native_user_key_def del: be_bytes.simps)
  show ?thesis
    unfolding key_layout_def
  proof (intro allI impI)
    fix k assume k: "db_get (rdb_disk (fst st')) k \<noteq> None" "user_key k"
    from True obtain ev where ok: "r = Ok ev" by blast
    have "after_merge C (A (slot m)) m (rdb_disk db) k \<noteq> None"
      using merge_effect(3)[OF u o r ok] k by simp
    then have "k = own_index m \<or> k = primary m \<or> db_get (rdb_disk db) k \<noteq> None"
      by (auto simp: after_merge_def split: if_splits)
    then show "6 \<le> length k \<and> (k ! 5 = sd_postfix S \<longrightarrow> length k = 30)"
      using idx pr k(2) l by (auto simp: key_layout_def)
  qed
qed

lemma merge_count:
  assumes u: "universe C U" "m \<in> U" "represents C U (rdb_disk db) A" and o: "rdb_native_open db"
    and r: "native_merge S C D now m (db, g) = (Ok ev, st')" and f: "u32 f"
  shows "int (stored_count (set_prefix f (sd_postfix S)) (rdb_disk (fst st'))) =
         int (stored_count (set_prefix f (sd_postfix S)) (rdb_disk db)) + event_delta f ev"
proof -
  let ?p = "set_prefix f (sd_postfix S)" and ?s = "rdb_disk db" and ?s' = "rdb_disk (fst st')"
  let ?K = "{k. prefix ?p k \<and> db_get ?s k \<noteq> None}"
  note e = merge_effect(3)[OF u o r refl]
  have rep: "represents C U ?s' (A(slot m \<mapsto> m))" and fresh: "A (slot m) \<noteq> Some m"
    and after: "user_key k \<Longrightarrow> db_get ?s' k = after_merge C (A (slot m)) m ?s k" for k
    using e by blast+
  obtain i where ev: "ev = merge_event i m (case A (slot m) of Some w \<Rightarrow> [w] | None \<Rightarrow> [])" using e by blast
  have inv: "db_inv ?s" "db_inv ?s'" using u(3) rep unfolding represents_def by blast+
  have notidx: "k \<noteq> own_index x" if "prefix ?p k" for k x
    using set_prefix_keys[OF that f] by (simp add: own_index_def)
  have K': "db_get ?s' k =
      (if k = primary m then Some (native_encode C m)
       else if \<exists>w. A (slot m) = Some w \<and> k = primary w then None else db_get ?s k)" if "prefix ?p k" for k
    using after set_prefix_keys[OF that f] notidx[OF that] by (simp add: after_merge_def)
  have fin: "finite ?K"
    by (rule finite_subset[of _ "fst ` set ?s"]) (auto simp: db_get_def map_of_eq_None_iff)
  have new: "primary m \<notin> ?K" using u(2,3) fresh by (simp add: represents_def)
  show ?thesis
  proof (cases "msg_fid32 m = f")
    case False
    have "k \<noteq> primary m \<and> (A (slot m) = Some w \<longrightarrow> k \<noteq> primary w)" if "prefix ?p k" for k w
      using set_prefix_keys[OF that f] False representsD(4)[OF u(3)] by metis
    then have "{k. prefix ?p k \<and> db_get ?s' k \<noteq> None} = ?K"
      by (intro Collect_cong conj_cong refl) (auto simp: K')
    with False show ?thesis by (simp add: stored_count_card inv ev)
  next
    case True
    then have pm: "prefix ?p (primary m)" using primary_in_set by blast
    show ?thesis
    proof (cases "A (slot m)")
      case None
      have "{k. prefix ?p k \<and> db_get ?s' k \<noteq> None} = insert (primary m) ?K"
        using pm None by (auto simp: K')
      with True None fin new show ?thesis by (simp add: stored_count_card inv ev)
    next
      case (Some w)
      note w = representsD[OF u(3) Some]
      have pw: "primary w \<in> ?K"
        using w(4,5) primary_in_set[of w] True by auto
      then have "primary w \<noteq> primary m" using new by auto
      then have "{k. prefix ?p k \<and> db_get ?s' k \<noteq> None} = insert (primary m) (?K - {primary w})"
        using pm Some by (auto simp: K' split: if_splits)
      moreover have "card (insert (primary m) (?K - {primary w})) = card ?K"
        using card_insert_disjoint[of "?K - {primary w}" "primary m"] card_Suc_Diff1[OF fin pw] fin new by simp
      ultimately show ?thesis using True Some by (simp add: stored_count_card inv ev)
    qed
  qed
qed

end


section \<open>What the steps do to the cache\<close>

text \<open>A property of the state that each step of an asynchronous chain keeps.\<close>

lemma await_state:
  assumes "P (snd r)" "\<And>x s. r = (Some (Ok x), s) \<Longrightarrow> P s \<Longrightarrow> P (snd (f x s))"
  shows "P (snd (await r f))"
  using assms by (cases r) (auto simp: await_def split: option.split outcome.split)

lemma if_state: "P (snd a) \<Longrightarrow> P (snd b) \<Longrightarrow> P (snd (if c then a else b))"
  by simp

definition in_set :: "UserPostfix \<Rightarrow> Message \<Rightarrow> bool" where
  "in_set pfx m \<longleftrightarrow>
     msg_hash m \<noteq> None \<and> (case msg_data m of Some d \<Rightarrow> typeToSetPostfix (md_type d) = Ok pfx | None \<Rightarrow> False)"

lemma sendable_key:
  assumes "sendable C m" "in_set pfx m"
  shows "\<exists>d h. msg_data m = Some d \<and> msg_hash m = Some h \<and> typeToSetPostfix (md_type d) = Ok pfx \<and>
           md_fid d = numI (msg_fid32 m) \<and> u32 (msg_fid32 m) \<and>
           makeKey (md_fid d) pfx = Ok (cache_key (msg_fid32 m) (postfix_byte pfx)) \<and>
           makeMessagePrimaryKey (md_fid d) pfx None = Ok (set_prefix (msg_fid32 m) (postfix_byte pfx)) \<and>
           makeTsHash (md_timestamp d) (msg_hash m) = Ok (be_bytes 4 (md_timestamp d) @ h)"
proof -
  obtain d h where d: "msg_data m = Some d" "msg_hash m = Some h" "typeToSetPostfix (md_type d) = Ok pfx"
    using assms(2) by (auto simp: in_set_def split: option.splits)
  obtain f where f: "md_fid d = numI f" "u32 f" "u32 (md_timestamp d)"
    using assms(1) d(1) by (auto simp: sendable_def)
  have "msg_fid32 m = f" using f d(1) by (simp add: msg_fid32_def fid32_def as_u32_def)
  with d f set_of_int[OF f(2), of pfx] show ?thesis
    by (simp add: makeTsHash_def mapOk_def)
qed

lemma account_cached:
  assumes "sendable C m" "in_set pfx m" "sc_counts c (cache_key (msg_fid32 m) (postfix_byte pfx)) = Some n"
  shows "\<exists>c'. account_message delta upd db m c = (Some (Ok ()), c') \<and>
           sc_counts c' = (sc_counts c)(cache_key (msg_fid32 m) (postfix_byte pfx) \<mapsto> n + delta) \<and>
           sc_pendingMessageCountScans c' = sc_pendingMessageCountScans c"
  using sendable_key[OF assms(1,2)] assms(3) by (auto simp: account_message_def Let_def)

lemma removeMessages_cached:
  "\<forall>w \<in> set ws. sendable C w \<and> in_set pfx w \<and> msg_fid32 w = f \<Longrightarrow>
   sc_counts c (cache_key f (postfix_byte pfx)) = Some n \<Longrightarrow>
   \<exists>c'. removeMessages db ws c = (Some (Ok ()), c') \<and>
     sc_counts c' = (sc_counts c)(cache_key f (postfix_byte pfx) \<mapsto> n - int (length ws)) \<and>
     sc_pendingMessageCountScans c' = sc_pendingMessageCountScans c"
proof (induction ws arbitrary: c n)
  case Nil
  then show ?case by (simp add: fun_upd_idem)
next
  case (Cons w ws)
  obtain c1 where c1: "removeMessage db w c = (Some (Ok ()), c1)"
      "sc_counts c1 = (sc_counts c)(cache_key f (postfix_byte pfx) \<mapsto> n - 1)"
      "sc_pendingMessageCountScans c1 = sc_pendingMessageCountScans c"
    using account_cached[of C w pfx c n "-1"] Cons.prems unfolding removeMessage_def by force
  obtain c2 where c2: "removeMessages db ws c1 = (Some (Ok ()), c2)"
      "sc_counts c2 = (sc_counts c1)(cache_key f (postfix_byte pfx) \<mapsto> n - 1 - int (length ws))"
      "sc_pendingMessageCountScans c2 = sc_pendingMessageCountScans c1"
  proof -
    have "sc_counts c1 (cache_key f (postfix_byte pfx)) = Some (n - 1)" using Cons.prems(1) c1(2) by simp
    moreover have "\<forall>w \<in> set ws. sendable C w \<and> in_set pfx w \<and> msg_fid32 w = f" using Cons.prems(1) by simp
    ultimately show thesis using Cons.IH that by blast
  qed
  have "sc_counts c2 = (sc_counts c)(cache_key f (postfix_byte pfx) \<mapsto> n - int (length (w # ws)))"
    by (rule ext) (simp add: c1(2) c2(2))
  with c1 c2 show ?case by (intro exI[of _ c2]) (simp add: then_do_def)
qed

lemma merge_event_cached:
  assumes "sendable C m" "in_set pfx m" "\<forall>w \<in> set ws. sendable C w \<and> in_set pfx w \<and> msg_fid32 w = msg_fid32 m"
    and "sc_counts c (cache_key (msg_fid32 m) (postfix_byte pfx)) = Some n"
  shows "\<exists>c'. processEvent db now (merge_event i m ws) c = (Some (Ok ()), c') \<and>
           sc_counts c' = (sc_counts c)(cache_key (msg_fid32 m) (postfix_byte pfx) \<mapsto>
             n + event_delta (msg_fid32 m) (merge_event i m ws)) \<and>
           sc_pendingMessageCountScans c' = sc_pendingMessageCountScans c"
proof -
  have t: "isMergeMessageHubEvent (merge_event i m ws)"
    by (simp add: isMergeMessageHubEvent_def merge_event_def native_event_def)
  obtain c1 where c1: "addMessage db m c = (Some (Ok ()), c1)"
      "sc_counts c1 = (sc_counts c)(cache_key (msg_fid32 m) (postfix_byte pfx) \<mapsto> n + 1)"
      "sc_pendingMessageCountScans c1 = sc_pendingMessageCountScans c"
    using account_cached[OF assms(1,2,4), of 1] unfolding addMessage_def by force
  obtain c2 where "removeMessages db ws c1 = (Some (Ok ()), c2)"
      "sc_counts c2 = (sc_counts c1)(cache_key (msg_fid32 m) (postfix_byte pfx) \<mapsto> n + 1 - int (length ws))"
      "sc_pendingMessageCountScans c2 = sc_pendingMessageCountScans c1"
    using removeMessages_cached[OF assms(3), of c1 "n + 1"] c1(2) by auto
  with c1 t show ?thesis
    by (simp add: processEvent_def then_do_def merge_event_body algebra_simps)
qed

lemma announce_merge:
  assumes "events_coded (hp_events E) U" "0 \<le> i" "i < 2 ^ 64" "m \<in> U" "set ws \<subseteq> U"
    and "\<forall>w \<in> U. sendable C w \<and> in_set pfx w" "\<forall>w \<in> set ws. msg_fid32 w = msg_fid32 m"
    and "sc_counts (seh_storageCache h) (cache_key (msg_fid32 m) (postfix_byte pfx)) = Some n"
  shows "\<exists>h'. announce E now (encodeHubEvent (hp_events E) (merge_event i m ws)) (db, h) = (Some (Ok i), db, h') \<and>
           seh_generator h' = seh_generator h \<and>
           sc_counts (seh_storageCache h') =
             (sc_counts (seh_storageCache h))(cache_key (msg_fid32 m) (postfix_byte pfx) \<mapsto>
               n + event_delta (msg_fid32 m) (merge_event i m ws)) \<and>
           sc_pendingMessageCountScans (seh_storageCache h') = sc_pendingMessageCountScans (seh_storageCache h)"
proof -
  have "decodeHubEvent (hp_events E) (encodeHubEvent (hp_events E) (merge_event i m ws)) = Ok (merge_event i m ws)"
    using assms(1-5) by (simp add: events_coded_def)
  moreover have "\<forall>w\<in>set ws. sendable C w \<and> in_set pfx w \<and> msg_fid32 w = msg_fid32 m"
    using assms(5-7) by auto
  from merge_event_cached[OF _ _ this assms(8)] obtain c' where
    "processEvent db now (merge_event i m ws) (seh_storageCache h) = (Some (Ok ()), c')"
    "sc_counts c' = (sc_counts (seh_storageCache h))(cache_key (msg_fid32 m) (postfix_byte pfx) \<mapsto>
        n + event_delta (msg_fid32 m) (merge_event i m ws))"
    "sc_pendingMessageCountScans c' = sc_pendingMessageCountScans (seh_storageCache h)"
    using assms(4,6) by blast
  moreover have "seh_storageCache (snd (broadcastEvent e h)) = seh_storageCache h \<and>
      seh_generator (snd (broadcastEvent e h)) = seh_generator h" for e h
    by (simp add: broadcastEvent_def Let_def)
  ultimately show ?thesis
    by (simp add: announce_def settled_def processRustCommittedTransaction_def notify_def merge_event_id)
qed

section \<open>Asking whether a message would be pruned\<close>

lemma slot_keeps_counts:
  "sc_counts (snd (getCurrentStorageSlotForFid fuel C db now fid c)) = sc_counts c \<and>
   sc_pendingMessageCountScans (snd (getCurrentStorageSlotForFid fuel C db now fid c)) = sc_pendingMessageCountScans c"
  by (simp add: getCurrentStorageSlotForFid_def split: option.split outcome.split)

lemma earliest_keeps_counts:
  assumes "makeKey fid pfx = Ok key" "sc_counts c key = Some n" "sc_pendingMessageCountScans c = []"
  shows "sc_counts (snd (getEarliestTsHash fuel db fid pfx c)) = sc_counts c \<and>
         sc_pendingMessageCountScans (snd (getEarliestTsHash fuel db fid pfx c)) = []"
proof -
  have "getMessageCount db fid pfx True c = (Some (Ok n), c)"
    using assms by (intro getMessageCount_cached) (simp_all add: scan_possible_def)
  with assms show ?thesis
    by (simp add: getEarliestTsHash_def Let_def split: option.split outcome.split prod.split)
qed

text \<open>Afterwards the count of the author is cached and exact; nothing else about the counts changes.\<close>

lemma isPrunable_warms:
  assumes m: "sendable C m" "in_set pfx m"
    and db: "key_layout (postfix_byte pfx) (rdb_disk db)" "postfix_byte pfx \<noteq> 255" "rdb_native_open db"
    and c: "sc_pendingMessageCountScans (seh_storageCache h) = []"
      "\<And>n. sc_counts (seh_storageCache h) (cache_key (msg_fid32 m) (postfix_byte pfx)) = Some n \<Longrightarrow>
         n = int (stored_count (set_prefix (msg_fid32 m) (postfix_byte pfx)) (rdb_disk db))"
  shows "sc_counts (seh_storageCache (snd (isPrunable fuel C' db now m pfx limit h))) =
           (sc_counts (seh_storageCache h))(cache_key (msg_fid32 m) (postfix_byte pfx) \<mapsto>
             int (stored_count (set_prefix (msg_fid32 m) (postfix_byte pfx)) (rdb_disk db))) \<and>
         sc_pendingMessageCountScans (seh_storageCache (snd (isPrunable fuel C' db now m pfx limit h))) = [] \<and>
         seh_generator (snd (isPrunable fuel C' db now m pfx limit h)) = seh_generator h"
proof -
  obtain d hash where d: "msg_data m = Some d" "msg_hash m = Some hash"
      "makeKey (md_fid d) pfx = Ok (cache_key (msg_fid32 m) (postfix_byte pfx))"
      "makeMessagePrimaryKey (md_fid d) pfx None = Ok (set_prefix (msg_fid32 m) (postfix_byte pfx))"
    using sendable_key[OF m] by blast
  let ?k = "cache_key (msg_fid32 m) (postfix_byte pfx)" and ?p = "set_prefix (msg_fid32 m) (postfix_byte pfx)"
  let ?n = "int (stored_count ?p (rdb_disk db))" and ?c = "seh_storageCache h"
  define P where "P h' \<longleftrightarrow>
      sc_counts (seh_storageCache h') = (sc_counts ?c)(?k \<mapsto> ?n) \<and>
      sc_pendingMessageCountScans (seh_storageCache h') = [] \<and> seh_generator h' = seh_generator h" for h' :: event_handler
  define c1 where "c1 = ?c\<lparr>sc_counts := (sc_counts ?c)(?k \<mapsto> ?n)\<rparr>"
  have scan: "scan_possible ?c ?k" using c(1) by (simp add: scan_possible_def)
  have cnt: "getMessageCount db (md_fid d) pfx True ?c = (Some (Ok ?n), c1)"
  proof (cases "sc_counts ?c ?k")
    case None
    with getMessageCount_uncached[OF d(3,4) layout_fixed[OF db(1,2)] db(3) scan] show ?thesis by (simp add: c1_def)
  next
    case (Some n)
    with c(2) getMessageCount_cached[OF d(3) scan] show ?thesis by (simp add: c1_def fun_upd_idem)
  qed
  then have first: "getCacheMessageCount db (md_fid d) pfx True h = (Some (Ok ?n), h\<lparr>seh_storageCache := c1\<rparr>)"
    by (simp add: getCacheMessageCount_def with_cache_def)
  have P1: "P (h\<lparr>seh_storageCache := c1\<rparr>)" using c(1) by (simp add: c1_def P_def)
  have max: "P (snd (getMaxMessageCount fuel C' db now (md_fid d) pfx h'))" if "P h'" for h'
    unfolding getMaxMessageCount_def
    by (rule await_state[where P = P])
      (use that slot_keeps_counts in \<open>auto simp: P_def handler_getCurrentStorageSlotForFid_def with_cache_def settled_def
          split: option.split\<close>)
  have earliest: "P (snd (handler_getEarliestTsHash fuel db (md_fid d) pfx h'))" if "P h'" for h'
    using earliest_keeps_counts[OF d(3), of "seh_storageCache h'" ?n fuel db] that
    by (simp add: handler_getEarliestTsHash_def with_cache_def P_def)
  have "P (snd (isPrunable fuel C' db now m pfx limit h))"
    unfolding isPrunable_def
    apply (simp only: d(1) deref.simps settled_def await_simps first)
    apply (rule await_state[where P = P])
     apply (rule max[OF P1])
    apply (simp only: Let_def)
    apply (rule if_state[where P = P])
     apply (simp add: settled_def)
    apply (rule await_state[where P = P])
     apply (erule earliest)
    apply (rule await_state[where P = P])
     apply simp
    apply (simp add: settled_def)
    done
  then show ?thesis by (simp add: P_def)
qed


section \<open>A batch of messages\<close>

definition counts_exact :: "UserPostfix \<Rightarrow> hub_state \<Rightarrow> bool" where
  "counts_exact pfx hub \<longleftrightarrow>
     (\<forall>f n. u32 f \<longrightarrow> sc_counts (seh_storageCache (snd hub)) (cache_key f (postfix_byte pfx)) = Some n \<longrightarrow>
        n = int (stored_count (set_prefix f (postfix_byte pfx)) (rdb_disk (fst hub))))"

definition ready :: "UserPostfix \<Rightarrow> hub_state \<Rightarrow> bool" where
  "ready pfx hub \<longleftrightarrow>
     key_layout (postfix_byte pfx) (rdb_disk (fst hub)) \<and> rdb_native_open (fst hub) \<and>
     sc_pendingMessageCountScans (seh_storageCache (snd hub)) = []"

definition counted :: "UserPostfix \<Rightarrow> hub_state \<Rightarrow> Message \<Rightarrow> bool" where
  "counted pfx hub m \<longleftrightarrow>
     sc_counts (seh_storageCache (snd hub)) (cache_key (msg_fid32 m) (postfix_byte pfx)) \<noteq> None"

lemma store_isPrunable_warms:
  assumes "sendable (hp_proto E) m" "in_set pfx m" "rs_postfix R = pfx" "postfix_byte pfx \<noteq> 255"
    and "ready pfx hub" "counts_exact pfx hub" "store_isPrunable E R now m hub = (r, hub')"
  shows "fst hub' = fst hub \<and> ready pfx hub' \<and> counts_exact pfx hub' \<and> counted pfx hub' m \<and>
         (\<forall>w. counted pfx hub w \<longrightarrow> counted pfx hub' w) \<and> seh_generator (snd hub') = seh_generator (snd hub)"
proof -
  have f: "u32 (msg_fid32 m)" using sendable_key[OF assms(1,2)] by blast
  obtain db h where hub: "hub = (db, h)" by (cases hub)
  let ?h' = "snd (isPrunable (hp_fuel E) (hp_proto E) db now m pfx (rs_pruneSizeLimit R) h)"
  have hub': "hub' = (db, ?h')"
    using assms(3,7) by (simp add: store_isPrunable_def with_handler_def hub split: prod.splits)
  have w: "sc_counts (seh_storageCache ?h') =
           (sc_counts (seh_storageCache h))(cache_key (msg_fid32 m) (postfix_byte pfx) \<mapsto>
             int (stored_count (set_prefix (msg_fid32 m) (postfix_byte pfx)) (rdb_disk db))) \<and>
         sc_pendingMessageCountScans (seh_storageCache ?h') = [] \<and> seh_generator ?h' = seh_generator h"
    by (rule isPrunable_warms[OF assms(1,2)])
      (use assms(4-6) f in \<open>auto simp: ready_def counts_exact_def hub\<close>)
  have "u32 g \<Longrightarrow> cache_key g (postfix_byte pfx) = cache_key (msg_fid32 m) (postfix_byte pfx) \<longleftrightarrow> g = msg_fid32 m" for g
    by (rule count_key_inject[OF _ f])
  with w assms(5,6) show ?thesis
    by (auto simp: hub hub' ready_def counts_exact_def counted_def)
qed

lemma prunable_loop_inv:
  assumes "rs_postfix R = pfx" "postfix_byte pfx \<noteq> 255"
  shows "\<forall>m \<in> set ms. sendable (hp_proto E) m \<and> in_set pfx m \<Longrightarrow> ready pfx hub \<Longrightarrow> counts_exact pfx hub \<Longrightarrow>
     prunable_loop E R now i ms results encoded hub = (Some (Ok (results', encoded')), hub') \<Longrightarrow>
     fst hub' = fst hub \<and> ready pfx hub' \<and> counts_exact pfx hub' \<and>
     (\<forall>w. counted pfx hub w \<longrightarrow> counted pfx hub' w) \<and> seh_generator (snd hub') = seh_generator (snd hub) \<and>
     (\<exists>new. encoded' = encoded @ new \<and>
        (\<forall>x \<in> set new. \<exists>m \<in> set ms. snd x = encodeMessage (hp_proto E) m \<and> counted pfx hub' m))"
proof (induction ms arbitrary: i results encoded hub)
  case Nil
  then show ?case by (auto simp: settled_def)
next
  case (Cons m ms)
  obtain r hub1 where p: "store_isPrunable E R now m hub = (r, hub1)" by (cases "store_isPrunable E R now m hub")
  note w = store_isPrunable_warms[OF _ _ assms(1,2) Cons.prems(2,3) p]
  have w: "fst hub1 = fst hub \<and> ready pfx hub1 \<and> counts_exact pfx hub1 \<and> counted pfx hub1 m \<and>
         (\<forall>w. counted pfx hub w \<longrightarrow> counted pfx hub1 w) \<and> seh_generator (snd hub1) = seh_generator (snd hub)"
    using w Cons.prems(1) by simp
  obtain res enc where rec: "prunable_loop E R now (Suc i) ms res enc hub1 = (Some (Ok (results', encoded')), hub')"
    and enc: "enc = encoded \<or> enc = encoded @ [(i, encodeMessage (hp_proto E) m)]"
    using Cons.prems(4) p by (auto simp: settled_def split: option.splits outcome.splits bool.splits)
  from Cons.IH[OF _ _ _ rec] Cons.prems(1) w obtain new where
    n: "fst hub' = fst hub1" "ready pfx hub'" "counts_exact pfx hub'"
      "\<forall>w. counted pfx hub1 w \<longrightarrow> counted pfx hub' w" "seh_generator (snd hub') = seh_generator (snd hub1)"
      "encoded' = enc @ new"
      "\<forall>x \<in> set new. \<exists>m \<in> set ms. snd x = encodeMessage (hp_proto E) m \<and> counted pfx hub' m"
    by auto
  have "\<exists>new'. encoded' = encoded @ new' \<and>
      (\<forall>x \<in> set new'. \<exists>m' \<in> set (m # ms). snd x = encodeMessage (hp_proto E) m' \<and> counted pfx hub' m')"
    using enc
  proof
    assume "enc = encoded"
    then show ?thesis using n by auto
  next
    assume "enc = encoded @ [(i, encodeMessage (hp_proto E) m)]"
    then have "encoded' = encoded @ ((i, encodeMessage (hp_proto E) m) # new)" using n(6) by simp
    moreover have "counted pfx hub' m" using w n(4) by blast
    ultimately show ?thesis using n(7) by auto
  qed
  with w n show ?case by auto
qed

text \<open>The events of a list of results.\<close>

fun oks :: "'a outcome list \<Rightarrow> 'a list" where
  "oks [] = []"
| "oks (Ok x # rs) = x # oks rs"
| "oks (r # rs) = oks rs"

lemma oks_bridge [simp]: "oks (map (\<lambda>r. fromPromise (bridge r) e) rs) = oks rs"
  by (induction rs rule: oks.induct) simp_all

definition merge_event_in :: "Message set \<Rightarrow> (Message \<Rightarrow> bool) \<Rightarrow> HubEvent \<Rightarrow> bool" where
  "merge_event_in U ok ev \<longleftrightarrow>
     (\<exists>i m ws. ev = merge_event i m ws \<and> 0 \<le> i \<and> i < 2 ^ 64 \<and> m \<in> U \<and> ok m \<and> set ws \<subseteq> U \<and>
        (\<forall>w \<in> set ws. msg_fid32 w = msg_fid32 m))"

definition total_delta :: "int \<Rightarrow> HubEvent list \<Rightarrow> int" where
  "total_delta f evs = sum_list (map (event_delta f) evs)"

lemma results_loop_counts:
  assumes "events_coded (hp_events E) U" "\<forall>w \<in> U. sendable C w \<and> in_set pfx w"
  shows "oks (map snd rs) = map (encodeHubEvent (hp_events E)) evs \<Longrightarrow>
     \<forall>ev \<in> set evs. merge_event_in U (counted pfx (db, h)) ev \<Longrightarrow> (\<forall>r \<in> set (map snd rs). no_throw r) \<Longrightarrow>
     \<exists>results' h'. results_loop E now encoded rs results (db, h) = (Some (Ok results'), db, h') \<and>
       seh_generator h' = seh_generator h \<and>
       sc_pendingMessageCountScans (seh_storageCache h') = sc_pendingMessageCountScans (seh_storageCache h) \<and>
       (\<forall>f. u32 f \<longrightarrow> sc_counts (seh_storageCache h') (cache_key f (postfix_byte pfx)) =
          map_option (\<lambda>n. n + total_delta f evs) (sc_counts (seh_storageCache h) (cache_key f (postfix_byte pfx))))"
proof (induction rs arbitrary: evs results h)
  case Nil
  then show ?case by (auto simp: settled_def total_delta_def option.map_id0[unfolded id_def] option.map_ident)
next
  case (Cons jr rs)
  obtain j r where jr: "jr = (j, r)" by (cases jr)
  show ?case
  proof (cases r)
    case (Err e)
    with Cons.IH[of evs h "batch_insert (fst (encoded ! j), Err e) results"] Cons.prems show ?thesis
      by (simp add: jr)
  next
    case (Throw t)
    with Cons.prems(3) show ?thesis by (simp add: jr)
  next
    case (Ok bs)
    with Cons.prems(1) obtain ev evs' where evs: "evs = ev # evs'" "bs = encodeHubEvent (hp_events E) ev"
        "oks (map snd rs) = map (encodeHubEvent (hp_events E)) evs'"
      by (auto simp: jr Cons_eq_map_conv)
    have "merge_event_in U (counted pfx (db, h)) ev" using Cons.prems(2) evs(1) by simp
    then obtain i m ws where ev: "ev = merge_event i m ws" "0 \<le> i" "i < 2 ^ 64" "m \<in> U" "set ws \<subseteq> U"
        "\<forall>w \<in> set ws. msg_fid32 w = msg_fid32 m" and cnt: "counted pfx (db, h) m"
      unfolding merge_event_in_def by blast
    obtain n where n: "sc_counts (seh_storageCache h) (cache_key (msg_fid32 m) (postfix_byte pfx)) = Some n"
      using cnt by (auto simp: counted_def)
    from announce_merge[OF assms(1) ev(2-5) assms(2) ev(6) n] obtain h1 where
      h1: "announce E now bs (db, h) = (Some (Ok i), db, h1)" "seh_generator h1 = seh_generator h"
        "sc_counts (seh_storageCache h1) = (sc_counts (seh_storageCache h))
           (cache_key (msg_fid32 m) (postfix_byte pfx) \<mapsto> n + event_delta (msg_fid32 m) (merge_event i m ws))"
        "sc_pendingMessageCountScans (seh_storageCache h1) = sc_pendingMessageCountScans (seh_storageCache h)"
      using evs(2) ev(1) by blast
    have f: "u32 (msg_fid32 m)" using assms(2) ev(4) sendable_key by blast
    have step: "sc_counts (seh_storageCache h1) (cache_key g (postfix_byte pfx)) =
        map_option (\<lambda>n. n + event_delta g ev) (sc_counts (seh_storageCache h) (cache_key g (postfix_byte pfx)))"
      if "u32 g" for g
      using n count_key_inject[OF that f, of "postfix_byte pfx"]
      by (auto simp: h1(3) ev(1) option.map_ident)
    have more: "counted pfx (db, h1) w" if "counted pfx (db, h) w" for w
      using that by (auto simp: counted_def h1(3))
    have "\<forall>ev \<in> set evs'. merge_event_in U (counted pfx (db, h1)) ev"
    proof
      fix e assume "e \<in> set evs'"
      then have "merge_event_in U (counted pfx (db, h)) e" using Cons.prems(2) evs(1) by simp
      then show "merge_event_in U (counted pfx (db, h1)) e" unfolding merge_event_in_def using more by blast
    qed
    from Cons.IH[OF evs(3) this, of "batch_insert (fst (encoded ! j), Ok i) results"] Cons.prems(3) obtain results' h' where
      "results_loop E now encoded rs (batch_insert (fst (encoded ! j), Ok i) results) (db, h1) = (Some (Ok results'), db, h')"
      "seh_generator h' = seh_generator h1"
      "sc_pendingMessageCountScans (seh_storageCache h') = sc_pendingMessageCountScans (seh_storageCache h1)"
      "\<And>f. u32 f \<Longrightarrow> sc_counts (seh_storageCache h') (cache_key f (postfix_byte pfx)) =
          map_option (\<lambda>n. n + total_delta f evs') (sc_counts (seh_storageCache h1) (cache_key f (postfix_byte pfx)))"
      by auto
    then show ?thesis
      using Ok h1 step by (simp add: jr evs(1) total_delta_def option.map_comp comp_def add.assoc)
  qed
qed


section \<open>Batches keep the counts exact\<close>

context two_phase_store
begin

definition backed :: "proto_codec \<Rightarrow> Message set \<Rightarrow> store \<Rightarrow> bool" where
  "backed C U s \<longleftrightarrow> (\<exists>A. represents C U s A)"

lemma merge_no_panic:
  assumes u: "universe C U" "m \<in> U" "represents C U (rdb_disk db) A" and o: "rdb_native_open db"
    and r: "native_merge S C D now m (db, g) = (r, st')"
  shows "no_throw r"
proof (cases "\<exists>w. A (slot m) = Some w \<and> \<not> mrank w < mrank m")
  case True
  then show ?thesis using merge_loses[OF u o, of _ D now g] r by (auto simp: not_less split: if_splits)
next
  case False
  let ?old = "case A (slot m) of Some w \<Rightarrow> [w] | None \<Rightarrow> []"
  have wf: "well_formed m" using universeD[OF u(1,2)] by simp
  have "get_default_merge_conflicts S C (rdb_disk db) m (msg_tshash m) = Ok ?old"
    using merge_conflicts[OF u] False by (auto split: option.split)
  then have c: "commit_with_event D now (appendTxn (delete_many_transaction S ?old) (put_ops C m))
      (merge_event_for S m ?old) (db, g) = (r, st')"
    using r native_merge_eq[OF wf o] by simp
  obtain p where p: "put_ops C m = Ok p" using put_ops_effect[OF wf] by blast
  obtain d where d: "delete_many_transaction S ?old = Ok d"
    using delete_ops_effect representsD(1)[OF u(3)] universeD[OF u(1)] by (cases "A (slot m)") fastforce+
  show ?thesis
    using c by (auto simp: p d appendTxn_def commit_with_event_def native_commit_transaction_def generate_id_def
        Let_def fail_def mapOk_def split: outcome.splits prod.splits if_splits)
qed

text \<open>One message on its way through the native code.\<close>

lemma js_merge_step:
  assumes u: "universe C U" "m \<in> U" and C: "C = hp_proto E" and m: "codec_law C m"
    and db: "backed C U (rdb_disk db)" "rdb_native_open db" "key_layout (sd_postfix S) (rdb_disk db)"
    and r: "js_merge E S now (encodeMessage C m) (db, g) = (r, db', g')"
  shows "backed C U (rdb_disk db') \<and> rdb_native_open db' \<and> key_layout (sd_postfix S) (rdb_disk db') \<and> no_throw r \<and>
     (\<exists>evs. oks [r] = map (encodeHubEvent (hp_events E)) evs \<and>
        (\<forall>ev \<in> set evs. merge_event_in U (\<lambda>w. w = m) ev) \<and>
        (\<forall>f. u32 f \<longrightarrow> int (stored_count (set_prefix f (sd_postfix S)) (rdb_disk db')) =
           int (stored_count (set_prefix f (sd_postfix S)) (rdb_disk db)) + total_delta f evs))"
proof -
  obtain A where A: "represents C U (rdb_disk db) A" using db(1) by (auto simp: backed_def)
  obtain q st' where q: "native_merge S C (hp_events E) now m (db, g) = (q, st')"
    by (cases "native_merge S C (hp_events E) now m (db, g)")
  then have r': "r = mapOk q (encodeHubEvent (hp_events E))" "st' = (db', g')"
    using r m C by (simp_all add: js_merge_def native_input_def codec_law_def)
  have nt: "no_throw r" using merge_no_panic[OF u A db(2) q] by (simp add: r'(1))
  have op: "rdb_native_open db'" using merge_effect(2)[OF u A db(2) q] by (simp add: r'(2))
  have ly: "key_layout (sd_postfix S) (rdb_disk db')"
    using merge_layout[OF u A db(2) q db(3)] by (simp add: r'(2))
  show ?thesis
  proof (cases "\<exists>ev. q = Ok ev")
    case False
    then have "db' = db" using merge_effect(1)[OF u A db(2) q] by (simp add: r'(2))
    moreover have "oks [r] = []" using False by (cases q) (simp_all add: r'(1))
    ultimately show ?thesis using db nt by (intro conjI exI[of _ "[]"]) (simp_all add: total_delta_def)
  next
    case True
    then obtain ev where ev: "q = Ok ev" by blast
    note e = merge_effect(3)[OF u A db(2) q ev]
    obtain i where i: "0 \<le> i" "i < 2 ^ 64" "ev = merge_event i m (case A (slot m) of Some w \<Rightarrow> [w] | None \<Rightarrow> [])"
      using e by blast
    have "w \<in> U \<and> msg_fid32 w = msg_fid32 m" if "A (slot m) = Some w" for w
      using representsD(1,4)[OF A that] by simp
    then have "merge_event_in U (\<lambda>w. w = m) ev"
      unfolding merge_event_in_def using i u(2)
      by (intro exI[of _ i] exI[of _ m] exI[of _ "case A (slot m) of Some w \<Rightarrow> [w] | None \<Rightarrow> []"]) (auto split: option.split)
    moreover have "backed C U (rdb_disk db')" using e by (auto simp: backed_def r'(2))
    moreover have "int (stored_count (set_prefix f (sd_postfix S)) (rdb_disk db')) =
           int (stored_count (set_prefix f (sd_postfix S)) (rdb_disk db)) + event_delta f ev" if "u32 f" for f
      using merge_count[OF u A db(2) q[unfolded ev] that] by (simp add: r'(2))
    ultimately show ?thesis using nt op ly
      by (intro conjI exI[of _ "[ev]"]) (simp_all add: r'(1) ev total_delta_def)
  qed
qed

lemma js_merge_many_counts:
  assumes u: "universe C U" and C: "C = hp_proto E" and m: "\<forall>m \<in> U. codec_law C m"
  shows "\<forall>bs \<in> set bss. \<exists>m \<in> U. ok m \<and> bs = encodeMessage C m \<Longrightarrow>
     backed C U (rdb_disk db) \<Longrightarrow> rdb_native_open db \<Longrightarrow> key_layout (sd_postfix S) (rdb_disk db) \<Longrightarrow>
     js_merge_many E S now bss (db, g) = (r, db', g') \<Longrightarrow>
     backed C U (rdb_disk db') \<and> rdb_native_open db' \<and> key_layout (sd_postfix S) (rdb_disk db') \<and>
     (\<exists>rs evs. r = Ok rs \<and> (\<forall>x \<in> set rs. no_throw x) \<and> oks rs = map (encodeHubEvent (hp_events E)) evs \<and>
        (\<forall>ev \<in> set evs. merge_event_in U ok ev) \<and>
        (\<forall>f. u32 f \<longrightarrow> int (stored_count (set_prefix f (sd_postfix S)) (rdb_disk db')) =
           int (stored_count (set_prefix f (sd_postfix S)) (rdb_disk db)) + total_delta f evs))"
proof (induction bss arbitrary: db g r db' g')
  case Nil
  then show ?case by (auto simp: total_delta_def intro!: exI[of _ "[]"])
next
  case (Cons bs bss)
  from Cons.prems(1) obtain w where w: "w \<in> U" "ok w" "bs = encodeMessage C w" by auto
  obtain r1 db1 g1 where r1: "js_merge E S now bs (db, g) = (r1, db1, g1)" by (metis prod.collapse)
  from js_merge_step[OF u w(1) C _ Cons.prems(2-4) r1[unfolded w(3)]] m w(1) obtain evs1 where
    s1: "backed C U (rdb_disk db1)" "rdb_native_open db1" "key_layout (sd_postfix S) (rdb_disk db1)" "no_throw r1"
      "oks [r1] = map (encodeHubEvent (hp_events E)) evs1" "\<forall>ev \<in> set evs1. merge_event_in U (\<lambda>v. v = w) ev"
      "\<And>f. u32 f \<Longrightarrow> int (stored_count (set_prefix f (sd_postfix S)) (rdb_disk db1)) =
           int (stored_count (set_prefix f (sd_postfix S)) (rdb_disk db)) + total_delta f evs1"
    by blast
  obtain r2 db2 g2 where r2: "js_merge_many E S now bss (db1, g1) = (r2, db2, g2)" by (metis prod.collapse)
  have "js_merge_many E S now (bs # bss) (db, g) = (mapOk r2 (\<lambda>rs. r1 # rs), db2, g2)"
    using r1 r2 s1(4) by (cases r1) simp_all
  then have res: "r = mapOk r2 (\<lambda>rs. r1 # rs)" "db' = db2" "g' = g2" using Cons.prems(5) by simp_all
  from Cons.IH[OF _ s1(1-3) r2[folded res(2,3)]] Cons.prems(1) obtain rs evs2 where
    s2: "backed C U (rdb_disk db')" "rdb_native_open db'" "key_layout (sd_postfix S) (rdb_disk db')"
      "r2 = Ok rs" "\<forall>x \<in> set rs. no_throw x" "oks rs = map (encodeHubEvent (hp_events E)) evs2"
      "\<forall>ev \<in> set evs2. merge_event_in U ok ev"
      "\<And>f. u32 f \<Longrightarrow> int (stored_count (set_prefix f (sd_postfix S)) (rdb_disk db')) =
           int (stored_count (set_prefix f (sd_postfix S)) (rdb_disk db1)) + total_delta f evs2"
    by auto
  have "oks (r1 # rs) = oks [r1] @ oks rs" by (cases r1) simp_all
  moreover have "\<forall>ev \<in> set evs1. merge_event_in U ok ev"
    using s1(6) w(2) unfolding merge_event_in_def by blast
  ultimately show ?case
    using s1 s2 by (intro conjI exI[of _ "r1 # rs"] exI[of _ "evs1 @ evs2"]) (auto simp: res total_delta_def)
qed


lemma rsMergeMany_counts:
  assumes u: "universe C U" and C: "C = hp_proto E" and m: "\<forall>m \<in> U. codec_law C m"
    and bss: "\<forall>bs \<in> set bss. \<exists>m \<in> U. ok m \<and> bs = encodeMessage C m"
    and db: "backed C U (rdb_disk db)" "rdb_native_open db" "key_layout (sd_postfix S) (rdb_disk db)"
  shows "\<exists>rs db' h' evs. rsMergeMany E S now bss (db, h) = (Some (Ok rs), db', h') \<and>
     backed C U (rdb_disk db') \<and> rdb_native_open db' \<and> key_layout (sd_postfix S) (rdb_disk db') \<and>
     seh_storageCache h' = seh_storageCache h \<and> (\<forall>x \<in> set (map snd rs). no_throw x) \<and>
     oks (map snd rs) = map (encodeHubEvent (hp_events E)) evs \<and> (\<forall>ev \<in> set evs. merge_event_in U ok ev) \<and>
     (\<forall>f. u32 f \<longrightarrow> int (stored_count (set_prefix f (sd_postfix S)) (rdb_disk db')) =
           int (stored_count (set_prefix f (sd_postfix S)) (rdb_disk db)) + total_delta f evs)"
proof -
  have direct: ?thesis if "rsMergeMany E S now bss (db, h) =
      await (native_call (js_merge_many E S now bss) (db, h)) (\<lambda>results hub.
        settled (Ok (enumerate 0 (map (\<lambda>r. fromPromise (bridge r) rustErrorToHubError) results))) hub)"
  proof -
    obtain r db' g' where r: "js_merge_many E S now bss (db, seh_generator h) = (r, db', g')" by (metis prod.collapse)
    from js_merge_many_counts[OF u C m bss db r] obtain rs evs where
      s: "backed C U (rdb_disk db')" "rdb_native_open db'" "key_layout (sd_postfix S) (rdb_disk db')" "r = Ok rs"
        "oks rs = map (encodeHubEvent (hp_events E)) evs" "\<forall>ev \<in> set evs. merge_event_in U ok ev"
        "\<forall>f. u32 f \<longrightarrow> int (stored_count (set_prefix f (sd_postfix S)) (rdb_disk db')) =
           int (stored_count (set_prefix f (sd_postfix S)) (rdb_disk db)) + total_delta f evs"
      by blast
    let ?rs = "enumerate 0 (map (\<lambda>r. fromPromise (bridge r) rustErrorToHubError) rs)"
    have "oks (map snd ?rs) = map (encodeHubEvent (hp_events E)) evs" using s(5) by simp
    moreover have "\<forall>x \<in> set (map snd ?rs). no_throw x"
      unfolding map_snd_enumerate by auto
    moreover have "rsMergeMany E S now bss (db, h) = (Some (Ok ?rs), db', h\<lparr>seh_generator := g'\<rparr>)"
      by (simp add: that native_call_def r s(4) settled_def)
    ultimately show ?thesis using s by (intro exI[of _ ?rs] exI[of _ db'] exI[of _ "h\<lparr>seh_generator := g'\<rparr>"] exI[of _ evs]) simp
  qed
  show ?thesis
  proof (cases "\<exists>bs. bss = [bs]")
    case False
    then show ?thesis by (intro direct) (auto simp: rsMergeMany_def split: list.split)
  next
    case True
    then obtain bs where bs: "bss = [bs]" by blast
    with assms(4) obtain w where w: "w \<in> U" "ok w" "bs = encodeMessage C w" by auto
    obtain r db' g' where r: "js_merge E S now bs (db, seh_generator h) = (r, db', g')" by (metis prod.collapse)
    from js_merge_step[OF u w(1) C _ db r[unfolded w(3)]] m w(1) obtain evs where
      s: "backed C U (rdb_disk db')" "rdb_native_open db'" "key_layout (sd_postfix S) (rdb_disk db')" "no_throw r"
        "oks [r] = map (encodeHubEvent (hp_events E)) evs" "\<forall>ev \<in> set evs. merge_event_in U (\<lambda>v. v = w) ev"
        "\<forall>f. u32 f \<longrightarrow> int (stored_count (set_prefix f (sd_postfix S)) (rdb_disk db')) =
           int (stored_count (set_prefix f (sd_postfix S)) (rdb_disk db)) + total_delta f evs"
      by blast
    have "rsMergeMany E S now bss (db, h) =
        (Some (Ok [(0, fromPromise (bridge r) rustErrorToHubError)]), db', h\<lparr>seh_generator := g'\<rparr>)"
      by (simp add: rsMergeMany_def bs rsMerge_def native_call_def r caught_def settled_def)
    moreover have "oks [fromPromise (bridge r) rustErrorToHubError] = oks [r]" by (cases r) simp_all
    moreover have "\<forall>ev \<in> set evs. merge_event_in U ok ev"
      using s(6) w(2) unfolding merge_event_in_def by blast
    ultimately show ?thesis using s by auto
  qed
qed

lemma batch_keeps_counts:
  assumes R: "rs_def R = S" "rs_postfix R = pfx" "postfix_byte pfx = sd_postfix S" "postfix_byte pfx \<noteq> 255"
    and u: "universe C U" and C: "C = hp_proto E" and m: "\<forall>m \<in> U. sendable C m \<and> in_set pfx m"
    and D: "events_coded (hp_events E) U" and ms: "set ms \<subseteq> U"
    and hub: "ready pfx (db, h)" "counts_exact pfx (db, h)" "backed C U (rdb_disk db)"
    and r: "RustStoreBase_mergeMessages E R now ms (db, h) = (Some (Ok res), db', h')"
  shows "ready pfx (db', h') \<and> counts_exact pfx (db', h') \<and> backed C U (rdb_disk db')"
proof -
  obtain results encoded hub1 where p: "prunable_loop E R now 0 ms [] [] (db, h) = (Some (Ok (results, encoded)), hub1)"
    using r by (cases "prunable_loop E R now 0 ms [] [] (db, h)")
      (auto simp: RustStoreBase_mergeMessages_def await_def split: option.splits outcome.splits)
  have good: "\<forall>m \<in> set ms. sendable (hp_proto E) m \<and> in_set pfx m" using m ms C by auto
  note pl = prunable_loop_inv[OF R(2,4) good hub(1,2) p]
  obtain h1 where h1: "hub1 = (db, h1)" using pl by (cases hub1) auto
  have l1: "ready pfx (db, h1)" "counts_exact pfx (db, h1)"
    and enc: "\<forall>x \<in> set encoded. \<exists>m \<in> set ms. snd x = encodeMessage (hp_proto E) m \<and> counted pfx (db, h1) m"
    using pl by (auto simp: h1)
  have rdy: "rdb_native_open db" "key_layout (sd_postfix S) (rdb_disk db)"
    using l1(1) by (simp_all add: ready_def R(3))
  have bss: "\<forall>bs \<in> set (map snd encoded). \<exists>m \<in> U. counted pfx (db, h1) m \<and> bs = encodeMessage C m"
    using enc ms C by fastforce
  have cl: "\<forall>m \<in> U. codec_law C m" using m by (simp add: sendable_def)
  from rsMergeMany_counts[OF u C cl bss hub(3) rdy, of now h1] obtain rs db2 h2 evs where
    s: "rsMergeMany E S now (map snd encoded) (db, h1) = (Some (Ok rs), db2, h2)"
      "backed C U (rdb_disk db2)" "rdb_native_open db2" "key_layout (sd_postfix S) (rdb_disk db2)"
      "seh_storageCache h2 = seh_storageCache h1" "\<forall>x \<in> set (map snd rs). no_throw x"
      "oks (map snd rs) = map (encodeHubEvent (hp_events E)) evs"
      "\<forall>ev \<in> set evs. merge_event_in U (counted pfx (db, h1)) ev"
      "\<forall>f. u32 f \<longrightarrow> int (stored_count (set_prefix f (sd_postfix S)) (rdb_disk db2)) =
           int (stored_count (set_prefix f (sd_postfix S)) (rdb_disk db)) + total_delta f evs"
    by blast
  have "counted pfx (db2, h2) = counted pfx (db, h1)" by (rule ext) (simp add: counted_def s(5))
  with s(8) have "\<forall>ev \<in> set evs. merge_event_in U (counted pfx (db2, h2)) ev" by simp
  from results_loop_counts[OF D m s(7) this s(6), of now encoded results] obtain results' h3 where
    t: "results_loop E now encoded rs results (db2, h2) = (Some (Ok results'), db2, h3)"
      "sc_pendingMessageCountScans (seh_storageCache h3) = sc_pendingMessageCountScans (seh_storageCache h2)"
      "\<forall>f. u32 f \<longrightarrow> sc_counts (seh_storageCache h3) (cache_key f (postfix_byte pfx)) =
          map_option (\<lambda>n. n + total_delta f evs) (sc_counts (seh_storageCache h2) (cache_key f (postfix_byte pfx)))"
    by blast
  have "db' = db2" "h' = h3"
    using r by (simp_all add: RustStoreBase_mergeMessages_def p h1 R(1) s(1) caught_def t(1))
  moreover have "counts_exact pfx (db2, h3)"
    using l1(2) t(3) s(9) unfolding counts_exact_def by (auto simp: s(5) R(3))
  moreover have "ready pfx (db2, h3)" using l1(1) s(3,4) t(2) by (simp add: ready_def s(5) R(3))
  ultimately show ?thesis using s(2) by simp
qed

end


text \<open>Batch after batch.\<close>

fun merge_batches ::
  "hub_params \<Rightarrow> rust_store \<Rightarrow> (int \<times> Message list) list \<Rightarrow> hub_state \<Rightarrow> (nat \<times> int outcome) list list hub_result" where
  "merge_batches E R [] hub = settled (Ok []) hub"
| "merge_batches E R ((now, ms) # batches) hub =
     await (RustStoreBase_mergeMessages E R now ms hub) (\<lambda>rs hub.
     await (merge_batches E R batches hub) (\<lambda>rss hub. settled (Ok (rs # rss)) hub))"

context two_phase_store
begin

lemma batches_keep_counts:
  assumes R: "rs_def R = S" "rs_postfix R = pfx" "postfix_byte pfx = sd_postfix S" "postfix_byte pfx \<noteq> 255"
    and u: "universe (hp_proto E) U" and m: "\<forall>m \<in> U. sendable (hp_proto E) m \<and> in_set pfx m"
    and D: "events_coded (hp_events E) U"
  shows "\<forall>b \<in> set batches. set (snd b) \<subseteq> U \<Longrightarrow> ready pfx hub \<Longrightarrow> counts_exact pfx hub \<Longrightarrow>
     backed (hp_proto E) U (rdb_disk (fst hub)) \<Longrightarrow> merge_batches E R batches hub = (Some (Ok rss), hub') \<Longrightarrow>
     ready pfx hub' \<and> counts_exact pfx hub' \<and> backed (hp_proto E) U (rdb_disk (fst hub'))"
proof (induction batches arbitrary: hub rss)
  case Nil
  then show ?case by (simp add: settled_def)
next
  case (Cons b batches)
  obtain now ms where b: "b = (now, ms)" by (cases b)
  obtain rs hub1 where r1: "RustStoreBase_mergeMessages E R now ms hub = (Some (Ok rs), hub1)"
    using Cons.prems(5) by (cases "RustStoreBase_mergeMessages E R now ms hub")
      (auto simp: b await_def split: option.splits outcome.splits)
  obtain rss' where r2: "merge_batches E R batches hub1 = (Some (Ok rss'), hub')"
    using Cons.prems(5) by (cases "merge_batches E R batches hub1")
      (auto simp: b r1 await_def settled_def split: option.splits outcome.splits)
  have "ready pfx hub1 \<and> counts_exact pfx hub1 \<and> backed (hp_proto E) U (rdb_disk (fst hub1))"
    using batch_keeps_counts[OF R u refl m D, of ms "fst hub" "snd hub" now rs "fst hub1" "snd hub1"] Cons.prems r1
    by (simp add: b)
  with Cons.IH[OF _ _ _ _ r2] Cons.prems(1) show ?case by simp
qed

lemma backed_empty:
  assumes "unused [sd_postfix S, adds, removes] s"
  shows "backed C U s"
  unfolding backed_def
  using assms unused_get[OF assms]
  by (intro exI[of _ Map.empty]) (simp add: represents_def primary_def add_index_def remove_index_def unused_def)

end

section \<open>Every message of a batch is answered\<close>

lemma prunable_loop_answers:
  "prunable_loop E R now i ms results encoded hub = (Some (Ok (results', encoded')), hub') \<Longrightarrow>
   fst ` set results' \<union> fst ` set encoded' = fst ` set results \<union> fst ` set encoded \<union> {i..<i + length ms} \<and>
   (distinct (map fst results) \<longrightarrow> distinct (map fst results'))"
proof (induction ms arbitrary: i results encoded hub)
  case Nil
  then show ?case by (simp add: settled_def)
next
  case (Cons m ms)
  obtain r hub1 where p: "store_isPrunable E R now m hub = (r, hub1)" by (cases "store_isPrunable E R now m hub")
  obtain res enc where rec: "prunable_loop E R now (Suc i) ms res enc hub1 = (Some (Ok (results', encoded')), hub')"
    and enc: "(res = results \<and> enc = encoded @ [(i, encodeMessage (hp_proto E) m)]) \<or>
      (\<exists>x. res = batch_insert (i, x) results) \<and> enc = encoded"
    using Cons.prems p by (auto simp: settled_def split: option.splits outcome.splits bool.splits)
  have "fst ` set res \<union> fst ` set enc = insert i (fst ` set results \<union> fst ` set encoded)"
    using enc by (elim disjE conjE exE) (simp_all add: batch_insert_keys)
  moreover have "distinct (map fst results) \<longrightarrow> distinct (map fst res)"
    using enc by (auto simp: batch_insert_distinct)
  moreover have "insert i {Suc i..<Suc i + length ms} = {i..<i + length (m # ms)}" by auto
  ultimately show ?case using Cons.IH[OF rec] by auto
qed

lemma results_loop_answers:
  "results_loop E now encoded rs results hub = (Some (Ok results'), hub') \<Longrightarrow>
   fst ` set results' = fst ` set results \<union> (\<lambda>j. fst (encoded ! j)) ` fst ` set rs \<and>
   (distinct (map fst results) \<longrightarrow> distinct (map fst results'))"
proof (induction rs arbitrary: results hub)
  case Nil
  then show ?case by (simp add: settled_def)
next
  case (Cons jr rs)
  obtain j r where jr: "jr = (j, r)" by (cases jr)
  obtain x hub1 where "results_loop E now encoded rs (batch_insert (fst (encoded ! j), x) results) hub1 = (Some (Ok results'), hub')"
    using Cons.prems by (cases r) (auto simp: jr await_def settled_def split: option.splits outcome.splits prod.splits)
  from Cons.IH[OF this] show ?case by (auto simp: jr batch_insert_keys batch_insert_distinct)
qed

lemma js_merge_many_length: "js_merge_many E S now bss st = (Ok rs, st') \<Longrightarrow> length rs = length bss"
proof (induction bss arbitrary: st rs)
  case Nil
  then show ?case by simp
next
  case (Cons bs bss)
  obtain r1 st1 where r1: "js_merge E S now bs st = (r1, st1)" by (cases "js_merge E S now bs st")
  obtain r2 st2 where r2: "js_merge_many E S now bss st1 = (r2, st2)" by (cases "js_merge_many E S now bss st1")
  with Cons.prems r1 have "\<exists>rs'. r2 = Ok rs' \<and> rs = r1 # rs' \<and> st2 = st'" by (cases r1) (auto simp: mapOk_Ok_iff)
  then obtain rs' where "r2 = Ok rs'" "rs = r1 # rs'" "st2 = st'" by blast
  with Cons.IH[of st1 rs'] r2 show ?case by simp
qed

lemma rsMergeMany_indices:
  assumes "rsMergeMany E S now bss hub = (Some (Ok rs), hub')"
  shows "fst ` set rs = {..<length bss}"
proof (cases "\<exists>bs. bss = [bs]")
  case True
  with assms show ?thesis by (auto simp: rsMergeMany_def settled_def split: option.splits prod.splits)
next
  case False
  then have many: "rsMergeMany E S now bss hub =
      await (native_call (js_merge_many E S now bss) hub) (\<lambda>results hub.
        settled (Ok (enumerate 0 (map (\<lambda>r. fromPromise (bridge r) rustErrorToHubError) results))) hub)"
    by (auto simp: rsMergeMany_def split: list.split)
  with assms obtain results st' where r: "js_merge_many E S now bss (fst hub, seh_generator (snd hub)) = (Ok results, st')"
    and rs: "rs = enumerate 0 (map (\<lambda>r. fromPromise (bridge r) rustErrorToHubError) results)"
  proof -
    obtain q db' g' where q: "js_merge_many E S now bss (fst hub, seh_generator (snd hub)) = (q, db', g')"
      by (metis prod.collapse)
    with that assms many show thesis
      by (cases q) (auto simp: native_call_def settled_def)
  qed
  have "fst ` set rs = set (map fst rs)" by simp
  also have "\<dots> = {..<length results}" unfolding rs by (simp only: map_fst_enumerate length_map) auto
  finally show ?thesis using js_merge_many_length[OF r] by simp
qed

lemma mergeMessages_answers:
  assumes "RustStoreBase_mergeMessages E R now ms hub = (Some (Ok res), hub')"
  shows "fst ` set res = {..<length ms} \<and> distinct (map fst res)"
proof -
  obtain results encoded hub1 where p: "prunable_loop E R now 0 ms [] [] hub = (Some (Ok (results, encoded)), hub1)"
    using assms by (cases "prunable_loop E R now 0 ms [] [] hub")
      (auto simp: RustStoreBase_mergeMessages_def await_def split: option.splits outcome.splits)
  have keys: "fst ` set results \<union> fst ` set encoded = {..<length ms}" "distinct (map fst results)"
    using prunable_loop_answers[OF p] by auto
  have fold_keys: "fst ` set (fold (\<lambda>(i, _). batch_insert (i, x)) xs ys) = fst ` set ys \<union> fst ` set xs \<and>
      (distinct (map fst ys) \<longrightarrow> distinct (map fst (fold (\<lambda>(i, _). batch_insert (i, x)) xs ys)))"
    for x :: "int outcome" and xs :: "(nat \<times> bytes) list" and ys
  proof (induction xs arbitrary: ys)
    case (Cons y xs)
    show ?case using Cons[of "batch_insert (fst y, x) ys"]
      by (cases y) (simp add: batch_insert_keys batch_insert_distinct)
  qed simp
  obtain r hub2 where r: "caught (rsMergeMany E (rs_def R) now (map snd encoded) hub1) = (r, hub2)"
    by (cases "caught (rsMergeMany E (rs_def R) now (map snd encoded) hub1)")
  show ?thesis
  proof (cases "\<exists>e. r = Some (Err e)")
    case True
    then obtain e where "res = fold (\<lambda>(i, _). batch_insert (i, Err e)) encoded results"
      using assms by (auto simp: RustStoreBase_mergeMessages_def p r settled_def)
    with fold_keys[of "Err e" encoded results] keys show ?thesis by simp
  next
    case False
    with assms obtain rs where rs: "r = Some (Ok rs)"
      "results_loop E now encoded rs results hub2 = (Some (Ok res), hub')"
      by (auto simp: RustStoreBase_mergeMessages_def p r settled_def split: option.splits outcome.splits)
    have "rsMergeMany E (rs_def R) now (map snd encoded) hub1 = (Some (Ok rs), hub2)"
    proof -
      obtain q h where q: "rsMergeMany E (rs_def R) now (map snd encoded) hub1 = (q, h)"
        by (cases "rsMergeMany E (rs_def R) now (map snd encoded) hub1")
      with r rs(1) have "map_option (\<lambda>r. fromPromise r rustErrorToHubError) q = Some (Ok rs)" "h = hub2"
        by (simp_all add: caught_def)
      then show ?thesis using q by (cases q) (auto elim: fromPromise.elims)
    qed
    from rsMergeMany_indices[OF this] have "fst ` set rs = {..<length encoded}" by simp
    then have "(\<lambda>j. fst (encoded ! j)) ` fst ` set rs = fst ` set encoded"
      by (auto simp: image_image set_conv_nth lessThan_def)
    with results_loop_answers[OF rs(2)] keys show ?thesis by auto
  qed
qed

lemma cast_in_set:
  assumes "well_formed_cast m"
  shows "in_set CastMessage m"
proof -
  have "is_native_type CAST_ADD m \<or> is_native_type CAST_REMOVE m"
    using assms by (auto simp: well_formed_cast_def split: outcome.splits message_body.splits)
  moreover have "msg_hash m \<noteq> None" using assms by (auto simp: well_formed_cast_def has_hash_def split: option.splits)
  ultimately show ?thesis
    by (auto simp: is_native_type_def in_set_def typeToSetPostfix_def split: option.splits)
qed

end
