(* ===== verification/EngineChecks.thy ===== *)
theory EngineChecks
  imports EngineReads StoreCounts
begin

text \<open>
  What the checks of the engine guarantee. While messages are checked nothing is written and the caches of the
  on-chain event store stay equal to the database (\<open>steady\<close>), so a message that a batch merged was for the network
  of the hub, of a registered user, signed by a signer that is active in the database, accepted by the validations,
  and of a user with storage. Every message of a batch is answered, and a signer whose removal is merged leaves a
  job to revoke its messages.
\<close>

section \<open>Steps that return\<close>

lemma await_Ok:
  "await r f = (Some (Ok y), s') \<longleftrightarrow> (\<exists>x s. r = (Some (Ok x), s) \<and> f x s = (Some (Ok y), s'))"
  by (cases r) (auto simp: await_def split: option.splits outcome.splits)

lemma await_result_Ok:
  "await_result r f = (Some (Ok y), s') \<longleftrightarrow>
   (\<exists>x s. r = (Some x, s) \<and> no_throw x \<and> f x s = (Some (Ok y), s'))"
  by (cases r) (auto simp: await_result_def split: option.splits outcome.splits)

lemma settled_Ok: "settled r s = (Some (Ok y), s') \<longleftrightarrow> r = Ok y \<and> s' = s"
  by (auto simp: settled_def)

lemma reject_not_Ok [simp]: "reject c m s \<noteq> (Some (Ok y), s')"
  by (simp add: reject_def settled_def)

lemma settled_state [simp]: "snd (settled r s) = s"
  by (simp add: settled_def)

lemma reject_state [simp]: "snd (reject c m s) = s"
  by (simp add: reject_def)

lemma promised_state [simp]: "snd (promised r) = snd r"
  by (simp add: promised_def)

lemma promised_Ok: "promised r = (Some (Ok y), s) \<longleftrightarrow> r = (Some (Ok y), s)"
  by (cases r) (auto simp: promised_def elim: fromPromise.elims)

lemma await_result_state:
  assumes "P (snd r)" "\<And>x s. r = (Some x, s) \<Longrightarrow> P s \<Longrightarrow> P (snd (f x s))"
  shows "P (snd (await_result r f))"
  using assms by (cases r) (auto simp: await_result_def split: option.split outcome.split)

section \<open>Reading changes nothing\<close>

lemma native_read_state [simp]: "snd (native_read f hub) = hub"
  by (simp add: native_read_def)

lemma caught_state [simp]: "snd (caught r) = snd r"
  by (simp add: caught_def)

lemma throwing_state [simp]: "snd (throwing r) = snd r"
  by (simp add: throwing_def)

lemma decoded_message_state [simp]: "snd (decoded_message E r) = snd r"
  unfolding decoded_message_def
  by (rule await_state[where P = "\<lambda>s. s = snd r"]) simp_all

lemma decoded_proof_state [simp]: "snd (decoded_proof E r) = snd r"
  unfolding decoded_proof_def
  by (rule await_state[where P = "\<lambda>s. s = snd r"]) simp_all

lemma getters_state [simp]:
  "snd (getVerificationAdd P R f a hub) = hub" "snd (getUsernameProof P name t hub) = hub"
  "snd (getUserNameProof P name hub) = hub"
  by (simp_all add: getVerificationAdd_def getUsernameProof_def getUserNameProof_def)

definition caches_exact :: "proto_codec \<Rightarrow> rocksdb \<Rightarrow> onchain_store \<Rightarrow> bool" where
  "caches_exact C db st \<longleftrightarrow>
     (\<forall>f s e. lru_lookup (ocs_activeSignerCache st) (getActiveSignerCacheKey f s) = Some e \<longrightarrow>
        active_signer_lookup C db f s = Ok e) \<and>
     (\<forall>f e. lru_lookup (ocs_idRegisterByFidCache st) f = Some e \<longrightarrow> id_register_lookup C db f = Ok e)"

lemma caches_exact_new: "caches_exact C db new_OnChainEventStore"
  by (simp add: caches_exact_def new_OnChainEventStore_def lru.cached_empty)

lemma lru_get_exact:
  assumes "\<And>v. lru_lookup c k = Some v \<Longrightarrow> r = Ok v"
  shows "fst (lru_get k r c) = r"
  using assms lru.get_hit[of c k _ r] lru.get_miss[of c k r] by (cases "lru_lookup c k") auto

lemma getActiveSigner_exact:
  assumes "caches_exact C db st"
  shows "fst (getActiveSigner C db f s st) = active_signer_lookup C db f s"
    and "caches_exact C db (snd (getActiveSigner C db f s st))"
proof -
  let ?k = "getActiveSignerCacheKey f s" and ?r = "active_signer_lookup C db f s" and ?c = "ocs_activeSignerCache st"
  obtain r c where rc: "lru_get ?k ?r ?c = (r, c)" by fastforce
  show "fst (getActiveSigner C db f s st) = ?r"
    using lru_get_exact[of ?c ?k ?r] assms by (simp add: getActiveSigner_def caches_exact_def rc)
  have *: "lru_lookup c k' = Some v \<Longrightarrow> lru_lookup ?c k' = Some v \<or> k' = ?k \<and> ?r = Ok v" for k' v
    using lru_get_lookup[of ?k ?r ?c k' v] by (simp add: rc)
  show "caches_exact C db (snd (getActiveSigner C db f s st))"
    using assms by (auto simp: getActiveSigner_def rc caches_exact_def cache_key_inject dest!: *)
qed

lemma getIdRegisterEventByFid_exact:
  assumes "caches_exact C db st"
  shows "fst (getIdRegisterEventByFid C db f st) = id_register_lookup C db f"
    and "caches_exact C db (snd (getIdRegisterEventByFid C db f st))"
proof -
  let ?r = "id_register_lookup C db f" and ?c = "ocs_idRegisterByFidCache st"
  obtain r c where rc: "lru_get f ?r ?c = (r, c)" by fastforce
  show "fst (getIdRegisterEventByFid C db f st) = ?r"
    using lru_get_exact[of ?c f ?r] assms by (simp add: getIdRegisterEventByFid_def caches_exact_def rc)
  have *: "lru_lookup c k' = Some v \<Longrightarrow> lru_lookup ?c k' = Some v \<or> k' = f \<and> ?r = Ok v" for k' v
    using lru_get_lookup[of f ?r ?c k' v] by (simp add: rc)
  show "caches_exact C db (snd (getIdRegisterEventByFid C db f st))"
    using assms by (auto simp: getIdRegisterEventByFid_def rc caches_exact_def dest!: *)
qed

section \<open>Checking a message is steady\<close>

text \<open>The registry of names is not asked during the checks (\<open>ee_retryTransferByName\<close> is absent): then the database is
  the same before and after.\<close>

definition steady :: "proto_codec \<Rightarrow> rocksdb \<Rightarrow> 'l engine \<Rightarrow> bool" where
  "steady C db en \<longleftrightarrow> fst (en_hub en) = db \<and> caches_exact C db (en_onchain en)"

lemma on_hub_alt: "on_hub f en = (fst (f (en_hub en)), en\<lparr>en_hub := snd (f (en_hub en))\<rparr>)"
  by (simp add: on_hub_def split: prod.split)

lemma on_chain_alt:
  "on_chain f en = (Some (fst (f (fst (en_hub en)) (en_onchain en))),
     en\<lparr>en_onchain := snd (f (fst (en_hub en)) (en_onchain en))\<rparr>)"
  by (simp add: on_chain_def split: prod.split)

lemma on_hub_steady: "(\<And>h. fst (snd (f h)) = fst h) \<Longrightarrow> steady C db en \<Longrightarrow> steady C db (snd (on_hub f en))"
  by (simp add: on_hub_alt steady_def)

lemma on_chain_steady:
  assumes "\<And>st. caches_exact C db st \<Longrightarrow> caches_exact C db (snd (f db st))" "steady C db en"
  shows "steady C db (snd (on_chain f en))"
  using assms by (auto simp: on_chain_alt steady_def)

lemma steady_limiters: "steady C db (en\<lparr>en_limiters := l\<rparr>) = steady C db en"
  "steady C db (en\<lparr>en_fNameRetryLimiter := r\<rparr>) = steady C db en"
  "steady C db (en\<lparr>en_retriedFids := fs\<rparr>) = steady C db en"
  by (simp_all add: steady_def)

lemma getVerification_steady: "steady C db en \<Longrightarrow> steady C db (snd (Engine_getVerification E f a en))"
  unfolding Engine_getVerification_def
  by (rule await_state) (simp_all add: on_hub_steady)

lemma getUserNameProof_steady:
  assumes "ee_retryTransferByName E = None" "steady C db en"
  shows "steady C db (snd (Engine_getUserNameProof E now name retries en))"
proof -
  have eth: "steady C db (snd (promised (await (on_hub (getUsernameProof (ee_hub E) name t) en)
      (\<lambda>proof. settled (mapOk (deref (msg_data proof)) md_usernameProofBody)))))" if "steady C db en" for t and en :: "'a engine"
    unfolding promised_state by (rule await_state) (simp_all add: on_hub_steady that)
  have fname: "steady C db (snd (await_result (promised (on_hub (getUserNameProof (ee_hub E) name) en)) f))"
    if "steady C db en" "\<And>x s. steady C db s \<Longrightarrow> steady C db (snd (f x s))"
    for en :: "'a engine" and f :: "_ \<Rightarrow> _ \<Rightarrow> (UserNameProof option, 'a) engine_result"
    by (rule await_result_state) (simp_all add: on_hub_steady that)
  show ?thesis
  proof (subst Engine_getUserNameProof.simps, rule await_state, simp add: assms(2), goal_cases)
    case (1 n s)
    show ?case
    proof (cases "ends_with n eth_suffix")
      case True
      with 1 show ?thesis by (auto intro!: await_state[where P = "steady C db"] eth)
    next
      case False
      with 1 assms(1) show ?thesis
        by (auto intro!: await_state[where P = "steady C db"] fname split: outcome.split nat.split)
    qed
  qed
qed

lemma validateEns_steady: "steady C db en \<Longrightarrow> steady C db (snd (validateEnsUsernameProof E p a en))"
  unfolding validateEnsUsernameProof_def
  by (rule await_result_state, simp)
    (auto split: outcome.split intro!: await_state[where P = "steady C db"] await_result_state[where P = "steady C db"]
      simp: getVerification_steady)

lemma custody_steady: "steady C db en \<Longrightarrow> C = hp_proto (ee_hub E) \<Longrightarrow> steady C db (snd (custody_address E d en))"
  unfolding custody_address_def
  by (rule await_result_state)
    (auto split: outcome.split simp: on_chain_steady getIdRegisterEventByFid_exact)

lemma steady_await:
  "steady C db (snd r) \<Longrightarrow> (\<And>x s. steady C db s \<Longrightarrow> steady C db (snd (f x s))) \<Longrightarrow> steady C db (snd (await r f))"
  by (rule await_state)

lemma steady_await_result:
  "steady C db (snd r) \<Longrightarrow> (\<And>x s. steady C db s \<Longrightarrow> steady C db (snd (f x s))) \<Longrightarrow>
   steady C db (snd (await_result r f))"
  by (rule await_result_state)

lemma steady_if: "steady C db (snd a) \<Longrightarrow> steady C db (snd b) \<Longrightarrow> steady C db (snd (if c then a else b))"
  by simp

lemmas steady_intros = steady_await steady_await_result steady_if

lemma check_fname_steady:
  assumes "ee_retryTransferByName E = None" "steady C db en"
  shows "steady C db (snd (check_fname E now m d a en))"
proof (cases "md_userDataBody d")
  case (Some b)
  show ?thesis
    unfolding check_fname_def Some option.case
    by (intro steady_intros getUserNameProof_steady[OF assms(1)] validateEns_steady)
      (simp_all add: assms(2))
qed (simp add: check_fname_def assms(2))

lemma check_proof_steady: "steady C db en \<Longrightarrow> steady C db (snd (check_username_proof E m d a en))"
  by (auto simp: check_username_proof_def validateEns_steady split: option.split)

lemma Engine_validateMessage_steady:
  assumes "ee_retryTransferByName E = None" "steady C db en" "C = hp_proto (ee_hub E)"
  shows "steady C db (snd (Engine_validateMessage E now m en))"
proof (cases "msg_data m")
  case (Some d)
  have signer: "steady C db (snd (promised (on_chain (\<lambda>db. getActiveSigner (hp_proto (ee_hub E)) db (md_fid d) k) en)))"
    if "steady C db en" for k and en :: "'a engine"
    using that assms(3) by (simp add: on_chain_steady getActiveSigner_exact)
  have custody: "steady C db (snd (case c of None \<Rightarrow> reject co t s | Some x \<Rightarrow> g x s))"
    if "steady C db s" "\<And>x s. steady C db s \<Longrightarrow> steady C db (snd (g x s))"
    for c co t and s :: "'a engine" and g :: "_ \<Rightarrow> _ \<Rightarrow> (Message, 'a) engine_result"
    using that by (cases c) simp_all
  show ?thesis
    unfolding Engine_validateMessage_def Some option.case
    by (intro steady_intros custody signer check_fname_steady[OF assms(1)] check_proof_steady
          custody_steady[OF _ assms(3)])
      (simp_all add: assms(2))
qed (simp add: Engine_validateMessage_def assms(2))

section \<open>What an accepted message has passed\<close>

text \<open>The user of a message that sets a name of the registry owns the name.\<close>

definition owns_name :: "'l engine_env \<Rightarrow> rocksdb \<Rightarrow> Message \<Rightarrow> bool" where
  "owns_name E db m \<longleftrightarrow>
     (\<forall>d b name. msg_data m = Some d \<and> md_userDataBody d = Some b \<and> isUserDataAddMessage m \<and> udb_type b = UDT_USERNAME \<and>
        utf8StringToBytes (udb_value b) = Ok name \<and> name \<noteq> [] \<and>
        (\<exists>text. bytesToUtf8String name = Ok text \<and> \<not> ends_with text eth_suffix) \<longrightarrow>
        (\<exists>h p. fst (getUserNameProof (ee_hub E) name (db, h)) = Some (Ok p) \<and> js_eq (unp_fid p) (md_fid d)))"

definition admitted :: "'l engine_env \<Rightarrow> rocksdb \<Rightarrow> Message \<Rightarrow> bool" where
  "admitted E db m \<longleftrightarrow>
     (\<exists>d r b k e. msg_data m = Some d \<and> md_network d = ee_network E \<and>
        id_register_lookup (hp_proto (ee_hub E)) db (md_fid d) = Ok r \<and> oce_idRegisterEventBody r = Some b \<and>
        msg_signer m = Some k \<and> active_signer_lookup (hp_proto (ee_hub E)) db (md_fid d) k = Ok e \<and>
        is_ok (validateMessage (ee_validation E) m)) \<and>
     owns_name E db m"


text \<open>Whether the owner of a name is found does not depend on the event handler.\<close>

lemma getUserNameProof_fst:
  "fst (getUserNameProof P name (db, h)) = fst (getUserNameProof P name (db, h'))"
  by (simp add: getUserNameProof_def native_read_def decoded_proof_def await_def settled_def throwing_def caught_def
      split: option.split outcome.split)

lemma custody_Ok:
  assumes "custody_address E d en = (Some (Ok (Some a)), en')" "steady C db en" "C = hp_proto (ee_hub E)"
  shows "\<exists>r b. id_register_lookup C db (md_fid d) = Ok r \<and> oce_idRegisterEventBody r = Some b"
  using assms
  by (auto simp: custody_address_def await_result_Ok settled_Ok promised_def on_chain_alt steady_def
      getIdRegisterEventByFid_exact outcome_simps split: outcome.splits option.splits)

lemma signer_Ok:
  assumes "promised (on_chain (\<lambda>db. getActiveSigner (hp_proto (ee_hub E)) db f k) en) = (Some r, en')" "is_ok r"
    "steady C db en" "C = hp_proto (ee_hub E)"
  shows "\<exists>e. active_signer_lookup C db f k = Ok e"
  using assms
  by (auto simp: promised_def on_chain_alt steady_def getActiveSigner_exact
      elim!: is_ok.elims fromPromise.elims)

lemma getUserNameProof_Ok:
  assumes "Engine_getUserNameProof E now name n en = (Some (Ok (Some p)), s)" "ee_retryTransferByName E = None"
    "steady C db en" "bytesToUtf8String name = Ok text" "\<not> ends_with text eth_suffix"
  shows "\<exists>h. fst (getUserNameProof (ee_hub E) name (db, h)) = Some (Ok p)"
proof -
  have last: "(case r of
        Err e \<Rightarrow> (case n of 0 \<Rightarrow> settled (mapOk r Some) en'
          | Suc retries \<Rightarrow> (case ee_retryTransferByName E of None \<Rightarrow> settled (mapOk r Some) en' | Some f \<Rightarrow> g e retries f))
      | _ \<Rightarrow> settled (mapOk r Some) en') = settled (mapOk r Some) en'"
    for r :: "UserNameProof outcome" and g and en' :: "'a engine"
    using assms(2) by (cases r; cases n) simp_all
  obtain r s' where r: "promised (on_hub (getUserNameProof (ee_hub E) name) en) = (Some r, s')" "r = Ok p"
    using assms(1,4,5)
    by (subst (asm) Engine_getUserNameProof.simps)
      (auto simp: last await_Ok await_result_Ok settled_Ok mapOk_Ok_iff)
  then have "fst (getUserNameProof (ee_hub E) name (en_hub en)) = Some (Ok p)"
    by (auto simp: promised_def on_hub_alt elim: fromPromise.elims)
  with assms(3) show ?thesis
    by (cases "en_hub en") (auto simp: steady_def)
qed

lemma check_fname_Ok:
  assumes "check_fname E now m d a en = (Some (Ok u), en')" "ee_retryTransferByName E = None" "steady C db en"
    "msg_data m = Some d"
  shows "owns_name E db m"
  unfolding owns_name_def
proof (intro allI impI, elim conjE exE)
  fix d' b name t
  assume h: "msg_data m = Some d'" "md_userDataBody d' = Some b" "isUserDataAddMessage m" "udb_type b = UDT_USERNAME"
    "utf8StringToBytes (udb_value b) = Ok name" "name \<noteq> []" "bytesToUtf8String name = Ok t"
    "\<not> ends_with t eth_suffix"
  from assms(4) h(1) have d: "d' = d" by simp
  obtain s p where r: "Engine_getUserNameProof E now name 1 en = (Some (Ok (Some p)), s)"
    and p: "js_eq (unp_fid p) (md_fid d)"
    using assms(1) h d
    by (auto simp: check_fname_def await_result_Ok await_Ok settled_Ok outcome_simps split: option.splits if_splits)
  from getUserNameProof_Ok[OF r assms(2,3) h(7,8)] p d
  show "\<exists>h p. fst (getUserNameProof (ee_hub E) name (db, h)) = Some (Ok p) \<and> js_eq (unp_fid p) (md_fid d')"
    by blast
qed

lemma Engine_validateMessage_Ok:
  assumes "Engine_validateMessage E now m en = (Some (Ok m'), en')" "ee_retryTransferByName E = None"
    "steady (hp_proto (ee_hub E)) db en"
  shows "admitted E db m"
proof -
  let ?C = "hp_proto (ee_hub E)"
  obtain d where d: "msg_data m = Some d"
    using assms(1) by (cases "msg_data m") (auto simp: Engine_validateMessage_def settled_Ok vfail_def)
  obtain a s1 k r s2 u s3 s4 where net: "md_network d = ee_network E"
    and custody: "custody_address E d en = (Some (Ok (Some a)), s1)"
    and k: "msg_signer m = Some k"
    and r: "promised (on_chain (\<lambda>db. getActiveSigner ?C db (md_fid d) k) s1) = (Some r, s2)" "is_ok r"
    and fname: "check_fname E now m d a s2 = (Some (Ok u), s3)"
    and ok: "validateMessage (ee_validation E) m = Ok m'"
    using assms(1) d
    by (auto simp: Engine_validateMessage_def await_Ok await_result_Ok settled_Ok outcome_simps
        split: if_splits option.splits elim!: fromPromise.elims)
  have s1: "steady ?C db s1"
    using custody_steady[OF assms(3) refl, of d] custody by simp
  have s2: "steady ?C db s2"
    using on_chain_steady[of ?C db "\<lambda>db. getActiveSigner ?C db (md_fid d) k", OF _ s1] r(1)
    by (metis getActiveSigner_exact(2) promised_state snd_conv)
  show ?thesis
    unfolding admitted_def
    using d net custody_Ok[OF custody assms(3) refl] k signer_Ok[OF r s1 refl] ok
      check_fname_Ok[OF fname assms(2) s2 d] by (auto simp: ok)
qed

section \<open>Every message of a batch is answered\<close>

lemma steady_with_handler: "steady C db en \<Longrightarrow> steady C db (snd (on_hub (with_handler f) en))"
  by (rule on_hub_steady) (simp add: with_handler_def split: prod.split)

lemma computeMergeResult_steady:
  assumes "ee_retryTransferByName E = None" "steady (hp_proto (ee_hub E)) db en"
  shows "steady (hp_proto (ee_hub E)) db (snd (computeMergeResult E now m i en))"
  unfolding computeMergeResult_def Let_def
  by (intro steady_intros Engine_validateMessage_steady[OF assms(1) _ refl] assms(2) steady_with_handler)
    (simp_all add: steady_limiters split: prod.split)

lemma computeMergeResult_index:
  "computeMergeResult E now m i en = (Some (Ok im), en') \<Longrightarrow> im_i im = i \<and> im_message im = m"
  by (auto simp: computeMergeResult_def Let_def await_Ok settled_Ok split: if_splits prod.splits)

lemma computeMergeResult_Ok:
  assumes "computeMergeResult E now m i en = (Some (Ok im), en')" "ee_retryTransferByName E = None"
    "steady (hp_proto (ee_hub E)) db en"
  shows "admitted E db m"
  using assms(1) by (auto simp: computeMergeResult_def Let_def await_Ok dest!: Engine_validateMessage_Ok[OF _ assms(2,3)])

lemma validate_loop_step:
  assumes "validate_loop E now i (m # ms) results validated en = (Some (Ok x), en')"
  obtains (merge) im en1 where "computeMergeResult E now m i en = (Some (Ok im), en1)"
      "validate_loop E now (Suc i) ms results (validated @ [im]) en1 = (Some (Ok x), en')"
  | (refuse) e en1 fids where "computeMergeResult E now m i en = (Some (Err e), en1)"
      "validate_loop E now (Suc i) ms (batch_insert (i, Err e) results) validated (en1\<lparr>en_retriedFids := fids\<rparr>) =
       (Some (Ok x), en')"
proof -
  obtain r en1 where r: "computeMergeResult E now m i en = (Some r, en1)" "no_throw r"
    using assms by (auto simp: await_result_Ok)
  show thesis
  proof (cases r)
    case (Ok im)
    with assms r show ?thesis by (intro merge[of im en1]) (auto simp: await_result_def)
  next
    case (Err e)
    have "\<exists>fids. (if ee_l2EventsProvider E then en1\<lparr>en_retriedFids := en_retriedFids en1 @ [message_fid m]\<rparr> else en1) =
        en1\<lparr>en_retriedFids := fids\<rparr>"
      by (rule exI[of _ "if ee_l2EventsProvider E then en_retriedFids en1 @ [message_fid m] else en_retriedFids en1"]) simp
    with assms r Err show ?thesis by (auto simp: await_result_def intro: refuse[of e en1])
  next
    case (Throw t)
    with r show ?thesis by simp
  qed
qed

lemma validate_loop_answers:
  assumes "validate_loop E now i ms results validated en = (Some (Ok (results', validated')), en')"
  shows "fst ` set results' \<union> im_i ` set validated' = fst ` set results \<union> im_i ` set validated \<union> {i..<i + length ms} \<and>
    (distinct (map fst results) \<longrightarrow> distinct (map fst results'))"
  using assms
proof (induction ms arbitrary: i results validated en)
  case (Cons m ms)
  have step: "{i..<i + length (m # ms)} = insert i {Suc i..<Suc i + length ms}" by auto
  from Cons.prems show ?case
  proof (cases rule: validate_loop_step)
    case (merge im en1)
    from Cons.IH[OF merge(2)] computeMergeResult_index[OF merge(1)] step show ?thesis by auto
  next
    case (refuse e en1 fids)
    from Cons.IH[OF refuse(2)] step show ?thesis by (auto simp: batch_insert_keys batch_insert_distinct)
  qed
qed (simp add: settled_Ok)

lemma validate_loop_admits:
  assumes "validate_loop E now i ms results validated en = (Some (Ok (results', validated')), en')"
    "ee_retryTransferByName E = None" "steady (hp_proto (ee_hub E)) db en"
    "\<forall>im\<in>set validated. P (im_i im) (im_message im)"
    "\<forall>k<length ms. admitted E db (ms ! k) \<longrightarrow> P (i + k) (ms ! k)"
    "\<forall>(j, r)\<in>set results. \<not> is_ok r"
  shows "(\<forall>im\<in>set validated'. P (im_i im) (im_message im)) \<and> (\<forall>(j, r)\<in>set results'. \<not> is_ok r)"
  using assms
proof (induction ms arbitrary: i results validated en)
  case (Cons m ms)
  have P: "\<forall>k<length ms. admitted E db (ms ! k) \<longrightarrow> P (Suc i + k) (ms ! k)" "admitted E db m \<longrightarrow> P i m"
    using Cons.prems(5) by force+
  have s: "steady (hp_proto (ee_hub E)) db (snd (computeMergeResult E now m i en))"
    by (rule computeMergeResult_steady[OF Cons.prems(2,3)])
  from Cons.prems(1) show ?case
  proof (cases rule: validate_loop_step)
    case (merge im en1)
    have "admitted E db m" by (rule computeMergeResult_Ok[OF merge(1) Cons.prems(2,3)])
    with P(2) computeMergeResult_index[OF merge(1)] Cons.prems(4)
    have "\<forall>im\<in>set (validated @ [im]). P (im_i im) (im_message im)" by simp
    from Cons.IH[OF merge(2) Cons.prems(2) _ this P(1) Cons.prems(6)] s merge(1) show ?thesis by simp
  next
    case (refuse e en1 fids)
    have "set (batch_insert (i, Err e) results) \<subseteq> insert (i, Err e) (set results)"
      by (induction results) auto
    with Cons.prems(6) have "\<forall>(j, r)\<in>set (batch_insert (i, Err e) results). \<not> is_ok r" by force
    from Cons.IH[OF refuse(2) Cons.prems(2) _ Cons.prems(4) P(1) this] s refuse(1) show ?thesis
      by (simp add: steady_limiters)
  qed
qed (simp add: settled_Ok)

text \<open>The messages of the groups and the ones answered before are the messages of the batch.\<close>

lemma group_messages_answers:
  assumes "group_messages i ms results groups = Ok (results', groups')" "length groups = 6"
  shows "length groups' = 6 \<and>
    fst ` set results' \<union> fst ` set (concat groups') = fst ` set results \<union> fst ` set (concat groups) \<union> {i..<i + length ms} \<and>
    (distinct (map fst results) \<longrightarrow> distinct (map fst results'))"
  using assms
proof (induction ms arbitrary: i results groups)
  case (Cons m ms)
  have step: "{i..<i + length (m # ms)} = insert i {Suc i..<Suc i + length ms}" by auto
  have grown: "fst ` set (concat (groups[k := groups ! k @ [(i, m)]])) = insert i (fst ` set (concat groups))"
    if "k < 6" for k
  proof -
    from that Cons.prems(2) have k: "groups = take k groups @ groups ! k # drop (Suc k) groups"
      by (simp add: id_take_nth_drop)
    have upd: "groups[k := groups ! k @ [(i, m)]] = take k groups @ (groups ! k @ [(i, m)]) # drop (Suc k) groups"
      using that Cons.prems(2) by (simp add: upd_conv_take_nth_drop)
    have "fst ` set (concat groups) = fst ` set (concat (take k groups @ groups ! k # drop (Suc k) groups))"
      by (subst k) (rule refl)
    then show ?thesis by (auto simp: upd image_Un)
  qed
  have answered: ?case if "group_messages (Suc i) ms (batch_insert (i, e) results) groups = Ok (results', groups')" for e
    using Cons.IH[OF that Cons.prems(2)] step by (auto simp: batch_insert_keys batch_insert_distinct)
  obtain d where d: "msg_data m = Some d" using Cons.prems(1) by (auto simp: andThen_Ok_iff deref_Ok_iff)
  show ?case
  proof (cases "md_type d = FRAME_ACTION")
    case True
    with Cons.prems(1) d answered show ?thesis by simp
  next
    case False
    with Cons.prems(1) d obtain pfx where pfx: "typeToSetPostfix (md_type d) = Ok pfx"
      by (auto simp: andThen_Ok_iff)
    show ?thesis
    proof (cases "store_index pfx")
      case None
      with Cons.prems(1) d False pfx answered show ?thesis by simp
    next
      case (Some k)
      then have "k < 6" by (auto simp: store_index_def split: UserPostfix.splits)
      from Some Cons.prems d False pfx have
        "group_messages (Suc i) ms results (groups[k := groups ! k @ [(i, m)]]) = Ok (results', groups')"
        by simp
      from Cons.IH[OF this] Cons.prems(2) grown[OF \<open>k < 6\<close>] step show ?thesis by simp
    qed
  qed
qed simp

lemma fold_batch_insert_keys:
  "fst ` set (fold (\<lambda>(j, v). batch_insert (g j, v)) xs ys) = fst ` set ys \<union> g ` fst ` set xs \<and>
   (distinct (map fst ys) \<longrightarrow> distinct (map fst (fold (\<lambda>(j, v). batch_insert (g j, v)) xs ys)))"
proof (induction xs arbitrary: ys)
  case (Cons x xs)
  show ?case using Cons[of "batch_insert (g (fst x), snd x) ys"]
    by (cases x) (auto simp: batch_insert_keys batch_insert_distinct)
qed simp

lemma merge_groups_answers:
  assumes "merge_groups P now groups results hub = (Some (Ok results'), hub')"
  shows "fst ` set results' = fst ` set results \<union> fst ` set (concat (map snd groups)) \<and>
    (distinct (map fst results) \<longrightarrow> distinct (map fst results'))"
  using assms
proof (induction groups arbitrary: results hub)
  case (Cons g groups)
  obtain R ms where g: "g = (R, ms)" by fastforce
  obtain rs hub1 where rs: "RustStoreBase_mergeMessages P R now (map snd ms) hub = (Some (Ok rs), hub1)"
    and rest: "merge_groups P now groups (fold (\<lambda>(j, v). batch_insert (fst (ms ! j), v)) rs results) hub1 =
      (Some (Ok results'), hub')"
    using Cons.prems by (auto simp: g await_Ok)
  have "(\<lambda>j. fst (ms ! j)) ` fst ` set rs = fst ` set ms"
    using mergeMessages_answers[OF rs] by (auto simp: set_conv_nth[of ms] image_iff lessThan_def) 
  with Cons.IH[OF rest] fold_batch_insert_keys[of "\<lambda>j. fst (ms ! j)" rs results] show ?case
    by (auto simp: g)
qed (simp add: settled_Ok)

lemma mergeMessagesToStore_answers:
  assumes "mergeMessagesToStore E now ms en = (Some (Ok results), en')"
  shows "fst ` set results = {..<length ms}" "distinct (map fst results)"
proof -
  obtain answered groups where g: "group_messages 0 ms [] (replicate (length engine_stores) []) = Ok (answered, groups)"
    and m: "fst (on_hub (merge_groups (ee_hub E) now (zip engine_stores groups) answered) en) = Some (Ok results)"
    using assms by (auto simp: mergeMessagesToStore_def await_Ok settled_Ok)
  have six: "length engine_stores = 6" by (simp add: engine_stores_def)
  from group_messages_answers[OF g] six have
    a: "length groups = 6" "fst ` set answered \<union> fst ` set (concat groups) = {..<length ms}" "distinct (map fst answered)"
    by (auto simp: lessThan_atLeast0)
  obtain hub' where "merge_groups (ee_hub E) now (zip engine_stores groups) answered (en_hub en) = (Some (Ok results), hub')"
    using m by (cases "merge_groups (ee_hub E) now (zip engine_stores groups) answered (en_hub en)")
      (simp add: on_hub_def)
  from merge_groups_answers[OF this] a six show "fst ` set results = {..<length ms}" "distinct (map fst results)"
    by simp_all
qed

lemma apply_results_keys:
  "apply_results E now validated rs results en = (results', en') \<Longrightarrow>
   fst ` set results' = fst ` set results \<union> (\<lambda>j. im_i (validated ! j)) ` fst ` set rs \<and>
   (distinct (map fst results) \<longrightarrow> distinct (map fst results'))"
proof (induction rs arbitrary: results en)
  case (Cons jr rs)
  obtain j r where jr: "jr = (j, r)" by fastforce
  from Cons show ?case by (auto simp: jr batch_insert_keys batch_insert_distinct)
qed simp

lemma apply_results_Ok:
  assumes "apply_results E now validated rs results en = (results', en')" "(i, r) \<in> set results'" "(i, r) \<notin> set results"
  shows "i \<in> (\<lambda>j. im_i (validated ! j)) ` fst ` set rs"
  using assms
proof (induction rs arbitrary: results en)
  case (Cons jr rs)
  obtain j q where jr: "jr = (j, q)" by fastforce
  have new: "set (batch_insert x results) \<subseteq> insert x (set results)" for x :: "nat \<times> int outcome"
    by (induction results) auto
  show ?case
  proof (cases "(i, r) \<in> set (batch_insert (im_i (validated ! j), q) results)")
    case True
    with new Cons.prems(3) show ?thesis by (force simp: jr)
  next
    case False
    with Cons.IH[of "batch_insert (im_i (validated ! j), q) results"] Cons.prems show ?thesis by (auto simp: jr)
  qed
qed simp

section \<open>A batch of the engine\<close>

lemma Engine_mergeMessages_parts:
  assumes "Engine_mergeMessages E now ms en = (Some (Ok results), en')"
  obtains refused validated en1 stored en2 en3 where
    "validate_loop E now 0 ms [] [] en = (Some (Ok (refused, validated)), en1)"
    "mergeMessagesToStore E now (map im_message validated) en1 = (Some (Ok stored), en2)"
    "apply_results E now validated stored refused en2 = (results, en3)"
proof -
  obtain en3 where m: "merge_validated E now ms en = (Some (Ok results), en3)"
    using assms by (auto simp: Engine_mergeMessages_def with_listeners_def split: prod.splits)
  then obtain refused validated en1 stored en2 where
    v: "validate_loop E now 0 ms [] [] en = (Some (Ok (refused, validated)), en1)"
    and s: "mergeMessagesToStore E now (map im_message validated) en1 = (Some (Ok stored), en2)"
    by (auto simp: merge_validated_def await_Ok)
  obtain results' en4 where "apply_results E now validated stored refused en2 = (results', en4)" by fastforce
  with m v s that show thesis by (auto simp: merge_validated_def await_def settled_Ok)
qed

lemma Engine_mergeMessages_answers:
  assumes "Engine_mergeMessages E now ms en = (Some (Ok results), en')"
  shows "fst ` set results = {..<length ms}" "distinct (map fst results)"
proof -
  from Engine_mergeMessages_parts[OF assms] obtain refused validated en1 stored en2 en3 where
    v: "validate_loop E now 0 ms [] [] en = (Some (Ok (refused, validated)), en1)"
    and m: "mergeMessagesToStore E now (map im_message validated) en1 = (Some (Ok stored), en2)"
    and a: "apply_results E now validated stored refused en2 = (results, en3)" .
  have "(\<lambda>j. im_i (validated ! j)) ` fst ` set stored = im_i ` set validated"
    using mergeMessagesToStore_answers(1)[OF m] by (auto simp: set_conv_nth lessThan_def)
  with validate_loop_answers[OF v] apply_results_keys[OF a]
  show "fst ` set results = {..<length ms}" "distinct (map fst results)"
    by (auto simp: lessThan_atLeast0)
qed

lemma Engine_mergeMessages_admits:
  assumes "Engine_mergeMessages E now ms en = (Some (Ok results), en')" "ee_retryTransferByName E = None"
    "caches_exact (hp_proto (ee_hub E)) (engine_db en) (en_onchain en)" "(i, Ok eventId) \<in> set results"
  shows "i < length ms \<and> admitted E (engine_db en) (ms ! i)"
proof -
  let ?P = "\<lambda>i m. i < length ms \<and> m = ms ! i \<and> admitted E (engine_db en) m"
  from Engine_mergeMessages_parts[OF assms(1)] obtain refused validated en1 stored en2 en3 where
    v: "validate_loop E now 0 ms [] [] en = (Some (Ok (refused, validated)), en1)"
    and m: "mergeMessagesToStore E now (map im_message validated) en1 = (Some (Ok stored), en2)"
    and a: "apply_results E now validated stored refused en2 = (results, en3)" .
  have "steady (hp_proto (ee_hub E)) (engine_db en) en"
    using assms(3) by (simp add: steady_def engine_db_def)
  from validate_loop_admits[OF v assms(2) this, of ?P]
  have P: "\<forall>im\<in>set validated. ?P (im_i im) (im_message im)" and refused: "(i, Ok eventId) \<notin> set refused"
    by auto
  from apply_results_Ok[OF a assms(4) refused] mergeMessagesToStore_answers(1)[OF m]
  obtain j where "i = im_i (validated ! j)" "j < length validated" by (auto simp: set_eq_iff)
  then obtain im where "im \<in> set validated" "i = im_i im" by (auto intro: nth_mem)
  with P show ?thesis by auto
qed

section \<open>The removal of a signer\<close>

lemma notify_emits:
  assumes "isMergeOnChainHubEvent event" "he_type event = HUB_EVENT_MERGE_ON_CHAIN_EVENT"
  shows "seh_emitted (notify db now event h) = seh_emitted h @ [(''mergeOnChainEvent'', event)]"
  using assms
  by (simp add: notify_def broadcastEvent_def isMergeMessageHubEvent_def isPruneMessageHubEvent_def
      isRevokeMessageHubEvent_def isMergeUsernameProofHubEvent_def)

lemma commitTransaction_emits:
  assumes "commitTransaction D db now txn args h = (Ok i, db', h')"
    "isMergeOnChainHubEvent (args\<lparr>he_id := i\<rparr>)" "he_type args = HUB_EVENT_MERGE_ON_CHAIN_EVENT"
  shows "seh_emitted h' = seh_emitted h @ [(''mergeOnChainEvent'', args\<lparr>he_id := i\<rparr>)]"
  using assms
  by (auto simp: commitTransaction_def rsGetNextEventId_def Let_def notify_emits
      split: prod.splits outcome.splits)

lemma mergeOnChainEvent_emits:
  assumes "mergeOnChainEvent fuel C D db now event h st = (Some (Ok i), db', h', st')" "db_inv (rdb_disk db)"
  shows "seh_emitted h' = seh_emitted h @ [(''mergeOnChainEvent'', (merge_event_args event)\<lparr>he_id := i\<rparr>)]"
    and "rdb_native_open db'" "db_inv (rdb_disk db')"
proof -
  obtain txn where txn: "commitTransaction D db now txn (merge_event_args event) h = (Ok i, db', h')"
    using assms(1) by (auto simp: mergeOnChainEvent_def split: if_splits prod.splits option.splits outcome.splits
        elim!: throwErr.elims)
  have "isMergeOnChainHubEvent ((merge_event_args event)\<lparr>he_id := i\<rparr>)"
    by (simp add: isMergeOnChainHubEvent_def merge_event_args_def)
  from commitTransaction_emits[OF txn this]
  show "seh_emitted h' = seh_emitted h @ [(''mergeOnChainEvent'', (merge_event_args event)\<lparr>he_id := i\<rparr>)]"
    by (simp add: merge_event_args_def)
  show "rdb_native_open db'" "db_inv (rdb_disk db')"
    using commitTransaction_Ok[OF txn] assms(2) by (auto intro: commit_inv)
qed

lemma enqueueJob_queues:
  assumes "db_inv (rdb_disk db)" "rdb_native_open db" "0 \<le> now" "now < t" "t < 2 ^ 64"
    "length (blake3_4 J (encodeJob J p)) = 4" "decodeJob J (encodeJob J p) = Ok p"
  shows "\<exists>r db'. enqueueJob J now p None db = (Ok r, db') \<and> p \<in> set (pending_jobs J t (db', x))"
proof -
  let ?key = "jobKeyPrefix @ be_bytes 8 now @ blake3_4 J (encodeJob J p)"
  let ?s = "db_put ?key (encodeJob J p) (rdb_disk db)"
  have "be_bytes 8 now < be_bytes 8 t" using assms(3-5) by (simp add: be_bytes_less)
  then have "be_bytes 8 now @ blake3_4 J (encodeJob J p) < be_bytes 8 t @ []"
    by (subst append_less_append) simp_all
  then have due: "jobKeyPrefix \<le> ?key \<and> ?key < jobKeyPrefix @ be_bytes 8 t"
    by (simp add: jobKeyPrefix_def)
  have "makeJobKey now (Some (blake3_4 J (encodeJob J p))) = Ok ?key"
    using assms(3-6) by (simp add: makeJobKey_def)
  then have e: "\<exists>r. enqueueJob J now p None db = (Ok r, db\<lparr>rdb_disk := ?s\<rparr>)"
    using assms(2) by (simp add: enqueueJob_def RocksDB_put_def Let_def)
  have "db_get ?s ?key = Some (encodeJob J p)" using assms(1) by (simp add: db_get_put)
  then have "(?key, encodeJob J p) \<in> set ?s" by (simp add: db_get_def map_of_SomeD)
  with due have "(?key, encodeJob J p) \<in> set (due_entries t ?s)" by (simp add: due_entries_def)
  then have "p \<in> set (pending_jobs J t (db\<lparr>rdb_disk := ?s\<rparr>, x))"
    using assms(7) by (force simp: pending_jobs_def image_iff)
  with e show ?thesis by blast
qed

lemma Engine_mergeOnChainEvent_queues:
  assumes "Engine_mergeOnChainEvent E now event en = (Some (Ok eventId), en')" "en_started en"
    "db_inv (rdb_disk (engine_db en))" "isSignerOnChainEvent event" "oce_signerEventBody event = Some b"
    "seb_eventType b = SIGNER_EVENT_REMOVE" "0 \<le> now" "now < t" "t < 2 ^ 64"
    "p = \<lparr>rvp_fid = oce_fid event, rvp_signer = seb_key b\<rparr>"
    "length (blake3_4 (ee_jobs E) (encodeJob (ee_jobs E) p)) = 4"
    "decodeJob (ee_jobs E) (encodeJob (ee_jobs E) p) = Ok p"
  shows "p \<in> set (pending_jobs (ee_jobs E) t (engine_db en', x))"
proof -
  let ?f = "\<lambda>en. case mergeOnChainEvent (hp_fuel (ee_hub E)) (hp_proto (ee_hub E)) (hp_events (ee_hub E))
      (engine_db en) now event (snd (en_hub en)) (en_onchain en) of
    (r, db, h, st) \<Rightarrow> promised (r, en\<lparr>en_hub := (db, h), en_onchain := st\<rparr>)"
  obtain db h st i where m: "mergeOnChainEvent (hp_fuel (ee_hub E)) (hp_proto (ee_hub E)) (hp_events (ee_hub E))
      (engine_db en) now event (snd (en_hub en)) (en_onchain en) = (Some (Ok i), db, h, st)"
    and w: "with_listeners E now ?f en = (Some (Ok eventId), en')"
  proof -
    obtain q s where q: "with_listeners E now ?f en = (Some q, s)"
      "(case q of Err e \<Rightarrow>
           settled q (if errCode e = Duplicate then s\<lparr>en_duplicateEvents := en_duplicateEvents s @ [event]\<rparr> else s)
         | _ \<Rightarrow> settled q s) = (Some (Ok eventId), en')"
      using assms(1) by (auto simp: Engine_mergeOnChainEvent_def await_Ok await_result_Ok settled_Ok)
    from q(2) have "q = Ok eventId \<and> s = en'" by (cases q) (auto simp: settled_Ok)
    with q(1) have w: "with_listeners E now ?f en = (Some (Ok eventId), en')" by simp
    obtain r db h st where m: "mergeOnChainEvent (hp_fuel (ee_hub E)) (hp_proto (ee_hub E)) (hp_events (ee_hub E))
      (engine_db en) now event (snd (en_hub en)) (en_onchain en) = (r, db, h, st)" by (metis prod_cases4)
    with w have "map_option (\<lambda>r. fromPromise r as_HubError) r = Some (Ok eventId)"
      by (simp add: with_listeners_def promised_def)
    then have "r = Some (Ok eventId)" by (auto elim: fromPromise.elims)
    with m w that show thesis by blast
  qed
  note inv = mergeOnChainEvent_emits[OF m assms(3)]
  let ?en = "en\<lparr>en_hub := (db, h), en_onchain := st\<rparr>"
  have en': "en' = listen E now (''mergeOnChainEvent'', (merge_event_args event)\<lparr>he_id := i\<rparr>) ?en"
    using w assms(2) inv(1) by (auto simp: with_listeners_def m promised_def)
  from enqueueJob_queues[OF inv(3,2) assms(7-9,11,12)] obtain r db' where
    e: "enqueueJob (ee_jobs E) now p None db = (Ok r, db')" and p: "p \<in> set (pending_jobs (ee_jobs E) t (db', x))"
    by meson
  from e have "listen E now (''mergeOnChainEvent'', (merge_event_args event)\<lparr>he_id := i\<rparr>) ?en = ?en\<lparr>en_hub := (db', h)\<rparr>"
    using assms(4-6,10)
    by (simp add: listen_def handleMergeOnChainEvent_def merge_event_args_def await_def settled_def engine_db_def)
  with en' p show ?thesis by (simp add: engine_db_def)
qed

end
