(* ===== verification/Samples.thy ===== *)
theory Samples
  imports EngineChecks
begin

text \<open>
  Concrete values on which the properties of the root theory are applied: an environment with
  simple stand-ins for the hash, signature and naming functions, a message and its data, coders
  that know one value each, small databases, and an on-chain event of each kind.
\<close>

section \<open>An environment\<close>

definition sample_codecs :: codecs where
  "sample_codecs =
     \<lparr>bytesToHex = (\<lambda>b. Ok (buffer_hex b)), hexToBytes = (\<lambda>s. Ok []),
      base58_encode = (\<lambda>b. Ok (buffer_hex b)), base58_decode = (\<lambda>s. Ok [])\<rparr>"

definition sample_env :: validation_env where
  "sample_env =
     \<lparr>env_codecs = sample_codecs, env_now = 1609459300000, blake3_20 = (\<lambda>b. replicate 20 7),
      ed25519_verify = (\<lambda>s h k. s = k), ed25519_signMessageHash = (\<lambda>h k. k),
      noble_blake3 = (\<lambda>b. replicate 20 7), noble_verify = (\<lambda>s h k. Ok True),
      noble_sign = (\<lambda>h k. Ok k), noble_getPublicKey = (\<lambda>k. Ok k),
      ens_normalize = (\<lambda>s. Ok s), viem_verifyTypedData = (\<lambda>d. Ok True),
      publicClients = (\<lambda>i. None), chain_ids = [], encodeMessageData = (\<lambda>d. [1]),
      show_bytes = (\<lambda>b. [])\<rparr>"

definition sample_data :: MessageData where
  "sample_data =
     empty_data\<lparr>md_type := CAST_REMOVE, md_fid := numI 1, md_timestamp := 100, md_network := 1,
       md_castRemoveBody := Some \<lparr>crb_targetHash = Some (replicate 20 9)\<rparr>\<rparr>"

definition sample_message :: Message where
  "sample_message =
     \<lparr>msg_data = Some sample_data, msg_hash = Some (replicate 20 7), msg_hashScheme = BLAKE3,
      msg_signature = Some [5], msg_signatureScheme = ED25519, msg_signer = Some [5],
      msg_dataBytes = None\<rparr>"

lemma sample_env_simps:
  "blake3_20 sample_env b = replicate 20 7" "ed25519_verify sample_env x y z \<longleftrightarrow> x = z"
  "noble_blake3 sample_env b = replicate 20 7" "noble_sign sample_env b k = Ok k"
  "noble_getPublicKey sample_env k = Ok k" "noble_verify sample_env x y z = Ok True"
  "env_codecs sample_env = sample_codecs" "ens_normalize sample_env s = Ok s"
  by (simp_all add: sample_env_def)

lemma sample_time: "getFarcasterTime (env_now sample_env) = Ok 100"
  by (simp add: sample_env_def getFarcasterTime_def toFarcasterTime_def FARCASTER_EPOCH_def)

lemma sample_data_valid: "validateMessageData sample_env sample_data = Ok sample_data"
  by (simp add: validateMessageData_Ok sample_time)
    (simp add: sample_data_def empty_data_def FarcasterNetwork_values_def
      MessageType_values_def bodySet_def bodies_set_def validateBody_def validateCastRemoveBody_def
      outcome_simps)

lemma sample_message_valid: "validateMessage sample_env sample_message = Ok sample_message"
  unfolding validateMessage_Ok
  by (rule conjI, rule refl, rule exI[of _ sample_data], rule exI[of _ "replicate 20 7"],
      rule exI[of _ "[5]"], rule exI[of _ "[5]"])
    (simp add: sample_message_def sample_data_valid sample_env_simps)

text \<open>A username proof whose name is not UTF-8.\<close>

definition sample_proof :: UserNameProof where
  "sample_proof =
     \<lparr>unp_timestamp = 1, unp_name = [255], unp_owner = [], unp_signature = [], unp_fid = numI 1,
      unp_type = USERNAME_TYPE_ENS_L1\<rparr>"

definition sample_proof_data :: MessageData where
  "sample_proof_data =
     empty_data\<lparr>md_type := USERNAME_PROOF, md_fid := numI 1, md_timestamp := 100, md_network := 1,
       md_usernameProofBody := Some sample_proof\<rparr>"

definition sample_proof_message :: Message where
  "sample_proof_message = sample_message\<lparr>msg_data := Some sample_proof_data\<rparr>"

lemma sample_not_utf8: "utf8_decode [255] = None"
  by code_simp

lemma sample_proof_fid: "\<exists>i > 0. md_fid sample_proof_data = numI i"
  by (rule exI[of _ 1]) (simp add: sample_proof_data_def)

text \<open>A Solana verification; the claim's text is signed.\<close>

definition sample_verification :: VerificationAddAddressBody where
  "sample_verification =
     \<lparr>vab_address = replicate 32 1, vab_claimSignature = replicate 64 2, vab_blockHash = replicate 32 3,
      vab_verificationType = 0, vab_chainId = 0, vab_protocol = SOLANA\<rparr>"

definition sample_options :: MessageDataOptions where
  "sample_options = \<lparr>mdo_fid = numI 1, mdo_network = 1, mdo_timestamp = Some 100\<rparr>"

definition sample_cast_remove :: MessageData where
  "sample_cast_remove =
     empty_data\<lparr>md_castRemoveBody := Some \<lparr>crb_targetHash = Some (replicate 20 9)\<rparr>\<rparr>"

definition sample_built :: Message where
  "sample_built =
     sample_message\<lparr>msg_data := Some (sample_cast_remove\<lparr>md_type := CAST_REMOVE, md_fid := numI 1,
       md_timestamp := 100, md_network := 1\<rparr>)\<rparr>"

definition sample_claim :: "int \<Rightarrow> address_claim" where
  "sample_claim f =
     \<lparr>claim_fid = f, claim_address = [97, 98], claim_network = 1, claim_blockHash = [99],
      claim_protocol = SOLANA\<rparr>"

lemma sample_verification_validated:
  "validateVerificationAddAddressBody sample_env sample_verification (numI f) 1 = Ok sample_verification"
  by (simp add: sample_verification_def validateVerificationAddAddressBody_def
      validateVerificationAddSolAddressBody_def validateVerificationAddSolAddressSignature_def
      makeVerificationAddressClaim_def sample_env_simps sample_codecs_def outcome_simps is_ok_iff
      bytesToBase58_def recreateSolanaClaimMessage_def utf8StringToBytes_def pureJS_ed25519_verify_def
      ed25519_verifyMessageHashSignature_def)

lemma sample_signer_sound: "signer_sound sample_env (NobleEd25519Signer sample_env [5])"
  by (simp add: signer_sound_def NobleEd25519Signer_def sample_env_simps)

lemma sample_built_made:
  "fst (sign_data sample_env (makeMessageData sample_env sample_cast_remove CAST_REMOVE sample_options)
     (NobleEd25519Signer sample_env [5])) = Ok sample_built"
proof -
  let ?d = "sample_cast_remove\<lparr>md_type := CAST_REMOVE, md_fid := numI 1, md_timestamp := 100, md_network := 1\<rparr>"
  have d: "?d = sample_data"
    "sample_cast_remove\<lparr>md_type := CAST_REMOVE, md_fid := numI 1, md_network := 1, md_timestamp := 100\<rparr> = sample_data"
    by (simp_all add: sample_cast_remove_def sample_data_def empty_data_def)
  have "makeMessageData sample_env sample_cast_remove CAST_REMOVE sample_options =
      (Ok sample_data, sample_options)"
    using sample_data_valid
    by (simp add: makeMessageData_def fill_timestamp_def sample_options_def Let_def d [simplified])
  then show ?thesis
    by (simp add: sign_data_def makeMessage_def NobleEd25519Signer_def sample_env_simps Let_def
        sample_built_def sample_message_def d [simplified])
qed

section \<open>Databases and coders\<close>

definition sample_db :: "store \<Rightarrow> rocksdb" where
  "sample_db s = \<lparr>rdb_status = DbOpen, rdb_native_open = True, rdb_disk = s\<rparr>"

lemma sample_db_simps [simp]:
  "rdb_disk (sample_db s) = s" "rdb_native_open (sample_db s)" "rdb_status (sample_db s) = DbOpen"
  by (simp_all add: sample_db_def)

definition sample_event :: OnChainEvent where
  "sample_event =
     \<lparr>oce_type = 0, oce_chainId = 10, oce_blockNumber = 7, oce_blockHash = [], oce_blockTimestamp = 1800000000,
      oce_transactionHash = [], oce_logIndex = 3, oce_fid = numI 1, oce_signerEventBody = None,
      oce_signerMigratedEventBody = None, oce_idRegisterEventBody = None, oce_storageRentEventBody = None,
      oce_txIndex = 0, oce_version = 2\<rparr>"

text \<open>Coders that write one byte and read one message and one event back.\<close>

definition event_coder :: "OnChainEvent \<Rightarrow> proto_codec" where
  "event_coder e =
     \<lparr>encodeMessage = (\<lambda>m. [1]), decodeMessage = (\<lambda>b. Ok sample_message),
      decodeMessageData = (\<lambda>b. Ok sample_data), encodeUserNameProof = (\<lambda>p. [1]),
      decodeUserNameProof = (\<lambda>b. Ok sample_proof), encodeOnChainEvent = (\<lambda>e. [1]),
      decodeOnChainEvent = (\<lambda>b. Ok e)\<rparr>"

definition sample_proto :: proto_codec where
  "sample_proto = event_coder sample_event"

definition sample_key :: bytes where
  "sample_key = 1 # be_bytes 4 1 @ 1 # be_bytes 4 100 @ replicate 20 7"

lemma writeUInt32BE_one [simp]: "writeUInt32BE (Num 1) = Ok (be_bytes 4 1)"
  using writeUInt32BE_numI[of 1] by simp

lemma writeUInt32BE_numeral [simp]:
  "writeUInt32BE (Num (numeral n)) =
     (if u32 (numeral n) then Ok (be_bytes 4 (numeral n)) else Throw RangeError)"
  using writeUInt32BE_numI[of "numeral n"] by simp

lemma sample_message_key: "makeMessagePrimaryKeyFromMessage sample_message = Ok sample_key"
  by (simp add: message_key_Ok sample_message_def sample_data_def sample_key_def typeToSetPostfix_def)

lemma sample_storable: "storable sample_proto sample_message"
  by (simp add: storable_def codec_law_def has_dataBytes_def sample_proto_def event_coder_def
      sample_message_def)

section \<open>A hub with its event log\<close>

definition sample_now :: int where
  "sample_now = 1609459300000"

lemma sample_now_time [simp]: "getFarcasterTime sample_now = Ok 100"
  by (simp add: sample_now_def getFarcasterTime_def toFarcasterTime_def FARCASTER_EPOCH_def)

definition sample_generator :: event_id_generator where
  "sample_generator =
     \<lparr>gen_last_timestamp = 0, gen_last_seq = 0, gen_epoch = word_of_int FARCASTER_EPOCH\<rparr>"

definition sample_handler :: event_handler where
  "sample_handler = new_StoreEventHandler sample_generator"

text \<open>A coder that reads back one hub event.\<close>

definition one_event_coder :: "HubEvent \<Rightarrow> hub_event_codec" where
  "one_event_coder e = \<lparr>encodeHubEvent = (\<lambda>e. [1]), decodeHubEvent = (\<lambda>b. Ok e)\<rparr>"

definition sample_hub_event :: HubEvent where
  "sample_hub_event = (merge_event_args sample_event)\<lparr>he_id := 409600000\<rparr>"

definition sample_hub_coder :: hub_event_codec where
  "sample_hub_coder = one_event_coder sample_hub_event"

lemma sample_next_id:
  "\<exists>g. generate_id (word_of_int sample_now) sample_generator = (Ok 409600000, g)"
  by (simp add: generate_id_def sample_generator_def sample_now_def FARCASTER_EPOCH_def make_event_id_def
      Let_def)

lemma sample_commit:
  "\<exists>h'. commitTransaction (one_event_coder e) (sample_db s) sample_now txn args sample_handler =
     (Ok 409600000,
      sample_db (commit_batch (batch_of (txn_put txn (event_key 409600000) [1])) s), h')"
proof -
  obtain g where "generate_id (word_of_int sample_now) sample_generator = (Ok 409600000, g)"
    using sample_next_id by blast
  then show ?thesis
    by (simp add: commitTransaction_def rsGetNextEventId_def sample_handler_def new_StoreEventHandler_def
        putEventTransaction_def makeEventKey_id one_event_coder_def RocksDB_commit_def sample_db_def)
qed

text \<open>The store and the log after one commit.\<close>

definition sample_log_db :: rocksdb where
  "sample_log_db = sample_db [(event_key 409600000, [1])]"

lemma sample_hub_log:
  "\<exists>h. hub_log sample_hub_coder sample_log_db h sample_now 1 [sample_hub_event]"
proof -
  have "hub_log sample_hub_coder (sample_db []) sample_handler sample_now 0 []"
    unfolding sample_handler_def sample_generator_def
    by (rule hub_log.start) (simp_all add: db_inv_def event_entries_def sample_now_def FARCASTER_EPOCH_def)
  moreover obtain h' where "commitTransaction sample_hub_coder (sample_db []) sample_now []
      (merge_event_args sample_event) sample_handler = (Ok 409600000, sample_log_db, h')"
    using sample_commit[of sample_hub_event "[]" "[]" "merge_event_args sample_event"]
    by (auto simp: sample_hub_coder_def sample_log_db_def txn_put_def commit_batch_def batch_of_def native_op_def)
  moreover have "stored_event sample_hub_coder ((merge_event_args sample_event)\<lparr>he_id := 409600000\<rparr>)"
    by (simp add: stored_event_def sample_hub_coder_def one_event_coder_def sample_hub_event_def)
  ultimately show ?thesis
    using hub_log.commit[of sample_hub_coder "sample_db []" sample_handler sample_now 0 "[]" sample_now "[]"
        "merge_event_args sample_event" 409600000 sample_log_db h']
    by (auto simp: sample_hub_event_def)
qed

lemma sample_log_holds: "log_holds sample_hub_coder (rdb_disk sample_log_db) [sample_hub_event]"
  using sample_hub_log hub_log_invariant by (force simp: sample_now_def)

lemma sample_log_open [simp]: "rdb_native_open sample_log_db" "length (rdb_disk sample_log_db) = 1"
  by (simp_all add: sample_log_db_def)

section \<open>Storage of a user\<close>

definition sample_slot :: StorageSlot where
  "sample_slot = \<lparr>slot_legacy_units = 1, slot_units = 2, slot_invalidateAt = 200\<rparr>"

definition sample_cache :: "(js_string \<rightharpoonup> int) \<Rightarrow> storage_cache" where
  "sample_cache counts = (new_StorageCache (Some counts))\<lparr>sc_activeStorageSlots := [numI 1 \<mapsto> sample_slot]\<rparr>"

lemma sample_cache_agrees:
  "earliest_agree s (sample_cache counts)" "counts_agree s (sample_cache Map.empty)"
  "scan_possible (sample_cache counts) key" "sc_counts (sample_cache counts) = counts"
  "sc_activeStorageSlots (sample_cache counts) (Num 1) = Some sample_slot"
  "sc_earliestTsHashes (sample_cache counts) key = None"
  by (simp_all add: sample_cache_def earliest_agree_def counts_agree_def scan_possible_def
      new_StorageCache_def MAX_PENDING_MESSAGE_COUNT_SCANS_def)

definition cast_set_key :: js_string where
  "cast_set_key = buffer_hex (be_bytes 4 1 @ [1])"

lemma sample_set_key:
  "makeKey (Num 1) CastMessage = Ok cast_set_key" "set_key sample_message = Ok cast_set_key"
  "makeMessagePrimaryKey (Num 1) CastMessage None = Ok (1 # be_bytes 4 1 @ [1])"
  by (simp_all add: makeKey_def makeFidKey_def cast_set_key_def set_key_def sample_message_def
      sample_data_def typeToSetPostfix_def makeMessagePrimaryKey_def makeUserKey_def)

lemma sample_current_slot:
  "getCurrentStorageSlotForFid fuel C db sample_now (Num 1) (sample_cache counts) =
     (Some (Ok sample_slot), sample_cache counts)"
  by (simp add: getCurrentStorageSlotForFid_def sample_cache_agrees sample_slot_def)

lemma sample_counts_zero: "counts_agree [] (sample_cache [key \<mapsto> 0])"
  by (simp add: counts_agree_def sample_cache_agrees stored_count_def split: if_splits)

lemma be_bytes_4_1: "be_bytes 4 1 = [0, 0, 0, 1]"
  by code_simp

lemma sample_key_layout: "fixed_layout [(sample_key, [1])] (1 # be_bytes 4 1 @ [1]) 30"
  by (simp add: fixed_layout_def sample_key_def increment_vec_u8_def be_bytes_4_1)

lemma sample_message_parts:
  "msg_data sample_message = Some sample_data" "md_fid sample_data = Num 1"
  "makeTsHash (md_timestamp sample_data) (msg_hash sample_message) = Ok (be_bytes 4 100 @ replicate 20 7)"
  by (simp_all add: sample_message_def sample_data_def makeTsHash_Ok)

definition sample_rents :: bytes where
  "sample_rents = [23, 1, 4] @ be_bytes 4 1"

lemma sample_rent_prefix:
  "makeOnChainEventIteratorPrefix EVENT_TYPE_STORAGE_RENT (Some (Num 1)) = Ok sample_rents"
  by (simp add: makeOnChainEventIteratorPrefix_def sample_rents_def with_fid_def makeFidKey_def)

lemma sample_later_time: "getFarcasterTime (sample_now + 200000) = Ok 300"
  by (simp add: sample_now_def getFarcasterTime_def toFarcasterTime_def FARCASTER_EPOCH_def)

lemma sample_rent_layout:
  "fixed_layout [([1], [2])] sample_rents 10" "onchain_entries sample_rents [([1], [2])] = []"
  by (simp_all add: fixed_layout_def onchain_entries_def sample_rents_def increment_vec_u8_def be_bytes_4_1)

section \<open>Merging on-chain events\<close>

lemma sample_commit_closed:
  "\<exists>e db' h'. commitTransaction sample_hub_coder ((sample_db [])\<lparr>rdb_native_open := False\<rparr>) sample_now []
     (merge_event_args sample_event) sample_handler = (Err e, db', h')"
proof -
  obtain g where "generate_id (word_of_int sample_now) sample_generator = (Ok 409600000, g)"
    using sample_next_id by blast
  then show ?thesis
    by (simp add: commitTransaction_def rsGetNextEventId_def sample_handler_def new_StoreEventHandler_def
        putEventTransaction_def makeEventKey_id RocksDB_commit_def)
qed

lemma empty_get_fails: "result_of (RocksDB_get (sample_db []) k) = None" "RocksDB_get (sample_db []) k \<noteq> Ok v"
  by (simp_all add: RocksDB_get_def when_open_def db_get_def rethrow_def result_of_def)

lemma empty_event_fails: "\<not> is_ok (getOnChainEvent C (sample_db []) t f b l)"
  using empty_get_fails(2)
  by (auto simp: getOnChainEvent_def getOnChainEventByKey_def outcome_simps is_ok_iff)

lemma sample_merge:
  assumes "merge_transaction 1 C (sample_db []) e new_OnChainEventStore = (Some (Ok txn), st)"
  shows "\<exists>i db' h' st'. mergeOnChainEvent 1 C sample_hub_coder (sample_db []) sample_now e sample_handler
     new_OnChainEventStore = (Some (Ok i), db', h', st')"
  using assms sample_commit[of sample_hub_event "[]" txn "merge_event_args e"]
  by (auto simp: mergeOnChainEvent_def empty_event_fails sample_hub_coder_def)

definition sample_signer_body :: "int \<Rightarrow> SignerEventBody" where
  "sample_signer_body kind =
     \<lparr>seb_key = [9], seb_keyType = 1, seb_eventType = kind, seb_metadata = [], seb_metadataType = 1\<rparr>"

definition sample_signer_event :: "int \<Rightarrow> OnChainEvent" where
  "sample_signer_event kind =
     sample_event\<lparr>oce_type := EVENT_TYPE_SIGNER, oce_signerEventBody := Some (sample_signer_body kind)\<rparr>"

lemma sample_signer_parts:
  "oce_type (sample_signer_event kind) = EVENT_TYPE_SIGNER" "oce_fid (sample_signer_event kind) = Num 1"
  "isSignerOnChainEvent (sample_signer_event kind)"
  "oce_signerEventBody (sample_signer_event kind) = Some (sample_signer_body kind)"
  "seb_key (sample_signer_body kind) = [9]" "seb_eventType (sample_signer_body kind) = kind"
  "seb_keyType (sample_signer_body kind) = 1"
  "event_codec_law (event_coder (sample_signer_event kind)) (sample_signer_event kind)"
  "oce_blockNumber (sample_signer_event kind) = 7" "oce_logIndex (sample_signer_event kind) = 3"
  "not_superseded C (sample_db []) e k"
  by (simp_all add: sample_signer_event_def sample_event_def isSignerOnChainEvent_def sample_signer_body_def
      event_codec_law_def event_coder_def not_superseded_def getEventBySecondaryKey_def empty_get_fails)

lemma sample_signer_key:
  "makeSignerOnChainEventBySignerKey (Num 1) [9] = Ok (23 # 51 # be_bytes 4 1 @ [9])"
  by (simp add: makeSignerOnChainEventBySignerKey_def makeFidKey_def)

lemma sample_signer_merge:
  assumes "kind \<noteq> SIGNER_EVENT_ADMIN_RESET"
  shows "\<exists>i db' h' st'. mergeOnChainEvent 1 (event_coder (sample_signer_event kind)) sample_hub_coder
     (sample_db []) sample_now (sample_signer_event kind) sample_handler new_OnChainEventStore =
     (Some (Ok i), db', h', st')"
proof -
  let ?e = "sample_signer_event kind"
  have "\<exists>pk. event_primary_key ?e = Ok pk"
    by (simp add: event_primary_key_def sample_signer_parts makeOnChainEventPrimaryKey_def
        makeBlockNumberKey_def makeLogIndexKey_def makeFidKey_def)
  moreover have "\<exists>sk. makeSignerOnChainEventBySignerKey (oce_fid ?e) [9] = Ok sk"
    by (simp add: sample_signer_parts makeSignerOnChainEventBySignerKey_def makeFidKey_def)
  ultimately have "\<exists>txn st. merge_transaction 1 (event_coder ?e) (sample_db []) ?e new_OnChainEventStore = (Some (Ok txn), st)"
    using assms
    by (auto simp: merge_transaction_def putOnChainEventTransaction_def event_primary_key_def handleSignerEvent_def
        sample_signer_parts getEventBySecondaryKey_def empty_get_fails signer_conflict_def put_event_index_def Let_def)
  then show ?thesis using sample_merge by blast
qed

definition sample_id_body :: IdRegisterEventBody where
  "sample_id_body = \<lparr>ireb_to = [5], ireb_eventType = 1, ireb_from = [], ireb_recoveryAddress = []\<rparr>"

definition sample_registration :: OnChainEvent where
  "sample_registration =
     sample_event\<lparr>oce_type := EVENT_TYPE_ID_REGISTER, oce_idRegisterEventBody := Some sample_id_body\<rparr>"

lemma sample_id_parts:
  "oce_fid sample_registration = Num 1" "isIdRegisterOnChainEvent sample_registration"
  "\<not> isSignerOnChainEvent sample_registration"
  "oce_idRegisterEventBody sample_registration = Some sample_id_body"
  "event_codec_law (event_coder sample_registration) sample_registration"
  "oce_blockNumber sample_registration = 7" "oce_logIndex sample_registration = 3"
  "ireb_eventType sample_id_body \<noteq> ID_REGISTER_CHANGE_RECOVERY" "ireb_eventType sample_id_body = 1"
  "makeIdRegisterEventByFidKey (Num 1) = Ok (23 # 52 # be_bytes 4 1)"
  by (simp_all add: sample_registration_def sample_event_def isSignerOnChainEvent_def isIdRegisterOnChainEvent_def
      sample_id_body_def event_codec_law_def event_coder_def makeIdRegisterEventByFidKey_def makeFidKey_def)

lemma sample_id_merge:
  "\<exists>i db' h' st'. mergeOnChainEvent 1 (event_coder sample_registration) sample_hub_coder
     (sample_db []) sample_now sample_registration sample_handler new_OnChainEventStore =
     (Some (Ok i), db', h', st')"
proof -
  let ?e = sample_registration
  have "\<exists>pk. event_primary_key ?e = Ok pk"
    by (simp add: event_primary_key_def sample_id_parts makeOnChainEventPrimaryKey_def
        makeBlockNumberKey_def makeLogIndexKey_def makeFidKey_def)
  then have "\<exists>txn st. merge_transaction 1 (event_coder ?e) (sample_db []) ?e new_OnChainEventStore = (Some (Ok txn), st)"
    by (auto simp: merge_transaction_def putOnChainEventTransaction_def event_primary_key_def handleIdRegisterEvent_def
        sample_id_parts getEventBySecondaryKey_def empty_get_fails Let_def)
  then show ?thesis using sample_merge by blast
qed

lemma active_signer_lookup_empty: "active_signer_lookup C (sample_db []) f s \<noteq> Ok e"
  using empty_get_fails(2) by (auto simp: active_signer_lookup_def outcome_simps)

section \<open>Merging messages\<close>

text \<open>The cast that \<open>sample_message\<close> removes, and a coder that tells the two apart.\<close>

definition sample_cast_data :: MessageData where
  "sample_cast_data =
     empty_data\<lparr>md_type := CAST_ADD, md_fid := numI 1, md_timestamp := 200, md_network := 1,
       md_castAddBody := Some \<lparr>cab_embedsDeprecated = [], cab_mentions = [numI 2], cab_parentCastId = None,
         cab_parentUrl = None, cab_text = Some [104], cab_mentionsPositions = [numI 0], cab_embeds = [], cab_type = 0\<rparr>\<rparr>"

definition sample_cast :: Message where
  "sample_cast = sample_message\<lparr>msg_data := Some sample_cast_data, msg_hash := Some (replicate 20 9)\<rparr>"

definition type_coder :: "Message list \<Rightarrow> proto_codec" where
  "type_coder ms =
     sample_proto\<lparr>encodeMessage := (\<lambda>m. [word_of_int (msg_type m)]),
       decodeMessage := (\<lambda>b. case List.find (\<lambda>m. [word_of_int (msg_type m)] = b) ms of
          Some m \<Rightarrow> Ok m | None \<Rightarrow> throw_hub ParseFailure ''unknown'')\<rparr>"

definition cast_coder :: proto_codec where
  "cast_coder = type_coder [sample_cast, sample_message]"

lemma sample_cast_parts:
  "msg_type sample_cast = CAST_ADD" "msg_type sample_message = CAST_REMOVE"
  "msg_fid32 sample_cast = 1" "msg_fid32 sample_message = 1"
  "msg_data sample_cast = Some sample_cast_data" "md_fid sample_cast_data = Num 1"
  "body_of sample_cast = Ok (BodyCastAdd (the (md_castAddBody sample_cast_data)))"
  "body_of sample_message = Ok (BodyCastRemove \<lparr>crb_targetHash = Some (replicate 20 9)\<rparr>)"
  "cast_subject sample_cast = replicate 20 9" "cast_subject sample_message = replicate 20 9"
  by (simp_all add: msg_type_def msg_fid32_def sample_cast_def sample_message_def sample_cast_data_def sample_data_def
      empty_data_def fid32_def as_u32_def body_of_def native_data_def native_body_def message_bodies_def
      cast_subject_def cast_subject_hash_def)

lemma sample_casts_distinguishable: "distinguishable well_formed_cast cast_coder {sample_cast, sample_message}"
proof -
  have "is_native_type CAST_ADD sample_cast" "is_native_type CAST_REMOVE sample_message"
      "has_hash sample_cast" "has_hash sample_message"
    by (simp_all add: is_native_type_def has_hash_def sample_cast_def
        sample_message_def sample_cast_data_def sample_data_def empty_data_def native_body_def message_bodies_def)
  then have "well_formed_cast sample_cast" "well_formed_cast sample_message"
    by (simp_all add: well_formed_cast_def sample_cast_parts)
  moreover have "native_storable cast_coder sample_cast" "native_storable cast_coder sample_message"
    by (simp_all add: native_storable_def native_encode_def native_decode_def cast_coder_def type_coder_def
        sample_cast_parts has_dataBytes_def)
      (simp_all add: sample_cast_def sample_message_def)
  moreover have "msg_tshash sample_cast \<noteq> msg_tshash sample_message"
    by (simp add: msg_tshash_def sample_cast_def sample_message_def sample_cast_data_def sample_data_def
        be_bytes_inject del: be_bytes.simps)
  ultimately show ?thesis by (simp add: distinguishable_def)
qed

text \<open>A reaction to that cast and its removal at the same time.\<close>

definition sample_reaction_body :: ReactionBody where
  "sample_reaction_body =
     \<lparr>rb_type = 1, rb_targetCastId = Some \<lparr>castid_fid = numI 1, castid_hash = Some (replicate 20 9)\<rparr>, rb_targetUrl = None\<rparr>"

definition sample_reaction :: "int \<Rightarrow> byte \<Rightarrow> Message" where
  "sample_reaction t h =
     sample_message\<lparr>msg_data := Some (empty_data\<lparr>md_type := t, md_fid := numI 1, md_timestamp := 300, md_network := 1,
         md_reactionBody := Some sample_reaction_body\<rparr>), msg_hash := Some (replicate 20 h)\<rparr>"

definition reaction_coder :: proto_codec where
  "reaction_coder = type_coder [sample_reaction REACTION_ADD 1, sample_reaction REACTION_REMOVE 2]"

lemma sample_reaction_parts:
  "msg_type (sample_reaction t h) = t" "msg_fid32 (sample_reaction t h) = 1"
  "reaction_body (sample_reaction t h) = Ok sample_reaction_body"
  "\<exists>d. msg_data (sample_reaction t h) = Some d \<and> md_fid d = Num 1"
  "msg_dataBytes (sample_reaction t h) = None"
  "reaction_subject (sample_reaction t h) = reaction_subject (sample_reaction t' h')"
  "msg_tshash (sample_reaction t h) = be_bytes 4 300 @ replicate 20 h"
  by (simp_all add: msg_type_def msg_fid32_def sample_reaction_def sample_message_def empty_data_def fid32_def as_u32_def
      reaction_body_def body_of_def native_data_def native_body_def message_bodies_def reaction_subject_def msg_tshash_def
      del: be_bytes.simps)

lemma sample_reactions_distinguishable:
  "distinguishable well_formed_reaction reaction_coder {sample_reaction REACTION_ADD 1, sample_reaction REACTION_REMOVE 2}"
proof -
  have "has_hash (sample_reaction t h)" "is_native_type t (sample_reaction t h)" for t h
    by (simp_all add: is_native_type_def has_hash_def sample_reaction_def sample_message_def empty_data_def
        native_body_def message_bodies_def)
  then have "well_formed_reaction (sample_reaction t h)" if "t = REACTION_ADD \<or> t = REACTION_REMOVE" for t h
    using that by (auto simp: well_formed_reaction_def sample_reaction_parts(3) sample_reaction_body_def
        reaction_target_def target_key_def)
  moreover have "native_storable reaction_coder (sample_reaction REACTION_ADD 1)"
    "native_storable reaction_coder (sample_reaction REACTION_REMOVE 2)"
    by (simp_all add: native_storable_def native_encode_def native_decode_def reaction_coder_def type_coder_def
        sample_reaction_parts has_dataBytes_def)
  moreover have "msg_tshash (sample_reaction t 1) \<noteq> msg_tshash (sample_reaction t' 2)" for t t'
    by (simp add: sample_reaction_parts del: be_bytes.simps)
  ultimately show ?thesis by (simp add: distinguishable_def) metis
qed

lemma sample_ids: "length tms < 4096 \<Longrightarrow> ids_suffice (map (Pair sample_now) tms) sample_generator"
  by (simp add: ids_suffice_def sample_generator_def list_all_iff sample_now_def FARCASTER_EPOCH_def)

section \<open>A queue with one job\<close>

definition sample_job :: RevokeMessagesBySignerJobPayload where
  "sample_job = \<lparr>rvp_fid = numI 1, rvp_signer = [9]\<rparr>"

definition sample_jobs :: job_codec where
  "sample_jobs = \<lparr>encodeJob = (\<lambda>p. [7]), decodeJob = (\<lambda>b. Ok sample_job), blake3_4 = (\<lambda>b. replicate 4 3)\<rparr>"

definition sample_queue :: store where
  "sample_queue = [(jobKeyPrefix @ be_bytes 8 5 @ replicate 4 3, [7])]"

text \<open>A worker that only notes its jobs.\<close>

definition note_job ::
  "RevokeMessagesBySignerJobPayload \<Rightarrow> rocksdb \<times> RevokeMessagesBySignerJobPayload list \<Rightarrow>
   unit outcome option \<times> rocksdb \<times> RevokeMessagesBySignerJobPayload list" where
  "note_job j q = (Some (Ok ()), fst q, snd q @ [j])"

lemma sample_queue_due: "due_entries 600 sample_queue = sample_queue"
  by (simp add: due_entries_def sample_queue_def jobKeyPrefix_def) code_simp

lemma sample_queue_length: "length (due_entries 600 sample_queue) = 1"
  unfolding sample_queue_due by (simp add: sample_queue_def)

lemma sample_queue_ok:
  "queue_ok sample_jobs 2 600 (sample_db sample_queue, [])"
  "pending_jobs sample_jobs 600 (sample_db sample_queue, []) = [sample_job]"
  by (simp_all add: queue_ok_def pending_jobs_def sample_queue_due)
    (simp_all add: sample_queue_def db_inv_def sample_jobs_def)

section \<open>A hub that merges casts\<close>

text \<open>A coder of hub events that writes the id and the types of the merged and the deleted messages.\<close>

definition merge_coder :: "Message list \<Rightarrow> hub_event_codec" where
  "merge_coder ms =
     (let find = (\<lambda>b. List.find (\<lambda>m. word_of_int (msg_type m) = b) ms) in
      \<lparr>encodeHubEvent = (\<lambda>e. be_bytes 8 (he_id e) @
          (case he_mergeMessageBody e of
             Some b \<Rightarrow> (case mmb_message b of
                 Some m \<Rightarrow> map (\<lambda>m. word_of_int (msg_type m)) (m # mmb_deletedMessages b)
               | None \<Rightarrow> [])
           | None \<Rightarrow> [])),
       decodeHubEvent = (\<lambda>bs. case drop 8 bs of
           b # bs' \<Rightarrow> Ok (merge_event (be_int (take 8 bs)) (the (find b)) (map (\<lambda>b. the (find b)) bs'))
         | [] \<Rightarrow> throw_hub ParseFailure ''empty'')\<rparr>)"

lemma merge_coder_law:
  assumes "\<And>m. m \<in> set ms \<Longrightarrow> List.find (\<lambda>m'. (word_of_int (msg_type m') :: byte) = word_of_int (msg_type m)) ms = Some m"
  shows "events_coded (merge_coder ms) (set ms)"
  unfolding events_coded_def
proof (intro allI impI)
  fix i :: int and m ws assume *: "0 \<le> i \<and> i < 2 ^ 64 \<and> m \<in> set ms \<and> set ws \<subseteq> set ms"
  then have "map (\<lambda>b. the (List.find (\<lambda>m. (word_of_int (msg_type m) :: byte) = b) ms)) (map (\<lambda>m. word_of_int (msg_type m)) ws) = ws"
    using assms by (induction ws) auto
  with * assms[of m] show "decodeHubEvent (merge_coder ms) (encodeHubEvent (merge_coder ms) (merge_event i m ws)) =
      Ok (merge_event i m ws)"
    by (simp add: merge_coder_def Let_def merge_event_id merge_event_body be_int_be_bytes del: be_bytes.simps)
qed

definition cast_params :: hub_params where
  "cast_params =
     \<lparr>hp_fuel = 5, hp_proto = cast_coder, hp_events = merge_coder [sample_cast, sample_message],
      hp_encodeCastId = (\<lambda>c. []), hp_decodeCastId = (\<lambda>b. throw_hub ParseFailure ''unused'')\<rparr>"

definition cast_hub :: hub_state where
  "cast_hub = (sample_db [], sample_handler\<lparr>seh_storageCache := sample_cache Map.empty\<rparr>)"

lemma sample_batch:
  "(case merge_batches cast_params (CastStore None) [(sample_now, [sample_cast])] cast_hub of
     (r, hub) \<Rightarrow> (r, sc_counts (seh_storageCache (snd hub)) (cache_key 1 1))) =
   (Some (Ok [[(0, Ok 409600000)]]), Some 1)"
  by code_simp


lemma sample_batch_runs:
  "\<exists>hub'. merge_batches cast_params (CastStore None) [(sample_now, [sample_cast])] cast_hub =
      (Some (Ok [[(0, Ok 409600000)]]), hub') \<and>
    sc_counts (seh_storageCache (snd hub')) (cache_key 1 (postfix_byte CastMessage)) = Some 1"
  using sample_batch
  by (cases "merge_batches cast_params (CastStore None) [(sample_now, [sample_cast])] cast_hub")
    (simp del: merge_batches.simps)

lemma events_coded_set:
  assumes "(word_of_int (msg_type a) :: byte) \<noteq> word_of_int (msg_type b)"
  shows "events_coded (merge_coder [a, b]) {a, b}"
proof -
  have "events_coded (merge_coder [a, b]) (set [a, b])"
    by (rule merge_coder_law) (use assms in auto)
  then show ?thesis by simp
qed

lemma cast_params_parts:
  "hp_proto cast_params = cast_coder" "events_coded (hp_events cast_params) {sample_cast, sample_message}"
  "\<forall>m \<in> {sample_cast, sample_message}. sendable cast_coder m"
proof -
  show "hp_proto cast_params = cast_coder" by (simp add: cast_params_def)
  show "events_coded (hp_events cast_params) {sample_cast, sample_message}"
    using events_coded_set[of sample_cast sample_message] by (simp add: cast_params_def sample_cast_parts)
  show "\<forall>m \<in> {sample_cast, sample_message}. sendable cast_coder m"
    by (simp add: sendable_def codec_law_def cast_coder_def type_coder_def sample_cast_parts)
      (simp add: sample_message_def sample_data_def sample_cast_data_def sample_cast_def empty_data_def)
qed

lemma cast_hub_parts:
  "unused ps (rdb_disk (fst cast_hub))" "ready pfx cast_hub" "counts_exact pfx cast_hub"
  by (simp_all add: cast_hub_def unused_def db_inv_def ready_def key_layout_def db_get_def counts_exact_def
      sample_cache_agrees)
    (simp add: sample_cache_def new_StorageCache_def)

lemma one_batch:
  "merge_batches E R [(now, ms)] hub = (Some (Ok rss), hub') \<Longrightarrow>
   \<exists>rs. rss = [rs] \<and> RustStoreBase_mergeMessages E R now ms hub = (Some (Ok rs), hub')"
  by (cases "RustStoreBase_mergeMessages E R now ms hub")
    (auto simp: await_def settled_def split: option.splits outcome.splits)

lemma sample_merge_messages:
  "\<exists>hub'. RustStoreBase_mergeMessages cast_params (CastStore None) sample_now [sample_cast] cast_hub =
      (Some (Ok [(0, Ok 409600000)]), hub')"
proof -
  obtain hub' where "merge_batches cast_params (CastStore None) [(sample_now, [sample_cast])] cast_hub =
      (Some (Ok [[(0, Ok 409600000)]]), hub')"
    using sample_batch_runs by blast
  from one_batch[OF this] show ?thesis by auto
qed

section \<open>An engine\<close>

text \<open>A database with the registration and an active signer of the user of \<open>sample_message\<close>.\<close>

definition engine_store :: store where
  "engine_store =
     [([23, 51, 0, 0, 0, 1, 5], [30]), ([23, 52, 0, 0, 0, 1], [31]), ([30], [20]), ([31], [21])]"

definition engine_coder :: proto_codec where
  "engine_coder =
     cast_coder\<lparr>decodeOnChainEvent := (\<lambda>b. Ok (if b = [20] then sample_signer_event 1 else sample_registration))\<rparr>"

text \<open>A limiter counts what it has let through.\<close>

definition counting_limits :: "(int \<times> int) limiter_lib" where
  "counting_limits =
     \<lparr>lim_new = (\<lambda>points duration. (points, 0)), lim_points = fst, lim_get = (\<lambda>now key l. Some (snd l)),
      lim_consume = (\<lambda>now key l. (snd l < fst l, (fst l, snd l + 1)))\<rparr>"

definition sample_engine_env :: "(int \<times> int) engine_env" where
  "sample_engine_env =
     \<lparr>ee_hub = cast_params\<lparr>hp_proto := engine_coder\<rparr>, ee_validation = sample_env, ee_network = 1,
      ee_limits = counting_limits, ee_jobs = sample_jobs,
      ee_versions = \<lparr>semver_valid = (\<lambda>v. True), semver_lt = (\<lambda>a b. False), overrideDate = None\<rparr>,
      ee_getEnsAddress = None, ee_retryTransferByName = None, ee_l2EventsProvider = False,
      ee_text = (\<lambda>n. []), ee_exn_text = (\<lambda>t. [])\<rparr>"

definition sample_engine :: "(int \<times> int) engine" where
  "sample_engine =
     \<lparr>en_hub = (sample_db engine_store, sample_handler\<lparr>seh_storageCache := sample_cache Map.empty\<rparr>),
      en_onchain = \<lparr>ocs_activeSignerCache = new_LRUCache 2, ocs_idRegisterByFidCache = new_LRUCache 2\<rparr>,
      en_limiters = Map.empty, en_fNameRetryLimiter = (60, 0), en_solana = False, en_started = True,
      en_duplicateEvents = [], en_duplicateProofs = [], en_retriedFids = []\<rparr>"

lemma sample_engine_steps:
  "(case computeMergeResult sample_engine_env sample_now sample_message 0 sample_engine of
      (r, en) \<Rightarrow> (r, fst (RustStoreBase_mergeMessages (ee_hub sample_engine_env) (CastStore None) sample_now
         [sample_message] (en_hub en)))) =
   (Some (Ok \<lparr>im_i = 0, im_message = sample_message, im_fid = numI 1, im_limit = 3 * totalPruneSize\<rparr>),
    Some (Ok [(0, Ok 409600000)]))"
  by code_simp

lemma no_messages: "RustStoreBase_mergeMessages P R now [] hub = (Some (Ok []), hub)"
  by (cases hub) (simp add: RustStoreBase_mergeMessages_def rsMergeMany_def await_def settled_def native_call_def caught_def)

lemma sample_engine_merges:
  "fst (Engine_mergeMessages sample_engine_env sample_now [sample_message] sample_engine) =
    Some (Ok [(0, Ok 409600000)])"
proof -
  let ?E = sample_engine_env and ?m = sample_message
  let ?im = "\<lparr>im_i = 0, im_message = ?m, im_fid = numI 1, im_limit = 3 * totalPruneSize\<rparr>"
  obtain en where v: "computeMergeResult ?E sample_now ?m 0 sample_engine = (Some (Ok ?im), en)"
    and "fst (RustStoreBase_mergeMessages (ee_hub ?E) (CastStore None) sample_now [?m] (en_hub en)) =
      Some (Ok [(0, Ok 409600000)])"
    using sample_engine_steps by (auto split: prod.splits)
  then obtain hub where m: "RustStoreBase_mergeMessages (ee_hub ?E) (CastStore None) sample_now [?m] (en_hub en) =
      (Some (Ok [(0, Ok 409600000)]), hub)"
    by (metis prod.collapse)
  have g: "group_messages 0 [?m] [] (replicate (length engine_stores) []) = Ok ([], [[], [], [(0, ?m)], [], [], []])"
    by (simp add: engine_stores_def sample_message_def sample_data_def typeToSetPostfix_def store_index_def)
  have "mergeMessagesToStore ?E sample_now [?m] en = (Some (Ok [(0, Ok 409600000)]), en\<lparr>en_hub := hub\<rparr>)"
    unfolding mergeMessagesToStore_def g by (simp add: on_hub_def engine_stores_def await_def settled_def no_messages m)
  then show ?thesis
    by (simp add: Engine_mergeMessages_def with_listeners_def merge_validated_def v await_def await_result_def settled_def)
qed

text \<open>One that has started with an empty database, for the removal of a signer.\<close>

definition signer_engine_env :: "(int \<times> int) engine_env" where
  "signer_engine_env =
     sample_engine_env\<lparr>ee_hub := cast_params\<lparr>hp_fuel := 1, hp_proto := event_coder (sample_signer_event 2),
       hp_events := sample_hub_coder\<rparr>\<rparr>"

definition signer_engine :: "(int \<times> int) engine" where
  "signer_engine =
     sample_engine\<lparr>en_hub := (sample_db [], sample_handler), en_onchain := new_OnChainEventStore\<rparr>"

lemma signer_engine_merges:
  "\<exists>i en'. Engine_mergeOnChainEvent signer_engine_env sample_now (sample_signer_event 2) signer_engine = (Some (Ok i), en')"
proof -
  obtain i db' h' st' where "mergeOnChainEvent 1 (event_coder (sample_signer_event 2)) sample_hub_coder
     (sample_db []) sample_now (sample_signer_event 2) sample_handler new_OnChainEventStore =
     (Some (Ok i), db', h', st')"
    using sample_signer_merge[of 2] by auto
  then show ?thesis
    by (simp add: Engine_mergeOnChainEvent_def signer_engine_env_def signer_engine_def validateOnChainEvent_def
        sample_signer_parts(1) with_listeners_def await_def await_result_def settled_def promised_def engine_db_def)
qed

end
