(* ===== verification/SyncIds.thy ===== *)
theory SyncIds
  imports StorageCache
begin

text \<open>
  Sync ids (\<^verbatim>\<open>network/sync/syncId.ts\<close>): the keys under which messages, names and on-chain events are put into
  the trie that two hubs compare. A sync id is the time in ten decimal digits followed by an identifier whose
  first byte is the root prefix of the kind. The ids of all kinds together are prefix free, which the trie needs.
\<close>

section \<open>Timestamps\<close>

definition TIMESTAMP_LENGTH :: nat where
  "TIMESTAMP_LENGTH = 10"

definition HASH_LENGTH :: nat where
  "HASH_LENGTH = 20"

definition USERNAME_MAX_LENGTH :: nat where
  "USERNAME_MAX_LENGTH = 20"

definition timestampToPaddedTimestampPrefix :: "int \<Rightarrow> js_string" where
  "timestampToPaddedTimestampPrefix timestamp = pad_start TIMESTAMP_LENGTH 48 (int_to_string 10 timestamp)"

text \<open>The white space that \<^verbatim>\<open>parseInt\<close> skips, in UTF-8.\<close>

definition space_length :: "bytes \<Rightarrow> nat" where
  "space_length bs =
     (if take 1 bs \<in> {[9], [10], [11], [12], [13], [32]} then 1
      else if take 2 bs = [194, 160] then 2
      else if take 3 bs \<in> {[225, 154, 128], [226, 129, 159], [227, 128, 128], [239, 187, 191],
                            [226, 128, 168], [226, 128, 169], [226, 128, 175]} then 3
      else if take 2 bs = [226, 128] \<and> 3 \<le> length bs \<and> 128 \<le> bs ! 2 \<and> bs ! 2 \<le> 138 then 3
      else 0)"

function skip_space :: "bytes \<Rightarrow> bytes" where
  "skip_space bs =
     (if bs = [] \<or> space_length bs = 0 then bs else skip_space (drop (space_length bs) bs))"
  by pat_completeness auto

termination by (relation "measure length") (auto simp: diff_less)

declare skip_space.simps [simp del]

text \<open>\<^verbatim>\<open>parseInt(Buffer.from(bytes).toString(), 10)\<close>; \<open>None\<close> is NaN. Bytes of a character that is not ASCII are no
  digits, so the rest of the text need not be decoded.\<close>

definition parse_bytes :: "bytes \<Rightarrow> int option" where
  "parse_bytes bs = parse_int 10 (map ucast (skip_space bs))"

text \<open>The argument is the text of digits that other code cut from a sync id.\<close>

definition prefixToTimestamp :: "bytes \<Rightarrow> int option" where
  "prefixToTimestamp pre = parse_bytes (pad_end TIMESTAMP_LENGTH 48 pre)"

section \<open>Making sync ids\<close>

definition fromTimestamp :: "int \<Rightarrow> bytes \<Rightarrow> bytes" where
  "fromTimestamp farcasterTimestamp buffer =
     utf8_encode (timestampToPaddedTimestampPrefix farcasterTimestamp) @ buffer"

definition sync_fromMessage :: "Message \<Rightarrow> bytes outcome" where
  "sync_fromMessage message =
     (let fid = (case msg_data message of Some d \<Rightarrow> or_zero (md_fid d) | None \<Rightarrow> numI 0);
          timestamp = (case msg_data message of Some d \<Rightarrow> md_timestamp d | None \<Rightarrow> 0);
          type = (case msg_data message of Some d \<Rightarrow> md_type d | None \<Rightarrow> 0)
      in andThen (typeToSetPostfix type) (\<lambda>pfx.
         mapOk (makeMessagePrimaryKey fid pfx (msg_hash message)) (fromTimestamp timestamp)))"

definition sync_fromFName :: "UserNameProof \<Rightarrow> bytes outcome" where
  "sync_fromFName usernameProof =
     andThen (throwErr (toFarcasterTime (unp_timestamp usernameProof * 1000))) (\<lambda>timestamp.
     andThen (throwErr (bytesToUtf8String (unp_name usernameProof))) (\<lambda>nameStr.
     mapOk (makeFidKey (unp_fid usernameProof)) (\<lambda>f.
       fromTimestamp timestamp
         ([root_byte FNameUserNameProof] @ f @ utf8_encode (pad_end USERNAME_MAX_LENGTH 0 nameStr)))))"

definition sync_fromOnChainEvent :: "OnChainEvent \<Rightarrow> bytes outcome" where
  "sync_fromOnChainEvent onChainEvent =
     andThen (throwErr (toFarcasterTime (oce_blockTimestamp onChainEvent * 1000))) (\<lambda>timestamp.
     mapOk (makeOnChainEventPrimaryKey (oce_type onChainEvent) (oce_fid onChainEvent)
              (oce_blockNumber onChainEvent) (oce_logIndex onChainEvent))
       (fromTimestamp timestamp))"

section \<open>Reading sync ids\<close>

datatype SyncIdType = SyncIdUnknown | SyncIdMessage | SyncIdFName | SyncIdOnChainEvent

datatype UnpackedSyncId =
    UnknownSyncId
  | MessageSyncId (us_fid: int) (us_primaryKey: bytes) (us_hash: bytes)
  | FNameSyncId (us_fid: int) (us_name: bytes) (us_padded: bool)
  | OnChainEventSyncId (us_fid: int) (us_eventType: int) (us_blockNumber: int) (us_logIndex: int)

definition byte_at :: "bytes \<Rightarrow> nat \<Rightarrow> byte option" where
  "byte_at bs i = (if i < length bs then Some (bs ! i) else None)"

definition sync_type :: "bytes \<Rightarrow> SyncIdType" where
  "sync_type syncId =
     (let b = byte_at syncId TIMESTAMP_LENGTH in
      if b = Some (root_byte User) then SyncIdMessage
      else if b = Some (root_byte FNameUserNameProof) then SyncIdFName
      else if b = Some (root_byte OnChainEventPrefix) then SyncIdOnChainEvent
      else SyncIdUnknown)"

text \<open>\<^verbatim>\<open>pk.set(source, offset)\<close> is a RangeError when the source does not fit; what it does not reach stays zero. A time
  that is no number is written as zero.\<close>

definition set_bytes :: "bytes \<Rightarrow> nat \<Rightarrow> bytes \<Rightarrow> bytes outcome" where
  "set_bytes target off source =
     (if off + length source \<le> length target
      then Ok (take off target @ source @ drop (off + length source) target) else Throw RangeError)"

definition pkFromSyncId :: "bytes \<Rightarrow> bytes outcome" where
  "pkFromSyncId syncId =
     (let ts = take TIMESTAMP_LENGTH syncId;
          syncIDpart = drop TIMESTAMP_LENGTH syncId;
          ts_offset = 1 + FID_BYTES + 1
      in andThen (writeUInt32BE (case parse_bytes ts of Some t \<Rightarrow> numI t | None \<Rightarrow> NaN)) (\<lambda>tsBE.
         andThen (set_bytes (replicate (ts_offset + 4 + HASH_LENGTH) 0) 0 (take ts_offset syncIDpart)) (\<lambda>pk.
         andThen (set_bytes pk ts_offset tsBE) (\<lambda>pk.
           set_bytes pk (ts_offset + 4) (drop ts_offset syncIDpart)))))"

definition readUInt8 :: "bytes \<Rightarrow> nat \<Rightarrow> int outcome" where
  "readUInt8 bs off = (if off < length bs then Ok (uint (bs ! off)) else Throw RangeError)"

definition sync_unpack :: "bytes \<Rightarrow> UnpackedSyncId outcome" where
  "sync_unpack syncId =
     (let rootPrefix = byte_at syncId TIMESTAMP_LENGTH in
      if rootPrefix = Some (root_byte User) then
        andThen (readUInt32BE syncId (TIMESTAMP_LENGTH + 1)) (\<lambda>fid.
        mapOk (pkFromSyncId syncId) (\<lambda>pk.
          MessageSyncId fid pk (drop (TIMESTAMP_LENGTH + 1 + FID_BYTES + 1) syncId)))
      else if rootPrefix = Some (root_byte FNameUserNameProof) then
        (let paddedNameBytes = drop (TIMESTAMP_LENGTH + 1 + FID_BYTES) syncId;
             padded = (0 \<in> set paddedNameBytes)
         in mapOk (readUInt32BE syncId (TIMESTAMP_LENGTH + 1)) (\<lambda>fid.
              FNameSyncId fid (takeWhile (\<lambda>b. b \<noteq> 0) paddedNameBytes) padded))
      else if rootPrefix = Some (root_byte OnChainEventPrefix) then
        andThen (readUInt8 syncId (TIMESTAMP_LENGTH + 1 + 1)) (\<lambda>eventType.
        andThen (readUInt32BE syncId (TIMESTAMP_LENGTH + 1 + 1 + 1)) (\<lambda>fid.
        andThen (readUInt32BE syncId (TIMESTAMP_LENGTH + 1 + 1 + 1 + FID_BYTES)) (\<lambda>blockNumber.
        mapOk (readUInt32BE syncId (TIMESTAMP_LENGTH + 1 + 1 + 1 + FID_BYTES + 4)) (\<lambda>logIndex.
          OnChainEventSyncId fid eventType blockNumber logIndex))))
      else Ok UnknownSyncId)"

section \<open>The time in ten digits\<close>

definition time_digits :: "int \<Rightarrow> nat list" where
  "time_digits t = pad_start TIMESTAMP_LENGTH 0 (digits 10 (nat t))"

lemma time_digits_parts:
  assumes "0 \<le> t" "t < 10 ^ 10"
  shows "length (time_digits t) = 10" "d \<in> set (time_digits t) \<Longrightarrow> d < 10" "int (of_digits 10 (time_digits t)) = t"
proof -
  have "nat t < 10 ^ 10" using assms by simp
  from digits_length[OF _ _ this] have "length (digits 10 (nat t)) \<le> 10" by simp
  then show "length (time_digits t) = 10" by (simp add: time_digits_def TIMESTAMP_LENGTH_def)
  show "d \<in> set (time_digits t) \<Longrightarrow> d < 10"
    using digits_bounded[of 10 d "nat t"] by (auto simp: time_digits_def pad_start_def)
  show "int (of_digits 10 (time_digits t)) = t"
    using assms(1) by (simp add: time_digits_def pad_start_def of_digits_append)
qed

lemma digit_char_0: "digit_char 0 = 48"
  by (simp add: digit_char_def)

lemma padded_prefix:
  "0 \<le> t \<Longrightarrow> timestampToPaddedTimestampPrefix t = map digit_char (time_digits t)"
  by (simp add: timestampToPaddedTimestampPrefix_def int_to_string_def nat_to_string_def time_digits_def pad_start_def
      digit_char_0)

definition time_bytes :: "int \<Rightarrow> bytes" where
  "time_bytes t = map (\<lambda>d. of_nat (48 + d)) (time_digits t)"

lemma utf8_padded_prefix:
  assumes "0 \<le> t" "t < 10 ^ 10"
  shows "utf8_encode (timestampToPaddedTimestampPrefix t) = time_bytes t"
proof -
  note t = time_digits_parts[OF assms]
  have u: "unat (digit_char d) = 48 + d" if "d \<in> set (time_digits t)" for d
    using t(2)[OF that] by (simp add: unat_digit_char)
  have "ascii (map digit_char (time_digits t))"
    by (auto simp: ascii_def list_all_iff u dest!: t(2))
  moreover have "map (\<lambda>c. of_nat (unat c)) (map digit_char (time_digits t)) = time_bytes t"
    unfolding time_bytes_def map_map by (rule map_cong) (simp_all only: o_def u)
  ultimately show ?thesis
    using ascii_encode assms(1) by (simp only: padded_prefix)
qed

lemma time_bytes_length: "0 \<le> t \<Longrightarrow> t < 10 ^ 10 \<Longrightarrow> length (time_bytes t) = 10"
  by (simp add: time_bytes_def time_digits_parts)

lemma fromTimestamp_split:
  assumes "0 \<le> t" "t < 10 ^ 10"
  shows "take 10 (fromTimestamp t b) = time_bytes t" "drop 10 (fromTimestamp t b) = b"
    "length (fromTimestamp t b) = 10 + length b"
  using time_bytes_length[OF assms] by (simp_all add: fromTimestamp_def utf8_padded_prefix[OF assms])

lemma digit_byte: "d < 10 \<Longrightarrow> (ucast (of_nat (48 + d) :: byte) :: 16 word) = digit_char d"
  by (simp add: digit_char_def word_unat_eq_iff unsigned_ucast_eq unat_of_nat take_bit_eq_mod del: of_nat_add)

lemma parse_time_bytes:
  assumes "0 \<le> t" "t < 10 ^ 10"
  shows "parse_bytes (time_bytes t) = Some t"
proof -
  note t = time_digits_parts[OF assms]
  obtain d ds where ds: "time_digits t = d # ds" using t(1) by (cases "time_digits t") auto
  with t(2)[of d] have "d < 10" by simp
  then have "unat (of_nat (48 + d) :: byte) = 48 + d" by (simp add: unat_of_nat del: of_nat_add)
  then have "space_length (time_bytes t) = 0"
    using \<open>d < 10\<close> by (auto simp: space_length_def time_bytes_def ds word_unat_eq_iff simp del: of_nat_add)
  then have "skip_space (time_bytes t) = time_bytes t"
    by (simp add: skip_space.simps)
  moreover have "map ucast (time_bytes t) = map digit_char (time_digits t)"
    unfolding time_bytes_def map_map
    by (rule map_cong) (use t(2) digit_byte in \<open>simp_all del: of_nat_add\<close>)
  ultimately show ?thesis
    using t parse_int_digits[of 10 "time_digits t"] ds by (simp add: parse_bytes_def)
qed

lemma time_bytes_inject:
  "0 \<le> s \<Longrightarrow> s < 10 ^ 10 \<Longrightarrow> 0 \<le> t \<Longrightarrow> t < 10 ^ 10 \<Longrightarrow> time_bytes s = time_bytes t \<longleftrightarrow> s = t"
  using parse_time_bytes by (metis option.inject)

text \<open>The ids sort by time.\<close>

lemma of_digits_Cons: "of_digits b (d # ds) = d * b ^ length ds + of_digits b ds"
  using of_digits_append[of b "[d]" ds] by (simp add: of_digits_def)

lemma of_digits_less:
  assumes "length xs = length ys" "\<forall>d \<in> set xs \<union> set ys. d < 10"
  shows "of_digits 10 xs < of_digits 10 ys \<longleftrightarrow>
    (map (\<lambda>d. of_nat (48 + d)) xs :: byte list) < map (\<lambda>d. of_nat (48 + d)) ys"
  using assms
proof (induction xs ys rule: list_induct2)
  case (Cons x xs y ys)
  have b: "of_digits 10 xs < 10 ^ length xs" "of_digits 10 ys < 10 ^ length ys"
    using Cons.prems by (auto intro!: of_digits_bound)
  have c: "(of_nat (48 + x) :: byte) < of_nat (48 + y) \<longleftrightarrow> x < y" "(of_nat (48 + x) :: byte) = of_nat (48 + y) \<longleftrightarrow> x = y"
    using Cons.prems by (simp_all add: word_less_nat_alt word_unat_eq_iff unat_of_nat del: of_nat_add)
  show ?case
  proof (cases "x = y")
    case True
    with Cons show ?thesis by (simp add: of_digits_Cons)
  next
    case False
    have "x < y \<longleftrightarrow> of_digits 10 (x # xs) < of_digits 10 (y # ys)"
    proof (cases "x < y")
      case True
      then have "Suc x * 10 ^ length xs \<le> y * 10 ^ length xs" by (intro mult_le_mono1) simp
      with True b Cons.hyps show ?thesis by (simp add: of_digits_Cons)
    next
      case f: False
      with False have "Suc y * 10 ^ length xs \<le> x * 10 ^ length xs" by (intro mult_le_mono1) simp
      with f b Cons.hyps show ?thesis by (simp add: of_digits_Cons)
    qed
    with False c show ?thesis by simp
  qed
qed simp

lemma time_bytes_less:
  assumes "0 \<le> s" "s < 10 ^ 10" "0 \<le> t" "t < 10 ^ 10"
  shows "time_bytes s < time_bytes t \<longleftrightarrow> s < t"
proof -
  note s = time_digits_parts[OF assms(1,2)] and t = time_digits_parts[OF assms(3,4)]
  have "of_digits 10 (time_digits s) < of_digits 10 (time_digits t) \<longleftrightarrow> time_bytes s < time_bytes t"
    unfolding time_bytes_def using s t by (intro of_digits_less) auto
  moreover have "int (of_digits 10 (time_digits s)) < int (of_digits 10 (time_digits t)) \<longleftrightarrow> s < t"
    by (simp only: s t)
  ultimately show ?thesis by simp
qed

lemma fromTimestamp_less:
  assumes "0 \<le> s" "s < t" "t < 10 ^ 10"
  shows "fromTimestamp s a < fromTimestamp t b"
proof -
  have "time_bytes s < time_bytes t" using assms time_bytes_less[of s t] by simp
  then show ?thesis
    using assms append_less_append[of "time_bytes s" "time_bytes t" a b]
    by (simp add: fromTimestamp_def utf8_padded_prefix time_bytes_length)
qed

section \<open>Reading what was made\<close>

lemma readUInt32BE_be: "u32 n \<Longrightarrow> take 4 (drop off bs) = be_bytes 4 n \<Longrightarrow> readUInt32BE bs off = Ok n"
proof -
  assume n: "u32 n" and t: "take 4 (drop off bs) = be_bytes 4 n"
  have "length (take 4 (drop off bs)) = 4" unfolding t by simp
  then have "off + 4 \<le> length bs" by simp
  with t n show ?thesis by (simp add: readUInt32BE_def be_int_be_bytes)
qed

lemma numI_or_zero: "or_zero (numI f) = numI f"
  by (simp add: or_zero_def)

lemma sync_fromMessage_id:
  assumes "msg_data m = Some d" "md_fid d = numI f" "u32 f" "msg_hash m = Some h"
    "typeToSetPostfix (md_type d) = Ok pfx"
  shows "sync_fromMessage m = Ok (fromTimestamp (md_timestamp d) ([root_byte User] @ be_bytes 4 f @ [postfix_byte pfx] @ h))"
  using assms
  by (simp add: sync_fromMessage_def numI_or_zero makeMessagePrimaryKey_def makeUserKey_def makeFidKey_def)

lemma byte_at_10: "0 \<le> t \<Longrightarrow> t < 10 ^ 10 \<Longrightarrow> byte_at (fromTimestamp t (b # bs)) TIMESTAMP_LENGTH = Some b"
  by (simp add: byte_at_def TIMESTAMP_LENGTH_def fromTimestamp_def utf8_padded_prefix time_bytes_length nth_append)

lemma drop_11: "0 \<le> t \<Longrightarrow> t < 10 ^ 10 \<Longrightarrow> drop (10 + n) (fromTimestamp t bs) = drop n bs"
  by (simp add: fromTimestamp_def utf8_padded_prefix time_bytes_length)

lemma set_bytes_fill:
  "length b \<le> n \<Longrightarrow> set_bytes (a @ replicate n 0) (length a) b = Ok ((a @ b) @ replicate (n - length b) 0)"
  by (simp add: set_bytes_def)

text \<open>The id of a message names the key under which the message is stored.\<close>

lemma unpack_message:
  assumes "msg_data m = Some d" "md_fid d = numI f" "u32 f" "msg_hash m = Some h" "length h = HASH_LENGTH"
    "typeToSetPostfix (md_type d) = Ok pfx" "u32 (md_timestamp d)"
  shows "\<exists>i pk. sync_fromMessage m = Ok i \<and> makeMessagePrimaryKeyFromMessage m = Ok pk \<and>
     sync_unpack i = Ok (MessageSyncId f pk h) \<and> sync_type i = SyncIdMessage"
proof -
  let ?t = "md_timestamp d"
  let ?b = "1 # be_bytes 4 f @ postfix_byte pfx # h"
  let ?i = "fromTimestamp ?t ?b" and ?pk = "1 # be_bytes 4 f @ postfix_byte pfx # be_bytes 4 ?t @ h"
  have t: "0 \<le> ?t" "?t < 10 ^ 10" using assms(7) by auto
  have i: "sync_fromMessage m = Ok ?i" using sync_fromMessage_id[OF assms(1-4,6)] by simp
  have pk: "makeMessagePrimaryKeyFromMessage m = Ok ?pk"
    using assms by (simp add: makeMessagePrimaryKeyFromMessage_def makeTsHash_def makeMessagePrimaryKey_def
        makeUserKey_def makeFidKey_def)
  have d: "drop 10 ?i = ?b" "drop 16 ?i = h" "take 10 ?i = time_bytes ?t" "byte_at ?i TIMESTAMP_LENGTH = Some 1"
    using fromTimestamp_split[OF t] byte_at_10[OF t] drop_11[OF t, of 6] by simp_all
  have fid: "readUInt32BE ?i (TIMESTAMP_LENGTH + 1) = Ok f"
    using assms(3) drop_11[OF t, of 1] by (intro readUInt32BE_be) (simp_all add: TIMESTAMP_LENGTH_def)
  have h: "drop (TIMESTAMP_LENGTH + 1 + FID_BYTES + 1) ?i = h"
    using drop_11[OF t, of 6] by (simp add: TIMESTAMP_LENGTH_def FID_BYTES_def)
  have "set_bytes (replicate 30 0) 0 (take 6 ?b) = Ok (take 6 ?b @ replicate 24 0)"
    using set_bytes_fill[of "take 6 ?b" 30 "[]"] by simp
  moreover have "set_bytes (take 6 ?b @ replicate 24 0) 6 (be_bytes 4 ?t) = Ok ((take 6 ?b @ be_bytes 4 ?t) @ replicate 20 0)"
    using set_bytes_fill[of "be_bytes 4 ?t" 24 "take 6 ?b"] by simp
  moreover have "set_bytes ((take 6 ?b @ be_bytes 4 ?t) @ replicate 20 0) 10 h = Ok ?pk"
    using set_bytes_fill[of h 20 "take 6 ?b @ be_bytes 4 ?t"] assms(5) by (simp add: HASH_LENGTH_def)
  ultimately have "pkFromSyncId ?i = Ok ?pk"
    using assms(7) by (simp add: pkFromSyncId_def TIMESTAMP_LENGTH_def d parse_time_bytes[OF t] FID_BYTES_def HASH_LENGTH_def
        del: be_bytes.simps)
  with i pk d fid h show ?thesis
    by (simp add: sync_unpack_def sync_type_def)
qed

text \<open>A name as the validators admit it: characters of ASCII other than NUL, no more than twenty.\<close>

lemma pad_end_ascii: "ascii s \<Longrightarrow> utf8_encode (pad_end n 0 s) = pad_end n 0 (utf8_encode s)"
proof -
  assume "ascii s"
  moreover from this have "ascii (pad_end n 0 s)" by (auto simp: ascii_def pad_end_def list_all_iff)
  ultimately show ?thesis by (simp add: ascii_encode pad_end_def)
qed

lemma ascii_encode_byte:
  assumes "ascii s" "b \<in> set (utf8_encode s)"
  shows "unat b < 128 \<and> (\<exists>c \<in> set s. unat c = unat b)"
proof -
  obtain c where c: "c \<in> set s" "b = of_nat (unat c)" using assms by (auto simp only: ascii_encode set_map)
  moreover have "unat c < 128" using assms(1) c(1) by (auto simp: ascii_def list_all_iff)
  ultimately have "unat b = unat c" by (simp only: unat_of_nat) simp
  with c \<open>unat c < 128\<close> show ?thesis by auto
qed

lemma unpack_name:
  assumes "unp_fid p = numI f" "u32 f" "unp_name p = utf8_encode s" "ascii s" "0 \<notin> set s"
    "length s \<le> USERNAME_MAX_LENGTH" "toFarcasterTime (unp_timestamp p * 1000) = Ok t"
  shows "\<exists>i. sync_fromFName p = Ok i \<and>
     sync_unpack i = Ok (FNameSyncId f (unp_name p) (length s < USERNAME_MAX_LENGTH)) \<and> sync_type i = SyncIdFName"
proof -
  let ?n = "utf8_encode s"
  let ?b = "17 # be_bytes 4 f @ pad_end USERNAME_MAX_LENGTH 0 ?n"
  let ?i = "fromTimestamp t ?b"
  have t: "0 \<le> t" "t < 10 ^ 10" using toFarcasterTime_u32[OF assms(7)] by auto
  have len: "length ?n = length s" by (rule ascii_encode_length[OF assms(4)])
  have nz: "0 \<notin> set ?n"
    using ascii_encode_byte[OF assms(4), of 0] assms(5) by (metis unat_0 unat_eq_zero)
  have "take 3 ?n \<noteq> [239, 187, 191]"
  proof
    assume "take 3 ?n = [239, 187, 191]"
    then have "239 \<in> set ?n" by (metis in_set_takeD list.set_intros(1))
    from ascii_encode_byte[OF assms(4) this] show False by simp
  qed
  then have "bytesToUtf8String ?n = Ok s"
    using utf8_decode_encode[of s] ascii_well_formed[OF assms(4)]
    by (simp add: bytesToUtf8String_def strip_bom_def utf16_code_points)
  then have i: "sync_fromFName p = Ok ?i"
    using assms by (simp add: sync_fromFName_def makeFidKey_def pad_end_ascii)
  have d: "drop 11 ?i = be_bytes 4 f @ pad_end USERNAME_MAX_LENGTH 0 ?n" "drop 15 ?i = pad_end USERNAME_MAX_LENGTH 0 ?n"
    "byte_at ?i TIMESTAMP_LENGTH = Some 17"
    using byte_at_10[OF t] drop_11[OF t, of 1] drop_11[OF t, of 5] by simp_all
  have fid: "readUInt32BE ?i (TIMESTAMP_LENGTH + 1) = Ok f"
    using assms(2) d(1) by (intro readUInt32BE_be) (simp_all add: TIMESTAMP_LENGTH_def)
  have tw: "takeWhile (\<lambda>b. b \<noteq> 0) ?n = ?n" using nz by (auto simp: takeWhile_eq_all_conv)
  then have "takeWhile (\<lambda>b. b \<noteq> 0) (pad_end USERNAME_MAX_LENGTH 0 ?n) = ?n"
    by (cases "USERNAME_MAX_LENGTH - length ?n") (simp_all add: pad_end_def takeWhile_append2)
  moreover have "0 \<in> set (pad_end USERNAME_MAX_LENGTH 0 ?n) \<longleftrightarrow> length s < USERNAME_MAX_LENGTH"
    using nz len by (auto simp: pad_end_def)
  ultimately show ?thesis
    using i d fid by (simp add: sync_unpack_def sync_type_def TIMESTAMP_LENGTH_def FID_BYTES_def assms(3))
qed

lemma unpack_event:
  assumes "oce_fid e = numI f" "u32 f" "u32 (oce_blockNumber e)" "u32 (oce_logIndex e)" "0 \<le> oce_type e" "oce_type e < 256"
    "toFarcasterTime (oce_blockTimestamp e * 1000) = Ok t"
  shows "\<exists>i. sync_fromOnChainEvent e = Ok i \<and>
     sync_unpack i = Ok (OnChainEventSyncId f (oce_type e) (oce_blockNumber e) (oce_logIndex e)) \<and>
     sync_type i = SyncIdOnChainEvent"
proof -
  let ?tail = "be_bytes 4 f @ be_bytes 4 (oce_blockNumber e) @ be_bytes 4 (oce_logIndex e)"
  let ?b = "23 # onchain_byte OnChainEvents # word_of_int (oce_type e) # ?tail"
  let ?i = "fromTimestamp t ?b"
  have t: "0 \<le> t" "t < 10 ^ 10" using toFarcasterTime_u32[OF assms(7)] by auto
  have i: "sync_fromOnChainEvent e = Ok ?i"
    using assms by (simp add: sync_fromOnChainEvent_def makeOnChainEventPrimaryKey_def makeFidKey_def
        makeBlockNumberKey_def makeLogIndexKey_def)
  have d: "drop 13 ?i = ?tail" "drop 17 ?i = be_bytes 4 (oce_blockNumber e) @ be_bytes 4 (oce_logIndex e)"
    "drop 21 ?i = be_bytes 4 (oce_logIndex e)" "byte_at ?i TIMESTAMP_LENGTH = Some 23"
    using byte_at_10[OF t] drop_11[OF t, of 3] drop_11[OF t, of 7] drop_11[OF t, of 11] by simp_all
  have r: "readUInt32BE ?i 13 = Ok f" "readUInt32BE ?i 17 = Ok (oce_blockNumber e)" "readUInt32BE ?i 21 = Ok (oce_logIndex e)"
    using assms(2-4) d by (auto intro!: readUInt32BE_be simp del: be_bytes.simps)
  have "readUInt8 ?i 12 = Ok (oce_type e)"
    using assms(5,6) fromTimestamp_split[OF t] time_bytes_length[OF t]
    by (simp add: readUInt8_def fromTimestamp_def utf8_padded_prefix[OF t] nth_append uint_word_of_int)
  with i d r show ?thesis
    by (simp add: sync_unpack_def sync_type_def TIMESTAMP_LENGTH_def FID_BYTES_def)
qed

section \<open>Sync ids are prefix free\<close>

definition prefix_free :: "bytes set \<Rightarrow> bool" where
  "prefix_free K \<longleftrightarrow> (\<forall>a \<in> K. \<forall>b \<in> K. prefix a b \<longrightarrow> a = b)"

definition well_formed_id :: "bytes \<Rightarrow> bool" where
  "well_formed_id i \<longleftrightarrow>
     (\<exists>t b. 0 \<le> t \<and> t < 10 ^ 10 \<and> i = fromTimestamp t b \<and> b \<noteq> [] \<and> (hd b, length b) \<in> {(1, 26), (17, 25), (23, 15)})"

lemma well_formed_message:
  assumes "msg_data m = Some d" "md_fid d = numI f" "msg_hash m = Some h" "length h = HASH_LENGTH"
    "u32 (md_timestamp d)" "sync_fromMessage m = Ok i"
  shows "well_formed_id i"
proof -
  obtain pfx where pfx: "typeToSetPostfix (md_type d) = Ok pfx"
    using assms by (auto simp: sync_fromMessage_def outcome_simps)
  have f: "u32 f"
    using assms pfx by (auto simp: sync_fromMessage_def outcome_simps numI_or_zero makeMessagePrimaryKey_def
        makeUserKey_def makeFidKey_def split: if_splits)
  show ?thesis
    using sync_fromMessage_id[OF assms(1,2) f assms(3) pfx] assms(4-6)
    by (auto simp: well_formed_id_def HASH_LENGTH_def intro!: exI[of _ "md_timestamp d"])
qed

lemma throwErr_Ok_iff: "throwErr r = Ok x \<longleftrightarrow> r = Ok x"
  by (cases r) simp_all

lemma well_formed_name:
  assumes "bytesToUtf8String (unp_name p) = Ok s" "ascii s" "length s \<le> USERNAME_MAX_LENGTH" "sync_fromFName p = Ok i"
  shows "well_formed_id i"
proof -
  obtain t f where t: "toFarcasterTime (unp_timestamp p * 1000) = Ok t" and f: "makeFidKey (unp_fid p) = Ok f"
    and i: "i = fromTimestamp t (17 # f @ pad_end USERNAME_MAX_LENGTH 0 (utf8_encode s))"
    using assms(1,2,4) by (auto simp: sync_fromFName_def outcome_simps throwErr_Ok_iff pad_end_ascii)
  have "length f = 4" using f by (simp add: makeFidKey_def writeUInt32BE_length)
  moreover have "length (pad_end USERNAME_MAX_LENGTH 0 (utf8_encode s)) = 20"
    using assms(3) by (simp add: pad_end_def ascii_encode_length[OF assms(2)] USERNAME_MAX_LENGTH_def)
  moreover have "0 \<le> t" "t < 10 ^ 10" using toFarcasterTime_u32[OF t] by auto
  ultimately show ?thesis using i by (auto simp: well_formed_id_def intro!: exI[of _ t])
qed

lemma well_formed_event:
  assumes "sync_fromOnChainEvent e = Ok i"
  shows "well_formed_id i"
proof -
  obtain t f b l where t: "toFarcasterTime (oce_blockTimestamp e * 1000) = Ok t"
    and parts: "makeFidKey (oce_fid e) = Ok f" "makeBlockNumberKey (oce_blockNumber e) = Ok b" "makeLogIndexKey (oce_logIndex e) = Ok l"
    and i: "i = fromTimestamp t (23 # onchain_byte OnChainEvents # word_of_int (oce_type e) # f @ b @ l)"
    using assms by (auto simp: sync_fromOnChainEvent_def outcome_simps throwErr_Ok_iff makeOnChainEventPrimaryKey_def)
  have "length f = 4" "length b = 4" "length l = 4"
    using parts by (simp_all add: makeFidKey_def makeBlockNumberKey_def makeLogIndexKey_def writeUInt32BE_length
        del: writeUInt32BE_numI)
  moreover have "0 \<le> t" "t < 10 ^ 10" using toFarcasterTime_u32[OF t] by auto
  ultimately show ?thesis using i by (auto simp: well_formed_id_def intro!: exI[of _ t])
qed

lemma well_formed_prefix_free:
  assumes "\<forall>i \<in> K. well_formed_id i"
  shows "prefix_free K"
  unfolding prefix_free_def
proof (intro ballI impI)
  fix x y assume xy: "x \<in> K" "y \<in> K" "prefix x y"
  from assms xy(1) have "well_formed_id x" by blast
  then obtain s a where a: "0 \<le> s" "s < 10 ^ 10" "x = fromTimestamp s a" "a \<noteq> []"
    "(hd a, length a) \<in> {(1, 26), (17, 25), (23, 15)}" unfolding well_formed_id_def by blast
  from assms xy(2) have "well_formed_id y" by blast
  then obtain t b where b: "0 \<le> t" "t < 10 ^ 10" "y = fromTimestamp t b" "b \<noteq> []"
    "(hd b, length b) \<in> {(1, 26), (17, 25), (23, 15)}" unfolding well_formed_id_def by blast
  have x: "x = time_bytes s @ a" "y = time_bytes t @ b"
    using a b by (simp_all add: fromTimestamp_def utf8_padded_prefix)
  have "length (time_bytes s) = length (time_bytes t)" using a b by (simp add: time_bytes_length)
  then have "prefix a b" using xy(3) x by (auto simp: prefix_def)
  then have "hd a = hd b" using a(4) by (auto simp: prefix_def)
  with a(5) b(5) have "length a = length b" by auto
  with x \<open>length (time_bytes s) = length (time_bytes t)\<close> have "length x = length y" by simp
  with xy(3) show "x = y" by (auto simp: prefix_def)
qed

end
