(* ===== verification/SyncTrie.thy ===== *)
theory SyncTrie
  imports SyncIds
begin

text \<open>
  The trie of sync ids as the native code keeps it (\<^verbatim>\<open>addon/src/trie/trie_node.rs\<close>): a radix tree by bytes, whose
  leaves hold whole keys from depth ten on, with a hash over the hashes of the children at every node. A child is
  in memory or only in the database, from which it is loaded when it is needed; changes are collected in a batch.

  A hash map is an association list here, and what the code iterates in the arbitrary order of a hash map is
  processed in the order of the list. A panic is the exception \<open>native_panic\<close>. Operations return the node as they
  leave it also when they fail, since the code changes it in place. The generated coder of nodes and the hash
  function are parameters.
\<close>

section \<open>Nodes\<close>

record DbTrieNode =
  dtn_key :: bytes
  dtn_childChars :: "int list"
  dtn_items :: int
  dtn_hash :: bytes

record trie_coder =
  encodeDbTrieNode :: "DbTrieNode \<Rightarrow> bytes"
  decodeDbTrieNode :: "bytes \<Rightarrow> DbTrieNode outcome"
  trie_blake3 :: "bytes \<Rightarrow> bytes"

datatype TrieNode =
    TrieNode (tn_hash: bytes) (tn_items: nat) (tn_children: "(byte \<times> TrieNodeType) list") (tn_key: "bytes option")
and TrieNodeType = LoadedNode TrieNode | SerializedNode "bytes option"

type_synonym trie_batch = "(bytes \<times> bytes option) list"

definition new_TrieNode :: TrieNode where
  "new_TrieNode = TrieNode [] 0 [] None"

definition trie_key :: "bytes \<Rightarrow> byte option \<Rightarrow> bytes" where
  "trie_key pre child_char = root_byte SyncMerkleTrieNode # pre @ (case child_char of Some c \<Rightarrow> [c] | None \<Rightarrow> [])"

definition key_or_empty :: "TrieNode \<Rightarrow> bytes" where
  "key_or_empty node = (case tn_key node of Some k \<Rightarrow> k | None \<Rightarrow> [])"

definition trie_serialize :: "trie_coder \<Rightarrow> TrieNode \<Rightarrow> bytes" where
  "trie_serialize E node =
     encodeDbTrieNode E
       \<lparr>dtn_key = key_or_empty node, dtn_childChars = map (uint \<circ> fst) (tn_children node),
        dtn_items = int (tn_items node) mod 2 ^ 32, dtn_hash = tn_hash node\<rparr>"

definition trie_error :: "string \<Rightarrow> 'a outcome" where
  "trie_error m = fail InvalidParam m"

definition trie_deserialize :: "trie_coder \<Rightarrow> bytes \<Rightarrow> TrieNode outcome" where
  "trie_deserialize E serialized =
     (case decodeDbTrieNode E serialized of
        Ok n \<Rightarrow>
          Ok (TrieNode (dtn_hash n) (nat (dtn_items n))
               (fold (\<lambda>c. batch_insert (word_of_int c, SerializedNode None)) (dtn_childChars n) []) (Some (dtn_key n)))
      | _ \<Rightarrow> trie_error ''Failed to decode trie node'')"

definition is_leaf :: "TrieNode \<Rightarrow> bool" where
  "is_leaf node \<longleftrightarrow> tn_children node = []"

definition child :: "TrieNode \<Rightarrow> byte \<Rightarrow> TrieNodeType option" where
  "child node = map_of (tn_children node)"

definition set_children :: "(byte \<times> TrieNodeType) list \<Rightarrow> TrieNode \<Rightarrow> TrieNode" where
  "set_children cs node = TrieNode (tn_hash node) (tn_items node) cs (tn_key node)"

definition set_hash :: "bytes \<Rightarrow> TrieNode \<Rightarrow> TrieNode" where
  "set_hash h node = TrieNode h (tn_items node) (tn_children node) (tn_key node)"

definition set_items :: "nat \<Rightarrow> TrieNode \<Rightarrow> TrieNode" where
  "set_items n node = TrieNode (tn_hash node) n (tn_children node) (tn_key node)"

definition set_node_key :: "bytes option \<Rightarrow> TrieNode \<Rightarrow> TrieNode" where
  "set_node_key k node = TrieNode (tn_hash node) (tn_items node) (tn_children node) k"

definition put_child :: "byte \<Rightarrow> TrieNodeType \<Rightarrow> TrieNode \<Rightarrow> TrieNode" where
  "put_child c t node = set_children (batch_insert (c, t) (tn_children node)) node"

definition remove_child :: "byte \<Rightarrow> TrieNode \<Rightarrow> TrieNode" where
  "remove_child c node = set_children (filter (\<lambda>e. fst e \<noteq> c) (tn_children node)) node"

section \<open>Loading and hashing\<close>

definition trie_db_get :: "rocksdb \<Rightarrow> bytes \<Rightarrow> bytes option outcome" where
  "trie_db_get db key = when_open db (Ok (db_get (rdb_disk db) key))"

text \<open>A record that is missing gives an empty node, one that cannot be decoded a panic. The child, and the node with
  the child in memory.\<close>

definition get_or_load_child :: "trie_coder \<Rightarrow> rocksdb \<Rightarrow> bytes \<Rightarrow> byte \<Rightarrow> TrieNode \<Rightarrow> TrieNode outcome \<times> TrieNode" where
  "get_or_load_child E db pre c node =
     (case child node c of
        Some (LoadedNode n) \<Rightarrow> (Ok n, node)
      | Some (SerializedNode _) \<Rightarrow>
          (case trie_db_get db (trie_key pre (Some c)) of
             Ok (Some b) \<Rightarrow>
               (case trie_deserialize E b of
                  Ok n \<Rightarrow> (Ok n, put_child c (LoadedNode n) node)
                | _ \<Rightarrow> (Throw native_panic, node))
           | Ok None \<Rightarrow> (Ok new_TrieNode, put_child c (LoadedNode new_TrieNode) node)
           | Err e \<Rightarrow> (Err e, node)
           | Throw t \<Rightarrow> (Throw t, node))
      | None \<Rightarrow>
          (fail_js InvalidParam (lit ''Child '' @ int_to_string 10 (uint c) @ lit '' at prefix '' @ debug_bytes pre @
             lit '' not found''), node))"

definition known_hash :: "TrieNodeType \<Rightarrow> bytes" where
  "known_hash t =
     (case t of LoadedNode n \<Rightarrow> tn_hash n | SerializedNode (Some h) \<Rightarrow> h | SerializedNode None \<Rightarrow> [])"

fun concat_hashes ::
  "trie_coder \<Rightarrow> rocksdb \<Rightarrow> bytes \<Rightarrow> (byte \<times> bytes) list \<Rightarrow> TrieNode \<Rightarrow> bytes \<Rightarrow> bytes outcome \<times> TrieNode" where
  "concat_hashes E db pre [] node acc = (Ok acc, node)"
| "concat_hashes E db pre ((c, h) # hs) node acc =
     (if h = [] then
        (case get_or_load_child E db pre c node of
           (Ok n, node) \<Rightarrow> concat_hashes E db pre hs node (acc @ tn_hash n)
         | (Err e, node) \<Rightarrow> (Err e, node)
         | (Throw t, node) \<Rightarrow> (Throw t, node))
      else concat_hashes E db pre hs node (acc @ h))"

definition update_hash :: "trie_coder \<Rightarrow> rocksdb \<Rightarrow> bytes \<Rightarrow> TrieNode \<Rightarrow> unit outcome \<times> TrieNode" where
  "update_hash E db pre node =
     (if is_leaf node then (Ok (), set_hash (trie_blake3 E (key_or_empty node)) node)
      else
        (case concat_hashes E db pre (map (\<lambda>e. (fst e, known_hash (snd e))) (sort_key fst (tn_children node))) node [] of
           (Ok hashes, node) \<Rightarrow> (Ok (), set_hash (trie_blake3 E hashes) node)
         | (Err e, node) \<Rightarrow> (Err e, node)
         | (Throw t, node) \<Rightarrow> (Throw t, node)))"

definition put_to_txn :: "trie_coder \<Rightarrow> bytes \<Rightarrow> TrieNode \<Rightarrow> trie_batch \<Rightarrow> trie_batch" where
  "put_to_txn E pre node txn = batch_insert (trie_key pre None, Some (trie_serialize E node)) txn"

definition delete_to_txn :: "bytes \<Rightarrow> trie_batch \<Rightarrow> trie_batch" where
  "delete_to_txn pre txn = batch_insert (trie_key pre None, None) txn"

text \<open>\<^verbatim>\<open>self.update_hash(db, &prefix)?; self.put_to_txn(txn, &prefix)\<close>\<close>

definition hash_and_put ::
  "trie_coder \<Rightarrow> rocksdb \<Rightarrow> bytes \<Rightarrow> TrieNode \<Rightarrow> trie_batch \<Rightarrow> unit outcome \<times> TrieNode \<times> trie_batch" where
  "hash_and_put E db pre node txn =
     (case update_hash E db pre node of
        (Ok _, node) \<Rightarrow> (Ok (), node, put_to_txn E pre node txn)
      | (r, node) \<Rightarrow> (r, node, txn))"

section \<open>Inserting\<close>

type_synonym trie_result = "bool list outcome \<times> TrieNode \<times> trie_batch"

text \<open>Keys by the byte at an index, each with its place among the results.\<close>

definition group_keys :: "nat \<Rightarrow> (nat \<times> bytes) list \<Rightarrow> (byte \<times> (nat \<times> bytes) list) list" where
  "group_keys i iks =
     map (\<lambda>c. (c, filter (\<lambda>ik. snd ik ! i = c) iks)) (remdups (map (\<lambda>ik. snd ik ! i) iks))"

definition set_results :: "nat list \<Rightarrow> bool list \<Rightarrow> bool list \<Rightarrow> bool list" where
  "set_results is rs results = fold (\<lambda>(i, r) results. results[i := r]) (zip is rs) results"

fun insert_groups ::
  "(TrieNode \<Rightarrow> bytes list \<Rightarrow> trie_batch \<Rightarrow> trie_result) \<Rightarrow> trie_coder \<Rightarrow> rocksdb \<Rightarrow> bytes \<Rightarrow>
   (byte \<times> (nat \<times> bytes) list) list \<Rightarrow> TrieNode \<Rightarrow> bool list \<Rightarrow> nat \<Rightarrow> trie_batch \<Rightarrow>
   (bool list \<times> nat) outcome \<times> TrieNode \<times> trie_batch" where
  "insert_groups ins E db pre [] node results successes txn = (Ok (results, successes), node, txn)"
| "insert_groups ins E db pre ((c, iks) # gs) node results successes txn =
     (let node = (if child node c = None then put_child c (LoadedNode new_TrieNode) node else node) in
      case get_or_load_child E db pre c node of
        (Ok n, node) \<Rightarrow>
          (case ins n (map snd iks) txn of
             (Ok rs, n, txn) \<Rightarrow>
               insert_groups ins E db pre gs (put_child c (LoadedNode n) node) (set_results (map fst iks) rs results)
                 (successes + length (filter id (take (length iks) rs))) txn
           | (Err e, n, txn) \<Rightarrow> (Err e, put_child c (LoadedNode n) node, txn)
           | (Throw t, n, txn) \<Rightarrow> (Throw t, put_child c (LoadedNode n) node, txn))
      | (Err e, node) \<Rightarrow> (Err e, node, txn)
      | (Throw t, node) \<Rightarrow> (Throw t, node, txn))"

text \<open>The keys that are not yet below a node that is no leaf, and the change of its count, hash and record.\<close>

definition insert_rest ::
  "(TrieNode \<Rightarrow> bytes list \<Rightarrow> trie_batch \<Rightarrow> trie_result) \<Rightarrow> trie_coder \<Rightarrow> rocksdb \<Rightarrow> bytes \<Rightarrow> nat \<Rightarrow>
   (nat \<times> bytes) list \<Rightarrow> TrieNode \<Rightarrow> bool list \<Rightarrow> trie_batch \<Rightarrow> trie_result" where
  "insert_rest ins E db pre i remaining node results txn =
     (if \<exists>ik \<in> set remaining. length (snd ik) \<le> i then (trie_error ''Key length exceeded'', node, txn)
      else
        (case insert_groups ins E db pre (group_keys i remaining) node results 0 txn of
           (Ok (results, successes), node, txn) \<Rightarrow>
             if successes > 0 then
               (case hash_and_put E db pre (set_items (tn_items node + successes) node) txn of
                  (r, node, txn) \<Rightarrow> (mapOk r (\<lambda>_. results), node, txn))
             else (Ok results, node, txn)
         | (Err e, node, txn) \<Rightarrow> (Err e, node, txn)
         | (Throw t, node, txn) \<Rightarrow> (Throw t, node, txn)))"

text \<open>A leaf gives its key to a child of its own. A key that ends at the node is a panic.\<close>

definition split_leaf_node ::
  "(TrieNode \<Rightarrow> bytes list \<Rightarrow> trie_batch \<Rightarrow> trie_result) \<Rightarrow> trie_coder \<Rightarrow> rocksdb \<Rightarrow> nat \<Rightarrow> TrieNode \<Rightarrow>
   trie_batch \<Rightarrow> unit outcome \<times> TrieNode \<times> trie_batch" where
  "split_leaf_node ins E db i node txn =
     (case tn_key node of
        None \<Rightarrow> (Throw native_panic, node, txn)
      | Some key \<Rightarrow>
          (let node = set_node_key None node in
           if length key \<le> i then (Throw native_panic, node, txn)
           else
             (case ins new_TrieNode [key] txn of
                (r, n, txn) \<Rightarrow>
                  let node = put_child (key ! i) (LoadedNode n) node in
                  (case r of
                     Ok _ \<Rightarrow> hash_and_put E db (take i key) node txn
                   | Err e \<Rightarrow> (Err e, node, txn)
                   | Throw t \<Rightarrow> (Throw t, node, txn)))))"

text \<open>The first argument bounds the depth; \<open>MerkleTrie\<close> gives one more than the longest key needs. When a fresh leaf
  takes the last of the keys, the results still say that it was the first, and the places of the others are
  counted from one.\<close>

fun trie_insert ::
  "nat \<Rightarrow> trie_coder \<Rightarrow> rocksdb \<Rightarrow> TrieNode \<Rightarrow> bytes list \<Rightarrow> nat \<Rightarrow> trie_batch \<Rightarrow> trie_result" where
  "trie_insert 0 E db node keys i txn = (Throw native_panic, node, txn)"
| "trie_insert (Suc d) E db node keys i txn =
     (if keys = [] then (trie_error ''No keys to insert'', node, txn)
      else
        (let pre = take i (hd keys);
             ins = (\<lambda>n ks. trie_insert d E db n ks (Suc i));
             results = replicate (length keys) False
         in
         if i \<ge> TIMESTAMP_LENGTH \<and> is_leaf node then
           (let inserted = (tn_key node = None);
                node = (if inserted then snd (update_hash E db pre (set_items (tn_items node + 1) (set_node_key (Some (last keys)) node)))
                        else node);
                txn = (if inserted then put_to_txn E pre node txn else txn);
                results = (if inserted then results[0 := True] else results);
                keys = (if inserted then butlast keys else keys);
                present = filter (\<lambda>ik. snd ik = key_or_empty node) (enumerate 0 keys);
                results = fold (\<lambda>ik results. results[fst ik := False]) present results;
                remaining = map (\<lambda>ik. (fst ik + (if inserted then 1 else 0), snd ik))
                              (filter (\<lambda>ik. snd ik \<noteq> key_or_empty node) (enumerate 0 keys))
            in
            if remaining = [] then (Ok results, node, txn)
            else
              (case split_leaf_node ins E db i node txn of
                 (Ok _, node, txn) \<Rightarrow> insert_rest ins E db pre i remaining node results txn
               | (Err e, node, txn) \<Rightarrow> (Err e, node, txn)
               | (Throw t, node, txn) \<Rightarrow> (Throw t, node, txn)))
         else insert_rest ins E db pre i (enumerate 0 keys) node results txn))"

section \<open>Deleting\<close>

fun delete_groups ::
  "(TrieNode \<Rightarrow> bytes list \<Rightarrow> trie_batch \<Rightarrow> trie_result) \<Rightarrow> trie_coder \<Rightarrow> rocksdb \<Rightarrow> bytes \<Rightarrow>
   (byte \<times> (nat \<times> bytes) list) list \<Rightarrow> TrieNode \<Rightarrow> bool list \<Rightarrow> nat \<Rightarrow> trie_batch \<Rightarrow>
   (bool list \<times> nat) outcome \<times> TrieNode \<times> trie_batch" where
  "delete_groups del E db pre [] node results successes txn = (Ok (results, successes), node, txn)"
| "delete_groups del E db pre ((c, iks) # gs) node results successes txn =
     (if child node c = None then
        delete_groups del E db pre gs node (set_results (map fst iks) (replicate (length iks) False) results) successes txn
      else
        (case get_or_load_child E db pre c node of
           (Ok n, node) \<Rightarrow>
             (case del n (map snd iks) txn of
                (Ok rs, n, txn) \<Rightarrow>
                  delete_groups del E db pre gs
                    (if tn_items n = 0 then remove_child c node else put_child c (LoadedNode n) node)
                    (set_results (map fst iks) rs results) (successes + length (filter id (take (length iks) rs))) txn
              | (Err e, n, txn) \<Rightarrow> (Err e, put_child c (LoadedNode n) node, txn)
              | (Throw t, n, txn) \<Rightarrow> (Throw t, put_child c (LoadedNode n) node, txn))
         | (Err e, node) \<Rightarrow> (Err e, node, txn)
         | (Throw t, node) \<Rightarrow> (Throw t, node, txn)))"

text \<open>A node that is left with one key takes it from its child. The key of the record that is deleted then has the
  prefix of trie records twice: \<open>delete_to_txn\<close> adds it to what already has it.\<close>

definition compact_node ::
  "trie_coder \<Rightarrow> rocksdb \<Rightarrow> bytes \<Rightarrow> nat \<Rightarrow> TrieNode \<Rightarrow> trie_batch \<Rightarrow> unit outcome \<times> TrieNode \<times> trie_batch" where
  "compact_node E db pre i node txn =
     (if tn_items node = 1 \<and> length (tn_children node) = 1 \<and> i \<ge> TIMESTAMP_LENGTH then
        (let c = fst (hd (tn_children node)) in
         case get_or_load_child E db pre c node of
           (Ok n, node) \<Rightarrow>
             if tn_key n \<noteq> None
             then (Ok (), remove_child c (set_node_key (tn_key n) node), delete_to_txn (trie_key pre (Some c)) txn)
             else (Ok (), node, txn)
         | (Err e, node) \<Rightarrow> (Err e, node, txn)
         | (Throw t, node) \<Rightarrow> (Throw t, node, txn))
      else (Ok (), node, txn))"

text \<open>\<^verbatim>\<open>self.items -= 1\<close> of an empty node would wrap around; an empty node is never asked to give up a key.\<close>

fun trie_delete ::
  "nat \<Rightarrow> trie_coder \<Rightarrow> rocksdb \<Rightarrow> TrieNode \<Rightarrow> bytes list \<Rightarrow> nat \<Rightarrow> trie_batch \<Rightarrow> trie_result" where
  "trie_delete 0 E db node keys i txn = (Throw native_panic, node, txn)"
| "trie_delete (Suc d) E db node keys i txn =
     (if keys = [] then (Throw native_panic, node, txn)
      else
        (let pre = take i (hd keys);
             results = replicate (length keys) False
         in
         if is_leaf node then
           (case List.find (\<lambda>ik. snd ik = key_or_empty node) (enumerate 0 keys) of
              Some (j, _) \<Rightarrow>
                (case update_hash E db pre (set_items (tn_items node - 1) (set_node_key None node)) of
                   (r, node) \<Rightarrow> (mapOk r (\<lambda>_. results[j := True]), node, delete_to_txn pre txn))
            | None \<Rightarrow> (Ok results, node, txn))
         else if \<exists>k \<in> set keys. length k \<le> i then (trie_error ''Key length exceeded'', node, txn)
         else
           (case delete_groups (\<lambda>n ks. trie_delete d E db n ks (Suc i)) E db pre (group_keys i (enumerate 0 keys)) node
                   results 0 txn of
              (Ok (results, successes), node, txn) \<Rightarrow>
                if successes = 0 then (Ok results, node, txn)
                else
                  (let node = set_items (tn_items node - successes) node in
                   if tn_items node = 0 then
                     (case update_hash E db pre node of
                        (r, node) \<Rightarrow> (mapOk r (\<lambda>_. results), node, delete_to_txn pre txn))
                   else
                     (case compact_node E db pre i node txn of
                        (Ok _, node, txn) \<Rightarrow>
                          (case hash_and_put E db pre node txn of
                             (r, node, txn) \<Rightarrow> (mapOk r (\<lambda>_. results), node, txn))
                      | (Err e, node, txn) \<Rightarrow> (Err e, node, txn)
                      | (Throw t, node, txn) \<Rightarrow> (Throw t, node, txn)))
            | (Err e, node, txn) \<Rightarrow> (Err e, node, txn)
            | (Throw t, node, txn) \<Rightarrow> (Throw t, node, txn))))"

section \<open>Reading\<close>

function trie_exists ::
  "trie_coder \<Rightarrow> rocksdb \<Rightarrow> TrieNode \<Rightarrow> bytes \<Rightarrow> nat \<Rightarrow> bool outcome \<times> TrieNode" where
  "trie_exists E db node key i =
     (if is_leaf node then (Ok (key_or_empty node = key), node)
      else if i \<ge> length key then (Ok False, node)
      else if child node (key ! i) = None then (Ok False, node)
      else
        (case get_or_load_child E db (take i key) (key ! i) node of
           (Ok n, node) \<Rightarrow>
             (case trie_exists E db n key (Suc i) of
                (r, n) \<Rightarrow> (r, put_child (key ! i) (LoadedNode n) node))
         | (Err e, node) \<Rightarrow> (Err e, node)
         | (Throw t, node) \<Rightarrow> (Throw t, node)))"
  by pat_completeness auto

termination by (relation "measure (\<lambda>(E, db, node, key, i). length key - i)") auto

declare trie_exists.simps [simp del]

text \<open>\<^verbatim>\<open>get_node_from_trie\<close> and an operation on the node it finds. A child that cannot be loaded counts as none.\<close>

function at_node ::
  "trie_coder \<Rightarrow> rocksdb \<Rightarrow> (TrieNode \<Rightarrow> 'a outcome \<times> TrieNode) \<Rightarrow> TrieNode \<Rightarrow> bytes \<Rightarrow> nat \<Rightarrow>
   'a option outcome \<times> TrieNode" where
  "at_node E db f node pre i =
     (if i \<ge> length pre then (case f node of (r, node) \<Rightarrow> (mapOk r Some, node))
      else if child node (pre ! i) = None then (Ok None, node)
      else
        (case get_or_load_child E db (take i pre) (pre ! i) node of
           (Ok n, node) \<Rightarrow>
             (case at_node E db f n pre (Suc i) of
                (r, n) \<Rightarrow> (r, put_child (pre ! i) (LoadedNode n) node))
         | (Err e, node) \<Rightarrow> (Ok None, node)
         | (Throw t, node) \<Rightarrow> (Throw t, node)))"
  by pat_completeness auto

termination by (relation "measure (\<lambda>(E, db, f, node, pre, i). length pre - i)") auto

declare at_node.simps [simp del]

definition MAX_VALUES_RETURNED_PER_CALL :: nat where
  "MAX_VALUES_RETURNED_PER_CALL = 1024"

fun values_of_children ::
  "(TrieNode \<Rightarrow> byte \<Rightarrow> bytes list outcome \<times> TrieNode) \<Rightarrow> trie_coder \<Rightarrow> rocksdb \<Rightarrow> bytes \<Rightarrow> byte list \<Rightarrow> TrieNode \<Rightarrow>
   bytes list \<Rightarrow> bytes list outcome \<times> TrieNode" where
  "values_of_children f E db pre [] node values = (Ok values, node)"
| "values_of_children f E db pre (c # cs) node values =
     (case get_or_load_child E db pre c node of
        (Ok n, node) \<Rightarrow>
          (case f n c of
             (Ok vs, n) \<Rightarrow>
               (if length (values @ vs) > MAX_VALUES_RETURNED_PER_CALL
                then (Ok (values @ vs), put_child c (LoadedNode n) node)
                else values_of_children f E db pre cs (put_child c (LoadedNode n) node) (values @ vs))
           | (r, n) \<Rightarrow> (r, put_child c (LoadedNode n) node))
      | (Err e, node) \<Rightarrow> (Err e, node)
      | (Throw t, node) \<Rightarrow> (Throw t, node))"

text \<open>The first argument bounds the depth.\<close>

fun trie_all_values ::
  "nat \<Rightarrow> trie_coder \<Rightarrow> rocksdb \<Rightarrow> TrieNode \<Rightarrow> bytes \<Rightarrow> bytes list outcome \<times> TrieNode" where
  "trie_all_values 0 E db node pre = (Throw native_panic, node)"
| "trie_all_values (Suc d) E db node pre =
     (if is_leaf node then (Ok [key_or_empty node], node)
      else
        values_of_children (\<lambda>n c. trie_all_values d E db n (pre @ [c])) E db pre
          (sort (map fst (tn_children node))) node [])"

record TrieSnapshot =
  ts_prefix :: bytes
  ts_excludedHashes :: "js_string list"
  ts_numMessages :: nat

fun excluded_loop ::
  "trie_coder \<Rightarrow> rocksdb \<Rightarrow> bytes \<Rightarrow> byte list \<Rightarrow> TrieNode \<Rightarrow> nat \<Rightarrow> bytes \<Rightarrow> (nat \<times> bytes) outcome \<times> TrieNode" where
  "excluded_loop E db pre [] node items hashes = (Ok (items, hashes), node)"
| "excluded_loop E db pre (c # cs) node items hashes =
     (case get_or_load_child E db pre c node of
        (Ok n, node) \<Rightarrow> excluded_loop E db pre cs node (items + tn_items n) (hashes @ tn_hash n)
      | (Err e, node) \<Rightarrow> (Err e, node)
      | (Throw t, node) \<Rightarrow> (Throw t, node))"

definition excluded_hash ::
  "trie_coder \<Rightarrow> rocksdb \<Rightarrow> bytes \<Rightarrow> byte \<Rightarrow> TrieNode \<Rightarrow> (nat \<times> js_string) outcome \<times> TrieNode" where
  "excluded_hash E db pre prefix_char node =
     (case excluded_loop E db pre (filter (\<lambda>c. c \<noteq> prefix_char) (sort (map fst (tn_children node)))) node 0 [] of
        (r, node) \<Rightarrow> (mapOk r (\<lambda>(items, hashes). (items, buffer_hex (trie_blake3 E hashes))), node))"

text \<open>The rest of the prefix, what lies before it, and what has been excluded on the way.\<close>

fun trie_snapshot ::
  "trie_coder \<Rightarrow> rocksdb \<Rightarrow> TrieNode \<Rightarrow> bytes \<Rightarrow> bytes \<Rightarrow> js_string list \<Rightarrow> nat \<Rightarrow> TrieSnapshot outcome \<times> TrieNode" where
  "trie_snapshot E db node pre [] hashes items =
     (Ok \<lparr>ts_prefix = pre, ts_excludedHashes = hashes @ [buffer_hex (tn_hash node)], ts_numMessages = items\<rparr>, node)"
| "trie_snapshot E db node pre (c # rest) hashes items =
     (case excluded_hash E db pre c node of
        (Ok (excluded_items, hash), node) \<Rightarrow>
          (let hashes = hashes @ [hash]; items = items + excluded_items in
           if child node c = None
           then (Ok \<lparr>ts_prefix = pre, ts_excludedHashes = hashes, ts_numMessages = items\<rparr>, node)
           else
             (case get_or_load_child E db pre c node of
                (Ok n, node) \<Rightarrow>
                  (case trie_snapshot E db n (pre @ [c]) rest hashes items of
                     (r, n) \<Rightarrow> (r, put_child c (LoadedNode n) node))
              | (Err e, node) \<Rightarrow> (Err e, node)
              | (Throw t, node) \<Rightarrow> (Throw t, node)))
      | (Err e, node) \<Rightarrow> (Err e, node)
      | (Throw t, node) \<Rightarrow> (Throw t, node))"

text \<open>Only the children in memory are kept, as what is in the database: a child that was not in memory is lost.\<close>

definition unload_children :: "TrieNode \<Rightarrow> TrieNode" where
  "unload_children node =
     set_children
       (List.map_filter (\<lambda>e. case snd e of LoadedNode n \<Rightarrow> Some (fst e, SerializedNode (Some (tn_hash n)))
                              | SerializedNode _ \<Rightarrow> None) (tn_children node)) node"

end
