(* ===== verification/TrieSets.thy ===== *)
theory TrieSets
  imports SyncTrie
begin

text \<open>
  A trie represents a set of keys. What a set of keys looks like as a trie is determined by the set: which prefixes
  are nodes (\<open>inner\<close>, \<open>chars\<close>), what each holds, and its hash (\<open>key_hash\<close>). \<open>stored\<close> says that the records of a
  database are those of a set, \<open>reps\<close> that a node in memory is, given the database from which the rest is loaded.
  Inserting and deleting keys keep both and compute the set, so the hash of the root depends on the set alone.
\<close>

section \<open>Keys below a prefix\<close>

definition sub :: "bytes set \<Rightarrow> bytes \<Rightarrow> bytes set" where
  "sub K p = {k \<in> K. prefix p k}"

definition chars :: "bytes \<Rightarrow> bytes set \<Rightarrow> byte set" where
  "chars p K = {c. sub K (p @ [c]) \<noteq> {}}"

definition inner :: "bytes \<Rightarrow> bytes set \<Rightarrow> bool" where
  "inner p K \<longleftrightarrow> K \<noteq> {} \<and> (length p < TIMESTAMP_LENGTH \<or> 2 \<le> card K)"

text \<open>Keys as the trie expects them: none is a prefix of another, they are long enough, and none begins with the
  byte that all keys of the records begin with.\<close>

definition keys_ok :: "bytes \<Rightarrow> bytes set \<Rightarrow> bool" where
  "keys_ok p K \<longleftrightarrow>
     finite K \<and> card K < 2 ^ 32 \<and> prefix_free K \<and>
     (\<forall>k \<in> K. prefix p k \<and> TIMESTAMP_LENGTH \<le> length k \<and> hd k \<noteq> root_byte SyncMerkleTrieNode)"

lemma sub_subset: "sub K p \<subseteq> K"
  by (auto simp: sub_def)

lemma sub_sub: "prefix p q \<Longrightarrow> sub (sub K p) q = sub K q"
  by (auto simp: sub_def intro: prefix_order.trans)

lemma sub_Un: "sub (A \<union> B) p = sub A p \<union> sub B p"
  by (auto simp: sub_def)

lemma sub_all: "(\<And>k. k \<in> K \<Longrightarrow> prefix p k) \<Longrightarrow> sub K p = K"
  by (auto simp: sub_def)

lemma sub_empty [simp]: "sub {} p = {}"
  by (simp add: sub_def)

lemma chars_empty [simp]: "chars p {} = {}"
  by (simp add: chars_def)

lemma chars_Un: "chars p (A \<union> B) = chars p A \<union> chars p B"
  by (auto simp: chars_def sub_Un)

lemma keys_ok_mono: "keys_ok p K \<Longrightarrow> M \<subseteq> K \<Longrightarrow> keys_ok p M"
  unfolding keys_ok_def prefix_free_def by (meson card_mono finite_subset le_less_trans subsetD)

lemma keys_ok_sub: "keys_ok p K \<Longrightarrow> keys_ok q (sub K q)"
  using keys_ok_mono[of p K "sub K q", OF _ sub_subset] by (auto simp: keys_ok_def sub_def)

lemma keys_ok_prefix: "keys_ok p K \<Longrightarrow> k \<in> K \<Longrightarrow> prefix p k"
  by (simp add: keys_ok_def)

lemma keys_ok_hd: "keys_ok p K \<Longrightarrow> K \<noteq> {} \<Longrightarrow> p = [] \<or> hd p \<noteq> root_byte SyncMerkleTrieNode"
  by (cases p) (auto simp: keys_ok_def prefix_def)

lemma prefix_snoc_nth: "prefix p k \<Longrightarrow> length p < length k \<Longrightarrow> prefix (p @ [c]) k \<longleftrightarrow> k ! length p = c"
proof -
  assume "prefix p k" "length p < length k"
  then obtain x r where "k = p @ x # r" by (auto simp: prefix_def neq_Nil_conv)
  then show ?thesis by auto
qed

lemma longer_than_inner:
  assumes "keys_ok p K" "length p < TIMESTAMP_LENGTH \<or> 2 \<le> card K" "k \<in> K"
  shows "length p < length k"
proof (rule ccontr)
  assume "\<not> length p < length k"
  with assms(1,3) have k: "k = p" "\<not> length p < TIMESTAMP_LENGTH"
    by (auto simp: keys_ok_def prefix_def)
  with assms(2) have "2 \<le> card K" by simp
  then obtain k' where "k' \<in> K" "k' \<noteq> k"
    by (metis One_nat_def card_le_Suc0_iff_eq assms(1) keys_ok_def not_less_eq_eq numeral_2_eq_2 assms(3))
  with assms(1,3) k show False by (auto simp: keys_ok_def prefix_free_def)
qed

text \<open>What is below the children of a prefix makes up what is below the prefix.\<close>

lemma sub_partition:
  assumes "\<And>k. k \<in> K \<Longrightarrow> prefix p k \<and> length p < length k"
  shows "K = (\<Union>c \<in> chars p K. sub K (p @ [c]))" "finite K \<Longrightarrow> finite (chars p K)"
    "chars p K = (\<lambda>k. k ! length p) ` K"
proof -
  have mem: "k \<in> sub K (p @ [c]) \<longleftrightarrow> k \<in> K \<and> k ! length p = c" for k c
    using assms prefix_snoc_nth[of p k c] by (auto simp: sub_def)
  show c: "chars p K = (\<lambda>k. k ! length p) ` K"
    by (auto simp: chars_def set_eq_iff mem image_iff)
  show "K = (\<Union>c \<in> chars p K. sub K (p @ [c]))"
    by (auto simp: c mem)
  show "finite K \<Longrightarrow> finite (chars p K)" by (simp add: c)
qed

lemma disjoint_children: "c \<noteq> c' \<Longrightarrow> sub K (p @ [c]) \<inter> sub K (p @ [c']) = {}"
  by (auto simp: sub_def prefix_def)

lemma chars_finite: "finite (chars p K)"
  by (rule finite_subset[OF subset_UNIV]) simp

section \<open>The hash of a set of keys\<close>

function key_hash :: "trie_coder \<Rightarrow> bytes \<Rightarrow> bytes set \<Rightarrow> bytes" where
  "key_hash E p K =
     (if keys_ok p K \<and> inner p K
      then trie_blake3 E (concat (map (\<lambda>c. key_hash E (p @ [c]) (sub K (p @ [c]))) (sorted_list_of_set (chars p K))))
      else trie_blake3 E (the_elem K))"
  by pat_completeness auto

termination
proof (relation "measure (\<lambda>(E, p, K). Max (insert (length p) (length ` K)) - length p)")
  fix E p K c
  assume ok: "keys_ok p K \<and> inner p K" and "c \<in> set (sorted_list_of_set (chars p K))"
  then have "sub K (p @ [c]) \<noteq> {}" using chars_finite[of p K] by (simp add: chars_def)
  let ?M = "Max (insert (length p) (length ` K))" and ?S = "sub K (p @ [c])"
  have fin: "finite K" "finite ?S" using ok keys_ok_sub[of p K "p @ [c]"] by (auto simp: keys_ok_def)
  obtain k where k: "k \<in> ?S" using \<open>?S \<noteq> {}\<close> by auto
  then have "length p < length k" "k \<in> K" by (auto simp: sub_def prefix_def)
  moreover have "length k \<le> ?M" using fin \<open>k \<in> K\<close> by (simp add: Max_ge_iff)
  moreover have "Max (insert (length (p @ [c])) (length ` ?S)) \<le> ?M"
  proof -
    have "length (p @ [c]) \<le> ?M" using calculation by simp
    moreover have "l \<le> ?M" if "l \<in> length ` ?S" for l
      using that fin sub_subset[of K "p @ [c]"] by (auto simp: Max_ge_iff)
    ultimately show ?thesis using fin by simp
  qed
  ultimately show "((E, p @ [c], ?S), (E, p, K)) \<in> measure (\<lambda>(E, p, K). Max (insert (length p) (length ` K)) - length p)"
    by simp
qed simp

declare key_hash.simps [simp del]

lemma key_hash_inner:
  "keys_ok p K \<Longrightarrow> inner p K \<Longrightarrow>
   key_hash E p K = trie_blake3 E (concat (map (\<lambda>c. key_hash E (p @ [c]) (sub K (p @ [c]))) (sorted_list_of_set (chars p K))))"
  by (subst key_hash.simps) simp

lemma key_hash_leaf: "\<not> inner p {k} \<Longrightarrow> key_hash E p {k} = trie_blake3 E k"
  by (subst key_hash.simps) simp

section \<open>Records and nodes of a set\<close>

text \<open>What is used of the coder and the hash: a node is read back as it was written, and a hash is not empty.\<close>

definition coder_ok :: "trie_coder \<Rightarrow> bool" where
  "coder_ok E \<longleftrightarrow>
     (\<forall>n. 0 \<le> dtn_items n \<and> dtn_items n < 2 ^ 32 \<and> (\<forall>c \<in> set (dtn_childChars n). 0 \<le> c \<and> c < 256) \<longrightarrow>
        decodeDbTrieNode E (encodeDbTrieNode E n) = Ok n) \<and>
     (\<forall>b. trie_blake3 E b \<noteq> [])"

definition record_ok :: "trie_coder \<Rightarrow> (bytes \<Rightarrow> bytes option) \<Rightarrow> bytes \<Rightarrow> bytes set \<Rightarrow> bool" where
  "record_ok E g p K \<longleftrightarrow>
     (\<exists>b cs. g (trie_key p None) = Some b \<and> distinct (map fst cs) \<and> snd ` set cs \<subseteq> {SerializedNode None} \<and>
        (if inner p K
         then trie_deserialize E b = Ok (TrieNode (key_hash E p K) (card K) cs (Some [])) \<and> fst ` set cs = chars p K
         else trie_deserialize E b = Ok (TrieNode (key_hash E p K) (card K) [] (Some (the_elem K)))))"

definition stored :: "trie_coder \<Rightarrow> (bytes \<Rightarrow> bytes option) \<Rightarrow> bytes \<Rightarrow> bytes set \<Rightarrow> bool" where
  "stored E g p K \<longleftrightarrow>
     (\<forall>q. prefix p q \<and> (q = p \<or> inner (butlast q) (sub K (butlast q))) \<and> sub K q \<noteq> {} \<longrightarrow> record_ok E g q (sub K q))"

inductive reps :: "trie_coder \<Rightarrow> (bytes \<Rightarrow> bytes option) \<Rightarrow> bytes \<Rightarrow> TrieNode \<Rightarrow> bytes set \<Rightarrow> bool"
  for E :: trie_coder and g :: "bytes \<Rightarrow> bytes option" where
  leaf: "TIMESTAMP_LENGTH \<le> length p \<Longrightarrow> reps E g p (TrieNode (trie_blake3 E k) 1 [] (Some k)) {k}"
| inner: "\<lbrakk>inner p K; distinct (map fst cs); fst ` set cs = chars p K; ko = None \<or> ko = Some [];
    \<forall>(c, t) \<in> set cs.
      (\<exists>n. t = LoadedNode n \<and> reps E g (p @ [c]) n (sub K (p @ [c]))) \<or>
      (\<exists>h. t = SerializedNode h \<and> (h = None \<or> h = Some (key_hash E (p @ [c]) (sub K (p @ [c])))) \<and>
           stored E g (p @ [c]) (sub K (p @ [c])))\<rbrakk> \<Longrightarrow>
   reps E g p (TrieNode (key_hash E p K) (card K) cs ko) K"

inductive_cases repsE: "reps E g p n K"

text \<open>The children of a node, whatever its hash and count are.\<close>

definition child_ok :: "trie_coder \<Rightarrow> (bytes \<Rightarrow> bytes option) \<Rightarrow> bytes \<Rightarrow> bytes set \<Rightarrow> TrieNodeType \<Rightarrow> bool" where
  "child_ok E g p K t \<longleftrightarrow>
     (case t of
        LoadedNode n \<Rightarrow> reps E g p n K
      | SerializedNode h \<Rightarrow> (h = None \<or> h = Some (key_hash E p K)) \<and> stored E g p K)"

definition children_ok ::
  "trie_coder \<Rightarrow> (bytes \<Rightarrow> bytes option) \<Rightarrow> bytes \<Rightarrow> bytes set \<Rightarrow> (byte \<times> TrieNodeType) list \<Rightarrow> bool" where
  "children_ok E g p K cs \<longleftrightarrow>
     distinct (map fst cs) \<and> fst ` set cs = chars p K \<and>
     (\<forall>(c, t) \<in> set cs. child_ok E g (p @ [c]) (sub K (p @ [c])) t)"

definition empty_rep :: "bytes \<Rightarrow> TrieNode \<Rightarrow> bool" where
  "empty_rep p n \<longleftrightarrow>
     tn_children n = [] \<and> tn_items n = 0 \<and> (tn_key n = None \<or> length p < TIMESTAMP_LENGTH \<and> tn_key n = Some [])"

definition node_rep :: "trie_coder \<Rightarrow> (bytes \<Rightarrow> bytes option) \<Rightarrow> bytes \<Rightarrow> TrieNode \<Rightarrow> bytes set \<Rightarrow> bool" where
  "node_rep E g p n K \<longleftrightarrow> (if K = {} then empty_rep p n else reps E g p n K)"

lemma reps_inner_iff:
  "reps E g p (TrieNode h m cs ko) K \<and> inner p K \<longleftrightarrow>
   inner p K \<and> h = key_hash E p K \<and> m = card K \<and> (ko = None \<or> ko = Some []) \<and> children_ok E g p K cs"
proof -
  have c: "(\<forall>(c, t) \<in> set cs.
      (\<exists>n. t = LoadedNode n \<and> reps E g (p @ [c]) n (sub K (p @ [c]))) \<or>
      (\<exists>h. t = SerializedNode h \<and> (h = None \<or> h = Some (key_hash E (p @ [c]) (sub K (p @ [c])))) \<and>
           stored E g (p @ [c]) (sub K (p @ [c])))) \<longleftrightarrow>
    (\<forall>(c, t) \<in> set cs. child_ok E g (p @ [c]) (sub K (p @ [c])) t)"
  proof (intro ball_cong refl)
    fix e
    show "(case e of (c, t) \<Rightarrow>
      (\<exists>n. t = LoadedNode n \<and> reps E g (p @ [c]) n (sub K (p @ [c]))) \<or>
      (\<exists>h. t = SerializedNode h \<and> (h = None \<or> h = Some (key_hash E (p @ [c]) (sub K (p @ [c])))) \<and>
           stored E g (p @ [c]) (sub K (p @ [c])))) = (case e of (c, t) \<Rightarrow> child_ok E g (p @ [c]) (sub K (p @ [c])) t)"
      by (cases e; cases "snd e") (auto simp: child_ok_def)
  qed
  show ?thesis
    unfolding children_ok_def c[symmetric] by (subst reps.simps) (auto simp: inner_def)
qed

lemma reps_leaf_iff:
  "reps E g p n {k} \<and> \<not> inner p {k} \<longleftrightarrow> TIMESTAMP_LENGTH \<le> length p \<and> n = TrieNode (trie_blake3 E k) 1 [] (Some k)"
  by (subst reps.simps) (auto simp: inner_def)

lemma reps_cases:
  assumes "reps E g p n K" "keys_ok p K"
  obtains (leaf) k where "K = {k}" "\<not> inner p K" "TIMESTAMP_LENGTH \<le> length p" "n = TrieNode (trie_blake3 E k) 1 [] (Some k)"
  | (inner) cs ko where "inner p K" "n = TrieNode (key_hash E p K) (card K) cs ko" "ko = None \<or> ko = Some []"
      "children_ok E g p K cs"
proof (cases "inner p K")
  case True
  with assms(1) reps_inner_iff[of E g p "tn_hash n" "tn_items n" "tn_children n" "tn_key n" K] inner show ?thesis
    by (metis TrieNode.collapse)
next
  case False
  with assms(1) leaf show ?thesis by (auto elim: repsE)
qed

lemma reps_nonempty: "reps E g p n K \<Longrightarrow> K \<noteq> {}"
  by (erule repsE) (auto simp: inner_def)

lemma reps_hash: "reps E g p n K \<Longrightarrow> tn_hash n = key_hash E p K \<and> tn_items n = card K"
  by (erule repsE) (auto simp: key_hash_leaf inner_def)

lemma stored_record: "stored E g p K \<Longrightarrow> K \<noteq> {} \<Longrightarrow> keys_ok p K \<Longrightarrow> record_ok E g p K"
  using sub_all[of K p] by (auto simp: stored_def keys_ok_def dest: spec[of _ p])

lemma stored_child:
  assumes "stored E g p K" "inner p K" "keys_ok p K"
  shows "stored E g (p @ [c]) (sub K (p @ [c]))"
  unfolding stored_def
proof (intro allI impI, elim conjE)
  fix q
  assume q: "prefix (p @ [c]) q" "q = p @ [c] \<or> inner (butlast q) (sub (sub K (p @ [c])) (butlast q))"
    "sub (sub K (p @ [c])) q \<noteq> {}"
  have p: "prefix p q" using q(1) by (auto simp: prefix_def)
  have "inner (butlast q) (sub K (butlast q))"
  proof (cases "q = p @ [c]")
    case True
    with assms(2,3) show ?thesis by (simp add: sub_all keys_ok_def)
  next
    case False
    with q(1) have "prefix (p @ [c]) (butlast q)" by (auto simp: prefix_def butlast_append)
    with q(2) False show ?thesis by (simp add: sub_sub)
  qed
  with assms(1) p q(1,3) have "record_ok E g q (sub K q)" by (simp add: stored_def sub_sub)
  with q(1) show "record_ok E g q (sub (sub K (p @ [c])) q)" by (simp add: sub_sub)
qed

lemma stored_inner:
  assumes "record_ok E g p K" "\<And>c. stored E g (p @ [c]) (sub K (p @ [c]))" "keys_ok p K"
  shows "stored E g p K"
  unfolding stored_def
proof (intro allI impI, elim conjE)
  fix q
  assume q: "prefix p q" "q = p \<or> inner (butlast q) (sub K (butlast q))" "sub K q \<noteq> {}"
  show "record_ok E g q (sub K q)"
  proof (cases "q = p")
    case True
    with assms(1,3) show ?thesis by (simp add: sub_all keys_ok_def)
  next
    case False
    with q(1) obtain c r where r: "q = p @ c # r" by (metis append_Nil2 neq_Nil_conv prefixE)
    then have pc: "prefix (p @ [c]) q" by (simp add: prefix_def)
    have "q = p @ [c] \<or> inner (butlast q) (sub (sub K (p @ [c])) (butlast q))"
    proof (cases "r = []")
      case True
      with r show ?thesis by simp
    next
      case f: False
      then have "prefix (p @ [c]) (butlast q)" by (auto simp: r prefix_def butlast_append)
      with q(2) False show ?thesis by (simp add: sub_sub)
    qed
    with assms(2)[of c] pc q(3) show ?thesis by (simp add: stored_def sub_sub)
  qed
qed

lemma stored_empty [simp]: "stored E g p {}"
  by (simp add: stored_def)

section \<open>Writing and loading\<close>

lemma trie_key_snoc: "trie_key p (Some c) = trie_key (p @ [c]) None"
  by (simp add: trie_key_def)

lemma trie_key_inject: "trie_key p None = trie_key q None \<longleftrightarrow> p = q"
  by (simp add: trie_key_def)

lemma read_children:
  fixes cs :: "(byte \<times> TrieNodeType) list"
  assumes "distinct (map fst cs)"
  shows "distinct (map fst (fold (\<lambda>c. batch_insert (word_of_int c :: byte, SerializedNode None)) (map (uint \<circ> fst) cs) []))"
    "fst ` set (fold (\<lambda>c. batch_insert (word_of_int c :: byte, SerializedNode None)) (map (uint \<circ> fst) cs) []) = fst ` set cs"
    "snd ` set (fold (\<lambda>c. batch_insert (word_of_int c :: byte, SerializedNode None)) (map (uint \<circ> fst) cs) []) \<subseteq> {SerializedNode None}"
proof -
  let ?f = "\<lambda>cs. fold (\<lambda>c. batch_insert (word_of_int c :: byte, SerializedNode None)) (map (uint \<circ> fst) cs)"
  have "distinct (map fst b) \<Longrightarrow> distinct (map fst (?f cs b))" for b :: "(byte \<times> TrieNodeType) list"
    by (induction cs arbitrary: b) (simp_all add: batch_insert_distinct)
  from this[of "[]"] show "distinct (map fst (?f cs []))" by simp
  have "fst ` set (?f cs b) = fst ` set b \<union> fst ` set cs" for b :: "(byte \<times> TrieNodeType) list"
    by (induction cs arbitrary: b) (auto simp: batch_insert_keys)
  from this[of "[]"] show "fst ` set (?f cs []) = fst ` set cs" by simp
  have new: "snd ` set (batch_insert (c, SerializedNode None) b) \<subseteq> insert (SerializedNode None) (snd ` set b)"
    for c :: byte and b :: "(byte \<times> TrieNodeType) list"
    by (induction b) auto
  have "snd ` set b \<subseteq> {SerializedNode None} \<Longrightarrow> snd ` set (?f cs b) \<subseteq> {SerializedNode None}"
    for b :: "(byte \<times> TrieNodeType) list"
  proof (induction cs arbitrary: b)
    case (Cons c cs)
    have "snd ` set (batch_insert (fst c, SerializedNode None) b) \<subseteq> {SerializedNode None}"
      using new[of "fst c" b] Cons.prems by blast
    from Cons.IH[OF this] show ?case by simp
  qed simp
  from this[of "[]"] show "snd ` set (?f cs []) \<subseteq> {SerializedNode None}" by simp
qed

lemma serialize_record:
  assumes "coder_ok E" "keys_ok p K" "reps E g p n K" "g' (trie_key p None) = Some (trie_serialize E n)"
  shows "record_ok E g' p K"
proof -
  have card: "card K < 2 ^ 32" using assms(2) by (simp add: keys_ok_def)
  let ?d = "\<lparr>dtn_key = key_or_empty n, dtn_childChars = map (uint \<circ> fst) (tn_children n),
        dtn_items = int (tn_items n) mod 2 ^ 32, dtn_hash = tn_hash n\<rparr>"
  have bounds: "0 \<le> uint c" "uint c < 256" for c :: byte
    using uint_lt2p[of c] by simp_all
  have "decodeDbTrieNode E (trie_serialize E n) = Ok ?d"
    using assms(1) bounds by (auto simp: coder_ok_def trie_serialize_def)
  then have de: "trie_deserialize E (trie_serialize E n) =
      Ok (TrieNode (tn_hash n) (card K)
        (fold (\<lambda>c. batch_insert (word_of_int c, SerializedNode None)) (map (uint \<circ> fst) (tn_children n)) [])
        (Some (key_or_empty n)))"
    using reps_hash[OF assms(3)] card by (simp add: trie_deserialize_def)
  from assms(3,2) show ?thesis
  proof (cases rule: reps_cases)
    case (leaf k)
    then show ?thesis using assms(4) de
      by (auto simp: record_ok_def key_or_empty_def key_hash_leaf intro!: exI[of _ "[]"])
  next
    case (inner cs ko)
    then have "key_or_empty n = []" by (auto simp: key_or_empty_def)
    moreover have "distinct (map fst cs)" "fst ` set cs = chars p K" using inner(4) by (simp_all add: children_ok_def)
    ultimately show ?thesis
      unfolding record_ok_def using assms(4) de inner(1,2) read_children[of cs] by auto
  qed
qed

lemma load_stored:
  assumes "stored E g p K" "K \<noteq> {}" "keys_ok p K"
  shows "\<exists>b n. g (trie_key p None) = Some b \<and> trie_deserialize E b = Ok n \<and> reps E g p n K"
proof -
  from stored_record[OF assms] obtain b cs where b: "g (trie_key p None) = Some b"
    and cs: "distinct (map fst cs)" "snd ` set cs \<subseteq> {SerializedNode None}"
    and n: "if inner p K
      then trie_deserialize E b = Ok (TrieNode (key_hash E p K) (card K) cs (Some [])) \<and> fst ` set cs = chars p K
      else trie_deserialize E b = Ok (TrieNode (key_hash E p K) (card K) [] (Some (the_elem K)))"
    by (auto simp: record_ok_def)
  show ?thesis
  proof (cases "inner p K")
    case True
    have "children_ok E g p K cs"
      using cs n True stored_child[OF assms(1) True assms(3)] by (fastforce simp: children_ok_def child_ok_def)
    with True reps_inner_iff[of E g p _ _ cs "Some []" K] have "reps E g p (TrieNode (key_hash E p K) (card K) cs (Some [])) K"
      by blast
    with b n True show ?thesis by auto
  next
    case False
    with assms(2,3) have "card K = 1" "TIMESTAMP_LENGTH \<le> length p"
      by (auto simp: inner_def keys_ok_def not_le card_gt_0_iff Suc_le_eq less_2_cases_iff)
    then obtain k where "K = {k}" by (auto simp: card_1_singleton_iff)
    with False b n \<open>TIMESTAMP_LENGTH \<le> length p\<close> show ?thesis
      using reps.leaf[of p E g k] by (auto simp: key_hash_leaf)
  qed
qed

lemma children_ok_child:
  "children_ok E g p K cs \<Longrightarrow> map_of cs c = Some t \<Longrightarrow> child_ok E g (p @ [c]) (sub K (p @ [c])) t"
  by (auto simp: children_ok_def dest: map_of_SomeD)

lemma children_ok_mem: "children_ok E g p K cs \<Longrightarrow> map_of cs c = None \<longleftrightarrow> c \<notin> chars p K"
  by (auto simp: children_ok_def map_of_eq_None_iff)

lemma children_ok_put:
  assumes "children_ok E g p K cs" "\<And>c'. c' \<noteq> c \<Longrightarrow> sub K' (p @ [c']) = sub K (p @ [c'])"
    "sub K' (p @ [c]) \<noteq> {}" "child_ok E g (p @ [c]) (sub K' (p @ [c])) t"
  shows "children_ok E g p K' (batch_insert (c, t) cs)"
proof -
  have d: "distinct (map fst (batch_insert (c, t) cs))"
    using assms(1) by (simp add: children_ok_def batch_insert_distinct)
  have "c' \<in> chars p K' \<longleftrightarrow> c' \<in> insert c (chars p K)" for c'
    using assms(2)[of c'] assms(3) by (cases "c' = c") (simp_all add: chars_def)
  then have "chars p K' = insert c (chars p K)" by blast
  moreover have "child_ok E g (p @ [c']) (sub K' (p @ [c'])) t'" if "(c', t') \<in> set (batch_insert (c, t) cs)" for c' t'
  proof -
    have "map_of (batch_insert (c, t) cs) c' = Some t'" using that d by simp
    then show ?thesis
      using assms(2,4) children_ok_child[OF assms(1), of c'] by (auto simp: map_of_batch_insert split: if_splits)
  qed
  ultimately show ?thesis
    using assms(1) d by (auto simp: children_ok_def batch_insert_keys)
qed

lemma children_ok_remove:
  assumes "children_ok E g p K cs" "\<And>c'. c' \<noteq> c \<Longrightarrow> sub K' (p @ [c']) = sub K (p @ [c'])" "sub K' (p @ [c]) = {}"
  shows "children_ok E g p K' (filter (\<lambda>e. fst e \<noteq> c) cs)"
proof -
  have "c' \<in> chars p K' \<longleftrightarrow> c' \<in> chars p K - {c}" for c'
    using assms(2)[of c'] assms(3) by (cases "c' = c") (simp_all add: chars_def)
  then have "chars p K' = chars p K - {c}" by blast
  then show ?thesis
    using assms(1,2) by (auto simp: children_ok_def distinct_map_filter)
qed

text \<open>A child is found, in memory or in the database, and stays what it was.\<close>

lemma get_or_load_child_ok:
  assumes "children_ok E (db_get (rdb_disk db)) p K (tn_children node)" "c \<in> chars p K" "keys_ok p K" "rdb_native_open db"
  shows "\<exists>n cs. get_or_load_child E db p c node = (Ok n, set_children cs node) \<and>
     reps E (db_get (rdb_disk db)) (p @ [c]) n (sub K (p @ [c])) \<and>
     children_ok E (db_get (rdb_disk db)) p K cs \<and> map_of cs c = Some (LoadedNode n)"
proof -
  let ?g = "db_get (rdb_disk db)" and ?K = "sub K (p @ [c])"
  obtain t where t: "map_of (tn_children node) c = Some t"
    using children_ok_mem[OF assms(1), of c] assms(2) by auto
  note ok = children_ok_child[OF assms(1) t]
  show ?thesis
  proof (cases t)
    case (LoadedNode n)
    then show ?thesis
      using t ok assms(1) by (auto simp: get_or_load_child_def child_def child_ok_def set_children_def
          intro!: exI[of _ "tn_children node"])
  next
    case (SerializedNode h)
    with ok have s: "stored E ?g (p @ [c]) ?K" by (simp add: child_ok_def)
    have "?K \<noteq> {}" using assms(2) by (simp add: chars_def)
    from load_stored[OF s this keys_ok_sub[OF assms(3)]] obtain b n where
      b: "?g (trie_key (p @ [c]) None) = Some b" "trie_deserialize E b = Ok n" "reps E ?g (p @ [c]) n ?K"
      by blast
    have "get_or_load_child E db p c node = (Ok n, put_child c (LoadedNode n) node)"
      using t b assms(4) by (simp add: get_or_load_child_def child_def SerializedNode trie_db_get_def when_open_def trie_key_snoc)
    moreover have "children_ok E ?g p K (batch_insert (c, LoadedNode n) (tn_children node))"
      by (rule children_ok_put[OF assms(1)]) (use b(3) \<open>?K \<noteq> {}\<close> in \<open>simp_all add: child_ok_def\<close>)
    ultimately show ?thesis
      using b(3) by (auto simp: put_child_def map_of_batch_insert)
  qed
qed

lemma set_children_simps [simp]:
  "tn_children (set_children cs n) = cs" "tn_items (set_children cs n) = tn_items n" "tn_key (set_children cs n) = tn_key n"
  "tn_hash (set_children cs n) = tn_hash n" "set_children cs (set_children cs' n) = set_children cs n"
  by (simp_all add: set_children_def)

lemma reps_not_empty_hash: "coder_ok E \<Longrightarrow> reps E g p n K \<Longrightarrow> tn_hash n \<noteq> []"
  by (erule repsE) (auto simp: coder_ok_def key_hash.simps[of E p K])

lemma concat_hashes_ok:
  assumes "children_ok E (db_get (rdb_disk db)) p K (tn_children node)" "keys_ok p K" "rdb_native_open db"
    "\<forall>(c, h) \<in> set hs. c \<in> chars p K \<and> (h = [] \<or> h = key_hash E (p @ [c]) (sub K (p @ [c])))"
  shows "\<exists>cs. concat_hashes E db p hs node acc =
       (Ok (acc @ concat (map (\<lambda>e. key_hash E (p @ [fst e]) (sub K (p @ [fst e]))) hs)), set_children cs node) \<and>
     children_ok E (db_get (rdb_disk db)) p K cs"
  using assms
proof (induction hs arbitrary: node acc)
  case Nil
  then show ?case by (intro exI[of _ "tn_children node"]) (simp add: set_children_def)
next
  case (Cons e hs)
  obtain c h where e: "e = (c, h)" by fastforce
  let ?h = "key_hash E (p @ [c]) (sub K (p @ [c]))"
  have c: "c \<in> chars p K" "h = [] \<or> h = ?h" using Cons.prems(4) by (simp_all add: e)
  obtain n cs where n: "get_or_load_child E db p c node = (Ok n, set_children cs node)"
    "reps E (db_get (rdb_disk db)) (p @ [c]) n (sub K (p @ [c]))" "children_ok E (db_get (rdb_disk db)) p K cs"
    using get_or_load_child_ok[OF Cons.prems(1) c(1) Cons.prems(2,3)] by blast
  have ok: "children_ok E (db_get (rdb_disk db)) p K (tn_children (set_children cs node))" using n(3) by simp
  show ?case
  proof (cases "h = []")
    case True
    obtain cs' where "concat_hashes E db p hs (set_children cs node) (acc @ ?h) =
       (Ok ((acc @ ?h) @ concat (map (\<lambda>e. key_hash E (p @ [fst e]) (sub K (p @ [fst e]))) hs)),
        set_children cs' (set_children cs node))"
      "children_ok E (db_get (rdb_disk db)) p K cs'"
      using Cons.IH[OF ok Cons.prems(2,3), of "acc @ ?h"] Cons.prems(4) by auto
    then show ?thesis using True n(1) reps_hash[OF n(2)] by (auto simp: e)
  next
    case False
    obtain cs' where "concat_hashes E db p hs node (acc @ ?h) =
       (Ok ((acc @ ?h) @ concat (map (\<lambda>e. key_hash E (p @ [fst e]) (sub K (p @ [fst e]))) hs)), set_children cs' node)"
      "children_ok E (db_get (rdb_disk db)) p K cs'"
      using Cons.IH[OF Cons.prems(1-3), of "acc @ ?h"] Cons.prems(4) by auto
    then show ?thesis using False c(2) by (auto simp: e)
  qed
qed

definition children_hash :: "trie_coder \<Rightarrow> bytes \<Rightarrow> bytes set \<Rightarrow> bytes" where
  "children_hash E p K =
     trie_blake3 E (concat (map (\<lambda>c. key_hash E (p @ [c]) (sub K (p @ [c]))) (sorted_list_of_set (chars p K))))"

lemma update_hash_ok:
  assumes "children_ok E (db_get (rdb_disk db)) p K (tn_children node)" "keys_ok p K" "rdb_native_open db"
    "tn_children node \<noteq> []"
  shows "\<exists>cs. update_hash E db p node = (Ok (), TrieNode (children_hash E p K) (tn_items node) cs (tn_key node)) \<and>
     children_ok E (db_get (rdb_disk db)) p K cs"
proof -
  let ?cs = "sort_key fst (tn_children node)"
  let ?hs = "map (\<lambda>e. (fst e, known_hash (snd e))) ?cs"
  have cs: "distinct (map fst (tn_children node))" "fst ` set (tn_children node) = chars p K"
    using assms(1) by (simp_all add: children_ok_def)
  have "distinct (map fst ?cs)" using cs(1) by (simp add: distinct_map)
  moreover have "sorted (map fst ?cs)" by simp
  ultimately have order: "map fst ?cs = sorted_list_of_set (chars p K)"
    using sorted_list_of_set.idem_if_sorted_distinct[of "map fst ?cs"] cs(2) by simp
  have "\<forall>(c, h) \<in> set ?hs. c \<in> chars p K \<and> (h = [] \<or> h = key_hash E (p @ [c]) (sub K (p @ [c])))"
  proof clarsimp
    fix c t assume t: "(c, t) \<in> set (tn_children node)"
    then have "child_ok E (db_get (rdb_disk db)) (p @ [c]) (sub K (p @ [c])) t"
      using assms(1) by (auto simp: children_ok_def)
    then have "known_hash t = [] \<or> known_hash t = key_hash E (p @ [c]) (sub K (p @ [c]))"
      by (auto simp: child_ok_def known_hash_def dest: reps_hash split: TrieNodeType.splits option.split)
    moreover have "c \<in> chars p K" using t cs(2) by force
    ultimately show "c \<in> chars p K \<and> (known_hash t = [] \<or> known_hash t = key_hash E (p @ [c]) (sub K (p @ [c])))" by blast
  qed
  from concat_hashes_ok[OF assms(1-3) this, of "[]"] obtain cs' where
    "concat_hashes E db p ?hs node [] =
       (Ok (concat (map (\<lambda>e. key_hash E (p @ [fst e]) (sub K (p @ [fst e]))) ?hs)), set_children cs' node)"
    and ok: "children_ok E (db_get (rdb_disk db)) p K cs'" by auto
  moreover have "map (\<lambda>e. key_hash E (p @ [fst e]) (sub K (p @ [fst e]))) ?hs =
      map (\<lambda>c. key_hash E (p @ [c]) (sub K (p @ [c]))) (map fst ?cs)" by simp
  ultimately show ?thesis
    using assms(4) by (intro exI[of _ cs'])
      (simp add: update_hash_def is_leaf_def set_hash_def set_children_def children_hash_def order)
qed

section \<open>The batch over the database\<close>

definition overlay :: "trie_batch \<Rightarrow> (bytes \<Rightarrow> bytes option) \<Rightarrow> bytes \<Rightarrow> bytes option" where
  "overlay txn g k = (case map_of txn k of Some r \<Rightarrow> r | None \<Rightarrow> g k)"

text \<open>Of the records that a set of keys can have, only those below a prefix have changed.\<close>

definition only_below :: "bytes \<Rightarrow> trie_batch \<Rightarrow> trie_batch \<Rightarrow> bool" where
  "only_below p txn txn' \<longleftrightarrow>
     (\<forall>q. \<not> prefix p q \<and> (q = [] \<or> hd q \<noteq> root_byte SyncMerkleTrieNode) \<longrightarrow>
        map_of txn' (trie_key q None) = map_of txn (trie_key q None))"

definition writes :: "trie_coder \<Rightarrow> bytes \<Rightarrow> bytes set \<Rightarrow> bytes set \<Rightarrow> trie_batch \<Rightarrow> trie_batch \<Rightarrow> bool" where
  "writes E p K K' txn txn' \<longleftrightarrow>
     only_below p txn txn' \<and> (\<forall>g. stored E (overlay txn g) p K \<longrightarrow> stored E (overlay txn' g) p K')"

definition strictly_below :: "bytes \<Rightarrow> trie_batch \<Rightarrow> trie_batch \<Rightarrow> bool" where
  "strictly_below p txn txn' \<longleftrightarrow>
     only_below p txn txn' \<and> map_of txn' (trie_key p None) = map_of txn (trie_key p None)"

definition child_writes :: "trie_coder \<Rightarrow> bytes \<Rightarrow> bytes set \<Rightarrow> bytes set \<Rightarrow> trie_batch \<Rightarrow> trie_batch \<Rightarrow> bool" where
  "child_writes E p K K' txn txn' \<longleftrightarrow>
     strictly_below p txn txn' \<and>
     (\<forall>g. (\<forall>c. stored E (overlay txn g) (p @ [c]) (sub K (p @ [c]))) \<longrightarrow>
          (\<forall>c. stored E (overlay txn' g) (p @ [c]) (sub K' (p @ [c]))))"

lemma only_below_refl [simp]: "only_below p txn txn"
  by (simp add: only_below_def)

lemma only_below_trans: "only_below p a b \<Longrightarrow> only_below p b c \<Longrightarrow> only_below p a c"
  by (simp add: only_below_def)

lemma only_below_up: "only_below (p @ [c]) a b \<Longrightarrow> only_below p a b"
  unfolding only_below_def by (metis append_prefixD)

lemma only_below_put: "only_below p txn (put_to_txn E p n txn)"
  by (auto simp: only_below_def put_to_txn_def map_of_batch_insert trie_key_inject)

lemma only_below_delete: "only_below p txn (delete_to_txn p txn)"
  by (auto simp: only_below_def delete_to_txn_def map_of_batch_insert trie_key_inject)

lemma stored_frame:
  assumes "stored E g p K" "keys_ok p K"
    "\<And>q. prefix p q \<Longrightarrow> q = [] \<or> hd q \<noteq> root_byte SyncMerkleTrieNode \<Longrightarrow> g' (trie_key q None) = g (trie_key q None)"
  shows "stored E g' p K"
  unfolding stored_def
proof (intro allI impI, elim conjE)
  fix q assume q: "prefix p q" "q = p \<or> inner (butlast q) (sub K (butlast q))" "sub K q \<noteq> {}"
  from q(3) obtain k where "k \<in> K" "prefix q k" by (auto simp: sub_def)
  moreover from this(1) assms(2) have "hd k \<noteq> root_byte SyncMerkleTrieNode" unfolding keys_ok_def by blast
  ultimately have "q = [] \<or> hd q \<noteq> root_byte SyncMerkleTrieNode" by (cases q) (auto simp: prefix_def)
  with assms(3) q(1) have "g' (trie_key q None) = g (trie_key q None)" by blast
  moreover have "record_ok E g q (sub K q)" using assms(1) q by (simp add: stored_def)
  ultimately show "record_ok E g' q (sub K q)" by (simp add: record_ok_def)
qed

lemma stored_beside:
  assumes "stored E (overlay txn g) (p @ [c']) K" "keys_ok (p @ [c']) K" "only_below (p @ [c]) txn txn'" "c' \<noteq> c"
  shows "stored E (overlay txn' g) (p @ [c']) K"
proof (rule stored_frame[OF assms(1,2)])
  fix q assume "prefix (p @ [c']) q" "q = [] \<or> hd q \<noteq> root_byte SyncMerkleTrieNode"
  moreover from this assms(4) have "\<not> prefix (p @ [c]) q" by (auto simp: prefix_def)
  ultimately show "overlay txn' g (trie_key q None) = overlay txn g (trie_key q None)"
    using assms(3) by (simp add: only_below_def overlay_def)
qed

lemma child_writes_refl [simp]: "child_writes E p K K txn txn"
  by (simp add: child_writes_def strictly_below_def)

lemma child_writes_trans: "child_writes E p K K1 t t1 \<Longrightarrow> child_writes E p K1 K2 t1 t2 \<Longrightarrow> child_writes E p K K2 t t2"
  unfolding child_writes_def strictly_below_def using only_below_trans[of p t t1 t2] by auto

lemma child_writes_one:
  assumes "writes E (p @ [c]) (sub K (p @ [c])) (sub K' (p @ [c])) txn txn'"
    "\<And>c'. c' \<noteq> c \<Longrightarrow> sub K' (p @ [c']) = sub K (p @ [c'])" "keys_ok p K"
    and same: "p = [] \<or> hd p \<noteq> root_byte SyncMerkleTrieNode"
  shows "child_writes E p K K' txn txn'"
  unfolding child_writes_def
proof (intro conjI allI impI)
  have below: "only_below (p @ [c]) txn txn'" using assms(1) by (simp add: writes_def)
  show "strictly_below p txn txn'"
    using only_below_up[OF below] below same by (simp add: strictly_below_def only_below_def)
  fix g c' assume s: "\<forall>c. stored E (overlay txn g) (p @ [c]) (sub K (p @ [c]))"
  show "stored E (overlay txn' g) (p @ [c']) (sub K' (p @ [c']))"
  proof (cases "c' = c")
    case True
    with assms(1) s show ?thesis by (simp add: writes_def)
  next
    case False
    with assms stored_beside[OF _ keys_ok_sub[OF assms(3)], of E txn g p c' c txn'] s show ?thesis by (simp add: writes_def)
  qed
qed

section \<open>The loop over the groups\<close>

lemma batch_insert_twice: "batch_insert (c, b) (batch_insert (c, a) xs) = batch_insert (c, b) xs"
  by (induction xs) auto

lemma set_results_at:
  assumes "distinct (map fst iks)"
  shows "length (set_results (map fst iks) (map (\<lambda>ik. P (snd ik)) iks) R) = length R"
    "\<And>j k. (j, k) \<in> set iks \<Longrightarrow> j < length R \<Longrightarrow> set_results (map fst iks) (map (\<lambda>ik. P (snd ik)) iks) R ! j = P k"
    "\<And>j. j \<notin> fst ` set iks \<Longrightarrow> set_results (map fst iks) (map (\<lambda>ik. P (snd ik)) iks) R ! j = R ! j"
proof -
  have step: "set_results (map fst (x # xs)) (map (\<lambda>ik. P (snd ik)) (x # xs)) R =
      set_results (map fst xs) (map (\<lambda>ik. P (snd ik)) xs) (R[fst x := P (snd x)])" for x xs R
    by (simp add: set_results_def)
  have all: "length (set_results (map fst iks) (map (\<lambda>ik. P (snd ik)) iks) R) = length R \<and>
      (\<forall>j. j \<notin> fst ` set iks \<longrightarrow> set_results (map fst iks) (map (\<lambda>ik. P (snd ik)) iks) R ! j = R ! j) \<and>
      (\<forall>(j, k) \<in> set iks. j < length R \<longrightarrow> set_results (map fst iks) (map (\<lambda>ik. P (snd ik)) iks) R ! j = P k)"
    using assms
  proof (induction iks arbitrary: R)
    case (Cons x xs)
    have d: "fst x \<notin> fst ` set xs" "distinct (map fst xs)" using Cons.prems by simp_all
    note IH = Cons.IH[OF d(2), of "R[fst x := P (snd x)]"]
    show ?case unfolding step
    proof (intro conjI)
      show "\<forall>(j, k) \<in> set (x # xs). j < length R \<longrightarrow>
          set_results (map fst xs) (map (\<lambda>ik. P (snd ik)) xs) (R[fst x := P (snd x)]) ! j = P k"
        using IH d(1) by (cases x) auto
    qed (use IH in auto)
  qed (simp add: set_results_def)
  then show "length (set_results (map fst iks) (map (\<lambda>ik. P (snd ik)) iks) R) = length R"
    "\<And>j k. (j, k) \<in> set iks \<Longrightarrow> j < length R \<Longrightarrow> set_results (map fst iks) (map (\<lambda>ik. P (snd ik)) iks) R ! j = P k"
    "\<And>j. j \<notin> fst ` set iks \<Longrightarrow> set_results (map fst iks) (map (\<lambda>ik. P (snd ik)) iks) R ! j = R ! j"
    by auto
qed

lemma count_new:
  assumes "distinct ks"
  shows "length (filter id (map (\<lambda>k. k \<in> A) ks)) = card (set ks \<inter> A)"
proof -
  have "length (filter id (map (\<lambda>k. k \<in> A) ks)) = length (filter (\<lambda>k. k \<in> A) ks)"
    by (induction ks) auto
  also have "\<dots> = card (set (filter (\<lambda>k. k \<in> A) ks))" using distinct_card[of "filter (\<lambda>k. k \<in> A) ks"] assms by simp
  also have "set (filter (\<lambda>k. k \<in> A) ks) = set ks \<inter> A" by auto
  finally show ?thesis .
qed

definition group_union :: "(byte \<times> (nat \<times> bytes) list) list \<Rightarrow> bytes set" where
  "group_union gs = (\<Union>g \<in> set gs. snd ` set (snd g))"

definition group_indices :: "(byte \<times> (nat \<times> bytes) list) list \<Rightarrow> nat set" where
  "group_indices gs = (\<Union>g \<in> set gs. fst ` set (snd g))"

text \<open>Groups of the keys below a prefix, with bounds on their lengths and places.\<close>

fun groups_ok :: "bytes \<Rightarrow> nat \<Rightarrow> nat \<Rightarrow> (byte \<times> (nat \<times> bytes) list) list \<Rightarrow> bool" where
  "groups_ok p L m [] = True"
| "groups_ok p L m ((c, iks) # gs) \<longleftrightarrow>
     iks \<noteq> [] \<and> distinct (map fst iks) \<and> distinct (map snd iks) \<and>
     (\<forall>(j, k) \<in> set iks. prefix (p @ [c]) k \<and> length k \<le> L \<and> j < m) \<and>
     c \<notin> fst ` set gs \<and> fst ` set iks \<inter> group_indices gs = {} \<and> groups_ok p L m gs"

text \<open>What the recursive call does at a child: the keys are of bounded length, or there is one, and nothing else.\<close>

definition inserts_below ::
  "(TrieNode \<Rightarrow> bytes list \<Rightarrow> trie_batch \<Rightarrow> trie_result) \<Rightarrow> trie_coder \<Rightarrow> rocksdb \<Rightarrow> bytes \<Rightarrow> nat \<Rightarrow> bool" where
  "inserts_below ins E db p L \<longleftrightarrow>
     (\<forall>c n M ks txn. ks \<noteq> [] \<and> distinct ks \<and> keys_ok (p @ [c]) (M \<union> set ks) \<and>
        node_rep E (db_get (rdb_disk db)) (p @ [c]) n M \<and>
        ((\<forall>k \<in> set ks. length k \<le> L) \<or> TIMESTAMP_LENGTH \<le> length p \<and> n = new_TrieNode \<and> M = {} \<and> length ks = 1) \<longrightarrow>
        (\<exists>n' txn'. ins n ks txn = (Ok (map (\<lambda>k. k \<notin> M) ks), n', txn') \<and>
           reps E (db_get (rdb_disk db)) (p @ [c]) n' (M \<union> set ks) \<and> writes E (p @ [c]) M (M \<union> set ks) txn txn'))"

lemma groups_ok_elem:
  "groups_ok p L m gs \<Longrightarrow> k \<in> group_union gs \<Longrightarrow> \<exists>c \<in> fst ` set gs. prefix (p @ [c]) k"
  by (induction p L m gs rule: groups_ok.induct) (auto simp: group_union_def)

lemma new_TrieNode_rep: "node_rep E g p new_TrieNode {}"
  by (simp add: node_rep_def empty_rep_def new_TrieNode_def)

lemma sub_Un_beside:
  assumes "\<forall>k \<in> A. prefix (p @ [c]) k" "c' \<noteq> c"
  shows "sub (K \<union> A) (p @ [c']) = sub K (p @ [c'])"
  using assms by (auto simp: sub_def prefix_def)

text \<open>One group: its child is found or made, and its keys are in it afterwards.\<close>

lemma insert_group_ok:
  assumes ins: "inserts_below ins E db p L" and db: "rdb_native_open db"
    and ok: "children_ok E (db_get (rdb_disk db)) p K (tn_children node)"
    and keys: "keys_ok p (K \<union> snd ` set iks)" "iks \<noteq> []" "distinct (map snd iks)"
      "\<forall>(j, k) \<in> set iks. prefix (p @ [c]) k \<and> length k \<le> L"
  shows "\<exists>node0 n n' txn' cs.
     get_or_load_child E db p c (if child node c = None then put_child c (LoadedNode new_TrieNode) node else node) = (Ok n, node0) \<and>
     ins n (map snd iks) txn = (Ok (map (\<lambda>ik. snd ik \<notin> K) iks), n', txn') \<and>
     put_child c (LoadedNode n') node0 = set_children cs node \<and>
     children_ok E (db_get (rdb_disk db)) p (K \<union> snd ` set iks) cs \<and>
     child_writes E p K (K \<union> snd ` set iks) txn txn'"
proof -
  let ?g = "db_get (rdb_disk db)" and ?M = "sub K (p @ [c])" and ?ks = "map snd iks" and ?K = "K \<union> snd ` set iks"
  let ?node = "if child node c = None then put_child c (LoadedNode new_TrieNode) node else node"
  have pre: "\<forall>k \<in> snd ` set iks. prefix (p @ [c]) k" using keys(4) by auto
  have sub': "sub ?K (p @ [c]) = ?M \<union> set ?ks"
    using pre by (auto simp: sub_Un sub_def)
  have keysK: "keys_ok p K" using keys(1) by (rule keys_ok_mono) simp
  obtain n node0 cs0 where load: "get_or_load_child E db p c ?node = (Ok n, node0)" "node_rep E ?g (p @ [c]) n ?M"
    and node0: "\<And>t. put_child c t node0 = set_children (batch_insert (c, t) cs0) node" "children_ok E ?g p K cs0"
  proof (cases "c \<in> chars p K")
    case True
    then have "child node c \<noteq> None" using children_ok_mem[OF ok] by (simp add: child_def)
    moreover obtain n cs where "get_or_load_child E db p c node = (Ok n, set_children cs node)"
      "reps E ?g (p @ [c]) n ?M" "children_ok E ?g p K cs"
      using get_or_load_child_ok[OF ok True keysK db] by blast
    moreover have "?M \<noteq> {}" using True by (simp add: chars_def)
    ultimately show ?thesis using that[of n "set_children cs node" cs] by (auto simp: node_rep_def put_child_def)
  next
    case False
    then have none: "child node c = None" using children_ok_mem[OF ok] by (simp add: child_def)
    have "?M = {}" using False by (simp add: chars_def)
    with none that[of new_TrieNode "put_child c (LoadedNode new_TrieNode) node" "tn_children node"] ok new_TrieNode_rep
    show ?thesis
      by (simp add: get_or_load_child_def child_def put_child_def map_of_batch_insert batch_insert_twice)
  qed
  have "keys_ok (p @ [c]) (?M \<union> set ?ks)"
    using keys_ok_sub[OF keys(1), of "p @ [c]"] by (simp only: sub')
  then have "?ks \<noteq> [] \<and> distinct ?ks \<and> keys_ok (p @ [c]) (?M \<union> set ?ks) \<and> node_rep E ?g (p @ [c]) n ?M \<and>
      ((\<forall>k \<in> set ?ks. length k \<le> L) \<or> TIMESTAMP_LENGTH \<le> length p \<and> n = new_TrieNode \<and> ?M = {} \<and> length ?ks = 1)"
    using keys(2-4) load(2) by auto
  from ins[unfolded inserts_below_def, rule_format, OF this]
  obtain n' txn' where n': "ins n ?ks txn = (Ok (map (\<lambda>k. k \<notin> ?M) ?ks), n', txn')"
    "reps E ?g (p @ [c]) n' (?M \<union> set ?ks)" "writes E (p @ [c]) ?M (?M \<union> set ?ks) txn txn'"
    by blast
  have beside: "sub ?K (p @ [c']) = sub K (p @ [c'])" if "c' \<noteq> c" for c'
    using sub_Un_beside[OF pre that] .
  have "children_ok E ?g p ?K (batch_insert (c, LoadedNode n') cs0)"
    by (rule children_ok_put[OF node0(2) beside])
      (use n'(2) keys(2) in \<open>auto simp: child_ok_def sub'\<close>)
  moreover have "child_writes E p K ?K txn txn'"
    by (rule child_writes_one[OF _ beside keysK keys_ok_hd[OF keys(1)]])
      (use n'(3) keys(2) in \<open>simp_all only: sub', auto\<close>)
  moreover have "map (\<lambda>k. k \<notin> ?M) ?ks = map (\<lambda>ik. snd ik \<notin> K) iks"
    using keys(4) by (auto simp: sub_def)
  ultimately show ?thesis
    using load(1) n'(1) node0(1) by auto
qed

text \<open>All groups.\<close>

lemma insert_groups_ok:
  assumes "inserts_below ins E db p L" "rdb_native_open db"
    and "children_ok E (db_get (rdb_disk db)) p K (tn_children node)"
    and "keys_ok p (K \<union> group_union gs)" "groups_ok p L (length R) gs"
  shows "\<exists>R' cs txn'.
     insert_groups ins E db p gs node R s txn =
       (Ok (R', s + card (group_union gs - K)), set_children cs node, txn') \<and>
     children_ok E (db_get (rdb_disk db)) p (K \<union> group_union gs) cs \<and>
     child_writes E p K (K \<union> group_union gs) txn txn' \<and> length R' = length R \<and>
     (\<forall>g \<in> set gs. \<forall>(j, k) \<in> set (snd g). R' ! j = (k \<notin> K)) \<and> (\<forall>j. j \<notin> group_indices gs \<longrightarrow> R' ! j = R ! j)"
  using assms(3-5)
proof (induction gs arbitrary: K node R s txn)
  case Nil
  then show ?case by (auto simp: group_union_def set_children_def intro!: exI[of _ "tn_children node"])
next
  case (Cons g gs)
  obtain c iks where g: "g = (c, iks)" by fastforce
  let ?G = "group_union (g # gs)" and ?K = "K \<union> snd ` set iks"
  have G: "?K \<union> group_union gs = K \<union> ?G" by (auto simp: g group_union_def)
  have ok: "iks \<noteq> []" "distinct (map fst iks)" "distinct (map snd iks)"
    "\<forall>(j, k) \<in> set iks. prefix (p @ [c]) k \<and> length k \<le> L \<and> j < length R"
    "c \<notin> fst ` set gs" "fst ` set iks \<inter> group_indices gs = {}" "groups_ok p L (length R) gs"
    using Cons.prems(3) by (simp_all add: g)
  have keys: "keys_ok p ?K" by (rule keys_ok_mono[OF Cons.prems(2)]) (auto simp: g group_union_def)
  have new: "(k \<notin> ?K) = (k \<notin> K)" if k: "k \<in> group_union gs" for k
  proof -
    obtain c' where "c' \<in> fst ` set gs" "prefix (p @ [c']) k" using groups_ok_elem[OF ok(7) k] by blast
    moreover from this ok(5) have "c' \<noteq> c" by auto
    ultimately have "k \<notin> snd ` set iks" using ok(4) by (auto simp: prefix_def)
    then show ?thesis by simp
  qed
  let ?R = "set_results (map fst iks) (map (\<lambda>ik. snd ik \<notin> K) iks) R"
  note R = set_results_at[OF ok(2), where P = "\<lambda>k. k \<notin> K" and R = R]
  have "\<forall>(j, k) \<in> set iks. prefix (p @ [c]) k \<and> length k \<le> L" using ok(4) by auto
  from insert_group_ok[OF assms(1,2) Cons.prems(1) keys ok(1,3) this, of txn]
  obtain node0 n n' txn1 cs where one:
    "get_or_load_child E db p c (if child node c = None then put_child c (LoadedNode new_TrieNode) node else node) = (Ok n, node0)"
    "ins n (map snd iks) txn = (Ok (map (\<lambda>ik. snd ik \<notin> K) iks), n', txn1)"
    "put_child c (LoadedNode n') node0 = set_children cs node"
    "children_ok E (db_get (rdb_disk db)) p ?K cs" "child_writes E p K ?K txn txn1"
    by blast
  have count: "length (filter id (take (length iks) (map (\<lambda>ik. snd ik \<notin> K) iks))) = card (snd ` set iks - K)"
  proof -
    have "map (\<lambda>ik. snd ik \<notin> K) iks = map (\<lambda>k. k \<in> - K) (map snd iks)" by simp
    then have "length (filter id (map (\<lambda>ik. snd ik \<notin> K) iks)) = card (set (map snd iks) \<inter> - K)"
      by (simp only: count_new[OF ok(3)])
    then show ?thesis by (simp add: Diff_eq)
  qed
  then have count': "length (filter (\<lambda>ik. snd ik \<notin> K) iks) = card (snd ` set iks - K)"
    by (simp add: filter_map o_def)
  have step: "insert_groups ins E db p (g # gs) node R s txn =
      insert_groups ins E db p gs (set_children cs node) ?R (s + card (snd ` set iks - K)) txn1"
    using one(1,2) by (simp add: g Let_def one(3) filter_map o_def count')
  have prems: "children_ok E (db_get (rdb_disk db)) p ?K (tn_children (set_children cs node))"
    "keys_ok p (?K \<union> group_union gs)" "groups_ok p L (length ?R) gs"
    using one(4) Cons.prems(2) ok(7) by (simp_all only: set_children_simps G R(1))
  from Cons.IH[OF prems, of "s + card (snd ` set iks - K)" txn1] obtain R' cs' txn' where rest:
    "insert_groups ins E db p gs (set_children cs node) ?R (s + card (snd ` set iks - K)) txn1 =
       (Ok (R', s + card (snd ` set iks - K) + card (group_union gs - ?K)), set_children cs' (set_children cs node), txn')"
    "children_ok E (db_get (rdb_disk db)) p (?K \<union> group_union gs) cs'"
    "child_writes E p ?K (?K \<union> group_union gs) txn1 txn'" "length R' = length ?R"
    "\<forall>g \<in> set gs. \<forall>(j, k) \<in> set (snd g). R' ! j = (k \<notin> ?K)" "\<forall>j. j \<notin> group_indices gs \<longrightarrow> R' ! j = ?R ! j"
    by blast
  have fin: "finite (group_union gs)" "finite (snd ` set iks)" by (auto simp: group_union_def)
  have "?G - K = (snd ` set iks - K) \<union> (group_union gs - ?K)" by (auto simp: g group_union_def)
  then have card: "card (?G - K) = card (snd ` set iks - K) + card (group_union gs - ?K)"
    using fin by (simp add: card_Un_disjoint[of "snd ` set iks - K" "group_union gs - ?K"] Int_def)
  have res: "\<forall>g' \<in> set (g # gs). \<forall>(j, k) \<in> set (snd g'). R' ! j = (k \<notin> K)"
  proof (intro ballI)
    fix g' e assume a: "g' \<in> set (g # gs)" "e \<in> set (snd g')"
    obtain j k where e: "e = (j, k)" by fastforce
    have "R' ! j = (k \<notin> K)"
    proof (cases "g' \<in> set gs")
      case True
      with rest(5) a(2) e have "R' ! j = (k \<notin> ?K)" by fastforce
      moreover have "k \<in> group_union gs" using True a(2) e by (force simp: group_union_def)
      ultimately show ?thesis using new by simp
    next
      case False
      with a g e have jk: "(j, k) \<in> set iks" by simp
      then have "j \<notin> group_indices gs" using ok(6) by force
      with rest(6) R(2)[OF jk] ok(4) jk show ?thesis by auto
    qed
    then show "case e of (j, k) \<Rightarrow> R' ! j = (k \<notin> K)" by (simp add: e)
  qed
  have other: "\<forall>j. j \<notin> group_indices (g # gs) \<longrightarrow> R' ! j = R ! j"
    using rest(6) R(3) by (simp add: group_indices_def g)
  show ?case
    unfolding step using rest(1-4) child_writes_trans[OF one(5) rest(3)] res other R(1) card
    by (intro exI[of _ R'] exI[of _ cs'] exI[of _ txn']) (simp add: G add.assoc)
qed

end
