(* ===== verification/TrieInsert.thy ===== *)
theory TrieInsert
  imports TrieSets
begin

text \<open>
  Inserting keys into a trie: the node afterwards represents the union, the results say which keys are new, and the
  batch holds the records that have changed.
\<close>

section \<open>Groups of keys\<close>

lemma group_keys_ok:
  assumes "distinct (map fst iks)" "distinct (map snd iks)"
    "\<forall>(j, k) \<in> set iks. prefix p k \<and> length p < length k \<and> length k \<le> L \<and> j < m"
  shows "groups_ok p L m (group_keys (length p) iks)"
    "group_union (group_keys (length p) iks) = snd ` set iks"
    "group_indices (group_keys (length p) iks) = fst ` set iks"
    "\<And>P. (\<forall>g \<in> set (group_keys (length p) iks). \<forall>e \<in> set (snd g). P e) \<longleftrightarrow> (\<forall>e \<in> set iks. P e)"
proof -
  let ?F = "\<lambda>c. filter (\<lambda>ik. snd ik ! length p = c) iks"
  have ix: "fst ` set (?F c) \<inter> fst ` set (?F c') = {}" if "c \<noteq> c'" for c c'
  proof (rule ccontr)
    assume "\<not> ?thesis"
    then obtain j where "j \<in> fst ` set (?F c)" "j \<in> fst ` set (?F c')" by blast
    then obtain e e' where "e \<in> set iks" "e' \<in> set iks" "fst e = fst e'" "snd e ! length p = c" "snd e' ! length p = c'"
      by (auto simp del: split_paired_Ex)
    with assms(1) that inj_onD[of fst "set iks" e e'] show False by (simp add: distinct_map)
  qed
  have "groups_ok p L m (map (\<lambda>c. (c, ?F c)) cs)" if "distinct cs" "set cs \<subseteq> (\<lambda>ik. snd ik ! length p) ` set iks" for cs
    using that
  proof (induction cs)
    case (Cons c cs)
    have "fst ` set (?F c) \<inter> group_indices (map (\<lambda>c. (c, ?F c)) cs) = {}"
    proof (rule ccontr)
      assume "\<not> ?thesis"
      then obtain j c' where "j \<in> fst ` set (?F c)" "c' \<in> set cs" "j \<in> fst ` set (?F c')"
        by (auto simp: group_indices_def)
      moreover from this(2) have "c \<noteq> c'" using Cons.prems(1) by auto
      ultimately show False using ix[of c c'] by blast
    qed
    moreover have "\<forall>(j, k) \<in> set (?F c). prefix (p @ [c]) k \<and> length k \<le> L \<and> j < m"
      using assms(3) by (auto simp: prefix_snoc_nth)
    moreover have "?F c \<noteq> []" using Cons.prems(2) by (auto simp: filter_empty_conv)
    moreover have "distinct (map fst (?F c))" "distinct (map snd (?F c))"
      using assms(1,2) by (simp_all add: distinct_map_filter)
    ultimately show ?case using Cons by auto
  qed simp
  then show "groups_ok p L m (group_keys (length p) iks)" by (simp add: group_keys_def)
  show "group_union (group_keys (length p) iks) = snd ` set iks"
    by (force simp: group_keys_def group_union_def)
  show "group_indices (group_keys (length p) iks) = fst ` set iks"
    by (force simp: group_keys_def group_indices_def)
  show "\<And>P. (\<forall>g \<in> set (group_keys (length p) iks). \<forall>e \<in> set (snd g). P e) \<longleftrightarrow> (\<forall>e \<in> set iks. P e)"
    by (auto simp: group_keys_def)
qed

section \<open>A node that is no leaf\<close>

lemma set_items_simps [simp]:
  "tn_children (set_items m n) = tn_children n" "tn_items (set_items m n) = m" "tn_key (set_items m n) = tn_key n"
  "tn_hash (set_items m n) = tn_hash n"
  by (simp_all add: set_items_def)

lemma chars_not_empty:
  assumes "keys_ok p K" "inner p K"
  shows "chars p K \<noteq> {}"
proof -
  have "k \<in> K \<Longrightarrow> prefix p k \<and> length p < length k" for k
    using longer_than_inner[OF assms(1)] keys_ok_prefix[OF assms(1)] assms(2) by (auto simp: inner_def)
  from sub_partition(3)[OF this] assms(2) show ?thesis by (auto simp: inner_def)
qed

lemma put_record: "overlay (put_to_txn E p n txn) g (trie_key p None) = Some (trie_serialize E n)"
  by (simp add: overlay_def put_to_txn_def map_of_batch_insert)

lemma put_beside: "q \<noteq> p \<Longrightarrow> overlay (put_to_txn E p n txn) g (trie_key q None) = overlay txn g (trie_key q None)"
  by (simp add: overlay_def put_to_txn_def map_of_batch_insert trie_key_inject)

lemma stored_put_child:
  assumes "stored E (overlay txn g) (p @ [c]) K"
  shows "stored E (overlay (put_to_txn E p n txn) g) (p @ [c]) K"
  unfolding stored_def
proof (intro allI impI, elim conjE)
  fix q assume q: "prefix (p @ [c]) q" "q = p @ [c] \<or> inner (butlast q) (sub K (butlast q))" "sub K q \<noteq> {}"
  then have "record_ok E (overlay txn g) q (sub K q)" using assms by (simp add: stored_def)
  moreover have "q \<noteq> p" using q(1) by (auto simp: prefix_def)
  ultimately show "record_ok E (overlay (put_to_txn E p n txn) g) q (sub K q)" by (simp add: record_ok_def put_beside)
qed

text \<open>Hashing a node over the children of a set and writing its record.\<close>

lemma hash_and_put_ok:
  assumes "coder_ok E" "rdb_native_open db" "keys_ok p K" "inner p K"
    "children_ok E (db_get (rdb_disk db)) p K (tn_children node)" "tn_items node = card K"
    "tn_key node = None \<or> tn_key node = Some []"
  shows "\<exists>n'. hash_and_put E db p node txn = (Ok (), n', put_to_txn E p n' txn) \<and>
     reps E (db_get (rdb_disk db)) p n' K \<and>
     (\<forall>g. (\<forall>c. stored E (overlay txn g) (p @ [c]) (sub K (p @ [c]))) \<longrightarrow> stored E (overlay (put_to_txn E p n' txn) g) p K)"
proof -
  have "tn_children node \<noteq> []"
    using chars_not_empty[OF assms(3,4)] assms(5) by (auto simp: children_ok_def)
  from update_hash_ok[OF assms(5,3,2) this] obtain cs where
    cs: "update_hash E db p node = (Ok (), TrieNode (key_hash E p K) (card K) cs (tn_key node))"
    "children_ok E (db_get (rdb_disk db)) p K cs"
    by (auto simp: children_hash_def key_hash_inner[OF assms(3,4)] assms(6))
  let ?n = "TrieNode (key_hash E p K) (card K) cs (tn_key node)"
  have reps: "reps E (db_get (rdb_disk db)) p ?n K"
    using reps_inner_iff[of E _ p _ _ cs "tn_key node" K] assms(4,7) cs(2) by blast
  moreover have "stored E (overlay (put_to_txn E p ?n txn) g) p K"
    if "\<forall>c. stored E (overlay txn g) (p @ [c]) (sub K (p @ [c]))" for g
    using that by (intro stored_inner[OF _ stored_put_child assms(3)] serialize_record[OF assms(1,3) reps] put_record) blast
  ultimately show ?thesis using cs(1) by (intro exI[of _ ?n]) (simp add: hash_and_put_def)
qed

lemma unchanged_writes:
  assumes "child_writes E p K K txn txn'" "inner p K" "keys_ok p K"
  shows "writes E p K K txn txn'"
  unfolding writes_def
proof (intro conjI allI impI)
  show "only_below p txn txn'" using assms(1) by (simp add: child_writes_def strictly_below_def)
  fix g assume s: "stored E (overlay txn g) p K"
  show "stored E (overlay txn' g) p K"
  proof (rule stored_inner[OF _ _ assms(3)])
    show "stored E (overlay txn' g) (p @ [c]) (sub K (p @ [c]))" for c
      using assms(1) stored_child[OF s assms(2,3)] by (simp add: child_writes_def)
    have "record_ok E (overlay txn g) p K" using stored_record[OF s _ assms(3)] assms(2) by (simp add: inner_def)
    then show "record_ok E (overlay txn' g) p K"
      using assms(1) by (simp add: record_ok_def child_writes_def strictly_below_def overlay_def)
  qed
qed

lemma insert_rest_ok:
  assumes ins: "inserts_below ins E db p L" and E: "coder_ok E" and db: "rdb_native_open db"
    and node: "children_ok E (db_get (rdb_disk db)) p K (tn_children node)" "tn_items node = card K"
      "tn_key node = None \<or> tn_key node = Some []" "inner p K \<longrightarrow> tn_hash node = key_hash E p K"
    and keys: "keys_ok p K'" "inner p K'" "K' = K \<union> snd ` set iks"
    and iks: "distinct (map fst iks)" "distinct (map snd iks)" "\<forall>(j, k) \<in> set iks. length k \<le> L \<and> j < length R"
  shows "\<exists>R' n' txn'. insert_rest ins E db p (length p) iks node R txn = (Ok R', n', txn') \<and>
     reps E (db_get (rdb_disk db)) p n' K' \<and> only_below p txn txn' \<and>
     (\<forall>g. (\<forall>c. stored E (overlay txn g) (p @ [c]) (sub K (p @ [c]))) \<and> (K' = K \<longrightarrow> stored E (overlay txn g) p K) \<longrightarrow>
          stored E (overlay txn' g) p K') \<and>
     length R' = length R \<and> (\<forall>(j, k) \<in> set iks. R' ! j = (k \<notin> K)) \<and> (\<forall>j. j \<notin> fst ` set iks \<longrightarrow> R' ! j = R ! j)"
proof -
  have long: "prefix p k \<and> length p < length k" if "k \<in> K'" for k
    using longer_than_inner[OF keys(1) _ that] keys_ok_prefix[OF keys(1) that] keys(2) by (auto simp: inner_def)
  then have "\<forall>(j, k) \<in> set iks. prefix p k \<and> length p < length k \<and> length k \<le> L \<and> j < length R"
    using iks(3) keys(3) by force
  note gr = group_keys_ok[OF iks(1,2) this]
  let ?gs = "group_keys (length p) iks"
  have K': "K \<union> group_union ?gs = K'" by (simp add: gr(2) keys(3))
  have keys': "keys_ok p (K \<union> group_union ?gs)" using keys(1) by (simp only: K')
  obtain R' cs txn1 where loop:
    "insert_groups ins E db p ?gs node R 0 txn = (Ok (R', card (K' - K)), set_children cs node, txn1)"
    "children_ok E (db_get (rdb_disk db)) p K' cs" "child_writes E p K K' txn txn1" "length R' = length R"
    "\<forall>(j, k) \<in> set iks. R' ! j = (k \<notin> K)" "\<forall>j. j \<notin> fst ` set iks \<longrightarrow> R' ! j = R ! j"
  proof -
    have "group_union ?gs - K = K' - K" by (auto simp: gr(2) keys(3))
    then show ?thesis
      using insert_groups_ok[OF ins db node(1) keys' gr(1), of 0 txn] that
      by (auto simp: K' gr(3,4))
  qed
  have short: "\<not> (\<exists>ik \<in> set iks. length (snd ik) \<le> length p)"
  proof
    assume "\<exists>ik \<in> set iks. length (snd ik) \<le> length p"
    then obtain ik where "ik \<in> set iks" "length (snd ik) \<le> length p" by blast
    then show False using long[of "snd ik"] by (simp add: keys(3))
  qed
  have fin: "finite K" "finite K'" using keys(1,3) by (simp_all add: keys_ok_def)
  show ?thesis
  proof (cases "K' = K")
    case True
    then have "insert_rest ins E db p (length p) iks node R txn = (Ok R', set_children cs node, txn1)"
      using loop(1) by (simp add: insert_rest_def short del: not_ex)
    moreover have "reps E (db_get (rdb_disk db)) p (set_children cs node) K'"
      using reps_inner_iff[of E _ p _ _ cs "tn_key node" K] keys(2) node(2-4) loop(2) True
      by (simp add: set_children_def)
    moreover have "writes E p K K' txn txn1"
      using unchanged_writes[of E p K txn txn1] loop(3) keys(1,2) True by simp
    ultimately show ?thesis
      using loop(4-6) True by (auto simp: writes_def)
  next
    case False
    then have new: "K' - K \<noteq> {}" using keys(3) by auto
    then have pos: "card (K' - K) > 0" using fin by (simp add: card_gt_0_iff)
    let ?node = "set_items (card K + card (K' - K)) (set_children cs node)"
    have items: "card K + card (K' - K) = card K'"
      using card_Diff_subset[of K K'] card_mono[of K' K] fin keys(3) by simp
    obtain n' where n': "hash_and_put E db p ?node txn1 = (Ok (), n', put_to_txn E p n' txn1)"
      "reps E (db_get (rdb_disk db)) p n' K'"
      "\<forall>g. (\<forall>c. stored E (overlay txn1 g) (p @ [c]) (sub K' (p @ [c]))) \<longrightarrow> stored E (overlay (put_to_txn E p n' txn1) g) p K'"
      using hash_and_put_ok[OF E db keys(1,2), of ?node txn1] loop(2) node(3) items by auto
    have "insert_rest ins E db p (length p) iks node R txn = (Ok R', n', put_to_txn E p n' txn1)"
      using loop(1) n'(1) pos node(2) by (simp add: insert_rest_def short)
    moreover have "only_below p txn (put_to_txn E p n' txn1)"
      using loop(3) only_below_trans[OF _ only_below_put] by (simp add: child_writes_def strictly_below_def)
    moreover have "\<forall>g. (\<forall>c. stored E (overlay txn g) (p @ [c]) (sub K (p @ [c]))) \<longrightarrow>
        stored E (overlay (put_to_txn E p n' txn1) g) p K'"
      using n'(3) loop(3) by (simp add: child_writes_def)
    ultimately show ?thesis using n'(2) loop(4-6) by blast
  qed
qed

section \<open>A leaf\<close>

lemma chars_single:
  assumes "prefix p k" "length p < length k"
  shows "chars p {k} = {k ! length p}" "sub {k} (p @ [c]) = (if c = k ! length p then {k} else {})"
  using prefix_snoc_nth[OF assms] by (auto simp: chars_def sub_def)

lemma split_leaf_ok:
  assumes ins: "inserts_below ins E db p L" and E: "coder_ok E" and db: "rdb_native_open db"
    and k: "keys_ok p {k}" "length p < length k" "TIMESTAMP_LENGTH \<le> length p"
  shows "\<exists>n' txn'. split_leaf_node ins E db (length p) (TrieNode h 1 [] (Some k)) txn = (Ok (), n', txn') \<and>
     children_ok E (db_get (rdb_disk db)) p {k} (tn_children n') \<and> tn_items n' = 1 \<and> tn_key n' = None \<and>
     only_below p txn txn' \<and> (\<forall>g c. stored E (overlay txn' g) (p @ [c]) (sub {k} (p @ [c])))"
proof -
  let ?c = "k ! length p" and ?g = "db_get (rdb_disk db)"
  have p: "prefix p k" using k(1) by (simp add: keys_ok_def)
  note single = chars_single[OF p k(2)]
  have "keys_ok (p @ [?c]) {k}" using keys_ok_sub[OF k(1), of "p @ [?c]"] by (simp add: single)
  then have "[k] \<noteq> [] \<and> distinct [k] \<and> keys_ok (p @ [?c]) ({} \<union> set [k]) \<and> node_rep E ?g (p @ [?c]) new_TrieNode {} \<and>
      ((\<forall>x \<in> set [k]. length x \<le> L) \<or> TIMESTAMP_LENGTH \<le> length p \<and> new_TrieNode = new_TrieNode \<and> ({} :: bytes set) = {} \<and> length [k] = 1)"
    using k(3) new_TrieNode_rep by simp
  from ins[unfolded inserts_below_def, rule_format, OF this, of txn] obtain n txn1 where
    n: "ins new_TrieNode [k] txn = (Ok [True], n, txn1)" "reps E ?g (p @ [?c]) n {k}" "writes E (p @ [?c]) {} {k} txn txn1"
    by auto
  let ?node = "TrieNode h 1 [(?c, LoadedNode n)] None"
  have ok: "children_ok E ?g p {k} (tn_children ?node)"
    using n(2) by (simp add: children_ok_def single child_ok_def)
  from update_hash_ok[OF ok k(1) db] obtain n' where
    n': "update_hash E db p ?node = (Ok (), n')" "children_ok E ?g p {k} (tn_children n')" "tn_items n' = 1" "tn_key n' = None"
    by auto
  have "take (length p) k = p" using p by (auto simp: prefix_def)
  with n(1) n'(1) k(2) have "split_leaf_node ins E db (length p) (TrieNode h 1 [] (Some k)) txn = (Ok (), n', put_to_txn E p n' txn1)"
    by (simp add: split_leaf_node_def set_node_key_def put_child_def set_children_def hash_and_put_def Let_def)
  moreover have "only_below p txn (put_to_txn E p n' txn1)"
    using n(3) only_below_up only_below_put only_below_trans by (metis writes_def)
  moreover have "stored E (overlay (put_to_txn E p n' txn1) g) (p @ [c]) (sub {k} (p @ [c]))" for g c
    using n(3) by (intro stored_put_child) (simp add: single writes_def)
  ultimately show ?thesis using n'(2-4) by blast
qed

text \<open>A leaf that makes room for other keys.\<close>

lemma insert_below_leaf:
  assumes ins: "inserts_below ins E db p L" and E: "coder_ok E" and db: "rdb_native_open db"
    and deep: "TIMESTAMP_LENGTH \<le> length p"
    and keys: "keys_ok p K'" "K' = insert k (snd ` set iks)" "k \<notin> snd ` set iks" "iks \<noteq> []" "\<forall>x \<in> snd ` set iks. length x \<le> L"
    and iks: "distinct (map fst iks)" "distinct (map snd iks)" "\<forall>(j, k) \<in> set iks. j < length R"
  shows "\<exists>node1 txn1 R' n' txn'. split_leaf_node ins E db (length p) (TrieNode h 1 [] (Some k)) txn = (Ok (), node1, txn1) \<and>
     insert_rest ins E db p (length p) iks node1 R txn1 = (Ok R', n', txn') \<and>
     reps E (db_get (rdb_disk db)) p n' K' \<and> only_below p txn txn' \<and> (\<forall>g. stored E (overlay txn' g) p K') \<and>
     length R' = length R \<and> (\<forall>(j, k) \<in> set iks. R' ! j) \<and> (\<forall>j. j \<notin> fst ` set iks \<longrightarrow> R' ! j = R ! j)"
proof -
  have "\<exists>x. x \<in> snd ` set iks" using keys(4) by (cases iks) auto
  then obtain x where "x \<in> snd ` set iks" by blast
  moreover from this have "k \<noteq> x" using keys(3) by auto
  ultimately have "{k, x} \<subseteq> K'" "card {k, x} = 2" using keys(2) by simp_all
  then have two: "2 \<le> card K'" using card_mono[of K' "{k, x}"] keys(1) by (simp add: keys_ok_def)
  have k: "keys_ok p {k}" using keys_ok_mono[OF keys(1)] keys(2) by simp
  have long: "length p < length k" using longer_than_inner[OF keys(1)] two keys(2) by simp
  from split_leaf_ok[OF ins E db k long deep, of h txn] obtain node1 txn1 where
    one: "split_leaf_node ins E db (length p) (TrieNode h 1 [] (Some k)) txn = (Ok (), node1, txn1)"
    "children_ok E (db_get (rdb_disk db)) p {k} (tn_children node1)" "tn_items node1 = card {k}"
    "tn_key node1 = None \<or> tn_key node1 = Some []"
    "only_below p txn txn1" "\<forall>g c. stored E (overlay txn1 g) (p @ [c]) (sub {k} (p @ [c]))"
    by auto
  have neq: "K' \<noteq> {k}" using two by auto
  have inner: "inner p K'" "inner p {k} \<longrightarrow> tn_hash node1 = key_hash E p {k}"
    using two deep keys(2) by (auto simp: inner_def)
  have "K' = {k} \<union> snd ` set iks" "\<forall>(j, k) \<in> set iks. length k \<le> L \<and> j < length R"
    using keys(2,5) iks(3) by auto
  from insert_rest_ok[OF ins E db one(2-4) inner(2) keys(1) inner(1) this(1) iks(1,2) this(2), of txn1]
  obtain R' n' txn' where rest: "insert_rest ins E db p (length p) iks node1 R txn1 = (Ok R', n', txn')"
    "reps E (db_get (rdb_disk db)) p n' K'" "only_below p txn1 txn'"
    "\<forall>g. (\<forall>c. stored E (overlay txn1 g) (p @ [c]) (sub {k} (p @ [c]))) \<and> (K' = {k} \<longrightarrow> stored E (overlay txn1 g) p {k}) \<longrightarrow>
          stored E (overlay txn' g) p K'"
    "length R' = length R" "\<forall>(j, x) \<in> set iks. R' ! j = (x \<notin> {k})" "\<forall>j. j \<notin> fst ` set iks \<longrightarrow> R' ! j = R ! j"
    by blast
  have "\<forall>(j, x) \<in> set iks. R' ! j" using rest(6) keys(3) by (force simp: image_iff)
  moreover have "\<forall>g. stored E (overlay txn' g) p K'" using rest(4) one(6) neq by simp
  ultimately show ?thesis using one(1) rest(1,2,5,7) only_below_trans[OF one(5) rest(3)] by blast
qed

section \<open>The trie\<close>

lemma enumerate_up: "map (\<lambda>ik. (fst ik + 1, snd ik)) (enumerate n xs) = enumerate (Suc n) xs"
  by (induction xs arbitrary: n) simp_all

lemma clear_false: "fold (\<lambda>ik results. results[fst ik := False]) xs (replicate m False) = replicate m False"
  by (induction xs) (simp_all add: list_update_same_conv flip: replicate_append_same, metis list_update_id nth_replicate list_update_beyond length_replicate not_le)

definition inserts :: "trie_coder \<Rightarrow> rocksdb \<Rightarrow> bytes \<Rightarrow> bytes set \<Rightarrow> bytes list \<Rightarrow> trie_batch \<Rightarrow> trie_result \<Rightarrow> bool" where
  "inserts E db p K ks txn r \<longleftrightarrow>
     (\<exists>n' txn'. r = (Ok (map (\<lambda>k. k \<notin> K) ks), n', txn') \<and> reps E (db_get (rdb_disk db)) p n' (K \<union> set ks) \<and>
        writes E p K (K \<union> set ks) txn txn')"

lemma stored_leaf:
  assumes "TIMESTAMP_LENGTH \<le> length p" "record_ok E g p {k}" "prefix p k"
  shows "stored E g p {k}"
  unfolding stored_def
proof (intro allI impI, elim conjE)
  fix q assume q: "prefix p q" "q = p \<or> inner (butlast q) (sub {k} (butlast q))" "sub {k} q \<noteq> {}"
  have "card (sub {k} (butlast q)) \<le> card {k}" by (rule card_mono[OF _ sub_subset]) simp
  then have "inner (butlast q) (sub {k} (butlast q)) \<Longrightarrow> length q \<le> TIMESTAMP_LENGTH" by (auto simp: inner_def)
  moreover have "q \<noteq> p \<Longrightarrow> length p < length q" using q(1) by (auto simp: prefix_def)
  ultimately have "q = p" using q(2) assms(1) by linarith
  moreover have "sub {k} p = {k}" using assms(3) by (auto simp: sub_def)
  ultimately show "record_ok E g q (sub {k} q)" using assms(2) by simp
qed

lemma insert_alone:
  assumes E: "coder_ok E" and deep: "TIMESTAMP_LENGTH \<le> length p" and k: "keys_ok p {k}" and n: "n = TrieNode h 0 [] None"
  shows "inserts E db p {} [k] txn (trie_insert (Suc d) E db n [k] (length p) txn)"
proof -
  let ?n = "TrieNode (trie_blake3 E k) 1 [] (Some k)" and ?g = "db_get (rdb_disk db)"
  have leaf: "reps E ?g p ?n {k}" using reps.leaf[OF deep] .
  have pre: "take (length p) k = p" using k by (auto simp: keys_ok_def prefix_def)
  have "stored E (overlay (put_to_txn E p ?n txn) g) p {k}" for g
    by (rule stored_leaf[OF deep serialize_record[OF E k leaf]]) (use k in \<open>simp_all add: keys_ok_def put_record\<close>)
  moreover have "trie_insert (Suc d) E db n [k] (length p) txn = (Ok [True], ?n, put_to_txn E p ?n txn)"
    using pre deep
    by (simp add: Let_def n is_leaf_def key_or_empty_def update_hash_def set_items_def set_node_key_def set_hash_def)
  ultimately show ?thesis using leaf by (auto simp: inserts_def writes_def only_below_put)
qed

text \<open>A node without keys takes the last of them, deep enough, as its own.\<close>

lemma insert_fresh_leaf:
  assumes ins: "inserts_below (\<lambda>n ks. trie_insert d E db n ks (Suc (length p))) E db p L"
    and E: "coder_ok E" and db: "rdb_native_open db" and deep: "TIMESTAMP_LENGTH \<le> length p"
    and keys: "ks \<noteq> []" "distinct ks" "keys_ok p (set ks)" "\<forall>k \<in> set ks. length k \<le> L"
    and node: "empty_rep p n"
  shows "inserts E db p {} ks txn (trie_insert (Suc d) E db n ks (length p) txn)"
proof -
  obtain B k where ks: "ks = B @ [k]" using keys(1) by (metis rev_exhaust)
  obtain h where n: "n = TrieNode h 0 [] None" using node deep by (cases n) (auto simp: empty_rep_def)
  let ?n1 = "TrieNode (trie_blake3 E k) 1 [] (Some k)" and ?g = "db_get (rdb_disk db)"
  let ?R = "True # replicate (length B) False" and ?txn = "put_to_txn E p ?n1 txn"
  have pre: "take (length p) (hd ks) = p" using keys(1,3) by (cases ks) (auto simp: keys_ok_def prefix_def)
  have "k \<notin> set B" using keys(2) by (simp add: ks)
  then have rest: "filter (\<lambda>ik. snd ik = k) (enumerate 0 B) = []"
    "filter (\<lambda>ik. snd ik \<noteq> k) (enumerate 0 B) = enumerate 0 B"
    by (auto simp: filter_empty_conv filter_id_conv in_set_enumerate_eq)
  have leaf: "reps E ?g p ?n1 {k}" using reps.leaf[OF deep] .
  have k: "keys_ok p {k}" using keys_ok_mono[OF keys(3)] by (simp add: ks)
  have upd: "snd (update_hash E db p (set_items 1 (set_node_key (Some k) n))) = ?n1"
    by (simp add: n update_hash_def is_leaf_def set_items_def set_node_key_def set_hash_def key_or_empty_def)
  have none: "enumerate 0 B = [] \<longleftrightarrow> B = []" using length_enumerate[of 0 B] by (cases B) auto
  show ?thesis
  proof (cases "B = []")
    case True
    then show ?thesis using insert_alone[OF E deep k n] by (simp add: ks)
  next
    case False
    have step: "trie_insert (Suc d) E db n ks (length p) txn =
      (case split_leaf_node (\<lambda>n ks. trie_insert d E db n ks (Suc (length p))) E db (length p) ?n1 ?txn of
              (Ok _, node, txn) \<Rightarrow>
                insert_rest (\<lambda>n ks. trie_insert d E db n ks (Suc (length p))) E db p (length p) (enumerate 1 B) node ?R txn
            | (Err e, node, txn) \<Rightarrow> (Err e, node, txn)
            | (Throw t, node, txn) \<Rightarrow> (Throw t, node, txn))"
      using pre deep upd rest enumerate_up[of 0 B] none False
      by (simp add: Let_def n is_leaf_def ks key_or_empty_def cong: prod.case_cong outcome.case_cong)
    have B: "set ks = insert k (snd ` set (enumerate 1 B))" "k \<notin> snd ` set (enumerate 1 B)" "enumerate 1 B \<noteq> []"
      "distinct (map fst (enumerate 1 B))" "distinct (map snd (enumerate 1 B))" "\<forall>(j, k) \<in> set (enumerate 1 B). j < length ?R"
      "\<forall>x \<in> snd ` set (enumerate 1 B). length x \<le> L"
      using none False \<open>k \<notin> set B\<close> keys(2,4) list.set_map[of snd "enumerate 1 B"] length_enumerate[of 1 B]
      by (auto simp: ks in_set_enumerate_eq simp del: list.set_map)
    from insert_below_leaf[OF ins E db deep keys(3) B(1-3,7,4-6), of "trie_blake3 E k" ?txn]
    obtain node1 txn1 R' n' txn' where r:
      "split_leaf_node (\<lambda>n ks. trie_insert d E db n ks (Suc (length p))) E db (length p) ?n1 ?txn = (Ok (), node1, txn1)"
      "insert_rest (\<lambda>n ks. trie_insert d E db n ks (Suc (length p))) E db p (length p) (enumerate 1 B) node1 ?R txn1 = (Ok R', n', txn')"
      "reps E ?g p n' (set ks)" "only_below p ?txn txn'" "\<forall>g. stored E (overlay txn' g) p (set ks)"
      "length R' = length ?R" "\<forall>(j, k) \<in> set (enumerate 1 B). R' ! j" "\<forall>j. j \<notin> fst ` set (enumerate 1 B) \<longrightarrow> R' ! j = ?R ! j"
      by blast
    have "R' = map (\<lambda>k. k \<notin> {}) ks"
    proof (rule nth_equalityI)
      show "length R' = length (map (\<lambda>k. k \<notin> {}) ks)" using r(6) by (simp add: ks)
      fix j assume "j < length R'"
      then have j: "j < length ks" using r(6) by (simp add: ks)
      have "R' ! j"
      proof (cases "j = 0")
        case True
        then show ?thesis using r(8)[rule_format, of 0] by (force simp: in_set_enumerate_eq)
      next
        case False
        then have "(j, B ! (j - 1)) \<in> set (enumerate 1 B)" using j by (auto simp: in_set_enumerate_eq ks)
        with r(7) show ?thesis by blast
      qed
      with j show "R' ! j = map (\<lambda>k. k \<notin> {}) ks ! j" by simp
    qed
    then show ?thesis using step r(1-5) only_below_trans[OF only_below_put r(4)] by (simp add: inserts_def writes_def)
  qed
qed

lemma insert_full_leaf:
  assumes ins: "inserts_below (\<lambda>n ks. trie_insert d E db n ks (Suc (length p))) E db p L"
    and E: "coder_ok E" and db: "rdb_native_open db" and deep: "TIMESTAMP_LENGTH \<le> length p"
    and keys: "ks \<noteq> []" "distinct ks" "keys_ok p (insert k (set ks))" "\<forall>k \<in> set ks. length k \<le> L"
  shows "inserts E db p {k} ks txn (trie_insert (Suc d) E db (TrieNode (trie_blake3 E k) 1 [] (Some k)) ks (length p) txn)"
proof -
  let ?n = "TrieNode (trie_blake3 E k) 1 [] (Some k)" and ?g = "db_get (rdb_disk db)"
  let ?R = "replicate (length ks) False" and ?iks = "filter (\<lambda>ik. snd ik \<noteq> k) (enumerate 0 ks)"
  have pre: "take (length p) (hd ks) = p" using keys(1,3) by (cases ks) (auto simp: keys_ok_def prefix_def)
  have same: "map (\<lambda>ik. (fst ik, snd ik)) ?iks = ?iks" by simp
  have mem: "(j, x) \<in> set ?iks \<longleftrightarrow> j < length ks \<and> ks ! j = x \<and> x \<noteq> k" for j x
    by (auto simp: in_set_enumerate_eq)
  have all: "snd ` set ?iks = set ks - {k}"
  proof -
    have "snd ` set (filter (\<lambda>ik. snd ik \<noteq> k) xs) = set (map snd xs) - {k}" for xs :: "(nat \<times> bytes) list" by auto
    from this[of "enumerate 0 ks"] show ?thesis by simp
  qed
  show ?thesis
  proof (cases "?iks = []")
    case True
    then have "set ks \<subseteq> {k}" using all by auto
    then have "ks = [k]" using keys(1,2) by (cases ks; cases "tl ks") auto
    moreover have "trie_insert (Suc d) E db ?n [k] (length p) txn = (Ok [False], ?n, txn)"
      using pre deep by (simp add: Let_def is_leaf_def key_or_empty_def calculation)
    ultimately show ?thesis using reps.leaf[OF deep] by (auto simp: inserts_def writes_def)
  next
    case False
    have step: "trie_insert (Suc d) E db ?n ks (length p) txn =
      (case split_leaf_node (\<lambda>n ks. trie_insert d E db n ks (Suc (length p))) E db (length p) ?n txn of
              (Ok _, node, txn) \<Rightarrow>
                insert_rest (\<lambda>n ks. trie_insert d E db n ks (Suc (length p))) E db p (length p) ?iks node ?R txn
            | (Err e, node, txn) \<Rightarrow> (Err e, node, txn)
            | (Throw t, node, txn) \<Rightarrow> (Throw t, node, txn))"
      using pre deep keys(1) False
      by (simp add: clear_false Let_def is_leaf_def key_or_empty_def cong: prod.case_cong outcome.case_cong)
    have iks: "insert k (set ks) = insert k (snd ` set ?iks)" "k \<notin> snd ` set ?iks"
      "\<forall>x \<in> snd ` set ?iks. length x \<le> L" "distinct (map fst ?iks)" "distinct (map snd ?iks)"
      "\<forall>(j, k) \<in> set ?iks. j < length ?R"
      using keys(2,4) mem unfolding all by (auto simp: distinct_map_filter)
    from insert_below_leaf[OF ins E db deep keys(3) iks(1,2) False iks(3-6), of "trie_blake3 E k" txn]
    obtain node1 txn1 R' n' txn' where r:
      "split_leaf_node (\<lambda>n ks. trie_insert d E db n ks (Suc (length p))) E db (length p) ?n txn = (Ok (), node1, txn1)"
      "insert_rest (\<lambda>n ks. trie_insert d E db n ks (Suc (length p))) E db p (length p) ?iks node1 ?R txn1 = (Ok R', n', txn')"
      "reps E ?g p n' (insert k (set ks))" "only_below p txn txn'" "\<forall>g. stored E (overlay txn' g) p (insert k (set ks))"
      "length R' = length ?R" "\<forall>(j, k) \<in> set ?iks. R' ! j" "\<forall>j. j \<notin> fst ` set ?iks \<longrightarrow> R' ! j = ?R ! j"
      by blast
    have "R' = map (\<lambda>x. x \<notin> {k}) ks"
    proof (rule nth_equalityI)
      show "length R' = length (map (\<lambda>x. x \<notin> {k}) ks)" using r(6) by simp
      fix j assume "j < length R'"
      then have j: "j < length ks" using r(6) by simp
      have "R' ! j = (ks ! j \<noteq> k)"
      proof (cases "ks ! j = k")
        case True
        then have "j \<notin> fst ` set ?iks" by (auto simp: in_set_enumerate_eq)
        with r(8) j True show ?thesis by simp
      next
        case False
        with r(7) j mem show ?thesis by fastforce
      qed
      with j show "R' ! j = map (\<lambda>x. x \<notin> {k}) ks ! j" by simp
    qed
    then show ?thesis using step r(1-5) by (auto simp: inserts_def writes_def)
  qed
qed

text \<open>Inserting different keys makes the node one of the union, and says which of them are new.\<close>

theorem trie_insert_union:
  assumes "coder_ok E" "rdb_native_open db"
  shows "\<lbrakk>L + 2 \<le> d + length p; ks \<noteq> []; distinct ks; keys_ok p (K \<union> set ks); node_rep E (db_get (rdb_disk db)) p n K;
      \<forall>k \<in> set ks. length k \<le> L\<rbrakk> \<Longrightarrow> inserts E db p K ks txn (trie_insert d E db n ks (length p) txn)"
proof (induction d arbitrary: p n K ks txn)
  case 0
  have "hd ks \<in> set ks" using 0 by simp
  then have "prefix p (hd ks)" "length (hd ks) \<le> L" using 0 keys_ok_prefix by blast+
  with 0(1) show ?case using prefix_length_le[of p "hd ks"] by linarith
next
  case (Suc d)
  let ?g = "db_get (rdb_disk db)" and ?K = "K \<union> set ks" and ?ins = "\<lambda>n ks. trie_insert d E db n ks (Suc (length p))"
  have hd: "hd ks \<in> ?K" "length (hd ks) \<le> L" using Suc.prems(2,6) by auto
  then have "length p \<le> L" using keys_ok_prefix[OF Suc.prems(4)] prefix_length_le[of p "hd ks"] by auto
  then obtain d' where d: "d = Suc d'" using Suc.prems(1) by (cases d) auto
  have ins: "inserts_below ?ins E db p L"
    unfolding inserts_below_def
  proof (intro allI impI, elim conjE disjE)
    fix c n M ks txn
    assume a: "ks \<noteq> []" "distinct ks" "keys_ok (p @ [c]) (M \<union> set ks)" "node_rep E ?g (p @ [c]) n M"
    show "\<exists>n' txn'. ?ins n ks txn = (Ok (map (\<lambda>k. k \<notin> M) ks), n', txn') \<and>
        reps E ?g (p @ [c]) n' (M \<union> set ks) \<and> writes E (p @ [c]) M (M \<union> set ks) txn txn'"
      if "\<forall>k \<in> set ks. length k \<le> L"
      using Suc.IH[OF _ a that] Suc.prems(1) by (simp add: inserts_def)
    show "\<exists>n' txn'. ?ins n ks txn = (Ok (map (\<lambda>k. k \<notin> M) ks), n', txn') \<and>
        reps E ?g (p @ [c]) n' (M \<union> set ks) \<and> writes E (p @ [c]) M (M \<union> set ks) txn txn'"
      if s: "TIMESTAMP_LENGTH \<le> length p" "n = new_TrieNode" "M = {}" "length ks = 1"
    proof -
      obtain k where "ks = [k]" using s(4) by (cases ks) auto
      with insert_alone[OF assms(1), of "p @ [c]" k n "[]" db txn d'] a(3) s show ?thesis
        by (simp add: inserts_def d new_TrieNode_def)
    qed
  qed
  consider (fresh) "TIMESTAMP_LENGTH \<le> length p" "K = {}"
    | (full) k where "TIMESTAMP_LENGTH \<le> length p" "K = {k}" "n = TrieNode (trie_blake3 E k) 1 [] (Some k)"
    | (rest) "\<not> (TIMESTAMP_LENGTH \<le> length p \<and> is_leaf n)" "inner p ?K" "children_ok E ?g p K (tn_children n)"
        "tn_items n = card K" "tn_key n = None \<or> tn_key n = Some []" "inner p K \<longrightarrow> tn_hash n = key_hash E p K"
        "K = {} \<or> inner p K"
  proof (cases "K = {}")
    case True
    then have n: "empty_rep p n" "?K \<noteq> {}" using Suc.prems(2,5) by (simp_all add: node_rep_def)
    show ?thesis
    proof (cases "TIMESTAMP_LENGTH \<le> length p")
      case False
      with n True that(3) show ?thesis by (auto simp: empty_rep_def children_ok_def inner_def)
    qed (use True that(1) in simp)
  next
    case False
    then have reps: "reps E ?g p n K" and keys: "keys_ok p K"
      using Suc.prems(5) keys_ok_mono[OF Suc.prems(4)] by (simp_all add: node_rep_def)
    from reps keys show ?thesis
    proof (cases rule: reps_cases)
      case (leaf k)
      then show ?thesis using that(2) by blast
    next
      case (inner cs ko)
      have "card K \<le> card ?K" using Suc.prems(4) by (intro card_mono) (auto simp: keys_ok_def)
      then have "inner p ?K" using inner(1) by (auto simp: inner_def)
      moreover have "\<not> is_leaf n"
        using inner(2,4) chars_not_empty[OF keys inner(1)] by (auto simp: is_leaf_def children_ok_def)
      ultimately show ?thesis using that(3) inner by simp
    qed
  qed
  then show ?case
  proof cases
    case fresh
    with insert_fresh_leaf[OF ins assms fresh(1) Suc.prems(2,3)] Suc.prems(4-6) show ?thesis by (simp add: node_rep_def)
  next
    case full
    with insert_full_leaf[OF ins assms full(1) Suc.prems(2,3), of k] Suc.prems(4-6) show ?thesis by simp
  next
    case rest
    let ?iks = "enumerate 0 ks" and ?R = "replicate (length ks) False"
    have iks: "?K = K \<union> snd ` set ?iks" "distinct (map fst ?iks)" "distinct (map snd ?iks)"
      "\<forall>(j, k) \<in> set ?iks. length k \<le> L \<and> j < length ?R"
      using Suc.prems(3,6) list.set_map[of snd ?iks] by (auto simp: in_set_enumerate_eq simp del: list.set_map)
    from insert_rest_ok[OF ins assms rest(3-6) Suc.prems(4) rest(2) iks, of txn]
    obtain R' n' txn' where r: "insert_rest ?ins E db p (length p) ?iks n ?R txn = (Ok R', n', txn')" "reps E ?g p n' ?K"
      "only_below p txn txn'"
      "\<forall>g. (\<forall>c. stored E (overlay txn g) (p @ [c]) (sub K (p @ [c]))) \<and> (?K = K \<longrightarrow> stored E (overlay txn g) p K) \<longrightarrow>
          stored E (overlay txn' g) p ?K"
      "length R' = length ?R" "\<forall>(j, k) \<in> set ?iks. R' ! j = (k \<notin> K)"
      by blast
    have "R' = map (\<lambda>k. k \<notin> K) ks"
      by (rule nth_equalityI) (use r(5,6) in \<open>fastforce simp: in_set_enumerate_eq\<close>)+
    moreover have "take (length p) (hd ks) = p"
      using keys_ok_prefix[OF Suc.prems(4) hd(1)] by (auto simp: prefix_def)
    moreover have "writes E p K ?K txn txn'"
      unfolding writes_def
    proof (intro conjI allI impI r(3))
      fix g assume s: "stored E (overlay txn g) p K"
      have "stored E (overlay txn g) (p @ [c]) (sub K (p @ [c]))" for c
        using rest(7) stored_child[OF s] keys_ok_mono[OF Suc.prems(4), of K] by auto
      with r(4) s show "stored E (overlay txn' g) p ?K" by blast
    qed
    ultimately show ?thesis
      using r(1,2) rest(1) Suc.prems(2) by (auto simp: inserts_def Let_def)
  qed
qed

end
