(* ===== verification/TrieDelete.thy ===== *)
theory TrieDelete
  imports TrieInsert
begin

text \<open>
  Deleting keys from a trie: the node afterwards represents the difference, the results say which keys were there,
  and nodes that are left with one key are leaves again. Looking up a key finds it exactly if it is in the set.
\<close>

section \<open>The loop over the groups\<close>

definition after_delete :: "trie_coder \<Rightarrow> (bytes \<Rightarrow> bytes option) \<Rightarrow> bytes \<Rightarrow> TrieNode \<Rightarrow> bytes set \<Rightarrow> bool" where
  "after_delete E g p n K \<longleftrightarrow>
     (if K = {} then tn_items n = 0 \<and> (length p < TIMESTAMP_LENGTH \<longrightarrow> empty_rep p n) else reps E g p n K)"

definition deletes_below ::
  "(TrieNode \<Rightarrow> bytes list \<Rightarrow> trie_batch \<Rightarrow> trie_result) \<Rightarrow> trie_coder \<Rightarrow> rocksdb \<Rightarrow> bytes \<Rightarrow> nat \<Rightarrow> bool" where
  "deletes_below del E db p L \<longleftrightarrow>
     (\<forall>c n M ks txn. ks \<noteq> [] \<and> distinct ks \<and> keys_ok (p @ [c]) (M \<union> set ks) \<and>
        reps E (db_get (rdb_disk db)) (p @ [c]) n M \<and> (\<forall>k \<in> set ks. length k \<le> L) \<longrightarrow>
        (\<exists>n' txn'. del n ks txn = (Ok (map (\<lambda>k. k \<in> M) ks), n', txn') \<and>
           after_delete E (db_get (rdb_disk db)) (p @ [c]) n' (M - set ks) \<and> writes E (p @ [c]) M (M - set ks) txn txn'))"

lemma sub_Diff_beside:
  assumes "\<forall>k \<in> A. prefix (p @ [c]) k" "c' \<noteq> c"
  shows "sub (K - A) (p @ [c']) = sub K (p @ [c'])"
  using assms by (auto simp: sub_def prefix_def)

text \<open>One group with a child: afterwards the child is gone or holds what is left.\<close>

lemma delete_group_ok:
  assumes del: "deletes_below del E db p L" and db: "rdb_native_open db"
    and ok: "children_ok E (db_get (rdb_disk db)) p K (tn_children node)" "child node c \<noteq> None"
    and keys: "keys_ok p (K \<union> snd ` set iks)" "iks \<noteq> []" "distinct (map snd iks)"
      "\<forall>(j, k) \<in> set iks. prefix (p @ [c]) k \<and> length k \<le> L"
  shows "\<exists>node0 n n' txn' cs.
     get_or_load_child E db p c node = (Ok n, node0) \<and>
     del n (map snd iks) txn = (Ok (map (\<lambda>ik. snd ik \<in> K) iks), n', txn') \<and>
     (if tn_items n' = 0 then remove_child c node0 else put_child c (LoadedNode n') node0) = set_children cs node \<and>
     children_ok E (db_get (rdb_disk db)) p (K - snd ` set iks) cs \<and>
     child_writes E p K (K - snd ` set iks) txn txn'"
proof -
  let ?g = "db_get (rdb_disk db)" and ?M = "sub K (p @ [c])" and ?ks = "map snd iks" and ?K = "K - snd ` set iks"
  have pre: "\<forall>k \<in> snd ` set iks. prefix (p @ [c]) k" using keys(4) by auto
  have sub': "sub ?K (p @ [c]) = ?M - set ?ks" by (auto simp: sub_def)
  have keysK: "keys_ok p K" using keys(1) by (rule keys_ok_mono) simp
  have "c \<in> chars p K" using ok(2) children_ok_mem[OF ok(1)] by (simp add: child_def)
  from get_or_load_child_ok[OF ok(1) this keysK db] obtain n cs0 where load:
    "get_or_load_child E db p c node = (Ok n, set_children cs0 node)" "reps E ?g (p @ [c]) n ?M" "children_ok E ?g p K cs0"
    by blast
  have "sub (K \<union> snd ` set iks) (p @ [c]) = ?M \<union> set ?ks" using pre by (auto simp: sub_def)
  then have "keys_ok (p @ [c]) (?M \<union> set ?ks)" using keys_ok_sub[OF keys(1), of "p @ [c]"] by simp
  then have "?ks \<noteq> [] \<and> distinct ?ks \<and> keys_ok (p @ [c]) (?M \<union> set ?ks) \<and> reps E ?g (p @ [c]) n ?M \<and>
      (\<forall>k \<in> set ?ks. length k \<le> L)"
    using keys(2-4) load(2) by auto
  from del[unfolded deletes_below_def, rule_format, OF this]
  obtain n' txn' where n': "del n ?ks txn = (Ok (map (\<lambda>k. k \<in> ?M) ?ks), n', txn')"
    "after_delete E ?g (p @ [c]) n' (?M - set ?ks)" "writes E (p @ [c]) ?M (?M - set ?ks) txn txn'"
    by blast
  have beside: "sub ?K (p @ [c']) = sub K (p @ [c'])" if "c' \<noteq> c" for c'
    using sub_Diff_beside[OF pre that] .
  have "\<exists>cs. (if tn_items n' = 0 then remove_child c (set_children cs0 node)
       else put_child c (LoadedNode n') (set_children cs0 node)) = set_children cs node \<and> children_ok E ?g p ?K cs"
  proof (cases "?M - set ?ks = {}")
    case True
    then have "tn_items n' = 0" using n'(2) by (simp add: after_delete_def)
    moreover have "children_ok E ?g p ?K (filter (\<lambda>e. fst e \<noteq> c) cs0)"
      by (rule children_ok_remove[OF load(3) beside]) (use True in \<open>simp_all add: sub'\<close>)
    ultimately show ?thesis by (auto simp: remove_child_def)
  next
    case False
    then have n: "reps E ?g (p @ [c]) n' (?M - set ?ks)" using n'(2) by (simp add: after_delete_def)
    moreover have "finite ?M" using keys_ok_sub[OF keysK] by (simp add: keys_ok_def)
    ultimately have "tn_items n' \<noteq> 0" using reps_hash[OF n] False by simp
    moreover have "children_ok E ?g p ?K (batch_insert (c, LoadedNode n') cs0)"
      by (rule children_ok_put[OF load(3) beside]) (use n False in \<open>simp_all add: child_ok_def sub'\<close>)
    ultimately show ?thesis by (auto simp: put_child_def)
  qed
  moreover have "child_writes E p K ?K txn txn'"
    by (rule child_writes_one[OF _ beside keysK keys_ok_hd[OF keys(1)]])
      (use n'(3) keys(2) in \<open>simp_all only: sub', auto\<close>)
  moreover have "map (\<lambda>k. k \<in> ?M) ?ks = map (\<lambda>ik. snd ik \<in> K) iks"
    using keys(4) by (auto simp: sub_def)
  ultimately show ?thesis using load(1) n'(1) by auto
qed

lemma delete_groups_ok:
  assumes "deletes_below del E db p L" "rdb_native_open db"
    and "children_ok E (db_get (rdb_disk db)) p K (tn_children node)"
    and "keys_ok p (K \<union> group_union gs)" "groups_ok p L (length R) gs"
  shows "\<exists>R' cs txn'.
     delete_groups del E db p gs node R s txn =
       (Ok (R', s + card (group_union gs \<inter> K)), set_children cs node, txn') \<and>
     children_ok E (db_get (rdb_disk db)) p (K - group_union gs) cs \<and>
     child_writes E p K (K - group_union gs) txn txn' \<and> length R' = length R \<and>
     (\<forall>g \<in> set gs. \<forall>(j, k) \<in> set (snd g). R' ! j = (k \<in> K)) \<and> (\<forall>j. j \<notin> group_indices gs \<longrightarrow> R' ! j = R ! j)"
  using assms(3-5)
proof (induction gs arbitrary: K node R s txn)
  case Nil
  then show ?case by (auto simp: group_union_def set_children_def intro!: exI[of _ "tn_children node"])
next
  case (Cons g gs)
  obtain c iks where g: "g = (c, iks)" by fastforce
  let ?G = "group_union (g # gs)" and ?A = "snd ` set iks"
  let ?K = "K - ?A" and ?R = "set_results (map fst iks) (map (\<lambda>ik. snd ik \<in> K) iks) R"
  have G: "?K - group_union gs = K - ?G" by (auto simp: g group_union_def)
  have ok: "iks \<noteq> []" "distinct (map fst iks)" "distinct (map snd iks)"
    "\<forall>(j, k) \<in> set iks. prefix (p @ [c]) k \<and> length k \<le> L \<and> j < length R"
    "c \<notin> fst ` set gs" "fst ` set iks \<inter> group_indices gs = {}" "groups_ok p L (length R) gs"
    using Cons.prems(3) by (simp_all add: g)
  have keys: "keys_ok p (K \<union> ?A)" by (rule keys_ok_mono[OF Cons.prems(2)]) (auto simp: g group_union_def)
  have apart: "?A \<inter> group_union gs = {}"
  proof (rule ccontr)
    assume "\<not> ?thesis"
    then obtain k where k: "k \<in> ?A" "k \<in> group_union gs" by blast
    obtain c' where "c' \<in> fst ` set gs" "prefix (p @ [c']) k" using groups_ok_elem[OF ok(7) k(2)] by blast
    moreover have "prefix (p @ [c]) k" using k(1) ok(4) by auto
    ultimately show False using ok(5) by (auto simp: prefix_def)
  qed
  note R = set_results_at[OF ok(2), where P = "\<lambda>k. k \<in> K" and R = R]
  have bounds: "\<forall>(j, k) \<in> set iks. prefix (p @ [c]) k \<and> length k \<le> L" using ok(4) by auto
  have count: "length (filter (\<lambda>ik. snd ik \<in> K) iks) = card (?A \<inter> K)"
    using count_new[OF ok(3), of K] by (simp add: filter_map o_def)
  obtain cs txn1 where step: "delete_groups del E db p (g # gs) node R s txn =
      delete_groups del E db p gs (set_children cs node) ?R (s + card (?A \<inter> K)) txn1"
    "children_ok E (db_get (rdb_disk db)) p ?K cs" "child_writes E p K ?K txn txn1"
  proof (cases "child node c = None")
    case True
    then have "sub K (p @ [c]) = {}" using children_ok_mem[OF Cons.prems(1)] by (simp add: child_def chars_def)
    then have none: "?A \<inter> K = {}" using bounds by (fastforce simp: sub_def)
    then have "map (\<lambda>ik. snd ik \<in> K) iks = map (\<lambda>_. False) iks" by auto
    then have "map (\<lambda>ik. snd ik \<in> K) iks = replicate (length iks) False" by (simp add: map_replicate_const)
    moreover have "?K = K" using none by blast
    ultimately show ?thesis
      using that[of "tn_children node" txn] True none Cons.prems(1) by (simp add: g set_children_def)
  next
    case False
    from delete_group_ok[OF assms(1,2) Cons.prems(1) False keys ok(1,3) bounds, of txn]
    obtain node0 n n' txn1 cs where one:
      "get_or_load_child E db p c node = (Ok n, node0)"
      "del n (map snd iks) txn = (Ok (map (\<lambda>ik. snd ik \<in> K) iks), n', txn1)"
      "(if tn_items n' = 0 then remove_child c node0 else put_child c (LoadedNode n') node0) = set_children cs node"
      "children_ok E (db_get (rdb_disk db)) p ?K cs" "child_writes E p K ?K txn txn1"
      by blast
    have "delete_groups del E db p (g # gs) node R s txn =
        delete_groups del E db p gs (set_children cs node) ?R (s + card (?A \<inter> K)) txn1"
      using one(1,2) False by (clarsimp simp add: g one(3) filter_map o_def count)
    with one(4,5) show ?thesis using that by blast
  qed
  have "keys_ok p (?K \<union> group_union gs)"
    by (rule keys_ok_mono[OF Cons.prems(2)]) (auto simp: g group_union_def)
  with step(2) ok(7) have prems: "children_ok E (db_get (rdb_disk db)) p ?K (tn_children (set_children cs node))"
    "keys_ok p (?K \<union> group_union gs)" "groups_ok p L (length ?R) gs"
    by (simp_all add: R(1))
  from Cons.IH[OF prems, of "s + card (?A \<inter> K)" txn1] obtain R' cs' txn' where rest:
    "delete_groups del E db p gs (set_children cs node) ?R (s + card (?A \<inter> K)) txn1 =
       (Ok (R', s + card (?A \<inter> K) + card (group_union gs \<inter> ?K)), set_children cs' (set_children cs node), txn')"
    "children_ok E (db_get (rdb_disk db)) p (?K - group_union gs) cs'"
    "child_writes E p ?K (?K - group_union gs) txn1 txn'" "length R' = length ?R"
    "\<forall>g \<in> set gs. \<forall>(j, k) \<in> set (snd g). R' ! j = (k \<in> ?K)" "\<forall>j. j \<notin> group_indices gs \<longrightarrow> R' ! j = ?R ! j"
    by blast
  have fin: "finite (group_union gs)" "finite ?A" by (auto simp: group_union_def)
  have split: "?G \<inter> K = (?A \<inter> K) \<union> (group_union gs \<inter> ?K)" using apart by (auto simp: g group_union_def)
  have card: "card (?G \<inter> K) = card (?A \<inter> K) + card (group_union gs \<inter> ?K)"
    unfolding split by (rule card_Un_disjoint) (use fin in auto)
  have res: "\<forall>g' \<in> set (g # gs). \<forall>(j, k) \<in> set (snd g'). R' ! j = (k \<in> K)"
  proof (intro ballI)
    fix g' e assume a: "g' \<in> set (g # gs)" "e \<in> set (snd g')"
    obtain j k where e: "e = (j, k)" by fastforce
    have "R' ! j = (k \<in> K)"
    proof (cases "g' \<in> set gs")
      case True
      with rest(5) a(2) e have "R' ! j = (k \<in> ?K)" by fastforce
      moreover have "k \<in> group_union gs" using True a(2) e by (force simp: group_union_def)
      ultimately show ?thesis using apart by blast
    next
      case False
      with a g e have jk: "(j, k) \<in> set iks" by simp
      then have "j \<notin> group_indices gs" using ok(6) by force
      with rest(6) R(2)[OF jk] ok(4) jk show ?thesis by auto
    qed
    then show "case e of (j, k) \<Rightarrow> R' ! j = (k \<in> K)" by (simp add: e)
  qed
  have other: "\<forall>j. j \<notin> group_indices (g # gs) \<longrightarrow> R' ! j = R ! j"
    using rest(6) R(3) by (simp add: group_indices_def g)
  show ?case
    unfolding step(1) using rest(1-4) child_writes_trans[OF step(3) rest(3)] res other R(1) card
    by (intro exI[of _ R'] exI[of _ cs'] exI[of _ txn']) (simp add: G add.assoc)
qed

section \<open>The trie\<close>

definition deletes :: "trie_coder \<Rightarrow> rocksdb \<Rightarrow> bytes \<Rightarrow> bytes set \<Rightarrow> bytes list \<Rightarrow> trie_batch \<Rightarrow> trie_result \<Rightarrow> bool" where
  "deletes E db p K ks txn r \<longleftrightarrow>
     (\<exists>n' txn'. r = (Ok (map (\<lambda>k. k \<in> K) ks), n', txn') \<and> after_delete E (db_get (rdb_disk db)) p n' (K - set ks) \<and>
        writes E p K (K - set ks) txn txn' \<and>
        (K - set ks = {} \<longrightarrow> map_of txn' (trie_key p None) = Some None))"

lemma deleted_record: "map_of (delete_to_txn p txn) (trie_key p None) = Some None"
  by (simp add: delete_to_txn_def map_of_batch_insert)

lemma find_enumerate:
  assumes "distinct ks"
  shows "case List.find (\<lambda>ik. snd ik = k) (enumerate 0 ks) of
     None \<Rightarrow> k \<notin> set ks
   | Some (j, x) \<Rightarrow> k \<in> set ks \<and> (replicate (length ks) False)[j := True] = map (\<lambda>x. x = k) ks"
proof (cases "List.find (\<lambda>ik. snd ik = k) (enumerate 0 ks)")
  case None
  then have "k \<notin> snd ` set (enumerate 0 ks)" by (auto simp: find_None_iff)
  then have "k \<notin> set ks" using list.set_map[of snd "enumerate 0 ks"] by simp
  with None show ?thesis by simp
next
  case (Some e)
  then obtain i where "i < length (enumerate 0 ks)" "snd (enumerate 0 ks ! i) = k" "e = enumerate 0 ks ! i"
    by (auto simp: find_Some_iff)
  then have e: "e = (i, k)" "i < length ks" "ks ! i = k" by (auto simp: nth_enumerate_eq)
  have "(replicate (length ks) False)[i := True] = map (\<lambda>x. x = k) ks"
    by (rule nth_equalityI) (use e assms in \<open>auto simp: nth_list_update nth_eq_iff_index_eq\<close>)
  then show ?thesis using Some e by auto
qed

lemma delete_leaf:
  assumes "ks \<noteq> []" "distinct ks" "keys_ok p (insert k (set ks))" "TIMESTAMP_LENGTH \<le> length p"
  shows "deletes E db p {k} ks txn (trie_delete (Suc d) E db (TrieNode (trie_blake3 E k) 1 [] (Some k)) ks (length p) txn)"
proof -
  let ?n = "TrieNode (trie_blake3 E k) 1 [] (Some k)"
  have pre: "take (length p) (hd ks) = p" using assms(1,3) by (cases ks) (auto simp: keys_ok_def prefix_def)
  note find = find_enumerate[OF assms(2), of k]
  show ?thesis
  proof (cases "List.find (\<lambda>ik. snd ik = k) (enumerate 0 ks)")
    case None
    then have "k \<notin> set ks" using find by simp
    moreover from this have "map (\<lambda>x. x = k) ks = map (\<lambda>_. False) ks" by auto
    then have "map (\<lambda>x. x = k) ks = replicate (length ks) False" by (simp add: map_replicate_const)
    moreover have "{k} - set ks = {k}" using calculation(1) by blast
    ultimately show ?thesis
      using None assms(1) reps.leaf[OF assms(4)]
      by (auto simp: deletes_def is_leaf_def key_or_empty_def after_delete_def writes_def)
  next
    case (Some e)
    obtain j x where e: "e = (j, x)" by fastforce
    have "k \<in> set ks" "(replicate (length ks) False)[j := True] = map (\<lambda>x. x = k) ks" using find Some by (simp_all add: e)
    moreover from this have "{k} - set ks = {}" by simp
    ultimately show ?thesis
      using Some assms(1) pre only_below_delete deleted_record
      by (simp add: deletes_def is_leaf_def key_or_empty_def after_delete_def writes_def e update_hash_def empty_rep_def
          set_items_def set_node_key_def set_hash_def mapOk_def)
  qed
qed

text \<open>What is left of a node: it is compacted to a leaf, or it is a node over what is left.\<close>

lemma delete_stray: "only_below p txn (delete_to_txn (trie_key q c) txn)"
  by (auto simp: only_below_def delete_to_txn_def map_of_batch_insert trie_key_inject) (simp_all add: trie_key_def)

lemma compact_and_put:
  assumes E: "coder_ok E" and db: "rdb_native_open db" and keys: "keys_ok p K" "K \<noteq> {}"
    and node: "children_ok E (db_get (rdb_disk db)) p K (tn_children node)" "tn_items node = card K"
      "tn_key node = None \<or> tn_key node = Some []" and long: "\<forall>k \<in> K. length p < length k"
  shows "\<exists>node1 n' txn1 txn'. compact_node E db p (length p) node txn = (Ok (), node1, txn1) \<and>
     hash_and_put E db p node1 txn1 = (Ok (), n', txn') \<and> reps E (db_get (rdb_disk db)) p n' K \<and>
     only_below p txn txn' \<and>
     (\<forall>g. (\<forall>c. stored E (overlay txn g) (p @ [c]) (sub K (p @ [c]))) \<longrightarrow> stored E (overlay txn' g) p K)"
proof (cases "inner p K")
  case True
  then have "compact_node E db p (length p) node txn = (Ok (), node, txn)"
    using node(2) by (auto simp: compact_node_def inner_def)
  with hash_and_put_ok[OF E db keys(1) True node, of txn] show ?thesis using only_below_put by blast
next
  case False
  let ?g = "db_get (rdb_disk db)"
  have deep: "TIMESTAMP_LENGTH \<le> length p" "card K = 1"
    using False keys by (auto simp: inner_def keys_ok_def not_le card_gt_0_iff less_2_cases_iff)
  then obtain k where K: "K = {k}" by (auto simp: card_1_singleton_iff)
  have pk: "prefix p k" "length p < length k" using keys(1) long by (simp_all add: K keys_ok_def)
  let ?c = "k ! length p"
  note single = chars_single[OF pk]
  have only: "\<exists>t. cs = [(?c, t)]" if "children_ok E ?g p K cs" for cs
    using that by (cases cs; cases "tl cs") (auto simp: children_ok_def K single)
  have "?c \<in> chars p K" by (simp add: K single)
  from get_or_load_child_ok[OF node(1) this keys(1) db] obtain n cs where
    n: "get_or_load_child E db p ?c node = (Ok n, set_children cs node)" "reps E ?g (p @ [?c]) n {k}" "children_ok E ?g p K cs"
    by (auto simp: K single)
  have "tn_key n = Some k" using n(2) reps_leaf_iff[of E ?g "p @ [?c]" n k] deep(1) by (simp add: inner_def)
  moreover obtain t t' where "tn_children node = [(?c, t)]" "cs = [(?c, t')]" using only[OF node(1)] only[OF n(3)] by blast
  ultimately have "compact_node E db p (length p) node txn =
      (Ok (), TrieNode (tn_hash node) 1 [] (Some k), delete_to_txn (trie_key p (Some ?c)) txn)"
    using n(1) node(2) deep
    by (simp add: compact_node_def remove_child_def set_children_def set_node_key_def)
  moreover let ?n = "TrieNode (trie_blake3 E k) 1 [] (Some k)"
  have leaf: "reps E ?g p ?n {k}" using reps.leaf[OF deep(1)] .
  have "hash_and_put E db p (TrieNode (tn_hash node) 1 [] (Some k)) txn1 = (Ok (), ?n, put_to_txn E p ?n txn1)" for txn1
    by (simp add: hash_and_put_def update_hash_def is_leaf_def set_hash_def key_or_empty_def)
  moreover have "stored E (overlay (put_to_txn E p ?n txn1) g) p K" for txn1 g
    unfolding K by (rule stored_leaf[OF deep(1) serialize_record[OF E keys(1)[unfolded K] leaf]])
      (simp_all add: put_record pk)
  moreover have "only_below p txn (put_to_txn E p ?n (delete_to_txn (trie_key p (Some ?c)) txn))"
    using only_below_trans[OF delete_stray only_below_put] .
  ultimately show ?thesis using leaf by (auto simp: K)
qed

theorem trie_delete_difference:
  assumes "coder_ok E" "rdb_native_open db"
  shows "\<lbrakk>L + 2 \<le> d + length p; ks \<noteq> []; distinct ks; keys_ok p (K \<union> set ks); reps E (db_get (rdb_disk db)) p n K;
      \<forall>k \<in> set ks. length k \<le> L\<rbrakk> \<Longrightarrow> deletes E db p K ks txn (trie_delete d E db n ks (length p) txn)"
proof (induction d arbitrary: p n K ks txn)
  case 0
  have "hd ks \<in> set ks" using 0 by simp
  then have "prefix p (hd ks)" "length (hd ks) \<le> L" using 0 keys_ok_prefix by blast+
  with 0(1) show ?case using prefix_length_le[of p "hd ks"] by linarith
next
  case (Suc d)
  let ?g = "db_get (rdb_disk db)" and ?K = "K - set ks" and ?del = "\<lambda>n ks. trie_delete d E db n ks (Suc (length p))"
  have keys: "keys_ok p K" "keys_ok p ?K" using keys_ok_mono[OF Suc.prems(4)] by blast+
  have del: "deletes_below ?del E db p L"
    unfolding deletes_below_def
  proof (intro allI impI, elim conjE)
    fix c n M ks txn
    assume "ks \<noteq> []" "distinct ks" "keys_ok (p @ [c]) (M \<union> set ks)" "reps E ?g (p @ [c]) n M" "\<forall>k \<in> set ks. length k \<le> L"
    from Suc.IH[OF _ this, of txn] Suc.prems(1)
    show "\<exists>n' txn'. ?del n ks txn = (Ok (map (\<lambda>k. k \<in> M) ks), n', txn') \<and>
        after_delete E ?g (p @ [c]) n' (M - set ks) \<and> writes E (p @ [c]) M (M - set ks) txn txn'"
      unfolding deletes_def by auto
  qed
  from Suc.prems(5) keys(1) show ?case
  proof (cases rule: reps_cases)
    case (leaf k)
    with delete_leaf[OF Suc.prems(2,3), of p k] Suc.prems(4) show ?thesis by simp
  next
    case (inner cs ko)
    let ?iks = "enumerate 0 ks" and ?R = "replicate (length ks) False"
    have hd: "hd ks \<in> K \<union> set ks" using Suc.prems(2) by simp
    have pre: "take (length p) (hd ks) = p" using keys_ok_prefix[OF Suc.prems(4) hd] by (auto simp: prefix_def)
    have "card K \<le> card (K \<union> set ks)" using Suc.prems(4) by (intro card_mono) (auto simp: keys_ok_def)
    then have long: "length p < length k" if "k \<in> K \<union> set ks" for k
      using longer_than_inner[OF Suc.prems(4) _ that] inner(1) by (auto simp: inner_def)
    have leaf: "\<not> is_leaf n"
      using inner(2,4) chars_not_empty[OF keys(1) inner(1)] by (auto simp: is_leaf_def children_ok_def)
    have "\<forall>(j, k) \<in> set ?iks. prefix p k \<and> length p < length k \<and> length k \<le> L \<and> j < length ?R"
      using keys_ok_prefix[OF Suc.prems(4)] long Suc.prems(6) by (auto simp: in_set_enumerate_eq)
    from group_keys_ok[OF _ _ this] have gr: "groups_ok p L (length ?R) (group_keys (length p) ?iks)"
      "group_union (group_keys (length p) ?iks) = set ks"
      "\<And>P. (\<forall>g \<in> set (group_keys (length p) ?iks). \<forall>e \<in> set (snd g). P e) \<longleftrightarrow> (\<forall>e \<in> set ?iks. P e)"
      using Suc.prems(3) list.set_map[of snd ?iks] by simp_all
    have "children_ok E ?g p K (tn_children n)" "keys_ok p (K \<union> group_union (group_keys (length p) ?iks))"
      using inner(2,4) Suc.prems(4) by (simp_all add: gr(2))
    from delete_groups_ok[OF del assms(2) this gr(1), of 0 txn] obtain R' cs' txn1 where loop:
      "delete_groups ?del E db p (group_keys (length p) ?iks) n ?R 0 txn =
         (Ok (R', card (set ks \<inter> K)), set_children cs' n, txn1)"
      "children_ok E ?g p ?K cs'" "child_writes E p K ?K txn txn1" "length R' = length ?R"
      "\<forall>(j, k) \<in> set ?iks. R' ! j = (k \<in> K)"
      by (auto simp: gr(2,3))
    have R': "R' = map (\<lambda>k. k \<in> K) ks"
      by (rule nth_equalityI) (use loop(4,5) in \<open>fastforce simp: in_set_enumerate_eq\<close>)+
    have "card K = card (K \<inter> set ks) + card ?K"
      using card_Int_Diff[of K "set ks"] keys(1) by (simp add: keys_ok_def)
    then have items: "card K - card (set ks \<inter> K) = card ?K" by (simp add: Int_commute)
    have short: "\<not> (\<exists>k \<in> set ks. length k \<le> length p)" using long by (auto simp: not_le)
    have fin: "finite K" "finite ?K" using keys by (simp_all add: keys_ok_def)
    have step: "trie_delete (Suc d) E db n ks (length p) txn =
      (if set ks \<inter> K = {} then (Ok R', set_children cs' n, txn1)
       else
         (let node = set_items (card ?K) (set_children cs' n) in
          if ?K = {} then
            (case update_hash E db p node of (r, node) \<Rightarrow> (mapOk r (\<lambda>_. R'), node, delete_to_txn p txn1))
          else
            (case compact_node E db p (length p) node txn1 of
               (Ok _, node, txn) \<Rightarrow> (case hash_and_put E db p node txn of (r, node, txn) \<Rightarrow> (mapOk r (\<lambda>_. R'), node, txn))
             | (Err e, node, txn) \<Rightarrow> (Err e, node, txn)
             | (Throw t, node, txn) \<Rightarrow> (Throw t, node, txn))))"
      using Suc.prems(2) leaf short loop(1) pre items fin inner(2)
      by (simp add: Let_def cong: prod.case_cong outcome.case_cong)
    show ?thesis
    proof (cases "set ks \<inter> K = {}")
      case True
      then have same: "?K = K" by blast
      have "reps E ?g p (set_children cs' n) K"
        using reps_inner_iff[of E ?g p _ _ cs' ko K] inner loop(2) same by (simp add: set_children_def)
      moreover have "writes E p K K txn txn1"
        using unchanged_writes[OF _ inner(1) keys(1)] loop(3) same by simp
      ultimately show ?thesis
        using step True R' reps_nonempty[OF Suc.prems(5)] by (simp add: deletes_def after_delete_def same)
    next
      case False
      let ?node = "set_items (card ?K) (set_children cs' n)"
      have node: "children_ok E ?g p ?K (tn_children ?node)" "tn_items ?node = card ?K"
        "tn_key ?node = None \<or> tn_key ?node = Some []"
        using loop(2) inner(2,3) by simp_all
      have children: "(\<forall>c. stored E (overlay txn1 g) (p @ [c]) (sub ?K (p @ [c])))" if "stored E (overlay txn g) p K" for g
        using loop(3) stored_child[OF that inner(1) keys(1)] by (simp add: child_writes_def)
      have below: "only_below p txn txn1" using loop(3) by (simp add: child_writes_def strictly_below_def)
      show ?thesis
      proof (cases "?K = {}")
        case True
        then have none: "card ?K = 0" by (simp only: card.empty)
        have "cs' = []" using True node(1) unfolding children_ok_def True by simp
        then have "update_hash E db p ?node = (Ok (), set_hash (trie_blake3 E (key_or_empty ?node)) ?node)"
          by (simp add: update_hash_def is_leaf_def)
        then have "trie_delete (Suc d) E db n ks (length p) txn =
            (Ok R', set_hash (trie_blake3 E (key_or_empty ?node)) ?node, delete_to_txn p txn1)"
          using step False True none by (simp add: mapOk_def)
        moreover have "after_delete E ?g p (set_hash h ?node) ?K" for h
          unfolding after_delete_def empty_rep_def True using inner(2,3) \<open>cs' = []\<close>
          by (auto simp: set_hash_def)
        moreover have "writes E p K ?K txn (delete_to_txn p txn1)"
          unfolding writes_def True using only_below_trans[OF below only_below_delete] by simp
        ultimately show ?thesis unfolding deletes_def R' using deleted_record by blast
      next
        case rest: False
        have "\<forall>k \<in> ?K. length p < length k" using long by blast
        from compact_and_put[OF assms keys(2) rest node this, of txn1] obtain node1 n' txn2 txn' where
          "compact_node E db p (length p) ?node txn1 = (Ok (), node1, txn2)"
          "hash_and_put E db p node1 txn2 = (Ok (), n', txn')" "reps E ?g p n' ?K" "only_below p txn1 txn'"
          "\<forall>g. (\<forall>c. stored E (overlay txn1 g) (p @ [c]) (sub ?K (p @ [c]))) \<longrightarrow> stored E (overlay txn' g) p ?K"
          by blast
        then show ?thesis
          using step False R' rest children only_below_trans[OF below]
          by (auto simp: deletes_def after_delete_def writes_def mapOk_def Let_def)
      qed
    qed
  qed
qed

declare trie_delete.simps [simp del] trie_insert.simps [simp del]

section \<open>Looking up a key\<close>

theorem trie_exists_iff:
  assumes "rdb_native_open db"
  shows "\<lbrakk>keys_ok p (insert key K); node_rep E (db_get (rdb_disk db)) p n K\<rbrakk> \<Longrightarrow>
     \<exists>n'. trie_exists E db n key (length p) = (Ok (key \<in> K), n') \<and> node_rep E (db_get (rdb_disk db)) p n' K"
proof (induction "length key - length p" arbitrary: p n K rule: less_induct)
  case less
  let ?g = "db_get (rdb_disk db)"
  have keys: "keys_ok p K" using keys_ok_mono[OF less.prems(1)] by blast
  have pk: "prefix p key" "key \<noteq> []" using less.prems(1) by (auto simp: keys_ok_def TIMESTAMP_LENGTH_def)
  show ?case
  proof (cases "K = {}")
    case True
    with less.prems(2) pk(2) show ?thesis
      by (subst trie_exists.simps) (auto simp: node_rep_def empty_rep_def is_leaf_def key_or_empty_def)
  next
    case False
    then have "reps E ?g p n K" using less.prems(2) by (simp add: node_rep_def)
    from this keys show ?thesis
    proof (cases rule: reps_cases)
      case (leaf k)
      with less.prems(2) show ?thesis by (subst trie_exists.simps) (auto simp: is_leaf_def key_or_empty_def)
    next
      case (inner cs ko)
      have "card K \<le> card (insert key K)" using keys by (intro card_mono) (auto simp: keys_ok_def)
      then have long: "length p < length key"
        using longer_than_inner[OF less.prems(1)] inner(1) by (auto simp: inner_def)
      let ?c = "key ! length p" and ?K = "sub K (p @ [key ! length p])"
      have leaf: "\<not> is_leaf n"
        using inner(2,4) chars_not_empty[OF keys inner(1)] by (auto simp: is_leaf_def children_ok_def)
      have mem: "key \<in> ?K \<longleftrightarrow> key \<in> K" using prefix_snoc_nth[OF pk(1) long] by (auto simp: sub_def)
      have pre: "take (length p) key = p" using pk(1) by (auto simp: prefix_def)
      have ok: "children_ok E ?g p K (tn_children n)" using inner(2,4) by simp
      show ?thesis
      proof (cases "?c \<in> chars p K")
        case False
        then have "child n ?c = None" "key \<notin> K"
          using children_ok_mem[OF ok] mem by (auto simp: child_def chars_def)
        then show ?thesis using leaf long less.prems(2) by (subst trie_exists.simps) simp
      next
        case True
        obtain n1 cs1 where n1: "get_or_load_child E db p ?c n = (Ok n1, set_children cs1 n)"
          "reps E ?g (p @ [?c]) n1 ?K" "children_ok E ?g p K cs1"
          using get_or_load_child_ok[OF ok True keys assms] by blast
        have ne: "?K \<noteq> {}" using True by (simp add: chars_def)
        have "insert key ?K = sub (insert key K) (p @ [?c])"
          using prefix_snoc_nth[OF pk(1) long] by (auto simp: sub_def)
        then have "keys_ok (p @ [?c]) (insert key ?K)" using keys_ok_sub[OF less.prems(1), of "p @ [?c]"] by simp
        moreover have "node_rep E ?g (p @ [?c]) n1 ?K" using n1(2) ne by (simp add: node_rep_def)
        moreover have "length key - length (p @ [?c]) < length key - length p" using long by simp
        ultimately obtain n2 where n2: "trie_exists E db n1 key (length (p @ [?c])) = (Ok (key \<in> ?K), n2)"
          "node_rep E ?g (p @ [?c]) n2 ?K" using less.hyps by blast
        have put: "children_ok E ?g p K (batch_insert (?c, LoadedNode n2) cs1)"
          by (rule children_ok_put[OF n1(3)]) (use n2(2) ne in \<open>simp_all add: child_ok_def node_rep_def\<close>)
        have "child n ?c \<noteq> None" using True children_ok_mem[OF ok] by (simp add: child_def)
        then have "trie_exists E db n key (length p) =
            (Ok (key \<in> K), set_children (batch_insert (?c, LoadedNode n2) cs1) n)"
          using leaf long n1(1) n2(1) mem pre by (subst trie_exists.simps) (auto simp: put_child_def)
        moreover have "node_rep E ?g p (set_children (batch_insert (?c, LoadedNode n2) cs1) n) K"
          using reps_inner_iff[of E ?g p _ _ "batch_insert (?c, LoadedNode n2) cs1" ko K] inner put False
          by (simp add: node_rep_def set_children_def)
        ultimately show ?thesis by blast
      qed
    qed
  qed
qed

text \<open>Two nodes of the same keys have the same hash, whatever has been done to them.\<close>

lemma same_keys_same_hash:
  "reps E g p n K \<Longrightarrow> reps E g' p n' K \<Longrightarrow> tn_hash n = tn_hash n' \<and> tn_items n = tn_items n'"
  by (simp add: reps_hash)

end
