(* ===== verification/SyncMerkle.thy ===== *)
theory SyncMerkle
  imports SyncTrie RustStore
begin

text \<open>
  The trie with its database: the native object (\<^verbatim>\<open>addon/src/trie/merkle_trie.rs\<close>) keeps the root in memory and the
  changed records in a batch, which is committed when it is large; \<^verbatim>\<open>network/sync/merkleTrie.ts\<close> collects the updates
  that arrive while one is being applied and applies them together.

  A panic while the root is locked for writing leaves the lock poisoned, and every later use of the root panics.
\<close>

section \<open>The native trie\<close>

record MerkleTrie =
  mt_root :: "TrieNode option"
  mt_db :: rocksdb
  mt_db_owned :: bool
  mt_txn_batch :: trie_batch
  mt_poisoned :: bool

definition TRIE_UNLOAD_THRESHOLD :: nat where
  "TRIE_UNLOAD_THRESHOLD = 10000"

definition trie_internal_error :: "string \<Rightarrow> 'a outcome" where
  "trie_internal_error m = fail (OtherCode (lit ''bad_request.internal_error'')) m"

definition new_MerkleTrie :: "rocksdb \<Rightarrow> bool \<Rightarrow> MerkleTrie" where
  "new_MerkleTrie db owned =
     \<lparr>mt_root = None, mt_db = db, mt_db_owned = owned, mt_txn_batch = [], mt_poisoned = False\<rparr>"

text \<open>\<^verbatim>\<open>RocksDbTransactionBatch::merge\<close> and \<^verbatim>\<open>RocksDB::commit\<close>: a key has one entry in a batch, so the order in which the
  entries are taken does not matter.\<close>

definition merge_batch :: "trie_batch \<Rightarrow> trie_batch \<Rightarrow> trie_batch" where
  "merge_batch txn batch = foldr batch_insert txn batch"

definition native_commit :: "trie_batch \<Rightarrow> rocksdb \<Rightarrow> unit outcome \<times> rocksdb" where
  "native_commit batch db =
     (if rdb_native_open db then (Ok (), db\<lparr>rdb_disk := commit_batch (rev batch) (rdb_disk db)\<rparr>)
      else (fail (OtherCode (lit ''db.internal_error'')) ''Database is not open'', db))"

definition create_empty_root :: "trie_coder \<Rightarrow> MerkleTrie \<Rightarrow> unit outcome \<times> MerkleTrie" where
  "create_empty_root E mt =
     (let mt = mt\<lparr>mt_txn_batch := batch_insert (trie_key [] None, Some (trie_serialize E new_TrieNode)) (mt_txn_batch mt)\<rparr>
      in if mt_poisoned mt then (Throw native_panic, mt) else (Ok (), mt\<lparr>mt_root := Some new_TrieNode\<rparr>))"

text \<open>A database of its own is opened first; one that is open already is locked, with an error whose text is that of
  RocksDB.\<close>

definition MerkleTrie_initialize :: "trie_coder \<Rightarrow> js_string \<Rightarrow> MerkleTrie \<Rightarrow> unit outcome \<times> MerkleTrie" where
  "MerkleTrie_initialize E locked mt =
     (if mt_db_owned mt \<and> rdb_native_open (mt_db mt)
      then (fail_js (OtherCode (lit ''db.internal_error'')) locked, mt)
      else
        (let mt = (if mt_db_owned mt then mt\<lparr>mt_db := (mt_db mt)\<lparr>rdb_native_open := True\<rparr>\<rparr> else mt) in
         case trie_db_get (mt_db mt) (trie_key [] None) of
           Ok (Some b) \<Rightarrow>
             (case trie_deserialize E b of
                Ok node \<Rightarrow> if mt_poisoned mt then (Throw native_panic, mt) else (Ok (), mt\<lparr>mt_root := Some node\<rparr>)
              | Err e \<Rightarrow> (Err e, mt)
              | Throw t \<Rightarrow> (Throw t, mt))
         | Ok None \<Rightarrow> create_empty_root E mt
         | Err e \<Rightarrow> (Err e, mt)
         | Throw t \<Rightarrow> (Throw t, mt)))"

definition MerkleTrie_clear :: "trie_coder \<Rightarrow> MerkleTrie \<Rightarrow> unit outcome \<times> MerkleTrie" where
  "MerkleTrie_clear E mt =
     (let mt = mt\<lparr>mt_txn_batch := []\<rparr> in
      case RocksDB_clear (mt_db mt) of
        (Ok _, db) \<Rightarrow> create_empty_root E (mt\<lparr>mt_db := db\<rparr>)
      | (r, db) \<Rightarrow> (r, mt\<lparr>mt_db := db\<rparr>))"

text \<open>The batch is taken out before it is committed: when that fails, it is lost.\<close>

definition unload_from_memory :: "bool \<Rightarrow> TrieNode \<Rightarrow> MerkleTrie \<Rightarrow> unit outcome \<times> TrieNode \<times> MerkleTrie" where
  "unload_from_memory force node0 mt =
     (if force \<or> length (mt_txn_batch mt) > TRIE_UNLOAD_THRESHOLD then
        (case native_commit (mt_txn_batch mt) (mt_db mt) of
           (Ok _, db) \<Rightarrow> (Ok (), unload_children node0, mt\<lparr>mt_txn_batch := [], mt_db := db\<rparr>)
         | (r, db) \<Rightarrow> (r, node0, mt\<lparr>mt_txn_batch := [], mt_db := db\<rparr>))
      else (Ok (), node0, mt))"

definition MerkleTrie_stop :: "MerkleTrie \<Rightarrow> unit outcome \<times> MerkleTrie" where
  "MerkleTrie_stop mt =
     (if mt_poisoned mt then (Throw native_panic, mt)
      else
        (case (case mt_root mt of
                 Some node0 \<Rightarrow> (case unload_from_memory True node0 (mt\<lparr>mt_root := None\<rparr>) of (r, _, mt) \<Rightarrow> (r, mt))
               | None \<Rightarrow> (Ok (), mt)) of
           (Ok _, mt) \<Rightarrow> (Ok (), if mt_db_owned mt then mt\<lparr>mt_db := (mt_db mt)\<lparr>rdb_native_open := False\<rparr>\<rparr> else mt)
         | (r, mt) \<Rightarrow> (r, mt)))"

text \<open>An operation on the root under its lock.\<close>

definition with_root ::
  "string \<Rightarrow> (TrieNode \<Rightarrow> MerkleTrie \<Rightarrow> 'a outcome \<times> TrieNode \<times> MerkleTrie) \<Rightarrow> MerkleTrie \<Rightarrow> 'a outcome \<times> MerkleTrie" where
  "with_root what f mt =
     (if mt_poisoned mt then (Throw native_panic, mt)
      else
        (case mt_root mt of
           Some node0 \<Rightarrow>
             (case f node0 mt of
                (r, node0, mt) \<Rightarrow>
                  (r, mt\<lparr>mt_root := Some node0, mt_poisoned := (case r of Throw _ \<Rightarrow> True | _ \<Rightarrow> False)\<rparr>))
         | None \<Rightarrow> (trie_internal_error (''Merkle Trie not initialized for '' @ what), mt)))"

definition trie_depth :: "bytes list \<Rightarrow> nat" where
  "trie_depth keys = fold (\<lambda>k. max (length k)) keys 0 + 2"

definition update_trie ::
  "string \<Rightarrow> (rocksdb \<Rightarrow> TrieNode \<Rightarrow> trie_result) \<Rightarrow> bytes list \<Rightarrow> MerkleTrie \<Rightarrow> bool list outcome \<times> MerkleTrie" where
  "update_trie what f keys mt =
     (if keys = [] then (Ok [], mt)
      else if \<exists>k \<in> set keys. length k < TIMESTAMP_LENGTH then (trie_error ''Key length is too short'', mt)
      else
        with_root what
          (\<lambda>node0 mt.
             (case f (mt_db mt) node0 of
                (Ok results, node0, txn) \<Rightarrow>
                  (case unload_from_memory False node0 (mt\<lparr>mt_txn_batch := merge_batch txn (mt_txn_batch mt)\<rparr>) of
                     (r, node0, mt) \<Rightarrow> (mapOk r (\<lambda>_. results), node0, mt))
              | (r, node0, txn) \<Rightarrow> (r, node0, mt))) mt)"

text \<open>The error for a trie that is not initialized goes on with the keys; that part of the message is left out.\<close>

definition MerkleTrie_insert :: "trie_coder \<Rightarrow> bytes list \<Rightarrow> MerkleTrie \<Rightarrow> bool list outcome \<times> MerkleTrie" where
  "MerkleTrie_insert E keys =
     update_trie ''insert'' (\<lambda>db node0. trie_insert (trie_depth keys) E db node0 keys 0 []) keys"

definition MerkleTrie_delete :: "trie_coder \<Rightarrow> bytes list \<Rightarrow> MerkleTrie \<Rightarrow> bool list outcome \<times> MerkleTrie" where
  "MerkleTrie_delete E keys =
     update_trie ''delete'' (\<lambda>db node0. trie_delete (trie_depth keys) E db node0 keys 0 []) keys"

definition read_trie ::
  "string \<Rightarrow> (rocksdb \<Rightarrow> TrieNode \<Rightarrow> 'a outcome \<times> TrieNode) \<Rightarrow> MerkleTrie \<Rightarrow> 'a outcome \<times> MerkleTrie" where
  "read_trie what f = with_root what (\<lambda>node0 mt. case f (mt_db mt) node0 of (r, node0) \<Rightarrow> (r, node0, mt))"

definition MerkleTrie_exists :: "trie_coder \<Rightarrow> bytes \<Rightarrow> MerkleTrie \<Rightarrow> bool outcome \<times> MerkleTrie" where
  "MerkleTrie_exists E key = read_trie ''exists'' (\<lambda>db node0. trie_exists E db node0 key 0)"

definition MerkleTrie_items :: "MerkleTrie \<Rightarrow> nat outcome \<times> MerkleTrie" where
  "MerkleTrie_items = read_trie ''items'' (\<lambda>_ node0. (Ok (tn_items node0), node0))"

definition MerkleTrie_root_hash :: "MerkleTrie \<Rightarrow> bytes outcome \<times> MerkleTrie" where
  "MerkleTrie_root_hash = read_trie ''root_hash'' (\<lambda>_ node0. (Ok (tn_hash node0), node0))"

text \<open>The depth bounds the recursion below the prefix.\<close>

definition MerkleTrie_get_all_values ::
  "nat \<Rightarrow> trie_coder \<Rightarrow> bytes \<Rightarrow> MerkleTrie \<Rightarrow> bytes list outcome \<times> MerkleTrie" where
  "MerkleTrie_get_all_values d E pre =
     read_trie ''get_all_values''
       (\<lambda>db node0.
          case at_node E db (\<lambda>node. trie_all_values d E db node pre) node0 pre 0 of
            (r, node0) \<Rightarrow> (mapOk r (\<lambda>vs. case vs of Some vs \<Rightarrow> vs | None \<Rightarrow> []), node0))"

definition MerkleTrie_get_snapshot ::
  "trie_coder \<Rightarrow> bytes \<Rightarrow> MerkleTrie \<Rightarrow> TrieSnapshot outcome \<times> MerkleTrie" where
  "MerkleTrie_get_snapshot E pre = read_trie ''get_snapshot'' (\<lambda>db node0. trie_snapshot E db node0 [] pre [] 0)"

text \<open>The record of a node, first from the batch, then from the database. A record that the batch deletes is still
  found in the database.\<close>

definition decoded_node :: "trie_coder \<Rightarrow> bytes option \<Rightarrow> TrieNode option" where
  "decoded_node E b =
     (case b of Some b \<Rightarrow> (case trie_deserialize E b of Ok node \<Rightarrow> Some node | _ \<Rightarrow> None) | None \<Rightarrow> None)"

definition MerkleTrie_get_node :: "trie_coder \<Rightarrow> bytes \<Rightarrow> MerkleTrie \<Rightarrow> TrieNode option outcome" where
  "MerkleTrie_get_node E pre mt =
     (let key = trie_key pre None in
      case decoded_node E (case map_of (mt_txn_batch mt) key of Some r \<Rightarrow> r | None \<Rightarrow> None) of
        Some node \<Rightarrow> Ok (Some node)
      | None \<Rightarrow> mapOk (trie_db_get (mt_db mt) key) (decoded_node E))"

datatype NodeMetadata =
  NodeMetadata (nm_prefix: bytes) (nm_numMessages: nat) (nm_hash: js_string) (nm_children: "(byte \<times> NodeMetadata) list")

fun child_metadata :: "trie_coder \<Rightarrow> bytes \<Rightarrow> MerkleTrie \<Rightarrow> byte list \<Rightarrow> (byte \<times> NodeMetadata) list outcome" where
  "child_metadata E pre mt [] = Ok []"
| "child_metadata E pre mt (c # cs) =
     andThen (MerkleTrie_get_node E (pre @ [c]) mt) (\<lambda>node.
       case node of
         None \<Rightarrow> trie_internal_error ''Child Node not found''
       | Some n \<Rightarrow>
           mapOk (child_metadata E pre mt cs) (\<lambda>rest.
             (c, NodeMetadata (pre @ [c]) (tn_items n) (buffer_hex (tn_hash n)) []) # rest))"

definition MerkleTrie_get_trie_node_metadata :: "trie_coder \<Rightarrow> bytes \<Rightarrow> MerkleTrie \<Rightarrow> NodeMetadata outcome" where
  "MerkleTrie_get_trie_node_metadata E pre mt =
     andThen (MerkleTrie_get_node E pre mt) (\<lambda>node.
       case node of
         None \<Rightarrow> trie_error ''Node not found''
       | Some n \<Rightarrow>
           mapOk (child_metadata E pre mt (map fst (tn_children n)))
             (NodeMetadata pre (tn_items n) (buffer_hex (tn_hash n))))"

section \<open>The bridge\<close>

text \<open>A panic in a thread of the pool drops the promise, one in the thread of JavaScript is reported by neon.\<close>

definition pooled :: "'a outcome \<Rightarrow> 'a outcome" where
  "pooled r = (case bridge r of Throw t \<Rightarrow> Throw (if t = native_panic then deferred_dropped else t) | r \<Rightarrow> r)"

definition rsMerkleTrieInitialize :: "trie_coder \<Rightarrow> js_string \<Rightarrow> MerkleTrie \<Rightarrow> unit outcome \<times> MerkleTrie" where
  "rsMerkleTrieInitialize E locked mt = map_prod bridge id (MerkleTrie_initialize E locked mt)"

definition rsMerkleTrieClear :: "trie_coder \<Rightarrow> MerkleTrie \<Rightarrow> unit outcome \<times> MerkleTrie" where
  "rsMerkleTrieClear E mt = map_prod bridge id (MerkleTrie_clear E mt)"

definition rsMerkleTrieStop :: "MerkleTrie \<Rightarrow> unit outcome \<times> MerkleTrie" where
  "rsMerkleTrieStop mt = map_prod bridge id (MerkleTrie_stop mt)"

text \<open>After a failure of the insertions the deletions are still done, after a panic they are not. The message of the
  error goes on with the two results; that part is left out.\<close>

definition rsMerkleTrieBatchUpdate ::
  "trie_coder \<Rightarrow> bytes list \<Rightarrow> bytes list \<Rightarrow> MerkleTrie \<Rightarrow> bool list outcome \<times> MerkleTrie" where
  "rsMerkleTrieBatchUpdate E inserts deletes mt =
     (case MerkleTrie_insert E inserts mt of
        (Throw t, mt) \<Rightarrow> (pooled (Throw t), mt)
      | (insert_results, mt) \<Rightarrow>
          (case MerkleTrie_delete E deletes mt of
             (Throw t, mt) \<Rightarrow> (pooled (Throw t), mt)
           | (delete_results, mt) \<Rightarrow>
               (case (insert_results, delete_results) of
                  (Ok xs, Ok ys) \<Rightarrow> (Ok (xs @ ys), mt)
                | _ \<Rightarrow> (bridge (trie_internal_error ''Error in batch update: ''), mt))))"

definition rsMerkleTrieInsert :: "trie_coder \<Rightarrow> bytes \<Rightarrow> MerkleTrie \<Rightarrow> bool outcome \<times> MerkleTrie" where
  "rsMerkleTrieInsert E key mt = map_prod (\<lambda>r. mapOk (bridge r) hd) id (MerkleTrie_insert E [key] mt)"

definition rsMerkleTrieDelete :: "trie_coder \<Rightarrow> bytes \<Rightarrow> MerkleTrie \<Rightarrow> bool outcome \<times> MerkleTrie" where
  "rsMerkleTrieDelete E key mt = map_prod (\<lambda>r. mapOk (bridge r) hd) id (MerkleTrie_delete E [key] mt)"

definition rsMerkleTrieExists :: "trie_coder \<Rightarrow> bytes \<Rightarrow> MerkleTrie \<Rightarrow> bool outcome \<times> MerkleTrie" where
  "rsMerkleTrieExists E key mt = map_prod bridge id (MerkleTrie_exists E key mt)"

definition rsMerkleTrieGetSnapshot :: "trie_coder \<Rightarrow> bytes \<Rightarrow> MerkleTrie \<Rightarrow> TrieSnapshot outcome \<times> MerkleTrie" where
  "rsMerkleTrieGetSnapshot E pre mt = map_prod bridge id (MerkleTrie_get_snapshot E pre mt)"

text \<open>An error whose message has \<^verbatim>\<open>Node not found\<close> in it gives \<^verbatim>\<open>undefined\<close>; so has \<^verbatim>\<open>Child Node not found\<close>.\<close>

definition js_includes :: "js_string \<Rightarrow> js_string \<Rightarrow> bool" where
  "js_includes s t \<longleftrightarrow> (\<exists>i \<in> set [0 ..< Suc (length s)]. prefix t (drop i s))"

definition rsMerkleTrieGetTrieNodeMetadata :: "trie_coder \<Rightarrow> bytes \<Rightarrow> MerkleTrie \<Rightarrow> NodeMetadata option outcome" where
  "rsMerkleTrieGetTrieNodeMetadata E pre mt =
     (case pooled (MerkleTrie_get_trie_node_metadata E pre mt) of
        Ok metadata \<Rightarrow> Ok (Some metadata)
      | Throw t \<Rightarrow> if js_includes (exn_message t) (lit ''Node not found'') then Ok None else Throw t
      | Err e \<Rightarrow> Err e)"

definition rsMerkleTrieGetAllValues ::
  "nat \<Rightarrow> trie_coder \<Rightarrow> bytes \<Rightarrow> MerkleTrie \<Rightarrow> bytes list outcome \<times> MerkleTrie" where
  "rsMerkleTrieGetAllValues d E pre mt = map_prod pooled id (MerkleTrie_get_all_values d E pre mt)"

definition rsMerkleTrieItems :: "MerkleTrie \<Rightarrow> nat outcome \<times> MerkleTrie" where
  "rsMerkleTrieItems mt = map_prod bridge id (MerkleTrie_items mt)"

definition rsMerkleTrieRootHash :: "MerkleTrie \<Rightarrow> js_string outcome \<times> MerkleTrie" where
  "rsMerkleTrieRootHash mt = map_prod (\<lambda>r. mapOk (bridge r) buffer_hex) id (MerkleTrie_root_hash mt)"

definition rsMerkleTrieUnloadChildren :: "MerkleTrie \<Rightarrow> unit outcome \<times> MerkleTrie" where
  "rsMerkleTrieUnloadChildren mt =
     (if mt_poisoned mt then (Throw native_panic, mt)
      else
        (case mt_root mt of
           None \<Rightarrow> (Ok (), mt)
         | Some node0 \<Rightarrow>
             (case unload_from_memory True node0 mt of (r, node0, mt) \<Rightarrow> (bridge r, mt\<lparr>mt_root := Some node0\<rparr>))))"

section \<open>Updates that arrive while one is applied\<close>

text \<open>
  The maps of pending updates are keyed by the reference of an array, here a number with the bytes it refers to, and
  hold the promise to resolve, also a number. \<open>UpdateRunning\<close> has the updates that are with the native trie,
  \<open>UpdateSleeping\<close> is the pause after them.
\<close>

type_synonym pending_updates = "((nat \<times> bytes) \<times> nat) list"

datatype update_phase = UpdateIdle | UpdateRunning pending_updates pending_updates | UpdateSleeping

record trie_updates =
  tu_trie :: MerkleTrie
  tu_inserts :: pending_updates
  tu_deletes :: pending_updates
  tu_phase :: update_phase
  tu_resolved :: "(nat \<times> bool) list"

definition countPendingUpdates :: "trie_updates \<Rightarrow> nat" where
  "countPendingUpdates u = length (tu_inserts u) + length (tu_deletes u)"

text \<open>The head of the loop of \<^verbatim>\<open>doBatchUpdate\<close>, up to the call of the native trie.\<close>

definition next_batch :: "trie_updates \<Rightarrow> trie_updates" where
  "next_batch u =
     (if countPendingUpdates u > 0
      then u\<lparr>tu_phase := UpdateRunning (tu_inserts u) (tu_deletes u), tu_inserts := [], tu_deletes := []\<rparr>
      else u\<lparr>tu_phase := UpdateIdle\<rparr>)"

definition trigger_update :: "trie_updates \<Rightarrow> trie_updates" where
  "trigger_update u = (if tu_phase u = UpdateIdle then next_batch u else u)"

definition take_pending :: "(nat \<times> bytes) \<Rightarrow> pending_updates \<Rightarrow> (nat \<times> bool) list \<times> pending_updates" where
  "take_pending i ps =
     (case map_of ps i of Some p \<Rightarrow> ([(p, True)], filter (\<lambda>e. fst e \<noteq> i) ps) | None \<Rightarrow> ([], ps))"

definition enqueue_insert :: "(nat \<times> bytes) \<times> nat \<Rightarrow> trie_updates \<Rightarrow> trie_updates" where
  "enqueue_insert e u =
     (case take_pending (fst e) (tu_deletes u) of
        (res, ps) \<Rightarrow>
          u\<lparr>tu_inserts := batch_insert e (tu_inserts u), tu_deletes := ps, tu_resolved := tu_resolved u @ res\<rparr>)"

definition enqueue_delete :: "(nat \<times> bytes) \<times> nat \<Rightarrow> trie_updates \<Rightarrow> trie_updates" where
  "enqueue_delete e u =
     (case take_pending (fst e) (tu_inserts u) of
        (res, ps) \<Rightarrow>
          u\<lparr>tu_deletes := batch_insert e (tu_deletes u), tu_inserts := ps, tu_resolved := tu_resolved u @ res\<rparr>)"

definition insertBytes :: "((nat \<times> bytes) \<times> nat) list \<Rightarrow> trie_updates \<Rightarrow> trie_updates" where
  "insertBytes ids u = trigger_update (fold enqueue_insert ids u)"

definition deleteByBytes :: "((nat \<times> bytes) \<times> nat) list \<Rightarrow> trie_updates \<Rightarrow> trie_updates" where
  "deleteByBytes ids u = trigger_update (fold enqueue_delete ids u)"

text \<open>The native trie is done with a batch: the promises are resolved, with false when it failed.\<close>

definition batch_done :: "trie_coder \<Rightarrow> trie_updates \<Rightarrow> trie_updates" where
  "batch_done E u =
     (case tu_phase u of
        UpdateRunning insertUpdates deleteUpdates \<Rightarrow>
          (case rsMerkleTrieBatchUpdate E (map (snd \<circ> fst) insertUpdates) (map (snd \<circ> fst) deleteUpdates) (tu_trie u) of
             (results, mt) \<Rightarrow>
               let promises = map snd insertUpdates @ map snd deleteUpdates;
                   values = (case results of Ok rs \<Rightarrow> rs | _ \<Rightarrow> map (\<lambda>_. False) promises)
               in u\<lparr>tu_trie := mt, tu_phase := UpdateSleeping, tu_resolved := tu_resolved u @ zip promises values\<rparr>)
      | _ \<Rightarrow> u)"

definition sleep_done :: "trie_updates \<Rightarrow> trie_updates" where
  "sleep_done u = (if tu_phase u = UpdateSleeping then next_batch u else u)"

datatype trie_event = InsertBytes "((nat \<times> bytes) \<times> nat) list" | DeleteByBytes "((nat \<times> bytes) \<times> nat) list" | BatchDone | SleepDone

definition trie_step :: "trie_coder \<Rightarrow> trie_event \<Rightarrow> trie_updates \<Rightarrow> trie_updates" where
  "trie_step E ev =
     (case ev of InsertBytes ids \<Rightarrow> insertBytes ids | DeleteByBytes ids \<Rightarrow> deleteByBytes ids
      | BatchDone \<Rightarrow> batch_done E | SleepDone \<Rightarrow> sleep_done)"

definition new_trie_updates :: "MerkleTrie \<Rightarrow> trie_updates" where
  "new_trie_updates mt =
     \<lparr>tu_trie = mt, tu_inserts = [], tu_deletes = [], tu_phase = UpdateIdle, tu_resolved = []\<rparr>"

definition trie_clear :: "trie_coder \<Rightarrow> trie_updates \<Rightarrow> unit outcome \<times> trie_updates" where
  "trie_clear E u =
     (case rsMerkleTrieClear E (tu_trie u) of
        (r, mt) \<Rightarrow> (r, u\<lparr>tu_trie := mt, tu_inserts := [], tu_deletes := []\<rparr>))"

text \<open>One id at a time when nothing else happens: the batch has this id only.\<close>

definition insert_alone_now :: "trie_coder \<Rightarrow> bytes \<Rightarrow> MerkleTrie \<Rightarrow> MerkleTrie" where
  "insert_alone_now E i mt = snd (rsMerkleTrieBatchUpdate E [i] [] mt)"

section \<open>Rebuilding\<close>

text \<open>Every insertion is awaited before the next record is read. A record that cannot be decoded is left out.\<close>

definition rebuild_message :: "proto_codec \<Rightarrow> trie_coder \<Rightarrow> MerkleTrie callback" where
  "rebuild_message C E mt key val =
     andThen (readUInt8 key (1 + FID_BYTES)) (\<lambda>postfix.
       if postfix < uint UserMessagePostfixMax then
         (case messageDecode C val of
            Ok m \<Rightarrow>
              (case msg_hash m of
                 Some h \<Rightarrow>
                   if length h = HASH_LENGTH
                   then mapOk (sync_fromMessage m) (\<lambda>i. (insert_alone_now E i mt, False))
                   else Ok (mt, False)
               | None \<Rightarrow> Throw TypeError)
          | _ \<Rightarrow> Ok (mt, False))
       else Ok (mt, False))"

definition rebuild_event :: "proto_codec \<Rightarrow> trie_coder \<Rightarrow> MerkleTrie callback" where
  "rebuild_event C E mt key val =
     andThen (readUInt8 key 1) (\<lambda>postfix.
       if postfix = uint (onchain_byte OnChainEvents) then
         (case decodeOnChainEvent C val of
            Ok event \<Rightarrow> mapOk (sync_fromOnChainEvent event) (\<lambda>i. (insert_alone_now E i mt, False))
          | _ \<Rightarrow> Ok (mt, False))
       else Ok (mt, False))"

definition rebuild_name :: "proto_codec \<Rightarrow> trie_coder \<Rightarrow> MerkleTrie callback" where
  "rebuild_name C E mt key val =
     (case decodeUserNameProof C val of
        Ok proof' \<Rightarrow> mapOk (sync_fromFName proof') (\<lambda>i. (insert_alone_now E i mt, False))
      | _ \<Rightarrow> Ok (mt, False))"

definition rebuild_pass ::
  "nat \<Rightarrow> rocksdb \<Rightarrow> byte \<Rightarrow> MerkleTrie callback \<Rightarrow> MerkleTrie \<Rightarrow> MerkleTrie outcome option" where
  "rebuild_pass fuel db b cb mt =
     map_option (\<lambda>r. mapOk r fst) (RocksDB_forEachIteratorByPrefix fuel db [b] no_page_options cb mt)"

definition rebuild :: "nat \<Rightarrow> proto_codec \<Rightarrow> trie_coder \<Rightarrow> rocksdb \<Rightarrow> MerkleTrie \<Rightarrow> MerkleTrie outcome option" where
  "rebuild fuel C E db mt =
     (let go = (\<lambda>b cb r. case r of Some (Ok mt) \<Rightarrow> rebuild_pass fuel db b cb mt | _ \<Rightarrow> r) in
      case rsMerkleTrieClear E mt of
        (Ok _, mt) \<Rightarrow>
          go (root_byte FNameUserNameProof) (rebuild_name C E)
            (go (root_byte OnChainEventPrefix) (rebuild_event C E)
              (rebuild_pass fuel db (root_byte User) (rebuild_message C E) mt))
      | (Err e, _) \<Rightarrow> Some (Err e)
      | (Throw t, _) \<Rightarrow> Some (Throw t))"

text \<open>\<^verbatim>\<open>MerkleTrie.numItems\<close> on the database it opens; a root record that is missing counts none.\<close>

definition numItems :: "trie_coder \<Rightarrow> rocksdb \<Rightarrow> int outcome" where
  "numItems E db =
     (case RocksDB_get db [root_byte SyncMerkleTrieNode] of
        Ok rootBytes \<Rightarrow> if rootBytes = [] then Ok 0 else mapOk (decodeDbTrieNode E rootBytes) dtn_items
      | _ \<Rightarrow> Ok 0)"

end
