(* ===== verification/MerkleSets.thy ===== *)
theory MerkleSets
  imports TrieDelete SyncMerkle
begin

text \<open>
  A trie with its database holds a set of sync ids (\<open>holds_ids\<close>): the root in memory represents the set over what is on
  disk, and disk and batch together have the records of the set. Updates keep this and compute the set, also when
  they commit the batch; stopping and starting gives the same set back; two tries of the same set have one hash.
\<close>

section \<open>The invariant\<close>

text \<open>All ids begin with the same digit of the time. It keeps the root at one child, which every update loads.\<close>

definition same_head :: "bytes set \<Rightarrow> bool" where
  "same_head K \<longleftrightarrow> (\<forall>a \<in> K. \<forall>b \<in> K. hd a = hd b)"

definition sync_ids_ok :: "bytes set \<Rightarrow> bool" where
  "sync_ids_ok K \<longleftrightarrow> keys_ok [] K \<and> same_head K"

definition disk_of :: "MerkleTrie \<Rightarrow> bytes \<Rightarrow> bytes option" where
  "disk_of mt = db_get (rdb_disk (mt_db mt))"

definition saved :: "trie_coder \<Rightarrow> (bytes \<Rightarrow> bytes option) \<Rightarrow> bytes set \<Rightarrow> bool" where
  "saved E g K \<longleftrightarrow>
     stored E g [] K \<and>
     (K = {} \<longrightarrow> (case g (trie_key [] None) of None \<Rightarrow> True | Some b \<Rightarrow> \<exists>n. trie_deserialize E b = Ok n \<and> empty_rep [] n))"

definition holds_ids :: "trie_coder \<Rightarrow> bytes set \<Rightarrow> MerkleTrie \<Rightarrow> bool" where
  "holds_ids E K mt \<longleftrightarrow>
     \<not> mt_poisoned mt \<and> rdb_native_open (mt_db mt) \<and> db_inv (rdb_disk (mt_db mt)) \<and> sync_ids_ok K \<and>
     (\<exists>n. mt_root mt = Some n \<and> node_rep E (disk_of mt) [] n K) \<and>
     saved E (overlay (mt_txn_batch mt) (disk_of mt)) K"

lemma sync_ids_mono: "sync_ids_ok K \<Longrightarrow> M \<subseteq> K \<Longrightarrow> sync_ids_ok M"
  using keys_ok_mono[of "[]" K M] by (auto simp: sync_ids_ok_def same_head_def)

section \<open>The root after an update\<close>

text \<open>A child that is not left to the database stays so.\<close>

definition calm :: "byte \<Rightarrow> TrieNode \<Rightarrow> bool" where
  "calm c node \<longleftrightarrow> (\<forall>h. child node c \<noteq> Some (SerializedNode h))"

lemma calm_put [simp]: "calm c (put_child c' (LoadedNode n) node) \<longleftrightarrow> c' = c \<or> calm c node"
  by (auto simp: calm_def child_def put_child_def map_of_batch_insert)

lemma calm_remove [simp]: "calm c (remove_child c node)"
  by (auto simp: calm_def child_def remove_child_def dest: map_of_SomeD)

lemma calm_more [simp]:
  "calm c (set_items m node) = calm c node" "calm c (set_hash h node) = calm c node"
  by (simp_all add: calm_def child_def set_hash_def)

lemma get_or_load_child_calm:
  "get_or_load_child E db p c' node = (r, node') \<Longrightarrow> calm c node \<Longrightarrow> calm c node'"
  by (auto simp: get_or_load_child_def fail_js_def split: option.splits TrieNodeType.splits outcome.splits)

lemma concat_hashes_calm:
  "concat_hashes E db p hs node acc = (r, node') \<Longrightarrow> calm c node \<Longrightarrow> calm c node'"
proof (induction hs arbitrary: node acc)
  case (Cons e hs)
  obtain c' h where e: "e = (c', h)" by fastforce
  obtain r1 node1 where g: "get_or_load_child E db p c' node = (r1, node1)" by fastforce
  have l: "calm c node1" using get_or_load_child_calm[OF g Cons.prems(2)] .
  show ?case
    using Cons.prems Cons.IH[of node1] Cons.IH[of node] l g by (auto simp: e split: if_splits outcome.splits)
qed simp

lemma hash_and_put_calm:
  assumes "hash_and_put E db p node txn = (r, node', txn')" "calm c node"
  shows "calm c node'"
proof -
  obtain r1 node1 where u: "update_hash E db p node = (r1, node1)" by fastforce
  then have "calm c node1"
    using assms(2) concat_hashes_calm[of E db p _ node "[]" _ _ c]
    by (auto simp: update_hash_def split: if_splits prod.splits outcome.splits)
  then show ?thesis using assms(1) u by (auto simp: hash_and_put_def split: outcome.splits)
qed

lemma insert_one_group_calm:
  assumes "insert_rest ins E db p i iks node R txn = (Ok rs, node', txn')" "group_keys i iks = [(c, g)]"
  shows "calm c node'"
proof -
  obtain x node1 txn1 where i: "insert_groups ins E db p [(c, g)] node R 0 txn = (Ok x, node1, txn1)"
    and rest: "node' = node1 \<or> (\<exists>m txn2 r. hash_and_put E db p (set_items m node1) txn1 = (r, node', txn2))"
    using assms by (auto simp: insert_rest_def trie_error_def fail_def mapOk_def split: if_splits prod.splits outcome.splits)
  have "calm c node1"
    using i by (auto simp: Let_def split: prod.splits outcome.splits)
  then show ?thesis using rest hash_and_put_calm by fastforce
qed

lemma one_group:
  assumes "ks \<noteq> []" "\<forall>k \<in> set ks. k \<noteq> [] \<and> hd k = c"
  shows "group_keys 0 (enumerate 0 ks) = [(c, enumerate 0 ks)]"
proof -
  have all: "snd ik ! 0 = c" if "ik \<in> set (enumerate 0 ks)" for ik
  proof -
    have "snd ik \<in> set ks" using that nth_mem[of "fst ik" ks] by (auto simp: in_set_enumerate_eq)
    with assms(2) show ?thesis by (auto simp: hd_conv_nth)
  qed
  then have "map (\<lambda>ik. snd ik ! 0) (enumerate 0 ks) = map (\<lambda>_. c) (enumerate 0 ks)" by simp
  then have "map (\<lambda>ik. snd ik ! 0) (enumerate 0 ks) = replicate (length ks) c" by (simp add: map_replicate_const)
  moreover have "remdups (replicate m c) = (if m = 0 then [] else [c])" for m by (induction m) auto
  moreover have "filter (\<lambda>ik. snd ik ! 0 = c) (enumerate 0 ks) = enumerate 0 ks" using all by (simp add: filter_id_conv)
  ultimately show ?thesis using assms(1) by (simp add: group_keys_def)
qed

lemma trie_insert_calm:
  assumes "trie_insert d E db node ks 0 txn = (Ok rs, node', txn')" "\<forall>k \<in> set ks. k \<noteq> [] \<and> hd k = c"
  shows "calm c node'"
proof (cases d)
  case (Suc d')
  have ks: "ks \<noteq> []" using assms(1) by (auto simp: Suc trie_insert.simps trie_error_def fail_def)
  have "insert_rest (\<lambda>n ks. trie_insert d' E db n ks (Suc 0)) E db [] 0 (enumerate 0 ks) node
      (replicate (length ks) False) txn = (Ok rs, node', txn')"
    using assms(1) ks by (simp add: Suc trie_insert.simps Let_def TIMESTAMP_LENGTH_def)
  from insert_one_group_calm[OF this one_group[OF ks assms(2)]] show ?thesis .
qed (use assms(1) in \<open>simp add: trie_insert.simps\<close>)

lemma trie_delete_calm:
  assumes "trie_delete d E db node ks 0 txn = (Ok rs, node', txn')" "\<forall>k \<in> set ks. k \<noteq> [] \<and> hd k = c" "\<not> is_leaf node"
  shows "calm c node'"
proof (cases d)
  case (Suc d')
  let ?del = "\<lambda>n ks. trie_delete d' E db n ks (Suc 0)"
  have ks: "ks \<noteq> []" using assms(1) by (auto simp: Suc trie_delete.simps)
  obtain x node1 txn1 where
    g: "delete_groups ?del E db [] (group_keys 0 (enumerate 0 ks)) node (replicate (length ks) False) 0 txn = (x, node1, txn1)"
    by (metis prod_cases3)
  then have rest: "(\<exists>y. x = Ok y) \<and> (node' = node1 \<or> (\<exists>m r. update_hash E db [] (set_items m node1) = (r, node')) \<or>
        (\<exists>m txn2 txn3 r. hash_and_put E db [] (set_items m node1) txn2 = (r, node', txn3)))"
    using assms(1,3) ks
    by (auto simp: Suc trie_delete.simps trie_error_def fail_def mapOk_def Let_def compact_node_def TIMESTAMP_LENGTH_def
        split: if_splits prod.splits outcome.splits)
  then obtain y where "x = Ok y" by blast
  with g have d: "delete_groups ?del E db [] [(c, enumerate 0 ks)] node (replicate (length ks) False) 0 txn = (Ok y, node1, txn1)"
    by (simp only: one_group[OF ks assms(2)])
  have "calm c node1"
  proof (cases "child node c = None")
    case True
    with d show ?thesis by (simp add: calm_def)
  next
    case False
    with d show ?thesis by (auto split: prod.splits outcome.splits if_splits)
  qed
  moreover have "calm c node2" if "update_hash E db [] (set_items m node1) = (r, node2)" "calm c node1" for m r node2
    using hash_and_put_calm[of E db "[]" "set_items m node1" "[]" _ node2 _ c] that
    by (cases r) (auto simp: hash_and_put_def)
  ultimately show ?thesis using rest hash_and_put_calm by fastforce
qed (use assms(1) in \<open>simp add: trie_delete.simps\<close>)

section \<open>Committing\<close>

lemma overlay_Nil [simp]: "overlay [] g = g"
  by (simp add: overlay_def fun_eq_iff)

lemma overlay_merge: "overlay (merge_batch txn b) g = overlay txn (overlay b g)"
proof -
  have "map_of (foldr batch_insert txn b) = map_of b ++ map_of txn"
    by (induction txn) (simp_all add: map_of_batch_insert map_add_def fun_eq_iff)
  then show ?thesis by (auto simp: merge_batch_def overlay_def fun_eq_iff map_add_def split: option.split)
qed

lemma commit_overlay: "db_inv s \<Longrightarrow> db_get (commit_batch (rev b) s) = overlay b (db_get s)"
  by (simp add: commit_batch_ops db.lookup_apply_ops overlay_def fun_eq_iff)

text \<open>The root as it is between an update and the question whether to commit.\<close>

definition holds_at :: "trie_coder \<Rightarrow> bytes set \<Rightarrow> TrieNode \<Rightarrow> MerkleTrie \<Rightarrow> bool" where
  "holds_at E K n mt \<longleftrightarrow> holds_ids E K (mt\<lparr>mt_root := Some n\<rparr>)"

lemma head_child:
  assumes "sync_ids_ok K" "k \<in> K"
  shows "chars [] K = {hd k}"
proof -
  have ne: "x \<noteq> []" if "x \<in> K" for x
    using assms(1) that by (auto simp: sync_ids_ok_def keys_ok_def TIMESTAMP_LENGTH_def)
  then have "prefix [] x \<and> length [] < length x" if "x \<in> K" for x using that by simp
  from sub_partition(3)[OF this] have "chars [] K = (\<lambda>k. k ! 0) ` K" by simp
  also have "\<dots> = hd ` K" using ne by (intro image_cong refl) (simp add: hd_conv_nth)
  also have "\<dots> = {hd k}" using assms unfolding sync_ids_ok_def same_head_def by blast
  finally show ?thesis .
qed

lemma inner_root: "K \<noteq> {} \<Longrightarrow> inner [] K"
  by (simp add: inner_def TIMESTAMP_LENGTH_def)

lemma unload_root:
  assumes "reps E g [] n K" "sync_ids_ok K" "k \<in> K" "calm (hd k) n" "stored E g' [] K"
  shows "reps E g' [] (unload_children n) K"
proof -
  have keys: "keys_ok [] K" and inner: "inner [] K" using assms(2,3) inner_root by (auto simp: sync_ids_ok_def)
  from assms(1) keys show ?thesis
  proof (cases rule: reps_cases)
    case (inner cs ko)
    have "distinct (map fst cs)" "fst ` set cs = {hd k}"
      using inner(4) head_child[OF assms(2,3)] by (simp_all add: children_ok_def)
    then obtain t where t: "cs = [(hd k, t)]" by (cases cs; cases "tl cs") auto
    then obtain m where m: "t = LoadedNode m" using assms(4) inner(2) by (cases t) (auto simp: calm_def child_def)
    have "reps E g [hd k] m (sub K [hd k])" using inner(4) by (simp add: t m children_ok_def child_ok_def)
    then have "tn_hash m = key_hash E [hd k] (sub K [hd k])" by (simp add: reps_hash)
    moreover have "stored E g' [hd k] (sub K [hd k])"
      using stored_child[OF assms(5) \<open>inner [] K\<close> keys, of "hd k"] by simp
    ultimately have "children_ok E g' [] K [(hd k, SerializedNode (Some (tn_hash m)))]"
      using head_child[OF assms(2,3)] by (simp add: children_ok_def child_ok_def)
    moreover have "unload_children n = TrieNode (key_hash E [] K) (card K) [(hd k, SerializedNode (Some (tn_hash m)))] ko"
      by (simp add: inner(2) t m unload_children_def set_children_def map_filter_simps)
    ultimately show ?thesis
      using reps_inner_iff[of E g' "[]" _ _ "[(hd k, SerializedNode (Some (tn_hash m)))]" ko K] inner(1,3) by auto
  next
    case (leaf k')
    with inner show ?thesis by simp
  qed
qed

lemma unload_empty: "empty_rep p n \<Longrightarrow> empty_rep p (unload_children n)"
  by (simp add: empty_rep_def unload_children_def map_filter_simps)

text \<open>Committing leaves what is held as it is.\<close>

lemma unload_from_memory_ok:
  assumes "holds_at E K n mt" "\<forall>k \<in> K. calm (hd k) n"
  shows "\<exists>n' mt'. unload_from_memory force n mt = (Ok (), n', mt') \<and> holds_at E K n' mt' \<and> mt_db_owned mt' = mt_db_owned mt"
proof (cases "force \<or> length (mt_txn_batch mt) > TRIE_UNLOAD_THRESHOLD")
  case True
  note h = assms(1)[unfolded holds_at_def holds_ids_def disk_of_def, simplified]
  let ?db = "(mt_db mt)\<lparr>rdb_disk := commit_batch (rev (mt_txn_batch mt)) (rdb_disk (mt_db mt))\<rparr>"
  let ?mt = "mt\<lparr>mt_txn_batch := [], mt_db := ?db\<rparr>"
  have disk: "db_get (rdb_disk ?db) = overlay (mt_txn_batch mt) (db_get (rdb_disk (mt_db mt)))"
    using h by (simp add: commit_overlay)
  have "node_rep E (db_get (rdb_disk ?db)) [] (unload_children n) K"
  proof (cases "K = {}")
    case True
    then show ?thesis using h unload_empty by (simp add: node_rep_def)
  next
    case False
    then obtain k where k: "k \<in> K" by blast
    have "stored E (db_get (rdb_disk ?db)) [] K" using h unfolding disk by (simp add: saved_def)
    moreover have "reps E (db_get (rdb_disk (mt_db mt))) [] n K" "sync_ids_ok K" "calm (hd k) n"
      using h assms(2) k False by (simp_all add: node_rep_def)
    ultimately show ?thesis using unload_root[OF _ _ k] False by (simp add: node_rep_def)
  qed
  then have "holds_at E K (unload_children n) ?mt"
    using h disk by (simp add: holds_at_def holds_ids_def disk_of_def commit_inv)
  moreover have "unload_from_memory force n mt = (Ok (), unload_children n, ?mt)"
    using True h by (simp add: unload_from_memory_def native_commit_def)
  ultimately show ?thesis by auto
next
  case False
  then show ?thesis using assms(1) by (simp add: unload_from_memory_def)
qed

section \<open>Updates\<close>

lemma sync_id_bytes:
  assumes "sync_ids_ok K" "k \<in> K"
  shows "k \<noteq> []" "TIMESTAMP_LENGTH \<le> length k"
  using assms by (auto simp: sync_ids_ok_def keys_ok_def TIMESTAMP_LENGTH_def)

lemma trie_depth_bound: "k \<in> set ks \<Longrightarrow> length k + 2 \<le> trie_depth ks"
proof -
  have "m \<le> fold (\<lambda>k. max (length k)) ks m \<and> (\<forall>k \<in> set ks. length k \<le> fold (\<lambda>k. max (length k)) ks m)" for m
  proof (induction ks arbitrary: m)
    case (Cons k ks)
    from Cons.IH[of "max (length k) m"] show ?case by auto
  qed simp
  then show "k \<in> set ks \<Longrightarrow> length k + 2 \<le> trie_depth ks" by (simp add: trie_depth_def)
qed

text \<open>What an update of the root has to give.\<close>

lemma update_trie_ok:
  assumes hold: "holds_ids E K mt" and ids: "sync_ids_ok (K \<union> set ks)" "sync_ids_ok K'" "ks \<noteq> []"
    and step: "\<And>n. node_rep E (disk_of mt) [] n K \<Longrightarrow> \<exists>n' txn'. f (mt_db mt) n = (Ok rs, n', txn') \<and>
       node_rep E (disk_of mt) [] n' K' \<and> (\<forall>k \<in> K'. calm (hd k) n') \<and>
       saved E (overlay txn' (overlay (mt_txn_batch mt) (disk_of mt))) K'"
  shows "\<exists>mt'. update_trie what f ks mt = (Ok rs, mt') \<and> holds_ids E K' mt' \<and> mt_db_owned mt' = mt_db_owned mt"
proof -
  obtain n where n: "mt_root mt = Some n" "node_rep E (disk_of mt) [] n K" using hold by (auto simp: holds_ids_def)
  from step[OF n(2)] obtain n' txn' where f: "f (mt_db mt) n = (Ok rs, n', txn')"
    "node_rep E (disk_of mt) [] n' K'" "\<forall>k \<in> K'. calm (hd k) n'"
    "saved E (overlay txn' (overlay (mt_txn_batch mt) (disk_of mt))) K'" by blast
  let ?mt = "mt\<lparr>mt_txn_batch := merge_batch txn' (mt_txn_batch mt)\<rparr>"
  have "holds_at E K' n' ?mt"
    using hold ids(2) f(2,4) by (simp add: holds_at_def holds_ids_def disk_of_def overlay_merge)
  from unload_from_memory_ok[OF this f(3), of False] obtain n2 mt2 where
    u: "unload_from_memory False n' ?mt = (Ok (), n2, mt2)" "holds_at E K' n2 mt2" "mt_db_owned mt2 = mt_db_owned mt"
    by auto
  have "\<not> (\<exists>k \<in> set ks. length k < TIMESTAMP_LENGTH)" using sync_id_bytes(2)[OF ids(1)] by (auto simp: not_less)
  then have "update_trie what f ks mt = (Ok rs, mt2\<lparr>mt_root := Some n2, mt_poisoned := False\<rparr>)"
    using ids(3) n(1) f(1) u(1) hold by (simp add: update_trie_def with_root_def holds_ids_def mapOk_def)
  moreover have "holds_ids E K' (mt2\<lparr>mt_root := Some n2, mt_poisoned := False\<rparr>)"
    using u(2) by (simp add: holds_at_def holds_ids_def disk_of_def)
  ultimately show ?thesis using u(3) by auto
qed

lemma keys_head:
  assumes "sync_ids_ok K" "k \<in> set ks" "set ks \<subseteq> K"
  shows "\<forall>x \<in> set ks. x \<noteq> [] \<and> hd x = hd k"
proof (intro ballI conjI)
  fix x assume x: "x \<in> set ks"
  show "x \<noteq> []" using sync_id_bytes(1)[OF assms(1)] x assms(3) by blast
  show "hd x = hd k" using assms x unfolding sync_ids_ok_def same_head_def by blast
qed

text \<open>Inserting: the union is held, and the results are which ids are new.\<close>

theorem MerkleTrie_insert_ok:
  assumes "holds_ids E K mt" "coder_ok E" "distinct ks" "sync_ids_ok (K \<union> set ks)"
  shows "\<exists>mt'. MerkleTrie_insert E ks mt = (Ok (map (\<lambda>k. k \<notin> K) ks), mt') \<and> holds_ids E (K \<union> set ks) mt' \<and>
     mt_db_owned mt' = mt_db_owned mt"
proof (cases "ks = []")
  case True
  then show ?thesis using assms(1) by (simp add: MerkleTrie_insert_def update_trie_def)
next
  case False
  have db: "rdb_native_open (mt_db mt)" and saved: "saved E (overlay (mt_txn_batch mt) (disk_of mt)) K"
    using assms(1) by (simp_all add: holds_ids_def)
  have keys: "keys_ok [] (K \<union> set ks)" using assms(4) by (simp add: sync_ids_ok_def)
  show ?thesis
    unfolding MerkleTrie_insert_def
  proof (rule update_trie_ok[OF assms(1,4,4) False])
    fix n assume n: "node_rep E (disk_of mt) [] n K"
    have bound: "\<forall>k \<in> set ks. length k \<le> trie_depth ks - 2" using trie_depth_bound[of _ ks] by fastforce
    have "trie_depth ks - 2 + 2 \<le> trie_depth ks + length []" by (simp add: trie_depth_def)
    from trie_insert_union[OF assms(2) db this False assms(3) keys n[unfolded disk_of_def] bound, of "[]"]
    obtain n' txn' where r: "trie_insert (trie_depth ks) E (mt_db mt) n ks 0 [] = (Ok (map (\<lambda>k. k \<notin> K) ks), n', txn')"
      "reps E (disk_of mt) [] n' (K \<union> set ks)" "writes E [] K (K \<union> set ks) [] txn'"
      by (auto simp: inserts_def disk_of_def)
    obtain k where k: "k \<in> set ks" using False by (cases ks) auto
    have "calm (hd k) n'" using trie_insert_calm[OF r(1) keys_head[OF assms(4) k]] by simp
    moreover have "hd x = hd k" if "x \<in> K \<union> set ks" for x
      using assms(4) that k unfolding sync_ids_ok_def same_head_def by blast
    ultimately have "\<forall>x \<in> K \<union> set ks. calm (hd x) n'" by auto
    moreover have "saved E (overlay txn' (overlay (mt_txn_batch mt) (disk_of mt))) (K \<union> set ks)"
      using r(3) saved False by (simp add: saved_def writes_def)
    ultimately show "\<exists>n' txn'. trie_insert (trie_depth ks) E (mt_db mt) n ks 0 [] = (Ok (map (\<lambda>k. k \<notin> K) ks), n', txn') \<and>
       node_rep E (disk_of mt) [] n' (K \<union> set ks) \<and> (\<forall>k \<in> K \<union> set ks. calm (hd k) n') \<and>
       saved E (overlay txn' (overlay (mt_txn_batch mt) (disk_of mt))) (K \<union> set ks)"
      using r(1,2) False by (auto simp: node_rep_def)
  qed
qed

text \<open>Deleting: the difference is held, and the results are which ids were there.\<close>

theorem MerkleTrie_delete_ok:
  assumes "holds_ids E K mt" "coder_ok E" "distinct ks" "sync_ids_ok (K \<union> set ks)"
  shows "\<exists>mt'. MerkleTrie_delete E ks mt = (Ok (map (\<lambda>k. k \<in> K) ks), mt') \<and> holds_ids E (K - set ks) mt' \<and>
     mt_db_owned mt' = mt_db_owned mt"
proof (cases "ks = []")
  case True
  then show ?thesis using assms(1) by (simp add: MerkleTrie_delete_def update_trie_def)
next
  case False
  have db: "rdb_native_open (mt_db mt)" and saved: "saved E (overlay (mt_txn_batch mt) (disk_of mt)) K"
    using assms(1) by (simp_all add: holds_ids_def)
  have keys: "keys_ok [] (K \<union> set ks)" using assms(4) by (simp add: sync_ids_ok_def)
  have ids: "sync_ids_ok (K - set ks)" by (rule sync_ids_mono[OF assms(4)]) blast
  show ?thesis
    unfolding MerkleTrie_delete_def
  proof (rule update_trie_ok[OF assms(1,4) ids False])
    fix n assume n: "node_rep E (disk_of mt) [] n K"
    have depth: "trie_depth ks - 2 + 2 \<le> trie_depth ks + length []" by (simp add: trie_depth_def)
    then obtain d where d: "trie_depth ks = Suc d" by (cases "trie_depth ks") (auto simp: trie_depth_def)
    show "\<exists>n' txn'. trie_delete (trie_depth ks) E (mt_db mt) n ks 0 [] = (Ok (map (\<lambda>k. k \<in> K) ks), n', txn') \<and>
       node_rep E (disk_of mt) [] n' (K - set ks) \<and> (\<forall>k \<in> K - set ks. calm (hd k) n') \<and>
       saved E (overlay txn' (overlay (mt_txn_batch mt) (disk_of mt))) (K - set ks)"
    proof (cases "K = {}")
      case True
      have "snd e \<noteq> []" if "e \<in> set (enumerate 0 ks)" for e
        using that sync_id_bytes(1)[OF assms(4), of "snd e"] nth_mem[of "fst e" ks] by (auto simp: in_set_enumerate_eq)
      then have "List.find (\<lambda>ik. snd ik = []) (enumerate 0 ks) = None" unfolding find_None_iff by blast
      moreover have "is_leaf n" "key_or_empty n = []"
        using n True by (auto simp: node_rep_def empty_rep_def is_leaf_def key_or_empty_def)
      ultimately have "trie_delete (Suc d) E (mt_db mt) n ks 0 [] = (Ok (replicate (length ks) False), n, [])"
        using False by (simp add: trie_delete.simps)
      moreover have "map (\<lambda>k. k \<in> K) ks = replicate (length ks) False"
        using True map_replicate_const[of False ks] by simp
      ultimately show ?thesis using True n saved d by simp
    next
      case ne: False
      then have reps: "reps E (disk_of mt) [] n K" using n by (simp add: node_rep_def)
      have bound: "\<forall>k \<in> set ks. length k \<le> trie_depth ks - 2" using trie_depth_bound[of _ ks] by fastforce
      from trie_delete_difference[OF assms(2) db depth False assms(3) keys reps[unfolded disk_of_def] bound, of "[]"]
      obtain n' txn' where r: "trie_delete (trie_depth ks) E (mt_db mt) n ks 0 [] = (Ok (map (\<lambda>k. k \<in> K) ks), n', txn')"
        "after_delete E (disk_of mt) [] n' (K - set ks)" "writes E [] K (K - set ks) [] txn'"
        "K - set ks = {} \<longrightarrow> map_of txn' (trie_key [] None) = Some None"
        by (auto simp: deletes_def disk_of_def)
      obtain k where k: "k \<in> set ks" using False by (cases ks) auto
      have "\<not> is_leaf n"
        using reps_inner_iff[of E "disk_of mt" "[]" "tn_hash n" "tn_items n" "tn_children n" "tn_key n" K] reps inner_root[OF ne]
          chars_not_empty[of "[]" K] keys_ok_mono[OF keys, of K]
        by (auto simp: is_leaf_def children_ok_def)
      with trie_delete_calm[OF r(1) keys_head[OF assms(4) k]] have "calm (hd k) n'" by simp
      moreover have "hd x = hd k" if "x \<in> K" for x
        using assms(4) that k unfolding sync_ids_ok_def same_head_def by blast
      ultimately have "\<forall>x \<in> K - set ks. calm (hd x) n'" by auto
      moreover have "saved E (overlay txn' (overlay (mt_txn_batch mt) (disk_of mt))) (K - set ks)"
        using r(3,4) saved by (simp add: saved_def writes_def overlay_def)
      moreover have "node_rep E (disk_of mt) [] n' (K - set ks)"
        using r(2) by (auto simp: after_delete_def node_rep_def TIMESTAMP_LENGTH_def)
      ultimately show ?thesis using r(1) by blast
    qed
  qed
qed

section \<open>Reading\<close>

lemma MerkleTrie_exists_ok:
  assumes "holds_ids E K mt" "sync_ids_ok (insert key K)"
  shows "\<exists>mt'. MerkleTrie_exists E key mt = (Ok (key \<in> K), mt') \<and> holds_ids E K mt'"
proof -
  obtain n where n: "mt_root mt = Some n" "node_rep E (disk_of mt) [] n K" using assms(1) by (auto simp: holds_ids_def)
  have "rdb_native_open (mt_db mt)" "keys_ok [] (insert key K)"
    using assms by (simp_all add: holds_ids_def sync_ids_ok_def)
  from trie_exists_iff[OF this n(2)[unfolded disk_of_def]] obtain n' where
    "trie_exists E (mt_db mt) n key 0 = (Ok (key \<in> K), n')" "node_rep E (disk_of mt) [] n' K"
    by (auto simp: disk_of_def)
  then show ?thesis
    using assms(1) n(1) by (auto simp: MerkleTrie_exists_def read_trie_def with_root_def holds_ids_def disk_of_def)
qed

lemma held_root:
  assumes "holds_ids E K mt" "K \<noteq> {}"
  obtains n where "mt_root mt = Some n" "reps E (disk_of mt) [] n K" "tn_hash n = key_hash E [] K" "tn_items n = card K"
proof -
  obtain n where "mt_root mt = Some n" "reps E (disk_of mt) [] n K" using assms by (auto simp: holds_ids_def node_rep_def)
  then show ?thesis using that reps_hash by blast
qed

lemma root_of_held:
  assumes "holds_ids E K mt" "K \<noteq> {}"
  shows "MerkleTrie_root_hash mt = (Ok (key_hash E [] K), mt)" "MerkleTrie_items mt = (Ok (card K), mt)"
proof -
  obtain n where n: "mt_root mt = Some n" "tn_hash n = key_hash E [] K" "tn_items n = card K"
    using held_root[OF assms] by blast
  moreover have "mt\<lparr>mt_root := Some n, mt_poisoned := False\<rparr> = mt" using n(1) assms(1) by (simp add: holds_ids_def)
  ultimately show "MerkleTrie_root_hash mt = (Ok (key_hash E [] K), mt)" "MerkleTrie_items mt = (Ok (card K), mt)"
    using assms(1) by (simp_all add: MerkleTrie_root_hash_def MerkleTrie_items_def read_trie_def with_root_def holds_ids_def)
qed

section \<open>Starting and stopping\<close>

lemma empty_root_saved:
  assumes "coder_ok E"
  shows "saved E (overlay (batch_insert (trie_key [] None, Some (trie_serialize E new_TrieNode)) b) g) {}"
proof -
  have "trie_deserialize E (trie_serialize E new_TrieNode) = Ok (TrieNode [] 0 [] (Some []))"
    using assms by (simp add: trie_deserialize_def trie_serialize_def new_TrieNode_def key_or_empty_def coder_ok_def)
  then show ?thesis
    by (simp add: saved_def overlay_def map_of_batch_insert empty_rep_def TIMESTAMP_LENGTH_def)
qed

lemma MerkleTrie_clear_ok:
  assumes "coder_ok E" "rdb_native_open (mt_db mt)" "\<not> mt_poisoned mt"
  shows "\<exists>mt'. MerkleTrie_clear E mt = (Ok (), mt') \<and> holds_ids E {} mt' \<and> mt_db_owned mt' = mt_db_owned mt"
  using assms empty_root_saved[OF assms(1), of "[]"] new_TrieNode_rep
  by (simp add: MerkleTrie_clear_def RocksDB_clear_def create_empty_root_def Let_def holds_ids_def disk_of_def sync_ids_ok_def
      keys_ok_def prefix_free_def same_head_def db_inv_def)

text \<open>What is on disk after stopping is what is held after starting again.\<close>

theorem restart_ok:
  assumes "holds_ids E K mt" "coder_ok E" "mt_db_owned mt"
  shows "\<exists>mt1 mt2. MerkleTrie_stop mt = (Ok (), mt1) \<and> MerkleTrie_initialize E locked mt1 = (Ok (), mt2) \<and> holds_ids E K mt2"
proof -
  note h = assms(1)[unfolded holds_ids_def disk_of_def]
  obtain n where n: "mt_root mt = Some n" using h by blast
  let ?s = "commit_batch (rev (mt_txn_batch mt)) (rdb_disk (mt_db mt))"
  let ?db = "(mt_db mt)\<lparr>rdb_disk := ?s, rdb_native_open := False\<rparr>"
  let ?mt1 = "mt\<lparr>mt_root := None, mt_txn_batch := [], mt_db := ?db\<rparr>"
  have stop: "MerkleTrie_stop mt = (Ok (), ?mt1)"
    using h n assms(3) by (simp add: MerkleTrie_stop_def unload_from_memory_def native_commit_def)
  let ?mt = "?mt1\<lparr>mt_db := ?db\<lparr>rdb_native_open := True\<rparr>\<rparr>"
  have saved: "saved E (db_get ?s) K" using h by (simp add: commit_overlay)
  have base: "holds_ids E K (?mt\<lparr>mt_root := Some m\<rparr>)" if "node_rep E (db_get ?s) [] m K" for m
    using h that saved by (simp add: holds_ids_def disk_of_def commit_inv)
  have init: "MerkleTrie_initialize E locked ?mt1 =
      (case db_get ?s (trie_key [] None) of
         Some b \<Rightarrow> (case trie_deserialize E b of Ok node \<Rightarrow> (Ok (), ?mt\<lparr>mt_root := Some node\<rparr>)
                      | Err e \<Rightarrow> (Err e, ?mt) | Throw t \<Rightarrow> (Throw t, ?mt))
       | None \<Rightarrow> create_empty_root E ?mt)"
    using h assms(3)
    by (simp add: MerkleTrie_initialize_def trie_db_get_def when_open_def Let_def split: option.split outcome.split)
  show ?thesis
  proof (cases "K = {}")
    case False
    have "stored E (db_get ?s) [] K" "keys_ok [] K" using saved h by (simp_all add: saved_def sync_ids_ok_def)
    from load_stored[OF this(1) False this(2)] obtain b m where
      b: "db_get ?s (trie_key [] None) = Some b" "trie_deserialize E b = Ok m" "reps E (db_get ?s) [] m K" by blast
    with init base[of m] stop False show ?thesis by (simp add: node_rep_def)
  next
    case empty: True
    show ?thesis
    proof (cases "db_get ?s (trie_key [] None)")
      case None
      have "holds_ids E K (snd (create_empty_root E ?mt)) \<and> fst (create_empty_root E ?mt) = Ok ()"
        using base[of new_TrieNode] new_TrieNode_rep empty_root_saved[OF assms(2), of "[]"] empty
        by (simp add: create_empty_root_def Let_def holds_ids_def disk_of_def)
      with None init stop show ?thesis by (cases "create_empty_root E ?mt") simp
    next
      case (Some b)
      with saved empty obtain m where "trie_deserialize E b = Ok m" "empty_rep [] m" by (auto simp: saved_def)
      with Some init base[of m] stop empty show ?thesis by (simp add: node_rep_def)
    qed
  qed
qed

section \<open>Batches\<close>

text \<open>A batch of insertions and deletions: first the union, then the difference.\<close>

theorem batch_update_ok:
  assumes "holds_ids E K mt" "coder_ok E" "distinct ins" "distinct del" "sync_ids_ok (K \<union> set ins \<union> set del)"
  shows "\<exists>mt'. rsMerkleTrieBatchUpdate E ins del mt = (Ok (map (\<lambda>k. k \<notin> K) ins @ map (\<lambda>k. k \<in> K \<union> set ins) del), mt') \<and>
     holds_ids E (K \<union> set ins - set del) mt' \<and> mt_db_owned mt' = mt_db_owned mt"
proof -
  have "sync_ids_ok (K \<union> set ins)" by (rule sync_ids_mono[OF assms(5)]) blast
  from MerkleTrie_insert_ok[OF assms(1-3) this] obtain mt1 where
    i: "MerkleTrie_insert E ins mt = (Ok (map (\<lambda>k. k \<notin> K) ins), mt1)" "holds_ids E (K \<union> set ins) mt1"
    "mt_db_owned mt1 = mt_db_owned mt" by blast
  from MerkleTrie_delete_ok[OF i(2) assms(2,4,5)] i show ?thesis
    by (auto simp: rsMerkleTrieBatchUpdate_def)
qed

text \<open>Unloading twice in a row loses what is held: the first time the children are left to the database, the second
  time they are dropped.\<close>

lemma unload_twice: "tn_children (unload_children (unload_children n)) = []"
  by (cases n) (auto simp: unload_children_def set_children_def List.map_filter_def filter_empty_conv split: TrieNodeType.splits option.splits)

end
