(* ===== verification/SyncQueue.thy ===== *)
theory SyncQueue
  imports MerkleSets
begin

text \<open>
  The updates of \<^verbatim>\<open>merkleTrie.ts\<close> against the set of ids they ask for: whatever arrives while a batch is with the
  native trie, the trie ends up with the set that the calls give one after the other, and no update is left waiting.
\<close>

section \<open>Sync ids as keys of the trie\<close>

text \<open>Up to the year 2052 the time of an id begins with a zero.\<close>

definition early_id :: "bytes \<Rightarrow> bool" where
  "early_id i \<longleftrightarrow> well_formed_id i \<and> hd i = 48"

lemma early_ids_ok:
  assumes "finite K" "card K < 2 ^ 32" "\<forall>i \<in> K. early_id i"
  shows "sync_ids_ok K"
proof -
  have "TIMESTAMP_LENGTH \<le> length i" if "i \<in> K" for i
  proof -
    have "well_formed_id i" using assms(3) that by (simp add: early_id_def)
    then obtain t b where "0 \<le> t" "t < 10 ^ 10" "i = fromTimestamp t b" unfolding well_formed_id_def by blast
    then show ?thesis by (simp add: fromTimestamp_def utf8_padded_prefix time_bytes_length TIMESTAMP_LENGTH_def)
  qed
  moreover have "prefix_free K" using well_formed_prefix_free[of K] assms(3) by (simp add: early_id_def)
  ultimately show ?thesis using assms by (auto simp: sync_ids_ok_def keys_ok_def same_head_def early_id_def)
qed

section \<open>What the calls ask for\<close>

definition event_set :: "trie_event \<Rightarrow> bytes set \<Rightarrow> bytes set" where
  "event_set ev A =
     (case ev of InsertBytes ids \<Rightarrow> A \<union> set (map (snd \<circ> fst) ids) | DeleteByBytes ids \<Rightarrow> A - set (map (snd \<circ> fst) ids) | _ \<Rightarrow> A)"

definition ids_of :: "pending_updates \<Rightarrow> bytes set" where
  "ids_of ps = set (map (snd \<circ> fst) ps)"

text \<open>The references and the bytes they refer to: equal bytes come by the same reference.\<close>

definition refs_ok :: "(nat \<times> bytes) set \<Rightarrow> bool" where
  "refs_ok R \<longleftrightarrow> finite R \<and> inj_on snd R \<and> card R < 2 ^ 32 \<and> (\<forall>r \<in> R. early_id (snd r))"

definition event_refs :: "trie_event \<Rightarrow> (nat \<times> bytes) set" where
  "event_refs ev = (case ev of InsertBytes ids \<Rightarrow> fst ` set ids | DeleteByBytes ids \<Rightarrow> fst ` set ids | _ \<Rightarrow> {})"

definition pending_ok :: "(nat \<times> bytes) set \<Rightarrow> pending_updates \<Rightarrow> pending_updates \<Rightarrow> bool" where
  "pending_ok R ins del \<longleftrightarrow>
     distinct (map fst ins) \<and> distinct (map fst del) \<and> fst ` set ins \<union> fst ` set del \<subseteq> R \<and> fst ` set ins \<inter> fst ` set del = {}"

text \<open>The set that is asked for, from the set that is held, the batch that is under way and the updates that wait.\<close>

definition trie_queue_ok :: "trie_coder \<Rightarrow> (nat \<times> bytes) set \<Rightarrow> bytes set \<Rightarrow> trie_updates \<Rightarrow> bool" where
  "trie_queue_ok E R A u \<longleftrightarrow>
     (\<exists>K. holds_ids E K (tu_trie u) \<and> K \<subseteq> snd ` R \<and> pending_ok R (tu_inserts u) (tu_deletes u) \<and>
        (case tu_phase u of
           UpdateRunning ins del \<Rightarrow>
             pending_ok R ins del \<and> A = (K \<union> ids_of ins - ids_of del) \<union> ids_of (tu_inserts u) - ids_of (tu_deletes u)
         | UpdateSleeping \<Rightarrow> A = K \<union> ids_of (tu_inserts u) - ids_of (tu_deletes u)
         | UpdateIdle \<Rightarrow> A = K \<and> tu_inserts u = [] \<and> tu_deletes u = []))"

text \<open>The set below the updates that wait.\<close>

definition queue_base :: "trie_coder \<Rightarrow> (nat \<times> bytes) set \<Rightarrow> bytes set \<Rightarrow> trie_updates \<Rightarrow> bool" where
  "queue_base E R B u \<longleftrightarrow>
     (\<exists>K. holds_ids E K (tu_trie u) \<and> K \<subseteq> snd ` R \<and>
        (case tu_phase u of
           UpdateRunning ins del \<Rightarrow> pending_ok R ins del \<and> B = K \<union> ids_of ins - ids_of del
         | _ \<Rightarrow> B = K))"

definition waiting_ok :: "trie_coder \<Rightarrow> (nat \<times> bytes) set \<Rightarrow> bytes set \<Rightarrow> trie_updates \<Rightarrow> bool" where
  "waiting_ok E R A u \<longleftrightarrow>
     pending_ok R (tu_inserts u) (tu_deletes u) \<and>
     (\<exists>B. queue_base E R B u \<and> A = B \<union> ids_of (tu_inserts u) - ids_of (tu_deletes u))"

lemma trie_queue_ok_waiting: "trie_queue_ok E R A u \<longleftrightarrow> waiting_ok E R A u \<and> (tu_phase u = UpdateIdle \<longrightarrow> countPendingUpdates u = 0)"
  by (cases "tu_phase u") (auto simp: trie_queue_ok_def waiting_ok_def queue_base_def countPendingUpdates_def ids_of_def)

lemma ids_of_alt: "ids_of ps = snd ` (fst ` set ps)"
  by (force simp: ids_of_def)

lemma ids_of_batch_insert: "ids_of (batch_insert e ps) = insert (snd (fst e)) (ids_of ps)"
  by (simp add: ids_of_alt batch_insert_keys)

lemma take_pending_keys:
  "fst ` set (snd (take_pending r ps)) = fst ` set ps - {r}"
  "distinct (map fst ps) \<Longrightarrow> distinct (map fst (snd (take_pending r ps)))"
  by (auto simp: take_pending_def map_of_eq_None_iff distinct_map_filter split: option.split)

lemma ids_of_taken:
  assumes "refs_ok R" "r \<in> R" "fst ` set ps \<subseteq> R"
  shows "ids_of (snd (take_pending r ps)) = ids_of ps - {snd r}"
proof -
  have "inj_on snd R" using assms(1) by (simp add: refs_ok_def)
  from inj_on_image_set_diff[OF this, of "fst ` set ps" "{r}"] assms(2,3)
  show ?thesis by (auto simp: ids_of_alt take_pending_keys)
qed

lemma enqueue_other [simp]:
  "tu_trie (enqueue_insert e u) = tu_trie u" "tu_phase (enqueue_insert e u) = tu_phase u"
  "tu_trie (enqueue_delete e u) = tu_trie u" "tu_phase (enqueue_delete e u) = tu_phase u"
  by (simp_all add: enqueue_insert_def enqueue_delete_def split: prod.split)

lemma queue_base_enqueue [simp]:
  "queue_base E R B (enqueue_insert e u) = queue_base E R B u" "queue_base E R B (enqueue_delete e u) = queue_base E R B u"
  by (simp_all add: queue_base_def)

lemma waiting_insert:
  assumes "refs_ok R" "fst e \<in> R" "waiting_ok E R A u"
  shows "waiting_ok E R (insert (snd (fst e)) A) (enqueue_insert e u)"
proof -
  let ?t = "snd (take_pending (fst e) (tu_deletes u))"
  have p: "pending_ok R (tu_inserts u) (tu_deletes u)" using assms(3) by (simp add: waiting_ok_def)
  have q: "tu_inserts (enqueue_insert e u) = batch_insert e (tu_inserts u)" "tu_deletes (enqueue_insert e u) = ?t"
    by (simp_all add: enqueue_insert_def split: prod.split)
  have "ids_of ?t = ids_of (tu_deletes u) - {snd (fst e)}"
    using ids_of_taken[OF assms(1,2)] p by (simp add: pending_ok_def)
  moreover have "pending_ok R (batch_insert e (tu_inserts u)) ?t"
    using p assms(2) take_pending_keys by (auto simp: pending_ok_def batch_insert_distinct batch_insert_keys)
  ultimately show ?thesis using assms(3) by (auto simp: waiting_ok_def q ids_of_batch_insert)
qed

lemma waiting_delete:
  assumes "refs_ok R" "fst e \<in> R" "waiting_ok E R A u"
  shows "waiting_ok E R (A - {snd (fst e)}) (enqueue_delete e u)"
proof -
  let ?t = "snd (take_pending (fst e) (tu_inserts u))"
  have p: "pending_ok R (tu_inserts u) (tu_deletes u)" using assms(3) by (simp add: waiting_ok_def)
  have q: "tu_deletes (enqueue_delete e u) = batch_insert e (tu_deletes u)" "tu_inserts (enqueue_delete e u) = ?t"
    by (simp_all add: enqueue_delete_def split: prod.split)
  have "ids_of ?t = ids_of (tu_inserts u) - {snd (fst e)}"
    using ids_of_taken[OF assms(1,2)] p by (simp add: pending_ok_def)
  moreover have "pending_ok R ?t (batch_insert e (tu_deletes u))"
    using p assms(2) take_pending_keys by (auto simp: pending_ok_def batch_insert_distinct batch_insert_keys)
  ultimately show ?thesis using assms(3) by (auto simp: waiting_ok_def q ids_of_batch_insert)
qed

lemma waiting_inserts:
  "refs_ok R \<Longrightarrow> fst ` set ids \<subseteq> R \<Longrightarrow> waiting_ok E R A u \<Longrightarrow> waiting_ok E R (A \<union> ids_of ids) (fold enqueue_insert ids u)"
proof (induction ids arbitrary: A u)
  case (Cons e ids)
  have "insert (snd (fst e)) A \<union> ids_of ids = A \<union> ids_of (e # ids)" by (auto simp: ids_of_def)
  with Cons.IH[OF Cons.prems(1) _ waiting_insert[OF Cons.prems(1) _ Cons.prems(3)], of e] Cons.prems(2) show ?case by simp
qed (simp add: ids_of_def)

lemma waiting_deletes:
  "refs_ok R \<Longrightarrow> fst ` set ids \<subseteq> R \<Longrightarrow> waiting_ok E R A u \<Longrightarrow> waiting_ok E R (A - ids_of ids) (fold enqueue_delete ids u)"
proof (induction ids arbitrary: A u)
  case (Cons e ids)
  have "A - {snd (fst e)} - ids_of ids = A - ids_of (e # ids)" by (auto simp: ids_of_def)
  with Cons.IH[OF Cons.prems(1) _ waiting_delete[OF Cons.prems(1) _ Cons.prems(3)], of e] Cons.prems(2) show ?case by simp
qed (simp add: ids_of_def)

text \<open>Handing a batch to the native trie.\<close>

lemma next_batch_ok:
  assumes "waiting_ok E R A u" "\<forall>ins del. tu_phase u \<noteq> UpdateRunning ins del"
  shows "trie_queue_ok E R A (next_batch u)"
  using assms
  by (cases "tu_phase u")
    (auto simp: waiting_ok_def queue_base_def trie_queue_ok_def next_batch_def countPendingUpdates_def ids_of_def pending_ok_def)

lemma trigger_ok:
  assumes "waiting_ok E R A u"
  shows "trie_queue_ok E R A (trigger_update u)"
proof (cases "tu_phase u = UpdateIdle")
  case True
  with next_batch_ok[OF assms] show ?thesis by (simp add: trigger_update_def)
next
  case False
  with assms show ?thesis by (simp add: trigger_update_def trie_queue_ok_waiting)
qed

section \<open>The native trie is done\<close>

lemma refs_sync_ids:
  assumes "refs_ok R" "K \<subseteq> snd ` R"
  shows "sync_ids_ok K"
proof (rule sync_ids_mono[OF early_ids_ok assms(2)])
  show "finite (snd ` R)" "card (snd ` R) < 2 ^ 32" "\<forall>i \<in> snd ` R. early_id i"
    using assms(1) card_image_le[of R snd] by (auto simp: refs_ok_def)
qed

lemma distinct_bytes:
  assumes "refs_ok R" "distinct (map fst ps)" "fst ` set ps \<subseteq> R"
  shows "distinct (map (snd \<circ> fst) ps)"
proof -
  have "inj_on snd (fst ` set ps)" using assms(1,3) by (auto simp: refs_ok_def intro: inj_on_subset)
  then show ?thesis using assms(2) by (simp add: distinct_map comp_inj_on)
qed

lemma batch_done_ok:
  assumes "refs_ok R" "coder_ok E" "trie_queue_ok E R A u"
  shows "trie_queue_ok E R A (batch_done E u)" "\<forall>ins del. tu_phase (batch_done E u) \<noteq> UpdateRunning ins del"
proof -
  have "trie_queue_ok E R A (batch_done E u) \<and> (\<forall>ins del. tu_phase (batch_done E u) \<noteq> UpdateRunning ins del)"
  proof (cases "tu_phase u")
    case (UpdateRunning ins del)
    let ?I = "map (snd \<circ> fst) ins" and ?D = "map (snd \<circ> fst) del"
    obtain K where K: "holds_ids E K (tu_trie u)" "K \<subseteq> snd ` R" "pending_ok R (tu_inserts u) (tu_deletes u)" "pending_ok R ins del"
      "A = (K \<union> ids_of ins - ids_of del) \<union> ids_of (tu_inserts u) - ids_of (tu_deletes u)"
      using assms(3) UpdateRunning by (auto simp: trie_queue_ok_def)
    have d: "distinct ?I" "distinct ?D"
      using K(4) unfolding pending_ok_def by (intro distinct_bytes[OF assms(1)]; blast)+
    have sub: "K \<union> set ?I \<union> set ?D \<subseteq> snd ` R" 
      using K(2,4) image_mono[of "fst ` set ins" R snd] image_mono[of "fst ` set del" R snd]
      by (simp add: pending_ok_def image_comp o_def)
    from batch_update_ok[OF K(1) assms(2) d refs_sync_ids[OF assms(1) this]] obtain r mt where
      mt: "rsMerkleTrieBatchUpdate E ?I ?D (tu_trie u) = (r, mt)" "holds_ids E (K \<union> set ?I - set ?D) mt" by blast
    have "K \<union> set ?I - set ?D \<subseteq> snd ` R" using sub by blast
    then show ?thesis using mt K(3,5) UpdateRunning by (auto simp: batch_done_def trie_queue_ok_def ids_of_def Let_def)
  qed (use assms(3) in \<open>simp_all add: batch_done_def\<close>)
  then show "trie_queue_ok E R A (batch_done E u)" "\<forall>ins del. tu_phase (batch_done E u) \<noteq> UpdateRunning ins del" by blast+
qed

lemma sleep_done_ok:
  assumes "trie_queue_ok E R A u"
  shows "trie_queue_ok E R A (sleep_done u)"
proof (cases "tu_phase u = UpdateSleeping")
  case True
  with next_batch_ok[of E R A u] assms show ?thesis by (simp add: sleep_done_def trie_queue_ok_waiting)
next
  case False
  with assms show ?thesis by (simp add: sleep_done_def)
qed

lemma trie_step_ok:
  assumes "refs_ok R" "coder_ok E" "event_refs ev \<subseteq> R" "trie_queue_ok E R A u"
  shows "trie_queue_ok E R (event_set ev A) (trie_step E ev u)"
proof (cases ev)
  case (InsertBytes ids)
  with assms trigger_ok[OF waiting_inserts[OF assms(1)], of ids E A u] show ?thesis
    by (simp add: trie_step_def event_set_def event_refs_def insertBytes_def trie_queue_ok_waiting ids_of_def)
next
  case (DeleteByBytes ids)
  with assms trigger_ok[OF waiting_deletes[OF assms(1)], of ids E A u] show ?thesis
    by (simp add: trie_step_def event_set_def event_refs_def deleteByBytes_def trie_queue_ok_waiting ids_of_def)
next
  case BatchDone
  with batch_done_ok(1)[OF assms(1,2,4)] show ?thesis by (simp add: trie_step_def event_set_def)
next
  case SleepDone
  with sleep_done_ok[OF assms(4)] show ?thesis by (simp add: trie_step_def event_set_def)
qed

section \<open>Runs\<close>

definition run_trie :: "trie_coder \<Rightarrow> trie_event list \<Rightarrow> trie_updates \<Rightarrow> trie_updates" where
  "run_trie E evs u = fold (trie_step E) evs u"

lemma run_trie_ok:
  assumes "refs_ok R" "coder_ok E"
  shows "\<forall>ev \<in> set evs. event_refs ev \<subseteq> R \<Longrightarrow> trie_queue_ok E R A u \<Longrightarrow> trie_queue_ok E R (fold event_set evs A) (run_trie E evs u)"
proof (induction evs arbitrary: A u)
  case (Cons ev evs)
  with trie_step_ok[OF assms, of ev A u] show ?case by (simp add: run_trie_def)
qed (simp add: run_trie_def)

text \<open>When nothing new arrives, two batches are enough to be done.\<close>

definition drain :: "trie_event list" where
  "drain = [BatchDone, SleepDone, BatchDone, SleepDone]"

lemma drained_idle: "tu_phase (run_trie E drain u) = UpdateIdle"
proof -
  have next': "tu_phase (next_batch u) = UpdateIdle \<or> (\<exists>i d. tu_phase (next_batch u) = UpdateRunning i d \<and> countPendingUpdates (next_batch u) = 0)" for u
    by (simp add: next_batch_def countPendingUpdates_def)
  have idle: "tu_phase v = UpdateIdle \<Longrightarrow> batch_done E v = v \<and> sleep_done v = v" for v
    by (simp add: batch_done_def sleep_done_def)
  have batch: "tu_phase v = UpdateRunning i d \<Longrightarrow> tu_phase (batch_done E v) = UpdateSleeping \<and>
      countPendingUpdates (batch_done E v) = countPendingUpdates v" for v i d
    by (simp add: batch_done_def countPendingUpdates_def Let_def split: prod.split)
  have last: "tu_phase (sleep_done (batch_done E v)) = UpdateIdle"
    if "tu_phase v = UpdateIdle \<or> (\<exists>i d. tu_phase v = UpdateRunning i d \<and> countPendingUpdates v = 0)" for v
    using that batch[of v] idle[of v] by (auto simp: sleep_done_def next_batch_def)
  have "tu_phase (sleep_done (batch_done E u)) = UpdateIdle \<or>
      (\<exists>i d. tu_phase (sleep_done (batch_done E u)) = UpdateRunning i d \<and> countPendingUpdates (sleep_done (batch_done E u)) = 0)"
  proof (cases "tu_phase u")
    case (UpdateRunning i d)
    with batch[OF this] next'[of "batch_done E u"] show ?thesis by (simp add: sleep_done_def)
  next
    case UpdateSleeping
    then have "batch_done E u = u" by (simp add: batch_done_def)
    with UpdateSleeping next'[of u] show ?thesis by (simp add: sleep_done_def)
  qed (simp add: idle)
  from last[OF this] show ?thesis by (simp add: run_trie_def drain_def trie_step_def)
qed

lemma fold_drain: "fold event_set drain A = A"
  by (simp add: drain_def event_set_def)

text \<open>After any calls, interleaved with the batches in any way, the trie holds what the calls ask for in their order.\<close>

theorem queue_drained:
  assumes "refs_ok R" "coder_ok E" "\<forall>ev \<in> set evs. event_refs ev \<subseteq> R" "holds_ids E K mt" "K \<subseteq> snd ` R"
  shows "holds_ids E (fold event_set evs K) (tu_trie (run_trie E (evs @ drain) (new_trie_updates mt)))"
    "countPendingUpdates (run_trie E (evs @ drain) (new_trie_updates mt)) = 0"
proof -
  have start: "trie_queue_ok E R K (new_trie_updates mt)"
    using assms(4,5) by (simp add: trie_queue_ok_def new_trie_updates_def pending_ok_def)
  have refs: "\<forall>ev \<in> set (evs @ drain). event_refs ev \<subseteq> R" using assms(3) by (auto simp: drain_def event_refs_def)
  have "trie_queue_ok E R (fold event_set evs K) (run_trie E (evs @ drain) (new_trie_updates mt))"
    using run_trie_ok[OF assms(1,2) refs start] by (simp add: fold_drain)
  moreover have "tu_phase (run_trie E (evs @ drain) (new_trie_updates mt)) = UpdateIdle"
    using drained_idle[of E "run_trie E evs (new_trie_updates mt)"] by (simp add: run_trie_def)
  ultimately show "holds_ids E (fold event_set evs K) (tu_trie (run_trie E (evs @ drain) (new_trie_updates mt)))"
    "countPendingUpdates (run_trie E (evs @ drain) (new_trie_updates mt)) = 0"
    by (auto simp: trie_queue_ok_def countPendingUpdates_def)
qed

text \<open>Two references to the same bytes: the deletion that was asked for first is done last.\<close>

theorem equal_bytes_swapped:
  assumes "coder_ok E" "holds_ids E {} mt" "early_id x" "early_id y" "x \<noteq> y"
  shows "holds_ids E {y} (tu_trie (run_trie E
     ([InsertBytes [((0, y), 0)], DeleteByBytes [((1, x), 1)], InsertBytes [((2, x), 2)]] @ drain) (new_trie_updates mt)))"
proof -
  have ids: "sync_ids_ok {x, y}" using assms(3,4) by (intro early_ids_ok) (auto simp: card_insert_if)
  then have "sync_ids_ok ({} \<union> set [y] \<union> set [])" by (rule sync_ids_mono) simp
  from batch_update_ok[OF assms(2,1) _ _ this] obtain r1 mt1 where
    b1: "rsMerkleTrieBatchUpdate E [y] [] mt = (Ok r1, mt1)" "holds_ids E {y} mt1" by auto
  have "sync_ids_ok ({y} \<union> set [x] \<union> set [x])" using ids by (simp add: insert_commute)
  from batch_update_ok[OF b1(2) assms(1) _ _ this] obtain r2 mt2 where
    b2: "rsMerkleTrieBatchUpdate E [x] [x] mt1 = (Ok r2, mt2)" "holds_ids E ({y} \<union> {x} - {x}) mt2" by auto
  have "{y} \<union> {x} - {x} = {y}" using assms(5) by blast
  with b1 b2 show ?thesis
    by (simp add: run_trie_def drain_def trie_step_def new_trie_updates_def insertBytes_def deleteByBytes_def
        enqueue_insert_def enqueue_delete_def take_pending_def trigger_update_def next_batch_def countPendingUpdates_def
        batch_done_def sleep_done_def Let_def)
qed

section \<open>One hash for one set\<close>

definition apply_batches :: "trie_coder \<Rightarrow> (bytes list \<times> bytes list) list \<Rightarrow> MerkleTrie \<Rightarrow> MerkleTrie" where
  "apply_batches E bs mt = fold (\<lambda>(ins, del) mt. snd (rsMerkleTrieBatchUpdate E ins del mt)) bs mt"

definition batches_set :: "(bytes list \<times> bytes list) list \<Rightarrow> bytes set \<Rightarrow> bytes set" where
  "batches_set bs K = fold (\<lambda>(ins, del) K. K \<union> set ins - set del) bs K"

definition batches_ok :: "bytes set \<Rightarrow> (bytes list \<times> bytes list) list \<Rightarrow> bool" where
  "batches_ok U bs \<longleftrightarrow> (\<forall>(ins, del) \<in> set bs. distinct ins \<and> distinct del \<and> set ins \<union> set del \<subseteq> U)"

lemma apply_batches_ok:
  assumes "coder_ok E" "sync_ids_ok U"
  shows "batches_ok U bs \<Longrightarrow> holds_ids E K mt \<Longrightarrow> K \<subseteq> U \<Longrightarrow>
     holds_ids E (batches_set bs K) (apply_batches E bs mt) \<and> batches_set bs K \<subseteq> U"
proof (induction bs arbitrary: K mt)
  case (Cons b bs)
  obtain ins del where b: "b = (ins, del)" by fastforce
  have ok: "distinct ins" "distinct del" "set ins \<union> set del \<subseteq> U" "batches_ok U bs"
    using Cons.prems(1) by (auto simp: batches_ok_def b)
  have "sync_ids_ok (K \<union> set ins \<union> set del)" by (rule sync_ids_mono[OF assms(2)]) (use ok(3) Cons.prems(3) in blast)
  from batch_update_ok[OF Cons.prems(2) assms(1) ok(1,2) this] obtain mt' where
    "snd (rsMerkleTrieBatchUpdate E ins del mt) = mt'" "holds_ids E (K \<union> set ins - set del) mt'" by auto
  moreover have "K \<union> set ins - set del \<subseteq> U" using ok(3) Cons.prems(3) by blast
  ultimately show ?case
    using Cons.IH[OF ok(4)] by (simp add: b apply_batches_def batches_set_def)
qed (simp add: apply_batches_def batches_set_def)

lemma root_hash_of_held:
  "holds_ids E K mt \<Longrightarrow> K \<noteq> {} \<Longrightarrow> fst (rsMerkleTrieRootHash mt) = Ok (buffer_hex (key_hash E [] K))"
  by (simp add: rsMerkleTrieRootHash_def root_of_held mapOk_def)

end
