(* ===== verification/SyncSamples.thy ===== *)
theory SyncSamples
  imports Samples SyncQueue
begin

text \<open>Concrete values for the properties of the trie of sync ids: a coder of nodes, ids and tries.\<close>

section \<open>A coder of nodes\<close>

text \<open>Every byte of a list after a one, and a zero at the end.\<close>

definition sample_put :: "bytes \<Rightarrow> bytes" where
  "sample_put bs = concat (map (\<lambda>b. [1, b]) bs) @ [0]"

fun sample_take :: "bytes \<Rightarrow> (bytes \<times> bytes) option" where
  "sample_take [] = None"
| "sample_take [x] = (if x = 0 then Some ([], []) else None)"
| "sample_take (x # b # r) =
     (if x = 0 then Some ([], b # r)
      else (case sample_take r of Some (k, r) \<Rightarrow> Some (b # k, r) | None \<Rightarrow> None))"

lemma sample_take_put: "sample_take (sample_put k @ r) = Some (k, r)"
proof (induction k)
  case Nil
  show ?case by (cases r) (simp_all add: sample_put_def)
next
  case (Cons b k)
  then show ?case by (simp add: sample_put_def)
qed

definition sample_trie_coder :: trie_coder where
  "sample_trie_coder =
     \<lparr>encodeDbTrieNode = (\<lambda>n.
        be_bytes 4 (dtn_items n) @ sample_put (dtn_key n) @ sample_put (map word_of_int (dtn_childChars n)) @ sample_put (dtn_hash n)),
      decodeDbTrieNode = (\<lambda>b.
        case sample_take (drop 4 b) of
          Some (k, r) \<Rightarrow>
            (case sample_take r of
               Some (cs, r) \<Rightarrow>
                 (case sample_take r of
                    Some (h, r) \<Rightarrow>
                      Ok \<lparr>dtn_key = k, dtn_childChars = map uint cs, dtn_items = be_int (take 4 b), dtn_hash = h\<rparr>
                  | None \<Rightarrow> Throw TypeError)
             | None \<Rightarrow> Throw TypeError)
        | None \<Rightarrow> Throw TypeError),
      trie_blake3 = (\<lambda>b. [of_nat (length b), fold (\<lambda>x y. x + 31 * y) b 7])\<rparr>"

lemma sample_trie_coder_ok: "coder_ok sample_trie_coder"
proof -
  have "map (uint \<circ> (word_of_int :: int \<Rightarrow> byte)) cs = cs" if "\<forall>c \<in> set cs. 0 \<le> c \<and> c < 256" for cs
    using that by (intro map_idI) (simp add: uint_word_of_int)
  moreover have "256 ^ 4 = (2 :: int) ^ 32" by simp
  ultimately show ?thesis
    using sample_take_put[of _ "[]"]
    by (auto simp: coder_ok_def sample_trie_coder_def sample_take_put be_int_be_bytes)
qed

section \<open>Ids and tries\<close>

definition sample_id :: "byte \<Rightarrow> bytes" where
  "sample_id b = fromTimestamp 100 (1 # replicate 24 0 @ [b])"

lemma sample_id_early: "early_id (sample_id b)"
proof -
  have "well_formed_id (sample_id b)"
    unfolding well_formed_id_def sample_id_def
    by (intro exI[of _ 100] exI[of _ "1 # replicate 24 0 @ [b]"]) simp
  moreover have "hd (sample_id b) = 48"
  proof -
    have "hd (time_bytes 100) = 48" "time_bytes 100 \<noteq> []" by (code_simp, code_simp)
    then show ?thesis by (simp add: sample_id_def fromTimestamp_def utf8_padded_prefix)
  qed
  ultimately show ?thesis by (simp add: early_id_def)
qed

lemma sample_id_inject: "sample_id b = sample_id c \<longleftrightarrow> b = c"
  by (simp add: sample_id_def fromTimestamp_def)

definition sample_trie :: MerkleTrie where
  "sample_trie = snd (MerkleTrie_clear sample_trie_coder (new_MerkleTrie (sample_db []) True))"

lemma sample_trie_holds: "holds_ids sample_trie_coder {} sample_trie" "mt_db_owned sample_trie"
  using MerkleTrie_clear_ok[OF sample_trie_coder_ok, of "new_MerkleTrie (sample_db []) True"]
  by (auto simp: sample_trie_def new_MerkleTrie_def)

section \<open>Ids of a message, a name and an event\<close>

definition sample_name :: UserNameProof where
  "sample_name = sample_proof\<lparr>unp_name := utf8_encode [97, 98], unp_timestamp := 1700000000\<rparr>"

definition sample_timed_event :: OnChainEvent where
  "sample_timed_event = (sample_signer_event 1)\<lparr>oce_blockTimestamp := 1700000000\<rparr>"

lemma sample_name_text: "well_formed [97, 98]" "ascii [97, 98]" "take 3 (utf8_encode [97, 98]) \<noteq> [239, 187, 191]"
proof -
  show "well_formed [97, 98]" by (simp add: is_high_def is_low_def word_le_nat_alt)
  show a: "ascii [97, 98]" by (simp add: ascii_def)
  show "take 3 (utf8_encode [97, 98]) \<noteq> [239, 187, 191]" by (simp add: ascii_encode[OF a])
qed

lemma sample_sync_parts:
  "msg_data sample_message = Some sample_data" "md_fid sample_data = numI 1" "u32 1"
  "msg_hash sample_message = Some (replicate 20 7)" "length (replicate 20 (7 :: byte)) = HASH_LENGTH"
  "typeToSetPostfix (md_type sample_data) = Ok CastMessage" "u32 (md_timestamp sample_data)"
  by (simp_all add: sample_message_def sample_data_def typeToSetPostfix_def HASH_LENGTH_def)

lemma sample_ids_made:
  "\<exists>i. sync_fromMessage sample_message = Ok i" "\<exists>j. sync_fromFName sample_name = Ok j"
  "\<exists>k. sync_fromOnChainEvent sample_timed_event = Ok k" "bytesToUtf8String (unp_name sample_name) = Ok [97, 98]"
proof -
  have name: "bytesToUtf8String (unp_name sample_name) = Ok [97, 98]"
    using sample_name_text by (simp add: bytesToUtf8String_def strip_bom_def utf8_decode_encode utf16_code_points sample_name_def
        del: well_formed.simps code_points.simps)
  then show "bytesToUtf8String (unp_name sample_name) = Ok [97, 98]" .
  show "\<exists>i. sync_fromMessage sample_message = Ok i"
    using unpack_message[OF sample_sync_parts] by blast
  have time: "\<exists>t. toFarcasterTime (1700000000 * 1000) = Ok t"
    by (simp add: toFarcasterTime_def FARCASTER_EPOCH_def)
  then show "\<exists>j. sync_fromFName sample_name = Ok j"
    using name by (auto simp: sync_fromFName_def sample_name_def sample_proof_def makeFidKey_def mapOk_def)
  from time show "\<exists>k. sync_fromOnChainEvent sample_timed_event = Ok k"
    by (auto simp: sync_fromOnChainEvent_def sample_timed_event_def sample_signer_event_def sample_event_def
        makeOnChainEventPrimaryKey_def makeFidKey_def makeBlockNumberKey_def makeLogIndexKey_def mapOk_def)
qed

end
