(* ===== verification/NetworkTools.thy ===== *)
theory NetworkTools
  imports RateLimits Protobufs "HOL-Library.AList"
begin

text \<open>
  Small parts of the network layer: the filter of connections (\<^verbatim>\<open>network/p2p/connectionFilter.ts\<close>), the configuration
  that is fetched (\<^verbatim>\<open>network/utils/networkConfig.ts\<close>), bundles of messages (\<^verbatim>\<open>network/p2p/bundleCreator.ts\<close>), the
  writer of event streams (\<^verbatim>\<open>rpc/bufferedStreamWriter.ts\<close>), and the users, limits and error codes of
  \<^verbatim>\<open>rpc/server.ts\<close>. What is sent, written and closed is collected in the state.
\<close>

section \<open>Which peers may connect\<close>

record connection_filter =
  cf_allowedPeers :: "js_string list option"
  cf_deniedPeers :: "js_string list"

definition new_ConnectionFilter :: "js_string list option \<Rightarrow> js_string list option \<Rightarrow> connection_filter" where
  "new_ConnectionFilter addrs denied =
     \<lparr>cf_allowedPeers = addrs, cf_deniedPeers = (case denied of Some d \<Rightarrow> d | None \<Rightarrow> [])\<rparr>"

definition updateAllowedPeers :: "js_string list option \<Rightarrow> connection_filter \<Rightarrow> connection_filter" where
  "updateAllowedPeers addrs cf = cf\<lparr>cf_allowedPeers := addrs\<rparr>"

definition updateDeniedPeers :: "js_string list \<Rightarrow> connection_filter \<Rightarrow> connection_filter" where
  "updateDeniedPeers addrs cf = cf\<lparr>cf_deniedPeers := addrs\<rparr>"

definition addDeniedPeer :: "js_string \<Rightarrow> connection_filter \<Rightarrow> connection_filter" where
  "addDeniedPeer peerId cf = cf\<lparr>cf_deniedPeers := cf_deniedPeers cf @ [peerId]\<rparr>"

definition shouldDeny :: "js_string \<Rightarrow> connection_filter \<Rightarrow> bool" where
  "shouldDeny peerId cf =
     (if peerId = [] then True
      else if peerId \<in> set (cf_deniedPeers cf) then True
      else (case cf_allowedPeers cf of None \<Rightarrow> False | Some allowed \<Rightarrow> peerId \<notin> set allowed))"

definition denyDialPeer :: "js_string \<Rightarrow> connection_filter \<Rightarrow> bool" where
  "denyDialPeer = shouldDeny"

text \<open>The peer of an address is undefined (or empty) when the address does not name one.\<close>

definition denyDialMultiaddr :: "js_string option \<Rightarrow> connection_filter \<Rightarrow> bool" where
  "denyDialMultiaddr peerId cf = (case peerId of None \<Rightarrow> True | Some p \<Rightarrow> if p = [] then True else shouldDeny p cf)"

definition denyInboundConnection :: "connection_filter \<Rightarrow> bool" where
  "denyInboundConnection cf = False"

definition denyOutboundConnection :: "js_string \<Rightarrow> connection_filter \<Rightarrow> bool" where
  "denyOutboundConnection = shouldDeny"

definition denyInboundEncryptedConnection :: "js_string \<Rightarrow> connection_filter \<Rightarrow> bool" where
  "denyInboundEncryptedConnection = shouldDeny"

definition denyOutboundEncryptedConnection :: "js_string \<Rightarrow> connection_filter \<Rightarrow> bool" where
  "denyOutboundEncryptedConnection = shouldDeny"

definition denyInboundUpgradedConnection :: "js_string \<Rightarrow> connection_filter \<Rightarrow> bool" where
  "denyInboundUpgradedConnection = shouldDeny"

definition denyOutboundUpgradedConnection :: "js_string \<Rightarrow> connection_filter \<Rightarrow> bool" where
  "denyOutboundUpgradedConnection = shouldDeny"

definition filterMultiaddrForPeer :: "js_string \<Rightarrow> connection_filter \<Rightarrow> bool" where
  "filterMultiaddrForPeer peer cf \<longleftrightarrow> \<not> shouldDeny peer cf"

lemma shouldDeny_iff:
  "\<not> shouldDeny p cf \<longleftrightarrow>
     p \<noteq> [] \<and> p \<notin> set (cf_deniedPeers cf) \<and> (\<forall>allowed. cf_allowedPeers cf = Some allowed \<longrightarrow> p \<in> set allowed)"
  by (simp add: shouldDeny_def split: option.split)

section \<open>The configuration of the network\<close>

record NetworkConfig =
  nc_network :: int
  nc_allowedPeers :: "js_string list option"
  nc_deniedPeers :: "js_string list option"
  nc_minAppVersion :: js_string
  nc_allowlistedImmunePeers :: "js_string list option"
  nc_strictContactInfoValidation :: "bool option"
  nc_strictNoSign :: "bool option"
  nc_solanaVerificationsEnabled :: "bool option"
  nc_useStreaming :: "bool option"

record NetworkConfigResult =
  nr_allowedPeerIds :: "js_string list option"
  nr_deniedPeerIds :: "js_string list"
  nr_allowlistedImmunePeers :: "js_string list option"
  nr_strictContactInfoValidation :: "bool option"
  nr_strictNoSign :: "bool option"
  nr_shouldExit :: bool
  nr_solanaVerificationsEnabled :: "bool option"
  nr_useStreaming :: "bool option"

text \<open>\<^verbatim>\<open>[...new Set(xs)]\<close> keeps the first of equal values; \<open>js_or\<close> is \<^verbatim>\<open>||\<close> on booleans that may be undefined.\<close>

definition js_unique :: "'a list \<Rightarrow> 'a list" where
  "js_unique xs = rev (remdups (rev xs))"

definition js_or :: "bool option \<Rightarrow> bool option \<Rightarrow> bool option" where
  "js_or a b = (if a = Some True then a else b)"

text \<open>The settings the hub has are given as a result that does not ask it to stop; they stay as they are when the
  configuration is for another network.\<close>

definition applyNetworkConfig :: "version_env \<Rightarrow> js_string \<Rightarrow> NetworkConfig \<Rightarrow> int \<Rightarrow> NetworkConfigResult \<Rightarrow> NetworkConfigResult" where
  "applyNetworkConfig V appVersion config currentNetwork cur =
     (if nc_network config \<noteq> currentNetwork then cur\<lparr>nr_shouldExit := False\<rparr>
      else if semver_valid V (nc_minAppVersion config) \<and> semver_lt V appVersion (nc_minAppVersion config)
      then cur\<lparr>nr_shouldExit := True\<rparr>
      else
        (let allowed = (case nc_allowedPeers config of
                          Some ps \<Rightarrow> Some (js_unique ((case nr_allowedPeerIds cur of Some a \<Rightarrow> a | None \<Rightarrow> []) @ ps))
                        | None \<Rightarrow> nr_allowedPeerIds cur);
             allowed' = (case nc_deniedPeers config of
                           Some ds \<Rightarrow> map_option (filter (\<lambda>p. p \<notin> set ds)) allowed
                         | None \<Rightarrow> allowed);
             denied = (case nc_deniedPeers config of
                         Some ds \<Rightarrow> js_unique (nr_deniedPeerIds cur @ ds)
                       | None \<Rightarrow> []);
             immune = (case nc_allowlistedImmunePeers config of
                         Some ps \<Rightarrow> js_unique ((case nr_allowlistedImmunePeers cur of Some a \<Rightarrow> a | None \<Rightarrow> []) @ ps)
                       | None \<Rightarrow> [])
         in \<lparr>nr_allowedPeerIds = allowed', nr_deniedPeerIds = denied, nr_allowlistedImmunePeers = Some immune,
             nr_strictContactInfoValidation =
               js_or (nr_strictContactInfoValidation cur) (Some (nc_strictContactInfoValidation config = Some True)),
             nr_strictNoSign = js_or (nr_strictNoSign cur) (Some (nc_strictNoSign config = Some True)),
             nr_shouldExit = False,
             nr_solanaVerificationsEnabled = js_or (nr_solanaVerificationsEnabled cur) (nc_solanaVerificationsEnabled config),
             nr_useStreaming = js_or (nr_useStreaming cur) (nc_useStreaming config)\<rparr>))"

lemma set_js_unique [simp]: "set (js_unique xs) = set xs"
  by (simp add: js_unique_def)

lemma distinct_js_unique [simp]: "distinct (js_unique xs)"
  by (simp add: js_unique_def)

text \<open>A peer that the configuration denies cannot connect after it was applied, whatever the hub allowed before.\<close>

lemma denied_by_config:
  assumes "nc_network config = currentNetwork"
    "\<not> (semver_valid V (nc_minAppVersion config) \<and> semver_lt V appVersion (nc_minAppVersion config))"
    "nc_deniedPeers config = Some ds" "p \<in> set ds"
  shows "let r = applyNetworkConfig V appVersion config currentNetwork cur
         in p \<in> set (nr_deniedPeerIds r) \<and> (\<forall>a. nr_allowedPeerIds r = Some a \<longrightarrow> p \<notin> set a) \<and>
            shouldDeny p (updateDeniedPeers (nr_deniedPeerIds r) (updateAllowedPeers (nr_allowedPeerIds r) cf))"
  using assms
  by (auto simp: applyNetworkConfig_def Let_def shouldDeny_def updateDeniedPeers_def updateAllowedPeers_def split: option.splits)

text \<open>Without a list of denied peers in the configuration those the hub denied itself are allowed again.\<close>

lemma own_denied_peers_dropped:
  assumes "nc_network config = currentNetwork"
    "\<not> (semver_valid V (nc_minAppVersion config) \<and> semver_lt V appVersion (nc_minAppVersion config))"
    "nc_deniedPeers config = None"
  shows "nr_deniedPeerIds (applyNetworkConfig V appVersion config currentNetwork cur) = []"
  using assms by (auto simp: applyNetworkConfig_def Let_def)

section \<open>Bundles of messages\<close>

record message_bundle =
  mb_messages :: "Message list"
  mb_hash :: bytes

record bundle_creator =
  bc_currentBundle :: "Message list"
  bc_maxBundleSize :: nat
  bc_broadcast :: "message_bundle list"

definition MAX_BUNDLE_SIZE :: nat where
  "MAX_BUNDLE_SIZE = 256"

definition new_BundleCreator :: "nat \<Rightarrow> bundle_creator" where
  "new_BundleCreator maxBundleSize =
     \<lparr>bc_currentBundle = [], bc_maxBundleSize = maxBundleSize, bc_broadcast = []\<rparr>"

text \<open>Called by a timer, and when the bundle is full.\<close>

definition broadcastBundle :: "(bytes \<Rightarrow> bytes) \<Rightarrow> bundle_creator \<Rightarrow> bundle_creator" where
  "broadcastBundle blake3 bc =
     (if length (bc_currentBundle bc) > 0 then
        (let bundle = bc_currentBundle bc;
             allHashes = concat (map (\<lambda>m. case msg_hash m of Some h \<Rightarrow> h | None \<Rightarrow> []) bundle)
         in bc\<lparr>bc_currentBundle := [],
               bc_broadcast := bc_broadcast bc @ [\<lparr>mb_messages = bundle, mb_hash = blake3 allHashes\<rparr>]\<rparr>)
      else bc)"

definition gossipMessage :: "(bytes \<Rightarrow> bytes) \<Rightarrow> Message \<Rightarrow> bundle_creator \<Rightarrow> bundle_creator" where
  "gossipMessage blake3 m bc =
     (let bc = bc\<lparr>bc_currentBundle := bc_currentBundle bc @ [m]\<rparr>
      in if length (bc_currentBundle bc) \<ge> bc_maxBundleSize bc then broadcastBundle blake3 bc else bc)"

datatype bundle_event = Gossip Message | BundleTimer

definition bundle_step :: "(bytes \<Rightarrow> bytes) \<Rightarrow> bundle_event \<Rightarrow> bundle_creator \<Rightarrow> bundle_creator" where
  "bundle_step blake3 ev = (case ev of Gossip m \<Rightarrow> gossipMessage blake3 m | BundleTimer \<Rightarrow> broadcastBundle blake3)"

definition gossiped :: "bundle_event list \<Rightarrow> Message list" where
  "gossiped evs = concat (map (\<lambda>ev. case ev of Gossip m \<Rightarrow> [m] | BundleTimer \<Rightarrow> []) evs)"

definition bundles_ok :: "Message list \<Rightarrow> bundle_creator \<Rightarrow> bool" where
  "bundles_ok ms bc \<longleftrightarrow>
     concat (map mb_messages (bc_broadcast bc)) @ bc_currentBundle bc = ms \<and>
     length (bc_currentBundle bc) < bc_maxBundleSize bc \<and>
     (\<forall>b \<in> set (bc_broadcast bc). mb_messages b \<noteq> [] \<and> length (mb_messages b) \<le> bc_maxBundleSize bc)"

lemma broadcastBundle_ok: "bundles_ok ms bc \<Longrightarrow> bundles_ok ms (broadcastBundle blake3 bc)"
  by (auto simp: bundles_ok_def broadcastBundle_def Let_def)

lemma gossipMessage_ok: "bundles_ok ms bc \<Longrightarrow> bundles_ok (ms @ [m]) (gossipMessage blake3 m bc)"
  by (auto simp: bundles_ok_def gossipMessage_def broadcastBundle_def Let_def)

text \<open>Every message is sent once and in order, in bundles that are not empty and not too large.\<close>

lemma bundles_run:
  "bundles_ok ms bc \<Longrightarrow> bundles_ok (ms @ gossiped evs) (fold (bundle_step blake3) evs bc)"
proof (induction evs arbitrary: ms bc)
  case (Cons ev evs)
  have "bundles_ok (ms @ gossiped [ev]) (bundle_step blake3 ev bc)"
    using Cons.prems broadcastBundle_ok gossipMessage_ok
    by (cases ev) (simp_all add: bundle_step_def gossiped_def)
  from Cons.IH[OF this] show ?case by (simp add: gossiped_def)
qed (simp add: gossiped_def)

section \<open>A stream with a buffer\<close>

text \<open>The stream takes a message and tells whether it is backed up, here by the number of what was written. A timer
  is armed and a listener for \<^verbatim>\<open>drain\<close> is registered when it is; the listener stays when the timer has fired.\<close>

definition STREAM_MESSAGE_BUFFER_SIZE :: nat where
  "STREAM_MESSAGE_BUFFER_SIZE = 10000"

record 'm stream_writer =
  bw_streamIsBackedUp :: bool
  bw_dataWaitingForDrain :: "'m list"
  bw_written :: "'m list"
  bw_timer :: bool
  bw_destroyed :: nat

definition new_BufferedStreamWriter :: "'m stream_writer" where
  "new_BufferedStreamWriter =
     \<lparr>bw_streamIsBackedUp = False, bw_dataWaitingForDrain = [], bw_written = [], bw_timer = False, bw_destroyed = 0\<rparr>"

definition destroyStream :: "'m stream_writer \<Rightarrow> 'm stream_writer" where
  "destroyStream w = w\<lparr>bw_dataWaitingForDrain := [], bw_destroyed := bw_destroyed w + 1\<rparr>"

definition writeToStream :: "(nat \<Rightarrow> bool) \<Rightarrow> 'm \<Rightarrow> 'm stream_writer \<Rightarrow> bool outcome \<times> 'm stream_writer" where
  "writeToStream takes m w =
     (if bw_streamIsBackedUp w then
        (let w = w\<lparr>bw_dataWaitingForDrain := bw_dataWaitingForDrain w @ [m]\<rparr> in
         if length (bw_dataWaitingForDrain w) > STREAM_MESSAGE_BUFFER_SIZE
         then (fail NetworkFailure ''Stream is backed up and cache is full'', destroyStream w)
         else (Ok False, w))
      else
        (let accepted = takes (length (bw_written w)); w = w\<lparr>bw_written := bw_written w @ [m]\<rparr> in
         if accepted then (Ok True, w)
         else (Ok True, w\<lparr>bw_streamIsBackedUp := True, bw_timer := True\<rparr>)))"

function sendWaitingData :: "(nat \<Rightarrow> bool) \<Rightarrow> 'm stream_writer \<Rightarrow> 'm stream_writer" where
  "sendWaitingData takes w =
     (if bw_streamIsBackedUp w then w
      else
        (case bw_dataWaitingForDrain w of
           [] \<Rightarrow> w
         | m # rest \<Rightarrow> sendWaitingData takes (snd (writeToStream takes m (w\<lparr>bw_dataWaitingForDrain := rest\<rparr>)))))"
  by pat_completeness auto

termination
  by (relation "measure (\<lambda>(takes, w). length (bw_dataWaitingForDrain w))") (simp_all add: writeToStream_def Let_def)

declare sendWaitingData.simps [simp del]

definition stream_drained :: "(nat \<Rightarrow> bool) \<Rightarrow> 'm stream_writer \<Rightarrow> 'm stream_writer" where
  "stream_drained takes w =
     (if bw_streamIsBackedUp w then sendWaitingData takes (w\<lparr>bw_streamIsBackedUp := False, bw_timer := False\<rparr>) else w)"

definition drain_timeout :: "'m stream_writer \<Rightarrow> 'm stream_writer" where
  "drain_timeout w = (if bw_timer w then destroyStream (w\<lparr>bw_timer := False\<rparr>) else w)"

datatype 'm stream_event = StreamWrite 'm | StreamDrain | StreamTimeout

definition stream_step :: "(nat \<Rightarrow> bool) \<Rightarrow> 'm stream_event \<Rightarrow> 'm stream_writer \<Rightarrow> 'm stream_writer" where
  "stream_step takes ev w =
     (case ev of
        StreamWrite m \<Rightarrow> snd (writeToStream takes m w)
      | StreamDrain \<Rightarrow> stream_drained takes w
      | StreamTimeout \<Rightarrow> drain_timeout w)"

definition stream_messages :: "'m stream_event list \<Rightarrow> 'm list" where
  "stream_messages evs = concat (map (\<lambda>ev. case ev of StreamWrite m \<Rightarrow> [m] | _ \<Rightarrow> []) evs)"

text \<open>What was written and what waits are the messages in order, unless the stream was given up; the messages that
  were written are always some of them in order. Nothing waits while the stream takes messages.\<close>

definition stream_ok :: "'m list \<Rightarrow> 'm stream_writer \<Rightarrow> bool" where
  "stream_ok ms w \<longleftrightarrow>
     subseq (bw_written w @ bw_dataWaitingForDrain w) ms \<and>
     (bw_destroyed w = 0 \<longrightarrow> bw_written w @ bw_dataWaitingForDrain w = ms) \<and>
     (\<not> bw_streamIsBackedUp w \<longrightarrow> bw_dataWaitingForDrain w = []) \<and>
     length (bw_dataWaitingForDrain w) \<le> STREAM_MESSAGE_BUFFER_SIZE"

lemma sendWaitingData_keeps:
  "bw_written (sendWaitingData takes w) @ bw_dataWaitingForDrain (sendWaitingData takes w) =
     bw_written w @ bw_dataWaitingForDrain w \<and>
   bw_destroyed (sendWaitingData takes w) = bw_destroyed w \<and>
   (\<not> bw_streamIsBackedUp (sendWaitingData takes w) \<longrightarrow> bw_dataWaitingForDrain (sendWaitingData takes w) = []) \<and>
   length (bw_dataWaitingForDrain (sendWaitingData takes w)) \<le> length (bw_dataWaitingForDrain w)"
proof (induction takes w rule: sendWaitingData.induct)
  case (1 takes w)
  show ?case
  proof (cases "\<not> bw_streamIsBackedUp w \<and> bw_dataWaitingForDrain w \<noteq> []")
    case True
    then obtain m rest where w: "\<not> bw_streamIsBackedUp w" "bw_dataWaitingForDrain w = m # rest"
      by (auto simp: neq_Nil_conv)
    let ?w = "snd (writeToStream takes m (w\<lparr>bw_dataWaitingForDrain := rest\<rparr>))"
    have w': "bw_written ?w = bw_written w @ [m]" "bw_dataWaitingForDrain ?w = rest" "bw_destroyed ?w = bw_destroyed w"
      using w by (simp_all add: writeToStream_def Let_def)
    have s: "sendWaitingData takes w = sendWaitingData takes ?w"
      using w by (subst sendWaitingData.simps) simp
    from 1[OF w] w' show ?thesis unfolding s by (simp add: w(2))
  next
    case False
    then have "sendWaitingData takes w = w" by (subst sendWaitingData.simps) (auto split: list.split)
    with False show ?thesis by auto
  qed
qed

lemma subseq_appended: "subseq xs ms \<Longrightarrow> subseq (xs @ [m]) (ms @ [m])"
  by (rule list_emb_append_mono) simp_all

lemma subseq_more: "subseq xs ms \<Longrightarrow> subseq xs (ms @ ys)"
  by (simp add: subseq_rev_drop_many)

lemma stream_step_ok:
  assumes "stream_ok ms w"
  shows "stream_ok (ms @ stream_messages [ev]) (stream_step takes ev w)"
proof (cases ev)
  case (StreamWrite m)
  have "subseq (bw_written w) ms"
    using assms by (auto simp: stream_ok_def dest: subseq_order.trans[rotated])
  with assms StreamWrite show ?thesis
    by (auto simp: stream_ok_def stream_step_def stream_messages_def writeToStream_def destroyStream_def Let_def
        subseq_more subseq_appended simp flip: append_assoc)
next
  case StreamDrain
  with assms show ?thesis
    using sendWaitingData_keeps[of takes "w\<lparr>bw_streamIsBackedUp := False, bw_timer := False\<rparr>"]
    by (auto simp: stream_ok_def stream_step_def stream_messages_def stream_drained_def)
next
  case StreamTimeout
  have "subseq (bw_written w) ms"
    using assms by (auto simp: stream_ok_def dest: subseq_order.trans[rotated])
  with assms StreamTimeout show ?thesis
    by (simp add: stream_ok_def stream_step_def stream_messages_def drain_timeout_def destroyStream_def)
qed

lemma stream_run_ok:
  "stream_ok ms w \<Longrightarrow> stream_ok (ms @ stream_messages evs) (fold (stream_step takes) evs w)"
proof (induction evs arbitrary: ms w)
  case (Cons ev evs)
  from Cons.IH[OF stream_step_ok[OF Cons.prems, of ev takes]] show ?case by (simp add: stream_messages_def)
qed (simp add: stream_messages_def)

section \<open>Connections by address\<close>

text \<open>The address is the part of the peer's name that \<^verbatim>\<open>extractIPAddress\<close> finds, or \<^verbatim>\<open>unknown\<close>.\<close>

record connection_limiter =
  cl_perIpLimit :: int
  cl_globalLimit :: int
  cl_ipConnections :: "(js_string \<times> int) list"
  cl_totalConnections :: int

definition new_IpConnectionLimiter :: "int \<Rightarrow> int \<Rightarrow> connection_limiter" where
  "new_IpConnectionLimiter perIpLimit globalLimit =
     \<lparr>cl_perIpLimit = perIpLimit, cl_globalLimit = globalLimit, cl_ipConnections = [], cl_totalConnections = 0\<rparr>"

definition ip_connections :: "js_string \<Rightarrow> connection_limiter \<Rightarrow> int" where
  "ip_connections ip L = (case map_of (cl_ipConnections L) ip of Some n \<Rightarrow> n | None \<Rightarrow> 0)"

definition addConnection :: "js_string \<Rightarrow> connection_limiter \<Rightarrow> (js_string + bool) \<times> connection_limiter" where
  "addConnection ip L =
     (let connections = ip_connections ip L in
      if ip \<noteq> lit ''127.0.0.1'' \<and> ip \<noteq> lit ''::1'' \<and> connections \<ge> cl_perIpLimit L
      then (Inl (lit ''Too many connections from this IP: '' @ ip), L)
      else if cl_totalConnections L \<ge> cl_globalLimit L then (Inl (lit ''Too many connections to this server''), L)
      else
        (Inr True, L\<lparr>cl_ipConnections := AList.update ip (connections + 1) (cl_ipConnections L),
                     cl_totalConnections := cl_totalConnections L + 1\<rparr>))"

definition removeConnection :: "js_string \<Rightarrow> connection_limiter \<Rightarrow> connection_limiter" where
  "removeConnection ip L =
     (let connections = ip_connections ip L in
      if connections > 0
      then L\<lparr>cl_ipConnections := AList.update ip (connections - 1) (cl_ipConnections L),
             cl_totalConnections := cl_totalConnections L - 1\<rparr>
      else L)"

definition limiter_clear :: "connection_limiter \<Rightarrow> connection_limiter" where
  "limiter_clear L = L\<lparr>cl_ipConnections := [], cl_totalConnections := 0\<rparr>"

definition connections_ok :: "connection_limiter \<Rightarrow> bool" where
  "connections_ok L \<longleftrightarrow>
     distinct (map fst (cl_ipConnections L)) \<and> cl_totalConnections L = sum_list (map snd (cl_ipConnections L)) \<and>
     cl_totalConnections L \<le> cl_globalLimit L \<and>
     (\<forall>(ip, n) \<in> set (cl_ipConnections L).
        0 \<le> n \<and> (ip \<noteq> lit ''127.0.0.1'' \<and> ip \<noteq> lit ''::1'' \<longrightarrow> n \<le> cl_perIpLimit L))"

lemma sum_update:
  fixes xs :: "('k \<times> int) list"
  shows "distinct (map fst xs) \<Longrightarrow>
   sum_list (map snd (AList.update k v xs)) = sum_list (map snd xs) - (case map_of xs k of Some n \<Rightarrow> n | None \<Rightarrow> 0) + v"
proof (induction xs)
  case (Cons x xs)
  obtain k' n where x: "x = (k', n)" by fastforce
  show ?case
  proof (cases "k = k'")
    case True
    with x Cons show ?thesis by simp
  next
    case False
    with x Cons show ?thesis by simp
  qed
qed simp

lemma update_entries: "distinct (map fst xs) \<Longrightarrow> set (AList.update k v xs) \<subseteq> insert (k, v) (set xs)"
  by (induction xs) auto

lemma connection_count: "connections_ok L \<Longrightarrow> map_of (cl_ipConnections L) ip = Some n \<Longrightarrow> (ip, n) \<in> set (cl_ipConnections L)"
  by (rule map_of_SomeD)

text \<open>A new count for one address.\<close>

lemma connections_update:
  assumes "connections_ok L" "0 \<le> n" "ip \<noteq> lit ''127.0.0.1'' \<and> ip \<noteq> lit ''::1'' \<longrightarrow> n \<le> cl_perIpLimit L"
    "cl_totalConnections L + n - ip_connections ip L \<le> cl_globalLimit L"
  shows "connections_ok (L\<lparr>cl_ipConnections := AList.update ip n (cl_ipConnections L),
                           cl_totalConnections := cl_totalConnections L + n - ip_connections ip L\<rparr>)"
proof -
  have d: "distinct (map fst (cl_ipConnections L))" using assms(1) by (simp add: connections_ok_def)
  have "\<forall>(ip', m) \<in> set (AList.update ip n (cl_ipConnections L)).
      0 \<le> m \<and> (ip' \<noteq> lit ''127.0.0.1'' \<and> ip' \<noteq> lit ''::1'' \<longrightarrow> m \<le> cl_perIpLimit L)"
  proof
    fix e assume "e \<in> set (AList.update ip n (cl_ipConnections L))"
    with update_entries[OF d, of ip n] have "e = (ip, n) \<or> e \<in> set (cl_ipConnections L)" by blast
    with assms(1-3) show "case e of (ip', m) \<Rightarrow>
        0 \<le> m \<and> (ip' \<noteq> lit ''127.0.0.1'' \<and> ip' \<noteq> lit ''::1'' \<longrightarrow> m \<le> cl_perIpLimit L)"
      unfolding connections_ok_def by fast
  qed
  with assms d show ?thesis
    by (simp add: connections_ok_def distinct_update sum_update ip_connections_def)
qed

lemma ip_connections_cases:
  assumes "connections_ok L"
  obtains "ip_connections ip L = 0"
  | "0 \<le> ip_connections ip L" "ip \<noteq> lit ''127.0.0.1'' \<and> ip \<noteq> lit ''::1'' \<longrightarrow> ip_connections ip L \<le> cl_perIpLimit L"
proof (cases "map_of (cl_ipConnections L) ip")
  case None
  with that(1) show ?thesis by (simp add: ip_connections_def)
next
  case (Some n)
  with assms connection_count[OF assms, of ip n] have "0 \<le> n \<and> (ip \<noteq> lit ''127.0.0.1'' \<and> ip \<noteq> lit ''::1'' \<longrightarrow> n \<le> cl_perIpLimit L)"
    unfolding connections_ok_def by blast
  with Some that(2) show ?thesis by (simp add: ip_connections_def)
qed

lemma ip_connections_bound:
  assumes "connections_ok L" "0 < ip_connections ip L"
  shows "ip \<noteq> lit ''127.0.0.1'' \<and> ip \<noteq> lit ''::1'' \<longrightarrow> ip_connections ip L \<le> cl_perIpLimit L"
  by (rule ip_connections_cases[OF assms(1), of ip]) (use assms(2) in simp_all)

lemma ip_connections_nonneg: "connections_ok L \<Longrightarrow> 0 \<le> ip_connections ip L"
  by (rule ip_connections_cases) simp_all

lemma addConnection_ok: "connections_ok L \<Longrightarrow> connections_ok (snd (addConnection ip L))"
proof -
  assume L: "connections_ok L"
  let ?n = "ip_connections ip L" and ?local = "ip = lit ''127.0.0.1'' \<or> ip = lit ''::1''"
  show ?thesis
  proof (cases "\<not> ?local \<and> ?n \<ge> cl_perIpLimit L \<or> cl_totalConnections L \<ge> cl_globalLimit L")
    case True
    then have "snd (addConnection ip L) = L" by (auto simp: addConnection_def Let_def)
    with L show ?thesis by simp
  next
    case False
    then have "snd (addConnection ip L) = L\<lparr>cl_ipConnections := AList.update ip (?n + 1) (cl_ipConnections L),
        cl_totalConnections := cl_totalConnections L + 1\<rparr>"
      by (auto simp: addConnection_def Let_def)
    moreover have "cl_totalConnections L + (?n + 1) - ?n = cl_totalConnections L + 1" by simp
    moreover have "ip \<noteq> lit ''127.0.0.1'' \<and> ip \<noteq> lit ''::1'' \<longrightarrow> ?n + 1 \<le> cl_perIpLimit L"
      "cl_totalConnections L + 1 \<le> cl_globalLimit L" "0 \<le> ?n + 1"
      using False ip_connections_nonneg[OF L, of ip] by auto
    ultimately show ?thesis using connections_update[OF L, of "?n + 1" ip] by simp
  qed
qed

lemma removeConnection_ok: "connections_ok L \<Longrightarrow> connections_ok (removeConnection ip L)"
proof (cases "0 < ip_connections ip L")
  case True
  assume L: "connections_ok L"
  let ?n = "ip_connections ip L"
  have "cl_totalConnections L + (?n - 1) - ?n = cl_totalConnections L - 1" by simp
  moreover have "cl_totalConnections L \<le> cl_globalLimit L" using L by (simp add: connections_ok_def)
  moreover have "ip \<noteq> lit ''127.0.0.1'' \<and> ip \<noteq> lit ''::1'' \<longrightarrow> ?n - 1 \<le> cl_perIpLimit L"
    using ip_connections_bound[OF L True] by linarith
  ultimately show ?thesis
    using connections_update[OF L, of "?n - 1" ip] True by (simp add: removeConnection_def Let_def)
qed (simp add: removeConnection_def Let_def)

section \<open>Users and error codes of the server\<close>

text \<open>The users and their passwords, as \<^verbatim>\<open>user:password,...\<close>; what follows a second colon is ignored. \<open>base64_text\<close> is
  \<^verbatim>\<open>Buffer.from(text, "base64").toString("utf-8")\<close>.\<close>

definition add_rpc_user :: "js_string \<Rightarrow> (js_string \<times> js_string list) list \<Rightarrow> (js_string \<times> js_string list) list" where
  "add_rpc_user rpcAuthUser users =
     (case split_on 58 rpcAuthUser of
        username # password # _ \<Rightarrow>
          if username \<noteq> [] \<and> password \<noteq> []
          then AList.update username ((case map_of users username of Some ps \<Rightarrow> ps | None \<Rightarrow> []) @ [password]) users
          else users
      | _ \<Rightarrow> users)"

definition getRPCUsersFromAuthString :: "js_string option \<Rightarrow> (js_string \<times> js_string list) list" where
  "getRPCUsersFromAuthString rpcAuth =
     (case rpcAuth of
        None \<Rightarrow> []
      | Some auth \<Rightarrow> if auth = [] then [] else fold add_rpc_user (split_on 44 auth) [])"

text \<open>\<^verbatim>\<open>replace("Basic ", "")\<close>: the first occurrence only.\<close>

fun remove_first :: "js_string \<Rightarrow> js_string \<Rightarrow> js_string" where
  "remove_first t [] = []"
| "remove_first t (c # s) = (if prefix t (c # s) then drop (length t) (c # s) else c # remove_first t s)"

definition authenticateUser ::
  "(js_string \<Rightarrow> js_string) \<Rightarrow> js_string list \<Rightarrow> (js_string \<times> js_string list) list \<Rightarrow> bool outcome" where
  "authenticateUser base64_text authorization rpcUsers =
     (if rpcUsers = [] then Ok True
      else
        (case authorization of
           [] \<Rightarrow> fail Unauthenticated ''Authorization header is empty''
         | authHeader # _ \<Rightarrow>
             if authHeader = [] then fail Unauthenticated ''Authorization header is empty''
             else
               (case split_on 58 (base64_text (remove_first (lit ''Basic '') authHeader)) of
                  username # password # _ \<Rightarrow>
                    if username = [] \<or> password = [] then fail_js Unauthenticated (lit ''Invalid username: '' @ username)
                    else
                      (case map_of rpcUsers username of
                         None \<Rightarrow> fail_js Unauthenticated (lit ''Invalid username: '' @ username)
                       | Some allowedPasswords \<Rightarrow>
                           if password \<notin> set allowedPasswords
                           then fail_js Unauthenticated (lit ''Invalid password for user: '' @ username)
                           else Ok True)
                | username # [] \<Rightarrow> fail_js Unauthenticated (lit ''Invalid username: '' @ username)
                | [] \<Rightarrow> fail Unauthenticated ''Invalid username: '')))"

lemma authenticateUser_sound:
  assumes "authenticateUser b auth users = Ok True" "users \<noteq> []"
  shows "\<exists>header rest user pw more pws.
    auth = header # rest \<and> split_on 58 (b (remove_first (lit ''Basic '') header)) = user # pw # more \<and>
    user \<noteq> [] \<and> pw \<noteq> [] \<and> map_of users user = Some pws \<and> pw \<in> set pws"
  using assms by (auto simp: authenticateUser_def fail_def fail_js_def split: list.splits if_splits option.splits)

datatype grpc_status = GrpcUnauthenticated | GrpcPermissionDenied | GrpcInvalidArgument | GrpcNotFound | GrpcUnavailable | GrpcUnknown

definition toServiceError :: "hub_error \<Rightarrow> grpc_status" where
  "toServiceError e =
     (if errCode e = Unauthenticated then GrpcUnauthenticated
      else if errCode e = Unauthorized then GrpcPermissionDenied
      else if errCode e \<in> {BadRequest, ParseFailure, ValidationFailure, InvalidParam, Conflict, Duplicate, Prunable}
      then GrpcInvalidArgument
      else if errCode e = NotFound then GrpcNotFound
      else if errCode e \<in> {Unavailable, NetworkFailure, StorageFailure} then GrpcUnavailable
      else GrpcUnknown)"

text \<open>The codes for an unknown signer or user and for missing storage are bad requests too, but are reported as
  unknown.\<close>

lemma unknown_signer_status: "errCode e \<in> {UnknownSigner, UnknownFid, NoStorage} \<Longrightarrow> toServiceError e = GrpcUnknown"
  by (auto simp: toServiceError_def)

end
