(* ===== verification/JumpHash.thy ===== *)
theory JumpHash
  imports Prelude
begin

text \<open>
  \<^verbatim>\<open>utils/jumpConsistentHash.ts\<close>, for keys that are not negative (user ids). The division of floating point numbers and
  its floor is the exact quotient: the numerator is below \<open>2 ^ 53\<close> as long as there are fewer than \<open>2 ^ 22\<close> shards.
\<close>

section \<open>The function\<close>

definition jump_next_hash :: "nat \<Rightarrow> nat" where
  "jump_next_hash h = (h * 2862933555777941757) mod 2 ^ 64 + 1"

definition jump_next :: "nat \<Rightarrow> nat \<Rightarrow> nat" where
  "jump_next b h = ((b + 1) * 2 ^ 31) div (h div 2 ^ 33 + 1)"

lemma jump_next_hash_bound: "0 < jump_next_hash h" "jump_next_hash h \<le> 2 ^ 64"
  by (simp_all add: jump_next_hash_def Suc_leI)

text \<open>One more step always leads further, but for the largest value of the hash, after which comes one.\<close>

lemma jump_next_less: "h < 2 ^ 64 \<Longrightarrow> b < jump_next b h"
proof -
  assume "h < 2 ^ 64"
  then have d: "h div 2 ^ 33 + 1 \<le> (2 ^ 31 :: nat)" by (simp add: less_mult_imp_div_less Suc_leI)
  then have "(b + 1) * (h div 2 ^ 33 + 1) \<le> (b + 1) * 2 ^ 31" by (rule mult_le_mono2)
  then have "b + 1 \<le> jump_next b h"
    unfolding jump_next_def by (subst less_eq_div_iff_mult_less_eq) simp_all
  then show ?thesis by simp
qed

lemma jump_next_top: "jump_next b (2 ^ 64) = ((b + 1) * 2 ^ 31) div (2 ^ 31 + 1)"
  by (simp add: jump_next_def)

lemma jump_next_hash_top: "jump_next_hash (2 ^ 64) = 1"
  by (simp add: jump_next_hash_def)

lemma jump_next_one: "jump_next b 1 = (b + 1) * 2 ^ 31"
  by (simp add: jump_next_def)

lemma jump_next_top_least: "b < (jump_next b (2 ^ 64) + 1) * 2 ^ 31"
proof -
  have "(b + 1) * 2 ^ 31 < (jump_next b (2 ^ 64) + 1) * (2 ^ 31 + 1 :: nat)"
    unfolding jump_next_top using dividend_less_times_div[of "2 ^ 31 + 1 :: nat" "(b + 1) * 2 ^ 31"]
    by (simp add: algebra_simps)
  also have "\<dots> \<le> (jump_next b (2 ^ 64) + 1) * (2 ^ 31 * 2 ^ 31)" by (rule mult_le_mono2) simp
  finally show ?thesis by simp
qed

definition jump_measure :: "nat \<Rightarrow> nat \<Rightarrow> nat \<Rightarrow> nat" where
  "jump_measure h j shards =
     (if h = 2 ^ 64
      then (let x = shards - (j + 1) * 2 ^ 31 in if x > 0 then 2 * x + 3 else 1)
      else 2 * (shards - j) + 2)"

lemma jump_measure_decreases:
  assumes "jump_next j (jump_next_hash h) < shards"
  shows "jump_measure (jump_next_hash h) (jump_next j (jump_next_hash h)) shards < jump_measure h j shards"
proof (cases "h = 2 ^ 64")
  case True
  have h: "jump_next_hash h = 1" unfolding True by (rule jump_next_hash_top)
  with assms have "(j + 1) * 2 ^ 31 < shards" by (simp only: jump_next_one)
  then show ?thesis unfolding h jump_next_one by (simp add: jump_measure_def Let_def True)
next
  case h: False
  let ?h = "jump_next_hash h" and ?j = "jump_next j (jump_next_hash h)"
  show ?thesis
  proof (cases "?h = 2 ^ 64")
    case True
    with jump_next_top_least[of j] have "j < (?j + 1) * 2 ^ 31" by simp
    with h True show ?thesis by (auto simp: jump_measure_def Let_def)
  next
    case False
    with jump_next_hash_bound(2)[of h] have "?h < 2 ^ 64" by simp
    with jump_next_less have "j < ?j" by blast
    with h False assms show ?thesis by (simp add: jump_measure_def)
  qed
qed

function jump_loop :: "nat \<Rightarrow> nat \<Rightarrow> nat \<Rightarrow> nat" where
  "jump_loop h j shards =
     (let b = j; h = jump_next_hash h; j = jump_next b h
      in if j < shards then jump_loop h j shards else b)"
  by pat_completeness auto

termination
  by (relation "measure (\<lambda>(h, j, shards). jump_measure h j shards)")
    (simp_all add: jump_measure_decreases)

declare jump_loop.simps [simp del]

definition jumpConsistentHash :: "nat \<Rightarrow> nat \<Rightarrow> nat" where
  "jumpConsistentHash key shards = jump_loop key 0 shards"

section \<open>What it promises\<close>

lemma jump_loop_unfold:
  "jump_loop h j shards =
     (if jump_next j (jump_next_hash h) < shards
      then jump_loop (jump_next_hash h) (jump_next j (jump_next_hash h)) shards else j)"
  by (subst jump_loop.simps) (simp add: Let_def)

lemma jump_loop_bound: "j < shards \<Longrightarrow> jump_loop h j shards < shards"
proof (induction h j shards rule: jump_loop.induct)
  case (1 h j shards)
  then show ?case by (subst jump_loop_unfold) (auto simp: Let_def)
qed

text \<open>With few enough shards no step leads back.\<close>

lemma jump_next_mono: "j \<le> 2 ^ 31 \<Longrightarrow> j \<le> jump_next j (jump_next_hash h)"
proof (cases "jump_next_hash h = 2 ^ 64")
  case True
  moreover assume "j \<le> 2 ^ 31"
  ultimately show ?thesis
    by (simp only: jump_next_top less_eq_div_iff_mult_less_eq) (simp add: algebra_simps less_eq_div_iff_mult_less_eq)
next
  case False
  with jump_next_hash_bound(2)[of h] jump_next_less[of "jump_next_hash h" j] show ?thesis by simp
qed

lemma jump_loop_last: "n \<le> 2 ^ 31 \<Longrightarrow> j = n \<Longrightarrow> s = Suc n \<Longrightarrow> jump_loop h j s = n"
proof (induction h j s rule: jump_loop.induct)
  case (1 h j s)
  show ?case
  proof (cases "jump_next j (jump_next_hash h) < s")
    case True
    with 1(2-4) jump_next_mono[of j h] have "jump_next j (jump_next_hash h) = n" by simp
    with 1 True show ?thesis by (subst jump_loop_unfold) (simp add: Let_def)
  next
    case False
    with 1 show ?thesis by (subst jump_loop_unfold) simp
  qed
qed

lemma jump_loop_consistent:
  "n \<le> 2 ^ 31 \<Longrightarrow> jump_loop h j (Suc n) = jump_loop h j n \<or> jump_loop h j (Suc n) = n"
proof (induction h j n rule: jump_loop.induct)
  case (1 h j n)
  let ?h = "jump_next_hash h" and ?j = "jump_next j (jump_next_hash h)"
  consider "?j < n" | "?j = n" | "n < ?j" by linarith
  then show ?case
  proof cases
    assume "?j < n"
    with 1 show ?thesis by (subst (1 2 3) jump_loop_unfold) (simp add: Let_def)
  next
    assume "?j = n"
    with 1(2) show ?thesis
      by (subst (1 3) jump_loop_unfold) (simp add: jump_loop_last)
  next
    assume "n < ?j"
    then show ?thesis by (subst (1 2) jump_loop_unfold) simp
  qed
qed

theorem jump_hash_consistent:
  assumes "n \<le> 2 ^ 31"
  shows "jumpConsistentHash key (Suc n) = jumpConsistentHash key n \<or> jumpConsistentHash key (Suc n) = n"
    "0 < n \<Longrightarrow> jumpConsistentHash key n < n"
  using jump_loop_consistent[OF assms] jump_loop_bound by (simp_all add: jumpConsistentHash_def)

end
