(* ===== verification/PeerScores.thy ===== *)
theory PeerScores
  imports Prelude "HOL-Library.AList"
begin

text \<open>
  \<^verbatim>\<open>network/sync/peerScore.ts\<close>, and the counts of a sync (\<^verbatim>\<open>MergeResult\<close> of \<^verbatim>\<open>syncEngine.ts\<close>). The scores are kept by
  peer in insertion order; \<open>psr_notified\<close> collects the calls of \<^verbatim>\<open>onPeerScoreChanged\<close>. The clock is an argument.
\<close>

section \<open>The result of a merge\<close>

record MergeResult =
  mr_total :: int
  mr_successCount :: int
  mr_deferredCount :: int
  mr_errCount :: int

definition no_merge_result :: MergeResult where
  "no_merge_result = \<lparr>mr_total = 0, mr_successCount = 0, mr_deferredCount = 0, mr_errCount = 0\<rparr>"

definition addResult :: "MergeResult \<Rightarrow> MergeResult \<Rightarrow> MergeResult" where
  "addResult r result =
     \<lparr>mr_total = mr_total r + mr_total result, mr_successCount = mr_successCount r + mr_successCount result,
      mr_deferredCount = mr_deferredCount r + mr_deferredCount result,
      mr_errCount = mr_errCount r + mr_errCount result\<rparr>"

lemma addResult_none [simp]: "addResult r no_merge_result = r" "addResult no_merge_result r = r"
  by (simp_all add: addResult_def no_merge_result_def)

section \<open>Scores\<close>

definition BAD_PEER_MESSAGE_THRESHOLD :: int where
  "BAD_PEER_MESSAGE_THRESHOLD = 1000"

definition BLOCKED_PEER_SCORE_THRESHOLD :: int where
  "BLOCKED_PEER_SCORE_THRESHOLD = - 100"

definition BAD_SYNC_WINDOW_THRESHOLD :: int where
  "BAD_SYNC_WINDOW_THRESHOLD = 120000"

record PeerScore =
  ps_score :: int
  ps_blocked :: bool
  ps_blockedAt :: "int option"
  ps_lastSyncTime :: "int option"
  ps_lastBadSyncTime :: "int option"
  ps_lastSyncResult :: "MergeResult option"

definition new_PeerScore :: PeerScore where
  "new_PeerScore =
     \<lparr>ps_score = 0, ps_blocked = False, ps_blockedAt = None, ps_lastSyncTime = None, ps_lastBadSyncTime = None,
      ps_lastSyncResult = None\<rparr>"

record PeerScorer =
  psr_scores :: "(js_string \<times> PeerScore) list"
  psr_badSyncWindowThreshold :: int
  psr_notified :: "(js_string \<times> int) list"

definition new_PeerScorer :: "int option \<Rightarrow> PeerScorer" where
  "new_PeerScorer overrideThreshold =
     \<lparr>psr_scores = [],
      psr_badSyncWindowThreshold = (case overrideThreshold of None \<Rightarrow> BAD_SYNC_WINDOW_THRESHOLD | Some t \<Rightarrow> t),
      psr_notified = []\<rparr>"

definition getScore :: "js_string \<Rightarrow> PeerScorer \<Rightarrow> PeerScore option" where
  "getScore peerId S = map_of (psr_scores S) peerId"

definition score_or_new :: "js_string \<Rightarrow> PeerScorer \<Rightarrow> PeerScore" where
  "score_or_new peerId S = (case getScore peerId S of Some s \<Rightarrow> s | None \<Rightarrow> new_PeerScore)"

definition put_score :: "js_string \<Rightarrow> PeerScore \<Rightarrow> PeerScorer \<Rightarrow> PeerScorer" where
  "put_score peerId s S = S\<lparr>psr_scores := AList.update peerId s (psr_scores S)\<rparr>"

text \<open>Without a peer, or with the empty one, nothing is done.\<close>

definition incrementScore :: "js_string option \<Rightarrow> int \<Rightarrow> PeerScorer \<Rightarrow> PeerScorer" where
  "incrementScore peerID by S =
     (case peerID of
        None \<Rightarrow> S
      | Some p \<Rightarrow>
          if p = [] then S
          else
            (let s = score_or_new p S; s = s\<lparr>ps_score := ps_score s + by\<rparr>; S = put_score p s S
             in S\<lparr>psr_notified := psr_notified S @ [(p, ps_score s)]\<rparr>))"

definition decrementScore :: "js_string option \<Rightarrow> int \<Rightarrow> PeerScorer \<Rightarrow> PeerScorer" where
  "decrementScore peerID by = incrementScore peerID (- by)"

text \<open>The three judgements of a sync, in the order of the code. A share above four fifths is a good one.\<close>

definition syncs_too_often :: "int \<Rightarrow> js_string \<Rightarrow> PeerScorer \<Rightarrow> bool" where
  "syncs_too_often now peerId S \<longleftrightarrow>
     now - (case ps_lastSyncTime (score_or_new peerId S) of Some t \<Rightarrow> t | None \<Rightarrow> 0) < psr_badSyncWindowThreshold S"

definition only_old_messages :: "MergeResult \<Rightarrow> bool" where
  "only_old_messages r \<longleftrightarrow>
     mr_total r \<ge> BAD_PEER_MESSAGE_THRESHOLD \<and> mr_successCount r = 0 \<and> mr_deferredCount r = 0"

definition mostly_merged :: "MergeResult \<Rightarrow> bool" where
  "mostly_merged r \<longleftrightarrow> mr_total r > 0 \<and> 5 * mr_successCount r > 4 * mr_total r"

definition nothing_differed :: "MergeResult \<Rightarrow> bool" where
  "nothing_differed r \<longleftrightarrow> mr_total r = 0 \<and> mr_successCount r = 0"

definition updateLastSync :: "int \<Rightarrow> js_string \<Rightarrow> MergeResult \<Rightarrow> PeerScorer \<Rightarrow> PeerScorer" where
  "updateLastSync now peerId result S =
     (let S = (if getScore peerId S = None then put_score peerId new_PeerScore S else S);
          S = (if syncs_too_often now peerId S then decrementScore (Some peerId) 2 S else S);
          S = (if only_old_messages result
               then decrementScore (Some peerId) 10
                      (put_score peerId ((score_or_new peerId S)\<lparr>ps_lastBadSyncTime := Some now\<rparr>) S)
               else S);
          S = (if mostly_merged result then incrementScore (Some peerId) 1 S else S);
          S = (if nothing_differed result then incrementScore (Some peerId) 1 S else S)
      in put_score peerId ((score_or_new peerId S)\<lparr>ps_lastSyncTime := Some now, ps_lastSyncResult := Some result\<rparr>) S)"

text \<open>Blocked peers are remembered with the time at which they were seen to be.\<close>

definition block :: "int \<Rightarrow> PeerScore \<Rightarrow> PeerScore" where
  "block now s =
     (if ps_score s \<le> BLOCKED_PEER_SCORE_THRESHOLD \<and> \<not> ps_blocked s
      then s\<lparr>ps_blocked := True, ps_blockedAt := Some now\<rparr> else s)"

definition getBadPeerIds :: "int \<Rightarrow> PeerScorer \<Rightarrow> js_string list \<times> PeerScorer" where
  "getBadPeerIds now S =
     (map fst (filter (\<lambda>e. ps_score (snd e) \<le> BLOCKED_PEER_SCORE_THRESHOLD) (psr_scores S)),
      S\<lparr>psr_scores := map (\<lambda>(p, s). (p, block now s)) (psr_scores S)\<rparr>)"

section \<open>What the scores are\<close>

definition score_of :: "js_string \<Rightarrow> PeerScorer \<Rightarrow> int" where
  "score_of p S = ps_score (score_or_new p S)"

lemma getScore_put [simp]: "getScore p (put_score q s S) = (if p = q then Some s else getScore p S)"
  by (simp add: getScore_def put_score_def update_conv)

lemma score_or_new_put [simp]: "score_or_new p (put_score q s S) = (if p = q then s else score_or_new p S)"
  by (simp add: score_or_new_def)

lemma getScore_notified [simp]: "getScore p (S\<lparr>psr_notified := n\<rparr>) = getScore p S"
  by (simp add: getScore_def)

lemma score_or_new_notified [simp]: "score_or_new p (S\<lparr>psr_notified := n\<rparr>) = score_or_new p S"
  by (simp add: score_or_new_def)

lemma incrementScore_score_or_new:
  "score_or_new p (incrementScore q by S) =
     (if q = Some p \<and> p \<noteq> [] then (score_or_new p S)\<lparr>ps_score := ps_score (score_or_new p S) + by\<rparr> else score_or_new p S)"
  by (auto simp: incrementScore_def Let_def split: option.split)

lemma score_of_increment: "score_of p (incrementScore q by S) = score_of p S + (if q = Some p \<and> p \<noteq> [] then by else 0)"
  by (simp add: score_of_def incrementScore_score_or_new)

lemma incrementScore_threshold [simp]: "psr_badSyncWindowThreshold (incrementScore q by S) = psr_badSyncWindowThreshold S"
  by (simp add: incrementScore_def put_score_def Let_def split: option.split)

text \<open>What a sync does to the score of its peer, and that it does nothing to any other.\<close>

lemma updateLastSync_score:
  assumes "p \<noteq> []"
  shows "score_of p (updateLastSync now p r S) =
     score_of p S - (if syncs_too_often now p S then 2 else 0) - (if only_old_messages r then 10 else 0) +
     (if mostly_merged r then 1 else 0) + (if nothing_differed r then 1 else 0)"
proof -
  define S0 where "S0 = (if getScore p S = None then put_score p new_PeerScore S else S)"
  have 0: "score_or_new p S0 = score_or_new p S" "psr_badSyncWindowThreshold S0 = psr_badSyncWindowThreshold S"
    by (simp_all add: S0_def score_or_new_def getScore_def put_score_def update_conv)
  then have often: "syncs_too_often now p S0 = syncs_too_often now p S" by (simp add: syncs_too_often_def)
  show ?thesis
    unfolding updateLastSync_def Let_def S0_def[symmetric] often using assms
    by (simp add: score_of_def decrementScore_def incrementScore_score_or_new 0)
qed

lemma updateLastSync_other: "q \<noteq> p \<Longrightarrow> score_or_new q (updateLastSync now p r S) = score_or_new q S"
  by (simp add: updateLastSync_def Let_def decrementScore_def incrementScore_score_or_new)

lemma getBadPeerIds_score [simp]: "score_of p (snd (getBadPeerIds now S)) = score_of p S"
proof -
  have "map_of (map (\<lambda>(p, s). (p, block now s)) xs) p = map_option (block now) (map_of xs p)" for xs
    by (induction xs) auto
  moreover have "ps_score (block now s) = ps_score s" for s by (simp add: block_def)
  ultimately show ?thesis
    by (simp add: score_of_def score_or_new_def getScore_def getBadPeerIds_def split: option.split)
qed

lemma getBadPeerIds_iff:
  assumes "distinct (map fst (psr_scores S))"
  shows "p \<in> set (fst (getBadPeerIds now S)) \<longleftrightarrow> score_of p S \<le> BLOCKED_PEER_SCORE_THRESHOLD"
proof -
  have "map_of (psr_scores S) p = Some s \<longleftrightarrow> (p, s) \<in> set (psr_scores S)" for s
    using assms by simp
  moreover have "ps_score new_PeerScore > BLOCKED_PEER_SCORE_THRESHOLD"
    by (simp add: new_PeerScore_def BLOCKED_PEER_SCORE_THRESHOLD_def)
  ultimately show ?thesis
    by (cases "map_of (psr_scores S) p")
      (force simp: getBadPeerIds_def score_of_def score_or_new_def getScore_def)+
qed

end
