(* ===== verification/SyncState.thy ===== *)
theory SyncState
  imports SyncMerkle PeerScores
begin

text \<open>
  The state of the sync engine (\<^verbatim>\<open>network/sync/syncEngine.ts\<close>): the trie of sync ids, which follows the events of the
  stores, the peers that are known, their scores, and the sync that goes on. The counts of messages that wait to get
  into the trie go up and down within one listener, since a listener runs to its end here.
\<close>

section \<open>The trie and its listeners\<close>

record sync_trie =
  sr_trie :: MerkleTrie
  sr_syncTrieQ :: int
  sr_numFids :: int
  sr_numFnames :: int

definition delete_alone_now :: "trie_coder \<Rightarrow> bytes list \<Rightarrow> MerkleTrie \<Rightarrow> MerkleTrie" where
  "delete_alone_now E ids mt = snd (rsMerkleTrieBatchUpdate E [] ids mt)"

text \<open>An id that cannot be made is an error that is logged.\<close>

definition with_id :: "(bytes \<Rightarrow> MerkleTrie \<Rightarrow> MerkleTrie) \<Rightarrow> bytes outcome \<Rightarrow> sync_trie \<Rightarrow> sync_trie" where
  "with_id f i r = (case i of Ok i \<Rightarrow> r\<lparr>sr_trie := f i (sr_trie r)\<rparr> | _ \<Rightarrow> r)"

definition sync_addMessage :: "trie_coder \<Rightarrow> Message \<Rightarrow> sync_trie \<Rightarrow> sync_trie" where
  "sync_addMessage E m = with_id (insert_alone_now E) (sync_fromMessage m)"

definition sync_removeMessage :: "trie_coder \<Rightarrow> Message \<Rightarrow> sync_trie \<Rightarrow> sync_trie" where
  "sync_removeMessage E m = with_id (\<lambda>i. delete_alone_now E [i]) (sync_fromMessage m)"

definition sync_addOnChainEvent :: "trie_coder \<Rightarrow> OnChainEvent \<Rightarrow> sync_trie \<Rightarrow> sync_trie" where
  "sync_addOnChainEvent E event = with_id (insert_alone_now E) (sync_fromOnChainEvent event)"

definition sync_addFname :: "trie_coder \<Rightarrow> UserNameProof \<Rightarrow> sync_trie \<Rightarrow> sync_trie" where
  "sync_addFname E p = with_id (insert_alone_now E) (sync_fromFName p)"

definition sync_removeFname :: "trie_coder \<Rightarrow> UserNameProof \<Rightarrow> sync_trie \<Rightarrow> sync_trie" where
  "sync_removeFname E p = with_id (\<lambda>i. delete_alone_now E [i]) (sync_fromFName p)"

definition on_mergeMessage :: "trie_coder \<Rightarrow> MergeMessageBody \<Rightarrow> sync_trie \<Rightarrow> sync_trie" where
  "on_mergeMessage E body r =
     (case mmb_message body of
        Some m \<Rightarrow> fold (sync_removeMessage E) (mmb_deletedMessages body) (sync_addMessage E m r)
      | None \<Rightarrow> fold (sync_removeMessage E) (mmb_deletedMessages body) r)"

definition on_mergeOnChainEvent :: "trie_coder \<Rightarrow> OnChainEvent \<Rightarrow> sync_trie \<Rightarrow> sync_trie" where
  "on_mergeOnChainEvent E event r =
     (let r = sync_addOnChainEvent E event r
      in if isIdRegisterOnChainEvent event then r\<lparr>sr_numFids := sr_numFids r + 1\<rparr> else r)"

text \<open>A name that is given up is a proof of no user, which does not get into the trie.\<close>

definition added_fname :: "UserNameProof \<Rightarrow> bool" where
  "added_fname p \<longleftrightarrow> unp_type p = USERNAME_TYPE_FNAME \<and> \<not> js_eq (unp_fid p) (numI 0)"

definition on_mergeUsernameProofEvent :: "trie_coder \<Rightarrow> MergeUserNameProofBody \<Rightarrow> sync_trie \<Rightarrow> sync_trie" where
  "on_mergeUsernameProofEvent E body r =
     (let r = (case mupb_usernameProofMessage body of Some m \<Rightarrow> sync_addMessage E m r | None \<Rightarrow> r);
          r = (case mupb_deletedUsernameProofMessage body of Some m \<Rightarrow> sync_removeMessage E m r | None \<Rightarrow> r);
          r = (case mupb_usernameProof body of
                 Some p \<Rightarrow>
                   if added_fname p then (sync_addFname E p r)\<lparr>sr_numFnames := sr_numFnames r + 1\<rparr> else r
               | None \<Rightarrow> r)
      in (case mupb_deletedUsernameProof body of
            Some p \<Rightarrow>
              if unp_type p = USERNAME_TYPE_FNAME
              then (sync_removeFname E p r)\<lparr>sr_numFnames := sr_numFnames r - 1\<rparr> else r
          | None \<Rightarrow> r))"

definition sync_listen :: "trie_coder \<Rightarrow> string \<times> HubEvent \<Rightarrow> sync_trie \<Rightarrow> sync_trie" where
  "sync_listen E emitted r =
     (case emitted of
        (name, event) \<Rightarrow>
          if name = ''mergeMessage'' then
            (case he_mergeMessageBody event of Some body \<Rightarrow> on_mergeMessage E body r | None \<Rightarrow> r)
          else if name = ''mergeOnChainEvent'' then
            (case he_mergeOnChainEventBody event of Some (Some e) \<Rightarrow> on_mergeOnChainEvent E e r | _ \<Rightarrow> r)
          else if name = ''pruneMessage'' then
            (case he_pruneMessageBody event of Some (Some m) \<Rightarrow> sync_removeMessage E m r | _ \<Rightarrow> r)
          else if name = ''revokeMessage'' then
            (case he_revokeMessageBody event of Some (Some m) \<Rightarrow> sync_removeMessage E m r | _ \<Rightarrow> r)
          else if name = ''mergeUsernameProofEvent'' then
            (case he_mergeUsernameProofBody event of Some body \<Rightarrow> on_mergeUsernameProofEvent E body r | None \<Rightarrow> r)
          else r)"

text \<open>Proofs and events that are merged again get into the trie if they are not there.\<close>

definition insert_if_absent :: "trie_coder \<Rightarrow> bytes outcome \<Rightarrow> sync_trie \<Rightarrow> sync_trie" where
  "insert_if_absent E i r =
     (case i of
        Ok i \<Rightarrow>
          (case rsMerkleTrieExists E i (sr_trie r) of
             (Ok b, mt) \<Rightarrow> r\<lparr>sr_trie := if b then mt else insert_alone_now E i mt\<rparr>
           | (_, mt) \<Rightarrow> r\<lparr>sr_trie := mt\<rparr>)
      | _ \<Rightarrow> r)"

definition on_duplicateUserNameProofEvent :: "trie_coder \<Rightarrow> UserNameProof \<Rightarrow> sync_trie \<Rightarrow> sync_trie" where
  "on_duplicateUserNameProofEvent E p = insert_if_absent E (sync_fromFName p)"

definition on_duplicateOnChainEvent :: "trie_coder \<Rightarrow> OnChainEvent \<Rightarrow> sync_trie \<Rightarrow> sync_trie" where
  "on_duplicateOnChainEvent E e = insert_if_absent E (sync_fromOnChainEvent e)"

section \<open>Snapshots\<close>

definition SYNC_THRESHOLD_IN_SECONDS :: int where
  "SYNC_THRESHOLD_IN_SECONDS = 10"

definition snapshotTimestamp :: "int \<Rightarrow> int outcome" where
  "snapshotTimestamp now =
     mapOk (getFarcasterTime now) (\<lambda>t. (t div SYNC_THRESHOLD_IN_SECONDS) * SYNC_THRESHOLD_IN_SECONDS)"

definition on_sync_trie :: "('b \<times> MerkleTrie) \<Rightarrow> sync_trie \<Rightarrow> 'b \<times> sync_trie" where
  "on_sync_trie x r = (fst x, r\<lparr>sr_trie := snd x\<rparr>)"

definition sync_getSnapshot :: "trie_coder \<Rightarrow> int \<Rightarrow> bytes option \<Rightarrow> sync_trie \<Rightarrow> TrieSnapshot outcome \<times> sync_trie" where
  "sync_getSnapshot E now pre r =
     (case snapshotTimestamp now of
        Ok t \<Rightarrow>
          on_sync_trie (rsMerkleTrieGetSnapshot E
            (case pre of Some p \<Rightarrow> p | None \<Rightarrow> utf8_encode (timestampToPaddedTimestampPrefix t)) (sr_trie r)) r
      | Err e \<Rightarrow> (Err e, r)
      | Throw t \<Rightarrow> (Throw t, r))"

definition sync_getSnapshotByPrefix ::
  "trie_coder \<Rightarrow> int \<Rightarrow> bytes option \<Rightarrow> sync_trie \<Rightarrow> TrieSnapshot outcome \<times> sync_trie" where
  "sync_getSnapshotByPrefix E now pre r =
     (if pre = None \<or> pre = Some [] then sync_getSnapshot E now None r
      else on_sync_trie (rsMerkleTrieGetSnapshot E (the pre) (sr_trie r)) r)"

section \<open>What peers say\<close>

text \<open>The answers of a peer, which may depend on how many questions were asked before. A peer says what it likes;
  \<^verbatim>\<open>rpc/server.ts\<close> is what a hub says.\<close>

datatype TrieNodeMetadataResponse =
  TrieNodeMetadataResponse (tm_prefix: bytes) (tm_numMessages: nat) (tm_hash: js_string)
    (tm_children: "TrieNodeMetadataResponse list")

record peer_client =
  pc_answersInfo :: bool
  pc_getSyncMetadataByPrefix :: "nat \<Rightarrow> bytes \<Rightarrow> TrieNodeMetadataResponse outcome"
  pc_getSyncSnapshotByPrefix :: "nat \<Rightarrow> bytes \<Rightarrow> TrieSnapshot outcome"
  pc_getAllSyncIdsByPrefix :: "nat \<Rightarrow> bytes \<Rightarrow> bytes list outcome"
  pc_getAllMessagesBySyncIds :: "nat \<Rightarrow> bytes list \<Rightarrow> Message list outcome"
  pc_getOnChainEvents :: "nat \<Rightarrow> number \<Rightarrow> OnChainEvent list outcome"
  pc_getOnChainSignersByFid :: "nat \<Rightarrow> number \<Rightarrow> OnChainEvent list outcome"

definition fromNodeMetadataResponse :: "TrieNodeMetadataResponse \<Rightarrow> NodeMetadata" where
  "fromNodeMetadataResponse response =
     NodeMetadata (tm_prefix response) (tm_numMessages response) (tm_hash response)
       (fold (\<lambda>child children.
          if tm_prefix child \<noteq> []
          then AList.update (last (tm_prefix child))
                 (NodeMetadata (tm_prefix child) (tm_numMessages child) (tm_hash child) []) children
          else children) (tm_children response) [])"

section \<open>The state\<close>

record work_item =
  wi_prefix :: bytes
  wi_score :: rat

text \<open>\<open>NaN\<close> is the remainder by zero that the index of the next client becomes when no client is left: \<open>None\<close>.\<close>

record CurrentSyncStatus =
  cs_isSyncing :: bool
  cs_interruptSync :: bool
  cs_peerId :: "js_string option"
  cs_peerTimeoutErrors :: nat
  cs_startTimestampMs :: int
  cs_cutoffTimestampFs :: int
  cs_fidRetryMessageQ :: "(number \<times> Message list) list"
  cs_seriousValidationFailures :: nat
  cs_rpcClient :: "peer_client option"
  cs_secondaryRpcClients :: "(js_string \<times> peer_client) list"
  cs_nextSecondaryRpcClient :: "nat option"
  cs_executingWorkCount :: nat
  cs_completedWorkCount :: nat
  cs_workQueue :: "work_item list"
  cs_fullResult :: MergeResult

definition new_CurrentSyncStatus ::
  "js_string option \<Rightarrow> peer_client option \<Rightarrow> (js_string \<times> peer_client) list \<Rightarrow> int \<Rightarrow> CurrentSyncStatus" where
  "new_CurrentSyncStatus peerId rpcClient secondaryRpcClients startTimestamp =
     (let syncing = (peerId \<noteq> None \<and> peerId \<noteq> Some [])
      in \<lparr>cs_isSyncing = syncing, cs_interruptSync = False, cs_peerId = (if syncing then peerId else None),
          cs_peerTimeoutErrors = 0, cs_startTimestampMs = (if syncing then startTimestamp else 0),
          cs_cutoffTimestampFs =
            (if syncing then (case toFarcasterTime startTimestamp of Ok t \<Rightarrow> t | _ \<Rightarrow> 0) else 0),
          cs_fidRetryMessageQ = [], cs_seriousValidationFailures = 0, cs_rpcClient = rpcClient,
          cs_secondaryRpcClients = secondaryRpcClients, cs_nextSecondaryRpcClient = Some 0,
          cs_executingWorkCount = 0, cs_completedWorkCount = 0, cs_workQueue = [],
          cs_fullResult = no_merge_result\<rparr>)"

record ContactInfoContentBody =
  ci_excludedHashes :: "js_string list"
  ci_count :: int
  ci_hubVersion :: js_string
  ci_network :: int
  ci_appVersion :: js_string
  ci_timestamp :: int

text \<open>What the engine has asked of its peers and handed to its hub, in order.\<close>

datatype sync_action =
    AskMetadata bytes
  | AskSnapshot bytes
  | AskSyncIds bytes
  | AskMessages "bytes list"
  | AskOnChainEvents number
  | AskSigners number
  | SubmitBundle "Message list"
  | SubmitOne Message
  | RetryBlock int
  | RetryName bytes
  | RetryIdRegistryLater Message

record 'w sync_engine =
  sy_hub :: 'w
  sy_trie :: sync_trie
  sy_cur :: CurrentSyncStatus
  sy_scorer :: PeerScorer
  sy_log :: "sync_action list"
  sy_syncMergeQ :: int
  sy_started :: bool
  sy_currentHubPeerContacts :: "(js_string \<times> ContactInfoContentBody) list"
  sy_uniquePeerMap :: "(js_string, ContactInfoContentBody) ttl_map"
  sy_peerSyncSnapshot :: "(js_string \<times> TrieSnapshot) list"

section \<open>Peers\<close>

definition PEER_TTL_MAP_EXPIRATION_TIME_MILLISECONDS :: int where
  "PEER_TTL_MAP_EXPIRATION_TIME_MILLISECONDS = 1000 * 60 * 60 * 24"

definition PEER_TTL_MAP_CLEANUP_INTERVAL_MILLISECONDS :: int where
  "PEER_TTL_MAP_CLEANUP_INTERVAL_MILLISECONDS = 1000 * 60 * 60 * 25"

definition new_SyncEngine :: "int \<Rightarrow> rocksdb \<Rightarrow> int option \<Rightarrow> 'w \<Rightarrow> 'w sync_engine" where
  "new_SyncEngine now trieDb minSyncWindow hub =
     \<lparr>sy_hub = hub,
      sy_trie = \<lparr>sr_trie = new_MerkleTrie trieDb True, sr_syncTrieQ = 0, sr_numFids = 0, sr_numFnames = 0\<rparr>,
      sy_cur = new_CurrentSyncStatus None None [] 0, sy_scorer = new_PeerScorer minSyncWindow, sy_log = [],
      sy_syncMergeQ = 0, sy_started = False, sy_currentHubPeerContacts = [],
      sy_uniquePeerMap = new_TTLMap PEER_TTL_MAP_EXPIRATION_TIME_MILLISECONDS
                           (Some PEER_TTL_MAP_CLEANUP_INTERVAL_MILLISECONDS) now,
      sy_peerSyncSnapshot = []\<rparr>"

definition avgPeerNumMessages :: "'w sync_engine \<Rightarrow> rat" where
  "avgPeerNumMessages st =
     (let filtered = filter (\<lambda>s. ts_numMessages s > 0) (map snd (sy_peerSyncSnapshot st))
      in if filtered = [] then 0 else of_nat (sum_list (map ts_numMessages filtered)) / of_nat (length filtered))"

definition getContactInfoForPeerId :: "js_string \<Rightarrow> 'w sync_engine \<Rightarrow> ContactInfoContentBody option" where
  "getContactInfoForPeerId peerId st = map_of (sy_currentHubPeerContacts st) peerId"

definition addContactInfoForPeerId ::
  "int \<Rightarrow> js_string \<Rightarrow> ContactInfoContentBody \<Rightarrow> int \<Rightarrow> 'w sync_engine \<Rightarrow> unit outcome \<times> 'w sync_engine" where
  "addContactInfoForPeerId now peerId contactInfo updateThreshold st =
     (let add = st\<lparr>sy_uniquePeerMap := ttl_set peerId contactInfo now (sy_uniquePeerMap st),
                   sy_currentHubPeerContacts := AList.update peerId contactInfo (sy_currentHubPeerContacts st)\<rparr>
      in (case getContactInfoForPeerId peerId st of
            None \<Rightarrow> (Ok (), add)
          | Some existing \<Rightarrow>
              if ci_timestamp contactInfo \<le> ci_timestamp existing then (fail Duplicate ''peer already exists'', st)
              else if now - ci_timestamp existing > updateThreshold then (Ok (), add)
              else (fail Duplicate ''recent contact update found for peer'', st)))"

definition removeContactInfoForPeerId :: "js_string \<Rightarrow> 'w sync_engine \<Rightarrow> 'w sync_engine" where
  "removeContactInfoForPeerId peerId st =
     st\<lparr>sy_currentHubPeerContacts := AList.delete peerId (sy_currentHubPeerContacts st)\<rparr>"

definition getPeerCount :: "'w sync_engine \<Rightarrow> nat" where
  "getPeerCount st = length (sy_currentHubPeerContacts st)"

definition getActivePeerCount :: "int \<Rightarrow> 'w sync_engine \<Rightarrow> int \<times> 'w sync_engine" where
  "getActivePeerCount now st =
     (case ttl_size now (sy_uniquePeerMap st) of (n, m) \<Rightarrow> (n, st\<lparr>sy_uniquePeerMap := m\<rparr>))"

definition getCurrentHubPeerContacts :: "int \<Rightarrow> 'w sync_engine \<Rightarrow> (js_string \<times> ContactInfoContentBody) list \<times> 'w sync_engine" where
  "getCurrentHubPeerContacts now st =
     (case ttl_getAll now (sy_uniquePeerMap st) of (cs, m) \<Rightarrow> (cs, st\<lparr>sy_uniquePeerMap := m\<rparr>))"

section \<open>Whether to sync\<close>

definition BAD_PEER_BLOCK_TIMEOUT :: int where
  "BAD_PEER_BLOCK_TIMEOUT = 5 * 60 * 60 * 1000"

datatype in_sync = InSyncTrue | InSyncFalse | InSyncUnknown | InSyncBlocked

record SyncStatus =
  ss_isSyncing :: bool
  ss_inSync :: in_sync
  ss_shouldSync :: bool
  ss_theirSnapshot :: TrieSnapshot
  ss_ourSnapshot :: TrieSnapshot
  ss_lastBadSync :: int
  ss_score :: int

text \<open>A time of zero is as good as none.\<close>

definition blocked_since :: "int \<Rightarrow> js_string \<Rightarrow> PeerScorer \<Rightarrow> int option" where
  "blocked_since now peerId S =
     (case getScore peerId S of
        None \<Rightarrow> None
      | Some s \<Rightarrow>
          (case ps_lastBadSyncTime s of
             None \<Rightarrow> None
           | Some t \<Rightarrow> if t \<noteq> 0 \<and> now < t + BAD_PEER_BLOCK_TIMEOUT then Some t else None))"

definition sync_status :: "trie_coder \<Rightarrow> int \<Rightarrow> js_string \<Rightarrow> TrieSnapshot \<Rightarrow> 'w sync_engine \<Rightarrow> SyncStatus outcome \<times> 'w sync_engine" where
  "sync_status E now peerId theirs st =
     (case sync_getSnapshot E now (Some (ts_prefix theirs)) (sy_trie st) of
        (Ok ours, r) \<Rightarrow>
          (let st = st\<lparr>sy_trie := r\<rparr>;
               score = (case getScore peerId (sy_scorer st) of Some s \<Rightarrow> ps_score s | None \<Rightarrow> 0);
               isSyncing = cs_isSyncing (sy_cur st)
           in case blocked_since now peerId (sy_scorer st) of
                Some t \<Rightarrow>
                  (Ok \<lparr>ss_isSyncing = False, ss_inSync = InSyncBlocked, ss_shouldSync = False, ss_theirSnapshot = theirs,
                       ss_ourSnapshot = ours, ss_lastBadSync = t, ss_score = score\<rparr>, st)
              | None \<Rightarrow>
                  (let match = ts_excludedHashes ours = ts_excludedHashes theirs
                   in (Ok \<lparr>ss_isSyncing = isSyncing, ss_inSync = (if match then InSyncTrue else InSyncFalse),
                           ss_shouldSync = (\<not> isSyncing \<and> \<not> match), ss_theirSnapshot = theirs, ss_ourSnapshot = ours,
                           ss_lastBadSync =
                             (case getScore peerId (sy_scorer st) of
                                Some s \<Rightarrow> (case ps_lastBadSyncTime s of Some t \<Rightarrow> t | None \<Rightarrow> -1)
                              | None \<Rightarrow> -1),
                           ss_score = score\<rparr>, st)))
      | (Err e, r) \<Rightarrow> (Err e, st\<lparr>sy_trie := r\<rparr>)
      | (Throw t, r) \<Rightarrow> (Throw t, st\<lparr>sy_trie := r\<rparr>))"

end
