(* ===== verification/SyncWalk.thy ===== *)
theory SyncWalk
  imports SyncState Engine
begin

text \<open>
  A sync with a peer (\<^verbatim>\<open>performSync\<close> of \<^verbatim>\<open>network/sync/syncEngine.ts\<close>): the tries are compared from the root down, in the
  order of a priority queue, and what the peer has and we lack is fetched and handed to the hub. Work items that are
  started together run one after the other here. A work item whose promise is never settled, because an exception
  escapes from it, makes the sync wait for ever: the result \<open>None\<close>; what items that are still in the queue do after that is not
  modelled (the exception is a rejection that nobody handles, on which \<^verbatim>\<open>cli.ts\<close> shuts the hub down).

  The hub is the interface \<^verbatim>\<open>HubInterface\<close> and the providers of chain events that the engine is given; what it does may
  also change the trie, through the listeners. The queue with priorities is a library.
\<close>

section \<open>What the engine is given\<close>

record 'w hub_interface =
  hi_submitMessageBundle ::
    "Message list \<Rightarrow> 'w \<times> sync_trie \<Rightarrow> int outcome list outcome option \<times> ('w \<times> sync_trie)"
  hi_submitMessage :: "Message \<Rightarrow> 'w \<times> sync_trie \<Rightarrow> int outcome option \<times> ('w \<times> sync_trie)"
  hi_retryEventsFromBlock :: "(int \<Rightarrow> 'w \<times> sync_trie \<Rightarrow> unit outcome option \<times> ('w \<times> sync_trie)) option"
  hi_retryTransferByName :: "(bytes \<Rightarrow> 'w \<times> sync_trie \<Rightarrow> unit outcome option \<times> ('w \<times> sync_trie)) option"
  hi_getUserNameProof :: "bytes \<Rightarrow> 'w \<times> sync_trie \<Rightarrow> UserNameProof option outcome option \<times> ('w \<times> sync_trie)"
  hi_validateMessage :: "Message \<Rightarrow> 'w \<times> sync_trie \<Rightarrow> Message outcome option \<times> ('w \<times> sync_trie)"
  hi_db :: "'w \<Rightarrow> rocksdb"

record 'w sync_env =
  sn_coder :: trie_coder
  sn_proto :: proto_codec
  sn_hub :: "'w hub_interface"
  sn_now :: int
  sn_depth :: nat
  sn_pop :: "work_item list \<Rightarrow> (work_item \<times> work_item list) option"
  sn_timedOut :: "nat \<Rightarrow> bool"
  sn_random :: "nat \<Rightarrow> nat \<Rightarrow> nat"
  sn_parallelism :: nat
  sn_connect :: "js_string \<Rightarrow> ContactInfoContentBody \<Rightarrow> peer_client option"

type_synonym ('a, 'w) sync_result = "'a outcome option \<times> 'w sync_engine"

text \<open>A step of the hub, and what else is used again and again.\<close>

definition hub_step ::
  "('w \<times> sync_trie \<Rightarrow> 'a outcome option \<times> ('w \<times> sync_trie)) \<Rightarrow> 'w sync_engine \<Rightarrow> ('a, 'w) sync_result" where
  "hub_step f st = (case f (sy_hub st, sy_trie st) of (r, w, t) \<Rightarrow> (r, st\<lparr>sy_hub := w, sy_trie := t\<rparr>))"

definition sync_do :: "sync_action \<Rightarrow> 'w sync_engine \<Rightarrow> 'w sync_engine" where
  "sync_do a st = st\<lparr>sy_log := sy_log st @ [a]\<rparr>"

definition questions :: "'w sync_engine \<Rightarrow> nat" where
  "questions st = length (sy_log st)"

definition on_cur :: "(CurrentSyncStatus \<Rightarrow> CurrentSyncStatus) \<Rightarrow> 'w sync_engine \<Rightarrow> 'w sync_engine" where
  "on_cur f st = st\<lparr>sy_cur := f (sy_cur st)\<rparr>"

definition blame :: "int \<Rightarrow> 'w sync_engine \<Rightarrow> 'w sync_engine" where
  "blame by st = st\<lparr>sy_scorer := decrementScore (cs_peerId (sy_cur st)) by (sy_scorer st)\<rparr>"

definition on_trie :: "(MerkleTrie \<Rightarrow> 'a outcome \<times> MerkleTrie) \<Rightarrow> 'w sync_engine \<Rightarrow> ('a, 'w) sync_result" where
  "on_trie f st =
     (case f (sr_trie (sy_trie st)) of (r, mt) \<Rightarrow> (Some r, st\<lparr>sy_trie := (sy_trie st)\<lparr>sr_trie := mt\<rparr>\<rparr>))"

definition our_metadata :: "'w sync_env \<Rightarrow> bytes \<Rightarrow> 'w sync_engine \<Rightarrow> NodeMetadata option outcome" where
  "our_metadata E pre st = rsMerkleTrieGetTrieNodeMetadata (sn_coder E) pre (sr_trie (sy_trie st))"

section \<open>Ids of the trie that are not in the database\<close>

fun message_keys :: "bytes list \<Rightarrow> bytes list outcome" where
  "message_keys [] = Ok []"
| "message_keys (i # is) =
     andThen (sync_unpack i) (\<lambda>u.
       mapOk (message_keys is) (\<lambda>ks. case u of MessageSyncId _ pk _ \<Rightarrow> pk # ks | _ \<Rightarrow> ks))"

definition sync_getAllMessagesBySyncIds :: "proto_codec \<Rightarrow> rocksdb \<Rightarrow> bytes list \<Rightarrow> Message list outcome" where
  "sync_getAllMessagesBySyncIds C db syncIds =
     andThen (message_keys syncIds) (\<lambda>ks. fromPromise (getManyMessages C db ks) as_HubError)"

text \<open>A message that was not found is empty. The index is that of the list of ids.\<close>

definition blank_message :: "Message \<Rightarrow> bool" where
  "blank_message m \<longleftrightarrow> msg_data m = None \<or> msg_hash m = None \<or> msg_hash m = Some []"

definition findCorruptedSyncIDs :: "Message list \<Rightarrow> bytes list \<Rightarrow> bytes list" where
  "findCorruptedSyncIDs messages syncIds =
     concat (map (\<lambda>(i, m). if blank_message m \<and> i < length syncIds then [syncIds ! i] else [])
       (zip [0 ..< length messages] messages))"

definition revokeSyncIds :: "trie_coder \<Rightarrow> bytes list \<Rightarrow> 'w sync_engine \<Rightarrow> 'w sync_engine" where
  "revokeSyncIds E ids st = st\<lparr>sy_trie := (sy_trie st)\<lparr>sr_trie := delete_alone_now E ids (sr_trie (sy_trie st))\<rparr>\<rparr>"

fun revoke_suspects :: "'w sync_env \<Rightarrow> bytes list \<Rightarrow> nat \<Rightarrow> 'w sync_engine \<Rightarrow> (nat, 'w) sync_result" where
  "revoke_suspects E [] n st = settled (Ok n) st"
| "revoke_suspects E (i # is) n st =
     await (settled (sync_unpack i) st) (\<lambda>u st.
       case u of
         OnChainEventSyncId fid eventType blockNumber logIndex \<Rightarrow>
           if is_ok (getOnChainEvent (sn_proto E) (hi_db (sn_hub E) (sy_hub st)) eventType (numI fid) blockNumber logIndex)
           then revoke_suspects E is n st
           else revoke_suspects E is (Suc n) (revokeSyncIds (sn_coder E) [i] st)
       | FNameSyncId fid name padded \<Rightarrow>
           (case hub_step (hi_getUserNameProof (sn_hub E) name) st of
              (None, st) \<Rightarrow> (None, st)
            | (Some (Throw t), st) \<Rightarrow> (Some (Throw t), st)
            | (Some (Ok None), st) \<Rightarrow> (Some (Throw TypeError), st)
            | (Some (Ok (Some p)), st) \<Rightarrow>
                if js_eq (unp_fid p) (numI fid) then revoke_suspects E is n st
                else revoke_suspects E is (Suc n) (revokeSyncIds (sn_coder E) [i] st)
            | (Some (Err e), st) \<Rightarrow> revoke_suspects E is (Suc n) (revokeSyncIds (sn_coder E) [i] st))
       | _ \<Rightarrow> revoke_suspects E is n st)"

fun message_ids :: "bytes list \<Rightarrow> bytes list outcome" where
  "message_ids [] = Ok []"
| "message_ids (i # is) =
     andThen (sync_unpack i) (\<lambda>u. mapOk (message_ids is) (\<lambda>js. case u of MessageSyncId _ _ _ \<Rightarrow> i # js | _ \<Rightarrow> js))"

definition revokeCorruptedSyncIds :: "'w sync_env \<Rightarrow> NodeMetadata option \<Rightarrow> 'w sync_engine \<Rightarrow> (nat, 'w) sync_result" where
  "revokeCorruptedSyncIds E ourNode st =
     (case ourNode of
        None \<Rightarrow> settled (Ok 0) st
      | Some n \<Rightarrow>
          if nm_numMessages n > 500 then settled (Ok 0) st
          else
            await (on_trie (rsMerkleTrieGetAllValues (sn_depth E) (sn_coder E) (nm_prefix n)) st) (\<lambda>suspects st.
            await (settled (message_ids suspects) st) (\<lambda>messageIds st.
            await_result
              (settled (sync_getAllMessagesBySyncIds (sn_proto E) (hi_db (sn_hub E) (sy_hub st)) messageIds) st)
              (\<lambda>messages st.
              let corrupted = (case messages of Ok ms \<Rightarrow> findCorruptedSyncIDs ms messageIds | _ \<Rightarrow> [])
              in if corrupted = [] then revoke_suspects E suspects 0 st
                 else revoke_suspects E suspects (length corrupted) (revokeSyncIds (sn_coder E) corrupted st)))))"

section \<open>Handing fetched messages to the hub\<close>

text \<open>\<^verbatim>\<open>Promise.all\<close> of promises for results: all are run, and an exception of one is that of all.\<close>

fun join_all :: "'a outcome option \<Rightarrow> 'a outcome list outcome option \<Rightarrow> 'a outcome list outcome option" where
  "join_all (Some (Throw t)) rs = Some (Throw t)"
| "join_all r (Some (Throw t)) = Some (Throw t)"
| "join_all (Some r) (Some (Ok rs)) = Some (Ok (r # rs))"
| "join_all (Some r) (Some (Err e)) = Some (Err e)"
| "join_all None rs = None"
| "join_all r None = None"

fun all_of :: "('s \<Rightarrow> 'a outcome option \<times> 's) list \<Rightarrow> 's \<Rightarrow> 'a outcome list outcome option \<times> 's" where
  "all_of [] s = settled (Ok []) s"
| "all_of (f # fs) s = (case f s of (r, s) \<Rightarrow> (case all_of fs s of (rs, s) \<Rightarrow> (join_all r rs, s)))"

definition retry_block :: "'w sync_env \<Rightarrow> int \<Rightarrow> 'w sync_engine \<Rightarrow> (unit, 'w) sync_result" where
  "retry_block E b st =
     (case hi_retryEventsFromBlock (sn_hub E) of
        None \<Rightarrow> settled (Ok ()) st
      | Some retry \<Rightarrow> hub_step (retry b) (sync_do (RetryBlock b) st))"

definition submit_one :: "'w sync_env \<Rightarrow> Message \<Rightarrow> 'w sync_engine \<Rightarrow> (int, 'w) sync_result" where
  "submit_one E m st = hub_step (hi_submitMessage (sn_hub E) m) (sync_do (SubmitOne m) st)"

definition retry_queue :: "number \<Rightarrow> 'w sync_engine \<Rightarrow> Message list option" where
  "retry_queue fid st = map_of (cs_fidRetryMessageQ (sy_cur st)) fid"

definition set_retry_queue :: "number \<Rightarrow> Message list \<Rightarrow> 'w sync_engine \<Rightarrow> 'w sync_engine" where
  "set_retry_queue fid ms = on_cur (\<lambda>c. c\<lparr>cs_fidRetryMessageQ := AList.update fid ms (cs_fidRetryMessageQ c)\<rparr>)"

text \<open>The queue of a user whose signers are being fetched again; once they have been, it is empty.\<close>

definition syncSignersAndRetryMessage :: "'w sync_env \<Rightarrow> peer_client \<Rightarrow> Message \<Rightarrow> 'w sync_engine \<Rightarrow> (int, 'w) sync_result" where
  "syncSignersAndRetryMessage E rpcClient message st =
     (let fid = message_fid message in
      if \<not> js_truthy fid then settled (fail InvalidParam ''Invalid fid while retrying message'') st
      else
        (case retry_queue fid st of
           Some [] \<Rightarrow> settled (fail InvalidParam ''Fid already retried'') st
         | Some (m # ms) \<Rightarrow> settled (Ok (int (length ms) + 2)) (set_retry_queue fid (m # ms @ [message]) st)
         | None \<Rightarrow>
             (let st = set_retry_queue fid [message] st;
                  signerEvents = pc_getOnChainSignersByFid rpcClient (questions st) fid;
                  st = sync_do (AskSigners fid) st
              in (case signerEvents of
                    Throw t \<Rightarrow> settled (Throw t) st
                  | Err e \<Rightarrow> settled (fail NetworkFailure ''Failed to fetch signer events'') st
                  | Ok events \<Rightarrow>
                      await (all_of (map (\<lambda>e. retry_block E (oce_blockNumber e)) events) st) (\<lambda>_ st.
                        let messages = (case retry_queue fid st of Some ms \<Rightarrow> ms | None \<Rightarrow> []) in
                        await (all_of (map (submit_one E) messages) (set_retry_queue fid [] st)) (\<lambda>results st.
                          case List.find (\<lambda>r. \<not> is_ok r) results of
                            Some r \<Rightarrow> settled r st
                          | None \<Rightarrow> settled (Ok 0) st))))))"

text \<open>What becomes of each message. The results that are kept, and how many were deferred and how many failed.
  A missing registration is fetched again later, in the background.\<close>

record merge_tally =
  ta_results :: "int outcome list"
  ta_deferred :: int
  ta_errors :: int

definition starts_with :: "js_string \<Rightarrow> js_string \<Rightarrow> bool" where
  "starts_with s t \<longleftrightarrow> prefix t s"

definition tally_result ::
  "'w sync_env \<Rightarrow> peer_client \<Rightarrow> Message \<Rightarrow> int outcome \<Rightarrow> merge_tally \<Rightarrow> 'w sync_engine \<Rightarrow> (merge_tally, 'w) sync_result" where
  "tally_result E rpcClient msg result ta st =
     (let push = (\<lambda>r. ta\<lparr>ta_results := ta_results ta @ [r]\<rparr>) in
      case result of
        Err e \<Rightarrow>
          if errCode e = ValidationFailure then
            if starts_with (err_message e) (lit ''invalid signer'') then
              await_result (syncSignersAndRetryMessage E rpcClient msg st) (\<lambda>retryResult st.
                case retryResult of
                  Throw t \<Rightarrow> settled (Throw t) st
                | _ \<Rightarrow> if msg_signer msg = None then settled (Throw TypeError) st else settled (Ok (push retryResult)) st)
            else if starts_with (err_message e) (lit ''unknown fid'') then
              settled (Ok ((push result)\<lparr>ta_deferred := ta_deferred ta + 1\<rparr>)) (sync_do (RetryIdRegistryLater msg) st)
            else
              settled (Ok (ta\<lparr>ta_errors := ta_errors ta + 1\<rparr>))
                (on_cur (\<lambda>c. c\<lparr>cs_seriousValidationFailures := cs_seriousValidationFailures c + 1\<rparr>) (blame 1 st))
          else if errCode e = Duplicate then
            await (settled (sync_fromMessage msg) st) (\<lambda>i st.
              settled (Ok ((push result)\<lparr>ta_errors := ta_errors ta + 1\<rparr>))
                (st\<lparr>sy_trie := (sy_trie st)\<lparr>sr_trie := insert_alone_now (sn_coder E) i (sr_trie (sy_trie st))\<rparr>\<rparr>))
          else settled (Ok (ta\<lparr>ta_errors := ta_errors ta + 1\<rparr>)) st
      | _ \<Rightarrow> settled (Ok (push result)) st)"

fun tally_results ::
  "'w sync_env \<Rightarrow> peer_client \<Rightarrow> (Message \<times> int outcome) list \<Rightarrow> merge_tally \<Rightarrow> 'w sync_engine \<Rightarrow> (merge_tally, 'w) sync_result" where
  "tally_results E rpcClient [] ta st = settled (Ok ta) st"
| "tally_results E rpcClient ((m, r) # mrs) ta st =
     await (tally_result E rpcClient m r ta st) (\<lambda>ta st. tally_results E rpcClient mrs ta st)"

definition sync_mergeMessages :: "'w sync_env \<Rightarrow> peer_client \<Rightarrow> Message list \<Rightarrow> 'w sync_engine \<Rightarrow> (MergeResult, 'w) sync_result" where
  "sync_mergeMessages E rpcClient messages st =
     (let st = sync_do (SubmitBundle messages) (st\<lparr>sy_syncMergeQ := sy_syncMergeQ st + int (length messages)\<rparr>) in
      await (hub_step (hi_submitMessageBundle (sn_hub E) messages) st) (\<lambda>results st.
      await (tally_results E rpcClient (zip messages results) \<lparr>ta_results = [], ta_deferred = 0, ta_errors = 0\<rparr> st) (\<lambda>ta st.
        settled (Ok \<lparr>mr_total = int (length (ta_results ta)),
                     mr_successCount = int (length (filter is_ok (ta_results ta))),
                     mr_deferredCount = ta_deferred ta, mr_errCount = ta_errors ta\<rparr>)
          (st\<lparr>sy_syncMergeQ := sy_syncMergeQ st - int (length messages)\<rparr>))))"

text \<open>A missing registration, in the background.\<close>

definition retryIdRegistryEvent :: "'w sync_env \<Rightarrow> peer_client \<Rightarrow> Message \<Rightarrow> 'w sync_engine \<Rightarrow> (unit, 'w) sync_result" where
  "retryIdRegistryEvent E rpcClient message st =
     (let fid = message_fid message in
      if \<not> js_truthy fid then settled (Ok ()) st
      else
        (let events = pc_getOnChainEvents rpcClient (questions st) fid; st = sync_do (AskOnChainEvents fid) st
         in (case events of
               Throw t \<Rightarrow> settled (Throw t) st
             | Ok (e # _) \<Rightarrow> retry_block E (oce_blockNumber e) st
             | _ \<Rightarrow> settled (Ok ()) st)))"

section \<open>Fetching\<close>

text \<open>The hashes that were asked for; the comparison of their hexadecimal texts is that of the bytes.\<close>

fun asked_hashes :: "bytes list \<Rightarrow> bytes list outcome" where
  "asked_hashes [] = Ok []"
| "asked_hashes (i # is) =
     andThen (sync_unpack i) (\<lambda>u.
       mapOk (asked_hashes is) (\<lambda>hs. case u of MessageSyncId _ _ h \<Rightarrow> h # hs | _ \<Rightarrow> hs))"

definition validateFetchedMessagesAgainstSyncIds :: "bytes list \<Rightarrow> Message list \<Rightarrow> bool outcome" where
  "validateFetchedMessagesAgainstSyncIds syncIds messages =
     mapOk (asked_hashes syncIds) (\<lambda>hs.
       \<forall>m \<in> set messages. case msg_hash m of Some h \<Rightarrow> h \<in> set hs | None \<Rightarrow> False)"

definition fetchAndMergeMessages :: "'w sync_env \<Rightarrow> bytes list \<Rightarrow> peer_client \<Rightarrow> 'w sync_engine \<Rightarrow> (MergeResult, 'w) sync_result" where
  "fetchAndMergeMessages E syncIds rpcClient st =
     (if syncIds = [] then settled (Ok no_merge_result) st
      else
        (let reply = pc_getAllMessagesBySyncIds rpcClient (questions st) syncIds; st = sync_do (AskMessages syncIds) st
         in (case reply of
               Throw t \<Rightarrow> settled (Throw t) st
             | Err e \<Rightarrow> settled (Ok no_merge_result) st
             | Ok messages \<Rightarrow>
                 await (settled (validateFetchedMessagesAgainstSyncIds syncIds messages) st) (\<lambda>valid st.
                   if valid then sync_mergeMessages E rpcClient messages st
                   else settled (Ok no_merge_result) (blame 1 st)))))"

text \<open>Events and names are fetched by the providers. The counts are of the attempts.\<close>

definition retry_name :: "'w sync_env \<Rightarrow> bytes \<Rightarrow> 'w sync_engine \<Rightarrow> (unit, 'w) sync_result" where
  "retry_name E name st =
     (case hi_retryTransferByName (sn_hub E) of
        None \<Rightarrow> settled (Ok ()) st
      | Some retry \<Rightarrow> hub_step (retry name) (sync_do (RetryName name) st))"

fun unpack_all :: "bytes list \<Rightarrow> UnpackedSyncId list outcome" where
  "unpack_all [] = Ok []"
| "unpack_all (i # is) = andThen (sync_unpack i) (\<lambda>u. mapOk (unpack_all is) (\<lambda>us. u # us))"

definition attempts :: "nat \<Rightarrow> nat \<Rightarrow> MergeResult" where
  "attempts n k = \<lparr>mr_total = int n, mr_successCount = int k, mr_deferredCount = 0, mr_errCount = int n - int k\<rparr>"

definition event_blocks :: "UnpackedSyncId list \<Rightarrow> int list" where
  "event_blocks us = concat (map (\<lambda>u. case u of OnChainEventSyncId fid ty blockNumber ix \<Rightarrow> [blockNumber] | _ \<Rightarrow> []) us)"

definition fname_names :: "UnpackedSyncId list \<Rightarrow> bytes list" where
  "fname_names us = concat (map (\<lambda>u. case u of FNameSyncId fid name padded \<Rightarrow> [name] | _ \<Rightarrow> []) us)"

definition validateAndMergeOnChainEvents :: "'w sync_env \<Rightarrow> bytes list \<Rightarrow> 'w sync_engine \<Rightarrow> (MergeResult, 'w) sync_result" where
  "validateAndMergeOnChainEvents E syncIds st =
     (if syncIds = [] then settled (Ok no_merge_result) st
      else
        await (settled (unpack_all syncIds) st) (\<lambda>us st.
          let blocks = (if hi_retryEventsFromBlock (sn_hub E) = None then [] else event_blocks us) in
          await (all_of (map (retry_block E) blocks) st) (\<lambda>_ st.
            settled (Ok (attempts (length syncIds) (length blocks))) st)))"

definition validateAndMergeFnames :: "'w sync_env \<Rightarrow> bytes list \<Rightarrow> 'w sync_engine \<Rightarrow> (MergeResult, 'w) sync_result" where
  "validateAndMergeFnames E syncIds st =
     (if syncIds = [] then settled (Ok no_merge_result) st
      else
        await (settled (unpack_all syncIds) st) (\<lambda>us st.
          let names = (if hi_retryTransferByName (sn_hub E) = None then [] else fname_names us) in
          await (all_of (map (retry_name E) names) st) (\<lambda>_ st.
            settled (Ok (attempts (length syncIds) (length names))) st)))"

definition fetchMissingSyncIds :: "'w sync_env \<Rightarrow> bytes list \<Rightarrow> peer_client \<Rightarrow> 'w sync_engine \<Rightarrow> (unit, 'w) sync_result" where
  "fetchMissingSyncIds E missingIds rpcClient st =
     await (validateAndMergeOnChainEvents E (filter (\<lambda>i. sync_type i = SyncIdOnChainEvent) missingIds) st) (\<lambda>result st.
     await (validateAndMergeFnames E (filter (\<lambda>i. sync_type i = SyncIdFName) missingIds) st) (\<lambda>fnameResult st.
     await (fetchAndMergeMessages E (filter (\<lambda>i. sync_type i = SyncIdMessage) missingIds) rpcClient st) (\<lambda>messagesResult st.
       settled (Ok ())
         (on_cur (\<lambda>c. c\<lparr>cs_fullResult :=
             addResult (cs_fullResult c) (addResult (addResult result fnameResult) messagesResult)\<rparr>) st))))"

definition verifySyncIdForPrefix :: "bytes \<Rightarrow> bytes list \<Rightarrow> bool" where
  "verifySyncIdForPrefix pre syncIds \<longleftrightarrow> (\<forall>i \<in> set syncIds. bytesStartsWith i pre)"

definition ask_ids :: "peer_client \<Rightarrow> bytes \<Rightarrow> 'w sync_engine \<Rightarrow> bytes list outcome \<times> 'w sync_engine" where
  "ask_ids rpcClient pre st = (pc_getAllSyncIdsByPrefix rpcClient (questions st) pre, sync_do (AskSyncIds pre) st)"

text \<open>The ids are asked of one of the secondary clients in turn, and of the primary one when that gives none.\<close>

definition got_ids :: "'w sync_env \<Rightarrow> work_item \<Rightarrow> bytes list \<Rightarrow> peer_client \<Rightarrow> 'w sync_engine \<Rightarrow> (unit, 'w) sync_result" where
  "got_ids E workItem ids rpcClient st =
     (let missing = filter (\<lambda>i. length i > 0) ids in
      if \<not> verifySyncIdForPrefix (wi_prefix workItem) missing then settled (Ok ()) (blame 1 st)
      else
        (case missing of
           [i] \<Rightarrow>
             await (on_trie (rsMerkleTrieExists (sn_coder E) i) st) (\<lambda>there st.
               if there then
                 await (settled (our_metadata E (wi_prefix workItem) st) st) (\<lambda>node st.
                 await (revokeCorruptedSyncIds E node st) (\<lambda>_ st. fetchMissingSyncIds E [] rpcClient st))
               else fetchMissingSyncIds E missing rpcClient st)
         | _ \<Rightarrow> fetchMissingSyncIds E missing rpcClient st))"

definition next_secondary :: "CurrentSyncStatus \<Rightarrow> (js_string \<times> peer_client) option \<times> CurrentSyncStatus" where
  "next_secondary c =
     (let clients = cs_secondaryRpcClients c in
      case cs_nextSecondaryRpcClient c of
        None \<Rightarrow> (None, c)
      | Some k \<Rightarrow>
          (if k < length clients then Some (clients ! k) else None,
           c\<lparr>cs_nextSecondaryRpcClient := (if clients = [] then None else Some ((k + 1) mod length clients))\<rparr>))"

definition getMessagesFromOtherNode :: "'w sync_env \<Rightarrow> work_item \<Rightarrow> 'w sync_engine \<Rightarrow> (unit, 'w) sync_result" where
  "getMessagesFromOtherNode E workItem st =
     (case next_secondary (sy_cur st) of
        (secondary, c) \<Rightarrow>
          (let st = st\<lparr>sy_cur := c\<rparr> in
           case (secondary, cs_rpcClient c) of
             (Some (_, client), Some primary) \<Rightarrow>
               (case ask_ids client (wi_prefix workItem) st of
                  (Throw t, st) \<Rightarrow> settled (Throw t) st
                | (reply, st) \<Rightarrow>
                    (case reply of
                       Ok (i # is) \<Rightarrow> got_ids E workItem (i # is) client st
                     | _ \<Rightarrow>
                         (case ask_ids primary (wi_prefix workItem) st of
                            (Ok ids, st) \<Rightarrow> got_ids E workItem ids primary st
                          | (Err e, st) \<Rightarrow> settled (Ok ()) st
                          | (Throw t, st) \<Rightarrow> settled (Throw t) st)))
           | _ \<Rightarrow> settled (Ok ()) st))"

section \<open>The queue\<close>

definition MAX_WORK_QUEUE_SIZE :: nat where
  "MAX_WORK_QUEUE_SIZE = 100000"

definition MAX_PEER_TIMEOUT_ERRORS :: nat where
  "MAX_PEER_TIMEOUT_ERRORS = 20"

definition new_work_item :: "NodeMetadata option \<Rightarrow> NodeMetadata \<Rightarrow> work_item" where
  "new_work_item ourNode theirNode =
     (let depth = TIMESTAMP_LENGTH - min TIMESTAMP_LENGTH (length (nm_prefix theirNode));
          ours = (case ourNode of Some n \<Rightarrow> nm_numMessages n | None \<Rightarrow> 0);
          messagesDiff = max 0 (int (nm_numMessages theirNode) - int ours)
      in \<lparr>wi_prefix = nm_prefix theirNode, wi_score = of_int messagesDiff / of_nat TIMESTAMP_LENGTH ^ depth\<rparr>)"

text \<open>A prefix whose time cannot be read is not held back.\<close>

definition after_cutoff :: "bytes \<Rightarrow> int \<Rightarrow> bool" where
  "after_cutoff pre cutoff = (case prefixToTimestamp (take 10 pre) of Some t \<Rightarrow> t > cutoff | None \<Rightarrow> False)"

definition scheduleWorkItem :: "NodeMetadata option \<Rightarrow> NodeMetadata \<Rightarrow> CurrentSyncStatus \<Rightarrow> CurrentSyncStatus" where
  "scheduleWorkItem ourNode theirNode c =
     (if cs_interruptSync c then c
      else if (case ourNode of Some n \<Rightarrow> nm_hash n = nm_hash theirNode | None \<Rightarrow> False) then c
      else if nm_numMessages theirNode = 0 then c
      else if length (cs_workQueue c) > MAX_WORK_QUEUE_SIZE then c
      else if after_cutoff (nm_prefix theirNode) (cs_cutoffTimestampFs c) then c
      else c\<lparr>cs_workQueue := cs_workQueue c @ [new_work_item ourNode theirNode]\<rparr>)"

definition schedule_children :: "NodeMetadata option \<Rightarrow> (byte \<times> NodeMetadata) list \<Rightarrow> CurrentSyncStatus \<Rightarrow> CurrentSyncStatus" where
  "schedule_children ourNode theirs c =
     fold (\<lambda>(char, theirChild).
       scheduleWorkItem (case ourNode of Some n \<Rightarrow> map_of (nm_children n) char | None \<Rightarrow> None) theirChild) theirs c"

text \<open>A peer that does not answer: after too many errors the next client takes its place.\<close>

definition peer_failed :: "'w sync_engine \<Rightarrow> 'w sync_engine" where
  "peer_failed st =
     (let st = on_cur (\<lambda>c. c\<lparr>cs_peerTimeoutErrors := cs_peerTimeoutErrors c + 1\<rparr>) (blame 1 st) in
      if cs_peerTimeoutErrors (sy_cur st) > MAX_PEER_TIMEOUT_ERRORS then
        (let st = blame 1 st;
             st = on_cur (\<lambda>c. c\<lparr>cs_secondaryRpcClients :=
                    filter (\<lambda>p. cs_peerId c \<noteq> Some (fst p)) (cs_secondaryRpcClients c)\<rparr>) st
         in on_cur (\<lambda>c.
              case cs_secondaryRpcClients c of
                [] \<Rightarrow> c\<lparr>cs_interruptSync := True\<rparr>
              | (p, client) # _ \<Rightarrow>
                  c\<lparr>cs_rpcClient := Some client, cs_peerId := Some p, cs_peerTimeoutErrors := 0\<rparr>) st)
      else st)"

definition executeWorkItem :: "'w sync_env \<Rightarrow> work_item \<Rightarrow> 'w sync_engine \<Rightarrow> (bool, 'w) sync_result" where
  "executeWorkItem E workItem st =
     (case cs_rpcClient (sy_cur st) of
        None \<Rightarrow> settled (Ok False) st
      | Some rpcClient \<Rightarrow>
          await (settled (our_metadata E (wi_prefix workItem) st) st) (\<lambda>ourNode st.
            let reply = pc_getSyncMetadataByPrefix rpcClient (questions st) (wi_prefix workItem);
                st = sync_do (AskMetadata (wi_prefix workItem)) st
            in (case reply of
                  Throw t \<Rightarrow> settled (Throw t) st
                | Err e \<Rightarrow> settled (Ok False) (peer_failed st)
                | Ok response \<Rightarrow>
                    (let theirNode = fromNodeMetadataResponse response in
                     await
                       (if ourNode = None \<or> nm_numMessages (the ourNode) = 0 \<or> nm_numMessages theirNode \<le> 1
                        then getMessagesFromOtherNode E workItem st else settled (Ok ()) st) (\<lambda>_ st.
                       settled (Ok True) (on_cur (schedule_children ourNode (nm_children theirNode)) st))))))"

text \<open>An item from which an exception escapes is never done.\<close>

fun execute_all :: "'w sync_env \<Rightarrow> work_item list \<Rightarrow> 'w sync_engine \<Rightarrow> (unit, 'w) sync_result" where
  "execute_all E [] st = settled (Ok ()) st"
| "execute_all E (i # is) st =
     (case executeWorkItem E i st of
        (Some (Ok _), st) \<Rightarrow> execute_all E is st
      | (_, st) \<Rightarrow> (case execute_all E is st of (_, st) \<Rightarrow> (None, st)))"

fun pop_best :: "'w sync_env \<Rightarrow> nat \<Rightarrow> work_item list \<Rightarrow> work_item list \<times> work_item list" where
  "pop_best E 0 q = ([], q)"
| "pop_best E (Suc n) q =
     (case sn_pop E q of
        None \<Rightarrow> pop_best E n q
      | Some (i, q) \<Rightarrow> (case pop_best E n q of (is, q) \<Rightarrow> (i # is, q)))"

text \<open>The rounds of the loop. \<open>running\<close> is how many items were started in the round before, all of which have run to their
  end; they count as running once more when the round starts.\<close>

fun processSyncWorkQueue :: "nat \<Rightarrow> 'w sync_env \<Rightarrow> nat \<Rightarrow> nat \<Rightarrow> nat \<Rightarrow> 'w sync_engine \<Rightarrow> (unit, 'w) sync_result" where
  "processSyncWorkQueue 0 E turn syncParallelism running st = (None, st)"
| "processSyncWorkQueue (Suc fuel) E turn syncParallelism running st =
     (if cs_workQueue (sy_cur st) = [] \<and> running = 0 then settled (Ok ()) st
      else
        (let st = (if sn_timedOut E turn then on_cur (\<lambda>c. c\<lparr>cs_interruptSync := True\<rparr>) st else st);
             st = (if cs_interruptSync (sy_cur st) then on_cur (\<lambda>c. c\<lparr>cs_workQueue := []\<rparr>) st else st);
             st = on_cur (\<lambda>c. c\<lparr>cs_completedWorkCount := cs_completedWorkCount c + running\<rparr>) st;
             n = syncParallelism - cs_executingWorkCount (sy_cur st)
         in (case pop_best E n (cs_workQueue (sy_cur st)) of
               (items, q) \<Rightarrow>
                 await (execute_all E items
                         (on_cur (\<lambda>c. c\<lparr>cs_workQueue := q, cs_executingWorkCount := length items\<rparr>) st)) (\<lambda>_ st.
                   processSyncWorkQueue fuel E (Suc turn) syncParallelism (length items) st))))"

section \<open>Auditing a peer\<close>

text \<open>A node of our trie at the end of a random path, with few messages below it. \<open>sn_random\<close> gives the index of the
  child that is taken.\<close>

fun audit_node :: "nat \<Rightarrow> 'w sync_env \<Rightarrow> nat \<Rightarrow> NodeMetadata option \<Rightarrow> 'w sync_engine \<Rightarrow> NodeMetadata option outcome option" where
  "audit_node 0 E k node st = None"
| "audit_node (Suc fuel) E k node st =
     (case node of
        None \<Rightarrow> Some (Ok None)
      | Some n \<Rightarrow>
          if nm_numMessages n \<le> 5 \<or> nm_children n = [] then Some (Ok node)
          else
            (case our_metadata E (nm_prefix (snd (nm_children n ! (sn_random E k (length (nm_children n)) mod length (nm_children n))))) st of
               Ok node \<Rightarrow> audit_node fuel E (Suc k) node st
             | r \<Rightarrow> Some r))"

text \<open>Whether the peer has a message of ours, and it is valid.\<close>

definition audit_message :: "'w sync_env \<Rightarrow> Message list \<Rightarrow> Message \<Rightarrow> 'w sync_engine \<Rightarrow> (bool, 'w) sync_result" where
  "audit_message E peerMessages message st =
     (case List.find (\<lambda>m. msg_hash m = msg_hash message) peerMessages of
        None \<Rightarrow> settled (Ok False) st
      | Some m \<Rightarrow>
          await_result (hub_step (hi_validateMessage (sn_hub E) m) st) (\<lambda>r st.
            case r of Throw t \<Rightarrow> settled (Throw t) st | _ \<Rightarrow> settled (Ok (is_ok r)) st))"

definition auditPeer :: "'w sync_env \<Rightarrow> js_string \<Rightarrow> peer_client \<Rightarrow> 'w sync_engine \<Rightarrow> (unit, 'w) sync_result" where
  "auditPeer E peerId rpcClient st =
     (let blame_peer = (\<lambda>by st. st\<lparr>sy_scorer := incrementScore (Some peerId) by (sy_scorer st)\<rparr>) in
      await (settled (our_metadata E [] st) st) (\<lambda>root_node st.
      await (audit_node (sn_depth E) E 0 root_node st, st) (\<lambda>node st.
        case node of
          None \<Rightarrow> settled (Ok ()) st
        | Some n \<Rightarrow>
            await (on_trie (rsMerkleTrieGetAllValues (sn_depth E) (sn_coder E) (nm_prefix n)) st) (\<lambda>values st.
              let syncIds = take 5 values;
                  reply = pc_getAllMessagesBySyncIds rpcClient (questions st) syncIds;
                  st = sync_do (AskMessages syncIds) st
              in (case reply of
                    Throw t \<Rightarrow> settled (Throw t) st
                  | Err e \<Rightarrow> settled (Ok ()) (blame_peer (- 1) st)
                  | Ok messages \<Rightarrow>
                      await (settled (validateFetchedMessagesAgainstSyncIds syncIds messages) st) (\<lambda>valid st.
                        if \<not> valid then settled (Ok ()) (blame 1 st)
                        else
                          (case sync_getAllMessagesBySyncIds (sn_proto E) (hi_db (sn_hub E) (sy_hub st)) syncIds of
                             Throw t \<Rightarrow> settled (Throw t) st
                           | Err e \<Rightarrow> settled (Ok ()) st
                           | Ok ours \<Rightarrow>
                               await (all_of (map (audit_message E messages) ours) st) (\<lambda>passed st.
                                 settled (Ok ()) (blame_peer (if \<forall>r \<in> set passed. r = Ok True then 1 else - 10) st))))))))) "

section \<open>A whole sync\<close>

text \<open>Half as many items at a time as there are clients, or as many when more than a thousand messages are missing;
  at least two.\<close>

definition sync_parallelism :: "'w sync_env \<Rightarrow> nat \<Rightarrow> int \<Rightarrow> nat" where
  "sync_parallelism E clients numMessages =
     (let desired = of_nat clients * (if numMessages > 1000 then 1 else 1 / 2 :: rat)
      in nat \<lfloor>max 2 (min desired (of_nat (sn_parallelism E))) + 1 / 2\<rfloor>)"

definition sync_from_root :: "nat \<Rightarrow> 'w sync_env \<Rightarrow> bool \<Rightarrow> js_string \<Rightarrow> peer_client \<Rightarrow> 'w sync_engine \<Rightarrow> (unit, 'w) sync_result" where
  "sync_from_root fuel E doAudit peerId rpcClient st =
     (case (if doAudit then auditPeer E peerId rpcClient st else settled (Ok ()) st) of
        (audit, st) \<Rightarrow>
          await (settled (our_metadata E [] st) st) (\<lambda>ourNode st.
            let reply = pc_getSyncMetadataByPrefix rpcClient (questions st) []; st = sync_do (AskMetadata []) st
            in (case reply of
                  Throw t \<Rightarrow> settled (Throw t) st
                | Err e \<Rightarrow> settled (Ok ()) (blame 1 st)
                | Ok response \<Rightarrow>
                    (let st = on_cur (scheduleWorkItem ourNode (fromNodeMetadataResponse response)) st;
                         numMessages = max 0 (int (tm_numMessages response) -
                           int (case ourNode of Some n \<Rightarrow> nm_numMessages n | None \<Rightarrow> 0));
                         parallelism = sync_parallelism E (length (cs_secondaryRpcClients (sy_cur st))) numMessages
                     in await (processSyncWorkQueue fuel E 0 parallelism 0 st) (\<lambda>_ st. (audit, st))))))"

text \<open>However the sync ends, the peer is scored by what was merged; an exception is logged.\<close>

definition performSync ::
  "nat \<Rightarrow> 'w sync_env \<Rightarrow> js_string \<Rightarrow> peer_client \<Rightarrow> bool \<Rightarrow> (js_string \<times> peer_client) list \<Rightarrow> 'w sync_engine \<Rightarrow>
   (MergeResult, 'w) sync_result" where
  "performSync fuel E peerId rpcClient doAudit secondaryRpcClients st =
     (let secondaries = (if secondaryRpcClients = [] then [(peerId, rpcClient)] else secondaryRpcClients);
          st = st\<lparr>sy_cur := new_CurrentSyncStatus (Some peerId) (Some rpcClient) secondaries (sn_now E)\<rparr>
      in (case sync_from_root fuel E doAudit peerId rpcClient st of
            (None, st) \<Rightarrow> (None, st)
          | (Some _, st) \<Rightarrow>
              (let st = on_cur (\<lambda>c. c\<lparr>cs_isSyncing := False\<rparr>) st;
                   result = cs_fullResult (sy_cur st)
               in settled (Ok result) (st\<lparr>sy_scorer := updateLastSync (sn_now E) peerId result (sy_scorer st)\<rparr>))))"

text \<open>A sync that is asked for by the operator of the hub goes on in the background.\<close>

definition forceSyncWithPeer :: "nat \<Rightarrow> 'w sync_env \<Rightarrow> js_string \<Rightarrow> 'w sync_engine \<Rightarrow> (SyncStatus, 'w) sync_result" where
  "forceSyncWithPeer fuel E peerId st =
     (if cs_isSyncing (sy_cur st) then settled (fail BadRequest ''Already syncing'') st
      else
        (case getContactInfoForPeerId peerId st of
           None \<Rightarrow> settled (fail BadRequest ''Peer not found'') st
         | Some contact \<Rightarrow>
             (case sn_connect E peerId contact of
                None \<Rightarrow> settled (fail BadRequest ''Unreachable peer'') st
              | Some rpcClient \<Rightarrow>
                  (let reply = pc_getSyncSnapshotByPrefix rpcClient (questions st) []; st = sync_do (AskSnapshot []) st in
                   await (settled reply st) (\<lambda>theirs st.
                     case sync_status (sn_coder E) (sn_now E) peerId theirs st of
                       (Ok status, st) \<Rightarrow> (Some (Ok status), snd (performSync fuel E peerId rpcClient False [] st))
                     | (r, st) \<Rightarrow> settled r st)))))"

definition getSyncStatusForPeer :: "'w sync_env \<Rightarrow> js_string \<Rightarrow> 'w sync_engine \<Rightarrow> (SyncStatus, 'w) sync_result" where
  "getSyncStatusForPeer E peerId st =
     (case getContactInfoForPeerId peerId st of
        None \<Rightarrow> settled (fail_js NetworkFailure (lit ''No contact info for peer '' @ peerId)) st
      | Some contact \<Rightarrow>
          (case sn_connect E peerId contact of
             None \<Rightarrow> settled (fail_js NetworkFailure (lit ''Could not create a RPC client for peer '' @ peerId)) st
           | Some rpcClient \<Rightarrow>
               (let reply = pc_getSyncSnapshotByPrefix rpcClient (questions st) []; st = sync_do (AskSnapshot []) st in
                await (settled reply st) (\<lambda>theirs st.
                  case sync_status (sn_coder E) (sn_now E) peerId theirs st of (r, st) \<Rightarrow> (Some r, st)))))"

text \<open>The peer to sync with: the one that is named, or a random one of those that have nearly as many messages as we
  do, or of all. The secondary clients are random ones too.\<close>

definition eligible_peers :: "int \<Rightarrow> TrieSnapshot outcome \<Rightarrow> 'w sync_engine \<Rightarrow> (js_string \<times> ContactInfoContentBody) list \<times> 'w sync_engine" where
  "eligible_peers now snapshot st =
     (case snapshot of
        Ok s \<Rightarrow>
          (case getCurrentHubPeerContacts now st of
             (contacts, st) \<Rightarrow>
               (let peers = filter (\<lambda>(p, c). getContactInfoForPeerId p st \<noteq> None \<and> 20 * ci_count c > 19 * int (ts_numMessages s)) contacts
                in (if peers = [] then sy_currentHubPeerContacts st else peers, st)))
      | _ \<Rightarrow> (sy_currentHubPeerContacts st, st))"

definition pick :: "'w sync_env \<Rightarrow> nat \<Rightarrow> 'b list \<Rightarrow> 'b option" where
  "pick E k xs = (if xs = [] then None else Some (xs ! (sn_random E k (length xs) mod length xs)))"

definition secondary_contacts ::
  "'w sync_env \<Rightarrow> (js_string \<times> ContactInfoContentBody) list \<Rightarrow> (js_string \<times> ContactInfoContentBody) \<Rightarrow>
   (js_string \<times> ContactInfoContentBody) list" where
  "secondary_contacts E peers first =
     fold (\<lambda>k cs. case pick E (Suc k) peers of
             Some c \<Rightarrow> if fst c \<in> fst ` set cs then cs else cs @ [c]
           | None \<Rightarrow> cs)
       [0 ..< min (sn_parallelism E) (length peers)] [first]"

definition choose_peers ::
  "'w sync_env \<Rightarrow> js_string option \<Rightarrow> 'w sync_engine \<Rightarrow>
   ((js_string \<times> ContactInfoContentBody) \<times> (js_string \<times> ContactInfoContentBody) list) option \<times> 'w sync_engine" where
  "choose_peers E peerIdString st =
     (case (case peerIdString of
              Some p \<Rightarrow> if p = [] then None else map_option (\<lambda>c. (p, c)) (getContactInfoForPeerId p st)
            | None \<Rightarrow> None) of
        Some contact \<Rightarrow> (Some (contact, []), st)
      | None \<Rightarrow>
          (case sync_getSnapshot (sn_coder E) (sn_now E) None (sy_trie st) of
             (snapshot, r) \<Rightarrow>
               (case eligible_peers (sn_now E) snapshot (st\<lparr>sy_trie := r\<rparr>) of
                  (peers, st) \<Rightarrow>
                    (case pick E 0 peers of
                       Some first \<Rightarrow> (Some (first, secondary_contacts E peers first), st)
                     | None \<Rightarrow> (None, st)))))"

text \<open>The result tells whether the sync was complete, as \<^verbatim>\<open>syncComplete\<close> does.\<close>

definition diffSyncIfRequired :: "nat \<Rightarrow> 'w sync_env \<Rightarrow> js_string option \<Rightarrow> 'w sync_engine \<Rightarrow> (bool, 'w) sync_result" where
  "diffSyncIfRequired fuel E peerIdString st =
     (if sy_currentHubPeerContacts st = [] then settled (Ok False) st
      else
        (case choose_peers E peerIdString st of
           (None, st) \<Rightarrow> settled (Ok False) st
         | (Some ((peerId, contact), secondaryContacts), st) \<Rightarrow>
             (case sn_connect E peerId contact of
                None \<Rightarrow> settled (Ok False) (removeContactInfoForPeerId peerId st)
              | Some rpcClient \<Rightarrow>
                  (let secondaries = concat (map (\<lambda>(p, c). case sn_connect E p c of
                                                 Some client \<Rightarrow> if pc_answersInfo client then [(p, client)] else []
                                               | None \<Rightarrow> [])
                                               secondaryContacts);
                       reply = pc_getSyncSnapshotByPrefix rpcClient (questions st) [];
                       st = sync_do (AskSnapshot []) st
                   in (case reply of
                         Throw t \<Rightarrow> settled (Throw t) st
                       | Err e \<Rightarrow> settled (Ok False) st
                       | Ok theirs \<Rightarrow>
                           (case sync_status (sn_coder E) (sn_now E) peerId theirs st of
                              (Throw t, st) \<Rightarrow> settled (Throw t) st
                            | (Err e, st) \<Rightarrow> settled (Ok False) st
                            | (Ok status, st) \<Rightarrow>
                                (let st = st\<lparr>sy_peerSyncSnapshot := AList.update peerId (ss_theirSnapshot status) (sy_peerSyncSnapshot st)\<rparr> in
                                 if ss_shouldSync status
                                 then await (performSync fuel E peerId rpcClient True secondaries st) (\<lambda>_ st. settled (Ok True) st)
                                 else settled (Ok False) st)))))))"

end
