(* ===== verification/TrieReads.thy ===== *)
theory TrieReads
  imports MerkleSets
begin

text \<open>
  What is read from a trie of sync ids, in terms of the set of ids: the node at a prefix, its metadata, all ids below
  it, and snapshots. As long as the hash has no collisions among the texts that are hashed, the hash of a node
  determines the ids below it, and equal snapshots are those of equal sets.
\<close>

section \<open>Hashes without collisions\<close>

definition children_text :: "trie_coder \<Rightarrow> bytes \<Rightarrow> bytes set \<Rightarrow> bytes" where
  "children_text E p K =
     concat (map (\<lambda>c. key_hash E (p @ [c]) (sub K (p @ [c]))) (sorted_list_of_set (chars p K)))"

text \<open>The hash has twenty bytes, no id has a multiple of that length, and no two different texts that are hashed for
  subsets of the ids have the same hash.\<close>

definition collision_free :: "trie_coder \<Rightarrow> bytes set \<Rightarrow> bool" where
  "collision_free E U \<longleftrightarrow>
     (\<forall>b. length (trie_blake3 E b) = HASH_LENGTH) \<and> (\<forall>k \<in> U. \<not> HASH_LENGTH dvd length k) \<and>
     inj_on (trie_blake3 E) (U \<union> {children_text E p J | p J. J \<subseteq> U})"

lemma collision_free_mono: "collision_free E U \<Longrightarrow> V \<subseteq> U \<Longrightarrow> collision_free E V"
proof -
  assume c: "collision_free E U" and V: "V \<subseteq> U"
  have "V \<union> {children_text E p J | p J. J \<subseteq> V} \<subseteq> U \<union> {children_text E p J | p J. J \<subseteq> U}" using V by blast
  with c V show ?thesis unfolding collision_free_def using inj_on_subset by blast
qed

lemma key_hash_children: "keys_ok p K \<Longrightarrow> inner p K \<Longrightarrow> key_hash E p K = trie_blake3 E (children_text E p K)"
  by (simp add: key_hash_inner children_text_def)

lemma key_hash_length:
  "collision_free E U \<Longrightarrow> length (key_hash E p K) = HASH_LENGTH"
  by (subst key_hash.simps) (simp add: collision_free_def)

lemma not_inner_single:
  assumes "keys_ok p K" "K \<noteq> {}" "\<not> inner p K"
  obtains k where "K = {k}"
proof -
  have "card K < 2" "finite K" using assms by (auto simp: inner_def keys_ok_def)
  moreover from this(2) assms(2) have "0 < card K" by (simp add: card_gt_0_iff)
  ultimately have "card K = 1" by linarith
  then show ?thesis using that by (auto simp: card_1_singleton_iff)
qed

text \<open>Equal concatenations of blocks of the same length have equal blocks.\<close>

lemma blocks_inject:
  assumes "\<forall>x \<in> set xs. length x = n" "\<forall>y \<in> set ys. length y = n" "0 < n" "concat xs = concat ys"
  shows "xs = ys"
  using assms(1,2,4)
proof (induction xs arbitrary: ys)
  case Nil
  then show ?case using assms(3) by (cases ys) auto
next
  case (Cons x xs)
  have "x \<noteq> []" using Cons.prems(1) assms(3) by force
  with Cons.prems(3) obtain y ys' where ys: "ys = y # ys'" by (cases ys) auto
  have "length x = length y" using Cons.prems(1,2) ys by simp
  with Cons.prems(3) ys have "x = y" "concat xs = concat ys'" by simp_all
  moreover have "\<forall>x \<in> set xs. length x = n" "\<forall>y \<in> set ys'. length y = n" using Cons.prems(1,2) ys by simp_all
  ultimately show ?case using Cons.IH ys by blast
qed

lemma blocks_length: "\<forall>x \<in> set xs. length x = n \<Longrightarrow> n dvd length (concat xs)"
  by (induction xs) auto

lemma children_blocks:
  assumes "collision_free E U"
  shows "\<forall>x \<in> set (map (\<lambda>c. key_hash E (p @ [c]) (sub K (p @ [c]))) cs). length x = HASH_LENGTH"
  using key_hash_length[OF assms] by simp

lemma below_children:
  assumes "keys_ok p K" "inner p K"
  shows "K = (\<Union>c \<in> set (sorted_list_of_set (chars p K)). sub K (p @ [c]))"
proof -
  have "prefix p k \<and> length p < length k" if "k \<in> K" for k
    using that assms longer_than_inner[of p K k] by (auto simp: inner_def keys_ok_def)
  from sub_partition(1)[of K p, OF this] show ?thesis by (simp add: chars_finite)
qed

text \<open>The hash of a node determines the ids below it.\<close>

lemma equal_blocks_union:
  assumes "map f xs = map g ys" "\<And>x y. x \<in> set xs \<Longrightarrow> y \<in> set ys \<Longrightarrow> f x = g y \<Longrightarrow> F x = G y"
  shows "(\<Union>x \<in> set xs. F x) = (\<Union>y \<in> set ys. G y)"
  using assms
proof (induction xs arbitrary: ys)
  case (Cons x xs)
  then obtain y ys' where ys: "ys = y # ys'" by (cases ys) auto
  with Cons.prems have "F x = G y" "map f xs = map g ys'" by simp_all
  moreover from Cons.IH[OF this(2)] Cons.prems(2) ys have "(\<Union>x \<in> set xs. F x) = (\<Union>y \<in> set ys'. G y)" by simp
  ultimately show ?case using ys by simp
qed simp

definition hashed_text :: "trie_coder \<Rightarrow> bytes \<Rightarrow> bytes set \<Rightarrow> bytes" where
  "hashed_text E p A = (if inner p A then children_text E p A else the_elem A)"

lemma key_hash_text:
  assumes "keys_ok p A" "A \<noteq> {}"
  shows "key_hash E p A = trie_blake3 E (hashed_text E p A)"
proof (cases "inner p A")
  case False
  from not_inner_single[OF assms False] obtain k where "A = {k}" .
  with False show ?thesis by (simp add: key_hash_leaf hashed_text_def)
qed (simp add: hashed_text_def key_hash_children assms)

lemma hashed_text_input:
  assumes "A \<subseteq> U" "keys_ok p A" "A \<noteq> {}"
  shows "hashed_text E p A \<in> U \<union> {children_text E p J | p J. J \<subseteq> U}"
proof (cases "inner p A")
  case True
  then show ?thesis using assms(1) by (auto simp: hashed_text_def)
next
  case False
  from not_inner_single[OF assms(2,3) False] obtain k where "A = {k}" .
  then show ?thesis using assms(1) False by (simp add: hashed_text_def)
qed

lemma children_text_length: "collision_free E U \<Longrightarrow> HASH_LENGTH dvd length (children_text E p A)"
  unfolding children_text_def by (intro blocks_length children_blocks)

lemma children_text_blocks:
  assumes "collision_free E U" "children_text E p A = children_text E q B"
  shows "map (\<lambda>c. key_hash E (p @ [c]) (sub A (p @ [c]))) (sorted_list_of_set (chars p A)) =
    map (\<lambda>c. key_hash E (q @ [c]) (sub B (q @ [c]))) (sorted_list_of_set (chars q B))"
  using assms(2) unfolding children_text_def
  by (intro blocks_inject[OF children_blocks[OF assms(1)] children_blocks[OF assms(1)]]) (simp_all add: HASH_LENGTH_def)

lemma key_hash_inject:
  "\<lbrakk>collision_free E U; keys_ok p A; A \<subseteq> U; A \<noteq> {}; keys_ok q B; B \<subseteq> U; B \<noteq> {}; key_hash E p A = key_hash E q B\<rbrakk> \<Longrightarrow> A = B"
proof (induction E p A arbitrary: q B rule: key_hash.induct)
  case (1 E p A)
  note cf = 1(2) and A = 1(3-5) and B = 1(6-8)
  have "trie_blake3 E (hashed_text E p A) = trie_blake3 E (hashed_text E q B)"
    using 1(9) key_hash_text[OF A(1,3)] key_hash_text[OF B(1,3)] by simp
  then have eq: "hashed_text E p A = hashed_text E q B"
    using cf hashed_text_input[OF A(2,1,3)] hashed_text_input[OF B(2,1,3)]
    unfolding collision_free_def inj_on_def by blast
  have leaf: "\<not> HASH_LENGTH dvd length (hashed_text E r C)" if "keys_ok r C" "C \<noteq> {}" "C \<subseteq> U" "\<not> inner r C" for r C
  proof -
    note h = that
    obtain c where "C = {c}" using not_inner_single[OF h(1,2,4)] .
    with h(3,4) cf show ?thesis by (simp add: hashed_text_def collision_free_def)
  qed
  have node: "HASH_LENGTH dvd length (hashed_text E r C)" if "inner r C" for r C
    using children_text_length[OF cf] that by (simp add: hashed_text_def)
  have same: "inner p A = inner q B"
    using leaf[OF A(1,3,2)] leaf[OF B(1,3,2)] node[of p A] node[of q B] unfolding eq by blast
  show ?case
  proof (cases "inner p A")
    case True
    then have i: "inner p A" "inner q B" using same by simp_all
    from i eq have "children_text E p A = children_text E q B" by (simp add: hashed_text_def)
    note blocks = children_text_blocks[OF cf this]
    have "(\<Union>c \<in> set (sorted_list_of_set (chars p A)). sub A (p @ [c])) = (\<Union>c \<in> set (sorted_list_of_set (chars q B)). sub B (q @ [c]))"
    proof (rule equal_blocks_union[OF blocks])
      fix c d
      assume c: "c \<in> set (sorted_list_of_set (chars p A))" and d: "d \<in> set (sorted_list_of_set (chars q B))"
        and h: "key_hash E (p @ [c]) (sub A (p @ [c])) = key_hash E (q @ [d]) (sub B (q @ [d]))"
      have "sub A (p @ [c]) \<noteq> {}" "sub B (q @ [d]) \<noteq> {}" using c d by (simp_all add: chars_finite chars_def)
      moreover have "sub A (p @ [c]) \<subseteq> U" "sub B (q @ [d]) \<subseteq> U" using A(2) B(2) sub_subset by blast+
      ultimately show "sub A (p @ [c]) = sub B (q @ [d])"
        using "1.IH"[OF conjI[OF A(1) i(1)] c cf keys_ok_sub[OF A(1)] _ _ keys_ok_sub[OF B(1)] _ _ h] by blast
    qed
    with below_children[OF A(1) i(1)] below_children[OF B(1) i(2)] show ?thesis by simp
  next
    case False
    then have l: "\<not> inner p A" "\<not> inner q B" using same by simp_all
    obtain a b where "A = {a}" "B = {b}"
      using not_inner_single[OF A(1,3) l(1)] not_inner_single[OF B(1,3) l(2)] by metis
    with eq l show ?thesis by (simp add: hashed_text_def)
  qed
qed


section \<open>Snapshots\<close>

definition excluded_text :: "trie_coder \<Rightarrow> bytes \<Rightarrow> byte \<Rightarrow> bytes set \<Rightarrow> bytes" where
  "excluded_text E p c K =
     concat (map (\<lambda>c. key_hash E (p @ [c]) (sub K (p @ [c]))) (filter (\<lambda>c'. c' \<noteq> c) (sorted_list_of_set (chars p K))))"

definition without :: "bytes set \<Rightarrow> bytes \<Rightarrow> bytes set" where
  "without K q = K - sub K q"

lemma without_parts:
  "without K q \<subseteq> K" "K = without K q \<union> sub K q"
  "c' \<noteq> c \<Longrightarrow> sub (without K (p @ [c])) (p @ [c']) = sub K (p @ [c'])" "sub (without K (p @ [c])) (p @ [c]) = {}"
  by (auto simp: without_def sub_def prefix_def)

lemma chars_without: "chars p (without K (p @ [c])) = chars p K - {c}"
proof (rule set_eqI)
  fix c' show "c' \<in> chars p (without K (p @ [c])) \<longleftrightarrow> c' \<in> chars p K - {c}"
    by (cases "c' = c") (simp_all add: chars_def without_parts)
qed

lemma excluded_text_without: "excluded_text E p c K = children_text E p (without K (p @ [c]))"
proof -
  let ?cs = "sorted_list_of_set (chars p K)"
  have "set (filter (\<lambda>c'. c' \<noteq> c) ?cs) = chars p K - {c}" by (auto simp: chars_finite)
  moreover have "sorted (filter (\<lambda>c'. c' \<noteq> c) ?cs)" "distinct (filter (\<lambda>c'. c' \<noteq> c) ?cs)"
    by (simp_all add: sorted_wrt_filter)
  ultimately have "sorted_list_of_set (chars p K - {c}) = filter (\<lambda>c'. c' \<noteq> c) ?cs"
    using sorted_list_of_set.idem_if_sorted_distinct by metis
  then show ?thesis
    by (auto simp: excluded_text_def children_text_def chars_without without_parts intro!: arg_cong[of _ _ concat])
qed

fun snapshot_of :: "trie_coder \<Rightarrow> bytes set \<Rightarrow> bytes \<Rightarrow> bytes \<Rightarrow> bytes list \<times> nat \<times> bytes" where
  "snapshot_of E K p [] = ([key_hash E p K], 0, p)"
| "snapshot_of E K p (c # rest) =
     (if inner p K then
        (let h = trie_blake3 E (excluded_text E p c K); n = card (without K (p @ [c])) in
         if c \<in> chars p K then
           (case snapshot_of E (sub K (p @ [c])) (p @ [c]) rest of (hs, m, q) \<Rightarrow> (h # hs, n + m, q))
         else ([h], n, p))
      else ([trie_blake3 E []], 0, p))"

lemma excluded_loop_ok:
  assumes "keys_ok p K" "rdb_native_open db" "set cs \<subseteq> chars p K" "distinct cs"
  shows "children_ok E (db_get (rdb_disk db)) p K (tn_children node) \<Longrightarrow>
    \<exists>cs'. excluded_loop E db p cs node items acc =
       (Ok (items + card (\<Union>c \<in> set cs. sub K (p @ [c])),
            acc @ concat (map (\<lambda>c. key_hash E (p @ [c]) (sub K (p @ [c]))) cs)), set_children cs' node) \<and>
      children_ok E (db_get (rdb_disk db)) p K cs'"
  using assms(3,4)
proof (induction cs arbitrary: node items acc)
  case Nil
  then show ?case by (auto simp: set_children_def intro!: exI[of _ "tn_children node"])
next
  case (Cons c cs)
  obtain n cs1 where n: "get_or_load_child E db p c node = (Ok n, set_children cs1 node)"
    "reps E (db_get (rdb_disk db)) (p @ [c]) n (sub K (p @ [c]))" "children_ok E (db_get (rdb_disk db)) p K cs1"
    using get_or_load_child_ok[OF Cons.prems(1) _ assms(1,2), of c] Cons.prems(2) by auto
  have fin: "finite (sub K q)" for q using assms(1) finite_subset[OF sub_subset] by (auto simp: keys_ok_def)
  have "sub K (p @ [c]) \<inter> (\<Union>c \<in> set cs. sub K (p @ [c])) = {}"
    using Cons.prems(3) disjoint_children[of c _ K p] by fastforce
  then have "card (\<Union>c \<in> set (c # cs). sub K (p @ [c])) = card (sub K (p @ [c])) + card (\<Union>c \<in> set cs. sub K (p @ [c]))"
    using fin by (simp add: card_Un_disjoint)
  moreover obtain cs' where "excluded_loop E db p cs (set_children cs1 node) (items + tn_items n) (acc @ tn_hash n) =
      (Ok (items + tn_items n + card (\<Union>c \<in> set cs. sub K (p @ [c])),
           (acc @ tn_hash n) @ concat (map (\<lambda>c. key_hash E (p @ [c]) (sub K (p @ [c]))) cs)), set_children cs' node)"
    "children_ok E (db_get (rdb_disk db)) p K cs'"
    using Cons.IH[of "set_children cs1 node" "items + tn_items n" "acc @ tn_hash n"] n(3) Cons.prems(2,3) by auto
  ultimately show ?case using n(1) reps_hash[OF n(2)] by (auto simp: add.assoc)
qed


lemma excluded_hash_ok:
  assumes "keys_ok p K" "rdb_native_open db" "inner p K" "children_ok E (db_get (rdb_disk db)) p K (tn_children node)"
  shows "\<exists>cs'. excluded_hash E db p c node =
      (Ok (card (without K (p @ [c])), buffer_hex (trie_blake3 E (excluded_text E p c K))), set_children cs' node) \<and>
    children_ok E (db_get (rdb_disk db)) p K cs'"
proof -
  let ?cs = "filter (\<lambda>c'. c' \<noteq> c) (sort (map fst (tn_children node)))"
  have "distinct (map fst (tn_children node))" "fst ` set (tn_children node) = chars p K"
    using assms(4) by (simp_all add: children_ok_def)
  then have order: "sort (map fst (tn_children node)) = sorted_list_of_set (chars p K)"
    using sorted_list_of_set.idem_if_sorted_distinct[of "sort (map fst (tn_children node))"] by simp
  have cs: "set ?cs = chars p K - {c}" "distinct ?cs" by (auto simp: order chars_finite)
  have "prefix p k \<and> length p < length k" if "k \<in> K" for k
    using that assms(1,3) longer_than_inner[of p K k] by (auto simp: inner_def keys_ok_def)
  note all = sub_partition(1)[of K p, OF this]
  have "(\<Union>c' \<in> set ?cs. sub K (p @ [c'])) = without K (p @ [c])"
  proof
    show "(\<Union>c' \<in> set ?cs. sub K (p @ [c'])) \<subseteq> without K (p @ [c])"
      by (auto simp: cs(1) without_def sub_def prefix_def)
    show "without K (p @ [c]) \<subseteq> (\<Union>c' \<in> set ?cs. sub K (p @ [c']))"
    proof
      fix k assume k: "k \<in> without K (p @ [c])"
      with all obtain c' where "c' \<in> chars p K" "k \<in> sub K (p @ [c'])" by (auto simp: without_def)
      moreover from this k have "c' \<noteq> c" by (auto simp: without_def)
      ultimately show "k \<in> (\<Union>c' \<in> set ?cs. sub K (p @ [c']))" by (simp only: cs(1)) blast
    qed
  qed
  moreover have "set ?cs \<subseteq> chars p K" using cs(1) by blast
  ultimately show ?thesis
    using excluded_loop_ok[OF assms(1,2) _ cs(2) assms(4), where items = 0 and acc = "[]"]
    by (auto simp: excluded_hash_def excluded_text_def order mapOk_def)
qed

text \<open>A snapshot is that of the set of ids.\<close>

lemma trie_snapshot_ok:
  assumes "rdb_native_open db"
  shows "\<lbrakk>keys_ok p K; reps E (db_get (rdb_disk db)) p n K; snapshot_of E K p rest = (hs, m, q)\<rbrakk> \<Longrightarrow>
    \<exists>n'. trie_snapshot E db n p rest hashes items =
       (Ok \<lparr>ts_prefix = q, ts_excludedHashes = hashes @ map buffer_hex hs, ts_numMessages = items + m\<rparr>, n') \<and>
      reps E (db_get (rdb_disk db)) p n' K"
proof (induction rest arbitrary: p n K hashes items hs m q)
  case Nil
  then show ?case using reps_hash[OF Nil(2)] by auto
next
  case (Cons c rest)
  let ?g = "db_get (rdb_disk db)"
  from Cons.prems(2,1) show ?case
  proof (cases rule: reps_cases)
    case (leaf k)
    have "excluded_hash E db p c n = (Ok (0, buffer_hex (trie_blake3 E [])), n)"
      by (simp add: leaf excluded_hash_def mapOk_def)
    with leaf Cons.prems(2,3) show ?thesis by (auto simp: child_def)
  next
    case (inner cs ko)
    obtain cs1 where ex: "excluded_hash E db p c n =
        (Ok (card (without K (p @ [c])), buffer_hex (trie_blake3 E (excluded_text E p c K))), set_children cs1 n)"
      "children_ok E ?g p K cs1"
      using excluded_hash_ok[OF Cons.prems(1) assms inner(1), of E n c] inner(2,4) by auto
    have n1: "reps E ?g p (set_children cs1 n) K"
      using reps_inner_iff[of E ?g p _ _ cs1 ko K] inner ex(2) by (simp add: set_children_def)
    show ?thesis
    proof (cases "c \<in> chars p K")
      case False
      then have "child (set_children cs1 n) c = None" using children_ok_mem[OF ex(2)] by (simp add: child_def)
      with ex(1) n1 False inner(1) Cons.prems(3) show ?thesis by (auto simp: Let_def)
    next
      case True
      obtain n2 cs2 where n2: "get_or_load_child E db p c (set_children cs1 n) = (Ok n2, set_children cs2 n)"
        "reps E ?g (p @ [c]) n2 (sub K (p @ [c]))" "children_ok E ?g p K cs2"
        using get_or_load_child_ok[OF _ True Cons.prems(1) assms, of E "set_children cs1 n"] ex(2) by auto
      obtain hs' m' where r: "snapshot_of E (sub K (p @ [c])) (p @ [c]) rest = (hs', m', q)"
        "hs = trie_blake3 E (excluded_text E p c K) # hs'" "m = card (without K (p @ [c])) + m'"
        using Cons.prems(3) True inner(1) by (auto simp: Let_def split: prod.splits)
      obtain n3 where n3: "trie_snapshot E db n2 (p @ [c]) rest (hashes @ [buffer_hex (trie_blake3 E (excluded_text E p c K))])
            (items + card (without K (p @ [c]))) =
          (Ok \<lparr>ts_prefix = q, ts_excludedHashes = (hashes @ [buffer_hex (trie_blake3 E (excluded_text E p c K))]) @ map buffer_hex hs',
               ts_numMessages = items + card (without K (p @ [c])) + m'\<rparr>, n3)" "reps E ?g (p @ [c]) n3 (sub K (p @ [c]))"
        using Cons.IH[OF keys_ok_sub[OF Cons.prems(1)] n2(2) r(1)] by blast
      have "child (set_children cs1 n) c \<noteq> None" using True children_ok_mem[OF ex(2)] by (simp add: child_def)
      moreover have "sub K (p @ [c]) \<noteq> {}" using True by (simp add: chars_def)
      then have "children_ok E ?g p K (batch_insert (c, LoadedNode n3) cs2)"
        using n3(2) by (intro children_ok_put[OF n2(3)]) (simp_all add: child_ok_def)
      then have "reps E ?g p (set_children (batch_insert (c, LoadedNode n3) cs2) n) K"
        using reps_inner_iff[of E ?g p _ _ "batch_insert (c, LoadedNode n3) cs2" ko K] inner by (simp add: set_children_def)
      ultimately show ?thesis
        using ex(1) n2(1) n3(1) r by (auto simp: Let_def put_child_def add.assoc)
    qed
  qed
qed

text \<open>Where two snapshots that were taken on the same way differ, the sets do.\<close>

lemma snapshot_not_empty: "snapshot_of E K p rest = (hs, m, q) \<Longrightarrow> hs \<noteq> []"
  by (cases rest) (auto simp: Let_def split: if_splits prod.splits)

lemma snapshot_prefix: "snapshot_of E K p rest = (hs, m, q) \<Longrightarrow> \<exists>r. q = p @ r \<and> prefix r rest"
proof (induction rest arbitrary: K p hs m q)
  case (Cons c rest)
  show ?case
  proof (cases "inner p K \<and> c \<in> chars p K")
    case True
    then obtain hs' m' where "snapshot_of E (sub K (p @ [c])) (p @ [c]) rest = (hs', m', q)"
      using Cons.prems by (auto simp: Let_def split: prod.splits)
    from Cons.IH[OF this] obtain r where "q = (p @ [c]) @ r" "prefix r rest" by blast
    then show ?thesis by (intro exI[of _ "c # r"]) simp
  next
    case False
    with Cons.prems show ?thesis by (auto simp: Let_def split: if_splits)
  qed
qed simp

lemma children_text_inject:
  assumes "collision_free E U" "keys_ok p A" "keys_ok p B" "A \<subseteq> U" "B \<subseteq> U" "length p < TIMESTAMP_LENGTH"
    "trie_blake3 E (children_text E p A) = trie_blake3 E (children_text E p B)"
  shows "A = B"
proof -
  have i: "inner p C" if "C \<noteq> {}" for C using that assms(6) by (simp add: inner_def)
  have none: "children_text E p {} = []" by (simp add: children_text_def)
  have some: "children_text E p C \<noteq> []" if C: "C \<noteq> {}" "keys_ok p C" for C
  proof -
    have "chars p C \<noteq> {}" using below_children[OF C(2) i[OF C(1)]] C(1) by (auto simp: chars_finite)
    then obtain c where "c \<in> set (sorted_list_of_set (chars p C))" by (auto simp: chars_finite)
    moreover have "key_hash E (p @ [c]) (sub C (p @ [c])) \<noteq> []"
      using key_hash_length[OF assms(1), of "p @ [c]" "sub C (p @ [c])"] by (auto simp: HASH_LENGTH_def)
    ultimately show ?thesis by (auto simp: children_text_def)
  qed
  have "children_text E p A = children_text E p B"
    using assms(1,4,5,7) unfolding collision_free_def inj_on_def by blast
  then consider "A = {}" "B = {}" | "A \<noteq> {}" "B \<noteq> {}"
    using some[of A] some[of B] none assms(2,3) by metis
  then show ?thesis
  proof cases
    case 2
    with key_hash_inject[OF assms(1,2,4) _ assms(3,5)] key_hash_children[OF assms(2) i] key_hash_children[OF assms(3) i] assms(7)
    show ?thesis by simp
  qed simp
qed


lemma snapshot_inject:
  assumes "collision_free E U"
  shows "\<lbrakk>keys_ok p K; keys_ok p K'; K \<subseteq> U; K' \<subseteq> U; K \<noteq> {}; K' \<noteq> {}; length p + length rest \<le> TIMESTAMP_LENGTH;
    snapshot_of E K' p rest = (hs', m', q)\<rbrakk> \<Longrightarrow>
    \<exists>r. q = p @ r \<and> (fst (snapshot_of E K p r) = hs' \<longleftrightarrow> K = K')"
proof (induction rest arbitrary: p K K' hs' m' q)
  case Nil
  then show ?case using key_hash_inject[OF assms Nil(1,3,5,2,4,6)] by auto
next
  case (Cons c rest)
  note keys = Cons.prems(1,2) and U = Cons.prems(3,4) and ne = Cons.prems(5,6)
  have short: "length p < TIMESTAMP_LENGTH" using Cons.prems(7) by simp
  then have i: "inner p K" "inner p K'" using ne by (simp_all add: inner_def)
  let ?w = "\<lambda>K. without K (p @ [c])" and ?s = "\<lambda>K. sub K (p @ [c])"
  have sU: "?s K \<subseteq> U" "?s K' \<subseteq> U" "?w K \<subseteq> U" "?w K' \<subseteq> U" using U by (auto simp: sub_def without_def)
  have wk: "keys_ok p (?w K)" "keys_ok p (?w K')" using keys keys_ok_mono without_parts(1) by blast+
  have texts: "trie_blake3 E (excluded_text E p c K) = trie_blake3 E (excluded_text E p c K') \<longleftrightarrow> ?w K = ?w K'"
    unfolding excluded_text_without using children_text_inject[OF assms wk sU(3,4) short] by metis
  show ?case
  proof (cases "c \<in> chars p K'")
    case False
    then have "?w K' = K'" by (auto simp: without_def chars_def)
    with False Cons.prems(8) i(2) have "q = p" "hs' = [trie_blake3 E (children_text E p K')]"
      by (auto simp: excluded_text_without)
    then have "q = p" "hs' = [key_hash E p K']" using key_hash_children[OF keys(2) i(2)] by simp_all
    then show ?thesis using key_hash_inject[OF assms keys(1) U(1) ne(1) keys(2) U(2) ne(2)] by auto
  next
    case c: True
    obtain hs2 m2 where r: "snapshot_of E (?s K') (p @ [c]) rest = (hs2, m2, q)"
      "hs' = trie_blake3 E (excluded_text E p c K') # hs2"
      using Cons.prems(8) c i(2) by (auto simp: Let_def split: prod.splits)
    show ?thesis
    proof (cases "c \<in> chars p K")
      case False
      obtain r where q: "q = (p @ [c]) @ r"
        using snapshot_prefix[OF r(1)] by blast
      have "K \<noteq> K'" using False c by auto
      moreover have "fst (snapshot_of E K p (c # r)) \<noteq> hs'"
        using False i(1) r(2) snapshot_not_empty[OF r(1)] by (simp add: Let_def)
      ultimately show ?thesis using q by (intro exI[of _ "c # r"]) simp
    next
      case True
      then have "?s K \<noteq> {}" "?s K' \<noteq> {}" using c by (simp_all add: chars_def)
      then obtain r where q: "q = (p @ [c]) @ r" "fst (snapshot_of E (?s K) (p @ [c]) r) = hs2 \<longleftrightarrow> ?s K = ?s K'"
        using Cons.IH[OF keys_ok_sub[OF keys(1)] keys_ok_sub[OF keys(2)] sU(1,2) _ _ _ r(1)] Cons.prems(7) by auto
      have "fst (snapshot_of E K p (c # r)) =
          trie_blake3 E (excluded_text E p c K) # fst (snapshot_of E (?s K) (p @ [c]) r)"
        using True i(1) by (simp add: Let_def split: prod.split)
      then have "fst (snapshot_of E K p (c # r)) = hs' \<longleftrightarrow> ?w K = ?w K' \<and> ?s K = ?s K'"
        using texts q(2) r(2) by auto
      also have "\<dots> \<longleftrightarrow> K = K'" using without_parts(2)[of K "p @ [c]"] without_parts(2)[of K' "p @ [c]"] by auto
      finally show ?thesis using q(1) by (intro exI[of _ "c # r"]) simp
    qed
  qed
qed

text \<open>The snapshot of a trie.\<close>

lemma MerkleTrie_snapshot_ok:
  assumes "holds_ids E K mt" "K \<noteq> {}" "snapshot_of E K [] pre = (hs, m, q)"
  shows "\<exists>mt'. rsMerkleTrieGetSnapshot E pre mt =
      (Ok \<lparr>ts_prefix = q, ts_excludedHashes = map buffer_hex hs, ts_numMessages = m\<rparr>, mt') \<and> holds_ids E K mt' \<and>
    mt_db mt' = mt_db mt \<and> mt_txn_batch mt' = mt_txn_batch mt"
proof -
  obtain n where n: "mt_root mt = Some n" "reps E (disk_of mt) [] n K" using held_root[OF assms(1,2)] by blast
  have "rdb_native_open (mt_db mt)" "keys_ok [] K" using assms(1) by (simp_all add: holds_ids_def sync_ids_ok_def)
  from trie_snapshot_ok[OF this n(2)[unfolded disk_of_def] assms(3), of "[]" 0] obtain n' where
    "trie_snapshot E (mt_db mt) n [] pre [] 0 =
      (Ok \<lparr>ts_prefix = q, ts_excludedHashes = map buffer_hex hs, ts_numMessages = m\<rparr>, n')" "reps E (disk_of mt) [] n' K"
    by (auto simp: disk_of_def)
  then show ?thesis
    using assms(1,2) n(1)
    by (auto simp: rsMerkleTrieGetSnapshot_def MerkleTrie_get_snapshot_def read_trie_def with_root_def holds_ids_def
        node_rep_def disk_of_def)
qed


section \<open>All ids below a prefix\<close>

text \<open>The nodes of a trie: those on the way down while the node above has children.\<close>

definition node_at :: "bytes set \<Rightarrow> bytes \<Rightarrow> bytes \<Rightarrow> bool" where
  "node_at K p q \<longleftrightarrow> prefix p q \<and> (q = p \<or> inner (butlast q) (sub K (butlast q))) \<and> sub K q \<noteq> {}"

lemma inner_up: "keys_ok p K \<Longrightarrow> inner (p @ [c]) (sub K (p @ [c])) \<Longrightarrow> inner p K"
  using card_mono[OF _ sub_subset, of K "p @ [c]"] by (auto simp: inner_def keys_ok_def)

lemma inner_up_prefix:
  assumes "finite K" "inner (p @ r) (sub K (p @ r))"
  shows "inner p (sub K p)"
proof -
  have "sub K (p @ r) \<subseteq> sub K p" by (auto simp: sub_def prefix_def)
  moreover have "finite (sub K p)" using assms(1) finite_subset[OF sub_subset] by blast
  ultimately have "card (sub K (p @ r)) \<le> card (sub K p)" "sub K p \<noteq> {}"
    using assms(2) card_mono by (auto simp: inner_def)
  then show ?thesis using assms(2) by (auto simp: inner_def)
qed

lemma node_at_step:
  assumes "keys_ok p K"
  shows "node_at K p (p @ c # r) \<longleftrightarrow> inner p K \<and> c \<in> chars p K \<and> node_at (sub K (p @ [c])) (p @ [c]) (p @ c # r)"
proof -
  have all: "sub K p = K" using assms by (simp add: sub_all keys_ok_def)
  have ss: "sub (sub K (p @ [c])) q = sub K q" if "prefix (p @ [c]) q" for q using that by (rule sub_sub)
  have q: "prefix (p @ [c]) (p @ c # r)" by simp
  show ?thesis
  proof (cases "r = []")
    case True
    then show ?thesis using all by (auto simp: node_at_def chars_def sub_def)
  next
    case False
    then have b: "butlast (p @ c # r) = (p @ [c]) @ butlast r" "prefix (p @ [c]) (butlast (p @ c # r))"
      by (simp_all add: butlast_append)
    have fin: "finite K" using assms by (simp add: keys_ok_def)
    have up: "inner p K \<and> c \<in> chars p K" if i: "inner ((p @ [c]) @ butlast r) (sub K ((p @ [c]) @ butlast r))"
    proof -
      have i1: "inner (p @ [c]) (sub K (p @ [c]))" by (rule inner_up_prefix[OF fin i])
      then have "sub K (p @ [c]) \<noteq> {}" by (simp add: inner_def)
      with inner_up[OF assms i1] show ?thesis by (simp add: chars_def)
    qed
    show ?thesis using False up b ss[OF q] ss[OF b(2)] by (auto simp: node_at_def)
  qed
qed

text \<open>An operation on the node at a prefix.\<close>

lemma at_node_ok:
  assumes "rdb_native_open db"
    and f: "\<And>n. reps E (db_get (rdb_disk db)) (p @ r) n (sub K (p @ r)) \<Longrightarrow>
      \<exists>v n'. f n = (v, n') \<and> P v \<and> reps E (db_get (rdb_disk db)) (p @ r) n' (sub K (p @ r))"
  shows "\<lbrakk>keys_ok p K; reps E (db_get (rdb_disk db)) p n K\<rbrakk> \<Longrightarrow>
    \<exists>v n'. at_node E db f n (p @ r) (length p) = (v, n') \<and>
      (if node_at K p (p @ r) then \<exists>v'. P v' \<and> v = mapOk v' Some else v = Ok None) \<and>
      reps E (db_get (rdb_disk db)) p n' K"
  using f
proof (induction r arbitrary: p n K)
  case Nil
  let ?g = "db_get (rdb_disk db)"
  have all: "sub K p = K" using Nil(1) by (simp add: sub_all keys_ok_def)
  obtain v n' where "f n = (v, n')" "P v" "reps E ?g p n' K" using Nil(2) Nil(3)[of n] all by auto
  moreover have "node_at K p p" using reps_nonempty[OF Nil(2)] all by (simp add: node_at_def)
  ultimately show ?case by (subst at_node.simps) auto
next
  case (Cons c r)
  let ?g = "db_get (rdb_disk db)"
  have nth: "(p @ c # r) ! length p = c" "take (length p) (p @ c # r) = p" by simp_all
  from Cons.prems(2,1) show ?case
  proof (cases rule: reps_cases)
    case (leaf k)
    then have "child n c = None" by (simp add: child_def)
    moreover have "\<not> node_at K p (p @ c # r)" using node_at_step[OF Cons.prems(1)] leaf by simp
    ultimately show ?thesis using Cons.prems(2) nth by (subst at_node.simps) auto
  next
    case (inner cs ko)
    have ok: "children_ok E ?g p K (tn_children n)" using inner by simp
    show ?thesis
    proof (cases "c \<in> chars p K")
      case False
      then have "child n c = None" using children_ok_mem[OF ok] by (simp add: child_def)
      moreover have "\<not> node_at K p (p @ c # r)" using node_at_step[OF Cons.prems(1)] False by simp
      ultimately show ?thesis using Cons.prems(2) nth by (subst at_node.simps) auto
    next
      case True
      obtain n1 cs1 where n1: "get_or_load_child E db p c n = (Ok n1, set_children cs1 n)"
        "reps E ?g (p @ [c]) n1 (sub K (p @ [c]))" "children_ok E ?g p K cs1"
        using get_or_load_child_ok[OF ok True Cons.prems(1) assms(1)] by blast
      have "sub (sub K (p @ [c])) ((p @ [c]) @ r) = sub K (p @ c # r)" by (simp add: sub_sub)
      then obtain v n2 where n2: "at_node E db f n1 (p @ c # r) (Suc (length p)) = (v, n2)"
        "if node_at (sub K (p @ [c])) (p @ [c]) (p @ c # r) then \<exists>v'. P v' \<and> v = mapOk v' Some else v = Ok None"
        "reps E ?g (p @ [c]) n2 (sub K (p @ [c]))"
        using Cons.IH[OF keys_ok_sub[OF Cons.prems(1)] n1(2)] Cons.prems(3) by auto
      have ne: "sub K (p @ [c]) \<noteq> {}" using True by (simp add: chars_def)
      have put: "children_ok E ?g p K (batch_insert (c, LoadedNode n2) cs1)"
        by (rule children_ok_put[OF n1(3)]) (use n2(3) ne in \<open>simp_all add: child_ok_def\<close>)
      obtain t where "child n c = Some t" using True children_ok_mem[OF ok] by (fastforce simp: child_def)
      then have "at_node E db f n (p @ c # r) (length p) = (v, set_children (batch_insert (c, LoadedNode n2) cs1) n)"
        using n1(1) n2(1) nth by (subst at_node.simps) (simp add: put_child_def)
      moreover have "reps E ?g p (set_children (batch_insert (c, LoadedNode n2) cs1) n) K"
        using reps_inner_iff[of E ?g p _ _ "batch_insert (c, LoadedNode n2) cs1" ko K] inner put by (simp add: set_children_def)
      moreover have "if node_at K p (p @ c # r) then \<exists>v'. P v' \<and> v = mapOk v' Some else v = Ok None"
        using n2(2) node_at_step[OF Cons.prems(1)] True inner(1) by simp
      ultimately show ?thesis by blast
    qed
  qed
qed


text \<open>The ids below a prefix in their order are those below its children, one child after the other.\<close>

lemma less_at: "c < c' \<Longrightarrow> p @ c # x < p @ c' # (y :: bytes)"
  by (induction p) auto

lemma below_less: "a \<in> sub K (p @ [c]) \<Longrightarrow> b \<in> sub K (p @ [c']) \<Longrightarrow> c < c' \<Longrightarrow> a < b"
  using less_at by (auto simp: sub_def prefix_def)

lemma sorted_children:
  assumes "keys_ok p K" "inner p K"
  shows "sorted_list_of_set K = concat (map (\<lambda>c. sorted_list_of_set (sub K (p @ [c]))) (sorted_list_of_set (chars p K)))"
proof -
  let ?S = "\<lambda>c. sorted_list_of_set (sub K (p @ [c]))"
  have fin: "finite (sub K q)" for q using assms(1) finite_subset[OF sub_subset] by (auto simp: keys_ok_def)
  have "sorted_wrt (<) cs \<Longrightarrow> sorted_wrt (<) (concat (map ?S cs))" for cs
  proof (induction cs)
    case (Cons c cs)
    have "\<forall>a \<in> set (?S c). \<forall>b \<in> set (concat (map ?S cs)). a < b"
      using Cons.prems below_less[of _ K p c] fin by auto
    with Cons show ?case by (simp add: sorted_wrt_append)
  qed simp
  then have "sorted_wrt (<) (concat (map ?S (sorted_list_of_set (chars p K))))" by simp
  moreover have "set (concat (map ?S (sorted_list_of_set (chars p K)))) = K"
    using below_children[OF assms] fin by (auto simp: chars_finite)
  ultimately show ?thesis
    using sorted_list_of_set.idem_if_sorted_distinct[of "concat (map ?S (sorted_list_of_set (chars p K)))"]
    by (simp only: strict_sorted_iff)
qed

text \<open>The first ids: all, or more than a call gives.\<close>

definition first_ids :: "bytes list \<Rightarrow> bytes list \<Rightarrow> bool" where
  "first_ids vs ks \<longleftrightarrow> prefix vs ks \<and> (vs = ks \<or> MAX_VALUES_RETURNED_PER_CALL < length vs)"

lemma values_of_children_ok:
  assumes "keys_ok p K" "rdb_native_open db"
    and f: "\<And>n c. c \<in> chars p K \<Longrightarrow> reps E (db_get (rdb_disk db)) (p @ [c]) n (sub K (p @ [c])) \<Longrightarrow>
      \<exists>n' vs. f n c = (Ok vs, n') \<and> first_ids vs (S c) \<and> reps E (db_get (rdb_disk db)) (p @ [c]) n' (sub K (p @ [c]))"
  shows "\<lbrakk>children_ok E (db_get (rdb_disk db)) p K (tn_children node); set cs \<subseteq> chars p K\<rbrakk> \<Longrightarrow>
    \<exists>vs cs'. values_of_children f E db p cs node acc = (Ok vs, set_children cs' node) \<and>
      first_ids vs (acc @ concat (map S cs)) \<and> children_ok E (db_get (rdb_disk db)) p K cs'"
proof (induction cs arbitrary: node acc)
  case Nil
  then show ?case by (auto simp: set_children_def first_ids_def intro!: exI[of _ "tn_children node"])
next
  case (Cons c cs)
  let ?g = "db_get (rdb_disk db)"
  have c: "c \<in> chars p K" using Cons.prems(2) by simp
  obtain n cs1 where n: "get_or_load_child E db p c node = (Ok n, set_children cs1 node)"
    "reps E ?g (p @ [c]) n (sub K (p @ [c]))" "children_ok E ?g p K cs1"
    using get_or_load_child_ok[OF Cons.prems(1) c assms(1,2)] by blast
  obtain n' vs where v: "f n c = (Ok vs, n')" "first_ids vs (S c)" "reps E ?g (p @ [c]) n' (sub K (p @ [c]))"
    using f[OF c n(2)] by blast
  have "sub K (p @ [c]) \<noteq> {}" using c by (simp add: chars_def)
  then have put: "children_ok E ?g p K (batch_insert (c, LoadedNode n') cs1)"
    using v(3) by (intro children_ok_put[OF n(3)]) (simp_all add: child_ok_def)
  show ?case
  proof (cases "length (acc @ vs) > MAX_VALUES_RETURNED_PER_CALL")
    case True
    have "prefix (acc @ vs) (acc @ concat (map S (c # cs)))"
      using v(2) by (auto simp: first_ids_def prefix_def)
    with True n(1) v(1) put show ?thesis by (auto simp: first_ids_def put_child_def)
  next
    case False
    then have "vs = S c" using v(2) by (auto simp: first_ids_def)
    moreover obtain vs' cs' where "values_of_children f E db p cs (set_children (batch_insert (c, LoadedNode n') cs1) node) (acc @ vs) =
        (Ok vs', set_children cs' node)" "first_ids vs' ((acc @ vs) @ concat (map S cs))" "children_ok E ?g p K cs'"
      using Cons.IH[of "set_children (batch_insert (c, LoadedNode n') cs1) node" "acc @ vs"] put Cons.prems(2) by auto
    ultimately show ?thesis using False n(1) v(1) by (auto simp: put_child_def)
  qed
qed

lemma trie_all_values_ok:
  assumes "rdb_native_open db"
  shows "\<lbrakk>keys_ok p K; reps E (db_get (rdb_disk db)) p n K; \<forall>k \<in> K. length k < length p + d\<rbrakk> \<Longrightarrow>
    \<exists>vs n'. trie_all_values d E db n p = (Ok vs, n') \<and> first_ids vs (sorted_list_of_set K) \<and>
      reps E (db_get (rdb_disk db)) p n' K"
proof (induction d arbitrary: p n K)
  case 0
  from reps_nonempty[OF 0(2)] obtain k where "k \<in> K" by blast
  with 0 have "length k < length p" "prefix p k" by (auto simp: keys_ok_def)
  then show ?case by (auto dest: prefix_length_le)
next
  case (Suc d)
  let ?g = "db_get (rdb_disk db)"
  from Suc.prems(2,1) show ?case
  proof (cases rule: reps_cases)
    case (leaf k)
    with Suc.prems(2) show ?thesis by (auto simp: is_leaf_def key_or_empty_def first_ids_def)
  next
    case (inner cs ko)
    have ok: "children_ok E ?g p K (tn_children n)" using inner by simp
    have "distinct (map fst (tn_children n))" "fst ` set (tn_children n) = chars p K"
      using ok by (simp_all add: children_ok_def)
    then have order: "sort (map fst (tn_children n)) = sorted_list_of_set (chars p K)"
      using sorted_list_of_set.idem_if_sorted_distinct[of "sort (map fst (tn_children n))"] by simp
    have f: "\<exists>n2 vs. trie_all_values d E db n1 (p @ [c]) = (Ok vs, n2) \<and>
        first_ids vs (sorted_list_of_set (sub K (p @ [c]))) \<and> reps E ?g (p @ [c]) n2 (sub K (p @ [c]))"
      if "c \<in> chars p K" "reps E ?g (p @ [c]) n1 (sub K (p @ [c]))" for n1 c
      using Suc.IH[OF keys_ok_sub[OF Suc.prems(1)] that(2)] Suc.prems(3) by (auto simp: sub_def)
    note v = values_of_children_ok[OF Suc.prems(1) assms,
        where f = "\<lambda>n c. trie_all_values d E db n (p @ [c])" and S = "\<lambda>c. sorted_list_of_set (sub K (p @ [c]))" and acc = "[]"
          and cs = "sorted_list_of_set (chars p K)" and node = n and E = E]
    have "\<exists>vs cs'. values_of_children (\<lambda>n c. trie_all_values d E db n (p @ [c])) E db p (sorted_list_of_set (chars p K)) n [] =
          (Ok vs, set_children cs' n) \<and> first_ids vs (sorted_list_of_set K) \<and> children_ok E ?g p K cs'"
      using v[OF f ok] by (simp add: chars_finite sorted_children[OF Suc.prems(1) inner(1)])
    then obtain vs cs' where v: "values_of_children (\<lambda>n c. trie_all_values d E db n (p @ [c])) E db p (sorted_list_of_set (chars p K)) n [] =
          (Ok vs, set_children cs' n)" "first_ids vs (sorted_list_of_set K)" "children_ok E ?g p K cs'" by blast
    have "\<not> is_leaf n"
      using inner(2,4) chars_not_empty[OF Suc.prems(1) inner(1)] by (auto simp: is_leaf_def children_ok_def)
    moreover have "reps E ?g p (set_children cs' n) K"
      using reps_inner_iff[of E ?g p _ _ cs' ko K] inner v(3) by (simp add: set_children_def)
    ultimately show ?thesis using v(1,2) order by auto
  qed
qed


text \<open>All ids of a trie below a prefix, if there is a node at it.\<close>

lemma held_prefix:
  assumes "holds_ids E K mt"
  shows "keys_ok [] K" "finite K" "rdb_native_open (mt_db mt)"
  using assms by (simp_all add: holds_ids_def sync_ids_ok_def keys_ok_def)

lemma mt_root_update: "mt_root mt = Some n \<Longrightarrow> \<not> mt_poisoned mt \<Longrightarrow> mt\<lparr>mt_root := Some n, mt_poisoned := False\<rparr> = mt"
  by simp

lemma get_all_values_ok:
  assumes "holds_ids E K mt" "K \<noteq> {}" "\<forall>k \<in> K. length k < length pre + d"
  shows "\<exists>vs mt'. rsMerkleTrieGetAllValues d E pre mt = (Ok vs, mt') \<and>
      (if node_at K [] pre then first_ids vs (sorted_list_of_set (sub K pre)) else vs = []) \<and> holds_ids E K mt' \<and>
      mt_db mt' = mt_db mt \<and> mt_txn_batch mt' = mt_txn_batch mt"
proof -
  let ?g = "db_get (rdb_disk (mt_db mt))"
  obtain n where n: "mt_root mt = Some n" "reps E (disk_of mt) [] n K" using held_root[OF assms(1,2)] by blast
  note h = held_prefix[OF assms(1)]
  let ?f = "\<lambda>node. trie_all_values d E (mt_db mt) node pre"
  let ?P = "\<lambda>v. \<exists>vs. v = Ok vs \<and> first_ids vs (sorted_list_of_set (sub K pre))"
  have f: "\<exists>v n'. ?f n = (v, n') \<and> ?P v \<and> reps E ?g ([] @ pre) n' (sub K ([] @ pre))"
    if "reps E ?g ([] @ pre) n (sub K ([] @ pre))" for n
    using trie_all_values_ok[OF h(3) keys_ok_sub[OF h(1)], of E pre n d] that assms(3) by (auto simp: sub_def)
  have r: "reps E ?g [] n K" using n(2) by (simp add: disk_of_def)
  have "\<exists>v n'. at_node E (mt_db mt) ?f n ([] @ pre) (length ([] :: bytes)) = (v, n') \<and>
      (if node_at K [] ([] @ pre) then \<exists>v'. ?P v' \<and> v = mapOk v' Some else v = Ok None) \<and> reps E ?g [] n' K"
    by (rule at_node_ok[OF h(3) f h(1) r])
  then obtain v n' where v: "at_node E (mt_db mt) ?f n pre 0 = (v, n')"
    "if node_at K [] pre then \<exists>vs. first_ids vs (sorted_list_of_set (sub K pre)) \<and> v = Ok (Some vs) else v = Ok None"
    "reps E ?g [] n' K"
    by (auto simp: mapOk_def split: if_splits)
  then show ?thesis
    using assms(1,2) n(1)
    by (auto simp: rsMerkleTrieGetAllValues_def MerkleTrie_get_all_values_def read_trie_def with_root_def holds_ids_def
        node_rep_def disk_of_def pooled_def mapOk_def split: if_splits)
qed

text \<open>The metadata of a node are read from its record and those of its children.\<close>

definition set_metadata :: "trie_coder \<Rightarrow> bytes set \<Rightarrow> bytes \<Rightarrow> NodeMetadata \<Rightarrow> bool" where
  "set_metadata E K q m \<longleftrightarrow>
     nm_prefix m = q \<and> nm_numMessages m = card (sub K q) \<and> nm_hash m = buffer_hex (key_hash E q (sub K q)) \<and>
     distinct (map fst (nm_children m)) \<and>
     fst ` set (nm_children m) = (if inner q (sub K q) then chars q K else {}) \<and>
     (\<forall>(c, n) \<in> set (nm_children m).
        n = NodeMetadata (q @ [c]) (card (sub K (q @ [c]))) (buffer_hex (key_hash E (q @ [c]) (sub K (q @ [c])))) [])"

definition set_record :: "trie_coder \<Rightarrow> bytes set \<Rightarrow> bytes \<Rightarrow> TrieNode \<Rightarrow> bool" where
  "set_record E K q n \<longleftrightarrow>
     tn_items n = card (sub K q) \<and> tn_hash n = key_hash E q (sub K q) \<and> distinct (map fst (tn_children n)) \<and>
     fst ` set (tn_children n) = (if inner q (sub K q) then chars q K else {})"

lemma get_node_ok:
  assumes "holds_ids E K mt" "node_at K [] q"
  shows "\<exists>n. MerkleTrie_get_node E q mt = Ok (Some n) \<and> set_record E K q n"
proof -
  let ?g = "overlay (mt_txn_batch mt) (disk_of mt)"
  have "stored E ?g [] K" using assms(1) by (simp add: holds_ids_def saved_def)
  then have "record_ok E ?g q (sub K q)" using assms(2) by (simp add: stored_def node_at_def)
  moreover have "chars q (sub K q) = chars q K" by (simp add: chars_def sub_sub)
  ultimately obtain b n where n: "?g (trie_key q None) = Some b" "trie_deserialize E b = Ok n" "set_record E K q n"
    by (fastforce simp: record_ok_def set_record_def split: if_splits)
  then show ?thesis
    using held_prefix(3)[OF assms(1)]
    by (auto simp: MerkleTrie_get_node_def decoded_node_def overlay_def disk_of_def trie_db_get_def when_open_def mapOk_def
        split: option.splits)
qed

lemma child_metadata_ok:
  assumes "holds_ids E K mt"
  shows "\<forall>c \<in> set cs. node_at K [] (q @ [c]) \<Longrightarrow>
    child_metadata E q mt cs = Ok (map (\<lambda>c. (c, NodeMetadata (q @ [c]) (card (sub K (q @ [c])))
      (buffer_hex (key_hash E (q @ [c]) (sub K (q @ [c])))) [])) cs)"
proof (induction cs)
  case (Cons c cs)
  from get_node_ok[OF assms, of "q @ [c]"] Cons.prems obtain n where
    "MerkleTrie_get_node E (q @ [c]) mt = Ok (Some n)" "set_record E K (q @ [c]) n" by auto
  with Cons show ?case by (simp add: set_record_def mapOk_def)
qed simp

lemma metadata_ok:
  assumes "holds_ids E K mt" "node_at K [] q"
  shows "\<exists>m. rsMerkleTrieGetTrieNodeMetadata E q mt = Ok (Some m) \<and> set_metadata E K q m"
proof -
  obtain n where n: "MerkleTrie_get_node E q mt = Ok (Some n)" "set_record E K q n" using get_node_ok[OF assms] by blast
  have "\<forall>c \<in> set (map fst (tn_children n)). node_at K [] (q @ [c])"
    using n(2) by (auto simp: set_record_def node_at_def chars_def split: if_splits)
  note c = child_metadata_ok[OF assms(1) this]
  show ?thesis
    using n c by (auto simp: rsMerkleTrieGetTrieNodeMetadata_def MerkleTrie_get_trie_node_metadata_def pooled_def mapOk_def
        set_metadata_def set_record_def comp_def image_image split: if_splits)
qed

end
