(* ===== verification/SyncFacts.thy ===== *)
theory SyncFacts
  imports SyncWalk TrieReads
begin

text \<open>
  What a sync guarantees: the status tells whether two hubs have the same ids, nothing is handed to the hub that was
  not asked for by its hash, and what an id that cannot be unpacked does to a sync.
\<close>

section \<open>Waiting\<close>

lemma sync_await_simps [simp]:
  "await (settled (Ok x) s) f = f x s" "await (settled (Err e) s) f = (Some (Err e), s)"
  "await (settled (Throw t) s) f = (Some (Throw t), s)" "await (Some (Ok x), s) f = f x s"
  "await (Some (Err e), s) f = (Some (Err e), s)" "await (Some (Throw t), s) f = (Some (Throw t), s)" "await (None, s) f = (None, s)"
  by (simp_all add: await_def settled_def)

section \<open>In sync\<close>

lemma snapshotTimestamp_u32:
  assumes "snapshotTimestamp now = Ok t"
  shows "u32 t"
proof -
  obtain s where s: "getFarcasterTime now = Ok s" "t = (s div 10) * 10"
    using assms by (auto simp: snapshotTimestamp_def SYNC_THRESHOLD_IN_SECONDS_def mapOk_Ok_iff)
  then have "u32 s" using toFarcasterTime_u32 by (simp add: getFarcasterTime_def)
  moreover have "0 \<le> s \<Longrightarrow> 0 \<le> s div 10 * 10" "s div 10 * 10 \<le> s" by simp_all
  ultimately show ?thesis using s(2) by auto
qed

lemma map_hex_inject: "map buffer_hex xs = map buffer_hex ys \<longleftrightarrow> xs = ys"
  by (rule inj_map_eq_map) (simp add: inj_def buffer_hex_inject)

text \<open>A snapshot that a hub with other ids took, and the status that it gives.\<close>

definition snapshot_taken :: "trie_coder \<Rightarrow> int \<Rightarrow> bytes set \<Rightarrow> TrieSnapshot \<Rightarrow> bool" where
  "snapshot_taken E now K theirs \<longleftrightarrow>
     (\<exists>r r'. holds_ids E K (sr_trie r) \<and> sync_getSnapshotByPrefix E now None r = (Ok theirs, r'))"

lemma snapshot_taken_parts:
  assumes "snapshot_taken E now K theirs" "K \<noteq> {}"
  obtains pre hs m where "length pre = TIMESTAMP_LENGTH" "snapshot_of E K [] pre = (hs, m, ts_prefix theirs)"
    "ts_excludedHashes theirs = map buffer_hex hs"
proof -
  obtain r r' where r: "holds_ids E K (sr_trie r)" "sync_getSnapshotByPrefix E now None r = (Ok theirs, r')"
    using assms(1) by (auto simp: snapshot_taken_def)
  then obtain t where t: "snapshotTimestamp now = Ok t"
    by (auto simp: sync_getSnapshotByPrefix_def sync_getSnapshot_def split: outcome.splits)
  let ?pre = "utf8_encode (timestampToPaddedTimestampPrefix t)"
  obtain hs m q where s: "snapshot_of E K [] ?pre = (hs, m, q)" by (metis prod_cases3)
  from MerkleTrie_snapshot_ok[OF r(1) assms(2) s] r(2) t
  have "theirs = \<lparr>ts_prefix = q, ts_excludedHashes = map buffer_hex hs, ts_numMessages = m\<rparr>"
    by (auto simp: sync_getSnapshotByPrefix_def sync_getSnapshot_def on_sync_trie_def)
  moreover have "length ?pre = TIMESTAMP_LENGTH"
    using snapshotTimestamp_u32[OF t] utf8_padded_prefix[of t] time_bytes_length[of t]
    by (auto simp: TIMESTAMP_LENGTH_def)
  ultimately show ?thesis using s that[of ?pre hs m] by simp
qed

lemma in_sync_same_ids:
  assumes "collision_free E U" "K \<subseteq> U" "K' \<subseteq> U" "K \<noteq> {}" "K' \<noteq> {}"
    and "holds_ids E K (sr_trie (sy_trie st))" "snapshot_taken E now' K' theirs"
    and "snapshotTimestamp now = Ok t" "blocked_since now p (sy_scorer st) = None"
  shows "\<exists>status st'. sync_status E now p theirs st = (Ok status, st') \<and>
     (ss_inSync status = (if K = K' then InSyncTrue else InSyncFalse)) \<and>
     (ss_shouldSync status \<longleftrightarrow> \<not> cs_isSyncing (sy_cur st) \<and> K \<noteq> K')"
proof -
  obtain pre hs' m' where theirs: "length pre = TIMESTAMP_LENGTH" "snapshot_of E K' [] pre = (hs', m', ts_prefix theirs)"
    "ts_excludedHashes theirs = map buffer_hex hs'"
    using snapshot_taken_parts[OF assms(7,5)] .
  obtain hs m q where ours: "snapshot_of E K [] (ts_prefix theirs) = (hs, m, q)" by (metis prod_cases3)
  have keys: "keys_ok [] K" "keys_ok [] K'"
    using assms(6,7) by (auto simp: holds_ids_def sync_ids_ok_def snapshot_taken_def)
  from snapshot_inject[OF assms(1) keys assms(2-5) _ theirs(2)] theirs(1) ours have iff: "hs = hs' \<longleftrightarrow> K = K'" by auto
  from MerkleTrie_snapshot_ok[OF assms(6,4) ours] obtain mt' where
    "rsMerkleTrieGetSnapshot E (ts_prefix theirs) (sr_trie (sy_trie st)) =
      (Ok \<lparr>ts_prefix = q, ts_excludedHashes = map buffer_hex hs, ts_numMessages = m\<rparr>, mt')" by blast
  then have "sync_getSnapshot E now (Some (ts_prefix theirs)) (sy_trie st) =
      (Ok \<lparr>ts_prefix = q, ts_excludedHashes = map buffer_hex hs, ts_numMessages = m\<rparr>, (sy_trie st)\<lparr>sr_trie := mt'\<rparr>)"
    by (simp add: sync_getSnapshot_def assms(8) on_sync_trie_def)
  then show ?thesis
    using assms(9) theirs(3) iff by (simp add: sync_status_def Let_def map_hex_inject)
qed


section \<open>An id that cannot be unpacked\<close>

lemma read_cases:
  "(\<exists>n. readUInt32BE i off = Ok n) \<or> readUInt32BE i off = Throw RangeError"
  "(\<exists>n. readUInt8 i off = Ok n) \<or> readUInt8 i off = Throw RangeError"
  by (simp_all add: readUInt32BE_def readUInt8_def)

lemma short_event_id:
  assumes "sync_type i = SyncIdOnChainEvent" "length i < 25"
  shows "sync_unpack i = Throw RangeError"
proof -
  have "byte_at i TIMESTAMP_LENGTH = Some (root_byte OnChainEventPrefix)"
    using assms(1) by (auto simp: sync_type_def Let_def split: if_splits)
  moreover have "readUInt32BE i 21 = Throw RangeError" using assms(2) by (simp add: readUInt32BE_def)
  ultimately show ?thesis
    using read_cases(2)[of i 12] read_cases(1)[of i 13] read_cases(1)[of i 17]
    by (auto simp: sync_unpack_def Let_def TIMESTAMP_LENGTH_def FID_BYTES_def)
qed

definition ok_or_range :: "'a outcome \<Rightarrow> bool" where
  "ok_or_range r \<longleftrightarrow> (\<exists>x. r = Ok x) \<or> r = Throw RangeError"

lemma ok_or_range_andThen: "ok_or_range r \<Longrightarrow> (\<And>x. ok_or_range (f x)) \<Longrightarrow> ok_or_range (andThen r f)"
  by (cases r) (simp_all add: ok_or_range_def)

lemma ok_or_range_mapOk: "ok_or_range r \<Longrightarrow> ok_or_range (mapOk r f)"
  by (auto simp: ok_or_range_def)

lemma ok_or_range_reads:
  "ok_or_range (readUInt32BE i off)" "ok_or_range (readUInt8 i off)" "ok_or_range (set_bytes a k b)" "ok_or_range (writeUInt32BE n)"
  using read_cases by (auto simp: ok_or_range_def set_bytes_def writeUInt32BE_def split: number.split)

lemma sync_unpack_ok_or_range: "ok_or_range (sync_unpack i)"
proof -
  have "ok_or_range (pkFromSyncId i)"
    unfolding pkFromSyncId_def Let_def by (intro ok_or_range_andThen ok_or_range_reads)
  then show ?thesis
    unfolding sync_unpack_def Let_def
    by (auto intro!: ok_or_range_andThen ok_or_range_mapOk ok_or_range_reads simp: ok_or_range_def[of "Ok _"])
qed

lemma unpack_all_range: "i \<in> set is \<Longrightarrow> sync_unpack i = Throw RangeError \<Longrightarrow> unpack_all is = Throw RangeError"
proof (induction "is")
  case (Cons j js)
  from sync_unpack_ok_or_range[of j] Cons show ?case by (auto simp: ok_or_range_def)
qed simp

definition malformed_event_id :: "bytes \<Rightarrow> bool" where
  "malformed_event_id i \<longleftrightarrow> sync_type i = SyncIdOnChainEvent \<and> length i < 25"

lemma fetch_malformed:
  assumes "i \<in> set ids" "malformed_event_id i"
  shows "fetchMissingSyncIds E ids client st = (Some (Throw RangeError), st)"
proof -
  have "i \<in> set (filter (\<lambda>i. sync_type i = SyncIdOnChainEvent) ids)" using assms by (simp add: malformed_event_id_def)
  moreover have "sync_unpack i = Throw RangeError" using assms(2) short_event_id by (simp add: malformed_event_id_def)
  ultimately have "unpack_all (filter (\<lambda>i. sync_type i = SyncIdOnChainEvent) ids) = Throw RangeError"
    "filter (\<lambda>i. sync_type i = SyncIdOnChainEvent) ids \<noteq> []"
    using unpack_all_range by (blast, metis empty_iff empty_set)
  then show ?thesis by (simp add: fetchMissingSyncIds_def validateAndMergeOnChainEvents_def)
qed

lemma got_malformed:
  assumes "i \<in> set ids" "malformed_event_id i" "2 \<le> length ids" "\<forall>j \<in> set ids. j \<noteq> [] \<and> prefix (wi_prefix w) j"
  shows "got_ids E w ids client st = (Some (Throw RangeError), st)"
proof -
  have "filter (\<lambda>i. length i > 0) ids = ids" using assms(4) by simp
  moreover have "verifySyncIdForPrefix (wi_prefix w) ids"
    using assms(4) by (simp add: verifySyncIdForPrefix_def bytesStartsWith_prefix)
  ultimately show ?thesis
    using assms(3) fetch_malformed[OF assms(1,2), of E client st]
    by (auto simp: got_ids_def Let_def split: list.split)
qed

text \<open>A peer that says it has one id and then gives two, one of them malformed: the sync with it never ends.\<close>

lemma prefixToTimestamp_Nil: "prefixToTimestamp [] = Some 0"
proof -
  have "time_bytes 0 = replicate 10 48" by code_simp
  then show ?thesis using parse_time_bytes[of 0] by (simp add: prefixToTimestamp_def pad_end_def TIMESTAMP_LENGTH_def)
qed

lemma cutoff_nonneg: "0 \<le> cs_cutoffTimestampFs (new_CurrentSyncStatus p c s t)"
  using toFarcasterTime_u32 by (auto simp: new_CurrentSyncStatus_def Let_def split: outcome.split)

lemma root_not_held_back: "0 \<le> cutoff \<Longrightarrow> \<not> after_cutoff [] cutoff"
  by (simp add: after_cutoff_def prefixToTimestamp_Nil)

definition promises_one_id :: "peer_client \<Rightarrow> js_string \<Rightarrow> bytes list \<Rightarrow> bool" where
  "promises_one_id client h ids \<longleftrightarrow>
     (\<forall>k. pc_getSyncMetadataByPrefix client k [] = Ok (TrieNodeMetadataResponse [] 1 h [])) \<and>
     (\<forall>k. pc_getAllSyncIdsByPrefix client k [] = Ok ids)"

lemma execute_malformed:
  assumes "cs_rpcClient (sy_cur st) = Some client" "promises_one_id client h ids" "wi_prefix w = []"
    "our_metadata E [] st = Ok ours" "cs_nextSecondaryRpcClient (sy_cur st) = Some 0"
    "cs_secondaryRpcClients (sy_cur st) = [(peer, client)]"
    "i \<in> set ids" "malformed_event_id i" "2 \<le> length ids" "[] \<notin> set ids"
  shows "\<exists>st'. executeWorkItem E w st = (Some (Throw RangeError), st')"
proof -
  obtain j js where ids: "ids = j # js" using assms(7) by (cases ids) auto
  have "\<forall>j \<in> set ids. j \<noteq> [] \<and> prefix (wi_prefix w) j" using assms(3,10) by auto
  note got = got_malformed[OF assms(7-9) this, of E client]
  have "\<exists>st'. getMessagesFromOtherNode E w st1 = (Some (Throw RangeError), st')" if "sy_cur st1 = sy_cur st" for st1
    using got assms(1,2,3,5,6) that
    by (simp add: getMessagesFromOtherNode_def next_secondary_def Let_def ask_ids_def promises_one_id_def ids)
  from this[of "sync_do (AskMetadata []) st"] obtain st' where
    "getMessagesFromOtherNode E w (sync_do (AskMetadata []) st) = (Some (Throw RangeError), st')" by (auto simp: sync_do_def)
  then show ?thesis
    using assms(1-4) by (simp add: executeWorkItem_def promises_one_id_def fromNodeMetadataResponse_def Let_def)
qed

lemma await_None: "fst r = None \<Longrightarrow> fst (await r f) = None"
  by (cases r) simp

lemma process_None:
  assumes "cs_workQueue (sy_cur st) = [w]" "\<not> sn_timedOut E turn" "\<not> cs_interruptSync (sy_cur st)"
    "cs_executingWorkCount (sy_cur st) = 0" "pop_best E par [w] = ([w], [])"
    "\<And>st'. sy_trie st' = sy_trie st \<Longrightarrow> cs_rpcClient (sy_cur st') = cs_rpcClient (sy_cur st) \<Longrightarrow>
      cs_nextSecondaryRpcClient (sy_cur st') = cs_nextSecondaryRpcClient (sy_cur st) \<Longrightarrow>
      cs_secondaryRpcClients (sy_cur st') = cs_secondaryRpcClients (sy_cur st) \<Longrightarrow> fst (execute_all E [w] st') = None"
  shows "fst (processSyncWorkQueue (Suc fuel) E turn par 0 st) = None"
  unfolding processSyncWorkQueue.simps using assms(1-5)
  by (simp add: on_cur_def Let_def del: execute_all.simps) (rule await_None, rule assms(6); simp)

lemma malformed_id_hangs:
  assumes "promises_one_id client h ids" "our_metadata E [] st = Ok ours" "\<forall>n. ours = Some n \<longrightarrow> nm_hash n \<noteq> h"
    "i \<in> set ids" "malformed_event_id i" "2 \<le> length ids" "[] \<notin> set ids" "peer \<noteq> []"
    "\<And>w. sn_pop E [w] = Some (w, [])" "sn_pop E [] = None" "\<not> sn_timedOut E 0"
  shows "fst (performSync (Suc fuel) E peer client False [] st) = None"
proof -
  let ?c = "new_CurrentSyncStatus (Some peer) (Some client) [(peer, client)] (sn_now E)"
  let ?w = "new_work_item ours (NodeMetadata [] 1 h [])"
  define st1 where "st1 = sync_do (AskMetadata []) (st\<lparr>sy_cur := ?c\<rparr>)"
  have m: "our_metadata E [] st' = Ok ours" if "sy_trie st' = sy_trie st" for st'
    using assms(2) that by (simp add: our_metadata_def)
  have c: "\<not> cs_interruptSync ?c" "cs_workQueue ?c = []" "cs_executingWorkCount ?c = 0" "cs_rpcClient ?c = Some client"
    "cs_nextSecondaryRpcClient ?c = Some 0" "cs_secondaryRpcClients ?c = [(peer, client)]"
    by (simp_all add: new_CurrentSyncStatus_def Let_def)
  have sched: "scheduleWorkItem ours (NodeMetadata [] 1 h []) ?c = ?c\<lparr>cs_workQueue := [?w]\<rparr>"
    using c assms(3) root_not_held_back[OF cutoff_nonneg]
    by (auto simp: scheduleWorkItem_def MAX_WORK_QUEUE_SIZE_def split: option.split)
  have pop: "pop_best E n [?w] = ([?w], [])" if "n > 0" for n
  proof -
    have "pop_best E k [] = ([], [])" for k by (induction k) (simp_all add: assms(10))
    with that show ?thesis by (cases n) (simp_all add: assms(9))
  qed
  have par: "sync_parallelism E k d > 0" for k d by (simp add: sync_parallelism_def Let_def)
  have ex: "fst (execute_all E [?w] st2) = None" if "sy_trie st2 = sy_trie st" "cs_rpcClient (sy_cur st2) = Some client"
      "cs_nextSecondaryRpcClient (sy_cur st2) = Some 0" "cs_secondaryRpcClients (sy_cur st2) = [(peer, client)]" for st2
  proof -
    have "wi_prefix ?w = []" by (simp add: new_work_item_def Let_def)
    from execute_malformed[OF that(2) assms(1) this m[OF that(1)] that(3,4) assms(4-7)]
    obtain st' where "executeWorkItem E ?w st2 = (Some (Throw RangeError), st')" by blast
    then show ?thesis by (simp add: settled_def)
  qed
  have p: "fst (processSyncWorkQueue (Suc fuel) E 0 (sync_parallelism E k d) 0
      (on_cur (scheduleWorkItem ours (NodeMetadata [] 1 h [])) st1)) = None" for k d
    by (rule process_None) (use sched c ex pop[OF par] assms(11) in \<open>simp_all add: st1_def on_cur_def sync_do_def del: execute_all.simps\<close>)
  have "fst (sync_from_root (Suc fuel) E False peer client (st\<lparr>sy_cur := ?c\<rparr>)) = None"
    using assms(1) await_None[OF p]
    by (simp add: sync_from_root_def m promises_one_id_def fromNodeMetadataResponse_def Let_def settled_def
        st1_def[symmetric] del: processSyncWorkQueue.simps)
  then show ?thesis
    by (cases "sync_from_root (Suc fuel) E False peer client (st\<lparr>sy_cur := ?c\<rparr>)")
      (simp add: performSync_def Let_def)
qed


section \<open>What is handed to the hub\<close>

text \<open>A message is submitted in a bundle only after an id with its hash was asked for, and alone only after it was in a
  bundle.\<close>

definition id_of_message :: "bytes \<Rightarrow> Message \<Rightarrow> bool" where
  "id_of_message i m \<longleftrightarrow> (\<exists>fid pk h. sync_unpack i = Ok (MessageSyncId fid pk h) \<and> msg_hash m = Some h)"

definition asked_for :: "sync_action list \<Rightarrow> Message \<Rightarrow> bool" where
  "asked_for tr m \<longleftrightarrow> (\<exists>ids. AskMessages ids \<in> set tr \<and> (\<exists>i \<in> set ids. id_of_message i m))"

definition bundled :: "sync_action list \<Rightarrow> Message \<Rightarrow> bool" where
  "bundled tr m \<longleftrightarrow> (\<exists>ms. SubmitBundle ms \<in> set tr \<and> m \<in> set ms)"

definition action_asked :: "sync_action list \<Rightarrow> sync_action \<Rightarrow> bool" where
  "action_asked before a =
     (case a of SubmitBundle ms \<Rightarrow> \<forall>m \<in> set ms. asked_for before m | SubmitOne m \<Rightarrow> bundled before m | _ \<Rightarrow> True)"

definition only_asked :: "sync_action list \<Rightarrow> bool" where
  "only_asked tr \<longleftrightarrow> (\<forall>i < length tr. action_asked (take i tr) (tr ! i))"

lemma only_asked_append: "only_asked (tr @ [a]) \<longleftrightarrow> only_asked tr \<and> action_asked tr a"
proof
  assume l: "only_asked (tr @ [a])"
  have "action_asked (take i tr) (tr ! i)" if "i < length tr" for i
    using l that unfolding only_asked_def by (auto simp: nth_append dest!: spec[of _ i])
  moreover have "action_asked tr a"
    using l unfolding only_asked_def by (auto simp: nth_append dest!: spec[of _ "length tr"])
  ultimately show "only_asked tr \<and> action_asked tr a" by (simp add: only_asked_def)
next
  assume l: "only_asked tr \<and> action_asked tr a"
  show "only_asked (tr @ [a])"
    unfolding only_asked_def
  proof (intro allI impI)
    fix i assume "i < length (tr @ [a])"
    with l show "action_asked (take i (tr @ [a])) ((tr @ [a]) ! i)"
      by (cases "i = length tr") (auto simp: only_asked_def nth_append)
  qed
qed

lemma only_asked_Nil [simp]: "only_asked []"
  by (simp add: only_asked_def)

text \<open>The messages that wait for signers were in a bundle.\<close>

definition waiting_messages :: "'w sync_engine \<Rightarrow> Message set" where
  "waiting_messages st = \<Union> (set ` snd ` set (cs_fidRetryMessageQ (sy_cur st)))"

definition asked_inv :: "'w sync_engine \<Rightarrow> bool" where
  "asked_inv st \<longleftrightarrow> only_asked (sy_log st) \<and> (\<forall>m \<in> waiting_messages st. bundled (sy_log st) m)"

text \<open>A step keeps the invariant, and the log only grows.\<close>

definition kept :: "'w sync_engine \<Rightarrow> 'w sync_engine \<Rightarrow> bool" where
  "kept st st' \<longleftrightarrow> (asked_inv st \<longrightarrow> asked_inv st') \<and> prefix (sy_log st) (sy_log st')"

named_theorems kept_intros

lemma kept_refl [simp, kept_intros]: "kept st st"
  by (simp add: kept_def)

lemma kept_trans: "kept a b \<Longrightarrow> kept b c \<Longrightarrow> kept a c"
  by (auto simp: kept_def)

lemma kept_same:
  assumes "sy_log st' = sy_log st" "waiting_messages st' \<subseteq> waiting_messages st"
  shows "kept st st'"
  using assms by (auto simp: kept_def asked_inv_def)

lemma waiting_same: "cs_fidRetryMessageQ (sy_cur st') = cs_fidRetryMessageQ (sy_cur st) \<Longrightarrow> waiting_messages st' = waiting_messages st"
  by (simp add: waiting_messages_def)

lemma bundled_more: "bundled tr m \<Longrightarrow> prefix tr tr' \<Longrightarrow> bundled tr' m"
  by (auto simp: bundled_def prefix_def)

lemma kept_do:
  assumes "asked_inv st \<Longrightarrow> action_asked (sy_log st) a"
  shows "kept st (sync_do a st)"
  using assms bundled_more[of "sy_log st" _ "sy_log st @ [a]"]
  by (auto simp: kept_def asked_inv_def sync_do_def only_asked_append waiting_messages_def)

lemma kept_neutral [kept_intros]:
  "kept st (sync_do (AskMetadata p) st)" "kept st (sync_do (AskSnapshot p) st)" "kept st (sync_do (AskSyncIds p) st)"
  "kept st (sync_do (AskMessages ids) st)" "kept st (sync_do (AskOnChainEvents f) st)" "kept st (sync_do (AskSigners f) st)"
  "kept st (sync_do (RetryBlock b) st)" "kept st (sync_do (RetryName n) st)" "kept st (sync_do (RetryIdRegistryLater m) st)"
  by (rule kept_do, simp add: action_asked_def)+

lemma kept_updates [kept_intros]:
  "kept st (st\<lparr>sy_trie := t\<rparr>)" "kept st (st\<lparr>sy_scorer := p\<rparr>)" "kept st (st\<lparr>sy_syncMergeQ := q\<rparr>)" "kept st (blame by st)"
  "kept st (st\<lparr>sy_hub := w\<rparr>)" "kept st (st\<lparr>sy_hub := w, sy_trie := t\<rparr>)" "kept st (revokeSyncIds C ids st)"
  "kept st (st\<lparr>sy_currentHubPeerContacts := cs\<rparr>)" "kept st (st\<lparr>sy_uniquePeerMap := u\<rparr>)" "kept st (st\<lparr>sy_peerSyncSnapshot := s\<rparr>)"
  by (rule kept_same; simp add: waiting_messages_def blame_def revokeSyncIds_def)+

lemma kept_cur: "(\<And>c. cs_fidRetryMessageQ (f c) = cs_fidRetryMessageQ c) \<Longrightarrow> kept st (on_cur f st)"
  by (rule kept_same) (simp_all add: waiting_messages_def on_cur_def)

text \<open>A computation keeps the invariant.\<close>

definition keeps :: "('w sync_engine \<Rightarrow> 'b \<times> 'w sync_engine) \<Rightarrow> bool" where
  "keeps f \<longleftrightarrow> (\<forall>st. kept st (snd (f st)))"

lemma kept_await:
  assumes "kept st (snd r)" "\<And>x st'. r = (Some (Ok x), st') \<Longrightarrow> kept st st' \<Longrightarrow> kept st (snd (f x st'))"
  shows "kept st (snd (await r f))"
  using assms by (cases r) (auto simp: await_def split: option.splits outcome.splits)

lemma kept_await_result:
  assumes "kept st (snd r)" "\<And>x st'. kept st st' \<Longrightarrow> kept st (snd (f x st'))"
  shows "kept st (snd (await_result r f))"
  using assms by (cases r) (auto simp: await_result_def split: option.splits outcome.splits)

lemma kept_settled [kept_intros]: "kept st st' \<Longrightarrow> kept st (snd (settled r st'))"
  by (simp add: settled_def)

lemma kept_hub_step [kept_intros]: "kept st (snd (hub_step f st))"
  by (auto simp: hub_step_def kept_updates split: prod.split)

lemma kept_on_trie [kept_intros]: "kept st (snd (on_trie f st))"
  by (auto simp: on_trie_def kept_updates split: prod.split)

lemma kept_all_of:
  assumes "\<And>f st. f \<in> set fs \<Longrightarrow> P st \<Longrightarrow> kept st (snd (f st))" "\<And>st st'. P st \<Longrightarrow> kept st st' \<Longrightarrow> P st'"
  shows "P st \<Longrightarrow> kept st (snd (all_of fs st))"
  using assms(1)
proof (induction fs arbitrary: st)
  case (Cons f fs)
  obtain r st1 where f: "f st = (r, st1)" by fastforce
  with Cons.prems(2)[of f st] Cons.prems(1) have k: "kept st st1" by simp
  with assms(2) Cons.prems have "kept st1 (snd (all_of fs st1))" by (intro Cons.IH) auto
  with f k show ?case by (auto split: prod.split intro: kept_trans)
qed (simp add: settled_def)

lemma kept_then: "kept st st' \<Longrightarrow> kept st' (snd (f st')) \<Longrightarrow> kept st (snd (f st'))"
  by (rule kept_trans)


lemma kept_revokeSyncIds_then: "kept st st' \<Longrightarrow> kept st (revokeSyncIds C ids st')"
  using kept_trans kept_updates(7) by blast

lemma kept_revoke_suspects: "kept st (snd (revoke_suspects E is n st))"
proof (induction "is" arbitrary: n st)
  case Nil
  show ?case by (simp add: settled_def)
next
  case (Cons i "is")
  note IH = kept_trans[OF _ Cons.IH]
  show ?case
    unfolding revoke_suspects.simps
  proof (rule kept_await)
    show "kept st (snd (settled (sync_unpack i) st))" by (simp add: settled_def)
    fix u st' assume st': "kept st st'"
    have r: "kept st (revokeSyncIds C [i] st')" for C by (rule kept_revokeSyncIds_then[OF st'])
    have h: "kept st (snd (hub_step f st'))" for f :: "'a \<times> sync_trie \<Rightarrow> UserNameProof option outcome option \<times> 'a \<times> sync_trie"
      using kept_trans[OF st' kept_hub_step] .
    show "kept st (snd (case u of
         OnChainEventSyncId fid eventType blockNumber logIndex \<Rightarrow>
           if is_ok (getOnChainEvent (sn_proto E) (hi_db (sn_hub E) (sy_hub st')) eventType (numI fid) blockNumber logIndex)
           then revoke_suspects E is n st'
           else revoke_suspects E is (Suc n) (revokeSyncIds (sn_coder E) [i] st')
       | FNameSyncId fid name padded \<Rightarrow>
           (case hub_step (hi_getUserNameProof (sn_hub E) name) st' of
              (None, st) \<Rightarrow> (None, st)
            | (Some (Throw t), st) \<Rightarrow> (Some (Throw t), st)
            | (Some (Ok None), st) \<Rightarrow> (Some (Throw TypeError), st)
            | (Some (Ok (Some p)), st) \<Rightarrow>
                if js_eq (unp_fid p) (numI fid) then revoke_suspects E is n st
                else revoke_suspects E is (Suc n) (revokeSyncIds (sn_coder E) [i] st)
            | (Some (Err e), st) \<Rightarrow> revoke_suspects E is (Suc n) (revokeSyncIds (sn_coder E) [i] st))
       | _ \<Rightarrow> revoke_suspects E is n st'))"
    proof (cases u)
      case (FNameSyncId fid name padded)
      obtain x st2 where x: "hub_step (hi_getUserNameProof (sn_hub E) name) st' = (x, st2)" by fastforce
      with h[of "hi_getUserNameProof (sn_hub E) name"] have k: "kept st st2" by simp
      then show ?thesis
        using IH[OF k] IH[OF kept_revokeSyncIds_then[OF k]]
        by (simp add: FNameSyncId x split: option.split outcome.split)
    qed (use IH[OF st'] IH[OF r] in simp_all)
  qed
qed

lemma kept_revokeCorruptedSyncIds: "kept st (snd (revokeCorruptedSyncIds E ourNode st))"
proof (cases ourNode)
  case (Some n)
  show ?thesis
  proof (cases "nm_numMessages n > 500")
    case False
    have r: "kept st (snd (revoke_suspects E is k st'))" if "kept st st'" for "is" k st'
      using kept_trans[OF that kept_revoke_suspects] .
    show ?thesis
      using Some False
      by (auto simp: revokeCorruptedSyncIds_def Let_def
          intro!: kept_await kept_await_result kept_on_trie kept_settled r kept_revokeSyncIds_then split: outcome.split)
  qed (simp add: revokeCorruptedSyncIds_def Some settled_def)
qed (simp add: revokeCorruptedSyncIds_def settled_def)

lemma kept_retry_block: "kept st (snd (retry_block E b st))"
  by (auto simp: retry_block_def settled_def split: option.split intro: kept_trans[OF kept_neutral(7) kept_hub_step])

lemma kept_retry_name: "kept st (snd (retry_name E b st))"
  by (auto simp: retry_name_def settled_def split: option.split intro: kept_trans[OF kept_neutral(8) kept_hub_step])

lemma kept_retry_blocks: "kept st (snd (all_of (map (\<lambda>e. retry_block E (f e)) es) st))"
  by (rule kept_all_of[where P = "\<lambda>_. True"]) (auto intro: kept_retry_block)

lemma kept_retry_names: "kept st (snd (all_of (map (retry_name E) ns) st))"
  by (rule kept_all_of[where P = "\<lambda>_. True"]) (auto intro: kept_retry_name)

lemma kept_submit_one: "bundled (sy_log st) m \<Longrightarrow> kept st (snd (submit_one E m st))"
  unfolding submit_one_def by (rule kept_trans[OF kept_do kept_hub_step]) (simp add: action_asked_def)

lemma kept_submit_all:
  assumes "\<forall>m \<in> set ms. bundled (sy_log st) m"
  shows "kept st (snd (all_of (map (submit_one E) ms) st))"
proof (rule kept_all_of[where P = "\<lambda>st. \<forall>m \<in> set ms. bundled (sy_log st) m"])
  show "\<And>f st. f \<in> set (map (submit_one E) ms) \<Longrightarrow> \<forall>m \<in> set ms. bundled (sy_log st) m \<Longrightarrow> kept st (snd (f st))"
    using kept_submit_one by fastforce
  show "\<And>st st'. \<forall>m \<in> set ms. bundled (sy_log st) m \<Longrightarrow> kept st st' \<Longrightarrow> \<forall>m \<in> set ms. bundled (sy_log st') m"
    using bundled_more by (auto simp: kept_def)
qed (use assms in simp)

lemma kept_set_retry_queue:
  assumes "asked_inv st \<Longrightarrow> \<forall>m \<in> set ms. bundled (sy_log st) m"
  shows "kept st (set_retry_queue fid ms st)"
proof -
  have "set (AList.update fid ms q) \<subseteq> insert (fid, ms) (set q)" for q by (induction q) auto
  then have "waiting_messages (set_retry_queue fid ms st) \<subseteq> set ms \<union> waiting_messages st"
    by (fastforce simp: waiting_messages_def set_retry_queue_def on_cur_def)
  moreover have "sy_log (set_retry_queue fid ms st) = sy_log st" by (simp add: set_retry_queue_def on_cur_def)
  ultimately show ?thesis using assms by (auto simp: kept_def asked_inv_def)
qed

lemma retry_queue_bundled: "asked_inv st \<Longrightarrow> retry_queue fid st = Some ms \<Longrightarrow> \<forall>m \<in> set ms. bundled (sy_log st) m"
  by (force simp: asked_inv_def retry_queue_def waiting_messages_def dest: map_of_SomeD)


lemma asked_inv_kept: "asked_inv st \<Longrightarrow> kept st st' \<Longrightarrow> asked_inv st'"
  by (simp add: kept_def)

lemma kept_inv: "(asked_inv st \<Longrightarrow> kept st st') \<Longrightarrow> prefix (sy_log st) (sy_log st') \<Longrightarrow> kept st st'"
  by (auto simp: kept_def)

lemma kept_syncSigners:
  assumes "asked_inv st" "bundled (sy_log st) message"
  shows "kept st (snd (syncSignersAndRetryMessage E client message st))"
proof -
  let ?fid = "message_fid message"
  show ?thesis
  proof (cases "js_truthy ?fid")
    case True
    show ?thesis
    proof (cases "retry_queue ?fid st")
      case None
      let ?st = "set_retry_queue ?fid [message] st"
      have k: "kept st ?st" using assms(2) by (intro kept_set_retry_queue) simp
      have k2: "kept st (sync_do (AskSigners ?fid) ?st)" by (rule kept_trans[OF k kept_neutral(6)])
      have k3: "kept st (snd (await (all_of (map (submit_one E) ms) (set_retry_queue ?fid [] st2)) (\<lambda>results st.
            case List.find (\<lambda>r. \<not> is_ok r) results of Some r \<Rightarrow> settled r st | None \<Rightarrow> settled (Ok 0) st)))"
        if "kept st st2" "ms = (case retry_queue ?fid st2 of Some ms \<Rightarrow> ms | None \<Rightarrow> [])" for st2 ms
      proof (rule kept_await)
        have b: "\<forall>m \<in> set ms. bundled (sy_log st2) m"
          using retry_queue_bundled[OF asked_inv_kept[OF assms(1) that(1)], of ?fid] that(2)
          by (cases "retry_queue ?fid st2") simp_all
        have "kept st (set_retry_queue ?fid [] st2)"
          using kept_trans[OF that(1) kept_set_retry_queue] by simp
        then show "kept st (snd (all_of (map (submit_one E) ms) (set_retry_queue ?fid [] st2)))"
          by (rule kept_trans) (use b in \<open>intro kept_submit_all, simp add: set_retry_queue_def on_cur_def\<close>)
        show "\<And>x st'. kept st st' \<Longrightarrow> kept st (snd (case List.find (\<lambda>r. \<not> is_ok r) x of Some r \<Rightarrow> settled r st' | None \<Rightarrow> settled (Ok 0) st'))"
          by (auto simp: settled_def split: option.split)
      qed
      show ?thesis
        unfolding syncSignersAndRetryMessage_def Let_def
        using True None k2 by (auto intro!: kept_settled kept_await kept_trans[OF k2 kept_retry_blocks] k3 split: outcome.split)
    next
      case (Some q)
      have "\<forall>m \<in> set (q @ [message]). bundled (sy_log st) m"
        using retry_queue_bundled[OF assms(1) Some] assms(2) by simp
      then have "kept st (set_retry_queue ?fid (q @ [message]) st)" by (intro kept_set_retry_queue) simp
      then show ?thesis
        using True Some by (cases q) (simp_all add: syncSignersAndRetryMessage_def Let_def settled_def)
    qed
  qed (simp add: syncSignersAndRetryMessage_def Let_def settled_def)
qed

lemma kept_on_cur_then:
  "kept st st' \<Longrightarrow> (\<And>c. cs_fidRetryMessageQ (f c) = cs_fidRetryMessageQ c) \<Longrightarrow> kept st (on_cur f st')"
  using kept_trans kept_cur by blast

lemma kept_blame_then: "kept st st' \<Longrightarrow> kept st (blame by st')"
  using kept_trans kept_updates(4) by blast

lemma kept_trie_then: "kept st st' \<Longrightarrow> kept st (st'\<lparr>sy_trie := t\<rparr>)"
  using kept_trans kept_updates(1) by blast

lemma kept_tally_result:
  assumes "asked_inv st" "bundled (sy_log st) msg"
  shows "kept st (snd (tally_result E client msg result ta st))"
proof (cases result)
  case (Err e)
  have s: "kept st (snd (await_result (syncSignersAndRetryMessage E client msg st) (\<lambda>retryResult st.
                case retryResult of
                  Throw t \<Rightarrow> settled (Throw t) st
                | _ \<Rightarrow> if msg_signer msg = None then settled (Throw TypeError) st else settled (Ok (f retryResult)) st)))" for f
    by (rule kept_await_result[OF kept_syncSigners[OF assms]]) (auto intro: kept_settled split: outcome.split)
  show ?thesis
    unfolding tally_result_def Let_def using Err s
    by (auto intro!: kept_settled kept_on_cur_then kept_blame_then kept_await kept_trie_then kept_neutral)
qed (simp_all add: tally_result_def Let_def settled_def)

lemma kept_tally_results:
  "asked_inv st \<Longrightarrow> \<forall>(m, r) \<in> set mrs. bundled (sy_log st) m \<Longrightarrow> kept st (snd (tally_results E client mrs ta st))"
proof (induction mrs arbitrary: ta st)
  case (Cons mr mrs)
  obtain m r where mr: "mr = (m, r)" by fastforce
  have "kept st (snd (tally_result E client m r ta st))"
    using Cons.prems mr by (intro kept_tally_result) auto
  moreover have "kept st (snd (tally_results E client mrs x st'))" if "kept st st'" for x st'
  proof -
    have "\<forall>(m, r) \<in> set mrs. bundled (sy_log st') m"
      using Cons.prems(2) that bundled_more by (fastforce simp: kept_def)
    from kept_trans[OF that Cons.IH[OF asked_inv_kept[OF Cons.prems(1) that] this]] show ?thesis .
  qed
  ultimately show ?case by (simp add: mr kept_await)
qed (simp add: settled_def)

lemma kept_mergeMessages:
  assumes "asked_inv st" "\<forall>m \<in> set ms. asked_for (sy_log st) m"
  shows "kept st (snd (sync_mergeMessages E client ms st))"
proof -
  let ?st = "sync_do (SubmitBundle ms) (st\<lparr>sy_syncMergeQ := sy_syncMergeQ st + int (length ms)\<rparr>)"
  have k: "kept st ?st"
    by (rule kept_trans[OF kept_updates(3) kept_do]) (use assms(2) in \<open>simp add: action_asked_def\<close>)
  have b: "bundled (sy_log ?st) m" if "m \<in> set ms" for m using that by (auto simp: sync_do_def bundled_def)
  have t: "kept st (snd (tally_results E client (zip ms rs) ta st'))" if "kept ?st st'" for rs ta st'
  proof -
    have "\<forall>(m, r) \<in> set (zip ms rs). bundled (sy_log st') m"
      using b that bundled_more by (fastforce simp: kept_def dest: set_zip_leftD)
    from kept_trans[OF kept_trans[OF k that] kept_tally_results[OF asked_inv_kept[OF assms(1) kept_trans[OF k that]] this]]
    show ?thesis .
  qed
  have h: "kept ?st st'" if "hub_step (hi_submitMessageBundle (sn_hub E) ms) ?st = (r, st')" for r st'
    using kept_hub_step[of ?st "hi_submitMessageBundle (sn_hub E) ms"] that by simp
  show ?thesis
    unfolding sync_mergeMessages_def Let_def
  proof (rule kept_await)
    show "kept st (snd (hub_step (hi_submitMessageBundle (sn_hub E) ms) ?st))" by (rule kept_trans[OF k kept_hub_step])
    fix x st' assume "hub_step (hi_submitMessageBundle (sn_hub E) ms) ?st = (Some (Ok x), st')"
    from t[OF h[OF this]] show "kept st (snd (await (tally_results E client (zip ms x) \<lparr>ta_results = [], ta_deferred = 0, ta_errors = 0\<rparr> st') (\<lambda>ta st.
        settled (Ok \<lparr>mr_total = int (length (ta_results ta)),
                     mr_successCount = int (length (filter is_ok (ta_results ta))),
                     mr_deferredCount = ta_deferred ta, mr_errCount = ta_errors ta\<rparr>)
          (st\<lparr>sy_syncMergeQ := sy_syncMergeQ st - int (length ms)\<rparr>))))"
      by (rule kept_await) (auto intro!: kept_settled kept_trans[OF _ kept_updates(3)])
  qed
qed


lemma asked_hashes_ids:
  "asked_hashes is = Ok hs \<Longrightarrow> h \<in> set hs \<Longrightarrow> \<exists>i \<in> set is. \<exists>fid pk. sync_unpack i = Ok (MessageSyncId fid pk h)"
proof (induction "is" arbitrary: hs)
  case (Cons i "is")
  from Cons.prems(1) obtain u hs' where u: "sync_unpack i = Ok u" "asked_hashes is = Ok hs'"
    "hs = (case u of MessageSyncId _ _ h \<Rightarrow> h # hs' | _ \<Rightarrow> hs')"
    by (auto simp: andThen_Ok_iff mapOk_Ok_iff)
  show ?case
  proof (cases "h \<in> set hs'")
    case True
    with Cons.IH[OF u(2)] show ?thesis by auto
  next
    case False
    with u(3) Cons.prems(2) have "\<exists>fid pk. u = MessageSyncId fid pk h" by (cases u) auto
    with u(1) show ?thesis by auto
  qed
qed simp

lemma validated_asked:
  assumes "validateFetchedMessagesAgainstSyncIds is ms = Ok True" "m \<in> set ms"
  shows "\<exists>i \<in> set is. id_of_message i m"
proof -
  obtain hs where hs: "asked_hashes is = Ok hs" "\<forall>m \<in> set ms. case msg_hash m of Some h \<Rightarrow> h \<in> set hs | None \<Rightarrow> False"
    using assms(1) by (auto simp: validateFetchedMessagesAgainstSyncIds_def mapOk_Ok_iff)
  with assms(2) obtain h where "msg_hash m = Some h" "h \<in> set hs" by (auto split: option.splits)
  with asked_hashes_ids[OF hs(1)] show ?thesis by (fastforce simp: id_of_message_def)
qed

lemma kept_fetch:
  assumes "asked_inv st"
  shows "kept st (snd (fetchAndMergeMessages E ids client st))"
proof (cases "ids = []")
  case False
  let ?st = "sync_do (AskMessages ids) st"
  have k: "kept st ?st" by (rule kept_neutral(4))
  have "kept st (snd (sync_mergeMessages E client ms ?st))" if "validateFetchedMessagesAgainstSyncIds ids ms = Ok True" for ms
  proof -
    have "\<forall>m \<in> set ms. asked_for (sy_log ?st) m"
      using validated_asked[OF that] by (auto simp: asked_for_def sync_do_def)
    from kept_trans[OF k kept_mergeMessages[OF asked_inv_kept[OF assms k] this]] show ?thesis .
  qed
  moreover have "kept st (snd (settled r ?st))" "kept st (snd (settled r (blame 1 ?st)))" for r :: "MergeResult outcome"
    using k by (simp_all add: kept_settled kept_blame_then)
  ultimately show ?thesis
    using False
    by (auto simp: fetchAndMergeMessages_def Let_def settled_def split: outcome.split
        intro!: kept_await[of _ "(Some (validateFetchedMessagesAgainstSyncIds ids ms), sync_do (AskMessages ids) st)" for ms])
qed (simp add: fetchAndMergeMessages_def settled_def)

lemma kept_on_chain: "kept st (snd (validateAndMergeOnChainEvents E ids st))"
proof (cases "ids = []")
  case False
  have "kept st (snd (await (settled (unpack_all ids) st) (\<lambda>us st.
      await (all_of (map (retry_block E) (f us)) st) (\<lambda>_ st. settled (Ok (g us)) st))))" for f and g :: "_ \<Rightarrow> MergeResult"
    by (rule kept_await) (auto simp: settled_def intro!: kept_await kept_trans[OF _ kept_retry_blocks[where f = id, simplified]])
  with False show ?thesis by (simp add: validateAndMergeOnChainEvents_def Let_def)
qed (simp add: validateAndMergeOnChainEvents_def settled_def)

lemma kept_fnames: "kept st (snd (validateAndMergeFnames E ids st))"
proof (cases "ids = []")
  case False
  have "kept st (snd (await (settled (unpack_all ids) st) (\<lambda>us st.
      await (all_of (map (retry_name E) (f us)) st) (\<lambda>_ st. settled (Ok (g us)) st))))" for f and g :: "_ \<Rightarrow> MergeResult"
    by (rule kept_await) (auto simp: settled_def intro!: kept_await kept_trans[OF _ kept_retry_names])
  with False show ?thesis by (simp add: validateAndMergeFnames_def Let_def)
qed (simp add: validateAndMergeFnames_def settled_def)

lemma kept_fetchMissing:
  assumes "asked_inv st"
  shows "kept st (snd (fetchMissingSyncIds E ids client st))"
proof -
  have f: "kept st (snd (fetchAndMergeMessages E is client st'))" if "kept st st'" for "is" st'
    using kept_trans[OF that kept_fetch[OF asked_inv_kept[OF assms that]]] .
  have n: "kept st (snd (validateAndMergeFnames E is st'))" if "kept st st'" for "is" st'
    using kept_trans[OF that kept_fnames] .
  show ?thesis
    unfolding fetchMissingSyncIds_def
    by (auto intro!: kept_await kept_on_chain f n kept_settled kept_on_cur_then)
qed

lemma kept_got_ids:
  assumes "asked_inv st"
  shows "kept st (snd (got_ids E w ids client st))"
proof -
  have f: "kept st (snd (fetchMissingSyncIds E is client st'))" if "kept st st'" for "is" st'
    using kept_trans[OF that kept_fetchMissing[OF asked_inv_kept[OF assms that]]] .
  have c: "kept st (snd (revokeCorruptedSyncIds E n st'))" if "kept st st'" for n st'
    using kept_trans[OF that kept_revokeCorruptedSyncIds] .
  show ?thesis
    by (auto simp: got_ids_def Let_def split: list.split
        intro!: kept_settled kept_blame_then kept_await kept_on_trie f c)
qed

lemma kept_getMessages:
  assumes "asked_inv st"
  shows "kept st (snd (getMessagesFromOtherNode E w st))"
proof -
  obtain s c where n: "next_secondary (sy_cur st) = (s, c)" by fastforce
  then have "cs_fidRetryMessageQ c = cs_fidRetryMessageQ (sy_cur st)"
    by (auto simp: next_secondary_def Let_def split: option.splits if_splits)
  then have k: "kept st (st\<lparr>sy_cur := c\<rparr>)" by (intro kept_same) (simp_all add: waiting_messages_def)
  have a: "kept st (sync_do (AskSyncIds p) st')" if "kept st st'" for p st' using kept_trans[OF that kept_neutral(3)] .
  have g: "kept st (snd (got_ids E w is client st'))" if "kept st st'" for "is" client st'
    using kept_trans[OF that kept_got_ids[OF asked_inv_kept[OF assms that]]] .
  show ?thesis
    using n k
    by (auto simp: getMessagesFromOtherNode_def Let_def ask_ids_def split: option.split prod.split outcome.split list.split
        intro!: kept_settled g a)
qed

lemma kept_peer_failed: "kept st (peer_failed st)"
proof -
  have "kept st (if b then on_cur f (on_cur g (blame 1 (on_cur h (blame 1 st)))) else on_cur h (blame 1 st))"
    if "\<And>c. cs_fidRetryMessageQ (f c) = cs_fidRetryMessageQ c" "\<And>c. cs_fidRetryMessageQ (g c) = cs_fidRetryMessageQ c"
      "\<And>c. cs_fidRetryMessageQ (h c) = cs_fidRetryMessageQ c" for f g h b
    using that by (auto intro!: kept_on_cur_then kept_blame_then)
  then show ?thesis
    unfolding peer_failed_def Let_def by (auto split: list.split)
qed

lemma schedule_same: "cs_fidRetryMessageQ (scheduleWorkItem ours t c) = cs_fidRetryMessageQ c"
  by (simp add: scheduleWorkItem_def)

lemma schedule_children_same: "cs_fidRetryMessageQ (schedule_children ours ts c) = cs_fidRetryMessageQ c"
  unfolding schedule_children_def by (induction ts arbitrary: c) (auto simp: schedule_same)

lemma kept_execute:
  assumes "asked_inv st"
  shows "kept st (snd (executeWorkItem E w st))"
proof -
  have g: "kept st (snd (getMessagesFromOtherNode E w st'))" if "kept st st'" for st'
    using kept_trans[OF that kept_getMessages[OF asked_inv_kept[OF assms that]]] .
  have p: "kept st (peer_failed st')" if "kept st st'" for st' using kept_trans[OF that kept_peer_failed] .
  have a: "kept st (sync_do (AskMetadata q) st')" if "kept st st'" for st' q using kept_trans[OF that kept_neutral(1)] .
  show ?thesis
    by (auto simp: executeWorkItem_def Let_def split: option.split outcome.split
        intro!: kept_await kept_settled g p kept_on_cur_then schedule_children_same a)
qed

lemma kept_execute_all: "asked_inv st \<Longrightarrow> kept st (snd (execute_all E ws st))"
proof (induction ws arbitrary: st)
  case (Cons w ws)
  obtain r st1 where e: "executeWorkItem E w st = (r, st1)" by fastforce
  have k: "kept st st1" using kept_execute[OF Cons.prems, of E w] e by simp
  from kept_trans[OF k Cons.IH[OF asked_inv_kept[OF Cons.prems k]]] show ?case
    by (auto simp: e split: option.split outcome.split prod.split)
qed (simp add: settled_def)

lemma kept_process: "asked_inv st \<Longrightarrow> kept st (snd (processSyncWorkQueue fuel E turn par running st))"
proof (induction fuel arbitrary: turn running st)
  case (Suc fuel)
  let ?st1 = "if sn_timedOut E turn then on_cur (\<lambda>c. c\<lparr>cs_interruptSync := True\<rparr>) st else st"
  let ?st2 = "if cs_interruptSync (sy_cur ?st1) then on_cur (\<lambda>c. c\<lparr>cs_workQueue := []\<rparr>) ?st1 else ?st1"
  let ?st3 = "on_cur (\<lambda>c. c\<lparr>cs_completedWorkCount := cs_completedWorkCount c + running\<rparr>) ?st2"
  have "kept st ?st1" by (auto intro: kept_cur)
  then have "kept st ?st2" by (auto intro: kept_on_cur_then)
  then have k: "kept st ?st3" by (rule kept_on_cur_then) simp
  obtain items q where p: "pop_best E (par - cs_executingWorkCount (sy_cur ?st3)) (cs_workQueue (sy_cur ?st3)) = (items, q)"
    by fastforce
  let ?st4 = "on_cur (\<lambda>c. c\<lparr>cs_workQueue := q, cs_executingWorkCount := length items\<rparr>) ?st3"
  have k4: "kept st ?st4" using k by (rule kept_on_cur_then) simp
  have "kept st (snd (await (execute_all E items ?st4) (\<lambda>_ st. processSyncWorkQueue fuel E (Suc turn) par (length items) st)))"
  proof (rule kept_await)
    show "kept st (snd (execute_all E items ?st4))"
      by (rule kept_trans[OF k4 kept_execute_all[OF asked_inv_kept[OF Suc.prems k4]]])
    show "kept st (snd (processSyncWorkQueue fuel E (Suc turn) par (length items) st'))" if "kept st st'" for st'
      using kept_trans[OF that Suc.IH[OF asked_inv_kept[OF Suc.prems that]]] .
  qed
  with p show ?case by (auto simp: Let_def settled_def)
qed simp


lemma kept_audit_message: "kept st (snd (audit_message E ms m st))"
proof -
  have "kept st (snd (settled r st'))" if "kept st st'" for r :: "bool outcome" and st'
    using that by (rule kept_settled)
  then show ?thesis
    by (auto simp: audit_message_def split: option.split outcome.split
        intro!: kept_settled kept_await_result kept_hub_step)
qed

lemma kept_audit_all: "kept st (snd (all_of (map (audit_message E ms) ours) st))"
  by (rule kept_all_of[where P = "\<lambda>_. True"]) (auto intro: kept_audit_message)

lemma kept_auditPeer: "kept st (snd (auditPeer E peerId client st))"
proof -
  have b: "kept st (st'\<lparr>sy_scorer := x\<rparr>)" if "kept st st'" for st' x using kept_trans[OF that kept_updates(2)] .
  have t: "kept st (snd (on_trie f st'))" if "kept st st'" for st' and f :: "MerkleTrie \<Rightarrow> bytes list outcome \<times> MerkleTrie"
    using kept_trans[OF that kept_on_trie] .
  have a: "kept st (sync_do (AskMessages is) st')" if "kept st st'" for st' "is" using kept_trans[OF that kept_neutral(4)] .
  have m: "kept st (snd (all_of (map (audit_message E ms) ours) st'))" if "kept st st'" for st' ms ours
    using kept_trans[OF that kept_audit_all] .
  have n: "kept st (snd (audit_node d E k node st', st'))" if "kept st st'" for st' d k node using that by simp
  show ?thesis
    by (auto simp: auditPeer_def Let_def split: option.split outcome.split
        intro!: kept_await kept_settled b t a m n kept_blame_then)
qed

lemma kept_from_root:
  assumes "asked_inv st"
  shows "kept st (snd (sync_from_root fuel E doAudit peerId client st))"
proof -
  let ?audit = "if doAudit then auditPeer E peerId client st else settled (Ok ()) st"
  obtain r st1 where a: "?audit = (r, st1)" by fastforce
  have "kept st (snd ?audit)" by (simp add: kept_auditPeer kept_settled)
  then have k1: "kept st st1" unfolding a by simp
  have d: "kept st (sync_do (AskMetadata q) st')" if "kept st st'" for st' q using kept_trans[OF that kept_neutral(1)] .
  have p: "kept st (snd (processSyncWorkQueue fuel E 0 par 0 st'))" if "kept st st'" for st' par
    using kept_trans[OF that kept_process[OF asked_inv_kept[OF assms that]]] .
  show ?thesis
    unfolding sync_from_root_def a
    using k1 by (auto simp: Let_def split: outcome.split
        intro!: kept_await kept_settled kept_blame_then p kept_on_cur_then schedule_same d)
qed

text \<open>A sync hands nothing to the hub that was not asked for.\<close>

theorem performSync_only_asked:
  assumes "only_asked (sy_log st)"
  shows "only_asked (sy_log (snd (performSync fuel E peerId client doAudit secondaries st)))"
proof -
  let ?secondaries = "if secondaries = [] then [(peerId, client)] else secondaries"
  let ?st = "st\<lparr>sy_cur := new_CurrentSyncStatus (Some peerId) (Some client) ?secondaries (sn_now E)\<rparr>"
  have i: "asked_inv ?st"
    using assms by (simp add: asked_inv_def waiting_messages_def new_CurrentSyncStatus_def Let_def)
  obtain r st1 where s: "sync_from_root fuel E doAudit peerId client ?st = (r, st1)" by fastforce
  with kept_from_root[OF i, of fuel E doAudit peerId client] have "asked_inv st1" using i by (simp add: kept_def)
  then show ?thesis
    using s by (cases r) (auto simp: performSync_def Let_def settled_def on_cur_def asked_inv_def)
qed

end
