(* ===== verification/PeerSamples.thy ===== *)
theory PeerSamples
  imports SyncSamples SyncFacts
begin

text \<open>Concrete values for the properties of syncs: a hash without collisions on the ids of two messages, and hubs that
  hold them.\<close>

section \<open>A hash without collisions\<close>

definition hash_block :: "byte \<Rightarrow> nat \<Rightarrow> bytes" where
  "hash_block a i = a # of_nat i # replicate 18 0"

definition sample_hash :: "bytes \<Rightarrow> bytes" where
  "sample_hash b =
     (if b = [] then hash_block 0 0
      else if length b = 20 then hd b # (b ! 1 + 1) # replicate 18 0
      else hash_block (of_nat (length b) + last b) 0)"

definition sample_hash_coder :: trie_coder where
  "sample_hash_coder = sample_trie_coder\<lparr>trie_blake3 := sample_hash\<rparr>"

definition two_ids :: "bytes set" where
  "two_ids = {sample_id 1, sample_id 2}"

definition id_base :: bytes where
  "id_base = fromTimestamp 100 (1 # replicate 24 0)"

lemma sample_id_base: "sample_id b = id_base @ [b]" "length id_base = 35"
  by (simp_all add: sample_id_def id_base_def fromTimestamp_def utf8_padded_prefix time_bytes_length)

lemma sample_hash_length: "length (sample_hash b) = 20"
  by (simp add: sample_hash_def hash_block_def)

lemma sample_hash_id: "sample_hash (sample_id b) = hash_block (36 + b) 0"
  using sample_id_base(2) by (simp add: sample_hash_def sample_id_base(1))

lemma sample_hash_block: "sample_hash (hash_block a i) = hash_block a (Suc i)"
  by (simp add: sample_hash_def hash_block_def add.commute)

lemma hash_block_inject: "i < 256 \<Longrightarrow> j < 256 \<Longrightarrow> hash_block a i = hash_block b j \<longleftrightarrow> a = b \<and> i = j"
  by (simp add: hash_block_def word_of_nat_eq_iff take_bit_eq_mod)

lemma sample_hash_coder_ok: "coder_ok sample_hash_coder"
proof -
  have "sample_hash b \<noteq> []" for b using sample_hash_length[of b] by auto
  then show ?thesis using sample_trie_coder_ok by (simp add: coder_ok_def sample_hash_coder_def)
qed

lemma two_ids_chars:
  assumes "J \<subseteq> two_ids" "c \<in> chars p J"
  shows "p = id_base \<and> c \<in> {1, 2} \<or> length p < 35 \<and> c = id_base ! length p"
proof -
  obtain b where b: "b \<in> {1, 2}" "prefix (p @ [c]) (id_base @ [b])"
    using assms unfolding chars_def sub_def two_ids_def sample_id_base by blast
  show ?thesis
  proof (cases "prefix (p @ [c]) id_base")
    case True
    then obtain r where r: "id_base = p @ c # r" by (auto simp: prefix_def)
    moreover have "length p < 35" using arg_cong[OF r, of length] sample_id_base(2) by simp
    moreover have "id_base ! length p = c" using arg_cong[OF r, of "\<lambda>x. x ! length p"] by simp
    ultimately show ?thesis by simp
  next
    case False
    with b(2) have "p @ [c] = id_base @ [b]" by simp
    with b(1) show ?thesis by simp
  qed
qed

lemma two_ids_sync: "sync_ids_ok two_ids"
  using sample_id_early by (intro early_ids_ok) (auto simp: two_ids_def card_insert_if)

lemma two_ids_ok: "keys_ok [] two_ids"
  using two_ids_sync by (simp add: sync_ids_ok_def)

text \<open>The hashes of the nodes of subsets of the two ids: a chain of blocks for every id, and one for both.\<close>

definition both_text :: bytes where
  "both_text = hash_block 37 0 @ hash_block 38 0"

lemma sample_hash_both: "sample_hash both_text = hash_block 40 0"
  by (simp add: sample_hash_def both_text_def hash_block_def)

lemma two_ids_leaf: "b \<in> {1, 2} \<Longrightarrow> key_hash sample_hash_coder (id_base @ [b]) {sample_id b} = hash_block (36 + b) 0"
  using sample_id_base(2) key_hash_leaf[of "id_base @ [b]" "sample_id b"]
  by (simp add: inner_def TIMESTAMP_LENGTH_def sample_hash_coder_def sample_hash_id)

lemma two_ids_sub: "J \<subseteq> two_ids \<Longrightarrow> b \<in> chars id_base J \<Longrightarrow> sub J (id_base @ [b]) = {sample_id b}"
  by (auto simp: chars_def sub_def two_ids_def sample_id_base)

lemma children_text_cases:
  assumes "J \<subseteq> two_ids"
    and step: "\<And>c. chars p J = {c} \<Longrightarrow> length p \<le> 35 \<Longrightarrow> \<exists>a i. a \<in> {37, 38, 40} \<and> i + Suc (length p) \<le> 36 \<and>
      key_hash sample_hash_coder (p @ [c]) (sub J (p @ [c])) = hash_block a i"
  shows "chars p J = {} \<and> children_text sample_hash_coder p J = [] \<or> children_text sample_hash_coder p J = both_text \<and> length p \<le> 35 \<or>
    (\<exists>a i. a \<in> {37, 38, 40} \<and> i + Suc (length p) \<le> 36 \<and> children_text sample_hash_coder p J = hash_block a i)"
proof -
  consider "chars p J = {}" | c where "chars p J = {c}" "length p \<le> 35" | "p = id_base" "chars p J = {1, 2}"
  proof (cases "p = id_base")
    case True
    then have "chars p J \<subseteq> {1, 2}" using two_ids_chars[OF assms(1)] sample_id_base(2) by fastforce
    then consider "chars p J = {}" | "chars p J = {1}" | "chars p J = {2}" | "chars p J = {1, 2}" by blast
    then show ?thesis using True that sample_id_base(2) by cases auto
  next
    case False
    then have "length p < 35 \<and> c = id_base ! length p" if "c \<in> chars p J" for c
      using two_ids_chars[OF assms(1) that] by blast
    then have "chars p J = {} \<or> chars p J = {id_base ! length p} \<and> length p \<le> 35" by fastforce
    then show ?thesis using that by blast
  qed
  then show ?thesis
  proof cases
    case 1
    then show ?thesis by (simp add: children_text_def)
  next
    case (2 c)
    with step[OF 2] show ?thesis by (simp add: children_text_def)
  next
    case 3
    have "sorted_list_of_set {1, 2 :: byte} = [1, 2]" by simp
    moreover have "sub J (id_base @ [b]) = {sample_id b}" if "b \<in> {1, 2}" for b using two_ids_sub[OF assms(1)] 3 that by simp
    ultimately show ?thesis using 3 two_ids_leaf sample_id_base(2) by (simp add: children_text_def both_text_def)
  qed
qed

lemma two_ids_hashes:
  "J \<subseteq> two_ids \<Longrightarrow> J \<noteq> {} \<Longrightarrow> keys_ok p J \<Longrightarrow>
   \<exists>a i. a \<in> {37, 38, 40} \<and> i + length p \<le> 36 \<and> key_hash sample_hash_coder p J = hash_block a i"
proof (induction "36 - length p" arbitrary: p J rule: less_induct)
  case less
  obtain k where k: "k \<in> J" using less.prems(2) by blast
  then have len: "length p \<le> 36" "k \<in> two_ids"
    using less.prems(1,3) prefix_length_le[of p k] sample_id_base by (auto simp: keys_ok_def two_ids_def)
  show ?case
  proof (cases "inner p J")
    case False
    obtain j where "J = {j}" using not_inner_single[OF less.prems(3,2) False] .
    moreover from this obtain b where "j = sample_id b" "b \<in> {1, 2}" using less.prems(1) by (auto simp: two_ids_def)
    ultimately have "key_hash sample_hash_coder p J = hash_block (36 + b) 0" "b \<in> {1, 2}"
      using False key_hash_leaf[of p j] by (simp_all add: sample_hash_coder_def sample_hash_id)
    with len show ?thesis by (intro exI[of _ "36 + b"] exI[of _ 0]) auto
  next
    case True
    have step: "\<exists>a i. a \<in> {37, 38, 40} \<and> i + Suc (length p) \<le> 36 \<and>
      key_hash sample_hash_coder (p @ [c]) (sub J (p @ [c])) = hash_block a i" if c: "chars p J = {c}" "length p \<le> 35" for c
    proof -
      have "sub J (p @ [c]) \<noteq> {}" "sub J (p @ [c]) \<subseteq> two_ids"
        using c(1) less.prems(1) sub_subset[of J "p @ [c]"] by (auto simp: chars_def)
      moreover have "keys_ok (p @ [c]) (sub J (p @ [c]))" using keys_ok_sub[OF less.prems(3), of "p @ [c]"] by simp
      ultimately show ?thesis using less.hyps[of "p @ [c]" "sub J (p @ [c])"] c(2) by simp
    qed
    have "chars p J \<noteq> {}" using below_children[OF less.prems(3) True] k by auto
    with children_text_cases[OF less.prems(1) step] consider
      "children_text sample_hash_coder p J = both_text" "length p \<le> 35"
      | a i where "a \<in> {37, 38, 40}" "i + Suc (length p) \<le> 36" "children_text sample_hash_coder p J = hash_block a i"
      by blast
    then show ?thesis
    proof cases
      case 1
      with key_hash_children[OF less.prems(3) True, of sample_hash_coder] sample_hash_both show ?thesis
        by (intro exI[of _ 40] exI[of _ 0]) (simp add: sample_hash_coder_def)
    next
      case (2 a i)
      with key_hash_children[OF less.prems(3) True, of sample_hash_coder] sample_hash_block show ?thesis
        by (intro exI[of _ a] exI[of _ "Suc i"]) (simp add: sample_hash_coder_def)
    qed
  qed
qed


text \<open>What is hashed, and the block that it becomes.\<close>

lemma two_ids_texts:
  assumes "x \<in> two_ids \<union> {children_text sample_hash_coder p J | p J. J \<subseteq> two_ids}"
  shows "x = [] \<or> x \<in> two_ids \<or> x = both_text \<or> (\<exists>a i. a \<in> {37, 38, 40} \<and> i \<le> 36 \<and> x = hash_block a i)"
proof (cases "x \<in> two_ids")
  case False
  then obtain p J where x: "x = children_text sample_hash_coder p J" "J \<subseteq> two_ids" using assms by blast
  have "\<exists>a i. a \<in> {37, 38, 40} \<and> i + Suc (length p) \<le> 36 \<and>
      key_hash sample_hash_coder (p @ [c]) (sub J (p @ [c])) = hash_block a i" if c: "chars p J = {c}" "length p \<le> 35" for c
  proof -
    have s: "sub J (p @ [c]) \<noteq> {}" "sub J (p @ [c]) \<subseteq> two_ids"
      using c(1) x(2) sub_subset[of J "p @ [c]"] by (auto simp: chars_def)
    have "keys_ok (p @ [c]) (sub J (p @ [c]))"
      using keys_ok_sub[OF keys_ok_mono[OF two_ids_ok x(2)], of "p @ [c]"] by simp
    with s two_ids_hashes[of "sub J (p @ [c])" "p @ [c]"] show ?thesis by simp
  qed
  with children_text_cases[OF x(2), of p] have "x = [] \<or> x = both_text \<or>
      (\<exists>a i. a \<in> {37, 38, 40} \<and> i + Suc (length p) \<le> 36 \<and> x = hash_block a i)"
    unfolding x(1) by blast
  then show ?thesis using add_leD1 by blast
qed simp

definition text_block :: "bytes \<Rightarrow> byte \<times> nat" where
  "text_block x =
     (if x = [] then (0, 0) else if x = both_text then (40, 0) else if length x = 20 then (hd x, Suc (unat (x ! 1)))
      else (36 + last x, 0))"


definition block_text :: "byte \<times> nat \<Rightarrow> bytes" where
  "block_text ai =
     (if snd ai > 0 then hash_block (fst ai) (snd ai - 1)
      else if fst ai = 0 then [] else if fst ai = 40 then both_text else sample_id (fst ai - 36))"

lemma two_ids_collision_free: "collision_free sample_hash_coder two_ids"
proof -
  let ?X = "two_ids \<union> {children_text sample_hash_coder p J | p J. J \<subseteq> two_ids}"
  have len: "length both_text = 40" by (simp add: both_text_def hash_block_def)
  have block: "text_block (hash_block a i) = (a, Suc i)" if "i \<le> 36" for a i
  proof -
    have "length (hash_block a i) = 20" by (simp add: hash_block_def)
    with len have "hash_block a i \<noteq> both_text" by (intro notI) simp
    then show ?thesis using that by (simp add: text_block_def hash_block_def unat_of_nat)
  qed
  have id: "text_block (sample_id b) = (36 + b, 0)" for b
  proof -
    have "length (sample_id b) = 36" using sample_id_base by simp
    with len have "sample_id b \<noteq> both_text" by (intro notI) simp
    then show ?thesis using sample_id_base(2) by (simp add: text_block_def sample_id_base(1))
  qed
  have both: "text_block both_text = (40, 0)" "text_block [] = (0, 0)" "sample_hash [] = hash_block 0 0"
    using len by (auto simp: text_block_def sample_hash_def)
  have value_of: "sample_hash x = hash_block (fst (text_block x)) (snd (text_block x)) \<and> snd (text_block x) \<le> 37" if "x \<in> ?X" for x
    using two_ids_texts[OF that] block id sample_hash_block sample_hash_both
    by (auto simp: two_ids_def sample_hash_id both)
  have "block_text (text_block x) = x" if "x \<in> ?X" for x
    using two_ids_texts[OF that] block id by (auto simp: two_ids_def both block_text_def)
  then have inj: "inj_on text_block ?X" by (rule inj_on_inverseI)
  have same: "text_block x = text_block y" if "x \<in> ?X" "y \<in> ?X" "sample_hash x = sample_hash y" for x y
  proof -
    obtain a i where t: "text_block x = (a, i)" by fastforce
    obtain b j where t2: "text_block y = (b, j)" by fastforce
    from t t2 value_of[OF that(1)] value_of[OF that(2)] that(3) have "hash_block a i = hash_block b j" "i < 256" "j < 256" by simp_all
    then show ?thesis using t t2 hash_block_inject[of i j a b] by simp
  qed
  have "inj_on sample_hash ?X"
  proof (rule inj_onI)
    fix x y assume a: "x \<in> ?X" "y \<in> ?X" "sample_hash x = sample_hash y"
    from inj_onD[OF inj same[OF a] a(1,2)] show "x = y" .
  qed
  moreover have "\<not> HASH_LENGTH dvd length k" if "k \<in> two_ids" for k
  proof -
    have "length k = 36" using that sample_id_base by (auto simp: two_ids_def)
    then show ?thesis by (simp add: HASH_LENGTH_def)
  qed
  ultimately show ?thesis
    using sample_hash_length by (auto simp: collision_free_def sample_hash_coder_def HASH_LENGTH_def)
qed


section \<open>Hubs that hold ids\<close>

definition sample_held :: "bytes list \<Rightarrow> MerkleTrie" where
  "sample_held ids =
     snd (rsMerkleTrieBatchUpdate sample_hash_coder ids [] (snd (MerkleTrie_clear sample_hash_coder (new_MerkleTrie (sample_db []) True))))"

lemma sample_held_ok:
  assumes "distinct ids" "set ids \<subseteq> two_ids"
  shows "holds_ids sample_hash_coder (set ids) (sample_held ids)"
proof -
  have "holds_ids sample_hash_coder {} (snd (MerkleTrie_clear sample_hash_coder (new_MerkleTrie (sample_db []) True)))"
    using MerkleTrie_clear_ok[OF sample_hash_coder_ok, of "new_MerkleTrie (sample_db []) True"]
    by (auto simp: new_MerkleTrie_def)
  from batch_update_ok[OF this sample_hash_coder_ok assms(1), of "[]"] sync_ids_mono[OF two_ids_sync assms(2)] show ?thesis
    by (auto simp: sample_held_def)
qed

section \<open>A hub that syncs\<close>

definition sample_interface :: "unit hub_interface" where
  "sample_interface =
     \<lparr>hi_submitMessageBundle = (\<lambda>ms w. (Some (Ok (map (\<lambda>_. Ok 1) ms)), w)), hi_submitMessage = (\<lambda>m w. (Some (Ok 1), w)),
      hi_retryEventsFromBlock = None, hi_retryTransferByName = None, hi_getUserNameProof = (\<lambda>n w. (Some (Ok None), w)),
      hi_validateMessage = (\<lambda>m w. (Some (Ok m), w)), hi_db = (\<lambda>_. sample_db [])\<rparr>"

definition sample_sync_env :: "unit sync_env" where
  "sample_sync_env =
     \<lparr>sn_coder = sample_hash_coder, sn_proto = cast_coder, sn_hub = sample_interface, sn_now = sample_now, sn_depth = 40,
      sn_pop = (\<lambda>ws. case ws of [] \<Rightarrow> None | w # ws \<Rightarrow> Some (w, ws)), sn_timedOut = (\<lambda>_. False), sn_random = (\<lambda>_ _. 0),
      sn_parallelism = 4, sn_connect = (\<lambda>_ _. None)\<rparr>"

definition sample_sync_engine :: "unit sync_engine" where
  "sample_sync_engine =
     (new_SyncEngine sample_now (sample_db []) None ())
       \<lparr>sy_trie := \<lparr>sr_trie = sample_held [sample_id 1], sr_syncTrieQ = 0, sr_numFids = 0, sr_numFnames = 0\<rparr>\<rparr>"

text \<open>A peer that promises one id and gives two short ids of on-chain events.\<close>

definition short_id :: bytes where
  "short_id = replicate 10 48 @ [root_byte OnChainEventPrefix]"

definition bad_client :: peer_client where
  "bad_client =
     \<lparr>pc_answersInfo = True, pc_getSyncMetadataByPrefix = (\<lambda>_ _. Ok (TrieNodeMetadataResponse [] 1 [] [])),
      pc_getSyncSnapshotByPrefix = (\<lambda>_ _. Throw TypeError), pc_getAllSyncIdsByPrefix = (\<lambda>_ _. Ok [short_id, short_id]),
      pc_getAllMessagesBySyncIds = (\<lambda>_ _. Throw TypeError), pc_getOnChainEvents = (\<lambda>_ _. Throw TypeError),
      pc_getOnChainSignersByFid = (\<lambda>_ _. Throw TypeError)\<rparr>"

lemma short_id_malformed: "malformed_event_id short_id" "short_id \<noteq> []"
  by (simp_all add: malformed_event_id_def short_id_def sync_type_def byte_at_def TIMESTAMP_LENGTH_def nth_append Let_def)

lemma sample_sync_trie:
  "holds_ids sample_hash_coder {sample_id 1} (sr_trie (sy_trie sample_sync_engine))"
  "sn_coder sample_sync_env = sample_hash_coder"
  using sample_held_ok[of "[sample_id 1]"] by (simp_all add: sample_sync_engine_def sample_sync_env_def two_ids_def)

lemma sample_our_metadata:
  "\<exists>n. our_metadata sample_sync_env [] sample_sync_engine = Ok (Some n) \<and> nm_hash n \<noteq> []"
proof -
  have "node_at {sample_id 1} [] []" by (simp add: node_at_def sub_def)
  from metadata_ok[OF sample_sync_trie(1) this] obtain n where
    "our_metadata sample_sync_env [] sample_sync_engine = Ok (Some n)"
    "nm_hash n = buffer_hex (key_hash sample_hash_coder [] (sub {sample_id 1} []))"
    by (auto simp: our_metadata_def sample_sync_trie(2) set_metadata_def)
  moreover have "key_hash sample_hash_coder [] A \<noteq> []" for A
    using key_hash_length[OF two_ids_collision_free, of "[]" A] by (auto simp: HASH_LENGTH_def)
  then have "buffer_hex (key_hash sample_hash_coder [] A) \<noteq> []" for A
    using map_hex_inject by (simp add: buffer_hex_def)
  ultimately show ?thesis by simp
qed

lemma sample_snapshot_time: "\<exists>t. snapshotTimestamp sample_now = Ok t"
  by (simp add: snapshotTimestamp_def getFarcasterTime_def toFarcasterTime_def FARCASTER_EPOCH_def sample_now_def mapOk_def)

text \<open>The snapshot of a peer with both ids.\<close>

lemma sample_peer_snapshot: "\<exists>theirs. snapshot_taken sample_hash_coder sample_now two_ids theirs"
proof -
  let ?r = "\<lparr>sr_trie = sample_held [sample_id 1, sample_id 2], sr_syncTrieQ = 0, sr_numFids = 0, sr_numFnames = 0\<rparr>"
  have h: "holds_ids sample_hash_coder two_ids (sr_trie ?r)"
    using sample_held_ok[of "[sample_id 1, sample_id 2]"] by (simp add: two_ids_def sample_id_inject)
  obtain t where t: "snapshotTimestamp sample_now = Ok t" using sample_snapshot_time by blast
  obtain hs m q where "snapshot_of sample_hash_coder two_ids [] (utf8_encode (timestampToPaddedTimestampPrefix t)) = (hs, m, q)"
    by (metis prod_cases3)
  from MerkleTrie_snapshot_ok[OF h _ this] t obtain r' where
    "sync_getSnapshotByPrefix sample_hash_coder sample_now None ?r =
      (Ok \<lparr>ts_prefix = q, ts_excludedHashes = map buffer_hex hs, ts_numMessages = m\<rparr>, r')"
    by (auto simp: sync_getSnapshotByPrefix_def sync_getSnapshot_def on_sync_trie_def two_ids_def)
  with h show ?thesis unfolding snapshot_taken_def by blast
qed

end
