(* ===== verification/RpcServer.thy ===== *)
theory RpcServer
  imports SyncWalk NetworkTools EngineReads
begin

text \<open>
  The server of a hub (\<^verbatim>\<open>rpc/server.ts\<close>): what it answers to its clients and to other hubs. A handler calls the engine, the
  sync engine or the hub and hands the result to the callback; an exception of a handler is never caught, so the
  client gets no answer (and the rejection that nobody handles makes \<^verbatim>\<open>cli.ts\<close> shut the hub down). The state of a server
  is that of what it is given; the sync engine may be missing. Requests are the decoded records of
  \<^verbatim>\<open>request_response.ts\<close>; metrics and logs are left out.
\<close>

section \<open>Answers\<close>

datatype 'a rpc_reply =
    Answered 'a
  | Refused grpc_status hub_error
  | Unanswered js_exn

definition rpc_callback :: "'a outcome \<Rightarrow> 'a rpc_reply" where
  "rpc_callback r =
     (case r of Ok x \<Rightarrow> Answered x | Err e \<Rightarrow> Refused (toServiceError e) e | Throw t \<Rightarrow> Unanswered t)"

definition replied :: "'a outcome option \<times> 's \<Rightarrow> 'a rpc_reply option \<times> 's" where
  "replied r = (map_option rpc_callback (fst r), snd r)"

type_synonym ('a, 's) rpc_result = "'a rpc_reply option \<times> 's"

record MessagesResponse =
  mres_messages :: "Message list"
  mres_nextPageToken :: bytes

definition messagesPageToResponse :: "MessagesPage \<Rightarrow> MessagesResponse" where
  "messagesPageToResponse page =
     \<lparr>mres_messages = page_messages page,
      mres_nextPageToken = (case page_nextPageToken page of Some t \<Rightarrow> t | None \<Rightarrow> [])\<rparr>"

definition page_replied :: "MessagesPage outcome option \<times> 's \<Rightarrow> (MessagesResponse, 's) rpc_result" where
  "page_replied r = replied (map_option (\<lambda>r. mapOk r messagesPageToResponse) (fst r), snd r)"

section \<open>Requests\<close>

text \<open>Every request for a list has the same three options.\<close>

definition paging :: "nat option \<Rightarrow> bytes option \<Rightarrow> bool option \<Rightarrow> page_options" where
  "paging pageSize pageToken reversed =
     \<lparr>po_pageToken = pageToken, po_pageSize = pageSize, po_reverse = (reversed = Some True)\<rparr>"

record FidRequest =
  fidr_fid :: number
  fidr_pageSize :: "nat option"
  fidr_pageToken :: "bytes option"
  fidr_reverse :: "bool option"

definition fid_paging :: "FidRequest \<Rightarrow> page_options" where
  "fid_paging r = paging (fidr_pageSize r) (fidr_pageToken r) (fidr_reverse r)"

record FidTimestampRequest =
  ftr_fid :: number
  ftr_pageSize :: "nat option"
  ftr_pageToken :: "bytes option"
  ftr_reverse :: "bool option"
  ftr_startTimestamp :: "int option"
  ftr_stopTimestamp :: "int option"

definition time_paging :: "FidTimestampRequest \<Rightarrow> page_options" where
  "time_paging r = paging (ftr_pageSize r) (ftr_pageToken r) (ftr_reverse r)"

record FidsRequest =
  fidsr_pageSize :: "nat option"
  fidsr_pageToken :: "bytes option"
  fidsr_reverse :: "bool option"

record CastsByParentRequest =
  cpr_parentCastId :: "CastId option"
  cpr_parentUrl :: "js_string option"
  cpr_pageSize :: "nat option"
  cpr_pageToken :: "bytes option"
  cpr_reverse :: "bool option"

record ReactionRequest =
  rr_fid :: number
  rr_reactionType :: int
  rr_targetCastId :: "CastId option"
  rr_targetUrl :: "js_string option"

record ReactionsByFidRequest =
  rfr_fid :: number
  rfr_reactionType :: "int option"
  rfr_pageSize :: "nat option"
  rfr_pageToken :: "bytes option"
  rfr_reverse :: "bool option"

record ReactionsByTargetRequest =
  rtr_targetCastId :: "CastId option"
  rtr_targetUrl :: "js_string option"
  rtr_reactionType :: "int option"
  rtr_pageSize :: "nat option"
  rtr_pageToken :: "bytes option"
  rtr_reverse :: "bool option"

record UserDataRequest =
  udr_fid :: number
  udr_userDataType :: int

record OnChainEventRequest =
  ocr_fid :: number
  ocr_eventType :: int
  ocr_pageSize :: "nat option"
  ocr_pageToken :: "bytes option"
  ocr_reverse :: "bool option"

record VerificationRequest =
  vr_fid :: number
  vr_address :: bytes

record SignerRequest =
  sgr_fid :: number
  sgr_signer :: bytes

record LinkRequest =
  lkr_fid :: number
  lkr_linkType :: js_string
  lkr_targetFid :: "number option"

record LinksByFidRequest =
  lfr_fid :: number
  lfr_linkType :: "js_string option"
  lfr_pageSize :: "nat option"
  lfr_pageToken :: "bytes option"
  lfr_reverse :: "bool option"

record LinksByTargetRequest =
  ltr_targetFid :: "number option"
  ltr_linkType :: "js_string option"
  ltr_pageSize :: "nat option"
  ltr_pageToken :: "bytes option"
  ltr_reverse :: "bool option"

section \<open>Casts, reactions and verifications\<close>

definition rpc_getCast :: "'l engine_env \<Rightarrow> CastId \<Rightarrow> 'l engine \<Rightarrow> (Message, 'l engine) rpc_result" where
  "rpc_getCast E request en =
     replied (Engine_getCast E (castid_fid request) (case castid_hash request of Some h \<Rightarrow> h | None \<Rightarrow> []) en)"

definition rpc_getCastsByFid :: "'l engine_env \<Rightarrow> FidRequest \<Rightarrow> 'l engine \<Rightarrow> (MessagesResponse, 'l engine) rpc_result" where
  "rpc_getCastsByFid E request en = page_replied (Engine_getCastsByFid E (fidr_fid request) (fid_paging request) en)"

text \<open>\<^verbatim>\<open>castId ?? url ?? ""\<close>\<close>

definition target_or_url :: "CastId option \<Rightarrow> js_string option \<Rightarrow> cast_target" where
  "target_or_url castId url =
     (case castId of
        Some c \<Rightarrow> TargetCast c
      | None \<Rightarrow> TargetUrl (case url of Some u \<Rightarrow> u | None \<Rightarrow> []))"

definition rpc_getCastsByParent ::
  "'l engine_env \<Rightarrow> CastsByParentRequest \<Rightarrow> 'l engine \<Rightarrow> (MessagesResponse, 'l engine) rpc_result" where
  "rpc_getCastsByParent E request en =
     (if cpr_parentCastId request = None \<and> (cpr_parentUrl request = None \<or> cpr_parentUrl request = Some [])
      then replied (settled (fail InvalidParam ''Parent cast identifier must be provided'') en)
      else
        page_replied (Engine_getCastsByParent E (target_or_url (cpr_parentCastId request) (cpr_parentUrl request))
          (paging (cpr_pageSize request) (cpr_pageToken request) (cpr_reverse request)) en))"

definition rpc_getCastsByMention ::
  "'l engine_env \<Rightarrow> FidRequest \<Rightarrow> 'l engine \<Rightarrow> (MessagesResponse, 'l engine) rpc_result" where
  "rpc_getCastsByMention E request en =
     page_replied (Engine_getCastsByMention E (fidr_fid request) (fid_paging request) en)"

definition rpc_getReaction :: "'l engine_env \<Rightarrow> ReactionRequest \<Rightarrow> 'l engine \<Rightarrow> (Message, 'l engine) rpc_result" where
  "rpc_getReaction E request en =
     replied (Engine_getReaction E (rr_fid request) (rr_reactionType request)
       (target_or_url (rr_targetCastId request) (rr_targetUrl request)) en)"

definition rpc_getReactionsByFid ::
  "'l engine_env \<Rightarrow> ReactionsByFidRequest \<Rightarrow> 'l engine \<Rightarrow> (MessagesResponse, 'l engine) rpc_result" where
  "rpc_getReactionsByFid E request en =
     page_replied (Engine_getReactionsByFid E (rfr_fid request) (rfr_reactionType request)
       (paging (rfr_pageSize request) (rfr_pageToken request) (rfr_reverse request)) en)"

definition rpc_getReactionsByCast ::
  "'l engine_env \<Rightarrow> ReactionsByTargetRequest \<Rightarrow> 'l engine \<Rightarrow> (MessagesResponse, 'l engine) rpc_result" where
  "rpc_getReactionsByCast E request en =
     page_replied (Engine_getReactionsByTarget E
       (TargetCast (case rtr_targetCastId request of Some c \<Rightarrow> c | None \<Rightarrow> \<lparr>castid_fid = numI 0, castid_hash = Some []\<rparr>))
       (rtr_reactionType request) (paging (rtr_pageSize request) (rtr_pageToken request) (rtr_reverse request)) en)"

definition rpc_getReactionsByTarget ::
  "'l engine_env \<Rightarrow> ReactionsByTargetRequest \<Rightarrow> 'l engine \<Rightarrow> (MessagesResponse, 'l engine) rpc_result" where
  "rpc_getReactionsByTarget E request en =
     page_replied (Engine_getReactionsByTarget E (target_or_url (rtr_targetCastId request) (rtr_targetUrl request))
       (rtr_reactionType request) (paging (rtr_pageSize request) (rtr_pageToken request) (rtr_reverse request)) en)"

definition rpc_getVerification ::
  "'l engine_env \<Rightarrow> VerificationRequest \<Rightarrow> 'l engine \<Rightarrow> (Message, 'l engine) rpc_result" where
  "rpc_getVerification E request en = replied (Engine_getVerification E (vr_fid request) (vr_address request) en)"

definition rpc_getVerificationsByFid ::
  "'l engine_env \<Rightarrow> FidRequest \<Rightarrow> 'l engine \<Rightarrow> (MessagesResponse, 'l engine) rpc_result" where
  "rpc_getVerificationsByFid E request en =
     page_replied (Engine_getVerificationsByFid E (fidr_fid request) (fid_paging request) en)"

section \<open>Users, names, links and on-chain events\<close>

definition rpc_getUserData :: "'l engine_env \<Rightarrow> UserDataRequest \<Rightarrow> 'l engine \<Rightarrow> (Message, 'l engine) rpc_result" where
  "rpc_getUserData E request en = replied (Engine_getUserData E (udr_fid request) (udr_userDataType request) en)"

definition rpc_getUserDataByFid ::
  "'l engine_env \<Rightarrow> FidRequest \<Rightarrow> 'l engine \<Rightarrow> (MessagesResponse, 'l engine) rpc_result" where
  "rpc_getUserDataByFid E request en =
     page_replied (Engine_getUserDataByFid E (fidr_fid request) (fid_paging request) None None en)"

definition rpc_getUserNameProofsByFid ::
  "'l engine_env \<Rightarrow> FidRequest \<Rightarrow> 'l engine \<Rightarrow> (UserNameProof option list, 'l engine) rpc_result" where
  "rpc_getUserNameProofsByFid E request en = replied (Engine_getUserNameProofsByFid E (fidr_fid request) en)"

definition rpc_getOnChainSigner ::
  "'l engine_env \<Rightarrow> SignerRequest \<Rightarrow> 'l engine \<Rightarrow> (OnChainEvent, 'l engine) rpc_result" where
  "rpc_getOnChainSigner E request en = replied (Engine_getActiveSigner E (sgr_fid request) (sgr_signer request) en)"

definition rpc_getOnChainSignersByFid ::
  "'l engine_env \<Rightarrow> FidRequest \<Rightarrow> 'l engine \<Rightarrow> (OnChainEvent list \<times> bytes option, 'l engine) rpc_result" where
  "rpc_getOnChainSignersByFid E request en =
     replied (Engine_getOnChainSignersByFid E (fidr_fid request) (fid_paging request) en)"

text \<open>The page size, token and direction of the request are not looked at.\<close>

definition rpc_getOnChainEvents ::
  "'l engine_env \<Rightarrow> OnChainEventRequest \<Rightarrow> 'l engine \<Rightarrow> (OnChainEvent list, 'l engine) rpc_result" where
  "rpc_getOnChainEvents E request en = replied (Engine_getOnChainEvents E (ocr_eventType request) (ocr_fid request) en)"

definition fid_or_zero :: "number option \<Rightarrow> number" where
  "fid_or_zero fid = (case fid of Some f \<Rightarrow> f | None \<Rightarrow> numI 0)"

definition rpc_getLink :: "'l engine_env \<Rightarrow> int \<Rightarrow> LinkRequest \<Rightarrow> 'l engine \<Rightarrow> (Message, 'l engine) rpc_result" where
  "rpc_getLink E now request en =
     replied (Engine_getLink E now (lkr_fid request) (lkr_linkType request) (fid_or_zero (lkr_targetFid request)) en)"

definition rpc_getLinksByFid ::
  "'l engine_env \<Rightarrow> int \<Rightarrow> LinksByFidRequest \<Rightarrow> 'l engine \<Rightarrow> (MessagesResponse, 'l engine) rpc_result" where
  "rpc_getLinksByFid E now request en =
     page_replied (Engine_getLinksByFid E now (lfr_fid request) (lfr_linkType request)
       (paging (lfr_pageSize request) (lfr_pageToken request) (lfr_reverse request)) en)"

definition rpc_getLinksByTarget ::
  "'l engine_env \<Rightarrow> int \<Rightarrow> LinksByTargetRequest \<Rightarrow> 'l engine \<Rightarrow> (MessagesResponse, 'l engine) rpc_result" where
  "rpc_getLinksByTarget E now request en =
     page_replied (Engine_getLinksByTarget E now (fid_or_zero (ltr_targetFid request)) (ltr_linkType request)
       (paging (ltr_pageSize request) (ltr_pageToken request) (ltr_reverse request)) en)"

definition rpc_getIdRegistryOnChainEvent ::
  "'l engine_env \<Rightarrow> FidRequest \<Rightarrow> 'l engine \<Rightarrow> (OnChainEvent, 'l engine) rpc_result" where
  "rpc_getIdRegistryOnChainEvent E request en = replied (Engine_getIdRegistryOnChainEvent E (fidr_fid request) en)"

definition rpc_getIdRegistryOnChainEventByAddress ::
  "'l engine_env \<Rightarrow> bytes \<Rightarrow> 'l engine \<Rightarrow> (OnChainEvent, 'l engine) rpc_result" where
  "rpc_getIdRegistryOnChainEventByAddress E address en = replied (Engine_getIdRegistryOnChainEventByAddress E address en)"

definition rpc_getCurrentStorageLimitsByFid ::
  "'l engine_env \<Rightarrow> int \<Rightarrow> FidRequest \<Rightarrow> 'l engine \<Rightarrow> (StorageLimitsResponse, 'l engine) rpc_result" where
  "rpc_getCurrentStorageLimitsByFid E now request en =
     replied (Engine_getCurrentStorageLimitsByFid E now (fidr_fid request) en)"

definition rpc_getFids ::
  "'l engine_env \<Rightarrow> FidsRequest \<Rightarrow> 'l engine \<Rightarrow> (number list \<times> bytes option, 'l engine) rpc_result" where
  "rpc_getFids E request en =
     replied (Engine_getFids E (paging (fidsr_pageSize request) (fidsr_pageToken request) (fidsr_reverse request)) en)"

definition rpc_getEvent :: "'l engine_env \<Rightarrow> int \<Rightarrow> 'l engine \<Rightarrow> (HubEvent, 'l engine) rpc_result" where
  "rpc_getEvent E eventId en = replied (Engine_getEvent E eventId en)"

text \<open>An engine that gives no proof and no error (\<^verbatim>\<open>undefined\<close>) is not answered: \<^verbatim>\<open>result?.match\<close> on a result is.\<close>

definition rpc_getUsernameProof ::
  "'l engine_env \<Rightarrow> int \<Rightarrow> bytes \<Rightarrow> 'l engine \<Rightarrow> (UserNameProof option, 'l engine) rpc_result" where
  "rpc_getUsernameProof E now name en = replied (Engine_getUserNameProof E now name 1 en)"

section \<open>All messages of a user\<close>

definition rpc_getAllCastMessagesByFid ::
  "'l engine_env \<Rightarrow> FidTimestampRequest \<Rightarrow> 'l engine \<Rightarrow> (MessagesResponse, 'l engine) rpc_result" where
  "rpc_getAllCastMessagesByFid E request en =
     page_replied (Engine_getAllCastMessagesByFid E (ftr_fid request) (time_paging request)
       (ftr_startTimestamp request) (ftr_stopTimestamp request) en)"

definition rpc_getAllReactionMessagesByFid ::
  "'l engine_env \<Rightarrow> FidTimestampRequest \<Rightarrow> 'l engine \<Rightarrow> (MessagesResponse, 'l engine) rpc_result" where
  "rpc_getAllReactionMessagesByFid E request en =
     page_replied (Engine_getAllReactionMessagesByFid E (ftr_fid request) (time_paging request)
       (ftr_startTimestamp request) (ftr_stopTimestamp request) en)"

definition rpc_getAllVerificationMessagesByFid ::
  "'l engine_env \<Rightarrow> FidTimestampRequest \<Rightarrow> 'l engine \<Rightarrow> (MessagesResponse, 'l engine) rpc_result" where
  "rpc_getAllVerificationMessagesByFid E request en =
     page_replied (Engine_getAllVerificationMessagesByFid E (ftr_fid request) (time_paging request)
       (ftr_startTimestamp request) (ftr_stopTimestamp request) en)"

definition rpc_getAllUserDataMessagesByFid ::
  "'l engine_env \<Rightarrow> FidTimestampRequest \<Rightarrow> 'l engine \<Rightarrow> (MessagesResponse, 'l engine) rpc_result" where
  "rpc_getAllUserDataMessagesByFid E request en =
     page_replied (Engine_getUserDataByFid E (ftr_fid request) (time_paging request)
       (ftr_startTimestamp request) (ftr_stopTimestamp request) en)"

definition rpc_getAllLinkMessagesByFid ::
  "'l engine_env \<Rightarrow> int \<Rightarrow> FidTimestampRequest \<Rightarrow> 'l engine \<Rightarrow> (MessagesResponse, 'l engine) rpc_result" where
  "rpc_getAllLinkMessagesByFid E now request en =
     page_replied (Engine_getAllLinkMessagesByFid E now (ftr_fid request) (time_paging request)
       (ftr_startTimestamp request) (ftr_stopTimestamp request) en)"

definition rpc_getLinkCompactStateMessageByFid ::
  "'l engine_env \<Rightarrow> int \<Rightarrow> FidRequest \<Rightarrow> 'l engine \<Rightarrow> (MessagesResponse, 'l engine) rpc_result" where
  "rpc_getLinkCompactStateMessageByFid E now request en =
     page_replied (Engine_getLinkCompactStateMessageByFid E now (fidr_fid request) (fid_paging request) en)"

text \<open>A stream for the same questions. The compact state of the links goes with the last page of the links; an
  error in reading it is left out.\<close>

datatype StreamFetchRequest =
    CastMessagesByFid FidTimestampRequest
  | LinkMessagesByFid FidTimestampRequest
  | ReactionMessagesByFid FidTimestampRequest
  | UserDataMessagesByFid FidTimestampRequest
  | VerificationMessagesByFid FidTimestampRequest

definition fetch_links :: "'l engine_env \<Rightarrow> int \<Rightarrow> FidTimestampRequest \<Rightarrow> 'l engine \<Rightarrow> (MessagesPage, 'l) engine_result" where
  "fetch_links E now r en =
     await (Engine_getAllLinkMessagesByFid E now (ftr_fid r) (time_paging r) (ftr_startTimestamp r) (ftr_stopTimestamp r) en)
       (\<lambda>page en.
         if page_nextPageToken page = None then
           await_result (Engine_getLinkCompactStateMessageByFid E now (ftr_fid r) no_page_options en) (\<lambda>additional en.
             settled (Ok (case additional of
                            Ok extra \<Rightarrow> page\<lparr>page_messages := page_messages page @ page_messages extra\<rparr>
                          | _ \<Rightarrow> page)) en)
         else settled (Ok page) en)"

definition rpc_streamFetch ::
  "'l engine_env \<Rightarrow> int \<Rightarrow> StreamFetchRequest \<Rightarrow> 'l engine \<Rightarrow> (MessagesResponse, 'l engine) rpc_result" where
  "rpc_streamFetch E now request en =
     (case request of
        CastMessagesByFid r \<Rightarrow> rpc_getAllCastMessagesByFid E r en
      | LinkMessagesByFid r \<Rightarrow> page_replied (fetch_links E now r en)
      | ReactionMessagesByFid r \<Rightarrow> rpc_getAllReactionMessagesByFid E r en
      | UserDataMessagesByFid r \<Rightarrow> rpc_getAllUserDataMessagesByFid E r en
      | VerificationMessagesByFid r \<Rightarrow> rpc_getAllVerificationMessagesByFid E r en)"

section \<open>Submitting messages\<close>

text \<open>The hub behind a server, as far as it submits and validates. Every call costs one point of the address.\<close>

record ('w, 'l) rpc_gate =
  rg_limits :: "'l limiter_lib"
  rg_base64_text :: "js_string \<Rightarrow> js_string"
  rg_users :: "(js_string \<times> js_string list) list"
  rg_submitMessage :: "Message \<Rightarrow> 'w \<Rightarrow> int outcome option \<times> 'w"
  rg_submitMessageBundle :: "int \<Rightarrow> message_bundle \<Rightarrow> 'w \<Rightarrow> int outcome list outcome option \<times> 'w"
  rg_validateMessage :: "Message \<Rightarrow> 'w \<Rightarrow> Message outcome option \<times> 'w"
  rg_blake3_20 :: "bytes \<Rightarrow> bytes"

definition admit_call ::
  "('w, 'l) rpc_gate \<Rightarrow> int \<Rightarrow> js_string \<Rightarrow> js_string list \<Rightarrow> 'l \<Rightarrow> unit outcome \<times> 'l" where
  "admit_call G now peer authorization l =
     (case rateLimitByIp (rg_limits G) now peer l of
        (Ok _, l) \<Rightarrow>
          (case authenticateUser (rg_base64_text G) authorization (rg_users G) of
             Ok _ \<Rightarrow> (Ok (), l)
           | Err e \<Rightarrow> (fail_js Unauthenticated (lit ''gRPC authentication failed: '' @ err_message e), l)
           | Throw t \<Rightarrow> (Throw t, l))
      | (Err e, l) \<Rightarrow> (fail Unavailable ''API rate limit exceeded'', l)
      | (Throw t, l) \<Rightarrow> (Throw t, l))"

definition rpc_submitMessage ::
  "('w, 'l) rpc_gate \<Rightarrow> int \<Rightarrow> js_string \<Rightarrow> js_string list \<Rightarrow> Message \<Rightarrow> 'w \<times> 'l \<Rightarrow> (Message, 'w \<times> 'l) rpc_result" where
  "rpc_submitMessage G now peer authorization message s =
     (case s of
        (w, l) \<Rightarrow>
          (case admit_call G now peer authorization l of
             (Ok _, l) \<Rightarrow>
               (case rg_submitMessage G message w of
                  (r, w) \<Rightarrow> replied (map_option (\<lambda>r. mapOk r (\<lambda>_. message)) r, (w, l)))
           | (Err e, l) \<Rightarrow> replied (settled (Err e) (w, l))
           | (Throw t, l) \<Rightarrow> replied (settled (Throw t) (w, l))))"

datatype BulkMessageResponse =
    BulkMessage "Message option"
  | BulkMessageError bytes hub_error_code js_string

text \<open>A result beyond the messages has no message.\<close>

definition bulk_response :: "Message option \<Rightarrow> int outcome \<Rightarrow> BulkMessageResponse outcome" where
  "bulk_response m r =
     (case r of
        Ok _ \<Rightarrow> Ok (BulkMessage m)
      | Err e \<Rightarrow>
          Ok (BulkMessageError (case Option.bind m msg_hash of Some h \<Rightarrow> h | None \<Rightarrow> []) (errCode e) (err_message e))
      | Throw t \<Rightarrow> Throw t)"

fun bulk_responses :: "Message list \<Rightarrow> int outcome list \<Rightarrow> BulkMessageResponse list outcome" where
  "bulk_responses ms [] = Ok []"
| "bulk_responses ms (r # rs) =
     andThen (bulk_response (case ms of [] \<Rightarrow> None | m # _ \<Rightarrow> Some m) r) (\<lambda>x. mapOk (bulk_responses (tl ms) rs) ((#) x))"

definition bundle_hash :: "(bytes \<Rightarrow> bytes) \<Rightarrow> Message list \<Rightarrow> bytes" where
  "bundle_hash blake3 ms = blake3 (concat (map (\<lambda>m. case msg_hash m of Some h \<Rightarrow> h | None \<Rightarrow> []) ms))"

definition rpc_submitBulkMessages ::
  "('w, 'l) rpc_gate \<Rightarrow> int \<Rightarrow> js_string \<Rightarrow> js_string list \<Rightarrow> Message list \<Rightarrow> 'w \<times> 'l \<Rightarrow>
   (BulkMessageResponse list, 'w \<times> 'l) rpc_result" where
  "rpc_submitBulkMessages G now peer authorization messages s =
     (case s of
        (w, l) \<Rightarrow>
          (case admit_call G now peer authorization l of
             (Ok _, l) \<Rightarrow>
               if length messages > MAX_BUNDLE_SIZE
               then replied (settled (fail ValidationFailure ''Too many messages. Max is 256'') (w, l))
               else
                 replied
                   (await (settled (getFarcasterTime now) (w, l)) (\<lambda>submissionTime (w, l).
                      case rg_submitMessageBundle G submissionTime
                             \<lparr>mb_messages = messages, mb_hash = bundle_hash (rg_blake3_20 G) messages\<rparr> w of
                        (None, w) \<Rightarrow> (None, (w, l))
                      | (Some (Ok rs), w) \<Rightarrow>
                          settled (bulk_responses messages rs) (w, l)
                      | (Some (Err e), w) \<Rightarrow> settled (Err e) (w, l)
                      | (Some (Throw t), w) \<Rightarrow> settled (Throw t) (w, l)))
           | (Err e, l) \<Rightarrow> replied (settled (Err e) (w, l))
           | (Throw t, l) \<Rightarrow> replied (settled (Throw t) (w, l))))"

definition rpc_validateMessage ::
  "('w, 'l) rpc_gate \<Rightarrow> Message \<Rightarrow> 'w \<Rightarrow> (bool \<times> Message, 'w) rpc_result" where
  "rpc_validateMessage G message w =
     (case rg_validateMessage G message w of (r, w) \<Rightarrow> replied (map_option (\<lambda>r. mapOk r (Pair True)) r, w))"

section \<open>The trie of sync ids\<close>

record 'w rpc_server =
  sv_syncEngine :: "'w sync_engine option"
  sv_incomingConnections :: nat

text \<open>\<open>none\<close> is what comes out when there is no sync engine.\<close>

definition with_sync ::
  "'a outcome \<Rightarrow> ('w sync_engine \<Rightarrow> ('a, 'w) sync_result) \<Rightarrow> 'w rpc_server \<Rightarrow> 'a outcome option \<times> 'w rpc_server" where
  "with_sync none f sv =
     (case sv_syncEngine sv of
        None \<Rightarrow> settled none sv
      | Some st \<Rightarrow> (case f st of (r, st) \<Rightarrow> (r, sv\<lparr>sv_syncEngine := Some st\<rparr>)))"

definition toTrieNodeMetadataResponse :: "NodeMetadata option \<Rightarrow> TrieNodeMetadataResponse" where
  "toTrieNodeMetadataResponse metadata =
     (case metadata of
        None \<Rightarrow> TrieNodeMetadataResponse [] 0 [] []
      | Some m \<Rightarrow>
          TrieNodeMetadataResponse (nm_prefix m) (nm_numMessages m) (nm_hash m)
            (map (\<lambda>(c, child). TrieNodeMetadataResponse (nm_prefix child) (nm_numMessages child) (nm_hash child) [])
              (nm_children m)))"

definition rpc_getAllSyncIdsByPrefix ::
  "'w sync_env \<Rightarrow> bytes \<Rightarrow> 'w rpc_server \<Rightarrow> (bytes list, 'w rpc_server) rpc_result" where
  "rpc_getAllSyncIdsByPrefix E pre sv =
     replied (with_sync (Ok []) (on_trie (rsMerkleTrieGetAllValues (sn_depth E) (sn_coder E) pre)) sv)"

definition MAX_VALUES_RETURNED_PER_SYNC_ID_REQUEST :: nat where
  "MAX_VALUES_RETURNED_PER_SYNC_ID_REQUEST = 1024"

text \<open>Ids that are not in the database are taken out of the trie; the source does not wait for that.\<close>

definition serve_messages :: "'w sync_env \<Rightarrow> bytes list \<Rightarrow> 'w sync_engine \<Rightarrow> (Message list, 'w) sync_result" where
  "serve_messages E syncIds st =
     await (settled (sync_getAllMessagesBySyncIds (sn_proto E) (hi_db (sn_hub E) (sy_hub st)) syncIds) st) (\<lambda>messages st.
       let corrupted = findCorruptedSyncIDs messages syncIds
       in if length corrupted > 0
          then settled (Ok (filter (\<lambda>m. \<not> blank_message m) messages)) (revokeSyncIds (sn_coder E) corrupted st)
          else settled (Ok messages) st)"

definition server_getAllMessagesBySyncIds ::
  "'w sync_env \<Rightarrow> bytes list \<Rightarrow> 'w rpc_server \<Rightarrow> Message list outcome option \<times> 'w rpc_server" where
  "server_getAllMessagesBySyncIds E syncIds sv =
     (if length syncIds > MAX_VALUES_RETURNED_PER_SYNC_ID_REQUEST
      then settled (fail ValidationFailure ''Too many sync ids provided'') sv
      else with_sync (fail Unavailable ''no messages available'') (serve_messages E syncIds) sv)"

definition rpc_getAllMessagesBySyncIds ::
  "'w sync_env \<Rightarrow> bytes list \<Rightarrow> 'w rpc_server \<Rightarrow> (Message list, 'w rpc_server) rpc_result" where
  "rpc_getAllMessagesBySyncIds E syncIds sv = replied (server_getAllMessagesBySyncIds E syncIds sv)"

definition rpc_getSyncMetadataByPrefix ::
  "'w sync_env \<Rightarrow> bytes \<Rightarrow> 'w rpc_server \<Rightarrow> (TrieNodeMetadataResponse, 'w rpc_server) rpc_result" where
  "rpc_getSyncMetadataByPrefix E pre sv =
     replied (await (with_sync (Ok None) (\<lambda>st. settled (our_metadata E pre st) st) sv) (\<lambda>metadata sv.
       settled (Ok (toTrieNodeMetadataResponse metadata)) sv))"

record TrieNodeSnapshotResponse =
  tns_prefix :: bytes
  tns_excludedHashes :: "js_string list"
  tns_numMessages :: nat
  tns_rootHash :: js_string

definition server_getSyncSnapshotByPrefix ::
  "'w sync_env \<Rightarrow> bytes \<Rightarrow> 'w rpc_server \<Rightarrow> TrieNodeSnapshotResponse outcome option \<times> 'w rpc_server" where
  "server_getSyncSnapshotByPrefix E pre sv =
     await (with_sync (Ok []) (on_trie rsMerkleTrieRootHash) sv) (\<lambda>rootHash sv.
     await (with_sync (fail Unavailable ''no snapshot available'')
              (\<lambda>st. case sync_getSnapshotByPrefix (sn_coder E) (sn_now E) (Some pre) (sy_trie st) of
                      (r, t) \<Rightarrow> (Some r, st\<lparr>sy_trie := t\<rparr>)) sv) (\<lambda>snapshot sv.
       settled (Ok \<lparr>tns_prefix = ts_prefix snapshot, tns_excludedHashes = ts_excludedHashes snapshot,
                    tns_numMessages = ts_numMessages snapshot, tns_rootHash = rootHash\<rparr>) sv))"

definition rpc_getSyncSnapshotByPrefix ::
  "'w sync_env \<Rightarrow> bytes \<Rightarrow> 'w rpc_server \<Rightarrow> (TrieNodeSnapshotResponse, 'w rpc_server) rpc_result" where
  "rpc_getSyncSnapshotByPrefix E pre sv =
     replied (server_getSyncSnapshotByPrefix E pre (sv\<lparr>sv_incomingConnections := sv_incomingConnections sv + 1\<rparr>))"

definition hasInboundConnections :: "'w rpc_server \<Rightarrow> bool" where
  "hasInboundConnections sv \<longleftrightarrow> sv_incomingConnections sv > 0"

section \<open>The sync engine\<close>

record PeerSyncStatus =
  pss_peerId :: js_string
  pss_inSync :: in_sync
  pss_shouldSync :: bool
  pss_lastBadSync :: int
  pss_ourMessages :: nat
  pss_theirMessages :: nat
  pss_score :: int

record SyncStatusResponse =
  ssr_isSyncing :: bool
  ssr_engineStarted :: bool
  ssr_syncStatus :: "PeerSyncStatus list"

definition peer_sync_status :: "js_string \<Rightarrow> SyncStatus \<Rightarrow> PeerSyncStatus" where
  "peer_sync_status peerId status =
     \<lparr>pss_peerId = peerId, pss_inSync = ss_inSync status, pss_shouldSync = ss_shouldSync status,
      pss_lastBadSync = ss_lastBadSync status, pss_ourMessages = ts_numMessages (ss_ourSnapshot status),
      pss_theirMessages = ts_numMessages (ss_theirSnapshot status), pss_score = ss_score status\<rparr>"

definition server_syncing :: "'w rpc_server \<Rightarrow> bool" where
  "server_syncing sv = (case sv_syncEngine sv of Some st \<Rightarrow> cs_isSyncing (sy_cur st) | None \<Rightarrow> False)"

definition server_started :: "'w rpc_server \<Rightarrow> bool" where
  "server_started sv = (case sv_syncEngine sv of Some st \<Rightarrow> sy_started st | None \<Rightarrow> False)"

text \<open>Waiting for a sync to end is left to \<open>ended\<close>: whether it did so within the timeout, and the state then.\<close>

definition engine_stopSync ::
  "('w sync_engine \<Rightarrow> bool \<times> 'w sync_engine) \<Rightarrow> 'w sync_engine \<Rightarrow> bool \<times> 'w sync_engine" where
  "engine_stopSync ended st =
     (if \<not> cs_isSyncing (sy_cur st) then (True, st) else ended (on_cur (\<lambda>c. c\<lparr>cs_interruptSync := True\<rparr>) st))"

definition rpc_stopSync ::
  "('w sync_engine \<Rightarrow> bool \<times> 'w sync_engine) \<Rightarrow> 'w rpc_server \<Rightarrow> (SyncStatusResponse, 'w rpc_server) rpc_result" where
  "rpc_stopSync ended sv =
     replied (await (with_sync (Ok False) (\<lambda>st. case engine_stopSync ended st of (b, st) \<Rightarrow> settled (Ok b) st) sv) (\<lambda>result sv.
       if \<not> result then settled (fail BadRequest ''Stop sync timed out'') sv
       else settled (Ok \<lparr>ssr_isSyncing = server_syncing sv, ssr_engineStarted = server_started sv, ssr_syncStatus = []\<rparr>) sv))"

definition rpc_forceSync ::
  "nat \<Rightarrow> 'w sync_env \<Rightarrow> js_string option \<Rightarrow> 'w rpc_server \<Rightarrow> (SyncStatusResponse, 'w rpc_server) rpc_result" where
  "rpc_forceSync fuel E peerId sv =
     (case peerId of
        None \<Rightarrow> replied (settled (fail BadRequest ''peerId is required'') sv)
      | Some p \<Rightarrow>
          if p = [] then replied (settled (fail BadRequest ''peerId is required'') sv)
          else
            replied
              (await (with_sync (fail BadRequest ''sync engine not available'') (forceSyncWithPeer fuel E p) sv) (\<lambda>status sv.
                 settled (Ok \<lparr>ssr_isSyncing = server_syncing sv, ssr_engineStarted = server_started sv,
                              ssr_syncStatus = [peer_sync_status p status]\<rparr>) sv)))"

definition rpc_getCurrentPeers :: "int \<Rightarrow> 'w rpc_server \<Rightarrow> (ContactInfoContentBody list, 'w rpc_server) rpc_result" where
  "rpc_getCurrentPeers now sv =
     replied (with_sync (Ok [])
       (\<lambda>st. case getCurrentHubPeerContacts now st of (contacts, st) \<Rightarrow> settled (Ok (map snd contacts)) st) sv)"

text \<open>The peers are asked one after the other here; errors are left out of the answer.\<close>

fun check_peers ::
  "'w sync_env \<Rightarrow> js_string list \<Rightarrow> SyncStatusResponse \<Rightarrow> 'w sync_engine \<Rightarrow> (SyncStatusResponse, 'w) sync_result" where
  "check_peers E [] response st = settled (Ok response) st"
| "check_peers E (p # ps) response st =
     await_result (getSyncStatusForPeer E p st) (\<lambda>r st.
       check_peers E ps
         (case r of
            Ok status \<Rightarrow>
              response\<lparr>ssr_isSyncing := ss_isSyncing status,
                       ssr_syncStatus := ssr_syncStatus response @ [peer_sync_status p status]\<rparr>
          | _ \<Rightarrow> response) st)"

definition rpc_getSyncStatus ::
  "'w sync_env \<Rightarrow> js_string list \<Rightarrow> js_string option \<Rightarrow> 'w rpc_server \<Rightarrow> (SyncStatusResponse, 'w rpc_server) rpc_result" where
  "rpc_getSyncStatus E allPeerIds peerId sv =
     (let peersToCheck = (case peerId of Some p \<Rightarrow> if p \<noteq> [] then [p] else take 20 allPeerIds | None \<Rightarrow> take 20 allPeerIds) in
      replied (with_sync (fail_js BadRequest (lit ''Hub isn'' @ [39] @ lit ''t initialized''))
        (\<lambda>st. check_peers E peersToCheck
                \<lparr>ssr_isSyncing = False, ssr_engineStarted = sy_started st, ssr_syncStatus = []\<rparr> st) sv))"

text \<open>The size of the database is what the library estimates.\<close>

record sync_db_stats =
  sds_approxSize :: int
  sds_numItems :: nat
  sds_numFids :: int
  sds_numFnames :: int

definition getDbStats :: "(rocksdb \<Rightarrow> int) \<Rightarrow> 'w sync_env \<Rightarrow> 'w sync_engine \<Rightarrow> (sync_db_stats, 'w) sync_result" where
  "getDbStats approximateSize E st =
     await (on_trie rsMerkleTrieItems st) (\<lambda>numItems st.
       settled (Ok \<lparr>sds_approxSize = approximateSize (hi_db (sn_hub E) (sy_hub st)), sds_numItems = numItems,
                    sds_numFids = sr_numFids (sy_trie st), sds_numFnames = sr_numFnames (sy_trie st)\<rparr>) st)"

record HubInfoResponse =
  hir_isSyncing :: bool
  hir_rootHash :: js_string
  hir_dbStats :: "sync_db_stats option"

text \<open>The version, the nickname, the peer id and the operator's fid are constants of the hub.\<close>

definition rpc_getInfo ::
  "(rocksdb \<Rightarrow> int) \<Rightarrow> 'w sync_env \<Rightarrow> bool \<Rightarrow> 'w rpc_server \<Rightarrow> (HubInfoResponse, 'w rpc_server) rpc_result" where
  "rpc_getInfo approximateSize E dbStats sv =
     replied
       (let isSyncing = server_syncing sv in
        await (with_sync (Ok []) (on_trie rsMerkleTrieRootHash) sv) (\<lambda>rootHash sv.
        await (if dbStats
               then with_sync (Ok None)
                 (\<lambda>st. await (getDbStats approximateSize E st) (\<lambda>stats st. settled (Ok (Some stats)) st)) sv
               else settled (Ok None) sv) (\<lambda>stats sv.
          settled (Ok \<lparr>hir_isSyncing = isSyncing, hir_rootHash = rootHash, hir_dbStats = stats\<rparr>) sv)))"

end
