(* ===== verification/ServerFacts.thy ===== *)
theory ServerFacts
  imports RpcServer SyncFacts SyncQueue
begin

text \<open>
  What the server of a hub answers to the hubs that sync with it: the metadata, the ids and the snapshot are those of the
  set of ids that its trie holds, as the other hub reads them; the messages are those that it has stored.
\<close>

section \<open>Metadata over the wire\<close>

lemma update_children:
  assumes "distinct (map fst (acc @ xs))" "\<forall>(c, n) \<in> set xs. nm_prefix n = q @ [c] \<and> nm_children n = []"
  shows "fold (\<lambda>child children.
      if tm_prefix child \<noteq> []
      then AList.update (last (tm_prefix child)) (NodeMetadata (tm_prefix child) (tm_numMessages child) (tm_hash child) []) children
      else children)
     (map (\<lambda>(c, child). TrieNodeMetadataResponse (nm_prefix child) (nm_numMessages child) (nm_hash child) []) xs) acc = acc @ xs"
  using assms
proof (induction xs arbitrary: acc)
  case (Cons x xs)
  obtain c n where x: "x = (c, n)" by fastforce
  with Cons.prems have n: "nm_prefix n = q @ [c]" "nm_children n = []" and c: "c \<notin> set (map fst acc)" by auto
  have "AList.update c n acc = acc @ [(c, n)]" using c by (induction acc) auto
  moreover have "NodeMetadata (q @ [c]) (nm_numMessages n) (nm_hash n) [] = n" using n by (cases n) simp
  ultimately show ?case using Cons.IH[of "acc @ [(c, n)]"] Cons.prems x n by simp
qed simp

lemma metadata_round_trip:
  assumes "set_metadata E K q m"
  shows "fromNodeMetadataResponse (toTrieNodeMetadataResponse (Some m)) = m"
proof -
  have "distinct (map fst ([] @ nm_children m))" using assms by (simp add: set_metadata_def)
  moreover have "\<forall>(c, n) \<in> set (nm_children m). nm_prefix n = q @ [c] \<and> nm_children n = []"
    using assms by (auto simp: set_metadata_def)
  ultimately have "fold (\<lambda>child children.
      if tm_prefix child \<noteq> []
      then AList.update (last (tm_prefix child)) (NodeMetadata (tm_prefix child) (tm_numMessages child) (tm_hash child) []) children
      else children)
     (map (\<lambda>(c, child). TrieNodeMetadataResponse (nm_prefix child) (nm_numMessages child) (nm_hash child) []) (nm_children m)) [] =
     nm_children m"
    using update_children[of "[]" "nm_children m" q] by simp
  then show ?thesis
    by (cases m) (simp add: fromNodeMetadataResponse_def toTrieNodeMetadataResponse_def)
qed

section \<open>The answers about the trie\<close>

definition server_holds :: "'w sync_env \<Rightarrow> bytes set \<Rightarrow> 'w rpc_server \<Rightarrow> bool" where
  "server_holds E K sv \<longleftrightarrow>
     (\<exists>st. sv_syncEngine sv = Some st \<and> holds_ids (sn_coder E) K (sr_trie (sy_trie st)))"

text \<open>Who asks for a node gets it, and what the ids below it hash to.\<close>

lemma metadata_answer:
  assumes "server_holds E K sv" "node_at K [] q"
  shows "\<exists>response m. rpc_getSyncMetadataByPrefix E q sv = (Some (Answered response), sv) \<and>
     fromNodeMetadataResponse response = m \<and> set_metadata (sn_coder E) K q m"
proof -
  obtain st where st: "sv_syncEngine sv = Some st" "holds_ids (sn_coder E) K (sr_trie (sy_trie st))"
    using assms(1) by (auto simp: server_holds_def)
  obtain m where m: "our_metadata E q st = Ok (Some m)" "set_metadata (sn_coder E) K q m"
    using metadata_ok[OF st(2) assms(2)] by (auto simp: our_metadata_def)
  have "sv\<lparr>sv_syncEngine := Some st\<rparr> = sv" using st(1) by (cases sv) simp
  then show ?thesis
    using st m metadata_round_trip[OF m(2)]
    by (simp add: rpc_getSyncMetadataByPrefix_def with_sync_def settled_def replied_def rpc_callback_def)
qed

lemma ids_answer:
  assumes "server_holds E K sv" "node_at K [] q" "\<forall>k \<in> K. length k < length q + sn_depth E"
  shows "\<exists>ids sv'. rpc_getAllSyncIdsByPrefix E q sv = (Some (Answered ids), sv') \<and>
     first_ids ids (sorted_list_of_set (sub K q)) \<and> server_holds E K sv'"
proof -
  obtain st where st: "sv_syncEngine sv = Some st" "holds_ids (sn_coder E) K (sr_trie (sy_trie st))"
    using assms(1) by (auto simp: server_holds_def)
  have "K \<noteq> {}" using assms(2) by (auto simp: node_at_def sub_def)
  from get_all_values_ok[OF st(2) this assms(3)] assms(2) obtain vs mt' where
    "rsMerkleTrieGetAllValues (sn_depth E) (sn_coder E) q (sr_trie (sy_trie st)) = (Ok vs, mt')"
    "first_ids vs (sorted_list_of_set (sub K q))" "holds_ids (sn_coder E) K mt'" by auto
  then show ?thesis
    using st(1) by (simp add: rpc_getAllSyncIdsByPrefix_def with_sync_def on_trie_def replied_def rpc_callback_def server_holds_def)
qed

text \<open>The snapshot of the answer is a snapshot of the trie; its root hash is that of the trie.\<close>

lemma root_hash_answer:
  assumes "holds_ids C K mt" "K \<noteq> {}"
  shows "rsMerkleTrieRootHash mt = (Ok (buffer_hex (key_hash C [] K)), mt)"
proof -
  obtain n where n: "mt_root mt = Some n" "\<not> mt_poisoned mt" using assms(1) by (auto simp: holds_ids_def)
  then have "snd (rsMerkleTrieRootHash mt) = mt"
    by (cases mt) (simp add: rsMerkleTrieRootHash_def MerkleTrie_root_hash_def read_trie_def with_root_def)
  with root_hash_of_held[OF assms] show ?thesis by (metis prod.collapse)
qed

lemma snapshot_answer:
  assumes "server_holds E K sv" "K \<noteq> {}" "pre \<noteq> []" "snapshot_of (sn_coder E) K [] pre = (hs, m, q)"
  shows "\<exists>sv'. rpc_getSyncSnapshotByPrefix E pre sv =
      (Some (Answered \<lparr>tns_prefix = q, tns_excludedHashes = map buffer_hex hs, tns_numMessages = m,
                       tns_rootHash = buffer_hex (key_hash (sn_coder E) [] K)\<rparr>), sv') \<and>
     server_holds E K sv' \<and> hasInboundConnections sv'"
proof -
  obtain st where st: "sv_syncEngine sv = Some st" "holds_ids (sn_coder E) K (sr_trie (sy_trie st))"
    using assms(1) by (auto simp: server_holds_def)
  note r = root_hash_answer[OF st(2) assms(2)]
  obtain mt' where "rsMerkleTrieGetSnapshot (sn_coder E) pre (sr_trie (sy_trie st)) =
      (Ok \<lparr>ts_prefix = q, ts_excludedHashes = map buffer_hex hs, ts_numMessages = m\<rparr>, mt')" "holds_ids (sn_coder E) K mt'"
    using MerkleTrie_snapshot_ok[OF st(2) assms(2,4)] by blast
  then show ?thesis
    using st(1) r assms(3)
    by (simp add: rpc_getSyncSnapshotByPrefix_def server_getSyncSnapshotByPrefix_def with_sync_def on_trie_def replied_def
        rpc_callback_def sync_getSnapshotByPrefix_def on_sync_trie_def server_holds_def hasInboundConnections_def settled_def)
qed

section \<open>The messages of ids\<close>

text \<open>Messages that sync ids can be made of.\<close>

definition syncable :: "Message \<Rightarrow> bool" where
  "syncable m \<longleftrightarrow>
     (\<exists>d f h pfx. msg_data m = Some d \<and> md_fid d = numI f \<and> u32 f \<and> msg_hash m = Some h \<and> length h = HASH_LENGTH \<and>
        typeToSetPostfix (md_type d) = Ok pfx \<and> u32 (md_timestamp d))"

lemma syncable_id:
  assumes "syncable m"
  obtains i f pk h where "sync_fromMessage m = Ok i" "makeMessagePrimaryKeyFromMessage m = Ok pk"
    "sync_unpack i = Ok (MessageSyncId f pk h)" "\<not> blank_message m"
proof -
  obtain d f h pfx where m: "msg_data m = Some d" "md_fid d = numI f" "u32 f" "msg_hash m = Some h" "length h = HASH_LENGTH"
    "typeToSetPostfix (md_type d) = Ok pfx" "u32 (md_timestamp d)"
    using assms unfolding syncable_def by blast
  have "\<not> blank_message m" using m(1,4,5) by (auto simp: blank_message_def HASH_LENGTH_def)
  with unpack_message[OF m] that show ?thesis by blast
qed

definition id_of :: "Message \<Rightarrow> bytes" where
  "id_of m = (case sync_fromMessage m of Ok i \<Rightarrow> i | _ \<Rightarrow> [])"

definition message_key_of :: "Message \<Rightarrow> bytes" where
  "message_key_of m = (case makeMessagePrimaryKeyFromMessage m of Ok k \<Rightarrow> k | _ \<Rightarrow> [])"

lemma message_keys_of: "\<forall>m \<in> set ms. syncable m \<Longrightarrow> message_keys (map id_of ms) = Ok (map message_key_of ms)"
proof (induction ms)
  case (Cons m ms)
  obtain i f pk h where "sync_fromMessage m = Ok i" "makeMessagePrimaryKeyFromMessage m = Ok pk"
    "sync_unpack i = Ok (MessageSyncId f pk h)" using syncable_id Cons.prems by (metis list.set_intros(1))
  with Cons show ?case by (simp add: id_of_def message_key_of_def)
qed simp

definition in_store :: "proto_codec \<Rightarrow> rocksdb \<Rightarrow> Message \<Rightarrow> bool" where
  "in_store C db m \<longleftrightarrow> (\<exists>b. messageEncode C m = Ok b \<and> db_get (rdb_disk db) (message_key_of m) = Some b)"

text \<open>Every message is stored, or nothing is under its key.\<close>

definition stored_or_not :: "proto_codec \<Rightarrow> rocksdb \<Rightarrow> Message \<Rightarrow> bool" where
  "stored_or_not C db m \<longleftrightarrow>
     syncable m \<and> (storable C m \<and> in_store C db m \<or> db_get (rdb_disk db) (message_key_of m) = None)"

lemma looked_up:
  assumes "rdb_native_open db" "\<forall>m \<in> set ms. stored_or_not C db m" "decodeMessage C [] = Ok nothing" "\<not> has_dataBytes nothing"
  shows "sync_getAllMessagesBySyncIds C db (map id_of ms) = Ok (map (\<lambda>m. if in_store C db m then m else nothing) ms)"
proof -
  let ?read = "\<lambda>m. (let r = (case db_get (rdb_disk db) (message_key_of m) of Some v \<Rightarrow> v | None \<Rightarrow> [])
     in if r = [] then None else Some r)"
  have one: "messageDecode C (case ?read m of Some x \<Rightarrow> x | None \<Rightarrow> []) = Ok (if in_store C db m then m else nothing)"
    if "stored_or_not C db m" for m
  proof (cases "in_store C db m")
    case True
    then obtain b where b: "messageEncode C m = Ok b" "db_get (rdb_disk db) (message_key_of m) = Some b"
      by (auto simp: in_store_def)
    with that have "storable C m" by (auto simp: stored_or_not_def)
    with messageDecode_Encode b True show ?thesis by fastforce
  next
    case False
    with that have "db_get (rdb_disk db) (message_key_of m) = None" by (auto simp: stored_or_not_def)
    with False assms(3,4) show ?thesis by (simp add: messageDecode_def)
  qed
  have "message_keys (map id_of ms) = Ok (map message_key_of ms)"
    using assms(2) by (intro message_keys_of) (simp add: stored_or_not_def)
  moreover have "mapM (\<lambda>m. messageDecode C (case ?read m of Some x \<Rightarrow> x | None \<Rightarrow> [])) ms = Ok (map (\<lambda>m. if in_store C db m then m else nothing) ms)"
    using one assms(2) by (intro mapM_Ok_map) blast
  ultimately show ?thesis
    using assms(1)
    by (simp add: sync_getAllMessagesBySyncIds_def getManyMessages_def RocksDB_getMany_def rsDbGetMany_def when_open_def
        rethrow_def mapM_map comp_def)
qed

lemma corrupted_ids:
  assumes "blank_message nothing" "\<forall>m \<in> set ms. \<not> blank_message m"
  shows "findCorruptedSyncIDs (map (\<lambda>m. if P m then m else nothing) ms) (map g ms) = map g (filter (\<lambda>m. \<not> P m) ms)"
proof -
  have "concat (map (\<lambda>(i, m). if blank_message m \<and> i < length zs then [zs ! i] else [])
       (enumerate n (map (\<lambda>m. if P m then m else nothing) ms))) = map g (filter (\<lambda>m. \<not> P m) ms)"
    if "drop n zs = map g ms" for zs n
    using assms(2) that
  proof (induction ms arbitrary: n)
    case (Cons m ms)
    then have "n < length zs" "zs ! n = g m" "drop (Suc n) zs = map g ms"
      by (auto simp: drop_Suc tl_drop[symmetric] nth_via_drop intro: ccontr[of "n < length zs"])
    then show ?case using Cons.IH[of "Suc n"] Cons.prems(1) assms(1) by simp
  qed simp
  from this[of 0 "map g ms"] show ?thesis by (simp add: findCorruptedSyncIDs_def enumerate_eq_zip)
qed

text \<open>Who asks for the messages of ids gets those that are stored; the others are taken out of the trie.\<close>

lemma messages_answer:
  assumes "server_holds E K sv" "coder_ok (sn_coder E)" "K \<noteq> {}" "id_of ` set ms \<subseteq> K" "distinct (map id_of ms)"
    and "length ms \<le> MAX_VALUES_RETURNED_PER_SYNC_ID_REQUEST"
    and "db = hi_db (sn_hub E) (sy_hub (the (sv_syncEngine sv)))" "rdb_native_open db"
    and "\<forall>m \<in> set ms. stored_or_not (sn_proto E) db m"
    and "decodeMessage (sn_proto E) [] = Ok nothing" "\<not> has_dataBytes nothing" "blank_message nothing"
  shows "\<exists>sv'. rpc_getAllMessagesBySyncIds E (map id_of ms) sv =
      (Some (Answered (filter (in_store (sn_proto E) db) ms)), sv') \<and>
     server_holds E (K - id_of ` {m \<in> set ms. \<not> in_store (sn_proto E) db m}) sv'"
proof -
  let ?P = "in_store (sn_proto E) db"
  let ?lost = "map id_of (filter (\<lambda>m. \<not> ?P m) ms)"
  obtain st where st: "sv_syncEngine sv = Some st" "holds_ids (sn_coder E) K (sr_trie (sy_trie st))"
    using assms(1) by (auto simp: server_holds_def)
  have nb: "\<forall>m \<in> set ms. \<not> blank_message m" using assms(9) syncable_id by (metis stored_or_not_def)
  have look: "sync_getAllMessagesBySyncIds (sn_proto E) (hi_db (sn_hub E) (sy_hub st)) (map id_of ms) =
      Ok (map (\<lambda>m. if ?P m then m else nothing) ms)"
    using looked_up[OF assms(8-11)] assms(7) st(1) by simp
  have corrupted: "findCorruptedSyncIDs (map (\<lambda>m. if ?P m then m else nothing) ms) (map id_of ms) = ?lost"
    by (rule corrupted_ids[OF assms(12) nb])
  have found: "filter (\<lambda>m. \<not> blank_message m) (map (\<lambda>m. if ?P m then m else nothing) ms) = filter ?P ms"
    using nb assms(12) by (induction ms) auto
  have dist: "distinct ?lost" using assms(5) by (simp add: distinct_map_filter)
  have "K \<union> set ?lost = K" using assms(4) by auto
  then have ids: "sync_ids_ok (K \<union> set [] \<union> set ?lost)" using st(2) by (simp add: holds_ids_def)
  obtain mt' where mt': "rsMerkleTrieBatchUpdate (sn_coder E) [] ?lost (sr_trie (sy_trie st)) =
      (Ok (map (\<lambda>k. k \<in> K \<union> set []) ?lost), mt')" "holds_ids (sn_coder E) (K \<union> set [] - set ?lost) mt'"
    using batch_update_ok[OF st(2) assms(2) _ dist ids] by auto
  have rest: "K - set ?lost = K - id_of ` {m \<in> set ms. \<not> ?P m}" by auto
  show ?thesis
  proof (cases "?lost = []")
    case True
    then have all: "\<forall>m \<in> set ms. ?P m" by (simp add: filter_empty_conv)
    then have "map (\<lambda>m. if ?P m then m else nothing) ms = ms" "filter ?P ms = ms" by (simp_all add: map_idI)
    moreover have "K - id_of ` {m \<in> set ms. \<not> ?P m} = K" using all by blast
    ultimately show ?thesis
      unfolding server_holds_def using st assms(1,6) look corrupted True
      by (simp add: rpc_getAllMessagesBySyncIds_def server_getAllMessagesBySyncIds_def with_sync_def serve_messages_def
          replied_def rpc_callback_def settled_def server_holds_def)
  next
    case False
    then show ?thesis
      using st assms(6) look corrupted found mt' rest
      by (simp add: rpc_getAllMessagesBySyncIds_def server_getAllMessagesBySyncIds_def with_sync_def serve_messages_def
          replied_def rpc_callback_def settled_def server_holds_def revokeSyncIds_def delete_alone_now_def)
  qed
qed

text \<open>Who asks for an id of an event that is cut short gets no answer: the exception escapes from the handler.\<close>

lemma message_keys_range: "i \<in> set is \<Longrightarrow> sync_unpack i = Throw RangeError \<Longrightarrow> message_keys is = Throw RangeError"
proof (induction "is")
  case (Cons j js)
  from sync_unpack_ok_or_range[of j] Cons show ?case by (auto simp: ok_or_range_def)
qed simp

lemma malformed_unanswered:
  assumes "sv_syncEngine sv = Some st" "i \<in> set ids" "malformed_event_id i" "length ids \<le> MAX_VALUES_RETURNED_PER_SYNC_ID_REQUEST"
  shows "fst (rpc_getAllMessagesBySyncIds E ids sv) = Some (Unanswered RangeError)"
proof -
  have "message_keys ids = Throw RangeError"
    using message_keys_range[OF assms(2)] short_event_id assms(3) by (simp add: malformed_event_id_def)
  then show ?thesis
    using assms(1,4)
    by (simp add: rpc_getAllMessagesBySyncIds_def server_getAllMessagesBySyncIds_def with_sync_def serve_messages_def
        sync_getAllMessagesBySyncIds_def replied_def rpc_callback_def)
qed

section \<open>Calls that change the hub\<close>

lemma admit_needs_user:
  assumes "admit_call G now peer auth l = (Ok u, l')" "rg_users G \<noteq> []"
  shows "authenticateUser (rg_base64_text G) auth (rg_users G) = Ok True"
  using assms by (auto simp: admit_call_def fail_def fail_js_def authenticateUser_def split: prod.splits outcome.splits list.splits if_splits option.splits)

lemma refused_call:
  assumes "authenticateUser (rg_base64_text G) auth (rg_users G) \<noteq> Ok True" "rg_users G \<noteq> []"
  shows "\<nexists>x. fst (rpc_submitMessage G now peer auth m (w, l)) = Some (Answered x)"
    "fst (snd (rpc_submitMessage G now peer auth m (w, l))) = w"
    "\<nexists>x. fst (rpc_submitBulkMessages G now peer auth ms (w, l)) = Some (Answered x)"
    "fst (snd (rpc_submitBulkMessages G now peer auth ms (w, l))) = w"
proof -
  obtain r l' where r: "admit_call G now peer auth l = (r, l')" by fastforce
  with admit_needs_user[of G now peer auth l] assms have "\<not> (\<exists>u. r = Ok u)" by blast
  then have "(\<exists>e. r = Err e) \<or> (\<exists>t. r = Throw t)" by (cases r) auto
  then show "\<nexists>x. fst (rpc_submitMessage G now peer auth m (w, l)) = Some (Answered x)"
    "fst (snd (rpc_submitMessage G now peer auth m (w, l))) = w"
    "\<nexists>x. fst (rpc_submitBulkMessages G now peer auth ms (w, l)) = Some (Answered x)"
    "fst (snd (rpc_submitBulkMessages G now peer auth ms (w, l))) = w"
    using r by (auto simp: rpc_submitMessage_def rpc_submitBulkMessages_def replied_def rpc_callback_def settled_def)
qed

end
