(* ===== verification/Subscribe.thy ===== *)
theory Subscribe
  imports StoreEventHandler NetworkTools JumpHash Claims
begin

text \<open>
  The stream of events of a hub (\<^verbatim>\<open>subscribe\<close> of \<^verbatim>\<open>rpc/server.ts\<close>): first the events of the log from an id on, read in pages,
  then the events as they are committed. The hub commits events at any time between two steps of the stream; the
  listeners that hear them are registered when the last page has been handed to the stream. Sleeping, timeouts of the
  reader and the check of the memory are left out.
\<close>

section \<open>Requests and filters\<close>

record SubscribeRequest =
  sbr_eventTypes :: "int list"
  sbr_fromId :: "int option"
  sbr_totalShards :: "nat option"
  sbr_shardIndex :: "nat option"

definition total_shards :: "SubscribeRequest \<Rightarrow> nat" where
  "total_shards r = (case sbr_totalShards r of Some n \<Rightarrow> n | None \<Rightarrow> 0)"

definition shard_index :: "SubscribeRequest \<Rightarrow> nat" where
  "shard_index r = (case sbr_shardIndex r of Some n \<Rightarrow> n | None \<Rightarrow> 0)"

definition MAX_EVENT_STREAM_SHARDS :: nat where
  "MAX_EVENT_STREAM_SHARDS = 10"

text \<open>The types that there are listeners for, in the order in which the source registers them.\<close>

definition heard_types :: "int list" where
  "heard_types =
     [HUB_EVENT_MERGE_MESSAGE, HUB_EVENT_PRUNE_MESSAGE, HUB_EVENT_REVOKE_MESSAGE, HUB_EVENT_MERGE_USERNAME_PROOF,
      HUB_EVENT_MERGE_ON_CHAIN_EVENT]"

definition ordered_event :: "HubEvent \<Rightarrow> bool" where
  "ordered_event e \<longleftrightarrow> he_type e = HUB_EVENT_MERGE_ON_CHAIN_EVENT \<or> he_type e = HUB_EVENT_MERGE_USERNAME_PROOF"

definition event_on_shard :: "SubscribeRequest \<Rightarrow> HubEvent \<Rightarrow> bool outcome" where
  "event_on_shard r e =
     (if total_shards r = 0 then Ok True
      else if ordered_event e then Ok (shard_index r = 0)
      else
        andThen (fidFromEvent e) (\<lambda>fid. mapOk (BigInt_number fid) (\<lambda>f.
          jumpConsistentHash (nat f) (total_shards r) = shard_index r)))"

definition requested_type :: "SubscribeRequest \<Rightarrow> HubEvent \<Rightarrow> bool" where
  "requested_type r e \<longleftrightarrow> sbr_eventTypes r = [] \<or> he_type e \<in> set (sbr_eventTypes r)"

definition should_write :: "SubscribeRequest \<Rightarrow> HubEvent \<Rightarrow> bool outcome" where
  "should_write r e = (if requested_type r e then event_on_shard r e else Ok False)"

section \<open>A stream\<close>

text \<open>\<open>Reading\<close> is before a page is read, with the key of the last entry of the page before; \<open>Feeding\<close> has what is left of a page and
  the key from which to read on, if there is more. \<open>Broken\<close> is a handler that ended with an exception.\<close>

datatype sub_phase =
    SubRefused
  | SubReading "bytes option"
  | SubFeeding store "bytes option"
  | SubListening
  | SubBroken

record subscription =
  su_request :: SubscribeRequest
  su_options :: iterator_options
  su_phase :: sub_phase
  su_writer :: "HubEvent stream_writer"
  su_listeners :: "int list"
  su_ended :: bool
  su_closeHandler :: bool

definition sub_register :: "subscription \<Rightarrow> subscription" where
  "sub_register s =
     s\<lparr>su_phase := SubListening,
       su_listeners := su_listeners s @
         (if sbr_eventTypes (su_request s) = [] then heard_types
          else filter (\<lambda>t. t \<in> set heard_types) (sbr_eventTypes (su_request s)))\<rparr>"

text \<open>A stream that is refused for its shards is ended, but goes on.\<close>

definition invalid_shards :: "SubscribeRequest \<Rightarrow> bool" where
  "invalid_shards r \<longleftrightarrow>
     total_shards r > MAX_EVENT_STREAM_SHARDS \<or>
     total_shards r > 0 \<and> (case sbr_shardIndex r of None \<Rightarrow> True | Some i \<Rightarrow> i \<ge> total_shards r)"

definition new_subscription :: "SubscribeRequest \<Rightarrow> subscription" where
  "new_subscription r =
     \<lparr>su_request = r, su_options = \<lparr>io_gte = None, io_gt = None, io_lt = None, io_reverse = False\<rparr>, su_phase = SubRefused,
      su_writer = new_BufferedStreamWriter, su_listeners = [], su_ended = False, su_closeHandler = False\<rparr>"

definition subscribe ::
  "(js_string \<Rightarrow> js_string) \<Rightarrow> (js_string \<times> js_string list) list \<Rightarrow> js_string list \<Rightarrow> js_string \<Rightarrow> SubscribeRequest \<Rightarrow>
   connection_limiter \<Rightarrow> subscription \<times> connection_limiter" where
  "subscribe base64_text users authorization ip r L =
     (let authorized = (users \<noteq> [] \<and> authenticateUser base64_text authorization users = Ok True)
      in case addConnection ip L of
           (allowed, L) \<Rightarrow>
             if \<not> (case allowed of Inr _ \<Rightarrow> True | Inl _ \<Rightarrow> False) \<and> \<not> authorized
             then ((new_subscription r)\<lparr>su_ended := True\<rparr>, L)
             else
               (let s = (new_subscription r)\<lparr>su_ended := invalid_shards r, su_closeHandler := True\<rparr>
                in case sbr_fromId r of
                     None \<Rightarrow> (sub_register s, L)
                   | Some i \<Rightarrow>
                       if i < 0 then (sub_register s, L)
                       else
                         (case getEventsIteratorOpts (Some i) None of
                            Ok opts \<Rightarrow> (s\<lparr>su_options := opts, su_phase := SubReading None\<rparr>, L)
                          | Err e \<Rightarrow> (s\<lparr>su_ended := True\<rparr>, L)
                          | Throw t \<Rightarrow> (s\<lparr>su_phase := SubBroken\<rparr>, L))))"

text \<open>\<^verbatim>\<open>off\<close> takes out one listener of each type.\<close>

definition sub_close :: "js_string \<Rightarrow> subscription \<times> connection_limiter \<Rightarrow> subscription \<times> connection_limiter" where
  "sub_close ip x =
     (case x of
        (s, L) \<Rightarrow>
          if su_closeHandler s
          then (s\<lparr>su_listeners := fold remove1 heard_types (su_listeners s)\<rparr>, removeConnection ip L)
          else (s, L))"

definition sub_write :: "(nat \<Rightarrow> bool) \<Rightarrow> HubEvent \<Rightarrow> subscription \<Rightarrow> bool outcome \<times> subscription" where
  "sub_write takes e s = (case writeToStream takes e (su_writer s) of (r, w) \<Rightarrow> (r, s\<lparr>su_writer := w\<rparr>))"

text \<open>The listener, once for every time it is registered.\<close>

definition sub_hear :: "(nat \<Rightarrow> bool) \<Rightarrow> HubEvent \<Rightarrow> subscription \<Rightarrow> subscription" where
  "sub_hear takes e s =
     (if event_on_shard (su_request s) e = Ok True
      then ((\<lambda>s. snd (sub_write takes e s)) ^^ count_list (su_listeners s) (he_type e)) s
      else s)"

definition sub_read_page :: "rocksdb \<Rightarrow> subscription \<Rightarrow> subscription" where
  "sub_read_page db s =
     (case su_phase s of
        SubReading token \<Rightarrow>
          if \<not> rdb_native_open db then s\<lparr>su_phase := SubBroken\<rparr>
          else
            (case entries_by_jsopts (rdb_disk db) (batch_options (su_options s) token) of
               Ok kvs \<Rightarrow> (case take_batch PAGE_SIZE_MAX [] kvs of (batch, stopKey) \<Rightarrow> s\<lparr>su_phase := SubFeeding batch stopKey\<rparr>)
             | _ \<Rightarrow> s\<lparr>su_phase := SubBroken\<rparr>)
      | _ \<Rightarrow> s)"

definition sub_feed :: "hub_event_codec \<Rightarrow> (nat \<Rightarrow> bool) \<Rightarrow> subscription \<Rightarrow> subscription" where
  "sub_feed D takes s =
     (case su_phase s of
        SubFeeding [] (Some token) \<Rightarrow> s\<lparr>su_phase := SubReading (Some token)\<rparr>
      | SubFeeding [] None \<Rightarrow> sub_register s
      | SubFeeding ((k, v) # kvs) stopKey \<Rightarrow>
          (case andThen (decodeHubEvent D v) (\<lambda>e. mapOk (should_write (su_request s) e) (Pair e)) of
             Ok (e, True) \<Rightarrow>
               (case sub_write takes e s of
                  (Ok _, s) \<Rightarrow> s\<lparr>su_phase := SubFeeding kvs stopKey\<rparr>
                | (_, s) \<Rightarrow> sub_register s)
           | Ok (e, False) \<Rightarrow> s\<lparr>su_phase := SubFeeding kvs stopKey\<rparr>
           | _ \<Rightarrow> s\<lparr>su_phase := SubBroken\<rparr>)
      | _ \<Rightarrow> s)"

definition sub_drained :: "(nat \<Rightarrow> bool) \<Rightarrow> subscription \<Rightarrow> subscription" where
  "sub_drained takes s = s\<lparr>su_writer := stream_drained takes (su_writer s)\<rparr>"

section \<open>A stream beside a hub\<close>

text \<open>The last page was read, but nothing is registered yet.\<close>

definition in_window :: "subscription \<Rightarrow> bool" where
  "in_window s \<longleftrightarrow> (\<exists>kvs. su_phase s = SubFeeding kvs None)"

definition streamable :: "SubscribeRequest \<Rightarrow> HubEvent \<Rightarrow> bool" where
  "streamable r e \<longleftrightarrow> he_type e \<in> set heard_types \<and> is_ok (event_on_shard r e)"

text \<open>The log of the hub, what was committed in the window, and the stream. The hub goes on with larger ids, and may change
  other keys of its database.\<close>

inductive sub_run ::
  "hub_event_codec \<Rightarrow> (nat \<Rightarrow> bool) \<Rightarrow> int \<Rightarrow> subscription \<Rightarrow> rocksdb \<Rightarrow> HubEvent list \<Rightarrow> HubEvent list \<Rightarrow> subscription \<Rightarrow> bool"
  for D takes since s0 where
  start: "\<lbrakk>log_holds D (rdb_disk db) evs; rdb_native_open db; \<forall>e \<in> set evs. streamable (su_request s0) e\<rbrakk> \<Longrightarrow>
    sub_run D takes since s0 db evs [] s0"
| commit: "\<lbrakk>sub_run D takes since s0 db evs lost s; log_holds D (rdb_disk db') (evs @ [e]); rdb_native_open db';
     streamable (su_request s0) e; since \<le> he_id e\<rbrakk> \<Longrightarrow>
    sub_run D takes since s0 db' (evs @ [e]) (if in_window s then lost @ [e] else lost) (sub_hear takes e s)"
| other: "\<lbrakk>sub_run D takes since s0 db evs lost s; log_holds D (rdb_disk db') evs; rdb_native_open db'\<rbrakk> \<Longrightarrow>
    sub_run D takes since s0 db' evs lost s"
| read: "sub_run D takes since s0 db evs lost s \<Longrightarrow> sub_run D takes since s0 db evs lost (sub_read_page db s)"
| feed: "sub_run D takes since s0 db evs lost s \<Longrightarrow> sub_run D takes since s0 db evs lost (sub_feed D takes s)"
| drain: "sub_run D takes since s0 db evs lost s \<Longrightarrow> sub_run D takes since s0 db evs lost (sub_drained takes s)"

section \<open>What a stream delivers\<close>

definition log_entry :: "hub_event_codec \<Rightarrow> HubEvent \<Rightarrow> bytes \<times> bytes" where
  "log_entry D e = (event_key (he_id e), encodeHubEvent D e)"

definition since_options :: "int \<Rightarrow> iterator_options" where
  "since_options since = \<lparr>io_gte = Some (event_key since), io_gt = None, io_lt = Some [16], io_reverse = False\<rparr>"

definition page_token_of :: "HubEvent list \<Rightarrow> bytes option" where
  "page_token_of pre = (if pre = [] then None else Some (event_key (he_id (last pre))))"

lemma event_key_15: "[15] \<le> event_key i" "prefix [15] (event_key i)"
  by (simp_all add: event_key_def)

text \<open>A page begins after the last event of the page before.\<close>

lemma read_from_log:
  assumes "log_holds D s evs" "0 < since" "since < 2 ^ 64" "events_from (Some since) evs = pre @ suf"
  shows "entries_by_jsopts s (batch_options (since_options since) (page_token_of pre)) = Ok (map (log_entry D) suf)"
proof -
  let ?o = "batch_options (since_options since) (page_token_of pre)"
  have inv: "db_inv s" using assms(1) by (simp add: log_holds_def)
  have ids: "0 \<le> he_id e \<and> he_id e < 2 ^ 64" if "e \<in> set evs" for e
    using assms(1) that by (auto simp: log_holds_def stored_event_def)
  have sorted: "sorted_wrt (<) (map he_id evs)" by (rule log_ids_increase[OF assms(1)])
  have proper: "proper_options s ?o"
    using user_range_proper by (intro proper_batch) (simp add: since_options_def proper_options_def)
  have rev: "\<not> io_reverse ?o" by (simp add: batch_options_def since_options_def split: option.split)
  have pre_evs: "e \<in> set evs \<and> since \<le> he_id e" if "e \<in> set pre \<union> set suf" for e
  proof -
    have "e \<in> set (events_from (Some since) evs)" using assms(4) that by auto
    then show ?thesis by (simp add: events_from_def)
  qed
  have sorted': "sorted_wrt (<) (map he_id (pre @ suf))"
    unfolding assms(4)[symmetric] events_from_def using sorted by (simp add: sorted_wrt_map sorted_wrt_filter)
  have lower: "[15] \<le> k" if "in_bounds ?o k" for k
  proof (cases "pre = []")
    case True
    with that show ?thesis using event_key_15(1)[of since]
      by (auto simp: in_bounds_def batch_options_def since_options_def page_token_of_def intro: order_trans)
  next
    case False
    with that show ?thesis using event_key_15(1)[of "he_id (last pre)"]
      by (auto simp: in_bounds_def batch_options_def since_options_def page_token_of_def)
  qed
  have "in_bounds ?o k \<longrightarrow> prefix [15] k" for k
    using lower[of k] event_prefix_range[of k]
    by (auto simp: in_bounds_def batch_options_def since_options_def split: option.splits)
  then have w: "wanted s ?o = map (log_entry D) (filter (\<lambda>e. in_bounds ?o (event_key (he_id e))) evs)"
    using log_between[OF assms(1) _ rev] by (simp add: log_entry_def)
  have upper: "event_key i < [16]" for i by (simp add: event_key_def)
  have "filter (\<lambda>e. in_bounds ?o (event_key (he_id e))) evs = suf"
  proof (cases "pre = []")
    case True
    have "in_bounds ?o (event_key (he_id e)) \<longleftrightarrow> since \<le> he_id e" if "e \<in> set evs" for e
      using True upper ids[OF that] assms(2,3) event_key_less[of "he_id e" since]
      by (auto simp: in_bounds_def batch_options_def since_options_def page_token_of_def not_less[symmetric])
    then have "filter (\<lambda>e. in_bounds ?o (event_key (he_id e))) evs = filter (\<lambda>e. since \<le> he_id e) evs"
      by (intro filter_cong) auto
    with True assms(4) show ?thesis by (simp add: events_from_def)
  next
    case False
    let ?j = "he_id (last pre)"
    have j: "0 \<le> ?j" "?j < 2 ^ 64" "since \<le> ?j" using False pre_evs[of "last pre"] ids[of "last pre"] by auto
    have "in_bounds ?o (event_key (he_id e)) \<longleftrightarrow> ?j < he_id e" if "e \<in> set evs" for e
      using False upper ids[OF that] j event_key_less[of ?j "he_id e"]
      by (auto simp: in_bounds_def batch_options_def since_options_def page_token_of_def)
    then have "filter (\<lambda>e. in_bounds ?o (event_key (he_id e))) evs = filter (\<lambda>e. ?j < he_id e) (filter (\<lambda>e. since \<le> he_id e) evs)"
      using j(3) by (subst filter_filter) (intro filter_cong, auto)
    also have "\<dots> = filter (\<lambda>e. ?j < he_id e) (pre @ suf)" using assms(4) by (simp add: events_from_def)
    also have "\<dots> = suf"
    proof -
      have "\<not> ?j < he_id e" if "e \<in> set pre" for e
      proof -
        have "he_id e \<le> ?j"
          using sorted' that False by (cases pre rule: rev_cases) (auto simp: sorted_wrt_append less_imp_le)
        then show ?thesis by simp
      qed
      moreover have "?j < he_id e" if "e \<in> set suf" for e
        using sorted' that False by (auto simp: sorted_wrt_append)
      ultimately show ?thesis by (simp add: filter_empty_conv)
    qed
    finally show ?thesis .
  qed
  with w show ?thesis using entries_wanted[OF inv proper] by simp
qed

definition to_stream :: "SubscribeRequest \<Rightarrow> HubEvent list \<Rightarrow> HubEvent list" where
  "to_stream r evs = filter (\<lambda>e. should_write r e = Ok True) evs"

lemma to_stream_simps [simp]:
  "to_stream r [] = []" "to_stream r (es @ fs) = to_stream r es @ to_stream r fs"
  "to_stream r (e # es) = (if should_write r e = Ok True then e # to_stream r es else to_stream r es)"
  by (simp_all add: to_stream_def)

definition kept_events :: "int \<Rightarrow> HubEvent list \<Rightarrow> HubEvent list \<Rightarrow> HubEvent list" where
  "kept_events since evs lost = filter (\<lambda>e. e \<notin> set lost) (events_from (Some since) evs)"

definition registered :: "SubscribeRequest \<Rightarrow> int list" where
  "registered r = (if sbr_eventTypes r = [] then heard_types else filter (\<lambda>t. t \<in> set heard_types) (sbr_eventTypes r))"

definition stop_ok :: "bytes option \<Rightarrow> HubEvent list \<Rightarrow> HubEvent list \<Rightarrow> HubEvent list \<Rightarrow> bool" where
  "stop_ok stopKey lost seen suf \<longleftrightarrow>
     (case stopKey of None \<Rightarrow> suf = [] | Some t \<Rightarrow> lost = [] \<and> page_token_of seen = Some t)"

lemma stop_ok_simps [simp]:
  "stop_ok None lost seen suf \<longleftrightarrow> suf = []"
  "stop_ok (Some t) lost seen suf \<longleftrightarrow> lost = [] \<and> page_token_of seen = Some t"
  by (simp_all add: stop_ok_def)

text \<open>The invariant: what of the log has gone through the stream in each phase.\<close>

definition sub_inv :: "hub_event_codec \<Rightarrow> int \<Rightarrow> SubscribeRequest \<Rightarrow> HubEvent list \<Rightarrow> HubEvent list \<Rightarrow> subscription \<Rightarrow> bool" where
  "sub_inv D since r evs lost s \<longleftrightarrow>
     su_request s = r \<and> su_options s = since_options since \<and> (\<forall>e \<in> set evs. streamable r e) \<and> set lost \<subseteq> set evs \<and>
     (case su_phase s of
        SubReading token \<Rightarrow>
          su_listeners s = [] \<and> lost = [] \<and>
          (\<exists>pre suf. events_from (Some since) evs = pre @ suf \<and> stream_ok (to_stream r pre) (su_writer s) \<and> token = page_token_of pre)
      | SubFeeding kvs stopKey \<Rightarrow>
          su_listeners s = [] \<and>
          (\<exists>pre mid suf. kept_events since evs lost = pre @ mid @ suf \<and> stream_ok (to_stream r pre) (su_writer s) \<and>
             kvs = map (log_entry D) mid \<and> (\<forall>e \<in> set mid. stored_event D e) \<and>
             stop_ok stopKey lost (pre @ mid) suf)
      | SubListening \<Rightarrow>
          su_listeners s = registered r \<and>
          (\<exists>ms. stream_ok ms (su_writer s) \<and> subseq ms (to_stream r (kept_events since evs lost)) \<and>
             (bw_destroyed (su_writer s) = 0 \<longrightarrow> ms = to_stream r (kept_events since evs lost)))
      | _ \<Rightarrow> False)"

lemma streamable_ok: "streamable r e \<Longrightarrow> \<exists>b. should_write r e = Ok b"
  by (auto simp: streamable_def should_write_def is_ok_iff)

definition sub_common :: "int \<Rightarrow> SubscribeRequest \<Rightarrow> HubEvent list \<Rightarrow> HubEvent list \<Rightarrow> subscription \<Rightarrow> bool" where
  "sub_common since r evs lost s \<longleftrightarrow>
     su_request s = r \<and> su_options s = since_options since \<and> (\<forall>e \<in> set evs. streamable r e) \<and> set lost \<subseteq> set evs"

lemma sub_inv_common: "sub_inv D since r evs lost s \<Longrightarrow> sub_common since r evs lost s"
  by (simp add: sub_inv_def sub_common_def)

lemma readingI:
  "\<lbrakk>sub_common since r evs [] s; su_phase s = SubReading (page_token_of pre); su_listeners s = [];
    events_from (Some since) evs = pre @ suf; stream_ok (to_stream r pre) (su_writer s)\<rbrakk> \<Longrightarrow> sub_inv D since r evs [] s"
  unfolding sub_inv_def sub_common_def by auto

lemma feedingI:
  "\<lbrakk>sub_common since r evs lost s; su_phase s = SubFeeding (map (log_entry D) mid) stopKey; su_listeners s = [];
    kept_events since evs lost = pre @ mid @ suf; stream_ok (to_stream r pre) (su_writer s); \<forall>e \<in> set mid. stored_event D e;
    stop_ok stopKey lost (pre @ mid) suf\<rbrakk> \<Longrightarrow>
   sub_inv D since r evs lost s"
  unfolding sub_inv_def sub_common_def by simp blast

lemma listeningI:
  "\<lbrakk>sub_common since r evs lost s; su_phase s = SubListening; su_listeners s = registered r;
    stream_ok ms (su_writer s); subseq ms (to_stream r (kept_events since evs lost));
    bw_destroyed (su_writer s) = 0 \<Longrightarrow> ms = to_stream r (kept_events since evs lost)\<rbrakk> \<Longrightarrow> sub_inv D since r evs lost s"
  unfolding sub_inv_def sub_common_def by auto

lemma page_token_none: "page_token_of pre = None \<longleftrightarrow> pre = []"
  by (simp add: page_token_of_def)

lemma kept_none: "kept_events since evs [] = events_from (Some since) evs"
  by (simp add: kept_events_def)

lemma write_ok:
  assumes "stream_ok ms w" "writeToStream takes e w = (x, w')"
  shows "stream_ok (ms @ [e]) w'" "\<not> (\<exists>b. x = Ok b) \<Longrightarrow> bw_destroyed w' > 0" "bw_destroyed w \<le> bw_destroyed w'"
  using stream_step_ok[OF assms(1), of "StreamWrite e" takes] assms(2)
  by (auto simp: stream_step_def stream_messages_def writeToStream_def Let_def destroyStream_def fail_def split: if_splits)

text \<open>Reading a page.\<close>

lemma read_inv:
  assumes i: "sub_inv D since r evs lost s" and log: "log_holds D (rdb_disk db) evs" and o: "rdb_native_open db"
    and since: "0 < since" "since < 2 ^ 64"
  shows "sub_inv D since r evs lost (sub_read_page db s)"
proof (cases "su_phase s")
  case (SubReading token)
  with i obtain pre suf where *: "su_listeners s = []" "lost = []" "events_from (Some since) evs = pre @ suf"
    "stream_ok (to_stream r pre) (su_writer s)" "token = page_token_of pre" by (auto simp: sub_inv_def)
  have e: "entries_by_jsopts (rdb_disk db) (batch_options (su_options s) token) = Ok (map (log_entry D) suf)"
    using read_from_log[OF log since *(3)] i *(5) by (simp add: sub_inv_def)
  have st: "\<forall>e \<in> set suf. stored_event D e"
  proof
    fix e assume "e \<in> set suf"
    then have "e \<in> set (events_from (Some since) evs)" using *(3) by simp
    then show "stored_event D e" using log by (simp add: events_from_def log_holds_def)
  qed
  obtain batch stopKey where b: "take_batch PAGE_SIZE_MAX [] (map (log_entry D) suf) = (batch, stopKey)" by fastforce
  have r: "sub_read_page db s = s\<lparr>su_phase := SubFeeding batch stopKey\<rparr>"
    using SubReading o e b by (simp add: sub_read_page_def)
  show ?thesis
  proof (cases stopKey)
    case None
    from take_batch_None[OF b[unfolded None]] have "batch = map (log_entry D) suf" by simp
    with None r *(1-4) st sub_inv_common[OF i] show ?thesis
      unfolding *(2) r by (intro feedingI[where pre = pre and mid = suf and suf = "[]" and stopKey = None]) (simp_all add: kept_none sub_common_def)
  next
    case (Some k)
    from take_batch_Some[OF b[unfolded Some]] obtain b' v r' where
      m: "batch = b' @ [(k, v)]" "map (log_entry D) suf = b' @ (k, v) # r'" by auto
    then obtain mid0 e rest where "suf = mid0 @ e # rest" "b' = map (log_entry D) mid0" "(k, v) = log_entry D e"
      by (auto simp: map_eq_append_conv map_eq_Cons_conv)
    then have "suf = (mid0 @ [e]) @ rest" "batch = map (log_entry D) (mid0 @ [e])" "k = event_key (he_id e)"
      using m(1) by (simp_all add: log_entry_def)
    with Some r *(1-4) st sub_inv_common[OF i] show ?thesis
      unfolding *(2) r
      by (intro feedingI[where pre = pre and mid = "mid0 @ [e]" and suf = rest and stopKey = "Some k"])
        (simp_all add: kept_none sub_common_def page_token_of_def)
  qed
qed (use i in \<open>auto simp: sub_inv_def sub_read_page_def\<close>)

text \<open>Handing on an entry of a page.\<close>

lemma registered_register: "su_listeners s = [] \<Longrightarrow> su_listeners (sub_register s) = registered (su_request s)"
  by (simp add: sub_register_def registered_def)

lemma feed_inv:
  assumes i: "sub_inv D since r evs lost s"
  shows "sub_inv D since r evs lost (sub_feed D takes s)"
proof (cases "su_phase s")
  case (SubFeeding kvs stopKey)
  with i obtain pre mid suf where *: "su_listeners s = []" "kept_events since evs lost = pre @ mid @ suf"
    "stream_ok (to_stream r pre) (su_writer s)" "kvs = map (log_entry D) mid" "\<forall>e \<in> set mid. stored_event D e"
    "stop_ok stopKey lost (pre @ mid) suf"
    by (auto simp: sub_inv_def)
  note c = sub_inv_common[OF i]
  have req: "su_request s = r" using c by (simp add: sub_common_def)
  show ?thesis
  proof (cases mid)
    case Nil
    show ?thesis
    proof (cases stopKey)
      case None
      then have "sub_feed D takes s = sub_register s" using SubFeeding * Nil by (simp add: sub_feed_def)
      then show ?thesis
        using None c * Nil registered_register[OF *(1)]
        by (intro listeningI[where ms = "to_stream r pre"]) (simp_all add: sub_common_def sub_register_def)
    next
      case (Some t)
      with *(6) have t: "lost = []" "page_token_of pre = Some t" using Nil by auto
      have "sub_feed D takes s = s\<lparr>su_phase := SubReading (Some t)\<rparr>" using SubFeeding *(4) unfolding Nil Some by (simp add: sub_feed_def)
      then show ?thesis
        unfolding t(1) using t c *(1-3) Nil
        by (intro readingI[where pre = pre and suf = suf]) (simp_all add: kept_none sub_common_def)
    qed
  next
    case (Cons e mid')
    have "e \<in> set (kept_events since evs lost)" using *(2) Cons by simp
    then have "e \<in> set evs" by (simp add: kept_events_def events_from_def)
    then have "streamable r e" using c by (simp add: sub_common_def)
    then obtain b where b: "should_write r e = Ok b" using streamable_ok by blast
    have d: "decodeHubEvent D (encodeHubEvent D e) = Ok e" using *(5) Cons by (simp add: stored_event_def)
    have ph: "su_phase s = SubFeeding ((event_key (he_id e), encodeHubEvent D e) # map (log_entry D) mid') stopKey"
      using SubFeeding *(4) Cons by (simp add: log_entry_def)
    let ?next = "\<lambda>w. s\<lparr>su_writer := w, su_phase := SubFeeding (map (log_entry D) mid') stopKey\<rparr>"
    have next_inv: "sub_inv D since r evs lost (?next w)" if "stream_ok (to_stream r (pre @ [e])) w" for w
      using that c * Cons
      by (intro feedingI[where pre = "pre @ [e]" and mid = mid' and suf = suf]) (simp_all add: sub_common_def)
    show ?thesis
    proof (cases b)
      case False
      then have "sub_feed D takes s = ?next (su_writer s)" using ph b d req by (simp add: sub_feed_def)
      then show ?thesis using next_inv[of "su_writer s"] *(3) b False by simp
    next
      case True
      obtain x w where w: "writeToStream takes e (su_writer s) = (x, w)" by fastforce
      note ok = write_ok[OF *(3) w]
      show ?thesis
      proof (cases "\<exists>y. x = Ok y")
        case True
        then have "sub_feed D takes s = ?next w"
          using ph b d req w \<open>b\<close> by (auto simp: sub_feed_def sub_write_def)
        then show ?thesis using next_inv[of w] ok(1) b \<open>b\<close> by simp
      next
        case False
        then have f: "sub_feed D takes s = sub_register (s\<lparr>su_writer := w\<rparr>)"
          using ph b d req w \<open>b\<close> by (cases x) (auto simp: sub_feed_def sub_write_def)
        have "subseq (to_stream r pre @ [e]) (to_stream r (kept_events since evs lost))"
          using *(2) Cons b \<open>b\<close> by (auto intro: list_emb_append_mono)
        then show ?thesis
          unfolding f using c req *(1) ok(1) ok(2)[OF False] registered_register[of "s\<lparr>su_writer := w\<rparr>"]
          by (intro listeningI[where ms = "to_stream r pre @ [e]"]) (simp_all add: sub_common_def sub_register_def)
      qed
    qed
  qed
qed (use i in \<open>auto simp: sub_inv_def sub_feed_def\<close>)

text \<open>A commit: who listens hears it once.\<close>

lemma count_registered:
  assumes "distinct (sbr_eventTypes r)" "he_type e \<in> set heard_types"
  shows "count_list (registered r) (he_type e) = (if requested_type r e then 1 else 0)"
proof -
  have "distinct (registered r)" using assms(1) by (simp add: registered_def heard_types_def)
  moreover have "he_type e \<in> set (registered r) \<longleftrightarrow> requested_type r e" using assms(2) by (auto simp: registered_def requested_type_def)
  moreover have "distinct xs \<Longrightarrow> count_list xs x = (if x \<in> set xs then 1 else 0)" for xs :: "int list" and x
    by (induction xs) auto
  ultimately show ?thesis by simp
qed

lemma hear_registered:
  assumes "distinct (sbr_eventTypes r)" "streamable r e" "su_request s = r" "su_listeners s = registered r"
  shows "sub_hear takes e s = (if should_write r e = Ok True then snd (sub_write takes e s) else s)"
  using assms count_registered[OF assms(1), of e]
  by (auto simp: sub_hear_def should_write_def streamable_def is_ok_iff)

lemma log_snoc:
  assumes "log_holds D s (evs @ [e])" "set lost \<subseteq> set evs" "since \<le> he_id e"
  shows "e \<notin> set evs" "kept_events since (evs @ [e]) lost = kept_events since evs lost @ [e]"
    "kept_events since (evs @ [e]) (lost @ [e]) = kept_events since evs lost"
proof -
  have "\<forall>x \<in> set evs. he_id x < he_id e" using log_ids_increase[OF assms(1)] by (auto simp: sorted_wrt_append)
  then show n: "e \<notin> set evs" by force
  show "kept_events since (evs @ [e]) lost = kept_events since evs lost @ [e]"
    using n assms(2,3) by (auto simp: kept_events_def events_from_def)
  show "kept_events since (evs @ [e]) (lost @ [e]) = kept_events since evs lost"
    using n by (auto simp: kept_events_def events_from_def intro!: filter_cong)
qed

lemma hear_silent: "su_listeners s = [] \<Longrightarrow> sub_hear takes e s = s"
  by (simp add: sub_hear_def)

lemma sub_commit_inv:
  assumes i: "sub_inv D since r evs lost s" and d: "distinct (sbr_eventTypes r)"
    and log: "log_holds D t (evs @ [e])" and e: "streamable r e" "since \<le> he_id e"
  shows "sub_inv D since r (evs @ [e]) (if in_window s then lost @ [e] else lost) (sub_hear takes e s)"
proof -
  note c = sub_inv_common[OF i]
  then have lost: "set lost \<subseteq> set evs" and req: "su_request s = r" by (simp_all add: sub_common_def)
  note k = log_snoc[OF log lost e(2)]
  show ?thesis
  proof (cases "su_phase s")
    case (SubReading token)
    with i obtain pre suf where *: "su_listeners s = []" "lost = []" "events_from (Some since) evs = pre @ suf"
      "stream_ok (to_stream r pre) (su_writer s)" "token = page_token_of pre" by (auto simp: sub_inv_def)
    have "\<not> in_window s" using SubReading by (simp add: in_window_def)
    then show ?thesis
      using SubReading *(1,3-5) k(2) c e(1) *(2) hear_silent[OF *(1)]
      by (auto simp: kept_none sub_common_def intro!: readingI[where pre = pre and suf = "suf @ [e]"])
  next
    case (SubFeeding kvs stopKey)
    with i obtain pre mid suf where *: "su_listeners s = []" "kept_events since evs lost = pre @ mid @ suf"
      "stream_ok (to_stream r pre) (su_writer s)" "kvs = map (log_entry D) mid" "\<forall>e \<in> set mid. stored_event D e"
      "stop_ok stopKey lost (pre @ mid) suf"
      by (auto simp: sub_inv_def)
    show ?thesis
    proof (cases stopKey)
      case None
      then have "in_window s" using SubFeeding by (simp add: in_window_def)
      with None SubFeeding * k(3) c e(1) hear_silent[OF *(1)] show ?thesis
        by (auto simp: sub_common_def intro!: feedingI[where pre = pre and mid = mid and suf = "[]" and stopKey = None])
    next
      case (Some t)
      then have "\<not> in_window s" using SubFeeding by (simp add: in_window_def)
      with Some SubFeeding * k(2) c e(1) hear_silent[OF *(1)] show ?thesis
        by (auto simp: sub_common_def intro!: feedingI[where pre = pre and mid = mid and suf = "suf @ [e]" and stopKey = "Some t"])
    qed
  next
    case SubListening
    with i obtain ms where *: "su_listeners s = registered r" "stream_ok ms (su_writer s)"
      "subseq ms (to_stream r (kept_events since evs lost))"
      "bw_destroyed (su_writer s) = 0 \<longrightarrow> ms = to_stream r (kept_events since evs lost)" by (auto simp: sub_inv_def)
    have w: "\<not> in_window s" using SubListening by (simp add: in_window_def)
    have h: "sub_hear takes e s = (if should_write r e = Ok True then snd (sub_write takes e s) else s)"
      by (rule hear_registered[OF d e(1) req *(1)])
    show ?thesis
    proof (cases "should_write r e = Ok True")
      case True
      obtain x w' where wr: "writeToStream takes e (su_writer s) = (x, w')" by fastforce
      note ok = write_ok[OF *(2) wr]
      have "sub_hear takes e s = s\<lparr>su_writer := w'\<rparr>" using True h wr by (simp add: sub_write_def)
      then show ?thesis
        using SubListening * True w k(2) c e(1) ok(1,3)
        by (auto simp: sub_common_def intro!: listeningI[where ms = "ms @ [e]"] list_emb_append_mono)
    next
      case False
      then show ?thesis
        using SubListening * w k(2) c e(1) h
        by (auto simp: sub_common_def intro!: listeningI[where ms = ms])
    qed
  qed (use i in \<open>simp_all add: sub_inv_def\<close>)
qed

lemma drain_writer: "stream_ok ms w \<Longrightarrow> stream_ok ms (stream_drained takes w)"
  using stream_step_ok[of ms w StreamDrain takes] by (simp add: stream_step_def stream_messages_def)

lemma drain_destroyed: "bw_destroyed (stream_drained takes w) = bw_destroyed w"
  using sendWaitingData_keeps[of takes "w\<lparr>bw_streamIsBackedUp := False, bw_timer := False\<rparr>"] by (simp add: stream_drained_def)

lemma drain_inv:
  assumes i: "sub_inv D since r evs lost s"
  shows "sub_inv D since r evs lost (sub_drained takes s)"
proof -
  let ?s = "sub_drained takes s"
  have w: "su_writer ?s = stream_drained takes (su_writer s)" "su_phase ?s = su_phase s" "su_listeners ?s = su_listeners s"
    "sub_common since r evs lost ?s"
    using sub_inv_common[OF i] by (simp_all add: sub_drained_def sub_common_def)
  note k = drain_writer[where takes = takes]
  show ?thesis
  proof (cases "su_phase s")
    case (SubReading token)
    with i w k show ?thesis by (auto simp: sub_inv_def sub_drained_def)
  next
    case (SubFeeding kvs stopKey)
    with i obtain pre mid suf where "su_listeners s = []" "kept_events since evs lost = pre @ mid @ suf"
      "stream_ok (to_stream r pre) (su_writer s)" "kvs = map (log_entry D) mid" "\<forall>e \<in> set mid. stored_event D e"
      "stop_ok stopKey lost (pre @ mid) suf" by (auto simp: sub_inv_def)
    with w k SubFeeding show ?thesis
      by (intro feedingI[where pre = pre and mid = mid and suf = suf and stopKey = stopKey]) simp_all
  next
    case SubListening
    with i obtain ms where "su_listeners s = registered r" "stream_ok ms (su_writer s)"
      "subseq ms (to_stream r (kept_events since evs lost))"
      "bw_destroyed (su_writer s) = 0 \<longrightarrow> ms = to_stream r (kept_events since evs lost)" by (auto simp: sub_inv_def)
    with w k SubListening show ?thesis by (intro listeningI[where ms = ms]) (simp_all add: drain_destroyed)
  qed (use i in \<open>simp_all add: sub_inv_def\<close>)
qed

lemma sub_run_inv:
  assumes "sub_run D takes since s0 db evs lost s" "0 < since" "since < 2 ^ 64"
    "distinct (sbr_eventTypes (su_request s0))" "\<forall>evs. set evs \<subseteq> Collect (streamable (su_request s0)) \<longrightarrow> sub_inv D since (su_request s0) evs [] s0"
  shows "sub_inv D since (su_request s0) evs lost s \<and> log_holds D (rdb_disk db) evs \<and> rdb_native_open db"
  using assms(1)
proof (induction rule: sub_run.induct)
  case (start db evs)
  then show ?case using assms(5) by blast
next
  case (commit db evs lost s db' e)
  then show ?case using sub_commit_inv[of D since "su_request s0" evs lost s "rdb_disk db'" e takes] assms(4) by blast
next
  case (read db evs lost s)
  then show ?case using read_inv[OF _ _ _ assms(2,3)] by blast
qed (use feed_inv drain_inv in blast)+


section \<open>From the request on\<close>

lemma subscribe_reads:
  assumes "sbr_fromId r = Some i" "0 < i" "i < 2 ^ 64" "fst (subscribe b users auth ip r L) = s" "su_phase s \<noteq> SubRefused"
  shows "su_request s = r" "su_options s = since_options i" "su_phase s = SubReading None" "su_listeners s = []"
    "su_writer s = new_BufferedStreamWriter"
  using assms events_opts(2)[of i]
  by (auto simp: subscribe_def Let_def new_subscription_def since_options_def split: prod.splits if_splits sum.splits)

lemma new_writer_ok: "stream_ok [] new_BufferedStreamWriter"
  by (simp add: stream_ok_def new_BufferedStreamWriter_def)

lemma subscribe_start_inv:
  assumes "sbr_fromId r = Some i" "0 < i" "i < 2 ^ 64" "fst (subscribe b users auth ip r L) = s" "su_phase s \<noteq> SubRefused"
    and "\<forall>e \<in> set evs. streamable r e"
  shows "sub_inv D i r evs [] s"
  using subscribe_reads[OF assms(1-5)] assms(6) new_writer_ok
  by (intro readingI[where pre = "[]" and suf = "events_from (Some i) evs"]) (simp_all add: sub_common_def page_token_of_def)

lemma to_stream_subseq: "subseq es fs \<Longrightarrow> subseq (to_stream r es) (to_stream r fs)"
  by (simp add: to_stream_def subseq_filter)

lemma kept_subseq: "subseq (kept_events i evs lost) (events_from (Some i) evs)"
  by (simp add: kept_events_def)

text \<open>What was written are wanted events from the id on, in the order of the log; when the stream listens, all of them were
  written or wait, but for those that were committed in the window.\<close>

lemma sub_inv_delivers:
  assumes "sub_inv D i r evs lost s"
  shows "subseq (bw_written (su_writer s)) (to_stream r (kept_events i evs lost))"
    "\<lbrakk>su_phase s = SubListening; bw_destroyed (su_writer s) = 0\<rbrakk> \<Longrightarrow>
     bw_written (su_writer s) @ bw_dataWaitingForDrain (su_writer s) = to_stream r (kept_events i evs lost)"
proof -
  have "\<exists>ms. stream_ok ms (su_writer s) \<and> subseq ms (to_stream r (kept_events i evs lost)) \<and>
      (su_phase s = SubListening \<and> bw_destroyed (su_writer s) = 0 \<longrightarrow> ms = to_stream r (kept_events i evs lost))"
  proof (cases "su_phase s")
    case (SubReading token)
    with assms obtain pre suf where "lost = []" "events_from (Some i) evs = pre @ suf" "stream_ok (to_stream r pre) (su_writer s)"
      by (auto simp: sub_inv_def)
    with SubReading show ?thesis by (intro exI[of _ "to_stream r pre"]) (simp add: kept_none list_emb_prefix)
  next
    case (SubFeeding kvs stopKey)
    with assms obtain pre mid suf where "kept_events i evs lost = pre @ mid @ suf" "stream_ok (to_stream r pre) (su_writer s)"
      by (auto simp: sub_inv_def)
    with SubFeeding show ?thesis by (intro exI[of _ "to_stream r pre"]) (simp add: list_emb_prefix)
  qed (use assms in \<open>auto simp: sub_inv_def\<close>)
  then obtain ms where ms: "stream_ok ms (su_writer s)" "subseq ms (to_stream r (kept_events i evs lost))"
    "su_phase s = SubListening \<and> bw_destroyed (su_writer s) = 0 \<longrightarrow> ms = to_stream r (kept_events i evs lost)" by blast
  have "subseq (bw_written (su_writer s)) (bw_written (su_writer s) @ bw_dataWaitingForDrain (su_writer s))"
    by (simp add: list_emb_append2 list_emb_prefix)
  then show "subseq (bw_written (su_writer s)) (to_stream r (kept_events i evs lost))"
    using ms(1,2) by (auto simp: stream_ok_def dest: subseq_order.trans)
  show "\<lbrakk>su_phase s = SubListening; bw_destroyed (su_writer s) = 0\<rbrakk> \<Longrightarrow>
     bw_written (su_writer s) @ bw_dataWaitingForDrain (su_writer s) = to_stream r (kept_events i evs lost)"
    using ms(1,3) by (simp add: stream_ok_def)
qed

lemma subscribed_inv:
  assumes "sbr_fromId r = Some i" "0 < i" "i < 2 ^ 64" "distinct (sbr_eventTypes r)"
    and "fst (subscribe b users auth ip r L) = s0" "su_phase s0 \<noteq> SubRefused" "sub_run D takes i s0 db evs lost s"
  shows "sub_inv D i r evs lost s" "log_holds D (rdb_disk db) evs"
proof -
  have r: "su_request s0 = r" by (rule subscribe_reads(1)[OF assms(1-3,5,6)])
  have "sub_inv D i (su_request s0) evs lost s \<and> log_holds D (rdb_disk db) evs \<and> rdb_native_open db"
  proof (rule sub_run_inv[OF assms(7,2,3)])
    show "distinct (sbr_eventTypes (su_request s0))" using assms(4) r by simp
    show "\<forall>evs. set evs \<subseteq> Collect (streamable (su_request s0)) \<longrightarrow> sub_inv D i (su_request s0) evs [] s0"
      using subscribe_start_inv[OF assms(1-3,5,6)] r by auto
  qed
  then show "sub_inv D i r evs lost s" "log_holds D (rdb_disk db) evs" using r by simp_all
qed

text \<open>A stream that ends in the middle of the history registers its listeners after they were taken out: they stay.\<close>

lemma close_then_register:
  assumes "su_listeners s = []" "registered (su_request s) \<noteq> []" "su_closeHandler s"
  shows "su_listeners (sub_register (fst (sub_close ip (s, L)))) = registered (su_request s)"
  using assms by (auto simp: heard_types_def sub_close_def sub_register_def registered_def)

text \<open>The end of a stream gives its connection back; that of a user who was let in over the limit takes one from the others.\<close>

lemma close_gives_back:
  assumes "subscribe b users auth ip r L = (s, L')" "su_phase s \<noteq> SubRefused" "connections_ok L"
  shows "ip_connections ip (snd (sub_close ip (s, L'))) =
    (case fst (addConnection ip L) of Inr _ \<Rightarrow> ip_connections ip L | Inl _ \<Rightarrow> max 0 (ip_connections ip L - 1))"
proof -
  obtain a M where a: "addConnection ip L = (a, M)" by fastforce
  have s: "su_closeHandler s" "L' = M"
    using assms(1,2) a by (auto simp: subscribe_def Let_def new_subscription_def sub_register_def split: if_splits option.splits outcome.splits)
  have n: "0 \<le> ip_connections ip L" by (rule ip_connections_nonneg[OF assms(3)])
  have c: "snd (sub_close ip (s, L')) = removeConnection ip M" using s by (simp add: sub_close_def)
  show ?thesis
  proof (cases a)
    case (Inl e)
    then have "M = L" using a by (auto simp: addConnection_def Let_def split: if_splits)
    then show ?thesis unfolding c a using Inl n by (auto simp: removeConnection_def Let_def ip_connections_def update_conv')
  next
    case (Inr x)
    then have "M = L\<lparr>cl_ipConnections := AList.update ip (ip_connections ip L + 1) (cl_ipConnections L),
                     cl_totalConnections := cl_totalConnections L + 1\<rparr>"
      using a by (auto simp: addConnection_def Let_def split: if_splits)
    then show ?thesis unfolding c a using Inr n by (auto simp: removeConnection_def Let_def ip_connections_def update_conv')
  qed
qed

end
