(* ===== verification/ServerSamples.thy ===== *)
theory ServerSamples
  imports PeerSamples ServerFacts Subscribe
begin

text \<open>Concrete values for the properties of the server: a hub with the ids of two messages of which one is stored, and a
  stream that loses an event.\<close>

section \<open>A hub that serves messages\<close>

definition lost_message :: Message where
  "lost_message = sample_message\<lparr>msg_hash := Some (replicate 20 9)\<rparr>"

definition no_message :: Message where
  "no_message = sample_message\<lparr>msg_data := None, msg_hash := None\<rparr>"

definition served_coder :: proto_codec where
  "served_coder = sample_proto\<lparr>decodeMessage := (\<lambda>b. Ok (if b = [] then no_message else sample_message))\<rparr>"

definition served_id :: "byte \<Rightarrow> bytes" where
  "served_id x = fromTimestamp 100 (root_byte User # be_bytes 4 1 @ postfix_byte CastMessage # replicate 20 x)"

lemma served_ids:
  "syncable sample_message" "id_of sample_message = served_id 7" "syncable lost_message" "id_of lost_message = served_id 9"
proof -
  have d: "msg_data sample_message = Some sample_data" "msg_data lost_message = Some sample_data" "md_fid sample_data = numI 1"
    "msg_hash sample_message = Some (replicate 20 7)" "msg_hash lost_message = Some (replicate 20 9)"
    "typeToSetPostfix (md_type sample_data) = Ok CastMessage" "md_timestamp sample_data = 100"
    by (simp_all add: lost_message_def sample_message_def sample_data_def typeToSetPostfix_def)
  have one: "u32 1" by simp
  show "syncable sample_message" "syncable lost_message"
    unfolding syncable_def using d(1,3,4,6,7) d(2,5) one by (force simp: HASH_LENGTH_def)+
  show "id_of sample_message = served_id 7" "id_of lost_message = served_id 9"
    using sync_fromMessage_id[OF d(1,3) one d(4,6)] sync_fromMessage_id[OF d(2,3) one d(5,6)] d(7)
    by (simp_all add: id_of_def served_id_def)
qed

lemma served_id_early: "early_id (served_id x)"
proof -
  have "well_formed_id (served_id x)"
    unfolding well_formed_id_def served_id_def
    by (intro exI[of _ 100] exI[of _ "root_byte User # be_bytes 4 1 @ postfix_byte CastMessage # replicate 20 x"]) simp
  moreover have "hd (time_bytes 100) = 48" "time_bytes 100 \<noteq> []" by (code_simp, code_simp)
  then have "hd (served_id x) = 48" by (simp add: served_id_def fromTimestamp_def utf8_padded_prefix)
  ultimately show ?thesis by (simp add: early_id_def)
qed

lemma served_id_inject: "served_id 7 \<noteq> served_id 9"
  by (simp add: served_id_def fromTimestamp_def)

lemma served_ids_sync: "sync_ids_ok {served_id 7, served_id 9}"
  using served_id_early by (intro early_ids_ok) (auto simp: card_insert_if)

lemma sample_held_served: "holds_ids sample_hash_coder {served_id 7, served_id 9} (sample_held [served_id 7, served_id 9])"
proof -
  have "holds_ids sample_hash_coder {} (snd (MerkleTrie_clear sample_hash_coder (new_MerkleTrie (sample_db []) True)))"
    using MerkleTrie_clear_ok[OF sample_hash_coder_ok, of "new_MerkleTrie (sample_db []) True"]
    by (auto simp: new_MerkleTrie_def)
  from batch_update_ok[OF this sample_hash_coder_ok, of "[served_id 7, served_id 9]" "[]"] served_ids_sync served_id_inject
  show ?thesis by (auto simp: sample_held_def)
qed

definition served_db :: rocksdb where
  "served_db = sample_db [(sample_key, [1])]"

definition serving_env :: "unit sync_env" where
  "serving_env = sample_sync_env\<lparr>sn_proto := served_coder, sn_hub := sample_interface\<lparr>hi_db := (\<lambda>_. served_db)\<rparr>\<rparr>"

definition sample_server :: "bytes list \<Rightarrow> unit rpc_server" where
  "sample_server ids =
     \<lparr>sv_syncEngine = Some (sample_sync_engine
        \<lparr>sy_trie := \<lparr>sr_trie = sample_held ids, sr_syncTrieQ = 0, sr_numFids = 0, sr_numFnames = 0\<rparr>\<rparr>),
      sv_incomingConnections = 0\<rparr>"

lemma serving_env_parts [simp]:
  "sn_coder serving_env = sample_hash_coder" "sn_proto serving_env = served_coder" "hi_db (sn_hub serving_env) w = served_db"
  "sn_depth sample_sync_env = 40" "sn_coder sample_sync_env = sample_hash_coder"
  by (simp_all add: serving_env_def sample_sync_env_def)

lemma sample_server_holds:
  "holds_ids sample_hash_coder (set ids) (sample_held ids) \<Longrightarrow> sn_coder E = sample_hash_coder \<Longrightarrow> server_holds E (set ids) (sample_server ids)"
  by (simp add: server_holds_def sample_server_def)

lemma served_messages:
  "in_store served_coder served_db sample_message" "\<not> in_store served_coder served_db lost_message"
  "stored_or_not served_coder served_db sample_message" "stored_or_not served_coder served_db lost_message"
proof -
  have k: "message_key_of sample_message = sample_key" using sample_message_key by (simp add: message_key_of_def)
  have "makeMessagePrimaryKeyFromMessage lost_message = Ok (1 # be_bytes 4 1 @ 1 # be_bytes 4 100 @ replicate 20 9)"
    by (simp add: message_key_Ok lost_message_def sample_message_def sample_data_def typeToSetPostfix_def)
  then have l: "message_key_of lost_message = 1 # be_bytes 4 1 @ 1 # be_bytes 4 100 @ replicate 20 9"
    by (simp add: message_key_of_def)
  have none: "db_get (rdb_disk served_db) (message_key_of lost_message) = None"
    unfolding l by (simp add: served_db_def sample_db_def sample_key_def db_get_def)
  have e: "\<not> has_dataBytes sample_message" by (simp add: has_dataBytes_def sample_message_def)
  show i: "in_store served_coder served_db sample_message"
    using e by (simp add: in_store_def k messageEncode_def served_coder_def sample_proto_def event_coder_def served_db_def
        sample_db_def db_get_def)
  show "\<not> in_store served_coder served_db lost_message" using none by (simp add: in_store_def)
  have "storable served_coder sample_message"
    using e by (simp add: storable_def codec_law_def served_coder_def sample_proto_def event_coder_def)
  with i none show "stored_or_not served_coder served_db sample_message" "stored_or_not served_coder served_db lost_message"
    using served_ids by (simp_all add: stored_or_not_def)
qed

section \<open>A stream that loses an event\<close>

definition sample_subscribe :: SubscribeRequest where
  "sample_subscribe = \<lparr>sbr_eventTypes = [], sbr_fromId = Some 1, sbr_totalShards = None, sbr_shardIndex = None\<rparr>"

definition sample_stream :: subscription where
  "sample_stream = fst (subscribe id [] [] (lit ''1.2.3.4'') sample_subscribe (new_IpConnectionLimiter 10 100))"

lemma sample_stream_starts:
  "su_phase sample_stream = SubReading None" "su_request sample_stream = sample_subscribe"
  "su_listeners sample_stream = []" "su_writer sample_stream = new_BufferedStreamWriter"
  "su_options sample_stream = since_options 1"
proof -
  have ph: "su_phase sample_stream \<noteq> SubRefused"
    by (simp add: sample_stream_def subscribe_def new_IpConnectionLimiter_def addConnection_def ip_connections_def Let_def
        sample_subscribe_def new_subscription_def events_opts)
  from subscribe_reads[OF _ _ _ sample_stream_def[symmetric] ph, of 1]
  show "su_phase sample_stream = SubReading None" "su_request sample_stream = sample_subscribe"
  "su_listeners sample_stream = []" "su_writer sample_stream = new_BufferedStreamWriter"
  "su_options sample_stream = since_options 1" by (simp_all add: sample_subscribe_def)
qed

definition window_stream :: subscription where
  "window_stream = sample_stream\<lparr>su_phase := SubFeeding [] None\<rparr>"

text \<open>The log is empty when the page is read; the event is committed; the listeners are registered.\<close>

lemma sample_run_loses:
  "sub_run sample_hub_coder (\<lambda>_. True) 1 sample_stream sample_log_db [sample_hub_event] [sample_hub_event]
     (sub_register window_stream)"
proof -
  let ?R = "sub_run sample_hub_coder (\<lambda>_. True) 1 sample_stream"
  have "log_holds sample_hub_coder (rdb_disk (sample_db [])) []"
    by (simp add: log_holds_def sample_db_def db_inv_def event_entries_def)
  then have "?R (sample_db []) [] [] sample_stream" by (intro sub_run.start) (simp_all add: sample_db_def)
  then have "?R (sample_db []) [] [] (sub_read_page (sample_db []) sample_stream)" by (rule sub_run.read)
  moreover have "sub_read_page (sample_db []) sample_stream = window_stream"
    using sample_stream_starts
    by (simp add: sub_read_page_def sample_db_def entries_by_jsopts_def batch_options_def since_options_def db_range_def
        window_stream_def)
  ultimately have "?R (sample_db []) [] [] window_stream" by simp
  moreover have "streamable sample_subscribe sample_hub_event"
    by (simp add: streamable_def event_on_shard_def total_shards_def sample_subscribe_def sample_hub_event_def
        merge_event_args_def heard_types_def)
  ultimately have "?R sample_log_db ([] @ [sample_hub_event])
     (if in_window window_stream then [] @ [sample_hub_event] else []) (sub_hear (\<lambda>_. True) sample_hub_event window_stream)"
    using sample_log_holds sample_stream_starts(2)
    by (intro sub_run.commit[of _ _ _ _ "sample_db []"]) (simp_all add: sample_hub_event_def)
  moreover have "in_window window_stream" by (simp add: in_window_def window_stream_def)
  moreover have "sub_hear (\<lambda>_. True) sample_hub_event window_stream = window_stream"
    using sample_stream_starts(3) by (intro hear_silent) (simp add: window_stream_def)
  ultimately have "?R sample_log_db [sample_hub_event] [sample_hub_event] window_stream" by simp
  then have "?R sample_log_db [sample_hub_event] [sample_hub_event] (sub_feed sample_hub_coder (\<lambda>_. True) window_stream)"
    by (rule sub_run.feed)
  then show ?thesis by (simp add: sub_feed_def window_stream_def)
qed

section \<open>A gate with one user\<close>

definition sample_gate :: "(unit, unit) rpc_gate" where
  "sample_gate =
     \<lparr>rg_limits = \<lparr>lim_new = (\<lambda>_ _. ()), lim_points = (\<lambda>_. 5), lim_get = (\<lambda>_ _ _. None), lim_consume = (\<lambda>_ _ l. (True, l))\<rparr>,
      rg_base64_text = id, rg_users = [(lit ''al'', [lit ''pw''])], rg_submitMessage = (\<lambda>m w. (Some (Ok 1), w)),
      rg_submitMessageBundle = (\<lambda>t b w. (Some (Ok []), w)), rg_validateMessage = (\<lambda>m w. (Some (Ok m), w)),
      rg_blake3_20 = (\<lambda>b. replicate 20 0)\<rparr>"

lemma sample_gate_answers:
  "\<exists>x. fst (rpc_submitMessage sample_gate 0 [112] [lit ''Basic al:pw''] sample_message ((), ())) = Some (Answered x)"
proof -
  have a: "authenticateUser id [lit ''Basic al:pw''] [(lit ''al'', [lit ''pw''])] = Ok True" by code_simp
  have "rateLimitByIp (rg_limits sample_gate) 0 [112] () = (Ok True, ())" by code_simp
  then have "admit_call sample_gate 0 [112] [lit ''Basic al:pw''] () = (Ok (), ())"
    using a by (simp add: admit_call_def sample_gate_def)
  then show ?thesis
    by (simp add: rpc_submitMessage_def replied_def rpc_callback_def) (simp add: sample_gate_def rpc_callback_def)
qed

end
