(* ===== verification/HubNode.thy ===== *)
theory HubNode
  imports EngineChecks SyncWalk NetworkTools
begin

text \<open>
  The hub as a node (\<^verbatim>\<open>hubble.ts\<close>): messages that clients and peers submit, what peers gossip, and what the hub remembers of
  its last run; with the addresses of \<^verbatim>\<open>utils/p2p.ts\<close>. A gossiped message that makes a handler throw is a rejection that
  nobody handles: the result \<open>Throw\<close> of \<open>handleGossipMessage\<close> (and \<^verbatim>\<open>cli.ts\<close> shuts the hub down). The sync engine is
  the one of \<open>SyncState\<close>, whose hub is the engine.
\<close>

section \<open>Addresses\<close>

record GossipAddressInfo =
  gai_address :: js_string
  gai_family :: int
  gai_port :: int
  gai_dnsName :: js_string

record address_info =
  ai_address :: js_string
  ai_port :: int
  ai_family :: js_string

definition ipFamilyToString :: "int \<Rightarrow> js_string" where
  "ipFamilyToString family = (if family = 4 then lit ''IPv4'' else lit ''IPv6'')"

definition addressInfoFromGossip :: "GossipAddressInfo \<Rightarrow> address_info outcome" where
  "addressInfoFromGossip info =
     (let address = (if gai_dnsName info \<noteq> [] then gai_dnsName info else gai_address info) in
      if address = [] \<or> gai_family info = 0 then fail ParseFailure ''Invalid address''
      else Ok \<lparr>ai_address = address, ai_port = gai_port info, ai_family = ipFamilyToString (gai_family info)\<rparr>)"

text \<open>\<open>isIP\<close> is that of node's \<^verbatim>\<open>net\<close>: 4, 6 or 0.\<close>

definition addressInfoFromParts :: "(js_string \<Rightarrow> int) \<Rightarrow> js_string \<Rightarrow> int \<Rightarrow> address_info outcome" where
  "addressInfoFromParts isIP address port =
     (let family = isIP address in
      if family = 0 then fail ParseFailure ''invalid ip address''
      else Ok \<lparr>ai_address = address, ai_port = port, ai_family = ipFamilyToString family\<rparr>)"

definition addressInfoFromNodeAddress :: "js_string \<Rightarrow> int \<Rightarrow> int \<Rightarrow> (int \<Rightarrow> js_string) \<Rightarrow> address_info outcome" where
  "addressInfoFromNodeAddress address family port str =
     (if family \<noteq> 4 \<and> family \<noteq> 6 then fail_js BadRequest (lit ''invalid nodeAddress family: '' @ str family)
      else Ok \<lparr>ai_address = address, ai_port = port, ai_family = ipFamilyToString family\<rparr>)"

definition ipMultiAddrStrFromAddressInfo :: "address_info \<Rightarrow> js_string outcome" where
  "ipMultiAddrStrFromAddressInfo info =
     (if ai_family info \<noteq> lit ''IPv6'' \<and> ai_family info \<noteq> lit ''IPv4''
      then fail_js BadRequest (lit ''invalid AddressInfo family: '' @ ai_family info)
      else Ok (lit ''/'' @ (if ai_family info = lit ''IPv6'' then lit ''ip6'' else lit ''ip4'') @ lit ''/'' @ ai_address info))"

definition p2pMultiAddrStr :: "(int \<Rightarrow> js_string) \<Rightarrow> address_info \<Rightarrow> js_string \<Rightarrow> js_string outcome" where
  "p2pMultiAddrStr str info peerID =
     mapOk (ipMultiAddrStrFromAddressInfo info) (\<lambda>ip. ip @ lit ''/tcp/'' @ str (ai_port info) @ lit ''/p2p/'' @ peerID)"

definition addressInfoToString :: "(int \<Rightarrow> js_string) \<Rightarrow> address_info \<Rightarrow> js_string" where
  "addressInfoToString str info =
     (if ai_family info = lit ''IPv4'' then ai_address info @ lit '':'' @ str (ai_port info)
      else lit ''['' @ ai_address info @ lit '']:'' @ str (ai_port info))"

section \<open>What peers gossip\<close>

record AddressedContactInfo = ContactInfoContentBody +
  ci_gossipAddress :: "GossipAddressInfo option"

text \<open>The fields outside of the body are those of hubs that do not sign. The signature and the signer of a decoded content are
  never \<^verbatim>\<open>undefined\<close>, so that they always count as present.\<close>

record ContactInfoContent =
  cc_fields :: AddressedContactInfo
  cc_body :: "AddressedContactInfo option"
  cc_signature :: bytes
  cc_signer :: bytes
  cc_dataBytes :: "bytes option"

record GossipMessage =
  go_message :: "Message option"
  go_contactInfoContent :: "ContactInfoContent option"
  go_messageBundle :: "message_bundle option"
  go_peerId :: bytes
  go_timestamp :: int

datatype submit_source =
    FromGossip | FromRpc | FromEthProvider | FromL2Provider | FromSync | FromFnameRegistry | FromSyncHealth

datatype hub_action =
    GossipBundle message_bundle
  | GossipOne Message
  | ReportValid js_string bool
  | AddPeerToAddressBook js_string js_string
  | RemovePeerFromAddressBook js_string
  | ScheduleFirstSync

text \<open>\<open>hv_str\<close> is the text of a number; the public key of a peer id is \<open>None\<close> when the id has none; the libraries of peer ids
  and addresses and the coder of contact infos are parameters.\<close>

record 'l hub_env =
  hv_engine :: "'l engine_env"
  hv_str :: "int \<Rightarrow> js_string"
  hv_peerIdFromBytes :: "bytes \<Rightarrow> js_string outcome"
  hv_publicKey :: "js_string \<Rightarrow> bytes outcome option"
  hv_multiaddr :: "js_string \<Rightarrow> unit outcome"
  hv_encodeContactInfo :: "AddressedContactInfo \<Rightarrow> bytes"
  hv_decodeContactInfo :: "bytes \<Rightarrow> AddressedContactInfo outcome"
  hv_network :: int
  hv_strictContactInfoValidation :: bool
  hv_filter :: connection_filter

record 'l hub_node =
  hb_sync :: "'l engine sync_engine"
  hb_actions :: "hub_action list"
  hb_performedFirstSync :: bool

type_synonym ('a, 'l) node_result = "'a outcome option \<times> 'l hub_node"

definition hub_do :: "hub_action \<Rightarrow> 'l hub_node \<Rightarrow> 'l hub_node" where
  "hub_do a hb = hb\<lparr>hb_actions := hb_actions hb @ [a]\<rparr>"

definition node_engine :: "'l hub_node \<Rightarrow> 'l engine" where
  "node_engine hb = sy_hub (hb_sync hb)"

definition on_engine :: "('l engine \<Rightarrow> ('a, 'l) engine_result) \<Rightarrow> 'l hub_node \<Rightarrow> ('a, 'l) node_result" where
  "on_engine f hb = (case f (node_engine hb) of (r, en) \<Rightarrow> (r, hb\<lparr>hb_sync := (hb_sync hb)\<lparr>sy_hub := en\<rparr>\<rparr>))"

definition syncTrieQSize :: "'l hub_node \<Rightarrow> int" where
  "syncTrieQSize hb = sr_syncTrieQ (sy_trie (hb_sync hb))"

section \<open>Submitting\<close>

definition MAX_SYNCTRIE_QUEUE_SIZE :: int where
  "MAX_SYNCTRIE_QUEUE_SIZE = 100000"

text \<open>The messages that are left to merge, with their places, and the results that are known already.\<close>

definition dedup_bundle ::
  "proto_codec \<Rightarrow> bool list \<Rightarrow> Message list \<Rightarrow> (nat option \<times> int outcome) list \<times> (nat \<times> Message) list" where
  "dedup_bundle C exist messages =
     (let places = zip [0 ..< length exist] (zip exist messages) in
      (map (\<lambda>(i, _). (Some i, fail Duplicate ''message has already been merged'')) (filter (\<lambda>(i, e, m). e) places),
       map (\<lambda>(i, e, m). (i, ensureMessageData C m)) (filter (\<lambda>(i, e, m). \<not> e) places)))"

text \<open>A result for no place of the bundle is kept under \<^verbatim>\<open>undefined\<close>; a place without a result is \<^verbatim>\<open>undefined\<close>.\<close>

definition place_results ::
  "(nat \<times> Message) list \<Rightarrow> (nat \<times> int outcome) list \<Rightarrow> (nat option \<times> int outcome) list \<Rightarrow> (nat option \<times> int outcome) list" where
  "place_results deduped merged known =
     fold (\<lambda>(j, r). AList.update (if j < length deduped then Some (fst (deduped ! j)) else None) r) merged known"

definition collect_results :: "(nat option \<times> int outcome) list \<Rightarrow> int outcome list outcome" where
  "collect_results allResults =
     mapM (\<lambda>i. case map_of allResults (Some i) of Some r \<Rightarrow> Ok r | None \<Rightarrow> Throw TypeError) [0 ..< length allResults]"

definition submitMessageBundle ::
  "'l hub_env \<Rightarrow> int \<Rightarrow> message_bundle \<Rightarrow> submit_source \<Rightarrow> 'l hub_node \<Rightarrow> (int outcome list, 'l) node_result" where
  "submitMessageBundle V now bundle source hb =
     (let messages = mb_messages bundle;
          C = hp_proto (ee_hub (hv_engine V)) in
      if syncTrieQSize hb > MAX_SYNCTRIE_QUEUE_SIZE
      then settled (Ok (map (\<lambda>_. fail StorageFailure ''Sync trie queue is full'') messages)) hb
      else if length messages > MAX_BUNDLE_SIZE
      then settled (Ok (map (\<lambda>_. fail InvalidParam ''Message bundle is too large'') messages)) hb
      else
        await
          (settled
             (if source = FromGossip
              then mapOk (areMessagesInDb (engine_db (node_engine hb)) messages) (\<lambda>exist. dedup_bundle C exist messages)
              else Ok (dedup_bundle C (map (\<lambda>_. False) messages) messages)) hb) (\<lambda>(known, deduped) hb.
        await (on_engine (Engine_mergeMessages (hv_engine V) now (map snd deduped)) hb) (\<lambda>merged hb.
        await (settled (collect_results (place_results deduped merged known)) hb) (\<lambda>results hb.
          settled (Ok results)
            (if list_ex is_ok results \<and> source = FromRpc then hub_do (GossipBundle bundle) hb else hb)))))"

definition submitMessage ::
  "'l hub_env \<Rightarrow> int \<Rightarrow> Message \<Rightarrow> submit_source \<Rightarrow> 'l hub_node \<Rightarrow> (int, 'l) node_result" where
  "submitMessage V now submittedMessage source hb =
     (if syncTrieQSize hb > MAX_SYNCTRIE_QUEUE_SIZE then settled (fail StorageFailure ''Sync trie queue is full'') hb
      else if source = FromGossip \<and> isMessageInDB (engine_db (node_engine hb)) submittedMessage
      then settled (fail Duplicate ''message has already been merged'') hb
      else
        (let message = ensureMessageData (hp_proto (ee_hub (hv_engine V))) submittedMessage in
         await (on_engine (Engine_mergeMessage (hv_engine V) now message) hb) (\<lambda>eventId hb.
           settled (Ok eventId) (if source = FromRpc then hub_do (GossipOne message) hb else hb))))"

definition node_validateMessage :: "'l hub_env \<Rightarrow> int \<Rightarrow> Message \<Rightarrow> 'l hub_node \<Rightarrow> (Message, 'l) node_result" where
  "node_validateMessage V now message = on_engine (Engine_validateMessage (hv_engine V) now message)"

text \<open>When a name was merged, it is logged as text.\<close>

definition submitUserNameProof :: "'l hub_env \<Rightarrow> int \<Rightarrow> UserNameProof \<Rightarrow> 'l hub_node \<Rightarrow> (int, 'l) node_result" where
  "submitUserNameProof V now usernameProof hb =
     await (on_engine (Engine_mergeUserNameProof (hv_engine V) now usernameProof) hb) (\<lambda>eventId hb.
       case bytesToUtf8String (unp_name usernameProof) of
         Throw t \<Rightarrow> settled (Throw t) hb
       | _ \<Rightarrow> settled (Ok eventId) hb)"

definition submitOnChainEvent :: "'l hub_env \<Rightarrow> int \<Rightarrow> OnChainEvent \<Rightarrow> 'l hub_node \<Rightarrow> (int, 'l) node_result" where
  "submitOnChainEvent V now event = on_engine (Engine_mergeOnChainEvent (hv_engine V) now event)"

section \<open>Contacts\<close>

definition MAX_CONTACT_INFO_AGE_MS :: int where
  "MAX_CONTACT_INFO_AGE_MS = 1000 * 60 * 60"

definition CONTACT_INFO_UPDATE_THRESHOLD_MS :: int where
  "CONTACT_INFO_UPDATE_THRESHOLD_MS = 1000 * 60 * 30"

text \<open>\<^verbatim>\<open>isPeerAllowed\<close> gives a promise, which is not awaited: it counts as true whatever it resolves to.\<close>

definition truthy_promise :: "bool \<Rightarrow> bool" where
  "truthy_promise result = True"

definition isValidPeer :: "'l hub_env \<Rightarrow> int \<Rightarrow> js_string \<Rightarrow> AddressedContactInfo \<Rightarrow> bool" where
  "isValidPeer V now otherPeerId message =
     (if \<not> truthy_promise (filterMultiaddrForPeer otherPeerId (hv_filter V)) then False
      else if \<not> is_ok (ensureAboveMinFarcasterVersion (ee_versions (hv_engine V)) now (ci_hubVersion message)) then False
      else ci_network message = hv_network V)"

text \<open>The signed bytes, when there are any, replace the body that was looked at before.\<close>

definition signed_contact :: "'l hub_env \<Rightarrow> js_string \<Rightarrow> ContactInfoContent \<Rightarrow> AddressedContactInfo option outcome" where
  "signed_contact V peerId content =
     (case (hv_publicKey V peerId, cc_body content) of
        (Some pubKey, Some body) \<Rightarrow>
          andThen pubKey (\<lambda>key.
            if key \<noteq> cc_signer content then Ok None
            else
              (let bs = (case cc_dataBytes content of Some d \<Rightarrow> d | None \<Rightarrow> hv_encodeContactInfo V body) in
               case createMessageHash (ee_validation (hv_engine V)) (Some bs) (Some BLAKE3) of
                 Ok hash \<Rightarrow>
                   (case verifySignedMessageHash (ee_validation (hv_engine V)) (Some hash) (Some (cc_signature content))
                           (Some (cc_signer content)) of
                      Ok True \<Rightarrow>
                        (case cc_dataBytes content of
                           Some d \<Rightarrow> mapOk (hv_decodeContactInfo V d) Some
                         | None \<Rightarrow> Ok (Some body))
                    | Throw t \<Rightarrow> Throw t
                    | _ \<Rightarrow> Ok None)
               | Throw t \<Rightarrow> Throw t
               | Err e \<Rightarrow> Ok None))
      | _ \<Rightarrow>
          if hv_strictContactInfoValidation V then Ok None
          else Ok (Some (case cc_body content of Some body \<Rightarrow> body | None \<Rightarrow> cc_fields content)))"

text \<open>The address that the hub writes into its book: \<open>None\<close> is a contact info that is turned down.\<close>

definition contact_address :: "'l hub_env \<Rightarrow> js_string \<Rightarrow> GossipAddressInfo \<Rightarrow> js_string option" where
  "contact_address V peerId address =
     (case andThen (addressInfoFromGossip address) (\<lambda>info. p2pMultiAddrStr (hv_str V) info peerId) of
        Ok addr \<Rightarrow> if is_ok (hv_multiaddr V addr) then Some addr else None
      | _ \<Rightarrow> None)"

definition keep_contact :: "int \<Rightarrow> js_string \<Rightarrow> AddressedContactInfo \<Rightarrow> 'l hub_node \<Rightarrow> (bool, 'l) node_result" where
  "keep_contact now peerId message hb =
     (case addContactInfoForPeerId now peerId (ContactInfoContentBody.truncate message) CONTACT_INFO_UPDATE_THRESHOLD_MS (hb_sync hb) of
        (result, sy) \<Rightarrow>
          (let hb = hb\<lparr>hb_sync := sy\<rparr>;
               hb = (if is_ok result \<and> \<not> hb_performedFirstSync hb
                     then hub_do ScheduleFirstSync (hb\<lparr>hb_performedFirstSync := True\<rparr>) else hb)
           in settled (Ok (if ci_timestamp message = 0 then False else is_ok result)) hb))"

definition handleContactInfo ::
  "'l hub_env \<Rightarrow> int \<Rightarrow> js_string \<Rightarrow> ContactInfoContent \<Rightarrow> 'l hub_node \<Rightarrow> (bool, 'l) node_result" where
  "handleContactInfo V now peerId content hb =
     (let first = (case cc_body content of Some body \<Rightarrow> body | None \<Rightarrow> cc_fields content) in
      if ci_timestamp first \<noteq> 0 \<and> ci_timestamp first < now - MAX_CONTACT_INFO_AGE_MS then settled (Ok False) hb
      else
        await (settled (signed_contact V peerId content) hb) (\<lambda>checked hb.
          case checked of
            None \<Rightarrow> settled (Ok False) hb
          | Some message \<Rightarrow>
              (case ci_gossipAddress message of
                 None \<Rightarrow> keep_contact now peerId message hb
               | Some address \<Rightarrow>
                   (case contact_address V peerId address of
                      None \<Rightarrow> settled (Ok False) hb
                    | Some addr \<Rightarrow>
                        if \<not> isValidPeer V now peerId message
                        then settled (Ok False)
                               (hub_do (RemovePeerFromAddressBook peerId)
                                  (hb\<lparr>hb_sync := removeContactInfoForPeerId peerId (hb_sync hb)\<rparr>))
                        else keep_contact now peerId message (hub_do (AddPeerToAddressBook peerId addr) hb)))))"

section \<open>Gossip\<close>

definition ALLOWED_CLOCK_SKEW_SECONDS_gossip :: int where
  "ALLOWED_CLOCK_SKEW_SECONDS_gossip = 60 * 10"

definition GOSSIP_SEEN_TTL :: int where
  "GOSSIP_SEEN_TTL = 1000 * 60 * 5"

definition report :: "bool \<Rightarrow> js_string \<Rightarrow> bool \<Rightarrow> 'l hub_node \<Rightarrow> 'l hub_node" where
  "report reported msgId valid hb = (if reported then hb else hub_do (ReportValid msgId valid) hb)"

definition handle_gossip_content ::
  "'l hub_env \<Rightarrow> int \<Rightarrow> GossipMessage \<Rightarrow> js_string \<Rightarrow> js_string \<Rightarrow> bool \<Rightarrow> 'l hub_node \<Rightarrow> (unit, 'l) node_result" where
  "handle_gossip_content V now gossip msgId peerId reported hb =
     (if go_message gossip \<noteq> None \<or> go_messageBundle gossip \<noteq> None
      then
        if sy_syncMergeQ (hb_sync hb) + syncTrieQSize hb > MAX_SYNCTRIE_QUEUE_SIZE
        then settled (fail Unavailable ''Sync queue is full, dropping gossip message'') hb
        else
          (case go_message gossip of
             Some message \<Rightarrow>
               (case submitMessage V now message FromGossip hb of
                  (Some (Ok _), hb) \<Rightarrow> settled (Ok ()) (report reported msgId True hb)
                | (Some (Err e), hb) \<Rightarrow> settled (Err e) (report reported msgId False hb)
                | (Some (Throw t), hb) \<Rightarrow> (Some (Throw t), hb)
                | (None, hb) \<Rightarrow> (None, hb))
           | None \<Rightarrow>
               await (submitMessageBundle V now (the (go_messageBundle gossip)) FromGossip hb) (\<lambda>results hb.
                 settled (Ok ()) (report reported msgId (list_ex is_ok results) hb)))
      else
        (case go_contactInfoContent gossip of
           Some content \<Rightarrow>
             await (handleContactInfo V now peerId content hb) (\<lambda>result hb.
               settled (Ok ()) (hub_do (ReportValid msgId result) hb))
         | None \<Rightarrow> settled (fail InvalidParam ''invalid message type'') hb))"

definition handleGossipMessage ::
  "'l hub_env \<Rightarrow> int \<Rightarrow> GossipMessage \<Rightarrow> js_string \<Rightarrow> 'l hub_node \<Rightarrow> (unit, 'l) node_result" where
  "handleGossipMessage V now gossip msgId hb =
     (let currentTime = (case getFarcasterTime now of Ok t \<Rightarrow> t | _ \<Rightarrow> 0);
          t = go_timestamp gossip in
      if t \<noteq> 0 \<and> t > currentTime \<and> t - currentTime > ALLOWED_CLOCK_SKEW_SECONDS_gossip
      then settled (fail InvalidParam
             ''Invalid Farcaster timestamp in gossip message - future timestamp found in seconds from Farcaster Epoch'')
             (hub_do (ReportValid msgId False) hb)
      else
        (let reported = (t \<noteq> 0 \<and> t < currentTime - GOSSIP_SEEN_TTL div 1000);
             hb = (if reported then hub_do (ReportValid msgId False) hb else hb) in
         case hv_peerIdFromBytes V (go_peerId gossip) of
           Ok peerId \<Rightarrow> handle_gossip_content V now gossip msgId peerId reported hb
         | Err e \<Rightarrow> settled (Err e) hb
         | Throw x \<Rightarrow> settled (fail_js ParseFailure []) hb))"

section \<open>What the hub remembers\<close>

datatype shutdown_reason = SelfTerminated | SigTerm | ShutdownException | ShutdownUnknown

fun reason_byte :: "shutdown_reason \<Rightarrow> byte" where
  "reason_byte SelfTerminated = 0"
| "reason_byte SigTerm = 1"
| "reason_byte ShutdownException = 2"
| "reason_byte ShutdownUnknown = 3"

definition writeHubCleanShutdown :: "bool \<Rightarrow> shutdown_reason \<Rightarrow> rocksdb \<Rightarrow> unit outcome \<times> rocksdb" where
  "writeHubCleanShutdown clean reason db =
     (case RocksDB_commit db (txn_put [] [root_byte HubCleanShutdown] [if clean then 1 else 0, reason_byte reason]) of
        (r, db) \<Rightarrow> (fromPromise r as_HubError, db))"

definition wasHubCleanShutdown :: "rocksdb \<Rightarrow> bool outcome" where
  "wasHubCleanShutdown db =
     mapOk (fromPromise (RocksDB_get db [root_byte HubCleanShutdown]) as_HubError)
       (\<lambda>v. byte_at v 0 = Some 1)"

definition getDbNetwork :: "rocksdb \<Rightarrow> int outcome" where
  "getDbNetwork db =
     andThen (fromPromise (RocksDB_get db [root_byte NetworkPrefix]) as_HubError)
       (\<lambda>v. fromPromise (readUInt32BE v 0) as_HubError)"

text \<open>\<^verbatim>\<open>writeUInt32BE\<close> throws for a number that does not fit.\<close>

definition setDbNetwork :: "int \<Rightarrow> rocksdb \<Rightarrow> unit outcome \<times> rocksdb" where
  "setDbNetwork network db =
     (case writeUInt32BE (numI network) of
        Ok value \<Rightarrow>
          (case RocksDB_commit db (txn_put [] [root_byte NetworkPrefix] value) of
             (r, db) \<Rightarrow> (fromPromise r as_HubError, db))
      | Err e \<Rightarrow> (Err e, db)
      | Throw t \<Rightarrow> (Throw t, db))"

section \<open>Every message of a bundle is answered\<close>

lemma keys_of_fold_update:
  "fst ` set (fold (\<lambda>x. AList.update (f x) (g x)) xs al) = fst ` set al \<union> f ` set xs"
  by (induction xs arbitrary: al) (auto simp: dom_update[unfolded dom_map_of_conv_image_fst])

lemma distinct_fold_update:
  "distinct (map fst al) \<Longrightarrow> distinct (map fst (fold (\<lambda>x. AList.update (f x) (g x)) xs al))"
  by (induction xs arbitrary: al) (simp_all add: distinct_update)

lemma lookup_fold_update:
  assumes "distinct (map f xs)"
  shows "map_of (fold (\<lambda>x. AList.update (f x) (g x)) xs al) k =
     (case map_of (map (\<lambda>x. (f x, g x)) xs) k of Some r \<Rightarrow> Some r | None \<Rightarrow> map_of al k)"
  using assms
proof (induction xs arbitrary: al)
  case (Cons x xs)
  have "map_of (map (\<lambda>x. (f x, g x)) xs) (f x) = None" using Cons.prems by (auto simp: map_of_eq_None_iff)
  with Cons show ?case by (auto simp: update_conv' split: option.split)
qed simp

definition places :: "bool list \<Rightarrow> nat list" where
  "places exist = filter (\<lambda>i. \<not> exist ! i) [0 ..< length exist]"

text \<open>What each place of the bundle gets: the messages that are known are duplicates, the others have the result of the
  engine for their place among those.\<close>

definition bundle_answer :: "bool list \<Rightarrow> (nat \<times> int outcome) list \<Rightarrow> nat \<Rightarrow> int outcome" where
  "bundle_answer exist merged i =
     (if exist ! i then fail Duplicate ''message has already been merged''
      else the (map_of merged (length (filter (\<lambda>j. \<not> exist ! j) [0 ..< i]))))"

lemma dedup_bundle_places:
  assumes "length exist = length ms"
  shows "snd (dedup_bundle C exist ms) = map (\<lambda>i. (i, ensureMessageData C (ms ! i))) (places exist)"
    "fst (dedup_bundle C exist ms) =
       map (\<lambda>i. (Some i, fail Duplicate ''message has already been merged'')) (filter (\<lambda>i. exist ! i) [0 ..< length exist])"
proof -
  have z: "zip [0 ..< length exist] (zip exist ms) = map (\<lambda>i. (i, exist ! i, ms ! i)) [0 ..< length exist]"
    using assms by (intro nth_equalityI) simp_all
  show "snd (dedup_bundle C exist ms) = map (\<lambda>i. (i, ensureMessageData C (ms ! i))) (places exist)"
    "fst (dedup_bundle C exist ms) =
       map (\<lambda>i. (Some i, fail Duplicate ''message has already been merged'')) (filter (\<lambda>i. exist ! i) [0 ..< length exist])"
    unfolding dedup_bundle_def z by (simp_all add: filter_map comp_def places_def)
qed

lemma place_rank:
  assumes "i < n" "P i"
  shows "filter P [0 ..< n] ! length (filter P [0 ..< i]) = i" "length (filter P [0 ..< i]) < length (filter P [0 ..< n])"
proof -
  have "[0 ..< n] = [0 ..< i] @ i # [Suc i ..< n]"
    using assms(1) upt_add_eq_append[of 0 i "n - i"] upt_conv_Cons[of i n] by simp
  then have "filter P [0 ..< n] = filter P [0 ..< i] @ i # filter P [Suc i ..< n]" using assms(2) by simp
  then show "filter P [0 ..< n] ! length (filter P [0 ..< i]) = i" "length (filter P [0 ..< i]) < length (filter P [0 ..< n])"
    by simp_all
qed

lemma collected:
  assumes "fst ` set merged = {..<length (places exist)}" "distinct (map fst merged)"
  shows "collect_results (place_results (map (\<lambda>i. (i, m i)) (places exist)) merged
      (map (\<lambda>i. (Some i, d)) (filter (\<lambda>i. exist ! i) [0 ..< length exist]))) =
    Ok (map (\<lambda>i. if exist ! i then d else the (map_of merged (length (filter (\<lambda>j. \<not> exist ! j) [0 ..< i])))) [0 ..< length exist])"
proof -
  let ?n = "length exist" and ?ps = "places exist"
  let ?known = "map (\<lambda>i. (Some i, d)) (filter (\<lambda>i. exist ! i) [0 ..< ?n])"
  let ?f = "\<lambda>x :: nat \<times> int outcome. Some (?ps ! fst x)"
  have key: "fst x < length ?ps" if "x \<in> set merged" for x using assms(1) that by blast
  have pr: "place_results (map (\<lambda>i. (i, m i)) ?ps) merged ?known = fold (\<lambda>x. AList.update (?f x) (snd x)) merged ?known"
    unfolding place_results_def using key by (intro fold_cong) (auto simp: case_prod_beta)
  let ?all = "fold (\<lambda>x. AList.update (?f x) (snd x)) merged ?known"
  have ps: "distinct ?ps" "set ?ps = {i. i < ?n \<and> \<not> exist ! i}" by (auto simp: places_def)
  have fd: "distinct (map ?f merged)"
  proof -
    have "inj_on ((!) ?ps) {..<length ?ps}" using ps(1) by (simp add: inj_on_nth)
    then have "inj_on (\<lambda>j. Some (?ps ! j)) (set (map fst merged))" using assms(1) by (auto simp: inj_on_def)
    then have "distinct (map (\<lambda>j. Some (?ps ! j)) (map fst merged))" using assms(2) distinct_map by blast
    then show ?thesis by (simp add: comp_def)
  qed
  have "?f ` set merged = Some ` (!) ?ps ` fst ` set merged" by (simp add: image_image)
  also have "\<dots> = Some ` (!) ?ps ` {..<length ?ps}" using assms(1) by simp
  also have "(!) ?ps ` {..<length ?ps} = set ?ps" using nth_image[of "length ?ps" ?ps] by (simp add: lessThan_atLeast0)
  finally have keys: "fst ` set ?all = Some ` {i. i < ?n}"
    unfolding keys_of_fold_update using ps(2) by (auto simp: image_image)
  have "distinct (map fst ?known)" by (simp add: comp_def distinct_map inj_on_def)
  then have "distinct (map fst ?all)" by (rule distinct_fold_update)
  then have len: "length ?all = ?n"
    using distinct_card[of "map fst ?all"] keys by (simp add: card_image Collect_conj_eq[symmetric] flip: lessThan_def)
  have look: "map_of ?all (Some i) =
      Some (if exist ! i then d else the (map_of merged (length (filter (\<lambda>j. \<not> exist ! j) [0 ..< i]))))" if i: "i < ?n" for i
  proof (cases "exist ! i")
    case True
    then have "Some i \<notin> set (map ?f merged)" using key ps(2) nth_mem by fastforce
    then have "map_of (map (\<lambda>x. (?f x, snd x)) merged) (Some i) = None"
      by (force simp: map_of_eq_None_iff)
    moreover have "map_of ?known (Some i) = Some d" using True i by (auto simp: map_of_eq_Some_iff distinct_map inj_on_def comp_def)
    ultimately show ?thesis using True by (simp add: lookup_fold_update[OF fd])
  next
    case False
    let ?j = "length (filter (\<lambda>j. \<not> exist ! j) [0 ..< i])"
    have j: "?ps ! ?j = i" "?j < length ?ps"
      using place_rank[of i ?n "\<lambda>j. \<not> exist ! j"] i False by (simp_all add: places_def)
    then obtain r where r: "(?j, r) \<in> set merged" using assms(1) by (metis (no_types, lifting) imageE lessThan_iff prod.collapse)
    then have "(?f (?j, r), r) \<in> set (map (\<lambda>x. (?f x, snd x)) merged)" by force
    then have "map_of (map (\<lambda>x. (?f x, snd x)) merged) (Some i) = Some r"
      using j(1) fd by (intro map_of_is_SomeI) (simp_all add: comp_def)
    moreover have "map_of merged ?j = Some r" using r assms(2) by (intro map_of_is_SomeI)
    ultimately show ?thesis using False by (simp add: lookup_fold_update[OF fd])
  qed
  have "mapM (\<lambda>i. case map_of ?all (Some i) of Some r \<Rightarrow> Ok r | None \<Rightarrow> Throw TypeError) [0 ..< ?n] =
      Ok (map (\<lambda>i. if exist ! i then d else the (map_of merged (length (filter (\<lambda>j. \<not> exist ! j) [0 ..< i])))) [0 ..< ?n])"
    by (rule mapM_Ok_map) (simp add: look)
  then show ?thesis by (simp add: collect_results_def pr len)
qed

definition bundle_known :: "submit_source \<Rightarrow> rocksdb \<Rightarrow> Message list \<Rightarrow> bool list outcome" where
  "bundle_known source db ms = (if source = FromGossip then areMessagesInDb db ms else Ok (map (\<lambda>_. False) ms))"

lemma keysExist_length: "RocksDB_keysExist db ks = Ok exist \<Longrightarrow> length exist = length ks"
  by (auto simp: RocksDB_keysExist_def when_open_def split: if_splits)

lemma areMessagesInDb_length:
  assumes "areMessagesInDb db ms = Ok exist"
  shows "length exist = length ms"
proof -
  obtain ks where ks: "mapM makeMessagePrimaryKeyFromMessage ms = Ok ks" and
    e: "(case RocksDB_keysExist db ks of Ok r \<Rightarrow> Ok r | Err e \<Rightarrow> Ok (map (\<lambda>_. False) ms) | Throw t \<Rightarrow> Throw t) = Ok exist"
    using assms by (auto simp: areMessagesInDb_def andThen_Ok_iff)
  have "length ks = length ms" using mapM_OkD[OF ks] by (simp add: list_all2_lengthD)
  with e keysExist_length[of db ks] show ?thesis by (auto split: outcome.splits)
qed

lemma bundle_answered:
  assumes "syncTrieQSize hb \<le> MAX_SYNCTRIE_QUEUE_SIZE" "length (mb_messages b) \<le> MAX_BUNDLE_SIZE"
    and known: "bundle_known source (engine_db (node_engine hb)) (mb_messages b) = Ok exist"
    and merged: "Engine_mergeMessages (hv_engine V) now
        (map (\<lambda>i. ensureMessageData (hp_proto (ee_hub (hv_engine V))) (mb_messages b ! i)) (places exist)) (node_engine hb) =
        (Some (Ok merged), en)"
  shows "\<exists>hb'. submitMessageBundle V now b source hb =
     (Some (Ok (map (bundle_answer exist merged) [0 ..< length (mb_messages b)])), hb') \<and> node_engine hb' = en"
proof -
  let ?C = "hp_proto (ee_hub (hv_engine V))" and ?ms = "mb_messages b"
  have len: "length exist = length ?ms"
    using known areMessagesInDb_length by (auto simp: bundle_known_def split: if_splits)
  note d = dedup_bundle_places[OF len, of ?C]
  have first: "(if source = FromGossip
              then mapOk (areMessagesInDb (engine_db (node_engine hb)) ?ms) (\<lambda>exist. dedup_bundle ?C exist ?ms)
              else Ok (dedup_bundle ?C (map (\<lambda>_. False) ?ms) ?ms)) = Ok (dedup_bundle ?C exist ?ms)"
    using known by (auto simp: bundle_known_def split: if_splits)
  have ans: "fst ` set merged = {..<length (places exist)}" "distinct (map fst merged)"
    using Engine_mergeMessages_answers[OF merged] by simp_all
  have c: "collect_results (place_results (snd (dedup_bundle ?C exist ?ms)) merged (fst (dedup_bundle ?C exist ?ms))) =
      Ok (map (bundle_answer exist merged) [0 ..< length ?ms])"
    unfolding d using collected[OF ans] len by (simp add: bundle_answer_def[abs_def])
  have e: "on_engine (Engine_mergeMessages (hv_engine V) now (map snd (snd (dedup_bundle ?C exist ?ms)))) hb =
      (Some (Ok merged), hb\<lparr>hb_sync := (hb_sync hb)\<lparr>sy_hub := en\<rparr>\<rparr>)"
    using merged unfolding d by (simp add: on_engine_def comp_def)
  show ?thesis
    using assms(1,2) first e c
    by (simp add: submitMessageBundle_def Let_def await_def settled_def case_prod_beta)
      (simp add: hub_do_def node_engine_def)
qed

section \<open>What a peer can do to a hub\<close>

text \<open>The key of a message that cannot be made is thrown, and areMessagesInDb does not catch it.\<close>

definition no_err :: "'a outcome \<Rightarrow> bool" where
  "no_err r \<longleftrightarrow> (\<forall>e. r \<noteq> Err e)"

lemma no_err_simps [simp]:
  "no_err (Ok x)" "no_err (Throw t)" "\<not> no_err (Err e)" "no_err (throwErr r)" "no_err (mapOk s f) \<longleftrightarrow> no_err s"
  "no_err (writeUInt32BE n)" "no_err (throw_hub c txt)"
  by (cases r; cases s; auto simp: no_err_def writeUInt32BE_def throw_hub_def split: number.split)+

lemma no_err_andThen: "no_err r \<Longrightarrow> (\<And>x. no_err (f x)) \<Longrightarrow> no_err (andThen r f)"
  by (cases r) simp_all

lemma message_key_thrown: "no_err (makeMessagePrimaryKeyFromMessage m)"
  by (auto simp: makeMessagePrimaryKeyFromMessage_def typeToSetPostfix_def makeMessagePrimaryKey_def makeUserKey_def
      makeFidKey_def intro!: no_err_andThen split: option.split)

lemma mapM_throws:
  assumes "x \<in> set xs" "f x = Throw t" "\<And>x. no_err (f x)"
  shows "\<exists>t. mapM f xs = Throw t"
  using assms(1)
proof (induction xs)
  case (Cons y ys)
  show ?case
  proof (cases "f y")
    case (Ok z)
    then have "x \<in> set ys" using Cons.prems assms(2) by auto
    with Cons.IH Ok show ?thesis by auto
  next
    case (Err e)
    with assms(3)[of y] show ?thesis by simp
  qed simp
qed simp

lemma keyless_bundle:
  assumes "m \<in> set ms" "makeMessagePrimaryKeyFromMessage m = Throw t"
  shows "\<exists>t. areMessagesInDb db ms = Throw t"
  using mapM_throws[where f = makeMessagePrimaryKeyFromMessage, OF assms message_key_thrown] by (auto simp: areMessagesInDb_def)

lemma no_data_no_key: "msg_data m = None \<Longrightarrow> \<exists>t. makeMessagePrimaryKeyFromMessage m = Throw t"
  by (simp add: makeMessagePrimaryKeyFromMessage_def throw_hub_def)

text \<open>One message without data in a bundle, from whatever peer, and the handler throws before anything is merged.\<close>

lemma gossiped_bundle_throws:
  assumes "go_message g = None" "go_messageBundle g = Some b" "m \<in> set (mb_messages b)" "msg_data m = None"
    and "length (mb_messages b) \<le> MAX_BUNDLE_SIZE"
    and "syncTrieQSize hb \<le> MAX_SYNCTRIE_QUEUE_SIZE" "sy_syncMergeQ (hb_sync hb) + syncTrieQSize hb \<le> MAX_SYNCTRIE_QUEUE_SIZE"
    and "getFarcasterTime now = Ok t" "go_timestamp g \<le> t + ALLOWED_CLOCK_SKEW_SECONDS_gossip"
    and "hv_peerIdFromBytes V (go_peerId g) = Ok peerId"
  shows "\<exists>x. fst (handleGossipMessage V now g msgId hb) = Some (Throw x)"
    "node_engine (snd (handleGossipMessage V now g msgId hb)) = node_engine hb"
proof -
  obtain x where x: "areMessagesInDb (engine_db (node_engine hb)) (mb_messages b) = Throw x"
    using no_data_no_key[OF assms(4)] keyless_bundle[OF assms(3)] by blast
  let ?reported = "go_timestamp g \<noteq> 0 \<and> go_timestamp g < t - GOSSIP_SEEN_TTL div 1000"
  let ?hb = "if ?reported then hub_do (ReportValid msgId False) hb else hb"
  have hb: "node_engine ?hb = node_engine hb" "syncTrieQSize ?hb = syncTrieQSize hb" "hb_sync ?hb = hb_sync hb"
    by (simp_all add: hub_do_def node_engine_def syncTrieQSize_def)
  have s: "submitMessageBundle V now b FromGossip ?hb = (Some (Throw x), ?hb)"
    unfolding submitMessageBundle_def Let_def hb using assms(5,6) x by (simp add: await_def settled_def)
  have "handleGossipMessage V now g msgId hb = (Some (Throw x), ?hb)"
    unfolding handleGossipMessage_def Let_def
    using assms(1,2,7-10) s hb
    by (simp add: handle_gossip_content_def await_def)
  then show "\<exists>x. fst (handleGossipMessage V now g msgId hb) = Some (Throw x)"
    "node_engine (snd (handleGossipMessage V now g msgId hb)) = node_engine hb" using hb(1) by simp_all
qed

text \<open>So does a signed contact info whose signed bytes are no contact info.\<close>

lemma garbage_contact_throws:
  assumes "cc_body content = Some body" "cc_dataBytes content = Some d" "hv_publicKey V p = Some (Ok (cc_signer content))"
    and "createMessageHash (ee_validation (hv_engine V)) (Some d) (Some BLAKE3) = Ok h"
    and "verifySignedMessageHash (ee_validation (hv_engine V)) (Some h) (Some (cc_signature content)) (Some (cc_signer content)) = Ok True"
    and "hv_decodeContactInfo V d = Throw t" "ci_timestamp body = 0"
  shows "handleContactInfo V now p content hb = (Some (Throw t), hb)"
  using assms by (simp add: handleContactInfo_def signed_contact_def await_def settled_def)

text \<open>The age is that of the body, which is not signed; what is kept are the signed bytes, however old they are.\<close>

lemma replayed_contact:
  assumes "cc_body content = Some body" "cc_dataBytes content = Some d" "hv_publicKey V p = Some (Ok (cc_signer content))"
    and "createMessageHash (ee_validation (hv_engine V)) (Some d) (Some BLAKE3) = Ok h"
    and "verifySignedMessageHash (ee_validation (hv_engine V)) (Some h) (Some (cc_signature content)) (Some (cc_signer content)) = Ok True"
    and "hv_decodeContactInfo V d = Ok old" "ci_timestamp body = 0" "ci_gossipAddress old = None" "ci_timestamp old \<noteq> 0"
    and "getContactInfoForPeerId p (hb_sync hb) = None"
  shows "\<exists>hb'. handleContactInfo V now p content hb = (Some (Ok True), hb') \<and>
     getContactInfoForPeerId p (hb_sync hb') = Some (ContactInfoContentBody.truncate old)"
  using assms
  by (simp add: handleContactInfo_def signed_contact_def await_def settled_def keep_contact_def addContactInfoForPeerId_def
      Let_def getContactInfoForPeerId_def hub_do_def update_conv')

text \<open>Whom the hub was told to deny makes no difference.\<close>

lemma denied_peers_valid: "isValidPeer (V\<lparr>hv_filter := f\<rparr>) now p message = isValidPeer V now p message"
  by (simp add: isValidPeer_def truthy_promise_def)

section \<open>What is remembered is read back\<close>

lemma shutdown_round_trip:
  assumes "rdb_native_open db" "db_inv (rdb_disk db)" "writeHubCleanShutdown clean reason db = (r, db')"
  shows "r = Ok ()" "wasHubCleanShutdown db' = Ok clean" "getDbNetwork db' = getDbNetwork db"
  using assms
  by (auto simp: writeHubCleanShutdown_def commit_one_put wasHubCleanShutdown_def getDbNetwork_def RocksDB_get_def
      when_open_def rethrow_def db_get_put byte_at_def)

lemma network_round_trip:
  assumes "rdb_native_open db" "db_inv (rdb_disk db)" "u32 network" "setDbNetwork network db = (r, db')"
  shows "r = Ok ()" "getDbNetwork db' = Ok network" "wasHubCleanShutdown db' = wasHubCleanShutdown db"
proof -
  have v: "writeUInt32BE (numI network) = Ok (be_bytes 4 network)" "be_bytes 4 network \<noteq> []"
    using assms(3) length_be_bytes[of 4 network] by (auto simp del: length_be_bytes)
  have "(r, db') = (Ok (), db\<lparr>rdb_disk := db_put [root_byte NetworkPrefix] (be_bytes 4 network) (rdb_disk db)\<rparr>)"
    using assms(1,4) v by (simp add: setDbNetwork_def commit_one_put)
  then show "r = Ok ()" "getDbNetwork db' = Ok network" "wasHubCleanShutdown db' = wasHubCleanShutdown db"
    using assms(1-3)
    by (auto simp: wasHubCleanShutdown_def getDbNetwork_def RocksDB_get_def when_open_def rethrow_def db_get_put readUInt32BE_def
        be_int_be_bytes)
qed

end
