(* ===== verification/StorageJobs.thy ===== *)
theory StorageJobs
  imports EngineReads EngineChecks
begin

text \<open>
  The jobs that the hub runs at set times (\<^verbatim>\<open>storage/jobs\<close>): pruning messages, pruning events, checking the version and
  validating all messages again. The timers of \<^verbatim>\<open>node-cron\<close>, sleeping to spread the work, and metrics are left out. What a job
  awaits runs in order; the results of the checks of one user are only logged, so they are not collected. A job that
  is out of fuel is one that goes on for ever.
\<close>

section \<open>Pruning messages\<close>

record 'l prune_job =
  pj_engine :: "'l engine"
  pj_running :: bool

definition on_prune_engine :: "('l engine \<Rightarrow> ('a, 'l) engine_result) \<Rightarrow> 'l prune_job \<Rightarrow> 'a outcome option \<times> 'l prune_job" where
  "on_prune_engine f j = (case f (pj_engine j) of (r, en) \<Rightarrow> (r, j\<lparr>pj_engine := en\<rparr>))"

fun prune_fids :: "'l engine_env \<Rightarrow> int \<Rightarrow> number list \<Rightarrow> nat \<Rightarrow> 'l prune_job \<Rightarrow> nat outcome option \<times> 'l prune_job" where
  "prune_fids E now [] pruned j = settled (Ok pruned) j"
| "prune_fids E now (fid # fids) pruned j =
     (case on_prune_engine (Engine_pruneMessages E now fid) j of
        (None, j) \<Rightarrow> (None, j)
      | (Some (Throw t), j) \<Rightarrow> (Some (Throw t), j)
      | (Some (Err e), j) \<Rightarrow> prune_fids E now fids pruned j
      | (Some (Ok n), j) \<Rightarrow> prune_fids E now fids (pruned + n) j)"

fun prune_pages :: "nat \<Rightarrow> 'l engine_env \<Rightarrow> int \<Rightarrow> bytes option \<Rightarrow> nat \<Rightarrow> 'l prune_job \<Rightarrow> nat outcome option \<times> 'l prune_job" where
  "prune_pages 0 E now token pruned j = (None, j)"
| "prune_pages (Suc fuel) E now token pruned j =
     await (on_prune_engine (Engine_getFids E (no_page_options\<lparr>po_pageToken := token\<rparr>)) j) (\<lambda>(fids, next_token) j.
     await (prune_fids E now fids pruned j) (\<lambda>pruned j.
       case next_token of
         None \<Rightarrow> settled (Ok pruned) j
       | Some t \<Rightarrow> prune_pages fuel E now (Some t) pruned j))"

definition prune_doJobs :: "nat \<Rightarrow> 'l engine_env \<Rightarrow> int \<Rightarrow> 'l prune_job \<Rightarrow> unit outcome option \<times> 'l prune_job" where
  "prune_doJobs fuel E now j =
     (if pj_running j then settled (Ok ()) j
      else
        await (prune_pages fuel E now None 0 (j\<lparr>pj_running := True\<rparr>)) (\<lambda>totalPruned j.
          settled (Ok ()) (j\<lparr>pj_running := False\<rparr>)))"

section \<open>Pruning events and checking the version\<close>

definition events_doJobs :: "int \<Rightarrow> rocksdb \<Rightarrow> unit outcome \<times> rocksdb" where
  "events_doJobs now db =
     (case pruneEvents db now None of (Throw t, db) \<Rightarrow> (Throw t, db) | (_, db) \<Rightarrow> (Ok (), db))"

text \<open>Whether the job stops the hub.\<close>

definition version_doJobs :: "int \<Rightarrow> bool" where
  "version_doJobs now = (\<not> is_ok (getMinFarcasterVersion now))"

section \<open>Validating again\<close>

record ValidateOrRevokeJobState =
  vrs_lastJobTimestamp :: int
  vrs_lastFid :: int

record HubState =
  hst_lastFnameProof :: int
  hst_lastL2Block :: int
  hst_validateOrRevokeState :: "ValidateOrRevokeJobState option"

record hub_state_coder =
  encodeHubState :: "HubState \<Rightarrow> bytes"
  decodeHubState :: "bytes \<Rightarrow> HubState outcome"

record 'l validate_job =
  vj_engine :: "'l engine"
  vj_running :: bool

definition on_job_engine :: "('l engine \<Rightarrow> ('a, 'l) engine_result) \<Rightarrow> 'l validate_job \<Rightarrow> 'a outcome option \<times> 'l validate_job" where
  "on_job_engine f j = (case f (vj_engine j) of (r, en) \<Rightarrow> (r, j\<lparr>vj_engine := en\<rparr>))"

definition vj_db :: "'l validate_job \<Rightarrow> rocksdb" where
  "vj_db j = engine_db (vj_engine j)"

definition on_job_db :: "(rocksdb \<Rightarrow> 'a outcome \<times> rocksdb) \<Rightarrow> 'l validate_job \<Rightarrow> 'a outcome option \<times> 'l validate_job" where
  "on_job_db f j =
     (case f (vj_db j) of
        (r, db) \<Rightarrow> (Some r, j\<lparr>vj_engine := (vj_engine j)\<lparr>en_hub := (db, snd (en_hub (vj_engine j)))\<rparr>\<rparr>))"

text \<open>The page token of an answer is kept, but not handed to the next call.\<close>

fun signer_pages ::
  "nat \<Rightarrow> 'l engine_env \<Rightarrow> number \<Rightarrow> OnChainEvent list \<Rightarrow> 'l validate_job \<Rightarrow> OnChainEvent list outcome option \<times> 'l validate_job" where
  "signer_pages 0 E fid allSigners j = (None, j)"
| "signer_pages (Suc fuel) E fid allSigners j =
     await (on_job_engine (Engine_getOnChainSignersByFid E fid no_page_options) j) (\<lambda>(events, next_token) j.
       case next_token of
         None \<Rightarrow> settled (Ok (allSigners @ events)) j
       | Some t \<Rightarrow> signer_pages fuel E fid (allSigners @ events) j)"

definition latest_signer_time :: "OnChainEvent list \<Rightarrow> int" where
  "latest_signer_time signers =
     (case toFarcasterTime (1000 * foldl (\<lambda>acc s. if acc > oce_blockTimestamp s then acc else oce_blockTimestamp s) 0 signers) of
        Ok t \<Rightarrow> t
      | _ \<Rightarrow> 0)"

text \<open>Going over the entries below a prefix while what is done for each may change the database: pages are read when they are
  due, each entry is given to the action, and the counts of the actions are added.\<close>

type_synonym 'l entry_action = "bytes \<Rightarrow> bytes \<Rightarrow> 'l validate_job \<Rightarrow> nat outcome option \<times> 'l validate_job"

fun visit_entries :: "'l entry_action \<Rightarrow> (bytes \<times> bytes) list \<Rightarrow> nat \<Rightarrow> 'l validate_job \<Rightarrow> nat outcome option \<times> 'l validate_job" where
  "visit_entries act [] n j = settled (Ok n) j"
| "visit_entries act ((k, v) # kvs) n j = await (act k v j) (\<lambda>m j. visit_entries act kvs (n + m) j)"

fun visit_prefix ::
  "nat \<Rightarrow> bytes \<Rightarrow> bytes option \<Rightarrow> 'l entry_action \<Rightarrow> nat \<Rightarrow> 'l validate_job \<Rightarrow> nat outcome option \<times> 'l validate_job" where
  "visit_prefix 0 pre token act n j = (None, j)"
| "visit_prefix (Suc fuel) pre token act n j =
     (if \<not> rdb_native_open (vj_db j) then (Some (Throw native_panic), j)
      else
        (let page = dbFetchIteratorPageByPrefix PAGE_SIZE_MAX (rdb_disk (vj_db j)) pre (no_page_options\<lparr>po_pageToken := token\<rparr>) in
         await (visit_entries act (pg_dbKeyValues page) n j) (\<lambda>n j.
           if pg_allFinished page then settled (Ok n) j
           else visit_prefix fuel pre (Some (pg_nextPageToken page)) act n j)))"

text \<open>The result of a check is only logged; a value that cannot be decoded is passed over.\<close>

definition check_stored :: "'l engine_env \<Rightarrow> int \<Rightarrow> bytes \<Rightarrow> 'l validate_job \<Rightarrow> nat outcome option \<times> 'l validate_job" where
  "check_stored E now value j =
     (case messageDecode (hp_proto (ee_hub E)) value of
        Ok message \<Rightarrow>
          (case on_job_engine (Engine_validateOrRevokeMessage E now message) j of
             (None, j) \<Rightarrow> (None, j)
           | (Some (Throw t), j) \<Rightarrow> (Some (Throw t), j)
           | (Some _, j) \<Rightarrow> settled (Ok 1) j)
      | _ \<Rightarrow> settled (Ok 0) j)"

definition message_entry :: "bytes \<Rightarrow> bool" where
  "message_entry key \<longleftrightarrow> length key = 1 + FID_BYTES + 1 + TSHASH_LENGTH"

definition check_entry :: "'l engine_env \<Rightarrow> int \<Rightarrow> 'l entry_action" where
  "check_entry E now key value j =
     (if \<not> message_entry key then settled (Ok 0) j
      else if key ! (1 + FID_BYTES) > UserMessagePostfixMax then settled (Ok 0) j
      else check_stored E now value j)"

definition delete_entry :: "'l entry_action" where
  "delete_entry key value j = on_job_db (\<lambda>db. case RocksDB_del db key of (r, db) \<Rightarrow> (mapOk r (\<lambda>_. 1), db)) j"

text \<open>\<open>date\<close> is the day of the month.\<close>

definition full_scan :: "bool \<Rightarrow> int \<Rightarrow> int \<Rightarrow> bool" where
  "full_scan checkAllFids date fid \<longleftrightarrow> checkAllFids \<and> fid mod 28 = date mod 28"

definition fid_value :: "number \<Rightarrow> int" where
  "fid_value n = (case n of Num q \<Rightarrow> \<lfloor>q\<rfloor> | NaN \<Rightarrow> 0)"

definition doJobForFid ::
  "nat \<Rightarrow> 'l engine_env \<Rightarrow> int \<Rightarrow> int \<Rightarrow> bool \<Rightarrow> int \<Rightarrow> number \<Rightarrow> 'l validate_job \<Rightarrow> nat outcome option \<times> 'l validate_job" where
  "doJobForFid fuel E now date checkAllFids lastJobTimestamp fid j =
     await (settled (makeUserKey fid) j) (\<lambda>pre j.
     await (signer_pages fuel E fid [] j) (\<lambda>allSigners j.
       if \<not> full_scan checkAllFids date (fid_value fid) \<and> latest_signer_time allSigners < lastJobTimestamp
       then settled (Ok 0) j
       else
         await (visit_prefix fuel pre None (check_entry E now) 0 j) (\<lambda>n j.
         await (visit_prefix fuel (pre @ [postfix_byte BySigner]) None delete_entry 0 j) (\<lambda>_ j.
           settled (Ok n) j))))"

definition check_name_entry :: "'l engine_env \<Rightarrow> int \<Rightarrow> 'l entry_action" where
  "check_name_entry E now key value j =
     (if \<not> message_entry key then settled (Ok 0) j
      else if key ! (1 + FID_BYTES) \<noteq> postfix_byte UsernameProofMessage \<and> key ! (1 + FID_BYTES) \<noteq> postfix_byte UserDataMessage
      then settled (Ok 0) j
      else check_stored E now value j)"

definition doUsernamesJobForFid ::
  "nat \<Rightarrow> 'l engine_env \<Rightarrow> int \<Rightarrow> number \<Rightarrow> 'l validate_job \<Rightarrow> nat outcome option \<times> 'l validate_job" where
  "doUsernamesJobForFid fuel E now fid j =
     await (settled (makeUserKey fid) j) (\<lambda>pre j. visit_prefix fuel pre None (check_name_entry E now) 0 j)"

text \<open>The state of the job is written back every 5000 users and at the end.\<close>

definition save_job_state ::
  "hub_state_coder \<Rightarrow> ValidateOrRevokeJobState \<Rightarrow> 'l validate_job \<Rightarrow> unit outcome option \<times> 'l validate_job" where
  "save_job_state H s j =
     await (settled (getHubState (decodeHubState H) (vj_db j)) j) (\<lambda>hubState j.
       on_job_db (\<lambda>db. putHubState (encodeHubState H) db (hubState\<lparr>hst_validateOrRevokeState := Some s\<rparr>)) j)"

definition or_none :: "nat outcome option \<times> 's \<Rightarrow> nat outcome option \<times> 's" where
  "or_none r = (case r of (Some (Err e), s) \<Rightarrow> settled (Ok 0) s | _ \<Rightarrow> r)"

fun validate_fids ::
  "nat \<Rightarrow> 'l engine_env \<Rightarrow> hub_state_coder \<Rightarrow> int \<Rightarrow> int \<Rightarrow> bool \<Rightarrow> int \<Rightarrow> int \<Rightarrow> number list \<Rightarrow> nat \<times> nat \<Rightarrow>
   'l validate_job \<Rightarrow> (nat \<times> nat) outcome option \<times> 'l validate_job" where
  "validate_fids fuel E H now date checkAllFids lastJobTimestamp lastFid [] checked j = settled (Ok checked) j"
| "validate_fids fuel E H now date checkAllFids lastJobTimestamp lastFid (fid # fids) checked j =
     (if lastFid > 0 \<and> fid_value fid < lastFid
      then validate_fids fuel E H now date checkAllFids lastJobTimestamp lastFid fids checked j
      else
        await (or_none (doJobForFid fuel E now date checkAllFids lastJobTimestamp fid j)) (\<lambda>numChecked j.
        await (or_none (doUsernamesJobForFid fuel E now fid j)) (\<lambda>numUsernamesChecked j.
          let messages = fst checked + numChecked + numUsernamesChecked; users = snd checked + 1 in
          await (if users mod 5000 = 0
                 then save_job_state H \<lparr>vrs_lastJobTimestamp = lastJobTimestamp, vrs_lastFid = fid_value fid\<rparr> j
                 else settled (Ok ()) j) (\<lambda>_ j.
            validate_fids fuel E H now date checkAllFids lastJobTimestamp lastFid fids (messages, users) j))))"

fun validate_pages ::
  "nat \<Rightarrow> nat \<Rightarrow> 'l engine_env \<Rightarrow> hub_state_coder \<Rightarrow> int \<Rightarrow> int \<Rightarrow> bool \<Rightarrow> int \<Rightarrow> int \<Rightarrow> bytes option \<Rightarrow> nat \<times> nat \<Rightarrow>
   'l validate_job \<Rightarrow> (nat \<times> nat) outcome option \<times> 'l validate_job" where
  "validate_pages 0 fuel E H now date checkAllFids lastJobTimestamp lastFid token checked j = (None, j)"
| "validate_pages (Suc n) fuel E H now date checkAllFids lastJobTimestamp lastFid token checked j =
     await (on_job_engine (Engine_getFids E (no_page_options\<lparr>po_pageToken := token\<rparr>)) j) (\<lambda>(fids, next_token) j.
     await (validate_fids fuel E H now date checkAllFids lastJobTimestamp lastFid fids checked j) (\<lambda>checked j.
       case next_token of
         None \<Rightarrow> settled (Ok checked) j
       | Some t \<Rightarrow> validate_pages n fuel E H now date checkAllFids lastJobTimestamp lastFid (Some t) checked j))"

definition validate_doJobs ::
  "nat \<Rightarrow> 'l engine_env \<Rightarrow> hub_state_coder \<Rightarrow> int \<Rightarrow> int \<Rightarrow> bool \<Rightarrow> 'l validate_job \<Rightarrow> nat outcome option \<times> 'l validate_job" where
  "validate_doJobs fuel E H now date checkAllFids j =
     (if vj_running j then settled (Ok 0) j
      else
        await (settled (fromPromise (getHubState (decodeHubState H) (vj_db j)) as_HubError) j) (\<lambda>hubState j.
          let lastJobTimestamp = (case hst_validateOrRevokeState hubState of Some s \<Rightarrow> vrs_lastJobTimestamp s | None \<Rightarrow> 0);
              lastFid = (case hst_validateOrRevokeState hubState of Some s \<Rightarrow> vrs_lastFid s | None \<Rightarrow> 0)
          in await (validate_pages fuel fuel E H now date checkAllFids lastJobTimestamp lastFid None (0, 0)
                      (j\<lparr>vj_running := True\<rparr>)) (\<lambda>checked j.
             await (save_job_state H
                      \<lparr>vrs_lastJobTimestamp = (case toFarcasterTime now of Ok t \<Rightarrow> t | _ \<Rightarrow> 0), vrs_lastFid = 0\<rparr> j) (\<lambda>_ j.
               settled (Ok (fst checked)) (j\<lparr>vj_running := False\<rparr>)))))"

section \<open>Jobs that never run again\<close>

text \<open>A job that failed, or threw, still counts as running, and a job that counts as running does nothing.\<close>

lemma no_token: "no_page_options\<lparr>po_pageToken := None\<rparr> = no_page_options"
  by (simp add: no_page_options_def)

lemma prune_failed_blocks:
  assumes "\<not> pj_running j" "Engine_getFids E no_page_options (pj_engine j) = (Some (Err e), en)"
  shows "\<exists>j'. prune_doJobs (Suc fuel) E now j = (Some (Err e), j') \<and>
     (\<forall>fuel E now. prune_doJobs fuel E now j' = (Some (Ok ()), j'))"
  using assms by (simp add: prune_doJobs_def on_prune_engine_def no_token await_def settled_def)

lemma validate_failed_blocks:
  assumes "\<not> vj_running j" "Engine_getFids E no_page_options (vj_engine j) = (Some (Err e), en)"
    and "getHubState (decodeHubState H) (vj_db j) = Ok h"
  shows "\<exists>j'. validate_doJobs (Suc fuel) E H now date checkAll j = (Some (Err e), j') \<and>
     (\<forall>fuel E H now date checkAll. validate_doJobs fuel E H now date checkAll j' = (Some (Ok 0), j'))"
  using assms by (simp add: validate_doJobs_def on_job_engine_def no_token await_def settled_def Let_def)

text \<open>A user whose signers take more than a page is read for ever: the first page over and over.\<close>

lemma signer_pages_endless:
  assumes "Engine_getOnChainSignersByFid E fid no_page_options (vj_engine j) = (Some (Ok (events, Some t)), vj_engine j)"
  shows "fst (signer_pages fuel E fid signers j) = None"
proof (induction fuel arbitrary: signers)
  case (Suc fuel)
  have "on_job_engine (Engine_getOnChainSignersByFid E fid no_page_options) j = (Some (Ok (events, Some t)), j)"
    using assms by (simp add: on_job_engine_def)
  with Suc show ?case by (simp add: await_def)
qed simp

lemma many_signers_hang:
  assumes "Engine_getOnChainSignersByFid E fid no_page_options (vj_engine j) = (Some (Ok (events, Some t)), vj_engine j)"
    and "makeUserKey fid = Ok pre"
  shows "fst (doJobForFid fuel E now date checkAll since fid j) = None"
proof -
  obtain j' where "signer_pages fuel E fid [] j = (None, j')" using signer_pages_endless[OF assms(1)] by (metis prod.collapse)
  then show ?thesis using assms(2) by (simp add: doJobForFid_def await_def settled_def)
qed

text \<open>Link compact state messages are never checked: their postfix is beyond the limit.\<close>

lemma compact_state_unchecked:
  "key ! (1 + FID_BYTES) = postfix_byte LinkCompactStateMessage \<Longrightarrow> check_entry E now key value j = (Some (Ok 0), j)"
  by (simp add: check_entry_def UserMessagePostfixMax_def settled_def)

end
