(* ===== verification/NodeSamples.thy ===== *)
theory NodeSamples
  imports PeerSamples HubNode StorageJobs
begin

text \<open>Concrete values for the properties of the hub as a node and of its jobs.\<close>

section \<open>A node\<close>

definition sample_hub_env :: "(int \<times> int) hub_env" where
  "sample_hub_env =
     \<lparr>hv_engine = sample_engine_env, hv_str = (\<lambda>n. []), hv_peerIdFromBytes = (\<lambda>b. Ok [112]), hv_publicKey = (\<lambda>p. None),
      hv_multiaddr = (\<lambda>a. Ok ()), hv_encodeContactInfo = (\<lambda>c. []), hv_decodeContactInfo = (\<lambda>b. Throw TypeError),
      hv_network = 1, hv_strictContactInfoValidation = False, hv_filter = new_ConnectionFilter None None\<rparr>"

definition sample_node :: "(int \<times> int) hub_node" where
  "sample_node = \<lparr>hb_sync = new_SyncEngine sample_now (sample_db []) None sample_engine, hb_actions = [], hb_performedFirstSync = False\<rparr>"

lemma sample_node_parts [simp]:
  "node_engine sample_node = sample_engine" "syncTrieQSize sample_node = 0" "sy_syncMergeQ (hb_sync sample_node) = 0"
  "hv_engine sample_hub_env = sample_engine_env"
  by (simp_all add: sample_node_def node_engine_def syncTrieQSize_def new_SyncEngine_def sample_hub_env_def)

definition sample_bundle :: "Message list \<Rightarrow> message_bundle" where
  "sample_bundle ms = \<lparr>mb_messages = ms, mb_hash = []\<rparr>"

definition dataless_message :: Message where
  "dataless_message = sample_message\<lparr>msg_data := None\<rparr>"

definition bad_gossip :: GossipMessage where
  "bad_gossip =
     \<lparr>go_message = None, go_contactInfoContent = None, go_messageBundle = Some (sample_bundle [sample_message, dataless_message]),
      go_peerId = [], go_timestamp = 100\<rparr>"

section \<open>Jobs over a closed database\<close>

definition closed_engine :: "(int \<times> int) engine" where
  "closed_engine = sample_engine\<lparr>en_hub := (sample_db []\<lparr>rdb_native_open := False\<rparr>, snd (en_hub sample_engine))\<rparr>"

definition sample_hub_state :: hub_state_coder where
  "sample_hub_state =
     \<lparr>encodeHubState = (\<lambda>h. [1]),
      decodeHubState = (\<lambda>b. Ok \<lparr>hst_lastFnameProof = 0, hst_lastL2Block = 0, hst_validateOrRevokeState = None\<rparr>)\<rparr>"

lemma closed_engine_fids:
  "\<exists>e en. Engine_getFids sample_engine_env no_page_options closed_engine = (Some (Err e), en)"
proof -
  have "(case fst (Engine_getFids sample_engine_env no_page_options closed_engine) of Some (Err e) \<Rightarrow> True | _ \<Rightarrow> False)"
    by code_simp
  then show ?thesis by (cases "Engine_getFids sample_engine_env no_page_options closed_engine") (auto split: option.splits outcome.splits)
qed

end
