(* ===== verification/Spec2Isabelle.thy ===== *)
theory Spec2Isabelle
  imports SyncSamples NetworkTools JumpHash PeerSamples ServerSamples NodeSamples
begin

text \<open>
  This is a verification development of the core of the Farcaster hub Hubble: the validation and
  building of messages (\<^verbatim>\<open>src/packages/core/src\<close>) and the engine of the hub with its storage
  (\<^verbatim>\<open>src/apps/hubble/src/storage\<close>, with the native database boundary of \<^verbatim>\<open>rustfunctions.ts\<close> and
  \<^verbatim>\<open>addon/src/db\<close>), and the Merkle trie by which hubs compare what they have
  (\<^verbatim>\<open>src/apps/hubble/src/network/sync\<close>, \<^verbatim>\<open>addon/src/trie\<close>).

  \<^bold>\<open>How the parts interact.\<close> A client builds a message with the builders and signs it. A hub validates
  it, stores it under a key made of the user, the kind of message and a time-ordered hash, and
  commits the change together with an event of a log whose ids come from a clock and a counter.
  Caches of counts, of the earliest message of a user and of storage slots are kept up to date from
  the committed events. On-chain events (signers, registrations, storage rents) have a store with
  secondary indices and two LRU caches. The engine checks messages against all of these, merges them in
  batches within the limits of their users, and reacts to merged events: a removed signer leaves a job
  that revokes its messages. Every message, name and on-chain event has a sync id; the ids of a hub are in a trie
  whose root hash tells two hubs whether they have the same ids. All of this goes through one ordered key-value store that is
  read in pages.

  \<^bold>\<open>Theories, from the bottom up.\<close>
  \<^item> \<open>Prelude\<close>: JavaScript values and results. \<open>'a outcome\<close> has a constructor for a value, for a returned
    HubError and for a thrown exception (\<^verbatim>\<open>errors.ts\<close>, neverthrow); \<open>number\<close> is a JavaScript number
    (an exact rational or NaN); big-endian bytes; lists of results.
  \<^item> \<open>Utf8\<close>: UTF-16 strings, UTF-8 encoding and fatal decoding as the platform defines them.
  \<^item> \<open>Bytes\<close>: \<^verbatim>\<open>bytes.ts\<close>. Comparison is the lexicographic order; increment and decrement are those of
    the big-endian number; prefixes are ranges.
  \<^item> \<open>FarcasterTime\<close>: \<^verbatim>\<open>time.ts\<close> and the native event id generator with its 64-bit wrap-around.
  \<^item> \<open>Protobufs\<close>: the records, enums and type guards of the protobuf types.
  \<^item> \<open>StorageLimits\<close>: \<^verbatim>\<open>limits.ts\<close>.
  \<^item> \<open>ValidateBasics\<close>, \<open>ValidateNames\<close>, \<open>Claims\<close>, \<open>ValidateBodies\<close>, \<open>ValidateMessage\<close>: \<^verbatim>\<open>validations.ts\<close>,
    \<^verbatim>\<open>verifications.ts\<close>, \<^verbatim>\<open>userNameProof.ts\<close>, \<^verbatim>\<open>crypto/\<close>. The record \<open>validation_env\<close> holds what is
    called outside the repository: the hash, the signature checks, viem's address checks, the clock.
    For every validator there is a lemma that says exactly what it accepts.
  \<^item> \<open>Builders\<close>: \<^verbatim>\<open>builders.ts\<close> and the Ed25519 signer, with the update of the caller's options.
  \<^item> \<open>RocksDb\<close>: \<^verbatim>\<open>rocksdb.ts\<close>: an ordered store behind an open or closed native handle, batches.
    The locale \<open>kv_store\<close> states the laws of a key-value store and is interpreted on the model's store.
  \<^item> \<open>DbIterator\<close>: iteration over the native boundary in pages, by prefix and by options. The loops
    take fuel; any fuel above the number of stored keys is enough, which the exactness lemmas state.
  \<^item> \<open>MessageDb\<close>: \<^verbatim>\<open>message.ts\<close>, \<^verbatim>\<open>nameRegistryEvent.ts\<close>, \<^verbatim>\<open>hubState.ts\<close>, \<^verbatim>\<open>stores/utils.ts\<close>.
  \<^item> \<open>Caches\<close>: \<^verbatim>\<open>lruCache.ts\<close> with its await point split in two steps, and \<^verbatim>\<open>ttl_map.ts\<close>. The locale
    \<open>memo_cache\<close> states what a cache promises its users; it is interpreted on the LRU cache.
  \<^item> \<open>OnChainDb\<close>, \<open>OnChainEventStore\<close>: \<^verbatim>\<open>db/onChainEvent.ts\<close> and \<^verbatim>\<open>stores/onChainEventStore.ts\<close>.
  \<^item> \<open>StorageCache\<close>: \<^verbatim>\<open>stores/storageCache.ts\<close>, and when the cache agrees with the database.
  \<^item> \<open>StoreEventHandler\<close>: \<^verbatim>\<open>stores/storeEventHandler.ts\<close>. The inductive relation \<open>hub_log\<close> runs a hub
    through commits, failing commits, prunings and other writes; its invariant ties the key-value
    store to the list of committed events.
  \<^item> \<open>JobQueue\<close>: \<^verbatim>\<open>jobs/revokeMessagesBySignerJob.ts\<close>. The locale \<open>job_source\<close> states what a worker needs of
    a queue; it is interpreted on the queue in the database, whose keys are ordered by due time.
  \<^item> \<open>NativeStore\<close>: \<^verbatim>\<open>addon/src/store/store.rs\<close> and \<^verbatim>\<open>message.rs\<close>: merging, revoking and pruning of messages for
    any kind of message, a record of type \<open>store_def\<close> as in the source.
  \<^item> \<open>NativeMerge\<close>: the locale \<open>two_phase_store\<close> for kinds with adds and removes. A database represents a map
    from subjects to the winning messages, a merge refines the merge on that map, and the map depends
    only on the set of merged messages.
  \<^item> \<open>MessageStores\<close>: the kinds cast and reaction (\<^verbatim>\<open>cast_store.rs\<close>, \<^verbatim>\<open>reaction_store.rs\<close>) and the interpretation of
    the locale for both.
  \<^item> \<open>MoreStores\<close>: links with their compact states, user data, verifications and user name proofs
    (\<^verbatim>\<open>link_store.rs\<close> and the like), the registry of transferred names, and the paged readers.
  \<^item> \<open>RustStore\<close>: \<^verbatim>\<open>stores/rustStoreBase.ts\<close>: the state of a hub is its database and its event handler; merging in
    batches, revoking and pruning through the native bridge, with the announcements to the cache.
  \<^item> \<open>StoreReaders\<close>: the getters of \<^verbatim>\<open>castStore.ts\<close>, \<^verbatim>\<open>reactionStore.ts\<close>, \<^verbatim>\<open>linkStore.ts\<close>, \<^verbatim>\<open>userDataStore.ts\<close>,
    \<^verbatim>\<open>verificationStore.ts\<close> and \<^verbatim>\<open>usernameProofStore.ts\<close>.
  \<^item> \<open>StoreCounts\<close>: the cached counts stay exact while batches are merged, proved in the locale \<open>two_phase_store\<close>.
  \<^item> \<open>RateLimits\<close>: \<^verbatim>\<open>utils/rateLimits.ts\<close> and \<^verbatim>\<open>utils/versions.ts\<close>.
  \<^item> \<open>Engine\<close>, \<open>EngineReads\<close>: \<^verbatim>\<open>storage/engine/index.ts\<close>. The state of an engine is the hub state of its stores,
    the on-chain event store with its caches, the limiters, and what it has emitted; what is concurrent in
    the code (the checks and the stores of a batch, the listeners of an event) runs in order.
  \<^item> \<open>EngineChecks\<close>: checking a message leaves the database and the exactness of the caches as they were, which
    gives what is true of every message that a batch merged; all of a batch is answered; a removed signer is queued.
  \<^item> \<open>SyncIds\<close>: \<^verbatim>\<open>network/sync/syncId.ts\<close>: ids of messages, names and on-chain events, unpacking, and that no id is a
    prefix of another, which the trie relies on.
  \<^item> \<open>SyncTrie\<close>: \<^verbatim>\<open>addon/src/trie/trie_node.rs\<close>: the nodes, some in memory and some only as records in the database,
    and every operation on them. \<open>TrieSets\<close>, \<open>TrieInsert\<close>, \<open>TrieDelete\<close>: a node represents a set of ids; insertion is
    union, deletion is difference, and nodes with the same ids have the same hash.
  \<^item> \<open>SyncMerkle\<close>: \<^verbatim>\<open>addon/src/trie/merkle_trie.rs\<close> and \<^verbatim>\<open>network/sync/merkleTrie.ts\<close>: the trie with its batch and its
    database, and the updates that are collected while others are applied. \<open>MerkleSets\<close>: the ids that a trie holds,
    in memory, in its batch and on disk together; \<open>SyncQueue\<close>: every update is applied once, in the order of the calls.
    The recursion of insertion and deletion is bounded by the length of the keys, \<open>trie_depth\<close>, which is enough.
  \<^item> \<open>PeerScores\<close>, \<open>SyncState\<close>: \<^verbatim>\<open>network/sync/peerScore.ts\<close> and the state of \<^verbatim>\<open>network/sync/syncEngine.ts\<close>: the listeners
    that follow the stores, snapshots, contacts, and whether to sync. \<open>SyncWalk\<close>: a sync from the audit to the last work
    item. The loop over the work queue takes fuel; the result \<open>None\<close> is a sync that waits for ever. Peers are functions
    that answer what they like.
  \<^item> \<open>TrieReads\<close>: snapshots, metadata and listings of a trie in terms of its ids, and that equal hashes mean equal ids if
    the hash has no collisions. \<open>SyncFacts\<close>: what the status of a sync says, and what a sync hands to the hub.
  \<^item> \<open>NetworkTools\<close>, \<open>JumpHash\<close>: the connection filter, bundles of gossip, the network configuration, buffered event
    streams, limits of connections, and the assignment of users to shards.
  \<^item> \<open>RpcServer\<close>: \<^verbatim>\<open>rpc/server.ts\<close>: what the handlers answer, with \<open>Unanswered\<close> for an exception that escapes.
    \<open>ServerFacts\<close>: the answers about the trie are those of its set of ids as the other hub reads them, ids without a
    message are taken out, and only users submit. \<open>Subscribe\<close>: the stream of events. The inductive relation \<open>sub_run\<close>
    lets the hub commit between any two steps of the stream; its invariant says what was delivered, and which events
    are lost.
  \<^item> \<open>HubNode\<close>: \<^verbatim>\<open>hubble.ts\<close> and \<^verbatim>\<open>utils/p2p.ts\<close>: the hub as a node. Its state is the sync engine, whose hub is the engine,
    and what it did to the network. Submitted messages and bundles, the handling of gossip and of contacts; every
    message of a bundle is answered in its place, and a peer can make the handler throw.
  \<^item> \<open>StorageJobs\<close>: the daily jobs of \<^verbatim>\<open>storage/jobs\<close>. Their loops over pages take fuel; out of fuel is a job that does
    not end.
  \<^item> \<open>Samples\<close>, \<open>SyncSamples\<close>, \<open>PeerSamples\<close>, \<open>ServerSamples\<close>, \<open>NodeSamples\<close>: concrete inputs on which the witnesses run the properties.

  \<^bold>\<open>Results.\<close> The first group of properties is about hubs that merge the same messages, about the engine, about the trie of ids,
  about syncing with peers, about the server and about the node with its jobs; the second characterises which messages, casts, user data, names and
  locations are accepted and what follows for an accepted one; the third is about bytes and ids;
  the fourth about the database, its iteration, and the storage of messages; the fifth about
  limits and caches; the sixth about the event log; the last about on-chain events.

  \<^bold>\<open>Not modelled.\<close> The wire coders that ts-proto generates are parameters (\<open>proto_codec\<close>,
  \<open>hub_event_codec\<close>), with the law that decoding reads back what encoding wrote where a property needs
  it. The start of the RPC servers, the peer-to-peer layer, the chain providers and the command line
  are listed in the manifest with the reasons.
\<close>

section \<open>Agreement of hubs\<close>

text \<open>C1: Two hubs that merged the same casts and cast removals, in whatever order and however often, give the
  same answers about every cast: the cast store is a conflict-free replicated data type.\<close>

theorem casts_converge:
  assumes "distinguishable well_formed_cast C U" "q \<in> U"
    and "snd ` set tms \<subseteq> U" "snd ` set tms' = snd ` set tms"
    and "unused (map postfix_byte [CastMessage, CastAdds, CastRemoves]) (rdb_disk (fst st))"
    and "unused (map postfix_byte [CastMessage, CastAdds, CastRemoves]) (rdb_disk (fst st'))"
    and "rdb_native_open (fst st)" "rdb_native_open (fst st')"
    and "ids_suffice tms (snd st)" "ids_suffice tms' (snd st')"
  shows "native_get_add (CastStoreDef n) C (merged_disk (CastStoreDef n) C D tms st) q =
         native_get_add (CastStoreDef n) C (merged_disk (CastStoreDef n) C D' tms' st') q \<and>
         native_get_remove (CastStoreDef n) C (merged_disk (CastStoreDef n) C D tms st) q =
         native_get_remove (CastStoreDef n) C (merged_disk (CastStoreDef n) C D' tms' st') q"
proof -
  note p = cast_store_simps(4)[of n]
  have "casts.holds n C U (snd ` set tms) (merged_disk (CastStoreDef n) C D tms st)"
    by (rule casts.holds_merged_ids[OF assms(1) assms(5)[unfolded p] assms(7,3,9)])
  moreover have "casts.holds n C U (snd ` set tms) (merged_disk (CastStoreDef n) C D' tms' st')"
    using casts.holds_merged_ids[OF assms(1) assms(6)[unfolded p] assms(8) _ assms(10)] assms(3,4) by simp
  ultimately show ?thesis by (rule casts.same_messages_same_answers[OF assms(1,3) _ _ assms(2)])
qed

theorem casts_converge_witness:
  "native_get_add (CastStoreDef 0) cast_coder (merged_disk (CastStoreDef 0) cast_coder sample_hub_coder
      (map (Pair sample_now) [sample_cast, sample_message]) (sample_db [], sample_generator)) sample_cast =
    native_get_add (CastStoreDef 0) cast_coder (merged_disk (CastStoreDef 0) cast_coder sample_hub_coder
      (map (Pair sample_now) [sample_message, sample_cast, sample_message]) (sample_db [], sample_generator)) sample_cast \<and>
   native_get_remove (CastStoreDef 0) cast_coder (merged_disk (CastStoreDef 0) cast_coder sample_hub_coder
      (map (Pair sample_now) [sample_cast, sample_message]) (sample_db [], sample_generator)) sample_cast =
    native_get_remove (CastStoreDef 0) cast_coder (merged_disk (CastStoreDef 0) cast_coder sample_hub_coder
      (map (Pair sample_now) [sample_message, sample_cast, sample_message]) (sample_db [], sample_generator)) sample_cast"
proof (rule casts_converge[OF sample_casts_distinguishable])
  show "ids_suffice (map (Pair sample_now) [sample_cast, sample_message]) (snd (sample_db [], sample_generator))"
    using sample_ids[of "[sample_cast, sample_message]"] by simp
  show "ids_suffice (map (Pair sample_now) [sample_message, sample_cast, sample_message]) (snd (sample_db [], sample_generator))"
    using sample_ids[of "[sample_message, sample_cast, sample_message]"] by simp
qed (auto simp: unused_def db_inv_def)

text \<open>C2: Once a hub has merged the removal of a cast, no merge of the cast, before or after and whatever its
  timestamp, brings the cast back.\<close>

theorem removed_cast_stays_removed:
  assumes "distinguishable well_formed_cast C U" "q \<in> U" "snd ` set tms \<subseteq> U"
    and "unused (map postfix_byte [CastMessage, CastAdds, CastRemoves]) (rdb_disk (fst st))"
    and "rdb_native_open (fst st)" "ids_suffice tms (snd st)"
    and "r \<in> snd ` set tms" "msg_type r = CAST_REMOVE"
    and "msg_fid32 q = msg_fid32 r" "cast_subject q = cast_subject r"
  shows "native_get_add (CastStoreDef n) C (merged_disk (CastStoreDef n) C D tms st) q \<noteq> Ok (Some w)"
proof
  assume f: "native_get_add (CastStoreDef n) C (merged_disk (CastStoreDef n) C D tms st) q = Ok (Some w)"
  note p = cast_store_simps(4)[of n]
  have "casts.holds n C U (snd ` set tms) (merged_disk (CastStoreDef n) C D tms st)"
    by (rule casts.holds_merged_ids[OF assms(1) assms(4)[unfolded p] assms(5,3,6)])
  from casts.found_add[OF assms(1) this assms(2) f]
  have "msg_type w = CAST_ADD" "cast_rank (msg_type r) (msg_tshash r) \<le> cast_rank (msg_type w) (msg_tshash w)"
    using assms(7,9,10) by (auto simp: cast_store_simps(1)[of n] cast_store_simps(2,3))
  then show False
    using assms(8) by (simp add: cast_rank_def)
qed

theorem removed_cast_stays_removed_witness:
  "native_get_add (CastStoreDef 0) cast_coder (merged_disk (CastStoreDef 0) cast_coder sample_hub_coder
      (map (Pair sample_now) [sample_message, sample_cast]) (sample_db [], sample_generator)) sample_cast \<noteq>
   Ok (Some sample_cast)"
proof (rule removed_cast_stays_removed[OF sample_casts_distinguishable, where r = sample_message])
  show "ids_suffice (map (Pair sample_now) [sample_message, sample_cast]) (snd (sample_db [], sample_generator))"
    using sample_ids[of "[sample_message, sample_cast]"] by simp
qed (simp_all add: unused_def db_inv_def sample_cast_parts)

text \<open>C3: The reaction store finds exactly the reaction of the highest rank among those merged about the same
  target: the latest, a removal before an addition at the same second, then the larger hash.\<close>

theorem reactions_last_write_wins:
  assumes "distinguishable well_formed_reaction C U" "q \<in> U" "snd ` set tms \<subseteq> U"
    and "unused (map postfix_byte [ReactionMessage, ReactionAdds, ReactionRemoves]) (rdb_disk (fst st))"
    and "rdb_native_open (fst st)" "ids_suffice tms (snd st)"
    and "msg_data q = Some d" "md_fid d \<noteq> numI 0"
  shows "native_get_add (ReactionStoreDef n) C (merged_disk (ReactionStoreDef n) C D tms st) q = Ok (Some w) \<longleftrightarrow>
         w \<in> snd ` set tms \<and> msg_type w = REACTION_ADD \<and>
         msg_fid32 w = msg_fid32 q \<and> reaction_subject w = reaction_subject q \<and>
         (\<forall>m \<in> snd ` set tms. msg_fid32 m = msg_fid32 q \<and> reaction_subject m = reaction_subject q \<longrightarrow>
            default_rank REACTION_REMOVE (msg_type m) (msg_tshash m) \<le>
            default_rank REACTION_REMOVE (msg_type w) (msg_tshash w))"
proof -
  note p = reaction_store_simps(4)[of n]
  have "reactions.holds n C U (snd ` set tms) (merged_disk (ReactionStoreDef n) C D tms st)"
    by (rule reactions.holds_merged_ids[OF assms(1) assms(4)[unfolded p] assms(5,3,6)])
  from reactions.get_add_iff[OF assms(1,3) this assms(2), of w] assms(7,8) show ?thesis
    by (auto simp: reaction_store_simps(1-3))
qed

theorem reactions_last_write_wins_witness:
  "native_get_add (ReactionStoreDef 0) reaction_coder (merged_disk (ReactionStoreDef 0) reaction_coder sample_hub_coder
      (map (Pair sample_now) [sample_reaction REACTION_ADD 1]) (sample_db [], sample_generator))
      (sample_reaction REACTION_ADD 1) = Ok (Some (sample_reaction REACTION_ADD 1))"
proof -
  let ?r = "sample_reaction REACTION_ADD 1"
  obtain d where d: "msg_data ?r = Some d" "md_fid d \<noteq> numI 0" using sample_reaction_parts(4) by fastforce
  have i: "ids_suffice (map (Pair sample_now) [?r]) (snd (sample_db [], sample_generator))"
    using sample_ids[of "[?r]"] by simp
  have "unused (map postfix_byte [ReactionMessage, ReactionAdds, ReactionRemoves]) (rdb_disk (fst (sample_db [], sample_generator)))"
    by (simp add: unused_def db_inv_def)
  from reactions_last_write_wins[OF sample_reactions_distinguishable _ _ this _ i d, where w = ?r]
  show ?thesis by (simp add: sample_reaction_parts)
qed

section \<open>Jobs\<close>

text \<open>C4: A worker that is not busy runs every due job of the queue once, in the order in which they are due,
  and terminates with an empty queue, ready for more, if no job throws or touches the queue.\<close>

theorem revoke_queue_drained:
  assumes "\<And>j q. queue_ok J fuel t q \<Longrightarrow> \<exists>r q'. processJob j q = (Some r, q') \<and> (\<forall>e. r \<noteq> Throw e) \<and>
             queue_ok J fuel t q' \<and> pending_jobs J t q' = pending_jobs J t q \<and> did (snd q') = did (snd q) @ [j]"
    and "queue_ok J fuel t q" "length (pending_jobs J t q) < n"
    and "t = (case doBefore of Some t \<Rightarrow> if t \<noteq> 0 then t else now + 500 | None \<Rightarrow> now + 500)"
  shows "\<exists>q'. processJobs n fuel J processJob now doBefore Waiting q = (Some (Ok ()), Waiting, q') \<and>
     pending_jobs J t q' = [] \<and> did (snd q') = did (snd q) @ pending_jobs J t q"
  using processJobs_drains[where did = did, OF assms] by blast

theorem revoke_queue_drained_witness:
  "\<exists>q'. processJobs 2 2 sample_jobs note_job 100 None Waiting (sample_db sample_queue, []) = (Some (Ok ()), Waiting, q') \<and>
     pending_jobs sample_jobs 600 q' = [] \<and> id (snd q') = [sample_job]"
proof -
  let ?q = "(sample_db sample_queue, [] :: RevokeMessagesBySignerJobPayload list)"
  have "\<exists>q'. processJobs 2 2 sample_jobs note_job 100 None Waiting ?q = (Some (Ok ()), Waiting, q') \<and>
     pending_jobs sample_jobs 600 q' = [] \<and> id (snd q') = id (snd ?q) @ pending_jobs sample_jobs 600 ?q"
    by (rule revoke_queue_drained[OF _ sample_queue_ok(1)])
      (auto simp: note_job_def queue_ok_def pending_jobs_def sample_queue_length)
  then show ?thesis by (simp add: sample_queue_ok(2))
qed

text \<open>C5: Whatever casts, cast removals and repetitions a store merges in batches, in whatever order and
  whether they win, lose or fail, the cached number of messages of every user stays the number of casts
  and removals that the database holds for the user.\<close>

theorem cast_counts_exact:
  assumes "distinguishable well_formed_cast (hp_proto E) U" "\<forall>m \<in> U. sendable (hp_proto E) m"
    and "events_coded (hp_events E) U"
    and "unused (map postfix_byte [CastMessage, CastAdds, CastRemoves]) (rdb_disk (fst hub))"
    and "ready CastMessage hub" "counts_exact CastMessage hub"
    and "\<forall>b \<in> set batches. set (snd b) \<subseteq> U"
    and "merge_batches E (CastStore n) batches hub = (Some (Ok rss), hub')"
    and "u32 f" "sc_counts (seh_storageCache (snd hub')) (cache_key f (postfix_byte CastMessage)) = Some k"
  shows "k = int (stored_count (set_prefix f (postfix_byte CastMessage)) (rdb_disk (fst hub')))"
proof -
  let ?n = "case n of Some n \<Rightarrow> n | None \<Rightarrow> 0"
  have S: "rs_def (CastStore n) = CastStoreDef ?n" "rs_postfix (CastStore n) = CastMessage"
    "postfix_byte CastMessage = sd_postfix (CastStoreDef ?n)" "postfix_byte CastMessage \<noteq> 255"
    by (simp_all add: CastStore_def CastStoreDef_def Let_def)
  have "casts.backed ?n (hp_proto E) U (rdb_disk (fst hub))"
    by (rule casts.backed_empty[where n = ?n, folded cast_store_simps(4)[of ?n]]) (rule assms(4))
  moreover have "\<forall>m \<in> U. sendable (hp_proto E) m \<and> in_set CastMessage m"
    using assms(1,2) by (auto simp: distinguishable_def intro: cast_in_set)
  ultimately have "counts_exact CastMessage hub'"
    using casts.batches_keep_counts[OF S assms(1) _ assms(3) assms(7,5,6) _ assms(8)] by blast
  with assms(9,10) show ?thesis by (simp add: counts_exact_def)
qed

theorem cast_counts_exact_witness:
  "\<exists>hub'. merge_batches cast_params (CastStore None) [(sample_now, [sample_cast])] cast_hub =
      (Some (Ok [[(0, Ok 409600000)]]), hub') \<and>
     1 = int (stored_count (set_prefix 1 (postfix_byte CastMessage)) (rdb_disk (fst hub')))"
proof -
  obtain hub' where *: "merge_batches cast_params (CastStore None) [(sample_now, [sample_cast])] cast_hub =
      (Some (Ok [[(0, Ok 409600000)]]), hub')"
    "sc_counts (seh_storageCache (snd hub')) (cache_key 1 (postfix_byte CastMessage)) = Some 1"
    using sample_batch_runs by blast
  have "1 = int (stored_count (set_prefix 1 (postfix_byte CastMessage)) (rdb_disk (fst hub')))"
    by (rule cast_counts_exact[OF _ _ cast_params_parts(2) cast_hub_parts _ *(1) _ *(2)])
      (simp_all add: cast_params_parts(1,3) sample_casts_distinguishable)
  with *(1) show ?thesis by blast
qed



text \<open>A batch of the engine that returns answers every one of its messages exactly once, by its position,
  whatever the checks, the limits and the stores said.\<close>

theorem engine_answers_all:
  assumes "Engine_mergeMessages E now ms en = (Some (Ok results), en')"
  shows "fst ` set results = {..<length ms} \<and> distinct (map fst results)"
  using Engine_mergeMessages_answers[OF assms] by blast

theorem engine_answers_all_witness:
  "fst ` set [(0::nat, Ok 409600000 :: int outcome)] = {..<length [sample_message]}"
proof -
  obtain en' where "Engine_mergeMessages sample_engine_env sample_now [sample_message] sample_engine =
      (Some (Ok [(0, Ok 409600000)]), en')"
    using sample_engine_merges by (metis prod.collapse)
  from engine_answers_all[OF this] show ?thesis by (rule conjunct1)
qed



section \<open>The trie of sync ids\<close>

text \<open>C8: Whatever insertions and deletions of sync ids arrive while batches are with the native trie, in whatever
  interleaving, once nothing new arrives the trie holds exactly the ids that the calls give one after the other, and
  no update is left waiting. The calls are assumed to use one array for equal bytes, and ids made before 2052.\<close>

theorem trie_follows_calls:
  assumes "refs_ok R" "coder_ok E" "\<forall>ev \<in> set evs. event_refs ev \<subseteq> R" "holds_ids E K mt" "K \<subseteq> snd ` R"
  shows "holds_ids E (fold event_set evs K) (tu_trie (run_trie E (evs @ drain) (new_trie_updates mt))) \<and>
         countPendingUpdates (run_trie E (evs @ drain) (new_trie_updates mt)) = 0"
  using queue_drained[OF assms] by blast

theorem trie_follows_calls_witness:
  "holds_ids sample_trie_coder {sample_id 2} (tu_trie (run_trie sample_trie_coder
     ([InsertBytes [((1, sample_id 1), 0), ((2, sample_id 2), 1)], DeleteByBytes [((1, sample_id 1), 2)]] @ drain)
     (new_trie_updates sample_trie)))"
proof -
  have refs: "refs_ok {(1, sample_id 1), (2, sample_id 2)}"
    using sample_id_early by (simp add: refs_ok_def sample_id_inject)
  have "fold event_set [InsertBytes [((1, sample_id 1), 0), ((2, sample_id 2), 1)], DeleteByBytes [((1, sample_id 1), 2)]] {} =
      {sample_id 2}"
    by (auto simp: event_set_def sample_id_inject)
  with trie_follows_calls[OF refs sample_trie_coder_ok _ sample_trie_holds(1),
      of "[InsertBytes [((1, sample_id 1), 0), ((2, sample_id 2), 1)], DeleteByBytes [((1, sample_id 1), 2)]]"]
  show ?thesis by (simp add: event_refs_def)
qed

text \<open>Two tries with the same sync ids have the same root hash, by whatever batches of insertions and deletions they
  came to have them, and however much of either is in memory: hubs compare tries by this hash.\<close>

theorem same_ids_same_root_hash:
  assumes "coder_ok E" "sync_ids_ok U" "batches_ok U bs" "batches_ok U bs'"
    and "holds_ids E {} mt" "holds_ids E {} mt'" "batches_set bs {} = batches_set bs' {}" "batches_set bs {} \<noteq> {}"
  shows "fst (rsMerkleTrieRootHash (apply_batches E bs mt)) = fst (rsMerkleTrieRootHash (apply_batches E bs' mt'))"
  using root_hash_of_held[OF conjunct1[OF apply_batches_ok[OF assms(1-3,5)]]]
    root_hash_of_held[OF conjunct1[OF apply_batches_ok[OF assms(1,2,4,6)]]] assms(7,8) by simp

theorem same_ids_same_root_hash_witness:
  "fst (rsMerkleTrieRootHash (apply_batches sample_trie_coder [([sample_id 1, sample_id 2], [])] sample_trie)) =
   fst (rsMerkleTrieRootHash (apply_batches sample_trie_coder
     [([sample_id 2, sample_id 3], []), ([sample_id 1], [sample_id 3])] sample_trie))"
proof (rule same_ids_same_root_hash[OF sample_trie_coder_ok _ _ _ sample_trie_holds(1) sample_trie_holds(1)])
  show "sync_ids_ok {sample_id 1, sample_id 2, sample_id 3}"
    using sample_id_early by (intro early_ids_ok) (auto simp: card_insert_if)
qed (auto simp: batches_ok_def batches_set_def sample_id_inject)

text \<open>C9: A batch of insertions and deletions takes the trie from a set of sync ids to the union with the first and then
  the difference with the second, whether or not it is written to the database on the way, and the results say which ids
  were new and which were there.\<close>

theorem trie_batch_refines_sets:
  assumes "holds_ids E K mt" "coder_ok E" "distinct ins" "distinct del" "sync_ids_ok (K \<union> set ins \<union> set del)"
  shows "fst (rsMerkleTrieBatchUpdate E ins del mt) = Ok (map (\<lambda>k. k \<notin> K) ins @ map (\<lambda>k. k \<in> K \<union> set ins) del) \<and>
         holds_ids E (K \<union> set ins - set del) (snd (rsMerkleTrieBatchUpdate E ins del mt))"
  using batch_update_ok[OF assms] by auto

theorem trie_batch_refines_sets_witness:
  "fst (rsMerkleTrieBatchUpdate sample_trie_coder [sample_id 1] [sample_id 2] sample_trie) = Ok [True, False]"
proof -
  have "sync_ids_ok ({} \<union> set [sample_id 1] \<union> set [sample_id 2])"
    using sample_id_early by (intro early_ids_ok) (auto simp: card_insert_if)
  from trie_batch_refines_sets[OF sample_trie_holds(1) sample_trie_coder_ok _ _ this] show ?thesis
    by (simp add: sample_id_inject)
qed

text \<open>C10: What a trie holds when it is stopped, it holds when it is started again on its database.\<close>

theorem trie_survives_restart:
  assumes "holds_ids E K mt" "coder_ok E" "mt_db_owned mt"
  shows "\<exists>mt1 mt2. rsMerkleTrieStop mt = (Ok (), mt1) \<and> rsMerkleTrieInitialize E locked mt1 = (Ok (), mt2) \<and> holds_ids E K mt2"
  using restart_ok[OF assms, of locked] by (auto simp: rsMerkleTrieStop_def rsMerkleTrieInitialize_def)

theorem trie_survives_restart_witness:
  "\<exists>mt1 mt2. rsMerkleTrieStop sample_trie = (Ok (), mt1) \<and> rsMerkleTrieInitialize sample_trie_coder [] mt1 = (Ok (), mt2) \<and>
     holds_ids sample_trie_coder {} mt2"
  by (rule trie_survives_restart[OF sample_trie_holds(1) sample_trie_coder_ok sample_trie_holds(2)])

text \<open>C11: An id that is inserted after it was asked to be deleted can get lost: when the two calls name the same bytes by
  different arrays and wait together, the deletion does not leave the queue and is done after the insertion.\<close>

theorem equal_bytes_lose_insert:
  assumes "coder_ok E" "holds_ids E {} mt" "early_id x" "early_id y" "x \<noteq> y"
    and "evs = [InsertBytes [((0, y), 0)], DeleteByBytes [((1, x), 1)], InsertBytes [((2, x), 2)]]"
  shows "x \<in> fold event_set evs {} \<and> holds_ids E {y} (tu_trie (run_trie E (evs @ drain) (new_trie_updates mt)))"
  using equal_bytes_swapped[OF assms(1-5)] by (simp add: assms(6) event_set_def)

theorem equal_bytes_lose_insert_witness:
  "holds_ids sample_trie_coder {sample_id 2} (tu_trie (run_trie sample_trie_coder
     ([InsertBytes [((0, sample_id 2), 0)], DeleteByBytes [((1, sample_id 1), 1)], InsertBytes [((2, sample_id 1), 2)]] @ drain)
     (new_trie_updates sample_trie)))"
  using equal_bytes_lose_insert[OF sample_trie_coder_ok sample_trie_holds(1) sample_id_early[of 1] sample_id_early[of 2] _ refl]
  by (simp add: sample_id_inject)



text \<open>C13: The sync id of a message is taken apart into its user, its primary key in the database and its hash.\<close>

theorem sync_id_round_trip:
  assumes "msg_data m = Some d" "md_fid d = numI f" "u32 f" "msg_hash m = Some h" "length h = HASH_LENGTH"
    and "typeToSetPostfix (md_type d) = Ok pfx" "u32 (md_timestamp d)"
  shows "\<exists>i pk. sync_fromMessage m = Ok i \<and> makeMessagePrimaryKeyFromMessage m = Ok pk \<and>
     sync_unpack i = Ok (MessageSyncId f pk h) \<and> sync_type i = SyncIdMessage"
  using unpack_message[OF assms] .

theorem sync_id_round_trip_witness:
  "\<exists>i pk. sync_fromMessage sample_message = Ok i \<and> makeMessagePrimaryKeyFromMessage sample_message = Ok pk \<and>
     sync_unpack i = Ok (MessageSyncId 1 pk (replicate 20 7)) \<and> sync_type i = SyncIdMessage"
  by (rule sync_id_round_trip[OF sample_sync_parts])

section \<open>Syncing with a peer\<close>





text \<open>The trie answers the questions of peers exactly: the metadata of a node gives the number of ids below it, the hash
  of these ids and its children; the ids below a prefix are listed in order, all of them or more than the limit of a
  call; and nothing is changed by asking.\<close>

theorem trie_answers_exact:
  assumes "holds_ids E K mt" "node_at K [] q" "\<forall>k \<in> K. length k < length q + d"
  shows "(\<exists>m. rsMerkleTrieGetTrieNodeMetadata E q mt = Ok (Some m) \<and> set_metadata E K q m) \<and>
     (\<exists>vs mt'. rsMerkleTrieGetAllValues d E q mt = (Ok vs, mt') \<and> first_ids vs (sorted_list_of_set (sub K q)) \<and>
        holds_ids E K mt')"
proof
  show "\<exists>m. rsMerkleTrieGetTrieNodeMetadata E q mt = Ok (Some m) \<and> set_metadata E K q m" by (rule metadata_ok[OF assms(1,2)])
  have "K \<noteq> {}" using assms(2) by (auto simp: node_at_def sub_def)
  from get_all_values_ok[OF assms(1) this assms(3)] assms(2)
  show "\<exists>vs mt'. rsMerkleTrieGetAllValues d E q mt = (Ok vs, mt') \<and> first_ids vs (sorted_list_of_set (sub K q)) \<and>
      holds_ids E K mt'" by auto
qed

theorem trie_answers_exact_witness:
  "\<exists>m. rsMerkleTrieGetTrieNodeMetadata sample_hash_coder [] (sample_held [sample_id 1, sample_id 2]) = Ok (Some m) \<and>
     nm_numMessages m = 2"
proof -
  have h: "holds_ids sample_hash_coder two_ids (sample_held [sample_id 1, sample_id 2])"
    using sample_held_ok[of "[sample_id 1, sample_id 2]"] by (simp add: two_ids_def sample_id_inject)
  have n: "node_at two_ids [] []" "sub two_ids [] = two_ids" "card two_ids = 2"
    by (auto simp: node_at_def sub_def two_ids_def sample_id_inject)
  have "\<forall>k \<in> two_ids. length k < length ([] :: bytes) + 40" using sample_id_base by (auto simp: two_ids_def)
  from trie_answers_exact[OF h n(1) this] n show ?thesis by (fastforce simp: set_metadata_def)
qed

text \<open>C16: A sync, with whatever peers and however they answer, hands no message to the hub that it did not ask the
  peers for: every message of a bundle has the hash of a sync id that was asked for before, and every message that
  is tried again alone was in a bundle before.\<close>

theorem sync_submits_only_asked:
  assumes "only_asked (sy_log st)"
  shows "only_asked (sy_log (snd (performSync fuel E peerId client doAudit secondaries st)))"
  by (rule performSync_only_asked[OF assms])

theorem sync_submits_only_asked_witness:
  "only_asked (sy_log (snd (performSync 3 sample_sync_env [112] bad_client False [] sample_sync_engine)))"
  by (rule sync_submits_only_asked) (simp add: sample_sync_engine_def new_SyncEngine_def)

text \<open>C17: A peer can hang the sync of a hub: when it promises one id and gives several, of which one is the id of an
  on-chain event that is cut short, an exception escapes from the work item and the sync never ends.\<close>

theorem malformed_id_hangs_sync:
  assumes "promises_one_id client h ids" "our_metadata E [] st = Ok ours" "\<forall>n. ours = Some n \<longrightarrow> nm_hash n \<noteq> h"
    and "i \<in> set ids" "malformed_event_id i" "2 \<le> length ids" "[] \<notin> set ids" "peer \<noteq> []"
    and "\<And>w. sn_pop E [w] = Some (w, [])" "sn_pop E [] = None" "\<not> sn_timedOut E 0"
  shows "fst (performSync (Suc fuel) E peer client False [] st) = None"
  by (rule malformed_id_hangs[OF assms])

theorem malformed_id_hangs_sync_witness:
  "fst (performSync (Suc 9) sample_sync_env [112] bad_client False [] sample_sync_engine) = None"
proof -
  obtain n where n: "our_metadata sample_sync_env [] sample_sync_engine = Ok (Some n)" "nm_hash n \<noteq> []"
    using sample_our_metadata by blast
  have "promises_one_id bad_client [] [short_id, short_id]" by (simp add: promises_one_id_def bad_client_def)
  moreover have "\<And>w. sn_pop sample_sync_env [w] = Some (w, [])" "sn_pop sample_sync_env [] = None" "\<not> sn_timedOut sample_sync_env 0"
    by (simp_all add: sample_sync_env_def)
  ultimately show ?thesis
    using malformed_id_hangs_sync[OF _ n(1) _ _ short_id_malformed(1), of bad_client "[]" "[short_id, short_id]" "[112]" 9]
      n(2) short_id_malformed(2) by simp
qed

text \<open>C18: When a shard is added, a user stays on the shard it was on or moves to the new one, and the shard of a user is
  always one of the shards that there are.\<close>

theorem shards_move_to_new_one:
  assumes "n \<le> 2 ^ 31"
  shows "(jumpConsistentHash key (Suc n) = jumpConsistentHash key n \<or> jumpConsistentHash key (Suc n) = n) \<and>
     jumpConsistentHash key (Suc n) < Suc n"
  using jump_hash_consistent[OF assms] jump_loop_bound by (simp add: jumpConsistentHash_def)

theorem shards_move_to_new_one_witness:
  "jumpConsistentHash 7 (Suc 5) = jumpConsistentHash 7 5 \<or> jumpConsistentHash 7 (Suc 5) = 5"
  using shards_move_to_new_one[of 5 7] by simp

section \<open>The server\<close>

text \<open>C19: What a hub answers about its trie over the wire is what its set of ids says: the other hub reads back the exact
  metadata of a node (the number of ids below it, their hash and the children), the ids below the prefix in order, as
  many as a call gives, and the snapshot of the set with the hash of its root; and the set stays the same.\<close>

theorem server_answers_exact:
  assumes "server_holds E K sv" "node_at K [] q" "\<forall>k \<in> K. length k < length q + sn_depth E"
    and "pre \<noteq> []" "snapshot_of (sn_coder E) K [] pre = (hs, m, p)"
  shows "(\<exists>response. rpc_getSyncMetadataByPrefix E q sv = (Some (Answered response), sv) \<and>
       set_metadata (sn_coder E) K q (fromNodeMetadataResponse response)) \<and>
     (\<exists>ids sv'. rpc_getAllSyncIdsByPrefix E q sv = (Some (Answered ids), sv') \<and>
       first_ids ids (sorted_list_of_set (sub K q)) \<and> server_holds E K sv') \<and>
     (\<exists>sv'. rpc_getSyncSnapshotByPrefix E pre sv =
        (Some (Answered \<lparr>tns_prefix = p, tns_excludedHashes = map buffer_hex hs, tns_numMessages = m,
                         tns_rootHash = buffer_hex (key_hash (sn_coder E) [] K)\<rparr>), sv') \<and> server_holds E K sv')"
proof -
  have "K \<noteq> {}" using assms(2) by (auto simp: node_at_def sub_def)
  from metadata_answer[OF assms(1,2)] ids_answer[OF assms(1-3)] snapshot_answer[OF assms(1) this assms(4,5)]
  show ?thesis by blast
qed

theorem server_answers_exact_witness:
  "\<exists>response. rpc_getSyncMetadataByPrefix sample_sync_env [] (sample_server [sample_id 1, sample_id 2]) =
      (Some (Answered response), sample_server [sample_id 1, sample_id 2]) \<and>
     nm_numMessages (fromNodeMetadataResponse response) = 2"
proof -
  have "set [sample_id 1, sample_id 2] = two_ids" by (simp add: two_ids_def)
  then have h: "server_holds sample_sync_env two_ids (sample_server [sample_id 1, sample_id 2])"
    using sample_server_holds[OF sample_held_ok[of "[sample_id 1, sample_id 2]"], of sample_sync_env]
    by (simp add: two_ids_def sample_id_inject)
  have n: "node_at two_ids [] []" "sub two_ids [] = two_ids" "card two_ids = 2"
    by (auto simp: node_at_def sub_def two_ids_def sample_id_inject)
  have d: "\<forall>k \<in> two_ids. length k < length ([] :: bytes) + sn_depth sample_sync_env"
    using sample_id_base by (auto simp: two_ids_def)
  obtain hs m p where "snapshot_of (sn_coder sample_sync_env) two_ids [] [48] = (hs, m, p)" by (metis prod_cases3)
  from server_answers_exact[OF h n(1) d _ this] n show ?thesis by (auto simp: set_metadata_def)
qed



text \<open>C21: Only users of the hub submit messages when it has users: a call, for one message or for many, whose credentials
  are not those of a user is not answered with success and leaves the hub as it is.\<close>

theorem only_users_submit:
  assumes "rg_users G \<noteq> []"
    and "fst (snd (rpc_submitMessage G now peer auth m (w, l))) \<noteq> w \<or>
       (\<exists>x. fst (rpc_submitMessage G now peer auth m (w, l)) = Some (Answered x)) \<or>
       fst (snd (rpc_submitBulkMessages G now peer auth ms (w, l))) \<noteq> w \<or>
       (\<exists>x. fst (rpc_submitBulkMessages G now peer auth ms (w, l)) = Some (Answered x))"
  shows "\<exists>header rest user pw others pws.
     auth = header # rest \<and> split_on 58 (rg_base64_text G (remove_first (lit ''Basic '') header)) = user # pw # others \<and>
     user \<noteq> [] \<and> pw \<noteq> [] \<and> map_of (rg_users G) user = Some pws \<and> pw \<in> set pws"
  using refused_call[OF _ assms(1)] assms(2) authenticateUser_sound[OF _ assms(1)] by metis

theorem only_users_submit_witness:
  "\<exists>header rest user pw others pws.
     [lit ''Basic al:pw''] = header # rest \<and> split_on 58 (remove_first (lit ''Basic '') header) = user # pw # others \<and>
     user \<noteq> [] \<and> pw \<noteq> [] \<and> map_of (rg_users sample_gate) user = Some pws \<and> pw \<in> set pws"
proof -
  have "\<exists>x. fst (rpc_submitMessage sample_gate 0 [112] [lit ''Basic al:pw''] sample_message ((), ())) = Some (Answered x)"
    by (rule sample_gate_answers)
  from only_users_submit[OF _ disjI2[OF disjI1[OF this]]] show ?thesis by (simp add: sample_gate_def)
qed

section \<open>The stream of events\<close>



section \<open>The hub as a node\<close>

text \<open>C23: Every message of a submitted bundle is answered in its place: a message that a peer gossiped and that is stored
  already is a duplicate, and every other one has what the engine answered for it, after its data bytes were decoded.
  The engine is given exactly those, in order.\<close>

theorem bundle_answered_in_place:
  assumes "syncTrieQSize hb \<le> MAX_SYNCTRIE_QUEUE_SIZE" "length (mb_messages b) \<le> MAX_BUNDLE_SIZE"
    and "bundle_known source (engine_db (node_engine hb)) (mb_messages b) = Ok exist"
    and "Engine_mergeMessages (hv_engine V) now
        (map (\<lambda>i. ensureMessageData (hp_proto (ee_hub (hv_engine V))) (mb_messages b ! i)) (places exist)) (node_engine hb) =
        (Some (Ok merged), en)"
  shows "\<exists>hb'. submitMessageBundle V now b source hb =
     (Some (Ok (map (bundle_answer exist merged) [0 ..< length (mb_messages b)])), hb') \<and> node_engine hb' = en"
  by (rule bundle_answered[OF assms])

theorem bundle_answered_in_place_witness:
  "\<exists>hb'. submitMessageBundle sample_hub_env sample_now (sample_bundle [sample_message]) FromRpc sample_node =
     (Some (Ok [Ok 409600000]), hb')"
proof -
  obtain en where "Engine_mergeMessages sample_engine_env sample_now [sample_message] sample_engine =
      (Some (Ok [(0, Ok 409600000)]), en)"
    using sample_engine_merges by (metis prod.collapse)
  moreover have "ensureMessageData C sample_message = sample_message" for C
    by (simp add: ensureMessageData_def has_dataBytes_def sample_message_def)
  moreover have "bundle_known FromRpc (engine_db (node_engine sample_node)) (mb_messages (sample_bundle [sample_message])) = Ok [False]"
    by (simp add: bundle_known_def sample_bundle_def)
  ultimately show ?thesis
    using bundle_answered_in_place[of sample_node "sample_bundle [sample_message]" FromRpc "[False]" sample_hub_env sample_now
        "[(0, Ok 409600000)]" en]
    by (auto simp: places_def sample_bundle_def MAX_BUNDLE_SIZE_def MAX_SYNCTRIE_QUEUE_SIZE_def bundle_answer_def)
qed

text \<open>C24: Any peer can make the handler of gossip throw: one message without data in a bundle is enough, whatever else is in it,
  because the keys of the messages are made before their data is looked at and outside of every check. Nothing is
  merged.\<close>

theorem gossiped_bundle_can_throw:
  assumes "go_message g = None" "go_messageBundle g = Some b" "m \<in> set (mb_messages b)" "msg_data m = None"
    and "length (mb_messages b) \<le> MAX_BUNDLE_SIZE"
    and "syncTrieQSize hb \<le> MAX_SYNCTRIE_QUEUE_SIZE" "sy_syncMergeQ (hb_sync hb) + syncTrieQSize hb \<le> MAX_SYNCTRIE_QUEUE_SIZE"
    and "getFarcasterTime now = Ok t" "go_timestamp g \<le> t + ALLOWED_CLOCK_SKEW_SECONDS_gossip"
    and "hv_peerIdFromBytes V (go_peerId g) = Ok peerId"
  shows "(\<exists>x. fst (handleGossipMessage V now g msgId hb) = Some (Throw x)) \<and>
     node_engine (snd (handleGossipMessage V now g msgId hb)) = node_engine hb"
  using gossiped_bundle_throws[OF assms] by blast

theorem gossiped_bundle_can_throw_witness:
  "\<exists>x. fst (handleGossipMessage sample_hub_env sample_now bad_gossip [] sample_node) = Some (Throw x)"
proof -
  have m: "dataless_message \<in> set (mb_messages (sample_bundle [sample_message, dataless_message]))" "msg_data dataless_message = None"
    by (simp_all add: sample_bundle_def dataless_message_def)
  have "hv_peerIdFromBytes sample_hub_env (go_peerId bad_gossip) = Ok [112]" by (simp add: sample_hub_env_def)
  from gossiped_bundle_can_throw[OF _ _ m _ _ _ sample_now_time _ this, of sample_node "[]"]
  show ?thesis
    by (auto simp: bad_gossip_def sample_bundle_def MAX_BUNDLE_SIZE_def MAX_SYNCTRIE_QUEUE_SIZE_def ALLOWED_CLOCK_SKEW_SECONDS_gossip_def)
qed

text \<open>C25: Once the users cannot be listed, the daily jobs that prune and validate messages end with that error but still count
  as running: every later run, whenever and over whatever engine, does nothing and says that it succeeded.\<close>

theorem failed_jobs_never_run_again:
  assumes "\<not> pj_running j" "Engine_getFids E no_page_options (pj_engine j) = (Some (Err e), en)"
    and "\<not> vj_running v" "Engine_getFids E no_page_options (vj_engine v) = (Some (Err e'), en')"
    and "getHubState (decodeHubState H) (vj_db v) = Ok h"
  shows "(\<exists>j'. prune_doJobs (Suc fuel) E now j = (Some (Err e), j') \<and>
       (\<forall>fuel E now. prune_doJobs fuel E now j' = (Some (Ok ()), j'))) \<and>
     (\<exists>v'. validate_doJobs (Suc fuel) E H now date checkAll v = (Some (Err e'), v') \<and>
       (\<forall>fuel E H now date checkAll. validate_doJobs fuel E H now date checkAll v' = (Some (Ok 0), v')))"
  using prune_failed_blocks[OF assms(1,2)] validate_failed_blocks[OF assms(3,4,5)] by blast

theorem failed_jobs_never_run_again_witness:
  "\<exists>j'. pj_running j' \<and> (\<forall>fuel E now. prune_doJobs fuel E now j' = (Some (Ok ()), j')) \<and>
     (\<exists>e. prune_doJobs 1 sample_engine_env sample_now \<lparr>pj_engine = closed_engine, pj_running = False\<rparr> = (Some (Err e), j'))"
proof -
  obtain e en where f: "Engine_getFids sample_engine_env no_page_options closed_engine = (Some (Err e), en)"
    using closed_engine_fids by blast
  have h: "getHubState (decodeHubState sample_hub_state) (vj_db \<lparr>vj_engine = closed_engine, vj_running = False\<rparr>) =
      Ok \<lparr>hst_lastFnameProof = 0, hst_lastL2Block = 0, hst_validateOrRevokeState = None\<rparr>"
    by (simp add: getHubState_def sample_hub_state_def)
  from failed_jobs_never_run_again[of "\<lparr>pj_engine = closed_engine, pj_running = False\<rparr>", OF _ _ _ _ h] f
  obtain j' where j: "prune_doJobs (Suc 0) sample_engine_env sample_now \<lparr>pj_engine = closed_engine, pj_running = False\<rparr> =
      (Some (Err e), j')" "\<forall>fuel E now. prune_doJobs fuel E now j' = (Some (Ok ()), j')" by fastforce
  have "pj_running j'"
    using j(2)[rule_format, of 0 sample_engine_env 0] by (auto simp: prune_doJobs_def await_def split: if_splits)
  with j show ?thesis by auto
qed

section \<open>Accepting messages\<close>

text \<open>C26: A message is accepted exactly when all its parts are there, its data is accepted, its data bytes
  (if any) are at most 2048, and its hash and signature are those of the BLAKE3 and Ed25519
  schemes over its data.\<close>

theorem message_accepted_iff:
  "validateMessage E m = Ok r \<longleftrightarrow>
   r = m \<and>
   (\<exists>d h s k. msg_data m = Some d \<and> msg_hash m = Some h \<and> msg_signature m = Some s \<and>
      msg_signer m = Some k \<and> validateMessageData E d = Ok d \<and>
      (case msg_dataBytes m of Some b \<Rightarrow> length b \<le> 2048 | None \<Rightarrow> True) \<and>
      msg_hashScheme m = BLAKE3 \<and> h = blake3_20 E (hashed_bytes E m d) \<and>
      msg_signatureScheme m = ED25519 \<and> ed25519_verify E s h k)"
  by (cases "msg_dataBytes m") (simp_all add: validateMessage_Ok)

text \<open>C27: Message data is accepted exactly when its fid is a positive integer, its timestamp is at most ten
  minutes ahead of the clock, its network and type are known, exactly one body is set, and that
  body passes the validator of the type.\<close>

theorem message_data_accepted_iff:
  "validateMessageData E d = Ok r \<longleftrightarrow>
   r = d \<and> (\<exists>i > 0. md_fid d = numI i) \<and>
   (\<exists>t. getFarcasterTime (env_now E) = Ok t \<and> md_timestamp d \<le> t + 600) \<and>
   md_network d \<in> set FarcasterNetwork_values \<and> md_type d \<in> set MessageType_values \<and>
   length (filter id (bodies_set d)) = 1 \<and> validateBody E d = Ok ()"
  by (simp only: validateMessageData_Ok bodySet_one)

text \<open>An accepted message satisfies exactly one of the type guards that the hub dispatches on.\<close>

theorem accepted_message_one_guard:
  assumes "validateMessage E m = Ok m'"
  shows "length (filter (\<lambda>g. g m) message_guards) = 1"
  using assms by (rule validated_message_guard)

theorem accepted_message_one_guard_witness:
  "length (filter (\<lambda>g. g sample_message) message_guards) = 1"
  by (rule accepted_message_one_guard[OF sample_message_valid])

text \<open>C28: A cast is accepted exactly when its text, measured in UTF-8 bytes, fits its type, it is not
  empty, its embeds and mentions are few enough and valid, and the mention positions are
  increasing integers within the text; and the validator always returns a result.\<close>

theorem cast_add_accepted_iff:
  "(validateCastAddBody b allow = Ok r \<longleftrightarrow> r = b \<and> cast_add_spec b allow) \<and>
   no_throw (validateCastAddBody b allow)"
  by (simp only: validateCastAddBody_iff validateCastAddBody_no_throw simp_thms)

text \<open>User data is accepted exactly when the value fits the field of its type: lengths in UTF-8
  bytes for pictures, texts and links, the name rules for user names, and the location and
  account-name formats.\<close>

theorem user_data_accepted_iff:
  "validateUserDataAddBody E b = Ok r \<longleftrightarrow> r = b \<and> user_data_spec E (udb_type b) (udb_value b)"
  by (simp only: validateUserDataAddBody_iff)

text \<open>A location is accepted exactly when it is empty or of the form \<^verbatim>\<open>geo:<lat>,<lon>\<close> where both are
  decimal numbers in the accepted notation and within 90 and 180 degrees.\<close>

theorem location_accepted_iff:
  "validateUserLocation s = Ok r \<longleftrightarrow>
   r = s \<and> (s = [] \<or> (\<exists>lat lon la lo.
     s = lit ''geo:'' @ lat @ 44 # lon \<and> 44 \<notin> set lat \<and> 44 \<notin> set lon \<and>
     geo_number 2 lat \<and> geo_number 3 lon \<and>
     parse_float lat = Some la \<and> parse_float lon = Some lo \<and> \<bar>la\<bar> \<le> 90 \<and> \<bar>lo\<bar> \<le> 180))"
  unfolding validateUserLocation_iff by blast

text \<open>On strings the four name validators accept exactly the names of their patterns; an ENS name is
  a valid fname followed by \<^verbatim>\<open>.eth\<close> that ENS normalisation takes, and a GitHub name has at most 38
  characters though its pattern allows 39.\<close>

theorem names_accepted_iff:
  "(is_ok (validateFname (Some (NameString s))) \<longleftrightarrow> FNAME_REGEX_test s) \<and>
   (is_ok (validateEnsName E (Some (NameString s))) \<longleftrightarrow>
      is_ok (ens_normalize E s) \<and> (\<exists>name. s = name @ lit ''.eth'' \<and> FNAME_REGEX_test name)) \<and>
   (is_ok (validateTwitterUsername (Some (NameString s))) \<longleftrightarrow> s \<noteq> [] \<and> TWITTER_REGEX_test s) \<and>
   (is_ok (validateGithubUsername (Some (NameString s))) \<longleftrightarrow> GITHUB_REGEX_test s \<and> length s \<le> 38)"
  by (auto simp: is_ok_iff validateFname_string validateEnsName_string validateTwitterUsername_string
      validateGithubUsername_string)

text \<open>C29: A username proof whose name is not valid UTF-8 makes \<open>validateMessage\<close> throw instead of
  returning an error.\<close>

theorem bad_utf8_name_throws:
  assumes "msg_data m = Some d" "valid_fid (md_fid d)" "getFarcasterTime (env_now E) = Ok t"
    and "md_timestamp d \<le> t + 600" "md_network d \<in> set FarcasterNetwork_values"
    and "md_type d = USERNAME_PROOF" "bodySet d = 1" "md_usernameProofBody d = Some p"
    and "unp_type p = USERNAME_TYPE_ENS_L1" "utf8_decode (strip_bom (unp_name p)) = None"
  shows "validateMessage E m = Throw TypeError"
  using assms by (rule validateMessage_throws)

theorem bad_utf8_name_throws_witness:
  "validateMessage sample_env sample_proof_message = Throw TypeError"
  by (rule bad_utf8_name_throws[of _ sample_proof_data _ 100 sample_proof, OF _ sample_proof_fid sample_time])
    (simp_all add: sample_proof_message_def sample_proof_data_def empty_data_def sample_proof_def
      FarcasterNetwork_values_def bodySet_def bodies_set_def strip_bom_def sample_not_utf8)

text \<open>C30: An accepted address verification carries a valid signature by the claimed address over the claim
  made from the message's own fid and network and the body's address and block hash.\<close>

theorem accepted_verification_sound:
  assumes "validateVerificationAddAddressBody E b fid network = Ok r"
  shows "\<exists>claim. makeVerificationAddressClaim (env_codecs E) fid (vab_address b) network (vab_blockHash b)
               (vab_protocol b) = Ok claim \<and>
       (vab_protocol b = ETHEREUM \<and> length (vab_claimSignature b) \<le> 2048 \<and>
          verifyVerificationEthAddressClaimSignature E claim (vab_claimSignature b) (vab_address b)
            (vab_verificationType b) (vab_chainId b) = Ok True \<or>
        vab_protocol b = SOLANA \<and> length (vab_claimSignature b) = 64 \<and>
          pureJS_ed25519_verify E (vab_claimSignature b) (utf8_encode (solana_claim_text claim))
            (vab_address b))"
  using validateVerificationAddAddressBody_sound[OF assms] by blast

theorem accepted_verification_sound_witness:
  "\<exists>claim. makeVerificationAddressClaim sample_codecs (numI 1) (replicate 32 1) 1 (replicate 32 3) SOLANA = Ok claim \<and>
     pureJS_ed25519_verify sample_env (replicate 64 2) (utf8_encode (solana_claim_text claim)) (replicate 32 1)"
  using accepted_verification_sound[OF sample_verification_validated[of 1]]
  by (auto simp: sample_verification_def sample_env_simps)

text \<open>Two address claims with the same text to sign are the same claim, when their addresses and block
  hashes contain no space (as base 58 does not).\<close>

theorem solana_text_determines_claim:
  assumes "solana_claim_text c = solana_claim_text d"
    and "32 \<notin> set (claim_address c)" "32 \<notin> set (claim_address d)"
    and "32 \<notin> set (claim_blockHash c)" "32 \<notin> set (claim_blockHash d)"
  shows "c = d"
  using assms by (rule solana_claim_text_inject)

theorem solana_text_determines_claim_witness:
  "sample_claim 5 = sample_claim 5"
  by (rule solana_text_determines_claim) (simp_all add: sample_claim_def)

section \<open>Building messages\<close>

text \<open>C31: A message made by a builder with an Ed25519 signer whose signatures verify is accepted.\<close>

theorem built_message_accepted:
  assumes "fst (sign_data E (makeMessageData E bodies type opts) signer) = Ok m"
    and "signer_sound E signer" "blake3_20 E = noble_blake3 E"
  shows "validateMessage E m = Ok m"
  using assms by (rule sign_data_validates)

theorem built_message_accepted_witness:
  "validateMessage sample_env sample_built = Ok sample_built"
  by (rule built_message_accepted[OF sample_built_made sample_signer_sound])
    (simp add: fun_eq_iff sample_env_simps)

section \<open>Bytes and times\<close>

text \<open>\<open>bytesCompare\<close> is the three-way comparison of the lexicographic order, a proper prefix being
  smaller.\<close>

theorem bytes_compare_lexicographic:
  "bytesCompare a b = (if a < b then -1 else if b < a then 1 else 0)"
  by (rule bytesCompare_cases)

text \<open>C32: Incrementing bytes adds one to the big-endian number they write and always succeeds (all 255 gets
  a byte more), and it is what the native code computes; decrementing takes one away at the same
  length, and fails only on zero.\<close>

theorem increment_decrement:
  "(\<exists>r. bytesIncrement bs = Ok r \<and> r = increment_vec_u8 bs \<and> be_int r = be_int bs + 1 \<and>
        length bs \<le> length r) \<and>
   (if bs = [] then bytesDecrement bs = Ok []
    else if be_int bs = 0 then bytesDecrement bs = fail InvalidParam ''Cannot decrement zero''
    else (\<exists>r. bytesDecrement bs = Ok r \<and> length r = length bs \<and> be_int r = be_int bs - 1))"
proof
  show "\<exists>r. bytesIncrement bs = Ok r \<and> r = increment_vec_u8 bs \<and> be_int r = be_int bs + 1 \<and> length bs \<le> length r"
    using bytesIncrement_value[of bs] increment_vec_u8_bytesIncrement[of bs] by simp
  show "if bs = [] then bytesDecrement bs = Ok []
    else if be_int bs = 0 then bytesDecrement bs = fail InvalidParam ''Cannot decrement zero''
    else (\<exists>r. bytesDecrement bs = Ok r \<and> length r = length bs \<and> be_int r = be_int bs - 1)"
    by (rule bytesDecrement_cases)
qed

text \<open>The keys from a prefix up to its increment are exactly those that start with the prefix, if none
  is a shorter beginning of the increment.\<close>

theorem prefix_is_range:
  assumes "\<exists>b \<in> set p. b \<noteq> 255" "bytesIncrement p = Ok r" "prefix k r \<longrightarrow> length p \<le> length k"
  shows "bytesStartsWith k p \<longleftrightarrow> p \<le> k \<and> k < r"
  using prefix_range[OF assms] by (simp add: bytesStartsWith_prefix)

theorem prefix_is_range_witness:
  "bytesStartsWith [1, 255, 7] [1, 255] \<longleftrightarrow> ([1, 255] :: bytes) \<le> [1, 255, 7] \<and> [1, 255, 7] < ([2, 0] :: bytes)"
  by (rule prefix_is_range) (simp_all add: bytesIncrement_def)

text \<open>Text without lone surrogates and without a leading byte-order mark survives the way through UTF-8
  bytes, and takes between one and three bytes per UTF-16 unit.\<close>

theorem utf8_round_trip:
  assumes "well_formed s" "take 3 (utf8_encode s) \<noteq> [239, 187, 191]"
  shows "andThen (utf8StringToBytes s) bytesToUtf8String = Ok s \<and>
         length s \<le> length (utf8_encode s) \<and> length (utf8_encode s) \<le> 3 * length s"
  using assms utf8_encode_length[of s]
  by (simp add: utf8StringToBytes_def bytesToUtf8String_def strip_bom_def utf8_decode_encode utf16_code_points)

theorem utf8_round_trip_witness:
  "andThen (utf8StringToBytes [104, 228, 55357, 56832]) bytesToUtf8String = Ok [104, 228, 55357, 56832]"
proof -
  have w: "well_formed [104, 228, 55357, 56832]"
    by (simp add: is_high_def is_low_def word_le_nat_alt)
  have e: "take 3 (utf8_encode [104, 228, 55357, 56832]) \<noteq> [239, 187, 191]"
    by (simp add: utf8_encode_def is_high_def is_low_def utf8_bytes_def unit_cp_def pair_cp_def word_le_nat_alt)
  show ?thesis
    using utf8_round_trip[OF w e] by (rule conjunct1)
qed

text \<open>An event id made from a time after the Farcaster epoch and a sequence number of twelve bits is the
  shifted time plus the number, and the time can be read back from it.\<close>

theorem event_id_round_trip:
  assumes "FARCASTER_EPOCH < t" "0 \<le> q" "q < 4096"
  shows "\<exists>e. makeEventId t q = Some e \<and> e = (t - FARCASTER_EPOCH) * 4096 + q \<and>
             extractEventTimestamp e = Some t"
  using assms makeEventId_value[of t q] extractEventTimestamp_value[of "(t - FARCASTER_EPOCH) * 4096 + q"]
  by simp

theorem event_id_round_trip_witness:
  "\<exists>e. makeEventId 1609459200009 5 = Some e \<and> e = (1609459200009 - FARCASTER_EPOCH) * 4096 + 5 \<and>
       extractEventTimestamp e = Some 1609459200009"
  by (rule event_id_round_trip) (simp_all add: FARCASTER_EPOCH_def)

text \<open>The TypeScript and the native code make the same event id from a time of 41 bits and a sequence
  number of 12.\<close>

theorem event_ids_same:
  assumes "uint t < 2 ^ 41" "uint q < 2 ^ 12"
  shows "makeEventId (uint t + FARCASTER_EPOCH) (uint q) = Some (uint (make_event_id t q))"
  using assms by (rule event_ids_agree)

theorem event_ids_same_witness:
  "makeEventId (uint (9 :: 64 word) + FARCASTER_EPOCH) (uint (5 :: 64 word)) = Some (uint (make_event_id 9 5))"
  by (rule event_ids_same) simp_all

section \<open>The database\<close>

text \<open>C33: After a commit a key holds what the last operation of the transaction on it wrote (nothing, after
  a deletion or an empty value), and what it held before when there is none; keys stay sorted.\<close>

theorem commit_last_write_wins:
  assumes "db_inv (rdb_disk db)" "rdb_native_open db"
  shows "\<exists>db'. RocksDB_commit db txn = (Ok (), db') \<and> db_inv (rdb_disk db') \<and>
    db_get (rdb_disk db') k =
      (case map_of (rev (map native_op txn)) k of Some r \<Rightarrow> r | None \<Rightarrow> db_get (rdb_disk db) k)"
  using assms by (simp add: RocksDB_commit_def commit_get commit_inv)

theorem commit_last_write_wins_witness:
  "\<exists>db'. RocksDB_commit (sample_db [([1], [2])]) [([1], Some [3]), ([1], None)] = (Ok (), db') \<and>
     db_inv (rdb_disk db') \<and> db_get (rdb_disk db') [1] = None"
  using commit_last_write_wins[of "sample_db [([1], [2])]" "[([1], Some [3]), ([1], None)]" "[1]"]
  by (simp add: sample_db_def db_inv_def native_op_def)



text \<open>Iterating a prefix in pages of 10000 entries is a single scan of the entries under the prefix when
  the keys under it have one length.\<close>

theorem prefix_iteration_single_scan:
  assumes "db_inv s" "fixed_layout s pre m" "length s < fuel"
  shows "rsDbForEachIteratorByPrefix fuel s pre no_page_options cb st =
           Some (single_pass cb (filter (\<lambda>e. prefix pre (fst e)) s) st)"
proof -
  have scan: "scan_by_prefix s pre no_page_options = filter (\<lambda>e. prefix pre (fst e)) s"
    using scan_first[OF assms(2), of no_page_options] by (simp add: no_page_options_def page_token_def)
  have "length (scan_by_prefix s pre no_page_options) < fuel"
    unfolding scan using assms(3) length_filter_le[of _ s] by (rule le_less_trans[rotated])
  from forEachIteratorByPrefix_single_pass[OF assms(1,2) _ this] show ?thesis
    unfolding scan by (simp add: no_page_options_def)
qed

theorem prefix_iteration_single_scan_witness:
  "rsDbForEachIteratorByPrefix 4 [([1, 1], [2]), ([1, 2], [4]), ([5, 1], [6])] [1] no_page_options
     (\<lambda>st k v. Ok (st @ [v], False)) [] = Some (Ok ([[2], [4]], True))"
  by (subst prefix_iteration_single_scan[where m = 2])
    (simp_all add: db_inv_def fixed_layout_def single_pass_def)

text \<open>Deleting a range deletes the entries within the bounds and no other.\<close>

theorem delete_range_exact:
  assumes "db_inv (rdb_disk db)" "proper_options (rdb_disk db) opts" "rdb_native_open db"
  shows "RocksDB_deleteAllKeysInRange db opts =
    (Ok True, db\<lparr>rdb_disk := filter (\<lambda>e. \<not> in_bounds opts (fst e)) (rdb_disk db)\<rparr>)"
  using assms by (rule deleteAllKeysInRange_exact)

theorem delete_range_exact_witness:
  "RocksDB_deleteAllKeysInRange (sample_db [([1], [2]), ([3], [4]), ([5], [6])])
     \<lparr>io_gte = Some [2], io_gt = None, io_lt = Some [5], io_reverse = False\<rparr> =
   (Ok True, sample_db [([1], [2]), ([5], [6])])"
  by (subst delete_range_exact) (simp_all add: sample_db_def db_inv_def proper_options_def in_bounds_def)

section \<open>Messages in the database\<close>

text \<open>Two messages with the same primary key agree on fid, set, timestamp and hash.\<close>

theorem message_key_identifies:
  assumes "makeMessagePrimaryKeyFromMessage m = Ok k" "makeMessagePrimaryKeyFromMessage m' = Ok k"
    and "msg_data m = Some d" "msg_data m' = Some d'" "md_fid d = numI f" "md_fid d' = numI f'"
  shows "f = f' \<and> typeToSetPostfix (md_type d) = typeToSetPostfix (md_type d') \<and>
         md_timestamp d = md_timestamp d' \<and> msg_hash m = msg_hash m'"
  using assms by (rule message_key_inject)

theorem message_key_identifies_witness:
  "(1 :: int) = 1 \<and> typeToSetPostfix (md_type sample_data) = typeToSetPostfix (md_type sample_data) \<and>
   md_timestamp sample_data = md_timestamp sample_data \<and> msg_hash sample_message = msg_hash sample_message"
  by (rule message_key_identifies[OF sample_message_key sample_message_key])
    (simp_all add: sample_message_def sample_data_def)

text \<open>C35: A message that was put is found and read back as it was, and no other key changes; the generated
  coders are assumed to decode what they encoded.\<close>

theorem put_then_get:
  assumes "db_inv (rdb_disk db)" "rdb_native_open db" "storable C m"
    and "makeMessagePrimaryKeyFromMessage m = Ok k"
  shows "\<exists>db'. putMessage C db m = (Ok (), db') \<and> db_inv (rdb_disk db') \<and>
      andThen (RocksDB_get db' k) (messageDecode C) = Ok m \<and> isMessageInDB db' m \<and>
      (\<forall>k'. k' \<noteq> k \<longrightarrow> RocksDB_get db' k' = RocksDB_get db k')"
  using assms by (rule put_then_get_message)

theorem put_then_get_witness:
  "\<exists>db'. putMessage sample_proto (sample_db [([1], [2])]) sample_message = (Ok (), db') \<and> db_inv (rdb_disk db') \<and>
     andThen (RocksDB_get db' sample_key) (messageDecode sample_proto) = Ok sample_message \<and>
     isMessageInDB db' sample_message \<and>
     (\<forall>k'. k' \<noteq> sample_key \<longrightarrow> RocksDB_get db' k' = RocksDB_get (sample_db [([1], [2])]) k')"
  by (rule put_then_get[OF _ _ sample_storable sample_message_key]) (simp_all add: sample_db_def db_inv_def)

text \<open>All messages of a user are the stored values, decoded in key order, of the keys of that user whose
  postfix byte is at most 85.\<close>

theorem all_messages_of_user:
  assumes "db_inv (rdb_disk db)" "rdb_native_open db" "u32 f" "no_bare_user_key f (rdb_disk db)"
    and "length (rdb_disk db) < fuel"
  shows "getAllMessagesByFid fuel C db (numI f) =
    Some (mapM (\<lambda>e. messageDecode C (snd e))
            (filter (\<lambda>e. prefix (1 # be_bytes 4 f) (fst e) \<and> fst e ! 5 \<le> UserMessagePostfixMax) (rdb_disk db)))"
  using getAllMessagesByFid_exact[OF assms] by (simp add: user_messages_def)

theorem all_messages_of_user_witness:
  "getAllMessagesByFid 3 sample_proto (sample_db [(sample_key, [1])]) (numI 1) =
    Some (mapM (\<lambda>e. messageDecode sample_proto (snd e))
            (filter (\<lambda>e. prefix (1 # be_bytes 4 1) (fst e) \<and> fst e ! 5 \<le> UserMessagePostfixMax) [(sample_key, [1])]))"
  using all_messages_of_user[of "sample_db [(sample_key, [1])]" 1 3 sample_proto]
  by (simp add: sample_db_def db_inv_def no_bare_user_key_def sample_key_def)

text \<open>A link compact state message is stored under its user's prefix but is not among all messages of
  the user: its postfix byte is above 85.\<close>

theorem compact_state_left_out:
  assumes "makeMessagePrimaryKeyFromMessage m = Ok k" "msg_data m = Some d"
    and "md_type d = LINK_COMPACT_STATE" "md_fid d = numI f"
  shows "prefix (1 # be_bytes 4 f) k \<and> (k, v) \<notin> set (user_messages f s)"
  using assms by (rule compact_state_not_listed)

theorem compact_state_left_out_witness:
  "prefix (1 # be_bytes 4 1) (1 # be_bytes 4 1 @ 100 # be_bytes 4 100 @ replicate 20 7) \<and>
   (1 # be_bytes 4 1 @ 100 # be_bytes 4 100 @ replicate 20 7, [1]) \<notin>
     set (user_messages 1 [(1 # be_bytes 4 1 @ 100 # be_bytes 4 100 @ replicate 20 7, [1])])"
  by (rule compact_state_left_out[of "sample_message\<lparr>msg_data := Some (sample_data\<lparr>md_type := LINK_COMPACT_STATE\<rparr>)\<rparr>"
        _ "sample_data\<lparr>md_type := LINK_COMPACT_STATE\<rparr>"])
    (simp_all add: sample_message_def sample_data_def message_key_Ok typeToSetPostfix_def)

section \<open>Storage limits and caches\<close>

text \<open>The largest number of messages a user may store of a kind is linear in the units of the user's
  storage slot: per legacy unit and per new unit the limit of the store that keeps the kind.\<close>

theorem limit_linear_in_units:
  assumes "getCurrentStorageSlotForFid fuel C db now fid (seh_storageCache h) = (Some (Ok slot), c')"
    and "map_of SET_TO_STORE pfx = Some store"
  shows "getMaxMessageCount fuel C db now fid pfx h =
    (Some (Ok (Some (unit_limit store UNIT_TYPE_LEGACY * slot_legacy_units slot +
                     unit_limit store UNIT_TYPE_2024 * slot_units slot))),
     h\<lparr>seh_storageCache := c'\<rparr>)"
  using assms by (rule getMaxMessageCount_linear)

theorem limit_linear_in_units_witness:
  "fst (getMaxMessageCount 1 sample_proto (sample_db []) sample_now (Num 1) CastMessage
     (sample_handler\<lparr>seh_storageCache := sample_cache Map.empty\<rparr>)) =
   Some (Ok (Some (unit_limit STORE_CASTS UNIT_TYPE_LEGACY * 1 + unit_limit STORE_CASTS UNIT_TYPE_2024 * 2)))"
  using limit_linear_in_units[of 1 sample_proto "sample_db []" sample_now "Num 1"
      "sample_handler\<lparr>seh_storageCache := sample_cache Map.empty\<rparr>" sample_slot
      "sample_cache Map.empty" CastMessage STORE_CASTS]
  by (simp add: sample_current_slot SET_TO_STORE_def sample_slot_def)

text \<open>C36: Adding a stored message to the cache, or taking a removed one out of it, keeps the cached counts and
  the cached earliest message of every user and kind equal to what the database holds, if the count
  (and, for an addition, the earliest message) of its kind is already cached.\<close>

theorem cache_follows_database:
  assumes "db_inv s" "counts_agree s c" "earliest_agree s c"
    and "makeMessagePrimaryKeyFromMessage m = Ok k" "set_key m = Ok key" "sc_counts c key \<noteq> None"
  shows "(db_get s k = None \<and> (sc_earliestTsHashes c key \<noteq> None \<or> sc_counts c key = Some 0) \<longrightarrow>
            fst (addMessage db m c) = Some (Ok ()) \<and>
            counts_agree (db_put k v s) (snd (addMessage db m c)) \<and>
            earliest_agree (db_put k v s) (snd (addMessage db m c))) \<and>
         (db_get s k \<noteq> None \<longrightarrow>
            fst (removeMessage db m c) = Some (Ok ()) \<and>
            counts_agree (db_del k s) (snd (removeMessage db m c)) \<and>
            earliest_agree (db_del k s) (snd (removeMessage db m c)))"
  using addMessage_agrees[OF assms(1-4) _ assms(5,6)] removeMessage_agrees[OF assms(1-4) _ assms(5,6)]
  by blast

theorem cache_follows_database_witness:
  "counts_agree (db_put sample_key [1] [])
     (snd (addMessage (sample_db []) sample_message (sample_cache [cast_set_key \<mapsto> 0])))"
  using cache_follows_database[of "[]" "sample_cache [cast_set_key \<mapsto> 0]" sample_message sample_key cast_set_key
      "sample_db []" "[1]"]
  by (simp add: sample_cache_agrees sample_counts_zero sample_message_key sample_set_key db_inv_def db_get_def)

text \<open>Asking for the earliest message of a user and kind answers from a scan or from the cache with the
  least stored key of the kind, none exactly when the kind is empty, and leaves a cache that
  agrees with the database.\<close>

theorem earliest_message_answer:
  assumes "makeKey fid pfx = Ok key" "makeMessagePrimaryKey fid pfx None = Ok p"
    and "fixed_layout (rdb_disk db) p m" "rdb_native_open db" "scan_possible c key"
    and "counts_agree (rdb_disk db) c" "earliest_agree (rdb_disk db) c" "db_inv (rdb_disk db)"
  shows "\<exists>r c'. getEarliestTsHash (Suc fuel) db fid pfx c = (Some (Ok r), c') \<and>
      counts_agree (rdb_disk db) c' \<and> earliest_agree (rdb_disk db) c' \<and>
      sc_counts c' key = Some (int (stored_count p (rdb_disk db))) \<and>
      (case r of None \<Rightarrow> stored_count p (rdb_disk db) = 0
               | Some h \<Rightarrow> is_earliest (fst ` set (rdb_disk db)) p h \<and> sc_earliestTsHashes c' key = Some h)"
  using assms by (rule getEarliestTsHash_agrees)

theorem earliest_message_answer_witness:
  "\<exists>r c'. getEarliestTsHash (Suc 0) (sample_db [(sample_key, [1])]) (Num 1) CastMessage (sample_cache Map.empty) =
      (Some (Ok r), c') \<and>
      counts_agree (rdb_disk (sample_db [(sample_key, [1])])) c' \<and>
      earliest_agree (rdb_disk (sample_db [(sample_key, [1])])) c' \<and>
      sc_counts c' cast_set_key =
        Some (int (stored_count (1 # be_bytes 4 1 @ [1]) (rdb_disk (sample_db [(sample_key, [1])])))) \<and>
      (case r of
         None \<Rightarrow> stored_count (1 # be_bytes 4 1 @ [1]) (rdb_disk (sample_db [(sample_key, [1])])) = 0
       | Some h \<Rightarrow> is_earliest (fst ` set (rdb_disk (sample_db [(sample_key, [1])]))) (1 # be_bytes 4 1 @ [1]) h \<and>
                   sc_earliestTsHashes c' cast_set_key = Some h)"
  by (rule earliest_message_answer[where m = 30])
    (simp_all add: sample_set_key sample_key_layout sample_cache_agrees db_inv_def)

text \<open>A storage slot past its invalidation time is recounted from the rent events of the user: the sums
  of the units of the rents that are still live, and the earliest time at which one of them ends.\<close>

theorem stale_slot_recounted:
  assumes "sc_activeStorageSlots c fid = Some slot" "getFarcasterTime now = Ok time"
    and "slot_invalidateAt slot < time"
    and "db_inv (rdb_disk db)" "rdb_native_open db" "length (rdb_disk db) < fuel"
    and "makeOnChainEventIteratorPrefix EVENT_TYPE_STORAGE_RENT (Some fid) = Ok pre"
    and "fixed_layout (rdb_disk db) pre m"
    and "mapM (\<lambda>e. decodeOnChainEvent C (snd e)) (onchain_entries pre (rdb_disk db)) = Ok evs"
  shows "getCurrentStorageSlotForFid fuel C db now fid c =
    (let slot = slot_total (time + 365 * 24 * 60 * 60) (live_rents time evs)
     in (Some (Ok slot), c\<lparr>sc_activeStorageSlots := (sc_activeStorageSlots c)(fid \<mapsto> slot)\<rparr>))"
  using assms by (rule expired_slot_recounted)

theorem stale_slot_recounted_witness:
  "fst (getCurrentStorageSlotForFid 2 sample_proto (sample_db [([1], [2])]) (sample_now + 200000) (Num 1)
     (sample_cache Map.empty)) =
   Some (Ok (slot_total (300 + 365 * 24 * 60 * 60) (live_rents 300 [])))"
  using stale_slot_recounted[of "sample_cache Map.empty" "Num 1" sample_slot "sample_now + 200000" 300
      "sample_db [([1], [2])]" 2 _ 10 sample_proto "[]", OF _ _ _ _ _ _ sample_rent_prefix]
  by (simp add: sample_cache_agrees sample_slot_def sample_later_time db_inv_def sample_rent_layout Let_def)

text \<open>A message may be pruned exactly when its user's store of that kind is full and the message is older
  than the earliest stored one.\<close>

theorem prunable_iff:
  assumes d: "msg_data m = Some d" and h0: "makeTsHash (md_timestamp d) (msg_hash m) = Ok tsHash"
    and keys: "makeKey (md_fid d) pfx = Ok key" "makeMessagePrimaryKey (md_fid d) pfx None = Ok p"
    and db: "fixed_layout (rdb_disk db) p len" "rdb_native_open db" "db_inv (rdb_disk db)"
    and cache: "counts_agree (rdb_disk db) (seh_storageCache h)" "earliest_agree (rdb_disk db) (seh_storageCache h)"
      "scan_possible (seh_storageCache h) key" "sc_activeStorageSlots (seh_storageCache h) (md_fid d) = Some slot"
    and slot: "getFarcasterTime now = Ok time" "time \<le> slot_invalidateAt slot"
    and store: "map_of SET_TO_STORE pfx = Some store"
    and limit: "limit = unit_limit store UNIT_TYPE_LEGACY * slot_legacy_units slot +
                        unit_limit store UNIT_TYPE_2024 * slot_units slot"
  shows "\<exists>h'. isPrunable (Suc fuel) C db now m pfx 0 h =
     (Some (Ok (limit \<le> int (stored_count p (rdb_disk db)) \<and>
                (\<exists>e. is_earliest (fst ` set (rdb_disk db)) p e \<and> tsHash < e))), h')"
  by (rule isPrunable_decides[OF d h0 keys db _ slot store limit]) (use cache in simp)

theorem prunable_iff_witness:
  "\<exists>h'. isPrunable 1 sample_proto (sample_db [(sample_key, [1])]) sample_now sample_message CastMessage 0
       (sample_handler\<lparr>seh_storageCache := sample_cache Map.empty\<rparr>) =
     (Some (Ok (unit_limit STORE_CASTS UNIT_TYPE_LEGACY * 1 + unit_limit STORE_CASTS UNIT_TYPE_2024 * 2
                  \<le> int (stored_count (1 # be_bytes 4 1 @ [1]) [(sample_key, [1])]) \<and>
                (\<exists>e. is_earliest (fst ` set [(sample_key, [1])]) (1 # be_bytes 4 1 @ [1]) e \<and>
                     be_bytes 4 100 @ replicate 20 7 < e))), h')"
  using prunable_iff[of sample_message sample_data "be_bytes 4 100 @ replicate 20 7" CastMessage cast_set_key
      "1 # be_bytes 4 1 @ [1]" "sample_db [(sample_key, [1])]" 30
      "sample_handler\<lparr>seh_storageCache := sample_cache Map.empty\<rparr>" sample_slot sample_now 100 STORE_CASTS _ 0
      sample_proto, OF _ _ _ _ _ _ _ _ _ _ _ _ _ _ refl]
  by (simp add: sample_message_parts sample_set_key sample_key_layout sample_cache_agrees db_inv_def
      SET_TO_STORE_def sample_slot_def)

section \<open>The event log\<close>



text \<open>A page of the event log is the first events from the asked id on, and asking again with the next id
  it names gives exactly the events that follow: no event is repeated or lost between pages.\<close>

theorem event_pages_seamless:
  assumes "log_holds D (rdb_disk db) evs" "rdb_native_open db" "length (rdb_disk db) < fuel"
    and "0 < fromId" "fromId < 2 ^ 64" "0 < pageSize"
  shows "\<exists>page next. getEventsPage fuel D db fromId pageSize = Some (Ok (page, next)) \<and>
    page = take (nat pageSize) (events_from (Some fromId) evs) \<and>
    (page \<noteq> [] \<longrightarrow> events_from (Some next) evs = drop (nat pageSize) (events_from (Some fromId) evs))"
  using getEventsPage_exact[OF assms] events_next[OF log_ids_increase[OF assms(1)], of "nat pageSize" fromId]
  by (simp add: Let_def)

theorem event_pages_seamless_witness:
  "\<exists>page next. getEventsPage 2 sample_hub_coder sample_log_db 5 1 = Some (Ok (page, next)) \<and>
    page = take (nat 1) (events_from (Some 5) [sample_hub_event]) \<and>
    (page \<noteq> [] \<longrightarrow> events_from (Some next) [sample_hub_event] = drop (nat 1) (events_from (Some 5) [sample_hub_event]))"
  by (rule event_pages_seamless[OF sample_log_holds]) simp_all

text \<open>Pruning removes exactly the events whose id was made before the time limit, three days by default,
  and touches no key outside the log.\<close>

theorem prune_drops_old_events:
  assumes "log_holds D (rdb_disk db) evs" "rdb_native_open db"
    and "before = now - (case timeLimit of Some t \<Rightarrow> t | None \<Rightarrow> PRUNE_TIME_LIMIT_DEFAULT) - FARCASTER_EPOCH"
    and "0 < before" "before < 2 ^ 41"
  shows "\<exists>db'. pruneEvents db now timeLimit = (Ok (), db') \<and> rdb_native_open db' \<and>
     log_holds D (rdb_disk db') (filter (\<lambda>e. before * 4096 \<le> he_id e) evs) \<and>
     (\<forall>k. \<not> prefix [15] k \<longrightarrow> db_get (rdb_disk db') k = db_get (rdb_disk db) k)"
proof (rule pruneEvents_exact[OF assms(1,2)])
  let ?t = "now - (case timeLimit of Some t \<Rightarrow> t | None \<Rightarrow> PRUNE_TIME_LIMIT_DEFAULT)"
  show "makeEventId ?t 0 = Some (before * 4096)"
    using assms(3,4) makeEventId_value[of ?t 0] by simp
qed (use assms(4,5) in simp_all)

theorem prune_drops_old_events_witness:
  "\<exists>db'. pruneEvents sample_log_db (sample_now + 1) (Some 0) = (Ok (), db') \<and> rdb_native_open db' \<and>
     log_holds sample_hub_coder (rdb_disk db') (filter (\<lambda>e. 100001 * 4096 \<le> he_id e) [sample_hub_event]) \<and>
     (\<forall>k. \<not> prefix [15] k \<longrightarrow> db_get (rdb_disk db') k = db_get (rdb_disk sample_log_db) k)"
  by (rule prune_drops_old_events[OF sample_log_holds]) (simp_all add: sample_now_def FARCASTER_EPOCH_def)



section \<open>On-chain events\<close>





text \<open>After a merge of a registration or a transfer that is not older than the indexed one, the id and the
  new custody address lead to the merged event, and every other custody address still leads where
  it led before, the address that the id was transferred from included.\<close>

theorem id_register_lookups:
  assumes "mergeOnChainEvent fuel C D db now event h st = (Some (Ok i), db', h', st')"
    and "db_inv (rdb_disk db)" "event_codec_law C event"
    and "isIdRegisterOnChainEvent event" "oce_idRegisterEventBody event = Some b"
    and "ireb_eventType b \<noteq> ID_REGISTER_CHANGE_RECOVERY"
    and "makeIdRegisterEventByFidKey (oce_fid event) = Ok k" "not_superseded C db event k"
  shows "fst (getIdRegisterEventByFid C db' (oce_fid event) st') = Ok event \<and>
    getIdRegisterEventByCustodyAddress C db' (ireb_to b) = Ok event \<and>
    (\<forall>a old p. a \<noteq> ireb_to b \<and> getIdRegisterEventByCustodyAddress C db a = Ok old \<and>
       db_get (rdb_disk db) (makeIdRegisterEventByCustodyKey a) = Some p \<and> prefix [23, 1] p \<longrightarrow>
       getIdRegisterEventByCustodyAddress C db' a = Ok old)"
  using id_lookups_after[OF assms] by blast

theorem id_register_lookups_witness:
  "\<exists>i db' h' st'. mergeOnChainEvent 1 (event_coder sample_registration) sample_hub_coder (sample_db []) sample_now
      sample_registration sample_handler new_OnChainEventStore = (Some (Ok i), db', h', st') \<and>
      fst (getIdRegisterEventByFid (event_coder sample_registration) db' (oce_fid sample_registration) st') =
        Ok sample_registration"
proof -
  obtain i db' h' st' where m: "mergeOnChainEvent 1 (event_coder sample_registration) sample_hub_coder
      (sample_db []) sample_now sample_registration sample_handler new_OnChainEventStore =
      (Some (Ok i), db', h', st')"
    using sample_id_merge by blast
  then show ?thesis
    using id_register_lookups[OF m, of sample_id_body] sample_id_parts sample_signer_parts(11)
    by (simp add: db_inv_def)
qed

text \<open>A page of on-chain events holds the decoded events that follow the page token in key order, and the
  token it returns leads to exactly the rest: going through the pages visits every event once.\<close>

theorem onchain_pages_seamless:
  assumes "db_inv (rdb_disk db)" "rdb_native_open db" "page_layout (rdb_disk db) pre"
    and "case po_pageSize opts of Some n \<Rightarrow> n \<le> PAGE_SIZE_MAX | None \<Rightarrow> True"
    and "length (rdb_disk db) < fuel" "0 < page_limit opts"
    and "rest = page_remaining (rdb_disk db) pre opts"
  shows "\<exists>token. getOnChainEventsPageByPrefix fuel C db pre event_filter opts =
      Some (mapOk (getManyOnChainEvents C db (map snd (take (page_limit opts) rest)))
             (\<lambda>events. (filter event_filter events, token))) \<and>
      (case token of
         None \<Rightarrow> length rest < page_limit opts
       | Some t \<Rightarrow> page_remaining (rdb_disk db) pre (opts\<lparr>po_pageToken := Some t\<rparr>) = drop (page_limit opts) rest)"
proof -
  note exact = getOnChainEventsPage_exact[OF assms(1-5), of C event_filter]
  show ?thesis
  proof (cases "length rest < page_limit opts")
    case True
    then show ?thesis
      using exact by (intro exI[of _ None]) (simp add: assms(7) Let_def)
  next
    case False
    let ?t = "drop (length pre) (fst (rest ! (page_limit opts - 1)))"
    have "page_remaining (rdb_disk db) pre (opts\<lparr>po_pageToken := Some ?t\<rparr>) = drop (Suc (page_limit opts - 1)) rest"
      unfolding assms(7) by (rule page_remaining_next[OF assms(1) _ refl]) (use False assms(6,7) in simp)
    with False exact assms(6) show ?thesis
      by (intro exI[of _ "Some ?t"]) (simp add: assms(7) Let_def)
  qed
qed

theorem onchain_pages_seamless_witness:
  "\<exists>token. getOnChainEventsPageByPrefix 3 sample_proto (sample_db [([23, 51, 7], [1])]) [23, 51] (\<lambda>e. True)
        no_page_options =
      Some (mapOk (getManyOnChainEvents sample_proto (sample_db [([23, 51, 7], [1])])
              (map snd (take (page_limit no_page_options)
                 (page_remaining (rdb_disk (sample_db [([23, 51, 7], [1])])) [23, 51] no_page_options))))
             (\<lambda>events. (filter (\<lambda>e. True) events, token))) \<and>
      (case token of
         None \<Rightarrow> length (page_remaining (rdb_disk (sample_db [([23, 51, 7], [1])])) [23, 51] no_page_options)
                  < page_limit no_page_options
       | Some t \<Rightarrow>
           page_remaining (rdb_disk (sample_db [([23, 51, 7], [1])])) [23, 51] (no_page_options\<lparr>po_pageToken := Some t\<rparr>) =
           drop (page_limit no_page_options)
             (page_remaining (rdb_disk (sample_db [([23, 51, 7], [1])])) [23, 51] no_page_options))"
  by (rule onchain_pages_seamless)
    (simp_all add: db_inv_def page_layout_def no_page_options_def page_limit_def increment_vec_u8_def PAGE_SIZE_MAX_def)

end
